(* ===== verification/Go_Prelude.thy ===== *)
theory Go_Prelude
  imports Complex_Main "HOL-Library.Sublist" "HOL-Library.Char_ord"
begin

text \<open>
  Shared vocabulary of the development: Go errors with wrapping, results, the few
  functions of the packages \<open>strings\<close> and \<open>fmt\<close> that the modelled code calls, dynamic
  values (\<^verbatim>\<open>interface{}\<close>), and the generic lemmas the component theories rest on.

  Conventions. A Go \<^verbatim>\<open>string\<close> is a list of bytes, so \<open>length\<close> is Go's \<^verbatim>\<open>len\<close>. Case mapping and
  white space are those of ASCII; bytes above 127 are left alone. A Go \<^verbatim>\<open>int\<close> is an \<open>int\<close>
  or \<open>nat\<close>; no modelled computation gets near the 64-bit bounds unless it says so. A
  \<^verbatim>\<open>float64\<close> is a \<open>real\<close>: rounding is not modelled. A \<^verbatim>\<open>time.Time\<close> is an \<open>int\<close> of nanoseconds with
  \<open>0\<close> as the zero time, and an operation that reads the clock takes the reading as an
  argument.
\<close>

named_theorems go_simps \<open>unfolding rules for the small library functions\<close>

section \<open>Errors\<close>

text \<open>
  A sentinel (\<^verbatim>\<open>errors.New\<close> bound to a package variable) is compared by identity; a plain
  error only carries its text; \<^verbatim>\<open>fmt.Errorf\<close> with \<^verbatim>\<open>%w\<close> wraps an error between two pieces of
  text.
\<close>

datatype goerr =
    ESentinel string
  | EMsg string
  | EWrap string goerr string

type_synonym 'a result = "goerr + 'a"

primrec err_text :: "goerr \<Rightarrow> string" where
  "err_text (ESentinel s) = s"
| "err_text (EMsg s) = s"
| "err_text (EWrap p e q) = p @ err_text e @ q"

text \<open>\<^verbatim>\<open>errors.Is(err, target)\<close> for a sentinel target: walk the wrap chain.\<close>

primrec errors_is :: "goerr \<Rightarrow> string \<Rightarrow> bool" where
  "errors_is (ESentinel s) t = (s = t)"
| "errors_is (EMsg s) t = False"
| "errors_is (EWrap p e q) t = errors_is e t"

definition context_Canceled :: string where
  "context_Canceled = ''context canceled''"

definition context_DeadlineExceeded :: string where
  "context_DeadlineExceeded = ''context deadline exceeded''"

lemma errors_is_text: "errors_is e t \<Longrightarrow> sublist t (err_text e)"
proof (induction e)
  case (EWrap p e q)
  then have "sublist t (err_text e)" by simp
  moreover have "sublist (err_text e) (err_text (EWrap p e q))"
    by (auto simp: sublist_def)
  ultimately show ?case by (rule sublist_order.order_trans)
qed simp_all

abbreviation is_ok :: "'a result \<Rightarrow> bool" where
  "is_ok r \<equiv> (case r of Inl _ \<Rightarrow> False | Inr _ \<Rightarrow> True)"

lemma is_ok_iff [simp]: "is_ok r \<longleftrightarrow> (\<exists>x. r = Inr x)"
  by (cases r) auto

section \<open>Strings\<close>

abbreviation has_prefix :: "string \<Rightarrow> string \<Rightarrow> bool" where
  "has_prefix s p \<equiv> prefix p s"

abbreviation has_suffix :: "string \<Rightarrow> string \<Rightarrow> bool" where
  "has_suffix s p \<equiv> suffix p s"

abbreviation str_contains :: "string \<Rightarrow> string \<Rightarrow> bool" where
  "str_contains s p \<equiv> sublist p s"

definition lower_char :: "char \<Rightarrow> char" where
  "lower_char c = (if CHR ''A'' \<le> c \<and> c \<le> CHR ''Z'' then char_of (of_char c + 32 :: nat) else c)"

definition to_lower :: "string \<Rightarrow> string" where
  "to_lower s = map lower_char s"

definition is_space :: "char \<Rightarrow> bool" where
  "is_space c \<longleftrightarrow> c \<in> {CHR '' '', CHR 0x09, CHR 0x0A, CHR 0x0B, CHR 0x0C, CHR 0x0D}"

definition trim_space :: "string \<Rightarrow> string" where
  "trim_space s = rev (dropWhile is_space (rev (dropWhile is_space s)))"

definition trim_suffix :: "string \<Rightarrow> string \<Rightarrow> string" where
  "trim_suffix s p = (if has_suffix s p then take (length s - length p) s else s)"

definition trim_prefix :: "string \<Rightarrow> string \<Rightarrow> string" where
  "trim_prefix s p = (if has_prefix s p then drop (length p) s else s)"

text \<open>\<^verbatim>\<open>strings.Split(s, sep)\<close> for a separator of one byte, and \<^verbatim>\<open>strings.Join\<close>.\<close>

fun split_byte :: "char \<Rightarrow> string \<Rightarrow> string list" where
  "split_byte c [] = [[]]"
| "split_byte c (x # xs) =
     (if x = c then [] # split_byte c xs
      else (case split_byte c xs of [] \<Rightarrow> [[x]] | p # ps \<Rightarrow> (x # p) # ps))"

fun str_join :: "string list \<Rightarrow> string \<Rightarrow> string" where
  "str_join [] sep = []"
| "str_join [p] sep = p"
| "str_join (p # q # ps) sep = p @ sep @ str_join (q # ps) sep"

lemma split_byte_ne [simp]: "split_byte c s \<noteq> []"
  by (induction s) (auto split: list.splits)

lemma str_join_Cons: "ps \<noteq> [] \<Longrightarrow> str_join (p # ps) sep = p @ sep @ str_join ps sep"
  by (cases ps) auto

lemma join_split_byte [simp]: "str_join (split_byte c s) [c] = s"
proof (induction s)
  case (Cons x xs)
  then show ?case
    by (cases "split_byte c xs") (auto simp: str_join_Cons, metis append_Cons str_join.simps(2) str_join_Cons)
qed simp

lemma length_split_byte: "length (split_byte c s) = Suc (count_list s c)"
  by (induction s) (auto split: list.splits)

lemma length_to_lower [simp]: "length (to_lower s) = length s"
  by (simp add: to_lower_def)

lemma lower_char_idem [simp]: "lower_char (lower_char c) = lower_char c"
proof (cases "CHR ''A'' \<le> c \<and> c \<le> CHR ''Z''")
  case True
  then have b: "65 \<le> (of_char c :: nat)" "(of_char c :: nat) \<le> 90"
    by (simp_all add: less_eq_char_def)
  then have "(of_char (char_of (of_char c + 32 :: nat)) :: nat) = of_char c + 32"
    by (simp add: of_char_of)
  then have "\<not> char_of (of_char c + 32 :: nat) \<le> CHR ''Z''"
    using b by (simp add: less_eq_char_def)
  with True show ?thesis by (simp add: lower_char_def)
next
  case False
  then have "lower_char c = c" by (auto simp: lower_char_def)
  then show ?thesis by simp
qed

lemma to_lower_idem [simp]: "to_lower (to_lower s) = to_lower s"
  by (simp add: to_lower_def)

lemma to_lower_append [simp]: "to_lower (s @ t) = to_lower s @ to_lower t"
  by (simp add: to_lower_def)

lemma sublist_to_lower: "sublist p s \<Longrightarrow> sublist (to_lower p) (to_lower s)"
  unfolding sublist_def by (metis to_lower_append)

lemma trim_space_le: "length (trim_space s) \<le> length s"
  using length_dropWhile_le [of is_space s]
    length_dropWhile_le [of is_space "rev (dropWhile is_space s)"]
  by (simp add: trim_space_def)

text \<open>\<^verbatim>\<open>strings.Index\<close>, as the text before and after the first occurrence of \<open>p\<close>.\<close>

fun str_cut :: "string \<Rightarrow> string \<Rightarrow> (string \<times> string) option" where
  "str_cut p [] = (if p = [] then Some ([], []) else None)"
| "str_cut p (c # cs) =
     (if prefix p (c # cs) then Some ([], drop (length p) (c # cs))
      else map_option (\<lambda>(a, b). (c # a, b)) (str_cut p cs))"

lemma str_cut_Some: "str_cut p s = Some (a, b) \<Longrightarrow> s = a @ p @ b"
proof (induction p s arbitrary: a rule: str_cut.induct)
  case (2 p c cs)
  then show ?case by (auto simp: prefix_def split: if_splits)
qed (auto split: if_splits)

lemma str_cut_None: "str_cut p s = None \<longleftrightarrow> \<not> sublist p s"
proof (induction p s rule: str_cut.induct)
  case (2 p c cs)
  then show ?case by (auto simp: sublist_Cons_right)
qed auto

lemma str_cut_first: "str_cut p s = Some (a, b) \<Longrightarrow> p \<noteq> [] \<Longrightarrow> \<not> sublist p a"
proof (induction p s arbitrary: a rule: str_cut.induct)
  case (2 p c cs)
  show ?case
  proof (cases "prefix p (c # cs)")
    case False
    then obtain a' where a: "a = c # a'" "str_cut p cs = Some (a', b)" using 2 by auto
    then have "\<not> sublist p a'" using 2 False by auto
    moreover have "c # cs = c # a' @ p @ b" using str_cut_Some [OF a(2)] by simp
    then have "\<not> prefix p (c # a')" using False by (metis append_Cons prefix_append)
    ultimately show ?thesis using a(1) by (simp add: sublist_Cons_right)
  qed (use 2 in auto)
qed (auto split: if_splits)

text \<open>\<^verbatim>\<open>strings.ReplaceAll\<close> for a non-empty pattern.\<close>

function replace_all :: "string \<Rightarrow> string \<Rightarrow> string \<Rightarrow> string" where
  "replace_all p nw s =
     (if p = [] then s
      else case str_cut p s of None \<Rightarrow> s | Some (a, b) \<Rightarrow> a @ nw @ replace_all p nw b)"
  by pat_completeness auto
termination
  by (relation "measure (\<lambda>(p, b, s). length s)") (auto dest!: str_cut_Some)

declare replace_all.simps [simp del]

lemma length_replace_all:
  "p \<noteq> [] \<Longrightarrow> length nw \<le> length p \<Longrightarrow> length (replace_all p nw s) \<le> length s"
proof (induction p nw s rule: replace_all.induct)
  case (1 p nw s)
  show ?case
  proof (cases "str_cut p s")
    case None
    with "1.prems" show ?thesis by (simp add: replace_all.simps [of p nw s])
  next
    case (Some ab)
    obtain a b where ab: "ab = (a, b)" by fastforce
    have "length (replace_all p nw b) \<le> length b" using "1.IH" Some ab "1.prems" by blast
    moreover have "length s = length a + length p + length b" using str_cut_Some [of p s a b] Some ab by simp
    ultimately show ?thesis using Some ab "1.prems" by (simp add: replace_all.simps [of p nw s])
  qed
qed

lemma length_replace_all_less:
  assumes "sublist p s" "length nw < length p"
  shows "length (replace_all p nw s) < length s"
proof -
  have "p \<noteq> []" using assms(2) by auto
  obtain a b where ab: "str_cut p s = Some (a, b)" using assms(1) str_cut_None [of p s] by (cases "str_cut p s") auto
  have "length (replace_all p nw b) \<le> length b" using length_replace_all [OF \<open>p \<noteq> []\<close>] assms(2) by simp
  moreover have "length s = length a + length p + length b" using str_cut_Some [OF ab] by simp
  ultimately show ?thesis using ab assms(2) \<open>p \<noteq> []\<close> by (simp add: replace_all.simps [of p nw s])
qed

definition upper :: "string \<Rightarrow> string" where
  "upper s = map (\<lambda>ch. if CHR ''a'' \<le> ch \<and> ch \<le> CHR ''z'' then char_of (of_char ch - 32 :: nat) else ch) s"

section \<open>Decimal numerals\<close>

fun show_nat :: "nat \<Rightarrow> string" where
  "show_nat n = (if n < 10 then [char_of (48 + n)]
                 else show_nat (n div 10) @ [char_of (48 + n mod 10)])"

declare show_nat.simps [simp del]

definition show_int :: "int \<Rightarrow> string" where
  "show_int i = (if i < 0 then CHR ''-'' # show_nat (nat (- i)) else show_nat (nat i))"

lemma char_digit_inj:
  assumes "char_of (48 + m) = (char_of (48 + n) :: char)" "m < 10" "n < (10::nat)"
  shows "m = n"
proof -
  have "(of_char (char_of (48 + m) :: char) :: nat) = of_char (char_of (48 + n) :: char)"
    using assms(1) by simp
  with assms(2,3) show ?thesis by (simp add: of_char_of)
qed

lemma show_nat_ne [simp]: "show_nat n \<noteq> []"
  by (subst show_nat.simps) simp

lemma Nil_ne_show_nat [simp]: "[] \<noteq> show_nat n"
  by (metis show_nat_ne)

lemma show_nat_inj: "show_nat m = show_nat n \<longleftrightarrow> m = n"
proof
  show "show_nat m = show_nat n \<Longrightarrow> m = n"
  proof (induction m arbitrary: n rule: show_nat.induct)
    case (1 m)
    show ?case
    proof (cases "m < 10"; cases "n < 10")
      assume "m < 10" "n < 10"
      with "1.prems" have "char_of (48 + m) = (char_of (48 + n) :: char)"
        by (simp add: show_nat.simps [of m] show_nat.simps [of n])
      then show ?thesis using \<open>m < 10\<close> \<open>n < 10\<close> by (rule char_digit_inj)
    next
      assume "m < 10" "\<not> n < 10"
      with "1.prems" show ?thesis
        by (simp add: show_nat.simps [of m] show_nat.simps [of n])
    next
      assume "\<not> m < 10" "n < 10"
      with "1.prems" show ?thesis
        by (simp add: show_nat.simps [of m] show_nat.simps [of n])
    next
      assume ge: "\<not> m < 10" "\<not> n < 10"
      with "1.prems" have "show_nat (m div 10) = show_nat (n div 10)"
        and d: "char_of (48 + m mod 10) = (char_of (48 + n mod 10) :: char)"
        by (simp_all add: show_nat.simps [of m] show_nat.simps [of n])
      from "1.IH" [OF ge(1) this(1)] have "m div 10 = n div 10" .
      moreover from d have "m mod 10 = n mod 10" by (rule char_digit_inj) simp_all
      ultimately show ?thesis by (metis div_mult_mod_eq)
    qed
  qed
qed simp

lemma digit_bounds: "n < 10 \<Longrightarrow> CHR ''0'' \<le> char_of (48 + n) \<and> char_of (48 + n) \<le> CHR ''9''"
  for n :: nat
  by (simp add: less_eq_char_def of_char_of)

lemma show_nat_digits: "c \<in> set (show_nat n) \<Longrightarrow> CHR ''0'' \<le> c \<and> c \<le> CHR ''9''"
proof (induction n rule: show_nat.induct)
  case (1 n)
  show ?case
  proof (cases "n < 10")
    case True
    with "1.prems" show ?thesis by (simp add: show_nat.simps [of n] digit_bounds)
  next
    case False
    with "1" show ?thesis
      by (auto simp: show_nat.simps [of n] digit_bounds)
  qed
qed

section \<open>Dynamic values and maps\<close>

datatype gvalue =
    VNil
  | VBool bool
  | VInt int
  | VFloat real
  | VFloat32 real
  | VString string
  | VStrings "string list"
  | VList "gvalue list"
  | VMap "(string \<times> gvalue) list"

type_synonym gmap = "string \<rightharpoonup> gvalue"

text \<open>The comma-ok assertion \<^verbatim>\<open>v.(string)\<close> on a map read \<^verbatim>\<open>m[k]\<close>; a missing key reads as nil.\<close>

definition get_string :: "gmap \<Rightarrow> string \<Rightarrow> string option" where
  "get_string m k = (case m k of Some (VString s) \<Rightarrow> Some s | _ \<Rightarrow> None)"

definition get_bool :: "gmap \<Rightarrow> string \<Rightarrow> bool option" where
  "get_bool m k = (case m k of Some (VBool b) \<Rightarrow> Some b | _ \<Rightarrow> None)"

definition get_float :: "gmap \<Rightarrow> string \<Rightarrow> real option" where
  "get_float m k = (case m k of Some (VFloat f) \<Rightarrow> Some f | _ \<Rightarrow> None)"

lemma get_string_upd [simp]:
  "get_string (m(k \<mapsto> v)) j =
     (if j = k then (case v of VString s \<Rightarrow> Some s | _ \<Rightarrow> None) else get_string m j)"
  by (simp add: get_string_def split: gvalue.splits)

lemma get_string_None_map [simp]: "get_string Map.empty k = None"
  by (simp add: get_string_def)

lemma map_add_self [simp]: "m ++ m = m"
  by (rule ext) (simp add: map_add_def split: option.split)

text \<open>Last element of a list kept by a bounded suffix (\<^verbatim>\<open>xs[len(xs)-n:]\<close> when \<open>n\<close> is in range).\<close>

definition last_n :: "int \<Rightarrow> 'a list \<Rightarrow> 'a list" where
  "last_n n xs = (if 0 < n \<and> n < int (length xs) then drop (length xs - nat n) xs else xs)"

lemma length_last_n:
  "length (last_n n xs) = (if 0 < n then min (nat n) (length xs) else length xs)"
  by (auto simp: last_n_def)

lemma suffix_last_n: "suffix (last_n n xs) xs"
  by (auto simp: last_n_def suffix_drop)

lemma split_byte_append: "split_byte c (s @ c # t) = split_byte c s @ split_byte c t"
  by (induction s) (auto split: list.splits)

lemma split_byte_notin: "c \<notin> set s \<Longrightarrow> split_byte c s = [s]"
  by (induction s) auto

lemma split_join: "cs \<noteq> [] \<Longrightarrow> \<forall>c\<in>set cs. b \<notin> set c \<Longrightarrow> split_byte b (str_join cs [b]) = cs"
proof (induction cs "[b]" rule: str_join.induct)
  case (3 p q ps)
  then show ?case using split_byte_append [of b p "str_join (q # ps) [b]"] by (simp add: split_byte_notin)
qed (simp_all add: split_byte_notin)

section \<open>Values after JSON\<close>

text \<open>What a value is after a pass through JSON: numbers are \<^verbatim>\<open>float64\<close>, lists are generic.\<close>

fun json_norm :: "gvalue \<Rightarrow> gvalue" where
  "json_norm (VInt i) = VFloat (of_int i)"
| "json_norm (VFloat32 x) = VFloat x"
| "json_norm (VStrings ss) = VList (map VString ss)"
| "json_norm (VList vs) = VList (map json_norm vs)"
| "json_norm (VMap kvs) = VMap (map (\<lambda>(k, v). (k, json_norm v)) kvs)"
| "json_norm v = v"

lemma json_norm_idem [simp]: "json_norm (json_norm v) = json_norm v"
  by (induction v rule: json_norm.induct) auto

end
