(* ===== verification/LLM_Breaker.thy ===== *)
theory LLM_Breaker
  imports Go_Prelude
begin

text \<open>
  The circuit breaker of \<^verbatim>\<open>pkg/llm/circuitbreaker.go\<close>. Each method runs under the breaker's
  mutex, so one method call is one atomic step; \<open>now\<close> is the clock reading it makes. The
  interleaving of concurrent provider calls is the step relation \<open>breaker_step\<close>: a call is in
  flight between its \<^verbatim>\<open>beforeCall\<close> and its \<^verbatim>\<open>afterCall\<close>.
\<close>

section \<open>State and operations\<close>

datatype breakerState = breakerClosed | breakerOpen | breakerHalfOpen

record circuitBreaker =
  threshold :: int
  cooldown :: int
  failures :: int
  brk_state :: breakerState
  openedAt :: int
  trialActive :: bool

definition ErrCircuitOpen :: string where
  "ErrCircuitOpen = ''llm: circuit breaker open''"

definition newCircuitBreaker :: "int \<Rightarrow> int \<Rightarrow> circuitBreaker" where
  "newCircuitBreaker thr cool =
     \<lparr>threshold = (if thr \<le> 0 then 5 else thr),
      cooldown = (if cool \<le> 0 then 30 * 10 ^ 9 else cool),
      failures = 0, brk_state = breakerClosed, openedAt = 0, trialActive = False\<rparr>"

text \<open>\<open>(allow, isTrial, breaker)\<close>.\<close>

definition beforeCall :: "int \<Rightarrow> circuitBreaker \<Rightarrow> bool \<times> bool \<times> circuitBreaker" where
  "beforeCall now b =
     (case brk_state b of
        breakerClosed \<Rightarrow> (True, False, b)
      | breakerOpen \<Rightarrow>
          if now - openedAt b \<ge> cooldown b
          then (True, True, b\<lparr>brk_state := breakerHalfOpen, trialActive := True\<rparr>)
          else (False, False, b)
      | breakerHalfOpen \<Rightarrow>
          if trialActive b then (False, False, b)
          else (True, True, b\<lparr>trialActive := True\<rparr>))"

definition not_provider_failure :: "goerr \<Rightarrow> bool" where
  "not_provider_failure e \<longleftrightarrow> errors_is e context_Canceled \<or> errors_is e ErrCircuitOpen"

definition afterCall :: "int \<Rightarrow> bool \<Rightarrow> goerr option \<Rightarrow> circuitBreaker \<Rightarrow> circuitBreaker" where
  "afterCall now trial err b =
     (case err of
        None \<Rightarrow> b\<lparr>failures := 0, brk_state := breakerClosed, trialActive := False\<rparr>
      | Some e \<Rightarrow>
          if not_provider_failure e then (if trial then b\<lparr>trialActive := False\<rparr> else b)
          else (let b1 = b\<lparr>failures := failures b + 1\<rparr>;
                    b2 = (if brk_state b1 = breakerHalfOpen \<or> failures b1 \<ge> threshold b1
                          then b1\<lparr>brk_state := breakerOpen, openedAt := now\<rparr> else b1)
                in b2\<lparr>trialActive := False\<rparr>))"

definition breaker_State :: "circuitBreaker \<Rightarrow> string" where
  "breaker_State b = (case brk_state b of breakerOpen \<Rightarrow> ''open''
     | breakerHalfOpen \<Rightarrow> ''half-open'' | breakerClosed \<Rightarrow> ''closed'')"

section \<open>Invariant\<close>

text \<open>
  The circuit is closed exactly while fewer than \<open>threshold\<close> failures are counted, and the
  trial flag is only raised in the half-open state.
\<close>

definition breaker_inv :: "circuitBreaker \<Rightarrow> bool" where
  "breaker_inv b \<longleftrightarrow> 0 < threshold b \<and> 0 < cooldown b \<and> 0 \<le> failures b \<and>
     (brk_state b = breakerClosed \<longleftrightarrow> failures b < threshold b) \<and>
     (trialActive b \<longrightarrow> brk_state b = breakerHalfOpen)"

lemmas breaker_defs = beforeCall_def afterCall_def breaker_inv_def Let_def

lemma newCircuitBreaker_inv: "breaker_inv (newCircuitBreaker thr cool)"
  by (simp add: newCircuitBreaker_def breaker_inv_def)

lemma beforeCall_inv: "breaker_inv b \<Longrightarrow> beforeCall now b = (a, tr, b') \<Longrightarrow> breaker_inv b'"
  by (auto simp: breaker_defs split: breakerState.splits if_splits)

lemma afterCall_inv: "breaker_inv b \<Longrightarrow> breaker_inv (afterCall now tr err b)"
  by (cases "brk_state b") (auto simp: breaker_defs split: option.splits)

lemma beforeCall_refused: "beforeCall now b = (False, tr, b') \<Longrightarrow> \<not> tr \<and> b' = b"
  by (auto simp: beforeCall_def split: breakerState.splits if_splits)

lemma beforeCall_trial_half_open:
  "beforeCall now b = (True, True, b') \<Longrightarrow> brk_state b' = breakerHalfOpen \<and> trialActive b'"
  by (auto simp: beforeCall_def split: breakerState.splits if_splits)

lemma afterCall_config [simp]:
  "threshold (afterCall now tr err b) = threshold b"
  "cooldown (afterCall now tr err b) = cooldown b"
  by (auto simp: afterCall_def Let_def split: option.splits)

lemma beforeCall_config:
  "beforeCall now b = (a, tr, b') \<Longrightarrow> threshold b' = threshold b \<and> cooldown b' = cooldown b"
  by (auto simp: beforeCall_def split: breakerState.splits if_splits)

section \<open>The gate a client relies on\<close>

text \<open>
  What the middleware uses of a breaker: it asks before a call and reports after it. The laws
  say that a refusal leaves the gate alone, that both operations keep the invariant, and that
  an outcome which is not the provider's fault never changes whether the gate is open.
\<close>

locale call_gate =
  fixes ask :: "int \<Rightarrow> 'g \<Rightarrow> bool \<times> bool \<times> 'g"
    and report :: "int \<Rightarrow> bool \<Rightarrow> goerr option \<Rightarrow> 'g \<Rightarrow> 'g"
    and ginv :: "'g \<Rightarrow> bool"
    and tripped :: "'g \<Rightarrow> bool"
  assumes ask_inv: "ginv g \<Longrightarrow> ask now g = (a, tr, g') \<Longrightarrow> ginv g'"
    and ask_refused: "ask now g = (False, tr, g') \<Longrightarrow> g' = g"
    and ask_untripped: "ginv g \<Longrightarrow> \<not> tripped g \<Longrightarrow> ask now g = (True, False, g)"
    and report_inv: "ginv g \<Longrightarrow> ginv (report now tr err g)"
    and report_ok: "\<not> tripped (report now tr None g)"
    and report_neutral: "not_provider_failure e \<Longrightarrow> tripped (report now tr (Some e) g) = tripped g"
begin

text \<open>A call through the gate: the provider runs only when the gate admits it.\<close>

definition gated :: "int \<Rightarrow> int \<Rightarrow> (unit \<Rightarrow> goerr option \<times> 'r) \<Rightarrow> 'g \<Rightarrow> (goerr option \<times> 'r) option \<times> 'g" where
  "gated t1 t2 f g =
     (case ask t1 g of (a, tr, g1) \<Rightarrow>
        if \<not> a then (None, g1)
        else (let (e, r) = f () in (Some (e, r), report t2 tr e g1)))"

lemma gated_inv: "ginv g \<Longrightarrow> gated t1 t2 f g = (r, g') \<Longrightarrow> ginv g'"
  by (auto simp: gated_def report_inv dest: ask_inv split: prod.splits if_splits)

lemma gated_refused: "gated t1 t2 f g = (None, g') \<Longrightarrow> g' = g"
  by (auto simp: gated_def dest: ask_refused split: prod.splits if_splits)

lemma gated_success_untrips: "gated t1 t2 f g = (Some (None, r), g') \<Longrightarrow> \<not> tripped g'"
  by (auto simp: gated_def report_ok split: prod.splits if_splits)

lemma gated_neutral_untripped:
  assumes "ginv g" "\<not> tripped g" "f () = (Some e, r)" "not_provider_failure e"
  shows "\<exists>g'. gated t1 t2 f g = (Some (Some e, r), g') \<and> \<not> tripped g'"
  using assms by (auto simp: gated_def ask_untripped report_neutral)

end

interpretation cb: call_gate beforeCall afterCall breaker_inv
  "\<lambda>b. brk_state b \<noteq> breakerClosed"
proof unfold_locales
  show "beforeCall now g = (True, False, g)"
    if "breaker_inv g" "\<not> brk_state g \<noteq> breakerClosed" for g now
    using that by (simp add: beforeCall_def)
  show "breaker_inv g'" if "breaker_inv g" "beforeCall now g = (a, tr, g')" for g now a tr g'
    using that by (rule beforeCall_inv)
  show "g' = g" if "beforeCall now g = (False, tr, g')" for now g tr g'
    using beforeCall_refused [OF that] by simp
  show "breaker_inv (afterCall now tr err g)" if "breaker_inv g" for g now tr err
    using that by (rule afterCall_inv)
qed (auto simp: afterCall_def)

section \<open>Concurrent calls\<close>

text \<open>
  The breaker with the calls in flight (each by its trial flag) and the clock. \<open>begin_call\<close>
  and \<open>end_call\<close> are the two critical sections of one provider call; any number of other
  calls may begin and end between them.
\<close>

record breaker_sys =
  brk :: circuitBreaker
  flight :: "bool list"
  clock :: int

inductive breaker_step :: "breaker_sys \<Rightarrow> breaker_sys \<Rightarrow> bool" where
  tick: "clock s \<le> t \<Longrightarrow> breaker_step s (s\<lparr>clock := t\<rparr>)"
| begin_call: "beforeCall (clock s) (brk s) = (True, tr, b) \<Longrightarrow>
     breaker_step s (s\<lparr>brk := b, flight := tr # flight s\<rparr>)"
| refuse_call: "beforeCall (clock s) (brk s) = (False, tr, b) \<Longrightarrow>
     breaker_step s (s\<lparr>brk := b\<rparr>)"
| end_call: "flight s = xs @ tr # ys \<Longrightarrow>
     breaker_step s (s\<lparr>brk := afterCall (clock s) tr err (brk s), flight := xs @ ys\<rparr>)"

inductive breaker_reach :: "int \<Rightarrow> int \<Rightarrow> breaker_sys \<Rightarrow> bool" for thr cool where
  start: "breaker_reach thr cool \<lparr>brk = newCircuitBreaker thr cool, flight = [], clock = t\<rparr>"
| step: "breaker_reach thr cool s \<Longrightarrow> breaker_step s s' \<Longrightarrow> breaker_reach thr cool s'"

inductive_cases breaker_stepE: "breaker_step s s'"

definition sys_inv :: "breaker_sys \<Rightarrow> bool" where
  "sys_inv s \<longleftrightarrow> breaker_inv (brk s) \<and> (trialActive (brk s) \<longrightarrow> True \<in> set (flight s))"

lemma sys_inv_step: "breaker_step s s' \<Longrightarrow> sys_inv s \<Longrightarrow> sys_inv s'"
proof (induction rule: breaker_step.induct)
  case (tick s t)
  then show ?case by (simp add: sys_inv_def)
next
  case (begin_call s tr b)
  then have "breaker_inv b" by (auto simp: sys_inv_def intro: beforeCall_inv)
  moreover have "trialActive b \<longrightarrow> True \<in> set (tr # flight s)"
    using begin_call by (auto simp: sys_inv_def beforeCall_def split: breakerState.splits if_splits)
  ultimately show ?case by (simp add: sys_inv_def)
next
  case (refuse_call s tr b)
  then show ?case using beforeCall_refused [of "clock s" "brk s" tr b] by (simp add: sys_inv_def)
next
  case (end_call s xs tr ys err)
  have "trialActive (afterCall (clock s) tr err (brk s)) \<longrightarrow> True \<in> set (xs @ ys)"
    using end_call by (auto simp: sys_inv_def afterCall_def Let_def split: option.splits if_splits)
  with end_call show ?case by (simp add: sys_inv_def afterCall_inv)
qed

lemma breaker_reach_inv: "breaker_reach thr cool s \<Longrightarrow> sys_inv s"
proof (induction rule: breaker_reach.induct)
  case (start t)
  show ?case
    using newCircuitBreaker_inv [of thr cool]
    by (simp add: sys_inv_def) (simp add: newCircuitBreaker_def)
next
  case (step s s')
  then show ?case by (blast intro: sys_inv_step)
qed

lemma breaker_step_config:
  "breaker_step s s' \<Longrightarrow> threshold (brk s') = threshold (brk s) \<and> cooldown (brk s') = cooldown (brk s)"
  by (induction rule: breaker_step.induct) (auto dest: beforeCall_config)

text \<open>C1\<close>

section \<open>Properties\<close>

text \<open>
  C23: In every reachable state of the breaker under arbitrarily interleaved calls, the circuit is
  closed exactly while the failure count is below the threshold, and a raised trial flag means
  that the circuit is half-open and that an admitted trial is still in flight.
\<close>

theorem breaker_reachable_invariant:
  assumes "breaker_reach thr cool s"
  shows "(brk_state (brk s) = breakerClosed \<longleftrightarrow> failures (brk s) < threshold (brk s)) \<and>
    (trialActive (brk s) \<longrightarrow> brk_state (brk s) = breakerHalfOpen \<and> True \<in> set (flight s))"
  using breaker_reach_inv [OF assms] by (simp add: sys_inv_def breaker_inv_def)

lemma breaker_reach_tripped:
  "breaker_reach 1 5
     \<lparr>brk = afterCall 7 False (Some (EMsg ''503'')) (newCircuitBreaker 1 5), flight = [], clock = 7\<rparr>"
proof -
  let ?s0 = "\<lparr>brk = newCircuitBreaker 1 5, flight = [], clock = 7\<rparr>"
  have b: "beforeCall 7 (newCircuitBreaker 1 5) = (True, False, newCircuitBreaker 1 5)"
    by (simp add: beforeCall_def newCircuitBreaker_def)
  have "breaker_reach 1 5 (?s0\<lparr>brk := newCircuitBreaker 1 5, flight := [False]\<rparr>)"
    using breaker_step.begin_call [of ?s0 False "newCircuitBreaker 1 5"] b
    by (auto intro: breaker_reach.intros)
  then show ?thesis
    using breaker_step.end_call [of "?s0\<lparr>flight := [False]\<rparr>" "[]" False "[]" "Some (EMsg ''503'')"]
    by (auto intro: breaker_reach.step)
qed

theorem breaker_reachable_invariant_witness:
  "failures (afterCall 7 False (Some (EMsg ''503'')) (newCircuitBreaker 1 5)) = 1 \<and>
   brk_state (afterCall 7 False (Some (EMsg ''503'')) (newCircuitBreaker 1 5)) \<noteq> breakerClosed"
  using breaker_reachable_invariant [OF breaker_reach_tripped]
  by (simp add: afterCall_def newCircuitBreaker_def not_provider_failure_def)

text \<open>
  The breaker never wedges. In every reachable state with no trial in flight the next call is
  admitted, unless the circuit is open and its cooldown has not yet elapsed.
\<close>

theorem breaker_admits_without_trial:
  assumes "breaker_reach thr cool s" and "True \<notin> set (flight s)"
    and "brk_state (brk s) = breakerOpen \<longrightarrow> clock s - openedAt (brk s) \<ge> cooldown (brk s)"
  shows "fst (beforeCall (clock s) (brk s))"
  using breaker_reach_inv [OF assms(1)] assms(2,3)
  by (auto simp: sys_inv_def beforeCall_def split: breakerState.splits)

theorem breaker_admits_without_trial_witness:
  "fst (beforeCall 12 (afterCall 7 False (Some (EMsg ''503'')) (newCircuitBreaker 1 5)))"
proof -
  let ?s = "\<lparr>brk = afterCall 7 False (Some (EMsg ''503'')) (newCircuitBreaker 1 5), flight = [], clock = 12\<rparr>"
  have "breaker_reach 1 5 ?s"
    using breaker_reach.step [OF breaker_reach_tripped breaker_step.tick [of _ 12]] by simp
  then show ?thesis
    using breaker_admits_without_trial [of 1 5 ?s]
    by (simp add: afterCall_def newCircuitBreaker_def not_provider_failure_def)
qed

text \<open>The outcome of a sequence of calls that do not overlap, one failure after another.\<close>

fun failing_calls :: "(int \<times> goerr) list \<Rightarrow> circuitBreaker \<Rightarrow> circuitBreaker" where
  "failing_calls [] b = b"
| "failing_calls ((t, e) # xs) b =
     (case beforeCall t b of (allow, tr, b1) \<Rightarrow>
        if allow then failing_calls xs (afterCall t tr (Some e) b1) else failing_calls xs b1)"

lemma failing_calls_closed:
  assumes "breaker_inv b" "brk_state b = breakerClosed"
    and "\<forall>(t, e) \<in> set xs. \<not> not_provider_failure e"
    and "failures b + int (length xs) < threshold b"
  shows "failing_calls xs b = b\<lparr>failures := failures b + int (length xs)\<rparr>"
  using assms
proof (induction xs arbitrary: b)
  case (Cons x xs)
  obtain t e where x: "x = (t, e)" by (cases x)
  let ?b = "b\<lparr>failures := failures b + 1, trialActive := False\<rparr>"
  have tr: "\<not> trialActive b" using Cons.prems(1,2) by (simp add: breaker_inv_def)
  then have b': "?b = b\<lparr>failures := failures b + 1\<rparr>" by simp
  have "failing_calls (x # xs) b = failing_calls xs ?b"
    using Cons.prems x by (simp add: beforeCall_def afterCall_def Let_def)
  also have "\<dots> = ?b\<lparr>failures := failures ?b + int (length xs)\<rparr>"
    using Cons.prems tr by (intro Cons.IH) (auto simp: breaker_inv_def)
  finally show ?case using b' by (simp add: add.assoc)
qed simp

text \<open>
  A closed breaker with no counted failure stays closed through fewer than \<open>threshold\<close>
  consecutive provider failures and is open after exactly \<open>threshold\<close> of them.
\<close>

theorem breaker_trips_at_threshold:
  assumes "breaker_inv b" and "brk_state b = breakerClosed" and "failures b = 0"
    and "\<forall>(t, e) \<in> set (xs @ [x]). \<not> not_provider_failure e"
    and "int (length (xs @ [x])) = threshold b"
  shows "brk_state (failing_calls xs b) = breakerClosed \<and>
    brk_state (failing_calls (xs @ [x]) b) = breakerOpen"
proof -
  have app: "failing_calls (xs @ [x]) b = failing_calls [x] (failing_calls xs b)" for b
    by (induction xs arbitrary: b) (auto split: prod.splits)
  have c: "failing_calls xs b = b\<lparr>failures := int (length xs)\<rparr>"
    using failing_calls_closed [of b xs] assms by auto
  obtain t e where x: "x = (t, e)" by (cases x)
  have "brk_state (failing_calls [x] (b\<lparr>failures := int (length xs)\<rparr>)) = breakerOpen"
    using assms x by (simp add: beforeCall_def afterCall_def Let_def)
  then show ?thesis using assms(2) by (simp add: app c)
qed

theorem breaker_trips_at_threshold_witness:
  "brk_state (failing_calls [(1, EMsg ''a'')] (newCircuitBreaker 2 9)) = breakerClosed \<and>
   brk_state (failing_calls ([(1, EMsg ''a'')] @ [(2, EMsg ''b'')]) (newCircuitBreaker 2 9)) = breakerOpen"
  by (rule breaker_trips_at_threshold)
    (simp_all add: newCircuitBreaker_inv, simp_all add: newCircuitBreaker_def not_provider_failure_def)

text \<open>
  Contrary to the breaker's documentation (a single half-open trial), two trials can be in
  flight at once: a call admitted while the circuit was closed and failing during the trial
  clears the trial flag and re-opens the circuit, and after the cooldown a second trial starts
  beside the first.
\<close>

theorem breaker_two_trials_reachable:
  "\<exists>s. breaker_reach 1 5 s \<and> brk_state (brk s) = breakerHalfOpen \<and> count_list (flight s) True = 2"
proof -
  let ?b0 = "newCircuitBreaker 1 5" and ?f = "Some (EMsg ''503'')"
  let ?b1 = "?b0\<lparr>failures := 1, brk_state := breakerOpen, openedAt := 0\<rparr>"
  let ?b2 = "?b1\<lparr>brk_state := breakerHalfOpen, trialActive := True\<rparr>"
  let ?b3 = "?b0\<lparr>failures := 2, brk_state := breakerOpen, openedAt := 5\<rparr>"
  let ?b4 = "?b3\<lparr>brk_state := breakerHalfOpen, trialActive := True\<rparr>"
  let ?s = "\<lambda>b f t. \<lparr>brk = b, flight = f, clock = t\<rparr>"
  note go = breaker_reach.step
  have 1: "breaker_reach 1 5 (?s ?b0 [False] 0)"
    using go [OF breaker_reach.start breaker_step.begin_call [of "?s ?b0 [] 0" False ?b0]]
    by (simp add: beforeCall_def newCircuitBreaker_def)
  have 2: "breaker_reach 1 5 (?s ?b0 [False, False] 0)"
    using go [OF 1 breaker_step.begin_call [of "?s ?b0 [False] 0" False ?b0]]
    by (simp add: beforeCall_def newCircuitBreaker_def)
  have 3: "breaker_reach 1 5 (?s ?b1 [False] 0)"
    using go [OF 2 breaker_step.end_call [of _ "[]" False "[False]" ?f]]
    by (simp add: afterCall_def not_provider_failure_def newCircuitBreaker_def)
  have 4: "breaker_reach 1 5 (?s ?b1 [False] 5)"
    using go [OF 3 breaker_step.tick [of _ 5]] by simp
  have 5: "breaker_reach 1 5 (?s ?b2 [True, False] 5)"
    using go [OF 4 breaker_step.begin_call [of "?s ?b1 [False] 5" True ?b2]]
    by (simp add: beforeCall_def newCircuitBreaker_def)
  have 6: "breaker_reach 1 5 (?s ?b3 [True] 5)"
    using go [OF 5 breaker_step.end_call [of _ "[True]" False "[]" ?f]]
    by (simp add: afterCall_def not_provider_failure_def newCircuitBreaker_def)
  have 7: "breaker_reach 1 5 (?s ?b3 [True] 10)"
    using go [OF 6 breaker_step.tick [of _ 10]] by simp
  have "breaker_reach 1 5 (?s ?b4 [True, True] 10)"
    using go [OF 7 breaker_step.begin_call [of "?s ?b3 [True] 10" True ?b4]]
    by (simp add: beforeCall_def newCircuitBreaker_def)
  then show ?thesis by (intro exI conjI) (assumption, simp_all)
qed

end
