(* ===== verification/LLM_Usage.thy ===== *)
theory LLM_Usage
  imports Go_Prelude
begin

text \<open>
  Usage accounting, price cache and global spend policy of \<^verbatim>\<open>pkg/llm/usage.go\<close>. The package
  globals are the record \<open>llm_globals\<close>; the answer of the pricing endpoint is a parameter of
  \<^verbatim>\<open>fetchPrices\<close>.
\<close>

section \<open>Usage and its tracker\<close>

record Usage =
  PromptTokens :: int
  CompletionTokens :: int
  TotalTokens :: int
  CostUSD :: real
  uModel :: string
  uProvider :: string
  LatencyMs :: int
  uTimestamp :: int

definition zeroUsage :: Usage where
  "zeroUsage = \<lparr>PromptTokens = 0, CompletionTokens = 0, TotalTokens = 0, CostUSD = 0,
     uModel = [], uProvider = [], LatencyMs = 0, uTimestamp = 0\<rparr>"

record UsageTracker =
  ut_calls :: "Usage list"
  ut_totals :: Usage

definition NewUsageTracker :: UsageTracker where
  "NewUsageTracker = \<lparr>ut_calls = [], ut_totals = zeroUsage\<rparr>"

definition stamp :: "int \<Rightarrow> Usage \<Rightarrow> Usage" where
  "stamp now u = (if uTimestamp u = 0 then u\<lparr>uTimestamp := now\<rparr> else u)"

definition Record :: "int \<Rightarrow> Usage \<Rightarrow> UsageTracker \<Rightarrow> UsageTracker" where
  "Record now u0 ut =
     (let u = stamp now u0; tot = ut_totals ut in
      \<lparr>ut_calls = ut_calls ut @ [u],
       ut_totals = tot\<lparr>PromptTokens := PromptTokens tot + PromptTokens u,
                        CompletionTokens := CompletionTokens tot + CompletionTokens u,
                        TotalTokens := TotalTokens tot + TotalTokens u,
                        CostUSD := CostUSD tot + CostUSD u,
                        LatencyMs := LatencyMs tot + LatencyMs u\<rparr>\<rparr>)"

definition Totals :: "UsageTracker \<Rightarrow> Usage" where
  "Totals ut = ut_totals ut"

definition CallCount :: "UsageTracker \<Rightarrow> int" where
  "CallCount ut = int (length (ut_calls ut))"

definition AllCalls :: "UsageTracker \<Rightarrow> Usage list" where
  "AllCalls ut = ut_calls ut"

definition Reset_tracker :: "UsageTracker \<Rightarrow> UsageTracker" where
  "Reset_tracker ut = \<lparr>ut_calls = [], ut_totals = zeroUsage\<rparr>"

text \<open>A tracker agrees with its log: each total is the left fold of its column.\<close>

definition tracker_inv :: "UsageTracker \<Rightarrow> bool" where
  "tracker_inv ut \<longleftrightarrow>
     PromptTokens (ut_totals ut) = foldl (+) 0 (map PromptTokens (ut_calls ut)) \<and>
     CompletionTokens (ut_totals ut) = foldl (+) 0 (map CompletionTokens (ut_calls ut)) \<and>
     TotalTokens (ut_totals ut) = foldl (+) 0 (map TotalTokens (ut_calls ut)) \<and>
     CostUSD (ut_totals ut) = foldl (+) 0 (map CostUSD (ut_calls ut)) \<and>
     LatencyMs (ut_totals ut) = foldl (+) 0 (map LatencyMs (ut_calls ut))"

lemma NewUsageTracker_inv: "tracker_inv NewUsageTracker"
  by (simp add: tracker_inv_def NewUsageTracker_def zeroUsage_def)

lemma Record_inv: "tracker_inv ut \<Longrightarrow> tracker_inv (Record now u ut)"
  by (simp add: tracker_inv_def Record_def Let_def)

lemma Reset_tracker_inv: "tracker_inv (Reset_tracker ut)"
  by (simp add: tracker_inv_def Reset_tracker_def zeroUsage_def)

lemma Record_cost [simp]: "CostUSD (ut_totals (Record now u ut)) = CostUSD (ut_totals ut) + CostUSD u"
  by (simp add: Record_def Let_def stamp_def)

lemma Record_log [simp]: "ut_calls (Record now u ut) = ut_calls ut @ [stamp now u]"
  by (simp add: Record_def Let_def)

definition record_all :: "(int \<times> Usage) list \<Rightarrow> UsageTracker \<Rightarrow> UsageTracker" where
  "record_all us ut = fold (\<lambda>(now, u). Record now u) us ut"

lemma record_all_simps [simp]:
  "record_all [] ut = ut"
  "record_all ((now, u) # us) ut = record_all us (Record now u ut)"
  by (simp_all add: record_all_def)

lemma record_all_inv: "tracker_inv ut \<Longrightarrow> tracker_inv (record_all us ut)"
  by (induction us arbitrary: ut) (auto simp: Record_inv)

lemma record_all_log: "ut_calls (record_all us ut) = ut_calls ut @ map (\<lambda>(now, u). stamp now u) us"
  by (induction us arbitrary: ut) auto

lemma stamp_fields [simp]:
  "PromptTokens (stamp now u) = PromptTokens u" "CompletionTokens (stamp now u) = CompletionTokens u"
  "TotalTokens (stamp now u) = TotalTokens u" "CostUSD (stamp now u) = CostUSD u"
  "LatencyMs (stamp now u) = LatencyMs u"
  by (simp_all add: stamp_def)

lemma foldl_plus_stamp:
  "foldl (+) 0 (map f (map (\<lambda>(now, u). stamp now u) us)) = foldl (+) 0 (map (\<lambda>(now, u). f u) us)"
  if "\<And>now u. f (stamp now u) = f u" for f :: "Usage \<Rightarrow> 'a::monoid_add"
  using that by (simp add: comp_def case_prod_unfold)

section \<open>Prices\<close>

record ModelPricing =
  PromptPricePerToken :: real
  CompletionPricePerToken :: real

type_synonym price_map = "string \<rightharpoonup> ModelPricing"

record PriceCacheConfig =
  CacheTTL :: int
  FetchTimeout :: int
  APIEndpoint :: string
  CustomPricing :: price_map

record PriceCache =
  pc_prices :: price_map
  dynamicPrices :: price_map
  lastFetch :: int
  pc_config :: PriceCacheConfig

definition NewPriceCache :: "price_map \<Rightarrow> PriceCacheConfig \<Rightarrow> PriceCache" where
  "NewPriceCache builtin cfg0 =
     (let cfg1 = (if CacheTTL cfg0 = 0 then cfg0\<lparr>CacheTTL := 6 * 3600 * 10 ^ 9\<rparr> else cfg0);
          cfg2 = (if FetchTimeout cfg1 = 0 then cfg1\<lparr>FetchTimeout := 10 * 10 ^ 9\<rparr> else cfg1);
          cfg = (if APIEndpoint cfg2 = [] then cfg2\<lparr>APIEndpoint := ''https://openrouter.ai/api/v1/models''\<rparr>
                 else cfg2)
      in \<lparr>pc_prices = builtin ++ CustomPricing cfg, dynamicPrices = Map.empty,
          lastFetch = 0, pc_config = cfg\<rparr>)"

definition SetPricing :: "string \<Rightarrow> ModelPricing \<Rightarrow> PriceCache \<Rightarrow> PriceCache" where
  "SetPricing model p pc =
     pc\<lparr>pc_prices := (pc_prices pc)(model \<mapsto> p), dynamicPrices := (dynamicPrices pc)(model \<mapsto> p)\<rparr>"

text \<open>
  \<^verbatim>\<open>fmt.Sscanf(s, "%f", &f)\<close> on decimal notation: skip spaces, sign, digits, fraction,
  exponent; nothing scanned leaves \<^verbatim>\<open>f\<close> at zero.
\<close>

definition is_digit :: "char \<Rightarrow> bool" where
  "is_digit c \<longleftrightarrow> CHR ''0'' \<le> c \<and> c \<le> CHR ''9''"

definition digits_val :: "string \<Rightarrow> nat" where
  "digits_val ds = foldl (\<lambda>n c. 10 * n + (of_char c - 48)) 0 ds"

definition scan_exp :: "string \<Rightarrow> real" where
  "scan_exp s =
     (case s of
        c # r \<Rightarrow>
          if c = CHR ''e'' \<or> c = CHR ''E'' then
            (case r of
               d # r' \<Rightarrow>
                 if d = CHR ''-'' then 1 / 10 ^ digits_val (takeWhile is_digit r')
                 else if d = CHR ''+'' then 10 ^ digits_val (takeWhile is_digit r')
                 else 10 ^ digits_val (takeWhile is_digit r)
             | [] \<Rightarrow> 1)
          else 1
      | [] \<Rightarrow> 1)"

definition scan_unsigned :: "string \<Rightarrow> real" where
  "scan_unsigned s =
     (let ip = takeWhile is_digit s; r = dropWhile is_digit s in
      case r of
        c # r' \<Rightarrow>
          if c = CHR ''.'' then
            (let fp = takeWhile is_digit r' in
             (real (digits_val ip) + real (digits_val fp) / 10 ^ length fp) * scan_exp (dropWhile is_digit r'))
          else real (digits_val ip) * scan_exp r
      | [] \<Rightarrow> real (digits_val ip))"

definition scan_float :: "string \<Rightarrow> real" where
  "scan_float s0 =
     (case dropWhile is_space s0 of
        c # r \<Rightarrow> if c = CHR ''-'' then - scan_unsigned r
                 else if c = CHR ''+'' then scan_unsigned r
                 else scan_unsigned (c # r)
      | [] \<Rightarrow> 0)"

definition parsePrice :: "string \<Rightarrow> real" where
  "parsePrice s = (if s = [] \<or> s = ''0'' then 0 else scan_float s)"

record api_model =
  am_id :: string
  am_prompt :: string
  am_completion :: string

text \<open>What the pricing endpoint does: no request, no response, a status other than 200, an
  undecodable body, or a list of models.\<close>

datatype fetch_reply =
    RequestError goerr
  | DoError goerr
  | BadStatus int
  | DecodeError goerr
  | Models "api_model list"

definition add_model :: "api_model \<Rightarrow> price_map \<Rightarrow> price_map" where
  "add_model m ps =
     (let pp = parsePrice (am_prompt m); cp = parsePrice (am_completion m) in
      if pp \<le> 0 \<and> cp \<le> 0 then ps
      else (let pr = \<lparr>PromptPricePerToken = pp, CompletionPricePerToken = cp\<rparr>;
                ps1 = ps(am_id m \<mapsto> pr);
                rest = dropWhile (\<lambda>c. c \<noteq> CHR ''/'') (am_id m)
            in case rest of [] \<Rightarrow> ps1 | _ # short \<Rightarrow> ps1(short \<mapsto> pr)))"

definition fetchPrices ::
  "price_map \<Rightarrow> fetch_reply \<Rightarrow> int \<Rightarrow> PriceCache \<Rightarrow> goerr option \<times> PriceCache" where
  "fetchPrices builtin reply now pc =
     (case reply of
        RequestError e \<Rightarrow> (Some (EWrap ''price fetch: failed to create request: '' e []), pc)
      | DoError e \<Rightarrow> (Some (EWrap ''price fetch: request failed: '' e []), pc)
      | BadStatus n \<Rightarrow> (Some (EMsg (''price fetch: API returned status '' @ show_int n)), pc)
      | DecodeError e \<Rightarrow> (Some (EWrap ''price fetch: failed to decode response: '' e []), pc)
      | Models ms \<Rightarrow>
          (None, pc\<lparr>pc_prices := fold add_model ms builtin ++ CustomPricing (pc_config pc) ++ dynamicPrices pc,
                    lastFetch := now\<rparr>))"

definition ensureFresh :: "price_map \<Rightarrow> fetch_reply \<Rightarrow> int \<Rightarrow> PriceCache \<Rightarrow> PriceCache" where
  "ensureFresh builtin reply now pc =
     (if lastFetch pc = 0 \<or> now - lastFetch pc > CacheTTL (pc_config pc)
      then snd (fetchPrices builtin reply now pc) else pc)"

definition GetPricing ::
  "price_map \<Rightarrow> fetch_reply \<Rightarrow> int \<Rightarrow> string \<Rightarrow> PriceCache \<Rightarrow> ModelPricing option \<times> PriceCache" where
  "GetPricing builtin reply now model pc =
     (let pc1 = ensureFresh builtin reply now pc in (pc_prices pc1 model, pc1))"

definition token_cost :: "ModelPricing \<Rightarrow> Usage \<Rightarrow> real" where
  "token_cost p u = real_of_int (PromptTokens u) * PromptPricePerToken p +
     real_of_int (CompletionTokens u) * CompletionPricePerToken p"

definition pc_CalculateCost ::
  "price_map \<Rightarrow> fetch_reply \<Rightarrow> int \<Rightarrow> Usage \<Rightarrow> PriceCache \<Rightarrow> real \<times> PriceCache" where
  "pc_CalculateCost builtin reply now u pc =
     (case GetPricing builtin reply now (uModel u) pc of
        (None, pc1) \<Rightarrow> (0, pc1)
      | (Some p, pc1) \<Rightarrow> (token_cost p u, pc1))"

definition AllPricing :: "price_map \<Rightarrow> fetch_reply \<Rightarrow> int \<Rightarrow> PriceCache \<Rightarrow> price_map \<times> PriceCache" where
  "AllPricing builtin reply now pc =
     (let pc1 = ensureFresh builtin reply now pc in (pc_prices pc1, pc1))"

section \<open>Globals and the spend policy\<close>

record llm_globals =
  builtinPricing :: price_map
  globalCache :: "PriceCache option"
  GlobalUsage :: "UsageTracker option"
  globalMaxBudget :: real

definition emptyConfig :: PriceCacheConfig where
  "emptyConfig = \<lparr>CacheTTL = 0, FetchTimeout = 0, APIEndpoint = [], CustomPricing = Map.empty\<rparr>"

definition SetGlobalBudget :: "real \<Rightarrow> llm_globals \<Rightarrow> llm_globals" where
  "SetGlobalBudget budget g = g\<lparr>globalMaxBudget := budget\<rparr>"

definition SetModelPricing :: "string \<Rightarrow> ModelPricing \<Rightarrow> llm_globals \<Rightarrow> llm_globals" where
  "SetModelPricing model p g =
     g\<lparr>builtinPricing := (builtinPricing g)(model \<mapsto> p),
       globalCache := map_option (SetPricing model p) (globalCache g)\<rparr>"

definition GlobalPriceCache :: "llm_globals \<Rightarrow> PriceCache" where
  "GlobalPriceCache g = (case globalCache g of None \<Rightarrow> NewPriceCache (builtinPricing g) emptyConfig
     | Some pc \<Rightarrow> pc)"

definition GlobalTracker :: "llm_globals \<Rightarrow> UsageTracker" where
  "GlobalTracker g = (case GlobalUsage g of None \<Rightarrow> NewUsageTracker | Some ut \<Rightarrow> ut)"

definition ErrBudgetExceeded :: string where
  "ErrBudgetExceeded = ''LLM budget exceeded''"

text \<open>\<^verbatim>\<open>%.4f\<close>, rounding to the nearest.\<close>

definition fmt_fixed4 :: "real \<Rightarrow> string" where
  "fmt_fixed4 x =
     (let n = nat (round (\<bar>x\<bar> * 10000)); d = show_nat (n mod 10000) in
      (if x < 0 then ''-'' else []) @ show_nat (n div 10000) @ ''.'' @
      replicate (4 - length d) (CHR ''0'') @ d)"

definition CheckBudget :: "llm_globals \<Rightarrow> goerr option" where
  "CheckBudget g =
     (if globalMaxBudget g \<le> 0 then None
      else (let spent = CostUSD (Totals (GlobalTracker g)) in
            if spent \<ge> globalMaxBudget g
            then Some (EWrap [] (ESentinel ErrBudgetExceeded)
                   ('': current spend $'' @ fmt_fixed4 spent @ '' exceeds limit of $'' @ fmt_fixed4 (globalMaxBudget g)))
            else None))"

definition AdmitBudget :: "llm_globals \<Rightarrow> goerr option" where
  "AdmitBudget g = CheckBudget g"

definition CalculateCost :: "fetch_reply \<Rightarrow> int \<Rightarrow> Usage \<Rightarrow> llm_globals \<Rightarrow> real \<times> llm_globals" where
  "CalculateCost reply now u g =
     (let (c, pc) = pc_CalculateCost (builtinPricing g) reply now u (GlobalPriceCache g)
      in (c, g\<lparr>globalCache := Some pc\<rparr>))"

definition CalculateCostStatic :: "llm_globals \<Rightarrow> Usage \<Rightarrow> real" where
  "CalculateCostStatic g u =
     (case builtinPricing g (uModel u) of None \<Rightarrow> 0 | Some p \<Rightarrow> token_cost p u)"

definition TrackHeuristicUsage ::
  "fetch_reply \<Rightarrow> int \<Rightarrow> string \<Rightarrow> string \<Rightarrow> string \<Rightarrow> string \<Rightarrow> int \<Rightarrow> llm_globals \<Rightarrow> llm_globals" where
  "TrackHeuristicUsage reply now provider model promptText completionText latencyMs g =
     (let pt = int (length promptText) div 4; ct = int (length completionText) div 4;
          u = zeroUsage\<lparr>PromptTokens := pt, CompletionTokens := ct, uModel := model,
                         uProvider := provider, LatencyMs := latencyMs, TotalTokens := pt + ct\<rparr>;
          (c, g1) = CalculateCost reply now u g
      in g1\<lparr>GlobalUsage := Some (Record now (u\<lparr>CostUSD := c\<rparr>) (GlobalTracker g1))\<rparr>)"

section \<open>Lemmas on prices\<close>

text \<open>The names a listed model is priced under, and the price the listing gives a name.\<close>

definition model_names :: "api_model \<Rightarrow> string set" where
  "model_names m = insert (am_id m)
     (case dropWhile (\<lambda>c. c \<noteq> CHR ''/'') (am_id m) of [] \<Rightarrow> {} | _ # short \<Rightarrow> {short})"

definition model_pricing :: "api_model \<Rightarrow> ModelPricing" where
  "model_pricing m = \<lparr>PromptPricePerToken = parsePrice (am_prompt m),
     CompletionPricePerToken = parsePrice (am_completion m)\<rparr>"

definition model_listed :: "api_model \<Rightarrow> string \<Rightarrow> bool" where
  "model_listed m k \<longleftrightarrow> k \<in> model_names m \<and>
     \<not> (parsePrice (am_prompt m) \<le> 0 \<and> parsePrice (am_completion m) \<le> 0)"

definition live_price :: "api_model list \<Rightarrow> string \<Rightarrow> ModelPricing option" where
  "live_price ms k = map_option model_pricing (find (\<lambda>m. model_listed m k) (rev ms))"

lemma add_model_lookup: "add_model m ps k = (if model_listed m k then Some (model_pricing m) else ps k)"
  by (cases "dropWhile (\<lambda>c. c \<noteq> CHR ''/'') (am_id m)")
    (auto simp add: add_model_def Let_def model_listed_def model_names_def model_pricing_def
      simp del: dropWhile_eq_Nil_conv)

lemma fold_add_model:
  "fold add_model ms ps k = (case live_price ms k of None \<Rightarrow> ps k | Some p \<Rightarrow> Some p)"
proof (induction ms arbitrary: ps rule: rev_induct)
  case (snoc m ms)
  then show ?case by (auto simp: live_price_def add_model_lookup)
qed (simp add: live_price_def)

lemma fetchPrices_error_keeps: "fetchPrices b reply now pc = (Some e, pc') \<Longrightarrow> pc' = pc"
  by (auto simp: fetchPrices_def split: fetch_reply.splits)

lemma fetchPrices_config: "fetchPrices b reply now pc = (e, pc') \<Longrightarrow>
    pc_config pc' = pc_config pc \<and> dynamicPrices pc' = dynamicPrices pc"
  by (auto simp: fetchPrices_def split: fetch_reply.splits)

lemma NewPriceCache_ttl: "0 < CacheTTL cfg \<or> CacheTTL cfg = 0 \<Longrightarrow>
    0 < CacheTTL (pc_config (NewPriceCache b cfg))"
  by (auto simp: NewPriceCache_def Let_def)

lemma CheckBudget_iff:
  "CheckBudget g = None \<longleftrightarrow>
     globalMaxBudget g \<le> 0 \<or> CostUSD (ut_totals (GlobalTracker g)) < globalMaxBudget g"
  by (auto simp: CheckBudget_def Totals_def Let_def)

lemma CheckBudget_is: "CheckBudget g = Some e \<Longrightarrow> errors_is e ErrBudgetExceeded"
  by (auto simp: CheckBudget_def Let_def split: if_splits)

lemma TrackHeuristicUsage_cost:
  "\<exists>c. fst (CalculateCost reply now u' g) = c \<and>
     CostUSD (ut_totals (GlobalTracker (TrackHeuristicUsage reply now prov model p q lat g))) =
       CostUSD (ut_totals (GlobalTracker g)) + c \<and>
     globalMaxBudget (TrackHeuristicUsage reply now prov model p q lat g) = globalMaxBudget g"
  if "u' = zeroUsage\<lparr>PromptTokens := int (length p) div 4, CompletionTokens := int (length q) div 4,
        uModel := model, uProvider := prov, LatencyMs := lat,
        TotalTokens := int (length p) div 4 + int (length q) div 4\<rparr>"
  using that
  by (auto simp: TrackHeuristicUsage_def CalculateCost_def Let_def GlobalTracker_def
      split: prod.splits option.splits)

section \<open>Properties\<close>

text \<open>
  However many calls are recorded on a fresh tracker, its totals are the left-to-right sums of
  the recorded columns, and its log is the recorded calls in order, each stamped with its
  recording time when it carried none.
\<close>

theorem usage_totals_exact:
  defines "ut us \<equiv> record_all us NewUsageTracker"
  shows "AllCalls (ut us) = map (\<lambda>(now, u). stamp now u) us \<and>
    CallCount (ut us) = int (length us) \<and>
    PromptTokens (Totals (ut us)) = foldl (+) 0 (map (\<lambda>(now, u). PromptTokens u) us) \<and>
    CompletionTokens (Totals (ut us)) = foldl (+) 0 (map (\<lambda>(now, u). CompletionTokens u) us) \<and>
    TotalTokens (Totals (ut us)) = foldl (+) 0 (map (\<lambda>(now, u). TotalTokens u) us) \<and>
    CostUSD (Totals (ut us)) = foldl (+) 0 (map (\<lambda>(now, u). CostUSD u) us) \<and>
    LatencyMs (Totals (ut us)) = foldl (+) 0 (map (\<lambda>(now, u). LatencyMs u) us)"
proof -
  have "tracker_inv (ut us)"
    unfolding ut_def by (rule record_all_inv [OF NewUsageTracker_inv])
  moreover have "ut_calls (ut us) = map (\<lambda>(now, u). stamp now u) us"
    unfolding ut_def by (simp add: record_all_log) (simp add: NewUsageTracker_def)
  ultimately show ?thesis
    by (simp add: tracker_inv_def Totals_def AllCalls_def CallCount_def foldl_plus_stamp
        [of PromptTokens] foldl_plus_stamp [of CompletionTokens] foldl_plus_stamp [of TotalTokens]
        foldl_plus_stamp [of CostUSD] foldl_plus_stamp [of LatencyMs] del: map_map)
qed

theorem usage_totals_exact_witness:
  "CostUSD (Totals (record_all [(5, zeroUsage\<lparr>CostUSD := 2\<rparr>), (6, zeroUsage\<lparr>CostUSD := 3\<rparr>)] NewUsageTracker)) = 5"
  using usage_totals_exact [of "[(5, zeroUsage\<lparr>CostUSD := 2\<rparr>), (6, zeroUsage\<lparr>CostUSD := 3\<rparr>)]"]
  by simp

text \<open>
  After a successful price fetch the price of a model is its runtime override if there is one,
  else its custom price, else the price of the last usable entry of the listing that names it
  (by full or short name), else its builtin price.
\<close>

theorem fetch_price_priority:
  assumes "fetchPrices builtin (Models ms) now pc = (err, pc')"
  shows "err = None \<and> lastFetch pc' = now \<and> pc_prices pc' k =
    (case dynamicPrices pc k of Some p \<Rightarrow> Some p | None \<Rightarrow>
      (case CustomPricing (pc_config pc) k of Some p \<Rightarrow> Some p | None \<Rightarrow>
        (case live_price ms k of Some p \<Rightarrow> Some p | None \<Rightarrow> builtin k)))"
  using assms
  by (auto simp: fetchPrices_def map_add_def fold_add_model split: option.splits)

definition demo_models :: "api_model list" where
  "demo_models = [\<lparr>am_id = ''openai/gpt-4o'', am_prompt = ''2'', am_completion = ''4''\<rparr>]"

theorem fetch_price_priority_witness:
  "pc_prices (snd (fetchPrices Map.empty (Models demo_models) 9 (NewPriceCache Map.empty emptyConfig))) ''gpt-4o''
     = Some \<lparr>PromptPricePerToken = 2, CompletionPricePerToken = 4\<rparr>"
  using fetch_price_priority [of Map.empty demo_models 9 "NewPriceCache Map.empty emptyConfig" _ _ "''gpt-4o''",
      OF surjective_pairing]
  by (simp add: demo_models_def live_price_def model_listed_def model_names_def model_pricing_def
      parsePrice_def scan_float_def scan_unsigned_def is_digit_def is_space_def digits_val_def
      NewPriceCache_def emptyConfig_def less_eq_char_def Let_def)

text \<open>
  Once the global budget is exceeded it stays exceeded: recording further usage of
  non-negative cost leaves the budget check failing with the budget sentinel.
\<close>

theorem budget_exceeded_persists:
  assumes "CheckBudget g = Some e"
    and "fst (CalculateCost reply now
           (zeroUsage\<lparr>PromptTokens := int (length p) div 4, CompletionTokens := int (length q) div 4,
             uModel := model, uProvider := prov, LatencyMs := lat,
             TotalTokens := int (length p) div 4 + int (length q) div 4\<rparr>) g) \<ge> 0"
  shows "\<exists>e'. CheckBudget (TrackHeuristicUsage reply now prov model p q lat g) = Some e' \<and>
    errors_is e' ErrBudgetExceeded"
proof -
  let ?g = "TrackHeuristicUsage reply now prov model p q lat g"
  have "CheckBudget g \<noteq> None" using assms(1) by simp
  then have "CheckBudget ?g \<noteq> None"
    using TrackHeuristicUsage_cost [OF refl, where reply = reply and now = now and p = p and q = q and model = model and prov = prov and lat = lat and g = g] assms(2)
    by (auto simp: CheckBudget_iff)
  then show ?thesis using CheckBudget_is by blast
qed

definition demo_globals :: llm_globals where
  "demo_globals = \<lparr>builtinPricing = Map.empty, globalCache = None,
     GlobalUsage = Some (Record 1 (zeroUsage\<lparr>CostUSD := 7\<rparr>) NewUsageTracker), globalMaxBudget = 5\<rparr>"

theorem budget_exceeded_persists_witness:
  "CheckBudget (TrackHeuristicUsage (BadStatus 500) 3 ''openai'' ''m'' ''abcd'' ''efgh'' 2 demo_globals) \<noteq> None"
proof -
  have over: "CheckBudget demo_globals \<noteq> None"
    by (simp add: CheckBudget_iff demo_globals_def GlobalTracker_def)
      (simp add: NewUsageTracker_def zeroUsage_def)
  then obtain e where e: "CheckBudget demo_globals = Some e" by blast
  have "fst (CalculateCost (BadStatus 500) 3 u demo_globals) = 0" for u
    by (simp add: CalculateCost_def pc_CalculateCost_def GetPricing_def ensureFresh_def
        fetchPrices_def GlobalPriceCache_def demo_globals_def NewPriceCache_def emptyConfig_def Let_def)
  then show ?thesis
    using budget_exceeded_persists [OF e, where reply = "BadStatus 500" and now = 3 and p = "''abcd''" and q = "''efgh''"
        and model = "''m''" and prov = "''openai''" and lat = 2]
    by auto
qed

text \<open>
  A cache configured with \<open>CacheTTL = 0\<close>, documented as never fetching, does fetch: its first
  price lookup replaces the prices by the endpoint's answer and takes a six-hour lifetime.
\<close>

theorem price_cache_zero_ttl_fetches:
  assumes "CacheTTL cfg = 0" and "live_price ms k = Some p" and "CustomPricing cfg k = None"
  shows "fst (GetPricing builtin (Models ms) now k (NewPriceCache builtin cfg)) = Some p \<and>
    CacheTTL (pc_config (NewPriceCache builtin cfg)) = 6 * 3600 * 10 ^ 9"
  using assms
  by (simp add: GetPricing_def ensureFresh_def fetchPrices_def NewPriceCache_def Let_def map_add_def
      fold_add_model)

theorem price_cache_zero_ttl_fetches_witness:
  "fst (GetPricing Map.empty (Models demo_models) 4 ''gpt-4o'' (NewPriceCache Map.empty emptyConfig)) =
     Some \<lparr>PromptPricePerToken = 2, CompletionPricePerToken = 4\<rparr>"
  using price_cache_zero_ttl_fetches [of emptyConfig demo_models "''gpt-4o''"
      "\<lparr>PromptPricePerToken = 2, CompletionPricePerToken = 4\<rparr>" Map.empty 4]
  by (simp add: demo_models_def live_price_def model_listed_def model_names_def model_pricing_def
      parsePrice_def scan_float_def scan_unsigned_def is_digit_def is_space_def digits_val_def
      emptyConfig_def less_eq_char_def)

end
