(* ===== verification/LLM_Client.thy ===== *)
theory LLM_Client
  imports LLM_Breaker LLM_Usage
begin

text \<open>
  The client stack of \<^verbatim>\<open>pkg/llm\<close>: the request types of \<^verbatim>\<open>client.go\<close> and \<^verbatim>\<open>options.go\<close>, the
  hardening decorator of \<^verbatim>\<open>middleware.go\<close> with its token bucket, the failover decorator of
  \<^verbatim>\<open>failover.go\<close> and the defaults decorator of \<^verbatim>\<open>defaults.go\<close>. A provider is a record of four
  functions, a parameter of the model.

  A context is the error it reports at each instant. An operation that blocks takes a script
  of wake-ups: what ended each wait, and when.
\<close>

section \<open>Requests\<close>

type_synonym ctx = "int \<Rightarrow> goerr option"

record Message =
  mRole :: string
  mContent :: string

record GenerateOptions =
  gModel :: string
  gTemperature :: real
  gMaxTokens :: int
  gStop :: "string list"
  gExtra :: "gmap option"

definition zeroOptions :: GenerateOptions where
  "zeroOptions = \<lparr>gModel = [], gTemperature = 0, gMaxTokens = 0, gStop = [], gExtra = None\<rparr>"

definition MapToOptions :: "gmap option \<Rightarrow> GenerateOptions" where
  "MapToOptions mo =
     (let o0 = zeroOptions\<lparr>gExtra := mo\<rparr> in
      case mo of None \<Rightarrow> o0
      | Some m \<Rightarrow>
          (let o1 = (case m ''model'' of Some (VString s) \<Rightarrow> o0\<lparr>gModel := s\<rparr> | _ \<Rightarrow> o0);
               o2 = (case m ''temperature'' of Some (VFloat t) \<Rightarrow> o1\<lparr>gTemperature := t\<rparr>
                     | Some (VFloat32 t) \<Rightarrow> o1\<lparr>gTemperature := t\<rparr> | _ \<Rightarrow> o1);
               o3 = (case m ''max_tokens'' of Some (VInt n) \<Rightarrow> o2\<lparr>gMaxTokens := n\<rparr> | _ \<Rightarrow> o2)
           in case m ''stop'' of Some (VStrings ss) \<Rightarrow> o3\<lparr>gStop := ss\<rparr> | _ \<Rightarrow> o3))"

record Options =
  oModel :: string
  oTemperature :: "real option"
  oTimeout :: int
  oMaxTokens :: int
  oTopP :: "real option"
  oFrequencyPenalty :: "real option"
  oPresencePenalty :: "real option"
  oResponseFormat :: "(string \<times> gvalue) list option"
  oSeed :: "int option"
  oStop :: "string list"
  oStream :: bool
  oMaxRetries :: int
  oLogprobs :: bool
  oTopLogprobs :: int
  oReasoningEffort :: string
  oMaxCompletionTokens :: int
  oOrganization :: string
  oProject :: string

text \<open>One conditional store \<^verbatim>\<open>if c { m[k] = v }\<close> of \<^verbatim>\<open>ToMap\<close>.\<close>

definition put_if :: "bool \<Rightarrow> string \<Rightarrow> gvalue \<Rightarrow> gmap \<Rightarrow> gmap" where
  "put_if c k v m = (if c then m(k \<mapsto> v) else m)"

definition put_opt :: "string \<Rightarrow> gvalue option \<Rightarrow> gmap \<Rightarrow> gmap" where
  "put_opt k v m = (case v of None \<Rightarrow> m | Some x \<Rightarrow> m(k \<mapsto> x))"

definition ToMap :: "Options \<Rightarrow> gmap" where
  "ToMap o' =
     (put_if (oProject o' \<noteq> []) ''project'' (VString (oProject o')) \<circ>
      put_if (oOrganization o' \<noteq> []) ''organization'' (VString (oOrganization o')) \<circ>
      put_if (oMaxCompletionTokens o' > 0) ''max_completion_tokens'' (VInt (oMaxCompletionTokens o')) \<circ>
      put_if (oReasoningEffort o' \<noteq> []) ''reasoning_effort'' (VString (oReasoningEffort o')) \<circ>
      put_if (oTopLogprobs o' > 0) ''top_logprobs'' (VInt (oTopLogprobs o')) \<circ>
      put_if (oLogprobs o') ''logprobs'' (VBool True) \<circ>
      put_if (oMaxRetries o' > 0) ''max_retries'' (VInt (oMaxRetries o')) \<circ>
      put_if (oStream o') ''stream'' (VBool True) \<circ>
      put_if (oStop o' \<noteq> []) ''stop'' (VStrings (oStop o')) \<circ>
      put_opt ''seed'' (map_option VInt (oSeed o')) \<circ>
      put_opt ''response_format'' (map_option VMap (oResponseFormat o')) \<circ>
      put_opt ''presence_penalty'' (map_option VFloat (oPresencePenalty o')) \<circ>
      put_opt ''frequency_penalty'' (map_option VFloat (oFrequencyPenalty o')) \<circ>
      put_opt ''top_p'' (map_option VFloat (oTopP o')) \<circ>
      put_if (oMaxTokens o' > 0) ''max_tokens'' (VInt (oMaxTokens o')) \<circ>
      put_if (oTimeout o' > 0) ''timeout'' (VInt (oTimeout o')) \<circ>
      put_opt ''temperature'' (map_option VFloat (oTemperature o')) \<circ>
      put_if (oModel o' \<noteq> []) ''model'' (VString (oModel o'))) Map.empty"

lemma put_apply [simp]:
  "put_if c k v m j = (if c \<and> j = k then Some v else m j)"
  "put_opt k w m j = (if j = k \<and> w \<noteq> None then w else m j)"
  by (auto simp: put_if_def put_opt_def split: option.splits)

record Client =
  c_Generate :: "ctx \<Rightarrow> Message list \<Rightarrow> GenerateOptions \<Rightarrow> string \<times> goerr option"
  c_GenerateWithUsage :: "ctx \<Rightarrow> Message list \<Rightarrow> GenerateOptions \<Rightarrow> string \<times> Usage option \<times> goerr option"
  c_GenerateStructured :: "ctx \<Rightarrow> Message list \<Rightarrow> gvalue \<Rightarrow> GenerateOptions \<Rightarrow> gvalue \<times> goerr option"
  c_StreamGenerate :: "ctx \<Rightarrow> Message list \<Rightarrow> GenerateOptions \<Rightarrow> string list option \<times> goerr option"

section \<open>Defaults decorator\<close>

record DefaultsClient =
  d_inner :: Client
  d_defaults :: GenerateOptions

definition merged :: "DefaultsClient \<Rightarrow> GenerateOptions \<Rightarrow> GenerateOptions" where
  "merged d o0 =
     (let o1 = (if gTemperature o0 = 0 then o0\<lparr>gTemperature := gTemperature (d_defaults d)\<rparr> else o0);
          o2 = (if gMaxTokens o1 = 0 then o1\<lparr>gMaxTokens := gMaxTokens (d_defaults d)\<rparr> else o1);
          o3 = (if gStop o2 = [] then o2\<lparr>gStop := gStop (d_defaults d)\<rparr> else o2)
      in if gModel o3 = [] then o3\<lparr>gModel := gModel (d_defaults d)\<rparr> else o3)"

definition d_client :: "DefaultsClient \<Rightarrow> Client" where
  "d_client d = \<lparr>c_Generate = (\<lambda>cx ms op. c_Generate (d_inner d) cx ms (merged d op)),
     c_GenerateWithUsage = (\<lambda>cx ms op. c_GenerateWithUsage (d_inner d) cx ms (merged d op)),
     c_GenerateStructured = (\<lambda>cx ms sc op. c_GenerateStructured (d_inner d) cx ms sc (merged d op)),
     c_StreamGenerate = (\<lambda>cx ms op. c_StreamGenerate (d_inner d) cx ms (merged d op))\<rparr>"

section \<open>Failover decorator\<close>

record FailoverClient =
  f_Primary :: Client
  f_Secondary :: Client

definition failover_markers :: "string list" where
  "failover_markers = [''rate limit'', ''quota exceeded'', ''limit exceeded'', ''500'', ''unavailable'',
     ''overloaded'', ''context deadline exceeded'', ''connection refused'']"

definition isFailoverRequired :: "goerr option \<Rightarrow> bool" where
  "isFailoverRequired err =
     (case err of None \<Rightarrow> False
      | Some e \<Rightarrow> (let msg = to_lower (err_text e) in
          list_ex (str_contains msg) failover_markers \<and> \<not> str_contains msg ''budget exceeded''))"

definition fo_Generate ::
  "llm_globals \<Rightarrow> FailoverClient \<Rightarrow> ctx \<Rightarrow> Message list \<Rightarrow> GenerateOptions \<Rightarrow> string \<times> goerr option" where
  "fo_Generate g c cx ms op =
     (case CheckBudget g of Some e \<Rightarrow> ([], Some e)
      | None \<Rightarrow>
          (let (result, err) = c_Generate (f_Primary c) cx ms op in
           if err \<noteq> None \<and> isFailoverRequired err then c_Generate (f_Secondary c) cx ms op
           else (result, err)))"

definition fo_GenerateWithUsage ::
  "llm_globals \<Rightarrow> FailoverClient \<Rightarrow> ctx \<Rightarrow> Message list \<Rightarrow> GenerateOptions \<Rightarrow> string \<times> Usage option \<times> goerr option" where
  "fo_GenerateWithUsage g c cx ms op =
     (case CheckBudget g of Some e \<Rightarrow> ([], None, Some e)
      | None \<Rightarrow>
          (let (result, usage, err) = c_GenerateWithUsage (f_Primary c) cx ms op in
           if err \<noteq> None \<and> isFailoverRequired err then c_GenerateWithUsage (f_Secondary c) cx ms op
           else (result, usage, err)))"

definition fo_GenerateStructured ::
  "llm_globals \<Rightarrow> FailoverClient \<Rightarrow> ctx \<Rightarrow> Message list \<Rightarrow> gvalue \<Rightarrow> GenerateOptions \<Rightarrow> gvalue \<times> goerr option" where
  "fo_GenerateStructured g c cx ms sc op =
     (case CheckBudget g of Some e \<Rightarrow> (VNil, Some e)
      | None \<Rightarrow>
          (let (result, err) = c_GenerateStructured (f_Primary c) cx ms sc op in
           if err \<noteq> None \<and> isFailoverRequired err then c_GenerateStructured (f_Secondary c) cx ms sc op
           else (result, err)))"

definition fo_StreamGenerate ::
  "llm_globals \<Rightarrow> FailoverClient \<Rightarrow> ctx \<Rightarrow> Message list \<Rightarrow> GenerateOptions \<Rightarrow> string list option \<times> goerr option" where
  "fo_StreamGenerate g c cx ms op =
     (case CheckBudget g of Some e \<Rightarrow> (None, Some e)
      | None \<Rightarrow>
          (let (ch, err) = c_StreamGenerate (f_Primary c) cx ms op in
           if err \<noteq> None \<and> isFailoverRequired err then c_StreamGenerate (f_Secondary c) cx ms op
           else (ch, err)))"

section \<open>Token bucket\<close>

record tokenBucket =
  tb_tokens :: real
  maxTokens :: real
  refillRate :: real
  lastRefill :: int

definition nanos :: real where "nanos = 10 ^ 9"

definition newTokenBucket :: "int \<Rightarrow> int \<Rightarrow> int \<Rightarrow> tokenBucket" where
  "newTokenBucket maxRequests window now =
     \<lparr>tb_tokens = real_of_int maxRequests, maxTokens = real_of_int maxRequests,
      refillRate = real_of_int maxRequests / (real_of_int window / nanos), lastRefill = now\<rparr>"

text \<open>One pass of the loop under the lock: refill, clamp, and take a token if there is one.\<close>

definition tb_try :: "int \<Rightarrow> tokenBucket \<Rightarrow> bool \<times> tokenBucket" where
  "tb_try now tb =
     (let elapsed = real_of_int (now - lastRefill tb) / nanos;
          t1 = tb_tokens tb + elapsed * refillRate tb;
          t2 = (if t1 > maxTokens tb then maxTokens tb else t1);
          tb1 = tb\<lparr>tb_tokens := t2, lastRefill := now\<rparr>
      in if t2 \<ge> 1 then (True, tb1\<lparr>tb_tokens := t2 - 1\<rparr>) else (False, tb1))"

definition tb_waitTime :: "tokenBucket \<Rightarrow> int" where
  "tb_waitTime tb = \<lfloor>(1 - tb_tokens tb) / refillRate tb * nanos\<rfloor>"

datatype wake = WakeTimer int | WakeDone goerr

text \<open>\<^verbatim>\<open>Wait\<close>: \<open>None\<close> while it is still blocked at the end of the script.\<close>

fun tb_Wait :: "int \<Rightarrow> wake list \<Rightarrow> tokenBucket \<Rightarrow> (goerr option \<times> tokenBucket) option" where
  "tb_Wait now [] tb =
     (let (ok, tb1) = tb_try now tb in if ok then Some (None, tb1) else None)"
| "tb_Wait now (WakeDone e # ws) tb =
     (let (ok, tb1) = tb_try now tb in
      if ok then Some (None, tb1) else Some (Some (EWrap ''rate limit wait cancelled: '' e []), tb1))"
| "tb_Wait now (WakeTimer t # ws) tb =
     (let (ok, tb1) = tb_try now tb in if ok then Some (None, tb1) else tb_Wait t ws tb1)"

section \<open>Middleware decorator\<close>

datatype log_line =
    LogCall string string int int bool
  | LogFailed string string
  | LogUsage string string int Usage bool
  | LogStream int bool

record MiddlewareClient =
  mw_inner :: Client
  mw_rateLimiter :: "tokenBucket option"
  mw_timeout :: int
  mw_logger :: "log_line list option"
  mw_maxRetries :: int
  mw_cache :: "(string \<rightharpoonup> string) option"
  mw_breaker :: "circuitBreaker option"

type_synonym MiddlewareOption = "MiddlewareClient \<Rightarrow> MiddlewareClient"

definition WithRateLimit :: "int \<Rightarrow> int \<Rightarrow> int \<Rightarrow> MiddlewareOption" where
  "WithRateLimit now maxRequests window mc = mc\<lparr>mw_rateLimiter := Some (newTokenBucket maxRequests window now)\<rparr>"

definition WithTimeout :: "int \<Rightarrow> MiddlewareOption" where
  "WithTimeout timeout mc = mc\<lparr>mw_timeout := timeout\<rparr>"

definition WithLogging :: MiddlewareOption where
  "WithLogging mc = mc\<lparr>mw_logger := Some []\<rparr>"

definition WithMaxRetries :: "int \<Rightarrow> MiddlewareOption" where
  "WithMaxRetries n mc = mc\<lparr>mw_maxRetries := n\<rparr>"

definition WithCache :: "(string \<rightharpoonup> string) \<Rightarrow> MiddlewareOption" where
  "WithCache cache mc = mc\<lparr>mw_cache := Some cache\<rparr>"

definition WithCircuitBreaker :: "int \<Rightarrow> int \<Rightarrow> MiddlewareOption" where
  "WithCircuitBreaker thr cool mc = mc\<lparr>mw_breaker := Some (newCircuitBreaker thr cool)\<rparr>"

definition WrapClient :: "Client \<Rightarrow> MiddlewareOption list \<Rightarrow> MiddlewareClient" where
  "WrapClient inner opts = fold (\<lambda>opt mc. opt mc) opts
     \<lparr>mw_inner = inner, mw_rateLimiter = None, mw_timeout = 0, mw_logger = None, mw_maxRetries = 0,
      mw_cache = None, mw_breaker = None\<rparr>"

definition BreakerState :: "MiddlewareClient \<Rightarrow> string" where
  "BreakerState mc = (case mw_breaker mc of None \<Rightarrow> ''disabled'' | Some b \<Rightarrow> breaker_State b)"

definition breakerAllow :: "int \<Rightarrow> circuitBreaker option \<Rightarrow> bool \<times> bool \<times> circuitBreaker option" where
  "breakerAllow now br =
     (case br of None \<Rightarrow> (True, False, None)
      | Some b \<Rightarrow> (case beforeCall now b of (a, tr, b1) \<Rightarrow> (a, tr, Some b1)))"

definition breakerResult :: "int \<Rightarrow> bool \<Rightarrow> goerr option \<Rightarrow> circuitBreaker option \<Rightarrow> circuitBreaker option" where
  "breakerResult now trial err br =
     (case br of None \<Rightarrow> None | Some b \<Rightarrow> Some (afterCall now trial err b))"

definition ctx_with_timeout :: "int \<Rightarrow> int \<Rightarrow> ctx \<Rightarrow> ctx" where
  "ctx_with_timeout now d cx =
     (\<lambda>t. case cx t of Some e \<Rightarrow> Some e
       | None \<Rightarrow> if t \<ge> now + d then Some (ESentinel context_DeadlineExceeded) else None)"

definition ctx_cancelled_at :: "int \<Rightarrow> ctx \<Rightarrow> ctx" where
  "ctx_cancelled_at t0 cx =
     (\<lambda>t. case cx t of Some e \<Rightarrow> Some e
       | None \<Rightarrow> if t \<ge> t0 then Some (ESentinel context_Canceled) else None)"

text \<open>The derived context and what the deferred \<^verbatim>\<open>cancel\<close> leaves of it from \<open>t_ret\<close> on.\<close>

definition applyTimeout :: "MiddlewareClient \<Rightarrow> int \<Rightarrow> ctx \<Rightarrow> ctx \<times> (int \<Rightarrow> ctx)" where
  "applyTimeout mc now cx =
     (if mw_timeout mc > 0
      then (let c = ctx_with_timeout now (mw_timeout mc) cx in (c, \<lambda>t_ret. ctx_cancelled_at t_ret c))
      else (cx, \<lambda>t_ret. cx))"

definition waitRateLimit ::
  "int \<Rightarrow> wake list \<Rightarrow> tokenBucket option \<Rightarrow> (goerr option \<times> tokenBucket option) option" where
  "waitRateLimit now ws rl =
     (case rl of None \<Rightarrow> Some (None, None)
      | Some tb \<Rightarrow> map_option (\<lambda>(e, tb1). (e, Some tb1)) (tb_Wait now ws tb))"

definition promptLen :: "Message list \<Rightarrow> int" where
  "promptLen ms = foldl (\<lambda>n m. n + int (length (mContent m))) 0 ms"

definition logCall ::
  "string \<Rightarrow> Message list \<Rightarrow> GenerateOptions \<Rightarrow> string \<Rightarrow> goerr option \<Rightarrow> log_line list option \<Rightarrow> log_line list option" where
  "logCall meth ms op result err lg =
     (case lg of None \<Rightarrow> None
      | Some ls \<Rightarrow> Some (ls @ [LogCall meth (gModel op) (promptLen ms) (int (length result)) (err \<noteq> None)] @
          (case err of None \<Rightarrow> [] | Some e \<Rightarrow> [LogFailed meth (err_text e)])))"

text \<open>A nil \<^verbatim>\<open>usage\<close> is dereferenced here: \<open>None\<close> is the resulting panic.\<close>

definition logCallWithUsage ::
  "string \<Rightarrow> Message list \<Rightarrow> GenerateOptions \<Rightarrow> Usage option \<Rightarrow> goerr option \<Rightarrow> log_line list option
     \<Rightarrow> log_line list option option" where
  "logCallWithUsage meth ms op usage err lg =
     (case lg of None \<Rightarrow> Some None
      | Some ls \<Rightarrow>
          (case usage of None \<Rightarrow> None
           | Some u \<Rightarrow> Some (Some (ls @ [LogUsage meth (gModel op) (promptLen ms) u (err \<noteq> None)]))))"

text \<open>The readings of the clock a call makes and the wake-ups of its rate limiter.\<close>

record mw_env =
  t_before :: int
  t_wait :: int
  wakes :: "wake list"
  t_after :: int

datatype 'r outcome = Returned 'r | Panicked | Blocked

text \<open>
  The four methods run the breaker, the derived context, the rate limiter, the provider and the
  report in this order. \<open>Blocked\<close> is a call still inside the rate limiter.
\<close>

definition mw_Generate ::
  "mw_env \<Rightarrow> ctx \<Rightarrow> Message list \<Rightarrow> GenerateOptions \<Rightarrow> MiddlewareClient
     \<Rightarrow> (string \<times> goerr option) outcome \<times> MiddlewareClient" where
  "mw_Generate env cx ms op mc =
     (case breakerAllow (t_before env) (mw_breaker mc) of (allow, trial, br1) \<Rightarrow>
        let mc1 = mc\<lparr>mw_breaker := br1\<rparr> in
        if \<not> allow then (Returned ([], Some (ESentinel ErrCircuitOpen)), mc1)
        else
          let cx1 = fst (applyTimeout mc1 (t_before env) cx) in
          case waitRateLimit (t_wait env) (wakes env) (mw_rateLimiter mc1) of
            None \<Rightarrow> (Blocked, mc1)
          | Some (Some e, rl1) \<Rightarrow>
              (Returned ([], Some e),
               mc1\<lparr>mw_rateLimiter := rl1, mw_breaker := breakerResult (t_after env) trial (Some e) br1\<rparr>)
          | Some (None, rl1) \<Rightarrow>
              let (result, err) = c_Generate (mw_inner mc1) cx1 ms op in
              (Returned (result, err),
               mc1\<lparr>mw_rateLimiter := rl1, mw_breaker := breakerResult (t_after env) trial err br1,
                   mw_logger := logCall ''Generate'' ms op result err (mw_logger mc1)\<rparr>))"

definition mw_GenerateWithUsage ::
  "mw_env \<Rightarrow> ctx \<Rightarrow> Message list \<Rightarrow> GenerateOptions \<Rightarrow> MiddlewareClient
     \<Rightarrow> (string \<times> Usage option \<times> goerr option) outcome \<times> MiddlewareClient" where
  "mw_GenerateWithUsage env cx ms op mc =
     (case breakerAllow (t_before env) (mw_breaker mc) of (allow, trial, br1) \<Rightarrow>
        let mc1 = mc\<lparr>mw_breaker := br1\<rparr> in
        if \<not> allow then (Returned ([], None, Some (ESentinel ErrCircuitOpen)), mc1)
        else
          let cx1 = fst (applyTimeout mc1 (t_before env) cx) in
          case waitRateLimit (t_wait env) (wakes env) (mw_rateLimiter mc1) of
            None \<Rightarrow> (Blocked, mc1)
          | Some (Some e, rl1) \<Rightarrow>
              (Returned ([], None, Some e),
               mc1\<lparr>mw_rateLimiter := rl1, mw_breaker := breakerResult (t_after env) trial (Some e) br1\<rparr>)
          | Some (None, rl1) \<Rightarrow>
              let (result, usage, err) = c_GenerateWithUsage (mw_inner mc1) cx1 ms op;
                  mc2 = mc1\<lparr>mw_rateLimiter := rl1, mw_breaker := breakerResult (t_after env) trial err br1\<rparr>
              in case logCallWithUsage ''GenerateWithUsage'' ms op usage err (mw_logger mc1) of
                   None \<Rightarrow> (Panicked, mc2)
                 | Some lg \<Rightarrow> (Returned (result, usage, err), mc2\<lparr>mw_logger := lg\<rparr>))"

definition mw_GenerateStructured ::
  "(gvalue \<Rightarrow> string) \<Rightarrow> mw_env \<Rightarrow> ctx \<Rightarrow> Message list \<Rightarrow> gvalue \<Rightarrow> GenerateOptions \<Rightarrow> MiddlewareClient
     \<Rightarrow> (gvalue \<times> goerr option) outcome \<times> MiddlewareClient" where
  "mw_GenerateStructured fmt_v env cx ms sc op mc =
     (case breakerAllow (t_before env) (mw_breaker mc) of (allow, trial, br1) \<Rightarrow>
        let mc1 = mc\<lparr>mw_breaker := br1\<rparr> in
        if \<not> allow then (Returned (VNil, Some (ESentinel ErrCircuitOpen)), mc1)
        else
          let cx1 = fst (applyTimeout mc1 (t_before env) cx) in
          case waitRateLimit (t_wait env) (wakes env) (mw_rateLimiter mc1) of
            None \<Rightarrow> (Blocked, mc1)
          | Some (Some e, rl1) \<Rightarrow>
              (Returned (VNil, Some e),
               mc1\<lparr>mw_rateLimiter := rl1, mw_breaker := breakerResult (t_after env) trial (Some e) br1\<rparr>)
          | Some (None, rl1) \<Rightarrow>
              let (result, err) = c_GenerateStructured (mw_inner mc1) cx1 ms sc op in
              (Returned (result, err),
               mc1\<lparr>mw_rateLimiter := rl1, mw_breaker := breakerResult (t_after env) trial err br1,
                   mw_logger := logCall ''GenerateStructured'' ms op (fmt_v result) err (mw_logger mc1)\<rparr>))"

text \<open>The third component is the context the returned channel is produced under, after the
  deferred \<^verbatim>\<open>cancel\<close> has run.\<close>

definition mw_StreamGenerate ::
  "mw_env \<Rightarrow> ctx \<Rightarrow> Message list \<Rightarrow> GenerateOptions \<Rightarrow> MiddlewareClient
     \<Rightarrow> (string list option \<times> goerr option \<times> ctx) outcome \<times> MiddlewareClient" where
  "mw_StreamGenerate env cx ms op mc =
     (case breakerAllow (t_before env) (mw_breaker mc) of (allow, trial, br1) \<Rightarrow>
        let mc1 = mc\<lparr>mw_breaker := br1\<rparr> in
        if \<not> allow then (Returned (None, Some (ESentinel ErrCircuitOpen), cx), mc1)
        else
          let (cx1, after) = applyTimeout mc1 (t_before env) cx in
          case waitRateLimit (t_wait env) (wakes env) (mw_rateLimiter mc1) of
            None \<Rightarrow> (Blocked, mc1)
          | Some (Some e, rl1) \<Rightarrow>
              (Returned (None, Some e, after (t_after env)),
               mc1\<lparr>mw_rateLimiter := rl1, mw_breaker := breakerResult (t_after env) trial (Some e) br1\<rparr>)
          | Some (None, rl1) \<Rightarrow>
              let (ch, err) = c_StreamGenerate (mw_inner mc1) cx1 ms op in
              (Returned (ch, err, after (t_after env)),
               mc1\<lparr>mw_rateLimiter := rl1, mw_breaker := breakerResult (t_after env) trial err br1,
                   mw_logger := map_option (\<lambda>ls. ls @ [LogStream (int (length ms)) (err \<noteq> None)]) (mw_logger mc1)\<rparr>))"

section \<open>Lemmas\<close>

interpretation mwgate: call_gate breakerAllow breakerResult
  "\<lambda>br. case br of None \<Rightarrow> True | Some b \<Rightarrow> breaker_inv b"
  "\<lambda>br. case br of None \<Rightarrow> False | Some b \<Rightarrow> brk_state b \<noteq> breakerClosed"
proof unfold_locales
  show "case g' of None \<Rightarrow> True | Some b \<Rightarrow> breaker_inv b"
    if "case g of None \<Rightarrow> True | Some b \<Rightarrow> breaker_inv b" "breakerAllow now g = (a, tr, g')" for g now a tr g'
    using that by (auto simp: breakerAllow_def dest: cb.ask_inv split: option.splits prod.splits)
  show "g' = g" if "breakerAllow now g = (False, tr, g')" for now g tr g'
    using that by (auto simp: breakerAllow_def dest: cb.ask_refused split: option.splits prod.splits)
  show "breakerAllow now g = (True, False, g)"
    if "case g of None \<Rightarrow> True | Some b \<Rightarrow> breaker_inv b"
      "\<not> (case g of None \<Rightarrow> False | Some b \<Rightarrow> brk_state b \<noteq> breakerClosed)" for g now
    using that by (auto simp: breakerAllow_def cb.ask_untripped split: option.splits)
  show "case breakerResult now tr err g of None \<Rightarrow> True | Some b \<Rightarrow> breaker_inv b"
    if "case g of None \<Rightarrow> True | Some b \<Rightarrow> breaker_inv b" for g now tr err
    using that by (auto simp: breakerResult_def cb.report_inv split: option.splits)
qed (auto simp: breakerResult_def cb.report_neutral afterCall_def split: option.splits)

definition mw_inv :: "MiddlewareClient \<Rightarrow> bool" where
  "mw_inv mc \<longleftrightarrow> (case mw_breaker mc of None \<Rightarrow> True | Some b \<Rightarrow> breaker_inv b)"

lemmas mw_defs = mw_Generate_def mw_GenerateWithUsage_def mw_GenerateStructured_def mw_StreamGenerate_def

lemma mw_inv_ask: "mw_inv mc \<Longrightarrow> breakerAllow now (mw_breaker mc) = (a, tr, br) \<Longrightarrow>
    mw_inv (mc\<lparr>mw_breaker := br\<rparr>) \<and>
    (\<forall>t tr' err. mw_inv (mc\<lparr>mw_breaker := breakerResult t tr' err br\<rparr>))"
  using mwgate.ask_inv [of "mw_breaker mc" now a tr br] mwgate.report_inv [of br]
  by (auto simp: mw_inv_def)

lemma mw_inv_other [simp]:
  "mw_inv (mc\<lparr>mw_rateLimiter := rl\<rparr>) = mw_inv mc"
  "mw_inv (mc\<lparr>mw_logger := lg\<rparr>) = mw_inv mc"
  "mw_inv (mc\<lparr>mw_rateLimiter := rl, mw_breaker := br\<rparr>) = mw_inv (mc\<lparr>mw_breaker := br\<rparr>)"
  "mw_inv (mc\<lparr>mw_breaker := b0, mw_rateLimiter := rl, mw_breaker := br\<rparr>) = mw_inv (mc\<lparr>mw_breaker := br\<rparr>)"
  by (simp_all add: mw_inv_def)

lemma mw_inv_breaker: "mw_inv (mc\<lparr>mw_breaker := br\<rparr>) = (case br of None \<Rightarrow> True | Some b \<Rightarrow> breaker_inv b)"
  by (simp add: mw_inv_def)

lemma mw_methods_inv:
  assumes "mw_inv mc"
  shows mw_Generate_inv: "mw_inv (snd (mw_Generate env cx ms op mc))"
    and mw_GenerateWithUsage_inv: "mw_inv (snd (mw_GenerateWithUsage env cx ms op mc))"
    and mw_GenerateStructured_inv: "mw_inv (snd (mw_GenerateStructured fv env cx ms sc op mc))"
    and mw_StreamGenerate_inv: "mw_inv (snd (mw_StreamGenerate env cx ms op mc))"
proof -
  obtain a tr br where ask: "breakerAllow (t_before env) (mw_breaker mc) = (a, tr, br)"
    by (metis prod_cases3)
  from mw_inv_ask [OF assms ask] have inv: "mw_inv (mc\<lparr>mw_breaker := br\<rparr>)"
    "\<And>t tr' err. mw_inv (mc\<lparr>mw_breaker := breakerResult t tr' err br\<rparr>)"
    by simp_all
  note sp = prod.split option.split
  show "mw_inv (snd (mw_Generate env cx ms op mc))"
    by (simp add: mw_Generate_def ask inv Let_def split: sp)
  show "mw_inv (snd (mw_GenerateWithUsage env cx ms op mc))"
    by (simp add: mw_GenerateWithUsage_def ask inv Let_def split: sp)
  show "mw_inv (snd (mw_GenerateStructured fv env cx ms sc op mc))"
    by (simp add: mw_GenerateStructured_def ask inv Let_def split: sp)
  show "mw_inv (snd (mw_StreamGenerate env cx ms op mc))"
    by (simp add: mw_StreamGenerate_def ask inv Let_def split: sp)
qed

lemma WrapClient_inv:
  assumes "\<And>opt mc. opt \<in> set opts \<Longrightarrow> mw_inv mc \<Longrightarrow> mw_inv (opt mc)"
  shows "mw_inv (WrapClient inner opts)"
proof -
  have "mw_inv mc \<Longrightarrow> mw_inv (fold (\<lambda>opt mc. opt mc) opts mc)" for mc
    using assms by (induction opts arbitrary: mc) auto
  then show ?thesis by (simp add: WrapClient_def mw_inv_def)
qed

lemma WithCircuitBreaker_inv: "mw_inv (WithCircuitBreaker thr cool mc)"
  by (simp add: WithCircuitBreaker_def mw_inv_def newCircuitBreaker_inv)

lemma tb_try_config [simp]:
  "maxTokens (snd (tb_try now tb)) = maxTokens tb"
  "refillRate (snd (tb_try now tb)) = refillRate tb"
  "lastRefill (snd (tb_try now tb)) = now"
  by (simp_all add: tb_try_def Let_def)

definition tb_inv :: "tokenBucket \<Rightarrow> bool" where
  "tb_inv tb \<longleftrightarrow> 0 \<le> tb_tokens tb \<and> tb_tokens tb \<le> maxTokens tb \<and> 0 \<le> refillRate tb"

lemma newTokenBucket_inv: "0 \<le> n \<Longrightarrow> 0 < w \<Longrightarrow> tb_inv (newTokenBucket n w now)"
  by (simp add: tb_inv_def newTokenBucket_def nanos_def)

lemma tb_try_inv: "tb_inv tb \<Longrightarrow> lastRefill tb \<le> now \<Longrightarrow> tb_inv (snd (tb_try now tb))"
  by (auto simp: tb_inv_def tb_try_def Let_def nanos_def)

text \<open>The accounting identity behind the rate bound: what is left plus what was granted never
  exceeds what there was plus what flowed in.\<close>

lemma tb_try_budget:
  assumes "lastRefill tb \<le> now" "0 \<le> refillRate tb"
  shows "tb_tokens (snd (tb_try now tb)) + (if fst (tb_try now tb) then 1 else 0)
    \<le> tb_tokens tb + real_of_int (now - lastRefill tb) / nanos * refillRate tb"
  by (auto simp: tb_try_def Let_def)

fun tb_grants :: "int list \<Rightarrow> tokenBucket \<Rightarrow> nat" where
  "tb_grants [] tb = 0"
| "tb_grants (t # ts) tb = (if fst (tb_try t tb) then 1 else 0) + tb_grants ts (snd (tb_try t tb))"

lemma tb_grants_bound:
  assumes "tb_inv tb" "sorted (lastRefill tb # ts @ [T])"
  shows "real (tb_grants ts tb) \<le> tb_tokens tb + real_of_int (T - lastRefill tb) / nanos * refillRate tb"
  using assms
proof (induction ts arbitrary: tb)
  case Nil
  then show ?case by (simp add: tb_inv_def nanos_def)
next
  case (Cons t ts)
  let ?tb = "snd (tb_try t tb)"
  have le: "lastRefill tb \<le> t" using Cons.prems(2) by simp
  have "real (tb_grants ts ?tb) \<le> tb_tokens ?tb + real_of_int (T - t) / nanos * refillRate tb"
    using Cons.IH [of ?tb] tb_try_inv [OF Cons.prems(1) le] Cons.prems(2) by simp
  moreover have "tb_tokens ?tb + (if fst (tb_try t tb) then 1 else 0)
    \<le> tb_tokens tb + real_of_int (t - lastRefill tb) / nanos * refillRate tb"
    using tb_try_budget [OF le] Cons.prems(1) by (simp add: tb_inv_def)
  moreover have "real_of_int (t - lastRefill tb) / nanos * refillRate tb + real_of_int (T - t) / nanos * refillRate tb
    = real_of_int (T - lastRefill tb) / nanos * refillRate tb"
    by (simp add: ring_distribs(2) [symmetric] add_divide_distrib [symmetric])
  ultimately show ?case by (auto split: if_splits)
qed

lemma tb_try_after_wait:
  assumes "0 < refillRate tb" "1 \<le> maxTokens tb"
    and "tb_waitTime tb + 1 \<le> t - lastRefill tb"
  shows "fst (tb_try t tb)"
proof -
  let ?x = "(1 - tb_tokens tb) / refillRate tb * nanos"
  have n: "0 < nanos" by (simp add: nanos_def)
  have "?x < real_of_int (t - lastRefill tb)"
    using assms(3) unfolding tb_waitTime_def by linarith
  then have "?x / nanos \<le> real_of_int (t - lastRefill tb) / nanos"
    using n by (intro divide_right_mono) linarith+
  then have "(1 - tb_tokens tb) / refillRate tb \<le> real_of_int (t - lastRefill tb) / nanos"
    using n by simp
  then have "1 - tb_tokens tb \<le> real_of_int (t - lastRefill tb) / nanos * refillRate tb"
    using assms(1) by (simp add: pos_divide_le_eq)
  then show ?thesis using assms(2) by (simp add: tb_try_def Let_def)
qed

lemma isFailoverRequired_budget: "errors_is e ErrBudgetExceeded \<Longrightarrow> \<not> isFailoverRequired (Some e)"
proof -
  assume "errors_is e ErrBudgetExceeded"
  then have "sublist (to_lower ErrBudgetExceeded) (to_lower (err_text e))"
    by (intro sublist_to_lower errors_is_text)
  moreover have "to_lower ErrBudgetExceeded = ''llm '' @ ''budget exceeded''"
    by code_simp
  moreover have "sublist ''budget exceeded'' (''llm '' @ ''budget exceeded'')"
    by (rule sublist_appendI [of _ "''llm ''" "[]", simplified append_Nil2])
  ultimately show ?thesis
    by (auto simp: isFailoverRequired_def Let_def intro: sublist_order.order_trans)
qed

section \<open>Properties\<close>

text \<open>
  Whatever the provider, the clock, the context and the wake-ups of the rate limiter, each of
  the four client methods keeps the breaker of a middleware client well formed; and when the
  breaker refuses the call the method returns the circuit-open error without consulting the
  provider and without changing the client.
\<close>

theorem middleware_breaker_preserved:
  assumes "mw_inv mc"
  shows "mw_inv (snd (mw_Generate env cx ms op mc)) \<and>
    mw_inv (snd (mw_GenerateWithUsage env cx ms op mc)) \<and>
    mw_inv (snd (mw_GenerateStructured fv env cx ms sc op mc)) \<and>
    mw_inv (snd (mw_StreamGenerate env cx ms op mc)) \<and>
    (\<not> fst (breakerAllow (t_before env) (mw_breaker mc)) \<longrightarrow>
       mw_Generate env cx ms op mc = (Returned ([], Some (ESentinel ErrCircuitOpen)), mc) \<and>
       mw_GenerateWithUsage env cx ms op mc = (Returned ([], None, Some (ESentinel ErrCircuitOpen)), mc) \<and>
       mw_GenerateStructured fv env cx ms sc op mc = (Returned (VNil, Some (ESentinel ErrCircuitOpen)), mc) \<and>
       mw_StreamGenerate env cx ms op mc = (Returned (None, Some (ESentinel ErrCircuitOpen), cx), mc))"
proof -
  obtain a tr br where ask: "breakerAllow (t_before env) (mw_breaker mc) = (a, tr, br)"
    by (metis prod_cases3)
  have ref: "br = mw_breaker mc" if "\<not> a"
    using that ask by (auto intro: mwgate.ask_refused)
  then have "\<not> fst (breakerAllow (t_before env) (mw_breaker mc)) \<longrightarrow>
       mw_Generate env cx ms op mc = (Returned ([], Some (ESentinel ErrCircuitOpen)), mc) \<and>
       mw_GenerateWithUsage env cx ms op mc = (Returned ([], None, Some (ESentinel ErrCircuitOpen)), mc) \<and>
       mw_GenerateStructured fv env cx ms sc op mc = (Returned (VNil, Some (ESentinel ErrCircuitOpen)), mc) \<and>
       mw_StreamGenerate env cx ms op mc = (Returned (None, Some (ESentinel ErrCircuitOpen), cx), mc)"
    by (simp add: mw_defs ask)
  with mw_methods_inv [OF assms] show ?thesis by blast
qed

definition demo_client :: Client where
  "demo_client = \<lparr>c_Generate = (\<lambda>_ _ _. (''ok'', None)),
     c_GenerateWithUsage = (\<lambda>_ _ _. ([], None, Some (EMsg ''boom''))),
     c_GenerateStructured = (\<lambda>_ _ _ _. (VNil, None)),
     c_StreamGenerate = (\<lambda>_ _ _. (Some [''a''], None))\<rparr>"

definition demo_env :: mw_env where
  "demo_env = \<lparr>t_before = 1, t_wait = 1, wakes = [], t_after = 2\<rparr>"

definition tripped_client :: MiddlewareClient where
  "tripped_client = (WrapClient demo_client [WithCircuitBreaker 1 9])
     \<lparr>mw_breaker := Some (afterCall 0 False (Some (EMsg ''503'')) (newCircuitBreaker 1 9))\<rparr>"

theorem middleware_breaker_preserved_witness:
  "fst (mw_Generate demo_env (\<lambda>_. None) [] zeroOptions tripped_client)
     = Returned ([], Some (ESentinel ErrCircuitOpen))"
proof -
  have "mw_inv tripped_client"
    by (simp add: tripped_client_def mw_inv_breaker afterCall_inv newCircuitBreaker_inv)
  moreover have "\<not> fst (breakerAllow (t_before demo_env) (mw_breaker tripped_client))"
    by (simp add: tripped_client_def breakerAllow_def demo_env_def beforeCall_def afterCall_def
        newCircuitBreaker_def not_provider_failure_def)
  ultimately show ?thesis using middleware_breaker_preserved by simp
qed

text \<open>
  A token bucket never grants more than its burst plus its refill: over any non-decreasing
  sequence of attempts up to time \<open>T\<close>, the grants number at most the tokens present at the
  start plus rate times elapsed time, so at most \<open>maxTokens\<close> plus rate times elapsed time.
\<close>

theorem token_bucket_rate_bound:
  assumes "tb_inv tb" and "sorted (lastRefill tb # ts @ [T])"
  shows "real (tb_grants ts tb) \<le> maxTokens tb + real_of_int (T - lastRefill tb) / nanos * refillRate tb"
  using tb_grants_bound [OF assms] assms(1) by (simp add: tb_inv_def)

theorem token_bucket_rate_bound_witness:
  "real (tb_grants [0, 0, 0] (newTokenBucket 2 (10 ^ 9) 0)) \<le> 2"
proof -
  have inv: "tb_inv (newTokenBucket 2 (10 ^ 9) 0)" by (rule newTokenBucket_inv) simp_all
  show ?thesis
    using token_bucket_rate_bound [OF inv, of "[0, 0, 0]" 0] by (simp add: newTokenBucket_def)
qed

text \<open>
  Waiting on the bucket makes progress: an attempt that finds no token computes a delay after
  which, once the clock has moved past it, the next pass of the loop returns without error.
\<close>

theorem token_bucket_wait_returns:
  assumes "0 < refillRate tb" and "1 \<le> maxTokens tb"
    and "\<not> fst (tb_try now tb)"
    and "now + tb_waitTime (snd (tb_try now tb)) + 1 \<le> t"
  shows "\<exists>tb'. tb_Wait now [WakeTimer t] tb = Some (None, tb')"
proof -
  have "fst (tb_try t (snd (tb_try now tb)))"
    using assms by (intro tb_try_after_wait) simp_all
  then show ?thesis using assms(3) by (auto simp: Let_def split: prod.splits)
qed

theorem token_bucket_wait_returns_witness:
  "\<exists>tb'. tb_Wait 0 [WakeTimer (10 ^ 9 + 1)] ((newTokenBucket 1 (10 ^ 9) 0)\<lparr>tb_tokens := 0\<rparr>) = Some (None, tb')"
  by (rule token_bucket_wait_returns)
    (simp_all add: newTokenBucket_def tb_try_def tb_waitTime_def nanos_def Let_def)

text \<open>
  The failover client consults nobody once the budget is spent, uses the secondary exactly
  when the primary's error is one of the listed transient kinds, and never fails over on an
  error that wraps the budget sentinel.
\<close>

theorem failover_dispatch:
  "(CheckBudget g = Some e \<longrightarrow> fo_Generate g c cx ms op = ([], Some e)) \<and>
   (CheckBudget g = None \<longrightarrow>
      fo_Generate g c cx ms op =
        (if isFailoverRequired (snd (c_Generate (f_Primary c) cx ms op))
         then c_Generate (f_Secondary c) cx ms op else c_Generate (f_Primary c) cx ms op)) \<and>
   (CheckBudget g = None \<and> snd (c_Generate (f_Primary c) cx ms op) = Some pe \<and> errors_is pe ErrBudgetExceeded \<longrightarrow>
      fo_Generate g c cx ms op = c_Generate (f_Primary c) cx ms op)"
proof -
  have n: "isFailoverRequired r \<Longrightarrow> r \<noteq> None" for r by (cases r) (auto simp: isFailoverRequired_def)
  have main: "CheckBudget g = None \<Longrightarrow> fo_Generate g c cx ms op =
        (if isFailoverRequired (snd (c_Generate (f_Primary c) cx ms op))
         then c_Generate (f_Secondary c) cx ms op else c_Generate (f_Primary c) cx ms op)"
    using n by (auto simp: fo_Generate_def split: prod.splits)
  then show ?thesis using isFailoverRequired_budget [of pe] by (auto simp: fo_Generate_def)
qed

theorem failover_dispatch_witness:
  "fo_Generate \<lparr>builtinPricing = Map.empty, globalCache = None, GlobalUsage = None, globalMaxBudget = 0\<rparr>
     \<lparr>f_Primary = demo_client\<lparr>c_Generate := (\<lambda>_ _ _. ([], Some (EMsg ''Overloaded'')))\<rparr>, f_Secondary = demo_client\<rparr>
     (\<lambda>_. None) [] zeroOptions = (''ok'', None)"
proof -
  have "isFailoverRequired (Some (EMsg ''Overloaded''))" by code_simp
  then show ?thesis
    using failover_dispatch [of "\<lparr>builtinPricing = Map.empty, globalCache = None, GlobalUsage = None, globalMaxBudget = 0\<rparr>"
        undefined "\<lparr>f_Primary = demo_client\<lparr>c_Generate := (\<lambda>_ _ _. ([], Some (EMsg ''Overloaded'')))\<rparr>, f_Secondary = demo_client\<rparr>"
        "\<lambda>_. None" "[]" zeroOptions undefined]
    by (simp add: CheckBudget_def demo_client_def)
qed

text \<open>
  A primary whose circuit breaker is open does not trigger failover, although the breaker
  documents its error as one callers should fail over on: the failover client hands the
  circuit-open error to its caller.
\<close>

theorem failover_ignores_open_circuit:
  assumes "CheckBudget g = None" and "c_Generate (f_Primary c) cx ms op = ([], Some (ESentinel ErrCircuitOpen))"
  shows "fo_Generate g c cx ms op = ([], Some (ESentinel ErrCircuitOpen))"
proof -
  have "\<not> isFailoverRequired (Some (ESentinel ErrCircuitOpen))" by code_simp
  with assms show ?thesis by (simp add: fo_Generate_def)
qed

theorem failover_ignores_open_circuit_witness:
  "fo_Generate \<lparr>builtinPricing = Map.empty, globalCache = None, GlobalUsage = None, globalMaxBudget = 0\<rparr>
     \<lparr>f_Primary = demo_client\<lparr>c_Generate := (\<lambda>_ _ _. ([], Some (ESentinel ErrCircuitOpen)))\<rparr>, f_Secondary = demo_client\<rparr>
     (\<lambda>_. None) [] zeroOptions = ([], Some (ESentinel ErrCircuitOpen))"
  by (rule failover_ignores_open_circuit) (simp_all add: CheckBudget_def)

text \<open>
  Response caching and automatic retries are configured but not performed: a middleware
  client behaves the same whatever its cache and retry count, which its calls leave alone.
\<close>

theorem middleware_cache_and_retries_unused:
  "mw_Generate env cx ms op (mc\<lparr>mw_cache := c, mw_maxRetries := n\<rparr>) =
     map_prod id (\<lambda>m. m\<lparr>mw_cache := c, mw_maxRetries := n\<rparr>) (mw_Generate env cx ms op mc) \<and>
   mw_StreamGenerate env cx ms op (mc\<lparr>mw_cache := c, mw_maxRetries := n\<rparr>) =
     map_prod id (\<lambda>m. m\<lparr>mw_cache := c, mw_maxRetries := n\<rparr>) (mw_StreamGenerate env cx ms op mc)"
  by (simp add: mw_defs applyTimeout_def Let_def split: prod.splits option.splits)

text \<open>
  With logging configured, a usage-tracked call whose provider fails without a usage record
  (as the failover client does on an exhausted budget) panics in the logger instead of returning
  the error.
\<close>

theorem middleware_nil_usage_panics:
  assumes "mw_logger mc = Some ls" and "mw_breaker mc = None" and "mw_rateLimiter mc = None"
    and "\<And>cx'. c_GenerateWithUsage (mw_inner mc) cx' ms op = (r, None, err)"
  shows "fst (mw_GenerateWithUsage env cx ms op mc) = Panicked"
  using assms
  by (simp add: mw_GenerateWithUsage_def breakerAllow_def waitRateLimit_def logCallWithUsage_def Let_def)

theorem middleware_nil_usage_panics_witness:
  "fst (mw_GenerateWithUsage demo_env (\<lambda>_. None) [] zeroOptions (WrapClient demo_client [WithLogging])) = Panicked"
  by (rule middleware_nil_usage_panics [where ls = "[]" and r = "[]" and err = "Some (EMsg ''boom'')"])
    (simp_all add: WrapClient_def WithLogging_def demo_client_def)

text \<open>
  With a timeout configured, the context of a stream is cancelled as soon as the call that
  opened it returns: no chunk can be produced under a live context after that instant.
\<close>

theorem middleware_stream_context_dead:
  assumes "mw_timeout mc > 0"
    and "fst (mw_StreamGenerate env cx ms op mc) = Returned (Some ch, err, cx')"
    and "t_after env \<le> t"
  shows "cx' t \<noteq> None"
  using assms
  by (auto simp: mw_StreamGenerate_def applyTimeout_def ctx_cancelled_at_def ctx_with_timeout_def Let_def
      split: prod.splits option.splits if_splits)

theorem middleware_stream_context_dead_witness:
  "\<exists>cx'. fst (mw_StreamGenerate demo_env (\<lambda>_. None) [] zeroOptions (WrapClient demo_client [WithTimeout 100]))
      = Returned (Some [''a''], None, cx') \<and> cx' 2 \<noteq> None"
proof -
  let ?m = "WrapClient demo_client [WithTimeout 100]"
  obtain cx' where r: "fst (mw_StreamGenerate demo_env (\<lambda>_. None) [] zeroOptions ?m) = Returned (Some [''a''], None, cx')"
    by (simp add: mw_StreamGenerate_def WrapClient_def WithTimeout_def breakerAllow_def waitRateLimit_def
        applyTimeout_def demo_client_def Let_def)
  have "cx' 2 \<noteq> None"
    by (rule middleware_stream_context_dead [OF _ r]) (simp_all add: WrapClient_def WithTimeout_def demo_env_def)
  with r show ?thesis by blast
qed

text \<open>
  Typed options survive the untyped map: converting an option set to a map and back gives the
  same model, token limit (when positive) and stop sequences, and the temperature when one is set.
\<close>

theorem options_roundtrip:
  "MapToOptions (Some (ToMap o')) =
     \<lparr>gModel = oModel o', gTemperature = (case oTemperature o' of None \<Rightarrow> 0 | Some t \<Rightarrow> t),
      gMaxTokens = max 0 (oMaxTokens o'), gStop = oStop o', gExtra = Some (ToMap o')\<rparr>"
proof -
  have "ToMap o' ''model'' = (if oModel o' \<noteq> [] then Some (VString (oModel o')) else None)"
    and "ToMap o' ''temperature'' = map_option VFloat (oTemperature o')"
    and "ToMap o' ''max_tokens'' = (if oMaxTokens o' > 0 then Some (VInt (oMaxTokens o')) else None)"
    and "ToMap o' ''stop'' = (if oStop o' \<noteq> [] then Some (VStrings (oStop o')) else None)"
    by (auto simp: ToMap_def)
  then show ?thesis
    by (auto simp: MapToOptions_def zeroOptions_def Let_def split: option.splits)
qed

end
