(* ===== verification/Go_Files.thy ===== *)
theory Go_Files
  imports Go_Prelude "HOL-Library.AList"
begin

text \<open>
  Slash-separated paths (\<^verbatim>\<open>filepath.Clean\<close> and \<^verbatim>\<open>filepath.Join\<close> on Unix), the check both
  persistence layers make of an identifier before it becomes a file name, and a disk: files by
  path, with the outcomes the operating system will report consumed one per operation
  (\<open>None\<close>, and an exhausted list, is success).
\<close>

section \<open>Paths\<close>

definition clean_step :: "bool \<Rightarrow> string list \<Rightarrow> string \<Rightarrow> string list" where
  "clean_step rooted st c =
     (if c = [] \<or> c = ''.'' then st
      else if c = ''..'' then
        (if st \<noteq> [] \<and> hd st \<noteq> ''..'' then tl st else if rooted then st else c # st)
      else c # st)"

definition is_rooted :: "string \<Rightarrow> bool" where
  "is_rooted p \<longleftrightarrow> p \<noteq> [] \<and> hd p = CHR ''/''"

definition clean_stack :: "string \<Rightarrow> string list" where
  "clean_stack p = foldl (clean_step (is_rooted p)) [] (split_byte CHR ''/'' p)"

definition render_path :: "bool \<Rightarrow> string list \<Rightarrow> string" where
  "render_path rooted st =
     (let body = str_join (rev st) ''/'' in
      if rooted then CHR ''/'' # body else if body = [] then ''.'' else body)"

definition path_clean :: "string \<Rightarrow> string" where
  "path_clean p = render_path (is_rooted p) (clean_stack p)"

definition path_join :: "string \<Rightarrow> string \<Rightarrow> string" where
  "path_join dir name =
     (if dir = [] then (if name = [] then [] else path_clean name)
      else path_clean (if name = [] then dir else dir @ ''/'' @ name))"

text \<open>The text \<^verbatim>\<open>%q\<close> gives for an identifier is only a message; it is kept as the identifier in quotes.\<close>

definition clean_id :: "string \<Rightarrow> string \<Rightarrow> string result" where
  "clean_id what i =
     (let err = EMsg (what @ [CHR 0x22] @ i @ [CHR 0x22]) in
      if i = [] \<or> length i > 128 then Inl err
      else if CHR ''/'' \<in> set i \<or> CHR 0x5C \<in> set i \<or> str_contains i ''..'' then Inl err
      else if path_clean i \<noteq> i then Inl err
      else Inr i)"

lemma split_byte_comp: "p \<in> set (split_byte c s) \<Longrightarrow> c \<notin> set p"
proof (induction s arbitrary: p)
  case (Cons x xs)
  then show ?case
    by (cases "split_byte c xs") (auto split: if_splits)
qed simp

lemma clean_step_name: "c \<noteq> [] \<Longrightarrow> c \<noteq> ''.'' \<Longrightarrow> c \<noteq> ''..'' \<Longrightarrow> clean_step rooted st c = c # st"
  by (simp add: clean_step_def)

lemma clean_stack_child:
  assumes "dir \<noteq> []" "CHR ''/'' \<notin> set n" "n \<noteq> []" "n \<noteq> ''.''" "n \<noteq> ''..''"
  shows "clean_stack (dir @ CHR ''/'' # n) = n # clean_stack dir"
  using assms
  by (simp add: clean_stack_def split_byte_append split_byte_notin is_rooted_def clean_step_name)

lemma path_clean_name:
  assumes "CHR ''/'' \<notin> set n" "n \<noteq> []"
  shows "path_clean n = n"
proof -
  have "\<not> is_rooted n" using assms by (cases n) (auto simp: is_rooted_def)
  then show ?thesis
    using assms
    by (auto simp: path_clean_def clean_stack_def split_byte_notin clean_step_def render_path_def)
qed

text \<open>A file name joined to a directory denotes a direct child of that directory.\<close>

lemma path_join_child:
  assumes "CHR ''/'' \<notin> set n" "n \<noteq> []" "n \<noteq> ''.''" "n \<noteq> ''..''"
  shows "path_join dir n =
    (if dir = [] then n else render_path (is_rooted dir) (n # clean_stack dir))"
  using assms clean_stack_child [of dir n] path_clean_name [of n]
  by (simp add: path_join_def path_clean_def is_rooted_def)

lemma str_join_snoc: "str_join (xs @ [y]) sep = (if xs = [] then y else str_join xs sep @ sep @ y)"
  by (induction xs sep rule: str_join.induct) (auto simp: str_join_Cons)

lemma render_path_push_inj:
  assumes "m \<noteq> []" "n \<noteq> []"
  shows "render_path b (m # st) = render_path b (n # st) \<longleftrightarrow> m = n"
  using assms by (auto simp: render_path_def str_join_snoc Let_def)

lemma path_join_inj:
  assumes "CHR ''/'' \<notin> set m" "m \<noteq> []" "m \<noteq> ''.''" "m \<noteq> ''..''"
    "CHR ''/'' \<notin> set n" "n \<noteq> []" "n \<noteq> ''.''" "n \<noteq> ''..''"
  shows "path_join dir m = path_join dir n \<longleftrightarrow> m = n"
  using assms by (simp add: path_join_child render_path_push_inj)

lemma clean_id_ok:
  assumes "clean_id what i = Inr j"
  shows "j = i \<and> i \<noteq> [] \<and> length i \<le> 128 \<and> CHR ''/'' \<notin> set i \<and> CHR 0x5C \<notin> set i \<and> \<not> sublist ''..'' i"
  using assms by (auto simp: clean_id_def Let_def split: if_splits)

lemma clean_id_iff:
  "clean_id what i = Inr i \<longleftrightarrow>
     i \<noteq> [] \<and> length i \<le> 128 \<and> CHR ''/'' \<notin> set i \<and> CHR 0x5C \<notin> set i \<and> \<not> sublist ''..'' i"
  using path_clean_name [of i] by (auto simp: clean_id_def Let_def)

section \<open>Absolute paths as lists of components\<close>

definition comps :: "string \<Rightarrow> string list" where
  "comps p = filter (\<lambda>c. c \<noteq> []) (split_byte CHR ''/'' p)"

text \<open>A component of a clean absolute path, and the path of a list of them.\<close>

definition comp_ok :: "string \<Rightarrow> bool" where
  "comp_ok c \<longleftrightarrow> c \<noteq> [] \<and> CHR ''/'' \<notin> set c \<and> c \<noteq> ''.'' \<and> c \<noteq> ''..''"

definition abs_text :: "string list \<Rightarrow> string" where
  "abs_text cs = (if cs = [] then ''/'' else concat (map ((#) (CHR ''/'')) cs))"

lemma clean_stack_ok:
  assumes "is_rooted p"
  shows "list_all comp_ok (clean_stack p)"
proof -
  have "list_all comp_ok (foldl (clean_step True) st cs)"
    if "list_all comp_ok st" "\<forall>c\<in>set cs. CHR ''/'' \<notin> set c" for st cs
    using that
  proof (induction cs arbitrary: st)
    case (Cons c cs)
    have "list_all comp_ok (clean_step True st c)"
      using Cons.prems by (cases st) (auto simp: clean_step_def comp_ok_def list_all_iff)
    with Cons show ?case by simp
  qed simp
  then show ?thesis using assms split_byte_comp [of _ "CHR ''/''" p] by (auto simp: clean_stack_def)
qed

lemma render_abs: "render_path True st = abs_text (rev st)"
proof -
  have "CHR ''/'' # str_join cs ''/'' = concat (map ((#) (CHR ''/'')) cs)" if "cs \<noteq> []" for cs
    using that by (induction cs "''/''" rule: str_join.induct) auto
  then show ?thesis by (auto simp: render_path_def abs_text_def Let_def)
qed

lemma path_clean_abs: "is_rooted p \<Longrightarrow> path_clean p = abs_text (rev (clean_stack p))"
  by (simp add: path_clean_def render_abs)

lemma comps_abs_text [simp]: "list_all comp_ok cs \<Longrightarrow> comps (abs_text cs) = cs"
proof -
  have "filter (\<lambda>c. c \<noteq> []) (split_byte CHR ''/'' (concat (map ((#) (CHR ''/'')) cs))) = cs" if "list_all comp_ok cs"
    using that
  proof (induction cs)
    case (Cons c cs)
    have "split_byte CHR ''/'' (c @ concat (map ((#) (CHR ''/'')) cs)) = c # tl (split_byte CHR ''/'' (concat (map ((#) (CHR ''/'')) cs)))"
    proof (cases cs)
      case Nil
      then show ?thesis using Cons.prems by (simp add: comp_ok_def split_byte_notin)
    next
      case (Cons d ds)
      then show ?thesis using \<open>list_all comp_ok (c # cs)\<close> by (simp add: comp_ok_def split_byte_append split_byte_notin)
    qed
    moreover obtain qs where "split_byte CHR ''/'' (concat (map ((#) (CHR ''/'')) cs)) = [] # qs" by (cases cs) auto
    ultimately show ?case using Cons by (simp add: comp_ok_def)
  qed simp
  then show "list_all comp_ok cs \<Longrightarrow> comps (abs_text cs) = cs" by (simp add: comps_def abs_text_def)
qed

lemma abs_text_inj: "list_all comp_ok cs \<Longrightarrow> list_all comp_ok ds \<Longrightarrow> abs_text cs = abs_text ds \<longleftrightarrow> cs = ds"
  by (metis comps_abs_text)

text \<open>The text comparison that the code uses for containment is containment of the component lists.\<close>

lemma slash_prefix:
  assumes "CHR ''/'' \<notin> set x" "CHR ''/'' \<notin> set y" "t = [] \<or> hd t = CHR ''/''"
  shows "prefix (x @ CHR ''/'' # r) (y @ t) \<longleftrightarrow> x = y \<and> prefix (CHR ''/'' # r) t"
  using assms(1,2)
proof (induction x arbitrary: y)
  case Nil
  then show ?case using assms(3) by (cases y; cases t) auto
next
  case (Cons a x)
  then show ?case using assms(3) by (cases y; cases t) auto
qed

lemma abs_text_prefix:
  assumes "list_all comp_ok cs" "list_all comp_ok ds" "cs \<noteq> []"
  shows "prefix (abs_text cs @ ''/'') (abs_text ds) \<longleftrightarrow> strict_prefix cs ds"
proof -
  let ?cat = "\<lambda>cs. concat (map ((#) (CHR ''/'')) cs)"
  have "prefix (?cat cs @ ''/'') (?cat ds) \<longleftrightarrow> strict_prefix cs ds" using assms(1,2)
  proof (induction cs arbitrary: ds)
    case Nil
    then show ?case by (cases ds) auto
  next
    case (Cons c cs)
    show ?case
    proof (cases ds)
      case (Cons d ds')
      obtain r where r: "?cat cs @ ''/'' = CHR ''/'' # r" by (cases cs) auto
      have h: "?cat ds' = [] \<or> hd (?cat ds') = CHR ''/''" by (cases ds') auto
      have "prefix (c @ ?cat cs @ ''/'') (d @ ?cat ds') \<longleftrightarrow> c = d \<and> prefix (?cat cs @ ''/'') (?cat ds')"
        unfolding r using slash_prefix [OF _ _ h] Cons.prems Cons by (simp add: comp_ok_def)
      then show ?thesis using Cons.IH [of ds'] Cons.prems Cons by simp
    qed simp
  qed
  moreover have "abs_text ds = ?cat ds \<or> (ds = [] \<and> abs_text ds = ''/'')" by (simp add: abs_text_def)
  moreover have "\<not> prefix (?cat cs @ ''/'') ''/''" using assms(3) by (cases cs) auto
  ultimately show ?thesis using assms(3) by (auto simp: abs_text_def)
qed

text \<open>Cleaning a clean absolute path changes nothing.\<close>

lemma foldl_clean_filter: "foldl (clean_step r) st cs = foldl (clean_step r) st (filter (\<lambda>c. c \<noteq> []) cs)"
  by (induction cs arbitrary: st) (auto simp: clean_step_def)

lemma foldl_clean_ok: "list_all comp_ok cs \<Longrightarrow> foldl (clean_step r) st cs = rev cs @ st"
  by (induction cs arbitrary: st) (auto simp: comp_ok_def clean_step_name)

lemma rooted_abs_text [simp]: "is_rooted (abs_text cs)"
  by (cases cs) (auto simp: abs_text_def is_rooted_def)

lemma path_clean_abs_text [simp]:
  assumes "list_all comp_ok cs"
  shows "path_clean (abs_text cs) = abs_text cs"
proof -
  have "clean_stack (abs_text cs) = rev cs"
    unfolding clean_stack_def foldl_clean_filter [of _ _ "split_byte _ _"]
    using comps_abs_text [OF assms] foldl_clean_ok [OF assms] by (simp add: comps_def)
  then show ?thesis by (simp add: path_clean_abs)
qed

lemma path_clean_comps: "is_rooted p \<Longrightarrow> \<exists>cs. list_all comp_ok cs \<and> path_clean p = abs_text cs"
  using clean_stack_ok [of p] path_clean_abs [of p] by (auto intro!: exI [of _ "rev (clean_stack p)"] simp: list_all_iff)

section \<open>Glob patterns\<close>

text \<open>
  \<^verbatim>\<open>filepath.Match\<close> on one path element: \<open>*\<close> matches any run of bytes other than the separator, \<open>?\<close> any
  one of them, \<open>[lo-hi]\<close> a class, and a backslash quotes. A malformed pattern has no tokens.
\<close>

datatype gtok = GStar | GAny | GLit char | GClass bool "(char \<times> char) list"

fun get_esc :: "string \<Rightarrow> (char \<times> string) option" where
  "get_esc [] = None"
| "get_esc (c # cs) =
     (if c = CHR ''-'' \<or> c = CHR '']'' then None
      else if c = CHR 0x5C then (case cs of d # e # ds \<Rightarrow> Some (d, e # ds) | _ \<Rightarrow> None)
      else if cs = [] then None else Some (c, cs))"

lemma get_esc_less: "get_esc s = Some (c, t) \<Longrightarrow> length t < length s"
  by (cases s) (auto split: if_splits list.splits)

function class_ranges :: "bool \<Rightarrow> string \<Rightarrow> ((char \<times> char) list \<times> string) option" where
  "class_ranges started s =
     (if started \<and> s \<noteq> [] \<and> hd s = CHR '']'' then Some ([], tl s)
      else (case get_esc s of
              None \<Rightarrow> None
            | Some (lo, t) \<Rightarrow>
                (if hd t = CHR ''-'' then
                   (case get_esc (tl t) of
                      None \<Rightarrow> None
                    | Some (hi, u) \<Rightarrow> map_option (\<lambda>(rs, v). ((lo, hi) # rs, v)) (class_ranges True u))
                 else map_option (\<lambda>(rs, v). ((lo, lo) # rs, v)) (class_ranges True t))))"
  by pat_completeness auto
termination
proof (relation "measure (length \<circ> snd)")
  fix started s x2 lo t y hi u
  assume a: "get_esc s = Some x2" "(lo, t) = x2" "get_esc (tl t) = Some y" "(hi, u) = y"
  then have "length t < length s" "length u < length (tl t)" using get_esc_less by metis+
  then show "((True, u), (started, s)) \<in> measure (length \<circ> snd)" by simp
qed (auto dest: get_esc_less)

declare class_ranges.simps [simp del]

lemma class_ranges_less: "class_ranges b s = Some (rs, t) \<Longrightarrow> length t < length s"
proof (induction b s arbitrary: rs t rule: class_ranges.induct)
  case (1 started s)
  show ?case
  proof (cases "started \<and> s \<noteq> [] \<and> hd s = CHR '']''")
    case True
    with "1.prems" show ?thesis by (cases s) (auto simp: class_ranges.simps)
  next
    case False
    then obtain lo u where e: "get_esc s = Some (lo, u)"
      using "1.prems" by (auto simp: class_ranges.simps [of started s] split: option.splits)
    note l = get_esc_less [OF e]
    show ?thesis
    proof (cases "hd u = CHR ''-''")
      case True
      then obtain hi v rs' where v: "get_esc (tl u) = Some (hi, v)" "class_ranges True v = Some (rs', t)"
        using "1.prems" False e by (auto simp: class_ranges.simps [of started s] split: option.splits)
      have "length t < length v" by (rule "1.IH"(1) [OF False e refl True v(1) refl v(2)])
      with l get_esc_less [OF v(1)] show ?thesis by simp
    next
      case nd: False
      then obtain rs' where v: "class_ranges True u = Some (rs', t)"
        using "1.prems" False e by (auto simp: class_ranges.simps [of started s] split: option.splits)
      have "length t < length u" by (rule "1.IH"(2) [OF False e refl nd v])
      with l show ?thesis by simp
    qed
  qed
qed

function glob_parse :: "string \<Rightarrow> gtok list option" where
  "glob_parse [] = Some []"
| "glob_parse (c # cs) =
     (if c = CHR ''*'' then map_option ((#) GStar) (glob_parse cs)
      else if c = CHR ''?'' then map_option ((#) GAny) (glob_parse cs)
      else if c = CHR ''['' then
        (let neg = (cs \<noteq> [] \<and> hd cs = CHR ''^'') in
         case class_ranges False (if neg then tl cs else cs) of
           None \<Rightarrow> None
         | Some (rs, t) \<Rightarrow> map_option ((#) (GClass neg rs)) (glob_parse t))
      else if c = CHR 0x5C then
        (case cs of [] \<Rightarrow> None | d # ds \<Rightarrow> map_option ((#) (GLit d)) (glob_parse ds))
      else map_option ((#) (GLit c)) (glob_parse cs))"
  by pat_completeness auto
termination
proof (relation "measure length")
  fix c cs neg x2 rs t
  assume "class_ranges False (if neg then tl cs else cs) = Some x2" "(rs, t) = x2"
  then have "length t < length (if neg then tl cs else cs)"
    using class_ranges_less by metis
  then show "(t, c # cs) \<in> measure length" by (auto split: if_splits)
qed auto

fun glob_match :: "gtok list \<Rightarrow> string \<Rightarrow> bool" where
  "glob_match [] s \<longleftrightarrow> s = []"
| "glob_match (GStar # ts) [] \<longleftrightarrow> glob_match ts []"
| "glob_match (GStar # ts) (c # s) \<longleftrightarrow>
     glob_match ts (c # s) \<or> (c \<noteq> CHR ''/'' \<and> glob_match (GStar # ts) s)"
| "glob_match (GAny # ts) (c # s) \<longleftrightarrow> c \<noteq> CHR ''/'' \<and> glob_match ts s"
| "glob_match (GLit d # ts) (c # s) \<longleftrightarrow> c = d \<and> glob_match ts s"
| "glob_match (GClass neg rs # ts) (c # s) \<longleftrightarrow>
     (list_ex (\<lambda>(lo, hi). lo \<le> c \<and> c \<le> hi) rs \<noteq> neg) \<and> glob_match ts s"
| "glob_match _ [] \<longleftrightarrow> False"

definition plain_chars :: "string \<Rightarrow> bool" where
  "plain_chars s \<longleftrightarrow> (\<forall>c \<in> set s. c \<notin> {CHR ''*'', CHR ''?'', CHR ''['', CHR 0x5C})"

lemma glob_parse_plain:
  "plain_chars s \<Longrightarrow> glob_parse (s @ t) = map_option ((@) (map GLit s)) (glob_parse t)"
proof (induction s)
  case (Cons c s)
  then show ?case by (cases "glob_parse t") (auto simp: plain_chars_def)
qed (cases "glob_parse t"; simp)

lemma glob_match_lits: "glob_match (map GLit p @ ts) s \<longleftrightarrow> (\<exists>t. s = p @ t \<and> glob_match ts t)"
proof (induction p arbitrary: s)
  case (Cons c p)
  then show ?case by (cases s) auto
qed simp

lemma glob_match_star: "CHR ''/'' \<notin> set s \<Longrightarrow> glob_match (GStar # ts) s \<longleftrightarrow> (\<exists>t. suffix t s \<and> glob_match ts t)"
proof (induction s)
  case (Cons c s)
  then show ?case by (auto simp: suffix_Cons)
qed auto

section \<open>The disk\<close>

record 'd disk =
  files :: "(string \<times> 'd) list"
  os_errs :: "goerr option list"

definition os_next :: "'d disk \<Rightarrow> goerr option \<times> 'd disk" where
  "os_next d = (case os_errs d of [] \<Rightarrow> (None, d) | e # es \<Rightarrow> (e, d\<lparr>os_errs := es\<rparr>))"

text \<open>
  Temporary file, write, chmod, rename: whatever step fails, the target is as before and the
  temporary file is removed.
\<close>

definition atomicWriteFile :: "string \<Rightarrow> 'd \<Rightarrow> 'd disk \<Rightarrow> 'd disk \<times> goerr option" where
  "atomicWriteFile path x d =
     (case os_next d of
        (Some e, d1) \<Rightarrow> (d1, Some e)
      | (None, d1) \<Rightarrow> (d1\<lparr>files := AList.update path x (files d1)\<rparr>, None))"

text \<open>\<^verbatim>\<open>os.ReadFile\<close>: absent, an error, or the contents.\<close>

definition read_file :: "string \<Rightarrow> 'd disk \<Rightarrow> (goerr + 'd option) \<times> 'd disk" where
  "read_file path d =
     (case os_next d of
        (Some e, d1) \<Rightarrow> (Inl e, d1)
      | (None, d1) \<Rightarrow> (Inr (map_of (files d1) path), d1))"

text \<open>\<^verbatim>\<open>os.Remove\<close> with a missing file not an error.\<close>

definition remove_file :: "string \<Rightarrow> 'd disk \<Rightarrow> 'd disk \<times> goerr option" where
  "remove_file path d =
     (case os_next d of
        (Some e, d1) \<Rightarrow> (d1, Some e)
      | (None, d1) \<Rightarrow> (d1\<lparr>files := AList.delete path (files d1)\<rparr>, None))"

lemma os_next_files [simp]: "files (snd (os_next d)) = files d"
  by (simp add: os_next_def split: list.split)

lemma os_next_filesD: "os_next d = (e, d1) \<Longrightarrow> files d1 = files d"
  using os_next_files [of d] by simp

lemma os_next_healthy [simp]: "os_errs d = [] \<Longrightarrow> os_next d = (None, d)"
  by (simp add: os_next_def)

lemma atomicWriteFile_error:
  "atomicWriteFile path x d = (d', Some e) \<Longrightarrow> files d' = files d"
  by (auto simp: atomicWriteFile_def dest: os_next_filesD split: prod.splits option.splits)

lemma atomicWriteFile_ok:
  "atomicWriteFile path x d = (d', None) \<Longrightarrow> files d' = AList.update path x (files d)"
  by (auto simp: atomicWriteFile_def dest: os_next_filesD split: prod.splits option.splits)

lemma atomicWriteFile_healthy:
  "os_errs d = [] \<Longrightarrow> atomicWriteFile path x d = (d\<lparr>files := AList.update path x (files d)\<rparr>, None)"
  by (simp add: atomicWriteFile_def)

end
