(* ===== verification/Flow_Graph.thy ===== *)
theory Flow_Graph
  imports Go_Files "HOL-Library.List_Lexorder" "HOL-Library.Multiset"
begin

text \<open>
  The graph engine of \<^verbatim>\<open>pkg/flows\<close>: \<^verbatim>\<open>state.go\<close>, \<^verbatim>\<open>checkpoint.go\<close> and \<^verbatim>\<open>engine.go\<close>.

  A \<^verbatim>\<open>State\<close> is a pointer, so states live on a heap and an action may change its argument in
  place. A state is a \<^verbatim>\<open>BaseState\<close> or a caller's own type \<open>'o\<close>, whose methods are fields of the
  environment \<open>genv\<close>, like the JSON text of a state and the size of the indented checkpoint file.
  The world also holds what the context reports at each check, the order in which concurrent
  branches finish (a branch runs as one block; branches work on clones), the clock, and the
  checkpoint directory, whose files are keyed by name: accepted identifiers have no separator,
  so by \<open>path_join_child\<close> every file is a direct child of the storage directory. Actions,
  routers and merge functions return non-nil states. The storage directory's own path is taken
  to hold no pattern characters.
\<close>

section \<open>Data\<close>

datatype 'o gstate = SBase gmap | SCustom 'o

datatype NodeType = NodeStep | NodeRouter | NodeParallel | NodeMap | NodeReduce | NodeOther string

text \<open>An action's result state: its argument (\<open>None\<close>) or another state.\<close>

record 'o FlowNode =
  n_Type :: NodeType
  n_Action :: "'o gstate \<Rightarrow> 'o gstate \<times> (goerr + 'o gstate option)"
  n_Router :: "'o gstate \<Rightarrow> string"
  n_ParallelBranches :: "string list"
  n_MapSourceKey :: string
  n_MapResultKey :: string
  n_Merge :: "('o gstate list \<Rightarrow> 'o gstate) option"
  n_Next :: "string list"

record 'o GFlow =
  g_ID :: string
  g_Nodes :: "string \<rightharpoonup> 'o FlowNode"
  g_Initial :: string
  g_State :: nat

record Checkpoint =
  cp_FlowID :: string
  cp_NodeID :: string
  cp_Timestamp :: int
  cp_Data :: string

text \<open>A file of the checkpoint directory: its size, and the checkpoint it decodes to, if it does.\<close>

record ckfile =
  ck_size :: nat
  ck_doc :: "Checkpoint option"

record 'o genv =
  ToJSON :: "'o gstate \<Rightarrow> string result"
  FromJSON :: "string \<Rightarrow> 'o gstate \<Rightarrow> 'o gstate \<times> goerr option"
  CloneO :: "'o \<Rightarrow> 'o"
  indent_size :: "Checkpoint \<Rightarrow> nat"
  has_checkpointer :: bool

record 'o gworld =
  gheap :: "nat \<Rightarrow> 'o gstate"
  gfresh :: nat
  ctxs :: "goerr option list"
  orders :: "nat list list"
  gclock :: "nat \<Rightarrow> int"
  gtick :: nat
  gdisk :: "ckfile disk"

definition ctx_next :: "'o gworld \<Rightarrow> goerr option \<times> 'o gworld" where
  "ctx_next w = (case ctxs w of [] \<Rightarrow> (None, w) | e # es \<Rightarrow> (e, w\<lparr>ctxs := es\<rparr>))"

definition galloc :: "'o gstate \<Rightarrow> 'o gworld \<Rightarrow> nat \<times> 'o gworld" where
  "galloc s w = (gfresh w, w\<lparr>gheap := (gheap w)(gfresh w := s), gfresh := Suc (gfresh w)\<rparr>)"

definition gstore :: "nat \<Rightarrow> 'o gstate \<Rightarrow> 'o gworld \<Rightarrow> 'o gworld" where
  "gstore r s w = w\<lparr>gheap := (gheap w)(r := s)\<rparr>"

text \<open>The next completion order for \<open>n\<close> goroutines: a permutation of their indices.\<close>

definition order_next :: "nat \<Rightarrow> 'o gworld \<Rightarrow> nat list \<times> 'o gworld" where
  "order_next n w =
     (let (h, w1) = (case orders w of [] \<Rightarrow> ([], w) | h # hs \<Rightarrow> (h, w\<lparr>orders := hs\<rparr>));
          h1 = filter (\<lambda>i. i < n) (remdups h)
      in (h1 @ filter (\<lambda>i. i \<notin> set h1) [0..<n], w1))"

definition Clone :: "'o genv \<Rightarrow> 'o gstate \<Rightarrow> 'o gstate" where
  "Clone E s = (case s of SBase m \<Rightarrow> SBase m | SCustom x \<Rightarrow> SCustom (CloneO E x))"

definition g_AddNode :: "string \<Rightarrow> 'o FlowNode \<Rightarrow> 'o GFlow \<Rightarrow> 'o GFlow" where
  "g_AddNode i n f = f\<lparr>g_Nodes := (g_Nodes f)(i \<mapsto> n)\<rparr>"

definition g_NewFlow :: "string \<Rightarrow> string \<Rightarrow> nat \<Rightarrow> 'o GFlow" where
  "g_NewFlow i initial st = \<lparr>g_ID = i, g_Nodes = Map.empty, g_Initial = initial, g_State = st\<rparr>"

section \<open>Checkpoints\<close>

definition MaxCheckpointBytes :: nat where
  "MaxCheckpointBytes = 10 * 2 ^ 20"

definition cleanCheckpointID :: "string \<Rightarrow> string result" where
  "cleanCheckpointID i = clean_id ''flows: invalid checkpoint ID '' i"

definition checkpoint_name :: "string \<Rightarrow> string \<Rightarrow> string" where
  "checkpoint_name flowID nodeID = flowID @ ''_'' @ nodeID @ ''.json''"

definition ck_Save ::
  "'o genv \<Rightarrow> string \<Rightarrow> string \<Rightarrow> 'o gstate \<Rightarrow> int \<Rightarrow> ckfile disk \<Rightarrow> ckfile disk \<times> goerr option" where
  "ck_Save E flowID nodeID st now d =
     (case cleanCheckpointID flowID of
        Inl e \<Rightarrow> (d, Some e)
      | Inr fid \<Rightarrow>
          (case cleanCheckpointID nodeID of
             Inl e \<Rightarrow> (d, Some e)
           | Inr nid \<Rightarrow>
               (case ToJSON E st of
                  Inl e \<Rightarrow> (d, Some e)
                | Inr data \<Rightarrow>
                    if length data > MaxCheckpointBytes
                    then (d, Some (EMsg (''flows: checkpoint state exceeds '' @ show_nat MaxCheckpointBytes @ '' bytes'')))
                    else (let cp = \<lparr>cp_FlowID = fid, cp_NodeID = nid, cp_Timestamp = now, cp_Data = data\<rparr>
                          in atomicWriteFile (checkpoint_name fid nid)
                               \<lparr>ck_size = indent_size E cp, ck_doc = Some cp\<rparr> d))))"

text \<open>
  \<^verbatim>\<open>Load\<close> globs the directory in name order and keeps the checkpoint with the latest time stamp;
  a file that cannot be read, is too large, or does not decode is skipped.
\<close>

definition ck_matches :: "string \<Rightarrow> ckfile disk \<Rightarrow> string list" where
  "ck_matches flowID d =
     (case glob_parse (flowID @ ''_*.json'') of
        None \<Rightarrow> []
      | Some ts \<Rightarrow> filter (glob_match ts) (sort (map fst (files d))))"

definition ck_newer :: "Checkpoint \<Rightarrow> Checkpoint option \<Rightarrow> bool" where
  "ck_newer cp latest \<longleftrightarrow> (case latest of None \<Rightarrow> True | Some l \<Rightarrow> cp_Timestamp cp > cp_Timestamp l)"

fun ck_scan :: "string list \<Rightarrow> Checkpoint option \<Rightarrow> ckfile disk \<Rightarrow> Checkpoint option \<times> ckfile disk" where
  "ck_scan [] latest d = (latest, d)"
| "ck_scan (n # ns) latest d =
     (case os_next d of
        (Some e, d1) \<Rightarrow> ck_scan ns latest d1
      | (None, d1) \<Rightarrow>
          (case map_of (files d1) n of
             None \<Rightarrow> ck_scan ns latest d1
           | Some f \<Rightarrow>
               if ck_size f > MaxCheckpointBytes then ck_scan ns latest d1
               else (case ck_doc f of
                       None \<Rightarrow> ck_scan ns latest d1
                     | Some cp \<Rightarrow> ck_scan ns (if ck_newer cp latest then Some cp else latest) d1)))"

definition ck_Load :: "string \<Rightarrow> ckfile disk \<Rightarrow> Checkpoint result \<times> ckfile disk" where
  "ck_Load flowID d =
     (case cleanCheckpointID flowID of
        Inl e \<Rightarrow> (Inl e, d)
      | Inr fid \<Rightarrow>
          (let ms = ck_matches fid d in
           if ms = [] then (Inl (EMsg (''no checkpoints found for flow '' @ fid)), d)
           else (case ck_scan ms None d of
                   (None, d1) \<Rightarrow> (Inl (EMsg (''failed to load checkpoint for flow '' @ fid)), d1)
                 | (Some cp, d1) \<Rightarrow> (Inr cp, d1))))"

section \<open>The engine\<close>

definition MaxFlowDepth :: nat where
  "MaxFlowDepth = 256"

type_synonym 'o grunner = "string \<Rightarrow> nat \<Rightarrow> 'o gworld \<Rightarrow> nat result \<times> 'o gworld"

definition g_action :: "'o FlowNode \<Rightarrow> nat \<Rightarrow> 'o gworld \<Rightarrow> nat result \<times> 'o gworld" where
  "g_action n r w =
     (let (s, res) = n_Action n (gheap w r); w1 = gstore r s w in
      case res of
        Inl e \<Rightarrow> (Inl e, w1)
      | Inr None \<Rightarrow> (Inr r, w1)
      | Inr (Some s') \<Rightarrow> (let (q, w2) = galloc s' w1 in (Inr q, w2)))"

definition first_next :: "'o FlowNode \<Rightarrow> string" where
  "first_next n = (if length (n_Next n) > 0 then n_Next n ! 0 else [])"

text \<open>Run the branches in completion order, each on a clone; results and errors as appended.\<close>

primrec par_branches ::
  "'o genv \<Rightarrow> 'o grunner \<Rightarrow> nat \<Rightarrow> string list \<Rightarrow> 'o gworld \<Rightarrow> nat list \<times> goerr list \<times> 'o gworld" where
  "par_branches E run r [] w = ([], [], w)"
| "par_branches E run r (b # bs) w =
     (let (q, w1) = galloc (Clone E (gheap w r)) w in
      case run b q w1 of
        (Inl e, w2) \<Rightarrow>
          (let (oks, errs, w3) = par_branches E run r bs w2
           in (oks, EWrap (''branch '' @ b @ '': '') e [] # errs, w3))
      | (Inr s, w2) \<Rightarrow>
          (let (oks, errs, w3) = par_branches E run r bs w2 in (s # oks, errs, w3)))"

definition parallel_step ::
  "'o genv \<Rightarrow> 'o GFlow \<Rightarrow> 'o grunner \<Rightarrow> 'o FlowNode \<Rightarrow> string \<Rightarrow> nat \<Rightarrow> 'o gworld \<Rightarrow> (string \<times> nat) result \<times> 'o gworld" where
  "parallel_step E f run n nodeID r w =
     (let bs = n_ParallelBranches n; (ord, w0) = order_next (length bs) w;
          (oks, errs, w1) = par_branches E run r (map ((!) bs) ord) w0 in
      if oks = [] \<and> length bs > 0 then
        (Inl (case errs of e # _ \<Rightarrow> e
              | [] \<Rightarrow> EMsg (''node '' @ nodeID @ '': all parallel branches failed'')), w1)
      else if n_Next n = [] then (Inr ([], r), w1)
      else
        (case g_Nodes f (hd (n_Next n)) of
           Some m \<Rightarrow>
             (case (n_Type m, n_Merge m) of
                (NodeReduce, Some merge) \<Rightarrow>
                  (let (q, w2) = galloc (merge (map (gheap w1) oks)) w1 in (Inr (hd (n_Next n), q), w2))
              | _ \<Rightarrow> (Inr (hd (n_Next n), if oks = [] then r else hd oks), w1))
         | None \<Rightarrow> (Inr (hd (n_Next n), if oks = [] then r else hd oks), w1)))"

text \<open>
  One item of a map node: the action on a clone holding the item. The outcome is the \<^verbatim>\<open>result\<close>
  entry of the state it returns (nil if that is not a \<^verbatim>\<open>BaseState\<close> or has none).
\<close>

definition map_item :: "'o FlowNode \<Rightarrow> gmap \<Rightarrow> gvalue \<Rightarrow> gvalue result" where
  "map_item n m v =
     (case n_Action n (SBase (m(''item'' \<mapsto> v))) of
        (s, Inl e) \<Rightarrow> Inl e
      | (s, Inr None) \<Rightarrow> Inr (case s of SBase d \<Rightarrow> (case d ''result'' of Some x \<Rightarrow> x | None \<Rightarrow> VNil) | SCustom _ \<Rightarrow> VNil)
      | (s, Inr (Some t)) \<Rightarrow> Inr (case t of SBase d \<Rightarrow> (case d ''result'' of Some x \<Rightarrow> x | None \<Rightarrow> VNil) | SCustom _ \<Rightarrow> VNil))"

definition map_errors :: "nat list \<Rightarrow> gvalue result list \<Rightarrow> goerr list" where
  "map_errors ord rs =
     concat (map (\<lambda>i. case rs ! i of Inl e \<Rightarrow> [EWrap (''map item '' @ show_nat i @ '': '') e []] | Inr _ \<Rightarrow> []) ord)"

definition map_step ::
  "'o FlowNode \<Rightarrow> string \<Rightarrow> nat \<Rightarrow> 'o gworld \<Rightarrow> (string \<times> nat) result \<times> 'o gworld" where
  "map_step n nodeID r w =
     (case gheap w r of
        SCustom _ \<Rightarrow> (Inr (first_next n, r), w)
      | SBase m \<Rightarrow>
          (case m (n_MapSourceKey n) of
             Some (VList source) \<Rightarrow>
               (let (ord, w1) = order_next (length source) w;
                    rs = map (map_item n m) source;
                    errs = map_errors ord rs in
                if length errs = length source \<and> length source > 0 then
                  (Inl (EWrap (''node '' @ nodeID @ '': all map items failed: '') (hd errs) []), w1)
                else
                  (Inr (first_next n, r),
                   gstore r (SBase (m(n_MapResultKey n \<mapsto> VList (map (\<lambda>x. case x of Inl _ \<Rightarrow> VNil | Inr v \<Rightarrow> v) rs)))) w1))
           | _ \<Rightarrow> (Inr (first_next n, r), w)))"

definition node_step ::
  "'o genv \<Rightarrow> 'o GFlow \<Rightarrow> 'o grunner \<Rightarrow> 'o FlowNode \<Rightarrow> string \<Rightarrow> nat \<Rightarrow> 'o gworld \<Rightarrow> (string \<times> nat) result \<times> 'o gworld" where
  "node_step E f run n nodeID r w =
     (case n_Type n of
        NodeStep \<Rightarrow>
          (case g_action n r w of
             (Inl e, w1) \<Rightarrow> (Inl (EWrap (''node '' @ nodeID @ '' failed: '') e []), w1)
           | (Inr q, w1) \<Rightarrow> (Inr (first_next n, q), w1))
      | NodeRouter \<Rightarrow>
          (case ctx_next w of
             (Some e, w1) \<Rightarrow> (Inl e, w1)
           | (None, w1) \<Rightarrow> (Inr (n_Router n (gheap w1 r), r), w1))
      | NodeParallel \<Rightarrow> parallel_step E f run n nodeID r w
      | NodeMap \<Rightarrow> map_step n nodeID r w
      | NodeReduce \<Rightarrow> (Inr (first_next n, r), w)
      | NodeOther _ \<Rightarrow> (Inr ([], r), w))"

text \<open>A failed checkpoint is only logged.\<close>

definition checkpoint :: "'o genv \<Rightarrow> 'o GFlow \<Rightarrow> string \<Rightarrow> nat \<Rightarrow> 'o gworld \<Rightarrow> 'o gworld" where
  "checkpoint E f nodeID r w =
     (if has_checkpointer E
      then w\<lparr>gtick := Suc (gtick w), gdisk := fst (ck_Save E (g_ID f) nodeID (gheap w r) (gclock w (gtick w)) (gdisk w))\<rparr>
      else w)"

definition depth_error :: "'o GFlow \<Rightarrow> string \<Rightarrow> goerr" where
  "depth_error f nodeID =
     EMsg (''flow '' @ g_ID f @ '': max depth '' @ show_nat MaxFlowDepth @ '' exceeded at node '' @ nodeID @ '' (cycle guard)'')"

text \<open>\<open>exec_node\<close> counts down the levels left; \<open>executeNode\<close> is the source's view, counting up.\<close>

primrec exec_node :: "'o genv \<Rightarrow> 'o GFlow \<Rightarrow> nat \<Rightarrow> 'o grunner" where
  "exec_node E f 0 = (\<lambda>nodeID r w.
     case ctx_next w of
       (Some e, w1) \<Rightarrow> (Inl e, w1)
     | (None, w1) \<Rightarrow> (Inl (depth_error f nodeID), w1))"
| "exec_node E f (Suc k) = (\<lambda>nodeID r w.
     case ctx_next w of
       (Some e, w1) \<Rightarrow> (Inl e, w1)
     | (None, w1) \<Rightarrow>
         if nodeID = [] then (Inr r, w1)
         else
           (case g_Nodes f nodeID of
              None \<Rightarrow> (Inl (EMsg (''node '' @ nodeID @ '' not found in flow '' @ g_ID f)), w1)
            | Some n \<Rightarrow>
                (case node_step E f (exec_node E f k) n nodeID r w1 of
                   (Inl e, w2) \<Rightarrow> (Inl e, w2)
                 | (Inr (next, q), w2) \<Rightarrow> exec_node E f k next q (checkpoint E f nodeID q w2))))"

definition executeNode :: "'o genv \<Rightarrow> 'o GFlow \<Rightarrow> nat \<Rightarrow> 'o grunner" where
  "executeNode E f depth = exec_node E f (MaxFlowDepth + 1 - depth)"

definition g_Run :: "'o genv \<Rightarrow> 'o GFlow \<Rightarrow> 'o gworld \<Rightarrow> goerr option \<times> 'o GFlow \<times> 'o gworld" where
  "g_Run E f w =
     (case executeNode E f 0 (g_Initial f) (g_State f) w of
        (Inl e, w1) \<Rightarrow> (Some e, f, w1)
      | (Inr q, w1) \<Rightarrow> (None, f\<lparr>g_State := q\<rparr>, w1))"

definition g_Resume :: "'o genv \<Rightarrow> 'o GFlow \<Rightarrow> 'o gworld \<Rightarrow> goerr option \<times> 'o GFlow \<times> 'o gworld" where
  "g_Resume E f w =
     (if \<not> has_checkpointer E then (Some (EMsg (''no checkpointer configured for flow '' @ g_ID f)), f, w)
      else
        (case ck_Load (g_ID f) (gdisk w) of
           (Inl e, d1) \<Rightarrow> (Some e, f, w\<lparr>gdisk := d1\<rparr>)
         | (Inr cp, d1) \<Rightarrow>
             (let r = g_State f; (s, err) = FromJSON E (cp_Data cp) (gheap w r);
                  w1 = gstore r s (w\<lparr>gdisk := d1\<rparr>) in
              case err of
                Some e \<Rightarrow> (Some (EWrap ''failed to restore state from checkpoint: '' e []), f, w1)
              | None \<Rightarrow>
                  (case g_Nodes f (cp_NodeID cp) of
                     None \<Rightarrow> (Some (EMsg (''checkpoint node '' @ cp_NodeID cp @ '' not found in flow'')), f, w1)
                   | Some n \<Rightarrow>
                       if length (n_Next n) = 0 then (None, f, w1)
                       else (case executeNode E f 0 (n_Next n ! 0) r w1 of
                               (Inl e, w2) \<Rightarrow> (Some e, f, w2)
                             | (Inr q, w2) \<Rightarrow> (None, f\<lparr>g_State := q\<rparr>, w2))))))"

section \<open>Lemmas\<close>

lemma ctx_next_none [simp]: "ctxs w = [] \<Longrightarrow> ctx_next w = (None, w)"
  by (simp add: ctx_next_def)

lemma checkpoint_simps [simp]:
  "ctxs (checkpoint E f i r w) = ctxs w" "gheap (checkpoint E f i r w) = gheap w"
  "gfresh (checkpoint E f i r w) = gfresh w" "orders (checkpoint E f i r w) = orders w"
  by (simp_all add: checkpoint_def)

lemma gstore_simps [simp]:
  "ctxs (gstore r s w) = ctxs w" "gheap (gstore r s w) = (gheap w)(r := s)" "gfresh (gstore r s w) = gfresh w"
  "gdisk (gstore r s w) = gdisk w"
  by (simp_all add: gstore_def)

lemma galloc_simps [simp]:
  "fst (galloc s w) = gfresh w" "ctxs (snd (galloc s w)) = ctxs w"
  "gheap (snd (galloc s w)) = (gheap w)(gfresh w := s)" "gfresh (snd (galloc s w)) = Suc (gfresh w)"
  by (simp_all add: galloc_def)

lemma galloc_pair: "galloc s w = (gfresh w, snd (galloc s w))"
  by (simp add: galloc_def)

lemma g_action_keeps: "g_action n r w = (x, w') \<Longrightarrow> ctxs w' = ctxs w"
  by (auto simp: g_action_def galloc_def Let_def split: prod.splits sum.splits option.splits)

lemma exec_node_Suc_ok:
  assumes "ctxs w = []" "i \<noteq> []" "g_Nodes f i = Some n"
    "node_step E f (exec_node E f k) n i r w = (Inr (j, q), w1)"
  shows "exec_node E f (Suc k) i r w = exec_node E f k j q (checkpoint E f i q w1)"
  using assms by simp

text \<open>A value-level reading of one action.\<close>

definition act :: "'o FlowNode \<Rightarrow> 'o gstate \<Rightarrow> 'o gstate result" where
  "act n s = (case n_Action n s of (s', Inl e) \<Rightarrow> Inl e | (s', Inr None) \<Rightarrow> Inr s' | (s', Inr (Some t)) \<Rightarrow> Inr t)"

lemma g_action_act:
  assumes "r < gfresh w"
  shows "\<exists>w'. ctxs w' = ctxs w \<and> gfresh w \<le> gfresh w' \<and>
    (\<forall>a. a < gfresh w \<and> a \<noteq> r \<longrightarrow> gheap w' a = gheap w a) \<and>
    (case act n (gheap w r) of
       Inl e \<Rightarrow> g_action n r w = (Inl e, w')
     | Inr t \<Rightarrow> (\<exists>q. g_action n r w = (Inr q, w') \<and> gheap w' q = t \<and> q < gfresh w' \<and> (q = r \<or> gfresh w \<le> q)))"
  using assms
  by (auto simp: g_action_def act_def galloc_def Let_def split: prod.split sum.split option.split)

text \<open>Sequential steps as a function on states.\<close>

fun step_chain :: "'o GFlow \<Rightarrow> string list \<Rightarrow> bool" where
  "step_chain f [] = True"
| "step_chain f (i # js) =
     (i \<noteq> [] \<and>
      (case g_Nodes f i of
         None \<Rightarrow> False
       | Some n \<Rightarrow> n_Type n = NodeStep \<and> first_next n = (case js of [] \<Rightarrow> [] | j # _ \<Rightarrow> j)) \<and>
      step_chain f js)"

fun chain_spec :: "'o GFlow \<Rightarrow> string list \<Rightarrow> 'o gstate \<Rightarrow> 'o gstate result" where
  "chain_spec f [] s = Inr s"
| "chain_spec f (i # js) s =
     (case act (the (g_Nodes f i)) s of
        Inl e \<Rightarrow> Inl (EWrap (''node '' @ i @ '' failed: '') e [])
      | Inr t \<Rightarrow> chain_spec f js t)"

definition chain_head :: "string list \<Rightarrow> string" where
  "chain_head js = (case js of [] \<Rightarrow> [] | j # _ \<Rightarrow> j)"

lemma exec_chain:
  assumes "step_chain f js" "ctxs w = []" "r < gfresh w"
  shows "\<exists>w'. (length js < k \<longrightarrow>
      (case chain_spec f js (gheap w r) of
         Inl e \<Rightarrow> exec_node E f k (chain_head js) r w = (Inl e, w')
       | Inr t \<Rightarrow> (\<exists>q. exec_node E f k (chain_head js) r w = (Inr q, w') \<and> gheap w' q = t))) \<and>
    (k \<le> length js \<and> \<not> isl (chain_spec f js (gheap w r)) \<longrightarrow>
      (\<exists>j. exec_node E f k (chain_head js) r w = (Inl (depth_error f j), w')))"
  using assms
proof (induction js arbitrary: k r w)
  case Nil
  then show ?case by (cases k) (auto simp: chain_head_def)
next
  case (Cons i js)
  then obtain n where n: "g_Nodes f i = Some n" "n_Type n = NodeStep" "i \<noteq> []" "first_next n = chain_head js"
    and ch: "step_chain f js"
    by (auto simp: chain_head_def split: option.splits)
  show ?case
  proof (cases k)
    case 0
    then show ?thesis using Cons.prems by auto
  next
    case (Suc k')
    obtain w1 where w1: "ctxs w1 = ctxs w" "gfresh w \<le> gfresh w1"
      and c: "case act n (gheap w r) of
       Inl e \<Rightarrow> g_action n r w = (Inl e, w1)
     | Inr t \<Rightarrow> (\<exists>q. g_action n r w = (Inr q, w1) \<and> gheap w1 q = t \<and> q < gfresh w1 \<and> (q = r \<or> gfresh w \<le> q))"
      using g_action_act [OF Cons.prems(3), of n] by (elim exE conjE) (rule that)
    show ?thesis
    proof (cases "act n (gheap w r)")
      case (Inl e)
      then show ?thesis using Suc n c Cons.prems by (auto simp: chain_head_def node_step_def)
    next
      case (Inr t)
      then obtain q where q: "g_action n r w = (Inr q, w1)" "gheap w1 q = t" "q < gfresh w1"
        using c by auto
      have e: "exec_node E f k (chain_head (i # js)) r w = exec_node E f k' (chain_head js) q (checkpoint E f i q w1)"
        using exec_node_Suc_ok [OF Cons.prems(2) n(3,1)] Suc n q(1) by (simp add: chain_head_def node_step_def)
      show ?thesis
        unfolding e using Cons.IH [OF ch, of "checkpoint E f i q w1" q k'] w1 q Inr n Suc Cons.prems(2) by simp
    qed
  qed
qed

text \<open>Nodes that always hand over to another node of a set.\<close>

definition hands_on :: "'o GFlow \<Rightarrow> string set \<Rightarrow> bool" where
  "hands_on f S \<longleftrightarrow> (\<forall>i \<in> S. i \<noteq> [] \<and>
     (\<exists>n. g_Nodes f i = Some n \<and>
        (n_Type n = NodeStep \<and> (\<forall>s. \<not> isl (act n s)) \<and> first_next n \<in> S \<or>
         n_Type n = NodeReduce \<and> first_next n \<in> S \<or>
         n_Type n = NodeRouter \<and> (\<forall>s. n_Router n s \<in> S))))"

lemma hands_on_step:
  assumes "hands_on f S" "i \<in> S" "g_Nodes f i = Some n" "ctxs w = []" "r < gfresh w"
  shows "\<exists>j q w1. node_step E f run n i r w = (Inr (j, q), w1) \<and> j \<in> S \<and> ctxs w1 = [] \<and> q < gfresh w1"
proof -
  consider (step) "n_Type n = NodeStep" "\<not> isl (act n (gheap w r))" "first_next n \<in> S"
    | (red) "n_Type n = NodeReduce" "first_next n \<in> S"
    | (rou) "n_Type n = NodeRouter" "\<forall>s. n_Router n s \<in> S"
    using assms(1-3) unfolding hands_on_def by force
  then show ?thesis
  proof cases
    case step
    then obtain t where "act n (gheap w r) = Inr t" by (auto simp: isl_def) (metis sum.exhaust)
    then show ?thesis using g_action_act [OF assms(5), of n] step assms(4) by (auto simp: node_step_def)
  qed (use assms in \<open>auto simp: node_step_def\<close>)
qed

lemma exec_cycle:
  assumes "hands_on f S" "i \<in> S" "ctxs w = []" "r < gfresh w"
  shows "\<exists>j w'. j \<in> S \<and> exec_node E f k i r w = (Inl (depth_error f j), w')"
  using assms(2-)
proof (induction k arbitrary: i r w)
  case 0
  then show ?case by auto
next
  case (Suc k)
  obtain n where n: "g_Nodes f i = Some n" "i \<noteq> []"
    using assms(1) Suc.prems(1) unfolding hands_on_def by blast
  obtain j q w1 where st: "node_step E f (exec_node E f k) n i r w = (Inr (j, q), w1)" "j \<in> S" "ctxs w1 = []" "q < gfresh w1"
    using hands_on_step [OF assms(1) Suc.prems(1) n(1) Suc.prems(2,3)] by blast
  show ?case
    using exec_node_Suc_ok [OF Suc.prems(2) n(2,1) st(1)] Suc.IH [OF st(2), of "checkpoint E f i q w1" q] st by simp
qed

text \<open>Scanning a healthy directory finds the strictly latest readable checkpoint.\<close>

definition ck_readable :: "ckfile disk \<Rightarrow> string \<Rightarrow> Checkpoint option" where
  "ck_readable d n =
     (case map_of (files d) n of
        None \<Rightarrow> None
      | Some f \<Rightarrow> if ck_size f > MaxCheckpointBytes then None else ck_doc f)"

lemma ck_scan_healthy:
  assumes "os_errs d = []"
  shows "ck_scan ns latest d =
    (foldl (\<lambda>l cp. if ck_newer cp l then Some cp else l) latest (List.map_filter (ck_readable d) ns), d)"
  using assms
  by (induction ns arbitrary: latest)
    (auto simp: ck_readable_def List.map_filter_simps split: option.splits)

lemma foldl_newest:
  assumes "cp \<in> set cps" "\<forall>c \<in> set cps. c = cp \<or> cp_Timestamp c < cp_Timestamp cp"
    "latest = None \<or> latest = Some cp \<or> (\<exists>l. latest = Some l \<and> cp_Timestamp l < cp_Timestamp cp)"
  shows "foldl (\<lambda>l c. if ck_newer c l then Some c else l) latest cps = Some cp"
proof -
  have keep: "foldl (\<lambda>l c. if ck_newer c l then Some c else l) (Some cp) cs = Some cp"
    if "\<forall>c \<in> set cs. c = cp \<or> cp_Timestamp c < cp_Timestamp cp" for cs
    using that by (induction cs) (auto simp: ck_newer_def)
  show ?thesis
    using assms
  proof (induction cps arbitrary: latest)
    case (Cons c cs)
    show ?case
    proof (cases "c = cp")
      case True
      then show ?thesis using Cons.prems keep [of cs] by (auto simp: ck_newer_def)
    next
      case False
      then have "cp \<in> set cs" "cp_Timestamp c < cp_Timestamp cp" using Cons.prems by auto
      then show ?thesis
        using Cons.prems(2,3) by (subst foldl_Cons, intro Cons.IH) (auto simp: ck_newer_def)
    qed
  qed simp
qed

lemma parse_pattern:
  assumes "plain_chars fid"
  shows "glob_parse (fid @ ''_*.json'') = Some (map GLit (fid @ ''_'') @ GStar # map GLit ''.json'')"
  using glob_parse_plain [OF assms, of "''_*.json''"] by simp

lemma ck_matches_iff:
  assumes "plain_chars fid" "CHR ''/'' \<notin> set n"
  shows "n \<in> set (ck_matches fid d) \<longleftrightarrow> n \<in> fst ` set (files d) \<and> (\<exists>x. n = fid @ ''_'' @ x @ ''.json'')"
proof -
  have lits: "glob_match (map GLit p) t \<longleftrightarrow> t = p" for p t
    using glob_match_lits [of p "[]" t] by simp
  have "glob_match (map GLit (fid @ ''_'') @ GStar # map GLit ''.json'') n \<longleftrightarrow> (\<exists>x. n = fid @ ''_'' @ x @ ''.json'')"
    unfolding glob_match_lits
    using assms(2) by (auto simp: glob_match_star lits suffix_def simp del: list.map)
  then show ?thesis unfolding ck_matches_def parse_pattern [OF assms(1)] by auto
qed

lemma cleanCheckpointID_ok:
  "cleanCheckpointID i = Inr j \<Longrightarrow> j = i \<and> i \<noteq> [] \<and> CHR ''/'' \<notin> set i"
  unfolding cleanCheckpointID_def using clean_id_ok by blast

lemma ck_Save_healthy:
  assumes "cleanCheckpointID fid = Inr fid" "cleanCheckpointID nid = Inr nid" "ToJSON E st = Inr data"
    "length data \<le> MaxCheckpointBytes" "os_errs d = []"
  shows "ck_Save E fid nid st now d =
    (d\<lparr>files := AList.update (checkpoint_name fid nid)
       \<lparr>ck_size = indent_size E \<lparr>cp_FlowID = fid, cp_NodeID = nid, cp_Timestamp = now, cp_Data = data\<rparr>,
        ck_doc = Some \<lparr>cp_FlowID = fid, cp_NodeID = nid, cp_Timestamp = now, cp_Data = data\<rparr>\<rparr> (files d)\<rparr>, None)"
  using assms by (simp add: ck_Save_def atomicWriteFile_healthy Let_def)

text \<open>Loading when exactly the strictly latest matching checkpoint is \<open>cp\<close>.\<close>

lemma ck_Load_latest:
  assumes "cleanCheckpointID fid = Inr fid" "os_errs d = []"
    "n \<in> set (ck_matches fid d)" "ck_readable d n = Some cp"
    "\<forall>m \<in> set (ck_matches fid d). \<forall>c. ck_readable d m = Some c \<longrightarrow> c = cp \<or> cp_Timestamp c < cp_Timestamp cp"
  shows "ck_Load fid d = (Inr cp, d)"
proof -
  have "foldl (\<lambda>l c. if ck_newer c l then Some c else l) None (List.map_filter (ck_readable d) (ck_matches fid d)) = Some cp"
    using assms(3-5) by (intro foldl_newest) (force simp: List.map_filter_def)+
  moreover have "ck_matches fid d \<noteq> []" using assms(3) by auto
  ultimately show ?thesis
    using assms(1,2) by (simp add: ck_Load_def ck_scan_healthy Let_def)
qed

lemma checkpoint_name_slash:
  assumes "cleanCheckpointID fid = Inr fid" "cleanCheckpointID nid = Inr nid"
  shows "CHR ''/'' \<notin> set (checkpoint_name fid nid)"
  using cleanCheckpointID_ok [OF assms(1)] cleanCheckpointID_ok [OF assms(2)] by (simp add: checkpoint_name_def)

lemma fst_set_update: "k \<in> fst ` set (AList.update k v xs)"
  by (induction xs) auto

text \<open>Fan-out: branches that are single steps without successor.\<close>

definition leaf_step :: "'o GFlow \<Rightarrow> string \<Rightarrow> bool" where
  "leaf_step f b \<longleftrightarrow> b \<noteq> [] \<and> (case g_Nodes f b of None \<Rightarrow> False | Some n \<Rightarrow> n_Type n = NodeStep \<and> n_Next n = [])"

definition branch_value :: "'o genv \<Rightarrow> 'o GFlow \<Rightarrow> 'o gstate \<Rightarrow> string \<Rightarrow> 'o gstate result" where
  "branch_value E f s b = act (the (g_Nodes f b)) (Clone E s)"

definition ok_values :: "'o genv \<Rightarrow> 'o GFlow \<Rightarrow> 'o gstate \<Rightarrow> string list \<Rightarrow> 'o gstate list" where
  "ok_values E f s bs = map projr (filter (\<lambda>x. \<not> isl x) (map (branch_value E f s) bs))"

lemma ok_values_simps [simp]:
  "ok_values E f s [] = []"
  "ok_values E f s (b # bs) = (case branch_value E f s b of Inl _ \<Rightarrow> ok_values E f s bs | Inr t \<Rightarrow> t # ok_values E f s bs)"
  by (auto simp: ok_values_def split: sum.split)

lemma leaf_run:
  assumes "leaf_step f b" "ctxs w = []" "q < gfresh w"
  shows "\<exists>w'. ctxs w' = [] \<and> gfresh w \<le> gfresh w' \<and> (\<forall>a. a < gfresh w \<and> a \<noteq> q \<longrightarrow> gheap w' a = gheap w a) \<and>
    (case act (the (g_Nodes f b)) (gheap w q) of
       Inl e \<Rightarrow> (\<exists>e'. exec_node E f (Suc (Suc k)) b q w = (Inl e', w'))
     | Inr t \<Rightarrow> (\<exists>p. exec_node E f (Suc (Suc k)) b q w = (Inr p, w') \<and> gheap w' p = t \<and> p < gfresh w' \<and> (p = q \<or> gfresh w \<le> p)))"
proof -
  obtain n where n: "g_Nodes f b = Some n" "b \<noteq> []" "n_Type n = NodeStep" "first_next n = []"
    using assms(1) by (auto simp: leaf_step_def first_next_def split: option.splits)
  obtain w1 where w1: "ctxs w1 = ctxs w" "gfresh w \<le> gfresh w1" "\<forall>a. a < gfresh w \<and> a \<noteq> q \<longrightarrow> gheap w1 a = gheap w a"
    and c: "case act n (gheap w q) of
       Inl e \<Rightarrow> g_action n q w = (Inl e, w1)
     | Inr t \<Rightarrow> (\<exists>p. g_action n q w = (Inr p, w1) \<and> gheap w1 p = t \<and> p < gfresh w1 \<and> (p = q \<or> gfresh w \<le> p))"
    using g_action_act [OF assms(3), of n] by (elim exE conjE) (rule that)
  show ?thesis
  proof (cases "act n (gheap w q)")
    case (Inl e)
    then show ?thesis using c w1 n assms(2) by (intro exI [of _ w1]) (auto simp: node_step_def)
  next
    case (Inr t)
    then obtain p where p: "g_action n q w = (Inr p, w1)" "gheap w1 p = t" "p < gfresh w1" "p = q \<or> gfresh w \<le> p"
      using c by auto
    then show ?thesis using Inr w1 n assms(2) by (intro exI [of _ "checkpoint E f b p w1"]) (auto simp: node_step_def)
  qed
qed

lemma par_branches_leaves:
  assumes "list_all (leaf_step f) bs" "ctxs w = []" "r < gfresh w"
  shows "\<exists>oks errs w'. par_branches E (exec_node E f (Suc (Suc k))) r bs w = (oks, errs, w') \<and>
    ctxs w' = [] \<and> gfresh w \<le> gfresh w' \<and> (\<forall>a < gfresh w. gheap w' a = gheap w a) \<and>
    map (gheap w') oks = ok_values E f (gheap w r) bs \<and> (\<forall>p \<in> set oks. p < gfresh w')"
  using assms
proof (induction bs arbitrary: w)
  case Nil
  then show ?case by simp
next
  case (Cons b bs)
  let ?s = "Clone E (gheap w r)"
  define w1 where "w1 = snd (galloc ?s w)"
  have w1: "galloc ?s w = (gfresh w, w1)" "ctxs w1 = []" "gfresh w1 = Suc (gfresh w)" "gheap w1 = (gheap w)(gfresh w := ?s)"
    using Cons.prems by (simp_all add: w1_def galloc_pair [symmetric])
  have b: "leaf_step f b" using Cons.prems by simp
  obtain w2 where w2: "ctxs w2 = []" "Suc (gfresh w) \<le> gfresh w2" "\<forall>a < gfresh w. gheap w2 a = gheap w a"
    and c: "case branch_value E f (gheap w r) b of
       Inl e \<Rightarrow> (\<exists>e'. exec_node E f (Suc (Suc k)) b (gfresh w) w1 = (Inl e', w2))
     | Inr t \<Rightarrow> (\<exists>p. exec_node E f (Suc (Suc k)) b (gfresh w) w1 = (Inr p, w2) \<and> gheap w2 p = t \<and> p < gfresh w2)"
  proof -
    have q: "gfresh w < gfresh w1" by (simp add: w1)
    from leaf_run [OF b w1(2) q, of E k] show ?thesis
      by (elim exE conjE, intro that)
        (auto simp: w1 branch_value_def simp del: exec_node.simps split: sum.splits)
  qed
  obtain oks errs w3 where ih: "par_branches E (exec_node E f (Suc (Suc k))) r bs w2 = (oks, errs, w3)"
    "ctxs w3 = []" "gfresh w2 \<le> gfresh w3" "\<forall>a < gfresh w2. gheap w3 a = gheap w2 a"
    "map (gheap w3) oks = ok_values E f (gheap w r) bs" "\<forall>p \<in> set oks. p < gfresh w3"
    using Cons.IH [of w2] Cons.prems w2 by auto
  show ?case
    using c w1(1) ih w2 by (cases "branch_value E f (gheap w r) b") (auto simp del: exec_node.simps)
qed

section \<open>Properties\<close>

text \<open>
  \<open>executeNode\<close> satisfies the recursion of the source, with the depth counted up: cancellation is
  checked first, then the depth bound (before the empty node name), then the node; both the
  successor and every parallel branch run one level deeper.
\<close>

theorem executeNode_unfold:
  "executeNode E f depth nodeID r w =
     (case ctx_next w of
        (Some e, w1) \<Rightarrow> (Inl e, w1)
      | (None, w1) \<Rightarrow>
          if depth > MaxFlowDepth then (Inl (depth_error f nodeID), w1)
          else if nodeID = [] then (Inr r, w1)
          else
            (case g_Nodes f nodeID of
               None \<Rightarrow> (Inl (EMsg (''node '' @ nodeID @ '' not found in flow '' @ g_ID f)), w1)
             | Some n \<Rightarrow>
                 (case node_step E f (executeNode E f (depth + 1)) n nodeID r w1 of
                    (Inl e, w2) \<Rightarrow> (Inl e, w2)
                  | (Inr (next, q), w2) \<Rightarrow> executeNode E f (depth + 1) next q (checkpoint E f nodeID q w2))))"
proof (cases "depth > MaxFlowDepth")
  case True
  then show ?thesis by (auto simp: executeNode_def split: prod.split option.split)
next
  case False
  then have e: "MaxFlowDepth + 1 - depth = Suc (MaxFlowDepth - depth)" "MaxFlowDepth + 1 - (depth + 1) = MaxFlowDepth - depth"
    by simp_all
  show ?thesis unfolding executeNode_def e
    by (cases "ctx_next w"; cases "fst (ctx_next w)") (simp_all add: False)
qed

text \<open>
  A run of sequential steps computes the composition of its actions, or stops at the first
  failing one with its error. This holds up to exactly \<open>MaxFlowDepth\<close> steps: a longer chain whose
  steps all succeed is reported as a cycle, and the flow keeps its state.
\<close>

theorem Run_step_chain:
  assumes "step_chain f js" "g_Initial f = chain_head js" "ctxs w = []" "g_State f < gfresh w"
  shows "\<exists>err f' w'. g_Run E f w = (err, f', w') \<and>
    (length js \<le> MaxFlowDepth \<longrightarrow>
      (case chain_spec f js (gheap w (g_State f)) of
         Inl e \<Rightarrow> err = Some e \<and> f' = f
       | Inr t \<Rightarrow> err = None \<and> gheap w' (g_State f') = t)) \<and>
    (length js > MaxFlowDepth \<and> is_ok (chain_spec f js (gheap w (g_State f))) \<longrightarrow>
      (\<exists>j. err = Some (depth_error f j)) \<and> f' = f)"
proof (cases "length js \<le> MaxFlowDepth \<or> is_ok (chain_spec f js (gheap w (g_State f)))")
  case True
  then show ?thesis
    using exec_chain [OF assms(1,3,4), of "MaxFlowDepth + 1" E] assms(2)
    by (cases "chain_spec f js (gheap w (g_State f))"; cases "length js \<le> MaxFlowDepth")
      (auto simp: g_Run_def executeNode_def simp del: exec_node.simps)
next
  case False
  then show ?thesis using prod_cases3 [of "g_Run E f w"] by blast
qed

definition wit_step :: "(int \<Rightarrow> int) \<Rightarrow> string list \<Rightarrow> int FlowNode" where
  "wit_step g nx = \<lparr>n_Type = NodeStep, n_Action = (\<lambda>s. case s of SCustom i \<Rightarrow> (s, Inr (Some (SCustom (g i)))) | SBase _ \<Rightarrow> (s, Inr None)),
     n_Router = (\<lambda>_. []), n_ParallelBranches = [], n_MapSourceKey = [], n_MapResultKey = [], n_Merge = None, n_Next = nx\<rparr>"

definition wit_env :: "int genv" where
  "wit_env = \<lparr>ToJSON = (\<lambda>s. Inr (case s of SCustom i \<Rightarrow> show_int i | SBase _ \<Rightarrow> ''{}'')),
     FromJSON = (\<lambda>x s. (s, None)), CloneO = id, indent_size = (\<lambda>cp. 100 + length (cp_Data cp)), has_checkpointer = True\<rparr>"

definition wit_gworld :: "int gworld" where
  "wit_gworld = \<lparr>gheap = (\<lambda>_. SCustom 5), gfresh = 1, ctxs = [], orders = [], gclock = int, gtick = 1,
     gdisk = \<lparr>files = [], os_errs = []\<rparr>\<rparr>"

definition wit_gflow :: "int GFlow" where
  "wit_gflow = \<lparr>g_ID = ''f'', g_Nodes = [''a'' \<mapsto> wit_step (\<lambda>i. i + 1) [''b''], ''b'' \<mapsto> wit_step (\<lambda>i. 2 * i) []],
     g_Initial = ''a'', g_State = 0\<rparr>"

lemmas wit_graph_defs = wit_gflow_def wit_gworld_def wit_step_def wit_env_def

theorem Run_step_chain_witness:
  "\<exists>f' w'. g_Run wit_env wit_gflow wit_gworld = (None, f', w') \<and> gheap w' (g_State f') = SCustom 12"
  using Run_step_chain [of wit_gflow "[''a'', ''b'']" wit_gworld wit_env]
  by (auto simp: wit_graph_defs chain_head_def first_next_def act_def MaxFlowDepth_def)

text \<open>
  A cyclic flow always comes back. When every node of a set hands over to another node of the
  set (steps that succeed, reduce nodes, routers), a run that enters it and is not cancelled ends
  with the cycle-guard error, and the flow keeps its state.
\<close>

theorem Run_cycle_guard:
  assumes "hands_on f S" "g_Initial f \<in> S" "ctxs w = []" "g_State f < gfresh w"
  shows "\<exists>j w'. j \<in> S \<and> g_Run E f w = (Some (depth_error f j), f, w')"
  using exec_cycle [OF assms, of E "MaxFlowDepth + 1"] by (auto simp: g_Run_def executeNode_def)

definition wit_loop :: "int GFlow" where
  "wit_loop = wit_gflow\<lparr>g_Nodes := [''a'' \<mapsto> wit_step (\<lambda>i. i + 1) [''a'']]\<rparr>"

theorem Run_cycle_guard_witness:
  "\<exists>w'. g_Run wit_env wit_loop wit_gworld = (Some (depth_error wit_loop ''a''), wit_loop, w')"
  using Run_cycle_guard [of wit_loop "{''a''}" wit_gworld wit_env]
  by (auto simp: wit_loop_def wit_graph_defs hands_on_def first_next_def act_def split: gstate.splits)


lemma wit_ck_ids: "cleanCheckpointID ''f'' = Inr ''f''" "cleanCheckpointID ''a'' = Inr ''a''"
  "cleanCheckpointID ''f_x'' = Inr ''f_x''" "plain_chars ''f''"
  unfolding cleanCheckpointID_def clean_id_iff by (simp_all add: sublist_code plain_chars_def)


text \<open>
  \<^verbatim>\<open>Load\<close> finds the files of a flow by the pattern \<open><id>_*.json\<close>, which also matches the files of
  every flow whose identifier extends this one by an underscore: with only the flow
  \<open><id>_<x>\<close> checkpointed, \<^verbatim>\<open>Load(id)\<close> returns that other flow's checkpoint.
\<close>

theorem checkpoint_crosses_flows:
  assumes "cleanCheckpointID fid = Inr fid" "cleanCheckpointID (fid @ ''_'' @ x) = Inr (fid @ ''_'' @ x)"
    "cleanCheckpointID nid = Inr nid" "plain_chars fid" "ToJSON E st = Inr data" "length data \<le> MaxCheckpointBytes"
    "indent_size E \<lparr>cp_FlowID = fid @ ''_'' @ x, cp_NodeID = nid, cp_Timestamp = now, cp_Data = data\<rparr> \<le> MaxCheckpointBytes"
    "ck_Save E (fid @ ''_'' @ x) nid st now \<lparr>files = [], os_errs = []\<rparr> = (d1, e)"
  shows "\<exists>cp. ck_Load fid d1 = (Inr cp, d1) \<and> cp_FlowID cp = fid @ ''_'' @ x"
proof -
  let ?g = "fid @ ''_'' @ x"
  let ?cp = "\<lparr>cp_FlowID = ?g, cp_NodeID = nid, cp_Timestamp = now, cp_Data = data\<rparr>" and ?n = "checkpoint_name ?g nid"
  have d1: "d1 = \<lparr>files = [(?n, \<lparr>ck_size = indent_size E ?cp, ck_doc = Some ?cp\<rparr>)], os_errs = []\<rparr>"
    using assms(8) ck_Save_healthy [OF assms(2,3,5,6), of "\<lparr>files = [], os_errs = []\<rparr>" now] by simp
  have "?n = fid @ ''_'' @ (x @ ''_'' @ nid) @ ''.json''" by (simp add: checkpoint_name_def)
  then have "?n \<in> set (ck_matches fid d1)"
    unfolding ck_matches_iff [OF assms(4) checkpoint_name_slash [OF assms(2,3)]] by (auto simp: d1)
  moreover have "ck_readable d1 ?n = Some ?cp" using assms(7) by (simp add: d1 ck_readable_def)
  moreover have "c = ?cp" if "ck_readable d1 m = Some c" for m c
    using that by (auto simp: d1 ck_readable_def split: if_splits)
  ultimately have "ck_Load fid d1 = (Inr ?cp, d1)" using ck_Load_latest [of fid d1 ?n ?cp] assms(1) d1 by auto
  then show ?thesis by simp
qed

theorem checkpoint_crosses_flows_witness:
  "\<exists>d1 cp. ck_Save wit_env ''f_x'' ''a'' (SBase Map.empty) 7 \<lparr>files = [], os_errs = []\<rparr> = (d1, None) \<and>
     ck_Load ''f'' d1 = (Inr cp, d1) \<and> cp_FlowID cp = ''f_x''"
proof -
  obtain d1 e where s: "ck_Save wit_env ''f_x'' ''a'' (SBase Map.empty) 7 \<lparr>files = [], os_errs = []\<rparr> = (d1, e)"
    by fastforce
  moreover have "e = None"
    using s ck_Save_healthy [OF wit_ck_ids(3,2), of wit_env "SBase Map.empty" "''{}''" "\<lparr>files = [], os_errs = []\<rparr>" 7]
    by (simp add: wit_env_def MaxCheckpointBytes_def)
  moreover have "\<exists>cp. ck_Load ''f'' d1 = (Inr cp, d1) \<and> cp_FlowID cp = ''f'' @ ''_'' @ ''x''"
    by (rule checkpoint_crosses_flows [where nid = "''a''" and E = wit_env and st = "SBase Map.empty" and now = 7 and data = "''{}''" and e = e])
      (use wit_ck_ids s in \<open>simp_all add: wit_env_def MaxCheckpointBytes_def\<close>)
  ultimately show ?thesis by simp
qed

lemma order_next_perm:
  assumes "order_next n w = (ord, w')"
  shows "mset ord = mset [0..<n]" "ctxs w' = ctxs w" "gheap w' = gheap w" "gfresh w' = gfresh w"
proof -
  have d: "distinct ord" and e: "set ord = set [0..<n]"
    using assms by (auto simp: order_next_def Let_def split: prod.splits list.splits)
  show "mset ord = mset [0..<n]" using set_eq_iff_mset_eq_distinct [OF d distinct_upt] e by blast
qed (use assms in \<open>auto simp: order_next_def Let_def split: prod.splits list.splits\<close>)

text \<open>
  Fan-out and fan-in. A parallel node whose branches are single steps runs each on its own
  clone. The reduce node it leads to gets the results of exactly the branches that succeeded,
  in some order; the errors of the others are dropped. Only if all branches fail does the node
  fail. The state the node was given is left as it was.
\<close>

theorem parallel_fan_in:
  assumes "list_all (leaf_step f) (n_ParallelBranches n)" "n_ParallelBranches n \<noteq> []" "n_Next n = [j]"
    "g_Nodes f j = Some m" "n_Type m = NodeReduce" "n_Merge m = Some merge" "ctxs w = []" "r < gfresh w"
  shows "\<exists>bs res w'. mset bs = mset (n_ParallelBranches n) \<and>
    parallel_step E f (exec_node E f (Suc (Suc k))) n i r w = (res, w') \<and> gheap w' r = gheap w r \<and>
    (if ok_values E f (gheap w r) bs = [] then isl res
     else (\<exists>q. res = Inr (j, q) \<and> gheap w' q = merge (ok_values E f (gheap w r) bs)))"
proof -
  let ?bs = "n_ParallelBranches n"
  obtain ord w0 where o: "order_next (length ?bs) w = (ord, w0)" by fastforce
  note op = order_next_perm [OF o]
  let ?xs = "map ((!) ?bs) ord"
  have "mset ?xs = image_mset ((!) ?bs) (mset [0..<length ?bs])" using op(1) by simp
  also have "\<dots> = mset (map ((!) ?bs) [0..<length ?bs])" by (simp only: mset_map)
  finally have perm: "mset ?xs = mset ?bs" by (simp only: map_nth)
  then have "set ?xs = set ?bs" by (rule mset_eq_setD)
  then have lf: "list_all (leaf_step f) ?xs" using assms(1) by (auto simp: list_all_iff)
  obtain oks errs w1 where p: "par_branches E (exec_node E f (Suc (Suc k))) r ?xs w0 = (oks, errs, w1)"
    "gfresh w0 \<le> gfresh w1" "\<forall>a < gfresh w0. gheap w1 a = gheap w0 a"
    "map (gheap w1) oks = ok_values E f (gheap w0 r) ?xs"
    using par_branches_leaves [OF lf, of w0 r E k] op assms(7,8) by auto
  have "oks = [] \<longleftrightarrow> ok_values E f (gheap w r) ?xs = []" using p(4) op by (metis map_is_Nil_conv)
  then show ?thesis
    using perm o p op assms(2-8)
    by (intro exI [of _ ?xs])
      (auto simp: parallel_step_def galloc_def split: list.splits)
qed

definition wit_fan :: "int GFlow" where
  "wit_fan = wit_gflow\<lparr>g_Nodes := [''b'' \<mapsto> wit_step (\<lambda>i. 2 * i) [],
     ''r'' \<mapsto> (wit_step id [])\<lparr>n_Type := NodeReduce, n_Merge := Some hd\<rparr>]\<rparr>"

definition wit_par :: "int FlowNode" where
  "wit_par = (wit_step id [''r''])\<lparr>n_Type := NodeParallel, n_ParallelBranches := [''b'']\<rparr>"

theorem parallel_fan_in_witness:
  "\<exists>q w'. parallel_step wit_env wit_fan (exec_node wit_env wit_fan 2) wit_par ''p'' 0 wit_gworld = (Inr (''r'', q), w') \<and>
     gheap w' q = SCustom 10 \<and> gheap w' 0 = SCustom 5"
proof -
  have "\<exists>bs res w'. mset bs = mset (n_ParallelBranches wit_par) \<and>
    parallel_step wit_env wit_fan (exec_node wit_env wit_fan (Suc (Suc 0))) wit_par ''p'' 0 wit_gworld = (res, w') \<and>
    gheap w' 0 = gheap wit_gworld 0 \<and>
    (if ok_values wit_env wit_fan (gheap wit_gworld 0) bs = [] then isl res
     else (\<exists>q. res = Inr (''r'', q) \<and> gheap w' q = hd (ok_values wit_env wit_fan (gheap wit_gworld 0) bs)))"
    by (rule parallel_fan_in [of _ _ _ "(wit_step id [])\<lparr>n_Type := NodeReduce, n_Merge := Some hd\<rparr>"])
      (simp_all add: wit_par_def wit_fan_def leaf_step_def wit_graph_defs)
  then show ?thesis
    by (auto simp: wit_par_def wit_fan_def wit_graph_defs numeral_2_eq_2 branch_value_def act_def Clone_def)
qed

text \<open>
  \<^verbatim>\<open>Resume\<close> continues at the first entry of the checkpointed node's \<^verbatim>\<open>Next\<close>, which a router does not
  use. When the last checkpoint is a router's, \<^verbatim>\<open>Resume\<close> reports success without executing
  anything, although \<^verbatim>\<open>Run\<close> would have gone on to the node the router names.
\<close>

theorem Resume_stops_at_router:
  assumes "has_checkpointer E" "ck_Load (g_ID f) (gdisk w) = (Inr cp, d1)" "g_Nodes f (cp_NodeID cp) = Some n"
    "n_Type n = NodeRouter" "n_Next n = []" "FromJSON E (cp_Data cp) (gheap w (g_State f)) = (s, None)"
    "n_Router n s = target" "ctxs w = []"
  shows "g_Resume E f w = (None, f, gstore (g_State f) s (w\<lparr>gdisk := d1\<rparr>)) \<and>
    node_step E f run n (cp_NodeID cp) (g_State f) (gstore (g_State f) s (w\<lparr>gdisk := d1\<rparr>)) =
      (Inr (target, g_State f), gstore (g_State f) s (w\<lparr>gdisk := d1\<rparr>))"
  using assms by (simp add: g_Resume_def node_step_def)

definition wit_router_flow :: "int GFlow" where
  "wit_router_flow = wit_gflow\<lparr>g_Nodes := [''a'' \<mapsto> (wit_step id [])\<lparr>n_Type := NodeRouter, n_Router := (\<lambda>_. ''b'')\<rparr>,
     ''b'' \<mapsto> wit_step (\<lambda>i. 2 * i) []]\<rparr>"

theorem Resume_stops_at_router_witness:
  "\<exists>w d1. gdisk w = fst (ck_Save wit_env ''f'' ''a'' (SBase Map.empty) 7 \<lparr>files = [], os_errs = []\<rparr>) \<and>
     g_Resume wit_env wit_router_flow w = (None, wit_router_flow, gstore 0 (SCustom 5) (w\<lparr>gdisk := d1\<rparr>))"
proof -
  obtain d1 where d1: "ck_Save wit_env ''f'' ''a'' (SBase Map.empty) 7 \<lparr>files = [], os_errs = []\<rparr> = (d1, None)"
    using ck_Save_healthy [OF wit_ck_ids(1,2), of wit_env "SBase Map.empty" "''{}''" "\<lparr>files = [], os_errs = []\<rparr>" 7]
    by (simp add: wit_env_def MaxCheckpointBytes_def)
  let ?cp = "\<lparr>cp_FlowID = ''f'', cp_NodeID = ''a'', cp_Timestamp = 7, cp_Data = ''{}''\<rparr>"
  have dd: "d1 = \<lparr>files = [(''f_a.json'', \<lparr>ck_size = 102, ck_doc = Some ?cp\<rparr>)], os_errs = []\<rparr>"
    using d1 ck_Save_healthy [OF wit_ck_ids(1,2), of wit_env "SBase Map.empty" "''{}''" "\<lparr>files = [], os_errs = []\<rparr>" 7]
    by (simp add: wit_env_def MaxCheckpointBytes_def checkpoint_name_def)
  have ld: "ck_Load ''f'' d1 = (Inr ?cp, d1)"
  proof (rule ck_Load_latest [OF wit_ck_ids(1)])
    show "''f_a.json'' \<in> set (ck_matches ''f'' d1)"
      using ck_matches_iff [OF wit_ck_ids(4), of "''f_a.json''" d1] by (auto simp: dd intro: exI [of _ "''a''"])
  qed (auto simp: dd ck_readable_def MaxCheckpointBytes_def split: if_splits)
  have "g_Resume wit_env wit_router_flow (wit_gworld\<lparr>gdisk := d1\<rparr>) =
      (None, wit_router_flow, gstore (g_State wit_router_flow) (SCustom 5) (wit_gworld\<lparr>gdisk := d1, gdisk := d1\<rparr>))"
    by (rule Resume_stops_at_router [where cp = ?cp and target = "''b''" and
        n = "(wit_step id [])\<lparr>n_Type := NodeRouter, n_Router := (\<lambda>_. ''b'')\<rparr>" and run = "exec_node wit_env wit_router_flow 0", THEN conjunct1])
      (use ld in \<open>simp_all add: wit_router_flow_def wit_graph_defs\<close>)
  then show ?thesis using d1 by (intro exI [of _ "wit_gworld\<lparr>gdisk := d1\<rparr>"]) (auto simp: wit_router_flow_def wit_gflow_def)
qed

end
