(* ===== verification/Mem_Conversation.thy ===== *)
theory Mem_Conversation
  imports Go_Prelude "HOL-Library.AList"
begin

text \<open>
  The in-memory conversation store of \<^verbatim>\<open>pkg/memory/conversation.go\<close>. The map of threads is kept in
  its iteration order, which Go leaves open; each method runs under the store's lock. The clock
  readings are arguments.
\<close>

section \<open>Threads and operations\<close>

record ConversationMessage =
  cm_ID :: string
  cm_ThreadID :: string
  cm_Role :: string
  cm_Content :: string
  cm_Metadata :: "gmap option"
  cm_CreatedAt :: int

record ConversationThread =
  ct_ID :: string
  ct_Title :: string
  ct_AgentRole :: string
  ct_Messages :: "ConversationMessage list"
  ct_Metadata :: "gmap option"
  ct_CreatedAt :: int
  ct_UpdatedAt :: int

record InMemConversationStore =
  threads :: "(string \<times> ConversationThread) list"
  msgSeq :: nat

definition NewInMemConversationStore :: InMemConversationStore where
  "NewInMemConversationStore = \<lparr>threads = [], msgSeq = 0\<rparr>"

definition not_found :: "string \<Rightarrow> goerr" where
  "not_found i = EMsg (''thread not found: '' @ i)"

text \<open>The caller's thread is stamped in place; the store keeps a copy of it.\<close>

definition stamp_thread :: "int \<Rightarrow> ConversationThread \<Rightarrow> ConversationThread" where
  "stamp_thread now t =
     t\<lparr>ct_CreatedAt := (if ct_CreatedAt t = 0 then now else ct_CreatedAt t), ct_UpdatedAt := now\<rparr>"

definition CreateThread ::
  "int \<Rightarrow> ConversationThread \<Rightarrow> InMemConversationStore \<Rightarrow> InMemConversationStore \<times> goerr option" where
  "CreateThread now t s =
     (if ct_ID t = [] then (s, Some (EMsg ''thread ID is required''))
      else if map_of (threads s) (ct_ID t) \<noteq> None then (s, Some (EMsg (''thread already exists: '' @ ct_ID t)))
      else (s\<lparr>threads := AList.update (ct_ID t) (stamp_thread now t) (threads s)\<rparr>, None))"

definition stamp_msg :: "int \<Rightarrow> nat \<Rightarrow> string \<Rightarrow> ConversationMessage \<Rightarrow> ConversationMessage" where
  "stamp_msg now n i m =
     m\<lparr>cm_ID := (if cm_ID m = [] then ''msg_'' @ show_nat n else cm_ID m), cm_ThreadID := i,
       cm_CreatedAt := (if cm_CreatedAt m = 0 then now else cm_CreatedAt m)\<rparr>"

definition AddMessage ::
  "int \<Rightarrow> int \<Rightarrow> string \<Rightarrow> ConversationMessage \<Rightarrow> InMemConversationStore \<Rightarrow> InMemConversationStore \<times> goerr option" where
  "AddMessage t1 t2 i m s =
     (case map_of (threads s) i of
        None \<Rightarrow> (s, Some (not_found i))
      | Some t \<Rightarrow>
          (let n = msgSeq s + 1;
               t' = t\<lparr>ct_Messages := ct_Messages t @ [stamp_msg t1 n i m], ct_UpdatedAt := t2\<rparr>
           in (s\<lparr>msgSeq := n, threads := AList.update i t' (threads s)\<rparr>, None)))"

definition GetThread :: "string \<Rightarrow> InMemConversationStore \<Rightarrow> ConversationThread result" where
  "GetThread i s = (case map_of (threads s) i of None \<Rightarrow> Inl (not_found i) | Some t \<Rightarrow> Inr t)"

definition GetMessages :: "string \<Rightarrow> int \<Rightarrow> InMemConversationStore \<Rightarrow> ConversationMessage list result" where
  "GetMessages i limit s =
     (case map_of (threads s) i of None \<Rightarrow> Inl (not_found i) | Some t \<Rightarrow> Inr (last_n limit (ct_Messages t)))"

definition ListThreads :: "InMemConversationStore \<Rightarrow> ConversationThread list" where
  "ListThreads s = map (\<lambda>(i, t). t\<lparr>ct_Messages := []\<rparr>) (threads s)"

definition DeleteThread :: "string \<Rightarrow> InMemConversationStore \<Rightarrow> InMemConversationStore \<times> goerr option" where
  "DeleteThread i s =
     (if map_of (threads s) i = None then (s, Some (not_found i))
      else (s\<lparr>threads := AList.delete i (threads s)\<rparr>, None))"

definition FormatHistory :: "ConversationThread \<Rightarrow> int \<Rightarrow> string" where
  "FormatHistory t maxMessages =
     concat (map (\<lambda>m. ''['' @ cm_Role m @ '']: '' @ cm_Content m @ [CHR 0x0A]) (last_n maxMessages (ct_Messages t)))"

section \<open>The store as a log per thread\<close>

text \<open>The contract: each thread is an append-only log, and an operation touches its own thread only.\<close>

locale thread_log =
  fixes add :: "string \<Rightarrow> 'x \<Rightarrow> 's \<Rightarrow> 's \<times> goerr option"
    and log :: "string \<Rightarrow> 's \<Rightarrow> 'm list option"
    and seal :: "string \<Rightarrow> 'x \<Rightarrow> 's \<Rightarrow> 'm"
  assumes add_known: "log i s = Some l \<Longrightarrow> \<exists>s'. add i x s = (s', None) \<and> log i s' = Some (l @ [seal i x s])"
    and add_other: "add i x s = (s', e) \<Longrightarrow> j \<noteq> i \<Longrightarrow> log j s' = log j s"
    and add_unknown: "log i s = None \<Longrightarrow> \<exists>e. add i x s = (s, Some e)"
begin

text \<open>Adds to several threads in some interleaving.\<close>

primrec add_all :: "(string \<times> 'x) list \<Rightarrow> 's \<Rightarrow> 's" where
  "add_all [] s = s"
| "add_all (ev # evs) s = add_all evs (fst (add (fst ev) (snd ev) s))"

text \<open>A view \<open>f\<close> of messages that sealing does not change sees each thread as its own adds in order.\<close>

lemma add_all_view:
  assumes "\<And>x s. f (seal i x s) = g x"
  shows "log i s = Some l \<Longrightarrow>
    \<exists>l'. log i (add_all evs s) = Some l' \<and> map f l' = map f l @ map (g \<circ> snd) (filter (\<lambda>ev. fst ev = i) evs)"
proof (induction evs arbitrary: s l)
  case (Cons ev evs)
  obtain j x where ev: "ev = (j, x)" by (cases ev)
  obtain s1 e where s1: "add j x s = (s1, e)" by (cases "add j x s")
  show ?case
  proof (cases "j = i")
    case True
    then have "log i s1 = Some (l @ [seal i x s])" using add_known [OF Cons.prems, of x] s1 by auto
    from Cons.IH [OF this] show ?thesis using True ev s1 assms by auto
  next
    case False
    then have "log i s1 = Some l" using add_other [OF s1, of i] Cons.prems by simp
    from Cons.IH [OF this] show ?thesis using False ev s1 by auto
  qed
qed simp

end

type_synonym timed_msg = "ConversationMessage \<times> int \<times> int"

definition conv_add :: "string \<Rightarrow> timed_msg \<Rightarrow> InMemConversationStore \<Rightarrow> InMemConversationStore \<times> goerr option" where
  "conv_add i x s = (case x of (m, t1, t2) \<Rightarrow> AddMessage t1 t2 i m s)"

definition conv_log :: "string \<Rightarrow> InMemConversationStore \<Rightarrow> ConversationMessage list option" where
  "conv_log i s = map_option ct_Messages (map_of (threads s) i)"

definition conv_seal :: "string \<Rightarrow> timed_msg \<Rightarrow> InMemConversationStore \<Rightarrow> ConversationMessage" where
  "conv_seal i x s = (case x of (m, t1, t2) \<Rightarrow> stamp_msg t1 (msgSeq s + 1) i m)"

interpretation conv: thread_log conv_add conv_log conv_seal
proof
  fix i s l x assume "conv_log i s = Some l"
  then show "\<exists>s'. conv_add i x s = (s', None) \<and> conv_log i s' = Some (l @ [conv_seal i x s])"
    by (cases x) (auto simp: conv_add_def conv_log_def conv_seal_def AddMessage_def Let_def update_conv')
next
  fix i s s' e x j assume "conv_add i x s = (s', e)" "j \<noteq> i"
  then show "conv_log j s' = conv_log j s"
    by (cases x) (auto simp: conv_add_def conv_log_def AddMessage_def Let_def update_conv' split: option.splits)
next
  fix i s x assume "conv_log i s = None"
  then show "\<exists>e. conv_add i x s = (s, Some e)"
    by (cases x) (auto simp: conv_add_def conv_log_def AddMessage_def)
qed

lemma last_n_map: "map f (last_n n xs) = last_n n (map f xs)"
  by (simp add: last_n_def drop_map)

section \<open>Properties\<close>

text \<open>
  A thread is a faithful log. Once a thread is created, and whatever messages are then added to
  it and to other threads in any interleaving, \<^verbatim>\<open>GetMessages\<close> returns the last \<open>limit\<close> of its messages
  (all of them for a limit below one), its initial ones followed by its own adds, oldest first.
\<close>

theorem conversation_history:
  assumes "CreateThread now t s = (s1, None)"
  shows "\<exists>ms. GetMessages (ct_ID t) limit (conv.add_all evs s1) = Inr ms \<and>
    map (\<lambda>m. (cm_Role m, cm_Content m)) ms =
      last_n limit (map (\<lambda>m. (cm_Role m, cm_Content m)) (ct_Messages t) @
        map (\<lambda>(j, m, t1, t2). (cm_Role m, cm_Content m)) (filter (\<lambda>ev. fst ev = ct_ID t) evs))"
proof -
  let ?f = "\<lambda>m. (cm_Role m, cm_Content m)" and ?g = "\<lambda>x :: timed_msg. (cm_Role (fst x), cm_Content (fst x))"
  have "conv_log (ct_ID t) s1 = Some (ct_Messages t)"
    using assms by (auto simp: CreateThread_def conv_log_def update_conv' stamp_thread_def split: if_splits)
  moreover have "?f (conv_seal (ct_ID t) x s) = ?g x" for x s
    by (simp add: conv_seal_def stamp_msg_def split: prod.split)
  ultimately obtain l where l: "conv_log (ct_ID t) (conv.add_all evs s1) = Some l"
    "map ?f l = map ?f (ct_Messages t) @ map (?g \<circ> snd) (filter (\<lambda>ev. fst ev = ct_ID t) evs)"
    using conv.add_all_view [of ?f "ct_ID t" ?g s1 "ct_Messages t" evs] by blast
  have g: "?g \<circ> snd = (\<lambda>(j, m, t1, t2). (cm_Role m, cm_Content m))" by auto
  show ?thesis using l(1) l(2) [unfolded g] by (auto simp: GetMessages_def conv_log_def last_n_map split: option.splits)
qed

definition wit_msg :: "string \<Rightarrow> ConversationMessage" where
  "wit_msg c = \<lparr>cm_ID = [], cm_ThreadID = [], cm_Role = ''user'', cm_Content = c, cm_Metadata = None, cm_CreatedAt = 0\<rparr>"

definition wit_thread :: ConversationThread where
  "wit_thread = \<lparr>ct_ID = ''t'', ct_Title = [], ct_AgentRole = [], ct_Messages = [], ct_Metadata = None,
     ct_CreatedAt = 0, ct_UpdatedAt = 0\<rparr>"

theorem conversation_history_witness:
  "\<exists>ms. GetMessages ''t'' 2 (conv.add_all [(''t'', wit_msg ''a'', 1, 1), (''u'', wit_msg ''x'', 2, 2), (''t'', wit_msg ''b'', 3, 3), (''t'', wit_msg ''c'', 4, 4)]
       (fst (CreateThread 1 wit_thread NewInMemConversationStore))) = Inr ms \<and>
     map cm_Content ms = [''b'', ''c'']"
proof -
  let ?evs = "[(''t'', wit_msg ''a'', 1, 1), (''u'', wit_msg ''x'', 2, 2), (''t'', wit_msg ''b'', 3, 3), (''t'', wit_msg ''c'', 4, 4)]"
  obtain s1 where s1: "CreateThread 1 wit_thread NewInMemConversationStore = (s1, None)"
    by (simp add: CreateThread_def wit_thread_def NewInMemConversationStore_def)
  from conversation_history [OF s1, of 2 ?evs] obtain ms where
    ms: "GetMessages ''t'' 2 (conv.add_all ?evs s1) = Inr ms" "map (\<lambda>m. (cm_Role m, cm_Content m)) ms = [(''user'', ''b''), (''user'', ''c'')]"
    by (auto simp: wit_thread_def wit_msg_def last_n_def)
  have "map cm_Content ms = map snd (map (\<lambda>m. (cm_Role m, cm_Content m)) ms)" by simp
  also have "\<dots> = [''b'', ''c'']" unfolding ms(2) by simp
  finally show ?thesis using ms(1) s1 by simp
qed

end
