(* ===== verification/Mem_Store.thy ===== *)
theory Mem_Store
  imports Go_Prelude "HOL-Library.Multiset" "HOL-Library.Word"
begin

unbundle bit_operations_syntax

text \<open>
  Memory back ends of \<^verbatim>\<open>pkg/memory\<close>: items and the \<^verbatim>\<open>Store\<close> interface (\<^verbatim>\<open>store.go\<close>), cosine similarity
  (\<^verbatim>\<open>vector.go\<close>), the in-memory vector store (\<^verbatim>\<open>cosine.go\<close>), the retry decorator (\<^verbatim>\<open>retry.go\<close>), short-term,
  long-term and entity memory (\<^verbatim>\<open>short_term.go\<close>, \<^verbatim>\<open>long_term.go\<close>, \<^verbatim>\<open>entity.go\<close>), and the scope paths of
  \<^verbatim>\<open>unified.go\<close> that deletion by scope uses.

  Items are values: the store and its callers share pointers, but no modelled code writes
  through them. \<^verbatim>\<open>sort.Slice\<close> leaves the order of equal elements open, so a search takes the
  sorting function as an argument \<open>srt\<close>, about which \<open>sorts_desc\<close> is all that is ever used.
\<close>

section \<open>Items and similarity\<close>

record MemoryItem =
  mi_ID :: string
  mi_Text :: string
  mi_Vector :: "real list"
  mi_Metadata :: "gmap option"
  mi_CreatedAt :: int
  mi_ExpiresAt :: int

definition Expired :: "int \<Rightarrow> MemoryItem \<Rightarrow> bool" where
  "Expired now m \<longleftrightarrow> mi_ExpiresAt m \<noteq> 0 \<and> now > mi_ExpiresAt m"

definition dot :: "real list \<Rightarrow> real list \<Rightarrow> real" where
  "dot a b = sum_list (map2 (*) a b)"

definition CosineSimilarity :: "real list \<Rightarrow> real list \<Rightarrow> real result" where
  "CosineSimilarity a b =
     (if length a \<noteq> length b
      then Inl (EMsg (''vector lengths do not match: '' @ show_nat (length a) @ '' != '' @ show_nat (length b)))
      else if dot a a = 0 \<or> dot b b = 0 then Inr 0
      else Inr (dot a b / (sqrt (dot a a) * sqrt (dot b b))))"

section \<open>Scopes\<close>

definition normalizeScope :: "string \<Rightarrow> string" where
  "normalizeScope s =
     (if s = [] then ''/''
      else (let s1 = (if \<not> has_prefix s ''/'' then ''/'' @ s else s)
            in if length s1 > 1 then trim_suffix s1 ''/'' else s1))"

definition inScope :: "string \<Rightarrow> string \<Rightarrow> bool" where
  "inScope recordScope fltr =
     (let r = normalizeScope recordScope; f = normalizeScope fltr
      in if f = ''/'' then True else r = f \<or> has_prefix r (f @ ''/''))"

section \<open>The store interface\<close>

text \<open>
  The methods of \<^verbatim>\<open>Store\<close> on a store state \<open>'s\<close>; \<^verbatim>\<open>ScopeDeleter\<close> is an optional capability found by a
  type assertion. The context reaches remote back ends only and is not passed here.
\<close>

record 's Store =
  st_Add :: "MemoryItem \<Rightarrow> 's \<Rightarrow> 's \<times> goerr option"
  st_BulkAdd :: "MemoryItem list \<Rightarrow> 's \<Rightarrow> 's \<times> goerr option"
  st_Delete :: "string \<Rightarrow> 's \<Rightarrow> 's \<times> goerr option"
  st_Search :: "real list \<Rightarrow> int \<Rightarrow> 's \<Rightarrow> 's \<times> MemoryItem list result"
  st_Count :: "'s \<Rightarrow> 's \<times> int result"
  st_Reset :: "'s \<Rightarrow> 's \<times> goerr option"
  st_DeleteScope :: "(string \<Rightarrow> 's \<Rightarrow> 's \<times> int result) option"

section \<open>InMemCosineStore\<close>

type_synonym cstore = "MemoryItem list"
type_synonym scored = "MemoryItem \<times> real"

definition sorts_desc :: "('a \<Rightarrow> real) \<Rightarrow> ('a list \<Rightarrow> 'a list) \<Rightarrow> bool" where
  "sorts_desc key srt \<longleftrightarrow> (\<forall>xs. mset (srt xs) = mset xs \<and> sorted_wrt (\<lambda>a b. key a \<ge> key b) (srt xs))"

definition cos_Add :: "MemoryItem \<Rightarrow> cstore \<Rightarrow> cstore \<times> goerr option" where
  "cos_Add item s = (s @ [item], None)"

definition cos_BulkAdd :: "MemoryItem list \<Rightarrow> cstore \<Rightarrow> cstore \<times> goerr option" where
  "cos_BulkAdd items s = (s @ items, None)"

fun cos_score :: "real list \<Rightarrow> cstore \<Rightarrow> scored list result" where
  "cos_score q [] = Inr []"
| "cos_score q (t # ts) =
     (if length (mi_Vector t) \<noteq> length q then cos_score q ts
      else (case CosineSimilarity q (mi_Vector t) of
              Inl e \<Rightarrow> Inl e
            | Inr sim \<Rightarrow> (case cos_score q ts of Inl e \<Rightarrow> Inl e | Inr rs \<Rightarrow> Inr ((t, sim) # rs))))"

definition cos_Search ::
  "(scored list \<Rightarrow> scored list) \<Rightarrow> real list \<Rightarrow> int \<Rightarrow> cstore \<Rightarrow> cstore \<times> MemoryItem list result" where
  "cos_Search srt q limit s =
     (s, case cos_score q s of
           Inl e \<Rightarrow> Inl e
         | Inr rs \<Rightarrow> Inr (map fst (take (nat limit) (srt rs))))"

fun cos_remove :: "string \<Rightarrow> cstore \<Rightarrow> cstore" where
  "cos_remove i [] = []"
| "cos_remove i (t # ts) = (if mi_ID t = i then ts else t # cos_remove i ts)"

definition cos_Delete :: "string \<Rightarrow> cstore \<Rightarrow> cstore \<times> goerr option" where
  "cos_Delete i s = (cos_remove i s, None)"

definition item_scope :: "MemoryItem \<Rightarrow> string" where
  "item_scope t = (case mi_Metadata t of None \<Rightarrow> [] | Some m \<Rightarrow> (case get_string m ''scope'' of None \<Rightarrow> [] | Some x \<Rightarrow> x))"

definition cos_DeleteScope :: "string \<Rightarrow> cstore \<Rightarrow> cstore \<times> int result" where
  "cos_DeleteScope scope s =
     (filter (\<lambda>t. \<not> inScope (item_scope t) scope) s,
      Inr (int (length (filter (\<lambda>t. inScope (item_scope t) scope) s))))"

definition cos_Count :: "cstore \<Rightarrow> cstore \<times> int result" where
  "cos_Count s = (s, Inr (int (length s)))"

definition cos_Reset :: "cstore \<Rightarrow> cstore \<times> goerr option" where
  "cos_Reset s = ([], None)"

definition NewInMemCosineStore :: "(scored list \<Rightarrow> scored list) \<Rightarrow> cstore Store" where
  "NewInMemCosineStore srt =
     \<lparr>st_Add = cos_Add, st_BulkAdd = cos_BulkAdd, st_Delete = cos_Delete, st_Search = cos_Search srt,
      st_Count = cos_Count, st_Reset = cos_Reset, st_DeleteScope = Some cos_DeleteScope\<rparr>"

section \<open>RetryStore\<close>

record RetryPolicy =
  Attempts :: int
  BaseBackoff :: int
  MaxBackoff :: int

definition DefaultRetryPolicy :: RetryPolicy where
  "DefaultRetryPolicy = \<lparr>Attempts = 3, BaseBackoff = 100 * 10 ^ 6, MaxBackoff = 2 * 10 ^ 9\<rparr>"

definition normalized :: "RetryPolicy \<Rightarrow> RetryPolicy" where
  "normalized p =
     (let p1 = (if Attempts p < 1 then p\<lparr>Attempts := 1\<rparr> else p);
          p2 = (if Attempts p1 > 10 then p1\<lparr>Attempts := 10\<rparr> else p1);
          p3 = (if BaseBackoff p2 \<le> 0 then p2\<lparr>BaseBackoff := 100 * 10 ^ 6\<rparr> else p2)
      in if MaxBackoff p3 \<le> 0 \<or> MaxBackoff p3 < BaseBackoff p3 then p3\<lparr>MaxBackoff := 2 * 10 ^ 9\<rparr> else p3)"

text \<open>
  \<^verbatim>\<open>do\<close>: \<open>c1 i\<close> is the context's error at the check before try \<open>i\<close> and \<open>c2 i\<close> what ends the wait after
  it (\<open>None\<close>: the timer). \<open>fn\<close> is the operation on the store; its value is that of the last try.
  The result also carries the waits begun.
\<close>

function rs_try ::
  "(nat \<Rightarrow> goerr option) \<Rightarrow> (nat \<Rightarrow> goerr option) \<Rightarrow> RetryPolicy \<Rightarrow> string \<Rightarrow> ('s \<Rightarrow> 's \<times> 'r \<times> goerr option) \<Rightarrow>
    nat \<Rightarrow> int \<Rightarrow> 'r \<Rightarrow> 's \<Rightarrow> 's \<times> 'r \<times> goerr option \<times> int list" where
  "rs_try c1 c2 p op fn attempt backoff out s =
     (if int attempt > Attempts p then
        (s, out, Some (EMsg (''memory: '' @ op @ '' failed after '' @ show_int (Attempts p) @ '' attempts: %!w(<nil>)'')), [])
      else
        (case c1 attempt of
           Some e \<Rightarrow> (s, out, Some e, [])
         | None \<Rightarrow>
             (case fn s of
                (s1, out1, None) \<Rightarrow> (s1, out1, None, [])
              | (s1, out1, Some err) \<Rightarrow>
                  if int attempt = Attempts p then
                    (s1, out1, Some (EWrap (''memory: '' @ op @ '' failed after '' @ show_int (Attempts p) @ '' attempts: '') err []), [])
                  else
                    (case c2 attempt of
                       Some e \<Rightarrow> (s1, out1, Some e, [backoff])
                     | None \<Rightarrow>
                         (let (s2, out2, e2, ws) =
                            rs_try c1 c2 p op fn (Suc attempt) (min (backoff * 2) (MaxBackoff p)) out1 s1
                          in (s2, out2, e2, backoff # ws))))))"
  by pat_completeness auto
termination
  by (relation "measure (\<lambda>(c1, c2, p, op, fn, attempt, b, out, s). nat (Attempts p + 1 - int attempt))") auto

declare rs_try.simps [simp del]

definition rs_do ::
  "(nat \<Rightarrow> goerr option) \<Rightarrow> (nat \<Rightarrow> goerr option) \<Rightarrow> RetryPolicy \<Rightarrow> string \<Rightarrow> ('s \<Rightarrow> 's \<times> 'r \<times> goerr option) \<Rightarrow>
    'r \<Rightarrow> 's \<Rightarrow> 's \<times> 'r \<times> goerr option \<times> int list" where
  "rs_do c1 c2 p op fn out s = rs_try c1 c2 p op fn 1 (BaseBackoff p) out s"

definition drop_waits :: "'s \<times> 'r \<times> goerr option \<times> int list \<Rightarrow> 's \<times> 'r \<times> goerr option" where
  "drop_waits x = (case x of (s, out, e, ws) \<Rightarrow> (s, out, e))"

text \<open>A value and an error, as Go returns them, for the methods with a result.\<close>

definition unpack :: "'r \<Rightarrow> 's \<times> 'r result \<Rightarrow> 's \<times> 'r \<times> goerr option" where
  "unpack zero x = (case x of (s, Inl e) \<Rightarrow> (s, zero, Some e) | (s, Inr r) \<Rightarrow> (s, r, None))"

definition repack :: "'s \<times> 'r \<times> goerr option \<Rightarrow> 's \<times> 'r result" where
  "repack x = (case x of (s, r, None) \<Rightarrow> (s, Inr r) | (s, r, Some e) \<Rightarrow> (s, Inl e))"

text \<open>\<^verbatim>\<open>RetryStore\<close> has no \<^verbatim>\<open>DeleteScope\<close> method, so the wrapped store loses that capability.\<close>

definition WithRetry ::
  "(nat \<Rightarrow> goerr option) \<Rightarrow> (nat \<Rightarrow> goerr option) \<Rightarrow> 's Store \<Rightarrow> RetryPolicy \<Rightarrow> 's Store" where
  "WithRetry c1 c2 inner policy =
     (let p = normalized policy;
          unit_op = (\<lambda>f s. case f s of (s1, e) \<Rightarrow> (s1, (), e));
          run = (\<lambda>op f s. case rs_do c1 c2 p op (unit_op f) () s of (s1, _, e, _) \<Rightarrow> (s1, e))
      in \<lparr>st_Add = (\<lambda>item. run ''add'' (st_Add inner item)),
          st_BulkAdd = (\<lambda>items. run ''bulk-add'' (st_BulkAdd inner items)),
          st_Delete = st_Delete inner,
          st_Search = (\<lambda>q limit s. repack (drop_waits (rs_do c1 c2 p ''search'' (\<lambda>s. unpack [] (st_Search inner q limit s)) [] s))),
          st_Count = (\<lambda>s. repack (drop_waits (rs_do c1 c2 p ''count'' (\<lambda>s. unpack 0 (st_Count inner s)) 0 s))),
          st_Reset = st_Reset inner,
          st_DeleteScope = None\<rparr>)"

section \<open>Short-term, entity and long-term memory\<close>

definition stm_Add :: "MemoryItem \<Rightarrow> MemoryItem list \<Rightarrow> MemoryItem list" where
  "stm_Add item s = s @ [item]"

definition stm_Search :: "int \<Rightarrow> MemoryItem list \<Rightarrow> MemoryItem list" where
  "stm_Search limit s = take (nat limit) (rev s)"

record Entity =
  en_Name :: string
  en_Value :: string
  en_Description :: string

text \<open>The map in its iteration order, which Go leaves open.\<close>

type_synonym estore = "(string \<times> Entity) list"

definition en_put :: "string \<Rightarrow> Entity \<Rightarrow> estore \<Rightarrow> estore" where
  "en_put k e s = (if k \<in> fst ` set s then map (\<lambda>(j, x). if j = k then (j, e) else (j, x)) s else s @ [(k, e)])"

definition Upsert :: "string \<Rightarrow> string \<Rightarrow> string \<Rightarrow> estore \<Rightarrow> estore" where
  "Upsert name val desc s = en_put (to_lower name) \<lparr>en_Name = name, en_Value = val, en_Description = desc\<rparr> s"

definition en_Get :: "string \<Rightarrow> estore \<Rightarrow> Entity result" where
  "en_Get name s = (case map_of s (to_lower name) of Some e \<Rightarrow> Inr e | None \<Rightarrow> Inl (EMsg (''entity not found: '' @ name)))"

definition en_Add :: "MemoryItem \<Rightarrow> estore \<Rightarrow> estore" where
  "en_Add item s =
     (case mi_Metadata item of
        None \<Rightarrow> s
      | Some m \<Rightarrow>
          (case get_string m ''entity'' of
             None \<Rightarrow> s
           | Some name \<Rightarrow>
               en_put (to_lower name)
                 \<lparr>en_Name = name, en_Value = mi_Text item,
                  en_Description = (case get_string m ''description'' of Some d \<Rightarrow> d | None \<Rightarrow> [])\<rparr> s))"

definition en_hit :: "string \<Rightarrow> string \<times> Entity \<Rightarrow> bool" where
  "en_hit q ne \<longleftrightarrow> str_contains (fst ne) q \<or> str_contains (to_lower (en_Value (snd ne))) q"

definition en_item :: "Entity \<Rightarrow> MemoryItem" where
  "en_item e = \<lparr>mi_ID = [], mi_Text = en_Name e @ '': '' @ en_Value e @ '' ('' @ en_Description e @ '')'',
     mi_Vector = [], mi_Metadata = Some [''type'' \<mapsto> VString ''entity'', ''name'' \<mapsto> VString (en_Name e)],
     mi_CreatedAt = 0, mi_ExpiresAt = 0\<rparr>"

text \<open>The limit is tested after a hit is appended, so a limit below one still returns one hit.\<close>

fun en_collect :: "string \<Rightarrow> int \<Rightarrow> estore \<Rightarrow> MemoryItem list \<Rightarrow> MemoryItem list" where
  "en_collect q limit [] acc = acc"
| "en_collect q limit (ne # s) acc =
     (if en_hit q ne then
        (let acc1 = acc @ [en_item (snd ne)]
         in if int (length acc1) \<ge> limit then acc1 else en_collect q limit s acc1)
      else en_collect q limit s acc)"

definition en_Search :: "string \<Rightarrow> int \<Rightarrow> estore \<Rightarrow> MemoryItem list" where
  "en_Search q limit s = en_collect (to_lower q) limit s []"

text \<open>FNV-1a on 64-bit words, and the identifier \<^verbatim>\<open>ltm_%x\<close>.\<close>

definition fnv1a :: "string \<Rightarrow> 64 word" where
  "fnv1a s = foldl (\<lambda>h c. (h XOR of_nat (of_char c)) * 1099511628211) 14695981039346656037 s"

definition hex_digit :: "nat \<Rightarrow> char" where
  "hex_digit n = (if n < 10 then char_of (48 + n) else char_of (87 + n))"

fun show_hex :: "nat \<Rightarrow> string" where
  "show_hex n = (if n < 16 then [hex_digit n] else show_hex (n div 16) @ [hex_digit (n mod 16)])"

declare show_hex.simps [simp del]

text \<open>
  The embedder: no client, a client without embeddings, or one that returns a vector or fails.
\<close>

datatype embedder = NoClient | NoEmbeddings | Embeds "string \<Rightarrow> real list result"

definition ltm_Save :: "embedder \<Rightarrow> 's Store \<Rightarrow> string \<Rightarrow> gmap option \<Rightarrow> 's \<Rightarrow> 's \<times> goerr option" where
  "ltm_Save em st text meta s =
     (case em of
        NoClient \<Rightarrow> (s, Some (EMsg ''embedder is required for long term memory''))
      | NoEmbeddings \<Rightarrow> (s, Some (EMsg ''configured LLM does not support text embeddings''))
      | Embeds f \<Rightarrow>
          (case f text of
             Inl e \<Rightarrow> (s, Some (EWrap ''failed to generate embedding: '' e []))
           | Inr v \<Rightarrow>
               st_Add st \<lparr>mi_ID = ''ltm_'' @ show_hex (unat (fnv1a text)), mi_Text = text, mi_Vector = v,
                 mi_Metadata = meta, mi_CreatedAt = 0, mi_ExpiresAt = 0\<rparr> s))"

definition ltm_Search :: "embedder \<Rightarrow> 's Store \<Rightarrow> string \<Rightarrow> int \<Rightarrow> 's \<Rightarrow> 's \<times> MemoryItem list result" where
  "ltm_Search em st query limit s =
     (case em of
        NoClient \<Rightarrow> (s, Inl (EMsg ''embedder is required for long term memory search''))
      | NoEmbeddings \<Rightarrow> (s, Inl (EMsg ''configured LLM does not support text embeddings''))
      | Embeds f \<Rightarrow>
          (case f query of
             Inl e \<Rightarrow> (s, Inl (EWrap ''failed to generate query embedding: '' e []))
           | Inr v \<Rightarrow> st_Search st v limit s))"

section \<open>Similarity\<close>

lemma dot_simps [simp]: "dot [] b = 0" "dot a [] = 0" "dot (x # a) (y # b) = x * y + dot a b"
  by (auto simp: dot_def)

lemma dot_self_nonneg: "0 \<le> dot a a"
  by (induction a) auto

lemma dot_commute: "dot a b = dot b a"
  by (induction a b rule: list_induct2') (auto simp: mult.commute)

lemma dot_sub_square:
  "length a = length b \<Longrightarrow> 0 \<le> dot a a - 2 * t * dot a b + t\<^sup>2 * dot b b"
proof (induction a b rule: list_induct2)
  case (Cons x a y b)
  have "dot (x # a) (x # a) - 2 * t * dot (x # a) (y # b) + t\<^sup>2 * dot (y # b) (y # b) =
      (x - t * y)\<^sup>2 + (dot a a - 2 * t * dot a b + t\<^sup>2 * dot b b)"
    by (simp add: power2_eq_square algebra_simps)
  with Cons show ?case by (metis add_nonneg_nonneg zero_le_power2)
qed simp

lemma dot_cauchy_schwarz:
  assumes "length a = length b"
  shows "(dot a b)\<^sup>2 \<le> dot a a * dot b b"
proof (cases "dot b b = 0")
  case True
  have "0 \<le> dot a a - 2 * t * dot a b" for t
    using dot_sub_square [OF assms, of t] True by simp
  then have "0 \<le> dot a a - 2 * ((dot a a + 1) / dot a b) * dot a b" by blast
  then have "dot a b = 0"
    using dot_self_nonneg [of a] by (cases "dot a b = 0") auto
  with True show ?thesis by simp
next
  case False
  then have p: "0 < dot b b" using dot_self_nonneg [of b] by simp
  have "0 \<le> dot a a - 2 * (dot a b / dot b b) * dot a b + (dot a b / dot b b)\<^sup>2 * dot b b"
    by (rule dot_sub_square [OF assms])
  also have "\<dots> = dot a a - (dot a b)\<^sup>2 / dot b b"
    using p by (simp add: field_simps power2_eq_square)
  finally show ?thesis using p by (simp add: field_simps)
qed

lemma cosine_bounds:
  assumes "CosineSimilarity a b = Inr x"
  shows "-1 \<le> x \<and> x \<le> 1"
proof (cases "dot a a = 0 \<or> dot b b = 0")
  case True
  then show ?thesis using assms by (auto simp: CosineSimilarity_def split: if_splits)
next
  case False
  then have l: "length a = length b" and x: "x = dot a b / (sqrt (dot a a) * sqrt (dot b b))"
    using assms by (auto simp: CosineSimilarity_def split: if_splits)
  have p: "0 < dot a a" "0 < dot b b" using False dot_self_nonneg [of a] dot_self_nonneg [of b] by auto
  have "\<bar>dot a b\<bar> \<le> sqrt (dot a a * dot b b)"
    using dot_cauchy_schwarz [OF l] real_le_rsqrt [of "\<bar>dot a b\<bar>"] by simp
  then have "\<bar>x\<bar> \<le> 1" using p by (simp add: x real_sqrt_mult abs_mult divide_le_eq_1)
  then show ?thesis by linarith
qed

lemma cosine_self: "dot a a \<noteq> 0 \<Longrightarrow> CosineSimilarity a a = Inr 1"
  using dot_self_nonneg [of a] by (simp add: CosineSimilarity_def real_sqrt_mult [symmetric])

section \<open>Search\<close>

definition similarity :: "real list \<Rightarrow> MemoryItem \<Rightarrow> real" where
  "similarity q t = projr (CosineSimilarity q (mi_Vector t))"

lemma similarity_bounds: "length (mi_Vector x) = length q \<Longrightarrow> -1 \<le> similarity q x \<and> similarity q x \<le> 1"
  using cosine_bounds [of q "mi_Vector x" "similarity q x"]
  by (cases "CosineSimilarity q (mi_Vector x)") (auto simp: similarity_def CosineSimilarity_def split: if_splits)

definition comparable :: "real list \<Rightarrow> cstore \<Rightarrow> cstore" where
  "comparable q s = filter (\<lambda>t. length (mi_Vector t) = length q) s"

lemma cos_score_eq: "cos_score q s = Inr (map (\<lambda>t. (t, similarity q t)) (comparable q s))"
  by (induction s) (auto simp: comparable_def similarity_def CosineSimilarity_def)

lemma srt_perm: "sorts_desc key srt \<Longrightarrow> mset (srt xs) = mset xs"
  by (simp add: sorts_desc_def)

lemma srt_set: "sorts_desc key srt \<Longrightarrow> set (srt xs) = set xs"
  by (metis mset_eq_setD srt_perm)

lemma srt_length: "sorts_desc key srt \<Longrightarrow> length (srt xs) = length xs"
  by (metis mset_eq_length srt_perm)

lemma srt_sorted: "sorts_desc key srt \<Longrightarrow> sorted_wrt (\<lambda>a b. key a \<ge> key b) (srt xs)"
  by (simp add: sorts_desc_def)

text \<open>The stable sort is one such function.\<close>

lemma sorts_desc_sort_key: "sorts_desc key (sort_key (\<lambda>x. - key x))"
  unfolding sorts_desc_def by (auto simp: sorted_map [symmetric] sorted_wrt_map intro!: sorted_wrt_mono_rel [OF _ sorted_sort_key [unfolded sorted_map]])

lemma sorted_take_drop:
  "sorted_wrt P xs \<Longrightarrow> x \<in> set (take n xs) \<Longrightarrow> y \<in> set (drop n xs) \<Longrightarrow> P x y"
  by (metis append_take_drop_id sorted_wrt_append)

section \<open>Scopes as paths of segments\<close>

definition segments :: "string \<Rightarrow> string list" where
  "segments s = split_byte CHR ''/'' s"

lemma split_byte_snoc: "split_byte c (s @ [c]) = split_byte c s @ [[]]"
  by (induction s) (auto split: list.splits)

lemma split_byte_app: "split_byte c (s @ c # t) = split_byte c s @ split_byte c t"
  by (induction s) (auto split: list.splits)

lemma split_byte_inj: "split_byte c s = split_byte c t \<Longrightarrow> s = t"
  by (metis join_split_byte)

lemma str_join_append:
  "xs \<noteq> [] \<Longrightarrow> ys \<noteq> [] \<Longrightarrow> str_join (xs @ ys) sep = str_join xs sep @ sep @ str_join ys sep"
proof (induction xs)
  case (Cons x xs)
  then show ?case by (cases xs) (auto simp: str_join_Cons)
qed simp

lemma prefix_segments:
  "r = f \<or> prefix (f @ ''/'') r \<longleftrightarrow> prefix (segments f) (segments r)"
proof
  assume "r = f \<or> prefix (f @ ''/'') r"
  then show "prefix (segments f) (segments r)"
    by (auto simp: prefix_def segments_def split_byte_app)
next
  assume "prefix (segments f) (segments r)"
  then obtain zs where z: "segments r = segments f @ zs" by (auto simp: prefix_def)
  show "r = f \<or> prefix (f @ ''/'') r"
  proof (cases "zs = []")
    case True
    then show ?thesis using z split_byte_inj [of "CHR ''/''" r f] by (simp add: segments_def)
  next
    case False
    have "r = str_join (segments r) ''/''" by (simp add: segments_def)
    also have "\<dots> = f @ ''/'' @ str_join zs ''/''"
      unfolding z using str_join_append [of "segments f" zs "''/''"] False by (simp add: segments_def)
    finally show ?thesis by (metis append_assoc prefix_def)
  qed
qed

lemma normalizeScope_rooted: "\<exists>t. normalizeScope s = CHR ''/'' # t"
proof (cases s)
  case (Cons c cs)
  then show ?thesis
    by (auto simp: normalizeScope_def trim_suffix_def Let_def take_Cons' split: if_splits)
qed (simp add: normalizeScope_def)

section \<open>Retries\<close>

text \<open>An operation whose \<open>n\<close>-th call (from 0) answers \<open>outs n\<close>; the state counts the calls.\<close>

definition scripted :: "(nat \<Rightarrow> 'r \<times> goerr option) \<Rightarrow> nat \<Rightarrow> nat \<times> 'r \<times> goerr option" where
  "scripted outs n = (Suc n, outs n)"

fun waits :: "int \<Rightarrow> int \<Rightarrow> nat \<Rightarrow> int list" where
  "waits mx b 0 = []"
| "waits mx b (Suc n) = b # waits mx (min (b * 2) mx) n"

lemma length_waits [simp]: "length (waits mx b n) = n"
  by (induction n arbitrary: b) auto

abbreviation never :: "nat \<Rightarrow> goerr option" where
  "never \<equiv> \<lambda>_. None"

lemma rs_try_again:
  assumes "fn s = (s1, out1, Some err)" "int a < Attempts p"
    "rs_try never never p op fn (Suc a) (min (b * 2) (MaxBackoff p)) out1 s1 = (s2, out2, e2, ws)"
  shows "rs_try never never p op fn a b out s = (s2, out2, e2, b # ws)"
  using assms by (simp add: rs_try.simps [of _ _ _ _ _ a])

lemma rs_try_success:
  assumes "int a + int k \<le> Attempts p" "0 < a" "\<forall>j < k. snd (outs (a - 1 + j)) \<noteq> None" "snd (outs (a - 1 + k)) = None"
  shows "rs_try never never p op (scripted outs) a b out (a - 1) =
    (a + k, fst (outs (a - 1 + k)), None, waits (MaxBackoff p) b k)"
  using assms
proof (induction k arbitrary: a b out)
  case 0
  then show ?case by (cases "outs (a - 1)") (simp add: rs_try.simps [of _ _ _ _ _ a] scripted_def)
next
  case (Suc k)
  obtain r e where o: "outs (a - 1) = (r, Some e)"
    using Suc.prems(3) by (cases "outs (a - 1)") (auto dest: spec [of _ 0])
  have sh: "a - 1 + Suc j = Suc a - 1 + j" for j using Suc.prems(2) by simp
  have "rs_try never never p op (scripted outs) (Suc a) (min (b * 2) (MaxBackoff p)) r (Suc a - 1) =
      (Suc a + k, fst (outs (Suc a - 1 + k)), None, waits (MaxBackoff p) (min (b * 2) (MaxBackoff p)) k)"
    using Suc.prems by (intro Suc.IH) (auto simp: sh [symmetric] simp del: add_Suc_right)
  moreover have "scripted outs (a - 1) = (Suc a - 1, r, Some e)"
    using o Suc.prems(2) by (simp add: scripted_def)
  moreover have "int a < Attempts p" using Suc.prems(1) by simp
  ultimately show ?case using rs_try_again sh [of k] by fastforce
qed

lemma rs_try_failure:
  assumes "int a + int k = Attempts p" "0 < a" "\<forall>j \<le> k. snd (outs (a - 1 + j)) \<noteq> None"
  shows "rs_try never never p op (scripted outs) a b out (a - 1) =
    (a + k, fst (outs (a - 1 + k)),
     Some (EWrap (''memory: '' @ op @ '' failed after '' @ show_int (Attempts p) @ '' attempts: '') (the (snd (outs (a - 1 + k)))) []),
     waits (MaxBackoff p) b k)"
  using assms
proof (induction k arbitrary: a b out)
  case 0
  then obtain r e where "outs (a - 1) = (r, Some e)" by (cases "outs (a - 1)") auto
  with 0 show ?case by (simp add: rs_try.simps [of _ _ _ _ _ a] scripted_def)
next
  case (Suc k)
  obtain r e where o: "outs (a - 1) = (r, Some e)"
    using Suc.prems(3) by (cases "outs (a - 1)") (auto dest: spec [of _ 0])
  have sh: "a - 1 + Suc j = Suc a - 1 + j" for j using Suc.prems(2) by simp
  have "rs_try never never p op (scripted outs) (Suc a) (min (b * 2) (MaxBackoff p)) r (Suc a - 1) =
      (Suc a + k, fst (outs (Suc a - 1 + k)),
       Some (EWrap (''memory: '' @ op @ '' failed after '' @ show_int (Attempts p) @ '' attempts: '') (the (snd (outs (Suc a - 1 + k)))) []),
       waits (MaxBackoff p) (min (b * 2) (MaxBackoff p)) k)"
    using Suc.prems by (intro Suc.IH) (auto simp: sh [symmetric] simp del: add_Suc_right)
  moreover have "scripted outs (a - 1) = (Suc a - 1, r, Some e)"
    using o Suc.prems(2) by (simp add: scripted_def)
  moreover have "int a < Attempts p" using Suc.prems(1) by simp
  ultimately show ?case using rs_try_again sh [of k] by fastforce
qed

lemma normalized_bounds: "1 \<le> Attempts (normalized p)" "Attempts (normalized p) \<le> 10"
  "0 < BaseBackoff (normalized p)" "0 < MaxBackoff (normalized p)"
  by (simp_all add: normalized_def Let_def)

section \<open>The contract of a vector store\<close>

text \<open>
  What a memory built on a store may rely on. \<open>contents\<close> are the items held; a search returns
  held items only, at most \<open>limit\<close> of them, best first, and none that it leaves out is better;
  deletion by scope, where the store has it, removes exactly the items of the scope.
\<close>

locale vector_store =
  fixes S :: "'s Store" and contents :: "'s \<Rightarrow> MemoryItem list"
  assumes add_law: "\<exists>s'. st_Add S it s = (s', None) \<and> contents s' = contents s @ [it]"
    and search_law: "\<exists>out. st_Search S q limit s = (s, Inr out) \<and> length out = min (nat limit) (length (comparable q (contents s))) \<and>
      mset out \<subseteq># mset (comparable q (contents s)) \<and> sorted_wrt (\<lambda>a b. similarity q a \<ge> similarity q b) out \<and>
      (\<forall>x \<in># mset (comparable q (contents s)) - mset out. \<forall>y \<in> set out. similarity q x \<le> similarity q y)"
    and scope_law: "st_DeleteScope S = Some ds \<Longrightarrow>
      \<exists>s'. ds scope s = (s', Inr (int (length (filter (\<lambda>t. inScope (item_scope t) scope) (contents s))))) \<and>
        contents s' = filter (\<lambda>t. \<not> inScope (item_scope t) scope) (contents s)"
begin

text \<open>A saved text is found again: the best hit for the same text has similarity one.\<close>

lemma ltm_save_contents:
  assumes "em = Embeds f" "f text = Inr v"
  shows "\<exists>s' it. ltm_Save em S text meta s = (s', None) \<and> contents s' = contents s @ [it] \<and>
    mi_Vector it = v \<and> mi_Text it = text"
  using assms add_law by (fastforce simp: ltm_Save_def)

lemma search_best:
  assumes "it \<in> set (contents s)" "mi_Vector it = q" "dot q q \<noteq> 0" "limit \<ge> 1"
  shows "\<exists>x out. st_Search S q limit s = (s, Inr (x # out)) \<and> similarity q x = 1"
proof -
  obtain out where out: "st_Search S q limit s = (s, Inr out)"
    "length out = min (nat limit) (length (comparable q (contents s)))"
    "mset out \<subseteq># mset (comparable q (contents s))" "sorted_wrt (\<lambda>a b. similarity q a \<ge> similarity q b) out"
    "\<forall>x \<in># mset (comparable q (contents s)) - mset out. \<forall>y \<in> set out. similarity q x \<le> similarity q y"
    using search_law by blast
  have c: "it \<in> set (comparable q (contents s))" using assms(1,2) by (simp add: comparable_def)
  then have "out \<noteq> []" using out(2) assms(4) by (auto simp: min_def split: if_splits)
  then obtain x xs where x: "out = x # xs" by (cases out) auto
  have "x \<in># mset (comparable q (contents s))" using mset_subset_eqD [OF out(3), of x] x by simp
  then have le: "similarity q x \<le> 1" using similarity_bounds [of x q] by (simp add: comparable_def)
  have one: "similarity q it = 1" using assms(2,3) cosine_self [of q] by (simp add: similarity_def)
  have "similarity q it \<le> similarity q x"
  proof (cases "it \<in> set out")
    case True
    then show ?thesis using out(4) x by auto
  next
    case False
    then have "it \<in># mset (comparable q (contents s)) - mset out"
      using c by (simp add: in_diff_count) (metis count_mset_gt_0 count_mset_0_iff)
    then show ?thesis using out(5) x by simp
  qed
  with le one out(1) x show ?thesis by auto
qed

end

lemma cos_Search_eq:
  "cos_Search srt q limit s = (s, Inr (map fst (take (nat limit) (srt (map (\<lambda>t. (t, similarity q t)) (comparable q s))))))"
  by (simp add: cos_Search_def cos_score_eq)

lemma cos_Search_law:
  assumes "sorts_desc snd srt"
  shows "\<exists>out. cos_Search srt q limit s = (s, Inr out) \<and> length out = min (nat limit) (length (comparable q s)) \<and>
    mset out \<subseteq># mset (comparable q s) \<and> sorted_wrt (\<lambda>a b. similarity q a \<ge> similarity q b) out \<and>
    (\<forall>x \<in># mset (comparable q s) - mset out. \<forall>y \<in> set out. similarity q x \<le> similarity q y)"
proof -
  let ?sc = "map (\<lambda>t. (t, similarity q t)) (comparable q s)" and ?n = "nat limit"
  let ?ys = "srt ?sc"
  note set = srt_set [OF assms, of ?sc] and sorted = srt_sorted [OF assms, of ?sc]
  have snd: "snd p = similarity q (fst p)" if "p \<in> set ?ys" for p using that by (auto simp: set)
  have "mset (map fst ?ys) = mset (map fst ?sc)" using srt_perm [OF assms, of ?sc] by (simp only: mset_map)
  then have perm: "mset (map fst ?ys) = mset (comparable q s)" by (simp add: comp_def)
  have split: "mset (map fst ?ys) = mset (map fst (take ?n ?ys)) + mset (map fst (drop ?n ?ys))"
    by (simp only: mset_append [symmetric] map_append [symmetric] append_take_drop_id)
  let ?out = "map fst (take ?n ?ys)"
  have rest: "mset (comparable q s) - mset ?out = mset (map fst (drop ?n ?ys))"
    unfolding perm [symmetric] split by (rule add_diff_cancel_left')
  have "sorted_wrt (\<lambda>a b. similarity q (fst a) \<ge> similarity q (fst b)) (take ?n ?ys)"
    using sorted_wrt_take [OF sorted, of ?n]
    by (rule sorted_wrt_mono_rel [rotated]) (metis in_set_takeD snd)
  moreover have "similarity q x \<le> similarity q y"
    if "x \<in># mset (map fst (drop ?n ?ys))" "y \<in> set ?out" for x y
  proof -
    obtain a b where ab: "a \<in> set (drop ?n ?ys)" "x = fst a" "b \<in> set (take ?n ?ys)" "y = fst b"
      using \<open>x \<in># mset (map fst (drop ?n ?ys))\<close> \<open>y \<in> set ?out\<close> by (auto simp del: in_set_takeD)
    have "snd a \<le> snd b" using sorted_take_drop [OF sorted ab(3,1)] by simp
    then show ?thesis using snd [OF in_set_dropD [OF ab(1)]] snd [OF in_set_takeD [OF ab(3)]] ab(2,4) by simp
  qed
  moreover have "length ?out = min ?n (length (comparable q s))"
    using srt_length [OF assms, of ?sc] by simp
  moreover have "mset ?out \<subseteq># mset (comparable q s)" 
    unfolding perm [symmetric] split by (rule mset_subset_eq_add_left)
  ultimately show ?thesis
    unfolding cos_Search_eq by (intro exI [of _ ?out]) (simp add: sorted_wrt_map rest [simplified])
qed

lemma cosine_is_vector_store: "sorts_desc snd srt \<Longrightarrow> vector_store (NewInMemCosineStore srt) (\<lambda>s. s)"
  by unfold_locales
    (auto simp: NewInMemCosineStore_def cos_Add_def cos_DeleteScope_def intro: cos_Search_law)

abbreviation stable_desc :: "scored list \<Rightarrow> scored list" where
  "stable_desc \<equiv> sort_key (\<lambda>x. - snd x)"

interpretation cosm: vector_store "NewInMemCosineStore stable_desc" "\<lambda>s. s"
  by (rule cosine_is_vector_store [OF sorts_desc_sort_key])

section \<open>Properties\<close>

text \<open>
  The in-memory vector search is exact top-\<open>k\<close> search, whatever \<^verbatim>\<open>sort.Slice\<close> does with ties. It
  returns as many items as asked for and comparable (same vector length), in descending
  similarity, none left out is more similar than one returned, every similarity lies in
  \<open>[-1, 1]\<close>, and the store is unchanged.
\<close>

theorem cosine_search_topk:
  assumes "sorts_desc snd srt"
  shows "\<exists>out. cos_Search srt q limit s = (s, Inr out) \<and> length out = min (nat limit) (length (comparable q s)) \<and>
    mset out \<subseteq># mset (comparable q s) \<and> sorted_wrt (\<lambda>a b. similarity q a \<ge> similarity q b) out \<and>
    (\<forall>x. x \<in># mset (comparable q s) - mset out \<longrightarrow> (\<forall>y \<in> set out. similarity q x \<le> similarity q y)) \<and>
    (\<forall>x. x \<in> set (comparable q s) \<longrightarrow> -1 \<le> similarity q x \<and> similarity q x \<le> 1)"
proof -
  have "-1 \<le> similarity q x \<and> similarity q x \<le> 1" if "x \<in> set (comparable q s)" for x
    using that similarity_bounds [of x q] by (simp add: comparable_def)
  then show ?thesis using cos_Search_law [OF assms, of q limit s] by blast
qed

definition wit_item :: "string \<Rightarrow> real list \<Rightarrow> MemoryItem" where
  "wit_item i v = \<lparr>mi_ID = i, mi_Text = i, mi_Vector = v, mi_Metadata = None, mi_CreatedAt = 0, mi_ExpiresAt = 0\<rparr>"

theorem cosine_search_topk_witness:
  "\<exists>x. cos_Search stable_desc [1, 0] 1 [wit_item ''a'' [1], wit_item ''b'' [0, 2]] =
     ([wit_item ''a'' [1], wit_item ''b'' [0, 2]], Inr [x])"
  using cosine_search_topk [OF sorts_desc_sort_key, of "[1, 0]" 1 "[wit_item ''a'' [1], wit_item ''b'' [0, 2]]"]
  by (auto simp: comparable_def wit_item_def length_Suc_conv)

text \<open>
  Long-term memory finds what it saved. Once a text with a non-null embedding was saved, the
  first hit for that same text has similarity exactly one, whatever else the store holds.
\<close>

theorem long_term_exact_hit:
  assumes "sorts_desc snd srt" "f text = Inr v" "dot v v \<noteq> 0" "limit \<ge> 1"
    "ltm_Save (Embeds f) (NewInMemCosineStore srt) text meta s = (s', e)"
  shows "e = None \<and> (\<exists>x out. ltm_Search (Embeds f) (NewInMemCosineStore srt) text limit s' = (s', Inr (x # out)) \<and> similarity v x = 1)"
proof -
  note vs = cosine_is_vector_store [OF assms(1)]
  obtain it where it: "e = None" "s' = s @ [it]" "mi_Vector it = v"
    using vector_store.ltm_save_contents [OF vs refl, of f "text" v meta s] assms(2,5) by auto
  have "\<exists>x out. st_Search (NewInMemCosineStore srt) v limit s' = (s', Inr (x # out)) \<and> similarity v x = 1"
    by (rule vector_store.search_best [OF vs _ it(3) assms(3,4)]) (simp add: it)
  then show ?thesis using it(1) assms(2) by (auto simp: ltm_Search_def)
qed

theorem long_term_exact_hit_witness:
  "\<exists>s' x out. ltm_Save (Embeds (\<lambda>t. Inr [real (length t)])) (NewInMemCosineStore stable_desc) ''hi'' None [] = (s', None) \<and>
     ltm_Search (Embeds (\<lambda>t. Inr [real (length t)])) (NewInMemCosineStore stable_desc) ''hi'' 1 s' = (s', Inr (x # out)) \<and>
     similarity [2] x = 1"
proof -
  let ?f = "\<lambda>t :: string. Inr [real (length t)] :: real list result"
  obtain s' e where s: "ltm_Save (Embeds ?f) (NewInMemCosineStore stable_desc) ''hi'' None [] = (s', e)" by fastforce
  have "e = None \<and> (\<exists>x out. ltm_Search (Embeds ?f) (NewInMemCosineStore stable_desc) ''hi'' 1 s' = (s', Inr (x # out)) \<and> similarity [2] x = 1)"
    by (rule long_term_exact_hit [OF sorts_desc_sort_key _ _ _ s]) simp_all
  with s show ?thesis by auto
qed

text \<open>
  Scopes are trees of path segments. A record's scope lies in a filter's scope exactly when the
  filter's segments are an initial part of the record's, so \<^verbatim>\<open>/tenant/ab\<close> is not in \<^verbatim>\<open>/tenant/a\<close>; the
  root holds everything.
\<close>

theorem inScope_segments:
  "inScope r f \<longleftrightarrow>
     normalizeScope f = ''/'' \<or> prefix (segments (normalizeScope f)) (segments (normalizeScope r))"
  using prefix_segments [of "normalizeScope r" "normalizeScope f"] by (simp add: inScope_def Let_def)

text \<open>
  Retries. With the policy's attempts clamped to between 1 and 10, an operation that succeeds at
  its \<open>k\<close>-th try within the attempts is called exactly \<open>k\<close> times and its result returned; one that
  keeps failing is called exactly \<^verbatim>\<open>Attempts\<close> times and the last error wrapped. Between tries the
  waits double from \<^verbatim>\<open>BaseBackoff\<close>, capped by \<^verbatim>\<open>MaxBackoff\<close>. (No cancellation.)
\<close>

theorem retry_outcome:
  assumes "q = normalized p" "N = nat (Attempts q)"
  shows "1 \<le> N \<and> N \<le> 10 \<and>
    (k < N \<and> (\<forall>j < k. snd (outs j) \<noteq> None) \<and> snd (outs k) = None \<longrightarrow>
       rs_do never never q op (scripted outs) out 0 =
         (Suc k, fst (outs k), None, waits (MaxBackoff q) (BaseBackoff q) k)) \<and>
    ((\<forall>j < N. snd (outs j) \<noteq> None) \<longrightarrow>
       rs_do never never q op (scripted outs) out 0 =
         (N, fst (outs (N - 1)),
          Some (EWrap (''memory: '' @ op @ '' failed after '' @ show_int (Attempts q) @ '' attempts: '') (the (snd (outs (N - 1)))) []),
          waits (MaxBackoff q) (BaseBackoff q) (N - 1)))"
proof -
  have b: "1 \<le> Attempts q" "Attempts q \<le> 10" using assms(1) normalized_bounds by simp_all
  then have N: "1 \<le> N" "N \<le> 10" "int N = Attempts q" using assms(2) by auto
  have s: "rs_try never never q op (scripted outs) 1 (BaseBackoff q) out (1 - 1) =
      (1 + k, fst (outs (1 - 1 + k)), None, waits (MaxBackoff q) (BaseBackoff q) k)"
    if "k < N" "\<forall>j < k. snd (outs j) \<noteq> None" "snd (outs k) = None"
    using that N(3) by (intro rs_try_success) auto
  have f: "rs_try never never q op (scripted outs) 1 (BaseBackoff q) out (1 - 1) =
      (1 + (N - 1), fst (outs (1 - 1 + (N - 1))),
       Some (EWrap (''memory: '' @ op @ '' failed after '' @ show_int (Attempts q) @ '' attempts: '') (the (snd (outs (1 - 1 + (N - 1))))) []),
       waits (MaxBackoff q) (BaseBackoff q) (N - 1))"
    if "\<forall>j < N. snd (outs j) \<noteq> None"
    using that N by (intro rs_try_failure) auto
  show ?thesis using s f N by (auto simp: rs_do_def)
qed

theorem retry_outcome_witness:
  "rs_do never never (normalized DefaultRetryPolicy) ''add'' (scripted (\<lambda>n. ((), if n < 2 then Some (EMsg ''busy'') else None))) () 0 =
     (3, (), None, [100 * 10 ^ 6, 200 * 10 ^ 6])"
  using retry_outcome [OF refl refl, where k = 2 and p = DefaultRetryPolicy and op = "''add''" and out = "()" and
      outs = "\<lambda>n. ((), if n < 2 then Some (EMsg ''busy'') else None)"]
  by (simp add: normalized_def DefaultRetryPolicy_def numeral_2_eq_2 numeral_3_eq_3)

end
