(* ===== verification/Mem_Unified.thy ===== *)
theory Mem_Unified
  imports Mem_Store LLM_Usage
begin

text \<open>
  Unified memory of \<^verbatim>\<open>pkg/memory\<close>: \<^verbatim>\<open>unified.go\<close> (remember, recall, forget, background writes) and the
  scopes and slices of \<^verbatim>\<open>scope.go\<close>, over any store of \<open>Mem_Store\<close>.

  The language model is an optional client that answers a prompt and may embed text. Clock
  readings are arguments; \<open>um_format\<close> and \<open>um_parse\<close> are the RFC 3339 printing and parsing of times
  and \<open>um_srt\<close> is the sort of \<^verbatim>\<open>sort.Slice\<close>, whose order of ties is open. The write channel is the
  list of pending requests; its capacity only delays the sender and is not modelled. Sending on
  or closing a closed channel panics: the outcome \<open>None\<close>.
\<close>

section \<open>Configuration and data\<close>

record UnifiedMemoryConfig =
  RecencyWeight :: real
  SemanticWeight :: real
  ImportanceWeight :: real
  RecencyHalfLifeDays :: int
  ConsolidationThreshold :: real
  BatchDedupThreshold :: real
  QueryAnalysisThreshold :: int

datatype RecallDepth = DepthUnset | RecallShallow | RecallDeep | DepthOther string

record ScoredMemory =
  sm_ID :: string
  sm_Content :: string
  sm_Metadata :: "gmap option"
  sm_Score :: real
  sm_Similarity :: real
  sm_Recency :: real
  sm_Importance :: real

record mem_llm =
  ml_Generate :: "string \<Rightarrow> string result"
  ml_Embed :: "(string \<Rightarrow> real list result) option"

record write_request =
  wr_content :: string
  wr_meta :: gmap

record 's UnifiedMemory =
  um_store :: "'s Store"
  um_llm :: "mem_llm option"
  um_config :: UnifiedMemoryConfig
  um_format :: "int \<Rightarrow> string"
  um_parse :: "string \<Rightarrow> int option"
  um_srt :: "ScoredMemory list \<Rightarrow> ScoredMemory list"

text \<open>The store's state with the write channel.\<close>

record 's um_state =
  us_store :: 's
  writeCh :: "write_request list"
  ch_closed :: bool

definition default_um_config :: UnifiedMemoryConfig where
  "default_um_config = \<lparr>RecencyWeight = 3/10, SemanticWeight = 5/10, ImportanceWeight = 2/10, RecencyHalfLifeDays = 7,
     ConsolidationThreshold = 85/100, BatchDedupThreshold = 98/100, QueryAnalysisThreshold = 200\<rparr>"

definition um_config_of :: "UnifiedMemoryConfig option \<Rightarrow> UnifiedMemoryConfig" where
  "um_config_of cfg =
     (case cfg of
        None \<Rightarrow> default_um_config
      | Some c \<Rightarrow>
          (let d = default_um_config in
           \<lparr>RecencyWeight = (if RecencyWeight c > 0 then RecencyWeight c else RecencyWeight d),
            SemanticWeight = (if SemanticWeight c > 0 then SemanticWeight c else SemanticWeight d),
            ImportanceWeight = (if ImportanceWeight c > 0 then ImportanceWeight c else ImportanceWeight d),
            RecencyHalfLifeDays = (if RecencyHalfLifeDays c > 0 then RecencyHalfLifeDays c else RecencyHalfLifeDays d),
            ConsolidationThreshold = (if ConsolidationThreshold c > 0 then ConsolidationThreshold c else ConsolidationThreshold d),
            BatchDedupThreshold = (if BatchDedupThreshold c > 0 then BatchDedupThreshold c else BatchDedupThreshold d),
            QueryAnalysisThreshold = (if QueryAnalysisThreshold c > 0 then QueryAnalysisThreshold c else QueryAnalysisThreshold d)\<rparr>))"

definition NewUnifiedMemory ::
  "(int \<Rightarrow> string) \<Rightarrow> (string \<Rightarrow> int option) \<Rightarrow> (ScoredMemory list \<Rightarrow> ScoredMemory list) \<Rightarrow>
    's Store \<Rightarrow> mem_llm option \<Rightarrow> UnifiedMemoryConfig option \<Rightarrow> 's \<Rightarrow> 's UnifiedMemory \<times> 's um_state" where
  "NewUnifiedMemory fm pr srt st l cfg s =
     (\<lparr>um_store = st, um_llm = l, um_config = um_config_of cfg, um_format = fm, um_parse = pr, um_srt = srt\<rparr>,
      \<lparr>us_store = s, writeCh = [], ch_closed = False\<rparr>)"

section \<open>Remember\<close>

record RememberOptions =
  ro_Scope :: string
  ro_Source :: string
  ro_Private :: bool
  ro_Categories :: "string list"
  ro_Importance :: real

definition zero_ro :: RememberOptions where
  "zero_ro = \<lparr>ro_Scope = [], ro_Source = [], ro_Private = False, ro_Categories = [], ro_Importance = 0\<rparr>"

text \<open>
  \<^verbatim>\<open>fmt.Sscanf(s, "%f", &x)\<close> reports no error when a decimal number with at least one digit, and digits
  after an exponent mark, is scanned; its value is \<open>scan_float\<close>.
\<close>

definition exp_ok :: "string \<Rightarrow> bool" where
  "exp_ok s \<longleftrightarrow> (case s of
     c # r \<Rightarrow> (c = CHR ''e'' \<or> c = CHR ''E'') \<longrightarrow>
        (case r of d # r' \<Rightarrow> (if d = CHR ''-'' \<or> d = CHR ''+'' then takeWhile is_digit r' \<noteq> [] else is_digit d) | [] \<Rightarrow> False)
   | [] \<Rightarrow> True)"

definition unsigned_ok :: "string \<Rightarrow> bool" where
  "unsigned_ok s =
     (let ip = takeWhile is_digit s; r = dropWhile is_digit s in
      case r of
        c # r' \<Rightarrow>
          if c = CHR ''.'' then (ip \<noteq> [] \<or> takeWhile is_digit r' \<noteq> []) \<and> exp_ok (dropWhile is_digit r')
          else ip \<noteq> [] \<and> exp_ok r
      | [] \<Rightarrow> ip \<noteq> [])"

definition scan_float_ok :: "string \<Rightarrow> bool" where
  "scan_float_ok s0 =
     (case dropWhile is_space s0 of
        c # r \<Rightarrow> if c = CHR ''-'' \<or> c = CHR ''+'' then unsigned_ok r else unsigned_ok (c # r)
      | [] \<Rightarrow> False)"

definition importance_prompt :: "string \<Rightarrow> string" where
  "importance_prompt content =
     ''Rate the importance of this information on a scale of 0.0 to 1.0 (where 1.0 is critical). Return ONLY the number.'' @
     [CHR 0x0A, CHR 0x0A] @ content"

definition inferImportance :: "mem_llm option \<Rightarrow> string \<Rightarrow> real" where
  "inferImportance l content =
     (case l of
        None \<Rightarrow> 1/2
      | Some c \<Rightarrow>
          (case ml_Generate c (importance_prompt content) of
             Inl _ \<Rightarrow> 1/2
           | Inr response \<Rightarrow>
               (let x = trim_space response in
                if scan_float_ok x \<and> 0 \<le> scan_float x \<and> scan_float x \<le> 1 then scan_float x else 1/2)))"

definition remember_meta :: "'s UnifiedMemory \<Rightarrow> int \<Rightarrow> string \<Rightarrow> RememberOptions option \<Rightarrow> gmap" where
  "remember_meta um t1 content opts =
     (let m0 = [''created_at'' \<mapsto> VString (um_format um t1)] in
      case opts of
        None \<Rightarrow> m0(''importance'' \<mapsto> VFloat (1/2))
      | Some o0 \<Rightarrow>
          (let m1 = (if ro_Scope o0 \<noteq> [] then m0(''scope'' \<mapsto> VString (ro_Scope o0)) else m0);
               m2 = (if ro_Source o0 \<noteq> [] then m1(''source'' \<mapsto> VString (ro_Source o0)) else m1);
               m3 = (if ro_Private o0 then m2(''private'' \<mapsto> VBool True) else m2);
               m4 = (if length (ro_Categories o0) > 0 then m3(''categories'' \<mapsto> VString (str_join (ro_Categories o0) '','')) else m3);
               importance = (if ro_Importance o0 \<le> 0 \<and> um_llm um \<noteq> None then inferImportance (um_llm um) content else ro_Importance o0)
           in m4(''importance'' \<mapsto> VFloat importance)))"

definition mem_item :: "int \<Rightarrow> string \<Rightarrow> gmap \<Rightarrow> MemoryItem" where
  "mem_item t content meta =
     \<lparr>mi_ID = show_int t, mi_Text = content, mi_Vector = [], mi_Metadata = Some meta, mi_CreatedAt = 0, mi_ExpiresAt = 0\<rparr>"

definition Remember ::
  "'s UnifiedMemory \<Rightarrow> int \<Rightarrow> int \<Rightarrow> string \<Rightarrow> RememberOptions option \<Rightarrow> 's \<Rightarrow> 's \<times> goerr option" where
  "Remember um t1 t2 content opts s = st_Add (um_store um) (mem_item t2 content (remember_meta um t1 content opts)) s"

text \<open>\<open>ts i\<close> is the clock at the \<open>i\<close>-th entry. Duplicates up to case and surrounding space are skipped.\<close>

fun many_requests :: "'s UnifiedMemory \<Rightarrow> (nat \<Rightarrow> int) \<Rightarrow> nat \<Rightarrow> string set \<Rightarrow> string list \<Rightarrow> write_request list" where
  "many_requests um ts i seen [] = []"
| "many_requests um ts i seen (c # cs) =
     (let key = trim_space (to_lower c) in
      if key \<in> seen then many_requests um ts (Suc i) seen cs
      else \<lparr>wr_content = c, wr_meta = [''created_at'' \<mapsto> VString (um_format um (ts i)), ''importance'' \<mapsto> VFloat (1/2)]\<rparr> #
           many_requests um ts (Suc i) (insert key seen) cs)"

definition RememberMany :: "'s UnifiedMemory \<Rightarrow> (nat \<Rightarrow> int) \<Rightarrow> string list \<Rightarrow> 's um_state \<Rightarrow> 's um_state option" where
  "RememberMany um ts contents u =
     (if ch_closed u \<and> contents \<noteq> [] then None
      else Some (u\<lparr>writeCh := writeCh u @ many_requests um ts 0 {} contents\<rparr>))"

text \<open>One turn of the background writer; a failed save is only logged.\<close>

definition background_write :: "'s UnifiedMemory \<Rightarrow> int \<Rightarrow> 's um_state \<Rightarrow> 's um_state" where
  "background_write um now u =
     (case writeCh u of
        [] \<Rightarrow> u
      | r # rs \<Rightarrow> u\<lparr>writeCh := rs, us_store := fst (st_Add (um_store um) (mem_item now (wr_content r) (wr_meta r)) (us_store u))\<rparr>)"

fun drain :: "'s UnifiedMemory \<Rightarrow> (nat \<Rightarrow> int) \<Rightarrow> nat \<Rightarrow> nat \<Rightarrow> 's um_state \<Rightarrow> 's um_state" where
  "drain um ts i 0 u = u"
| "drain um ts i (Suc n) u = drain um ts (Suc i) n (background_write um (ts i) u)"

definition DrainWrites :: "'s UnifiedMemory \<Rightarrow> (nat \<Rightarrow> int) \<Rightarrow> 's um_state \<Rightarrow> 's um_state option" where
  "DrainWrites um ts u =
     (if ch_closed u then None else Some (drain um ts 0 (length (writeCh u)) (u\<lparr>ch_closed := True\<rparr>)))"

section \<open>Recall\<close>

record RecallOptions =
  rc_Limit :: int
  rc_Depth :: RecallDepth
  rc_Scope :: string
  rc_Source :: string
  rc_IncludePrivate :: bool

definition zero_rc :: RecallOptions where
  "zero_rc = \<lparr>rc_Limit = 0, rc_Depth = DepthUnset, rc_Scope = [], rc_Source = [], rc_IncludePrivate = False\<rparr>"

definition meta_of :: "MemoryItem \<Rightarrow> gmap" where
  "meta_of r = (case mi_Metadata r of None \<Rightarrow> Map.empty | Some m \<Rightarrow> m)"

definition recall_keeps :: "RecallOptions \<Rightarrow> MemoryItem \<Rightarrow> bool" where
  "recall_keeps o0 r \<longleftrightarrow>
     (rc_Scope o0 = [] \<or> (case get_string (meta_of r) ''scope'' of Some sc \<Rightarrow> inScope sc (rc_Scope o0) | None \<Rightarrow> False)) \<and>
     (rc_Source o0 = [] \<or> (case get_string (meta_of r) ''source'' of Some so \<Rightarrow> so = rc_Source o0 | None \<Rightarrow> True)) \<and>
     (rc_IncludePrivate o0 \<or> get_bool (meta_of r) ''private'' \<noteq> Some True)"

text \<open>Copying metadata: maps and slices are rebuilt, everything else is shared.\<close>

fun copyMetaValue :: "gvalue \<Rightarrow> gvalue" where
  "copyMetaValue (VMap kvs) = VMap (map (\<lambda>(k, v). (k, copyMetaValue v)) kvs)"
| "copyMetaValue (VList vs) = VList (map copyMetaValue vs)"
| "copyMetaValue (VStrings ss) = VStrings (map id ss)"
| "copyMetaValue v = v"

definition copyMetadata :: "gmap option \<Rightarrow> gmap option" where
  "copyMetadata m = map_option (\<lambda>m. map_option copyMetaValue \<circ> m) m"

definition recency_of :: "'s UnifiedMemory \<Rightarrow> int \<Rightarrow> MemoryItem \<Rightarrow> real" where
  "recency_of um now r =
     (case get_string (meta_of r) ''created_at'' of
        None \<Rightarrow> 1
      | Some cs \<Rightarrow>
          (case um_parse um cs of
             None \<Rightarrow> 1
           | Some created \<Rightarrow>
               if RecencyHalfLifeDays (um_config um) > 0
               then (1/2) powr ((real_of_int (now - created) / (3600 * 10 ^ 9) / 24) / real_of_int (RecencyHalfLifeDays (um_config um)))
               else 1))"

definition score_memory :: "'s UnifiedMemory \<Rightarrow> int \<Rightarrow> MemoryItem \<Rightarrow> ScoredMemory" where
  "score_memory um now r =
     (let similarity = 1/2; recency = recency_of um now r;
          importance = (case get_float (meta_of r) ''importance'' of Some x \<Rightarrow> x | None \<Rightarrow> 1/2)
      in \<lparr>sm_ID = mi_ID r, sm_Content = mi_Text r, sm_Metadata = copyMetadata (mi_Metadata r),
          sm_Score = SemanticWeight (um_config um) * similarity + RecencyWeight (um_config um) * recency +
            ImportanceWeight (um_config um) * importance,
          sm_Similarity = similarity, sm_Recency = recency, sm_Importance = importance\<rparr>)"

definition fmt_fixed3 :: "real \<Rightarrow> string" where
  "fmt_fixed3 x =
     (let n = nat (round (\<bar>x\<bar> * 1000)); d = show_nat (n mod 1000) in
      (if x < 0 then ''-'' else []) @ show_nat (n div 1000) @ ''.'' @ replicate (3 - length d) (CHR ''0'') @ d)"

definition rank_prompt :: "string \<Rightarrow> ScoredMemory list \<Rightarrow> string" where
  "rank_prompt query cs =
     ''Given the following query and memory candidates, rank them by relevance.'' @ [CHR 0x0A] @
     ''Query: '' @ query @ [CHR 0x0A, CHR 0x0A] @ ''Candidates:'' @ [CHR 0x0A] @
     concat (map (\<lambda>(i, c). show_nat (i + 1) @ ''. '' @ sm_Content c @ '' (score: '' @ fmt_fixed3 (sm_Score c) @ '')'' @ [CHR 0x0A])
       (enumerate 0 cs)) @ [CHR 0x0A] @
     ''Return the candidate numbers in order of relevance, most relevant first. Just the numbers, comma-separated.''"

definition deepRecall :: "mem_llm \<Rightarrow> string \<Rightarrow> ScoredMemory list \<Rightarrow> ScoredMemory list" where
  "deepRecall l query candidates =
     (if length candidates = 0 then candidates
      else (case ml_Generate l (rank_prompt query candidates) of Inl _ \<Rightarrow> candidates | Inr _ \<Rightarrow> candidates))"

definition Recall ::
  "'s UnifiedMemory \<Rightarrow> int \<Rightarrow> string \<Rightarrow> RecallOptions option \<Rightarrow> 's \<Rightarrow> 's \<times> ScoredMemory list result" where
  "Recall um now query opts s =
     (let o0 = (case opts of None \<Rightarrow> zero_rc | Some o1 \<Rightarrow> o1);
          limit = (if rc_Limit o0 > 0 then rc_Limit o0 else 10);
          depth = (if rc_Depth o0 \<noteq> DepthUnset then rc_Depth o0 else RecallDeep);
          (s1, found) =
            (case um_llm um of
               None \<Rightarrow> (s, Inr [])
             | Some l \<Rightarrow>
                 (case ml_Embed l of
                    None \<Rightarrow> (s, Inr [])
                  | Some em \<Rightarrow>
                      (case em query of
                         Inl _ \<Rightarrow> (s, Inr [])
                       | Inr vec \<Rightarrow> if length vec > 0 then st_Search (um_store um) vec (limit * 3) s else (s, Inr []))))
      in case found of
           Inl e \<Rightarrow> (s1, Inl (EWrap ''recall search failed: '' e []))
         | Inr results \<Rightarrow>
             (let scored = take (nat limit) (um_srt um (map (score_memory um now) (filter (recall_keeps o0) results)))
              in (s1, Inr (case um_llm um of
                             Some l \<Rightarrow> if depth = RecallDeep \<and> int (length query) \<ge> QueryAnalysisThreshold (um_config um)
                                       then deepRecall l query scored else scored
                           | None \<Rightarrow> scored))))"

section \<open>Forget\<close>

fun forget_loop :: "'s UnifiedMemory \<Rightarrow> string \<Rightarrow> MemoryItem list \<Rightarrow> 's \<Rightarrow> nat \<Rightarrow> goerr list \<Rightarrow> 's \<times> nat \<times> goerr list" where
  "forget_loop um scope [] s n errs = (s, n, errs)"
| "forget_loop um scope (r # rs) s n errs =
     (case get_string (meta_of r) ''scope'' of
        None \<Rightarrow> forget_loop um scope rs s n errs
      | Some sc \<Rightarrow>
          if inScope sc scope then
            (case st_Delete (um_store um) (mi_ID r) s of
               (s1, Some e) \<Rightarrow> forget_loop um scope rs s1 n (errs @ [e])
             | (s1, None) \<Rightarrow> forget_loop um scope rs s1 (n + 1) errs)
          else forget_loop um scope rs s n errs)"

text \<open>\<^verbatim>\<open>errors.Join\<close> is kept as its text.\<close>

definition Forget :: "'s UnifiedMemory \<Rightarrow> string \<Rightarrow> 's \<Rightarrow> 's \<times> goerr option" where
  "Forget um scope s =
     (case st_DeleteScope (um_store um) of
        Some ds \<Rightarrow>
          (case ds scope s of
             (s1, Inl e) \<Rightarrow> (s1, Some (EWrap ''forget scope delete failed: '' e []))
           | (s1, Inr n) \<Rightarrow> (s1, None))
      | None \<Rightarrow>
          (case st_Search (um_store um) [] 1000 s of
             (s1, Inl e) \<Rightarrow> (s1, Some (EWrap ''forget search failed: '' e []))
           | (s1, Inr results) \<Rightarrow>
               (case forget_loop um scope results s1 0 [] of
                  (s2, n, errs) \<Rightarrow>
                    (s2, if length errs > 0
                         then Some (EMsg (''forget deleted '' @ show_nat n @ '' records with '' @ show_nat (length errs) @ '' errors: '' @
                                str_join (map err_text errs) [CHR 0x0A]))
                         else None))))"

section \<open>Scopes and slices\<close>

definition rooted_path :: "string \<Rightarrow> string" where
  "rooted_path p = (if \<not> has_prefix p ''/'' then ''/'' @ p else p)"

definition scope_Remember ::
  "'s UnifiedMemory \<Rightarrow> string \<Rightarrow> int \<Rightarrow> int \<Rightarrow> string \<Rightarrow> RememberOptions option \<Rightarrow> 's \<Rightarrow> 's \<times> goerr option" where
  "scope_Remember um path t1 t2 content opts s =
     Remember um t1 t2 content (Some ((case opts of None \<Rightarrow> zero_ro | Some o0 \<Rightarrow> o0)\<lparr>ro_Scope := path\<rparr>)) s"

definition scope_Recall ::
  "'s UnifiedMemory \<Rightarrow> string \<Rightarrow> int \<Rightarrow> string \<Rightarrow> RecallOptions option \<Rightarrow> 's \<Rightarrow> 's \<times> ScoredMemory list result" where
  "scope_Recall um path now query opts s =
     Recall um now query (Some ((case opts of None \<Rightarrow> zero_rc | Some o0 \<Rightarrow> o0)\<lparr>rc_Scope := path\<rparr>)) s"

definition scope_Forget :: "'s UnifiedMemory \<Rightarrow> string \<Rightarrow> 's \<Rightarrow> 's \<times> goerr option" where
  "scope_Forget um path s = Forget um path s"

record MemorySlice =
  sl_scopes :: "string list"
  sl_readOnly :: bool

definition Slice :: "string list \<Rightarrow> bool \<Rightarrow> MemorySlice" where
  "Slice scopes ro = \<lparr>sl_scopes = map rooted_path scopes, sl_readOnly = ro\<rparr>"

definition ErrReadOnlySlice :: goerr where
  "ErrReadOnlySlice = ESentinel ''cannot write to a read-only memory slice''"

definition slice_Remember ::
  "'s UnifiedMemory \<Rightarrow> MemorySlice \<Rightarrow> int \<Rightarrow> int \<Rightarrow> string \<Rightarrow> RememberOptions option \<Rightarrow> 's \<Rightarrow> 's \<times> goerr option" where
  "slice_Remember um sl t1 t2 content opts s =
     (if sl_readOnly sl then (s, Some ErrReadOnlySlice)
      else if length (sl_scopes sl) = 0 then Remember um t1 t2 content opts s
      else Remember um t1 t2 content (Some ((case opts of None \<Rightarrow> zero_ro | Some o0 \<Rightarrow> o0)\<lparr>ro_Scope := sl_scopes sl ! 0\<rparr>)) s)"

text \<open>
  The insertion sort of \<^verbatim>\<open>sortScoredMemories\<close>: element \<open>i\<close> moves down past strictly smaller scores. The
  sorted part is held in reverse, so that its last element is at hand.
\<close>

fun sift_down :: "ScoredMemory \<Rightarrow> ScoredMemory list \<Rightarrow> ScoredMemory list" where
  "sift_down x [] = [x]"
| "sift_down x (p # ps) = (if sm_Score x > sm_Score p then p # sift_down x ps else x # p # ps)"

definition sortScoredMemories :: "ScoredMemory list \<Rightarrow> ScoredMemory list" where
  "sortScoredMemories ms = rev (foldl (\<lambda>acc x. sift_down x acc) [] ms)"

fun slice_collect ::
  "'s UnifiedMemory \<Rightarrow> (nat \<Rightarrow> int) \<Rightarrow> nat \<Rightarrow> string list \<Rightarrow> string \<Rightarrow> RecallOptions option \<Rightarrow> 's \<Rightarrow> 's \<times> ScoredMemory list" where
  "slice_collect um ts i [] query opts s = (s, [])"
| "slice_collect um ts i (sc # scs) query opts s =
     (let so = (case opts of None \<Rightarrow> zero_rc\<lparr>rc_Scope := sc\<rparr> | Some o0 \<Rightarrow> o0\<lparr>rc_Scope := sc\<rparr>) in
      case Recall um (ts i) query (Some so) s of
        (s1, Inl e) \<Rightarrow> slice_collect um ts (Suc i) scs query opts s1
      | (s1, Inr rs) \<Rightarrow> (let (s2, rest) = slice_collect um ts (Suc i) scs query opts s1 in (s2, rs @ rest)))"

definition slice_Recall ::
  "'s UnifiedMemory \<Rightarrow> MemorySlice \<Rightarrow> (nat \<Rightarrow> int) \<Rightarrow> string \<Rightarrow> RecallOptions option \<Rightarrow> 's \<Rightarrow> 's \<times> ScoredMemory list" where
  "slice_Recall um sl ts query opts s =
     (let (s1, all) = slice_collect um ts 0 (sl_scopes sl) query opts s;
          limit = (case opts of Some o0 \<Rightarrow> if rc_Limit o0 > 0 then rc_Limit o0 else 10 | None \<Rightarrow> 10)
      in (s1, take (nat limit) (sortScoredMemories all)))"

section \<open>Extraction\<close>

definition trim_left :: "string \<Rightarrow> string \<Rightarrow> string" where
  "trim_left cutset s = dropWhile (\<lambda>c. c \<in> set cutset) s"

definition extract_prompt :: "string \<Rightarrow> string" where
  "extract_prompt content =
     ''Break the following text into discrete, atomic facts. Return each fact on a separate line.'' @
     [CHR 0x0A, CHR 0x0A] @ ''Text:'' @ [CHR 0x0A] @ content"

definition ExtractMemories :: "'s UnifiedMemory \<Rightarrow> string \<Rightarrow> string list result" where
  "ExtractMemories um content =
     (case um_llm um of
        None \<Rightarrow> Inr (filter (\<lambda>x. length x > 10) (map trim_space (split_byte CHR ''.'' content)))
      | Some l \<Rightarrow>
          (case ml_Generate l (extract_prompt content) of
             Inl e \<Rightarrow> Inl (EWrap ''extract memories failed: '' e [])
           | Inr response \<Rightarrow>
               Inr (filter (\<lambda>x. length x > 5)
                 (map (trim_left ''0123456789.- '')
                   (filter (\<lambda>x. length x > 5) (map trim_space (split_byte CHR 0x0A response)))))))"

section \<open>Lemmas\<close>

lemma copyMetaValue_id [simp]: "copyMetaValue v = v"
proof (induction v rule: copyMetaValue.induct)
  case (1 kvs)
  then show ?case by (auto intro!: map_idI)
next
  case (2 vs)
  then show ?case by (auto intro!: map_idI)
qed auto

lemma deepRecall_same [simp]: "deepRecall l q cs = cs"
  by (simp add: deepRecall_def split: sum.split)

lemma deep_inert: "(case x of Some l \<Rightarrow> if b then deepRecall l q c else c | None \<Rightarrow> c) = c"
  by (simp split: option.split)

lemma mset_sift [simp]: "mset (sift_down x ps) = add_mset x (mset ps)"
  by (induction ps) auto

lemma filter_sift:
  "filter (\<lambda>y. sm_Score y = k) (rev (sift_down x ps)) =
     filter (\<lambda>y. sm_Score y = k) (rev ps) @ (if sm_Score x = k then [x] else [])"
  by (induction ps) auto

lemma set_sift [simp]: "set (sift_down x ps) = insert x (set ps)"
  by (induction ps) auto

lemma sorted_sift: "sorted (map sm_Score ps) \<Longrightarrow> sorted (map sm_Score (sift_down x ps))"
  by (induction ps) (auto simp: less_imp_le)

lemma sift_fold:
  "mset (foldl (\<lambda>acc x. sift_down x acc) acc ms) = mset acc + mset ms"
  "filter (\<lambda>y. sm_Score y = k) (rev (foldl (\<lambda>acc x. sift_down x acc) acc ms)) =
     filter (\<lambda>y. sm_Score y = k) (rev acc) @ filter (\<lambda>y. sm_Score y = k) ms"
  "sorted (map sm_Score acc) \<Longrightarrow> sorted (map sm_Score (foldl (\<lambda>acc x. sift_down x acc) acc ms))"
  by (induction ms arbitrary: acc) (auto simp: filter_sift sorted_sift)

lemma recall_keepsD:
  "recall_keeps o0 r \<Longrightarrow>
     (rc_Scope o0 \<noteq> [] \<longrightarrow> (\<exists>sc. get_string (meta_of r) ''scope'' = Some sc \<and> inScope sc (rc_Scope o0))) \<and>
     (\<not> rc_IncludePrivate o0 \<longrightarrow> get_bool (meta_of r) ''private'' \<noteq> Some True) \<and>
     (rc_Source o0 \<noteq> [] \<longrightarrow> get_string (meta_of r) ''source'' \<in> {None, Some (rc_Source o0)})"
  by (auto simp: recall_keeps_def split: option.splits)

lemma recall_found:
  assumes "Recall um now query opts s = (s1, Inr rs)" "sorts_desc sm_Score (um_srt um)"
    "o0 = (case opts of None \<Rightarrow> zero_rc | Some o1 \<Rightarrow> o1)" "limit = (if rc_Limit o0 > 0 then rc_Limit o0 else 10)"
  shows "\<exists>items. rs = take (nat limit) (um_srt um (map (score_memory um now) (filter (recall_keeps o0) items))) \<and>
    (items = [] \<or> (\<exists>l em vec. um_llm um = Some l \<and> ml_Embed l = Some em \<and> em query = Inr vec \<and> vec \<noteq> [] \<and>
       st_Search (um_store um) vec (limit * 3) s = (s1, Inr items)))"
  using assms
  by (auto simp: Recall_def Let_def split: option.splits sum.splits prod.splits if_splits)

lemma srt_Nil: "sorts_desc key srt \<Longrightarrow> srt [] = []"
  using srt_perm [of key srt "[]"] by simp

text \<open>Nothing recalled when nothing is found.\<close>

lemma recall_none:
  assumes "sorts_desc sm_Score (um_srt um)"
    "\<And>vec n. vec \<noteq> [] \<Longrightarrow> \<exists>items. st_Search (um_store um) vec n s = (s, Inr items) \<and>
       filter (recall_keeps (case opts of None \<Rightarrow> zero_rc | Some o1 \<Rightarrow> o1)) items = []"
  shows "Recall um now query opts s = (s, Inr [])"
proof -
  have fnd: "\<exists>items. (case um_llm um of None \<Rightarrow> (s, Inr []) | Some l \<Rightarrow>
      (case ml_Embed l of None \<Rightarrow> (s, Inr []) | Some em \<Rightarrow>
        (case em query of Inl _ \<Rightarrow> (s, Inr []) | Inr vec \<Rightarrow>
          if length vec > 0 then st_Search (um_store um) vec n s else (s, Inr [])))) = (s, Inr items) \<and>
      filter (recall_keeps (case opts of None \<Rightarrow> zero_rc | Some o1 \<Rightarrow> o1)) items = []" for n
    using assms(2) [of _ n] by (auto split: option.split sum.split)
  show ?thesis
    unfolding Recall_def Let_def
    using fnd [of "(if 0 < rc_Limit (case opts of None \<Rightarrow> zero_rc | Some o1 \<Rightarrow> o1)
        then rc_Limit (case opts of None \<Rightarrow> zero_rc | Some o1 \<Rightarrow> o1) else 10) * 3"]
    by (elim exE conjE) (simp add: srt_Nil [OF assms(1)] split: option.split)
qed

abbreviation with_cosine :: "(scored list \<Rightarrow> scored list) \<Rightarrow> cstore UnifiedMemory \<Rightarrow> bool" where
  "with_cosine srt um \<equiv> um_store um = NewInMemCosineStore srt"

lemma cosine_search_set:
  assumes "sorts_desc snd srt"
  shows "\<exists>items. st_Search (NewInMemCosineStore srt) v n s = (s, Inr items) \<and>
    set items \<subseteq> {t \<in> set s. length (mi_Vector t) = length v}"
proof -
  from cos_Search_law [OF assms, of v n s] obtain items where
    i: "cos_Search srt v n s = (s, Inr items)" "mset items \<subseteq># mset (comparable v s)" by blast
  from i(2) have "set items \<subseteq> set (comparable v s)" by (metis set_mset_mono set_mset_mset)
  then show ?thesis using i(1) by (auto simp: NewInMemCosineStore_def comparable_def)
qed

text \<open>Successive calls of \<^verbatim>\<open>Remember\<close>.\<close>

definition remember_all ::
  "'s UnifiedMemory \<Rightarrow> (int \<times> int \<times> string \<times> RememberOptions option) list \<Rightarrow> 's \<Rightarrow> 's" where
  "remember_all um evs s = fold (\<lambda>(t1, t2, c, o0) s. fst (Remember um t1 t2 c o0 s)) evs s"

lemma remember_all_cosine:
  "with_cosine srt um \<Longrightarrow> remember_all um evs s =
     s @ map (\<lambda>(t1, t2, c, o0). mem_item t2 c (remember_meta um t1 c o0)) evs"
  by (induction evs arbitrary: s) (auto simp: remember_all_def Remember_def NewInMemCosineStore_def cos_Add_def)

lemma many_requests_keys:
  "distinct (map (trim_space \<circ> to_lower \<circ> wr_content) (many_requests um ts i seen cs)) \<and>
   (trim_space \<circ> to_lower \<circ> wr_content) ` set (many_requests um ts i seen cs) = (trim_space \<circ> to_lower) ` set cs - seen \<and>
   subseq (map wr_content (many_requests um ts i seen cs)) cs"
proof (induction cs arbitrary: i seen)
  case (Cons c cs)
  show ?case
  proof (cases "trim_space (to_lower c) \<in> seen")
    case True
    then show ?thesis using Cons.IH [of "Suc i" seen] by auto
  next
    case False
    then show ?thesis using Cons.IH [of "Suc i" "insert (trim_space (to_lower c)) seen"] by (auto simp: Let_def)
  qed
qed simp

lemma drain_cosine:
  assumes "with_cosine srt um"
  shows "writeCh u = rs \<Longrightarrow> \<exists>new. us_store (drain um ts i (length rs) u) = us_store u @ new \<and>
    map mi_Text new = map wr_content rs \<and> writeCh (drain um ts i (length rs) u) = []"
proof (induction rs arbitrary: u i)
  case (Cons r rs)
  let ?u = "background_write um (ts i) u" and ?it = "mem_item (ts i) (wr_content r) (wr_meta r)"
  have u: "writeCh ?u = rs" "us_store ?u = us_store u @ [?it]"
    using Cons.prems assms by (simp_all add: background_write_def NewInMemCosineStore_def cos_Add_def)
  from Cons.IH [OF u(1), of "Suc i"] obtain new where
    "us_store (drain um ts (Suc i) (length rs) ?u) = us_store ?u @ new" "map mi_Text new = map wr_content rs"
    "writeCh (drain um ts (Suc i) (length rs) ?u) = []" by blast
  then show ?case using u(2) by (intro exI [of _ "?it # new"]) (simp add: mem_item_def)
qed simp

lemma cos_remove_other: "it \<in> set s \<Longrightarrow> mi_ID it \<noteq> i \<Longrightarrow> it \<in> set (cos_remove i s)"
  by (induction s) auto

lemma forget_loop_keeps:
  assumes "st_Delete (um_store um) = cos_Delete" "it \<in> set s" "mi_ID it \<notin> mi_ID ` set rs"
  shows "\<exists>s' n'. forget_loop um scope rs s n [] = (s', n', []) \<and> it \<in> set s'"
  using assms(2,3)
proof (induction rs arbitrary: s n)
  case (Cons r rs)
  then show ?case
    using assms(1) cos_remove_other [of it s "mi_ID r"]
    by (auto simp: cos_Delete_def split: option.split)
qed simp

lemma retry_first_success:
  assumes "fn s = (s1, r, None)" "1 \<le> Attempts p"
  shows "rs_do never never p op fn out s = (s1, r, None, [])"
  using assms by (simp add: rs_do_def rs_try.simps [of _ _ _ _ _ "Suc 0"])

section \<open>Properties\<close>

text \<open>
  Recall respects its options. At most \<open>limit\<close> memories come back (10 if unset), by descending
  composite score; each is a store hit that lies in the scope asked for, is not marked private
  unless private ones are asked for, and whose source, where it has one, is the one asked for.
\<close>

theorem recall_respects_options:
  assumes "Recall um now query (Some o0) s = (s1, Inr rs)" "sorts_desc sm_Score (um_srt um)"
  shows "int (length rs) \<le> (if rc_Limit o0 > 0 then rc_Limit o0 else 10) \<and>
    sorted_wrt (\<lambda>a b. sm_Score a \<ge> sm_Score b) rs \<and>
    (\<forall>m \<in> set rs. \<exists>it vec items. st_Search (um_store um) vec (3 * (if rc_Limit o0 > 0 then rc_Limit o0 else 10)) s = (s1, Inr items) \<and>
       it \<in> set items \<and> m = score_memory um now it \<and>
       (rc_Scope o0 \<noteq> [] \<longrightarrow> (\<exists>sc. get_string (meta_of it) ''scope'' = Some sc \<and> inScope sc (rc_Scope o0))) \<and>
       (\<not> rc_IncludePrivate o0 \<longrightarrow> get_bool (meta_of it) ''private'' \<noteq> Some True) \<and>
       (rc_Source o0 \<noteq> [] \<longrightarrow> get_string (meta_of it) ''source'' \<in> {None, Some (rc_Source o0)}))"
proof -
  let ?lim = "if rc_Limit o0 > 0 then rc_Limit o0 else 10"
  obtain items where rs: "rs = take (nat ?lim) (um_srt um (map (score_memory um now) (filter (recall_keeps o0) items)))"
    and it: "items = [] \<or> (\<exists>vec. st_Search (um_store um) vec (3 * ?lim) s = (s1, Inr items))"
    using recall_found [OF assms, of o0 ?lim] unfolding option.case mult.commute [of ?lim 3] by blast
  have "length rs \<le> nat ?lim" unfolding rs by simp
  then have "int (length rs) \<le> ?lim" by (simp split: if_splits)
  moreover have "sorted_wrt (\<lambda>a b. sm_Score a \<ge> sm_Score b) rs"
    unfolding rs by (rule sorted_wrt_take [OF srt_sorted [OF assms(2)]])
  moreover have "\<exists>it vec items. st_Search (um_store um) vec (3 * ?lim) s = (s1, Inr items) \<and>
       it \<in> set items \<and> m = score_memory um now it \<and>
       (rc_Scope o0 \<noteq> [] \<longrightarrow> (\<exists>sc. get_string (meta_of it) ''scope'' = Some sc \<and> inScope sc (rc_Scope o0))) \<and>
       (\<not> rc_IncludePrivate o0 \<longrightarrow> get_bool (meta_of it) ''private'' \<noteq> Some True) \<and>
       (rc_Source o0 \<noteq> [] \<longrightarrow> get_string (meta_of it) ''source'' \<in> {None, Some (rc_Source o0)})" if "m \<in> set rs" for m
  proof -
    have "m \<in> set (map (score_memory um now) (filter (recall_keeps o0) items))"
      using that in_set_takeD [of m "nat ?lim"] srt_set [OF assms(2)] unfolding rs by blast
    then obtain r where r: "r \<in> set items" "recall_keeps o0 r" "m = score_memory um now r" by auto
    moreover from this obtain vec where "st_Search (um_store um) vec (3 * ?lim) s = (s1, Inr items)"
      using it by auto
    ultimately show ?thesis using recall_keepsD [OF r(2)] by blast
  qed
  ultimately show ?thesis by blast
qed

definition wit_um :: "cstore UnifiedMemory" where
  "wit_um = \<lparr>um_store = NewInMemCosineStore stable_desc,
     um_llm = Some \<lparr>ml_Generate = (\<lambda>_. Inr ''0.9''), ml_Embed = Some (\<lambda>_. Inr [1])\<rparr>, um_config = default_um_config,
     um_format = show_int, um_parse = (\<lambda>_. None), um_srt = sort_key (\<lambda>x. - sm_Score x)\<rparr>"

definition wit_mem :: "string \<Rightarrow> real list \<Rightarrow> MemoryItem" where
  "wit_mem i v = \<lparr>mi_ID = i, mi_Text = i, mi_Vector = v, mi_Metadata = Some [''scope'' \<mapsto> VString ''/a/b''], mi_CreatedAt = 0, mi_ExpiresAt = 0\<rparr>"

theorem recall_respects_options_witness:
  "\<exists>s1 rs. Recall wit_um 0 ''q'' (Some (zero_rc\<lparr>rc_Limit := 1\<rparr>)) [wit_mem ''x'' [2], wit_mem ''y'' [3]] = (s1, Inr rs) \<and>
     int (length rs) \<le> 1"
proof -
  obtain s1 rs where r: "Recall wit_um 0 ''q'' (Some (zero_rc\<lparr>rc_Limit := 1\<rparr>)) [wit_mem ''x'' [2], wit_mem ''y'' [3]] = (s1, Inr rs)"
    by (simp add: Recall_def wit_um_def NewInMemCosineStore_def cos_Search_eq Let_def)
  have "sorts_desc sm_Score (um_srt wit_um)" by (simp add: wit_um_def sorts_desc_sort_key)
  from recall_respects_options [OF r this] show ?thesis using r by simp
qed

text \<open>
  What \<^verbatim>\<open>Remember\<close> stores carries no vector, and the in-memory store compares only vectors of the
  query's length. So over that store nothing ever remembered is recalled, whatever is asked.
\<close>

theorem remembered_never_recalled:
  assumes "um_store um = NewInMemCosineStore srt" "sorts_desc snd srt" "sorts_desc sm_Score (um_srt um)"
  shows "Recall um now query opts (remember_all um evs []) = (remember_all um evs [], Inr [])"
proof (rule recall_none [OF assms(3)])
  fix vec :: "real list" and n assume v: "vec \<noteq> []"
  have e: "\<forall>t \<in> set (remember_all um evs []). mi_Vector t = []"
    using remember_all_cosine [OF assms(1), of evs "[]"] by (auto simp: mem_item_def)
  from cosine_search_set [OF assms(2), of vec n "remember_all um evs []"] obtain items where
    i: "st_Search (NewInMemCosineStore srt) vec n (remember_all um evs []) = (remember_all um evs [], Inr items)"
    "set items \<subseteq> {t \<in> set (remember_all um evs []). length (mi_Vector t) = length vec}" by blast
  have "items = []" using i(2) e v by (cases items) auto
  then show "\<exists>items. st_Search (um_store um) vec n (remember_all um evs []) = (remember_all um evs [], Inr items) \<and>
      filter (recall_keeps (case opts of None \<Rightarrow> zero_rc | Some o1 \<Rightarrow> o1)) items = []"
    using i(1) assms(1) by simp
qed

theorem remembered_never_recalled_witness:
  "Recall wit_um 5 ''fact'' None (remember_all wit_um [(1, 2, ''fact'', None)] []) =
     (remember_all wit_um [(1, 2, ''fact'', None)] [], Inr [])"
  by (rule remembered_never_recalled [of _ stable_desc]) (simp_all add: wit_um_def sorts_desc_sort_key)

text \<open>
  Forgetting is complete on a store that deletes by scope. \<^verbatim>\<open>Forget\<close> over the in-memory store keeps
  exactly the items outside the scope, in order and with or without vectors, and a recall
  restricted to the scope finds nothing afterwards.
\<close>

theorem forget_erases_scope:
  assumes "um_store um = NewInMemCosineStore srt" "sorts_desc snd srt" "sorts_desc sm_Score (um_srt um)" "scope \<noteq> []"
  shows "Forget um scope s = (filter (\<lambda>t. \<not> inScope (item_scope t) scope) s, None) \<and>
    scope_Recall um scope now query opts (filter (\<lambda>t. \<not> inScope (item_scope t) scope) s) =
      (filter (\<lambda>t. \<not> inScope (item_scope t) scope) s, Inr [])"
proof
  show "Forget um scope s = (filter (\<lambda>t. \<not> inScope (item_scope t) scope) s, None)"
    using assms(1) by (simp add: Forget_def NewInMemCosineStore_def cos_DeleteScope_def)
next
  let ?s = "filter (\<lambda>t. \<not> inScope (item_scope t) scope) s"
  let ?o = "(case opts of None \<Rightarrow> zero_rc | Some o0 \<Rightarrow> o0)\<lparr>rc_Scope := scope\<rparr>"
  show "scope_Recall um scope now query opts ?s = (?s, Inr [])"
    unfolding scope_Recall_def
  proof (rule recall_none [OF assms(3)])
    fix vec :: "real list" and n assume "vec \<noteq> []"
    from cosine_search_set [OF assms(2), of vec n ?s] obtain items where
      i: "st_Search (NewInMemCosineStore srt) vec n ?s = (?s, Inr items)" "set items \<subseteq> set ?s" by blast
    have "\<not> recall_keeps ?o t" if "t \<in> set items" for t
      using i(2) that assms(4)
      by (auto simp: recall_keeps_def item_scope_def meta_of_def split: option.splits)
    then have "filter (recall_keeps ?o) items = []" by (simp add: filter_empty_conv)
    then show "\<exists>items. st_Search (um_store um) vec n ?s = (?s, Inr items) \<and>
        filter (recall_keeps (case Some ?o of None \<Rightarrow> zero_rc | Some o1 \<Rightarrow> o1)) items = []"
      using i(1) assms(1) by auto
  qed
qed

theorem forget_erases_scope_witness:
  "Forget wit_um ''/a'' [wit_mem ''x'' [2]] = ([], None)"
proof -
  have "inScope ''/a/b'' ''/a''" by (simp add: inScope_def normalizeScope_def trim_suffix_def suffix_def)
  then show ?thesis
    using forget_erases_scope [of wit_um stable_desc "''/a''" "[wit_mem ''x'' [2]]" 0 "''q''" None]
    by (simp add: wit_um_def sorts_desc_sort_key wit_mem_def item_scope_def)
qed

text \<open>
  Wrapping the same store with \<^verbatim>\<open>WithRetry\<close> hides its scope deletion, and the fallback of \<^verbatim>\<open>Forget\<close>
  searches with a nil vector, which matches only items without one. \<^verbatim>\<open>Forget\<close> then reports success
  while every item that has a vector stays, its scope notwithstanding.
\<close>

theorem forget_through_retry_incomplete:
  assumes "um_store um = WithRetry never never (NewInMemCosineStore srt) p" "sorts_desc snd srt"
    "it \<in> set s" "mi_Vector it \<noteq> []" "distinct (map mi_ID s)"
  shows "\<exists>s'. Forget um scope s = (s', None) \<and> it \<in> set s'"
proof -
  from cosine_search_set [OF assms(2), of "[]" 1000 s] obtain items where
    i: "st_Search (NewInMemCosineStore srt) [] 1000 s = (s, Inr items)" "set items \<subseteq> {t \<in> set s. length (mi_Vector t) = length ([] :: real list)}"
    by blast
  have "st_Search (um_store um) [] 1000 s = (s, Inr items)"
    using i(1) assms(1) normalized_bounds(1) [of p]
      retry_first_success [of "\<lambda>s. unpack [] (st_Search (NewInMemCosineStore srt) [] 1000 s)" s s items "normalized p" "''search''" "[]"]
    by (simp add: WithRetry_def Let_def unpack_def repack_def drop_waits_def)
  moreover have "st_Delete (um_store um) = cos_Delete" "st_DeleteScope (um_store um) = None"
    using assms(1) by (simp_all add: WithRetry_def Let_def NewInMemCosineStore_def)
  moreover have "mi_ID it \<notin> mi_ID ` set items"
    using i(2) assms(3-5) by (auto simp: distinct_map inj_on_def)
  ultimately show ?thesis
    using forget_loop_keeps [of um it s items scope 0] assms(3) by (auto simp: Forget_def)
qed

theorem forget_through_retry_incomplete_witness:
  "\<exists>s'. Forget (wit_um\<lparr>um_store := WithRetry never never (NewInMemCosineStore stable_desc) DefaultRetryPolicy\<rparr>) ''/a'' [wit_mem ''x'' [2]] = (s', None) \<and>
     wit_mem ''x'' [2] \<in> set s'"
  by (rule forget_through_retry_incomplete [OF _ sorts_desc_sort_key]) (simp_all add: wit_mem_def)

text \<open>
  Batch writes. \<^verbatim>\<open>RememberMany\<close> followed by \<^verbatim>\<open>DrainWrites\<close> appends one item for each distinct content
  up to case and surrounding space, namely its first occurrence, in order, and leaves no
  request pending.
\<close>

theorem remember_many_dedups:
  assumes "um_store um = NewInMemCosineStore srt" "\<not> ch_closed u" "writeCh u = []"
  shows "\<exists>u1 u2 new. RememberMany um ts contents u = Some u1 \<and> DrainWrites um ts' u1 = Some u2 \<and>
    us_store u2 = us_store u @ new \<and> writeCh u2 = [] \<and> subseq (map mi_Text new) contents \<and>
    distinct (map (trim_space \<circ> to_lower \<circ> mi_Text) new) \<and>
    (trim_space \<circ> to_lower \<circ> mi_Text) ` set new = (trim_space \<circ> to_lower) ` set contents"
proof -
  let ?rs = "many_requests um ts 0 {} contents" and ?k = "trim_space \<circ> to_lower"
  let ?u = "u\<lparr>writeCh := ?rs, ch_closed := True\<rparr>"
  obtain new where n: "us_store (drain um ts' 0 (length ?rs) ?u) = us_store u @ new" "map mi_Text new = map wr_content ?rs"
    "writeCh (drain um ts' 0 (length ?rs) ?u) = []"
    using drain_cosine [OF assms(1), of ?u ?rs ts' 0] by auto
  have m: "map (?k \<circ> mi_Text) new = map (?k \<circ> wr_content) ?rs"
    using n(2) by (simp only: map_map [symmetric])
  then have "(?k \<circ> mi_Text) ` set new = (?k \<circ> wr_content) ` set ?rs"
    by (metis list.set_map)
  then show ?thesis
    using n m many_requests_keys [of um ts 0 "{}" contents] assms(2,3)
    by (auto simp: RememberMany_def DrainWrites_def comp_assoc)
qed

theorem remember_many_dedups_witness:
  "\<exists>u1 u2 new. RememberMany wit_um (\<lambda>_. 1) [''Go'', '' go''] \<lparr>us_store = [], writeCh = [], ch_closed = False\<rparr> = Some u1 \<and>
     DrainWrites wit_um (\<lambda>_. 2) u1 = Some u2 \<and> us_store u2 = new \<and> subseq (map mi_Text new) [''Go'', '' go'']"
  using remember_many_dedups [of wit_um stable_desc "\<lparr>us_store = [], writeCh = [], ch_closed = False\<rparr>" "\<lambda>_. 1" "[''Go'', '' go'']" "\<lambda>_. 2"]
  by (auto simp: wit_um_def)

text \<open>
  Merging a slice. The hand-written insertion sort of \<^verbatim>\<open>sortScoredMemories\<close> is the stable sort by
  descending score; and asking for deep recall gives the same memories in the same order as
  shallow recall, because the model's ranking is discarded.
\<close>

theorem sort_stable_and_deep_recall_inert:
  "sortScoredMemories ms = sort_key (\<lambda>m. - sm_Score m) ms \<and>
   Recall um now query (Some (o0\<lparr>rc_Depth := d\<rparr>)) s = Recall um now query (Some (o0\<lparr>rc_Depth := d'\<rparr>)) s"
proof
  let ?r = "foldl (\<lambda>acc x. sift_down x acc) [] ms"
  have "sort_key (\<lambda>m. - sm_Score m) ms = rev ?r"
  proof (rule properties_for_sort_key)
    show "mset (rev ?r) = mset ms" using sift_fold(1) [of "[]" ms] by simp
    show "filter (\<lambda>x. - sm_Score k = - sm_Score x) (rev ?r) = filter (\<lambda>x. - sm_Score k = - sm_Score x) ms" for k
      using sift_fold(2) [of "sm_Score k" "[]" ms] by (simp add: eq_commute)
    have "sorted (map sm_Score ?r)" using sift_fold(3) [of "[]" ms] by simp
    then show "sorted (map (\<lambda>m. - sm_Score m) (rev ?r))"
      by (simp add: sorted_wrt_map sorted_wrt_rev)
  qed
  then show "sortScoredMemories ms = sort_key (\<lambda>m. - sm_Score m) ms" by (simp add: sortScoredMemories_def)
next
  have k: "recall_keeps (o0\<lparr>rc_Depth := x\<rparr>) = recall_keeps o0" for x
    by (rule ext) (simp add: recall_keeps_def cong: option.case_cong)
  have l: "rc_Limit (o0\<lparr>rc_Depth := x\<rparr>) = rc_Limit o0" for x by simp
  show "Recall um now query (Some (o0\<lparr>rc_Depth := d\<rparr>)) s = Recall um now query (Some (o0\<lparr>rc_Depth := d'\<rparr>)) s"
    unfolding Recall_def Let_def deep_inert option.case k l by (rule refl)
qed

end
