(* ===== verification/Flow_Seq.thy ===== *)
theory Flow_Seq
  imports Go_Prelude
begin

text \<open>
  The event-driven sequential flow of \<^verbatim>\<open>pkg/flow\<close>: \<^verbatim>\<open>flow.go\<close>, \<^verbatim>\<open>conditional.go\<close> and the routers,
  combinators and human-feedback node of \<^verbatim>\<open>persistence.go\<close>.

  Flow states are Go maps, which are references: a node receives the flow's own map and may
  change it in place, and pass-through nodes return the map they were given. The heap of the
  model (\<open>heap\<close>) makes this explicit. A node registered by the library is a value of the type
  \<open>node\<close>; the functions a caller supplies are arguments of its constructors. Nodes may emit
  events whose listeners emit events in turn, so running a node takes fuel, and \<open>None\<close> is a run
  that has not finished within it.
\<close>

section \<open>Nodes and the heap of flow states\<close>

type_synonym sref = nat

text \<open>What a caller's node returns: the map it was given, a new map, or nil.\<close>

datatype uret = RetArg | RetFresh gmap | RetNil

text \<open>A caller's node reads its argument, may change it in place, and returns or fails.\<close>

type_synonym user_fn = "gmap \<Rightarrow> gmap \<times> (goerr + uret)"

datatype node =
    NUser user_fn
  | NCond string "gmap \<Rightarrow> bool" node
  | NRouter "(string \<times> (gmap \<Rightarrow> bool) \<times> node) list" "node option"
  | NParallel "node list"
  | NEventRouter "gmap \<Rightarrow> goerr + string"
  | NHuman "string list" string
  | NAnd nat "string list" string node

record and_state =
  and_received :: "string set"
  and_states :: "sref list"

record flow_world =
  heap :: "sref \<Rightarrow> gmap"
  fresh :: sref
  ands :: "nat \<Rightarrow> and_state"
  stdin :: "string list"

text \<open>\<^verbatim>\<open>Flow\<close>: the map \<^verbatim>\<open>f.state\<close> lives at address \<open>fl_state\<close>, which never changes.\<close>

record Flow =
  fl_nodes :: "node list"
  fl_state :: sref
  fl_listeners :: "string \<Rightarrow> node list"
  fl_ands :: nat

definition alloc :: "gmap \<Rightarrow> flow_world \<Rightarrow> sref \<times> flow_world" where
  "alloc m w = (fresh w, w\<lparr>heap := (heap w)(fresh w := m), fresh := Suc (fresh w)\<rparr>)"

definition store_at :: "sref \<Rightarrow> gmap \<Rightarrow> flow_world \<Rightarrow> flow_world" where
  "store_at r m w = w\<lparr>heap := (heap w)(r := m)\<rparr>"

text \<open>\<^verbatim>\<open>for k, v := range newState { f.state[k] = v }\<close>; a nil map has nothing to range over.\<close>

definition merge_into :: "sref \<Rightarrow> sref option \<Rightarrow> flow_world \<Rightarrow> flow_world" where
  "merge_into r ro w = (case ro of None \<Rightarrow> w | Some q \<Rightarrow> store_at r (heap w r ++ heap w q) w)"

section \<open>Building a flow\<close>

definition NewFlow :: "gmap option \<Rightarrow> flow_world \<Rightarrow> Flow \<times> flow_world" where
  "NewFlow initial w =
     (let (r, w1) = alloc (case initial of None \<Rightarrow> Map.empty | Some m \<Rightarrow> m) w in
      (\<lparr>fl_nodes = [], fl_state = r, fl_listeners = (\<lambda>_. []), fl_ands = 0\<rparr>, w1))"

definition AddNode :: "node \<Rightarrow> Flow \<Rightarrow> Flow" where
  "AddNode n f = f\<lparr>fl_nodes := fl_nodes f @ [n]\<rparr>"

definition On :: "string \<Rightarrow> node \<Rightarrow> Flow \<Rightarrow> Flow" where
  "On event n f = f\<lparr>fl_listeners := (fl_listeners f)(event := fl_listeners f event @ [n])\<rparr>"

definition AddConditionalNode :: "string \<Rightarrow> (gmap \<Rightarrow> bool) \<Rightarrow> node \<Rightarrow> Flow \<Rightarrow> Flow" where
  "AddConditionalNode name pred n f = AddNode (NCond name pred n) f"

definition AddRouter :: "(string \<times> (gmap \<Rightarrow> bool) \<times> node) list \<Rightarrow> node option \<Rightarrow> Flow \<Rightarrow> Flow" where
  "AddRouter routes dflt f = AddNode (NRouter routes dflt) f"

text \<open>
  \<^verbatim>\<open>val == config.Expected\<close> compares interface values; comparing two slices or two maps, which
  panics in Go, is outside the model.
\<close>

definition AddListener :: "string \<Rightarrow> gvalue \<Rightarrow> node \<Rightarrow> Flow \<Rightarrow> Flow" where
  "AddListener key expected n f =
     AddConditionalNode (''listener:'' @ key) (\<lambda>st. st key = Some expected) n f"

definition AddParallelNodes :: "node list \<Rightarrow> Flow \<Rightarrow> Flow" where
  "AddParallelNodes ns f = AddNode (NParallel ns) f"

definition When :: "string \<Rightarrow> (gmap \<Rightarrow> bool) \<Rightarrow> node \<Rightarrow> Flow \<Rightarrow> Flow" where
  "When event pred handler f = On event (NCond event pred handler) f"

definition AddEventRouter :: "(gmap \<Rightarrow> goerr + string) \<Rightarrow> Flow \<Rightarrow> Flow" where
  "AddEventRouter router f = AddNode (NEventRouter router) f"

definition Or_flow :: "string list \<Rightarrow> node \<Rightarrow> Flow \<Rightarrow> Flow" where
  "Or_flow events n f = fold (\<lambda>e. On e n) events f"

text \<open>Each registration owns a fresh pair of closure variables \<open>received\<close>, \<open>states\<close>.\<close>

definition And_flow :: "string list \<Rightarrow> node \<Rightarrow> Flow \<Rightarrow> Flow" where
  "And_flow events n f =
     (let i = fl_ands f in fold (\<lambda>e. On e (NAnd i events e n)) events (f\<lparr>fl_ands := Suc i\<rparr>))"

definition AddHumanFeedback :: "string list \<Rightarrow> string \<Rightarrow> Flow \<Rightarrow> Flow" where
  "AddHumanFeedback routes dflt f = AddNode (NHuman routes dflt) f"

section \<open>Running nodes\<close>

type_synonym node_out = "(flow_world \<times> (goerr + sref option)) option"

definition copy_of :: "sref \<Rightarrow> flow_world \<Rightarrow> sref \<times> flow_world" where
  "copy_of r w = alloc (heap w r) w"

text \<open>
  \<open>run_node\<close> runs one node on the map at \<open>r\<close>. \<open>emit_handlers\<close> is the handler loop of \<^verbatim>\<open>Emit\<close>, which
  merges every handler's result into the flow's state; \<open>par_run\<close> runs the branches of a parallel
  node, each on its own copy, and collects their results by index. Both take the function that
  runs a node, so that fuel is only spent on nesting.
\<close>

type_synonym runner = "node \<Rightarrow> sref \<Rightarrow> flow_world \<Rightarrow> node_out"

definition run_user :: "user_fn \<Rightarrow> sref \<Rightarrow> flow_world \<Rightarrow> flow_world \<times> (goerr + sref option)" where
  "run_user fn r w =
     (let (m, res) = fn (heap w r); w1 = store_at r m w in
      case res of
        Inl e \<Rightarrow> (w1, Inl e)
      | Inr RetArg \<Rightarrow> (w1, Inr (Some r))
      | Inr (RetFresh m') \<Rightarrow> (let (q, w2) = alloc m' w1 in (w2, Inr (Some q)))
      | Inr RetNil \<Rightarrow> (w1, Inr None))"

primrec emit_handlers :: "runner \<Rightarrow> sref \<Rightarrow> node list \<Rightarrow> sref \<Rightarrow> flow_world \<Rightarrow> (flow_world \<times> goerr option) option" where
  "emit_handlers run fs [] r w = Some (w, None)"
| "emit_handlers run fs (h # hs) r w =
     (case run h r w of
        None \<Rightarrow> None
      | Some (w1, Inl e) \<Rightarrow> Some (w1, Some e)
      | Some (w1, Inr ro) \<Rightarrow> emit_handlers run fs hs r (merge_into fs ro w1))"

primrec par_run :: "runner \<Rightarrow> node list \<Rightarrow> sref \<Rightarrow> flow_world \<Rightarrow> (flow_world \<times> (goerr + sref option) list) option" where
  "par_run run [] r w = Some (w, [])"
| "par_run run (n # ns) r w =
     (let (q, w1) = copy_of r w in
      case run n q w1 of
        None \<Rightarrow> None
      | Some (w2, x) \<Rightarrow>
          (case par_run run ns r w2 of None \<Rightarrow> None | Some (w3, xs) \<Rightarrow> Some (w3, x # xs)))"

text \<open>The first error by index, and the merge of the results over a copy of the input.\<close>

fun first_error :: "nat \<Rightarrow> (goerr + 'a) list \<Rightarrow> (nat \<times> goerr) option" where
  "first_error i [] = None"
| "first_error i (Inl e # xs) = Some (i, e)"
| "first_error i (Inr x # xs) = first_error (Suc i) xs"

definition par_join :: "(goerr + sref option) list \<Rightarrow> sref \<Rightarrow> flow_world \<Rightarrow> flow_world \<times> (goerr + sref option)" where
  "par_join rs r w =
     (case first_error 0 rs of
        Some (i, e) \<Rightarrow> (w, Inl (EWrap (''parallel node '' @ show_nat i @ '' failed: '') e []))
      | None \<Rightarrow>
          (let (q, w1) = copy_of r w
           in (fold (\<lambda>x. case x of Inr ro \<Rightarrow> merge_into q ro | Inl _ \<Rightarrow> id) rs w1, Inr (Some q))))"

definition after_emit :: "sref \<Rightarrow> (flow_world \<times> goerr option) option \<Rightarrow> node_out" where
  "after_emit r x =
     (case x of None \<Rightarrow> None
      | Some (w1, Some e) \<Rightarrow> Some (w1, Inl e)
      | Some (w1, None) \<Rightarrow> Some (w1, Inr (Some r)))"

text \<open>The human-feedback node up to its \<^verbatim>\<open>Emit\<close>: the outcome and the world with the answer stored.\<close>

definition read_feedback :: "string list \<Rightarrow> string \<Rightarrow> sref \<Rightarrow> flow_world \<Rightarrow> string \<times> flow_world" where
  "read_feedback routes dflt r w =
     (let inp = (case stdin w of [] \<Rightarrow> [] | x # _ \<Rightarrow> x);
          w1 = w\<lparr>stdin := tl (stdin w)\<rparr>;
          w2 = store_at r ((heap w1 r)(''human_feedback'' \<mapsto> VString inp)) w1;
          outcome = (if inp \<in> set routes then inp else dflt)
      in (outcome, if outcome = [] then w2
                   else store_at r ((heap w2 r)(''human_outcome'' \<mapsto> VString outcome)) w2))"

text \<open>The bookkeeping of an \<^verbatim>\<open>And_\<close> listener: the merged map to run on, once all events fired.\<close>

definition and_fire :: "nat \<Rightarrow> string list \<Rightarrow> string \<Rightarrow> sref \<Rightarrow> flow_world \<Rightarrow> sref option \<times> flow_world" where
  "and_fire i events evt r w =
     (let a = ands w i;
          a1 = a\<lparr>and_received := insert evt (and_received a), and_states := and_states a @ [r]\<rparr>;
          w1 = w\<lparr>ands := (ands w)(i := a1)\<rparr>
      in if set events \<subseteq> and_received a1
         then (let (q, w2) = alloc (foldl (\<lambda>m q. m ++ heap w1 q) Map.empty (and_states a1)) w1
               in (Some q, w2))
         else (None, w1))"

primrec run_node :: "nat \<Rightarrow> Flow \<Rightarrow> runner" where
  "run_node 0 f = (\<lambda>n r w. None)"
| "run_node (Suc k) f = (\<lambda>n r w.
     case n of
       NUser fn \<Rightarrow> Some (run_user fn r w)
     | NCond name pred n' \<Rightarrow>
         if \<not> pred (heap w r) then Some (w, Inr (Some r)) else run_node k f n' r w
     | NRouter routes dflt \<Rightarrow>
         (case find (\<lambda>(name, pred, n'). pred (heap w r)) routes of
            Some (name, pred, n') \<Rightarrow> run_node k f n' r w
          | None \<Rightarrow> (case dflt of Some d \<Rightarrow> run_node k f d r w | None \<Rightarrow> Some (w, Inr (Some r))))
     | NParallel ns \<Rightarrow>
         (case par_run (run_node k f) ns r w of
            None \<Rightarrow> None
          | Some (w1, rs) \<Rightarrow> Some (par_join rs r w1))
     | NEventRouter router \<Rightarrow>
         (case router (heap w r) of
            Inl e \<Rightarrow> Some (w, Inl e)
          | Inr label \<Rightarrow> after_emit r (emit_handlers (run_node k f) (fl_state f) (fl_listeners f label) r w))
     | NHuman routes dflt \<Rightarrow>
         (let (outcome, w1) = read_feedback routes dflt r w in
          if outcome = [] then Some (w1, Inr (Some r))
          else after_emit r (emit_handlers (run_node k f) (fl_state f) (fl_listeners f outcome) r w1))
     | NAnd i events evt n' \<Rightarrow>
         (case and_fire i events evt r w of
            (Some q, w1) \<Rightarrow> run_node k f n' q w1
          | (None, w1) \<Rightarrow> Some (w1, Inr (Some r))))"

text \<open>One rule per kind of node.\<close>

lemma run_node_0: "run_node 0 f n r w = None"
  by simp

lemma run_node_simps:
  "run_node (Suc k) f (NUser fn) r w = Some (run_user fn r w)"
  "run_node (Suc k) f (NCond name pred n) r w =
     (if \<not> pred (heap w r) then Some (w, Inr (Some r)) else run_node k f n r w)"
  "run_node (Suc k) f (NRouter routes dflt) r w =
     (case find (\<lambda>(name, pred, n'). pred (heap w r)) routes of
        Some (name, pred, n') \<Rightarrow> run_node k f n' r w
      | None \<Rightarrow> (case dflt of Some d \<Rightarrow> run_node k f d r w | None \<Rightarrow> Some (w, Inr (Some r))))"
  "run_node (Suc k) f (NParallel ns) r w =
     (case par_run (run_node k f) ns r w of
        None \<Rightarrow> None
      | Some (w1, rs) \<Rightarrow> Some (par_join rs r w1))"
  "run_node (Suc k) f (NEventRouter router) r w =
     (case router (heap w r) of
        Inl e \<Rightarrow> Some (w, Inl e)
      | Inr label \<Rightarrow> after_emit r (emit_handlers (run_node k f) (fl_state f) (fl_listeners f label) r w))"
  "run_node (Suc k) f (NHuman hroutes hdflt) r w =
     (let (outcome, w1) = read_feedback hroutes hdflt r w in
      if outcome = [] then Some (w1, Inr (Some r))
      else after_emit r (emit_handlers (run_node k f) (fl_state f) (fl_listeners f outcome) r w1))"
  "run_node (Suc k) f (NAnd i events evt n) r w =
     (case and_fire i events evt r w of
        (Some q, w1) \<Rightarrow> run_node k f n q w1
      | (None, w1) \<Rightarrow> Some (w1, Inr (Some r)))"
  by (simp_all only: run_node.simps node.case)

declare run_node.simps [simp del]
declare run_node_0 [simp] run_node_simps [simp]

definition Emit :: "nat \<Rightarrow> Flow \<Rightarrow> string \<Rightarrow> sref \<Rightarrow> flow_world \<Rightarrow> (flow_world \<times> goerr option) option" where
  "Emit k f event r w =
     (let handlers = fl_listeners f event in
      if length handlers = 0 then Some (w, None) else emit_handlers (run_node k f) (fl_state f) handlers r w)"

definition Start :: "nat \<Rightarrow> Flow \<Rightarrow> string \<Rightarrow> flow_world \<Rightarrow> (flow_world \<times> (goerr + sref)) option" where
  "Start k f event w =
     (case Emit k f event (fl_state f) w of
        None \<Rightarrow> None
      | Some (w1, Some e) \<Rightarrow> Some (w1, Inl e)
      | Some (w1, None) \<Rightarrow> Some (w1, Inr (fl_state f)))"

text \<open>\<^verbatim>\<open>Kickoff\<close>; \<open>dn i\<close> is what the context reports at the check before node \<open>i\<close>.\<close>

definition flow_node_err :: "nat \<Rightarrow> goerr \<Rightarrow> goerr" where
  "flow_node_err i e = EWrap (''flow node '' @ show_nat i @ '' failed deterministically: '') e []"

fun kick_nodes ::
  "nat \<Rightarrow> (nat \<Rightarrow> goerr option) \<Rightarrow> Flow \<Rightarrow> nat \<Rightarrow> node list \<Rightarrow> flow_world \<Rightarrow> (flow_world \<times> goerr option) option" where
  "kick_nodes k dn f i [] w = Some (w, None)"
| "kick_nodes k dn f i (n # ns) w =
     (case dn i of
        Some e \<Rightarrow> Some (w, Some e)
      | None \<Rightarrow>
          (case run_node k f n (fl_state f) w of
             None \<Rightarrow> None
           | Some (w1, Inl e) \<Rightarrow>
               Some (w1, Some (flow_node_err i e))
           | Some (w1, Inr ro) \<Rightarrow> kick_nodes k dn f (Suc i) ns (merge_into (fl_state f) ro w1)))"

definition Kickoff :: "nat \<Rightarrow> (nat \<Rightarrow> goerr option) \<Rightarrow> Flow \<Rightarrow> flow_world \<Rightarrow> (flow_world \<times> (goerr + sref)) option" where
  "Kickoff k dn f w =
     (case kick_nodes k dn f 0 (fl_nodes f) w of
        None \<Rightarrow> None
      | Some (w1, Some e) \<Rightarrow> Some (w1, Inl e)
      | Some (w1, None) \<Rightarrow> Some (w1, Inr (fl_state f)))"

section \<open>Lemmas\<close>

lemma heap_store [simp]: "heap (store_at r m w) = (heap w)(r := m)" "fresh (store_at r m w) = fresh w"
  "ands (store_at r m w) = ands w"
  by (simp_all add: store_at_def)

lemma alloc_simps [simp]:
  "fst (alloc m w) = fresh w" "heap (snd (alloc m w)) = (heap w)(fresh w := m)"
  "fresh (snd (alloc m w)) = Suc (fresh w)"
  by (simp_all add: alloc_def)

lemma merge_into_simps [simp]:
  "heap (merge_into r ro w) = (case ro of None \<Rightarrow> heap w | Some q \<Rightarrow> (heap w)(r := heap w r ++ heap w q))"
  "fresh (merge_into r ro w) = fresh w"
  by (simp_all add: merge_into_def split: option.splits)

text \<open>The map a caller's node produces from a map, as a value.\<close>

definition branch_result :: "user_fn \<Rightarrow> gmap \<Rightarrow> goerr + gmap" where
  "branch_result fn m =
     (case fn m of (m1, Inl e) \<Rightarrow> Inl e | (m1, Inr RetArg) \<Rightarrow> Inr m1
      | (m1, Inr (RetFresh m')) \<Rightarrow> Inr m' | (m1, Inr RetNil) \<Rightarrow> Inr Map.empty)"

definition deref :: "(sref \<Rightarrow> gmap) \<Rightarrow> goerr + sref option \<Rightarrow> goerr + gmap" where
  "deref h x = (case x of Inl e \<Rightarrow> Inl e | Inr None \<Rightarrow> Inr Map.empty | Inr (Some q) \<Rightarrow> Inr (h q))"

definition refs_within :: "sref \<Rightarrow> sref \<Rightarrow> goerr + sref option \<Rightarrow> bool" where
  "refs_within lo hi x = (case x of Inr (Some q) \<Rightarrow> lo \<le> q \<and> q < hi | _ \<Rightarrow> True)"

definition branch_results :: "user_fn list \<Rightarrow> gmap \<Rightarrow> (goerr + gmap) list" where
  "branch_results fns m = map (\<lambda>fn. branch_result fn m) fns"

lemma run_user_fresh:
  assumes "run_user fn q w = (w', x)" "q < fresh w"
  shows "fresh w \<le> fresh w' \<and> (\<forall>a. a \<noteq> q \<and> a < fresh w \<longrightarrow> heap w' a = heap w a) \<and>
    deref (heap w') x = branch_result fn (heap w q) \<and> refs_within q (fresh w') x"
  using assms
  by (auto simp: run_user_def deref_def branch_result_def refs_within_def Let_def alloc_def
      split: prod.splits sum.splits uret.splits)

lemma deref_cong: "refs_within lo hi x \<Longrightarrow> (\<And>a. lo \<le> a \<Longrightarrow> a < hi \<Longrightarrow> h a = h' a) \<Longrightarrow> deref h x = deref h' x"
  by (auto simp: deref_def refs_within_def split: sum.splits option.splits)

lemma refs_within_mono: "refs_within lo hi x \<Longrightarrow> lo' \<le> lo \<Longrightarrow> hi \<le> hi' \<Longrightarrow> refs_within lo' hi' x"
  by (auto simp: refs_within_def split: sum.splits option.splits)

lemma par_run_users:
  assumes "r < fresh w"
  shows "\<exists>w' xs. par_run (run_node (Suc k) f) (map NUser fns) r w = Some (w', xs) \<and>
    fresh w \<le> fresh w' \<and> (\<forall>a < fresh w. heap w' a = heap w a) \<and>
    map (deref (heap w')) xs = map (\<lambda>fn. branch_result fn (heap w r)) fns \<and>
    list_all (refs_within (fresh w) (fresh w')) xs"
  using assms
proof (induction fns arbitrary: w)
  case (Cons fn fns)
  let ?q = "fresh w"
  define w1 where "w1 = snd (copy_of r w)"
  have w1: "heap w1 = (heap w)(?q := heap w r)" "fresh w1 = Suc (fresh w)" "copy_of r w = (?q, w1)"
    by (simp_all add: w1_def copy_of_def alloc_def)
  obtain w2 x where u: "run_user fn ?q w1 = (w2, x)" by (cases "run_user fn ?q w1")
  have "?q < fresh w1" by (simp add: w1)
  note f2 = run_user_fresh [OF u this]
  have b: "Suc (fresh w) \<le> fresh w2" "\<forall>a < fresh w. heap w2 a = heap w a"
    "deref (heap w2) x = branch_result fn (heap w r)" "refs_within ?q (fresh w2) x"
    using f2 by (simp_all add: w1)
  obtain w3 xs where ih: "par_run (run_node (Suc k) f) (map NUser fns) r w2 = Some (w3, xs)"
    "fresh w2 \<le> fresh w3" "\<forall>a < fresh w2. heap w3 a = heap w2 a"
    "map (deref (heap w3)) xs = map (\<lambda>fn. branch_result fn (heap w2 r)) fns"
    "list_all (refs_within (fresh w2) (fresh w3)) xs"
    using Cons.IH [of w2] b Cons.prems by auto
  have "deref (heap w3) x = deref (heap w2) x"
    using b(4) ih(3) by (intro deref_cong) auto
  moreover have "list_all (refs_within (fresh w) (fresh w3)) xs"
    using ih(5) b(1) by (auto simp: list_all_iff intro: refs_within_mono)
  moreover have "refs_within (fresh w) (fresh w3) x"
    using b(4) ih(2) by (auto intro: refs_within_mono)
  ultimately show ?case
    using w1 u ih b Cons.prems by (auto simp: Let_def)
qed simp

lemma first_error_deref: "first_error i (map (deref h) xs) = first_error i xs"
  by (induction i xs rule: first_error.induct) (auto simp: deref_def split: option.splits)

abbreviation isr :: "'a + 'b \<Rightarrow> bool" where
  "isr x \<equiv> \<not> isl x"

lemma first_error_None: "first_error i xs = None \<Longrightarrow> list_all isr xs"
  by (induction i xs rule: first_error.induct) auto

lemma fold_merge_heap:
  assumes "list_all (\<lambda>x. case x of Inr (Some p) \<Rightarrow> p \<noteq> q | _ \<Rightarrow> True) xs" "list_all isr xs"
  shows "heap (fold (\<lambda>x. case x of Inr ro \<Rightarrow> merge_into q ro | Inl _ \<Rightarrow> id) xs w) =
    (heap w)(q := foldl (++) (heap w q) (map projr (map (deref (heap w)) xs)))"
  using assms
proof (induction xs arbitrary: w)
  case (Cons x xs)
  obtain ro where x: "x = Inr ro" using Cons.prems by (cases x) auto
  let ?w = "merge_into q ro w"
  have nq: "\<And>p. ro = Some p \<Longrightarrow> p \<noteq> q" using Cons.prems x by auto
  have d: "map (deref (heap ?w)) xs = map (deref (heap w)) xs"
    using Cons.prems(1) nq
    by (auto simp: deref_def list_all_iff split: sum.splits option.splits)
  have "heap (fold (\<lambda>x. case x of Inr ro \<Rightarrow> merge_into q ro | Inl _ \<Rightarrow> id) xs ?w) =
      (heap ?w)(q := foldl (++) (heap ?w q) (map projr (map (deref (heap w)) xs)))"
  proof -
    have "list_all (\<lambda>x. case x of Inr (Some p) \<Rightarrow> p \<noteq> q | _ \<Rightarrow> True) xs" "list_all isr xs"
      using Cons.prems by simp_all
    from Cons.IH [OF this, of ?w] show ?thesis unfolding d .
  qed
  moreover have "heap ?w q = heap w q ++ projr (deref (heap w) x)"
    by (simp add: x deref_def split: option.split)
  moreover have "(heap ?w)(q := z) = (heap w)(q := z)" for z
    by (simp split: option.split)
  ultimately show ?case by (simp add: x)
qed simp

lemma list_all_isr_deref: "list_all isr (map (deref h) xs) = list_all isr xs"
  by (induction xs) (auto simp: deref_def split: sum.splits option.splits)

text \<open>The sequential run of caller nodes as a function of the state map alone.\<close>

fun seq_spec ::
  "(nat \<Rightarrow> goerr \<Rightarrow> goerr) \<Rightarrow> (nat \<Rightarrow> goerr option) \<Rightarrow> nat \<Rightarrow> user_fn list \<Rightarrow> gmap \<Rightarrow> gmap \<times> goerr option" where
  "seq_spec wrap dn i [] m = (m, None)"
| "seq_spec wrap dn i (fn # fns) m =
     (case dn i of Some e \<Rightarrow> (m, Some e)
      | None \<Rightarrow>
          (case fn m of
             (m1, Inl e) \<Rightarrow> (m1, Some (wrap i e))
           | (m1, Inr RetArg) \<Rightarrow> seq_spec wrap dn (Suc i) fns m1
           | (m1, Inr (RetFresh m')) \<Rightarrow> seq_spec wrap dn (Suc i) fns (m1 ++ m')
           | (m1, Inr RetNil) \<Rightarrow> seq_spec wrap dn (Suc i) fns m1))"

lemma kick_nodes_spec:
  assumes "fl_state f < fresh w"
  shows "\<exists>w'. kick_nodes (Suc k) dn f i (map NUser fns) w = Some (w', snd (seq_spec flow_node_err dn i fns (heap w (fl_state f)))) \<and>
    heap w' (fl_state f) = fst (seq_spec flow_node_err dn i fns (heap w (fl_state f)))"
  using assms
proof (induction fns arbitrary: i w)
  case (Cons fn fns)
  let ?r = "fl_state f"
  show ?case
  proof (cases "dn i")
    case None
    have mi: "\<exists>w'. kick_nodes (Suc k) dn f (Suc i) (map NUser fns) v =
        Some (w', snd (seq_spec flow_node_err dn (Suc i) fns (heap v ?r))) \<and>
        heap w' ?r = fst (seq_spec flow_node_err dn (Suc i) fns (heap v ?r))" if "?r < fresh v" for v
      using Cons.IH [of v "Suc i"] that by simp
    obtain m1 res where fn: "fn (heap w ?r) = (m1, res)" by (cases "fn (heap w ?r)")
    show ?thesis
    proof (cases res)
      case (Inl e)
      then show ?thesis using None fn by (simp add: run_user_def)
    next
      case (Inr b)
      show ?thesis
      proof (cases b)
        case RetArg
        then show ?thesis
          using None fn Inr Cons.prems mi [of "merge_into ?r (Some ?r) (store_at ?r m1 w)"]
          by (simp add: run_user_def)
      next
        case (RetFresh m')
        then show ?thesis
          using None fn Inr Cons.prems
            mi [of "merge_into ?r (Some (fresh w)) (snd (alloc m' (store_at ?r m1 w)))"]
          by (simp add: run_user_def alloc_def)
      next
        case RetNil
        then show ?thesis
          using None fn Inr Cons.prems mi [of "merge_into ?r None (store_at ?r m1 w)"]
          by (simp add: run_user_def)
      qed
    qed
  qed (auto)
qed simp

section \<open>Properties\<close>

text \<open>
  C22: \<^verbatim>\<open>Flow.Kickoff\<close> on caller nodes implements the sequential specification \<open>seq_spec\<close>: each node
  sees what its predecessors left, what it returns is merged over the flow's map (in-place
  changes are kept even when the node then fails), and the first failure or cancellation stops
  the run; the map handed back is the flow's own.
\<close>

theorem Kickoff_refines_seq:
  assumes "fl_state f < fresh w" "fl_nodes f = map NUser fns"
  shows "\<exists>w'. heap w' (fl_state f) = fst (seq_spec flow_node_err dn 0 fns (heap w (fl_state f))) \<and>
    Kickoff (Suc k) dn f w =
      Some (w', case snd (seq_spec flow_node_err dn 0 fns (heap w (fl_state f))) of
                  None \<Rightarrow> Inr (fl_state f) | Some e \<Rightarrow> Inl e)"
  using kick_nodes_spec [OF assms(1), of k dn 0 fns] assms(2)
  by (auto simp: Kickoff_def split: option.splits)

definition wit_fn :: user_fn where
  "wit_fn m = (m(''a'' \<mapsto> VInt 1), Inr (RetFresh [''b'' \<mapsto> VInt 2]))"

definition wit_world :: flow_world where
  "wit_world = \<lparr>heap = (\<lambda>_. Map.empty), fresh = 1, ands = (\<lambda>_. \<lparr>and_received = {}, and_states = []\<rparr>), stdin = []\<rparr>"

definition wit_flow :: Flow where
  "wit_flow = \<lparr>fl_nodes = [NUser wit_fn], fl_state = 0, fl_listeners = (\<lambda>_. []), fl_ands = 0\<rparr>"

theorem Kickoff_refines_seq_witness:
  "\<exists>w'. heap w' 0 = [''a'' \<mapsto> VInt 1, ''b'' \<mapsto> VInt 2] \<and>
     Kickoff 1 (\<lambda>_. None) wit_flow wit_world = Some (w', Inr 0)"
  using Kickoff_refines_seq [of wit_flow wit_world "[wit_fn]" "\<lambda>_. None" 0]
  by (simp add: wit_flow_def wit_world_def wit_fn_def fun_upd_twist)

text \<open>
  A parallel node runs every caller branch on its own copy of the state. The caller's map is
  left as it was; if no branch fails the result is a new map, the input overlaid with the
  results in index order, so that later branches win; otherwise the error is that of the
  failing branch of least index.
\<close>

theorem parallel_isolated_merge:
  assumes "r < fresh w"
  shows "\<exists>w' x. run_node (Suc (Suc k)) f (NParallel (map NUser fns)) r w = Some (w', x) \<and>
    (\<forall>a. a < fresh w \<longrightarrow> heap w' a = heap w a) \<and>
    (case first_error 0 (branch_results fns (heap w r)) of
       Some (i, e) \<Rightarrow> x = Inl (EWrap (''parallel node '' @ show_nat i @ '' failed: '') e [])
     | None \<Rightarrow> (\<exists>q. x = Inr (Some q) \<and> fresh w \<le> q \<and>
                  heap w' q = foldl (++) (heap w r) (map projr (branch_results fns (heap w r)))))"
proof -
  let ?rs = "branch_results fns (heap w r)"
  obtain w1 xs where p: "par_run (run_node (Suc k) f) (map NUser fns) r w = Some (w1, xs)"
    "fresh w \<le> fresh w1" "\<forall>a < fresh w. heap w1 a = heap w a"
    "map (deref (heap w1)) xs = ?rs" "list_all (refs_within (fresh w) (fresh w1)) xs"
    using par_run_users [OF assms(1), of k f fns] unfolding branch_results_def by auto
  have fe: "first_error 0 ?rs = first_error 0 xs"
    using p(4) first_error_deref by metis
  show ?thesis
  proof (cases "first_error 0 xs")
    case (Some ie)
    then show ?thesis using p fe by (auto simp: par_join_def split: prod.splits)
  next
    case None
    define w2 where "w2 = snd (copy_of r w1)"
    have w2: "copy_of r w1 = (fresh w1, w2)" "heap w2 = (heap w1)(fresh w1 := heap w1 r)"
      by (simp_all add: w2_def copy_of_def alloc_def)
    have ne: "list_all (\<lambda>x. case x of Inr (Some q) \<Rightarrow> q \<noteq> fresh w1 | _ \<Rightarrow> True) xs"
      using p(5) by (auto simp: list_all_iff refs_within_def split: sum.splits option.splits)
    have "map (deref (heap w2)) xs = map (deref (heap w1)) xs"
      using ne by (auto simp: w2(2) deref_def list_all_iff split: sum.splits option.splits)
    then have "heap (fold (\<lambda>x. case x of Inr ro \<Rightarrow> merge_into (fresh w1) ro | Inl _ \<Rightarrow> id) xs w2) =
        (heap w1)(fresh w1 := foldl (++) (heap w r) (map projr ?rs))"
      using fold_merge_heap [OF ne first_error_None [OF None], of w2] p(3,4) assms(1)
      by (simp add: w2(2))
    then show ?thesis using p fe None w2(1) by (simp add: par_join_def)
  qed
qed

theorem parallel_isolated_merge_witness:
  "\<exists>w' x. run_node 2 wit_flow (NParallel [NUser wit_fn, NUser (\<lambda>m. (m, Inr RetNil))]) 0 wit_world = Some (w', x) \<and>
    heap w' 0 = Map.empty \<and> (\<exists>q. x = Inr (Some q) \<and> heap w' q = [''b'' \<mapsto> VInt 2])"
  using parallel_isolated_merge [of 0 wit_world 0 wit_flow "[wit_fn, \<lambda>m. (m, Inr RetNil)]"]
  by (auto simp: wit_world_def wit_fn_def branch_results_def branch_result_def numeral_2_eq_2)

text \<open>The events an \<^verbatim>\<open>And_\<close> registration has seen after a sequence of firings.\<close>

definition and_run :: "nat \<Rightarrow> string list \<Rightarrow> (string \<times> sref) list \<Rightarrow> flow_world \<Rightarrow> flow_world" where
  "and_run i events fires w = fold (\<lambda>(e, r) w. snd (and_fire i events e r w)) fires w"

lemma and_fire_received:
  "and_received (ands (snd (and_fire i events e r w)) i) = insert e (and_received (ands w i))"
  by (simp add: and_fire_def alloc_def Let_def)

lemma and_run_received:
  "and_received (ands (and_run i events fires w) i) = and_received (ands w i) \<union> fst ` set fires"
  by (induction fires arbitrary: w) (auto simp: and_run_def and_fire_received)

text \<open>
  An \<^verbatim>\<open>And_\<close> listener passes a firing on to its node exactly when every one of its events has
  fired by then, in whatever order and however often the others did.
\<close>

theorem And_fires_iff_all_seen:
  assumes "and_received (ands w i) = {}"
  shows "fst (and_fire i events e r (and_run i events fires w)) \<noteq> None \<longleftrightarrow>
    set events \<subseteq> insert e (fst ` set fires)"
  using and_run_received [of i events fires w] assms
  by (simp add: and_fire_def Let_def split: prod.splits)

theorem And_fires_iff_all_seen_witness:
  "fst (and_fire 0 [''x'', ''y''] ''y'' 0 (and_run 0 [''x'', ''y''] [(''y'', 0), (''x'', 0)] wit_world)) \<noteq> None"
  using And_fires_iff_all_seen [of wit_world 0 "[''x'', ''y'']" "''y''" 0 "[(''y'', 0), (''x'', 0)]"]
  by (simp add: wit_world_def)

end
