(* ===== verification/Flow_Persist.thy ===== *)
theory Flow_Persist
  imports Flow_Seq Go_Files
begin

text \<open>
  Persistence of \<^verbatim>\<open>pkg/flow\<close>: \<^verbatim>\<open>JSONFilePersistence\<close>, \<^verbatim>\<open>PersistentFlow\<close> (\<^verbatim>\<open>persistence.go\<close>) and \<^verbatim>\<open>TypedFlow\<close>
  (\<^verbatim>\<open>typed_flow.go\<close>). The interface \<^verbatim>\<open>FlowPersistence\<close> is the record of operations the flows take;
  the laws its users rely on are the locale \<open>flow_store\<close>, interpreted on the JSON files.

  What a state is after a trip through JSON is \<open>json_norm\<close>: every number comes back as a
  \<^verbatim>\<open>float64\<close> and every slice as \<^verbatim>\<open>[]interface{}\<close>. The operations take what the context reports at the
  call (\<open>ctx\<close>); the operating system's outcomes are part of the disk.
\<close>

section \<open>JSON\<close>

definition json_norm_map :: "gmap \<Rightarrow> gmap" where
  "json_norm_map m = map_option json_norm \<circ> m"

lemma json_norm_map_idem [simp]: "json_norm_map (json_norm_map m) = json_norm_map m"
  by (simp add: json_norm_map_def fun_eq_iff option.map_comp o_def)

lemma json_norm_map_dom [simp]: "dom (json_norm_map m) = dom m"
  by (auto simp: json_norm_map_def)

text \<open>A state file: a JSON object or \<^verbatim>\<open>null\<close> (a nil map), or bytes \<^verbatim>\<open>json.Unmarshal\<close> rejects.\<close>

datatype state_doc = DState "gmap option" | DBad goerr

section \<open>JSONFilePersistence\<close>

type_synonym fdisk = "state_doc disk"

definition cleanFlowID :: "string \<Rightarrow> string result" where
  "cleanFlowID i = clean_id ''flow: invalid flow ID '' i"

definition state_path :: "string \<Rightarrow> string \<Rightarrow> string" where
  "state_path dir i = path_join dir (i @ ''.json'')"

definition SaveState :: "string \<Rightarrow> goerr option \<Rightarrow> string \<Rightarrow> gmap option \<Rightarrow> fdisk \<Rightarrow> fdisk \<times> goerr option" where
  "SaveState dir ctx flowID st d =
     (case ctx of Some e \<Rightarrow> (d, Some e)
      | None \<Rightarrow>
          (case cleanFlowID flowID of Inl e \<Rightarrow> (d, Some e)
           | Inr i \<Rightarrow> atomicWriteFile (state_path dir i) (DState (map_option json_norm_map st)) d))"

definition LoadState :: "string \<Rightarrow> goerr option \<Rightarrow> string \<Rightarrow> fdisk \<Rightarrow> (goerr + gmap option) \<times> fdisk" where
  "LoadState dir ctx flowID d =
     (case ctx of Some e \<Rightarrow> (Inl e, d)
      | None \<Rightarrow>
          (case cleanFlowID flowID of Inl e \<Rightarrow> (Inl e, d)
           | Inr i \<Rightarrow>
               (case read_file (state_path dir i) d of
                  (Inl e, d1) \<Rightarrow> (Inl (EWrap ''failed to read flow state: '' e []), d1)
                | (Inr None, d1) \<Rightarrow> (Inr None, d1)
                | (Inr (Some (DBad e)), d1) \<Rightarrow> (Inl (EWrap ''failed to unmarshal flow state: '' e []), d1)
                | (Inr (Some (DState st)), d1) \<Rightarrow> (Inr st, d1))))"

definition DeleteState :: "string \<Rightarrow> goerr option \<Rightarrow> string \<Rightarrow> fdisk \<Rightarrow> fdisk \<times> goerr option" where
  "DeleteState dir ctx flowID d =
     (case cleanFlowID flowID of Inl e \<Rightarrow> (d, Some e)
      | Inr i \<Rightarrow> remove_file (state_path dir i) d)"

lemma state_path_inj:
  assumes "cleanFlowID i = Inr i" "cleanFlowID j = Inr j"
  shows "state_path dir i = state_path dir j \<longleftrightarrow> i = j"
  using clean_id_ok [OF assms(1) [unfolded cleanFlowID_def]]
    clean_id_ok [OF assms(2) [unfolded cleanFlowID_def]]
  unfolding state_path_def by (subst path_join_inj) (auto simp: append_eq_Cons_conv)

section \<open>The interface a flow relies on\<close>

record 's FlowPersistence =
  fp_save :: "goerr option \<Rightarrow> string \<Rightarrow> gmap option \<Rightarrow> 's \<Rightarrow> 's \<times> goerr option"
  fp_load :: "goerr option \<Rightarrow> string \<Rightarrow> 's \<Rightarrow> (goerr + gmap option) \<times> 's"
  fp_delete :: "goerr option \<Rightarrow> string \<Rightarrow> 's \<Rightarrow> 's \<times> goerr option"

definition NewJSONFilePersistence :: "string \<Rightarrow> fdisk FlowPersistence" where
  "NewJSONFilePersistence dir =
     \<lparr>fp_save = SaveState dir, fp_load = LoadState dir, fp_delete = DeleteState dir\<rparr>"

text \<open>
  The contract: \<open>okid\<close> are the identifiers the store accepts and \<open>ok\<close> the store states in which
  it works (no failure pending). Every operation succeeds there and keeps \<open>ok\<close>; a load returns
  what was last saved under that identifier, in normal form, and nothing after a delete; other
  identifiers are not affected.
\<close>

locale flow_store =
  fixes P :: "'s FlowPersistence"
    and okid :: "string \<Rightarrow> bool"
    and ok :: "'s \<Rightarrow> bool"
    and saved :: "string \<Rightarrow> 's \<Rightarrow> gmap option"
  assumes save_ok: "okid i \<Longrightarrow> ok s \<Longrightarrow> \<exists>s'. fp_save P None i (Some m) s = (s', None) \<and> ok s' \<and>
      saved i s' = Some (json_norm_map m) \<and> (\<forall>j. okid j \<and> j \<noteq> i \<longrightarrow> saved j s' = saved j s)"
    and load_ok: "okid i \<Longrightarrow> ok s \<Longrightarrow> fp_load P None i s = (Inr (saved i s), s)"
    and delete_ok: "okid i \<Longrightarrow> ok s \<Longrightarrow> \<exists>s'. fp_delete P ctx i s = (s', None) \<and> ok s' \<and>
      saved i s' = None \<and> (\<forall>j. okid j \<and> j \<noteq> i \<longrightarrow> saved j s' = saved j s)"
begin

lemma load_after_save:
  assumes "okid i" "ok s" "fp_save P None i (Some m) s = (s', e)"
  shows "e = None \<and> fp_load P None i s' = (Inr (Some (json_norm_map m)), s')"
  using save_ok [OF assms(1,2), of m] assms(3) load_ok [OF assms(1)] by auto

lemma load_after_delete:
  assumes "okid i" "ok s" "fp_delete P ctx i s = (s', e)"
  shows "e = None \<and> fp_load P None i s' = (Inr None, s')"
  using delete_ok [OF assms(1,2), of ctx] assms(3) load_ok [OF assms(1)] by auto

lemma save_other:
  assumes "okid i" "okid j" "i \<noteq> j" "ok s" "fp_save P None i (Some m) s = (s', e)"
  shows "fst (fp_load P None j s') = fst (fp_load P None j s)"
  using save_ok [OF assms(1,4), of m] assms load_ok [OF assms(2)] by fastforce

end

definition disk_ok :: "fdisk \<Rightarrow> bool" where
  "disk_ok d \<longleftrightarrow> os_errs d = [] \<and> (\<forall>p e. (p, DBad e) \<notin> set (files d))"

definition saved_state :: "string \<Rightarrow> string \<Rightarrow> fdisk \<Rightarrow> gmap option" where
  "saved_state dir i d = (case map_of (files d) (state_path dir i) of Some (DState st) \<Rightarrow> st | _ \<Rightarrow> None)"

abbreviation valid_id :: "string \<Rightarrow> bool" where
  "valid_id i \<equiv> cleanFlowID i = Inr i"

lemma AList_update_set: "(p, x) \<in> set (AList.update k v xs) \<Longrightarrow> (p, x) = (k, v) \<or> (p, x) \<in> set xs"
  by (induction xs) (auto split: if_splits)

lemma read_bad: "disk_ok d \<Longrightarrow> map_of (files d) p \<noteq> Some (DBad e)"
  unfolding disk_ok_def by (metis map_of_SomeD)

interpretation jsonp: flow_store "NewJSONFilePersistence dir" valid_id disk_ok "saved_state dir" for dir
proof
  fix i s m assume v: "valid_id i" and o: "disk_ok s"
  let ?s' = "s\<lparr>files := AList.update (state_path dir i) (DState (Some (json_norm_map m))) (files s)\<rparr>"
  have "fp_save (NewJSONFilePersistence dir) None i (Some m) s = (?s', None)"
    using v o by (simp add: NewJSONFilePersistence_def SaveState_def disk_ok_def atomicWriteFile_healthy)
  moreover have "disk_ok ?s'" using o by (auto simp: disk_ok_def dest: AList_update_set)
  moreover have "saved_state dir i ?s' = Some (json_norm_map m)"
    by (simp add: saved_state_def update_conv')
  moreover have "\<forall>j. valid_id j \<and> j \<noteq> i \<longrightarrow> saved_state dir j ?s' = saved_state dir j s"
    using v by (auto simp: saved_state_def update_conv' state_path_inj)
  ultimately show "\<exists>s'. fp_save (NewJSONFilePersistence dir) None i (Some m) s = (s', None) \<and> disk_ok s' \<and>
      saved_state dir i s' = Some (json_norm_map m) \<and>
      (\<forall>j. valid_id j \<and> j \<noteq> i \<longrightarrow> saved_state dir j s' = saved_state dir j s)" by blast
next
  fix i s assume v: "valid_id i" and o: "disk_ok s"
  have "read_file (state_path dir i) s = (Inr (map_of (files s) (state_path dir i)), s)"
    using o by (simp add: read_file_def disk_ok_def)
  then show "fp_load (NewJSONFilePersistence dir) None i s = (Inr (saved_state dir i s), s)"
    using v read_bad [OF o]
    by (auto simp: NewJSONFilePersistence_def LoadState_def saved_state_def split: option.splits state_doc.splits)
next
  fix i s ctx assume v: "valid_id i" and o: "disk_ok s"
  let ?s' = "s\<lparr>files := AList.delete (state_path dir i) (files s)\<rparr>"
  have "fp_delete (NewJSONFilePersistence dir) ctx i s = (?s', None)"
    using v o by (simp add: NewJSONFilePersistence_def DeleteState_def remove_file_def disk_ok_def)
  moreover have "disk_ok ?s'" using o by (auto simp: disk_ok_def AList.delete_eq)
  moreover have "saved_state dir i ?s' = None" by (simp add: saved_state_def delete_conv')
  moreover have "\<forall>j. valid_id j \<and> j \<noteq> i \<longrightarrow> saved_state dir j ?s' = saved_state dir j s"
    using v by (auto simp: saved_state_def delete_conv' state_path_inj)
  ultimately show "\<exists>s'. fp_delete (NewJSONFilePersistence dir) ctx i s = (s', None) \<and> disk_ok s' \<and>
      saved_state dir i s' = None \<and>
      (\<forall>j. valid_id j \<and> j \<noteq> i \<longrightarrow> saved_state dir j s' = saved_state dir j s)" by blast
qed

section \<open>PersistentFlow\<close>

text \<open>
  \<open>dn i\<close> is what the context reports at the loop's check before node \<open>i\<close> and \<open>cs i\<close> what it reports
  when the state is saved after node \<open>i\<close>.
\<close>

record 's PersistentFlow =
  pf_flow :: Flow
  pf_persistence :: "'s FlowPersistence"
  pf_flowID :: string

definition pf_node_err :: "nat \<Rightarrow> goerr \<Rightarrow> goerr" where
  "pf_node_err i e = EWrap (''persistent flow node '' @ show_nat i @ '' failed: '') e []"

fun pf_nodes ::
  "nat \<Rightarrow> (nat \<Rightarrow> goerr option) \<Rightarrow> (nat \<Rightarrow> goerr option) \<Rightarrow> 's PersistentFlow \<Rightarrow> nat \<Rightarrow> node list \<Rightarrow>
    flow_world \<Rightarrow> 's \<Rightarrow> (flow_world \<times> 's \<times> goerr option) option" where
  "pf_nodes k dn cs pf i [] w s = Some (w, s, None)"
| "pf_nodes k dn cs pf i (n # ns) w s =
     (let r = fl_state (pf_flow pf); P = pf_persistence pf in
      case dn i of
        Some e \<Rightarrow> Some (w, s, Some e)
      | None \<Rightarrow>
          (case run_node k (pf_flow pf) n r w of
             None \<Rightarrow> None
           | Some (w1, Inl e) \<Rightarrow>
               (let (s1, _) = fp_save P (cs i) (pf_flowID pf) (Some (heap w1 r)) s
                in Some (w1, s1, Some (pf_node_err i e)))
           | Some (w1, Inr ro) \<Rightarrow>
               (let w2 = merge_into r ro w1 in
                case fp_save P (cs i) (pf_flowID pf) (Some (heap w2 r)) s of
                  (s1, Some e) \<Rightarrow>
                    Some (w2, s1, Some (EWrap (''state persistence failed at node '' @ show_nat i @ '': '') e []))
                | (s1, None) \<Rightarrow> pf_nodes k dn cs pf (Suc i) ns w2 s1)))"

definition pf_restore :: "goerr option \<Rightarrow> 's PersistentFlow \<Rightarrow> flow_world \<Rightarrow> 's \<Rightarrow> flow_world \<times> 's" where
  "pf_restore c0 pf w s =
     (let r = fl_state (pf_flow pf) in
      case fp_load (pf_persistence pf) c0 (pf_flowID pf) s of
        (Inr (Some m), s1) \<Rightarrow> (store_at r (heap w r ++ m) w, s1)
      | (_, s1) \<Rightarrow> (w, s1))"

definition pf_Kickoff ::
  "nat \<Rightarrow> goerr option \<Rightarrow> (nat \<Rightarrow> goerr option) \<Rightarrow> (nat \<Rightarrow> goerr option) \<Rightarrow> goerr option \<Rightarrow> 's PersistentFlow \<Rightarrow>
    flow_world \<Rightarrow> 's \<Rightarrow> (flow_world \<times> 's \<times> (goerr + sref)) option" where
  "pf_Kickoff k c0 dn cs c1 pf w s =
     (let (w0, s0) = pf_restore c0 pf w s in
      case pf_nodes k dn cs pf 0 (fl_nodes (pf_flow pf)) w0 s0 of
        None \<Rightarrow> None
      | Some (w1, s1, Some e) \<Rightarrow> Some (w1, s1, Inl e)
      | Some (w1, s1, None) \<Rightarrow>
          (let (s2, _) = fp_delete (pf_persistence pf) c1 (pf_flowID pf) s1
           in Some (w1, s2, Inr (fl_state (pf_flow pf)))))"

definition SetPersistence :: "'s FlowPersistence \<Rightarrow> 's PersistentFlow \<Rightarrow> 's PersistentFlow" where
  "SetPersistence P pf = pf\<lparr>pf_persistence := P\<rparr>"

definition NewPersistentFlow ::
  "string \<Rightarrow> 's FlowPersistence \<Rightarrow> gmap option \<Rightarrow> flow_world \<Rightarrow> 's PersistentFlow \<times> flow_world" where
  "NewPersistentFlow i P initial w =
     (let (f, w1) = NewFlow initial w in (\<lparr>pf_flow = f, pf_persistence = P, pf_flowID = i\<rparr>, w1))"

section \<open>TypedFlow\<close>

text \<open>
  The state type \<open>'t\<close> is the caller's. \<open>enc\<close> is the JSON value \<^verbatim>\<open>json.Marshal\<close> gives for it and \<open>decd\<close>
  what \<^verbatim>\<open>json.Unmarshal\<close> does to a target of that type (it may change the target before it fails).
  A nil interface or an empty identifier turns persistence off.
\<close>

record ('t, 's) TypedFlow =
  tf_nodes :: "('t \<Rightarrow> 't result) list"
  tf_state :: 't
  tf_persistence :: "'s FlowPersistence option"
  tf_flowID :: string

definition typedStateKey :: string where
  "typedStateKey = ''__typed_state''"

definition NewTypedFlow :: "'t \<Rightarrow> ('t, 's) TypedFlow" where
  "NewTypedFlow initial = \<lparr>tf_nodes = [], tf_state = initial, tf_persistence = None, tf_flowID = []\<rparr>"

definition WithPersistence :: "string \<Rightarrow> 's FlowPersistence \<Rightarrow> ('t, 's) TypedFlow \<Rightarrow> ('t, 's) TypedFlow" where
  "WithPersistence i P f = f\<lparr>tf_flowID := i, tf_persistence := Some P\<rparr>"

definition tf_AddNode :: "('t \<Rightarrow> 't result) \<Rightarrow> ('t, 's) TypedFlow \<Rightarrow> ('t, 's) TypedFlow" where
  "tf_AddNode n f = f\<lparr>tf_nodes := tf_nodes f @ [n]\<rparr>"

definition saveTypedState ::
  "('t \<Rightarrow> goerr + gvalue) \<Rightarrow> goerr option \<Rightarrow> 's FlowPersistence \<Rightarrow> string \<Rightarrow> 't \<Rightarrow> 's \<Rightarrow> 's \<times> goerr option" where
  "saveTypedState enc ctx P i t s =
     (case enc t of
        Inl e \<Rightarrow> (s, Some (EWrap ''failed to marshal typed state: '' e []))
      | Inr v \<Rightarrow> fp_save P ctx i (Some [typedStateKey \<mapsto> v]) s)"

definition restoreTypedState :: "(gvalue \<Rightarrow> 't \<Rightarrow> 't \<times> goerr option) \<Rightarrow> gmap \<Rightarrow> 't \<Rightarrow> 't \<times> goerr option" where
  "restoreTypedState decd sv t =
     (case sv typedStateKey of
        None \<Rightarrow> (t, Some (EMsg (''no '' @ [CHR 0x22] @ typedStateKey @ [CHR 0x22] @ '' in persisted state'')))
      | Some v \<Rightarrow>
          (case decd v t of
             (t1, Some e) \<Rightarrow> (t1, Some (EWrap ''failed to decode persisted state: '' e []))
           | (t1, None) \<Rightarrow> (t1, None)))"

definition tf_backend :: "('t, 's) TypedFlow \<Rightarrow> 's FlowPersistence option" where
  "tf_backend f = (if tf_flowID f \<noteq> [] then tf_persistence f else None)"

definition tf_node_err :: "nat \<Rightarrow> goerr \<Rightarrow> goerr" where
  "tf_node_err i e = EWrap (''node '' @ show_nat i @ '' failed: '') e []"

fun tf_nodes_run ::
  "('t \<Rightarrow> goerr + gvalue) \<Rightarrow> (nat \<Rightarrow> goerr option) \<Rightarrow> (nat \<Rightarrow> goerr option) \<Rightarrow> nat \<Rightarrow> ('t \<Rightarrow> 't result) list \<Rightarrow>
    ('t, 's) TypedFlow \<Rightarrow> 's \<Rightarrow> ('t, 's) TypedFlow \<times> 's \<times> goerr option" where
  "tf_nodes_run enc dn cs i [] f s = (f, s, None)"
| "tf_nodes_run enc dn cs i (n # ns) f s =
     (case dn i of
        Some e \<Rightarrow> (f, s, Some e)
      | None \<Rightarrow>
          (case n (tf_state f) of
             Inl e \<Rightarrow> (f, s, Some (tf_node_err i e))
           | Inr t \<Rightarrow>
               (let f1 = f\<lparr>tf_state := t\<rparr> in
                case tf_backend f of
                  None \<Rightarrow> tf_nodes_run enc dn cs (Suc i) ns f1 s
                | Some P \<Rightarrow>
                    (case saveTypedState enc (cs i) P (tf_flowID f) t s of
                       (s1, Some e) \<Rightarrow>
                         (f1, s1, Some (EWrap (''typed flow: state persistence failed at node '' @ show_nat i @ '': '') e []))
                     | (s1, None) \<Rightarrow> tf_nodes_run enc dn cs (Suc i) ns f1 s1))))"

definition tf_restore ::
  "(gvalue \<Rightarrow> 't \<Rightarrow> 't \<times> goerr option) \<Rightarrow> goerr option \<Rightarrow> ('t, 's) TypedFlow \<Rightarrow> 's \<Rightarrow> ('t, 's) TypedFlow \<times> 's \<times> goerr option" where
  "tf_restore decd c0 f s =
     (case tf_backend f of
        None \<Rightarrow> (f, s, None)
      | Some P \<Rightarrow>
          (case fp_load P c0 (tf_flowID f) s of
             (Inl e, s1) \<Rightarrow> (f, s1, Some (EWrap ''typed flow: failed to load state: '' e []))
           | (Inr None, s1) \<Rightarrow> (f, s1, None)
           | (Inr (Some sv), s1) \<Rightarrow>
               (case restoreTypedState decd sv (tf_state f) of
                  (t, Some e) \<Rightarrow> (f\<lparr>tf_state := t\<rparr>, s1, Some (EWrap ''typed flow: failed to restore state: '' e []))
                | (t, None) \<Rightarrow> (f\<lparr>tf_state := t\<rparr>, s1, None))))"

text \<open>\<^verbatim>\<open>Kickoff\<close> returns \<^verbatim>\<open>f.state\<close>, which is \<open>tf_state\<close> of the flow it leaves, and the error.\<close>

definition tf_Kickoff ::
  "('t \<Rightarrow> goerr + gvalue) \<Rightarrow> (gvalue \<Rightarrow> 't \<Rightarrow> 't \<times> goerr option) \<Rightarrow> goerr option \<Rightarrow> (nat \<Rightarrow> goerr option) \<Rightarrow>
    (nat \<Rightarrow> goerr option) \<Rightarrow> ('t, 's) TypedFlow \<Rightarrow> 's \<Rightarrow> ('t, 's) TypedFlow \<times> 's \<times> goerr option" where
  "tf_Kickoff enc decd c0 dn cs f s =
     (case tf_restore decd c0 f s of
        (f0, s0, Some e) \<Rightarrow> (f0, s0, Some e)
      | (f0, s0, None) \<Rightarrow> tf_nodes_run enc dn cs 0 (tf_nodes f) f0 s0)"

section \<open>Flows over a store that keeps its contract\<close>

fun typed_spec :: "(nat \<Rightarrow> goerr option) \<Rightarrow> nat \<Rightarrow> ('t \<Rightarrow> 't result) list \<Rightarrow> 't \<Rightarrow> 't \<times> goerr option" where
  "typed_spec dn i [] t = (t, None)"
| "typed_spec dn i (n # ns) t =
     (case dn i of Some e \<Rightarrow> (t, Some e)
      | None \<Rightarrow> (case n t of Inl e \<Rightarrow> (t, Some (tf_node_err i e)) | Inr t1 \<Rightarrow> typed_spec dn (Suc i) ns t1))"

definition typed_codec :: "('t \<Rightarrow> goerr + gvalue) \<Rightarrow> (gvalue \<Rightarrow> 't \<Rightarrow> 't \<times> goerr option) \<Rightarrow> bool" where
  "typed_codec enc decd \<longleftrightarrow> (\<forall>t. \<exists>v. enc t = Inr v \<and> (\<forall>u. decd (json_norm v) u = (t, None)))"

lemma run_user_cases:
  assumes "r < fresh w"
  shows "\<exists>w1 x. run_user fn r w = (w1, x) \<and> fresh w \<le> fresh w1 \<and>
    (case fn (heap w r) of
       (m1, Inl e) \<Rightarrow> x = Inl e \<and> heap w1 r = m1
     | (m1, Inr q) \<Rightarrow> (\<exists>ro. x = Inr ro \<and> heap (merge_into r ro w1) r =
         m1 ++ (case q of RetArg \<Rightarrow> m1 | RetFresh m' \<Rightarrow> m' | RetNil \<Rightarrow> Map.empty)))"
  using assms
  by (auto simp: run_user_def alloc_def Let_def split: prod.split sum.split uret.split)

context flow_store
begin

lemma pf_nodes_spec:
  assumes "pf_persistence pf = P" "okid (pf_flowID pf)" "ok s" "fl_state (pf_flow pf) < fresh w"
  shows "\<exists>w' s'. pf_nodes (Suc k) dn (\<lambda>_. None) pf i (map NUser fns) w s =
      Some (w', s', snd (seq_spec pf_node_err dn i fns (heap w (fl_state (pf_flow pf))))) \<and>
    heap w' (fl_state (pf_flow pf)) = fst (seq_spec pf_node_err dn i fns (heap w (fl_state (pf_flow pf)))) \<and>
    ok s' \<and>
    saved (pf_flowID pf) s' =
      (if fns = [] \<or> dn i \<noteq> None then saved (pf_flowID pf) s
       else Some (json_norm_map (fst (seq_spec pf_node_err dn i fns (heap w (fl_state (pf_flow pf)))))))"
  using assms(3,4)
proof (induction fns arbitrary: i w s)
  case Nil
  then show ?case by simp
next
  case (Cons fn fns)
  let ?r = "fl_state (pf_flow pf)" and ?i = "pf_flowID pf"
  show ?case
  proof (cases "dn i")
    case (Some e)
    then show ?thesis using Cons.prems by simp
  next
    case None
    obtain w1 x where u: "run_user fn ?r w = (w1, x)" "fresh w \<le> fresh w1"
      and c: "case fn (heap w ?r) of
       (m1, Inl e) \<Rightarrow> x = Inl e \<and> heap w1 ?r = m1
     | (m1, Inr q) \<Rightarrow> (\<exists>ro. x = Inr ro \<and> heap (merge_into ?r ro w1) ?r =
         m1 ++ (case q of RetArg \<Rightarrow> m1 | RetFresh m' \<Rightarrow> m' | RetNil \<Rightarrow> Map.empty))"
      using run_user_cases [OF Cons.prems(2), of fn] by (elim exE conjE) (rule that)
    obtain m1 res where fn: "fn (heap w ?r) = (m1, res)" by (cases "fn (heap w ?r)")
    show ?thesis
    proof (cases res)
      case (Inl e)
      obtain s1 where s1: "fp_save P None ?i (Some m1) s = (s1, None)" "ok s1"
        "saved ?i s1 = Some (json_norm_map m1)"
        using save_ok [OF assms(2) Cons.prems(1), of m1] by blast
      then show ?thesis using None fn Inl c u assms(1) by (simp add: Let_def)
    next
      case (Inr q)
      then obtain ro where ro: "x = Inr ro" "heap (merge_into ?r ro w1) ?r =
         m1 ++ (case q of RetArg \<Rightarrow> m1 | RetFresh m' \<Rightarrow> m' | RetNil \<Rightarrow> Map.empty)"
        using c fn by auto
      let ?w2 = "merge_into ?r ro w1"
      obtain s1 where s1: "fp_save P None ?i (Some (heap ?w2 ?r)) s = (s1, None)" "ok s1"
        "saved ?i s1 = Some (json_norm_map (heap ?w2 ?r))"
        using save_ok [OF assms(2) Cons.prems(1), of "heap ?w2 ?r"] by blast
      have "?r < fresh ?w2" using u(2) Cons.prems(2) by simp
      from Cons.IH [OF s1(2) this, of "Suc i"] obtain w' s' where
        ih: "pf_nodes (Suc k) dn (\<lambda>_. None) pf (Suc i) (map NUser fns) ?w2 s1 =
          Some (w', s', snd (seq_spec pf_node_err dn (Suc i) fns (heap ?w2 ?r)))"
        "heap w' ?r = fst (seq_spec pf_node_err dn (Suc i) fns (heap ?w2 ?r))" "ok s'"
        "saved ?i s' = (if fns = [] \<or> dn (Suc i) \<noteq> None then saved ?i s1
           else Some (json_norm_map (fst (seq_spec pf_node_err dn (Suc i) fns (heap ?w2 ?r)))))"
        by blast
      have sv: "saved ?i s' = Some (json_norm_map (fst (seq_spec pf_node_err dn (Suc i) fns (heap ?w2 ?r))))"
        using ih(4) s1(3) by (cases fns) (auto split: if_splits)
      have sp: "seq_spec pf_node_err dn i (fn # fns) (heap w ?r) = seq_spec pf_node_err dn (Suc i) fns (heap ?w2 ?r)"
        using None fn Inr ro(2) by (simp split: uret.splits)
      have "pf_nodes (Suc k) dn (\<lambda>_. None) pf i (map NUser (fn # fns)) w s =
          pf_nodes (Suc k) dn (\<lambda>_. None) pf (Suc i) (map NUser fns) ?w2 s1"
        using None u(1) ro(1) s1(1) assms(1) by (simp add: Let_def del: merge_into_simps)
      then show ?thesis using ih sv None unfolding sp by simp
    qed
  qed
qed

definition snap :: "('t \<Rightarrow> goerr + gvalue) \<Rightarrow> string \<Rightarrow> 't \<Rightarrow> 's \<Rightarrow> bool" where
  "snap enc i t s \<longleftrightarrow> (\<exists>v. enc t = Inr v \<and> saved i s = Some [typedStateKey \<mapsto> json_norm v])"

lemma saveTypedState_snap:
  assumes "typed_codec enc decd" "okid i" "ok s"
  shows "\<exists>s'. saveTypedState enc None P i t s = (s', None) \<and> ok s' \<and> snap enc i t s'"
proof -
  obtain v where v: "enc t = Inr v" using assms(1) unfolding typed_codec_def by blast
  have "json_norm_map [typedStateKey \<mapsto> v] = [typedStateKey \<mapsto> json_norm v]"
    by (auto simp: json_norm_map_def)
  then show ?thesis
    using save_ok [OF assms(2,3), of "[typedStateKey \<mapsto> v]"] v
    by (auto simp: saveTypedState_def snap_def)
qed

lemma tf_nodes_run_spec:
  assumes "typed_codec enc decd" "okid (tf_flowID f)" "tf_backend f = Some P" "ok s"
  shows "\<exists>s'. tf_nodes_run enc dn (\<lambda>_. None) i ns f s =
      (f\<lparr>tf_state := fst (typed_spec dn i ns (tf_state f))\<rparr>, s', snd (typed_spec dn i ns (tf_state f))) \<and>
    ok s' \<and> (snap enc (tf_flowID f) (tf_state f) s \<longrightarrow>
      snap enc (tf_flowID f) (fst (typed_spec dn i ns (tf_state f))) s')"
  using assms(2-)
proof (induction ns arbitrary: i f s)
  case Nil
  then show ?case by simp
next
  case (Cons n ns)
  show ?case
  proof (cases "dn i = None \<and> (\<exists>t. n (tf_state f) = Inr t)")
    case True
    then obtain t where t: "dn i = None" "n (tf_state f) = Inr t" by blast
    obtain s1 where s1: "saveTypedState enc None P (tf_flowID f) t s = (s1, None)" "ok s1"
      "snap enc (tf_flowID f) t s1"
      using saveTypedState_snap [OF assms(1) Cons.prems(1,3)] by blast
    have b: "tf_backend (f\<lparr>tf_state := t\<rparr>) = Some P"
      using Cons.prems(2) by (simp add: tf_backend_def split: if_splits)
    show ?thesis using Cons.IH [of "f\<lparr>tf_state := t\<rparr>" s1 "Suc i"] Cons.prems t s1 b by auto
  next
    case False
    then show ?thesis using Cons.prems by (auto split: option.splits sum.splits)
  qed
qed

lemma tf_restore_snap:
  assumes "typed_codec enc decd" "okid (tf_flowID g)" "tf_backend g = Some P" "ok s"
    "snap enc (tf_flowID g) t s"
  shows "tf_restore decd None g s = (g\<lparr>tf_state := t\<rparr>, s, None)"
proof -
  obtain v where v: "enc t = Inr v" "saved (tf_flowID g) s = Some [typedStateKey \<mapsto> json_norm v]"
    using assms(5) unfolding snap_def by blast
  have "decd (json_norm v) u = (t, None)" for u
    using assms(1) v(1) unfolding typed_codec_def by (metis sum.inject(2))
  then show ?thesis
    using v(2) assms(3) load_ok [OF assms(2,4)] by (simp add: tf_restore_def restoreTypedState_def)
qed

end

definition resume_state :: "gmap \<Rightarrow> gmap option \<Rightarrow> gmap" where
  "resume_state m sv = (case sv of None \<Rightarrow> m | Some s \<Rightarrow> m ++ s)"

section \<open>Properties\<close>

text \<open>
  An identifier \<^verbatim>\<open>cleanFlowID\<close> accepts names a file directly inside the storage directory,
  whatever the directory is: the cleaned path is the cleaned directory with one more element,
  \<open><id>.json\<close>. Distinct accepted identifiers never share a file.
\<close>

theorem flow_id_confined:
  assumes "cleanFlowID i = Inr i'"
  shows "i' = i \<and> length i \<le> 128 \<and>
    state_path dir i = (if dir = [] then i @ ''.json'' else render_path (is_rooted dir) ((i @ ''.json'') # clean_stack dir)) \<and>
    (cleanFlowID j = Inr j \<longrightarrow> (state_path dir i = state_path dir j \<longleftrightarrow> i = j))"
proof -
  have c: "i' = i" "i \<noteq> []" "length i \<le> 128" "CHR ''/'' \<notin> set i"
    using clean_id_ok [OF assms [unfolded cleanFlowID_def]] by simp_all
  then have "path_join dir (i @ ''.json'') =
      (if dir = [] then i @ ''.json'' else render_path (is_rooted dir) ((i @ ''.json'') # clean_stack dir))"
    by (intro path_join_child) (auto simp: append_eq_Cons_conv)
  then show ?thesis using c assms state_path_inj [of i j dir] by (auto simp: state_path_def)
qed

theorem flow_id_confined_witness:
  "state_path ''/var/x/../flows/'' ''run.1'' = ''/var/flows/run.1.json''"
proof -
  have "cleanFlowID ''run.1'' = Inr ''run.1''"
    unfolding cleanFlowID_def clean_id_iff by (simp add: sublist_code)
  from flow_id_confined [OF this, of "''/var/x/../flows/''" "''b''"] show ?thesis
    by (simp add: is_rooted_def clean_stack_def clean_step_def render_path_def)
qed

text \<open>
  The file store round trip. Under a valid identifier, on a disk that reports no error, a
  saved state is loaded back in its JSON normal form (integers as floats, typed slices as
  generic ones), the states of other flows load as before, and after a delete there is none.
\<close>

theorem state_file_roundtrip:
  assumes "cleanFlowID i = Inr i" "disk_ok d" "SaveState dir None i (Some m) d = (d1, e)"
  shows "e = None \<and> LoadState dir None i d1 = (Inr (Some (json_norm_map m)), d1) \<and>
    (cleanFlowID j = Inr j \<and> j \<noteq> i \<longrightarrow> fst (LoadState dir None j d1) = fst (LoadState dir None j d)) \<and>
    (\<exists>d2. DeleteState dir ctx i d1 = (d2, None) \<and> LoadState dir None i d2 = (Inr None, d2))"
proof -
  note ops = NewJSONFilePersistence_def FlowPersistence.simps
  have s: "fp_save (NewJSONFilePersistence dir) None i (Some m) d = (d1, e)"
    using assms(3) by (simp add: ops)
  have "disk_ok d1" using jsonp.save_ok [OF assms(1,2), of dir m] s by auto
  then obtain d2 where d2: "fp_delete (NewJSONFilePersistence dir) ctx i d1 = (d2, None)"
    using jsonp.delete_ok [OF assms(1), of d1 dir ctx] by blast
  show ?thesis
    using jsonp.load_after_save [OF assms(1,2) s] jsonp.save_other [OF assms(1) _ _ assms(2) s, of j]
      jsonp.load_after_delete [OF assms(1) \<open>disk_ok d1\<close> d2] d2
    by (auto simp: ops)
qed

definition wit_disk :: fdisk where
  "wit_disk = \<lparr>files = [], os_errs = []\<rparr>"

lemma wit_id: "cleanFlowID ''f'' = Inr ''f''"
  unfolding cleanFlowID_def clean_id_iff by (simp add: sublist_code)

lemma wit_disk_ok: "disk_ok wit_disk"
  by (simp add: disk_ok_def wit_disk_def)

theorem state_file_roundtrip_witness:
  "fst (LoadState ''d'' None ''f'' (fst (SaveState ''d'' None ''f'' (Some [''n'' \<mapsto> VInt 3]) wit_disk))) =
     Inr (Some [''n'' \<mapsto> VFloat 3])"
proof -
  obtain d1 e where s: "SaveState ''d'' None ''f'' (Some [''n'' \<mapsto> VInt 3]) wit_disk = (d1, e)"
    by fastforce
  have "json_norm_map [''n'' \<mapsto> VInt 3] = [''n'' \<mapsto> VFloat 3]"
    by (auto simp: json_norm_map_def)
  then show ?thesis
    using state_file_roundtrip [OF wit_id wit_disk_ok s, of "''g''" None] s by simp
qed


definition wit_fail :: user_fn where
  "wit_fail m = (m, Inl (EMsg ''x''))"

definition wit_pf :: "fdisk PersistentFlow" where
  "wit_pf = \<lparr>pf_flow = wit_flow\<lparr>fl_nodes := map NUser [wit_fn, wit_fail]\<rparr>,
     pf_persistence = NewJSONFilePersistence ''d'', pf_flowID = ''f''\<rparr>"


text \<open>
  A \<^verbatim>\<open>TypedFlow\<close> persists after every successful node and never deletes, so once one node has
  succeeded any later \<^verbatim>\<open>Kickoff\<close> under the same identifier, after a failure and after a complete run
  alike, starts from the state the earlier one returned. The encoding of the state type must
  survive JSON (\<open>typed_codec\<close>).
\<close>

theorem typed_flow_resumes:
  assumes "typed_codec enc decd" "cleanFlowID (tf_flowID f) = Inr (tf_flowID f)" "disk_ok d"
    "tf_persistence f = Some (NewJSONFilePersistence dir)" "saved_state dir (tf_flowID f) d = None"
    "tf_nodes f = n # ns" "dn 0 = None" "n (tf_state f) = Inr t"
    "tf_Kickoff enc decd None dn (\<lambda>_. None) f d = (f', d', err)"
    "tf_persistence g = tf_persistence f" "tf_flowID g = tf_flowID f"
  shows "(tf_state f', err) = typed_spec dn 0 (n # ns) (tf_state f) \<and>
    tf_restore decd None g d' = (g\<lparr>tf_state := tf_state f'\<rparr>, d', None)"
proof -
  let ?P = "NewJSONFilePersistence dir" and ?i = "tf_flowID f"
  have ne: "?i \<noteq> []" using clean_id_ok [OF assms(2) [unfolded cleanFlowID_def]] by simp
  then have b: "tf_backend f = Some ?P" "tf_backend g = Some ?P"
    using assms(4,10,11) by (simp_all add: tf_backend_def)
  let ?f1 = "f\<lparr>tf_state := t\<rparr>"
  have b1: "tf_backend ?f1 = Some ?P" using ne assms(4) by (simp add: tf_backend_def)
  obtain d1 where d1: "saveTypedState enc None ?P ?i t d = (d1, None)" "disk_ok d1" "jsonp.snap dir enc ?i t d1"
    using jsonp.saveTypedState_snap [OF assms(1,2,3)] by blast
  obtain d2 where d2: "tf_nodes_run enc dn (\<lambda>_. None) (Suc 0) ns ?f1 d1 =
      (?f1\<lparr>tf_state := fst (typed_spec dn (Suc 0) ns t)\<rparr>, d2, snd (typed_spec dn (Suc 0) ns t))"
    "disk_ok d2" "jsonp.snap dir enc ?i (fst (typed_spec dn (Suc 0) ns t)) d2"
    using jsonp.tf_nodes_run_spec [OF assms(1) _ b1 d1(2), of dn "Suc 0" ns] assms(2) d1(3) by auto
  have "tf_restore decd None f d = (f, d, None)"
    using jsonp.load_ok [OF assms(2,3), of dir] assms(5) b by (simp add: tf_restore_def)
  then have k: "f' = ?f1\<lparr>tf_state := fst (typed_spec dn (Suc 0) ns t)\<rparr>" "d' = d2"
    "err = snd (typed_spec dn (Suc 0) ns t)"
    using assms(6-9) b d1(1) d2(1) by (auto simp: tf_Kickoff_def)
  have "jsonp.snap dir enc (tf_flowID g) (fst (typed_spec dn (Suc 0) ns t)) d2"
    using d2(3) assms(11) by simp
  from jsonp.tf_restore_snap [OF assms(1) _ b(2) d2(2) this] show ?thesis
    using k assms(2,7,8,11) by simp
qed

definition wit_tf :: "(int, fdisk) TypedFlow" where
  "wit_tf = \<lparr>tf_nodes = [\<lambda>t. Inr (t + 1)], tf_state = 5,
     tf_persistence = Some (NewJSONFilePersistence ''d''), tf_flowID = ''f''\<rparr>"

definition wit_dec :: "gvalue \<Rightarrow> int \<Rightarrow> int \<times> goerr option" where
  "wit_dec v t = (case v of VFloat x \<Rightarrow> (\<lfloor>x\<rfloor>, None) | _ \<Rightarrow> (t, Some (EMsg ''number expected'')))"

theorem typed_flow_resumes_witness:
  "\<exists>d'. tf_Kickoff (Inr \<circ> VInt) wit_dec None (\<lambda>_. None) (\<lambda>_. None) wit_tf wit_disk = (wit_tf\<lparr>tf_state := 6\<rparr>, d', None) \<and>
     tf_restore wit_dec None wit_tf d' = (wit_tf\<lparr>tf_state := 6\<rparr>, d', None)"
proof -
  have c: "typed_codec (Inr \<circ> VInt) wit_dec" by (simp add: typed_codec_def wit_dec_def)
  obtain f' d' err where k: "tf_Kickoff (Inr \<circ> VInt) wit_dec None (\<lambda>_. None) (\<lambda>_. None) wit_tf wit_disk = (f', d', err)"
    using prod_cases3 by blast
  have "(tf_state f', err) = typed_spec (\<lambda>_. None) 0 [\<lambda>t. Inr (t + 1)] (tf_state wit_tf) \<and>
      tf_restore wit_dec None wit_tf d' = (wit_tf\<lparr>tf_state := tf_state f'\<rparr>, d', None)"
    by (rule typed_flow_resumes [OF c _ wit_disk_ok _ _ _ _ _ k])
      (simp_all add: wit_tf_def wit_id saved_state_def wit_disk_def)
  moreover have "f' = wit_tf\<lparr>tf_state := 6\<rparr>"
    using k wit_id
    by (simp add: tf_Kickoff_def tf_restore_def tf_backend_def wit_tf_def NewJSONFilePersistence_def LoadState_def
        read_file_def wit_disk_def saveTypedState_def SaveState_def atomicWriteFile_def)
  ultimately show ?thesis using k by (simp add: wit_tf_def)
qed

end
