(* ===== verification/Guardrails.thy ===== *)
theory Guardrails
  imports Go_Prelude
begin

text \<open>
  Output validation and input sanitising of \<^verbatim>\<open>pkg/guardrails\<close>: \<^verbatim>\<open>guardrails.go\<close>, \<^verbatim>\<open>sanitizer.go\<close>, and the
  size bound and regular-expression guard of \<^verbatim>\<open>parsers.go\<close>.

  The regular-expression engine is an argument: \<open>compile\<close> gives for a pattern an error or a compiled
  expression \<open>regex\<close>, of which the code uses matching, replacing every match by nothing, and its
  text. A guardrail is the pair of methods of the interface \<^verbatim>\<open>Guardrail\<close>.
\<close>

section \<open>Guardrails\<close>

record Guardrail =
  g_Name :: string
  g_Validate :: "string \<Rightarrow> goerr option"

record regex =
  re_match :: "string \<Rightarrow> bool"
  re_erase :: "string \<Rightarrow> string"
  re_text :: string

text \<open>\<^verbatim>\<open>strings.Fields\<close>: the maximal runs of non-space bytes.\<close>

fun fields_acc :: "string \<Rightarrow> string \<Rightarrow> string list" where
  "fields_acc w [] = (if w = [] then [] else [rev w])"
| "fields_acc w (c # cs) =
     (if is_space c then (if w = [] then fields_acc [] cs else rev w # fields_acc [] cs)
      else fields_acc (c # w) cs)"

definition str_fields :: "string \<Rightarrow> string list" where
  "str_fields s = fields_acc [] s"

definition NewMaxTokenGuardrail :: "int \<Rightarrow> Guardrail" where
  "NewMaxTokenGuardrail maxTokens =
     \<lparr>g_Name = ''MaxTokenGuardrail'',
      g_Validate = (\<lambda>output. let n = int (length (str_fields output)) in
        if n > maxTokens
        then Some (EMsg (''output has '' @ show_int n @ '' tokens, exceeds maximum of '' @ show_int maxTokens)) else None)\<rparr>"

record ContentFilter =
  cf_Forbidden :: "regex list"
  cf_Raw :: "string list"
  cf_CaseInsensitive :: bool
  cf_Severity :: string

definition WithCaseInsensitive :: "ContentFilter \<Rightarrow> ContentFilter" where
  "WithCaseInsensitive c = c\<lparr>cf_CaseInsensitive := True\<rparr>"

definition WithSeverity :: "string \<Rightarrow> ContentFilter \<Rightarrow> ContentFilter" where
  "WithSeverity s c = c\<lparr>cf_Severity := s\<rparr>"

fun compile_all :: "(string \<Rightarrow> regex result) \<Rightarrow> bool \<Rightarrow> string list \<Rightarrow> regex list result" where
  "compile_all compile ci [] = Inr []"
| "compile_all compile ci (p # ps) =
     (case compile p of
        Inl e \<Rightarrow> Inl (EWrap (''invalid pattern '' @ [CHR 0x27] @ p @ [CHR 0x27] @ '': '') e [])
      | Inr re \<Rightarrow>
          (let re1 = (if ci then (case compile (''(?i)'' @ p) of Inr r \<Rightarrow> r | Inl _ \<Rightarrow> re) else re) in
           case compile_all compile ci ps of Inl e \<Rightarrow> Inl e | Inr rs \<Rightarrow> Inr (re1 # rs)))"

text \<open>
  The options are applied to a scratch value; the guardrail returned is built afresh from the
  compiled patterns, with the zero severity.
\<close>

definition NewContentFilterGuardrail ::
  "(string \<Rightarrow> regex result) \<Rightarrow> string list \<Rightarrow> (ContentFilter \<Rightarrow> ContentFilter) list \<Rightarrow> ContentFilter result" where
  "NewContentFilterGuardrail compile patterns opts =
     (let c = fold (\<lambda>f c. f c) opts \<lparr>cf_Forbidden = [], cf_Raw = [], cf_CaseInsensitive = False, cf_Severity = ''error''\<rparr> in
      case compile_all compile (cf_CaseInsensitive c) patterns of
        Inl e \<Rightarrow> Inl e
      | Inr rs \<Rightarrow> Inr \<lparr>cf_Forbidden = rs, cf_Raw = patterns, cf_CaseInsensitive = False, cf_Severity = []\<rparr>)"

fun cf_check :: "ContentFilter \<Rightarrow> nat \<Rightarrow> regex list \<Rightarrow> string \<Rightarrow> goerr option" where
  "cf_check g i [] output = None"
| "cf_check g i (re # rs) output =
     (if re_match re output then
        (if cf_Severity g = ''warn'' then None
         else Some (EMsg (''output matches forbidden pattern '' @ [CHR 0x27] @ (cf_Raw g ! i) @ [CHR 0x27])))
      else cf_check g (Suc i) rs output)"

definition cf_Validate :: "ContentFilter \<Rightarrow> string \<Rightarrow> goerr option" where
  "cf_Validate g output = cf_check g 0 (cf_Forbidden g) output"

section \<open>Running guardrails\<close>

definition guard_err :: "Guardrail \<Rightarrow> goerr \<Rightarrow> goerr" where
  "guard_err g e = EWrap (''guardrail '' @ [CHR 0x27] @ g_Name g @ [CHR 0x27] @ '' failed: '') e []"

fun RunAll :: "Guardrail list \<Rightarrow> string \<Rightarrow> goerr option" where
  "RunAll [] output = None"
| "RunAll (g # gs) output =
     (case g_Validate g output of
        Some e \<Rightarrow> Some (guard_err g e)
      | None \<Rightarrow> RunAll gs output)"

fun AllViolations :: "Guardrail list \<Rightarrow> string \<Rightarrow> string list" where
  "AllViolations [] output = []"
| "AllViolations (g # gs) output =
     (case g_Validate g output of
        Some e \<Rightarrow> (''['' @ g_Name g @ ''] '' @ err_text e) # AllViolations gs output
      | None \<Rightarrow> AllViolations gs output)"

section \<open>Toxicity and the function validators\<close>

record ToxicityGuardrail =
  tx_Words :: "string list"
  tx_CaseInsensitive :: bool
  tx_WholeWordOnly :: bool
  tx_MaxDensity :: real

definition defaultToxicWordList :: "string list" where
  "defaultToxicWordList = [''hate'', ''violence'', ''harmful'', ''discrimination'', ''harassment'',
     ''self-harm'', ''threat'', ''abuse'', ''racist'', ''sexist'', ''homophobic'',
     ''transphobic'', ''ableist'', ''extremist'', ''terrorist'', ''illegal'']"

definition NewToxicityGuardrail :: "(ToxicityGuardrail \<Rightarrow> ToxicityGuardrail) list \<Rightarrow> ToxicityGuardrail" where
  "NewToxicityGuardrail opts =
     fold (\<lambda>f t. f t) opts
       \<lparr>tx_Words = defaultToxicWordList, tx_CaseInsensitive = True, tx_WholeWordOnly = False, tx_MaxDensity = 0\<rparr>"

definition toxic_count :: "ToxicityGuardrail \<Rightarrow> string \<Rightarrow> nat" where
  "toxic_count g lower =
     sum_list (map (\<lambda>word.
       let target = (if tx_CaseInsensitive g then to_lower word else word) in
       if tx_WholeWordOnly g then length (filter (\<lambda>w. w = target) (str_fields lower))
       else if str_contains lower target then 1 else 0) (tx_Words g))"

definition fmt_fixed2 :: "real \<Rightarrow> string" where
  "fmt_fixed2 x =
     (let n = nat (round (\<bar>x\<bar> * 100)); d = show_nat (n mod 100) in
      (if x < 0 then ''-'' else []) @ show_nat (n div 100) @ ''.'' @ replicate (2 - length d) (CHR ''0'') @ d)"

definition tx_Validate :: "ToxicityGuardrail \<Rightarrow> string \<Rightarrow> goerr option" where
  "tx_Validate g output =
     (let lower = (if tx_CaseInsensitive g then to_lower output else output);
          words = str_fields lower; n = toxic_count g lower;
          density = real n / real (length words)
      in if tx_MaxDensity g > 0 \<and> length words > 0 \<and> density > tx_MaxDensity g
         then Some (EMsg (''toxic content density '' @ fmt_fixed2 density @ '' exceeds max '' @ fmt_fixed2 (tx_MaxDensity g)))
         else if n > 0 \<and> tx_MaxDensity g = 0 then Some (EMsg ''toxic content detected'')
         else None)"

definition NoEmptyString :: "string \<Rightarrow> goerr option" where
  "NoEmptyString output = (if trim_space output = [] then Some (EMsg ''output is empty'') else None)"

definition MinLength :: "int \<Rightarrow> string \<Rightarrow> goerr option" where
  "MinLength n output =
     (if int (length output) < n
      then Some (EMsg (''output too short: '' @ show_nat (length output) @ '' < '' @ show_int n)) else None)"

definition MaxLength :: "int \<Rightarrow> string \<Rightarrow> goerr option" where
  "MaxLength n output =
     (if int (length output) > n
      then Some (EMsg (''output too long: '' @ show_nat (length output) @ '' > '' @ show_int n)) else None)"

definition NewValidatorGuardrail :: "string \<Rightarrow> (string \<Rightarrow> goerr option) \<Rightarrow> Guardrail" where
  "NewValidatorGuardrail name fn = \<lparr>g_Name = name, g_Validate = fn\<rparr>"

definition MaxParseBytes :: nat where
  "MaxParseBytes = 2 ^ 20"

definition boundParseInput :: "string \<Rightarrow> string result" where
  "boundParseInput input =
     (if length input > MaxParseBytes
      then Inl (EMsg (''guardrails: parse input exceeds '' @ show_nat MaxParseBytes @ '' bytes'')) else Inr input)"

definition NewRegexValidator :: "(string \<Rightarrow> regex result) \<Rightarrow> string \<Rightarrow> Guardrail result" where
  "NewRegexValidator compile pattern =
     (case compile pattern of
        Inl e \<Rightarrow> Inl (EWrap ''guardrails: invalid regex: '' e [])
      | Inr re \<Rightarrow>
          Inr \<lparr>g_Name = ''RegexValidator'',
               g_Validate = (\<lambda>output.
                 case boundParseInput output of
                   Inl e \<Rightarrow> Some e
                 | Inr input \<Rightarrow>
                     if \<not> re_match re input
                     then Some (EMsg (''guardrails: output does not match '' @ [CHR 0x22] @ pattern @ [CHR 0x22])) else None)\<rparr>)"

section \<open>Sanitizer\<close>

record Sanitizer =
  sz_MaxInputLength :: int
  sz_Blocked :: "regex list"
  sz_Strip :: "regex list"
  sz_AllowHTML :: bool

record SanitizeResult =
  sr_Clean :: bool
  sr_Output :: string
  sr_Reason :: string

fun strip_tags :: "bool \<Rightarrow> string \<Rightarrow> string" where
  "strip_tags inTag [] = []"
| "strip_tags inTag (r # rs) =
     (if r = CHR ''<'' then strip_tags True rs
      else if r = CHR ''>'' then strip_tags False rs
      else if \<not> inTag then r # strip_tags inTag rs
      else strip_tags inTag rs)"

definition stripHTMLTags :: "string \<Rightarrow> string" where
  "stripHTMLTags s = strip_tags False s"

definition Sanitize :: "Sanitizer \<Rightarrow> string \<Rightarrow> SanitizeResult" where
  "Sanitize s input =
     (if sz_MaxInputLength s > 0 \<and> int (length input) > sz_MaxInputLength s
      then \<lparr>sr_Clean = False, sr_Output = input,
            sr_Reason = ''input exceeds maximum length ('' @ show_nat (length input) @ '' > '' @ show_int (sz_MaxInputLength s) @ '')''\<rparr>
      else
        (let c1 = fold (\<lambda>p c. re_erase p c) (sz_Strip s) input;
             c2 = (if \<not> sz_AllowHTML s then stripHTMLTags c1 else c1) in
         case find (\<lambda>p. re_match p c2) (sz_Blocked s) of
           Some p \<Rightarrow> \<lparr>sr_Clean = False, sr_Output = c2, sr_Reason = ''input matches blocked pattern: '' @ re_text p\<rparr>
         | None \<Rightarrow> \<lparr>sr_Clean = True, sr_Output = c2, sr_Reason = []\<rparr>))"

definition AddBlockedPattern :: "(string \<Rightarrow> regex result) \<Rightarrow> string \<Rightarrow> Sanitizer \<Rightarrow> Sanitizer \<times> goerr option" where
  "AddBlockedPattern compile p s =
     (case compile p of
        Inl e \<Rightarrow> (s, Some (EWrap ''invalid regex pattern: '' e []))
      | Inr re \<Rightarrow> (s\<lparr>sz_Blocked := sz_Blocked s @ [re]\<rparr>, None))"

definition AddStripPattern :: "(string \<Rightarrow> regex result) \<Rightarrow> string \<Rightarrow> Sanitizer \<Rightarrow> Sanitizer \<times> goerr option" where
  "AddStripPattern compile p s =
     (case compile p of
        Inl e \<Rightarrow> (s, Some (EWrap ''invalid regex pattern: '' e []))
      | Inr re \<Rightarrow> (s\<lparr>sz_Strip := sz_Strip s @ [re]\<rparr>, None))"

text \<open>The map in its iteration order; the first unclean value ends the run.\<close>

fun SanitizeMap :: "Sanitizer \<Rightarrow> (string \<times> gvalue) list \<Rightarrow> SanitizeResult + (string \<times> gvalue) list" where
  "SanitizeMap s [] = Inr []"
| "SanitizeMap s ((k, v) # kvs) =
     (case v of
        VString str \<Rightarrow>
          (let sr = Sanitize s str in
           if \<not> sr_Clean sr then Inl sr
           else (case SanitizeMap s kvs of Inl r \<Rightarrow> Inl r | Inr m \<Rightarrow> Inr ((k, VString (sr_Output sr)) # m)))
      | _ \<Rightarrow> (case SanitizeMap s kvs of Inl r \<Rightarrow> Inl r | Inr m \<Rightarrow> Inr ((k, v) # m)))"

section \<open>Lemmas\<close>

lemma RunAll_None_iff: "RunAll gs out = None \<longleftrightarrow> (\<forall>g \<in> set gs. g_Validate g out = None)"
  by (induction gs) (auto split: option.split)

lemma AllViolations_Nil_iff: "AllViolations gs out = [] \<longleftrightarrow> (\<forall>g \<in> set gs. g_Validate g out = None)"
  by (induction gs) (auto split: option.split)

lemma strip_tags_clean: "CHR ''<'' \<notin> set (strip_tags b s) \<and> CHR ''>'' \<notin> set (strip_tags b s)"
  by (induction b s rule: strip_tags.induct) auto

lemma strip_tags_plain: "CHR ''<'' \<notin> set s \<Longrightarrow> CHR ''>'' \<notin> set s \<Longrightarrow> strip_tags False s = s"
  by (induction s) auto

section \<open>Properties\<close>

text \<open>
  Running a list of guardrails. An output passes exactly when no guardrail objects, which is
  also when the list of all violations is empty; otherwise the error is the first objecting
  guardrail's, by position, wrapped with its name.
\<close>

theorem RunAll_first_violation:
  "(RunAll gs out = None \<longleftrightarrow> AllViolations gs out = []) \<and>
   RunAll gs out =
     map_option (\<lambda>g. guard_err g (the (g_Validate g out))) (find (\<lambda>g. g_Validate g out \<noteq> None) gs)"
proof
  show "RunAll gs out = None \<longleftrightarrow> AllViolations gs out = []"
    by (simp add: RunAll_None_iff AllViolations_Nil_iff)
  show "RunAll gs out = map_option (\<lambda>g. guard_err g (the (g_Validate g out))) (find (\<lambda>g. g_Validate g out \<noteq> None) gs)"
    by (induction gs) (auto split: option.split)
qed

text \<open>
  What a sanitised input is. If \<^verbatim>\<open>Sanitize\<close> calls an input clean, the input respected the length
  limit, the output has no angle bracket left (unless HTML is allowed) and matches none of the
  blocked patterns; the check is made on the stripped text, so stripping cannot uncover a blocked
  phrase. An unclean verdict always carries a reason.
\<close>

theorem sanitize_clean_output:
  "(sr_Clean (Sanitize s input) \<longrightarrow>
      (sz_MaxInputLength s > 0 \<longrightarrow> int (length input) \<le> sz_MaxInputLength s) \<and>
      (\<not> sz_AllowHTML s \<longrightarrow> CHR ''<'' \<notin> set (sr_Output (Sanitize s input)) \<and> CHR ''>'' \<notin> set (sr_Output (Sanitize s input))) \<and>
      (\<forall>p \<in> set (sz_Blocked s). \<not> re_match p (sr_Output (Sanitize s input)))) \<and>
   (\<not> sr_Clean (Sanitize s input) \<longrightarrow> sr_Reason (Sanitize s input) \<noteq> [])"
  using strip_tags_clean [of False "fold (\<lambda>p c. re_erase p c) (sz_Strip s) input"]
  by (auto simp: Sanitize_def Let_def stripHTMLTags_def find_None_iff split: option.splits)

definition wit_regex :: "string \<Rightarrow> regex" where
  "wit_regex p = \<lparr>re_match = (\<lambda>s. str_contains s p), re_erase = id, re_text = p\<rparr>"

definition wit_sanitizer :: Sanitizer where
  "wit_sanitizer = \<lparr>sz_MaxInputLength = 50000, sz_Blocked = [wit_regex ''override''], sz_Strip = [], sz_AllowHTML = False\<rparr>"

theorem sanitize_clean_output_witness:
  "sr_Clean (Sanitize wit_sanitizer ''a <b>c'') \<and>
   CHR ''<'' \<notin> set (sr_Output (Sanitize wit_sanitizer ''a <b>c''))"
proof -
  have "sr_Clean (Sanitize wit_sanitizer ''a <b>c'')"
    by (simp add: Sanitize_def wit_sanitizer_def wit_regex_def stripHTMLTags_def sublist_code)
  then show ?thesis
    using sanitize_clean_output [of wit_sanitizer "''a <b>c''"] by (simp add: wit_sanitizer_def)
qed

text \<open>
  The options of \<^verbatim>\<open>NewContentFilterGuardrail\<close> for the severity have no effect. The constructor
  returns a value built without them, so a filter asked to only warn rejects like any other.
\<close>

theorem content_filter_severity_lost:
  assumes "NewContentFilterGuardrail compile patterns (opts @ [WithSeverity ''warn'']) = Inr g"
    "re \<in> set (cf_Forbidden g)" "re_match re output"
  shows "cf_Validate g output \<noteq> None"
proof -
  have "cf_Severity g \<noteq> ''warn''"
    using assms(1) by (auto simp: NewContentFilterGuardrail_def Let_def split: sum.splits)
  then have "re \<in> set rs \<Longrightarrow> cf_check g i rs output \<noteq> None" for i rs
    using assms(3) by (induction rs arbitrary: i) auto
  then show ?thesis using assms(2) by (simp add: cf_Validate_def)
qed

theorem content_filter_severity_lost_witness:
  "\<exists>g. NewContentFilterGuardrail (Inr \<circ> wit_regex) [''x''] [WithSeverity ''warn''] = Inr g \<and> cf_Validate g ''xy'' \<noteq> None"
proof -
  obtain g where g: "NewContentFilterGuardrail (Inr \<circ> wit_regex) [''x''] ([] @ [WithSeverity ''warn'']) = Inr g"
    "cf_Forbidden g = [wit_regex ''x'']"
    by (simp add: NewContentFilterGuardrail_def WithSeverity_def)
  from content_filter_severity_lost [OF g(1), of "wit_regex ''x''" "''xy''"] g show ?thesis
    by (auto simp: wit_regex_def sublist_code)
qed

end
