(* ===== verification/Crew_Task.thy ===== *)
theory Crew_Task
  imports Guardrails
begin

text \<open>
  A task's life cycle: \<^verbatim>\<open>Task.Execute\<close> of \<^verbatim>\<open>pkg/tasks/task.go\<close> with the validator of \<^verbatim>\<open>validator.go\<close>.

  An agent is a function on the outside world \<open>'w\<close> (conversations, tools, models), called with the
  prompt and the schema option; its own reasoning is not part of this theory. The environment
  \<open>tenv\<close> holds what else the method uses: the translated prompt templates, the \<^verbatim>\<open>%v\<close> text and the
  canonical JSON of a value. Times out and cancellation reach the agent and show up as its
  errors. The lines a human types are arguments: \<open>pre\<close> for the gate before execution (\<open>None\<close>: the read
  failed) and \<open>post\<close> for the review after it. The deprecated field \<^verbatim>\<open>OutputPydan\<close> is left out.
\<close>

section \<open>Tasks\<close>

type_synonym 'w agent = "string \<Rightarrow> gvalue option \<Rightarrow> 'w \<Rightarrow> 'w \<times> gvalue result"

record 'w Task =
  tk_Name :: string
  tk_Description :: string
  tk_ExpectedOutput :: string
  tk_Agent :: "'w agent option"
  tk_Markdown :: bool
  tk_OutputFile :: string
  tk_OutputSchema :: string
  tk_OutputJSON :: "(string \<Rightarrow> gvalue result) option"
  tk_MaxRetries :: int
  tk_GuardrailMaxRetries :: int
  tk_HumanInput :: bool
  tk_Guardrails :: "Guardrail list"
  tk_HasCallback :: bool
  tk_Processed :: bool
  tk_Failed :: bool
  tk_Error :: "goerr option"
  tk_Output :: "gvalue option"
  tk_Context :: "nat list"

record tenv =
  te_expected :: "string \<Rightarrow> string"
  te_context :: "string \<Rightarrow> string \<Rightarrow> string"
  te_show :: "gvalue \<Rightarrow> string"
  te_json :: "gvalue \<Rightarrow> string result"

text \<open>What a run of a task does to the outside, in order.\<close>

datatype task_event =
    TaskStarted string
  | OutputSaved string gvalue
  | CallbackFired gvalue
  | TaskCompleted gvalue

definition ErrNoAgent :: string where
  "ErrNoAgent = ''agent is required but was nil''"

definition ErrGuardrailFailed :: string where
  "ErrGuardrailFailed = ''output failed guardrail validation''"

section \<open>Validator\<close>

definition fence :: string where
  "fence = [CHR 0x60, CHR 0x60, CHR 0x60]"

text \<open>
  The capture of \<^verbatim>\<open>(?s)```(?:json)?\n?(.*?)\n?```\<close>: after the first fence an optional language mark and
  newline are dropped, and the shortest text up to the next fence is taken without a newline
  before it.
\<close>

definition fenced :: "string \<Rightarrow> string option" where
  "fenced s =
     (case str_cut fence s of
        None \<Rightarrow> None
      | Some (_, r) \<Rightarrow>
          (let r1 = trim_prefix r ''json''; r2 = trim_prefix r1 [CHR 0x0A] in
           case str_cut fence r2 of
             None \<Rightarrow> None
           | Some (body, _) \<Rightarrow> Some (trim_suffix body [CHR 0x0A])))"

definition RepairJSON :: "string \<Rightarrow> string" where
  "RepairJSON input =
     (let cleaned = trim_space input in
      case fenced cleaned of None \<Rightarrow> cleaned | Some body \<Rightarrow> trim_space body)"

definition ValidateSchema :: "string \<Rightarrow> (string \<Rightarrow> gvalue result) option \<Rightarrow> gvalue result" where
  "ValidateSchema js schema =
     (case schema of
        None \<Rightarrow> Inr (VString js)
      | Some unmarshal \<Rightarrow>
          (case unmarshal js of Inl e \<Rightarrow> Inl (EWrap ''JSON does not match schema: '' e []) | Inr v \<Rightarrow> Inr v))"

section \<open>Execute\<close>

definition context_text :: "tenv \<Rightarrow> (bool \<times> gvalue option) list \<Rightarrow> string" where
  "context_text E snaps =
     concat (map (\<lambda>(i, (proc, out)). case out of
       Some v \<Rightarrow> if proc \<and> v \<noteq> VNil then ''--- Context Source '' @ show_nat (i + 1) @ '' ---'' @ [CHR 0x0A] @ te_show E v @ [CHR 0x0A] else []
     | None \<Rightarrow> []) (enumerate 0 snaps))"

definition applyPreHumanFeedback :: "string option \<Rightarrow> string \<Rightarrow> string" where
  "applyPreHumanFeedback pre base =
     (case pre of
        None \<Rightarrow> base
      | Some line \<Rightarrow>
          (let input = trim_space line in
           if input \<noteq> [] then base @ [CHR 0x0A, CHR 0x0A] @ ''HUMAN FEEDBACK OVERRIDE: '' @ input else base))"

definition base_description :: "tenv \<Rightarrow> 'w Task \<Rightarrow> (bool \<times> gvalue option) list \<Rightarrow> string option \<Rightarrow> string" where
  "base_description E t snaps pre =
     (let d0 = tk_Description t;
          d1 = (if tk_ExpectedOutput t \<noteq> [] then d0 @ te_expected E (tk_ExpectedOutput t) else d0);
          d2 = (if tk_Markdown t then d1 @ [CHR 0x0A, CHR 0x0A] @
                  ''CRITICAL: You MUST format your final answer using valid Markdown syntax (headers, lists, code blocks, etc.).'' else d1);
          d3 = (if length (tk_Context t) > 0 then te_context E d2 (context_text E snaps) else d2)
      in if tk_HumanInput t then applyPreHumanFeedback pre d3 else d3)"

definition schema_option :: "'w Task \<Rightarrow> gvalue option" where
  "schema_option t =
     (if tk_OutputSchema t \<noteq> [] then Some (VString (tk_OutputSchema t))
      else if tk_OutputJSON t \<noteq> None then Some VNil else None)"

definition try_once :: "'w agent \<Rightarrow> 'w Task \<Rightarrow> string \<Rightarrow> 'w \<Rightarrow> 'w \<times> gvalue result" where
  "try_once ag t d w =
     (case ag d (schema_option t) w of
        (w1, Inl e) \<Rightarrow> (w1, Inl e)
      | (w1, Inr r) \<Rightarrow>
          (case tk_OutputJSON t of
             None \<Rightarrow> (w1, Inr r)
           | Some um \<Rightarrow>
               (case r of VString s \<Rightarrow> (w1, ValidateSchema (RepairJSON s) (Some um)) | _ \<Rightarrow> (w1, Inr r))))"

primrec schema_tries :: "nat \<Rightarrow> 'w agent \<Rightarrow> 'w Task \<Rightarrow> string \<Rightarrow> 'w \<Rightarrow> 'w \<times> gvalue result" where
  "schema_tries 0 ag t d w = (w, Inr VNil)"
| "schema_tries (Suc n) ag t d w =
     (case try_once ag t d w of
        (w1, Inr r) \<Rightarrow> (w1, Inr r)
      | (w1, Inl e) \<Rightarrow> if n = 0 then (w1, Inl e) else schema_tries n ag t d w1)"

definition canonical :: "tenv \<Rightarrow> gvalue \<Rightarrow> string result" where
  "canonical E r = (case r of VString s \<Rightarrow> Inr s | _ \<Rightarrow> te_json E r)"

text \<open>A guardrail failure re-runs the agent; that new result is not put through the validator.\<close>

primrec guard_tries :: "nat \<Rightarrow> tenv \<Rightarrow> 'w agent \<Rightarrow> 'w Task \<Rightarrow> string \<Rightarrow> gvalue \<Rightarrow> 'w \<Rightarrow> 'w \<times> gvalue result" where
  "guard_tries 0 E ag t d r w = (w, Inr r)"
| "guard_tries (Suc n) E ag t d r w =
     (case canonical E r of
        Inl _ \<Rightarrow> (w, Inl (EWrap [] (ESentinel ErrGuardrailFailed) '': unserializable result''))
      | Inr s \<Rightarrow>
          (case RunAll (tk_Guardrails t) s of
             None \<Rightarrow> (w, Inr r)
           | Some ge \<Rightarrow>
               if n = 0 then (w, Inl (EWrap [] (ESentinel ErrGuardrailFailed) ('': '' @ err_text ge)))
               else (case ag d (schema_option t) w of
                       (w1, Inl e) \<Rightarrow> (w1, Inl e)
                     | (w1, Inr r1) \<Rightarrow> guard_tries n E ag t d r1 w1)))"

definition at_least_one :: "int \<Rightarrow> nat" where
  "at_least_one n = (if n \<le> 0 then 1 else nat n)"

text \<open>
  The edit loop reads lines until one is \<open>EOF\<close>; when the input ends without it the loop never
  ends (\<open>None\<close>).
\<close>

fun read_edit :: "string list \<Rightarrow> string \<Rightarrow> string option" where
  "read_edit [] acc = None"
| "read_edit (l # ls) acc = (if trim_space l = ''EOF'' then Some (trim_space acc) else read_edit ls (acc @ l))"

definition applyPostHumanReview :: "string list \<Rightarrow> gvalue \<Rightarrow> 'w Task \<Rightarrow> (gvalue \<times> 'w Task) option" where
  "applyPostHumanReview post r t =
     (case post of
        [] \<Rightarrow> Some (r, t)
      | l # ls \<Rightarrow>
          if trim_space l = ''edit''
          then map_option (\<lambda>x. (VString x, t\<lparr>tk_Output := Some (VString x)\<rparr>)) (read_edit ls [])
          else Some (r, t))"

text \<open>The part of the method after the guardrails: \<open>None\<close> is a review that never ends.\<close>

definition finish_task ::
  "string list \<Rightarrow> gvalue \<Rightarrow> 'w Task \<Rightarrow> 'w \<Rightarrow> ('w \<times> 'w Task \<times> task_event list \<times> gvalue result) option" where
  "finish_task post r t w =
     (let t1 = t\<lparr>tk_Processed := True, tk_Output := Some r\<rparr>;
          l1 = (if tk_OutputFile t \<noteq> [] then [OutputSaved (tk_OutputFile t) r] else []);
          l2 = (if tk_HasCallback t then [CallbackFired r] else []) in
      case (if tk_HumanInput t then applyPostHumanReview post r t1 else Some (r, t1)) of
        None \<Rightarrow> None
      | Some (r2, t2) \<Rightarrow> Some (w, t2, TaskStarted (tk_Description t) # l1 @ l2 @ [TaskCompleted r2], Inr r2))"

definition Execute ::
  "tenv \<Rightarrow> goerr option \<Rightarrow> (bool \<times> gvalue option) list \<Rightarrow> string option \<Rightarrow> string list \<Rightarrow> 'w Task \<Rightarrow> 'w \<Rightarrow>
    ('w \<times> 'w Task \<times> task_event list \<times> gvalue result) option" where
  "Execute E paused snaps pre post t w =
     (case tk_Agent t of
        None \<Rightarrow> Some (w, t, [], Inl (ESentinel ErrNoAgent))
      | Some ag \<Rightarrow>
          (case paused of
             Some e \<Rightarrow> Some (w, t, [], Inl e)
           | None \<Rightarrow>
               (let d = base_description E t snaps pre in
                case schema_tries (at_least_one (tk_MaxRetries t)) ag t d w of
                  (w1, Inl e) \<Rightarrow> Some (w1, t, [TaskStarted (tk_Description t)], Inl e)
                | (w1, Inr r) \<Rightarrow>
                    (case (if length (tk_Guardrails t) > 0
                           then guard_tries (at_least_one (tk_GuardrailMaxRetries t)) E ag t d r w1 else (w1, Inr r)) of
                       (w2, Inl e) \<Rightarrow> Some (w2, t, [TaskStarted (tk_Description t)], Inl e)
                     | (w2, Inr r2) \<Rightarrow> finish_task post r2 t w2))))"

section \<open>Lemmas\<close>

lemma at_least_one_pos: "\<exists>n. at_least_one k = Suc n"
  by (auto simp: at_least_one_def gr0_conv_Suc [symmetric])

lemma guard_tries_passes:
  "guard_tries (Suc n) E ag t d r w = (w', Inr r') \<Longrightarrow> \<exists>s. canonical E r' = Inr s \<and> RunAll (tk_Guardrails t) s = None"
proof (induction n arbitrary: r w)
  case 0
  then show ?case by (auto split: sum.splits option.splits if_splits)
next
  case (Suc n)
  show ?case
  proof (cases "canonical E r")
    case (Inl e)
    then show ?thesis using Suc.prems by simp
  next
    case (Inr s)
    show ?thesis
    proof (cases "RunAll (tk_Guardrails t) s")
      case None
      then show ?thesis using Suc.prems Inr by simp
    next
      case (Some ge)
      then obtain w1 r1 where "ag d (schema_option t) w = (w1, Inr r1)" "guard_tries (Suc n) E ag t d r1 w1 = (w', Inr r')"
        using Suc.prems Inr by (auto simp del: guard_tries.simps(2) simp: guard_tries.simps(2) [of "Suc n"] split: prod.splits sum.splits)
      then show ?thesis using Suc.IH by blast
    qed
  qed
qed

text \<open>Any count of agent calls kept in the world.\<close>

lemma schema_tries_calls:
  assumes "\<And>d o' w w' x. ag d o' w = (w', x) \<Longrightarrow> cnt w' \<le> cnt w + (1 :: nat)"
  shows "schema_tries n ag t d w = (w', x) \<Longrightarrow> cnt w' \<le> cnt w + n"
proof (induction n arbitrary: w)
  case (Suc n)
  obtain w1 y where y: "try_once ag t d w = (w1, y)" by fastforce
  have le: "cnt w1 \<le> cnt w + 1"
    using y assms by (fastforce simp: try_once_def split: prod.splits sum.splits option.splits gvalue.splits)
  show ?case
  proof (cases "isl y \<and> n \<noteq> 0")
    case True
    then have "schema_tries n ag t d w1 = (w', x)" using Suc.prems y by (auto split: sum.splits)
    from Suc.IH [OF this] le show ?thesis by simp
  next
    case False
    then have "w' = w1" using Suc.prems y by (auto split: sum.splits if_splits)
    then show ?thesis using le by simp
  qed
qed simp

lemma guard_tries_calls:
  assumes "\<And>d o' w w' x. ag d o' w = (w', x) \<Longrightarrow> cnt w' \<le> cnt w + (1 :: nat)"
  shows "guard_tries (Suc n) E ag t d r w = (w', x) \<Longrightarrow> cnt w' \<le> cnt w + n"
proof (induction n arbitrary: w r)
  case 0
  then show ?case by (auto split: sum.splits option.splits)
next
  case (Suc n)
  show ?case
  proof (cases "canonical E r")
    case (Inl e)
    then show ?thesis using Suc.prems by simp
  next
    case (Inr s)
    obtain w1 y where y: "ag d (schema_option t) w = (w1, y)" by fastforce
    note le = assms [OF y]
    show ?thesis
    proof (cases "RunAll (tk_Guardrails t) s = None \<or> isl y")
      case True
      then have "w' = w \<or> w' = w1" using Suc.prems Inr y
        by (auto simp del: guard_tries.simps(2) simp: guard_tries.simps(2) [of "Suc n"] split: option.splits sum.splits)
      then show ?thesis using le by auto
    next
      case False
      then obtain r1 where "guard_tries (Suc n) E ag t d r1 w1 = (w', x)" using Suc.prems Inr y
        by (auto simp del: guard_tries.simps(2) simp: guard_tries.simps(2) [of "Suc n"] split: option.splits sum.splits)
      from Suc.IH [OF this] le show ?thesis by simp
    qed
  qed
qed

section \<open>Properties\<close>

text \<open>
  C3: no unguarded output. When a task without human input succeeds, its result, in canonical text
  form, passes every guardrail; the task is marked processed and holds that result, which is
  also what is written to its file and handed to its callback. When it fails, the task is
  unchanged and nothing is written or called back. Either way the agent is called at most
  \<open>max 1 MaxRetries\<close> times, plus once for each further guardrail attempt.
\<close>

theorem task_output_guarded:
  assumes "Execute E paused snaps pre post t w = Some (w', t', evs, res)" "\<not> tk_HumanInput t" "tk_Agent t = Some ag"
    "\<And>d o' w w' x. ag d o' w = (w', x) \<Longrightarrow> cnt w' \<le> cnt w + (1 :: nat)"
  shows "cnt w' < cnt w + at_least_one (tk_MaxRetries t) + at_least_one (tk_GuardrailMaxRetries t) \<and>
    (case res of
       Inl e \<Rightarrow> t' = t \<and> set evs \<subseteq> {TaskStarted (tk_Description t)}
     | Inr r \<Rightarrow>
         tk_Processed t' \<and> tk_Output t' = Some r \<and> last evs = TaskCompleted r \<and>
         (\<forall>f v. OutputSaved f v \<in> set evs \<longrightarrow> f = tk_OutputFile t \<and> v = r) \<and>
         (\<forall>v. CallbackFired v \<in> set evs \<longrightarrow> v = r) \<and>
         (tk_Guardrails t \<noteq> [] \<longrightarrow>
            (\<exists>s. canonical E r = Inr s \<and> (\<forall>g \<in> set (tk_Guardrails t). g_Validate g s = None))))"
proof (cases paused)
  case (Some e)
  then show ?thesis using assms(1,3) at_least_one_pos [of "tk_MaxRetries t"] by (auto simp: Execute_def)
next
  case None
  let ?d = "base_description E t snaps pre" and ?n = "at_least_one (tk_MaxRetries t)"
  obtain m where m: "at_least_one (tk_GuardrailMaxRetries t) = Suc m" using at_least_one_pos by blast
  obtain w1 y where y: "schema_tries ?n ag t ?d w = (w1, y)" by fastforce
  have c1: "cnt w1 \<le> cnt w + ?n" by (rule schema_tries_calls [where ag = ag and cnt = cnt, OF assms(4) y])
  show ?thesis
  proof (cases y)
    case (Inl e)
    then show ?thesis using assms(1,3) None y c1 m by (auto simp: Execute_def Let_def)
  next
    case (Inr r)
    obtain w2 z where z: "(if tk_Guardrails t \<noteq> [] then guard_tries (at_least_one (tk_GuardrailMaxRetries t)) E ag t ?d r w1
        else (w1, Inr r)) = (w2, z)"
      by fastforce
    have c2: "cnt w2 \<le> cnt w1 + m"
    proof (cases "tk_Guardrails t = []")
      case False
      then have g: "guard_tries (Suc m) E ag t ?d r w1 = (w2, z)" using z m by simp
      show ?thesis by (rule guard_tries_calls [where ag = ag and cnt = cnt, OF assms(4) g])
    qed (use z in simp)
    have ex: "(case z of Inl e \<Rightarrow> Some (w2, t, [TaskStarted (tk_Description t)], Inl e) | Inr r2 \<Rightarrow> finish_task post r2 t w2)
        = Some (w', t', evs, res)"
      using assms(1,3) by (simp add: Execute_def Let_def None y Inr z)
    show ?thesis
    proof (cases z)
      case (Inl e)
      then show ?thesis using ex c1 c2 m by auto
    next
      case zr: (Inr r2)
      have "tk_Guardrails t \<noteq> [] \<Longrightarrow> \<exists>s. canonical E r2 = Inr s \<and> RunAll (tk_Guardrails t) s = None"
        using z zr m guard_tries_passes [of m E ag t ?d r w1 w2 r2] by simp
      then show ?thesis
        using ex zr c1 c2 m assms(2) by (auto simp: finish_task_def RunAll_None_iff)
    qed
  qed
qed

definition wit_tenv :: tenv where
  "wit_tenv = \<lparr>te_expected = id, te_context = (@), te_show = (\<lambda>_. []), te_json = (\<lambda>_. Inr ''{}'')\<rparr>"

text \<open>An agent that answers \<open>bad\<close> first and \<open>fine!\<close> from then on; the world counts its calls.\<close>

definition wit_agent :: "nat agent" where
  "wit_agent d o' n = (Suc n, Inr (VString (if n = 0 then ''bad'' else ''fine!'')))"

definition wit_task :: "nat Task" where
  "wit_task = \<lparr>tk_Name = [], tk_Description = ''do it'', tk_ExpectedOutput = [], tk_Agent = Some wit_agent, tk_Markdown = False,
     tk_OutputFile = [], tk_OutputSchema = [], tk_OutputJSON = Some (\<lambda>s. if s = ''bad'' then Inr (VString s) else Inl (EMsg ''not JSON'')),
     tk_MaxRetries = 1, tk_GuardrailMaxRetries = 2, tk_HumanInput = False,
     tk_Guardrails = [NewValidatorGuardrail ''min'' (MinLength 4)], tk_HasCallback = False, tk_Processed = False,
     tk_Failed = False, tk_Error = None, tk_Output = None, tk_Context = []\<rparr>"

lemma wit_task_run:
  "\<exists>t' evs. Execute wit_tenv None [] None [] wit_task 0 = Some (2, t', evs, Inr (VString ''fine!''))"
  by (simp add: Execute_def wit_task_def wit_agent_def wit_tenv_def at_least_one_def try_once_def RepairJSON_def trim_space_def
      is_space_def fenced_def fence_def ValidateSchema_def canonical_def NewValidatorGuardrail_def MinLength_def finish_task_def
      numeral_2_eq_2 Let_def)

theorem task_output_guarded_witness:
  "\<exists>t' evs. Execute wit_tenv None [] None [] wit_task 0 = Some (2, t', evs, Inr (VString ''fine!'')) \<and> tk_Processed t' \<and> MinLength 4 ''fine!'' = None"
proof -
  obtain t' evs where x: "Execute wit_tenv None [] None [] wit_task 0 = Some (2, t', evs, Inr (VString ''fine!''))"
    using wit_task_run by blast
  have a: "\<not> tk_HumanInput wit_task" "tk_Agent wit_task = Some wit_agent" by (simp_all add: wit_task_def)
  have c: "wit_agent d o' w = (w', y) \<Longrightarrow> id w' \<le> id w + (1 :: nat)" for d o' w w' y by (auto simp: wit_agent_def)
  show ?thesis
    using task_output_guarded [where cnt = id, OF x a c] x
    by (auto simp: wit_task_def canonical_def NewValidatorGuardrail_def)
qed

text \<open>
  A result obtained by re-running the agent after a guardrail objected is not validated against
  the task's schema. There is a task whose schema rejects the text that it returns as its
  successful result.
\<close>

theorem guardrail_retry_skips_schema:
  "\<exists>t' evs um. Execute wit_tenv None [] None [] wit_task 0 = Some (2, t', evs, Inr (VString ''fine!'')) \<and>
     tk_OutputJSON wit_task = Some um \<and> isl (ValidateSchema (RepairJSON ''fine!'') (Some um))"
proof -
  have "isl (ValidateSchema (RepairJSON ''fine!'') (tk_OutputJSON wit_task))"
    by (simp add: wit_task_def ValidateSchema_def RepairJSON_def trim_space_def is_space_def fenced_def fence_def)
  then show ?thesis using wit_task_run by (auto simp: wit_task_def)
qed

end
