(* ===== verification/Crew_Inputs.thy ===== *)
theory Crew_Inputs
  imports Crew_Task
begin

text \<open>
  Kickoff inputs: the placeholder substitution of \<^verbatim>\<open>pkg/crew/inputs.go\<close>.

  The substitution loop puts a value into the text and scans the whole text again, so a value
  that brings a placeholder of its own is substituted in turn. The loop is therefore a partial
  function: \<open>None\<close> is a run that never returns.
\<close>

definition MaxInputValueBytes :: nat where
  "MaxInputValueBytes = 20000"

type_synonym inputs = "string \<rightharpoonup> string"

definition input_val :: "inputs \<Rightarrow> string \<Rightarrow> string" where
  "input_val inp name = (case inp name of None \<Rightarrow> [] | Some v \<Rightarrow> v)"

definition quoted :: "string \<Rightarrow> string" where
  "quoted s = [CHR 0x22] @ s @ [CHR 0x22]"

definition missing_result :: "string list \<Rightarrow> string \<Rightarrow> string result" where
  "missing_result miss res =
     (if miss \<noteq> [] then Inl (EMsg (''crew: missing inputs for placeholders: '' @ str_join miss '', '')) else Inr res)"

definition note_name :: "inputs \<Rightarrow> string list \<Rightarrow> string list \<Rightarrow> string \<Rightarrow> string list \<times> string list" where
  "note_name inp seen miss name =
     (if name \<in> set seen then (seen, miss)
      else (seen @ [name], if input_val inp name = [] then miss @ [name] else miss))"

partial_function (option) interp_loop ::
  "string \<Rightarrow> inputs \<Rightarrow> string list \<Rightarrow> string list \<Rightarrow> string \<Rightarrow> string result option" where
  "interp_loop tmpl inp seen miss res =
     (case str_cut ''{{'' res of
        None \<Rightarrow> Some (missing_result miss res)
      | Some (pre, rest) \<Rightarrow>
          (case str_cut ''}}'' rest of
             None \<Rightarrow> Some (Inl (EMsg (''crew: unterminated placeholder in '' @ quoted tmpl)))
           | Some (raw, post) \<Rightarrow>
               (let name = trim_space raw in
                if name = [] then Some (Inl (EMsg (''crew: empty placeholder in '' @ quoted tmpl)))
                else if length (input_val inp name) > MaxInputValueBytes
                then Some (Inl (EMsg (''crew: input '' @ quoted name @ '' exceeds '' @ show_nat MaxInputValueBytes @ '' bytes'')))
                else (case note_name inp seen miss name of (seen', miss') \<Rightarrow>
                        interp_loop tmpl inp seen' miss' (pre @ input_val inp name @ post)))))"

definition InterpolateInputs :: "string \<Rightarrow> inputs \<Rightarrow> string result option" where
  "InterpolateInputs tmpl inp = interp_loop tmpl inp [] [] tmpl"

text \<open>\<^verbatim>\<open>applyInputs\<close> updates the tasks in place and stops at the first error; nil entries are skipped.\<close>

definition apply_task :: "inputs \<Rightarrow> 'w Task \<Rightarrow> ('w Task \<times> goerr option) option" where
  "apply_task inp t =
     (if \<not> str_contains (tk_Description t) ''{{'' \<and> \<not> str_contains (tk_ExpectedOutput t) ''{{'' then Some (t, None)
      else (case InterpolateInputs (tk_Description t) inp of
              None \<Rightarrow> None
            | Some (Inl e) \<Rightarrow> Some (t, Some (EWrap (''crew: task '' @ quoted (tk_Description t) @ '' description: '') e []))
            | Some (Inr d) \<Rightarrow>
                (let t1 = t\<lparr>tk_Description := d\<rparr> in
                 if tk_ExpectedOutput t = [] then Some (t1, None)
                 else (case InterpolateInputs (tk_ExpectedOutput t) inp of
                         None \<Rightarrow> None
                       | Some (Inl e) \<Rightarrow> Some (t1, Some (EWrap ''crew: task expected_output: '' e []))
                       | Some (Inr x) \<Rightarrow> Some (t1\<lparr>tk_ExpectedOutput := x\<rparr>, None)))))"

fun applyInputs :: "inputs \<Rightarrow> 'w Task option list \<Rightarrow> ('w Task option list \<times> goerr option) option" where
  "applyInputs inp [] = Some ([], None)"
| "applyInputs inp (None # ts) = map_option (\<lambda>(ts', e). (None # ts', e)) (applyInputs inp ts)"
| "applyInputs inp (Some t # ts) =
     (case apply_task inp t of
        None \<Rightarrow> None
      | Some (t', Some e) \<Rightarrow> Some (Some t' # ts, Some e)
      | Some (t', None) \<Rightarrow> map_option (\<lambda>(ts', e). (Some t' # ts', e)) (applyInputs inp ts))"

section \<open>A single pass over the template\<close>

lemma str_cut_length: "str_cut p s = Some (a, b) \<Longrightarrow> length s = length a + length p + length b"
  using str_cut_Some [of p s a b] by simp

text \<open>The reference: every placeholder of the template is replaced once, values are not scanned.\<close>

function interp_pass ::
  "string \<Rightarrow> inputs \<Rightarrow> string list \<Rightarrow> string list \<Rightarrow> string \<Rightarrow> string \<Rightarrow> string result" where
  "interp_pass tmpl inp seen miss out s =
     (case str_cut ''{{'' s of
        None \<Rightarrow> missing_result miss (out @ s)
      | Some (pre, rest) \<Rightarrow>
          (case str_cut ''}}'' rest of
             None \<Rightarrow> Inl (EMsg (''crew: unterminated placeholder in '' @ quoted tmpl))
           | Some (raw, post) \<Rightarrow>
               (let name = trim_space raw in
                if name = [] then Inl (EMsg (''crew: empty placeholder in '' @ quoted tmpl))
                else if length (input_val inp name) > MaxInputValueBytes
                then Inl (EMsg (''crew: input '' @ quoted name @ '' exceeds '' @ show_nat MaxInputValueBytes @ '' bytes''))
                else (case note_name inp seen miss name of (seen', miss') \<Rightarrow>
                        interp_pass tmpl inp seen' miss' (out @ pre @ input_val inp name) post))))"
  by pat_completeness auto
termination
  by (relation "measure (\<lambda>(tmpl, inp, seen, miss, out, s). length s)") (auto dest!: str_cut_length)

declare interp_pass.simps [simp del]

text \<open>Text that holds no opening and does not end inside one can be cut off in front.\<close>

definition settled :: "string \<Rightarrow> bool" where
  "settled s \<longleftrightarrow> str_cut ''{{'' s = None \<and> (s \<noteq> [] \<longrightarrow> last s \<noteq> CHR ''{'')"

lemma settled_Cons: "settled (c # s) \<Longrightarrow> settled s"
  by (auto simp: settled_def split: if_splits)

lemma str_cut_settled:
  "settled a \<Longrightarrow> str_cut ''{{'' (a @ s) = map_option (\<lambda>(x, y). (a @ x, y)) (str_cut ''{{'' s)"
proof (induction a)
  case (Cons c a)
  have ih: "str_cut ''{{'' (a @ s) = map_option (\<lambda>(x, y). (a @ x, y)) (str_cut ''{{'' s)"
    using Cons settled_Cons by blast
  have np: "\<not> prefix ''{{'' ((c # a) @ s)"
    using Cons.prems by (cases a) (auto simp: settled_def split: if_splits)
  then have "str_cut ''{{'' ((c # a) @ s) = map_option (\<lambda>(x, y). (c # x, y)) (str_cut ''{{'' (a @ s))"
    by (simp only: append_Cons str_cut.simps if_False)
  then show ?case by (simp only: ih option.map_comp comp_def case_prod_beta fst_conv snd_conv append_Cons)
qed (simp add: option.map_id case_prod_beta)

lemma settled_append: "settled a \<Longrightarrow> settled b \<Longrightarrow> settled (a @ b)"
  using str_cut_settled [of a b] by (cases "b = []") (auto simp: settled_def)

lemma sublist_braces: "sublist ''{{'' s \<Longrightarrow> CHR ''{'' \<in> set s"
  by (auto simp: sublist_def)

lemma settled_no_brace: "CHR ''{'' \<notin> set s \<Longrightarrow> settled s"
  using sublist_braces [of s] by (cases s rule: rev_cases) (auto simp: settled_def str_cut_None)

lemma settled_before_opening:
  assumes "str_cut ''{{'' s = Some (a, b)" shows "settled a"
proof -
  have n: "\<not> sublist ''{{'' a" using str_cut_first [OF assms] by simp
  show ?thesis
  proof (cases a rule: rev_cases)
    case (snoc a' c)
    have "c \<noteq> CHR ''{''"
    proof
      assume c: "c = CHR ''{''"
      have "str_cut ''{{'' (xs @ CHR ''{'' # ''{{'' @ b) = Some (xs @ [CHR ''{''], b) \<Longrightarrow> False" for xs
        by (induction xs) (auto split: if_splits)
      then show False using assms str_cut_Some [OF assms] snoc c by simp
    qed
    then show ?thesis using n snoc by (simp add: settled_def str_cut_None)
  qed (simp add: settled_def)
qed

definition plain_values :: "inputs \<Rightarrow> bool" where
  "plain_values inp \<longleftrightarrow> (\<forall>v \<in> ran inp. CHR ''{'' \<notin> set v)"

lemma settled_input_val: "plain_values inp \<Longrightarrow> settled (input_val inp name)"
  by (auto simp: plain_values_def input_val_def ran_def intro!: settled_no_brace split: option.splits)

lemma interp_loop_pass:
  "plain_values inp \<Longrightarrow> settled out \<Longrightarrow>
    interp_loop tmpl inp seen miss (out @ s) = Some (interp_pass tmpl inp seen miss out s)"
proof (induction tmpl inp seen miss out s rule: interp_pass.induct)
  case (1 tmpl inp seen miss out s)
  note cut = str_cut_settled [OF "1.prems"(2), of s]
  note loop = interp_loop.simps [of tmpl inp seen miss "out @ s"] and pass = interp_pass.simps [of tmpl inp seen miss out s]
  show ?case
  proof (cases "str_cut ''{{'' s")
    case None
    then show ?thesis by (simp add: loop pass cut)
  next
    case (Some pr)
    then obtain pre rest where o1: "str_cut ''{{'' s = Some (pre, rest)" by (cases pr) auto
    show ?thesis
    proof (cases "str_cut ''}}'' rest")
      case None
      then show ?thesis by (simp add: loop pass cut o1)
    next
      case (Some pr2)
      then obtain raw post where o2: "str_cut ''}}'' rest = Some (raw, post)" by (cases pr2) auto
      let ?name = "trim_space raw"
      obtain seen' miss' where nn: "note_name inp seen miss ?name = (seen', miss')" by fastforce
      show ?thesis
      proof (cases "?name = [] \<or> length (input_val inp ?name) > MaxInputValueBytes")
        case True
        then show ?thesis by (auto simp: loop pass cut o1 o2 Let_def)
      next
        case False
        have c: "settled (out @ pre @ input_val inp ?name)"
          using "1.prems" settled_before_opening [OF o1] settled_input_val by (intro settled_append)
        have "interp_loop tmpl inp seen' miss' ((out @ pre @ input_val inp ?name) @ post) =
              Some (interp_pass tmpl inp seen' miss' (out @ pre @ input_val inp ?name) post)"
          using False nn by (intro "1.IH" [OF o1 refl o2 refl refl] "1.prems"(1) c) auto
        then show ?thesis using False by (simp add: loop pass cut o1 o2 Let_def nn)
      qed
    qed
  qed
qed

lemma missing_result_Inr: "missing_result miss res = Inr r \<longleftrightarrow> miss = [] \<and> r = res"
  by (auto simp: missing_result_def)

text \<open>The returning run, whatever the values: no opening is left and every name that was read has a value.\<close>

lemma note_name_keeps: "note_name inp seen miss name = (seen', []) \<Longrightarrow> miss = []"
  by (auto simp: note_name_def split: if_splits)

lemma interp_loop_clean:
  assumes "interp_loop tmpl inp seen miss res = Some y"
  shows "\<forall>out. y = Inr out \<longrightarrow> \<not> sublist ''{{'' out \<and> miss = []"
proof (rule interp_loop.raw_induct
    [where P = "\<lambda>tmpl inp seen miss res y. \<forall>out. y = Inr out \<longrightarrow> \<not> sublist ''{{'' out \<and> miss = []", OF _ assms])
  fix loop tmpl inp seen miss res y
  assume ih: "\<And>tmpl inp seen miss res y. loop tmpl inp seen miss res = Some y \<Longrightarrow>
      \<forall>out. y = Inr out \<longrightarrow> \<not> sublist ''{{'' out \<and> miss = []"
    and b: "(case str_cut ''{{'' res of None \<Rightarrow> Some (missing_result miss res)
      | Some (pre, rest) \<Rightarrow>
          (case str_cut ''}}'' rest of
             None \<Rightarrow> Some (Inl (EMsg (''crew: unterminated placeholder in '' @ quoted tmpl)))
           | Some (raw, post) \<Rightarrow>
               (let name = trim_space raw in
                if name = [] then Some (Inl (EMsg (''crew: empty placeholder in '' @ quoted tmpl)))
                else if length (input_val inp name) > MaxInputValueBytes
                then Some (Inl (EMsg (''crew: input '' @ quoted name @ '' exceeds '' @ show_nat MaxInputValueBytes @ '' bytes'')))
                else (case note_name inp seen miss name of (seen', miss') \<Rightarrow>
                        loop tmpl inp seen' miss' (pre @ input_val inp name @ post))))) = Some y"
  show "\<forall>out. y = Inr out \<longrightarrow> \<not> sublist ''{{'' out \<and> miss = []"
    using b by (auto simp: missing_result_Inr str_cut_None Let_def dest!: ih note_name_keeps
        split: option.splits prod.splits if_splits)
qed

lemma InterpolateInputs_clean: "InterpolateInputs tmpl inp = Some (Inr out) \<Longrightarrow> \<not> sublist ''{{'' out"
  unfolding InterpolateInputs_def by (drule interp_loop_clean) simp

section \<open>Properties\<close>

text \<open>
  C29: when no value holds an opening brace, the rescanning loop returns, and its outcome (text or
  error) is that of one pass over the template in which each placeholder is replaced by its
  value; an accepted text has no placeholder left.
\<close>

theorem interpolation_single_pass:
  assumes "plain_values inp"
  shows "InterpolateInputs tmpl inp = Some (interp_pass tmpl inp [] [] [] tmpl) \<and>
    (\<forall>out. interp_pass tmpl inp [] [] [] tmpl = Inr out \<longrightarrow> \<not> sublist ''{{'' out)"
proof -
  have "settled []" by (simp add: settled_def)
  from interp_loop_pass [OF assms this, of tmpl "[]" "[]" tmpl]
  have r: "InterpolateInputs tmpl inp = Some (interp_pass tmpl inp [] [] [] tmpl)" by (simp add: InterpolateInputs_def)
  then show ?thesis using InterpolateInputs_clean [of tmpl inp] by simp
qed

theorem interpolation_single_pass_witness:
  "plain_values [''x'' \<mapsto> ''Go''] \<and> InterpolateInputs ''Use {{ x }}!'' [''x'' \<mapsto> ''Go''] = Some (Inr ''Use Go!'')"
proof -
  have p: "plain_values [''x'' \<mapsto> ''Go'']" by (simp add: plain_values_def)
  have "interp_pass ''Use {{ x }}!'' [''x'' \<mapsto> ''Go''] [] [] [] ''Use {{ x }}!'' = Inr ''Use Go!''"
    by (simp add: interp_pass.simps trim_space_def is_space_def input_val_def MaxInputValueBytes_def note_name_def missing_result_def)
  then show ?thesis using interpolation_single_pass [OF p, of "''Use {{ x }}!''"] p by simp
qed

text \<open>
  A value that holds its own placeholder keeps the substitution running forever: the kickoff
  never returns.
\<close>

theorem interpolation_never_returns: "InterpolateInputs ''{{a}}'' [''a'' \<mapsto> ''{{a}}''] = None"
proof (cases "InterpolateInputs ''{{a}}'' [''a'' \<mapsto> ''{{a}}'']")
  case (Some y)
  define inp :: inputs where "inp = [''a'' \<mapsto> ''{{a}}'']"
  have v: "input_val inp ''a'' = ''{{a}}''" by (simp add: inp_def input_val_def)
  have t: "trim_space ''a'' = ''a''" by (simp add: trim_space_def is_space_def)
  have run: "interp_loop ''{{a}}'' inp [] [] ''{{a}}'' = Some y" using Some by (simp add: InterpolateInputs_def inp_def)
  have "\<not> (inp = inp \<and> ''{{a}}'' = ''{{a}}'')"
    using run
  proof (rule interp_loop.raw_induct [where P = "\<lambda>tmpl i seen miss res y. \<not> (i = inp \<and> res = ''{{a}}'')", rotated])
    fix loop tmpl i seen miss res z
    assume ih: "\<And>tmpl i seen miss res z. loop tmpl i seen miss res = Some z \<Longrightarrow> \<not> (i = inp \<and> res = ''{{a}}'')"
      and b: "(case str_cut ''{{'' res of None \<Rightarrow> Some (missing_result miss res)
      | Some (pre, rest) \<Rightarrow>
          (case str_cut ''}}'' rest of
             None \<Rightarrow> Some (Inl (EMsg (''crew: unterminated placeholder in '' @ quoted tmpl)))
           | Some (raw, post) \<Rightarrow>
               (let name = trim_space raw in
                if name = [] then Some (Inl (EMsg (''crew: empty placeholder in '' @ quoted tmpl)))
                else if length (input_val i name) > MaxInputValueBytes
                then Some (Inl (EMsg (''crew: input '' @ quoted name @ '' exceeds '' @ show_nat MaxInputValueBytes @ '' bytes'')))
                else (case note_name i seen miss name of (seen', miss') \<Rightarrow>
                        loop tmpl i seen' miss' (pre @ input_val i name @ post))))) = Some z"
    show "\<not> (i = inp \<and> res = ''{{a}}'')"
    proof
      assume e: "i = inp \<and> res = ''{{a}}''"
      obtain s' m' where "loop tmpl inp s' m' ''{{a}}'' = Some z"
        using b e by (auto simp: t v MaxInputValueBytes_def split: prod.splits)
      from ih [OF this] show False by simp
    qed
  qed
  then show ?thesis by simp
qed

lemma apply_task_ok:
  "apply_task inp t = Some (t', None) \<Longrightarrow>
    \<not> sublist ''{{'' (tk_Description t') \<and> \<not> sublist ''{{'' (tk_ExpectedOutput t') \<and>
    t' = t\<lparr>tk_Description := tk_Description t', tk_ExpectedOutput := tk_ExpectedOutput t'\<rparr>"
  by (auto simp: apply_task_def Let_def dest: InterpolateInputs_clean split: if_splits option.splits sum.splits)

lemma applyInputs_ok:
  "applyInputs inp ts = Some (ts', None) \<Longrightarrow>
    list_all2 (rel_option (\<lambda>t t'. \<not> sublist ''{{'' (tk_Description t') \<and> \<not> sublist ''{{'' (tk_ExpectedOutput t') \<and>
      t' = t\<lparr>tk_Description := tk_Description t', tk_ExpectedOutput := tk_ExpectedOutput t'\<rparr>)) ts ts'"
proof (induction inp ts arbitrary: ts' rule: applyInputs.induct)
  case (3 inp t ts)
  then obtain t' r where "apply_task inp t = Some (t', None)" "applyInputs inp ts = Some (r, None)" "ts' = Some t' # r"
    by (auto split: option.splits)
  then show ?case using 3 apply_task_ok by fastforce
qed auto

lemma applyInputs_err:
  "applyInputs inp ts = Some (ts', Some e) \<Longrightarrow>
    \<exists>i < length ts. drop (Suc i) ts' = drop (Suc i) ts \<and>
      (\<exists>us. applyInputs inp (take i ts) = Some (us, None) \<and> take i ts' = us)"
proof (induction inp ts arbitrary: ts' rule: applyInputs.induct)
  case (2 inp ts)
  then obtain r where r: "applyInputs inp ts = Some (r, Some e)" "ts' = None # r" by auto
  with 2 obtain i us where "i < length ts" "drop (Suc i) r = drop (Suc i) ts" "applyInputs inp (take i ts) = Some (us, None)" "take i r = us"
    by blast
  then show ?case using r(2) by (intro exI [of _ "Suc i"]) auto
next
  case (3 inp t ts)
  obtain t' x where a: "apply_task inp t = Some (t', x)" using 3(2) by (auto split: option.splits)
  show ?case
  proof (cases x)
    case None
    then obtain r where r: "applyInputs inp ts = Some (r, Some e)" "ts' = Some t' # r" using 3(2) a by auto
    with 3(1) [OF a [unfolded None] refl refl] obtain i us where
      "i < length ts" "drop (Suc i) r = drop (Suc i) ts" "applyInputs inp (take i ts) = Some (us, None)" "take i r = us" by blast
    then show ?thesis using r(2) a None by (intro exI [of _ "Suc i"]) auto
  next
    case (Some e')
    then show ?thesis using 3(2) a by (intro exI [of _ 0]) auto
  qed
qed simp

text \<open>
  Rendering a crew's tasks. When it succeeds no description and no expected output holds a
  placeholder and nothing else of a task changes; when it fails, the tasks after the failing
  one are untouched, whereas those before it stay rendered.
\<close>

theorem inputs_rendered:
  assumes "applyInputs inp ts = Some (ts', err)"
  shows "case err of
      None \<Rightarrow> list_all2 (rel_option (\<lambda>t t'. \<not> sublist ''{{'' (tk_Description t') \<and> \<not> sublist ''{{'' (tk_ExpectedOutput t') \<and>
        t' = t\<lparr>tk_Description := tk_Description t', tk_ExpectedOutput := tk_ExpectedOutput t'\<rparr>)) ts ts'
    | Some e \<Rightarrow> \<exists>i < length ts. drop (Suc i) ts' = drop (Suc i) ts \<and>
        (\<exists>us. applyInputs inp (take i ts) = Some (us, None) \<and> take i ts' = us)"
  using assms applyInputs_ok [of inp ts ts'] applyInputs_err [of inp ts ts'] by (cases err) simp_all

theorem inputs_rendered_witness:
  "\<exists>ts' e. applyInputs Map.empty [None, Some (wit_task\<lparr>tk_Description := ''{{}}''\<rparr>)] = Some (ts', Some e) \<and>
     (\<exists>i < 2. drop (Suc i) ts' = drop (Suc i) [None, Some (wit_task\<lparr>tk_Description := ''{{}}''\<rparr>)])"
proof -
  let ?t = "wit_task\<lparr>tk_Description := ''{{}}''\<rparr>"
  have i: "InterpolateInputs ''{{}}'' Map.empty = Some (Inl (EMsg (''crew: empty placeholder in '' @ quoted ''{{}}'')))"
    by (simp add: InterpolateInputs_def interp_loop.simps trim_space_def)
  have "sublist ''{{'' ''{{}}''" by (simp add: sublist_Cons_right)
  then obtain e where "apply_task Map.empty ?t = Some (?t, Some e)" by (simp add: apply_task_def i)
  then have r: "applyInputs Map.empty [None, Some ?t] = Some ([None, Some ?t], Some e)" by simp
  from inputs_rendered [OF r] r show ?thesis by (auto simp: numeral_2_eq_2)
qed

end
