(* ===== verification/Crew_Exec.thy ===== *)
theory Crew_Exec
  imports Crew_Inputs "HOL-Library.Multiset"
begin

text \<open>
  The execution modes of a crew in \<^verbatim>\<open>pkg/crew/crew.go\<close>: sequential (with the background tasks of
  \<^verbatim>\<open>async.go\<close>), graph, reflective and state machine.

  Tasks refer to each other by pointer, so they live in a heap from addresses to tasks; a crew
  holds a list of addresses. The world \<open>'w\<close> decides what agents answer, whether the context is
  done, whether the run is paused away and what a human types. A run of a task is one step.
  The order in which goroutines complete is an argument: \<open>due\<close> gives, for each turn of the
  sequential loop, the background tasks that complete before it, and \<open>order\<close> permutes the tasks of
  one graph wave. \<open>None\<close> is a run in which some task never ends. What the modes log, trace or
  publish on the event bus is left out; calls of the crew's callbacks are recorded.
\<close>

section \<open>State\<close>

record 'w CTask =
  ct_task :: "'w Task"
  ct_AsyncExecution :: bool
  ct_Dependencies :: "nat list"
  ct_OutputCondition :: "(gvalue \<Rightarrow> string) option"
  ct_NextPaths :: "(string \<rightharpoonup> nat) option"
  ct_MaxCycles :: int
  ct_CycleCount :: int

datatype crew_event =
    Ran nat
  | Reviewed string
  | OnTaskComplete int gvalue
  | OnTaskError int goerr
  | Checkpointed

record 'w crew_st =
  cs_world :: 'w
  cs_heap :: "nat \<Rightarrow> 'w CTask"
  cs_log :: "crew_event list"

record 'w cenv =
  ce_tenv :: tenv
  ce_ctx :: "'w \<Rightarrow> goerr option"
  ce_paused :: "'w \<Rightarrow> goerr option"
  ce_lines :: "'w \<Rightarrow> string option \<times> string list"

record crew_cfg =
  cc_Tasks :: "nat list"
  cc_MaxCycles :: int
  cc_OnTaskComplete :: bool
  cc_OnTaskError :: bool
  cc_Session :: bool

abbreviation task_at :: "'w crew_st \<Rightarrow> nat \<Rightarrow> 'w Task" where
  "task_at st a \<equiv> ct_task (cs_heap st a)"

definition upd_task :: "nat \<Rightarrow> ('w Task \<Rightarrow> 'w Task) \<Rightarrow> 'w crew_st \<Rightarrow> 'w crew_st" where
  "upd_task a f st = st\<lparr>cs_heap := (cs_heap st)(a := (cs_heap st a)\<lparr>ct_task := f (task_at st a)\<rparr>)\<rparr>"

definition log_ev :: "crew_event \<Rightarrow> 'w crew_st \<Rightarrow> 'w crew_st" where
  "log_ev e st = st\<lparr>cs_log := cs_log st @ [e]\<rparr>"

definition call_complete :: "crew_cfg \<Rightarrow> int \<Rightarrow> gvalue \<Rightarrow> 'w crew_st \<Rightarrow> 'w crew_st" where
  "call_complete c i r st = (if cc_OnTaskComplete c then log_ev (OnTaskComplete i r) st else st)"

definition call_error :: "crew_cfg \<Rightarrow> int \<Rightarrow> goerr \<Rightarrow> 'w crew_st \<Rightarrow> 'w crew_st" where
  "call_error c i e st = (if cc_OnTaskError c then log_ev (OnTaskError i e) st else st)"

definition NewTaskError :: "nat \<Rightarrow> string \<Rightarrow> goerr \<Rightarrow> goerr" where
  "NewTaskError i desc e = EWrap (''task '' @ show_nat i @ '' ('' @ desc @ ''): '') e []"

text \<open>\<^verbatim>\<open>task.Execute(ctx)\<close> on the heap: the context tasks are read when the run starts.\<close>

definition run_task :: "'w cenv \<Rightarrow> nat \<Rightarrow> 'w crew_st \<Rightarrow> ('w crew_st \<times> gvalue result) option" where
  "run_task E a st =
     (let t = task_at st a; w = cs_world st;
          snaps = map (\<lambda>c. (tk_Processed (task_at st c), tk_Output (task_at st c))) (tk_Context t) in
      case Execute (ce_tenv E) (ce_paused E w) snaps (fst (ce_lines E w)) (snd (ce_lines E w)) t w of
        None \<Rightarrow> None
      | Some (w', t', _, r) \<Rightarrow> Some (log_ev (Ran a) (upd_task a (\<lambda>_. t') st\<lparr>cs_world := w'\<rparr>), r))"

section \<open>Sequential\<close>

definition has_output :: "'w Task \<Rightarrow> bool" where
  "has_output t \<longleftrightarrow> tk_Output t \<noteq> None \<and> tk_Output t \<noteq> Some VNil"

text \<open>The previous task becomes context of the current one when it has an output.\<close>

definition pipe_context :: "nat option \<Rightarrow> nat \<Rightarrow> 'w crew_st \<Rightarrow> 'w crew_st" where
  "pipe_context prev a st =
     (case prev of
        None \<Rightarrow> st
      | Some p \<Rightarrow>
          if tk_Processed (task_at st p) \<and> has_output (task_at st p) \<and> p \<notin> set (tk_Context (task_at st a))
          then upd_task a (\<lambda>t. t\<lparr>tk_Context := tk_Context t @ [p]\<rparr>) st else st)"

type_synonym fut = "nat \<times> nat \<times> gvalue result option"

text \<open>The body of \<^verbatim>\<open>dispatchAsyncTask\<close>'s goroutine.\<close>

definition bg_run :: "'w cenv \<Rightarrow> crew_cfg \<Rightarrow> nat \<Rightarrow> nat \<Rightarrow> 'w crew_st \<Rightarrow> ('w crew_st \<times> gvalue result) option" where
  "bg_run E c i a st =
     (case run_task E a st of
        None \<Rightarrow> None
      | Some (st1, Inl e) \<Rightarrow> Some (call_error c (int i + 1) e st1, Inl e)
      | Some (st1, Inr r) \<Rightarrow> Some (call_complete c (int i + 1) r st1, Inr r))"

fun bg_due :: "'w cenv \<Rightarrow> crew_cfg \<Rightarrow> nat list \<Rightarrow> fut list \<Rightarrow> 'w crew_st \<Rightarrow> ('w crew_st \<times> fut list) option" where
  "bg_due E c [] futs st = Some (st, futs)"
| "bg_due E c (k # ks) futs st =
     (if k < length futs
      then (case futs ! k of
              (i, a, Some r) \<Rightarrow> bg_due E c ks futs st
            | (i, a, None) \<Rightarrow>
                (case bg_run E c i a st of
                   None \<Rightarrow> None
                 | Some (st1, r) \<Rightarrow> bg_due E c ks (futs[k := (i, a, Some r)]) st1))
      else bg_due E c ks futs st)"

fun collect :: "'w cenv \<Rightarrow> crew_cfg \<Rightarrow> fut list \<Rightarrow> gvalue \<Rightarrow> 'w crew_st \<Rightarrow> ('w crew_st \<times> gvalue) option" where
  "collect E c [] final st = Some (st, final)"
| "collect E c ((i, a, res) # fs) final st =
     (case (case res of Some r \<Rightarrow> Some (st, r) | None \<Rightarrow> bg_run E c i a st) of
        None \<Rightarrow> None
      | Some (st1, Inl e) \<Rightarrow>
          collect E c fs final (call_error c (int i + 1) (NewTaskError (i + 1) (tk_Description (task_at st1 a)) e) st1)
      | Some (st1, Inr r) \<Rightarrow>
          collect E c fs r (upd_task a (\<lambda>t. t\<lparr>tk_Processed := True, tk_Output := Some r\<rparr>) st1))"

fun seq_loop ::
  "'w cenv \<Rightarrow> crew_cfg \<Rightarrow> (nat \<Rightarrow> nat list) \<Rightarrow> nat \<Rightarrow> nat option \<Rightarrow> nat list \<Rightarrow> fut list \<Rightarrow> gvalue \<Rightarrow> 'w crew_st \<Rightarrow>
    ('w crew_st \<times> gvalue \<times> goerr option) option" where
  "seq_loop E c due i prev [] futs final st =
     (case bg_due E c (due i) futs st of
        None \<Rightarrow> None
      | Some (st1, futs1) \<Rightarrow> map_option (\<lambda>(st2, r). (st2, r, None)) (collect E c futs1 final st1))"
| "seq_loop E c due i prev (a # ts) futs final st0 =
     (case bg_due E c (due i) futs st0 of
        None \<Rightarrow> None
      | Some (st, futs1) \<Rightarrow>
          if tk_Processed (task_at st a) then seq_loop E c due (i + 1) (Some a) ts futs1 final st
          else (case ce_ctx E (cs_world st) of
                  Some e \<Rightarrow> Some (st, final, Some e)
                | None \<Rightarrow>
                    (case ce_paused E (cs_world st) of
                       Some e \<Rightarrow> Some (st, final, Some e)
                     | None \<Rightarrow>
                         (let st1 = pipe_context prev a st in
                          if ct_AsyncExecution (cs_heap st1 a)
                          then seq_loop E c due (i + 1) (Some a) ts (futs1 @ [(i, a, None)]) final st1
                          else (case run_task E a st1 of
                                  None \<Rightarrow> None
                                | Some (st2, Inl e) \<Rightarrow>
                                    (let st3 = upd_task a (\<lambda>t. t\<lparr>tk_Failed := True, tk_Error := Some e, tk_Processed := True\<rparr>) st2;
                                         te = NewTaskError (i + 1) (tk_Description (task_at st2 a)) e in
                                     Some (call_error c (int i + 1) te st3, final, Some te))
                                | Some (st2, Inr r) \<Rightarrow>
                                    (let st3 = call_complete c (int i + 1) r
                                                 (upd_task a (\<lambda>t. t\<lparr>tk_Processed := True, tk_Output := Some r\<rparr>) st2) in
                                     seq_loop E c due (i + 1) (Some a) ts futs1 r
                                       (if cc_Session c then log_ev Checkpointed st3 else st3)))))))"

definition executeSequential ::
  "'w cenv \<Rightarrow> crew_cfg \<Rightarrow> (nat \<Rightarrow> nat list) \<Rightarrow> 'w crew_st \<Rightarrow> ('w crew_st \<times> gvalue \<times> goerr option) option" where
  "executeSequential E c due st = seq_loop E c due 0 None (cc_Tasks c) [] VNil st"

section \<open>Graph\<close>

definition ready :: "'w crew_st \<Rightarrow> nat list \<Rightarrow> nat set \<Rightarrow> nat list" where
  "ready st ts processed =
     filter (\<lambda>t. t \<notin> processed \<and> set (ct_Dependencies (cs_heap st t)) \<subseteq> processed) ts"

text \<open>A feedback edge to the task itself or to one of its dependencies makes that task run again.\<close>

definition feedback :: "'w CTask \<Rightarrow> nat \<Rightarrow> gvalue \<Rightarrow> nat set \<Rightarrow> nat set" where
  "feedback ct a r processed =
     (case (ct_OutputCondition ct, ct_NextPaths ct) of
        (Some cond, Some paths) \<Rightarrow>
          (case paths (cond r) of
             Some next \<Rightarrow> if next = a \<or> next \<in> set (ct_Dependencies ct) then processed - {next} else processed
           | None \<Rightarrow> processed)
      | _ \<Rightarrow> processed)"

fun graph_wave ::
  "'w cenv \<Rightarrow> nat list \<Rightarrow> nat set \<Rightarrow> goerr list \<Rightarrow> 'w crew_st \<Rightarrow> ('w crew_st \<times> nat set \<times> goerr list) option" where
  "graph_wave E [] processed errs st = Some (st, processed, errs)"
| "graph_wave E (a # as) processed errs st =
     (case run_task E a st of
        None \<Rightarrow> None
      | Some (st1, Inl e) \<Rightarrow> graph_wave E as processed (errs @ [e]) st1
      | Some (st1, Inr r) \<Rightarrow> graph_wave E as (feedback (cs_heap st1 a) a r processed) errs st1)"

primrec graph_loop ::
  "nat \<Rightarrow> 'w cenv \<Rightarrow> (nat \<Rightarrow> nat list \<Rightarrow> nat list) \<Rightarrow> nat list \<Rightarrow> nat set \<Rightarrow> 'w crew_st \<Rightarrow>
    ('w crew_st \<times> goerr option) option" where
  "graph_loop 0 E order ts processed st = Some (st, None)"
| "graph_loop (Suc n) E order ts processed st =
     (if set ts \<subseteq> processed then Some (st, None)
      else (let rs = ready st ts processed in
            if rs = [] then Some (st, Some (EMsg ''deadlock or unresolved cyclic dependency in graph''))
            else (case graph_wave E (order n rs) (processed \<union> set rs) [] st of
                    None \<Rightarrow> None
                  | Some (st1, processed1, e # _) \<Rightarrow> Some (st1, Some e)
                  | Some (st1, processed1, []) \<Rightarrow> graph_loop n E order ts processed1 st1)))"

definition show_output :: "'w cenv \<Rightarrow> 'w Task \<Rightarrow> string" where
  "show_output E t = te_show (ce_tenv E) (case tk_Output t of None \<Rightarrow> VNil | Some v \<Rightarrow> v)"

definition cycle_limit :: "crew_cfg \<Rightarrow> nat \<Rightarrow> nat" where
  "cycle_limit c dflt = (if cc_MaxCycles c \<le> 0 then dflt else nat (cc_MaxCycles c))"

definition executeGraph ::
  "'w cenv \<Rightarrow> crew_cfg \<Rightarrow> (nat \<Rightarrow> nat list \<Rightarrow> nat list) \<Rightarrow> 'w crew_st \<Rightarrow> ('w crew_st \<times> string result) option" where
  "executeGraph E c order st =
     (if cc_Tasks c = [] then Some (st, Inr [])
      else (case graph_loop (cycle_limit c 100) E order (cc_Tasks c) {} st of
              None \<Rightarrow> None
            | Some (st1, Some e) \<Rightarrow> Some (st1, Inl e)
            | Some (st1, None) \<Rightarrow> Some (st1, Inr (show_output E (task_at st1 (last (cc_Tasks c)))))))"

section \<open>Reflective\<close>

definition upper_char :: "char \<Rightarrow> char" where
  "upper_char ch = (if CHR ''a'' \<le> ch \<and> ch \<le> CHR ''z'' then char_of (of_char ch - 32 :: nat) else ch)"

definition review_prompt :: "string \<Rightarrow> string \<Rightarrow> string" where
  "review_prompt desc out =
     ''Please review the following task output for accuracy and quality.'' @ [CHR 0x0A] @ ''Task: '' @ desc @ [CHR 0x0A] @
     ''Output: '' @ out @ [CHR 0x0A, CHR 0x0A] @
     ''Respond with 'APPROVED' if it is satisfactory, or provide constructive feedback for improvement.''"

text \<open>The prompt is built once, before the first review.\<close>

primrec review_loop ::
  "nat \<Rightarrow> 'w cenv \<Rightarrow> 'w agent \<Rightarrow> string \<Rightarrow> nat \<Rightarrow> gvalue \<Rightarrow> 'w crew_st \<Rightarrow> ('w crew_st \<times> gvalue result) option" where
  "review_loop 0 E mgr prompt a r st = Some (st, Inr r)"
| "review_loop (Suc n) E mgr prompt a r st =
     (case mgr prompt None (cs_world st) of
        (w1, Inl e) \<Rightarrow> Some (log_ev (Reviewed prompt) (st\<lparr>cs_world := w1\<rparr>), Inl (EWrap ''manager review failed: '' e []))
      | (w1, Inr v) \<Rightarrow>
          (let st1 = log_ev (Reviewed prompt) (st\<lparr>cs_world := w1\<rparr>); reviewStr = te_show (ce_tenv E) v in
           if str_contains (map upper_char reviewStr) ''APPROVED'' then Some (st1, Inr r)
           else if n = 0 then Some (st1, Inr r)
           else (case run_task E a (upd_task a (\<lambda>t. t\<lparr>tk_Description := tk_Description t @ [CHR 0x0A, CHR 0x0A] @ ''MANAGER FEEDBACK: '' @ reviewStr\<rparr>) st1) of
                   None \<Rightarrow> None
                 | Some (st2, Inl e) \<Rightarrow> Some (st2, Inl e)
                 | Some (st2, Inr r2) \<Rightarrow> review_loop n E mgr prompt a r2 st2)))"

fun reflect_loop ::
  "'w cenv \<Rightarrow> 'w agent \<Rightarrow> nat list \<Rightarrow> string \<Rightarrow> 'w crew_st \<Rightarrow> ('w crew_st \<times> string result) option" where
  "reflect_loop E mgr [] final st = Some (st, Inr final)"
| "reflect_loop E mgr (a # ts) final st =
     (case run_task E a st of
        None \<Rightarrow> None
      | Some (st1, Inl e) \<Rightarrow> Some (st1, Inl e)
      | Some (st1, Inr r) \<Rightarrow>
          (case review_loop 2 E mgr (review_prompt (tk_Description (task_at st1 a)) (te_show (ce_tenv E) r)) a r st1 of
             None \<Rightarrow> None
           | Some (st2, Inl e) \<Rightarrow> Some (st2, Inl e)
           | Some (st2, Inr r2) \<Rightarrow> reflect_loop E mgr ts (te_show (ce_tenv E) r2) st2))"

definition executeReflective :: "'w cenv \<Rightarrow> crew_cfg \<Rightarrow> 'w agent \<Rightarrow> 'w crew_st \<Rightarrow> ('w crew_st \<times> string result) option" where
  "executeReflective E c mgr st = reflect_loop E mgr (cc_Tasks c) [] st"

section \<open>State machine\<close>

text \<open>The successor in the slice: the task after the first occurrence that has one.\<close>

fun next_in_slice :: "nat list \<Rightarrow> nat \<Rightarrow> nat option" where
  "next_in_slice (x # y # ts) a = (if x = a then Some y else next_in_slice (y # ts) a)"
| "next_in_slice ts a = None"

definition transition :: "'w CTask \<Rightarrow> gvalue \<Rightarrow> nat option" where
  "transition ct r =
     (case (ct_OutputCondition ct, ct_NextPaths ct) of
        (Some cond, Some paths) \<Rightarrow> paths (cond r)
      | _ \<Rightarrow> None)"

definition bump_cycle :: "nat \<Rightarrow> 'w crew_st \<Rightarrow> 'w crew_st" where
  "bump_cycle a st = st\<lparr>cs_heap := (cs_heap st)(a := (cs_heap st a)\<lparr>ct_CycleCount := ct_CycleCount (cs_heap st a) + 1\<rparr>)\<rparr>"

primrec sm_loop ::
  "nat \<Rightarrow> 'w cenv \<Rightarrow> crew_cfg \<Rightarrow> nat \<Rightarrow> 'w crew_st \<Rightarrow> ('w crew_st \<times> string result) option" where
  "sm_loop 0 E c cur st = Some (st, Inl (EMsg ''global state machine cycle limit reached''))"
| "sm_loop (Suc n) E c cur st =
     (case ce_ctx E (cs_world st) of
        Some e \<Rightarrow> Some (st, Inl e)
      | None \<Rightarrow>
          (case run_task E cur st of
             None \<Rightarrow> None
           | Some (st1, Inl e) \<Rightarrow> Some (st1, Inl e)
           | Some (st1, Inr r) \<Rightarrow>
               (let st2 = call_complete c (-1) r st1 in
                case transition (cs_heap st2 cur) r of
                  Some next \<Rightarrow>
                    if next = cur
                    then (let st3 = bump_cycle cur st2; ct = cs_heap st3 cur in
                          if ct_MaxCycles ct > 0 \<and> ct_CycleCount ct > ct_MaxCycles ct
                          then Some (st3, Inl (EMsg (''task cycle limit exceeded for: '' @ tk_Description (ct_task ct))))
                          else sm_loop n E c cur st3)
                    else sm_loop n E c next st2
                | None \<Rightarrow>
                    (case next_in_slice (cc_Tasks c) cur of
                       Some next \<Rightarrow> sm_loop n E c next st2
                     | None \<Rightarrow> Some (st2, Inr (show_output E (task_at st2 cur)))))))"

definition executeStateMachine :: "'w cenv \<Rightarrow> crew_cfg \<Rightarrow> 'w crew_st \<Rightarrow> ('w crew_st \<times> string result) option" where
  "executeStateMachine E c st =
     (case cc_Tasks c of
        [] \<Rightarrow> Some (st, Inr [])
      | a # _ \<Rightarrow> sm_loop (cycle_limit c 50) E c a st)"

section \<open>Frame lemmas\<close>

primrec runs_of :: "crew_event list \<Rightarrow> nat list" where
  "runs_of [] = []"
| "runs_of (e # es) = (case e of Ran a \<Rightarrow> [a] | _ \<Rightarrow> []) @ runs_of es"

lemma runs_of_append [simp]: "runs_of (xs @ ys) = runs_of xs @ runs_of ys"
  by (induction xs) auto

lemma cs_log_simps [simp]:
  "cs_log (upd_task a f st) = cs_log st" "cs_log (log_ev e st) = cs_log st @ [e]"
  "cs_heap (log_ev e st) = cs_heap st" "cs_world (log_ev e st) = cs_world st"
  "cs_world (upd_task a f st) = cs_world st" "cs_heap (call_complete c i r st) = cs_heap st"
  "cs_heap (call_error c i x st) = cs_heap st"
  by (simp_all add: upd_task_def log_ev_def call_complete_def call_error_def)

lemma runs_of_callbacks [simp]:
  "runs_of (cs_log (call_complete c i r st)) = runs_of (cs_log st)"
  "runs_of (cs_log (call_error c i e st)) = runs_of (cs_log st)"
  by (simp_all add: call_complete_def call_error_def)

lemma upd_task_heap [simp]:
  "cs_heap (upd_task a f st) b = (if b = a then (cs_heap st a)\<lparr>ct_task := f (task_at st a)\<rparr> else cs_heap st b)"
  by (simp add: upd_task_def)

lemma Execute_updates:
  "Execute T p snaps pre post t w = Some (w', t', evs, r) \<Longrightarrow>
    (case r of Inl e \<Rightarrow> t' = t | Inr v \<Rightarrow> t' = t\<lparr>tk_Processed := True, tk_Output := Some v\<rparr>)"
  by (auto simp: Execute_def finish_task_def applyPostHumanReview_def Let_def
      split: option.splits prod.splits sum.splits if_splits list.splits)

text \<open>A run writes the log entry, the world and the outcome fields of its own task, nothing else.\<close>

lemma run_task_heap:
  "run_task E a st = Some (st', r) \<Longrightarrow>
    cs_log st' = cs_log st @ [Ran a] \<and>
    cs_heap st' = (cs_heap st)(a := (case r of Inl e \<Rightarrow> cs_heap st a
      | Inr v \<Rightarrow> (cs_heap st a)\<lparr>ct_task := (task_at st a)\<lparr>tk_Processed := True, tk_Output := Some v\<rparr>\<rparr>))"
  by (fastforce simp: run_task_def Let_def upd_task_def log_ev_def dest: Execute_updates split: option.splits sum.splits)

text \<open>The static part of a task: no run changes it.\<close>

definition same_cfg :: "'w crew_st \<Rightarrow> 'w crew_st \<Rightarrow> bool" where
  "same_cfg st st' \<longleftrightarrow> (\<forall>a. ct_Dependencies (cs_heap st' a) = ct_Dependencies (cs_heap st a) \<and>
     ct_OutputCondition (cs_heap st' a) = ct_OutputCondition (cs_heap st a) \<and>
     ct_NextPaths (cs_heap st' a) = ct_NextPaths (cs_heap st a) \<and>
     ct_AsyncExecution (cs_heap st' a) = ct_AsyncExecution (cs_heap st a) \<and>
     ct_MaxCycles (cs_heap st' a) = ct_MaxCycles (cs_heap st a))"

lemma same_cfg_refl [simp]: "same_cfg st st"
  by (simp add: same_cfg_def)

lemma same_cfg_trans: "same_cfg st st1 \<Longrightarrow> same_cfg st1 st2 \<Longrightarrow> same_cfg st st2"
  by (simp add: same_cfg_def)

lemma run_task_cfg: "run_task E a st = Some (st', r) \<Longrightarrow> same_cfg st st'"
  by (drule run_task_heap) (auto simp: same_cfg_def split: sum.splits)

section \<open>Graph: lemmas\<close>

text \<open>Every task of the list comes after all its dependencies.\<close>

definition dep_ordered :: "(nat \<Rightarrow> nat list) \<Rightarrow> nat list \<Rightarrow> bool" where
  "dep_ordered deps rs \<longleftrightarrow> (\<forall>p a s. rs = p @ a # s \<longrightarrow> set (deps a) \<subseteq> set p)"

lemma dep_ordered_Nil [simp]: "dep_ordered deps []"
  by (simp add: dep_ordered_def)

lemma dep_ordered_append:
  assumes "dep_ordered deps rs" "\<forall>a \<in> set as. set (deps a) \<subseteq> set rs"
  shows "dep_ordered deps (rs @ as)"
  unfolding dep_ordered_def
proof (intro allI impI)
  fix p a s assume "rs @ as = p @ a # s"
  then consider (l) us where "rs = p @ a # us" | (r) us where "p = rs @ us" "as = us @ a # s"
    by (auto simp: append_eq_append_conv2 append_eq_Cons_conv Cons_eq_append_conv)
  then show "set (deps a) \<subseteq> set p"
  proof cases
    case l
    then show ?thesis using assms(1) by (auto simp: dep_ordered_def)
  next
    case r
    then show ?thesis using assms(2) by auto
  qed
qed

lemma feedback_subset: "feedback ct a r processed \<subseteq> processed"
  by (auto simp: feedback_def split: option.splits)

lemma graph_wave_runs:
  "graph_wave E as processed errs st = Some (st', processed', errs') \<Longrightarrow>
    runs_of (cs_log st') = runs_of (cs_log st) @ as \<and> processed' \<subseteq> processed \<and> same_cfg st st'"
proof (induction E as processed errs st rule: graph_wave.induct)
  case (2 E a as processed errs st)
  obtain st1 r where r: "run_task E a st = Some (st1, r)" using "2.prems" by (auto split: option.splits)
  note h = run_task_heap [OF r] and c = run_task_cfg [OF r]
  show ?case
  proof (cases r)
    case (Inl e)
    then show ?thesis using 2(1) [OF r refl] 2(3) r h c by (auto intro: same_cfg_trans)
  next
    case (Inr v)
    then have "runs_of (cs_log st') = runs_of (cs_log st1) @ as \<and>
        processed' \<subseteq> feedback (cs_heap st1 a) a v processed \<and> same_cfg st1 st'"
      using 2(2) [OF r refl] 2(3) r by simp
    then show ?thesis using h c feedback_subset [of "cs_heap st1 a" a v processed] by (auto intro: same_cfg_trans)
  qed
qed simp

lemma graph_loop_ordered:
  "graph_loop n E order ts processed st = Some (st', err) \<Longrightarrow> (\<And>n xs. set (order n xs) = set xs) \<Longrightarrow>
    (\<And>a. ct_Dependencies (cs_heap st a) = deps a) \<Longrightarrow>
    dep_ordered deps (runs_of (cs_log st)) \<Longrightarrow> processed \<subseteq> set (runs_of (cs_log st)) \<Longrightarrow>
    dep_ordered deps (runs_of (cs_log st'))"
proof (induction n arbitrary: processed st)
  case (Suc n)
  let ?rs = "ready st ts processed" and ?R = "runs_of (cs_log st)"
  show ?case
  proof (cases "set ts \<subseteq> processed \<or> ?rs = []")
    case True
    then show ?thesis using Suc.prems by (auto simp: Let_def split: if_splits)
  next
    case False
    then obtain st1 p1 es where w: "graph_wave E (order n ?rs) (processed \<union> set ?rs) [] st = Some (st1, p1, es)"
      using Suc.prems(1) by (auto simp: Let_def split: if_splits option.splits)
    note g = graph_wave_runs [OF w]
    have "\<forall>a \<in> set (order n ?rs). set (deps a) \<subseteq> set ?R"
      using Suc.prems(2,3,5) by (auto simp: ready_def)
    then have d: "dep_ordered deps (runs_of (cs_log st1))"
      using dep_ordered_append [OF Suc.prems(4)] g by simp
    show ?thesis
    proof (cases es)
      case Nil
      then have "graph_loop n E order ts p1 st1 = Some (st', err)" using Suc.prems(1) False w by (simp add: Let_def split: if_splits)
      moreover have "\<And>a. ct_Dependencies (cs_heap st1 a) = deps a" using g Suc.prems(3) by (simp add: same_cfg_def)
      moreover have "p1 \<subseteq> set (runs_of (cs_log st1))" using g Suc.prems(2,5) by auto
      ultimately show ?thesis using Suc.IH Suc.prems(2) d by blast
    next
      case (Cons e es')
      then have "st' = st1" using Suc.prems(1) False w by (simp add: Let_def split: if_splits)
      then show ?thesis using d by simp
    qed
  qed
qed simp

text \<open>A task whose runs all succeed, whatever the world and the context outputs are.\<close>

definition never_fails :: "'w cenv \<Rightarrow> 'w Task \<Rightarrow> bool" where
  "never_fails E t \<longleftrightarrow> (\<forall>b v snaps w. \<exists>w' t' evs r.
     Execute (ce_tenv E) (ce_paused E w) snaps (fst (ce_lines E w)) (snd (ce_lines E w))
       (t\<lparr>tk_Processed := b, tk_Output := v\<rparr>) w = Some (w', t', evs, Inr r))"

lemma never_fails_outcome [simp]: "never_fails E (t\<lparr>tk_Processed := b, tk_Output := v\<rparr>) = never_fails E t"
  by (simp add: never_fails_def)

lemma never_fails_run: "never_fails E (task_at st a) \<Longrightarrow> \<exists>st' r. run_task E a st = Some (st', Inr r)"
proof -
  assume "never_fails E (task_at st a)"
  then obtain w' t' evs r where "Execute (ce_tenv E) (ce_paused E (cs_world st))
      (map (\<lambda>c. (tk_Processed (task_at st c), tk_Output (task_at st c))) (tk_Context (task_at st a)))
      (fst (ce_lines E (cs_world st))) (snd (ce_lines E (cs_world st)))
      ((task_at st a)\<lparr>tk_Processed := tk_Processed (task_at st a), tk_Output := tk_Output (task_at st a)\<rparr>) (cs_world st) =
      Some (w', t', evs, Inr r)"
    unfolding never_fails_def by blast
  then show ?thesis by (simp add: run_task_def Let_def)
qed

lemma never_fails_kept: "run_task E a st = Some (st', r) \<Longrightarrow> never_fails E (task_at st' b) = never_fails E (task_at st b)"
  by (drule run_task_heap) (auto split: sum.splits)

lemma graph_wave_all_ok:
  "(\<And>a. a \<in> set as \<Longrightarrow> never_fails E (task_at st a)) \<Longrightarrow> (\<And>a. ct_OutputCondition (cs_heap st a) = None) \<Longrightarrow>
    \<exists>st'. graph_wave E as processed errs st = Some (st', processed, errs) \<and>
      (\<forall>b. never_fails E (task_at st' b) = never_fails E (task_at st b))"
proof (induction as arbitrary: st)
  case (Cons a as)
  obtain st1 r where r: "run_task E a st = Some (st1, Inr r)" using never_fails_run Cons.prems(1) by (meson list.set_intros(1))
  note k = never_fails_kept [OF r]
  have none: "\<And>b. ct_OutputCondition (cs_heap st1 b) = None"
    using run_task_cfg [OF r] Cons.prems(2) by (simp add: same_cfg_def)
  have "\<exists>st'. graph_wave E as processed errs st1 = Some (st', processed, errs) \<and>
      (\<forall>b. never_fails E (task_at st' b) = never_fails E (task_at st1 b))"
    by (rule Cons.IH [OF _ none]) (simp add: k Cons.prems(1))
  then show ?case by (simp add: r feedback_def none k)
qed simp

lemma ready_nonempty:
  assumes "\<not> set ts \<subseteq> processed"
    "\<And>a d. a \<in> set ts \<Longrightarrow> d \<in> set (ct_Dependencies (cs_heap st a)) \<Longrightarrow> d \<in> set ts \<and> rank d < (rank a :: nat)"
  shows "ready st ts processed \<noteq> []"
proof -
  obtain b where "b \<in> set ts \<and> b \<notin> processed" using assms(1) by auto
  from ex_has_least_nat [of "\<lambda>a. a \<in> set ts \<and> a \<notin> processed", OF this]
  obtain a where a: "a \<in> set ts" "a \<notin> processed" "\<And>y. y \<in> set ts \<Longrightarrow> y \<notin> processed \<Longrightarrow> rank a \<le> rank y" by blast
  have "d \<in> processed" if "d \<in> set (ct_Dependencies (cs_heap st a))" for d
    using assms(2) [OF a(1) that] a(3) [of d] by force
  then have "a \<in> set (ready st ts processed)" using a by (auto simp: ready_def)
  then show ?thesis by auto
qed

lemma mset_filter_split:
  "distinct ts \<Longrightarrow> mset (filter (\<lambda>t. t \<notin> P \<and> Q t) ts) + mset (filter (\<lambda>t. t \<notin> P \<union> set (filter (\<lambda>t. t \<notin> P \<and> Q t) ts)) ts) =
    mset (filter (\<lambda>t. t \<notin> P) ts)"
proof -
  assume "distinct ts"
  have "filter (\<lambda>t. t \<notin> P \<union> set (filter (\<lambda>t. t \<notin> P \<and> Q t) ts)) ts = filter (\<lambda>t. t \<notin> P \<and> \<not> Q t) ts"
    by (rule filter_cong) auto
  moreover have "mset (filter (\<lambda>t. t \<notin> P \<and> Q t) xs) + mset (filter (\<lambda>t. t \<notin> P \<and> \<not> Q t) xs) = mset (filter (\<lambda>t. t \<notin> P) xs)"
    for xs by (induction xs) auto
  ultimately show ?thesis by simp
qed

lemma graph_loop_completes:
  assumes ord: "\<And>n xs. mset (order n xs) = mset xs" and dist: "distinct ts"
  shows "(\<And>a. a \<in> set ts \<Longrightarrow> never_fails E (task_at st a)) \<Longrightarrow> (\<And>a. ct_OutputCondition (cs_heap st a) = None) \<Longrightarrow>
    (\<And>a d. a \<in> set ts \<Longrightarrow> d \<in> set (ct_Dependencies (cs_heap st a)) \<Longrightarrow> d \<in> set ts \<and> rank d < (rank a :: nat)) \<Longrightarrow>
    length (filter (\<lambda>t. t \<notin> processed) ts) \<le> n \<Longrightarrow>
    \<exists>st'. graph_loop n E order ts processed st = Some (st', None) \<and>
      mset (runs_of (cs_log st')) = mset (runs_of (cs_log st)) + mset (filter (\<lambda>t. t \<notin> processed) ts)"
proof (induction n arbitrary: processed st)
  case 0
  then show ?case by simp
next
  case (Suc n)
  show ?case
  proof (cases "set ts \<subseteq> processed")
    case True
    then have "filter (\<lambda>t. t \<notin> processed) ts = []" by (auto simp: filter_empty_conv)
    then show ?thesis using True by simp
  next
    case False
    let ?rs = "ready st ts processed"
    have ne: "?rs \<noteq> []" by (rule ready_nonempty [OF False Suc.prems(3)])
    have so: "set (order n ?rs) \<subseteq> set ts" using mset_eq_setD [OF ord [of n ?rs]] by (auto simp: ready_def)
    obtain st1 where w: "graph_wave E (order n ?rs) (processed \<union> set ?rs) [] st = Some (st1, processed \<union> set ?rs, [])"
      and k: "\<And>b. never_fails E (task_at st1 b) = never_fails E (task_at st b)"
      using graph_wave_all_ok [of "order n ?rs" E st "processed \<union> set ?rs" "[]"] Suc.prems(1,2) so by blast
    note g = graph_wave_runs [OF w]
    have split: "mset ?rs + mset (filter (\<lambda>t. t \<notin> processed \<union> set ?rs) ts) = mset (filter (\<lambda>t. t \<notin> processed) ts)"
      unfolding ready_def by (rule mset_filter_split [OF dist])
    then have "length ?rs + length (filter (\<lambda>t. t \<notin> processed \<union> set ?rs) ts) = length (filter (\<lambda>t. t \<notin> processed) ts)"
      by (metis size_mset size_union)
    moreover have "length ?rs > 0" using ne by simp
    ultimately have len: "length (filter (\<lambda>t. t \<notin> processed \<union> set ?rs) ts) \<le> n" using Suc.prems(4) by linarith
    have c1: "\<And>a. ct_OutputCondition (cs_heap st1 a) = None" and c2: "\<And>a. ct_Dependencies (cs_heap st1 a) = ct_Dependencies (cs_heap st a)"
      using g Suc.prems(2) by (simp_all add: same_cfg_def)
    have n1: "\<And>a. a \<in> set ts \<Longrightarrow> never_fails E (task_at st1 a)" unfolding k by (rule Suc.prems(1))
    have r1: "\<And>a d. a \<in> set ts \<Longrightarrow> d \<in> set (ct_Dependencies (cs_heap st1 a)) \<Longrightarrow> d \<in> set ts \<and> rank d < rank a"
      unfolding c2 by (rule Suc.prems(3))
    from Suc.IH [OF n1 c1 r1 len] obtain st' where st': "graph_loop n E order ts (processed \<union> set ?rs) st1 = Some (st', None)"
      "mset (runs_of (cs_log st')) = mset (runs_of (cs_log st1)) + mset (filter (\<lambda>t. t \<notin> processed \<union> set ?rs) ts)"
      by blast
    have "graph_loop (Suc n) E order ts processed st = Some (st', None)" using False ne w st'(1) by (simp add: Let_def)
    moreover have "mset (runs_of (cs_log st')) = mset (runs_of (cs_log st)) + mset (filter (\<lambda>t. t \<notin> processed) ts)"
      using st'(2) g ord [of n ?rs] split by (simp add: add.assoc)
    ultimately show ?thesis by blast
  qed
qed

section \<open>Sequential: lemmas\<close>

lemma bg_due_Nil [simp]: "bg_due E c ks [] st = Some (st, [])"
  by (induction ks) auto

lemma pipe_context_frame:
  "cs_log (pipe_context prev a st) = cs_log st" "cs_world (pipe_context prev a st) = cs_world st"
  "b \<noteq> a \<Longrightarrow> cs_heap (pipe_context prev a st) b = cs_heap st b"
  "ct_AsyncExecution (cs_heap (pipe_context prev a st) b) = ct_AsyncExecution (cs_heap st b)"
  "tk_Processed (task_at (pipe_context prev a st) b) = tk_Processed (task_at st b)"
  by (auto simp: pipe_context_def split: option.splits)

lemma pipe_context_adds:
  "tk_Processed (task_at st p) \<Longrightarrow> has_output (task_at st p) \<Longrightarrow> p \<in> set (tk_Context (task_at (pipe_context (Some p) a st) a))"
  by (auto simp: pipe_context_def)

text \<open>
  What a sequential run over the pending tasks \<open>pend\<close> did: the first \<open>k\<close> of them ran in order, of which
  the first \<open>j\<close> succeeded; a task that ran and is not among those failed and ended the run.
\<close>

definition seq_ran :: "'w crew_st \<Rightarrow> nat list \<Rightarrow> nat \<Rightarrow> nat \<Rightarrow> 'w crew_st \<Rightarrow> goerr option \<Rightarrow> bool" where
  "seq_ran st pend j k st' err \<longleftrightarrow>
     j \<le> k \<and> k \<le> Suc j \<and> k \<le> length pend \<and>
     runs_of (cs_log st') = runs_of (cs_log st) @ take k pend \<and>
     (\<forall>a. a \<notin> set (take k pend) \<longrightarrow> cs_heap st' a = cs_heap st a) \<and>
     (\<forall>a \<in> set (take j pend). tk_Processed (task_at st' a) \<and> tk_Output (task_at st' a) \<noteq> None) \<and>
     (k = Suc j \<longrightarrow> (\<exists>e n. err = Some (NewTaskError n (tk_Description (task_at st (pend ! j))) e) \<and>
        tk_Processed (task_at st' (pend ! j)) \<and> tk_Failed (task_at st' (pend ! j)) \<and> tk_Error (task_at st' (pend ! j)) = Some e)) \<and>
     (err = None \<longrightarrow> j = length pend)"

lemma seq_ran_stop [simp]: "seq_ran st pend 0 0 st err \<longleftrightarrow> (err = None \<longrightarrow> pend = [])"
  by (auto simp: seq_ran_def)

lemma seq_ran_failed:
  assumes "runs_of (cs_log st') = runs_of (cs_log st) @ [a]" "\<And>b. b \<noteq> a \<Longrightarrow> cs_heap st' b = cs_heap st b"
    "err = Some (NewTaskError n (tk_Description (task_at st a)) e)"
    "tk_Processed (task_at st' a)" "tk_Failed (task_at st' a)" "tk_Error (task_at st' a) = Some e"
  shows "seq_ran st (a # pend) 0 1 st' err"
  using assms by (auto simp: seq_ran_def)

lemma seq_ran_Cons:
  assumes "seq_ran st1 pend j k st' err" "a \<notin> set pend"
    "runs_of (cs_log st1) = runs_of (cs_log st) @ [a]" "\<And>b. b \<noteq> a \<Longrightarrow> cs_heap st1 b = cs_heap st b"
    "tk_Processed (task_at st1 a)" "tk_Output (task_at st1 a) \<noteq> None"
  shows "seq_ran st (a # pend) (Suc j) (Suc k) st' err"
proof -
  have h: "cs_heap st' a = cs_heap st1 a" using assms(1,2) by (auto simp: seq_ran_def dest: in_set_takeD)
  have "k = Suc j \<Longrightarrow> pend ! j \<noteq> a" using assms(1,2) nth_mem [of j pend] by (auto simp: seq_ran_def)
  then show ?thesis using assms h by (auto simp: seq_ran_def)
qed

lemma seq_loop_ran:
  "seq_loop E c due i prev ts [] final st = Some (st', v, err) \<Longrightarrow> distinct ts \<Longrightarrow>
    (\<And>a. a \<in> set ts \<Longrightarrow> \<not> ct_AsyncExecution (cs_heap st a)) \<Longrightarrow>
    \<exists>j k. seq_ran st (filter (\<lambda>a. \<not> tk_Processed (task_at st a)) ts) j k st' err \<and>
      (err = None \<longrightarrow> v = (case filter (\<lambda>a. \<not> tk_Processed (task_at st a)) ts of [] \<Rightarrow> final
         | p # ps \<Rightarrow> the (tk_Output (task_at st' (last (p # ps))))))"
proof (induction ts arbitrary: i prev final st)
  case Nil
  then have "st' = st" "v = final" "err = None" by auto
  then show ?case by (intro exI [of _ 0]) simp
next
  case (Cons a ts)
  let ?pend = "\<lambda>st. filter (\<lambda>a. \<not> tk_Processed (task_at st a)) ts"
  show ?case
  proof (cases "tk_Processed (task_at st a)")
    case True
    then have "seq_loop E c due (i + 1) (Some a) ts [] final st = Some (st', v, err)" using Cons.prems(1) by simp
    then show ?thesis using Cons.IH [of "i + 1" "Some a" final st] Cons.prems(2,3) True by simp
  next
    case pend: False
    let ?st1 = "pipe_context prev a st"
    show ?thesis
    proof (cases "ce_ctx E (cs_world st) \<noteq> None \<or> ce_paused E (cs_world st) \<noteq> None")
      case True
      then obtain e where "seq_loop E c due i prev (a # ts) [] final st = Some (st, final, Some e)"
        using pend by (cases "ce_ctx E (cs_world st)") auto
      then have "st' = st \<and> err = Some e" using Cons.prems(1) by (simp del: seq_loop.simps)
      then show ?thesis by (intro exI [of _ 0]) auto
    next
      case False
      have na: "\<not> ct_AsyncExecution (cs_heap ?st1 a)" using Cons.prems(3) by (simp add: pipe_context_frame)
      obtain st2 r where r: "run_task E a ?st1 = Some (st2, r)" using Cons.prems(1) pend False na
        by (auto simp: Let_def split: option.splits)
      note h = run_task_heap [OF r]
      show ?thesis
      proof (cases r)
        case (Inl e)
        let ?st3 = "upd_task a (\<lambda>t. t\<lparr>tk_Failed := True, tk_Error := Some e, tk_Processed := True\<rparr>) st2"
        have d: "tk_Description (task_at st2 a) = tk_Description (task_at st a)"
          using h Inl by (auto simp: pipe_context_def split: option.splits)
        have "st' = call_error c (int i + 1) (NewTaskError (i + 1) (tk_Description (task_at st2 a)) e) ?st3"
          "err = Some (NewTaskError (i + 1) (tk_Description (task_at st2 a)) e)"
          using Cons.prems(1) pend False na r Inl by (simp_all add: Let_def)
        then have "seq_ran st (a # ?pend st) 0 1 st' err"
          by (intro seq_ran_failed [where n = "i + 1" and e = e]) (use h d in \<open>simp_all add: pipe_context_frame\<close>)
        then show ?thesis using pend \<open>err = _\<close> by (intro exI [of _ 0] exI [of _ 1]) simp
      next
        case (Inr x)
        let ?st3 = "call_complete c (int i + 1) x (upd_task a (\<lambda>t. t\<lparr>tk_Processed := True, tk_Output := Some x\<rparr>) st2)"
        define st4 where "st4 = (if cc_Session c then log_ev Checkpointed ?st3 else ?st3)"
        have nx: "seq_loop E c due (i + 1) (Some a) ts [] x st4 = Some (st', v, err)"
          using Cons.prems(1) pend False na r Inr by (simp add: Let_def st4_def)
        have hp: "cs_heap st4 b = cs_heap st b" if "b \<noteq> a" for b using that h by (simp add: st4_def pipe_context_frame)
        have lg: "runs_of (cs_log st4) = runs_of (cs_log st) @ [a]" using h by (simp add: st4_def pipe_context_frame)
        have ha: "tk_Processed (task_at st4 a)" "tk_Output (task_at st4 a) = Some x" by (simp_all add: st4_def)
        have p4: "?pend st4 = ?pend st" 
        proof (rule filter_cong [OF refl])
          fix b assume "b \<in> set ts"
          then have "b \<noteq> a" using Cons.prems(2) by auto
          from hp [OF this] show "(\<not> tk_Processed (task_at st4 b)) = (\<not> tk_Processed (task_at st b))" by simp
        qed
        have as: "\<not> ct_AsyncExecution (cs_heap st4 b)" if "b \<in> set ts" for b
        proof -
          have "b \<noteq> a" using that Cons.prems(2) by auto
          from hp [OF this] show ?thesis using Cons.prems(3) [of b] that by simp
        qed
        obtain j k where jk: "seq_ran st4 (?pend st) j k st' err"
          "err = None \<longrightarrow> v = (case ?pend st of [] \<Rightarrow> x | p # ps \<Rightarrow> the (tk_Output (task_at st' (last (p # ps)))))"
          using Cons.IH [OF nx _ as] Cons.prems(2) unfolding p4 by auto
        have an: "a \<notin> set (?pend st)" using Cons.prems(2) by auto
        have "seq_ran st (a # ?pend st) (Suc j) (Suc k) st' err"
          by (rule seq_ran_Cons [OF jk(1) an lg hp]) (use ha in simp_all)
        moreover have "tk_Output (task_at st' a) = Some x"
        proof -
          have "a \<notin> set (take k (?pend st))" using an by (meson in_set_takeD)
          then have "cs_heap st' a = cs_heap st4 a" using jk(1) unfolding seq_ran_def by blast
          then show ?thesis using ha(2) by simp
        qed
        ultimately show ?thesis using jk(2) pend
          by (intro exI [of _ "Suc j"] exI [of _ "Suc k"]) (auto split: list.splits)
      qed
    qed
  qed
qed

section \<open>State machine: lemmas\<close>

text \<open>Two consecutive runs are linked by an output path or by the order of the slice.\<close>

definition sm_edge :: "nat list \<Rightarrow> 'w crew_st \<Rightarrow> nat \<Rightarrow> nat \<Rightarrow> bool" where
  "sm_edge ts st a b \<longleftrightarrow> (\<exists>r. transition (cs_heap st a) r = Some b) \<or> next_in_slice ts a = Some b"

fun sm_path :: "nat list \<Rightarrow> 'w crew_st \<Rightarrow> nat list \<Rightarrow> bool" where
  "sm_path ts st (a # b # rs) \<longleftrightarrow> sm_edge ts st a b \<and> sm_path ts st (b # rs)"
| "sm_path ts st _ \<longleftrightarrow> True"

lemma transition_cfg: "same_cfg st st' \<Longrightarrow> transition (cs_heap st' a) r = transition (cs_heap st a) r"
  by (simp add: same_cfg_def transition_def)

lemma sm_edge_cfg: "same_cfg st st' \<Longrightarrow> sm_edge ts st' a b = sm_edge ts st a b"
  by (simp add: sm_edge_def transition_cfg)

lemma sm_path_cfg: "same_cfg st st' \<Longrightarrow> sm_path ts st' rs = sm_path ts st rs"
  by (induction ts st rs rule: sm_path.induct) (simp_all add: sm_edge_cfg)

lemma same_cfg_bump: "same_cfg st st1 \<Longrightarrow> same_cfg st (bump_cycle a st1)"
  by (simp add: same_cfg_def bump_cycle_def)

lemma same_cfg_complete: "same_cfg st st1 \<Longrightarrow> same_cfg st (call_complete c i r st1)"
  by (simp add: same_cfg_def)

lemma bump_cycle_frame [simp]: "cs_log (bump_cycle a st) = cs_log st" "cs_world (bump_cycle a st) = cs_world st"
  by (simp_all add: bump_cycle_def)

text \<open>One turn of the loop: it stops, or goes on with one budget unit less from a linked task.\<close>

lemma sm_loop_step:
  assumes "sm_loop (Suc n) E c cur st = Some (st', res)"
  shows "(cs_log st' = cs_log st \<and> same_cfg st st' \<and> (\<exists>e. res = Inl e)) \<or>
    (runs_of (cs_log st') = runs_of (cs_log st) @ [cur] \<and> same_cfg st st') \<or>
    (\<exists>st1 nxt. runs_of (cs_log st1) = runs_of (cs_log st) @ [cur] \<and> same_cfg st st1 \<and> sm_edge (cc_Tasks c) st cur nxt \<and>
      sm_loop n E c nxt st1 = Some (st', res))"
proof (cases "ce_ctx E (cs_world st)")
  case (Some e)
  then show ?thesis using assms by auto
next
  case None
  obtain st1 x where r: "run_task E cur st = Some (st1, x)" using assms None by (auto split: option.splits)
  note h = run_task_heap [OF r] and cfg = run_task_cfg [OF r]
  show ?thesis
  proof (cases x)
    case (Inl e)
    then show ?thesis using assms None r h cfg by auto
  next
    case (Inr v)
    let ?st2 = "call_complete c (-1) v st1"
    have cfg2: "same_cfg st ?st2" by (rule same_cfg_complete [OF cfg])
    have lg2: "runs_of (cs_log ?st2) = runs_of (cs_log st) @ [cur]" using h by simp
    show ?thesis
    proof (cases "transition (cs_heap ?st2 cur) v")
      case N: None
      show ?thesis
      proof (cases "next_in_slice (cc_Tasks c) cur")
        case NN: None
        then show ?thesis using assms None r Inr N lg2 cfg2 by (auto simp: Let_def)
      next
        case (Some nxt)
        then have "sm_loop n E c nxt ?st2 = Some (st', res)" using assms None r Inr N by (simp add: Let_def)
        moreover have "sm_edge (cc_Tasks c) st cur nxt" using Some by (simp add: sm_edge_def)
        ultimately show ?thesis using lg2 cfg2 by blast
      qed
    next
      case (Some nxt)
      let ?st3 = "if nxt = cur then bump_cycle cur ?st2 else ?st2"
      have e: "sm_edge (cc_Tasks c) st cur nxt" using Some transition_cfg [OF cfg2, of cur v] by (auto simp: sm_edge_def)
      have l3: "runs_of (cs_log ?st3) = runs_of (cs_log st) @ [cur]" "same_cfg st ?st3"
        using lg2 cfg2 same_cfg_bump [OF cfg2, of cur] by simp_all
      have "st' = ?st3 \<or> sm_loop n E c nxt ?st3 = Some (st', res)"
        using assms None r Inr Some by (auto simp: Let_def split: if_splits)
      then show ?thesis using l3 e by blast
    qed
  qed
qed

lemma sm_loop_path:
  "sm_loop n E c cur st = Some (st', res) \<Longrightarrow>
    \<exists>rs. runs_of (cs_log st') = runs_of (cs_log st) @ rs \<and> length rs \<le> n \<and> (rs \<noteq> [] \<longrightarrow> hd rs = cur) \<and>
      sm_path (cc_Tasks c) st rs \<and> same_cfg st st'"
proof (induction n arbitrary: cur st)
  case (Suc n)
  from sm_loop_step [OF Suc.prems] show ?case
  proof (elim disjE)
    assume "\<exists>st1 nxt. runs_of (cs_log st1) = runs_of (cs_log st) @ [cur] \<and> same_cfg st st1 \<and> sm_edge (cc_Tasks c) st cur nxt \<and>
      sm_loop n E c nxt st1 = Some (st', res)"
    then obtain st1 nxt where s: "runs_of (cs_log st1) = runs_of (cs_log st) @ [cur]" "same_cfg st st1"
      "sm_edge (cc_Tasks c) st cur nxt" "sm_loop n E c nxt st1 = Some (st', res)" by blast
    from Suc.IH [OF s(4)] obtain rs where rs: "runs_of (cs_log st') = runs_of (cs_log st1) @ rs" "length rs \<le> n"
      "rs \<noteq> [] \<longrightarrow> hd rs = nxt" "sm_path (cc_Tasks c) st1 rs" "same_cfg st1 st'" by blast
    have "sm_path (cc_Tasks c) st (cur # rs)" using rs(3,4) s(3) sm_path_cfg [OF s(2)] by (cases rs) auto
    then show ?thesis using rs s same_cfg_trans by (intro exI [of _ "cur # rs"]) auto
  qed (intro exI [of _ "[]"], simp, intro exI [of _ "[cur]"], simp)
qed simp

text \<open>Self transitions of a task with a limit: the counter passes the limit once, with the error.\<close>

lemma sm_loop_cycles:
  "sm_loop n E c cur st = Some (st', res) \<Longrightarrow> 0 < ct_MaxCycles (cs_heap st a) \<Longrightarrow>
    ct_CycleCount (cs_heap st a) \<le> ct_MaxCycles (cs_heap st a) \<Longrightarrow>
    ct_CycleCount (cs_heap st' a) \<le> ct_MaxCycles (cs_heap st a) \<or>
    ct_CycleCount (cs_heap st' a) = ct_MaxCycles (cs_heap st a) + 1 \<and>
      (\<exists>d. res = Inl (EMsg (''task cycle limit exceeded for: '' @ d)))"
proof (induction n arbitrary: cur st)
  case (Suc n)
  show ?case
  proof (cases "ce_ctx E (cs_world st)")
    case (Some e)
    then show ?thesis using Suc.prems by auto
  next
    case None
    obtain st1 x where r: "run_task E cur st = Some (st1, x)" using Suc.prems(1) None by (auto split: option.splits)
    have keep: "ct_CycleCount (cs_heap st1 b) = ct_CycleCount (cs_heap st b)" "ct_MaxCycles (cs_heap st1 b) = ct_MaxCycles (cs_heap st b)" for b
      using run_task_heap [OF r] by (auto split: sum.splits)
    show ?thesis
    proof (cases x)
      case (Inl e)
      then show ?thesis using Suc.prems None r keep by auto
    next
      case (Inr v)
      let ?st2 = "call_complete c (-1) v st1" let ?st3 = "bump_cycle cur ?st2"
      show ?thesis
      proof (cases "transition (cs_heap ?st2 cur) v")
        case N: None
        then show ?thesis using Suc.prems None r Inr keep Suc.IH [of _ ?st2]
          by (auto simp: Let_def split: option.splits)
      next
        case (Some nxt)
        show ?thesis
        proof (cases "nxt = cur")
          case False
          then have "sm_loop n E c nxt ?st2 = Some (st', res)" using Suc.prems(1) None r Inr Some by (simp add: Let_def)
          from Suc.IH [OF this] show ?thesis using Suc.prems(2,3) keep by simp
        next
          case True
          have b: "ct_CycleCount (cs_heap ?st3 a) = ct_CycleCount (cs_heap st a) + (if a = cur then 1 else 0)"
            "ct_MaxCycles (cs_heap ?st3 a) = ct_MaxCycles (cs_heap st a)"
            by (simp_all add: bump_cycle_def keep)
          show ?thesis
          proof (cases "ct_MaxCycles (cs_heap ?st3 cur) > 0 \<and> ct_CycleCount (cs_heap ?st3 cur) > ct_MaxCycles (cs_heap ?st3 cur)")
            case over: True
            then have "st' = ?st3" "\<exists>d. res = Inl (EMsg (''task cycle limit exceeded for: '' @ d))"
              using Suc.prems(1) None r Inr Some True by (auto simp: Let_def)
            then show ?thesis using b Suc.prems(2,3) by auto
          next
            case ok: False
            then have "sm_loop n E c cur ?st3 = Some (st', res)" 
              using Suc.prems(1) None r Inr Some True by (simp only: sm_loop.simps Let_def option.simps sum.simps prod.case if_True if_False refl)
            from Suc.IH [OF this] show ?thesis using b ok Suc.prems(2,3) by (cases "a = cur") auto
          qed
        qed
      qed
    qed
  qed
qed auto

section \<open>Reflective: lemmas\<close>

primrec reviews_of :: "crew_event list \<Rightarrow> string list" where
  "reviews_of [] = []"
| "reviews_of (e # es) = (case e of Reviewed p \<Rightarrow> [p] | _ \<Rightarrow> []) @ reviews_of es"

lemma reviews_of_append [simp]: "reviews_of (xs @ ys) = reviews_of xs @ reviews_of ys"
  by (induction xs) auto

text \<open>The reviews of a task all put the same prompt to the manager.\<close>

lemma review_loop_log:
  "review_loop n E mgr prompt a r st = Some (st', res) \<Longrightarrow>
    \<exists>evs k m. cs_log st' = cs_log st @ evs \<and> runs_of evs = replicate k a \<and> reviews_of evs = replicate m prompt \<and> m \<le> n \<and> k \<le> n - 1"
proof (induction n arbitrary: r st)
  case (Suc n)
  obtain w1 y where m: "mgr prompt None (cs_world st) = (w1, y)" by fastforce
  let ?st1 = "log_ev (Reviewed prompt) (st\<lparr>cs_world := w1\<rparr>)"
  show ?case
  proof (cases "st' = ?st1")
    case True
    then show ?thesis by (intro exI [of _ "[Reviewed prompt]"] exI [of _ 0] exI [of _ 1]) simp
  next
    case False
    then obtain v where v: "y = Inr v" "n \<noteq> 0" using Suc.prems m by (cases y) (auto simp: Let_def split: if_splits)
    then obtain st2 x where x: "run_task E a (upd_task a (\<lambda>t. t\<lparr>tk_Description := tk_Description t @ [CHR 0x0A, CHR 0x0A] @
        ''MANAGER FEEDBACK: '' @ te_show (ce_tenv E) v\<rparr>) ?st1) = Some (st2, x)"
      and c: "case x of Inl e \<Rightarrow> st' = st2 | Inr r2 \<Rightarrow> review_loop n E mgr prompt a r2 st2 = Some (st', res)"
      using Suc.prems m False by (auto simp: Let_def split: if_splits option.splits sum.splits)
    have l2: "cs_log st2 = cs_log st @ [Reviewed prompt, Ran a]" using run_task_heap [OF x] by simp
    show ?thesis
    proof (cases x)
      case (Inl e)
      then show ?thesis using c l2 v(2) by (intro exI [of _ "[Reviewed prompt, Ran a]"] exI [of _ 1]) auto
    next
      case (Inr r2)
      with Suc.IH [of r2 st2] c obtain evs k q where "cs_log st' = cs_log st2 @ evs" "runs_of evs = replicate k a"
        "reviews_of evs = replicate q prompt" "q \<le> n" "k \<le> n - 1" by auto
      then show ?thesis using l2 v(2)
        by (intro exI [of _ "Reviewed prompt # Ran a # evs"] exI [of _ "Suc k"] exI [of _ "Suc q"]) auto
    qed
  qed
qed simp

section \<open>Properties\<close>

definition wit_cenv :: "nat cenv" where
  "wit_cenv = \<lparr>ce_tenv = wit_tenv\<lparr>te_show := \<lambda>v. case v of VString s \<Rightarrow> s | _ \<Rightarrow> ''nil''\<rparr>,
     ce_ctx = \<lambda>_. None, ce_paused = \<lambda>_. None, ce_lines = \<lambda>_. (None, [])\<rparr>"

definition wit_simple :: "nat agent \<Rightarrow> nat CTask" where
  "wit_simple ag = \<lparr>ct_task = wit_task\<lparr>tk_Agent := Some ag, tk_OutputJSON := None, tk_Guardrails := []\<rparr>, ct_AsyncExecution = False,
     ct_Dependencies = [], ct_OutputCondition = None, ct_NextPaths = None, ct_MaxCycles = 0, ct_CycleCount = 0\<rparr>"

definition wit_ok :: "nat agent" where
  "wit_ok d o' n = (Suc n, Inr (VString ''done''))"

definition wit_bad :: "nat agent" where
  "wit_bad d o' n = (Suc n, Inl (EMsg ''down''))"

definition wit_cfg :: "nat list \<Rightarrow> int \<Rightarrow> crew_cfg" where
  "wit_cfg ts m = \<lparr>cc_Tasks = ts, cc_MaxCycles = m, cc_OnTaskComplete = False, cc_OnTaskError = True, cc_Session = False\<rparr>"

definition wit_st :: "(nat \<Rightarrow> nat CTask) \<Rightarrow> nat crew_st" where
  "wit_st h = \<lparr>cs_world = 0, cs_heap = h, cs_log = []\<rparr>"

lemmas wit_crew = wit_cenv_def wit_simple_def wit_cfg_def wit_st_def wit_tenv_def wit_task_def run_task_def Execute_def
  at_least_one_def try_once_def finish_task_def Let_def upd_task_def log_ev_def

text \<open>Task 1 depends on task 0.\<close>

definition wit_chain :: "nat \<Rightarrow> nat CTask" where
  "wit_chain a = (wit_simple wit_ok)\<lparr>ct_Dependencies := if a = 1 then [0] else []\<rparr>"

text \<open>
  C1: in graph mode a task never runs before all its dependencies have run, whatever the completion
  order inside the waves and whatever feedback edges make tasks run again.
\<close>

theorem graph_respects_dependencies:
  assumes "executeGraph E c order st = Some (st', res)" "\<And>n xs. set (order n xs) = set xs" "cs_log st = []"
    "runs_of (cs_log st') = before @ a # after" "d \<in> set (ct_Dependencies (cs_heap st a))"
  shows "d \<in> set before"
proof -
  let ?deps = "\<lambda>a. ct_Dependencies (cs_heap st a)"
  have "dep_ordered ?deps (runs_of (cs_log st'))"
  proof (cases "cc_Tasks c = []")
    case True
    then show ?thesis using assms(1,3) by (simp add: executeGraph_def)
  next
    case False
    then obtain err where "graph_loop (cycle_limit c 100) E order (cc_Tasks c) {} st = Some (st', err)"
      using assms(1) by (auto simp: executeGraph_def split: option.splits)
    then show ?thesis by (rule graph_loop_ordered) (use assms(2,3) in auto)
  qed
  then show ?thesis using assms(4,5) by (auto simp: dep_ordered_def)
qed

lemma wit_chain_run:
  "\<exists>st'. executeGraph wit_cenv (wit_cfg [1, 0] 5) (\<lambda>_ xs. xs) (wit_st wit_chain) = Some (st', Inr ''done'') \<and> runs_of (cs_log st') = [0, 1]"
  by (simp add: executeGraph_def cycle_limit_def ready_def wit_chain_def wit_ok_def wit_crew feedback_def show_output_def
      base_description_def schema_option_def eval_nat_numeral)

theorem graph_respects_dependencies_witness:
  "\<exists>st'. executeGraph wit_cenv (wit_cfg [1, 0] 5) (\<lambda>_ xs. xs) (wit_st wit_chain) = Some (st', Inr ''done'') \<and>
     runs_of (cs_log st') = [0, 1] \<and> 0 \<in> set [0 :: nat]"
proof -
  obtain st' where r: "executeGraph wit_cenv (wit_cfg [1, 0] 5) (\<lambda>_ xs. xs) (wit_st wit_chain) = Some (st', Inr ''done'')"
    and l: "runs_of (cs_log st') = [0] @ 1 # []" using wit_chain_run by auto
  have "0 \<in> set [0 :: nat]"
    by (rule graph_respects_dependencies [OF r refl _ l]) (simp_all add: wit_st_def wit_chain_def)
  then show ?thesis using r l by auto
qed

text \<open>
  C10: a graph crew without feedback edges whose dependencies are acyclic and stay within the crew
  finishes: when no task fails and the cycle budget is at least the number of tasks, every task
  runs exactly once and the crew returns the output of its last task.
\<close>

theorem graph_completes:
  assumes "\<And>n xs. mset (order n xs) = mset xs" "distinct (cc_Tasks c)" "cc_Tasks c \<noteq> []"
    "\<And>a. a \<in> set (cc_Tasks c) \<Longrightarrow> never_fails E (task_at st a)"
    "\<And>a. ct_OutputCondition (cs_heap st a) = None"
    "\<And>a d. a \<in> set (cc_Tasks c) \<Longrightarrow> d \<in> set (ct_Dependencies (cs_heap st a)) \<Longrightarrow> d \<in> set (cc_Tasks c) \<and> rank d < (rank a :: nat)"
    "length (cc_Tasks c) \<le> cycle_limit c 100" "cs_log st = []"
  shows "\<exists>st'. executeGraph E c order st = Some (st', Inr (show_output E (task_at st' (last (cc_Tasks c))))) \<and>
    mset (runs_of (cs_log st')) = mset (cc_Tasks c)"
proof -
  have "length (filter (\<lambda>t. t \<notin> {}) (cc_Tasks c)) \<le> cycle_limit c 100" using assms(7) by simp
  from graph_loop_completes [where order = order and rank = rank, OF assms(1,2,4,5,6) this]
  obtain st' where "graph_loop (cycle_limit c 100) E order (cc_Tasks c) {} st = Some (st', None)"
    "mset (runs_of (cs_log st')) = mset (cc_Tasks c)" using assms(8) by auto
  then show ?thesis using assms(3) by (simp add: executeGraph_def)
qed

lemma wit_simple_ok: "never_fails wit_cenv (ct_task (wit_simple wit_ok))"
  by (simp add: never_fails_def wit_ok_def wit_crew)

theorem graph_completes_witness:
  "\<exists>st'. executeGraph wit_cenv (wit_cfg [1, 0] 5) (\<lambda>_ xs. rev xs) (wit_st wit_chain) =
     Some (st', Inr (show_output wit_cenv (task_at st' 0))) \<and> mset (runs_of (cs_log st')) = {#0, 1#}"
proof -
  have "\<exists>st'. executeGraph wit_cenv (wit_cfg [1, 0] 5) (\<lambda>_ xs. rev xs) (wit_st wit_chain) =
     Some (st', Inr (show_output wit_cenv (task_at st' (last (cc_Tasks (wit_cfg [1, 0] 5)))))) \<and>
     mset (runs_of (cs_log st')) = mset (cc_Tasks (wit_cfg [1, 0] 5))"
  proof (rule graph_completes [where rank = id])
    show "never_fails wit_cenv (task_at (wit_st wit_chain) a)" for a
      using wit_simple_ok by (simp add: wit_st_def wit_chain_def)
  qed (auto simp: wit_st_def wit_chain_def wit_simple_def wit_cfg_def cycle_limit_def split: if_splits)
  then show ?thesis by (simp add: wit_cfg_def add_mset_commute)
qed

text \<open>
  When the cycle budget runs out before all tasks have run, graph mode reports success. There
  is a crew of two tasks, the second depending on the first, that returns normally although
  its last task never ran.
\<close>

theorem graph_exhaustion_is_silent:
  "\<exists>st' s. executeGraph wit_cenv (wit_cfg [0, 1] 1) (\<lambda>_ xs. xs) (wit_st wit_chain) = Some (st', Inr s) \<and>
     runs_of (cs_log st') = [0] \<and> \<not> tk_Processed (task_at st' 1)"
  by (simp add: executeGraph_def cycle_limit_def ready_def wit_chain_def wit_ok_def wit_crew feedback_def show_output_def
      base_description_def schema_option_def)


definition wit_seq :: "nat \<Rightarrow> nat CTask" where
  "wit_seq a = wit_simple (if a = 1 then wit_bad else wit_ok)"

lemma wit_seq_run:
  "\<exists>st' e. executeSequential wit_cenv (wit_cfg [0, 1, 2] 0) (\<lambda>_. []) (wit_st wit_seq) = Some (st', VString ''done'', Some e) \<and>
     runs_of (cs_log st') = [0, 1] \<and> tk_Context (task_at st' 1) = [0]"
  by (simp add: executeSequential_def pipe_context_def has_output_def wit_seq_def wit_ok_def wit_bad_def wit_crew
      base_description_def schema_option_def call_complete_def call_error_def)


definition wit_async :: "nat \<Rightarrow> nat CTask" where
  "wit_async a = (if a = 0 then (wit_simple wit_bad)\<lparr>ct_AsyncExecution := True\<rparr> else wit_simple wit_ok)"

text \<open>
  A background task that fails does not fail a sequential crew, stays unmarked, and is reported
  to the crew's error callback twice, once bare by its goroutine and once as a task error when
  it is collected.
\<close>

theorem async_failure_reported_twice:
  "\<exists>st'. executeSequential wit_cenv (wit_cfg [0, 1] 0) (\<lambda>_. []) (wit_st wit_async) = Some (st', VString ''done'', None) \<and>
     cs_log st' = [Ran 1, Ran 0, OnTaskError 1 (EMsg ''down''), OnTaskError 1 (NewTaskError 1 ''do it'' (EMsg ''down''))] \<and>
     \<not> tk_Processed (task_at st' 0) \<and> \<not> tk_Failed (task_at st' 0)"
  by (simp add: executeSequential_def pipe_context_def has_output_def wit_async_def wit_ok_def wit_bad_def wit_crew
      base_description_def schema_option_def call_complete_def call_error_def bg_run_def NewTaskError_def)

text \<open>
  A state machine run starts at the crew's first task, moves only along output paths or to the
  next task of the slice, and makes at most as many runs as the cycle limit (50 by default). A
  task with a cycle limit of its own repeats itself at most that often: one more self transition
  ends the run with the limit error.
\<close>

theorem state_machine_bounded_path:
  assumes "executeStateMachine E c st = Some (st', res)" "cs_log st = []"
  shows "length (runs_of (cs_log st')) \<le> cycle_limit c 50 \<and>
    (runs_of (cs_log st') \<noteq> [] \<longrightarrow> hd (runs_of (cs_log st')) = hd (cc_Tasks c)) \<and>
    sm_path (cc_Tasks c) st (runs_of (cs_log st')) \<and>
    (\<forall>a. 0 < ct_MaxCycles (cs_heap st a) \<longrightarrow> ct_CycleCount (cs_heap st a) \<le> ct_MaxCycles (cs_heap st a) \<longrightarrow>
       ct_CycleCount (cs_heap st' a) \<le> ct_MaxCycles (cs_heap st a) \<or>
       ct_CycleCount (cs_heap st' a) = ct_MaxCycles (cs_heap st a) + 1 \<and>
         (\<exists>d. res = Inl (EMsg (''task cycle limit exceeded for: '' @ d))))"
proof (cases "cc_Tasks c")
  case Nil
  then show ?thesis using assms by (auto simp: executeStateMachine_def)
next
  case (Cons x xs)
  then have r: "sm_loop (cycle_limit c 50) E c x st = Some (st', res)" using assms(1) by (simp add: executeStateMachine_def)
  from sm_loop_path [OF r] assms(2) Cons have "length (runs_of (cs_log st')) \<le> cycle_limit c 50 \<and>
    (runs_of (cs_log st') \<noteq> [] \<longrightarrow> hd (runs_of (cs_log st')) = hd (cc_Tasks c)) \<and> sm_path (cc_Tasks c) st (runs_of (cs_log st'))"
    by auto
  then show ?thesis using sm_loop_cycles [OF r] by blast
qed

text \<open>A task that always selects itself, with a limit of one repetition.\<close>

definition wit_self :: "nat \<Rightarrow> nat CTask" where
  "wit_self a = (wit_simple wit_ok)\<lparr>ct_OutputCondition := Some (\<lambda>_. ''again''), ct_NextPaths := Some [''again'' \<mapsto> 0], ct_MaxCycles := 1\<rparr>"

theorem state_machine_bounded_path_witness:
  "\<exists>st' d. executeStateMachine wit_cenv (wit_cfg [0] 9) (wit_st wit_self) = Some (st', Inl (EMsg (''task cycle limit exceeded for: '' @ d))) \<and>
     runs_of (cs_log st') = [0, 0] \<and> sm_path [0] (wit_st wit_self) [0, 0]"
proof -
  have "\<exists>st'. executeStateMachine wit_cenv (wit_cfg [0] 9) (wit_st wit_self) =
      Some (st', Inl (EMsg (''task cycle limit exceeded for: '' @ ''do it''))) \<and> runs_of (cs_log st') = [0, 0]"
    by (simp add: executeStateMachine_def cycle_limit_def wit_self_def wit_ok_def wit_crew base_description_def schema_option_def
        call_complete_def transition_def bump_cycle_def eval_nat_numeral)
  then obtain st' where r: "executeStateMachine wit_cenv (wit_cfg [0] 9) (wit_st wit_self) =
      Some (st', Inl (EMsg (''task cycle limit exceeded for: '' @ ''do it'')))" and l: "runs_of (cs_log st') = [0, 0]" by blast
  have "cs_log (wit_st wit_self) = []" by (simp add: wit_st_def)
  from state_machine_bounded_path [OF r this] have "sm_path [0] (wit_st wit_self) [0, 0]" using l by (simp add: wit_cfg_def)
  then show ?thesis using r l by blast
qed

text \<open>
  In reflective mode the manager reviews a task at most twice and the task is re-run at most
  once, but both reviews get the prompt with the first output: a revised output is never put
  before the manager, and it is returned as the result although no review approved it.
\<close>

theorem reflective_reviews_first_output:
  assumes "executeReflective E c mgr st = Some (st', res)" "cc_Tasks c = [a]" "run_task E a st = Some (st1, Inr r)"
  shows "\<exists>evs k m. cs_log st' = cs_log st1 @ evs \<and> k \<le> 1 \<and> m \<le> 2 \<and> runs_of evs = replicate k a \<and>
    reviews_of evs = replicate m (review_prompt (tk_Description (task_at st a)) (te_show (ce_tenv E) r))"
proof -
  have d: "tk_Description (task_at st1 a) = tk_Description (task_at st a)" using run_task_heap [OF assms(3)] by simp
  obtain res' where "review_loop 2 E mgr (review_prompt (tk_Description (task_at st1 a)) (te_show (ce_tenv E) r)) a r st1 = Some (st', res')"
    using assms by (auto simp: executeReflective_def simp del: review_loop.simps split: option.splits sum.splits)
  from review_loop_log [OF this] show ?thesis unfolding d by fastforce
qed

text \<open>An agent that improves its answer, and a manager that rejects every answer it sees.\<close>

definition wit_draft :: "nat agent" where
  "wit_draft d o' n = (Suc n, Inr (VString (if n = 0 then ''draft'' else ''final'')))"

definition wit_critic :: "nat agent" where
  "wit_critic d o' n = (Suc n, Inr (VString ''no''))"

theorem reflective_reviews_first_output_witness:
  "\<exists>st'. executeReflective wit_cenv (wit_cfg [0] 0) wit_critic (wit_st (\<lambda>_. wit_simple wit_draft)) = Some (st', Inr ''final'') \<and>
     (\<forall>p \<in> set (reviews_of (cs_log st')). p = review_prompt ''do it'' ''draft'')"
proof -
  let ?st = "wit_st (\<lambda>_. wit_simple wit_draft)"
  have "\<exists>st'. executeReflective wit_cenv (wit_cfg [0] 0) wit_critic ?st = Some (st', Inr ''final'')"
    by (simp add: executeReflective_def wit_critic_def wit_draft_def wit_crew base_description_def schema_option_def
        upper_char_def sublist_Cons_right numeral_2_eq_2)
  then obtain st' where r: "executeReflective wit_cenv (wit_cfg [0] 0) wit_critic ?st = Some (st', Inr ''final'')" by blast
  have "\<exists>st1. run_task wit_cenv 0 ?st = Some (st1, Inr (VString ''draft'')) \<and> cs_log st1 = [Ran 0]"
    by (simp add: wit_draft_def wit_crew base_description_def schema_option_def)
  then obtain st1 where r1: "run_task wit_cenv 0 ?st = Some (st1, Inr (VString ''draft''))" "cs_log st1 = [Ran 0]" by blast
  have t: "cc_Tasks (wit_cfg [0] 0) = [0]" by (simp add: wit_cfg_def)
  from reflective_reviews_first_output [OF r t r1(1)] r1(2)
  have "\<forall>p \<in> set (reviews_of (cs_log st')). p = review_prompt ''do it'' ''draft''"
    by (auto simp: wit_st_def wit_simple_def wit_task_def wit_cenv_def)
  then show ?thesis using r by blast
qed

end
