(* ===== verification/Crew_Kickoff.thy ===== *)
theory Crew_Kickoff
  imports Crew_Exec
begin

text \<open>
  Managed execution and the entry points of a crew: delegation by a manager agent
  (\<^verbatim>\<open>pkg/agents/manager.go\<close>), the hierarchical and consensual modes, planning, \<^verbatim>\<open>Kickoff\<close>, \<^verbatim>\<open>Replay\<close> and
  \<^verbatim>\<open>KickoffWithInputs\<close> of \<^verbatim>\<open>pkg/crew/crew.go\<close> and \<^verbatim>\<open>inputs.go\<close>, and the state file of \<^verbatim>\<open>state.go\<close>.

  A manager is what the modes use of it: its model (for delegation and plans; \<open>None\<close> is nil), its own
  \<^verbatim>\<open>Execute\<close>, and its usage counters. Hierarchical mode may append tasks to the crew, so it returns
  the new task list; \<open>new\<close> gives the address of an allocated task. \<open>None\<close> is a run that does not come
  back: a task never ends, or a nil model is called and the process panics. The session table, MCP and
  delegation tool injection, training flags and rate limit propagation of \<^verbatim>\<open>Kickoff\<close> act on agents
  and on a database, which are not part of this state.
\<close>

section \<open>Manager\<close>

record 'w member =
  mb_Role :: string
  mb_Goal :: string
  mb_agent :: "'w agent"

record 'w card =
  cd_ID :: string
  cd_Role :: string
  cd_Description :: string
  cd_agent :: "'w agent"

record 'w manager =
  mg_LLM :: "(string \<Rightarrow> string \<Rightarrow> 'w \<Rightarrow> 'w \<times> string result) option"
  mg_Backstory :: string
  mg_A2AID :: string
  mg_Execute :: "'w agent"
  mg_Managed :: "'w member list"
  mg_Cards :: "'w card list"

definition nl :: string where
  "nl = [CHR 0x0A]"

definition agent_roles :: "'w manager \<Rightarrow> string" where
  "agent_roles m =
     ''LOCAL AGENTS:'' @ nl @ concat (map (\<lambda>a. ''- '' @ mb_Role a @ '': '' @ mb_Goal a @ nl) (mg_Managed m)) @
     (if mg_Cards m \<noteq> []
      then nl @ ''REMOTE AGENTS (AVAILABLE VIA NETWORK):'' @ nl @
           concat (map (\<lambda>d. ''- '' @ cd_Role d @ '': '' @ cd_Description d @ '' (Remote ID: '' @ cd_ID d @ '')'' @ nl)
             (filter (\<lambda>d. cd_ID d \<noteq> mg_A2AID m) (mg_Cards m)))
      else [])"

definition delegation_prompt :: "string \<Rightarrow> string \<Rightarrow> string" where
  "delegation_prompt desc roles =
     ''Given the following task:'' @ nl @ quoted desc @ nl @ nl @ ''And the following available agents:'' @ nl @ roles @ nl @ nl @
     ''Which agent is BEST suited to perform this task? '' @ nl @
     ''Respond ONLY with the name of the 'Role' of the agent. If it is a remote agent, respond with its 'Role' exactly as listed.''"

definition role_in :: "string \<Rightarrow> string \<Rightarrow> bool" where
  "role_in reply role \<longleftrightarrow> str_contains (to_lower reply) (to_lower role)"

text \<open>The choice reads the model's reply: local agents first, then every remote card. Without a model the call is a nil dereference.\<close>

definition DelegateTask :: "'w manager \<Rightarrow> string \<Rightarrow> 'w \<Rightarrow> ('w \<times> 'w agent result) option" where
  "DelegateTask m desc w =
     (case mg_LLM m of
        None \<Rightarrow> None
      | Some gen \<Rightarrow>
          Some (case gen (mg_Backstory m) (delegation_prompt desc (agent_roles m)) w of
                  (w1, Inl e) \<Rightarrow> (w1, Inl (EWrap ''manager failed to generate delegation decision: '' e []))
                | (w1, Inr response) \<Rightarrow>
                    (let chosen = trim_space response in
                     (w1, case find (\<lambda>a. role_in chosen (mb_Role a)) (mg_Managed m) of
                            Some a \<Rightarrow> Inr (mb_agent a)
                          | None \<Rightarrow>
                              (case find (\<lambda>d. role_in chosen (cd_Role d)) (mg_Cards m) of
                                 Some d \<Rightarrow> Inr (cd_agent d)
                               | None \<Rightarrow> Inl (EMsg (''manager could not find agent with role: '' @ chosen)))))))"

definition plan_request :: "string \<Rightarrow> string" where
  "plan_request tasks_list =
     ''You are the Strategic Manager. Given the following list of tasks for the Crew:'' @ nl @ tasks_list @ nl @ nl @
     ''Please create a high-level strategic plan. '' @ nl @ ''Include:'' @ nl @
     ''1. Coordination strategy (which tasks depend on which).'' @ nl @ ''2. Key risks or hurdles for the agents.'' @ nl @
     ''3. How to ensure the final output is unified and consistent.'' @ nl @ nl @ ''Respond with the plan details.''"

definition GeneratePlan :: "'w manager \<Rightarrow> string \<Rightarrow> 'w \<Rightarrow> ('w \<times> string result) option" where
  "GeneratePlan m tasks_list w =
     (case mg_LLM m of
        None \<Rightarrow> None
      | Some gen \<Rightarrow>
          Some (case gen (mg_Backstory m) (plan_request tasks_list) w of
                  (w1, Inl e) \<Rightarrow> (w1, Inl (EWrap ''manager failed to generate plan: '' e []))
                | (w1, Inr response) \<Rightarrow> (w1, Inr (trim_space response))))"

section \<open>Hierarchical\<close>

text \<open>The goroutine of one pending task: an error for the channel, or the result at its index.\<close>

definition hier_one :: "'w cenv \<Rightarrow> crew_cfg \<Rightarrow> 'w manager \<Rightarrow> nat \<Rightarrow> nat \<Rightarrow> 'w crew_st \<Rightarrow> ('w crew_st \<times> gvalue result) option" where
  "hier_one E c m i a st =
     (case ce_ctx E (cs_world st) of
        Some e \<Rightarrow> Some (st, Inl e)
      | None \<Rightarrow>
          (case DelegateTask m (tk_Description (task_at st a)) (cs_world st) of
             None \<Rightarrow> None
           | Some (w1, d) \<Rightarrow>
               (let st1 = st\<lparr>cs_world := w1\<rparr> in
                case (case d of
                        Inr ag \<Rightarrow> Inr (upd_task a (\<lambda>t. t\<lparr>tk_Agent := Some ag\<rparr>) st1)
                      | Inl e \<Rightarrow> if tk_Agent (task_at st1 a) = None
                                 then Inl (EWrap ''task delegation failed and no default agent assigned: '' e []) else Inr st1) of
                  Inl e \<Rightarrow> Some (st1, Inl e)
                | Inr st2 \<Rightarrow>
                    (case run_task E a st2 of
                       None \<Rightarrow> None
                     | Some (st3, Inl e) \<Rightarrow>
                         (let te = NewTaskError (i + 1) (tk_Description (task_at st3 a)) e in
                          Some (call_error c (int i + 1) te
                                  (upd_task a (\<lambda>t. t\<lparr>tk_Failed := True, tk_Error := Some e, tk_Processed := True\<rparr>) st3), Inl te))
                     | Some (st3, Inr r) \<Rightarrow>
                         Some (call_complete c (int i + 1) r
                                 (upd_task a (\<lambda>t. t\<lparr>tk_Processed := True, tk_Output := Some r\<rparr>) st3), Inr r)))))"

text \<open>One round over the pending tasks in completion order; \<open>res\<close> is \<^verbatim>\<open>finalResults\<close>.\<close>

fun hier_round ::
  "'w cenv \<Rightarrow> crew_cfg \<Rightarrow> 'w manager \<Rightarrow> (nat \<times> nat) list \<Rightarrow> gvalue list \<Rightarrow> goerr list \<Rightarrow> 'w crew_st \<Rightarrow>
    ('w crew_st \<times> gvalue list \<times> goerr list) option" where
  "hier_round E c m [] res errs st = Some (st, res, errs)"
| "hier_round E c m ((i, a) # ps) res errs st =
     (case hier_one E c m i a st of
        None \<Rightarrow> None
      | Some (st1, Inl e) \<Rightarrow> hier_round E c m ps res (errs @ [e]) st1
      | Some (st1, Inr r) \<Rightarrow> hier_round E c m ps (res[i := r]) errs st1)"

definition plan_status :: "'w crew_st \<Rightarrow> nat list \<Rightarrow> string" where
  "plan_status st ts =
     ''CURRENT STATUS:'' @ nl @
     concat (map (\<lambda>(i, a). ''Task '' @ show_nat (i + 1) @ '': '' @ tk_Description (task_at st a) @ '' ['' @
       (if tk_Processed (task_at st a) then ''Completed'' else ''Pending'') @ '']'' @ nl) (enumerate 0 ts))"

definition replan_prompt :: "string \<Rightarrow> string" where
  "replan_prompt status =
     status @ nl @ nl @ ''As the Manager, review the completed tasks. Should we add any new follow-up tasks or modify the existing plan based on current results? '' @
     ''If yes, describe the new tasks cleanly. If no and the goals are met, respond with exactly 'PLAN_STABLE'.''"

definition zero_task :: "'w Task" where
  "zero_task = \<lparr>tk_Name = [], tk_Description = [], tk_ExpectedOutput = [], tk_Agent = None, tk_Markdown = False, tk_OutputFile = [],
     tk_OutputSchema = [], tk_OutputJSON = None, tk_MaxRetries = 0, tk_GuardrailMaxRetries = 0, tk_HumanInput = False,
     tk_Guardrails = [], tk_HasCallback = False, tk_Processed = False, tk_Failed = False, tk_Error = None, tk_Output = None,
     tk_Context = []\<rparr>"

definition followup_task :: "'w manager \<Rightarrow> string \<Rightarrow> 'w CTask" where
  "followup_task m decision =
     \<lparr>ct_task = zero_task\<lparr>tk_Description := ''Follow-up execution based on manager refinement: '' @ decision, tk_Agent := Some (mg_Execute m)\<rparr>,
      ct_AsyncExecution = False, ct_Dependencies = [], ct_OutputCondition = None, ct_NextPaths = None, ct_MaxCycles = 0, ct_CycleCount = 0\<rparr>"

definition pending :: "'w crew_st \<Rightarrow> nat list \<Rightarrow> (nat \<times> nat) list" where
  "pending st ts = filter (\<lambda>(i, a). \<not> tk_Processed (task_at st a)) (enumerate 0 ts)"

definition grow :: "nat \<Rightarrow> gvalue list \<Rightarrow> gvalue list" where
  "grow n res = res @ replicate (n - length res) VNil"

text \<open>\<open>n\<close> is the number of re-plannings still allowed.\<close>

fun hier_loop ::
  "nat \<Rightarrow> 'w cenv \<Rightarrow> crew_cfg \<Rightarrow> 'w manager \<Rightarrow> (nat \<Rightarrow> (nat \<times> nat) list \<Rightarrow> (nat \<times> nat) list) \<Rightarrow> (nat list \<Rightarrow> nat) \<Rightarrow>
    nat list \<Rightarrow> gvalue list \<Rightarrow> 'w crew_st \<Rightarrow> ('w crew_st \<times> nat list \<times> gvalue list \<times> goerr option) option" where
  "hier_loop n E c m order new ts res st =
     (let res1 = grow (length ts) res in
      if pending st ts = [] then Some (st, ts, res1, None)
      else (case hier_round E c m (order n (pending st ts)) res1 [] st of
              None \<Rightarrow> None
            | Some (st1, res2, e # _) \<Rightarrow> Some (st1, ts, res2, Some e)
            | Some (st1, res2, []) \<Rightarrow>
                (case mg_Execute m (replan_prompt (plan_status st1 ts)) None (cs_world st1) of
                   (w1, Inl e) \<Rightarrow> Some (st1\<lparr>cs_world := w1\<rparr>, ts, res2, None)
                 | (w1, Inr d) \<Rightarrow>
                     (let decision = te_show (ce_tenv E) d; st2 = st1\<lparr>cs_world := w1\<rparr> in
                      if str_contains (map upper_char decision) ''PLAN_STABLE'' \<or> n = 0 then Some (st2, ts, res2, None)
                      else hier_loop (n - 1) E c m order new (ts @ [new ts]) res2
                             (st2\<lparr>cs_heap := (cs_heap st2)(new ts := followup_task m decision)\<rparr>)))))"

declare hier_loop.simps [simp del]

definition maxReplans :: nat where
  "maxReplans = 5"

definition aggregate :: "'w cenv \<Rightarrow> 'w crew_st \<Rightarrow> nat list \<Rightarrow> gvalue list \<Rightarrow> string" where
  "aggregate E st ts res =
     concat (map (\<lambda>(i, r). ''--- Task '' @ show_nat (i + 1) @ '': '' @
       (if i < length ts then tk_Description (task_at st (ts ! i)) else ''Unknown Task'') @ '' ---'' @ nl @
       ''Result: '' @ te_show (ce_tenv E) r @ nl @ nl) (enumerate 0 res))"

definition synthesis_input :: "nat \<Rightarrow> string \<Rightarrow> string" where
  "synthesis_input n agg =
     ''You are aggregating results from '' @ show_nat n @ '' parallel worker tasks. '' @
     ''Please provide a coherent, well-structured final summary.'' @ nl @ nl @ agg"

type_synonym metrics = "string \<Rightarrow> int"

text \<open>The counters of the crew's agents and of the manager, as functions of the world.\<close>

record 'w counters =
  ct_agents :: "('w \<Rightarrow> metrics) list"
  ct_manager :: "'w \<Rightarrow> metrics"

definition add_metrics :: "metrics \<Rightarrow> metrics \<Rightarrow> metrics" where
  "add_metrics a b = (\<lambda>k. a k + b k)"

definition sync_agents :: "'w counters \<Rightarrow> 'w \<Rightarrow> metrics \<Rightarrow> metrics" where
  "sync_agents k w u = fold (\<lambda>f acc. add_metrics acc (f w)) (ct_agents k) u"

definition executeHierarchical ::
  "'w cenv \<Rightarrow> crew_cfg \<Rightarrow> 'w manager \<Rightarrow> 'w counters \<Rightarrow> (nat \<Rightarrow> (nat \<times> nat) list \<Rightarrow> (nat \<times> nat) list) \<Rightarrow> (nat list \<Rightarrow> nat) \<Rightarrow>
    metrics \<Rightarrow> 'w crew_st \<Rightarrow> ('w crew_st \<times> nat list \<times> metrics \<times> gvalue result) option" where
  "executeHierarchical E c m k order new u st =
     (case hier_loop maxReplans E c m order new (cc_Tasks c) [] st of
        None \<Rightarrow> None
      | Some (st1, ts, res, Some e) \<Rightarrow> Some (st1, ts, u, Inl e)
      | Some (st1, ts, res, None) \<Rightarrow>
          (let u1 = sync_agents k (cs_world st1) u; agg = aggregate E st1 ts res in
           if mg_LLM m \<noteq> None
           then (case mg_Execute m (synthesis_input (length res) agg) None (cs_world st1) of
                   (w1, Inl e) \<Rightarrow> Some (st1\<lparr>cs_world := w1\<rparr>, ts, u1, Inr (VString agg))
                 | (w1, Inr v) \<Rightarrow> Some (st1\<lparr>cs_world := w1\<rparr>, ts, add_metrics u1 (ct_manager k w1), Inr v))
           else Some (st1, ts, u1, Inr (VList res))))"

section \<open>Consensual\<close>

fun consensus_round :: "'w cenv \<Rightarrow> 'w member list \<Rightarrow> string \<Rightarrow> nat list \<Rightarrow> string list \<Rightarrow> goerr list \<Rightarrow> 'w \<Rightarrow> 'w \<times> string list \<times> goerr list" where
  "consensus_round E ms desc [] res errs w = (w, res, errs)"
| "consensus_round E ms desc (i # is) res errs w =
     (case mb_agent (ms ! i) desc None w of
        (w1, Inl e) \<Rightarrow> consensus_round E ms desc is res (errs @ [EWrap (''agent '' @ mb_Role (ms ! i) @ '' failed: '') e []]) w1
      | (w1, Inr r) \<Rightarrow>
          consensus_round E ms desc is
            (res[i := ''Agent: '' @ mb_Role (ms ! i) @ nl @ ''Output: '' @ te_show (ce_tenv E) r]) errs w1)"

definition consensus_prompt :: "string list \<Rightarrow> string" where
  "consensus_prompt res =
     ''You are a Consensus Manager. Below are results from multiple agents on the same task. '' @
     ''Analyze all responses and provide the single most accurate, consensus-driven final answer.'' @ nl @ nl @
     concat (map (\<lambda>r. r @ nl @ nl) res)"

definition executeConsensual ::
  "'w cenv \<Rightarrow> crew_cfg \<Rightarrow> 'w manager \<Rightarrow> 'w counters \<Rightarrow> 'w member list \<Rightarrow> (nat list \<Rightarrow> nat list) \<Rightarrow> metrics \<Rightarrow> 'w crew_st \<Rightarrow>
    'w crew_st \<times> metrics \<times> string result" where
  "executeConsensual E c m k ms order u st =
     (case cc_Tasks c of
        [] \<Rightarrow> (st, u, Inl (EMsg ''consensus requires at least one task''))
      | a # _ \<Rightarrow>
          (case consensus_round E ms (tk_Description (task_at st a)) (order [0..<length ms]) (replicate (length ms) []) [] (cs_world st) of
             (w1, res, e # _) \<Rightarrow> (st\<lparr>cs_world := w1\<rparr>, u, Inl e)
           | (w1, res, []) \<Rightarrow>
               (case mg_Execute m (consensus_prompt res) None w1 of
                  (w2, final) \<Rightarrow>
                    (let u1 = add_metrics (sync_agents k w2 u) (ct_manager k w2) in
                     (st\<lparr>cs_world := w2\<rparr>, u1,
                      case final of Inl e \<Rightarrow> Inl (EWrap ''consensus synthesis failed: '' e [])
                      | Inr v \<Rightarrow> Inr (te_show (ce_tenv E) v))))))"

section \<open>Entry points\<close>

datatype ProcessType = Sequential | Hierarchical | Consensual | Graph | Reflective | StateMachine | OtherProcess string

definition ErrNoTasks :: string where
  "ErrNoTasks = ''crew requires at least one task to kickoff''"

definition ErrNoAgents :: string where
  "ErrNoAgents = ''crew requires at least one agent to kickoff''"

definition ErrUnsupportedProcess :: string where
  "ErrUnsupportedProcess = ''unsupported process type''"

text \<open>The planning phase: the plan is put in front of every task description.\<close>

definition plan_tasks_list :: "'w crew_st \<Rightarrow> nat list \<Rightarrow> string" where
  "plan_tasks_list st ts =
     concat (map (\<lambda>(i, a). ''Task '' @ show_nat (i + 1) @ '': '' @ tk_Description (task_at st a) @ nl) (enumerate 0 ts))"

definition with_plan :: "string \<Rightarrow> string \<Rightarrow> string" where
  "with_plan plan desc = ''[STRATEGIC PLAN]'' @ nl @ plan @ nl @ nl @ ''[TASK DESCRIPTION]'' @ nl @ desc"

definition runPlanningPhase :: "'w manager \<Rightarrow> nat list \<Rightarrow> 'w crew_st \<Rightarrow> ('w crew_st \<times> goerr option) option" where
  "runPlanningPhase m ts st =
     (case GeneratePlan m (plan_tasks_list st ts) (cs_world st) of
        None \<Rightarrow> None
      | Some (w1, Inl e) \<Rightarrow> Some (st\<lparr>cs_world := w1\<rparr>, Some e)
      | Some (w1, Inr plan) \<Rightarrow>
          Some (fold (\<lambda>a. upd_task a (\<lambda>t. t\<lparr>tk_Description := with_plan plan (tk_Description t)\<rparr>)) ts (st\<lparr>cs_world := w1\<rparr>), None))"

text \<open>The state file. Its JSON text is left out: \<open>CrewState\<close> is what is encoded and decoded.\<close>

record CrewState =
  sv_CurrentTaskIndex :: int
  sv_TaskOutputs :: "(int \<times> gvalue) list"
  sv_UsageMetrics :: metrics
  sv_TaskCycles :: "(int \<times> int) list"

definition crew_SaveState :: "nat list \<Rightarrow> metrics \<Rightarrow> int \<Rightarrow> 'w crew_st \<Rightarrow> CrewState" where
  "crew_SaveState ts u idx st =
     \<lparr>sv_CurrentTaskIndex = idx,
      sv_TaskOutputs = map (\<lambda>(i, a). (int i, case tk_Output (task_at st a) of None \<Rightarrow> VNil | Some v \<Rightarrow> v))
        (filter (\<lambda>(i, a). tk_Processed (task_at st a)) (enumerate 0 ts)),
      sv_UsageMetrics = u,
      sv_TaskCycles = map (\<lambda>(i, a). (int i, ct_CycleCount (cs_heap st a))) (enumerate 0 ts)\<rparr>"

text \<open>An index is checked against the length only, so a negative one panics (\<open>None\<close>).\<close>

fun load_outputs :: "nat list \<Rightarrow> (int \<times> gvalue) list \<Rightarrow> 'w crew_st \<Rightarrow> 'w crew_st option" where
  "load_outputs ts [] st = Some st"
| "load_outputs ts ((i, v) # os) st =
     (if i < int (length ts)
      then (if i < 0 then None
            else load_outputs ts os (upd_task (ts ! nat i) (\<lambda>t. t\<lparr>tk_Processed := True, tk_Output := Some v\<rparr>) st))
      else load_outputs ts os st)"

fun load_cycles :: "nat list \<Rightarrow> (int \<times> int) list \<Rightarrow> 'w crew_st \<Rightarrow> 'w crew_st option" where
  "load_cycles ts [] st = Some st"
| "load_cycles ts ((i, n) # cs) st =
     (if i < int (length ts)
      then (if i < 0 then None
            else load_cycles ts cs
              (st\<lparr>cs_heap := (cs_heap st)(ts ! nat i := (cs_heap st (ts ! nat i))\<lparr>ct_CycleCount := n\<rparr>)\<rparr>))
      else load_cycles ts cs st)"

definition crew_LoadState :: "nat list \<Rightarrow> CrewState \<Rightarrow> 'w crew_st \<Rightarrow> ('w crew_st \<times> metrics) option" where
  "crew_LoadState ts sv st =
     (case load_outputs ts (sv_TaskOutputs sv) st of
        None \<Rightarrow> None
      | Some st1 \<Rightarrow> map_option (\<lambda>st2. (st2, sv_UsageMetrics sv)) (load_cycles ts (sv_TaskCycles sv) st1))"

record 'w kcrew =
  k_Process :: ProcessType
  k_cfg :: crew_cfg
  k_Members :: "'w member list"
  k_Manager :: "'w manager"
  k_Planner :: "'w manager"
  k_Counters :: "'w counters"
  k_Planning :: bool
  k_UsageMetrics :: metrics

text \<open>The completion orders of the goroutines of each mode, and the allocator.\<close>

record schedule =
  sd_due :: "nat \<Rightarrow> nat list"
  sd_graph :: "nat \<Rightarrow> nat list \<Rightarrow> nat list"
  sd_hier :: "nat \<Rightarrow> (nat \<times> nat) list \<Rightarrow> (nat \<times> nat) list"
  sd_cons :: "nat list \<Rightarrow> nat list"
  sd_new :: "nat list \<Rightarrow> nat"

datatype kick_event = CrewKickoffStarted | CrewKickoffFailed goerr | CrewKickoffCompleted gvalue

definition abs_result :: "('w crew_st \<times> string result) \<Rightarrow> nat list \<Rightarrow> metrics \<Rightarrow> 'w crew_st \<times> nat list \<times> metrics \<times> gvalue result" where
  "abs_result x ts u = (case x of (st, Inl e) \<Rightarrow> (st, ts, u, Inl e) | (st, Inr s) \<Rightarrow> (st, ts, u, Inr (VString s)))"

text \<open>The switch over the process type.\<close>

definition run_process ::
  "'w cenv \<Rightarrow> schedule \<Rightarrow> 'w kcrew \<Rightarrow> metrics \<Rightarrow> 'w crew_st \<Rightarrow> ('w crew_st \<times> nat list \<times> metrics \<times> gvalue result) option" where
  "run_process E sd K u st =
     (let c = k_cfg K; m = k_Manager K; ts = cc_Tasks c; show = te_show (ce_tenv E) in
      case k_Process K of
        Sequential \<Rightarrow>
          map_option (\<lambda>(st1, v, err). (st1, ts, u, case err of Some e \<Rightarrow> Inl e | None \<Rightarrow> Inr (VString (show v))))
            (executeSequential E c (sd_due sd) st)
      | Hierarchical \<Rightarrow>
          map_option (\<lambda>(st1, ts1, u1, r). (st1, ts1, u1, map_sum id (VString \<circ> show) r))
            (executeHierarchical E c m (k_Counters K) (sd_hier sd) (sd_new sd) u st)
      | Consensual \<Rightarrow>
          (case executeConsensual E c m (k_Counters K) (k_Members K) (sd_cons sd) u st of
             (st1, u1, r) \<Rightarrow> Some (abs_result (st1, r) ts u1))
      | Graph \<Rightarrow> map_option (\<lambda>x. abs_result x ts u) (executeGraph E c (sd_graph sd) st)
      | Reflective \<Rightarrow> map_option (\<lambda>x. abs_result x ts u) (executeReflective E c (mg_Execute m) st)
      | StateMachine \<Rightarrow> map_option (\<lambda>x. abs_result x ts u) (executeStateMachine E c st)
      | OtherProcess p \<Rightarrow> Some (st, ts, u, Inl (EWrap [] (ESentinel ErrUnsupportedProcess) ('': '' @ p))))"

text \<open>\<open>file\<close> is the decoded state file: \<open>None\<close> when none is configured or it does not exist, an error when it cannot be read.\<close>

definition crew_Kickoff ::
  "'w cenv \<Rightarrow> schedule \<Rightarrow> CrewState result option \<Rightarrow> 'w kcrew \<Rightarrow> 'w crew_st \<Rightarrow>
    ('w crew_st \<times> 'w kcrew \<times> kick_event list \<times> gvalue result) option" where
  "crew_Kickoff E sd file K st =
     (let ts = cc_Tasks (k_cfg K) in
      if ts = [] then Some (st, K, [CrewKickoffStarted], Inl (ESentinel ErrNoTasks))
      else if k_Members K = [] then Some (st, K, [CrewKickoffStarted], Inl (ESentinel ErrNoAgents))
      else (case (case file of Some (Inr sv) \<Rightarrow> crew_LoadState ts sv st | _ \<Rightarrow> Some (st, k_UsageMetrics K)) of
              None \<Rightarrow> None
            | Some (st1, u) \<Rightarrow>
                (let K1 = K\<lparr>k_UsageMetrics := u\<rparr> in
                 case ce_paused E (cs_world st1) of
                   Some e \<Rightarrow> Some (st1, K1, [CrewKickoffStarted], Inl e)
                 | None \<Rightarrow>
                     (case (if k_Planning K then runPlanningPhase (k_Planner K) ts st1 else Some (st1, None)) of
                        None \<Rightarrow> None
                      | Some (st2, Some e) \<Rightarrow> Some (st2, K1, [CrewKickoffStarted], Inl (EWrap ''planning phase failed: '' e []))
                      | Some (st2, None) \<Rightarrow>
                          (case run_process E sd K u st2 of
                             None \<Rightarrow> None
                           | Some (st3, ts3, u3, r) \<Rightarrow>
                               Some (st3, K1\<lparr>k_UsageMetrics := u3, k_cfg := (k_cfg K)\<lparr>cc_Tasks := ts3\<rparr>\<rparr>,
                                 [CrewKickoffStarted, case r of Inl e \<Rightarrow> CrewKickoffFailed e | Inr v \<Rightarrow> CrewKickoffCompleted v], r))))))"

text \<open>\<^verbatim>\<open>Replay\<close> makes the named task and all tasks after it pending again.\<close>

fun replay_reset :: "string \<Rightarrow> bool \<Rightarrow> nat list \<Rightarrow> 'w crew_st \<Rightarrow> 'w crew_st \<times> bool" where
  "replay_reset taskID found [] st = (st, found)"
| "replay_reset taskID found (a # ts) st =
     (let found1 = (found \<or> tk_Name (task_at st a) = taskID \<or> tk_Description (task_at st a) = taskID) in
      replay_reset taskID found1 ts
        (if found1 then upd_task a (\<lambda>t. t\<lparr>tk_Processed := False, tk_Failed := False, tk_Error := None\<rparr>) st else st))"

definition Replay ::
  "'w cenv \<Rightarrow> schedule \<Rightarrow> CrewState result option \<Rightarrow> 'w kcrew \<Rightarrow> string \<Rightarrow> 'w crew_st \<Rightarrow>
    ('w crew_st \<times> 'w kcrew \<times> kick_event list \<times> gvalue result) option" where
  "Replay E sd file K taskID st =
     (case replay_reset taskID False (cc_Tasks (k_cfg K)) st of
        (st1, found) \<Rightarrow>
          if found then crew_Kickoff E sd file K st1
          else Some (st1, K, [], Inl (EMsg (''task not found for replay: '' @ taskID))))"

text \<open>\<^verbatim>\<open>applyInputs\<close> on the crew's tasks, and \<^verbatim>\<open>KickoffWithInputs\<close>.\<close>

fun apply_inputs_heap :: "inputs \<Rightarrow> nat list \<Rightarrow> 'w crew_st \<Rightarrow> ('w crew_st \<times> goerr option) option" where
  "apply_inputs_heap inp [] st = Some (st, None)"
| "apply_inputs_heap inp (a # ts) st =
     (case apply_task inp (task_at st a) of
        None \<Rightarrow> None
      | Some (t', Some e) \<Rightarrow> Some (upd_task a (\<lambda>_. t') st, Some e)
      | Some (t', None) \<Rightarrow> apply_inputs_heap inp ts (upd_task a (\<lambda>_. t') st))"

definition KickoffWithInputs ::
  "'w cenv \<Rightarrow> schedule \<Rightarrow> CrewState result option \<Rightarrow> inputs \<Rightarrow> 'w kcrew \<Rightarrow> 'w crew_st \<Rightarrow>
    ('w crew_st \<times> 'w kcrew \<times> kick_event list \<times> gvalue result) option" where
  "KickoffWithInputs E sd file inp K st =
     (case apply_inputs_heap inp (cc_Tasks (k_cfg K)) st of
        None \<Rightarrow> None
      | Some (st1, Some e) \<Rightarrow> Some (st1, K, [], Inl e)
      | Some (st1, None) \<Rightarrow> crew_Kickoff E sd file K st1)"

section \<open>Lemmas\<close>

lemma world_upd_heap [simp]: "cs_heap (st\<lparr>cs_world := w\<rparr>) = cs_heap st" "cs_log (st\<lparr>cs_world := w\<rparr>) = cs_log st"
  by simp_all

lemma hier_one_processed:
  assumes "hier_one E c m i a st = Some (st', r)"
  shows "(\<forall>b. tk_Processed (task_at st b) \<longrightarrow> tk_Processed (task_at st' b)) \<and> ((\<exists>v. r = Inr v) \<longrightarrow> tk_Processed (task_at st' a))"
proof (cases "ce_ctx E (cs_world st)")
  case (Some e)
  then show ?thesis using assms by (auto simp: hier_one_def)
next
  case None
  obtain w1 d where d: "DelegateTask m (tk_Description (task_at st a)) (cs_world st) = Some (w1, d)"
    using assms None by (auto simp: hier_one_def split: option.splits)
  let ?st1 = "st\<lparr>cs_world := w1\<rparr>"
  show ?thesis
  proof (cases "(\<exists>e. d = Inl e) \<and> tk_Agent (task_at ?st1 a) = None")
    case True
    then show ?thesis using assms None d by (auto simp: hier_one_def Let_def)
  next
    case False
    define st2 where "st2 = (case d of Inr ag \<Rightarrow> upd_task a (\<lambda>t. t\<lparr>tk_Agent := Some ag\<rparr>) ?st1 | Inl e \<Rightarrow> ?st1)"
    have p2: "tk_Processed (task_at st2 b) = tk_Processed (task_at st b)" for b by (simp add: st2_def split: sum.splits)
    obtain st3 x where x: "run_task E a st2 = Some (st3, x)"
      and st': "st' = (case x of Inl e \<Rightarrow> call_error c (int i + 1) (NewTaskError (i + 1) (tk_Description (task_at st3 a)) e)
                  (upd_task a (\<lambda>t. t\<lparr>tk_Failed := True, tk_Error := Some e, tk_Processed := True\<rparr>) st3)
               | Inr v \<Rightarrow> call_complete c (int i + 1) v (upd_task a (\<lambda>t. t\<lparr>tk_Processed := True, tk_Output := Some v\<rparr>) st3))"
      using assms None d False
      by (auto simp: hier_one_def Let_def st2_def split: sum.splits option.splits if_splits)
    show ?thesis using run_task_heap [OF x] st' p2 by (auto split: sum.splits)
  qed
qed

lemma hier_round_processed:
  "hier_round E c m ps res errs st = Some (st', res', errs') \<Longrightarrow>
    (\<forall>b. tk_Processed (task_at st b) \<longrightarrow> tk_Processed (task_at st' b)) \<and> (errs' = [] \<longrightarrow> errs = []) \<and>
    (errs' = [] \<longrightarrow> (\<forall>(i, a) \<in> set ps. tk_Processed (task_at st' a)))"
proof (induction E c m ps res errs st rule: hier_round.induct)
  case (2 E c m i a ps res errs st)
  obtain st1 r where r: "hier_one E c m i a st = Some (st1, r)" using "2.prems" by (auto split: option.splits)
  note h = hier_one_processed [OF r]
  show ?case
  proof (cases r)
    case (Inl e)
    then show ?thesis using 2(1) [OF r refl Inl] 2(3) r h by auto
  next
    case (Inr v)
    then show ?thesis using 2(2) [OF r refl Inr] 2(3) r h by auto
  qed
qed simp

lemma pending_set: "(\<exists>i. (i, a) \<in> set (pending st ts)) \<longleftrightarrow> a \<in> set ts \<and> \<not> tk_Processed (task_at st a)"
  by (auto simp: pending_def in_set_enumerate_eq) (auto simp: in_set_conv_nth)

lemma hier_loop_all_processed:
  assumes ord: "\<And>n xs. set (order n xs) = set xs" and new: "\<And>ts. new ts \<notin> set ts"
  shows "hier_loop n E c m order new ts res st = Some (st', ts', res', None) \<Longrightarrow>
    (\<forall>a \<in> set ts'. tk_Processed (task_at st' a)) \<and> (\<exists>xs. ts' = ts @ xs \<and> length xs \<le> n)"
proof (induction n arbitrary: ts res st rule: nat_less_induct)
  case (1 n)
  note unf = hier_loop.simps [of n E c m order new ts res st]
  show ?case
  proof (cases "pending st ts = []")
    case True
    then have "tk_Processed (task_at st a)" if "a \<in> set ts" for a using pending_set [of a st ts] that by auto
    then show ?thesis using 1(2) True by (auto simp: unf Let_def)
  next
    case False
    obtain st1 res2 where w: "hier_round E c m (order n (pending st ts)) (grow (length ts) res) [] st = Some (st1, res2, [])"
      using 1(2) False by (auto simp: unf Let_def split: option.splits list.splits)
    note h = hier_round_processed [OF w]
    have all: "tk_Processed (task_at st1 a)" if "a \<in> set ts" for a
      using h pending_set [of a st ts] that by (auto simp: ord)
    obtain w1 d where d: "mg_Execute m (replan_prompt (plan_status st1 ts)) None (cs_world st1) = (w1, d)" by fastforce
    show ?thesis
    proof (cases "st' = st1\<lparr>cs_world := w1\<rparr> \<and> ts' = ts")
      case True
      then show ?thesis using all by simp
    next
      case go: False
      then obtain v where v: "d = Inr v" "n \<noteq> 0"
        and rec: "hier_loop (n - 1) E c m order new (ts @ [new ts]) res2
          (st1\<lparr>cs_world := w1, cs_heap := (cs_heap st1)(new ts := followup_task m (te_show (ce_tenv E) v))\<rparr>) = Some (st', ts', res', None)"
        using 1(2) False w d by (cases d) (auto simp: unf Let_def split: if_splits)
      have "n - 1 < n" using v(2) by simp
      with 1(1) rec obtain xs where "\<forall>a \<in> set ts'. tk_Processed (task_at st' a)" "ts' = (ts @ [new ts]) @ xs" "length xs \<le> n - 1" by blast
      then show ?thesis using v(2) by (intro conjI exI [of _ "new ts # xs"]) auto
    qed
  qed
qed

text \<open>The saved entries by index.\<close>

lemma map_of_indexed:
  assumes "i < length ts"
  shows "map_of (map (\<lambda>(i, a). (int i, f a)) (filter (\<lambda>(i, a). P a) (enumerate 0 ts))) (int i) = (if P (ts ! i) then Some (f (ts ! i)) else None)"
proof -
  let ?l = "map (\<lambda>(i, a). (int i, f a)) (filter (\<lambda>(i, a). P a) (enumerate 0 ts))"
  have "map fst ?l = map int (map fst (filter (\<lambda>(i, a). P a) (enumerate 0 ts)))" by (simp add: comp_def case_prod_beta)
  moreover have "distinct (map fst (filter (\<lambda>(i, a). P a) (enumerate 0 ts)))"
    by (rule distinct_map_filter) (simp add: distinct_enumerate)
  ultimately have d: "distinct (map fst ?l)" by (simp add: distinct_map inj_on_def)
  show ?thesis
  proof (cases "P (ts ! i)")
    case True
    then have "(int i, f (ts ! i)) \<in> set ?l" using assms by (force simp: in_set_enumerate_eq)
    then show ?thesis using d True by (simp add: map_of_eq_Some_iff del: map_map)
  next
    case False
    then have "int i \<notin> fst ` set ?l" by (auto simp: in_set_enumerate_eq)
    then show ?thesis using False by (simp add: map_of_eq_None_iff)
  qed
qed

text \<open>Both loaders are pointwise updates of the heap at indexed tasks.\<close>

primrec apply_at :: "nat list \<Rightarrow> ('b \<Rightarrow> 'a \<Rightarrow> 'a) \<Rightarrow> (int \<times> 'b) list \<Rightarrow> (nat \<Rightarrow> 'a) \<Rightarrow> nat \<Rightarrow> 'a" where
  "apply_at ts f [] h = h"
| "apply_at ts f (kv # kvs) h = apply_at ts f kvs (h(ts ! nat (fst kv) := f (snd kv) (h (ts ! nat (fst kv)))))"

abbreviation in_range :: "nat list \<Rightarrow> (int \<times> 'b) list \<Rightarrow> bool" where
  "in_range ts kvs \<equiv> \<forall>k \<in> fst ` set kvs. 0 \<le> k \<and> k < int (length ts)"

lemma load_outputs_apply:
  "in_range ts os \<Longrightarrow> load_outputs ts os st =
    Some (st\<lparr>cs_heap := apply_at ts (\<lambda>v ct. ct\<lparr>ct_task := (ct_task ct)\<lparr>tk_Processed := True, tk_Output := Some v\<rparr>\<rparr>) os (cs_heap st)\<rparr>)"
proof (induction os arbitrary: st)
  case (Cons kv os)
  then show ?case by (cases kv) (simp add: upd_task_def)
qed simp

lemma load_cycles_apply:
  "in_range ts cs \<Longrightarrow> load_cycles ts cs st = Some (st\<lparr>cs_heap := apply_at ts (\<lambda>n ct. ct\<lparr>ct_CycleCount := n\<rparr>) cs (cs_heap st)\<rparr>)"
proof (induction cs arbitrary: st)
  case (Cons kv cs)
  then show ?case by (cases kv) simp
qed simp

lemma apply_at_other: "in_range ts kvs \<Longrightarrow> a \<notin> set ts \<Longrightarrow> apply_at ts f kvs h a = h a"
proof (induction kvs arbitrary: h)
  case (Cons kv kvs)
  then have "nat (fst kv) < length ts" by auto
  then have "a \<noteq> ts ! nat (fst kv)" using Cons.prems(2) by auto
  then show ?case using Cons by simp
qed simp

lemma apply_at_nth:
  "distinct ts \<Longrightarrow> distinct (map fst kvs) \<Longrightarrow> in_range ts kvs \<Longrightarrow> i < length ts \<Longrightarrow>
    apply_at ts f kvs h (ts ! i) = (case map_of kvs (int i) of None \<Rightarrow> h (ts ! i) | Some v \<Rightarrow> f v (h (ts ! i)))"
proof (induction kvs arbitrary: h)
  case (Cons kv kvs)
  obtain k v where kv: "kv = (k, v)" by fastforce
  have k: "0 \<le> k" "nat k < length ts" using Cons.prems(3) kv by auto
  have eq: "(ts ! i = ts ! nat k) = (int i = k)" using Cons.prems(1,4) k by (auto simp: nth_eq_iff_index_eq)
  have ih: "apply_at ts f kvs g (ts ! i) = (case map_of kvs (int i) of None \<Rightarrow> g (ts ! i) | Some v \<Rightarrow> f v (g (ts ! i)))" for g
    using Cons by simp
  show ?case
  proof (cases "int i = k")
    case True
    then have "map_of kvs (int i) = None" using Cons.prems(2) kv by (simp add: map_of_eq_None_iff)
    then show ?thesis using kv True ih eq by simp
  next
    case False
    then show ?thesis using kv ih eq by (simp split: option.split)
  qed
qed simp

lemma enumerate_keys:
  "in_range ts (map (\<lambda>(i, a). (int i, f a)) (filter (\<lambda>(i, a). P a) (enumerate 0 ts)))"
  "distinct (map fst (map (\<lambda>(i, a). (int i, f a)) (filter (\<lambda>(i, a). P a) (enumerate 0 ts))))"
proof -
  show "in_range ts (map (\<lambda>(i, a). (int i, f a)) (filter (\<lambda>(i, a). P a) (enumerate 0 ts)))"
    by (auto simp: in_set_enumerate_eq)
  have "map fst (map (\<lambda>(i, a). (int i, f a)) (filter (\<lambda>(i, a). P a) (enumerate 0 ts))) =
      map int (map fst (filter (\<lambda>(i, a). P a) (enumerate 0 ts)))" by (simp add: comp_def case_prod_beta)
  moreover have "distinct (map fst (filter (\<lambda>(i, a). P a) (enumerate 0 ts)))"
    by (rule distinct_map_filter) (simp add: distinct_enumerate)
  ultimately show "distinct (map fst (map (\<lambda>(i, a). (int i, f a)) (filter (\<lambda>(i, a). P a) (enumerate 0 ts))))"
    by (simp only: distinct_map inj_on_def of_nat_eq_iff) blast
qed

text \<open>What loading a file saved from \<open>st0\<close> makes of a task of the crew.\<close>

definition restored :: "'w crew_st \<Rightarrow> 'w crew_st \<Rightarrow> nat \<Rightarrow> 'w CTask" where
  "restored st0 st a =
     (let ct = cs_heap st a;
          ct1 = (if tk_Processed (task_at st0 a)
                 then ct\<lparr>ct_task := (ct_task ct)\<lparr>tk_Processed := True,
                        tk_Output := Some (case tk_Output (task_at st0 a) of None \<Rightarrow> VNil | Some v \<Rightarrow> v)\<rparr>\<rparr> else ct)
      in ct1\<lparr>ct_CycleCount := ct_CycleCount (cs_heap st0 a)\<rparr>)"

lemma load_saved:
  assumes "distinct ts"
  shows "\<exists>st'. crew_LoadState ts (crew_SaveState ts u idx st0) st = Some (st', u) \<and> cs_log st' = cs_log st \<and>
    cs_world st' = cs_world st \<and> cs_heap st' = (\<lambda>a. if a \<in> set ts then restored st0 st a else cs_heap st a)"
proof -
  let ?sv = "crew_SaveState ts u idx st0"
  let ?o = "\<lambda>a. case tk_Output (task_at st0 a) of None \<Rightarrow> VNil | Some v \<Rightarrow> v" and ?n = "\<lambda>a. ct_CycleCount (cs_heap st0 a)"
  have so: "sv_TaskOutputs ?sv = map (\<lambda>(i, a). (int i, ?o a)) (filter (\<lambda>(i, a). tk_Processed (task_at st0 a)) (enumerate 0 ts))"
    and sc: "sv_TaskCycles ?sv = map (\<lambda>(i, a). (int i, ?n a)) (filter (\<lambda>(i, a). True) (enumerate 0 ts))"
    by (simp_all add: crew_SaveState_def)
  define h1 where "h1 = apply_at ts (\<lambda>v ct. ct\<lparr>ct_task := (ct_task ct)\<lparr>tk_Processed := True, tk_Output := Some v\<rparr>\<rparr>) (sv_TaskOutputs ?sv) (cs_heap st)"
  define h2 where "h2 = apply_at ts (\<lambda>n ct. ct\<lparr>ct_CycleCount := n\<rparr>) (sv_TaskCycles ?sv) h1"
  have "crew_LoadState ts ?sv st = Some (st\<lparr>cs_heap := h2\<rparr>, u)"
  proof -
    have "in_range ts (sv_TaskOutputs ?sv)" unfolding so by (rule enumerate_keys)
    moreover have "in_range ts (sv_TaskCycles ?sv)" unfolding sc by (rule enumerate_keys)
    moreover have "sv_UsageMetrics ?sv = u" by (simp add: crew_SaveState_def)
    ultimately show ?thesis unfolding crew_LoadState_def h1_def h2_def
      by (simp only: load_outputs_apply load_cycles_apply option.case option.map) simp
  qed
  moreover have "h2 a = (if a \<in> set ts then restored st0 st a else cs_heap st a)" for a
  proof (cases "a \<in> set ts")
    case True
    then obtain i where i: "i < length ts" "a = ts ! i" by (auto simp: in_set_conv_nth)
    show ?thesis unfolding i(2) h2_def h1_def so sc
      by (simp only: apply_at_nth [OF assms enumerate_keys(2) enumerate_keys(1) i(1)] map_of_indexed [OF i(1)])
        (simp add: restored_def Let_def i(1))
  next
    case False
    then show ?thesis unfolding h2_def h1_def so sc
      by (simp only: apply_at_other [OF enumerate_keys(1) False] if_False)
  qed
  ultimately show ?thesis by (intro exI [of _ "st\<lparr>cs_heap := h2\<rparr>"]) auto
qed

text \<open>Resetting for a replay.\<close>

definition names_task :: "string \<Rightarrow> 'w crew_st \<Rightarrow> nat \<Rightarrow> bool" where
  "names_task taskID st a \<longleftrightarrow> tk_Name (task_at st a) = taskID \<or> tk_Description (task_at st a) = taskID"

lemma replay_reset_heap:
  "distinct ts \<Longrightarrow> replay_reset taskID found ts st = (st', f) \<Longrightarrow>
    f = (found \<or> (\<exists>a \<in> set ts. names_task taskID st a)) \<and> cs_log st' = cs_log st \<and> cs_world st' = cs_world st \<and>
    (\<forall>a. cs_heap st' a = (if a \<in> set (if found then ts else dropWhile (\<lambda>a. \<not> names_task taskID st a) ts)
       then (cs_heap st a)\<lparr>ct_task := (task_at st a)\<lparr>tk_Processed := False, tk_Failed := False, tk_Error := None\<rparr>\<rparr>
       else cs_heap st a))"
proof (induction ts arbitrary: found st)
  case (Cons a ts)
  let ?f = "found \<or> names_task taskID st a"
  define st1 where "st1 = (if ?f then upd_task a (\<lambda>t. t\<lparr>tk_Processed := False, tk_Failed := False, tk_Error := None\<rparr>) st else st)"
  have r: "replay_reset taskID ?f ts st1 = (st', f)"
    using Cons.prems(2) by (simp add: Let_def names_task_def st1_def)
  have n: "names_task taskID st1 b = names_task taskID st b" for b by (simp add: st1_def names_task_def)
  have h: "cs_heap st1 b = (if ?f \<and> b = a then (cs_heap st a)\<lparr>ct_task := (task_at st a)\<lparr>tk_Processed := False, tk_Failed := False, tk_Error := None\<rparr>\<rparr>
      else cs_heap st b)" for b by (simp add: st1_def)
  have l: "cs_log st1 = cs_log st" "cs_world st1 = cs_world st" by (simp_all add: st1_def)
  have a: "a \<notin> set ts" "distinct ts" using Cons.prems(1) by auto
  define D where "D = (if found then a # ts else dropWhile (\<lambda>a. \<not> names_task taskID st a) (a # ts))"
  define D1 where "D1 = (if ?f then ts else dropWhile (\<lambda>a. \<not> names_task taskID st a) ts)"
  have D: "(b \<in> set D) = (b \<in> set D1 \<or> ?f \<and> b = a)" for b by (auto simp: D_def D1_def)
  have aD1: "a \<notin> set D1" using a(1) by (auto simp: D1_def dest: set_dropWhileD)
  note ih = Cons.IH [OF a(2) r, unfolded n, folded D1_def]
  have "cs_heap st' b = (if b \<in> set D
       then (cs_heap st b)\<lparr>ct_task := (task_at st b)\<lparr>tk_Processed := False, tk_Failed := False, tk_Error := None\<rparr>\<rparr>
       else cs_heap st b)" for b
    using ih D [of b] aD1 h [of b] by (cases "b = a") auto
  then show ?case unfolding D_def [symmetric] using ih l by auto
qed simp

lemma kickoff_sequential:
  assumes "crew_Kickoff E sd file K st = Some (st', K', evs, Inr v)" "k_Process K = Sequential" "\<not> k_Planning K"
  shows "\<exists>st1 u x. (case file of Some (Inr sv) \<Rightarrow> crew_LoadState (cc_Tasks (k_cfg K)) sv st | _ \<Rightarrow> Some (st, k_UsageMetrics K)) = Some (st1, u) \<and>
    executeSequential E (k_cfg K) (sd_due sd) st1 = Some (st', x, None)"
  using assms
  by (auto simp: crew_Kickoff_def Let_def run_process_def split: if_splits option.splits)

lemma sequential_success_runs:
  assumes "executeSequential E c due st = Some (st', v, None)" "distinct (cc_Tasks c)"
    "\<And>a. a \<in> set (cc_Tasks c) \<Longrightarrow> \<not> ct_AsyncExecution (cs_heap st a)"
  shows "runs_of (cs_log st') = runs_of (cs_log st) @ filter (\<lambda>a. \<not> tk_Processed (task_at st a)) (cc_Tasks c)"
proof -
  from seq_loop_ran [OF assms(1) [unfolded executeSequential_def] assms(2,3)]
  obtain j k where "seq_ran st (filter (\<lambda>a. \<not> tk_Processed (task_at st a)) (cc_Tasks c)) j k st' None" by blast
  then have "runs_of (cs_log st') = runs_of (cs_log st) @ take k (filter (\<lambda>a. \<not> tk_Processed (task_at st a)) (cc_Tasks c))"
    "length (filter (\<lambda>a. \<not> tk_Processed (task_at st a)) (cc_Tasks c)) \<le> k" by (auto simp: seq_ran_def)
  then show ?thesis by simp
qed

section \<open>Properties\<close>

text \<open>
  C7: hierarchical mode leaves nothing behind. When it succeeds every task of the crew is processed,
  including the follow-up tasks the manager added, which come after the original ones and are
  at most five.
\<close>

theorem hierarchical_all_processed:
  assumes "executeHierarchical E c m k order new u st = Some (st', ts', u', Inr v)"
    "\<And>n xs. set (order n xs) = set xs" "\<And>ts. new ts \<notin> set ts"
  shows "(\<forall>a \<in> set ts'. tk_Processed (task_at st' a)) \<and> (\<exists>xs. ts' = cc_Tasks c @ xs \<and> length xs \<le> 5)"
proof -
  obtain st1 res where l: "hier_loop maxReplans E c m order new (cc_Tasks c) [] st = Some (st1, ts', res, None)"
    and h: "cs_heap st' = cs_heap st1"
    using assms(1) by (auto simp: executeHierarchical_def Let_def split: option.splits if_splits prod.splits sum.splits)
  from hier_loop_all_processed [where order = order and new = new, OF assms(2,3) l] show ?thesis unfolding h by (simp add: maxReplans_def)
qed

definition wit_writer :: "nat member" where
  "wit_writer = \<lparr>mb_Role = ''Writer'', mb_Goal = ''write'', mb_agent = wit_ok\<rparr>"

definition wit_techwriter :: "nat member" where
  "wit_techwriter = \<lparr>mb_Role = ''Technical Writer'', mb_Goal = ''document'', mb_agent = wit_bad\<rparr>"

text \<open>A manager whose model always names the technical writer, and which finds every plan stable.\<close>

definition wit_manager :: "nat manager" where
  "wit_manager = \<lparr>mg_LLM = Some (\<lambda>_ _ n. (Suc n, Inr ''Technical Writer'')), mg_Backstory = [], mg_A2AID = [],
     mg_Execute = (\<lambda>_ _ n. (Suc n, Inr (VString ''PLAN_STABLE''))), mg_Managed = [wit_writer, wit_techwriter], mg_Cards = []\<rparr>"

definition wit_counters :: "nat counters" where
  "wit_counters = \<lparr>ct_agents = [], ct_manager = \<lambda>_ _. 0\<rparr>"

definition fresh_addr :: "nat list \<Rightarrow> nat" where
  "fresh_addr ts = Suc (sum_list ts)"

lemma fresh_addr: "fresh_addr ts \<notin> set ts"
  using member_le_sum_list [of _ ts] by (fastforce simp: fresh_addr_def)

lemma wit_delegates: "DelegateTask wit_manager desc n = Some (Suc n, Inr wit_ok)"
proof -
  have "role_in ''Technical Writer'' (mb_Role wit_writer)"
    by (simp add: role_in_def wit_writer_def to_lower_def lower_char_def less_eq_char_def sublist_Cons_right)
  then have d: "find (\<lambda>a. role_in ''Technical Writer'' (mb_Role a)) [wit_writer, wit_techwriter] = Some wit_writer" by simp
  have t: "trim_space ''Technical Writer'' = ''Technical Writer''" by (simp add: trim_space_def is_space_def)
  have m: "mg_LLM wit_manager = Some (\<lambda>_ _ n. (Suc n, Inr ''Technical Writer''))" "mg_Managed wit_manager = [wit_writer, wit_techwriter]"
    by (simp_all add: wit_manager_def)
  have "mb_agent wit_writer = wit_ok" by (simp add: wit_writer_def)
  then show ?thesis unfolding DelegateTask_def m by (simp only: option.case prod.case sum.case t d Let_def)
qed

theorem hierarchical_all_processed_witness:
  "\<exists>st' ts' u'. executeHierarchical wit_cenv (wit_cfg [0] 0) wit_manager wit_counters (\<lambda>_ xs. xs) fresh_addr (\<lambda>_. 0)
      (wit_st (\<lambda>_. wit_simple wit_bad)) = Some (st', ts', u', Inr (VString ''PLAN_STABLE'')) \<and>
     (\<forall>a \<in> set ts'. tk_Processed (task_at st' a)) \<and> (\<exists>xs. ts' = [0] @ xs \<and> length xs \<le> 5)"
proof -
  let ?st = "wit_st (\<lambda>_. wit_simple wit_bad)"
  have one: "\<exists>st1. hier_one wit_cenv (wit_cfg [0] 0) wit_manager 0 0 ?st = Some (st1, Inr (VString ''done''))"
    by (simp add: hier_one_def wit_delegates wit_ok_def wit_crew base_description_def schema_option_def call_complete_def)
  then obtain st1 where st1: "hier_one wit_cenv (wit_cfg [0] 0) wit_manager 0 0 ?st = Some (st1, Inr (VString ''done''))" by blast
  have p: "pending ?st [0] = [(0, 0)]" by (simp add: pending_def wit_st_def wit_simple_def wit_task_def)
  have up: "str_contains (map upper_char ''PLAN_STABLE'') ''PLAN_STABLE''" by (simp add: upper_char_def less_eq_char_def)
  have sh: "te_show (ce_tenv wit_cenv) (VString x) = x" for x by (simp add: wit_cenv_def)
  have ex: "mg_Execute wit_manager = (\<lambda>_ _ n. (Suc n, Inr (VString ''PLAN_STABLE'')))" "mg_LLM wit_manager \<noteq> None"
    by (simp_all add: wit_manager_def)
  have ts: "cc_Tasks (wit_cfg [0] 0) = [0]" by (simp add: wit_cfg_def)
  have "\<exists>st'. hier_loop maxReplans wit_cenv (wit_cfg [0] 0) wit_manager (\<lambda>_ xs. xs) fresh_addr [0] [] ?st = Some (st', [0], [VString ''done''], None)"
    using up by (simp add: hier_loop.simps [of maxReplans] p st1 ex(1) sh grow_def)
  then have "\<exists>st' u'. executeHierarchical wit_cenv (wit_cfg [0] 0) wit_manager wit_counters (\<lambda>_ xs. xs) fresh_addr (\<lambda>_. 0) ?st =
      Some (st', [0], u', Inr (VString ''PLAN_STABLE''))"
    using ex(2) by (auto simp: executeHierarchical_def ts ex(1) Let_def)
  then obtain st' u' where r: "executeHierarchical wit_cenv (wit_cfg [0] 0) wit_manager wit_counters (\<lambda>_ xs. xs) fresh_addr (\<lambda>_. 0) ?st =
      Some (st', [0], u', Inr (VString ''PLAN_STABLE''))" by blast
  from hierarchical_all_processed [OF r refl fresh_addr] r show ?thesis unfolding ts by blast
qed


definition wit_kcrew :: "nat list \<Rightarrow> nat kcrew" where
  "wit_kcrew ts = \<lparr>k_Process = Sequential, k_cfg = wit_cfg ts 0, k_Members = [wit_writer], k_Manager = wit_manager, k_Planner = wit_manager,
     k_Counters = wit_counters, k_Planning = False, k_UsageMetrics = \<lambda>_. 0\<rparr>"

definition wit_sched :: schedule where
  "wit_sched = \<lparr>sd_due = \<lambda>_. [], sd_graph = \<lambda>_ xs. xs, sd_hier = \<lambda>_ xs. xs, sd_cons = \<lambda>xs. xs, sd_new = fresh_addr\<rparr>"

text \<open>Two tasks named by their address, the first one processed.\<close>

definition wit_half :: "nat \<Rightarrow> nat CTask" where
  "wit_half a = (wit_simple wit_ok)\<lparr>ct_task := (ct_task (wit_simple wit_ok))\<lparr>tk_Name := (if a = 0 then ''first'' else ''second''),
     tk_Processed := (a = 0), tk_Output := (if a = 0 then Some (VString ''done'') else None)\<rparr>\<rparr>"

definition wit_blank :: "nat \<Rightarrow> nat CTask" where
  "wit_blank a = (wit_half a)\<lparr>ct_task := (ct_task (wit_half a))\<lparr>tk_Processed := False, tk_Output := None\<rparr>\<rparr>"

lemmas wit_kick = wit_kcrew_def wit_sched_def wit_half_def wit_blank_def crew_Kickoff_def run_process_def executeSequential_def pipe_context_def
  has_output_def wit_ok_def wit_crew base_description_def schema_option_def call_complete_def call_error_def


text \<open>
  \<^verbatim>\<open>Replay\<close> on a sequential crew without a state file. When it succeeds, the run consisted of the tasks
  before the named one that were still pending, then the named task and every task after it, in
  order, whether they had been processed or not.
\<close>

theorem replay_runs_from_named_task:
  assumes "Replay E sd None K taskID st = Some (st', K', evs, Inr v)" "k_Process K = Sequential" "\<not> k_Planning K"
    "cc_Tasks (k_cfg K) = before @ t # after" "distinct (cc_Tasks (k_cfg K))" "names_task taskID st t"
    "\<And>a. a \<in> set before \<Longrightarrow> \<not> names_task taskID st a" "\<And>a. a \<in> set (cc_Tasks (k_cfg K)) \<Longrightarrow> \<not> ct_AsyncExecution (cs_heap st a)"
  shows "runs_of (cs_log st') = runs_of (cs_log st) @ filter (\<lambda>a. \<not> tk_Processed (task_at st a)) before @ t # after"
proof -
  let ?ts = "cc_Tasks (k_cfg K)"
  obtain st1 f where rr: "replay_reset taskID False ?ts st = (st1, f)" by fastforce
  note h = replay_reset_heap [OF assms(5) rr]
  have dw: "dropWhile (\<lambda>a. \<not> names_task taskID st a) ?ts = t # after" using assms(4,6,7) by (simp add: dropWhile_append)
  have f: "f" using h assms(4,6) by auto
  then have "crew_Kickoff E sd None K st1 = Some (st', K', evs, Inr v)" using assms(1) rr by (simp add: Replay_def)
  from kickoff_sequential [OF this assms(2,3)] obtain x where x: "executeSequential E (k_cfg K) (sd_due sd) st1 = Some (st', x, None)" by auto
  have "\<not> ct_AsyncExecution (cs_heap st1 a)" if "a \<in> set ?ts" for a using h assms(8) [OF that] by simp
  from sequential_success_runs [OF x assms(5) this]
  have "runs_of (cs_log st') = runs_of (cs_log st) @ filter (\<lambda>a. \<not> tk_Processed (task_at st1 a)) (before @ t # after)"
    using h by (simp add: assms(4))
  moreover have "filter (\<lambda>a. \<not> tk_Processed (task_at st1 a)) before = filter (\<lambda>a. \<not> tk_Processed (task_at st a)) before"
    using h dw assms(4,5) by (intro filter_cong) auto
  moreover have "filter (\<lambda>a. \<not> tk_Processed (task_at st1 a)) (t # after) = t # after"
    using h dw by (intro filter_True) auto
  ultimately show ?thesis by (simp only: filter_append)
qed

theorem replay_runs_from_named_task_witness:
  "\<exists>st' K' evs v. Replay wit_cenv wit_sched None (wit_kcrew [0, 1]) ''first'' (wit_st wit_half) = Some (st', K', evs, Inr v) \<and>
     runs_of (cs_log st') = [0, 1]"
proof -
  let ?K = "wit_kcrew [0, 1]"
  have "\<exists>st' K' evs v. Replay wit_cenv wit_sched None ?K ''first'' (wit_st wit_half) = Some (st', K', evs, Inr v)"
    by (simp add: Replay_def wit_kick context_text_def)
  then obtain st' K' evs v where r: "Replay wit_cenv wit_sched None ?K ''first'' (wit_st wit_half) = Some (st', K', evs, Inr v)" by blast
  have "runs_of (cs_log st') = runs_of (cs_log (wit_st wit_half)) @ filter (\<lambda>a. \<not> tk_Processed (task_at (wit_st wit_half) a)) [] @ 0 # [1]"
    by (rule replay_runs_from_named_task [OF r])
      (simp_all add: wit_kcrew_def wit_cfg_def names_task_def wit_st_def wit_half_def wit_simple_def)
  then show ?thesis using r by (auto simp: wit_st_def)
qed

text \<open>
  With a state file configured a replay is undone: \<^verbatim>\<open>Kickoff\<close> loads the file again and marks the
  tasks that were reset as processed. When the file was saved with all tasks processed, a
  sequential replay from any task runs nothing and succeeds.
\<close>

theorem replay_undone_by_state_file:
  fixes st st0 :: "'w crew_st"
  assumes "Replay E sd (Some (Inr (crew_SaveState (cc_Tasks (k_cfg K)) u idx st0))) K taskID st = Some (st', K', evs, Inr v)"
    "k_Process K = Sequential" "\<not> k_Planning K" "distinct (cc_Tasks (k_cfg K))"
    "\<And>a. a \<in> set (cc_Tasks (k_cfg K)) \<Longrightarrow> tk_Processed (task_at st0 a)"
    "\<And>a. a \<in> set (cc_Tasks (k_cfg K)) \<Longrightarrow> \<not> ct_AsyncExecution (cs_heap st a)"
  shows "runs_of (cs_log st') = runs_of (cs_log st)"
proof -
  let ?ts = "cc_Tasks (k_cfg K)" and ?sv = "crew_SaveState (cc_Tasks (k_cfg K)) u idx st0"
  obtain st1 f where rr: "replay_reset taskID False ?ts st = (st1, f)" by fastforce
  note h = replay_reset_heap [OF assms(4) rr]
  have k: "crew_Kickoff E sd (Some (Inr ?sv)) K st1 = Some (st', K', evs, Inr v)"
    using assms(1) rr by (auto simp: Replay_def split: if_splits)
  obtain st2 where st2: "crew_LoadState ?ts ?sv st1 = Some (st2, u)" "cs_log st2 = cs_log st1"
    "cs_heap st2 = (\<lambda>a. if a \<in> set ?ts then restored st0 st1 a else cs_heap st1 a)"
    using load_saved [OF assms(4), of u idx st0 st1] by blast
  obtain x where x: "executeSequential E (k_cfg K) (sd_due sd) st2 = Some (st', x, None)"
    using kickoff_sequential [OF k assms(2,3)] st2(1) by auto
  have "\<not> ct_AsyncExecution (cs_heap st2 a)" if "a \<in> set ?ts" for a
    using h assms(6) [OF that] that by (simp add: st2(3) restored_def Let_def)
  from sequential_success_runs [OF x assms(4) this]
  have "runs_of (cs_log st') = runs_of (cs_log st) @ filter (\<lambda>a. \<not> tk_Processed (task_at st2 a)) ?ts" using h st2(2) by simp
  moreover have "filter (\<lambda>a. \<not> tk_Processed (task_at st2 a)) ?ts = []"
    using assms(5) by (simp add: filter_empty_conv st2(3) restored_def Let_def)
  ultimately show ?thesis by simp
qed

theorem replay_undone_by_state_file_witness:
  "\<exists>st' K' evs v. Replay wit_cenv wit_sched (Some (Inr (crew_SaveState [0] (\<lambda>_. 7) 0 (wit_st wit_half)))) (wit_kcrew [0]) ''first'' (wit_st wit_half) =
     Some (st', K', evs, Inr v) \<and> runs_of (cs_log st') = []"
proof -
  let ?K = "wit_kcrew [0]" and ?sv = "crew_SaveState [0] (\<lambda>_. 7) 0 (wit_st wit_half)"
  have ts: "cc_Tasks (k_cfg ?K) = [0]" by (simp add: wit_kcrew_def wit_cfg_def)
  have "\<exists>st' K' evs v. Replay wit_cenv wit_sched (Some (Inr ?sv)) ?K ''first'' (wit_st wit_half) = Some (st', K', evs, Inr v)"
    by (simp add: Replay_def wit_kick crew_LoadState_def crew_SaveState_def)
  then obtain st' K' evs v where r: "Replay wit_cenv wit_sched (Some (Inr ?sv)) ?K ''first'' (wit_st wit_half) = Some (st', K', evs, Inr v)" by blast
  have "runs_of (cs_log st') = runs_of (cs_log (wit_st wit_half))"
    by (rule replay_undone_by_state_file [where K = ?K and st = "wit_st wit_half" and ?st0.0 = "wit_st wit_half", unfolded ts, OF r])
      (simp_all add: wit_kcrew_def wit_cfg_def wit_st_def wit_half_def wit_simple_def)
  then show ?thesis using r by (auto simp: wit_st_def)
qed

text \<open>
  The manager picks the first local agent whose role occurs in the model's reply, so a role that
  occurs in another shadows it: asked for the technical writer, it delegates to the writer.
\<close>

theorem delegation_shadowed:
  "mg_Managed wit_manager = [wit_writer, wit_techwriter] \<and>
   mg_LLM wit_manager = Some (\<lambda>_ _ n. (Suc n, Inr (mb_Role wit_techwriter))) \<and>
   DelegateTask wit_manager desc n = Some (Suc n, Inr (mb_agent wit_writer))"
  using wit_delegates [of desc n] by (simp add: wit_manager_def wit_writer_def wit_techwriter_def)

end
