(* ===== verification/Agent_Loop.thy ===== *)
theory Agent_Loop
  imports Crew_Task
begin

text \<open>
  The agent's reasoning and tool loop: \<^verbatim>\<open>Agent.Execute\<close> of \<^verbatim>\<open>pkg/agents/agent.go\<close> with \<^verbatim>\<open>reasoning.go\<close>.

  Models, tools, memory, caches, reviewers and the sandbox act on the outside world \<open>'w\<close>; the clock, the
  context and interrupts are read from it. What the loop does in an order that matters is
  recorded in a log. The environment \<open>aenv\<close> holds the translated prompt templates, the JSON
  decoder for tool requests and the text of cache keys. Step callbacks, spans, global metrics and
  events on the bus are left out, and so are the training files; the agent's timeout shows up in
  the context. A self-critique starts the method over on a longer input, so \<open>ag_Execute\<close> is a
  partial function: \<open>None\<close> is a run that never returns.
\<close>

section \<open>State\<close>

type_synonym msg = "string \<times> string"
type_synonym tinput = "(string \<times> gvalue) list"

record 'w Tool =
  tl_Name :: string
  tl_Description :: string
  tl_RequiresReview :: bool
  tl_Execute :: "tinput \<Rightarrow> 'w \<Rightarrow> 'w \<times> string result"

record 'w model =
  md_Generate :: "msg list \<Rightarrow> 'w \<Rightarrow> 'w \<times> string result"
  md_Stream :: "msg list \<Rightarrow> 'w \<Rightarrow> 'w \<times> string list result"
  md_Structured :: "msg list \<Rightarrow> gvalue \<Rightarrow> 'w \<Rightarrow> 'w \<times> gvalue result"
  md_Embed :: "(string \<Rightarrow> 'w \<Rightarrow> 'w \<times> real list result) option"

record 'w cache =
  ca_Get :: "string \<Rightarrow> 'w \<Rightarrow> 'w \<times> string option"
  ca_Set :: "string \<Rightarrow> string \<Rightarrow> 'w \<Rightarrow> 'w"

record 'w amemory =
  am_Search :: "real list \<Rightarrow> int \<Rightarrow> 'w \<Rightarrow> 'w \<times> string list"
  am_Add :: "string \<Rightarrow> string \<Rightarrow> real list \<Rightarrow> 'w \<Rightarrow> 'w"

record 'w entities =
  en_Search :: "string \<Rightarrow> int \<Rightarrow> 'w \<Rightarrow> 'w \<times> string list"
  en_Upsert :: "string \<Rightarrow> string \<Rightarrow> string \<Rightarrow> 'w \<Rightarrow> 'w"

record 'w Agent =
  ag_Role :: string
  ag_Goal :: string
  ag_Backstory :: string
  ag_LLM :: "'w model option"
  ag_FunctionCallingLLM :: "'w model option"
  ag_Tools :: "'w Tool list"
  ag_MaxIterations :: int
  ag_MaxRetryLimit :: int
  ag_MaxRPM :: int
  ag_Memory :: "'w amemory option"
  ag_EntityMemory :: "'w entities option"
  ag_Guardrails :: "Guardrail list"
  ag_SelfHealing :: bool
  ag_Cache :: "'w cache option"
  ag_StepReview :: "(string \<Rightarrow> tinput \<Rightarrow> 'w \<Rightarrow> 'w \<times> bool) option"
  ag_StepStream :: bool
  ag_SelfCritique :: bool
  ag_KnowledgeBases :: "string list"
  ag_FewShotExamples :: "string list"
  ag_SystemTemplate :: string
  ag_PromptTemplate :: string
  ag_Reasoning :: bool
  ag_MaxReasoningAttempts :: int
  ag_KnowledgeSources :: "(string \<Rightarrow> 'w \<Rightarrow> 'w \<times> string result) list"
  ag_UseSystemPrompt :: bool
  ag_SandboxProvider :: "(string \<Rightarrow> 'w \<Rightarrow> 'w \<times> string result) option"
  ag_BeforeLLMCall :: "(msg list \<Rightarrow> msg list) option"

datatype selected = SelDone goerr | SelInterrupt string | SelDefault

record opts =
  op_schema :: "gvalue option"
  op_stream :: bool

record 'w aenv =
  ae_select :: "'w \<Rightarrow> 'w \<times> selected"
  ae_paused :: "'w \<Rightarrow> 'w \<times> goerr option"
  ae_now :: "'w \<Rightarrow> int"
  ae_sleep :: "int \<Rightarrow> 'w \<Rightarrow> 'w \<times> goerr option"
  ae_parse :: "string \<Rightarrow> (string \<times> tinput) option"
  ae_review :: "string \<Rightarrow> string \<Rightarrow> tinput \<Rightarrow> 'w \<Rightarrow> 'w \<times> bool"
  ae_json :: "gvalue \<Rightarrow> string result"
  ae_role_playing :: "string \<Rightarrow> string \<Rightarrow> string \<Rightarrow> string"
  ae_tools :: "string \<Rightarrow> string \<Rightarrow> string"
  ae_date :: string
  ae_training :: string
  ae_observation :: string
  ae_tool_error :: "string \<Rightarrow> string"
  ae_plan_prompt :: "string \<Rightarrow> string"
  ae_refine_prompt :: "string \<Rightarrow> string"
  ae_llm_key :: "opts \<Rightarrow> msg list \<Rightarrow> string"
  ae_input_text :: "tinput \<Rightarrow> string"
  ae_entities :: "string \<Rightarrow> (string \<times> string \<times> string) list option"

datatype aev =
    LLMCall "msg list"
  | ReviewAsked string tinput bool
  | ToolRun string tinput
  | MemorySaved string
  | EntitiesSpawned string
  | CritiqueCall string

record 'w ast =
  as_w :: 'w
  as_log :: "aev list"
  as_prompt_tokens :: int
  as_completion_tokens :: int
  as_lastExecution :: int

definition ErrLLMFailed :: string where
  "ErrLLMFailed = ''llm generation failed''"

definition ErrMaxIterations :: string where
  "ErrMaxIterations = ''agent hit maximum iteration limit without providing a final answer''"

definition NewAgentError :: "string \<Rightarrow> nat \<Rightarrow> goerr \<Rightarrow> goerr" where
  "NewAgentError role iter e =
     EWrap (''agent '' @ [CHR 0x27] @ role @ [CHR 0x27] @ (if iter > 0 then '' (iter '' @ show_nat iter @ '')'' else []) @ '': '') e []"

definition logged :: "aev \<Rightarrow> 'w ast \<Rightarrow> 'w ast" where
  "logged e st = st\<lparr>as_log := as_log st @ [e]\<rparr>"

definition on_world :: "('w \<Rightarrow> 'w \<times> 'a) \<Rightarrow> 'w ast \<Rightarrow> 'w ast \<times> 'a" where
  "on_world f st = (case f (as_w st) of (w, x) \<Rightarrow> (st\<lparr>as_w := w\<rparr>, x))"

section \<open>Recall and prompt\<close>

definition memory_block :: "string \<Rightarrow> string list \<Rightarrow> string" where
  "memory_block label xs =
     concat (map (\<lambda>(i, x). ''--- '' @ label @ '' '' @ show_nat (i + 1) @ '' ---'' @ [CHR 0x0A] @ x @ [CHR 0x0A]) (enumerate 0 xs))"

text \<open>The knowledge sources are asked in order; an error or an empty answer is skipped but keeps its number.\<close>

fun ask_sources :: "nat \<Rightarrow> (string \<Rightarrow> 'w \<Rightarrow> 'w \<times> string result) list \<Rightarrow> string \<Rightarrow> 'w \<Rightarrow> 'w \<times> string" where
  "ask_sources i [] q w = (w, [])"
| "ask_sources i (s # ss) q w =
     (case s q w of (w1, r) \<Rightarrow>
      (case ask_sources (i + 1) ss q w1 of (w2, rest) \<Rightarrow>
       (w2, (case r of
               Inr c \<Rightarrow> if c \<noteq> [] then ''--- Knowledge Source '' @ show_nat (i + 1) @ '' ---'' @ [CHR 0x0A] @ c @ [CHR 0x0A] else []
             | Inl _ \<Rightarrow> []) @ rest)))"

definition recallMemory :: "'w Agent \<Rightarrow> string \<Rightarrow> 'w \<Rightarrow> 'w \<times> string" where
  "recallMemory a taskInput w =
     (case ag_LLM a of
        None \<Rightarrow> (w, taskInput)
      | Some m \<Rightarrow>
          (let (w1, items) =
                 (case (ag_Memory a, md_Embed m) of
                    (Some mem, Some emb) \<Rightarrow>
                      (case emb taskInput w of (v, Inr vec) \<Rightarrow> am_Search mem vec 2 v | (v, Inl _) \<Rightarrow> (v, []))
                  | _ \<Rightarrow> (w, []));
               (w2, ents) = (case ag_EntityMemory a of Some en \<Rightarrow> en_Search en taskInput 2 w1 | None \<Rightarrow> (w1, []));
               (w3, know) = ask_sources 0 (ag_KnowledgeSources a) taskInput w2
           in if items \<noteq> [] \<or> ents \<noteq> [] \<or> ag_KnowledgeSources a \<noteq> []
              then (w3, ''RELEVANT PAST CONTEXT:'' @ [CHR 0x0A] @ memory_block ''Historical Memory'' items @ memory_block ''Tracked Entity'' ents @
                      know @ ''--------------------------'' @ [CHR 0x0A, CHR 0x0A] @ taskInput)
              else (w3, taskInput)))"

definition saveMemory :: "'w Agent \<Rightarrow> string \<Rightarrow> string \<Rightarrow> 'w ast \<Rightarrow> 'w ast" where
  "saveMemory a taskInput result st =
     (let content = ''Task: '' @ taskInput @ [CHR 0x0A] @ ''Result: '' @ result in
      case (ag_LLM a, ag_Memory a) of
        (Some m, Some mem) \<Rightarrow>
          (case md_Embed m of
             None \<Rightarrow> st
           | Some emb \<Rightarrow>
               (case emb content (as_w st) of
                  (w1, Inl _) \<Rightarrow> st\<lparr>as_w := w1\<rparr>
                | (w1, Inr vec) \<Rightarrow>
                    (let st1 = logged (MemorySaved content)
                                 (st\<lparr>as_w := am_Add mem (''agent_'' @ ag_Role a @ ''_'' @ show_nat (length content)) content vec w1\<rparr>)
                     in if ag_EntityMemory a \<noteq> None then logged (EntitiesSpawned result) st1 else st1)))
      | _ \<Rightarrow> st)"

text \<open>
  The goroutine that \<open>saveMemory\<close> starts when the agent has an entity memory: what it does to the
  world whenever it runs. \<open>saveMemory\<close> itself only records that it was started.
\<close>

definition extractAndStoreEntities :: "'w aenv \<Rightarrow> 'w Agent \<Rightarrow> 'w model \<Rightarrow> string \<Rightarrow> 'w \<Rightarrow> 'w" where
  "extractAndStoreEntities E a m result w =
     (case md_Generate m
             [(''system'', ''You are a precise data extractor.''),
              (''user'', ''Extract key entities and facts from the following text. Return ONLY a JSON array of objects like: [{'' @
                 [CHR 0x22] @ ''entity'' @ [CHR 0x22] @ '': '' @ [CHR 0x22] @ ''Name'' @ [CHR 0x22] @ '', '' @
                 [CHR 0x22] @ ''value'' @ [CHR 0x22] @ '': '' @ [CHR 0x22] @ ''Value'' @ [CHR 0x22] @ '', '' @
                 [CHR 0x22] @ ''description'' @ [CHR 0x22] @ '': '' @ [CHR 0x22] @ ''Context'' @ [CHR 0x22] @
                 ''}]. If none found, return [].'' @ [CHR 0x0A] @ ''Text: '' @ result)] w of
        (w1, Inl _) \<Rightarrow> w1
      | (w1, Inr response) \<Rightarrow>
          (case (ae_entities E (trim_space response), ag_EntityMemory a) of
             (Some es, Some en) \<Rightarrow> fold (\<lambda>(entity, val, desc). en_Upsert en entity val desc) es w1
           | _ \<Rightarrow> w1))"

definition tool_descriptions :: "'w Agent \<Rightarrow> string" where
  "tool_descriptions a = concat (map (\<lambda>t. ''- '' @ tl_Name t @ '': '' @ tl_Description t @ [CHR 0x0A]) (ag_Tools a))"

definition joined_section :: "string \<Rightarrow> string list \<Rightarrow> string" where
  "joined_section title xs =
     (if xs \<noteq> [] then [CHR 0x0A, CHR 0x0A] @ title @ [CHR 0x0A] @ str_join xs ([CHR 0x0A] @ ''---'' @ [CHR 0x0A]) else [])"

definition system_prompt :: "'w aenv \<Rightarrow> 'w Agent \<Rightarrow> string" where
  "system_prompt E a =
     (if ag_SystemTemplate a \<noteq> [] then ag_SystemTemplate a
      else ae_role_playing E (ag_Role a) (ag_Backstory a) (ag_Goal a) @ ae_date E @
           joined_section ''KNOWLEDGE BASE CONTEXT:'' (ag_KnowledgeBases a) @
           joined_section ''FEW-SHOT EXAMPLES FOR GUIDANCE:'' (ag_FewShotExamples a) @
           ae_tools E (tool_descriptions a) (str_join (map tl_Name (ag_Tools a)) '', '') @ ae_training E)"

definition first_messages :: "'w aenv \<Rightarrow> 'w Agent \<Rightarrow> string \<Rightarrow> msg list" where
  "first_messages E a enriched =
     (if ag_UseSystemPrompt a then [(''system'', system_prompt E a)] else []) @
     [(''user'', if ag_PromptTemplate a = [] then enriched else replace_all ''{input}'' enriched (ag_PromptTemplate a))]"

section \<open>Reasoning phase\<close>

definition is_ready :: "string \<Rightarrow> bool" where
  "is_ready r \<longleftrightarrow> str_contains (upper r) ''READY: I AM READY'' \<or> str_contains (upper r) ''READY: YES'' \<or> str_contains (upper r) ''STATUS: YES''"

primrec reasoning_loop :: "nat \<Rightarrow> 'w aenv \<Rightarrow> 'w model \<Rightarrow> string \<Rightarrow> string \<Rightarrow> msg list \<Rightarrow> 'w ast \<Rightarrow> 'w ast \<times> string result" where
  "reasoning_loop 0 E m desc final cur st = (st, Inr final)"
| "reasoning_loop (Suc n) E m desc final cur st =
     (let cur1 = cur @ [(''user'', ae_plan_prompt E desc)] in
      case on_world (md_Generate m cur1) (logged (LLMCall cur1) st) of
        (st1, Inl e) \<Rightarrow> (st1, Inl e)
      | (st1, Inr resp) \<Rightarrow>
          if is_ready resp then (st1, Inr resp)
          else reasoning_loop n E m desc resp (cur1 @ [(''assistant'', resp), (''user'', ae_refine_prompt E resp)]) st1)"

definition runReasoningLoop :: "'w aenv \<Rightarrow> 'w Agent \<Rightarrow> 'w model \<Rightarrow> msg list \<Rightarrow> 'w ast \<Rightarrow> 'w ast \<times> string result" where
  "runReasoningLoop E a m msgs st =
     reasoning_loop (if ag_MaxReasoningAttempts a \<le> 0 then 3 else nat (ag_MaxReasoningAttempts a)) E m (snd (last msgs)) [] msgs st"

section \<open>One turn of the loop\<close>

text \<open>The model's answer: an empty cached answer counts as a miss.\<close>

definition generate_text :: "'w aenv \<Rightarrow> 'w Agent \<Rightarrow> 'w model \<Rightarrow> opts \<Rightarrow> nat \<Rightarrow> msg list \<Rightarrow> 'w ast \<Rightarrow> 'w ast \<times> string result" where
  "generate_text E a m o1 i msgs st =
     (let (st1, cached) =
            (case ag_Cache a of
               None \<Rightarrow> (st, [])
             | Some c \<Rightarrow> (case on_world (ca_Get c (ae_llm_key E o1 msgs)) st of (s, None) \<Rightarrow> (s, []) | (s, Some t) \<Rightarrow> (s, t))) in
      if cached \<noteq> [] then (st1, Inr cached)
      else (let st2 = logged (LLMCall msgs) st1;
                fail = (\<lambda>e. NewAgentError (trim_space (ag_Role a)) (i + 1) (EWrap [] (ESentinel ErrLLMFailed) ('': '' @ err_text e)));
                (st3, r) =
                  (if ag_StepStream a \<or> op_stream o1
                   then (case on_world (md_Stream m msgs) st2 of (s, Inl e) \<Rightarrow> (s, Inl (fail e)) | (s, Inr toks) \<Rightarrow> (s, Inr (concat toks)))
                   else (let client = (case ag_FunctionCallingLLM a of Some f \<Rightarrow> f | None \<Rightarrow> m) in
                         case on_world (md_Generate client msgs) st2 of (s, Inl e) \<Rightarrow> (s, Inl (fail e)) | (s, Inr t) \<Rightarrow> (s, Inr t)))
            in case (r, ag_Cache a) of
                 (Inr t, Some c) \<Rightarrow> (st3\<lparr>as_w := ca_Set c (ae_llm_key E o1 msgs) t (as_w st3)\<rparr>, Inr t)
               | _ \<Rightarrow> (st3, r)))"

definition tool_key :: "'w aenv \<Rightarrow> string \<Rightarrow> tinput \<Rightarrow> string" where
  "tool_key E name inp = ''tool:'' @ name @ ''|input:'' @ ae_input_text E inp"

definition exec_tool :: "'w Agent \<Rightarrow> 'w Tool \<Rightarrow> string \<Rightarrow> tinput \<Rightarrow> 'w ast \<Rightarrow> 'w ast \<times> string result" where
  "exec_tool a t name inp st =
     on_world
       (case ag_SandboxProvider a of
          Some sb \<Rightarrow>
            if name = ''CodeInterpreter'' \<or> name = ''PythonInterpreter''
            then (case map_of inp ''code'' of
                    Some (VString code) \<Rightarrow> if code = [] then tl_Execute t inp else sb code
                  | _ \<Rightarrow> tl_Execute t inp)
            else tl_Execute t inp
        | None \<Rightarrow> tl_Execute t inp)
       (logged (ToolRun name inp) st)"

definition call_tool :: "'w aenv \<Rightarrow> 'w Agent \<Rightarrow> 'w Tool \<Rightarrow> string \<Rightarrow> tinput \<Rightarrow> 'w ast \<Rightarrow> 'w ast \<times> string result" where
  "call_tool E a t name inp st =
     (case ag_Cache a of
        None \<Rightarrow> exec_tool a t name inp st
      | Some c \<Rightarrow>
          (case on_world (ca_Get c (tool_key E name inp)) st of
             (st1, hit) \<Rightarrow>
               if (case hit of Some r \<Rightarrow> r \<noteq> [] | None \<Rightarrow> False) then (st1, Inr (the hit))
               else (case exec_tool a t name inp st1 of
                       (st2, Inr r) \<Rightarrow> (st2\<lparr>as_w := ca_Set c (tool_key E name inp) r (as_w st2)\<rparr>, Inr r)
                     | (st2, Inl e) \<Rightarrow> (st2, Inl e))))"

definition ask_review :: "'w aenv \<Rightarrow> 'w Agent \<Rightarrow> string \<Rightarrow> tinput \<Rightarrow> 'w ast \<Rightarrow> 'w ast \<times> bool" where
  "ask_review E a name inp st =
     (case on_world (case ag_StepReview a of Some f \<Rightarrow> f name inp | None \<Rightarrow> ae_review E (ag_Role a) name inp) st of
        (st1, ok) \<Rightarrow> (logged (ReviewAsked name inp ok) st1, ok))"

text \<open>A tool request: the observation for the model and the retries that are left.\<close>

definition tool_turn :: "'w aenv \<Rightarrow> 'w Agent \<Rightarrow> string \<Rightarrow> tinput \<Rightarrow> nat \<Rightarrow> 'w ast \<Rightarrow> 'w ast \<times> string \<times> nat" where
  "tool_turn E a name inp retries st =
     (case find (\<lambda>t. tl_Name t = name) (ag_Tools a) of
        None \<Rightarrow>
          (st, ''Observation Error: The tool '' @ [CHR 0x27] @ name @ [CHR 0x27] @ '' does not exist. Available tools are: '' @ [CHR 0x0A] @
             tool_descriptions a, retries)
      | Some t \<Rightarrow>
          (case (if tl_RequiresReview t then ask_review E a name inp st else (st, True)) of
             (st1, ok) \<Rightarrow>
               if \<not> ok then (st1, ''Tool Execution Denied by human.'', retries)
               else (case call_tool E a t name inp st1 of
                       (st2, Inl e) \<Rightarrow>
                         if ag_SelfHealing a \<and> retries > 0 then (st2, ae_tool_error E (err_text e), retries - 1)
                         else (st2, ''Fatal Tool Error: '' @ err_text e, retries)
                     | (st2, Inr r) \<Rightarrow> (st2, ae_observation E @ '' '' @ r, retries))))"


section \<open>The loop\<close>

datatype outcome = Finished "gvalue result" | Recritique string

text \<open>A tool request is a JSON object with a non-empty tool name.\<close>

definition tool_request :: "'w aenv \<Rightarrow> string \<Rightarrow> (string \<times> tinput) option" where
  "tool_request E txt =
     (case ae_parse E (trim_space txt) of
        Some (name, inp) \<Rightarrow> if name \<noteq> [] then Some (name, inp) else None
      | None \<Rightarrow> None)"

definition count_tokens :: "string \<Rightarrow> string \<Rightarrow> 'w ast \<Rightarrow> 'w ast" where
  "count_tokens enriched txt st =
     st\<lparr>as_prompt_tokens := as_prompt_tokens st + int (length enriched div 4),
        as_completion_tokens := as_completion_tokens st + int (length txt div 4)\<rparr>"

definition structured_answer :: "'w aenv \<Rightarrow> 'w Agent \<Rightarrow> 'w model \<Rightarrow> gvalue \<Rightarrow> msg list \<Rightarrow> 'w ast \<Rightarrow> 'w ast \<times> gvalue result" where
  "structured_answer E a m sch msgs st =
     (case on_world (md_Structured m msgs sch) (logged (LLMCall msgs) st) of
        (st1, Inl e) \<Rightarrow> (st1, Inl e)
      | (st1, Inr v) \<Rightarrow>
          if length (ag_Guardrails a) > 0
          then (case ae_json E v of
                  Inl e \<Rightarrow> (st1, Inl (EWrap ''structured output guardrail: unserializable result: '' e []))
                | Inr js \<Rightarrow>
                    (case RunAll (ag_Guardrails a) js of
                       Some ge \<Rightarrow> (st1, Inl (EWrap ''structured output guardrail: '' ge []))
                     | None \<Rightarrow> (st1, Inr v)))
          else (st1, Inr v))"

definition critique_messages :: "string \<Rightarrow> msg list" where
  "critique_messages txt =
     [(''system'', ''You are a critical self-reviewer.''),
      (''user'', ''Critique your own response for accuracy and tone. If it is perfect, respond '' @ [CHR 0x27] @ ''APPROVED'' @ [CHR 0x27] @
         ''. Otherwise, suggest improvements.'' @ [CHR 0x0A] @ ''Your Response: '' @ txt)]"

definition final_answer :: "'w Agent \<Rightarrow> 'w model \<Rightarrow> string \<Rightarrow> string \<Rightarrow> 'w ast \<Rightarrow> 'w ast \<times> outcome" where
  "final_answer a m taskInput txt st =
     (let st1 = (if ag_Memory a \<noteq> None then saveMemory a taskInput txt st else st) in
      if ag_SelfCritique a
      then (case on_world (md_Generate m (critique_messages txt)) (logged (CritiqueCall txt) st1) of
              (st2, Inr c) \<Rightarrow>
                if \<not> str_contains (upper c) ''APPROVED'' then (st2, Recritique c) else (st2, Finished (Inr (VString txt)))
            | (st2, Inl _) \<Rightarrow> (st2, Finished (Inr (VString txt))))
      else (st1, Finished (Inr (VString txt))))"

definition interrupt_messages :: "selected \<Rightarrow> msg list" where
  "interrupt_messages sel =
     (case sel of
        SelInterrupt x \<Rightarrow> [(''user'', ''[USER INTERRUPT]: '' @ x @ ''. Please adjust your next action accordingly.'')]
      | _ \<Rightarrow> [])"

text \<open>
  The loop body before the model is asked: the context and the interrupt channel, the global pause,
  the hook on the messages.
\<close>

definition turn_start :: "'w aenv \<Rightarrow> 'w Agent \<Rightarrow> msg list \<Rightarrow> 'w ast \<Rightarrow> 'w ast \<times> msg list result" where
  "turn_start E a msgs st =
     (case on_world (ae_select E) st of
        (st1, sel) \<Rightarrow>
          (case sel of
             SelDone e \<Rightarrow> (st1, Inl e)
           | _ \<Rightarrow>
               (case on_world (ae_paused E) st1 of
                  (st2, Some e) \<Rightarrow> (st2, Inl e)
                | (st2, None) \<Rightarrow>
                    (let msgs1 = msgs @ interrupt_messages sel in
                     (st2, Inr (case ag_BeforeLLMCall a of Some f \<Rightarrow> f msgs1 | None \<Rightarrow> msgs1))))))"

text \<open>\<open>i\<close> counts the iterations done, the first argument those that are left.\<close>

primrec react ::
  "nat \<Rightarrow> 'w aenv \<Rightarrow> 'w Agent \<Rightarrow> 'w model \<Rightarrow> opts \<Rightarrow> string \<Rightarrow> string \<Rightarrow> nat \<Rightarrow> nat \<Rightarrow> msg list \<Rightarrow> 'w ast \<Rightarrow> 'w ast \<times> outcome" where
  "react 0 E a m o1 taskInput enriched i retries msgs st =
     (st, Finished (Inl (NewAgentError (trim_space (ag_Role a)) i
        (EWrap [] (ESentinel ErrMaxIterations) ('' ('' @ show_nat i @ '' iterations)'')))))"
| "react (Suc n) E a m o1 taskInput enriched i retries msgs st =
     (case turn_start E a msgs st of
        (st1, Inl e) \<Rightarrow> (st1, Finished (Inl e))
      | (st1, Inr msgs1) \<Rightarrow>
          (case op_schema o1 of
             Some sch \<Rightarrow> (case structured_answer E a m sch msgs1 st1 of (st2, r) \<Rightarrow> (st2, Finished r))
           | None \<Rightarrow>
               (case generate_text E a m o1 i msgs1 st1 of
                  (st2, Inl e) \<Rightarrow> (st2, Finished (Inl e))
                | (st2, Inr txt) \<Rightarrow>
                    (let st3 = count_tokens enriched txt st2 in
                     case tool_request E txt of
                       Some (name, inp) \<Rightarrow>
                         (case tool_turn E a name inp retries st3 of
                            (st4, obs, retries1) \<Rightarrow>
                              react n E a m o1 taskInput enriched (i + 1) retries1 (msgs1 @ [(''assistant'', txt), (''user'', obs)]) st4)
                     | None \<Rightarrow>
                         (case RunAll (ag_Guardrails a) txt of
                            Some ge \<Rightarrow>
                              if retries > 0
                              then react n E a m o1 taskInput enriched (i + 1) (retries - 1)
                                     (msgs1 @ [(''assistant'', txt), (''user'', ''Validation Error: '' @ err_text ge @ ''. Please regenerate.'')]) st3
                              else (st3, Finished (Inl (NewAgentError (trim_space (ag_Role a)) (i + 1)
                                     (EWrap [] (ESentinel ErrGuardrailFailed) ('': '' @ err_text ge)))))
                          | None \<Rightarrow> final_answer a m taskInput txt st3)))))"

definition maxLoops :: "'w Agent \<Rightarrow> nat" where
  "maxLoops a = (if ag_MaxIterations a \<le> 0 then 15 else nat (ag_MaxIterations a))"

definition maxRetries :: "'w Agent \<Rightarrow> nat" where
  "maxRetries a = (if ag_MaxRetryLimit a \<le> 0 then 3 else nat (ag_MaxRetryLimit a))"

section \<open>Execute\<close>

definition minInterval :: "'w Agent \<Rightarrow> int" where
  "minInterval a = 60000000000 div ag_MaxRPM a"

definition rate_wait :: "'w aenv \<Rightarrow> 'w Agent \<Rightarrow> 'w ast \<Rightarrow> 'w ast \<times> goerr option" where
  "rate_wait E a st =
     (if ag_MaxRPM a > 0
      then (let elapsed = ae_now E (as_w st) - as_lastExecution st in
            if elapsed < minInterval a then on_world (ae_sleep E (minInterval a - elapsed)) st else (st, None))
      else (st, None))"

text \<open>The deferred update of the time of the last execution.\<close>

definition stamp :: "'w aenv \<Rightarrow> 'w Agent \<Rightarrow> 'w ast \<Rightarrow> 'w ast" where
  "stamp E a st = (if ag_MaxRPM a > 0 then st\<lparr>as_lastExecution := ae_now E (as_w st)\<rparr> else st)"

definition attempt :: "'w aenv \<Rightarrow> 'w Agent \<Rightarrow> opts \<Rightarrow> string \<Rightarrow> 'w ast \<Rightarrow> 'w ast \<times> outcome" where
  "attempt E a o1 taskInput st =
     (case ag_LLM a of
        None \<Rightarrow> (st, Finished (Inr (VString (''Task executed successfully by '' @ ag_Role a))))
      | Some m \<Rightarrow>
          (let (st1, enriched) = (if ag_Memory a \<noteq> None then on_world (recallMemory a taskInput) st else (st, taskInput));
               msgs = first_messages E a enriched;
               (st2, plan) = (if ag_Reasoning a
                              then (case runReasoningLoop E a m msgs st1 of
                                      (s, Inr p) \<Rightarrow> (s, [(''assistant'', ''Plan: '' @ p)])
                                    | (s, Inl _) \<Rightarrow> (s, []))
                              else (st1, []))
           in react (maxLoops a) E a m o1 taskInput enriched 0 (maxRetries a) (msgs @ plan) st2))"

definition critique_input :: "string \<Rightarrow> string \<Rightarrow> string" where
  "critique_input taskInput c = taskInput @ [CHR 0x0A, CHR 0x0A] @ ''INTERNAL CRITIQUE: '' @ c"

partial_function (option) ag_Execute :: "'w aenv \<Rightarrow> 'w Agent \<Rightarrow> opts \<Rightarrow> string \<Rightarrow> 'w ast \<Rightarrow> ('w ast \<times> gvalue result) option" where
  "ag_Execute E a o1 taskInput st =
     (case rate_wait E a st of
        (st1, Some e) \<Rightarrow> Some (st1, Inl e)
      | (st1, None) \<Rightarrow>
          (case attempt E a o1 taskInput st1 of
             (st2, Finished r) \<Rightarrow> Some (stamp E a st2, r)
           | (st2, Recritique c) \<Rightarrow>
               Option.bind (ag_Execute E a o1 (critique_input taskInput c) st2)
                 (\<lambda>(st3, r). Some (stamp E a st3, r))))"


section \<open>Traces\<close>

definition log_ext :: "(aev list \<Rightarrow> bool) \<Rightarrow> 'w ast \<Rightarrow> 'w ast \<Rightarrow> bool" where
  "log_ext Q st st' \<longleftrightarrow> (\<exists>l. as_log st' = as_log st @ l \<and> Q l)"

definition needs_review :: "'w Agent \<Rightarrow> string \<Rightarrow> bool" where
  "needs_review a name = (case find (\<lambda>t. tl_Name t = name) (ag_Tools a) of Some t \<Rightarrow> tl_RequiresReview t | None \<Rightarrow> False)"

text \<open>Every run of a tool that requires a review comes right after an approval of the same call.\<close>

fun reviewed_from :: "(string \<Rightarrow> bool) \<Rightarrow> aev option \<Rightarrow> aev list \<Rightarrow> bool" where
  "reviewed_from req prev [] = True"
| "reviewed_from req prev (e # es) =
     ((case e of ToolRun n i \<Rightarrow> (req n \<longrightarrow> prev = Some (ReviewAsked n i True)) | _ \<Rightarrow> True) \<and> reviewed_from req (Some e) es)"

definition equipped_only :: "'w Agent \<Rightarrow> aev list \<Rightarrow> bool" where
  "equipped_only a l \<longleftrightarrow> list_all (\<lambda>e. case e of ToolRun n i \<Rightarrow> n \<in> tl_Name ` set (ag_Tools a) | _ \<Rightarrow> True) l"

definition llm_calls :: "'w ast \<Rightarrow> nat" where
  "llm_calls st = length (filter (\<lambda>e. case e of LLMCall _ \<Rightarrow> True | _ \<Rightarrow> False) (as_log st))"

section \<open>Lemmas\<close>

named_theorems agent_log \<open>what the small operations do to the log\<close>

lemma on_world_log [agent_log]: "on_world f st = (st', x) \<Longrightarrow> as_log st' = as_log st"
  by (auto simp: on_world_def split: prod.splits)

lemma logged_log [simp]: "as_log (logged e st) = as_log st @ [e]"
  by (simp add: logged_def)

lemma count_tokens_log [simp]: "as_log (count_tokens x y st) = as_log st"
  by (simp add: count_tokens_def)

lemma stamp_log [simp]: "as_log (stamp E a st) = as_log st"
  by (simp add: stamp_def)

lemma turn_start_log [agent_log]: "turn_start E a msgs st = (st', r) \<Longrightarrow> as_log st' = as_log st"
  by (auto simp: turn_start_def Let_def split: prod.splits selected.splits option.splits dest!: on_world_log)

lemma rate_wait_log [agent_log]: "rate_wait E a st = (st', r) \<Longrightarrow> as_log st' = as_log st"
  by (auto simp: rate_wait_def Let_def split: if_splits dest!: on_world_log)

lemma structured_answer_log [agent_log]:
  "structured_answer E a m sch msgs st = (st', r) \<Longrightarrow> as_log st' = as_log st @ [LLMCall msgs]"
  by (auto simp: structured_answer_def split: prod.splits sum.splits option.splits if_splits dest!: on_world_log)

lemma generate_text_log [agent_log]:
  assumes "generate_text E a m o1 i msgs st = (st', r)"
  shows "as_log st' = as_log st \<or> as_log st' = as_log st @ [LLMCall msgs]"
  using assms
  by (auto simp: generate_text_def Let_def split: prod.splits sum.splits option.splits if_splits dest!: on_world_log)

lemma exec_tool_log [agent_log]: "exec_tool a t name inp st = (st', r) \<Longrightarrow> as_log st' = as_log st @ [ToolRun name inp]"
  unfolding exec_tool_def by (drule on_world_log) simp

lemma call_tool_log [agent_log]:
  assumes "call_tool E a t name inp st = (st', r)"
  shows "as_log st' = as_log st \<or> as_log st' = as_log st @ [ToolRun name inp]"
  using assms
  by (auto simp: call_tool_def split: prod.splits sum.splits option.splits if_splits dest!: on_world_log exec_tool_log)

lemma ask_review_log [agent_log]:
  "ask_review E a name inp st = (st', ok) \<Longrightarrow> as_log st' = as_log st @ [ReviewAsked name inp ok]"
  by (auto simp: ask_review_def split: prod.splits dest!: on_world_log)

lemma saveMemory_log:
  "\<exists>l. as_log (saveMemory a inp r st) = as_log st @ l \<and> l \<in> {[], [MemorySaved (''Task: '' @ inp @ [CHR 0x0A] @ ''Result: '' @ r)],
      [MemorySaved (''Task: '' @ inp @ [CHR 0x0A] @ ''Result: '' @ r), EntitiesSpawned r]}"
  by (auto simp: saveMemory_def Let_def split: prod.splits sum.splits option.splits)

lemma ag_Execute_run_induct:
  assumes run: "ag_Execute E a o1 inp st = Some (st', r)"
    and wait: "\<And>inp st st1 e. rate_wait E a st = (st1, Some e) \<Longrightarrow> P inp st st1 (Inl e)"
    and fin: "\<And>inp st st1 st2 r. rate_wait E a st = (st1, None) \<Longrightarrow> attempt E a o1 inp st1 = (st2, Finished r) \<Longrightarrow>
                P inp st (stamp E a st2) r"
    and again: "\<And>inp st st1 st2 c st3 r. rate_wait E a st = (st1, None) \<Longrightarrow> attempt E a o1 inp st1 = (st2, Recritique c) \<Longrightarrow>
                P (critique_input inp c) st2 st3 r \<Longrightarrow> P inp st (stamp E a st3) r"
  shows "P inp st st' r"
proof -
  let ?R = "\<lambda>E' a' o' inp st y. E' = E \<longrightarrow> a' = a \<longrightarrow> o' = o1 \<longrightarrow> P inp st (fst y) (snd y)"
  have "?R E a o1 inp st (st', r)"
    by (rule ag_Execute.raw_induct [of ?R, OF _ run])
      (auto split: prod.splits option.splits outcome.splits bind_splits intro: wait fin, blast intro: again)
  then show ?thesis by simp
qed

text \<open>
  A contract on traces: a property of event lists that holds of the pieces the agent writes. The
  lemmas below lift it to whole executions once, for every such property.
\<close>

locale trace_contract =
  fixes a :: "'w Agent" and Q :: "aev list \<Rightarrow> bool"
  assumes Q_nil: "Q []"
    and Q_append: "Q xs \<Longrightarrow> Q ys \<Longrightarrow> Q (xs @ ys)"
    and Q_llm: "Q [LLMCall ms]"
    and Q_mem: "Q [MemorySaved s]"
    and Q_ent: "Q [EntitiesSpawned s]"
    and Q_crit: "Q [CritiqueCall s]"
    and Q_ask: "Q [ReviewAsked n i ok]"
    and Q_run: "find (\<lambda>t. tl_Name t = n) (ag_Tools a) = Some t \<Longrightarrow> \<not> tl_RequiresReview t \<Longrightarrow> Q [ToolRun n i]"
    and Q_reviewed: "find (\<lambda>t. tl_Name t = n) (ag_Tools a) = Some t \<Longrightarrow> Q [ReviewAsked n i True, ToolRun n i]"
begin

lemma ext_refl: "as_log st' = as_log st \<Longrightarrow> log_ext Q st st'"
  by (simp add: log_ext_def Q_nil)

lemma ext_step: "as_log st' = as_log st @ l \<Longrightarrow> Q l \<Longrightarrow> log_ext Q st st'"
  by (auto simp: log_ext_def)

lemma ext_trans: "log_ext Q r s \<Longrightarrow> log_ext Q s t \<Longrightarrow> log_ext Q r t"
  by (auto simp: log_ext_def intro!: Q_append)

lemma ext_same: "log_ext Q s t \<Longrightarrow> as_log t = as_log u \<Longrightarrow> log_ext Q s u"
  by (simp add: log_ext_def)

lemma ext_from: "log_ext Q s t \<Longrightarrow> as_log s = as_log u \<Longrightarrow> log_ext Q u t"
  by (simp add: log_ext_def)

lemma reasoning_ext: "reasoning_loop n E m d fin cur st = (st', r) \<Longrightarrow> log_ext Q st st'"
proof (induction n arbitrary: fin cur st)
  case 0
  then show ?case by (simp add: ext_refl)
next
  case (Suc n)
  let ?cur = "cur @ [(''user'', ae_plan_prompt E d)]"
  obtain st1 x where ow: "on_world (md_Generate m ?cur) (logged (LLMCall ?cur) st) = (st1, x)" by fastforce
  have e1: "log_ext Q st st1" using on_world_log [OF ow] by (intro ext_step [OF _ Q_llm]) simp
  show ?case
  proof (cases "\<exists>resp. x = Inr resp \<and> \<not> is_ready resp")
    case True
    then obtain resp where "x = Inr resp" "\<not> is_ready resp" by blast
    with Suc.prems ow have "log_ext Q st1 st'" by (auto intro: Suc.IH simp: Let_def)
    with e1 show ?thesis by (rule ext_trans)
  next
    case False
    with Suc.prems ow e1 show ?thesis by (auto simp: Let_def split: sum.splits if_splits)
  qed
qed

lemma tool_turn_ext:
  assumes "tool_turn E a name inp retries st = (st', obs, k)"
  shows "log_ext Q st st'"
proof (cases "find (\<lambda>t. tl_Name t = name) (ag_Tools a)")
  case None
  with assms show ?thesis by (simp add: tool_turn_def ext_refl)
next
  case (Some t)
  obtain st1 ok where r: "(if tl_RequiresReview t then ask_review E a name inp st else (st, True)) = (st1, ok)" by fastforce
  obtain st2 x where c: "call_tool E a t name inp st1 = (st2, x)" by fastforce
  have st': "st' = (if ok then st2 else st1)"
    using assms Some r c by (auto simp: tool_turn_def split: sum.splits if_splits)
  show ?thesis
  proof (cases "tl_RequiresReview t")
    case True
    then have l1: "as_log st1 = as_log st @ [ReviewAsked name inp ok]" using r ask_review_log by auto
    from call_tool_log [OF c] show ?thesis
      using l1 st' Q_ask Q_reviewed [OF Some] by (auto simp: log_ext_def)
  next
    case False
    then have "st1 = st" using r by simp
    with call_tool_log [OF c] st' show ?thesis
      using Q_nil Q_run [OF Some False] by (auto simp: log_ext_def)
  qed
qed

lemma final_ext:
  assumes "final_answer a m inp ans st = (st', r)"
  shows "log_ext Q st st'"
proof -
  define st1 where "st1 = (if ag_Memory a \<noteq> None then saveMemory a inp ans st else st)"
  have e1: "log_ext Q st st1"
    using saveMemory_log [of a inp ans st] Q_nil Q_mem Q_append [OF Q_mem Q_ent]
    by (auto simp: st1_def log_ext_def)
  obtain st2 x where ow: "on_world (md_Generate m (critique_messages ans)) (logged (CritiqueCall ans) st1) = (st2, x)" by fastforce
  have "log_ext Q st1 st2" using on_world_log [OF ow] by (intro ext_step [OF _ Q_crit]) simp
  moreover have "st' = (if ag_SelfCritique a then st2 else st1)"
    using assms [unfolded final_answer_def st1_def [symmetric] Let_def] ow by (auto split: sum.splits if_splits)
  ultimately show ?thesis using e1 by (auto intro: ext_trans)
qed

lemma react_ext: "react n E a m o1 inp enr i k msgs st = (st', r) \<Longrightarrow> log_ext Q st st'"
proof (induction n arbitrary: i k msgs st)
  case 0
  then show ?case by (simp add: ext_refl)
next
  case (Suc n)
  obtain st1 x where ts: "turn_start E a msgs st = (st1, x)" by fastforce
  have e1: "log_ext Q st st1" by (rule ext_refl [OF turn_start_log [OF ts]])
  show ?case
  proof (cases x)
    case (Inl e)
    with Suc.prems ts e1 show ?thesis by simp
  next
    case (Inr msgs1)
    note x = this
    show ?thesis
    proof (cases "op_schema o1")
      case (Some sch)
      obtain st2 y where sa: "structured_answer E a m sch msgs1 st1 = (st2, y)" by fastforce
      have "log_ext Q st1 st2" by (rule ext_step [OF structured_answer_log [OF sa] Q_llm])
      with Suc.prems ts x Some sa e1 show ?thesis by (auto intro: ext_trans)
    next
      case None
      obtain st2 y where gt: "generate_text E a m o1 i msgs1 st1 = (st2, y)" by fastforce
      have e2: "log_ext Q st st2"
        by (rule ext_trans [OF e1]) (use generate_text_log [OF gt] Q_nil Q_llm in \<open>auto simp: log_ext_def\<close>)
      show ?thesis
      proof (cases y)
        case (Inl e)
        with Suc.prems ts x None gt e2 show ?thesis by simp
      next
        case (Inr ans)
        let ?st3 = "count_tokens enr ans st2"
        have e3: "log_ext Q st ?st3" by (rule ext_same [OF e2]) simp
        have "log_ext Q ?st3 st'"
        proof (cases "tool_request E ans")
          case (Some req)
          obtain name ti where req: "req = (name, ti)" by fastforce
          obtain st4 obs k1 where tt: "tool_turn E a name ti k ?st3 = (st4, obs, k1)" using prod_cases3 by blast
          have "log_ext Q st4 st'"
            using Suc.prems ts x None gt Inr Some req tt by (auto intro: Suc.IH simp: Let_def)
          with tool_turn_ext [OF tt] show ?thesis by (rule ext_trans)
        next
          case None2: None
          show ?thesis
            using Suc.prems ts x None gt Inr None2
            by (auto simp: Let_def ext_refl split: option.splits if_splits intro: Suc.IH final_ext)
        qed
        with e3 show ?thesis by (rule ext_trans)
      qed
    qed
  qed
qed

lemma attempt_ext:
  assumes "attempt E a o1 inp st = (st', r)"
  shows "log_ext Q st st'"
proof (cases "ag_LLM a")
  case None
  with assms show ?thesis by (simp add: attempt_def ext_refl)
next
  case (Some m)
  obtain st1 enr where r1: "(if ag_Memory a \<noteq> None then on_world (recallMemory a inp) st else (st, inp)) = (st1, enr)" by fastforce
  have e1: "log_ext Q st st1" using r1 by (auto intro!: ext_refl split: if_splits dest: on_world_log)
  let ?msgs = "first_messages E a enr"
  obtain st2 plan where r2: "(if ag_Reasoning a
      then (case runReasoningLoop E a m ?msgs st1 of (s, Inr p) \<Rightarrow> (s, [(''assistant'', ''Plan: '' @ p)]) | (s, Inl _) \<Rightarrow> (s, []))
      else (st1, [])) = (st2, plan)" by fastforce
  have e2: "log_ext Q st1 st2"
    using r2 by (auto simp: runReasoningLoop_def ext_refl split: if_splits prod.splits sum.splits intro: reasoning_ext)
  have "react (maxLoops a) E a m o1 inp enr 0 (maxRetries a) (?msgs @ plan) st2 = (st', r)"
    using assms Some r1 r2 by (simp add: attempt_def)
  from react_ext [OF this] e1 e2 show ?thesis by (blast intro: ext_trans)
qed

lemma Execute_ext: "ag_Execute E a o1 inp st = Some (st', r) \<Longrightarrow> log_ext Q st st'"
proof (erule ag_Execute_run_induct [where P = "\<lambda>inp st st' r. log_ext Q st st'"])
  show "rate_wait E a s = (t, Some e) \<Longrightarrow> log_ext Q s t" for s t e
    by (rule ext_refl) (rule rate_wait_log)
  show "rate_wait E a s = (s1, None) \<Longrightarrow> attempt E a o1 i s1 = (s2, Finished q) \<Longrightarrow> log_ext Q s (stamp E a s2)" for s s1 s2 i q
    by (rule ext_same [OF ext_from [OF attempt_ext [of E o1 i s1 s2]]]) (simp_all add: rate_wait_log)
  show "rate_wait E a s = (s1, None) \<Longrightarrow> attempt E a o1 i s1 = (s2, Recritique c) \<Longrightarrow> log_ext Q s2 t \<Longrightarrow>
      log_ext Q s (stamp E a t)" for s s1 s2 i c t
    by (rule ext_same [OF ext_trans [OF ext_from [OF attempt_ext [of E o1 i s1 s2]]]]) (simp_all add: rate_wait_log)
qed
end

lemma reviewed_from_append:
  "reviewed_from req p (xs @ ys) \<longleftrightarrow>
     reviewed_from req p xs \<and> reviewed_from req (if xs = [] then p else Some (last xs)) ys"
  by (induction xs arbitrary: p) auto

lemma reviewed_from_None: "reviewed_from req None ys \<Longrightarrow> reviewed_from req p ys"
  by (cases ys) (auto split: aev.splits)

interpretation rv: trace_contract a "reviewed_from (needs_review a) None" for a
  by unfold_locales (auto simp: reviewed_from_append reviewed_from_None needs_review_def)

lemma find_name: "find (\<lambda>t. tl_Name t = n) ts = Some t \<Longrightarrow> n \<in> tl_Name ` set ts"
  by (auto simp: find_Some_iff)

interpretation eq: trace_contract a "equipped_only a" for a
  by unfold_locales (auto simp: equipped_only_def dest: find_name)


end
