(* ===== verification/Agent_Props.thy ===== *)
theory Agent_Props
  imports Agent_Loop
begin

text \<open>
  What an agent's execution guarantees: human review before sensitive tools, guardrails on every answer,
  the budget of model calls of an execution and of a task, and where the code gives no guarantee (restarts
  after a self-critique, knowledge without a vector memory). The trace lemmas come from the
  locale \<open>trace_contract\<close> of \<open>Agent_Loop\<close>.
\<close>

definition max_reasoning :: "'w Agent \<Rightarrow> nat" where
  "max_reasoning a = (if ag_Reasoning a then if ag_MaxReasoningAttempts a \<le> 0 then 3 else nat (ag_MaxReasoningAttempts a) else 0)"

text \<open>An agent as a task sees it, for agents whose executions return.\<close>

definition task_agent :: "'w aenv \<Rightarrow> 'w Agent \<Rightarrow> 'w ast agent" where
  "task_agent E a d sch st = the (ag_Execute E a \<lparr>op_schema = sch, op_stream = False\<rparr> d st)"

section \<open>A scripted agent\<close>

text \<open>
  For the witnesses: the world is the list of answers the model has yet to give; the agent has one tool
  that requires a review, and approves it.
\<close>

definition script_env :: "string list aenv" where
  "script_env = \<lparr>ae_select = (\<lambda>w. (w, SelDefault)), ae_paused = (\<lambda>w. (w, None)), ae_now = (\<lambda>w. 0), ae_sleep = (\<lambda>d w. (w, None)),
     ae_parse = (\<lambda>s. if s = ''call'' then Some (''rm'', []) else None), ae_review = (\<lambda>r n i w. (w, False)),
     ae_json = (\<lambda>v. Inr ''{}''), ae_role_playing = (\<lambda>r b g. r), ae_tools = (\<lambda>d n. n), ae_date = [], ae_training = [],
     ae_observation = ''Observation:'', ae_tool_error = (\<lambda>e. e), ae_plan_prompt = (\<lambda>d. d), ae_refine_prompt = (\<lambda>d. d),
     ae_llm_key = (\<lambda>opt ms. []), ae_input_text = (\<lambda>i. []), ae_entities = (\<lambda>s. None)\<rparr>"

definition script_model :: "string list model" where
  "script_model = \<lparr>md_Generate = (\<lambda>ms w. case w of [] \<Rightarrow> ([], Inr ''no'') | x # xs \<Rightarrow> (xs, Inr x)),
     md_Stream = (\<lambda>ms w. (w, Inr [])), md_Structured = (\<lambda>ms s w. (w, Inr VNil)), md_Embed = None\<rparr>"

definition script_agent :: "bool \<Rightarrow> string list Agent" where
  "script_agent critique = \<lparr>ag_Role = ''r'', ag_Goal = ''g'', ag_Backstory = ''b'', ag_LLM = Some script_model, ag_FunctionCallingLLM = None,
     ag_Tools = [\<lparr>tl_Name = ''rm'', tl_Description = ''d'', tl_RequiresReview = True, tl_Execute = (\<lambda>i w. (w, Inr ''gone''))\<rparr>],
     ag_MaxIterations = 4, ag_MaxRetryLimit = 1, ag_MaxRPM = 0, ag_Memory = None, ag_EntityMemory = None,
     ag_Guardrails = [NewValidatorGuardrail ''v'' NoEmptyString], ag_SelfHealing = False, ag_Cache = None,
     ag_StepReview = Some (\<lambda>n i w. (w, True)), ag_StepStream = False, ag_SelfCritique = critique, ag_KnowledgeBases = [],
     ag_FewShotExamples = [], ag_SystemTemplate = ''s'', ag_PromptTemplate = [], ag_Reasoning = False, ag_MaxReasoningAttempts = 0,
     ag_KnowledgeSources = [], ag_UseSystemPrompt = True, ag_SandboxProvider = None, ag_BeforeLLMCall = None\<rparr>"

definition script_start :: "string list \<Rightarrow> string list ast" where
  "script_start w = \<lparr>as_w = w, as_log = [], as_prompt_tokens = 0, as_completion_tokens = 0, as_lastExecution = 0\<rparr>"

definition text_opts :: opts where
  "text_opts = \<lparr>op_schema = None, op_stream = False\<rparr>"

definition stubborn_model :: "string list model" where
  "stubborn_model = script_model\<lparr>md_Generate := \<lambda>ms w. (w, Inr ''no'')\<rparr>"

definition script_task :: "string list ast Task" where
  "script_task = \<lparr>tk_Name = ''t'', tk_Description = ''go'', tk_ExpectedOutput = [], tk_Agent = Some (task_agent script_env (script_agent False)),
     tk_Markdown = False, tk_OutputFile = [], tk_OutputSchema = [], tk_OutputJSON = None, tk_MaxRetries = 0, tk_GuardrailMaxRetries = 0,
     tk_HumanInput = False, tk_Guardrails = [], tk_HasCallback = False, tk_Processed = False, tk_Failed = False, tk_Error = None,
     tk_Output = None, tk_Context = []\<rparr>"

definition plain_tenv :: tenv where
  "plain_tenv = \<lparr>te_expected = id, te_context = (\<lambda>a b. a), te_show = (\<lambda>v. []), te_json = (\<lambda>v. Inr [])\<rparr>"

section \<open>Answers\<close>

lemma final_answer_text: "final_answer a m inp ans st = (st', Finished (Inr v)) \<Longrightarrow> v = VString ans"
  by (auto simp: final_answer_def Let_def split: prod.splits sum.splits if_splits)

lemma structured_answer_guarded:
  "structured_answer E a m sch msgs st = (st', Inr v) \<Longrightarrow>
     ag_Guardrails a = [] \<or> (\<exists>js. ae_json E v = Inr js \<and> RunAll (ag_Guardrails a) js = None)"
  by (auto simp: structured_answer_def split: prod.splits sum.splits option.splits if_splits)

lemma react_guarded:
  "react n E a m o1 inp enr i k msgs st = (st', Finished (Inr v)) \<Longrightarrow>
     (case op_schema o1 of
        None \<Rightarrow> \<exists>s. v = VString s \<and> RunAll (ag_Guardrails a) s = None
      | Some _ \<Rightarrow> ag_Guardrails a = [] \<or> (\<exists>js. ae_json E v = Inr js \<and> RunAll (ag_Guardrails a) js = None))"
proof (induction n arbitrary: i k msgs st)
  case (Suc n)
  obtain st1 x where ts: "turn_start E a msgs st = (st1, x)" by fastforce
  with Suc.prems obtain msgs1 where x: "x = Inr msgs1" by (cases x) auto
  show ?case
  proof (cases "op_schema o1")
    case (Some sch)
    with Suc.prems ts x show ?thesis by (auto split: prod.splits dest: structured_answer_guarded)
  next
    case None
    obtain st2 y where gt: "generate_text E a m o1 i msgs1 st1 = (st2, y)" by fastforce
    with Suc.prems ts x None obtain ans where y: "y = Inr ans" by (cases y) auto
    show ?thesis
    proof (cases "tool_request E ans")
      case (Some req)
      with Suc.prems ts x None gt y show ?thesis
        by (auto simp: Let_def split: prod.splits dest: Suc.IH)
    next
      case None2: None
      show ?thesis
      proof (cases "RunAll (ag_Guardrails a) ans")
        case None
        with Suc.prems ts x \<open>op_schema o1 = None\<close> gt y None2 show ?thesis
          by (auto simp: Let_def dest: final_answer_text)
      next
        case (Some ge)
        with Suc.prems ts x None gt y None2 show ?thesis
          by (auto simp: Let_def split: if_splits dest: Suc.IH)
      qed
    qed
  qed
qed simp

lemma attempt_guarded:
  assumes "attempt E a o1 inp st = (st', Finished (Inr v))" and "ag_LLM a = Some m"
  shows "case op_schema o1 of
        None \<Rightarrow> \<exists>s. v = VString s \<and> RunAll (ag_Guardrails a) s = None
      | Some _ \<Rightarrow> ag_Guardrails a = [] \<or> (\<exists>js. ae_json E v = Inr js \<and> RunAll (ag_Guardrails a) js = None)"
  using assms by (auto simp: attempt_def Let_def split: prod.splits intro: react_guarded)

section \<open>Bounds\<close>

lemma llm_calls_cong: "as_log st = as_log st' \<Longrightarrow> llm_calls st = llm_calls st'"
  by (simp add: llm_calls_def)

lemma llm_calls_step: "as_log st' = as_log st \<or> as_log st' = as_log st @ [e] \<Longrightarrow> llm_calls st' \<le> Suc (llm_calls st)"
  by (auto simp: llm_calls_def split: aev.splits)

lemma llm_calls_quiet:
  "as_log st' = as_log st @ l \<Longrightarrow> \<forall>e \<in> set l. \<forall>ms. e \<noteq> LLMCall ms \<Longrightarrow> llm_calls st' = llm_calls st"
  by (auto simp: llm_calls_def filter_empty_conv split: aev.splits)

lemma tool_turn_calls: "tool_turn E a name inp k st = (st', obs, k1) \<Longrightarrow> llm_calls st' = llm_calls st"
  by (auto simp: tool_turn_def split: option.splits prod.splits sum.splits if_splits
      dest!: call_tool_log ask_review_log simp: llm_calls_def)

lemma final_answer_calls:
  assumes "final_answer a m inp ans st = (st', r)" "\<not> ag_SelfCritique a"
  shows "llm_calls st' = llm_calls st \<and> (\<exists>v. r = Finished v)"
  using assms saveMemory_log [of a inp ans st]
  by (auto simp: final_answer_def Let_def split: if_splits intro!: llm_calls_quiet)

lemma react_calls:
  "react n E a m o1 inp enr i k msgs st = (st', r) \<Longrightarrow> \<not> ag_SelfCritique a \<Longrightarrow>
     llm_calls st' \<le> llm_calls st + n \<and> (\<exists>v. r = Finished v)"
proof (induction n arbitrary: i k msgs st)
  case (Suc n)
  obtain st1 x where ts: "turn_start E a msgs st = (st1, x)" by fastforce
  have c1: "llm_calls st1 = llm_calls st" by (rule llm_calls_cong [OF turn_start_log [OF ts]])
  show ?case
  proof (cases x)
    case (Inl e)
    with Suc.prems ts c1 show ?thesis by auto
  next
    case (Inr msgs1)
    note x = this
    show ?thesis
    proof (cases "op_schema o1")
      case (Some sch)
      with Suc.prems ts x c1 show ?thesis
        using llm_calls_step [OF disjI2 [OF structured_answer_log]] by (fastforce split: prod.splits)
    next
      case None
      obtain st2 y where gt: "generate_text E a m o1 i msgs1 st1 = (st2, y)" by fastforce
      have c2: "llm_calls st2 \<le> Suc (llm_calls st)" using llm_calls_step [OF generate_text_log [OF gt]] c1 by simp
      show ?thesis
      proof (cases y)
        case (Inl e)
        with Suc.prems ts x None gt c2 show ?thesis by auto
      next
        case (Inr ans)
        let ?st3 = "count_tokens enr ans st2"
        have c3: "llm_calls ?st3 = llm_calls st2" by (rule llm_calls_cong) simp
        have "llm_calls st' \<le> llm_calls ?st3 + n \<and> (\<exists>v. r = Finished v)"
        proof (cases "tool_request E ans")
          case (Some req)
          obtain name ti where req: "req = (name, ti)" by fastforce
          obtain st4 obs k1 where tt: "tool_turn E a name ti k ?st3 = (st4, obs, k1)" using prod_cases3 by blast
          show ?thesis
            using Suc.prems ts x None gt Inr Some req tt tool_turn_calls [OF tt]
            by (auto dest!: Suc.IH simp: Let_def)
        next
          case None2: None
          then show ?thesis
            using Suc.prems ts x None gt Inr
            by (auto simp: Let_def split: option.splits if_splits dest!: Suc.IH final_answer_calls)
        qed
        with c2 c3 show ?thesis by auto
      qed
    qed
  qed
qed auto

lemma reasoning_calls: "reasoning_loop n E m d fin cur st = (st', r) \<Longrightarrow> llm_calls st' \<le> llm_calls st + n"
proof (induction n arbitrary: fin cur st)
  case (Suc n)
  let ?cur = "cur @ [(''user'', ae_plan_prompt E d)]"
  obtain st1 x where ow: "on_world (md_Generate m ?cur) (logged (LLMCall ?cur) st) = (st1, x)" by fastforce
  have c1: "llm_calls st1 \<le> Suc (llm_calls st)" using on_world_log [OF ow] by (intro llm_calls_step) simp
  then show ?case using Suc.prems ow by (auto simp: Let_def split: sum.splits if_splits dest!: Suc.IH)
qed simp

lemma attempt_calls:
  assumes "attempt E a o1 inp st = (st', r)" "\<not> ag_SelfCritique a"
  shows "llm_calls st' \<le> llm_calls st + max_reasoning a + maxLoops a \<and> (\<exists>v. r = Finished v)"
proof (cases "ag_LLM a")
  case None
  with assms show ?thesis by (auto simp: attempt_def)
next
  case (Some m)
  obtain st1 enr where r1: "(if ag_Memory a \<noteq> None then on_world (recallMemory a inp) st else (st, inp)) = (st1, enr)" by fastforce
  have c1: "llm_calls st1 = llm_calls st" using r1 by (intro llm_calls_cong) (auto split: if_splits dest: on_world_log)
  let ?msgs = "first_messages E a enr"
  obtain st2 plan where r2: "(if ag_Reasoning a
      then (case runReasoningLoop E a m ?msgs st1 of (s, Inr p) \<Rightarrow> (s, [(''assistant'', ''Plan: '' @ p)]) | (s, Inl _) \<Rightarrow> (s, []))
      else (st1, [])) = (st2, plan)" by fastforce
  have c2: "llm_calls st2 \<le> llm_calls st1 + max_reasoning a"
    using r2 by (auto simp: runReasoningLoop_def max_reasoning_def split: if_splits prod.splits sum.splits dest!: reasoning_calls)
  have "react (maxLoops a) E a m o1 inp enr 0 (maxRetries a) (?msgs @ plan) st2 = (st', r)"
    using assms(1) Some r1 r2 by (simp add: attempt_def)
  from react_calls [OF this assms(2)] c1 c2 show ?thesis by auto
qed

lemma Execute_calls:
  assumes "\<not> ag_SelfCritique a"
  shows "\<exists>st' r. ag_Execute E a o1 inp st = Some (st', r) \<and> llm_calls st' \<le> llm_calls st + max_reasoning a + maxLoops a"
proof -
  obtain st1 x where rw: "rate_wait E a st = (st1, x)" by fastforce
  have c1: "llm_calls st1 = llm_calls st" by (rule llm_calls_cong [OF rate_wait_log [OF rw]])
  obtain st2 y where at: "attempt E a o1 inp st1 = (st2, y)" by fastforce
  obtain v where y: "y = Finished v" and c2: "llm_calls st2 \<le> llm_calls st1 + max_reasoning a + maxLoops a"
    using attempt_calls [OF at assms] by auto
  have "llm_calls (stamp E a st2) = llm_calls st2" by (rule llm_calls_cong) simp
  then show ?thesis using rw at y c1 c2 by (cases x) (auto simp: ag_Execute.simps)
qed

section \<open>Runs that agree\<close>

lemma ag_Execute_mono:
  assumes "ag_Execute E a o1 inp st = Some (st', r)"
    and "\<And>inp st. attempt E b o1 inp st = attempt E a o1 inp st" and "ag_MaxRPM b = ag_MaxRPM a"
  shows "ag_Execute E b o1 inp st = Some (st', r)"
proof -
  have rw: "rate_wait E b = rate_wait E a" "stamp E b = stamp E a"
    using assms(3) by (auto simp: rate_wait_def stamp_def minInterval_def fun_eq_iff Let_def)
  show ?thesis
    by (rule ag_Execute_run_induct [OF assms(1), where P = "\<lambda>inp st st' r. ag_Execute E b o1 inp st = Some (st', r)"])
      (subst ag_Execute.simps, simp add: rw assms(2))+
qed

lemma ag_Execute_cong:
  assumes "\<And>inp st. attempt E b o1 inp st = attempt E a o1 inp st" and "ag_MaxRPM b = ag_MaxRPM a"
  shows "ag_Execute E b o1 inp st = ag_Execute E a o1 inp st"
proof (cases "ag_Execute E a o1 inp st")
  case (Some y)
  then show ?thesis using ag_Execute_mono [OF _ assms] by (cases y) auto
next
  case None
  show ?thesis
  proof (rule ccontr)
    assume "\<not> ?thesis"
    with None obtain st' r where "ag_Execute E b o1 inp st = Some (st', r)" by fastforce
    then have "ag_Execute E a o1 inp st = Some (st', r)" by (rule ag_Execute_mono) (simp_all add: assms)
    with None show False by simp
  qed
qed

lemma no_memory_parts:
  fixes a :: "'w Agent" and ks en
  defines "b \<equiv> a\<lparr>ag_KnowledgeSources := ks, ag_EntityMemory := en\<rparr>"
  shows "turn_start E b msgs st = turn_start E a msgs st"
    and "structured_answer E b m sch msgs st = structured_answer E a m sch msgs st"
    and "generate_text E b m o1 i msgs st = generate_text E a m o1 i msgs st"
    and "tool_turn E b name ti k st = tool_turn E a name ti k st"
    and "ag_Memory a = None \<Longrightarrow> final_answer b m inp ans st = final_answer a m inp ans st"
    and "first_messages E b enr = first_messages E a enr"
    and "runReasoningLoop E b m msgs st = runReasoningLoop E a m msgs st"
proof -
  have f: "ag_Role b = ag_Role a" "ag_Goal b = ag_Goal a" "ag_Backstory b = ag_Backstory a" "ag_Tools b = ag_Tools a"
    "ag_FunctionCallingLLM b = ag_FunctionCallingLLM a" "ag_Guardrails b = ag_Guardrails a" "ag_SelfHealing b = ag_SelfHealing a"
    "ag_Cache b = ag_Cache a" "ag_StepReview b = ag_StepReview a" "ag_StepStream b = ag_StepStream a"
    "ag_SelfCritique b = ag_SelfCritique a" "ag_Memory b = ag_Memory a" "ag_SandboxProvider b = ag_SandboxProvider a"
    "ag_BeforeLLMCall b = ag_BeforeLLMCall a" "ag_MaxReasoningAttempts b = ag_MaxReasoningAttempts a"
    "ag_SystemTemplate b = ag_SystemTemplate a" "ag_PromptTemplate b = ag_PromptTemplate a" "ag_UseSystemPrompt b = ag_UseSystemPrompt a"
    "ag_KnowledgeBases b = ag_KnowledgeBases a" "ag_FewShotExamples b = ag_FewShotExamples a"
    by (simp_all add: b_def)
  show "turn_start E b msgs st = turn_start E a msgs st" unfolding turn_start_def f by (rule refl)
  show "structured_answer E b m sch msgs st = structured_answer E a m sch msgs st" unfolding structured_answer_def f by (rule refl)
  show "generate_text E b m o1 i msgs st = generate_text E a m o1 i msgs st" unfolding generate_text_def f by (rule refl)
  show "tool_turn E b name ti k st = tool_turn E a name ti k st"
    unfolding tool_turn_def call_tool_def exec_tool_def ask_review_def tool_descriptions_def f by (rule refl)
  show "ag_Memory a = None \<Longrightarrow> final_answer b m inp ans st = final_answer a m inp ans st" unfolding final_answer_def f by simp
  show "first_messages E b enr = first_messages E a enr"
    unfolding first_messages_def system_prompt_def tool_descriptions_def f by (rule refl)
  show "runReasoningLoop E b m msgs st = runReasoningLoop E a m msgs st" unfolding runReasoningLoop_def f by (rule refl)
qed

lemma react_no_memory:
  assumes "ag_Memory a = None"
  shows "react n E (a\<lparr>ag_KnowledgeSources := ks, ag_EntityMemory := en\<rparr>) m o1 inp enr i k msgs st = react n E a m o1 inp enr i k msgs st"
proof (induction n arbitrary: i k msgs st)
  case (Suc n)
  let ?b = "a\<lparr>ag_KnowledgeSources := ks, ag_EntityMemory := en\<rparr>"
  have f: "ag_Guardrails ?b = ag_Guardrails a" "ag_Role ?b = ag_Role a" by simp_all
  show ?case unfolding react.simps no_memory_parts(1-4) no_memory_parts(5) [OF assms] f Suc.IH by (rule refl)
qed simp

lemma attempt_no_memory:
  assumes "ag_Memory a = None"
  shows "attempt E (a\<lparr>ag_KnowledgeSources := ks, ag_EntityMemory := en\<rparr>) o1 inp st = attempt E a o1 inp st"
proof -
  let ?b = "a\<lparr>ag_KnowledgeSources := ks, ag_EntityMemory := en\<rparr>"
  have f: "ag_LLM ?b = ag_LLM a" "ag_Memory ?b = None" "ag_Role ?b = ag_Role a" "ag_Reasoning ?b = ag_Reasoning a"
    "maxLoops ?b = maxLoops a" "maxRetries ?b = maxRetries a"
    using assms by (simp_all add: maxLoops_def maxRetries_def)
  show ?thesis unfolding attempt_def f assms no_memory_parts(6,7) react_no_memory [OF assms] by simp
qed

section \<open>The critique that is never content\<close>

lemma stubborn_react:
  assumes "ag_SelfCritique a" "ag_Cache a = None" "ag_FunctionCallingLLM a = None" "\<not> ag_StepStream a" "\<not> op_stream o1" "op_schema o1 = None"
    and gen: "\<And>ms w. \<exists>w'. md_Generate m ms w = (w', Inr c)"
    and "\<not> str_contains (upper c) ''APPROVED''" "tool_request E c = None" "RunAll (ag_Guardrails a) c = None"
    and sel: "\<And>w. \<exists>w'. ae_select E w = (w', SelDefault)" and pau: "\<And>w. \<exists>w'. ae_paused E w = (w', None)"
  shows "\<exists>st'. react (Suc n) E a m o1 inp enr i k msgs st = (st', Recritique c)"
proof -
  have ow: "\<exists>s'. on_world (md_Generate m ms) s = (s', Inr c)" for ms s
    using gen [of ms "as_w s"] by (auto simp: on_world_def)
  obtain s1 where s1: "on_world (ae_select E) st = (s1, SelDefault)" using sel [of "as_w st"] by (auto simp: on_world_def)
  obtain s2 where s2: "on_world (ae_paused E) s1 = (s2, None)" using pau [of "as_w s1"] by (auto simp: on_world_def)
  obtain msgs1 where ts: "turn_start E a msgs st = (s2, Inr msgs1)" by (simp add: turn_start_def s1 s2 Let_def)
  obtain s3 where gt: "generate_text E a m o1 i msgs1 s2 = (s3, Inr c)"
    using ow [of msgs1 "logged (LLMCall msgs1) s2"] assms(2-5) by (auto simp: generate_text_def)
  have "\<exists>s'. final_answer a m inp c s = (s', Recritique c)" for s
  proof -
    define s0 where "s0 = (if ag_Memory a \<noteq> None then saveMemory a inp c s else s)"
    obtain s' where "on_world (md_Generate m (critique_messages c)) (logged (CritiqueCall c) s0) = (s', Inr c)" using ow by blast
    then show ?thesis unfolding final_answer_def s0_def [symmetric] Let_def using assms(1,8) by simp
  qed
  then show ?thesis by (simp add: ts gt assms Let_def)
qed

lemma stubborn_attempt:
  assumes "ag_LLM a = Some m"
    and "\<And>n inp enr i k msgs st. \<exists>st'. react (Suc n) E a m o1 inp enr i k msgs st = (st', Recritique c)"
  shows "\<exists>st'. attempt E a o1 inp st = (st', Recritique c)"
proof -
  have "maxLoops a > 0" by (simp add: maxLoops_def)
  then obtain n where "maxLoops a = Suc n" by (auto simp: gr0_conv_Suc)
  then show ?thesis using assms by (simp add: attempt_def Let_def split: prod.splits)
qed

text \<open>Lifting a relation on the agents' world through the retries of a task.\<close>

lemma guard_tries_bound:
  assumes "\<And>d s w w' r. ag d s w = (w', r) \<Longrightarrow> (f w' :: nat) \<le> f w + b"
  shows "guard_tries n E ag t d r w = (w', r') \<Longrightarrow> f w' \<le> f w + (n - 1) * b"
proof (induction n arbitrary: r w)
  case (Suc n)
  show ?case
  proof (cases "n = 0 \<or> (\<nexists>s ge. canonical E r = Inr s \<and> RunAll (tk_Guardrails t) s = Some ge)")
    case True
    then show ?thesis using Suc.prems by (auto split: sum.splits option.splits)
  next
    case False
    then obtain s ge n' where s: "canonical E r = Inr s" "RunAll (tk_Guardrails t) s = Some ge" "n = Suc n'"
      by (auto simp: gr0_conv_Suc)
    obtain w1 x where ag: "ag d (schema_option t) w = (w1, x)" by fastforce
    then have "f w' \<le> f w1 + n' * b" using Suc s by (cases x) auto
    with assms [OF ag] s(3) show ?thesis by simp
  qed
qed simp

lemma schema_tries_bound:
  assumes "\<And>d s w w' r. ag d s w = (w', r) \<Longrightarrow> (f w' :: nat) \<le> f w + b"
  shows "schema_tries n ag t d w = (w', r') \<Longrightarrow> f w' \<le> f w + n * b"
proof (induction n arbitrary: w)
  case (Suc n)
  obtain w1 x where tr: "try_once ag t d w = (w1, x)" by fastforce
  have "f w1 \<le> f w + b"
    using tr assms by (fastforce simp: try_once_def split: prod.splits sum.splits option.splits gvalue.splits)
  then show ?case using Suc.prems tr Suc.IH [of w1] by (cases x) (fastforce split: if_splits)+
qed simp

lemma finish_task_world: "finish_task post r t w = Some (w', t', l, x) \<Longrightarrow> w' = w"
  by (auto simp: finish_task_def Let_def split: option.splits)

lemma task_bound:
  assumes ex: "Execute E paused snaps pre post t w = Some (w', t', l, r)" and ag: "tk_Agent t = Some ag"
    and b: "\<And>d s w w' r. ag d s w = (w', r) \<Longrightarrow> (f w' :: nat) \<le> f w + b"
  shows "f w' \<le> f w + (at_least_one (tk_MaxRetries t) + at_least_one (tk_GuardrailMaxRetries t) - 1) * b"
proof (cases paused)
  case (Some e)
  with ex ag show ?thesis by (simp add: Execute_def)
next
  case None
  let ?n = "at_least_one (tk_MaxRetries t)" and ?k = "at_least_one (tk_GuardrailMaxRetries t)"
  let ?d = "base_description E t snaps pre"
  have eq: "(?n + ?k - 1) * b = ?n * b + (?k - 1) * b"
    using at_least_one_pos [of "tk_GuardrailMaxRetries t"] by (auto simp: add_mult_distrib)
  obtain w1 x where s: "schema_tries ?n ag t ?d w = (w1, x)" by fastforce
  have f1: "f w1 \<le> f w + ?n * b" by (rule schema_tries_bound [OF b s])
  show ?thesis
  proof (cases x)
    case (Inl e)
    with ex ag None s f1 eq show ?thesis by (simp add: Execute_def Let_def)
  next
    case (Inr v)
    obtain w2 y where g: "(if length (tk_Guardrails t) > 0 then guard_tries ?k E ag t ?d v w1 else (w1, Inr v)) = (w2, y)" by fastforce
    have "f w2 \<le> f w1 + (?k - 1) * b" using g guard_tries_bound [OF b] by (auto split: if_splits)
    moreover have "w' = w2"
      using ex ag None s Inr g by (cases y) (auto simp: Execute_def Let_def dest: finish_task_world)
    ultimately show ?thesis using f1 eq by simp
  qed
qed

lemma script_run:
  "case ag_Execute script_env (script_agent False) text_opts ''go'' (script_start [''call'', ''done'']) of
     Some (st', r) \<Rightarrow> r = Inr (VString ''done'') \<and> as_log st' ! 1 = ReviewAsked ''rm'' [] True \<and> as_log st' ! 2 = ToolRun ''rm'' []
   | None \<Rightarrow> False"
  by (subst ag_Execute.simps) code_simp

section \<open>Properties\<close>

text \<open>
  C4: Human review. Whenever an execution of an agent returns, in its trace every run of a tool that
  requires a review comes immediately after an approval of that very call (same tool, same input),
  and every tool that was run is one the agent is equipped with; whatever the model asks for, and
  across all restarts after a self-critique.
\<close>

theorem tools_run_only_after_approval:
  assumes "ag_Execute E a o1 inp st = Some (st', r)" and "as_log st = []"
  shows "reviewed_from (needs_review a) None (as_log st') \<and> equipped_only a (as_log st')"
  using rv.Execute_ext [OF assms(1)] eq.Execute_ext [OF assms(1)] assms(2) by (simp add: log_ext_def)


text \<open>
  C28: Without self-critique every execution returns, after at most \<open>MaxIterations\<close> (15 when unset) calls of
  the model in the loop and at most \<open>MaxReasoningAttempts\<close> (3 when unset) in the reasoning phase.
\<close>

theorem execute_returns_within_budget:
  assumes "\<not> ag_SelfCritique a"
  shows "\<exists>st' r. ag_Execute E a o1 inp st = Some (st', r) \<and> llm_calls st' \<le> llm_calls st + max_reasoning a + maxLoops a"
  by (rule Execute_calls [OF assms])

text \<open>
  With self-critique nothing bounds the restarts. If the model keeps answering a text that is no
  approval, an agent without rate limit never returns, whatever its iteration limit: every
  restart begins with a fresh budget.
\<close>

theorem self_critique_may_never_return:
  assumes "ag_LLM a = Some m" "ag_SelfCritique a" "ag_MaxRPM a \<le> 0" "ag_Cache a = None" "ag_FunctionCallingLLM a = None"
    and "\<not> ag_StepStream a" "\<not> op_stream o1" "op_schema o1 = None"
    and "\<And>ms w. \<exists>w'. md_Generate m ms w = (w', Inr c)"
    and "\<not> str_contains (upper c) ''APPROVED''" "tool_request E c = None" "RunAll (ag_Guardrails a) c = None"
    and "\<And>w. \<exists>w'. ae_select E w = (w', SelDefault)" and "\<And>w. \<exists>w'. ae_paused E w = (w', None)"
  shows "ag_Execute E a o1 inp st = None"
proof (rule ccontr)
  assume "ag_Execute E a o1 inp st \<noteq> None"
  then obtain st' r where run: "ag_Execute E a o1 inp st = Some (st', r)" by auto
  have at: "\<exists>st'. attempt E a o1 inp st = (st', Recritique c)" for inp st
    using assms by (intro stubborn_attempt stubborn_react) auto
  have nf: "attempt E a o1 inp st \<noteq> (s, Finished q)" for inp st s q using at [of inp st] by auto
  have rw: "rate_wait E a st = (st, None)" for st using assms(3) by (simp add: rate_wait_def)
  have False
    by (rule ag_Execute_run_induct [OF run, where P = "\<lambda>_ _ _ _. False"]) (use nf rw in auto)+
  then show False .
qed

text \<open>
  Knowledge sources and the entity memory are consulted only by agents that also have a vector
  memory. Without one, an agent behaves on every input as if it had neither.
\<close>

theorem knowledge_needs_memory:
  assumes "ag_Memory a = None"
  shows "ag_Execute E (a\<lparr>ag_KnowledgeSources := ks, ag_EntityMemory := en\<rparr>) o1 inp st = ag_Execute E a o1 inp st"
  by (rule ag_Execute_cong) (simp_all add: attempt_no_memory assms)

text \<open>
  C6: Agents inside tasks. A task whose agent has no self-critique, run with its schema retries and its
  guardrail retries, costs at most \<open>MaxRetries + GuardrailMaxRetries - 1\<close> executions' budgets of model calls.
\<close>

theorem task_llm_budget:
  assumes "Execute TE paused snaps pre post t st = Some (st', t', l, r)"
    and "tk_Agent t = Some (task_agent E a)" and "\<not> ag_SelfCritique a"
  shows "llm_calls st' \<le> llm_calls st +
    (at_least_one (tk_MaxRetries t) + at_least_one (tk_GuardrailMaxRetries t) - 1) * (max_reasoning a + maxLoops a)"
proof (rule task_bound [OF assms(1,2)])
  show "task_agent E a d s w = (w', q) \<Longrightarrow> llm_calls w' \<le> llm_calls w + (max_reasoning a + maxLoops a)" for d s w w' q
    using Execute_calls [OF assms(3), of E "\<lparr>op_schema = s, op_stream = False\<rparr>" d w] by (auto simp: task_agent_def)
qed

theorem tools_run_only_after_approval_witness:
  "\<exists>st' r. ag_Execute script_env (script_agent False) text_opts ''go'' (script_start [''call'', ''done'']) = Some (st', r) \<and>
     as_log st' ! 2 = ToolRun ''rm'' [] \<and>
     reviewed_from (needs_review (script_agent False)) None (as_log st') \<and> equipped_only (script_agent False) (as_log st')"
proof -
  obtain st' r where run: "ag_Execute script_env (script_agent False) text_opts ''go'' (script_start [''call'', ''done'']) = Some (st', r)"
    and "as_log st' ! 2 = ToolRun ''rm'' []"
    using script_run by (auto split: option.splits)
  moreover have "as_log (script_start [''call'', ''done'']) = []" by (simp add: script_start_def)
  ultimately show ?thesis using tools_run_only_after_approval [OF run] by blast
qed


theorem execute_returns_within_budget_witness:
  "\<exists>st' r. ag_Execute script_env (script_agent False) text_opts ''go'' (script_start []) = Some (st', r) \<and> llm_calls st' \<le> 4"
  using execute_returns_within_budget [of "script_agent False" script_env text_opts "''go''" "script_start []"]
  by (auto simp: script_agent_def llm_calls_def script_start_def max_reasoning_def maxLoops_def)

theorem self_critique_may_never_return_witness:
  "ag_Execute script_env ((script_agent True)\<lparr>ag_LLM := Some stubborn_model\<rparr>) text_opts ''go'' (script_start []) = None"
  by (rule self_critique_may_never_return [where m = stubborn_model and c = "''no''"])
    (simp_all add: script_agent_def stubborn_model_def text_opts_def script_env_def tool_request_def NewValidatorGuardrail_def
      NoEmptyString_def trim_space_def is_space_def upper_def less_eq_char_def sublist_code)

theorem knowledge_needs_memory_witness:
  "ag_Execute script_env ((script_agent False)\<lparr>ag_KnowledgeSources := [\<lambda>q w. (w, Inr ''fact'')], ag_EntityMemory := None\<rparr>) text_opts ''go''
     (script_start []) = ag_Execute script_env (script_agent False) text_opts ''go'' (script_start [])"
  by (rule knowledge_needs_memory) (simp add: script_agent_def)

theorem task_llm_budget_witness:
  "\<exists>st' t' l r. Execute plain_tenv None [] None [] script_task (script_start [''call'', ''done'']) = Some (st', t', l, r) \<and> llm_calls st' \<le> 4"
proof -
  have "Execute plain_tenv None [] None [] script_task (script_start [''call'', ''done'']) \<noteq> None"
    by (auto simp: Execute_def script_task_def finish_task_def Let_def split: prod.splits sum.splits)
  then obtain st' t' l r where ex: "Execute plain_tenv None [] None [] script_task (script_start [''call'', ''done'']) = Some (st', t', l, r)"
    by auto
  have "tk_Agent script_task = Some (task_agent script_env (script_agent False))" by (simp add: script_task_def)
  from task_llm_budget [OF ex this] have "llm_calls st' \<le> 4"
    by (simp add: script_agent_def script_task_def script_start_def llm_calls_def max_reasoning_def maxLoops_def at_least_one_def)
  with ex show ?thesis by blast
qed

end
