(* ===== verification/Pause_Control.thy ===== *)
theory Pause_Control
  imports Go_Prelude
begin

text \<open>
  The pause switch of \<^verbatim>\<open>pkg/telemetry/events.go\<close>: \<^verbatim>\<open>ExecutionController\<close> with \<^verbatim>\<open>Pause\<close>, \<^verbatim>\<open>Resume\<close> and \<^verbatim>\<open>WaitIfPaused\<close>, which every
  crew, task and agent loop passes through.

  \<^verbatim>\<open>WaitIfPaused\<close> holds the mutex, and while the switch is on it starts a goroutine that calls \<^verbatim>\<open>cond.Wait\<close> on
  that mutex and closes a channel afterwards; the caller selects between that channel and its
  context. A Go mutex belongs to no goroutine: \<^verbatim>\<open>Wait\<close> unlocks what the caller locked, and unlocking an
  unlocked mutex ends the process. The model has any number of callers (each calls once), a program
  counter for each caller and for its waiter goroutine, and one atomic step per access to the mutex,
  the condition variable or the channel. \<open>Pause\<close> and \<open>Resume\<close> do all their work under the lock and are one step.
\<close>

section \<open>State and steps\<close>

datatype caller = CIdle | CLock | CCheck | CSelect | CLeave "goerr option" | CReturned "goerr option"

datatype waiter = WNone | WSpawned | WParked | WWoken | WClosing | WClosed

record ExecutionController =
  xc_locked :: bool
  xc_paused :: bool
  xc_caller :: "nat \<Rightarrow> caller"
  xc_waiter :: "nat \<Rightarrow> waiter"
  xc_cancelled :: "nat \<Rightarrow> bool"
  xc_crashed :: bool

datatype xact =
    APause | AResume | ACancel nat
  | ACall nat | ALock nat | ATest nat | ASelectDone nat | ASelectCtx nat | AUnlock nat
  | APark nat | ARelock nat | AClose nat

definition xc_init :: ExecutionController where
  "xc_init = \<lparr>xc_locked = False, xc_paused = False, xc_caller = (\<lambda>_. CIdle), xc_waiter = (\<lambda>_. WNone), xc_cancelled = (\<lambda>_. False),
     xc_crashed = False\<rparr>"

text \<open>\<^verbatim>\<open>mu.Unlock\<close>: fatal when the mutex is not locked.\<close>

definition xc_unlock :: "ExecutionController \<Rightarrow> ExecutionController" where
  "xc_unlock s = (if xc_locked s then s\<lparr>xc_locked := False\<rparr> else s\<lparr>xc_crashed := True\<rparr>)"

definition xc_broadcast :: "ExecutionController \<Rightarrow> ExecutionController" where
  "xc_broadcast s = s\<lparr>xc_waiter := (\<lambda>i. if xc_waiter s i = WParked then WWoken else xc_waiter s i)\<rparr>"

definition Pause :: "ExecutionController \<Rightarrow> ExecutionController option" where
  "Pause s = (if xc_locked s then None else Some (s\<lparr>xc_paused := True\<rparr>))"

definition Resume_exec :: "ExecutionController \<Rightarrow> ExecutionController option" where
  "Resume_exec s = (if xc_locked s then None else Some (xc_broadcast (s\<lparr>xc_paused := False\<rparr>)))"

definition xc_goto :: "nat \<Rightarrow> caller \<Rightarrow> ExecutionController \<Rightarrow> ExecutionController" where
  "xc_goto i p s = s\<lparr>xc_caller := (xc_caller s)(i := p)\<rparr>"

definition xc_wgoto :: "nat \<Rightarrow> waiter \<Rightarrow> ExecutionController \<Rightarrow> ExecutionController" where
  "xc_wgoto i p s = s\<lparr>xc_waiter := (xc_waiter s)(i := p)\<rparr>"

text \<open>The steps of one call of \<^verbatim>\<open>WaitIfPaused\<close> and of its waiter; \<open>None\<close> is a step that is not enabled.\<close>

fun WaitIfPaused :: "xact \<Rightarrow> ExecutionController \<Rightarrow> ExecutionController option" where
  "WaitIfPaused (ACall i) s = (if xc_caller s i = CIdle then Some (xc_goto i CLock s) else None)"
| "WaitIfPaused (ALock i) s =
     (if xc_caller s i = CLock \<and> \<not> xc_locked s then Some (xc_goto i CCheck (s\<lparr>xc_locked := True\<rparr>)) else None)"
| "WaitIfPaused (ATest i) s =
     (if xc_caller s i = CCheck
      then Some (if xc_paused s then xc_wgoto i WSpawned (xc_goto i CSelect s) else xc_goto i (CLeave None) s) else None)"
| "WaitIfPaused (APark i) s = (if xc_waiter s i = WSpawned then Some (xc_unlock (xc_wgoto i WParked s)) else None)"
| "WaitIfPaused (ARelock i) s =
     (if xc_waiter s i = WWoken \<and> \<not> xc_locked s then Some (xc_wgoto i WClosing (s\<lparr>xc_locked := True\<rparr>)) else None)"
| "WaitIfPaused (AClose i) s = (if xc_waiter s i = WClosing then Some (xc_wgoto i WClosed s) else None)"
| "WaitIfPaused (ASelectDone i) s =
     (if xc_caller s i = CSelect \<and> xc_waiter s i = WClosed then Some (xc_wgoto i WNone (xc_goto i CCheck s)) else None)"
| "WaitIfPaused (ASelectCtx i) s =
     (if xc_caller s i = CSelect \<and> xc_cancelled s i
      then Some (xc_goto i (CLeave (Some (ESentinel context_Canceled))) (xc_broadcast s)) else None)"
| "WaitIfPaused (AUnlock i) s =
     (case xc_caller s i of CLeave r \<Rightarrow> Some (xc_unlock (xc_goto i (CReturned r) s)) | _ \<Rightarrow> None)"
| "WaitIfPaused _ s = None"

definition xc_step :: "xact \<Rightarrow> ExecutionController \<Rightarrow> ExecutionController option" where
  "xc_step a s =
     (if xc_crashed s then None
      else case a of
             APause \<Rightarrow> Pause s
           | AResume \<Rightarrow> Resume_exec s
           | ACancel i \<Rightarrow> Some (s\<lparr>xc_cancelled := (xc_cancelled s)(i := True)\<rparr>)
           | _ \<Rightarrow> WaitIfPaused a s)"

fun xc_run :: "xact list \<Rightarrow> ExecutionController \<Rightarrow> ExecutionController option" where
  "xc_run [] s = Some s"
| "xc_run (a # as) s = (case xc_step a s of None \<Rightarrow> None | Some s1 \<Rightarrow> xc_run as s1)"

definition no_cancel :: "xact \<Rightarrow> bool" where
  "no_cancel a \<longleftrightarrow> (\<forall>i. a \<noteq> ACancel i)"

text \<open>The steps of running calls: not a new call, not the switch, not a cancellation.\<close>

fun internal :: "xact \<Rightarrow> bool" where
  "internal APause = False"
| "internal AResume = False"
| "internal (ACancel _) = False"
| "internal (ACall _) = False"
| "internal _ = True"

text \<open>States reachable when no context is cancelled.\<close>

inductive xc_reach :: "ExecutionController \<Rightarrow> bool" where
  reach_init: "xc_reach xc_init"
| reach_step: "xc_reach s \<Longrightarrow> no_cancel a \<Longrightarrow> xc_step a s = Some s' \<Longrightarrow> xc_reach s'"

inductive_cases xc_reach_stepE: "xc_reach s"

section \<open>Invariant\<close>

text \<open>
  Where a caller and its waiter may be, given whether the caller's side is in possession of the mutex and
  whether the switch is on.
\<close>

fun xc_ok :: "bool \<Rightarrow> bool \<Rightarrow> caller \<Rightarrow> waiter \<Rightarrow> bool" where
  "xc_ok own p CCheck w = (w = WNone \<and> own)"
| "xc_ok own p (CLeave r) w = (w = WNone \<and> own \<and> r = None \<and> \<not> p)"
| "xc_ok own p CSelect w = (case w of WNone \<Rightarrow> False | WSpawned \<Rightarrow> own \<and> p | WParked \<Rightarrow> \<not> own \<and> p | WWoken \<Rightarrow> \<not> own | _ \<Rightarrow> own)"
| "xc_ok own p (CReturned r) w = (w = WNone \<and> \<not> own \<and> r = None)"
| "xc_ok own p _ w = (w = WNone \<and> \<not> own)"

definition xc_inv :: "nat option \<Rightarrow> ExecutionController \<Rightarrow> bool" where
  "xc_inv ow s \<longleftrightarrow> \<not> xc_crashed s \<and> xc_locked s = (ow \<noteq> None) \<and> (\<forall>i. \<not> xc_cancelled s i)
     \<and> (\<forall>i. xc_ok (ow = Some i) (xc_paused s) (xc_caller s i) (xc_waiter s i))"

text \<open>The owner of the mutex after a step.\<close>

fun next_owner :: "xact \<Rightarrow> nat option \<Rightarrow> nat option" where
  "next_owner (ALock i) ow = Some i"
| "next_owner (ARelock i) ow = Some i"
| "next_owner (APark i) ow = None"
| "next_owner (AUnlock i) ow = None"
| "next_owner _ ow = ow"

fun actor :: "xact \<Rightarrow> nat" where
  "actor APause = 0"
| "actor AResume = 0"
| "actor (ACancel i) = i"
| "actor (ACall i) = i"
| "actor (ALock i) = i"
| "actor (ATest i) = i"
| "actor (ASelectDone i) = i"
| "actor (ASelectCtx i) = i"
| "actor (AUnlock i) = i"
| "actor (APark i) = i"
| "actor (ARelock i) = i"
| "actor (AClose i) = i"

text \<open>How far a call is from returning once the switch is off, and the sum over the first \<open>n\<close> callers.\<close>

fun rank :: "caller \<Rightarrow> waiter \<Rightarrow> nat" where
  "rank CLock w = 7"
| "rank CSelect w = (case w of WWoken \<Rightarrow> 6 | WClosing \<Rightarrow> 5 | WClosed \<Rightarrow> 4 | _ \<Rightarrow> 0)"
| "rank CCheck w = 3"
| "rank (CLeave r) w = 2"
| "rank _ w = 0"

definition remaining :: "nat \<Rightarrow> ExecutionController \<Rightarrow> nat" where
  "remaining n s = (\<Sum>i<n. rank (xc_caller s i) (xc_waiter s i))"

definition idle :: "ExecutionController \<Rightarrow> nat \<Rightarrow> bool" where
  "idle s i \<longleftrightarrow> xc_caller s i = CIdle \<or> (\<exists>r. xc_caller s i = CReturned r)"

lemmas xc_defs = xc_goto_def xc_wgoto_def xc_unlock_def xc_broadcast_def Pause_def Resume_exec_def

lemma xc_inv_init: "xc_inv None xc_init"
  by (simp add: xc_inv_def xc_init_def)

lemma xc_step_ok:
  assumes inv: "xc_inv ow s" and nc: "no_cancel a" and st: "xc_step a s = Some s'"
  shows "xc_ok (next_owner a ow = Some j) (xc_paused s') (xc_caller s' j) (xc_waiter s' j)"
proof -
  have j: "xc_ok (ow = Some j) (xc_paused s) (xc_caller s j) (xc_waiter s j)"
    and i: "xc_ok (ow = Some (actor a)) (xc_paused s) (xc_caller s (actor a)) (xc_waiter s (actor a))"
    and l: "xc_locked s = (ow \<noteq> None)" and c: "\<not> xc_crashed s" "\<not> xc_cancelled s (actor a)"
    using inv by (simp_all add: xc_inv_def)
  show ?thesis
  proof (cases a)
    case APause
    with st nc j i l c show ?thesis
      by (cases "xc_caller s j"; cases "xc_caller s (actor a)") (auto simp: xc_step_def xc_defs no_cancel_def split: if_splits waiter.splits)
  next
    case AResume
    with st nc j i l c show ?thesis
      by (cases "xc_caller s j"; cases "xc_caller s (actor a)") (auto simp: xc_step_def xc_defs no_cancel_def split: if_splits waiter.splits)
  next
    case (ACancel i)
    with st nc j i l c show ?thesis
      by (cases "xc_caller s j"; cases "xc_caller s (actor a)") (auto simp: xc_step_def xc_defs no_cancel_def split: if_splits waiter.splits)
  next
    case (ACall i)
    with st nc j i l c show ?thesis
      by (cases "xc_caller s j"; cases "xc_caller s (actor a)") (auto simp: xc_step_def xc_defs no_cancel_def split: if_splits waiter.splits)
  next
    case (ALock i)
    with st nc j i l c show ?thesis
      by (cases "xc_caller s j"; cases "xc_caller s (actor a)") (auto simp: xc_step_def xc_defs no_cancel_def split: if_splits waiter.splits)
  next
    case (ATest i)
    with st nc j i l c show ?thesis
      by (cases "xc_caller s j"; cases "xc_caller s (actor a)") (auto simp: xc_step_def xc_defs no_cancel_def split: if_splits waiter.splits)
  next
    case (ASelectDone i)
    with st nc j i l c show ?thesis
      by (cases "xc_caller s j"; cases "xc_caller s (actor a)") (auto simp: xc_step_def xc_defs no_cancel_def split: if_splits waiter.splits)
  next
    case (ASelectCtx i)
    with st nc j i l c show ?thesis
      by (cases "xc_caller s j"; cases "xc_caller s (actor a)") (auto simp: xc_step_def xc_defs no_cancel_def split: if_splits waiter.splits)
  next
    case (AUnlock i)
    with st nc j i l c show ?thesis
      by (cases "xc_caller s j"; cases "xc_caller s (actor a)") (auto simp: xc_step_def xc_defs no_cancel_def split: if_splits waiter.splits)
  next
    case (APark i)
    with st nc j i l c show ?thesis
      by (cases "xc_caller s j"; cases "xc_caller s (actor a)") (auto simp: xc_step_def xc_defs no_cancel_def split: if_splits waiter.splits)
  next
    case (ARelock i)
    with st nc j i l c show ?thesis
      by (cases "xc_caller s j"; cases "xc_caller s (actor a)") (auto simp: xc_step_def xc_defs no_cancel_def split: if_splits waiter.splits)
  next
    case (AClose i)
    with st nc j i l c show ?thesis
      by (cases "xc_caller s j"; cases "xc_caller s (actor a)") (auto simp: xc_step_def xc_defs no_cancel_def split: if_splits waiter.splits)
  qed
qed

lemma xc_inv_step:
  assumes inv: "xc_inv ow s" and "no_cancel a" and st: "xc_step a s = Some s'"
  shows "xc_inv (next_owner a ow) s'"
proof -
  have "xc_ok (ow = Some (actor a)) (xc_paused s) (xc_caller s (actor a)) (xc_waiter s (actor a))"
    "xc_locked s = (ow \<noteq> None)" "\<not> xc_crashed s" "\<forall>i. \<not> xc_cancelled s i"
    using inv by (simp_all add: xc_inv_def)
  with st \<open>no_cancel a\<close> have "\<not> xc_crashed s' \<and> xc_locked s' = (next_owner a ow \<noteq> None) \<and> (\<forall>i. \<not> xc_cancelled s' i)"
    by (cases a; cases "xc_caller s (actor a)") (auto simp: xc_step_def xc_defs no_cancel_def split: if_splits waiter.splits)
  with xc_step_ok [OF assms] show ?thesis by (simp add: xc_inv_def)
qed

lemma xc_reach_inv: "xc_reach s \<Longrightarrow> \<exists>ow. xc_inv ow s"
  by (induction rule: xc_reach.induct) (auto intro: xc_inv_init xc_inv_step)

lemma reach_run: "xc_run as s = Some s' \<Longrightarrow> xc_reach s \<Longrightarrow> list_all no_cancel as \<Longrightarrow> xc_reach s'"
  by (induction as arbitrary: s) (auto split: option.splits intro: reach_step)

lemma internal_no_cancel: "internal a \<Longrightarrow> no_cancel a"
  by (auto simp: no_cancel_def)

lemma internal_step:
  assumes inv: "xc_inv ow s" and "internal a" and st: "xc_step a s = Some s'" and "\<not> xc_paused s"
  shows "\<not> xc_paused s'"
    and "rank (xc_caller s' (actor a)) (xc_waiter s' (actor a)) < rank (xc_caller s (actor a)) (xc_waiter s (actor a))"
    and "j \<noteq> actor a \<Longrightarrow> xc_caller s' j = xc_caller s j \<and> xc_waiter s' j = xc_waiter s j"
proof -
  have i: "xc_ok (ow = Some (actor a)) False (xc_caller s (actor a)) (xc_waiter s (actor a))"
    and "xc_locked s = (ow \<noteq> None)" "\<not> xc_crashed s" "\<not> xc_cancelled s (actor a)"
    using inv assms(4) by (simp_all add: xc_inv_def)
  then show "\<not> xc_paused s'"
    and "rank (xc_caller s' (actor a)) (xc_waiter s' (actor a)) < rank (xc_caller s (actor a)) (xc_waiter s (actor a))"
    and "j \<noteq> actor a \<Longrightarrow> xc_caller s' j = xc_caller s j \<and> xc_waiter s' j = xc_waiter s j"
    using assms(2-)
    by (cases a; cases "xc_caller s (actor a)"; auto simp: xc_step_def xc_defs split: if_splits waiter.splits)+
qed

lemma internal_total:
  assumes "xc_inv ow s" "internal a" "xc_step a s = Some s'" "\<not> xc_paused s" "actor a < n"
  shows "remaining n s' < remaining n s"
proof -
  note st = internal_step [OF assms(1-4)]
  let ?r = "\<lambda>s i. rank (xc_caller s i) (xc_waiter s i)"
  have "(\<Sum>i \<in> {..<n} - {actor a}. ?r s' i) = (\<Sum>i \<in> {..<n} - {actor a}. ?r s i)"
    by (rule sum.cong) (use st(3) in auto)
  then show ?thesis
    using st(2) assms(5) by (simp add: remaining_def sum.remove [of _ "actor a"])
qed

text \<open>Someone can always move: the owner of the mutex, or whoever waits for it.\<close>

lemma no_deadlock:
  assumes inv: "xc_inv ow s" and "\<not> xc_paused s" and "\<not> idle s i"
  shows "\<exists>a. internal a \<and> xc_step a s \<noteq> None"
proof -
  have ok: "xc_ok (ow = Some j) False (xc_caller s j) (xc_waiter s j)" for j
    using inv assms(2) by (simp add: xc_inv_def)
  have c: "\<not> xc_crashed s" and l: "xc_locked s = (ow \<noteq> None)" using inv by (simp_all add: xc_inv_def)
  show ?thesis
  proof (cases ow)
    case None
    then have "xc_caller s i = CLock \<or> xc_caller s i = CSelect \<and> xc_waiter s i = WWoken"
      using ok [of i] assms(3) by (cases "xc_caller s i") (auto simp: idle_def split: waiter.splits)
    then show ?thesis
      using None c l by (auto simp: xc_step_def intro: exI [of _ "ALock i"] exI [of _ "ARelock i"])
  next
    case (Some j)
    have "xc_step (ATest j) s \<noteq> None \<or> xc_step (AUnlock j) s \<noteq> None \<or> xc_step (APark j) s \<noteq> None \<or>
        xc_step (AClose j) s \<noteq> None \<or> xc_step (ASelectDone j) s \<noteq> None"
      using ok [of j] Some c by (cases "xc_caller s j") (auto simp: xc_step_def split: waiter.splits)
    then show ?thesis by (metis internal.simps)
  qed
qed

lemma internal_run:
  assumes "xc_inv ow s" "\<not> xc_paused s" "\<forall>i. \<not> idle s i \<longrightarrow> i < n"
    and "xc_run as s = Some s'" "list_all internal as"
  shows "length as + remaining n s' \<le> remaining n s \<and> (\<exists>ow'. xc_inv ow' s') \<and> \<not> xc_paused s' \<and> (\<forall>i. \<not> idle s' i \<longrightarrow> i < n)"
  using assms
proof (induction as arbitrary: s ow)
  case (Cons a as)
  obtain s1 where st: "xc_step a s = Some s1" and run: "xc_run as s1 = Some s'"
    using Cons.prems(4) by (cases "xc_step a s") simp_all
  have ia: "internal a" using Cons.prems(5) by simp
  note ist = internal_step [OF Cons.prems(1) ia st Cons.prems(2)]
  have an: "actor a < n"
  proof -
    have "\<not> idle s (actor a)" using ist(2) by (auto simp: idle_def)
    then show ?thesis using Cons.prems(3) by blast
  qed
  have lt: "remaining n s1 < remaining n s" by (rule internal_total [OF Cons.prems(1) ia st Cons.prems(2) an])
  have "\<not> idle s1 j \<longrightarrow> j < n" for j
    using ist(3) [of j] an Cons.prems(3) by (cases "j = actor a") (auto simp: idle_def)
  then show ?case
    using Cons.IH [OF xc_inv_step [OF Cons.prems(1) internal_no_cancel [OF ia] st] ist(1) _ run] Cons.prems(5) lt by auto
qed auto

section \<open>Properties\<close>

text \<open>
  C19: As long as no context is cancelled the pause switch is sound, for any number of concurrent callers
  and any interleaving: the process never unlocks an unlocked mutex, no call returns an error, a
  call that is about to return does so while execution is not paused, and no two callers own the
  mutex.
\<close>

theorem pause_switch_sound:
  assumes "xc_reach s"
  shows "\<not> xc_crashed s \<and> (\<forall>i r. xc_caller s i = CReturned r \<longrightarrow> r = None) \<and> (\<forall>i r. xc_caller s i = CLeave r \<longrightarrow> \<not> xc_paused s)
     \<and> (\<forall>i j. xc_caller s i \<in> {CCheck, CLeave None} \<and> xc_caller s j \<in> {CCheck, CLeave None} \<longrightarrow> i = j)"
proof -
  obtain ow where inv: "xc_inv ow s" using xc_reach_inv [OF assms] by blast
  have ok: "xc_ok (ow = Some i) (xc_paused s) (xc_caller s i) (xc_waiter s i)" for i using inv by (simp add: xc_inv_def)
  have "xc_caller s i \<in> {CCheck, CLeave None} \<Longrightarrow> ow = Some i" for i using ok [of i] by auto
  moreover have "xc_caller s i = CReturned r \<Longrightarrow> r = None" "xc_caller s i = CLeave r \<Longrightarrow> \<not> xc_paused s" for i r
    using ok [of i] by auto
  moreover have "\<not> xc_crashed s" using inv by (simp add: xc_inv_def)
  ultimately show ?thesis by (intro conjI allI impI) (blast, blast, blast, metis option.inject)
qed


text \<open>
  Cancelling a context while execution is paused ends the process. Whenever a call waits in its select,
  its waiter is parked in \<^verbatim>\<open>cond.Wait\<close> and nobody holds the mutex, then the cancellation, the select on the
  context and the deferred unlock unlock an unlocked mutex, unless the woken waiter is faster.
\<close>

theorem cancel_while_paused_crashes:
  assumes "xc_reach s" "xc_caller s i = CSelect" "xc_waiter s i = WParked" "\<not> xc_locked s"
  shows "\<exists>s'. xc_run [ACancel i, ASelectCtx i, AUnlock i] s = Some s' \<and> xc_crashed s'"
proof -
  have "\<not> xc_crashed s" using xc_reach_inv [OF assms(1)] by (auto simp: xc_inv_def)
  with assms(2-) show ?thesis by (simp add: xc_step_def xc_defs)
qed

definition parked_trace :: "xact list" where
  "parked_trace = [APause, ACall 0, ALock 0, ATest 0, APark 0]"

lemma parked_reach:
  "\<exists>s. xc_run parked_trace xc_init = Some s \<and> xc_reach s \<and> xc_caller s 0 = CSelect \<and> xc_waiter s 0 = WParked \<and> \<not> xc_locked s"
proof -
  obtain s where s: "xc_run parked_trace xc_init = Some s" "xc_caller s 0 = CSelect" "xc_waiter s 0 = WParked" "\<not> xc_locked s"
    by (rule that [of "the (xc_run parked_trace xc_init)"]) (simp_all add: parked_trace_def xc_init_def xc_step_def xc_defs)
  moreover have "xc_reach s"
    by (rule reach_run [OF s(1) reach_init]) (simp add: parked_trace_def no_cancel_def)
  ultimately show ?thesis by blast
qed

theorem cancel_while_paused_crashes_witness:
  "\<exists>s. xc_run (parked_trace @ [ACancel 0, ASelectCtx 0, AUnlock 0]) xc_init = Some s \<and> xc_crashed s"
proof -
  obtain s where s: "xc_run parked_trace xc_init = Some s" "xc_reach s" "xc_caller s 0 = CSelect" "xc_waiter s 0 = WParked" "\<not> xc_locked s"
    using parked_reach by blast
  have app: "xc_run (as @ bs) s0 = Option.bind (xc_run as s0) (xc_run bs)" for as bs s0
    by (induction as arbitrary: s0) (auto split: option.splits)
  show ?thesis using cancel_while_paused_crashes [OF s(2-5)] s(1) by (simp add: app)
qed

theorem pause_switch_sound_witness: "\<not> xc_crashed xc_init"
  using pause_switch_sound [OF reach_init] by blast


end
