(* ===== verification/Event_Bus.thy ===== *)
theory Event_Bus
  imports Go_Prelude "HOL-Library.Word"
begin

text \<open>
  The two publish/subscribe buses: \<^verbatim>\<open>events.Bus\<close> (\<^verbatim>\<open>pkg/events/events.go\<close>), with callback handlers, and \<^verbatim>\<open>telemetry.EventBus\<close>
  (\<^verbatim>\<open>pkg/telemetry/events.go\<close>).

  A channel is a buffer of at most 100 events and a flag; channels live in a store, so a bus only
  holds their addresses. Sending to or closing a closed channel panics (\<open>None\<close>). Both buses do all
  their work on channels under a lock, so an operation is one step. What the handlers do runs in goroutines of its
  own; \<open>Publish\<close> returns the handlers it starts.

  The locale \<open>broadcast\<close> is what a subscriber relies on; both buses are interpretations of it.
\<close>

section \<open>Channels\<close>

record 'e chan =
  ch_buf :: "'e list"
  ch_closed :: bool

type_synonym 'e chans = "nat \<Rightarrow> 'e chan"

definition capacity :: nat where
  "capacity = 100"

text \<open>A non-blocking send: dropped when the buffer is full.\<close>

definition try_send :: "'e \<Rightarrow> nat \<Rightarrow> 'e chans \<Rightarrow> 'e chans option" where
  "try_send e c cs =
     (if ch_closed (cs c) then None
      else Some (if length (ch_buf (cs c)) < capacity then cs(c := (cs c)\<lparr>ch_buf := ch_buf (cs c) @ [e]\<rparr>) else cs))"

fun send_all :: "'e \<Rightarrow> nat list \<Rightarrow> 'e chans \<Rightarrow> 'e chans option" where
  "send_all e [] cs = Some cs"
| "send_all e (c # subs) cs = (case try_send e c cs of None \<Rightarrow> None | Some cs1 \<Rightarrow> send_all e subs cs1)"

definition close_chan :: "nat \<Rightarrow> 'e chans \<Rightarrow> 'e chans option" where
  "close_chan c cs = (if ch_closed (cs c) then None else Some (cs(c := (cs c)\<lparr>ch_closed := True\<rparr>)))"

definition receive :: "nat \<Rightarrow> 'e chans \<Rightarrow> 'e chans \<times> 'e option" where
  "receive c cs =
     (case ch_buf (cs c) of [] \<Rightarrow> (cs, None) | e # es \<Rightarrow> (cs(c := (cs c)\<lparr>ch_buf := es\<rparr>), Some e))"

section \<open>events.Bus\<close>

record Event =
  ev_Type :: string
  ev_Timestamp :: int
  ev_Source :: string
  ev_SessionID :: string
  ev_Payload :: "(string \<times> gvalue) list"
  ev_Error :: "goerr option"

record Bus =
  bs_handlers :: "(64 word \<times> string) list"
  bs_subscribers :: "nat list"
  bs_nextID :: "64 word"
  bs_chans :: "Event chans"
  bs_fresh :: nat

definition GlobalBus :: Bus where
  "GlobalBus = \<lparr>bs_handlers = [], bs_subscribers = [], bs_nextID = 0, bs_chans = (\<lambda>_. \<lparr>ch_buf = [], ch_closed = False\<rparr>), bs_fresh = 0\<rparr>"

text \<open>\<^verbatim>\<open>make(chan Event, 100)\<close> takes the next address.\<close>

definition Subscribe :: "Bus \<Rightarrow> Bus \<times> nat" where
  "Subscribe b =
     (let c = bs_fresh b in
      (b\<lparr>bs_fresh := c + 1, bs_chans := (bs_chans b)(c := \<lparr>ch_buf = [], ch_closed = False\<rparr>), bs_subscribers := bs_subscribers b @ [c]\<rparr>, c))"

definition Unsubscribe :: "nat \<Rightarrow> Bus \<Rightarrow> Bus option" where
  "Unsubscribe c b =
     (if c \<in> set (bs_subscribers b)
      then map_option (\<lambda>cs. b\<lparr>bs_subscribers := remove1 c (bs_subscribers b), bs_chans := cs\<rparr>) (close_chan c (bs_chans b))
      else Some b)"

definition On_handler :: "string \<Rightarrow> Bus \<Rightarrow> Bus" where
  "On_handler h b = b\<lparr>bs_nextID := bs_nextID b + 1, bs_handlers := bs_handlers b @ [(bs_nextID b + 1, h)]\<rparr>"

definition stamp_event :: "int \<Rightarrow> Event \<Rightarrow> Event" where
  "stamp_event now e = (if ev_Timestamp e = 0 then e\<lparr>ev_Timestamp := now\<rparr> else e)"

definition Publish :: "int \<Rightarrow> Event \<Rightarrow> Bus \<Rightarrow> (Bus \<times> (string \<times> Event) list) option" where
  "Publish now e b =
     (let e1 = stamp_event now e in
      map_option (\<lambda>cs. (b\<lparr>bs_chans := cs\<rparr>, map (\<lambda>(i, h). (h, e1)) (bs_handlers b))) (send_all e1 (bs_subscribers b) (bs_chans b)))"

text \<open>The cleanup function that \<^verbatim>\<open>ScopedHandlers\<close> returns is given by the identifier it closes over.\<close>

definition ScopedHandlers :: "string \<Rightarrow> Bus \<Rightarrow> Bus \<times> 64 word" where
  "ScopedHandlers h b = (On_handler h b, bs_nextID b + 1)"

fun drop_first :: "64 word \<Rightarrow> (64 word \<times> string) list \<Rightarrow> (64 word \<times> string) list" where
  "drop_first i [] = []"
| "drop_first i ((j, h) # hs) = (if j = i then hs else (j, h) # drop_first i hs)"

definition scoped_cleanup :: "64 word \<Rightarrow> Bus \<Rightarrow> Bus" where
  "scoped_cleanup i b = b\<lparr>bs_handlers := drop_first i (bs_handlers b)\<rparr>"

definition bus_receive :: "nat \<Rightarrow> Bus \<Rightarrow> Bus \<times> Event option" where
  "bus_receive c b = (case receive c (bs_chans b) of (cs, r) \<Rightarrow> (b\<lparr>bs_chans := cs\<rparr>, r))"

section \<open>telemetry.EventBus\<close>

record TEvent =
  te_ID :: string
  te_Type :: string
  te_Timestamp :: int
  te_AgentRole :: string
  te_Payload :: "(string \<times> gvalue) list"

record EventBus =
  eb_subscribers :: "nat list"
  eb_chans :: "TEvent chans"
  eb_fresh :: nat

definition eb_Subscribe :: "EventBus \<Rightarrow> EventBus \<times> nat" where
  "eb_Subscribe b =
     (let c = eb_fresh b in
      (b\<lparr>eb_fresh := c + 1, eb_chans := (eb_chans b)(c := \<lparr>ch_buf = [], ch_closed = False\<rparr>), eb_subscribers := eb_subscribers b @ [c]\<rparr>, c))"

definition eb_Unsubscribe :: "nat \<Rightarrow> EventBus \<Rightarrow> EventBus option" where
  "eb_Unsubscribe c b =
     (if c \<in> set (eb_subscribers b)
      then map_option (\<lambda>cs. b\<lparr>eb_subscribers := remove1 c (eb_subscribers b), eb_chans := cs\<rparr>) (close_chan c (eb_chans b))
      else Some b)"

definition stamp_tevent :: "int \<Rightarrow> TEvent \<Rightarrow> TEvent" where
  "stamp_tevent now e = (if te_Timestamp e = 0 then e\<lparr>te_Timestamp := now\<rparr> else e)"

definition eb_Publish :: "int \<Rightarrow> TEvent \<Rightarrow> EventBus \<Rightarrow> EventBus option" where
  "eb_Publish now e b = map_option (\<lambda>cs. b\<lparr>eb_chans := cs\<rparr>) (send_all (stamp_tevent now e) (eb_subscribers b) (eb_chans b))"

definition eb_receive :: "nat \<Rightarrow> EventBus \<Rightarrow> EventBus \<times> TEvent option" where
  "eb_receive c b = (case receive c (eb_chans b) of (cs, r) \<Rightarrow> (b\<lparr>eb_chans := cs\<rparr>, r))"

section \<open>Runs of a bus\<close>

datatype 'e bus_op = OPublish int 'e | OReceive nat | OSubscribe | OUnsubscribe nat

text \<open>
  A run of operations of some bus, with what the reader of channel \<open>c\<close> took out of it. A panic
  makes the run \<open>None\<close>.
\<close>

fun bus_run ::
  "(int \<Rightarrow> 'e \<Rightarrow> 'b \<Rightarrow> 'b option) \<Rightarrow> (nat \<Rightarrow> 'b \<Rightarrow> 'b \<times> 'e option) \<Rightarrow> ('b \<Rightarrow> 'b \<times> nat) \<Rightarrow> (nat \<Rightarrow> 'b \<Rightarrow> 'b option) \<Rightarrow>
    nat \<Rightarrow> 'e bus_op list \<Rightarrow> 'b \<Rightarrow> ('b \<times> 'e list) option" where
  "bus_run pub rcv sub uns c [] b = Some (b, [])"
| "bus_run pub rcv sub uns c (x # xs) b =
     (case x of
        OPublish t e \<Rightarrow> (case pub t e b of None \<Rightarrow> None | Some b1 \<Rightarrow> bus_run pub rcv sub uns c xs b1)
      | OReceive d \<Rightarrow>
          (case rcv d b of (b1, r) \<Rightarrow>
             map_option (\<lambda>(b2, got). (b2, (if d = c then case r of Some e \<Rightarrow> [e] | None \<Rightarrow> [] else []) @ got)) (bus_run pub rcv sub uns c xs b1))
      | OSubscribe \<Rightarrow> bus_run pub rcv sub uns c xs (fst (sub b))
      | OUnsubscribe d \<Rightarrow> (case uns d b of None \<Rightarrow> None | Some b1 \<Rightarrow> bus_run pub rcv sub uns c xs b1))"

fun published :: "(int \<Rightarrow> 'e \<Rightarrow> 'e) \<Rightarrow> 'e bus_op list \<Rightarrow> 'e list" where
  "published stp [] = []"
| "published stp (OPublish t e # xs) = stp t e # published stp xs"
| "published stp (_ # xs) = published stp xs"

text \<open>The contract of a broadcast channel.\<close>

locale broadcast =
  fixes inv :: "'b \<Rightarrow> bool" and subs :: "'b \<Rightarrow> nat set" and buf :: "'b \<Rightarrow> nat \<Rightarrow> 'e list"
    and stp :: "int \<Rightarrow> 'e \<Rightarrow> 'e"
    and pub :: "int \<Rightarrow> 'e \<Rightarrow> 'b \<Rightarrow> 'b option" and rcv :: "nat \<Rightarrow> 'b \<Rightarrow> 'b \<times> 'e option"
    and sub :: "'b \<Rightarrow> 'b \<times> nat" and uns :: "nat \<Rightarrow> 'b \<Rightarrow> 'b option"
  assumes pub_ok: "inv b \<Longrightarrow> \<exists>b'. pub t e b = Some b' \<and> inv b' \<and> subs b' = subs b \<and>
      (\<forall>c \<in> subs b. buf b' c = (if length (buf b c) < capacity then buf b c @ [stp t e] else buf b c))"
    and rcv_ok: "inv b \<Longrightarrow> rcv d b = (b', r) \<Longrightarrow> inv b' \<and> subs b' = subs b \<and> (\<forall>c. c \<noteq> d \<longrightarrow> buf b' c = buf b c) \<and>
      buf b d = (case r of None \<Rightarrow> [] | Some e \<Rightarrow> [e]) @ buf b' d"
    and sub_ok: "inv b \<Longrightarrow> sub b = (b', c) \<Longrightarrow> inv b' \<and> c \<notin> subs b \<and> subs b' = insert c (subs b) \<and> buf b' c = [] \<and>
      (\<forall>d \<in> subs b. buf b' d = buf b d)"
    and uns_ok: "inv b \<Longrightarrow> \<exists>b'. uns c b = Some b' \<and> inv b' \<and> subs b' = subs b - {c} \<and> (\<forall>d. buf b' d = buf b d)"
begin

lemma run_no_panic: "inv b \<Longrightarrow> \<exists>b' got. bus_run pub rcv sub uns c xs b = Some (b', got) \<and> inv b'"
proof (induction xs arbitrary: b)
  case (Cons x xs)
  show ?case
  proof (cases x)
    case (OPublish t e)
    then show ?thesis using pub_ok [OF Cons.prems, of t e] Cons.IH by auto
  next
    case (OReceive d)
    obtain b1 r where r: "rcv d b = (b1, r)" by fastforce
    then show ?thesis using rcv_ok [OF Cons.prems r] Cons.IH [of b1] OReceive by auto
  next
    case OSubscribe
    obtain b1 d where "sub b = (b1, d)" by fastforce
    then show ?thesis using sub_ok [OF Cons.prems] Cons.IH [of b1] OSubscribe by auto
  next
    case (OUnsubscribe d)
    then show ?thesis using uns_ok [OF Cons.prems, of d] Cons.IH by auto
  qed
qed simp

lemma run_delivery:
  assumes "inv b" "c \<in> subs b" "OUnsubscribe c \<notin> set xs" "bus_run pub rcv sub uns c xs b = Some (b', got)"
  shows "subseq (got @ buf b' c) (buf b c @ published stp xs)"
    and "length (buf b c) + length (published stp xs) \<le> capacity \<Longrightarrow> got @ buf b' c = buf b c @ published stp xs"
proof -
  have "subseq (got @ buf b' c) (buf b c @ published stp xs) \<and>
      (length (buf b c) + length (published stp xs) \<le> capacity \<longrightarrow> got @ buf b' c = buf b c @ published stp xs)"
    using assms
  proof (induction xs arbitrary: b got)
    case (Cons x xs)
    show ?case
    proof (cases x)
      case (OPublish t e)
      obtain b1 where b1: "pub t e b = Some b1" "inv b1" "c \<in> subs b1"
        and bf: "buf b1 c = (if length (buf b c) < capacity then buf b c @ [stp t e] else buf b c)"
        using pub_ok [OF Cons.prems(1), of t e] Cons.prems(2) by auto
      note IH = Cons.IH [OF b1(2,3), of got]
      have run: "bus_run pub rcv sub uns c xs b1 = Some (b', got)" "OUnsubscribe c \<notin> set xs"
        using Cons.prems(3,4) b1(1) OPublish by auto
      have "subseq (buf b1 c @ published stp xs) (buf b c @ published stp (x # xs))"
        using bf OPublish by (auto intro: list_emb_append_mono)
      then show ?thesis using IH [OF run(2,1)] bf OPublish by (auto split: if_splits intro: subseq_order.order_trans)
    next
      case (OReceive d)
      obtain b1 r where r: "rcv d b = (b1, r)" by fastforce
      note ok = rcv_ok [OF Cons.prems(1) r]
      obtain got1 where run: "bus_run pub rcv sub uns c xs b1 = Some (b', got1)"
        and got: "got = (if d = c then case r of Some e \<Rightarrow> [e] | None \<Rightarrow> [] else []) @ got1"
        using Cons.prems(4) r OReceive by auto
      have IH: "subseq (got1 @ buf b' c) (buf b1 c @ published stp xs) \<and>
          (length (buf b1 c) + length (published stp xs) \<le> capacity \<longrightarrow> got1 @ buf b' c = buf b1 c @ published stp xs)"
        by (rule Cons.IH) (use ok Cons.prems(2,3) run in auto)
      show ?thesis
      proof (cases "d = c")
        case True
        then show ?thesis using IH ok got OReceive by (cases r) auto
      next
        case False
        then show ?thesis using IH ok got OReceive by auto
      qed
    next
      case OSubscribe
      obtain b1 d where s: "sub b = (b1, d)" by fastforce
      then show ?thesis
        using sub_ok [OF Cons.prems(1) s] Cons.IH [of b1 got] Cons.prems OSubscribe by auto
    next
      case (OUnsubscribe d)
      then obtain b1 where "uns d b = Some b1" "inv b1" "c \<in> subs b1" "buf b1 c = buf b c"
        using uns_ok [OF Cons.prems(1), of d] Cons.prems(2,3) by auto
      then show ?thesis using Cons.IH [of b1 got] Cons.prems OUnsubscribe by auto
    qed
  qed auto
  then show "subseq (got @ buf b' c) (buf b c @ published stp xs)"
    and "length (buf b c) + length (published stp xs) \<le> capacity \<Longrightarrow> got @ buf b' c = buf b c @ published stp xs" by auto
qed

end

section \<open>Both buses are broadcast channels\<close>

definition chans_ok :: "nat \<Rightarrow> nat list \<Rightarrow> 'e chans \<Rightarrow> bool" where
  "chans_ok fresh subs cs \<longleftrightarrow> distinct subs \<and> (\<forall>c \<in> set subs. c < fresh \<and> \<not> ch_closed (cs c))"

lemma send_all_ok:
  assumes "distinct subs" "\<forall>c \<in> set subs. \<not> ch_closed (cs c)"
  shows "\<exists>cs'. send_all e subs cs = Some cs' \<and> (\<forall>c. ch_closed (cs' c) = ch_closed (cs c)) \<and>
    (\<forall>c. c \<notin> set subs \<longrightarrow> cs' c = cs c) \<and>
    (\<forall>c \<in> set subs. ch_buf (cs' c) = (if length (ch_buf (cs c)) < capacity then ch_buf (cs c) @ [e] else ch_buf (cs c)))"
  using assms
proof (induction subs arbitrary: cs)
  case (Cons d subs)
  define cs1 where "cs1 = (if length (ch_buf (cs d)) < capacity then cs(d := (cs d)\<lparr>ch_buf := ch_buf (cs d) @ [e]\<rparr>) else cs)"
  have t: "try_send e d cs = Some cs1" using Cons.prems by (simp add: try_send_def cs1_def)
  have same: "\<forall>c. ch_closed (cs1 c) = ch_closed (cs c)" "\<forall>c. c \<noteq> d \<longrightarrow> cs1 c = cs c"
    "ch_buf (cs1 d) = (if length (ch_buf (cs d)) < capacity then ch_buf (cs d) @ [e] else ch_buf (cs d))"
    by (simp_all add: cs1_def)
  have "\<forall>c \<in> set subs. \<not> ch_closed (cs1 c)" using Cons.prems(2) same(1) by simp
  from Cons.IH [OF _ this] Cons.prems(1) obtain cs' where cs': "send_all e subs cs1 = Some cs'"
    "\<forall>c. ch_closed (cs' c) = ch_closed (cs1 c)" "\<forall>c. c \<notin> set subs \<longrightarrow> cs' c = cs1 c"
    "\<forall>c \<in> set subs. ch_buf (cs' c) = (if length (ch_buf (cs1 c)) < capacity then ch_buf (cs1 c) @ [e] else ch_buf (cs1 c))"
    by auto
  moreover have d: "d \<notin> set subs" using Cons.prems(1) by simp
  moreover have "\<forall>c \<in> set subs. cs1 c = cs c" using same(2) d by auto
  ultimately show ?case using t same by (intro exI [of _ cs']) auto
qed auto

lemma receive_ok:
  assumes "receive d cs = (cs', r)"
  shows "\<forall>c. ch_closed (cs' c) = ch_closed (cs c)" "\<forall>c. c \<noteq> d \<longrightarrow> cs' c = cs c"
    "ch_buf (cs d) = (case r of None \<Rightarrow> [] | Some e \<Rightarrow> [e]) @ ch_buf (cs' d)"
  using assms by (auto simp: receive_def split: list.splits if_splits)

lemma set_remove1_distinct: "distinct xs \<Longrightarrow> set (remove1 c xs) = set xs - {c}"
  by simp

definition bus_inv :: "Bus \<Rightarrow> bool" where
  "bus_inv b \<longleftrightarrow> chans_ok (bs_fresh b) (bs_subscribers b) (bs_chans b)"

definition eb_inv :: "EventBus \<Rightarrow> bool" where
  "eb_inv b \<longleftrightarrow> chans_ok (eb_fresh b) (eb_subscribers b) (eb_chans b)"

text \<open>\<open>Publish\<close> without the handlers it starts.\<close>

definition publish_channels :: "int \<Rightarrow> Event \<Rightarrow> Bus \<Rightarrow> Bus option" where
  "publish_channels t e b = map_option fst (Publish t e b)"

interpretation ebus: broadcast bus_inv "\<lambda>b. set (bs_subscribers b)" "\<lambda>b c. ch_buf (bs_chans b c)" stamp_event
  publish_channels bus_receive Subscribe Unsubscribe
proof
  fix b t e
  assume "bus_inv b"
  then show "\<exists>b'. publish_channels t e b = Some b' \<and> bus_inv b' \<and> set (bs_subscribers b') = set (bs_subscribers b) \<and>
      (\<forall>c \<in> set (bs_subscribers b). ch_buf (bs_chans b' c) =
        (if length (ch_buf (bs_chans b c)) < capacity then ch_buf (bs_chans b c) @ [stamp_event t e] else ch_buf (bs_chans b c)))"
    using send_all_ok [of "bs_subscribers b" "bs_chans b" "stamp_event t e"]
    by (fastforce simp: publish_channels_def Publish_def Let_def bus_inv_def chans_ok_def)
next
  fix b d b' r
  assume "bus_inv b" "bus_receive d b = (b', r)"
  then show "bus_inv b' \<and> set (bs_subscribers b') = set (bs_subscribers b) \<and>
      (\<forall>c. c \<noteq> d \<longrightarrow> ch_buf (bs_chans b' c) = ch_buf (bs_chans b c)) \<and>
      ch_buf (bs_chans b d) = (case r of None \<Rightarrow> [] | Some e \<Rightarrow> [e]) @ ch_buf (bs_chans b' d)"
    by (auto simp: bus_receive_def bus_inv_def chans_ok_def split: prod.splits dest: receive_ok)
next
  fix b b' c
  assume "bus_inv b" "Subscribe b = (b', c)"
  then show "bus_inv b' \<and> c \<notin> set (bs_subscribers b) \<and> set (bs_subscribers b') = insert c (set (bs_subscribers b)) \<and>
      ch_buf (bs_chans b' c) = [] \<and> (\<forall>d \<in> set (bs_subscribers b). ch_buf (bs_chans b' d) = ch_buf (bs_chans b d))"
    by (auto simp: Subscribe_def Let_def bus_inv_def chans_ok_def less_Suc_eq split: if_splits)
next
  fix b c
  assume "bus_inv b"
  then show "\<exists>b'. Unsubscribe c b = Some b' \<and> bus_inv b' \<and> set (bs_subscribers b') = set (bs_subscribers b) - {c} \<and>
      (\<forall>d. ch_buf (bs_chans b' d) = ch_buf (bs_chans b d))"
    by (auto simp: Unsubscribe_def close_chan_def bus_inv_def chans_ok_def)
qed

interpretation tbus: broadcast eb_inv "\<lambda>b. set (eb_subscribers b)" "\<lambda>b c. ch_buf (eb_chans b c)" stamp_tevent
  eb_Publish eb_receive eb_Subscribe eb_Unsubscribe
proof
  fix b t e
  assume "eb_inv b"
  then show "\<exists>b'. eb_Publish t e b = Some b' \<and> eb_inv b' \<and> set (eb_subscribers b') = set (eb_subscribers b) \<and>
      (\<forall>c \<in> set (eb_subscribers b). ch_buf (eb_chans b' c) =
        (if length (ch_buf (eb_chans b c)) < capacity then ch_buf (eb_chans b c) @ [stamp_tevent t e] else ch_buf (eb_chans b c)))"
    using send_all_ok [of "eb_subscribers b" "eb_chans b" "stamp_tevent t e"]
    by (fastforce simp: eb_Publish_def eb_inv_def chans_ok_def)
next
  fix b d b' r
  assume "eb_inv b" "eb_receive d b = (b', r)"
  then show "eb_inv b' \<and> set (eb_subscribers b') = set (eb_subscribers b) \<and>
      (\<forall>c. c \<noteq> d \<longrightarrow> ch_buf (eb_chans b' c) = ch_buf (eb_chans b c)) \<and>
      ch_buf (eb_chans b d) = (case r of None \<Rightarrow> [] | Some e \<Rightarrow> [e]) @ ch_buf (eb_chans b' d)"
    by (auto simp: eb_receive_def eb_inv_def chans_ok_def split: prod.splits dest: receive_ok)
next
  fix b b' c
  assume "eb_inv b" "eb_Subscribe b = (b', c)"
  then show "eb_inv b' \<and> c \<notin> set (eb_subscribers b) \<and> set (eb_subscribers b') = insert c (set (eb_subscribers b)) \<and>
      ch_buf (eb_chans b' c) = [] \<and> (\<forall>d \<in> set (eb_subscribers b). ch_buf (eb_chans b' d) = ch_buf (eb_chans b d))"
    by (auto simp: eb_Subscribe_def Let_def eb_inv_def chans_ok_def less_Suc_eq split: if_splits)
next
  fix b c
  assume "eb_inv b"
  then show "\<exists>b'. eb_Unsubscribe c b = Some b' \<and> eb_inv b' \<and> set (eb_subscribers b') = set (eb_subscribers b) - {c} \<and>
      (\<forall>d. ch_buf (eb_chans b' d) = ch_buf (eb_chans b d))"
    by (auto simp: eb_Unsubscribe_def close_chan_def eb_inv_def chans_ok_def)
qed

section \<open>Handlers\<close>

text \<open>States of the handler list after \<open>n\<close> registrations.\<close>

inductive handlers_after :: "nat \<Rightarrow> Bus \<Rightarrow> bool" where
  "handlers_after 0 GlobalBus"
| "handlers_after n b \<Longrightarrow> handlers_after (Suc n) (On_handler h b)"
| "handlers_after n b \<Longrightarrow> handlers_after n (scoped_cleanup i b)"
| "handlers_after n b \<Longrightarrow> Publish t e b = Some (b', hs) \<Longrightarrow> handlers_after n b'"
| "handlers_after n b \<Longrightarrow> handlers_after n (fst (Subscribe b))"
| "handlers_after n b \<Longrightarrow> Unsubscribe c b = Some b' \<Longrightarrow> handlers_after n b'"

definition ids_ok :: "nat \<Rightarrow> Bus \<Rightarrow> bool" where
  "ids_ok n b \<longleftrightarrow> distinct (map fst (bs_handlers b)) \<and> (\<forall>i \<in> fst ` set (bs_handlers b). unat i \<le> n) \<and> unat (bs_nextID b) = n"

lemma drop_first_filter: "distinct (map fst hs) \<Longrightarrow> drop_first i hs = filter (\<lambda>(j, h). j \<noteq> i) hs"
proof (induction i hs rule: drop_first.induct)
  case (2 i j h hs)
  have "filter (\<lambda>(k, h). k \<noteq> i) hs = hs" if "i \<notin> fst ` set hs"
    using that by (induction hs) auto
  with 2 show ?case by auto
qed simp

lemma handlers_same:
  "Publish t e b = Some (b', hs) \<Longrightarrow> bs_handlers b' = bs_handlers b \<and> bs_nextID b' = bs_nextID b"
  "Unsubscribe c b = Some b' \<Longrightarrow> bs_handlers b' = bs_handlers b \<and> bs_nextID b' = bs_nextID b"
  "bs_handlers (fst (Subscribe b)) = bs_handlers b" "bs_nextID (fst (Subscribe b)) = bs_nextID b"
  by (auto simp: Publish_def Unsubscribe_def Subscribe_def Let_def split: if_splits)

lemma unat_Suc64:
  assumes "Suc (unat (w :: 64 word)) < 2 ^ 64"
  shows "unat (w + 1) = Suc (unat w)"
  using assms by (simp add: unat_word_ariths)

lemma ids_ok_register:
  assumes "ids_ok n b" "Suc n < 2 ^ 64"
  shows "ids_ok (Suc n) (On_handler h b)"
proof -
  have "unat (bs_nextID b + 1) = Suc n" using assms by (intro trans [OF unat_Suc64]) (simp_all add: ids_ok_def)
  moreover from this assms(1) have "bs_nextID b + 1 \<notin> fst ` set (bs_handlers b)" by (auto simp: ids_ok_def)
  ultimately show ?thesis using assms(1) by (auto simp: ids_ok_def On_handler_def le_Suc_eq)
qed

lemma ids_ok_cleanup: "ids_ok n b \<Longrightarrow> ids_ok n (scoped_cleanup i b)"
  by (auto simp: ids_ok_def scoped_cleanup_def drop_first_filter distinct_map_filter)

lemma handlers_after_ok: "handlers_after n b \<Longrightarrow> n < 2 ^ 64 \<Longrightarrow> ids_ok n b"
proof (induction rule: handlers_after.induct)
  case 1
  then show ?case by (simp add: ids_ok_def GlobalBus_def)
next
  case (2 n b h)
  then show ?case by (intro ids_ok_register) simp_all
next
  case (3 n b i)
  then show ?case by (intro ids_ok_cleanup) simp
qed (auto simp: ids_ok_def handlers_same)

section \<open>Properties\<close>


text \<open>
  The bus of the telemetry package gives the same guarantee to the dashboard.
\<close>

theorem telemetry_bus_delivery:
  shows "eb_inv b \<Longrightarrow> c \<in> set (eb_subscribers b) \<Longrightarrow> OUnsubscribe c \<notin> set xs \<Longrightarrow>
    \<exists>b' got. bus_run eb_Publish eb_receive eb_Subscribe eb_Unsubscribe c xs b = Some (b', got) \<and> eb_inv b' \<and>
      subseq (got @ ch_buf (eb_chans b' c)) (ch_buf (eb_chans b c) @ published stamp_tevent xs) \<and>
      (length (ch_buf (eb_chans b c)) + length (published stamp_tevent xs) \<le> capacity \<longrightarrow>
        got @ ch_buf (eb_chans b' c) = ch_buf (eb_chans b c) @ published stamp_tevent xs)"
  using tbus.run_no_panic [of b c xs] tbus.run_delivery [of b c xs] by blast

text \<open>
  A cleanup function removes exactly the handler it was made for, as long as the 64-bit counter has not
  wrapped: after fewer than \<open>2\<^sup>64\<close> registrations all identifiers are different, and a cleanup keeps
  every other handler in its place.
\<close>

theorem scoped_cleanup_exact:
  assumes "handlers_after n b" "Suc n < 2 ^ 64" "ScopedHandlers h b = (b1, i)"
  shows "i \<notin> fst ` set (bs_handlers b) \<and> bs_handlers (scoped_cleanup i b1) = bs_handlers b \<and>
    (\<forall>j. bs_handlers (scoped_cleanup j b1) = filter (\<lambda>(k, h). k \<noteq> j) (bs_handlers b1))"
proof -
  have ok: "ids_ok n b" using handlers_after_ok [OF assms(1)] assms(2) by simp
  have ok1: "ids_ok (Suc n) b1" using ids_ok_register [OF ok assms(2)] assms(3) by (auto simp: ScopedHandlers_def)
  have b1: "bs_handlers b1 = bs_handlers b @ [(i, h)]" using assms(3) by (auto simp: ScopedHandlers_def On_handler_def)
  have "distinct (map fst (bs_handlers b1))" using ok1 by (simp add: ids_ok_def)
  then have fresh: "i \<notin> fst ` set (bs_handlers b)" using b1 by auto
  then have "filter (\<lambda>(k, h). k \<noteq> i) (bs_handlers b) = bs_handlers b" by (intro filter_True) force
  with b1 fresh \<open>distinct (map fst (bs_handlers b1))\<close> show ?thesis
    by (auto simp: scoped_cleanup_def drop_first_filter)
qed

definition wit_event :: Event where
  "wit_event = \<lparr>ev_Type = ''crew.kickoff.started'', ev_Timestamp = 0, ev_Source = ''Crew'', ev_SessionID = [], ev_Payload = [], ev_Error = None\<rparr>"


definition wit_tbus :: EventBus where
  "wit_tbus = \<lparr>eb_subscribers = [0], eb_chans = (\<lambda>_. \<lparr>ch_buf = [], ch_closed = False\<rparr>), eb_fresh = 1\<rparr>"

theorem telemetry_bus_delivery_witness:
  "\<exists>b' got. bus_run eb_Publish eb_receive eb_Subscribe eb_Unsubscribe 0 [OSubscribe, OUnsubscribe 1] wit_tbus = Some (b', got) \<and>
     got @ ch_buf (eb_chans b' 0) = []"
  using telemetry_bus_delivery [of wit_tbus 0 "[OSubscribe, OUnsubscribe 1]"]
  by (auto simp: wit_tbus_def eb_inv_def chans_ok_def capacity_def)

theorem scoped_cleanup_exact_witness:
  "bs_handlers (scoped_cleanup 1 (On_handler ''h'' GlobalBus)) = []"
proof -
  have "ScopedHandlers ''h'' GlobalBus = (On_handler ''h'' GlobalBus, 1)" by (simp add: ScopedHandlers_def GlobalBus_def)
  moreover have "Suc 0 < (2 :: nat) ^ 64" by simp
  ultimately have "bs_handlers (scoped_cleanup 1 (On_handler ''h'' GlobalBus)) = bs_handlers GlobalBus"
    using scoped_cleanup_exact [OF handlers_after.intros(1)] by blast
  then show ?thesis by (simp add: GlobalBus_def)
qed

end
