(* ===== verification/Review_Hub.thy ===== *)
theory Review_Hub
  imports Go_Prelude "HOL-Library.Multiset"
begin

text \<open>
  Human review and the registry of \<^verbatim>\<open>pkg/telemetry/events.go\<close>: \<^verbatim>\<open>ReviewManager\<close> (an agent blocks in \<^verbatim>\<open>RequestReview\<close> until
  some \<^verbatim>\<open>SubmitReview\<close> hands it a decision) and \<^verbatim>\<open>DynamicRegistry\<close> (what the dashboard lists, and the queues of
  staged agents and tasks that creator mode consumes).

  The review protocol is a step relation over any number of requests and submissions. A request \<open>i\<close> makes
  an unbuffered channel of its own, so the channel is named \<open>i\<close>; a send on it is a rendezvous with the
  waiting request. Map accesses under the mutex are one step.
\<close>

section \<open>Reviews\<close>

datatype request = RNone | RWaiting string | RDecided string bool | RReturned string bool

datatype submission = SNone | SSending nat bool | SReturned

record ReviewManager =
  rm_Pending :: "string \<rightharpoonup> nat"
  rm_requests :: "nat \<Rightarrow> request"
  rm_submits :: "nat \<Rightarrow> submission"
  rm_made :: "(string \<times> bool) list"

definition NewReviewManager :: ReviewManager where
  "NewReviewManager = \<lparr>rm_Pending = Map.empty, rm_requests = (\<lambda>_. RNone), rm_submits = (\<lambda>_. SNone), rm_made = []\<rparr>"

text \<open>\<^verbatim>\<open>RequestReview\<close>: register the channel; after the decision, remove the identifier and return.\<close>

definition request_start :: "nat \<Rightarrow> string \<Rightarrow> ReviewManager \<Rightarrow> ReviewManager option" where
  "request_start i rid r =
     (if rm_requests r i = RNone
      then Some (r\<lparr>rm_Pending := (rm_Pending r)(rid \<mapsto> i), rm_requests := (rm_requests r)(i := RWaiting rid)\<rparr>) else None)"

definition request_finish :: "nat \<Rightarrow> ReviewManager \<Rightarrow> ReviewManager option" where
  "request_finish i r =
     (case rm_requests r i of
        RDecided rid d \<Rightarrow> Some (r\<lparr>rm_Pending := (rm_Pending r)(rid := None), rm_requests := (rm_requests r)(i := RReturned rid d)\<rparr>)
      | _ \<Rightarrow> None)"

text \<open>\<^verbatim>\<open>SubmitReview\<close>: look the channel up, then send on it.\<close>

definition submit_lookup :: "nat \<Rightarrow> string \<Rightarrow> bool \<Rightarrow> ReviewManager \<Rightarrow> ReviewManager option" where
  "submit_lookup k rid approved r =
     (if rm_submits r k = SNone
      then Some (r\<lparr>rm_made := rm_made r @ [(rid, approved)],
                   rm_submits := (rm_submits r)(k := (case rm_Pending r rid of Some i \<Rightarrow> SSending i approved | None \<Rightarrow> SReturned))\<rparr>)
      else None)"

definition rendezvous :: "nat \<Rightarrow> ReviewManager \<Rightarrow> ReviewManager option" where
  "rendezvous k r =
     (case rm_submits r k of
        SSending i d \<Rightarrow>
          (case rm_requests r i of
             RWaiting rid \<Rightarrow>
               Some (r\<lparr>rm_requests := (rm_requests r)(i := RDecided rid d), rm_submits := (rm_submits r)(k := SReturned)\<rparr>)
           | _ \<Rightarrow> None)
      | _ \<Rightarrow> None)"

datatype ract = RStart nat string | RFinish nat | RSubmit nat string bool | RMeet nat

fun rm_step :: "ract \<Rightarrow> ReviewManager \<Rightarrow> ReviewManager option" where
  "rm_step (RStart i rid) r = request_start i rid r"
| "rm_step (RFinish i) r = request_finish i r"
| "rm_step (RSubmit k rid d) r = submit_lookup k rid d r"
| "rm_step (RMeet k) r = rendezvous k r"

fun rm_run :: "ract list \<Rightarrow> ReviewManager \<Rightarrow> ReviewManager option" where
  "rm_run [] r = Some r"
| "rm_run (a # as) r = (case rm_step a r of None \<Rightarrow> None | Some r1 \<Rightarrow> rm_run as r1)"

inductive rm_reach :: "ReviewManager \<Rightarrow> bool" where
  rm_start: "rm_reach NewReviewManager"
| rm_next: "rm_reach r \<Longrightarrow> rm_step a r = Some r' \<Longrightarrow> rm_reach r'"

text \<open>States that can follow a state.\<close>

inductive rm_later :: "ReviewManager \<Rightarrow> ReviewManager \<Rightarrow> bool" where
  rm_same: "rm_later r r"
| rm_more: "rm_later r s \<Longrightarrow> rm_step a s = Some t \<Longrightarrow> rm_later r t"

fun request_id :: "request \<Rightarrow> string option" where
  "request_id RNone = None"
| "request_id (RWaiting rid) = Some rid"
| "request_id (RDecided rid d) = Some rid"
| "request_id (RReturned rid d) = Some rid"

section \<open>Registry\<close>

text \<open>
  An entry is a pointer to an object or a map (the dashboard stages bridges as maps). Comparing two maps
  through an interface panics in Go. The four kinds of entries have the same operations, so one
  definition models \<^verbatim>\<open>AddAgent\<close>, \<^verbatim>\<open>AddTask\<close>, \<^verbatim>\<open>AddMCPClient\<close> and \<^verbatim>\<open>AddA2ABridge\<close>, and likewise for delete, update
  and pull.
\<close>

datatype entry = EObj nat | EMap "(string \<times> gvalue) list"

text \<open>\<^verbatim>\<open>p == x\<close> on interface values; \<open>None\<close> is the panic.\<close>

fun iface_eq :: "entry \<Rightarrow> entry \<Rightarrow> bool option" where
  "iface_eq (EObj a) (EObj b) = Some (a = b)"
| "iface_eq (EMap m) (EMap n) = None"
| "iface_eq _ _ = Some False"

fun remove_pending :: "entry \<Rightarrow> entry list \<Rightarrow> entry list option" where
  "remove_pending x [] = Some []"
| "remove_pending x (p # ps) =
     (case iface_eq p x of
        None \<Rightarrow> None
      | Some True \<Rightarrow> Some ps
      | Some False \<Rightarrow> map_option ((#) p) (remove_pending x ps))"

record shelf =
  sh_items :: "entry list"
  sh_pending :: "entry list"

definition Add :: "entry \<Rightarrow> bool \<Rightarrow> shelf \<Rightarrow> shelf" where
  "Add x pending s = s\<lparr>sh_items := sh_items s @ [x], sh_pending := (if pending then sh_pending s @ [x] else sh_pending s)\<rparr>"

definition drop_at :: "nat \<Rightarrow> 'x list \<Rightarrow> 'x list" where
  "drop_at n xs = take n xs @ drop (Suc n) xs"

text \<open>The state after a deletion, and whether it panicked.\<close>

definition Delete_at :: "int \<Rightarrow> shelf \<Rightarrow> shelf \<times> bool" where
  "Delete_at index s =
     (if 0 \<le> index \<and> index < int (length (sh_items s))
      then (let s1 = s\<lparr>sh_items := drop_at (nat index) (sh_items s)\<rparr> in
            case remove_pending (sh_items s ! nat index) (sh_pending s) of
              None \<Rightarrow> (s1, True)
            | Some ps \<Rightarrow> (s1\<lparr>sh_pending := ps\<rparr>, False))
      else (s, False))"

definition Update_at :: "int \<Rightarrow> entry \<Rightarrow> shelf \<Rightarrow> shelf" where
  "Update_at index x s =
     (if 0 \<le> index \<and> index < int (length (sh_items s))
      then s\<lparr>sh_items := (sh_items s)[nat index := x], sh_pending := sh_pending s @ [x]\<rparr>
      else s)"

definition Pull :: "shelf \<Rightarrow> entry list \<times> shelf" where
  "Pull s = (sh_pending s, s\<lparr>sh_pending := []\<rparr>)"

text \<open>The registry itself: a shelf of each kind of entry. Nothing pulls the pending bridges.\<close>

record DynamicRegistry =
  dr_Agents :: shelf
  dr_Tasks :: shelf
  dr_MCPClients :: shelf
  dr_A2ABridges :: shelf
  dr_processType :: string

definition GlobalDynamicRegistry :: DynamicRegistry where
  "GlobalDynamicRegistry =
     (let empty = \<lparr>sh_items = [], sh_pending = []\<rparr> in
      \<lparr>dr_Agents = empty, dr_Tasks = empty, dr_MCPClients = empty, dr_A2ABridges = empty, dr_processType = []\<rparr>)"

definition AddAgent :: "entry \<Rightarrow> bool \<Rightarrow> DynamicRegistry \<Rightarrow> DynamicRegistry" where
  "AddAgent x pending r = r\<lparr>dr_Agents := Add x pending (dr_Agents r)\<rparr>"

definition AddTask :: "entry \<Rightarrow> bool \<Rightarrow> DynamicRegistry \<Rightarrow> DynamicRegistry" where
  "AddTask x pending r = r\<lparr>dr_Tasks := Add x pending (dr_Tasks r)\<rparr>"

definition AddMCPClient :: "entry \<Rightarrow> bool \<Rightarrow> DynamicRegistry \<Rightarrow> DynamicRegistry" where
  "AddMCPClient x pending r = r\<lparr>dr_MCPClients := Add x pending (dr_MCPClients r)\<rparr>"

definition AddA2ABridge :: "entry \<Rightarrow> bool \<Rightarrow> DynamicRegistry \<Rightarrow> DynamicRegistry" where
  "AddA2ABridge x pending r = r\<lparr>dr_A2ABridges := Add x pending (dr_A2ABridges r)\<rparr>"

definition DeleteAgent :: "int \<Rightarrow> DynamicRegistry \<Rightarrow> DynamicRegistry \<times> bool" where
  "DeleteAgent i r = (let (s, panic) = Delete_at i (dr_Agents r) in (r\<lparr>dr_Agents := s\<rparr>, panic))"

definition DeleteTask :: "int \<Rightarrow> DynamicRegistry \<Rightarrow> DynamicRegistry \<times> bool" where
  "DeleteTask i r = (let (s, panic) = Delete_at i (dr_Tasks r) in (r\<lparr>dr_Tasks := s\<rparr>, panic))"

definition DeleteMCP :: "int \<Rightarrow> DynamicRegistry \<Rightarrow> DynamicRegistry \<times> bool" where
  "DeleteMCP i r = (let (s, panic) = Delete_at i (dr_MCPClients r) in (r\<lparr>dr_MCPClients := s\<rparr>, panic))"

definition DeleteA2A :: "int \<Rightarrow> DynamicRegistry \<Rightarrow> DynamicRegistry \<times> bool" where
  "DeleteA2A i r = (let (s, panic) = Delete_at i (dr_A2ABridges r) in (r\<lparr>dr_A2ABridges := s\<rparr>, panic))"

definition UpdateAgent :: "int \<Rightarrow> entry \<Rightarrow> DynamicRegistry \<Rightarrow> DynamicRegistry" where
  "UpdateAgent i x r = r\<lparr>dr_Agents := Update_at i x (dr_Agents r)\<rparr>"

definition UpdateTask :: "int \<Rightarrow> entry \<Rightarrow> DynamicRegistry \<Rightarrow> DynamicRegistry" where
  "UpdateTask i x r = r\<lparr>dr_Tasks := Update_at i x (dr_Tasks r)\<rparr>"

definition UpdateMCP :: "int \<Rightarrow> entry \<Rightarrow> DynamicRegistry \<Rightarrow> DynamicRegistry" where
  "UpdateMCP i x r = r\<lparr>dr_MCPClients := Update_at i x (dr_MCPClients r)\<rparr>"

definition UpdateA2A :: "int \<Rightarrow> entry \<Rightarrow> DynamicRegistry \<Rightarrow> DynamicRegistry" where
  "UpdateA2A i x r = r\<lparr>dr_A2ABridges := Update_at i x (dr_A2ABridges r)\<rparr>"

definition SetProcessType :: "string \<Rightarrow> DynamicRegistry \<Rightarrow> DynamicRegistry" where
  "SetProcessType p r = r\<lparr>dr_processType := p\<rparr>"

definition GetProcessType :: "DynamicRegistry \<Rightarrow> string" where
  "GetProcessType r = dr_processType r"

definition ListAll :: "DynamicRegistry \<Rightarrow> (string \<times> entry list) list \<times> string" where
  "ListAll r =
     ([(''agents'', sh_items (dr_Agents r)), (''tasks'', sh_items (dr_Tasks r)),
       (''mcp'', sh_items (dr_MCPClients r)), (''a2a'', sh_items (dr_A2ABridges r))], dr_processType r)"

definition PullTasks :: "DynamicRegistry \<Rightarrow> entry list \<times> DynamicRegistry" where
  "PullTasks r = (let (xs, s) = Pull (dr_Tasks r) in (xs, r\<lparr>dr_Tasks := s\<rparr>))"

definition PullAgents :: "DynamicRegistry \<Rightarrow> entry list \<times> DynamicRegistry" where
  "PullAgents r = (let (xs, s) = Pull (dr_Agents r) in (xs, r\<lparr>dr_Agents := s\<rparr>))"

definition PullMCPClients :: "DynamicRegistry \<Rightarrow> entry list \<times> DynamicRegistry" where
  "PullMCPClients r = (let (xs, s) = Pull (dr_MCPClients r) in (xs, r\<lparr>dr_MCPClients := s\<rparr>))"

datatype shelf_op = ShAdd entry bool | ShDelete int | ShUpdate int entry | ShPull

text \<open>A run of operations with everything the engine pulled.\<close>

fun shelf_run :: "shelf_op list \<Rightarrow> shelf \<Rightarrow> shelf \<times> entry list" where
  "shelf_run [] s = (s, [])"
| "shelf_run (ShAdd x p # os) s = shelf_run os (Add x p s)"
| "shelf_run (ShDelete i # os) s = shelf_run os (fst (Delete_at i s))"
| "shelf_run (ShUpdate i x # os) s = shelf_run os (Update_at i x s)"
| "shelf_run (ShPull # os) s = (case Pull s of (xs, s1) \<Rightarrow> case shelf_run os s1 of (s2, ys) \<Rightarrow> (s2, xs @ ys))"

text \<open>What a run stages: pending additions, and updates of an entry that exists.\<close>

fun staged :: "shelf_op list \<Rightarrow> shelf \<Rightarrow> entry list" where
  "staged [] s = []"
| "staged (ShAdd x p # os) s = (if p then [x] else []) @ staged os (Add x p s)"
| "staged (ShDelete i # os) s = staged os (fst (Delete_at i s))"
| "staged (ShUpdate i x # os) s = (if 0 \<le> i \<and> i < int (length (sh_items s)) then [x] else []) @ staged os (Update_at i x s)"
| "staged (ShPull # os) s = staged os (snd (Pull s))"

section \<open>Lemmas\<close>

definition rm_inv :: "ReviewManager \<Rightarrow> bool" where
  "rm_inv r \<longleftrightarrow>
     (\<forall>rid i. rm_Pending r rid = Some i \<longrightarrow> request_id (rm_requests r i) = Some rid) \<and>
     (\<forall>k i d. rm_submits r k = SSending i d \<longrightarrow> (\<exists>rid. request_id (rm_requests r i) = Some rid \<and> (rid, d) \<in> set (rm_made r))) \<and>
     (\<forall>i rid d. rm_requests r i = RDecided rid d \<or> rm_requests r i = RReturned rid d \<longrightarrow> (rid, d) \<in> set (rm_made r))"

lemmas rm_defs = request_start_def request_finish_def submit_lookup_def rendezvous_def

lemma rm_inv_step: "rm_inv r \<Longrightarrow> rm_step a r = Some r' \<Longrightarrow> rm_inv r'"
proof (cases a)
  case (RStart i rid)
  assume "rm_inv r" "rm_step a r = Some r'"
  with RStart show ?thesis by (fastforce simp: rm_inv_def rm_defs split: if_splits)
next
  case (RFinish i)
  assume "rm_inv r" "rm_step a r = Some r'"
  with RFinish show ?thesis by (fastforce simp: rm_inv_def rm_defs split: if_splits request.splits)
next
  case (RSubmit k rid d)
  assume "rm_inv r" "rm_step a r = Some r'"
  with RSubmit show ?thesis by (fastforce simp: rm_inv_def rm_defs split: if_splits option.splits)
next
  case (RMeet k)
  assume "rm_inv r" "rm_step a r = Some r'"
  with RMeet show ?thesis by (fastforce simp: rm_inv_def rm_defs split: if_splits request.splits submission.splits)
qed

lemma rm_inv_init: "rm_inv NewReviewManager"
  by (simp add: rm_inv_def NewReviewManager_def)

lemma rm_reach_inv: "rm_reach r \<Longrightarrow> rm_inv r"
  by (induction rule: rm_reach.induct) (auto intro: rm_inv_init rm_inv_step)

lemma rm_run_reach: "rm_run as r = Some r' \<Longrightarrow> rm_reach r \<Longrightarrow> rm_reach r'"
  by (induction as arbitrary: r) (auto split: option.splits intro: rm_next)

text \<open>A decided request stays decided, and a sender to it stays where it is.\<close>

definition stuck :: "nat \<Rightarrow> nat \<Rightarrow> bool \<Rightarrow> ReviewManager \<Rightarrow> bool" where
  "stuck k i d r \<longleftrightarrow> rm_submits r k = SSending i d \<and> (\<exists>rid b. rm_requests r i = RDecided rid b \<or> rm_requests r i = RReturned rid b)"

lemma stuck_step: "stuck k i d r \<Longrightarrow> rm_step a r = Some r' \<Longrightarrow> stuck k i d r'"
  by (cases a) (auto simp: stuck_def rm_defs split: if_splits request.splits submission.splits option.splits)

lemma remove_pending_mset: "remove_pending x ps = Some qs \<Longrightarrow> mset qs \<subseteq># mset ps"
proof (induction x ps arbitrary: qs rule: remove_pending.induct)
  case (2 x p ps)
  then show ?case by (auto split: option.splits bool.splits)
qed simp

lemma Delete_at_pending: "mset (sh_pending (fst (Delete_at i s))) \<subseteq># mset (sh_pending s)"
  by (auto simp: Delete_at_def Let_def split: option.splits dest: remove_pending_mset)

lemma shelf_run_mset:
  "shelf_run os s = (s', got) \<Longrightarrow> mset (got @ sh_pending s') \<subseteq># mset (sh_pending s @ staged os s)"
proof (induction os s arbitrary: got rule: shelf_run.induct)
  case (3 i os s)
  then show ?case
    using Delete_at_pending [of i s] by (auto intro: subset_mset.order_trans)
next
  case (5 os s)
  then show ?case by (auto simp: Pull_def split: prod.splits)
qed (auto simp: Add_def Update_at_def)

lemma shelf_run_exact:
  "shelf_run os s = (s', got) \<Longrightarrow> \<forall>i. ShDelete i \<notin> set os \<Longrightarrow> got @ sh_pending s' = sh_pending s @ staged os s"
proof (induction os s arbitrary: got rule: shelf_run.induct)
  case (5 os s)
  then show ?case by (auto simp: Pull_def split: prod.splits)
qed (auto simp: Add_def Update_at_def)

text \<open>Comparing a map with a list that holds a map ends in the panic.\<close>

lemma remove_pending_map: "EMap n \<in> set ps \<Longrightarrow> remove_pending (EMap m) ps = None"
  by (induction "EMap m" ps rule: remove_pending.induct) (auto split: option.splits bool.splits entry.splits elim: iface_eq.elims)

text \<open>A staged task or agent that no deletion removes is handed over by the next pull, and only once.\<close>

lemma staged_pulled_once:
  "fst (PullTasks (AddTask x True r)) = fst (PullTasks r) @ [x] \<and> fst (PullTasks (snd (PullTasks r))) = []"
  "fst (PullAgents (AddAgent x True r)) = fst (PullAgents r) @ [x] \<and> fst (PullAgents (snd (PullAgents r))) = []"
  "fst (PullMCPClients (AddMCPClient x True r)) = fst (PullMCPClients r) @ [x] \<and> fst (PullMCPClients (snd (PullMCPClients r))) = []"
  by (simp_all add: PullTasks_def PullAgents_def PullMCPClients_def AddTask_def AddAgent_def AddMCPClient_def Add_def Pull_def)

section \<open>Properties\<close>

text \<open>
  C21: Integrity of human review. In every reachable state of the review protocol, with any number of agents
  asking and any number of answers in flight, a request that returned \<open>d\<close> returned what some
  \<^verbatim>\<open>SubmitReview\<close> with the very same review identifier submitted.
\<close>

theorem review_integrity:
  assumes "rm_reach r" "rm_requests r i = RReturned rid d"
  shows "(rid, d) \<in> set (rm_made r)"
  using rm_reach_inv [OF assms(1)] assms(2) by (auto simp: rm_inv_def)

text \<open>
  A second answer to the same review blocks forever. Once the request has its decision, a submission that
  had already looked its channel up never returns, whatever happens afterwards.
\<close>

theorem second_review_blocks:
  assumes "rm_submits r k = SSending i d" "rm_requests r i = RDecided rid b" "rm_later r r'"
  shows "rm_submits r' k = SSending i d"
proof -
  have "stuck k i d r" using assms(1,2) by (auto simp: stuck_def)
  with assms(3) have "stuck k i d r'" by (induction rule: rm_later.induct) (auto intro: stuck_step)
  then show ?thesis by (simp add: stuck_def)
qed

text \<open>
  The staging queue loses and invents nothing. What creator mode pulled and what is still pending is, in
  order, what was pending before and what was staged since; with deletions it is at most that.
\<close>

theorem staging_queue:
  assumes "shelf_run os s = (s', got)"
  shows "mset (got @ sh_pending s') \<subseteq># mset (sh_pending s @ staged os s) \<and>
    ((\<forall>i. ShDelete i \<notin> set os) \<longrightarrow> got @ sh_pending s' = sh_pending s @ staged os s)"
  using shelf_run_mset [OF assms] shelf_run_exact [OF assms] by blast

text \<open>
  Deleting a staged bridge panics. The dashboard stages bridges as maps, and comparing the deleted map with
  a pending one is a run-time panic. Nothing pulls pending bridges, so every bridge staged this way is
  pending when it is deleted: the deletion takes it from the list, panics, and leaves it pending.
\<close>

theorem delete_bridge_panics:
  "let i = int (length (sh_items (dr_A2ABridges r)));
       (r', panic) = DeleteA2A i (AddA2ABridge (EMap m) True r) in
   panic \<and> sh_items (dr_A2ABridges r') = sh_items (dr_A2ABridges r) \<and>
   sh_pending (dr_A2ABridges r') = sh_pending (dr_A2ABridges r) @ [EMap m]"
  using remove_pending_map [of m "sh_pending (dr_A2ABridges r) @ [EMap m]" m]
  by (simp add: DeleteA2A_def AddA2ABridge_def Add_def Delete_at_def drop_at_def Let_def)

definition review_trace :: "ract list" where
  "review_trace = [RStart 0 ''a-1'', RSubmit 0 ''a-1'' True, RSubmit 1 ''a-1'' False, RMeet 0]"

definition review_state :: ReviewManager where
  "review_state = the (rm_run review_trace NewReviewManager)"

lemma review_state_facts:
  "rm_run review_trace NewReviewManager = Some review_state" "rm_requests review_state 0 = RDecided ''a-1'' True"
  "rm_submits review_state 1 = SSending 0 False"
  by (simp_all add: review_state_def review_trace_def NewReviewManager_def rm_defs)

theorem review_integrity_witness:
  "\<exists>r. rm_step (RFinish 0) review_state = Some r \<and> rm_requests r 0 = RReturned ''a-1'' True \<and> (''a-1'', True) \<in> set (rm_made r)"
proof -
  obtain r where r: "rm_step (RFinish 0) review_state = Some r" "rm_requests r 0 = RReturned ''a-1'' True"
    using review_state_facts(2) by (simp add: rm_defs)
  have "rm_reach r" using rm_run_reach [OF review_state_facts(1) rm_start] r(1) by (rule rm_next)
  with review_integrity [OF this r(2)] r show ?thesis by blast
qed

theorem second_review_blocks_witness: "rm_submits review_state 1 = SSending 0 False"
  by (rule second_review_blocks [OF review_state_facts(3,2) rm_same])

theorem staging_queue_witness:
  "\<exists>s' got. shelf_run [ShAdd (EObj 1) True, ShPull, ShUpdate 0 (EObj 2)] \<lparr>sh_items = [], sh_pending = []\<rparr> = (s', got) \<and>
     got @ sh_pending s' = [EObj 1, EObj 2]"
proof -
  obtain s' got where r: "shelf_run [ShAdd (EObj 1) True, ShPull, ShUpdate 0 (EObj 2)] \<lparr>sh_items = [], sh_pending = []\<rparr> = (s', got)"
    by fastforce
  have "got @ sh_pending s' = [EObj 1, EObj 2]" using staging_queue [OF r] by (simp add: Add_def Pull_def)
  with r show ?thesis by blast
qed

end
