(* ===== verification/Knowledge_Split.thy ===== *)
theory Knowledge_Split
  imports Guardrails
begin

text \<open>
  The document splitters of \<^verbatim>\<open>pkg/knowledge/splitter.go\<close>.

  Both splitters run the same loop over the words of a text. Its step is \<^verbatim>\<open>ChunkSize - ChunkOverlap\<close>, which no
  constructor keeps positive, so the loop is a partial function: \<open>None\<close> is a loop that never ends (and
  appends forever), \<open>Panicked\<close> a slice expression out of range.
\<close>

section \<open>Splitters\<close>

record SplitterConfig =
  sc_ChunkSize :: int
  sc_ChunkOverlap :: int
  sc_Model :: string

record TokenSplitter =
  ts_ChunkSize :: int
  ts_ChunkOverlap :: int

definition NewSemanticSplitter :: "SplitterConfig \<Rightarrow> SplitterConfig" where
  "NewSemanticSplitter cfg =
     (let c1 = (if sc_ChunkSize cfg \<le> 0 then cfg\<lparr>sc_ChunkSize := 1024\<rparr> else cfg);
          c2 = (if sc_ChunkOverlap c1 < 0 then c1\<lparr>sc_ChunkOverlap := 256\<rparr> else c1)
      in if sc_Model c2 = [] then c2\<lparr>sc_Model := ''text-embedding-3-small''\<rparr> else c2)"

definition NewTokenSplitter :: "int \<Rightarrow> int \<Rightarrow> TokenSplitter" where
  "NewTokenSplitter chunkSize chunkOverlap =
     \<lparr>ts_ChunkSize = (if chunkSize \<le> 0 then 1000 else chunkSize), ts_ChunkOverlap = (if chunkOverlap < 0 then 100 else chunkOverlap)\<rparr>"

datatype split_result = Chunks "string list" | Panicked

partial_function (option) split_loop :: "int \<Rightarrow> int \<Rightarrow> string list \<Rightarrow> int \<Rightarrow> string list \<Rightarrow> split_result option" where
  "split_loop sz step ws i chunks =
     (if i < int (length ws)
      then (let fin = (if i + sz > int (length ws) then int (length ws) else i + sz) in
            if i < 0 \<or> fin < i then Some Panicked
            else (let chunks1 = chunks @ [str_join (take (nat (fin - i)) (drop (nat i) ws)) '' ''] in
                  if fin = int (length ws) then Some (Chunks chunks1) else split_loop sz step ws (i + step) chunks1))
      else Some (Chunks chunks))"

definition split_words :: "int \<Rightarrow> int \<Rightarrow> string \<Rightarrow> split_result option" where
  "split_words sz overlap s =
     (let ws = str_fields s in
      if length ws = 0 then Some (Chunks [])
      else if int (length ws) \<le> sz then Some (Chunks [str_join ws '' ''])
      else split_loop sz (sz - overlap) ws 0 [])"

definition ss_SplitText :: "SplitterConfig \<Rightarrow> string \<Rightarrow> split_result option" where
  "ss_SplitText cfg s = split_words (sc_ChunkSize cfg) (sc_ChunkOverlap cfg) s"

definition ts_SplitText :: "TokenSplitter \<Rightarrow> string \<Rightarrow> split_result option" where
  "ts_SplitText ts s = split_words (ts_ChunkSize ts) (ts_ChunkOverlap ts) s"

section \<open>Reference\<close>

text \<open>The windows of a word list, by recursion on the rest.\<close>

function windows :: "nat \<Rightarrow> nat \<Rightarrow> 'a list \<Rightarrow> 'a list list" where
  "windows sz step ws =
     (if length ws \<le> sz \<or> step = 0 then [ws] else take sz ws # windows sz step (drop step ws))"
  by pat_completeness auto
termination
  by (relation "measure (\<lambda>(sz, step, ws). length ws)") auto

declare windows.simps [simp del]

section \<open>Lemmas\<close>

lemma windows_ne [simp]: "windows sz step ws \<noteq> []"
  by (subst windows.simps) simp

lemma windows_length: "w \<in> set (windows sz step ws) \<Longrightarrow> 0 < step \<Longrightarrow> length w \<le> sz"
proof (induction sz step ws rule: windows.induct)
  case (1 sz step ws)
  then show ?case by (subst (asm) (2) windows.simps) (auto split: if_splits)
qed

text \<open>Cutting the overlap off every window but the first gives the words back.\<close>

lemma windows_reassemble:
  assumes "0 < step" "step \<le> sz"
  shows "hd (windows sz step ws) @ concat (map (drop (sz - step)) (tl (windows sz step ws))) = ws"
  using assms
proof (induction sz step ws rule: windows.induct)
  case (1 sz step ws)
  show ?case
  proof (cases "length ws \<le> sz")
    case True
    then show ?thesis by (simp add: windows.simps [of sz step ws])
  next
    case False
    let ?r = "windows sz step (drop step ws)"
    have IH: "hd ?r @ concat (map (drop (sz - step)) (tl ?r)) = drop step ws"
      using "1.IH" False "1.prems" by simp
    have "sz - step \<le> length (hd ?r)"
      using False "1.prems" by (subst windows.simps) auto
    then have "concat (map (drop (sz - step)) ?r) = drop (sz - step) (drop step ws)"
      by (subst IH [symmetric]) (cases ?r; simp)
    with False "1.prems" show ?thesis
      by (simp add: windows.simps [of sz step ws])
  qed
qed

lemma split_loop_windows:
  assumes "0 < step" "step \<le> sz" "i < length ws"
  shows "split_loop (int sz) (int step) ws (int i) chunks =
     Some (Chunks (chunks @ map (\<lambda>w. str_join w '' '') (windows sz step (drop i ws))))"
  using assms(3)
proof (induction "length ws - i" arbitrary: i chunks rule: less_induct)
  case less
  show ?case
  proof (cases "length ws \<le> i + sz")
    case True
    then have fin: "(if int i + int sz > int (length ws) then int (length ws) else int i + int sz) = int (length ws)" by auto
    have "length (drop i ws) \<le> sz" using True by simp
    then show ?thesis
      using less.prems True by (subst split_loop.simps) (simp add: fin Let_def windows.simps [of sz step "drop i ws"])
  next
    case False
    then have IH: "split_loop (int sz) (int step) ws (int (i + step)) cs =
        Some (Chunks (cs @ map (\<lambda>w. str_join w '' '') (windows sz step (drop (i + step) ws))))" for cs
      using assms by (intro less.hyps) auto
    have "\<not> length (drop i ws) \<le> sz" using False less.prems by simp
    then have "windows sz step (drop i ws) = take sz (drop i ws) # windows sz step (drop (i + step) ws)"
      using assms by (subst windows.simps) (simp add: add.commute)
    then show ?thesis
      using less.prems False IH by (subst split_loop.simps) (simp add: Let_def)
  qed
qed

text \<open>With a step of zero the loop stands still.\<close>

lemma split_loop_zero:
  assumes "0 \<le> i" "0 \<le> sz" "i + sz < int (length ws)"
  shows "split_loop sz 0 ws i chunks = None"
proof (rule ccontr)
  assume "split_loop sz 0 ws i chunks \<noteq> None"
  then obtain y where y: "split_loop sz 0 ws i chunks = Some y" by auto
  let ?P = "\<lambda>(sz :: int) (step :: int) ws (i :: int) (chunks :: string list) (y :: split_result).
    step = 0 \<longrightarrow> 0 \<le> i \<longrightarrow> 0 \<le> sz \<longrightarrow> i + sz < int (length (ws :: string list)) \<longrightarrow> False"
  have "?P sz 0 ws i chunks y"
    by (rule split_loop.raw_induct [of ?P, OF _ y]) (auto simp: Let_def split: if_splits, fastforce)
  with assms show False by simp
qed

lemma split_windows:
  assumes "0 < sz" "ov < sz" "str_fields s \<noteq> []"
  shows "split_words (int sz) (int ov) s = Some (Chunks (map (\<lambda>w. str_join w '' '') (windows sz (sz - ov) (str_fields s)))) \<and>
     (\<forall>w \<in> set (windows sz (sz - ov) (str_fields s)). length w \<le> sz) \<and>
     hd (windows sz (sz - ov) (str_fields s)) @ concat (map (drop ov) (tl (windows sz (sz - ov) (str_fields s)))) = str_fields s"
proof -
  let ?ws = "str_fields s"
  have "split_words (int sz) (int ov) s = Some (Chunks (map (\<lambda>w. str_join w '' '') (windows sz (sz - ov) ?ws)))"
  proof (cases "length ?ws \<le> sz")
    case True
    then show ?thesis using assms by (simp add: split_words_def Let_def windows.simps [of sz])
  next
    case False
    have "int sz - int ov = int (sz - ov)" using assms by simp
    then show ?thesis
      using False split_loop_windows [of "sz - ov" sz 0 ?ws "[]"] assms by (simp add: split_words_def Let_def)
  qed
  moreover have "\<forall>w \<in> set (windows sz (sz - ov) ?ws). length w \<le> sz" using windows_length [of _ sz "sz - ov" ?ws] assms by simp
  moreover have "hd (windows sz (sz - ov) ?ws) @ concat (map (drop ov) (tl (windows sz (sz - ov) ?ws))) = ?ws"
    using windows_reassemble [of "sz - ov" sz ?ws] assms by simp
  ultimately show ?thesis by blast
qed

section \<open>Properties\<close>

text \<open>
  Splitting with an overlap smaller than the chunk size terminates and is exact. The chunks are the
  windows of the words of the text, no chunk has more words than the chunk size, and cutting the
  overlap off every chunk but the first gives all words back in order: nothing is lost between chunks.
\<close>

theorem split_exact:
  assumes "0 < sz" "ov < sz" "str_fields s \<noteq> []"
  shows "split_words (int sz) (int ov) s = Some (Chunks (map (\<lambda>w. str_join w '' '') (windows sz (sz - ov) (str_fields s)))) \<and>
     (\<forall>w \<in> set (windows sz (sz - ov) (str_fields s)). length w \<le> sz) \<and>
     hd (windows sz (sz - ov) (str_fields s)) @ concat (map (drop ov) (tl (windows sz (sz - ov) (str_fields s)))) = str_fields s"
  by (rule split_windows [OF assms])

text \<open>
  The constructors accept an overlap that is not smaller than the chunk size. A token splitter made with
  both equal never returns on a text longer than a chunk (it appends the same chunk forever), and
  one with a larger overlap panics on its second chunk.
\<close>

theorem split_bad_overlap:
  assumes "0 < sz" "sz < int (length (str_fields s))"
  shows "ts_SplitText (NewTokenSplitter sz sz) s = None"
    and "sz < ov \<Longrightarrow> ts_SplitText (NewTokenSplitter sz ov) s = Some Panicked"
proof -
  show "ts_SplitText (NewTokenSplitter sz sz) s = None"
    using assms split_loop_zero [of 0 sz "str_fields s" "[]"] by (auto simp: ts_SplitText_def NewTokenSplitter_def split_words_def Let_def)
  have "str_fields s \<noteq> []" using assms by auto
  then show "sz < ov \<Longrightarrow> ts_SplitText (NewTokenSplitter sz ov) s = Some Panicked"
    using assms
    by (simp add: ts_SplitText_def NewTokenSplitter_def split_words_def Let_def split_loop.simps [of sz "sz - ov" "str_fields s" 0]
        split_loop.simps [of sz "sz - ov" "str_fields s" "sz - ov"])
qed

lemma fields_abc: "str_fields ''a b c'' = [''a'', ''b'', ''c'']"
  by (simp add: str_fields_def is_space_def)

theorem split_exact_witness:
  "split_words 2 1 ''a b c'' = Some (Chunks [''a b'', ''b c''])"
  using split_exact [of 2 1 "''a b c''"]
  by (simp add: fields_abc windows.simps [of 2 "Suc 0" "[''a'', ''b'', ''c'']"] windows.simps [of 2 "Suc 0" "[''b'', ''c'']"])

theorem split_bad_overlap_witness:
  "ts_SplitText (NewTokenSplitter 1 1) ''a b c'' = None \<and> ts_SplitText (NewTokenSplitter 1 2) ''a b c'' = Some Panicked"
  using split_bad_overlap [of 1 "''a b c''"] by (simp add: fields_abc)

end
