(* ===== verification/Knowledge_Ingest.thy ===== *)
theory Knowledge_Ingest
  imports Knowledge_Split Mem_Store
begin

text \<open>
  Document ingestion, \<^verbatim>\<open>pkg/knowledge/ingestion.go\<close>: a document becomes chunks, each chunk gets an embedding
  vector and all of them are added to a memory store at once.

  The embedding model acts on a world \<open>'w\<close>, the store is any \<open>'s Store\<close> of \<open>Mem_Store\<close>. What the operating
  system, the CSV reader or an HTTP server answers is an argument, as are the elements of a JSON array. Reading
  PDF and Word documents and the walk over a directory are not modelled. Log lines and throttling delays are left out.
  Since a splitter may panic or never return (\<open>Knowledge_Split\<close>) so may an ingestion.
\<close>

section \<open>Identifiers\<close>

text \<open>The 64-bit FNV-1a hash of \<^verbatim>\<open>hash/fnv\<close> and its hexadecimal text.\<close>

definition fnv_offset :: "64 word" where
  "fnv_offset = 14695981039346656037"

definition fnv_prime :: "64 word" where
  "fnv_prime = 1099511628211"

definition fnv64a :: "string \<Rightarrow> 64 word" where
  "fnv64a s = fold (\<lambda>ch h. (h XOR word_of_nat (of_char ch)) * fnv_prime) s fnv_offset"

fun show_hex :: "nat \<Rightarrow> string" where
  "show_hex n = (if n < 16 then [''0123456789abcdef'' ! n] else show_hex (n div 16) @ [''0123456789abcdef'' ! (n mod 16)])"

declare show_hex.simps [simp del]

definition chunk_id :: "string \<Rightarrow> nat \<Rightarrow> string" where
  "chunk_id source i = ''doc_'' @ show_hex (unat (fnv64a (source @ ''_'' @ show_nat i))) @ ''_'' @ show_nat i"

section \<open>Storing chunks\<close>

record ('w, 's) IngestionEngine =
  ie_Store :: "'s Store"
  ie_Embed :: "(string \<Rightarrow> 'w \<Rightarrow> 'w \<times> real list result) option"
  ie_Splitter :: TokenSplitter
  ie_now :: int
  ie_rfc :: "int \<Rightarrow> string"

definition chunk_item :: "('w, 's) IngestionEngine \<Rightarrow> string \<Rightarrow> nat \<Rightarrow> nat \<Rightarrow> string \<Rightarrow> real list \<Rightarrow> MemoryItem" where
  "chunk_item ie source tot i chunk v =
     \<lparr>mi_ID = chunk_id source i, mi_Text = chunk, mi_Vector = v,
      mi_Metadata = Some [''source'' \<mapsto> VString source, ''chunk'' \<mapsto> VInt (int i), ''total'' \<mapsto> VInt (int tot),
        ''ingested_at'' \<mapsto> VString (ie_rfc ie (ie_now ie))],
      mi_CreatedAt = ie_now ie, mi_ExpiresAt = 0\<rparr>"

fun embed_chunks ::
  "('w, 's) IngestionEngine \<Rightarrow> string \<Rightarrow> nat \<Rightarrow> nat \<Rightarrow> string list \<Rightarrow> 'w \<Rightarrow> 'w \<times> MemoryItem list result" where
  "embed_chunks ie source tot i [] w = (w, Inr [])"
| "embed_chunks ie source tot i (chunk # cs) w =
     (if trim_space chunk = [] then embed_chunks ie source tot (Suc i) cs w
      else (case ie_Embed ie of
              None \<Rightarrow> (w, Inl (EMsg ''configured LLM does not support text embeddings, cannot ingest''))
            | Some emb \<Rightarrow>
                (case emb chunk w of
                   (w1, Inl e) \<Rightarrow> (w1, Inl (EWrap (''failed to embed chunk '' @ show_nat i @ '' from '' @ source @ '': '') e []))
                 | (w1, Inr v) \<Rightarrow>
                     (case embed_chunks ie source tot (Suc i) cs w1 of
                        (w2, Inl e) \<Rightarrow> (w2, Inl e)
                      | (w2, Inr items) \<Rightarrow> (w2, Inr (chunk_item ie source tot i chunk v # items))))))"

definition storeChunks :: "('w, 's) IngestionEngine \<Rightarrow> string \<Rightarrow> string list \<Rightarrow> 'w \<times> 's \<Rightarrow> ('w \<times> 's) \<times> goerr option" where
  "storeChunks ie source chunks ws =
     (case ws of (w, s) \<Rightarrow>
       (case embed_chunks ie source (length chunks) 0 chunks w of
          (w1, Inl e) \<Rightarrow> ((w1, s), Some e)
        | (w1, Inr items) \<Rightarrow>
            if length items = 0 then ((w1, s), None)
            else (case st_BulkAdd (ie_Store ie) items s of (s1, e) \<Rightarrow> ((w1, s1), e))))"

section \<open>Formats\<close>

datatype 'a ingest = Ran 'a | IngestPanic

text \<open>Chunks from the splitter; \<open>None\<close>: it never returns.\<close>

definition store_split ::
  "('w, 's) IngestionEngine \<Rightarrow> string \<Rightarrow> string \<Rightarrow> 'w \<times> 's \<Rightarrow> (('w \<times> 's) \<times> goerr option) ingest option" where
  "store_split ie source content ws =
     (case ts_SplitText (ie_Splitter ie) content of
        None \<Rightarrow> None
      | Some Panicked \<Rightarrow> Some IngestPanic
      | Some (Chunks cs) \<Rightarrow> Some (Ran (storeChunks ie source cs ws)))"

definition IngestRawText where
  "IngestRawText ie source content ws = store_split ie source content ws"

definition IngestText ::
  "('w, 's) IngestionEngine \<Rightarrow> string \<Rightarrow> string result \<Rightarrow> 'w \<times> 's \<Rightarrow> (('w \<times> 's) \<times> goerr option) ingest option" where
  "IngestText ie path file ws =
     (case file of
        Inl e \<Rightarrow> Some (Ran (ws, Some (EWrap ''failed to read file: '' e [])))
      | Inr data \<Rightarrow> store_split ie path data ws)"

text \<open>The rows of a CSV reader up to the end of the file, after the headers: a malformed row (\<open>None\<close>) is skipped,
  surplus values are dropped. A read error that persists would keep the loop of the source running; the
  list of rows stands for a file that can be read to its end.\<close>

definition csv_chunk :: "string list \<Rightarrow> string list \<Rightarrow> string" where
  "csv_chunk headers row = str_join (map (\<lambda>(h, v). h @ '': '' @ v) (zip headers row)) '', ''"

definition IngestCSV ::
  "('w, 's) IngestionEngine \<Rightarrow> string \<Rightarrow> string list result result \<Rightarrow> string list option list \<Rightarrow> 'w \<times> 's \<Rightarrow> ('w \<times> 's) \<times> goerr option" where
  "IngestCSV ie path opened rows ws =
     (case opened of
        Inl e \<Rightarrow> (ws, Some (EWrap ''failed to open CSV: '' e []))
      | Inr (Inl e) \<Rightarrow> (ws, Some (EWrap ''failed to read CSV headers: '' e []))
      | Inr (Inr headers) \<Rightarrow> storeChunks ie path (map (csv_chunk headers) (concat (map (case_option [] (\<lambda>r. [r])) rows))) ws)"

text \<open>\<open>arr\<close> gives the texts of the elements when the document is a JSON array.\<close>

definition IngestJSON ::
  "('w, 's) IngestionEngine \<Rightarrow> (string \<Rightarrow> string list option) \<Rightarrow> string \<Rightarrow> string result \<Rightarrow> 'w \<times> 's \<Rightarrow>
    (('w \<times> 's) \<times> goerr option) ingest option" where
  "IngestJSON ie arr path file ws =
     (case file of
        Inl e \<Rightarrow> Some (Ran (ws, Some (EWrap ''failed to read JSON: '' e [])))
      | Inr data \<Rightarrow>
          (case arr data of
             Some elems \<Rightarrow> Some (Ran (storeChunks ie path elems ws))
           | None \<Rightarrow> store_split ie path data ws))"

definition IngestJSONL :: "('w, 's) IngestionEngine \<Rightarrow> string \<Rightarrow> string result \<Rightarrow> 'w \<times> 's \<Rightarrow> ('w \<times> 's) \<times> goerr option" where
  "IngestJSONL ie path file ws =
     (case file of
        Inl e \<Rightarrow> (ws, Some (EWrap ''failed to read JSONL: '' e []))
      | Inr data \<Rightarrow> storeChunks ie path (filter (\<lambda>l. l \<noteq> []) (map trim_space (split_byte (CHR 0x0A) data))) ws)"

section \<open>HTML\<close>

fun strip_loop :: "bool \<Rightarrow> string \<Rightarrow> string" where
  "strip_loop inTag [] = []"
| "strip_loop inTag (r # rs) =
     (if r = CHR ''<'' then strip_loop True rs
      else if r = CHR ''>'' then CHR '' '' # strip_loop False rs
      else if \<not> inTag then r # strip_loop inTag rs
      else strip_loop inTag rs)"

function collapse :: "string \<Rightarrow> string" where
  "collapse s = (if str_contains s ''  '' then collapse (replace_all ''  '' '' '' s) else s)"
  by pat_completeness auto
termination
  by (relation "measure length") (auto intro: length_replace_all_less)

declare collapse.simps [simp del]

definition html_text :: "string \<Rightarrow> string" where
  "html_text html = trim_space (collapse (strip_loop False html))"

text \<open>\<open>check\<close> is \<^verbatim>\<open>utils.ValidateURL\<close>; a reply is the status, the content type and the body, or a transport error.\<close>

definition IngestURL ::
  "('w, 's) IngestionEngine \<Rightarrow> (string \<Rightarrow> goerr option) \<Rightarrow> string \<Rightarrow> (int \<times> string \<times> string result) result \<Rightarrow> 'w \<times> 's \<Rightarrow>
    (('w \<times> 's) \<times> goerr option) ingest option" where
  "IngestURL ie check url reply ws =
     (case check url of
        Some e \<Rightarrow> Some (Ran (ws, Some (EWrap ''blocked ingestion URL: '' e [])))
      | None \<Rightarrow>
          (case reply of
             Inl e \<Rightarrow> Some (Ran (ws, Some (EWrap ''failed to fetch URL: '' e [])))
           | Inr (status, ctype, body) \<Rightarrow>
               if status \<noteq> 200 then Some (Ran (ws, Some (EMsg (''URL returned status '' @ show_int status))))
               else (case body of
                       Inl e \<Rightarrow> Some (Ran (ws, Some (EWrap ''failed to read response body: '' e [])))
                     | Inr b \<Rightarrow>
                         (let content = take (10 * 1024 * 1024) b in
                          store_split ie url (if str_contains ctype ''text/html'' then html_text content else content) ws))))"

section \<open>Lemmas\<close>

text \<open>The chunks that are stored, with their positions.\<close>

definition kept :: "nat \<Rightarrow> string list \<Rightarrow> (nat \<times> string) list" where
  "kept i cs = filter (\<lambda>(j, x). trim_space x \<noteq> []) (enumerate i cs)"

lemma kept_Nil [simp]: "kept i [] = []"
  by (simp add: kept_def)

lemma kept_Cons [simp]: "kept i (x # cs) = (if trim_space x = [] then kept (Suc i) cs else (i, x) # kept (Suc i) cs)"
  by (simp add: kept_def)

lemma embed_chunks_items:
  "embed_chunks ie source n i cs w = (w', Inr items) \<Longrightarrow>
     list_all2 (\<lambda>it (j, x). mi_ID it = chunk_id source j \<and> mi_Text it = x) items (kept i cs)"
proof (induction cs arbitrary: i w items)
  case (Cons x cs)
  show ?case
  proof (cases "trim_space x = []")
    case True
    with Cons show ?thesis by auto
  next
    case False
    then obtain emb w1 v items' where "ie_Embed ie = Some emb" "emb x w = (w1, Inr v)"
      "embed_chunks ie source n (Suc i) cs w1 = (w', Inr items')" "items = chunk_item ie source n i x v # items'"
      using Cons.prems by (auto split: option.splits prod.splits sum.splits)
    with Cons.IH False show ?thesis by (auto simp: chunk_item_def)
  qed
qed simp

lemma char_not_digit: "CHR ''_'' \<notin> set (show_nat n)"
  using show_nat_digits by (fastforce simp: less_eq_char_def)

lemma last_segment_inj:
  assumes "xs @ CHR ''_'' # show_nat i = ys @ CHR ''_'' # show_nat j"
  shows "i = j"
proof -
  have "takeWhile (\<lambda>c. c \<noteq> CHR ''_'') (rev (xs @ CHR ''_'' # show_nat i)) = rev (show_nat i)" for xs i
    using char_not_digit by (simp add: takeWhile_append takeWhile_eq_all_conv)
  with assms have "rev (show_nat i) = rev (show_nat j)" by metis
  then show ?thesis by (simp add: show_nat_inj)
qed

lemma chunk_id_inj: "chunk_id source i = chunk_id source j \<longleftrightarrow> i = j"
proof
  let ?h = "\<lambda>i. ''doc_'' @ show_hex (unat (fnv64a (source @ ''_'' @ show_nat i)))"
  assume "chunk_id source i = chunk_id source j"
  then have "?h i @ CHR ''_'' # show_nat i = ?h j @ CHR ''_'' # show_nat j" by (simp add: chunk_id_def)
  then show "i = j" by (rule last_segment_inj)
qed simp

lemma kept_fst: "j \<in> fst ` set (kept i cs) \<Longrightarrow> i \<le> j"
  by (auto simp: kept_def in_set_enumerate_eq)

lemma kept_distinct: "distinct (map fst (kept i cs))"
  unfolding kept_def by (rule distinct_map_filter) simp

lemma items_distinct:
  assumes "list_all2 (\<lambda>it (j, x). mi_ID it = chunk_id source j \<and> mi_Text it = x) items (kept i cs)"
  shows "distinct (map mi_ID items)"
proof -
  have "map mi_ID items = map (chunk_id source) (map fst (kept i cs))"
    using assms by (induction rule: list_all2_induct) auto
  then show ?thesis using kept_distinct [of i cs] by (simp add: distinct_map inj_on_def chunk_id_inj)
qed

lemma trim_space_ne: "ch \<in> set s \<Longrightarrow> \<not> is_space ch \<Longrightarrow> trim_space s \<noteq> []"
proof -
  assume "ch \<in> set s" "\<not> is_space ch"
  then have "ch \<in> set (dropWhile is_space s)" by (metis in_set_conv_decomp set_dropWhileD set_takeWhileD takeWhile_dropWhile_id Un_iff set_append)
  then have "dropWhile is_space (rev (dropWhile is_space s)) \<noteq> []" using \<open>\<not> is_space ch\<close> by auto
  then show ?thesis by (simp add: trim_space_def)
qed

lemma fields_acc_words:
  "w \<in> set (fields_acc acc s) \<Longrightarrow> (\<forall>ch \<in> set acc. \<not> is_space ch) \<Longrightarrow> w \<noteq> [] \<and> (\<forall>ch \<in> set w. \<not> is_space ch)"
proof (induction acc s rule: fields_acc.induct)
  case (1 acc)
  then show ?case by (auto split: if_splits)
next
  case (2 acc c cs)
  show ?case
  proof (cases "is_space c")
    case True
    then consider "w \<in> set (fields_acc [] cs)" | "w = rev acc" "acc \<noteq> []"
      using "2.prems"(1) by (cases "acc = []") auto
    then show ?thesis
    proof cases
      case 1
      have e: "\<forall>ch \<in> set []. \<not> is_space ch" by simp
      show ?thesis
      proof (cases "acc = []")
        case A: True
        show ?thesis by (rule "2.IH"(1) [OF True A 1 e])
      next
        case A: False
        show ?thesis by (rule "2.IH"(2) [OF True A 1 e])
      qed
    next
      case 2
      then show ?thesis using "2.prems"(2) by simp
    qed
  next
    case False
    have "w \<in> set (fields_acc (c # acc) cs)" using "2.prems"(1) False by simp
    from "2.IH"(3) [OF False this] False "2.prems"(2) show ?thesis by simp
  qed
qed

lemma join_set: "p \<in> set ps \<Longrightarrow> ch \<in> set p \<Longrightarrow> ch \<in> set (str_join ps sep)"
  by (induction ps sep rule: str_join.induct) auto

lemma windows_sub:
  "w \<in> set (windows sz step ws) \<Longrightarrow> 0 < step \<Longrightarrow> step \<le> sz \<Longrightarrow> ws \<noteq> [] \<Longrightarrow> w \<noteq> [] \<and> set w \<subseteq> set ws"
proof (induction sz step ws rule: windows.induct)
  case (1 sz step ws)
  then show ?case
    by (subst (asm) (2) windows.simps) (auto split: if_splits dest: in_set_takeD in_set_dropD)
qed

lemma split_chunks_kept:
  assumes "0 < sz" "ov < sz" "str_fields s \<noteq> []"
  shows "kept 0 (map (\<lambda>w. str_join w '' '') (windows sz (sz - ov) (str_fields s))) =
     enumerate 0 (map (\<lambda>w. str_join w '' '') (windows sz (sz - ov) (str_fields s)))"
proof -
  have "trim_space (str_join w '' '') \<noteq> []" if "w \<in> set (windows sz (sz - ov) (str_fields s))" for w
  proof -
    have w: "w \<noteq> []" "set w \<subseteq> set (str_fields s)" using windows_sub [OF that] assms by auto
    then obtain x where x: "x \<in> set w" "x \<in> set (str_fields s)" by (cases w) auto
    then have "x \<noteq> []" "\<forall>ch \<in> set x. \<not> is_space ch" using fields_acc_words [of x "[]" s] by (auto simp: str_fields_def)
    then obtain ch where "ch \<in> set x" "\<not> is_space ch" by (cases x) auto
    then show ?thesis using join_set [OF x(1)] trim_space_ne by blast
  qed
  then show ?thesis unfolding kept_def by (intro filter_True) (auto simp: in_set_enumerate_eq)
qed

lemma items_texts:
  assumes "list_all2 (\<lambda>it (j, x). mi_ID it = chunk_id source j \<and> mi_Text it = x) items ps"
  shows "map mi_Text items = map snd ps"
  using assms by (induction rule: list_all2_induct) auto

lemma strip_loop_set: "ch \<in> set (strip_loop b s) \<Longrightarrow> ch \<noteq> CHR ''<'' \<and> ch \<noteq> CHR ''>''"
  by (induction b s rule: strip_loop.induct) (auto split: if_splits)

lemma replace_all_set: "ch \<in> set (replace_all p nw s) \<Longrightarrow> ch \<in> set nw \<union> set s"
proof (induction p nw s rule: replace_all.induct)
  case (1 p nw s)
  then show ?case
    by (subst (asm) (2) replace_all.simps) (auto split: if_splits option.splits dest: str_cut_Some)
qed

lemma collapse_set: "ch \<in> set (collapse s) \<Longrightarrow> ch = CHR '' '' \<or> ch \<in> set s"
proof (induction s rule: collapse.induct)
  case (1 s)
  then show ?case by (subst (asm) (2) collapse.simps) (auto split: if_splits dest: replace_all_set)
qed

lemma collapse_single: "\<not> str_contains (collapse s) ''  ''"
proof (induction s rule: collapse.induct)
  case (1 s)
  then show ?case by (cases "str_contains s ''  ''") (auto simp: collapse.simps [of s])
qed

lemma trim_space_sublist: "sublist (trim_space s) s"
proof -
  have "suffix (dropWhile is_space s) s" by (rule suffix_dropWhile)
  moreover have "prefix (trim_space s) (dropWhile is_space s)"
    using suffix_dropWhile [of is_space "rev (dropWhile is_space s)"] by (simp add: trim_space_def suffix_to_prefix)
  ultimately show ?thesis by (metis prefix_imp_sublist suffix_imp_sublist sublist_order.order_trans)
qed

lemma store_all_or_nothing:
  assumes "storeChunks ie source cs (w, s) = ((w', s'), err)"
  shows "s' = s \<and> (err \<noteq> None \<or> kept 0 cs = []) \<or>
    (\<exists>items. st_BulkAdd (ie_Store ie) items s = (s', err) \<and> distinct (map mi_ID items) \<and>
       list_all2 (\<lambda>it (j, x). mi_ID it = chunk_id source j \<and> mi_Text it = x) items (kept 0 cs))"
proof -
  obtain w1 r where e: "embed_chunks ie source (length cs) 0 cs w = (w1, r)" by fastforce
  show ?thesis
  proof (cases r)
    case (Inl x)
    with assms e show ?thesis by (auto simp: storeChunks_def)
  next
    case (Inr items)
    note it = embed_chunks_items [OF e [unfolded Inr]]
    show ?thesis
    proof (cases "items = []")
      case True
      with assms e Inr it show ?thesis by (auto simp: storeChunks_def)
    next
      case False
      with assms e Inr have "st_BulkAdd (ie_Store ie) items s = (s', err)" by (auto simp: storeChunks_def split: prod.splits)
      with items_distinct [OF it] it show ?thesis by blast
    qed
  qed
qed

section \<open>Properties\<close>

text \<open>
  Ingestion is all or nothing. Either the store is untouched (an embedding failed, or there was nothing
  but blank chunks), or all chunks that are not blank are handed to the store in one call, in order,
  under identifiers that are different within the document, whatever the hash does.
\<close>

theorem ingest_all_or_nothing:
  assumes "storeChunks ie source cs (w, s) = ((w', s'), err)"
  shows "s' = s \<and> (err \<noteq> None \<or> kept 0 cs = []) \<or>
    (\<exists>items. st_BulkAdd (ie_Store ie) items s = (s', err) \<and> distinct (map mi_ID items) \<and>
       list_all2 (\<lambda>it (j, x). mi_ID it = chunk_id source j \<and> mi_Text it = x) items (kept 0 cs))"
  by (rule store_all_or_nothing [OF assms])


text \<open>
  The text extracted from an HTML page has no angle bracket, no two spaces in a row, and the clean-up loop
  always ends.
\<close>

theorem html_text_clean:
  "CHR ''<'' \<notin> set (html_text h) \<and> CHR ''>'' \<notin> set (html_text h) \<and> \<not> str_contains (html_text h) ''  ''"
proof -
  have sub: "sublist (html_text h) (collapse (strip_loop False h))" by (simp add: html_text_def trim_space_sublist)
  then have "set (html_text h) \<subseteq> set (collapse (strip_loop False h))" by (rule set_mono_sublist)
  moreover have "ch \<in> set (collapse (strip_loop False h)) \<Longrightarrow> ch \<noteq> CHR ''<'' \<and> ch \<noteq> CHR ''>''" for ch
    using collapse_set [of ch "strip_loop False h"] strip_loop_set [of ch False h] by auto
  moreover have "\<not> str_contains (html_text h) ''  ''"
    using sub collapse_single [of "strip_loop False h"] sublist_order.order_trans by blast
  ultimately show ?thesis by blast
qed

definition wit_ie :: "(unit, cstore) IngestionEngine" where
  "wit_ie = \<lparr>ie_Store = NewInMemCosineStore (\<lambda>xs. xs), ie_Embed = Some (\<lambda>x w. (w, Inr [1])),
     ie_Splitter = \<lparr>ts_ChunkSize = int 2, ts_ChunkOverlap = int 1\<rparr>, ie_now = 0, ie_rfc = (\<lambda>t. [])\<rparr>"

lemma wit_split: "split_words (int 2) (int 1) ''a b c'' = Some (Chunks [''a b'', ''b c''])"
  using split_windows [of 2 1 "''a b c''"]
  by (simp add: fields_abc windows.simps [of 2 "Suc 0" "[''a'', ''b'', ''c'']"] windows.simps [of 2 "Suc 0" "[''b'', ''c'']"])

lemma wit_store: "\<exists>s'. storeChunks wit_ie ''d'' [''a b'', ''b c''] ((), []) = (((), s'), None)"
  by (simp add: storeChunks_def wit_ie_def NewInMemCosineStore_def cos_BulkAdd_def trim_space_def is_space_def)

theorem ingest_all_or_nothing_witness:
  "\<exists>s' items. storeChunks wit_ie ''d'' [''a b'', ''b c''] ((), []) = (((), s'), None) \<and> s' = items \<and> distinct (map mi_ID items) \<and> length items = 2"
proof -
  obtain s' where st: "storeChunks wit_ie ''d'' [''a b'', ''b c''] ((), []) = (((), s'), None)" using wit_store by blast
  have k: "kept 0 [''a b'', ''b c''] = [(0, ''a b''), (1, ''b c'')]" by (simp add: trim_space_def is_space_def)
  with ingest_all_or_nothing [OF st] obtain items where i: "st_BulkAdd (ie_Store wit_ie) items [] = (s', None)" "distinct (map mi_ID items)"
    "list_all2 (\<lambda>it (j, x). mi_ID it = chunk_id ''d'' j \<and> mi_Text it = x) items [(0, ''a b''), (1, ''b c'')]"
    by auto
  have "length items = 2" using i(3) [THEN list_all2_lengthD] by simp
  moreover have "s' = items" using i(1) by (simp add: wit_ie_def NewInMemCosineStore_def cos_BulkAdd_def)
  ultimately show ?thesis using st i(2) by blast
qed


end
