(* ===== verification/Crew_Checkpoint.thy ===== *)
theory Crew_Checkpoint
  imports Go_Files "HOL-Library.List_Lexorder" "HOL-Library.Multiset"
begin

text \<open>
  The file based checkpoints of a crew, \<^verbatim>\<open>pkg/crew/checkpoint.go\<close>, on the disk of \<open>Go_Files\<close>. Files are keyed
  by absolute path; a file holds the checkpoint it decodes to, or \<open>None\<close> when it does not decode.

  The environment gives the working directory and what \<^verbatim>\<open>encoding/json\<close> makes of a checkpoint that is
  encoded and decoded again (an error when it cannot be encoded). Time stamps are nanoseconds since the
  Unix epoch. \<^verbatim>\<open>os.WriteFile\<close> truncates and then writes, so it has two outcomes: when the second fails
  the file is left with a part of the text. Each method holds the manager's mutex.
\<close>

section \<open>Data\<close>

record CrewCheckpoint =
  cc_ID :: string
  cc_CrewID :: string
  cc_Timestamp :: int
  cc_Version :: int
  cc_TaskIndex :: int
  cc_TaskResults :: "(string \<rightharpoonup> string) option"
  cc_State :: "gmap option"
  cc_Status :: string
  cc_Error :: string
  cc_CreatedAt :: int

record CheckpointManager =
  cm_BaseDir :: string
  cm_AutoSaveEnabled :: bool
  cm_MaxCheckpoints :: int

record ckenv =
  ce_cwd :: string
  ce_json :: "CrewCheckpoint \<Rightarrow> CrewCheckpoint result"

type_synonym ckdisk = "CrewCheckpoint option disk"

section \<open>Files\<close>

definition os_WriteFile :: "string \<Rightarrow> CrewCheckpoint \<Rightarrow> ckdisk \<Rightarrow> ckdisk \<times> goerr option" where
  "os_WriteFile path x d =
     (case os_next d of
        (Some e, d1) \<Rightarrow> (d1, Some e)
      | (None, d1) \<Rightarrow>
          (case os_next d1 of
             (Some e, d2) \<Rightarrow> (d2\<lparr>files := AList.update path None (files d2)\<rparr>, Some e)
           | (None, d2) \<Rightarrow> (d2\<lparr>files := AList.update path (Some x) (files d2)\<rparr>, None)))"

text \<open>Here a missing file is an error.\<close>

definition os_Remove :: "string \<Rightarrow> ckdisk \<Rightarrow> ckdisk \<times> goerr option" where
  "os_Remove path d =
     (case os_next d of
        (Some e, d1) \<Rightarrow> (d1, Some e)
      | (None, d1) \<Rightarrow>
          if map_of (files d1) path = None then (d1, Some (EMsg (''remove '' @ path @ '': no such file or directory'')))
          else (d1\<lparr>files := AList.delete path (files d1)\<rparr>, None))"

text \<open>\<^verbatim>\<open>filepath.Abs\<close>, and the file a path denotes.\<close>

definition file_Abs :: "ckenv \<Rightarrow> string \<Rightarrow> ckdisk \<Rightarrow> string result \<times> ckdisk" where
  "file_Abs E p d =
     (if is_rooted p then (Inr (path_clean p), d)
      else (case os_next d of
              (Some e, d1) \<Rightarrow> (Inl e, d1)
            | (None, d1) \<Rightarrow> (Inr (path_join (ce_cwd E) p), d1)))"

definition denotes :: "ckenv \<Rightarrow> string \<Rightarrow> string" where
  "denotes E p = (if is_rooted p then path_clean p else path_join (ce_cwd E) p)"

text \<open>
  \<^verbatim>\<open>filepath.Glob\<close>: the files whose components match those of the pattern, in the order of their
  components. They are returned here as absolute paths.
\<close>

definition file_Glob :: "ckenv \<Rightarrow> string \<Rightarrow> ckdisk \<Rightarrow> string list result" where
  "file_Glob E pattern d =
     (case those (map glob_parse (comps pattern)) of
        None \<Rightarrow> Inl (EMsg ''syntax error in pattern'')
      | Some tss \<Rightarrow>
          (let toks = (if is_rooted pattern then [] else map (map GLit) (comps (ce_cwd E))) @ tss in
           Inr (filter (\<lambda>f. list_all2 glob_match toks (comps f)) (sort_key comps (map fst (files d))))))"

section \<open>The manager\<close>

definition NewCheckpointManager :: "string \<Rightarrow> CheckpointManager" where
  "NewCheckpointManager baseDir =
     \<lparr>cm_BaseDir = (if baseDir = [] then ''.crew_checkpoints'' else baseDir), cm_AutoSaveEnabled = True, cm_MaxCheckpoints = 10\<rparr>"

definition id_char :: "char \<Rightarrow> bool" where
  "id_char r \<longleftrightarrow>
     (CHR ''A'' \<le> r \<and> r \<le> CHR ''Z'') \<or> (CHR ''a'' \<le> r \<and> r \<le> CHR ''z'') \<or> (CHR ''0'' \<le> r \<and> r \<le> CHR ''9'') \<or>
     r = CHR ''-'' \<or> r = CHR ''_'' \<or> r = CHR ''.''"

definition validCheckpointID :: "string \<Rightarrow> bool" where
  "validCheckpointID i \<longleftrightarrow>
     \<not> (i = [] \<or> length i > 128) \<and> list_all id_char i \<and> \<not> (i = ''.'' \<or> i = ''..'')"

definition joinBase :: "ckenv \<Rightarrow> CheckpointManager \<Rightarrow> string \<Rightarrow> ckdisk \<Rightarrow> string result \<times> ckdisk" where
  "joinBase E cm name d =
     (case file_Abs E (cm_BaseDir cm) d of
        (Inl e, d1) \<Rightarrow> (Inl (EWrap ''failed to resolve checkpoint dir: '' e []), d1)
      | (Inr absBase, d1) \<Rightarrow>
          (let p = path_join absBase name in
           if p \<noteq> absBase \<and> \<not> has_prefix p (absBase @ ''/'')
           then (Inl (EMsg ''checkpoint path escapes base directory''), d1)
           else (Inr p, d1)))"

definition UnixMilli :: "int \<Rightarrow> int" where
  "UnixMilli t = t div 1000000"

definition version_name :: "string \<Rightarrow> int \<Rightarrow> string" where
  "version_name crewID ms = ''checkpoint_'' @ crewID @ ''_'' @ show_int ms @ ''.json''"

definition latest_name :: "string \<Rightarrow> string" where
  "latest_name crewID = ''checkpoint_'' @ crewID @ ''_latest.json''"

definition loadFromFile :: "string \<Rightarrow> ckdisk \<Rightarrow> CrewCheckpoint result \<times> ckdisk" where
  "loadFromFile path d =
     (case read_file path d of
        (Inl e, d1) \<Rightarrow> (Inl (EWrap ''failed to read checkpoint: '' e []), d1)
      | (Inr None, d1) \<Rightarrow> (Inl (EWrap ''failed to read checkpoint: '' (EMsg (''open '' @ path @ '': no such file or directory'')) []), d1)
      | (Inr (Some None), d1) \<Rightarrow> (Inl (EMsg ''failed to parse checkpoint: ''), d1)
      | (Inr (Some (Some cp)), d1) \<Rightarrow> (Inr cp, d1))"

fun load_matches :: "string \<Rightarrow> string list \<Rightarrow> ckdisk \<Rightarrow> CrewCheckpoint list \<times> ckdisk" where
  "load_matches crewID [] d = ([], d)"
| "load_matches crewID (path # ps) d =
     (if last (comps path) = latest_name crewID then load_matches crewID ps d
      else (case loadFromFile path d of
              (Inl e, d1) \<Rightarrow> load_matches crewID ps d1
            | (Inr cp, d1) \<Rightarrow> (case load_matches crewID ps d1 of (cps, d2) \<Rightarrow> (cp # cps, d2))))"

definition ListCheckpoints :: "ckenv \<Rightarrow> CheckpointManager \<Rightarrow> string \<Rightarrow> ckdisk \<Rightarrow> CrewCheckpoint list result \<times> ckdisk" where
  "ListCheckpoints E cm crewID d =
     (case file_Glob E (path_join (cm_BaseDir cm) (''checkpoint_'' @ crewID @ ''_*.json'')) d of
        Inl e \<Rightarrow> (Inl e, d)
      | Inr matches \<Rightarrow> (case load_matches crewID matches d of (cps, d1) \<Rightarrow> (Inr cps, d1)))"

fun remove_versions :: "ckenv \<Rightarrow> CheckpointManager \<Rightarrow> string \<Rightarrow> CrewCheckpoint list \<Rightarrow> ckdisk \<Rightarrow> ckdisk" where
  "remove_versions E cm crewID [] d = d"
| "remove_versions E cm crewID (cp # cps) d =
     remove_versions E cm crewID cps
       (fst (os_Remove (denotes E (path_join (cm_BaseDir cm) (version_name crewID (UnixMilli (cc_Timestamp cp))))) d))"

text \<open>A negative \<^verbatim>\<open>MaxCheckpoints\<close> would index the slice below zero; that panic is \<open>None\<close>.\<close>

definition cleanup :: "ckenv \<Rightarrow> CheckpointManager \<Rightarrow> string \<Rightarrow> ckdisk \<Rightarrow> ckdisk option" where
  "cleanup E cm crewID d =
     (case ListCheckpoints E cm crewID d of
        (Inl e, d1) \<Rightarrow> Some d1
      | (Inr cps, d1) \<Rightarrow>
          if int (length cps) \<le> cm_MaxCheckpoints cm then Some d1
          else if cm_MaxCheckpoints cm < 0 then None
          else Some (remove_versions E cm crewID (drop (nat (cm_MaxCheckpoints cm)) cps) d1))"

text \<open>\<^verbatim>\<open>Save\<close> also sets the time stamp and the version in the caller's checkpoint. \<open>None\<close>: it panics.\<close>

definition cc_Save ::
  "ckenv \<Rightarrow> CheckpointManager \<Rightarrow> int \<Rightarrow> CrewCheckpoint \<Rightarrow> ckdisk \<Rightarrow> (CrewCheckpoint \<times> ckdisk \<times> goerr option) option" where
  "cc_Save E cm now cp0 d =
     (if \<not> validCheckpointID (cc_CrewID cp0) then Some (cp0, d, Some (EMsg ''invalid checkpoint crew id''))
      else let cp = cp0\<lparr>cc_Timestamp := now, cc_Version := cc_Version cp0 + 1\<rparr> in
        case joinBase E cm (version_name (cc_CrewID cp) (UnixMilli now)) d of
          (Inl e, d1) \<Rightarrow> Some (cp, d1, Some e)
        | (Inr path, d1) \<Rightarrow>
            (case ce_json E cp of
               Inl e \<Rightarrow> Some (cp, d1, Some (EWrap ''failed to marshal checkpoint: '' e []))
             | Inr x \<Rightarrow>
                 (case os_WriteFile path x d1 of
                    (d2, Some e) \<Rightarrow> Some (cp, d2, Some (EWrap ''failed to write checkpoint: '' e []))
                  | (d2, None) \<Rightarrow>
                      (case joinBase E cm (latest_name (cc_CrewID cp)) d2 of
                         (Inl e, d3) \<Rightarrow> Some (cp, d3, Some e)
                       | (Inr latestPath, d3) \<Rightarrow>
                           (case os_WriteFile latestPath x d3 of
                              (d4, Some e) \<Rightarrow> Some (cp, d4, Some (EWrap ''failed to write latest checkpoint: '' e []))
                            | (d4, None) \<Rightarrow> map_option (\<lambda>d5. (cp, d5, None)) (cleanup E cm (cc_CrewID cp) d4))))))"

definition cc_Delete :: "ckenv \<Rightarrow> CheckpointManager \<Rightarrow> string \<Rightarrow> int \<Rightarrow> ckdisk \<Rightarrow> ckdisk \<times> goerr option" where
  "cc_Delete E cm crewID timestamp d =
     (if \<not> validCheckpointID crewID then (d, Some (EMsg ''invalid checkpoint crew id''))
      else (case joinBase E cm (version_name crewID timestamp) d of
              (Inl e, d1) \<Rightarrow> (d1, Some e)
            | (Inr p, d1) \<Rightarrow> os_Remove p d1))"

definition LoadLatest :: "ckenv \<Rightarrow> CheckpointManager \<Rightarrow> string \<Rightarrow> ckdisk \<Rightarrow> CrewCheckpoint result \<times> ckdisk" where
  "LoadLatest E cm crewID d =
     (if \<not> validCheckpointID crewID then (Inl (EMsg ''invalid checkpoint crew id''), d)
      else (case joinBase E cm (latest_name crewID) d of
              (Inl e, d1) \<Rightarrow> (Inl e, d1)
            | (Inr p, d1) \<Rightarrow> loadFromFile p d1))"

definition LoadByID :: "ckenv \<Rightarrow> CheckpointManager \<Rightarrow> string \<Rightarrow> int \<Rightarrow> ckdisk \<Rightarrow> CrewCheckpoint result \<times> ckdisk" where
  "LoadByID E cm crewID timestamp d =
     (if \<not> validCheckpointID crewID then (Inl (EMsg ''invalid checkpoint crew id''), d)
      else (case joinBase E cm (version_name crewID timestamp) d of
              (Inl e, d1) \<Rightarrow> (Inl e, d1)
            | (Inr p, d1) \<Rightarrow> loadFromFile p d1))"

text \<open>The result of \<^verbatim>\<open>Save\<close> is ignored. \<open>now1\<close> and \<open>now2\<close> are the two readings of the clock.\<close>

definition SaveOnFailure ::
  "ckenv \<Rightarrow> CheckpointManager \<Rightarrow> string \<Rightarrow> int \<Rightarrow> (string \<rightharpoonup> string) option \<Rightarrow> gmap option \<Rightarrow> goerr \<Rightarrow> int \<Rightarrow> int \<Rightarrow> ckdisk \<Rightarrow> ckdisk option" where
  "SaveOnFailure E cm crewID taskIndex results state err now1 now2 d =
     map_option (\<lambda>(cp, d1, e). d1)
       (cc_Save E cm now2
          \<lparr>cc_ID = crewID @ ''_fail_'' @ show_int (UnixMilli now1), cc_CrewID = crewID, cc_Timestamp = 0, cc_Version = 0,
           cc_TaskIndex = taskIndex, cc_TaskResults = results, cc_State = state, cc_Status = ''failed'', cc_Error = err_text err, cc_CreatedAt = 0\<rparr> d)"

section \<open>Names and paths\<close>

text \<open>The base directories the lemmas are about: absolute, clean, not the root.\<close>

definition clean_base :: "string \<Rightarrow> bool" where
  "clean_base b \<longleftrightarrow> is_rooted b \<and> path_clean b = b \<and> b \<noteq> ''/''"

definition file_name :: "string \<Rightarrow> bool" where
  "file_name n \<longleftrightarrow> CHR ''/'' \<notin> set n \<and> n \<noteq> [] \<and> n \<noteq> ''.'' \<and> n \<noteq> ''..''"

lemma path_join_base:
  assumes "clean_base b" "file_name n"
  shows "path_join b n = b @ ''/'' @ n"
proof -
  have b: "is_rooted b" "path_clean b = b" "b \<noteq> []" using assms(1) by (auto simp: clean_base_def is_rooted_def)
  have r: "b = CHR ''/'' # str_join (rev (clean_stack b)) ''/''"
    using b(1,2) by (simp add: path_clean_def render_path_def Let_def)
  have ne: "clean_stack b \<noteq> []" using r assms(1) by (auto simp: clean_base_def)
  have "path_join b n = CHR ''/'' # str_join (rev (clean_stack b) @ [n]) ''/''"
    using path_join_child [of n b] assms(2) b by (simp add: file_name_def render_path_def Let_def)
  also have "\<dots> = (CHR ''/'' # str_join (rev (clean_stack b)) ''/'') @ ''/'' @ n" using ne by (simp add: str_join_snoc)
  also have "\<dots> = b @ ''/'' @ n" using r by simp
  finally show ?thesis .
qed

lemma comps_child: "file_name n \<Longrightarrow> comps (b @ CHR ''/'' # n) = comps b @ [n]"
  by (simp add: comps_def split_byte_append split_byte_notin file_name_def)

lemma joinBase_ok:
  assumes "clean_base (cm_BaseDir cm)" "file_name n"
  shows "joinBase E cm n d = (Inr (cm_BaseDir cm @ ''/'' @ n), d)"
  using assms path_join_base [OF assms]
  by (simp add: joinBase_def file_Abs_def clean_base_def Let_def)

lemma denotes_child:
  assumes "clean_base (cm_BaseDir cm)" "file_name n"
  shows "denotes E (path_join (cm_BaseDir cm) n) = cm_BaseDir cm @ ''/'' @ n"
proof -
  define b where "b = cm_BaseDir cm"
  have b: "clean_base b" "is_rooted b" "b \<noteq> []" using assms(1) by (auto simp: b_def clean_base_def is_rooted_def)
  have j: "path_join b n = b @ ''/'' @ n" by (rule path_join_base [OF b(1) assms(2)])
  moreover have "path_clean (b @ ''/'' @ n) = path_join b n" using b(3) assms(2) by (simp add: path_join_def file_name_def)
  ultimately show ?thesis using b(2,3) by (simp add: denotes_def is_rooted_def b_def [symmetric])
qed

lemma id_char_plain: "id_char r \<Longrightarrow> r \<notin> {CHR ''/'', CHR ''*'', CHR ''?'', CHR ''['', CHR 0x5C}"
  by (auto simp: id_char_def less_eq_char_def)

lemma valid_id_plain: "validCheckpointID i \<Longrightarrow> CHR ''/'' \<notin> set i \<and> plain_chars i"
  using id_char_plain by (auto simp: validCheckpointID_def plain_chars_def list_all_iff)

lemma show_int_plain: "c \<in> set (show_int t) \<Longrightarrow> c \<noteq> CHR ''/'' \<and> c \<noteq> CHR ''_'' \<and> c \<noteq> CHR ''l'' \<and> c \<noteq> CHR ''t''"
  using show_nat_digits [of c] by (auto simp: show_int_def less_eq_char_def split: if_splits)

lemma names_ok:
  assumes "validCheckpointID i"
  shows "file_name (version_name i t)" "file_name (latest_name i)"
  using valid_id_plain [OF assms] show_int_plain [of "CHR ''/''" t]
  by (auto simp: version_name_def latest_name_def file_name_def)

lemma latest_not_version: "latest_name i \<noteq> version_name j t"
proof
  assume e: "latest_name i = version_name j t"
  have "rev (latest_name i) ! 5 = CHR ''t''" by (simp add: latest_name_def nth_append)
  moreover have "show_int t \<noteq> []" by (simp add: show_int_def)
  then obtain xs c where c: "show_int t = xs @ [c]" by (metis rev_exhaust)
  then have "rev (version_name j t) ! 5 = c" by (simp add: version_name_def nth_append)
  ultimately show False using e c show_int_plain [of c t] by simp
qed

lemma latest_name_inj: "latest_name i = latest_name j \<longleftrightarrow> i = j"
  by (simp add: latest_name_def)

section \<open>A healthy disk\<close>

lemma write_healthy: "os_errs d = [] \<Longrightarrow> os_WriteFile p x d = (d\<lparr>files := AList.update p (Some x) (files d)\<rparr>, None)"
  by (simp add: os_WriteFile_def)

lemma load_healthy:
  "os_errs d = [] \<Longrightarrow> map_of (files d) p = Some (Some cp) \<Longrightarrow> loadFromFile p d = (Inr cp, d)"
  by (simp add: loadFromFile_def read_file_def)

lemma loadFromFile_disk: "os_errs d = [] \<Longrightarrow> snd (loadFromFile p d) = d"
  by (simp add: loadFromFile_def read_file_def split: option.splits)

lemma loadFromFile_cong:
  "os_errs d = [] \<Longrightarrow> os_errs d' = [] \<Longrightarrow> map_of (files d') p = map_of (files d) p \<Longrightarrow> fst (loadFromFile p d') = fst (loadFromFile p d)"
  by (simp add: loadFromFile_def read_file_def split: option.splits)

lemma load_matches_disk: "os_errs d = [] \<Longrightarrow> snd (load_matches i ps d) = d"
proof (induction i ps d rule: load_matches.induct)
  case (2 i path ps d)
  then show ?case
    using loadFromFile_disk [of d path]
    by (auto split: sum.splits prod.splits)
qed simp

lemma ListCheckpoints_disk: "os_errs d = [] \<Longrightarrow> snd (ListCheckpoints E cm i d) = d"
  using load_matches_disk [of d i] by (auto simp: ListCheckpoints_def split: sum.splits prod.splits) (metis snd_conv)

text \<open>Removing versions touches nothing but versions.\<close>

lemma remove_versions_frame:
  assumes "os_errs d = []" "\<forall>t. p \<noteq> denotes E (path_join (cm_BaseDir cm) (version_name i t))"
  shows "os_errs (remove_versions E cm i cps d) = [] \<and> map_of (files (remove_versions E cm i cps d)) p = map_of (files d) p"
  using assms
proof (induction cps arbitrary: d)
  case (Cons cp cps)
  let ?d1 = "fst (os_Remove (denotes E (path_join (cm_BaseDir cm) (version_name i (UnixMilli (cc_Timestamp cp))))) d)"
  have "os_errs ?d1 = []" "map_of (files ?d1) p = map_of (files d) p"
    using Cons.prems by (simp_all add: os_Remove_def delete_conv)
  with Cons.IH [of ?d1] Cons.prems(2) show ?case by simp
qed simp

lemma cleanup_frame:
  assumes "os_errs d = []" "0 \<le> cm_MaxCheckpoints cm"
  obtains d' where "cleanup E cm i d = Some d'" "os_errs d' = []"
    "\<And>p. \<forall>t. p \<noteq> denotes E (path_join (cm_BaseDir cm) (version_name i t)) \<Longrightarrow> map_of (files d') p = map_of (files d) p"
proof -
  obtain r where r: "ListCheckpoints E cm i d = (r, d)"
    using ListCheckpoints_disk [OF assms(1), of E cm i] by (metis surjective_pairing)
  show ?thesis
  proof (cases r)
    case (Inl e)
    then have "cleanup E cm i d = Some d" using r by (simp add: cleanup_def)
    then show ?thesis by (rule that) (use assms(1) in auto)
  next
    case (Inr cps)
    let ?d = "if int (length cps) \<le> cm_MaxCheckpoints cm then d else remove_versions E cm i (drop (nat (cm_MaxCheckpoints cm)) cps) d"
    have "os_errs (remove_versions E cm i cs d) = []" for cs
      using assms(1) by (induction cs arbitrary: d) (simp_all add: os_Remove_def)
    moreover have "cleanup E cm i d = Some ?d" using r Inr assms(2) by (simp add: cleanup_def)
    ultimately show ?thesis by (intro that [of ?d]) (use assms remove_versions_frame in auto)
  qed
qed

section \<open>Listing\<close>

lemma lex_append: "xs @ ys < xs @ zs \<longleftrightarrow> ys < (zs :: 'a :: linorder list)"
  by (induction xs) auto

lemma lex_append_less: "length xs = length ys \<Longrightarrow> xs < ys \<Longrightarrow> xs @ s < ys @ (t :: 'a :: linorder list)"
proof (induction xs ys rule: list_induct2)
  case (Cons x xs y ys)
  then show ?case by auto
qed simp

lemma digit_less: "m < n \<Longrightarrow> n < 10 \<Longrightarrow> (char_of (48 + m) :: char) < char_of (48 + n)" for m n :: nat
  by (simp add: less_char_def of_char_of)

text \<open>Numerals of the same length are ordered like their numbers.\<close>

lemma show_nat_less: "length (show_nat m) = length (show_nat n) \<Longrightarrow> m < n \<Longrightarrow> show_nat m < show_nat n"
proof (induction m arbitrary: n rule: show_nat.induct)
  case (1 m)
  show ?case
  proof (cases "n < 10")
    case True
    with "1.prems" show ?thesis by (simp add: show_nat.simps [of m] show_nat.simps [of n] digit_less)
  next
    case False
    with "1.prems"(1) have m: "\<not> m < 10" by (auto simp: show_nat.simps [of m] show_nat.simps [of n])
    have e: "show_nat m = show_nat (m div 10) @ [char_of (48 + m mod 10)]" "show_nat n = show_nat (n div 10) @ [char_of (48 + n mod 10)]"
      using m False by (simp_all add: show_nat.simps [of m] show_nat.simps [of n])
    then have l: "length (show_nat (m div 10)) = length (show_nat (n div 10))" using "1.prems"(1) by simp
    show ?thesis
    proof (cases "m div 10 < n div 10")
      case True
      from lex_append_less [OF l "1.IH" [OF m l True]] show ?thesis by (simp add: e)
    next
      case d: False
      then have "m div 10 = n div 10" using \<open>m < n\<close> by (simp add: div_le_mono leD le_less)
      moreover then have "m mod 10 < n mod 10" using \<open>m < n\<close> by (metis add_less_cancel_left div_mult_mod_eq)
      ultimately show ?thesis by (simp add: e lex_append digit_less)
    qed
  qed
qed

lemma version_name_less:
  assumes "length (show_int s) = length (show_int t)" "0 \<le> s" "s < t"
  shows "version_name i s < version_name i t"
  using lex_append_less [OF _ show_nat_less, of "nat s" "nat t" "''.json''" "''.json''"] assms
  by (simp add: version_name_def lex_append show_int_def)

lemma version_less_latest: "0 \<le> t \<Longrightarrow> version_name i t < latest_name i"
proof -
  assume "0 \<le> t"
  obtain c cs where c: "show_nat (nat t) = c # cs" by (metis list.exhaust show_nat_ne)
  have "c < CHR ''l''" using show_nat_digits [of c "nat t"] c by (auto simp: less_eq_char_def less_char_def)
  with \<open>0 \<le> t\<close> c show ?thesis by (simp add: version_name_def latest_name_def lex_append show_int_def)
qed

lemma split_byte_subset: "p \<in> set (split_byte c s) \<Longrightarrow> set p \<subseteq> set s"
proof (induction s arbitrary: p)
  case (Cons x s)
  obtain q qs where q: "split_byte c s = q # qs" by (metis list.exhaust split_byte_ne)
  with Cons.IH have "set r \<subseteq> set s" if "r = q \<or> r \<in> set qs" for r using that by auto
  with Cons.prems q show ?case by (fastforce split: if_splits)
qed simp

lemma parse_comps:
  assumes "\<forall>c\<in>set cs. plain_chars c" "plain_chars p"
  shows "those (map glob_parse (cs @ [p @ ''*.json''])) = Some (map (map GLit) cs @ [map GLit p @ GStar # map GLit ''.json''])"
  using assms(1)
proof (induction cs)
  case Nil
  then show ?case using glob_parse_plain [OF assms(2), of "''*.json''"] by simp
next
  case (Cons c cs)
  then show ?case using glob_parse_plain [of c "[]"] by simp
qed

lemma glob_match_all_lits: "list_all2 glob_match (map (map GLit) cs) cs"
proof (induction cs)
  case (Cons c cs)
  then show ?case using glob_match_lits [of c "[]" c] by simp
qed simp

lemma glob_match_version:
  assumes "CHR ''/'' \<notin> set n"
  shows "glob_match (map GLit p @ GStar # map GLit ''.json'') n \<longleftrightarrow> (\<exists>x. n = p @ x @ ''.json'')"
proof -
  have lits: "glob_match (map GLit q) t \<longleftrightarrow> t = q" for q t using glob_match_lits [of q "[]" t] by simp
  show ?thesis unfolding glob_match_lits using assms by (auto simp: glob_match_star lits suffix_def simp del: list.map)
qed

text \<open>In a directory of files the pattern finds the names that extend the crew identifier, in order.\<close>

lemma file_Glob_child:
  fixes cm d ns
  defines "path \<equiv> \<lambda>n. cm_BaseDir cm @ ''/'' @ n"
  assumes b: "clean_base (cm_BaseDir cm)" "plain_chars (cm_BaseDir cm)" and i: "validCheckpointID i"
    and fs: "map fst (files d) = map path ns" "list_all file_name ns"
  shows "file_Glob E (path_join (cm_BaseDir cm) (''checkpoint_'' @ i @ ''_*.json'')) d =
    Inr (map path (filter (\<lambda>n. \<exists>x. n = ''checkpoint_'' @ i @ ''_'' @ x @ ''.json'') (sort ns)))"
proof -
  let ?b = "cm_BaseDir cm" and ?p = "''checkpoint_'' @ i @ ''_''"
  let ?tok = "map GLit ?p @ GStar # map GLit ''.json''"
  have pn: "file_name (?p @ ''*.json'')" "plain_chars ?p"
    using valid_id_plain [OF i] by (auto simp: file_name_def plain_chars_def)
  have pat: "path_join ?b (''checkpoint_'' @ i @ ''_*.json'') = path (?p @ ''*.json'')"
    using path_join_base [OF b(1) pn(1)] by (simp add: path_def)
  have root: "is_rooted (path n)" for n using b(1) by (auto simp: clean_base_def is_rooted_def path_def)
  have cp: "comps (path n) = comps ?b @ [n]" if "file_name n" for n using comps_child [OF that, of ?b] by (simp add: path_def)
  have "\<forall>c\<in>set (comps ?b). plain_chars c"
    using b(2) split_byte_subset [of _ "CHR ''/''" ?b] by (fastforce simp: comps_def plain_chars_def)
  then have toks: "those (map glob_parse (comps (path (?p @ ''*.json'')))) = Some (map (map GLit) (comps ?b) @ [?tok])"
    unfolding cp [OF pn(1)] using pn(2) by (rule parse_comps)
  have m: "list_all2 glob_match (map (map GLit) (comps ?b) @ [?tok]) (comps (path n)) \<longleftrightarrow> (\<exists>x. n = ?p @ x @ ''.json'')"
    if "file_name n" for n
    using that glob_match_version [of n ?p] glob_match_all_lits [of "comps ?b"]
    by (simp only: cp [OF that] list_all2_append length_map list_all2_Cons list_all2_Nil file_name_def simp_thms)
  have srt: "sort_key comps (map path ns) = map path (sort ns)"
  proof (rule sort_key_inj_key_eq)
    show "inj_on comps (set (map path ns))" using fs(2) by (auto simp: inj_on_def cp list_all_iff)
    have "sorted (map (\<lambda>n. comps ?b @ [n]) (sort ns))"
      unfolding sorted_map using sorted_sort [of ns] by (rule sorted_wrt_mono_rel [rotated]) (auto simp: le_less lex_append)
    also have "map (\<lambda>n. comps ?b @ [n]) (sort ns) = map comps (map path (sort ns))" using fs(2) by (simp add: cp list_all_iff)
    finally show "sorted (map comps (map path (sort ns)))" .
  qed simp
  have "filter (\<lambda>f. list_all2 glob_match (map (map GLit) (comps ?b) @ [?tok]) (comps f)) (map path (sort ns)) =
    map path (filter (\<lambda>n. \<exists>x. n = ?p @ x @ ''.json'') (sort ns))"
    unfolding filter_map o_def using fs(2) m by (intro arg_cong [of _ _ "map path"] filter_cong) (auto simp: list_all_iff)
  then show ?thesis
    unfolding pat file_Glob_def toks option.case Let_def fs(1) srt using root by simp
qed

lemma load_matches_all:
  assumes "os_errs d = []" "\<forall>t\<in>set ts. map_of (files d) (p t) = Some (Some (f t)) \<and> last (comps (p t)) \<noteq> latest_name i"
    "last (comps l) = latest_name i"
  shows "load_matches i (map p ts @ [l]) d = (map f ts, d)"
  using assms(2) by (induction ts) (auto simp: assms(1,3) load_healthy)

lemma remove_versions_files:
  assumes "os_errs d = []"
  shows "remove_versions E cm i cps d =
    d\<lparr>files := filter (\<lambda>(k, v). k \<notin> (\<lambda>cp. denotes E (path_join (cm_BaseDir cm) (version_name i (UnixMilli (cc_Timestamp cp))))) ` set cps) (files d)\<rparr>"
  using assms
proof (induction cps arbitrary: d)
  case (Cons cp cps)
  let ?q = "denotes E (path_join (cm_BaseDir cm) (version_name i (UnixMilli (cc_Timestamp cp))))"
  have "AList.delete ?q (files d) = files d" if "map_of (files d) ?q = None"
    using that by (simp add: delete_id map_of_eq_None_iff)
  then have "fst (os_Remove ?q d) = d\<lparr>files := AList.delete ?q (files d)\<rparr>"
    using Cons.prems by (auto simp: os_Remove_def)
  moreover have "AList.delete ?q (files d) = filter (\<lambda>(k, v). k \<noteq> ?q) (files d)" by (auto simp: AList.delete_eq intro: filter_cong)
  ultimately show ?case
    using Cons.prems Cons.IH [of "d\<lparr>files := filter (\<lambda>(k, v). k \<noteq> ?q) (files d)\<rparr>"]
    by (simp add: case_prod_beta conj_commute)
qed simp

text \<open>The contents of a directory with the versions \<open>ts\<close> of one crew.\<close>

definition version_dir :: "CheckpointManager \<Rightarrow> string \<Rightarrow> (int \<Rightarrow> CrewCheckpoint) \<Rightarrow> int list \<Rightarrow> CrewCheckpoint option \<Rightarrow> (string \<times> CrewCheckpoint option) list" where
  "version_dir cm i f ts x =
     (cm_BaseDir cm @ ''/'' @ latest_name i, x) # map (\<lambda>t. (cm_BaseDir cm @ ''/'' @ version_name i t, Some (f t))) ts"

definition stamped :: "(int \<Rightarrow> CrewCheckpoint) \<Rightarrow> int list \<Rightarrow> bool" where
  "stamped f ts \<longleftrightarrow> sorted_wrt (<) ts \<and> (\<forall>t\<in>set ts. 0 \<le> t \<and> length (show_int t) = 13 \<and> UnixMilli (cc_Timestamp (f t)) = t)"

lemma stamped_names:
  assumes "stamped f ts"
  shows "sorted (map (version_name i) ts @ [latest_name i])" "distinct (map (version_name i) ts @ [latest_name i])"
proof -
  have "sorted_wrt (\<lambda>x y. version_name i x < version_name i y) ts"
  proof (rule sorted_wrt_mono_rel)
    show "sorted_wrt (<) ts" using assms by (simp add: stamped_def)
    fix s t assume "s \<in> set ts" "t \<in> set ts" "s < t"
    moreover from this assms have "0 \<le> s" "length (show_int s) = length (show_int t)" by (simp_all add: stamped_def)
    ultimately show "version_name i s < version_name i t" by (intro version_name_less)
  qed
  then have "sorted_wrt (<) (map (version_name i) ts @ [latest_name i])"
    using assms by (auto simp: stamped_def sorted_wrt_append sorted_wrt_map version_less_latest)
  then show "sorted (map (version_name i) ts @ [latest_name i])" "distinct (map (version_name i) ts @ [latest_name i])"
    by (auto simp: strict_sorted_iff)
qed

lemma ListCheckpoints_dir:
  assumes b: "clean_base (cm_BaseDir cm)" "plain_chars (cm_BaseDir cm)" and i: "validCheckpointID i"
    and d: "os_errs d = []" "mset (files d) = mset (version_dir cm i f ts x)" and ts: "stamped f ts"
  shows "ListCheckpoints E cm i d = (Inr (map f ts), d)"
proof -
  define path where "path = (\<lambda>n. cm_BaseDir cm @ ''/'' @ n)"
  define ns where "ns = map (\<lambda>kv. drop (Suc (length (cm_BaseDir cm))) (fst kv)) (files d)"
  define vs where "vs = map (version_name i) ts @ [latest_name i]"
  have unpath: "drop (Suc (length (cm_BaseDir cm))) (path n) = n" for n by (simp add: path_def)
  have keys: "mset (map fst (files d)) = mset (map path vs)"
    using arg_cong [OF d(2), of "image_mset fst"] by (simp add: version_dir_def vs_def path_def comp_def multiset.map_comp)
  have "mset ns = image_mset (drop (Suc (length (cm_BaseDir cm)))) (mset (map fst (files d)))"
    by (simp add: ns_def multiset.map_comp comp_def)
  also have "\<dots> = mset vs" unfolding keys by (simp add: multiset.map_comp comp_def unpath)
  finally have ns: "mset ns = mset vs" .
  have "k \<in> path ` set vs" if "k \<in> fst ` set (files d)" for k
    using that keys by (metis set_map set_mset_mset)
  then have "fst kv = path (drop (Suc (length (cm_BaseDir cm))) (fst kv))" if "kv \<in> set (files d)" for kv
    using that unpath by (metis (no_types, lifting) imageE imageI)
  then have fs: "map fst (files d) = map path ns" by (simp add: ns_def)
  have "list_all file_name vs" using names_ok [OF i] by (auto simp: vs_def list_all_iff)
  then have fn: "list_all file_name ns" using ns by (metis Ball_set set_mset_mset)
  have srt: "sort ns = vs" using ns stamped_names(1) [OF ts, of i] by (intro properties_for_sort) (simp_all add: vs_def)
  have "\<exists>y. version_name i t = ''checkpoint_'' @ i @ ''_'' @ y @ ''.json''" "\<exists>y. latest_name i = ''checkpoint_'' @ i @ ''_'' @ y @ ''.json''" for t
    by (auto simp: version_name_def latest_name_def intro: exI [of _ "''latest''"])
  then have "filter (\<lambda>n. \<exists>y. n = ''checkpoint_'' @ i @ ''_'' @ y @ ''.json'') vs = vs" by (auto simp: vs_def filter_id_conv)
  then have glob: "file_Glob E (path_join (cm_BaseDir cm) (''checkpoint_'' @ i @ ''_*.json'')) d = Inr (map path vs)"
    using file_Glob_child [OF b i fs [unfolded path_def] fn] by (simp add: srt path_def)
  have "distinct (map path vs)" using stamped_names(2) [OF ts, of i] by (auto simp: vs_def distinct_map inj_on_def path_def)
  then have dist: "distinct (map fst (files d))" using keys by (metis mset_eq_imp_distinct_iff)
  have "(path (version_name i t), Some (f t)) \<in> set (files d)" if "t \<in> set ts" for t
    using that d(2) by (metis (no_types, lifting) image_eqI list.set_intros(2) list.set_map path_def set_mset_mset version_dir_def)
  then have m: "map_of (files d) (path (version_name i t)) = Some (Some (f t))" if "t \<in> set ts" for t
    using that dist by simp
  have c: "last (comps (path n)) = n" if "file_name n" for n using comps_child [OF that, of "cm_BaseDir cm"] by (simp add: path_def)
  have "load_matches i (map (\<lambda>t. path (version_name i t)) ts @ [path (latest_name i)]) d = (map f ts, d)"
    using m d(1) by (intro load_matches_all) (auto simp: c names_ok [OF i] latest_not_version [symmetric])
  then show ?thesis unfolding ListCheckpoints_def glob vs_def by (simp add: comp_def)
qed

text \<open>What cleanup keeps are the oldest versions.\<close>

lemma cleanup_dir:
  assumes b: "clean_base (cm_BaseDir cm)" "plain_chars (cm_BaseDir cm)" and i: "validCheckpointID i"
    and d: "os_errs d = []" "mset (files d) = mset (version_dir cm i f ts x)" and ts: "stamped f ts"
    and m: "0 \<le> cm_MaxCheckpoints cm"
  shows "\<exists>d'. cleanup E cm i d = Some d' \<and> os_errs d' = [] \<and>
    mset (files d') = mset (version_dir cm i f (take (nat (cm_MaxCheckpoints cm)) ts) x)"
proof (cases "int (length ts) \<le> cm_MaxCheckpoints cm")
  case True
  then have "cleanup E cm i d = Some d" using ListCheckpoints_dir [OF b i d ts] by (simp add: cleanup_def)
  moreover have "take (nat (cm_MaxCheckpoints cm)) ts = ts" using True by simp
  ultimately show ?thesis using d by simp
next
  case False
  define k where "k = nat (cm_MaxCheckpoints cm)"
  let ?p = "\<lambda>t. cm_BaseDir cm @ ''/'' @ version_name i t"
  let ?d = "remove_versions E cm i (drop k (map f ts)) d"
  have c: "cleanup E cm i d = Some ?d" using False m ListCheckpoints_dir [OF b i d ts, of E] by (simp add: cleanup_def k_def)
  have "UnixMilli (cc_Timestamp (f t)) = t" if "t \<in> set (drop k ts)" for t
    using ts in_set_dropD [OF that] by (simp add: stamped_def)
  then have rem: "(\<lambda>cp. denotes E (path_join (cm_BaseDir cm) (version_name i (UnixMilli (cc_Timestamp cp))))) ` set (drop k (map f ts)) = ?p ` set (drop k ts)"
    unfolding drop_map set_map image_image using denotes_child [OF b(1) names_ok(1) [OF i]] by (intro image_cong) auto
  have inj: "inj_on (version_name i) (set ts)" and dist: "distinct ts"
    using stamped_names(2) [OF ts, of i] by (simp_all add: distinct_map)
  have disj: "set (take k ts) \<inter> set (drop k ts) = {}" using dist by (metis append_take_drop_id distinct_append)
  have keep: "filter (\<lambda>t. ?p t \<notin> ?p ` set (drop k ts)) ts = take k ts"
  proof -
    have pinj: "inj_on ?p (set ts)" using inj by (simp add: inj_on_def)
    have "?p t \<notin> ?p ` set (drop k ts)" if "t \<in> set (take k ts)" for t
      using inj_on_image_mem_iff [OF pinj in_set_takeD [OF that] set_drop_subset] that disj by blast
    then have "filter (\<lambda>t. ?p t \<notin> ?p ` set (drop k ts)) (take k ts) = take k ts" by (simp add: filter_id_conv)
    moreover have "filter (\<lambda>t. ?p t \<notin> ?p ` set (drop k ts)) (drop k ts) = []" by (simp add: filter_empty_conv)
    ultimately have "filter (\<lambda>t. ?p t \<notin> ?p ` set (drop k ts)) (take k ts @ drop k ts) = take k ts" by (simp only: filter_append append_Nil2)
    then show ?thesis by simp
  qed
  have "mset (files ?d) = filter_mset (\<lambda>(q, v). q \<notin> ?p ` set (drop k ts)) (mset (files d))"
    unfolding remove_versions_files [OF d(1)] rem by simp
  also have "\<dots> = mset (filter (\<lambda>(q, v). q \<notin> ?p ` set (drop k ts)) (version_dir cm i f ts x))" by (simp add: d(2))
  also have "filter (\<lambda>(q, v). q \<notin> ?p ` set (drop k ts)) (version_dir cm i f ts x) = version_dir cm i f (take k ts) x"
    using keep latest_not_version [of i i] by (auto simp: version_dir_def filter_map comp_def)
  finally have "mset (files ?d) = mset (version_dir cm i f (take k ts) x)" .
  moreover have "os_errs ?d = []" by (simp add: remove_versions_files [OF d(1)] d(1))
  ultimately show ?thesis using c by (auto simp: k_def)
qed

lemma update_new: "k \<notin> fst ` set al \<Longrightarrow> AList.update k v al = al @ [(k, v)]"
  by (induction al) auto

lemma update_mset:
  "mset al = add_mset (k, v0) M \<Longrightarrow> distinct (map fst al) \<Longrightarrow> mset (AList.update k v al) = add_mset (k, v) M"
proof (induction al arbitrary: M)
  case (Cons p al)
  show ?case
  proof (cases "fst p = k")
    case True
    have "(k, v0) \<in> set (p # al)" using Cons.prems(1) by (metis set_mset_mset union_single_eq_member)
    then have "p = (k, v0)" using True Cons.prems(2) by (force simp: image_iff)
    with Cons.prems(1) show ?thesis by simp
  next
    case False
    then obtain N where N: "mset al = add_mset (k, v0) N" "M = add_mset p N"
      using Cons.prems(1) by (auto simp: add_eq_conv_ex)
    with Cons.IH [OF N(1)] Cons.prems(2) False show ?thesis by (cases p) simp
  qed
qed simp

lemma Save_healthy:
  assumes "clean_base (cm_BaseDir cm)" "validCheckpointID (cc_CrewID cp)" "os_errs d = []"
    "ce_json E (cp\<lparr>cc_Timestamp := now, cc_Version := cc_Version cp + 1\<rparr>) = Inr x"
  shows "cc_Save E cm now cp d =
    map_option (\<lambda>d5. (cp\<lparr>cc_Timestamp := now, cc_Version := cc_Version cp + 1\<rparr>, d5, None))
      (cleanup E cm (cc_CrewID cp)
        (d\<lparr>files := AList.update (cm_BaseDir cm @ ''/'' @ latest_name (cc_CrewID cp)) (Some x)
           (AList.update (cm_BaseDir cm @ ''/'' @ version_name (cc_CrewID cp) (UnixMilli now)) (Some x) (files d))\<rparr>))"
  using assms joinBase_ok [OF assms(1) names_ok(1) [OF assms(2)]] joinBase_ok [OF assms(1) names_ok(2) [OF assms(2)]]
  by (simp add: cc_Save_def Let_def write_healthy)

lemma LoadLatest_base:
  "clean_base (cm_BaseDir cm) \<Longrightarrow> validCheckpointID i \<Longrightarrow> LoadLatest E cm i d = loadFromFile (cm_BaseDir cm @ ''/'' @ latest_name i) d"
  using joinBase_ok [OF _ names_ok(2), of cm i E d] by (simp add: LoadLatest_def)

lemma LoadByID_base:
  "clean_base (cm_BaseDir cm) \<Longrightarrow> validCheckpointID i \<Longrightarrow> LoadByID E cm i t d = loadFromFile (cm_BaseDir cm @ ''/'' @ version_name i t) d"
  using joinBase_ok [of cm "version_name i t" E d] names_ok(1) by (simp add: LoadByID_def)

section \<open>Properties\<close>

lemma Save_roundtrip:
  assumes "clean_base (cm_BaseDir cm)" "0 \<le> cm_MaxCheckpoints cm" "validCheckpointID (cc_CrewID cp)" "os_errs d = []"
    "ce_json E (cp\<lparr>cc_Timestamp := now, cc_Version := cc_Version cp + 1\<rparr>) = Inr x"
  obtains d' where "cc_Save E cm now cp d = Some (cp\<lparr>cc_Timestamp := now, cc_Version := cc_Version cp + 1\<rparr>, d', None)"
    "os_errs d' = []" "fst (LoadLatest E cm (cc_CrewID cp) d') = Inr x"
    "\<And>j. j \<noteq> cc_CrewID cp \<Longrightarrow> fst (LoadLatest E cm j d') = fst (LoadLatest E cm j d)"
proof -
  let ?i = "cc_CrewID cp"
  let ?L = "\<lambda>j. cm_BaseDir cm @ ''/'' @ latest_name j" and ?V = "cm_BaseDir cm @ ''/'' @ version_name ?i (UnixMilli now)"
  let ?d1 = "d\<lparr>files := AList.update (?L ?i) (Some x) (AList.update ?V (Some x) (files d))\<rparr>"
  have "os_errs ?d1 = []" using assms(4) by simp
  from cleanup_frame [OF this assms(2)] obtain d' where d': "cleanup E cm ?i ?d1 = Some d'" "os_errs d' = []"
    and keep: "\<And>p. \<forall>t. p \<noteq> denotes E (path_join (cm_BaseDir cm) (version_name ?i t)) \<Longrightarrow> map_of (files d') p = map_of (files ?d1) p"
    by blast
  have "?L j \<noteq> denotes E (path_join (cm_BaseDir cm) (version_name ?i t))" for j t
    using denotes_child [OF assms(1) names_ok(1) [OF assms(3)]] latest_not_version by simp
  with keep have L: "map_of (files d') (?L j) = (if j = ?i then Some (Some x) else map_of (files d) (?L j))" for j
    using latest_not_version [of j ?i] by (auto simp: update_conv latest_name_inj)
  have "fst (LoadLatest E cm ?i d') = Inr x"
    using LoadLatest_base [OF assms(1,3), of E d'] load_healthy [OF d'(2), of "?L ?i" x] L [of ?i] by simp
  moreover have "fst (LoadLatest E cm j d') = fst (LoadLatest E cm j d)" if "j \<noteq> ?i" for j
  proof (cases "validCheckpointID j")
    case True
    then show ?thesis
      using LoadLatest_base [OF assms(1) True] loadFromFile_cong [OF assms(4) d'(2)] L [of j] that by simp
  qed (simp add: LoadLatest_def)
  moreover have "cc_Save E cm now cp d = Some (cp\<lparr>cc_Timestamp := now, cc_Version := cc_Version cp + 1\<rparr>, d', None)"
    using Save_healthy [OF assms(1,3-5)] d'(1) by simp
  ultimately show ?thesis using that d'(2) by blast
qed


text \<open>
  The clean-up discards the newest checkpoint. When a crew already has \<^verbatim>\<open>MaxCheckpoints\<close> versions (with time
  stamps of 13 digits), the next \<^verbatim>\<open>Save\<close> reports success, keeps all the old versions and removes the one it
  has just written: \<^verbatim>\<open>LoadByID\<close> fails for it. The listing is in ascending order, the clean-up takes it to be
  newest first.
\<close>

theorem save_discards_newest:
  assumes "clean_base (cm_BaseDir cm)" "plain_chars (cm_BaseDir cm)" "validCheckpointID (cc_CrewID cp)" "os_errs d = []"
    and d: "mset (files d) = mset (version_dir cm (cc_CrewID cp) f ts y)" and full: "int (length ts) = cm_MaxCheckpoints cm"
    and ts: "stamped f (ts @ [UnixMilli now])" and x: "f (UnixMilli now) = x"
    and json: "ce_json E (cp\<lparr>cc_Timestamp := now, cc_Version := cc_Version cp + 1\<rparr>) = Inr x"
  shows "\<exists>d'. cc_Save E cm now cp d = Some (cp\<lparr>cc_Timestamp := now, cc_Version := cc_Version cp + 1\<rparr>, d', None) \<and>
    mset (files d') = mset (version_dir cm (cc_CrewID cp) f ts (Some x)) \<and>
    \<not> is_ok (fst (LoadByID E cm (cc_CrewID cp) (UnixMilli now) d'))"
proof -
  let ?i = "cc_CrewID cp"
  let ?L = "cm_BaseDir cm @ ''/'' @ latest_name ?i" and ?V = "\<lambda>t. cm_BaseDir cm @ ''/'' @ version_name ?i t"
  let ?fs = "AList.update ?L (Some x) (AList.update (?V (UnixMilli now)) (Some x) (files d))"
  have dist: "distinct (map (version_name ?i) (ts @ [UnixMilli now]) @ [latest_name ?i])" by (rule stamped_names(2) [OF ts])
  have keys: "fst ` set (files d) = insert ?L (?V ` set ts)"
    using arg_cong [OF d, of "\<lambda>m. fst ` set_mset m"] by (simp add: version_dir_def image_image)
  have nv: "?V (UnixMilli now) \<notin> fst ` set (files d)" unfolding keys using dist by auto
  have u1: "AList.update (?V (UnixMilli now)) (Some x) (files d) = files d @ [(?V (UnixMilli now), Some x)]"
    using nv by (rule update_new)
  have "mset ?fs = mset (version_dir cm ?i f (ts @ [UnixMilli now]) (Some x))"
  proof -
    have m: "mset (files d @ [(?V (UnixMilli now), Some x)]) = add_mset (?L, y) (mset (tl (version_dir cm ?i f (ts @ [UnixMilli now]) (Some x))))"
      using d x by (simp add: version_dir_def)
    have "distinct (map fst (version_dir cm ?i f (ts @ [UnixMilli now]) (Some x)))"
      using dist by (auto simp: version_dir_def comp_def distinct_map inj_on_def)
    moreover have "image_mset fst (mset (files d @ [(?V (UnixMilli now), Some x)])) = image_mset fst (mset (version_dir cm ?i f (ts @ [UnixMilli now]) (Some x)))"
      unfolding m by (simp add: version_dir_def)
    ultimately have "distinct (map fst (files d @ [(?V (UnixMilli now), Some x)]))" by (metis mset_eq_imp_distinct_iff mset_map)
    from update_mset [OF m this, of "Some x"] show ?thesis unfolding u1 by (simp add: version_dir_def)
  qed
  then have "mset (files (d\<lparr>files := ?fs\<rparr>)) = mset (version_dir cm ?i f (ts @ [UnixMilli now]) (Some x))" by simp
  from cleanup_dir [OF assms(1-3) _ this ts, of E] assms(4) full obtain d' where
    d': "cleanup E cm ?i (d\<lparr>files := ?fs\<rparr>) = Some d'" "os_errs d' = []"
      "mset (files d') = mset (version_dir cm ?i f (take (nat (cm_MaxCheckpoints cm)) (ts @ [UnixMilli now])) (Some x))"
    by auto
  have t: "take (nat (cm_MaxCheckpoints cm)) (ts @ [UnixMilli now]) = ts" using full by simp
  have "fst ` set (files d') = insert ?L (?V ` set ts)"
    using arg_cong [OF d'(3) [unfolded t], of "\<lambda>m. fst ` set_mset m"] by (simp add: version_dir_def image_image)
  then have "map_of (files d') (?V (UnixMilli now)) = None" using nv keys by (simp add: map_of_eq_None_iff)
  then have "\<not> is_ok (fst (LoadByID E cm ?i (UnixMilli now) d'))"
    using LoadByID_base [OF assms(1,3)] d'(2) by (simp add: loadFromFile_def read_file_def)
  then show ?thesis using Save_healthy [OF assms(1,3,4) json] d' t by simp
qed

definition wit_cm :: CheckpointManager where
  "wit_cm = \<lparr>cm_BaseDir = ''/ck'', cm_AutoSaveEnabled = True, cm_MaxCheckpoints = 1\<rparr>"

definition wit_env :: ckenv where
  "wit_env = \<lparr>ce_cwd = ''/'', ce_json = Inr\<rparr>"

definition wit_cp :: "int \<Rightarrow> CrewCheckpoint" where
  "wit_cp ms =
     \<lparr>cc_ID = ''x'', cc_CrewID = ''a_b'', cc_Timestamp = ms * 1000000, cc_Version = 1, cc_TaskIndex = 2, cc_TaskResults = None,
      cc_State = None, cc_Status = ''in_progress'', cc_Error = [], cc_CreatedAt = 0\<rparr>"

lemma wit_facts:
  "clean_base (cm_BaseDir wit_cm)" "plain_chars (cm_BaseDir wit_cm)" "validCheckpointID ''a_b''"
  "stamped wit_cp [1700000000000, 1700000000001]"
  by (simp_all add: wit_cm_def clean_base_def path_clean_def is_rooted_def clean_stack_def clean_step_def render_path_def
      plain_chars_def validCheckpointID_def id_char_def less_eq_char_def stamped_def show_int_def show_nat.simps wit_cp_def UnixMilli_def)


theorem save_discards_newest_witness:
  "\<exists>d'. cc_Save wit_env wit_cm 1700000000001000000 (wit_cp 0\<lparr>cc_Version := 0\<rparr>)
       \<lparr>files = version_dir wit_cm ''a_b'' wit_cp [1700000000000] None, os_errs = []\<rparr> =
      Some (wit_cp 1700000000001, d', None) \<and>
    \<not> is_ok (fst (LoadByID wit_env wit_cm ''a_b'' 1700000000001 d'))"
  using save_discards_newest [of wit_cm "wit_cp 0\<lparr>cc_Version := 0\<rparr>" "\<lparr>files = version_dir wit_cm ''a_b'' wit_cp [1700000000000] None, os_errs = []\<rparr>"
      wit_cp "[1700000000000]" None 1700000000001000000 "wit_cp 1700000000001" wit_env] wit_facts
  by (simp add: wit_env_def UnixMilli_def) (auto simp: wit_cp_def wit_cm_def)

end
