(* ===== verification/File_Guard.thy ===== *)
theory File_Guard
  imports Go_Files
begin

text \<open>
  Confinement of file access, \<^verbatim>\<open>pkg/utils/security.go\<close> and \<^verbatim>\<open>rootfs.go\<close>: the lexical check \<^verbatim>\<open>ValidatePath\<close>, its
  variant that resolves symbolic links, and reading and writing through an \<^verbatim>\<open>os.Root\<close>.

  The file system is a map from absolute paths, as lists of components, to nodes; its root directory is
  the empty list and always there. Permissions and input/output failures are not modelled; the working
  directory, which \<^verbatim>\<open>os.Getwd\<close> may fail to give, and the bound on links followed in one resolution are
  parameters of the environment. No other process changes the file system during a call.
\<close>

section \<open>A file system with links\<close>

datatype node = NDir | NFile string | NLink string

type_synonym fs = "string list \<rightharpoonup> node"

definition node_at :: "fs \<Rightarrow> string list \<Rightarrow> node option" where
  "node_at fs p = (if p = [] then Some NDir else fs p)"

record osenv =
  oe_cwd :: "string result"
  oe_links :: nat

definition ErrNotExist :: goerr where
  "ErrNotExist = ESentinel ''file does not exist''"

definition ErrNotDir :: goerr where
  "ErrNotDir = EMsg ''not a directory''"

definition ErrLinks :: goerr where
  "ErrLinks = EMsg ''too many links''"

definition ErrEscape :: goerr where
  "ErrEscape = EMsg ''path escapes from parent''"

text \<open>
  Resolution of components from a directory without links, as \<^verbatim>\<open>filepath.EvalSymlinks\<close> does it and as the
  kernel does it for all but the last component of a path.
\<close>

function walk :: "fs \<Rightarrow> nat \<Rightarrow> string list \<Rightarrow> string list \<Rightarrow> string list result" where
  "walk fs n cur [] = Inr cur"
| "walk fs n cur (c # cs) =
     (if c = [] \<or> c = ''.'' then walk fs n cur cs
      else if c = ''..'' then walk fs n (butlast cur) cs
      else (case fs (cur @ [c]) of
              None \<Rightarrow> Inl ErrNotExist
            | Some NDir \<Rightarrow> walk fs n (cur @ [c]) cs
            | Some (NFile x) \<Rightarrow> if cs = [] then Inr (cur @ [c]) else Inl ErrNotDir
            | Some (NLink t) \<Rightarrow>
                if n = 0 then Inl ErrLinks
                else walk fs (n - 1) (if is_rooted t then [] else cur) (split_byte CHR ''/'' t @ cs)))"
  by pat_completeness auto
termination
  by (relation "measures [\<lambda>(fs, n, cur, cs). n, \<lambda>(fs, n, cur, cs). length cs]") auto

definition EvalSymlinks :: "osenv \<Rightarrow> fs \<Rightarrow> string \<Rightarrow> string result" where
  "EvalSymlinks E fs p = map_sum id abs_text (walk fs (oe_links E) [] (comps p))"

text \<open>\<^verbatim>\<open>os.Lstat\<close> succeeds when the parent resolves and has the last component, link or not.\<close>

definition lstat_ok :: "osenv \<Rightarrow> fs \<Rightarrow> string \<Rightarrow> bool" where
  "lstat_ok E fs p =
     (comps p = [] \<or>
      (case walk fs (oe_links E) [] (butlast (comps p)) of
         Inl e \<Rightarrow> False
       | Inr q \<Rightarrow> node_at fs q = Some NDir \<and> fs (q @ [last (comps p)]) \<noteq> None))"

section \<open>Path functions\<close>

definition path_Abs :: "osenv \<Rightarrow> string \<Rightarrow> string result" where
  "path_Abs E p = (if is_rooted p then Inr (path_clean p) else map_sum id (\<lambda>w. path_join w p) (oe_cwd E))"

text \<open>\<^verbatim>\<open>filepath.Dir\<close> and \<^verbatim>\<open>filepath.Rel\<close> of clean absolute paths.\<close>

definition path_Dir :: "string \<Rightarrow> string" where
  "path_Dir p = abs_text (butlast (comps p))"

fun strip_common :: "string list \<Rightarrow> string list \<Rightarrow> string list \<times> string list" where
  "strip_common (b # bs) (t # ts) = (if b = t then strip_common bs ts else (b # bs, t # ts))"
| "strip_common bs ts = (bs, ts)"

definition path_Rel :: "string \<Rightarrow> string \<Rightarrow> string" where
  "path_Rel base targ =
     (let (bs, ts) = strip_common (comps base) (comps targ); cs = map (\<lambda>_. ''..'') bs @ ts in
      if cs = [] then ''.'' else str_join cs ''/'')"

section \<open>Checks\<close>

definition MaxCleanComponents :: nat where
  "MaxCleanComponents = 256"

definition outside_err :: "string \<Rightarrow> string \<Rightarrow> goerr" where
  "outside_err path chroot = EMsg (''security violation: path '' @ path @ '' is outside allowed directory '' @ chroot)"

definition ValidatePath :: "osenv \<Rightarrow> string \<Rightarrow> string \<Rightarrow> string result" where
  "ValidatePath E path chroot0 =
     (if path = [] then Inl (EMsg ''empty path'')
      else let chroot = (if chroot0 = [] then ''.'' else chroot0); cleanPath = path_clean path;
               cleanParts = length (filter (\<lambda>p. p \<noteq> []) (split_byte CHR ''/'' cleanPath)) in
        if cleanParts > MaxCleanComponents then Inl (EMsg (''path too deep ('' @ show_nat cleanParts @ '' components)''))
        else (case path_Abs E chroot of
                Inl e \<Rightarrow> Inl (EWrap ''failed to resolve chroot directory: '' e [])
              | Inr a \<Rightarrow>
                  (let absChroot = path_clean a in
                   case path_Abs E cleanPath of
                     Inl e \<Rightarrow> Inl (EWrap ''failed to resolve absolute path: '' e [])
                   | Inr b \<Rightarrow>
                       (let absPath = path_clean b in
                        if \<not> has_prefix absPath absChroot then Inl (outside_err path chroot)
                        else if absPath \<noteq> absChroot \<and> \<not> has_prefix absPath (absChroot @ ''/'') then Inl (outside_err path chroot)
                        else Inr absPath))))"

definition FileWriteSanitize :: "osenv \<Rightarrow> string \<Rightarrow> string \<Rightarrow> string result" where
  "FileWriteSanitize E cleanedPath chroot = ValidatePath E cleanedPath chroot"

text \<open>
  The loop that looks for the longest existing prefix: the prefix and whether it walked up. It stops at the
  root, and above the root directory of the check. (Comparing the numbers of components matters only for
  texts that are not clean absolute paths; the function is total with it.)
\<close>

function existing_prefix :: "osenv \<Rightarrow> fs \<Rightarrow> string \<Rightarrow> string \<Rightarrow> bool \<Rightarrow> string \<times> bool" where
  "existing_prefix E fs absChroot target walkedUp =
     (if lstat_ok E fs target then (target, walkedUp)
      else let parent = path_Dir target in
        if parent = target \<or> \<not> length (comps parent) < length (comps target) then (target, walkedUp)
        else if length parent < length absChroot then (parent, True)
        else existing_prefix E fs absChroot parent True)"
  by pat_completeness auto
termination
  by (relation "measure (\<lambda>(E, fs, c, t, w). length (comps t))") auto

declare existing_prefix.simps [simp del]

definition ValidatePathResolved :: "osenv \<Rightarrow> fs \<Rightarrow> string \<Rightarrow> string \<Rightarrow> string result" where
  "ValidatePathResolved E fs path chroot =
     (case ValidatePath E path chroot of
        Inl e \<Rightarrow> Inl e
      | Inr absPath \<Rightarrow>
          (case path_Abs E chroot of
             Inl e \<Rightarrow> Inl (EWrap ''failed to resolve chroot directory: '' e [])
           | Inr a \<Rightarrow>
               (let absChroot = path_clean a; (target, walkedUp) = existing_prefix E fs absChroot absPath False in
                case EvalSymlinks E fs target of
                  Inl e \<Rightarrow> if \<not> walkedUp then Inl (EMsg (''security violation: cannot resolve path '' @ path)) else Inr absPath
                | Inr r \<Rightarrow>
                    (let rel = path_Rel target absPath;
                         resolved = path_clean (if rel = ''.'' then path_clean r else path_join r rel) in
                     if resolved \<noteq> absChroot \<and> \<not> has_prefix resolved (absChroot @ ''/'')
                     then Inl (EMsg (''security violation: symlink target '' @ path @ '' escapes allowed directory '' @ chroot))
                     else Inr absPath))))"

section \<open>Access through a root\<close>

text \<open>
  \<^verbatim>\<open>os.Root\<close>: components are resolved below the opened directory \<open>base\<close>; a link to an absolute path, or one that
  climbs above the directory, is an error. The result is relative to \<open>base\<close> and its last component need not
  exist.
\<close>

function root_walk :: "fs \<Rightarrow> string list \<Rightarrow> nat \<Rightarrow> string list \<Rightarrow> string list \<Rightarrow> string list result" where
  "root_walk fs base n cur [] = Inr cur"
| "root_walk fs base n cur (c # cs) =
     (if c = [] \<or> c = ''.'' then root_walk fs base n cur cs
      else if c = ''..'' then (if cur = [] then Inl ErrEscape else root_walk fs base n (butlast cur) cs)
      else (case fs (base @ cur @ [c]) of
              None \<Rightarrow> if cs = [] then Inr (cur @ [c]) else Inl ErrNotExist
            | Some NDir \<Rightarrow> root_walk fs base n (cur @ [c]) cs
            | Some (NFile x) \<Rightarrow> if cs = [] then Inr (cur @ [c]) else Inl ErrNotDir
            | Some (NLink t) \<Rightarrow>
                if is_rooted t then Inl ErrEscape
                else if n = 0 then Inl ErrLinks
                else root_walk fs base (n - 1) cur (split_byte CHR ''/'' t @ cs)))"
  by pat_completeness auto
termination
  by (relation "measures [\<lambda>(fs, b, n, cur, cs). n, \<lambda>(fs, b, n, cur, cs). length cs]") auto

text \<open>\<^verbatim>\<open>Root.MkdirAll\<close>: the directories that are missing on the way are made.\<close>

function root_mkdir :: "fs \<Rightarrow> string list \<Rightarrow> nat \<Rightarrow> string list \<Rightarrow> string list \<Rightarrow> fs \<times> goerr option" where
  "root_mkdir fs base n cur [] = (fs, None)"
| "root_mkdir fs base n cur (c # cs) =
     (if c = [] \<or> c = ''.'' then root_mkdir fs base n cur cs
      else if c = ''..'' then (if cur = [] then (fs, Some ErrEscape) else root_mkdir fs base n (butlast cur) cs)
      else (case fs (base @ cur @ [c]) of
              None \<Rightarrow> root_mkdir (fs(base @ cur @ [c] \<mapsto> NDir)) base n (cur @ [c]) cs
            | Some NDir \<Rightarrow> root_mkdir fs base n (cur @ [c]) cs
            | Some (NFile x) \<Rightarrow> (fs, Some ErrNotDir)
            | Some (NLink t) \<Rightarrow>
                if is_rooted t then (fs, Some ErrEscape)
                else if n = 0 then (fs, Some ErrLinks)
                else root_mkdir fs base (n - 1) cur (split_byte CHR ''/'' t @ cs)))"
  by pat_completeness auto
termination
  by (relation "measures [\<lambda>(fs, b, n, cur, cs). n, \<lambda>(fs, b, n, cur, cs). length cs]") auto

datatype 'a guarded = GOk 'a | GErr goerr | GPanic

definition maxRootFileBytes :: nat where
  "maxRootFileBytes = 10 * 1024 * 1024"

text \<open>\<^verbatim>\<open>rel[:3]\<close> of a string of two bytes is out of range: a panic. \<^verbatim>\<open>os.OpenRoot\<close> follows links to the directory.\<close>

definition rootRel :: "osenv \<Rightarrow> fs \<Rightarrow> string \<Rightarrow> string \<Rightarrow> (string list \<times> string) guarded" where
  "rootRel E fs chroot name =
     (case ValidatePath E name chroot of
        Inl e \<Rightarrow> GErr e
      | Inr absPath \<Rightarrow>
          (case path_Abs E chroot of
             Inl e \<Rightarrow> GErr (EWrap ''failed to resolve chroot directory: '' e [])
           | Inr a \<Rightarrow>
               (let absChroot = path_clean a; rel = path_Rel absChroot absPath;
                    escapes = GErr (EMsg (''security violation: path '' @ name @ '' escapes allowed directory '' @ chroot)) in
                if rel = ''.'' \<or> rel = ''..'' then escapes
                else if length rel = 2 then GPanic
                else if length rel \<ge> 2 \<and> take 3 rel = ''../'' then escapes
                else (case ValidatePathResolved E fs name chroot of
                        Inl e \<Rightarrow> GErr e
                      | Inr _ \<Rightarrow>
                          (case walk fs (oe_links E) [] (comps absChroot) of
                             Inl e \<Rightarrow> GErr (EWrap ''failed to open chroot: '' e [])
                           | Inr base \<Rightarrow>
                               if node_at fs base = Some NDir then GOk (base, rel)
                               else GErr (EWrap ''failed to open chroot: '' ErrNotDir []))))))"

definition ReadFileInRoot :: "osenv \<Rightarrow> fs \<Rightarrow> string \<Rightarrow> string \<Rightarrow> string guarded" where
  "ReadFileInRoot E fs chroot name =
     (case rootRel E fs chroot name of
        GPanic \<Rightarrow> GPanic
      | GErr e \<Rightarrow> GErr e
      | GOk (base, rel) \<Rightarrow>
          (let failed = (\<lambda>e. GErr (EWrap (''failed to read file '' @ name @ '': '') e [])) in
           case root_walk fs base (oe_links E) [] (split_byte CHR ''/'' rel) of
             Inl e \<Rightarrow> failed e
           | Inr loc \<Rightarrow>
               (case node_at fs (base @ loc) of
                  Some (NFile data) \<Rightarrow>
                    if length data > maxRootFileBytes then GErr (EMsg (''file '' @ name @ '' exceeds byte budget'')) else GOk data
                | Some _ \<Rightarrow> failed (EMsg ''is a directory'')
                | None \<Rightarrow> failed ErrNotExist)))"

text \<open>The file system after the call, and its result.\<close>

definition WriteFileInRoot :: "osenv \<Rightarrow> fs \<Rightarrow> string \<Rightarrow> string \<Rightarrow> string \<Rightarrow> fs \<times> unit guarded" where
  "WriteFileInRoot E fs chroot name data =
     (case rootRel E fs chroot name of
        GPanic \<Rightarrow> (fs, GPanic)
      | GErr e \<Rightarrow> (fs, GErr e)
      | GOk (base, rel) \<Rightarrow>
          (case root_mkdir fs base (oe_links E) [] (butlast (split_byte CHR ''/'' rel)) of
             (fs1, Some e) \<Rightarrow> (fs1, GErr (EWrap (''failed to create parent dirs for '' @ name @ '': '') e []))
           | (fs1, None) \<Rightarrow>
               (let failed = (\<lambda>e. (fs1, GErr (EWrap (''failed to write to file '' @ name @ '': '') e []))) in
                case root_walk fs1 base (oe_links E) [] (split_byte CHR ''/'' rel) of
                  Inl e \<Rightarrow> failed e
                | Inr loc \<Rightarrow>
                    if node_at fs1 (base @ loc) = Some NDir then failed (EMsg ''is a directory'')
                    else (fs1(base @ loc \<mapsto> NFile data), GOk ()))))"

section \<open>Lexical lemmas\<close>

text \<open>\<^verbatim>\<open>os.Getwd\<close> returns a rooted path.\<close>

definition cwd_ok :: "osenv \<Rightarrow> bool" where
  "cwd_ok E \<longleftrightarrow> (\<forall>w. oe_cwd E = Inr w \<longrightarrow> is_rooted w)"

lemma path_Abs_comps:
  assumes "cwd_ok E" "path_Abs E p = Inr a"
  obtains cs where "list_all comp_ok cs" "a = abs_text cs"
proof (cases "is_rooted p")
  case True
  then show ?thesis using that path_clean_comps [OF True] assms(2) by (auto simp: path_Abs_def)
next
  case False
  then obtain w where w: "oe_cwd E = Inr w" "a = path_join w p" using assms(2) by (auto simp: path_Abs_def) (metis obj_sumE map_sum.simps sum.distinct(1) sum.inject(2))
  then have r: "is_rooted w" using assms(1) by (simp add: cwd_ok_def)
  then have "is_rooted (if p = [] then w else w @ ''/'' @ p)" by (auto simp: is_rooted_def)
  moreover have "a = path_clean (if p = [] then w else w @ ''/'' @ p)" using w r by (auto simp: path_join_def is_rooted_def)
  ultimately show ?thesis using that path_clean_comps by metis
qed

text \<open>The comparison of texts decides containment of component lists; the root directory contains only itself.\<close>

definition inside :: "string list \<Rightarrow> string list \<Rightarrow> bool" where
  "inside rs ps \<longleftrightarrow> (if rs = [] then ps = [] else prefix rs ps)"

lemma inside_text:
  assumes "list_all comp_ok rs" "list_all comp_ok ps"
  shows "abs_text ps \<noteq> abs_text rs \<and> \<not> has_prefix (abs_text ps) (abs_text rs @ ''/'') \<longleftrightarrow> \<not> inside rs ps"
proof (cases "rs = []")
  case True
  have "\<not> prefix ''//'' (abs_text ps)"
    using assms(2) by (cases ps) (auto simp: abs_text_def comp_ok_def, metis list.sel(1) list.set_intros(1) append_Cons neq_Nil_conv prefix_Cons)
  then show ?thesis using True abs_text_inj [OF assms(2,1)] by (simp add: inside_def abs_text_def)
next
  case False
  then show ?thesis using abs_text_prefix [OF assms False] abs_text_inj [OF assms(2,1)] by (auto simp: inside_def strict_prefix_def)
qed

lemma ValidatePath_cases:
  assumes "cwd_ok E" "path \<noteq> []" "length (comps (path_clean path)) \<le> MaxCleanComponents"
    "path_Abs E (if chroot = [] then ''.'' else chroot) = Inr (abs_text rs)" "path_Abs E (path_clean path) = Inr (abs_text ps)"
    "list_all comp_ok rs" "list_all comp_ok ps"
  shows "ValidatePath E path chroot =
    (if inside rs ps then Inr (abs_text ps) else Inl (outside_err path (if chroot = [] then ''.'' else chroot)))"
proof -
  have "has_prefix (abs_text ps) (abs_text rs)" if "inside rs ps"
    using that inside_text [OF assms(6,7)] by (metis append_prefixD prefix_order.order_refl)
  then show ?thesis using assms inside_text [OF assms(6,7)] by (auto simp: ValidatePath_def Let_def comps_def)
qed

lemma strip_common_append: "strip_common rs (rs @ us) = ([], us)"
  by (induction rs) (cases us; simp)+

lemma path_Rel_inside:
  "list_all comp_ok rs \<Longrightarrow> list_all comp_ok us \<Longrightarrow>
   path_Rel (abs_text rs) (abs_text (rs @ us)) = (if us = [] then ''.'' else str_join us ''/'')"
  by (simp add: path_Rel_def strip_common_append)

lemma ValidatePath_ok:
  assumes "cwd_ok E" "ValidatePath E path chroot = Inr p"
  obtains rs ps where "path_Abs E (if chroot = [] then ''.'' else chroot) = Inr (abs_text rs)" "list_all comp_ok rs"
    "p = abs_text ps" "list_all comp_ok ps" "inside rs ps"
proof -
  obtain a b where ab: "path_Abs E (if chroot = [] then ''.'' else chroot) = Inr a" "path_Abs E (path_clean path) = Inr b"
    and n: "path \<noteq> []" "length (comps (path_clean path)) \<le> MaxCleanComponents"
    using assms(2) by (auto simp: ValidatePath_def Let_def comps_def split: if_splits sum.splits)
  obtain rs where rs: "list_all comp_ok rs" "a = abs_text rs" using path_Abs_comps [OF assms(1) ab(1)] .
  obtain ps where ps: "list_all comp_ok ps" "b = abs_text ps" using path_Abs_comps [OF assms(1) ab(2)] .
  show ?thesis
    using that [of rs ps] rs ps assms(2) ValidatePath_cases [OF assms(1) n _ _ rs(1) ps(1), of chroot] ab by (auto split: if_splits)
qed

text \<open>The second resolution of the root directory agrees with the first.\<close>

lemma path_Abs_empty: "cwd_ok E \<Longrightarrow> path_Abs E (if chroot = [] then ''.'' else chroot) = path_Abs E chroot"
proof (cases "chroot = []")
  case True
  assume c: "cwd_ok E"
  have "path_join w ''.'' = path_join w []" if "oe_cwd E = Inr w" for w
  proof -
    have "is_rooted w" "w \<noteq> []" using c that by (auto simp: cwd_ok_def is_rooted_def)
    then show ?thesis
      by (auto simp: path_join_def path_clean_def clean_stack_def split_byte_append is_rooted_def clean_step_def)
  qed
  then show ?thesis using True by (cases "oe_cwd E") (auto simp: path_Abs_def is_rooted_def)
qed simp

section \<open>Resolution lemmas\<close>

definition fs_ok :: "fs \<Rightarrow> bool" where
  "fs_ok fs \<longleftrightarrow> (\<forall>p c. fs (p @ [c]) \<noteq> None \<longrightarrow> node_at fs p = Some NDir)"

lemma fs_ok_parent:
  assumes "fs_ok fs" "node_at fs p = Some NDir"
  shows "node_at fs (butlast p) = Some NDir"
proof (cases p rule: rev_cases)
  case (snoc ys y)
  with assms(2) have "fs (ys @ [y]) \<noteq> None" by (simp add: node_at_def)
  with assms(1) snoc show ?thesis unfolding fs_ok_def by simp blast
qed (simp add: node_at_def)

lemma node_at_snoc [simp]: "node_at fs (p @ [c]) = fs (p @ [c])"
  by (simp add: node_at_def)

text \<open>What resolves has a parent that resolves to a directory with an entry for the last component.\<close>

lemma walk_snoc:
  assumes "fs_ok fs" "comp_ok c" "node_at fs cur = Some NDir" "walk fs n cur (xs @ [c]) = Inr q"
  shows "\<exists>q'. walk fs n cur xs = Inr q' \<and> node_at fs q' = Some NDir \<and> fs (q' @ [c]) \<noteq> None"
  using assms
proof (induction fs n cur xs rule: walk.induct)
  case (1 fs n cur)
  then show ?case by (auto simp: comp_ok_def split: option.splits)
next
  case (2 fs n cur x xs)
  note up = fs_ok_parent [OF "2.prems"(1,3)]
  consider "x = [] \<or> x = ''.''" | "x = ''..''" | "\<not> (x = [] \<or> x = ''.'')" "x \<noteq> ''..''" by auto
  then show ?case
  proof cases
    case 1
    then show ?thesis using "2.IH"(1) "2.prems" by simp
  next
    case 2
    then show ?thesis using "2.IH"(2) [OF _ _ "2.prems"(1,2) up] "2.prems"(4) by simp
  next
    case 3
    with 2 show ?thesis by (auto split: option.splits node.splits if_splits simp: node_at_def [of _ "[]"])
  qed
qed

lemma lstat_of_walk:
  assumes "fs_ok fs" "list_all comp_ok ps" "walk fs (oe_links E) [] ps = Inr q"
  shows "lstat_ok E fs (abs_text ps)"
proof (cases ps rule: rev_cases)
  case (snoc xs c)
  have "comp_ok c" using assms(2) snoc by simp
  from walk_snoc [OF assms(1) this, of "[]" "oe_links E" xs q] assms(3) snoc
  show ?thesis using assms(2) by (auto simp: lstat_ok_def node_at_def)
qed (simp add: lstat_ok_def comps_def abs_text_def)

text \<open>Resolution ends at a path of proper components.\<close>

lemma walk_comps: "walk fs n cur cs = Inr q \<Longrightarrow> list_all comp_ok cur \<Longrightarrow> \<forall>c\<in>set cs. CHR ''/'' \<notin> set c \<Longrightarrow> list_all comp_ok q"
proof (induction fs n cur cs arbitrary: q rule: walk.induct)
  case (2 fs n cur c cs)
  have "list_all comp_ok (butlast cur)" using "2.prems"(2) by (auto simp: list_all_iff dest: in_set_butlastD)
  moreover have "\<forall>d\<in>set (split_byte CHR ''/'' t @ cs). CHR ''/'' \<notin> set d" for t
    using "2.prems"(3) split_byte_comp [of _ "CHR ''/''" t] by auto
  moreover have "list_all comp_ok (cur @ [c])" if "\<not> (c = [] \<or> c = ''.'')" "c \<noteq> ''..''"
    using that "2.prems"(2,3) by (simp add: comp_ok_def [of c])
  ultimately show ?case
    using 2 by (auto split: if_splits option.splits node.splits)
qed simp

lemma root_walk_parent:
  assumes "fs_ok fs" "node_at fs (base @ cur) = Some NDir" "root_walk fs base n cur cs = Inr loc"
  shows "node_at fs (base @ loc) = Some NDir \<or> (loc \<noteq> [] \<and> node_at fs (base @ butlast loc) = Some NDir)"
  using assms
proof (induction fs base n cur cs rule: root_walk.induct)
  case (2 fs base n cur c cs)
  have "node_at fs (base @ butlast cur) = Some NDir" if "cur \<noteq> []"
    using fs_ok_parent [OF "2.prems"(1,2)] that by (simp add: butlast_append)
  then show ?case using 2 node_at_snoc [of fs "base @ cur" c]
    by (auto split: if_splits option.splits node.splits)
qed simp

lemma root_walk_no_link:
  assumes "root_walk fs base n cur cs = Inr loc" "fs_ok fs" "node_at fs (base @ cur) = Some NDir"
  shows "node_at fs (base @ loc) \<noteq> Some (NLink t)"
  using assms
proof (induction fs base n cur cs rule: root_walk.induct)
  case (2 fs base n cur c cs)
  have "node_at fs (base @ butlast cur) = Some NDir" if "cur \<noteq> []"
    using fs_ok_parent [OF "2.prems"(2,3)] that by (simp add: butlast_append)
  then show ?case using 2 node_at_snoc [of fs "base @ cur" c]
    by (auto split: if_splits option.splits node.splits)
qed simp

lemma root_mkdir_frame:
  assumes "root_mkdir fs base n cur cs = (fs', e)" "fs_ok fs" "node_at fs (base @ cur) = Some NDir"
  shows "fs_ok fs' \<and> (\<forall>p. fs p \<noteq> None \<or> \<not> strict_prefix base p \<longrightarrow> fs' p = fs p)"
  using assms
proof (induction fs base n cur cs arbitrary: fs' e rule: root_mkdir.induct)
  case (2 fs base n cur c cs)
  have up: "node_at fs (base @ butlast cur) = Some NDir" if "cur \<noteq> []"
    using fs_ok_parent [OF "2.prems"(2,3)] that by (simp add: butlast_append)
  let ?new = "fs(base @ cur @ [c] \<mapsto> NDir)"
  have "fs_ok ?new" if "fs (base @ cur @ [c]) = None"
    unfolding fs_ok_def
  proof (intro allI impI)
    fix p d assume "?new (p @ [d]) \<noteq> None"
    then consider "p @ [d] = (base @ cur) @ [c]" | "fs (p @ [d]) \<noteq> None" by (auto split: if_splits)
    then have "node_at fs p = Some NDir"
      using "2.prems"(2,3) by cases (auto simp: fs_ok_def)
    then show "node_at ?new p = Some NDir" using that by (auto simp: node_at_def)
  qed
  moreover have "node_at ?new (base @ cur @ [c]) = Some NDir" by (simp add: node_at_def)
  ultimately have new: "fs_ok ?new" "node_at ?new (base @ cur @ [c]) = Some NDir" if "fs (base @ cur @ [c]) = None" using that by blast+
  have sp: "strict_prefix base (base @ cur @ [c])" by (simp add: strict_prefix_def)
  consider "c = [] \<or> c = ''.''" | "c = ''..''" | "\<not> (c = [] \<or> c = ''.'')" "c \<noteq> ''..''" by auto
  then show ?case
  proof cases
    case 1
    then show ?thesis using "2.IH"(1) "2.prems" by simp
  next
    case c: 2
    show ?thesis
    proof (cases "cur = []")
      case False
      with c "2.IH"(2) [OF _ _ False, of fs' e] "2.prems" up show ?thesis by simp
    qed (use c "2.prems" in auto)
  next
    case c: 3
    show ?thesis
    proof (cases "fs (base @ cur @ [c])")
      case None
      have m: "root_mkdir ?new base n (cur @ [c]) cs = (fs', e)" using "2.prems"(1) c None by (simp del: fun_upd_apply)
      note ih = "2.IH"(3) [OF c None m new(1) [OF None] new(2) [OF None]]
      then have "fs_ok fs'" by (rule conjunct1)
      moreover from ih have "\<forall>p. ?new p \<noteq> None \<or> \<not> strict_prefix base p \<longrightarrow> fs' p = ?new p" by (rule conjunct2)
      moreover have "fs' p = fs p" if "fs p \<noteq> None \<or> \<not> strict_prefix base p" for p
      proof -
        have "p \<noteq> base @ cur @ [c]" using that None sp by auto
        then have "?new p = fs p" by simp
        with calculation(2) that show ?thesis by metis
      qed
      ultimately show ?thesis by blast
    next
      case (Some x)
      show ?thesis
      proof (cases x)
        case NDir
        then show ?thesis using "2.IH"(4) [OF c, of NDir fs' e] "2.prems" c Some by (simp add: node_at_def)
      next
        case (NLink t)
        then show ?thesis using "2.IH"(5) [OF c, of "NLink t" t fs' e] "2.prems" c Some by (simp split: if_splits)
      qed (use c Some "2.prems" in auto)
    qed
  qed
qed simp

text \<open>Without links a path resolves to itself.\<close>

definition no_links :: "fs \<Rightarrow> bool" where
  "no_links fs \<longleftrightarrow> (\<forall>p t. fs p \<noteq> Some (NLink t))"

lemma walk_plain: "no_links fs \<Longrightarrow> list_all comp_ok cs \<Longrightarrow> walk fs n cur cs = Inr q \<Longrightarrow> q = cur @ cs"
  by (induction fs n cur cs rule: walk.induct) (auto simp: comp_ok_def no_links_def split: option.splits node.splits if_splits)

lemma root_walk_plain: "no_links fs \<Longrightarrow> list_all comp_ok cs \<Longrightarrow> root_walk fs base n cur cs = Inr loc \<Longrightarrow> loc = cur @ cs"
  by (induction fs base n cur cs rule: root_walk.induct) (auto simp: comp_ok_def no_links_def split: option.splits node.splits if_splits)

lemma root_mkdir_plain: "no_links fs \<Longrightarrow> root_mkdir fs base n cur cs = (fs', e) \<Longrightarrow> no_links fs'"
  by (induction fs base n cur cs arbitrary: fs' e rule: root_mkdir.induct) (auto simp: no_links_def split: option.splits node.splits if_splits)

lemma fs_ok_prefix: "fs_ok fs \<Longrightarrow> node_at fs (p @ x # xs) \<noteq> None \<Longrightarrow> node_at fs p = Some NDir"
proof (induction xs rule: rev_induct)
  case Nil
  then have "fs (p @ [x]) \<noteq> None" by (simp add: node_at_def)
  then show ?case using Nil.prems(1) unfolding fs_ok_def by blast
next
  case (snoc y ys)
  have "fs ((p @ x # ys) @ [y]) \<noteq> None" using snoc.prems(2) by (simp add: node_at_def)
  then have "node_at fs (p @ x # ys) = Some NDir" using snoc.prems(1) unfolding fs_ok_def by blast
  then show ?case using snoc.IH snoc.prems(1) by simp
qed

lemma walk_exists:
  assumes "fs_ok fs" "no_links fs" "list_all comp_ok cs" "node_at fs (cur @ cs) \<noteq> None"
  shows "walk fs n cur cs = Inr (cur @ cs)"
  using assms(3,4)
proof (induction cs arbitrary: cur)
  case (Cons c cs)
  have c: "\<not> (c = [] \<or> c = ''.'')" "c \<noteq> ''..''" using Cons.prems(1) by (auto simp: comp_ok_def)
  show ?case
  proof (cases "cs = []")
    case True
    with Cons.prems(2) c assms(2) show ?thesis
      by (auto simp: node_at_def no_links_def split: option.splits node.splits)
  next
    case False
    then have "fs (cur @ [c]) = Some NDir"
      using fs_ok_prefix [OF assms(1), of "cur @ [c]" "hd cs" "tl cs"] Cons.prems(2) by (simp add: node_at_def)
    then show ?thesis using Cons.IH [of "cur @ [c]"] Cons.prems c by simp
  qed
qed simp

lemma root_walk_exists:
  assumes "fs_ok fs" "no_links fs" "list_all comp_ok cs" "node_at fs (base @ cur @ cs) \<noteq> None"
  shows "root_walk fs base n cur cs = Inr (cur @ cs)"
  using assms(3,4)
proof (induction cs arbitrary: cur)
  case (Cons c cs)
  have c: "\<not> (c = [] \<or> c = ''.'')" "c \<noteq> ''..''" using Cons.prems(1) by (auto simp: comp_ok_def)
  show ?case
  proof (cases "cs = []")
    case True
    with Cons.prems(2) c assms(2) show ?thesis
      by (auto simp: node_at_def no_links_def split: option.splits node.splits)
  next
    case False
    then have "fs (base @ cur @ [c]) = Some NDir"
      using fs_ok_prefix [OF assms(1), of "base @ cur @ [c]" "hd cs" "tl cs"] Cons.prems(2) by (simp add: node_at_def)
    then show ?thesis using Cons.IH [of "cur @ [c]"] Cons.prems c by simp
  qed
qed simp

lemma existing_prefix_self: "lstat_ok E fs p \<Longrightarrow> existing_prefix E fs r p b = (p, b)"
  by (simp add: existing_prefix.simps)

text \<open>What a successful \<^verbatim>\<open>rootRel\<close> tells.\<close>

lemma rootRel_ok:
  assumes "cwd_ok E" "rootRel E fs chroot name = GOk (base, rel)"
  obtains rs us where "path_Abs E chroot = Inr (abs_text rs)" "list_all comp_ok rs" "list_all comp_ok us" "us \<noteq> []" "rs \<noteq> []"
    "ValidatePath E name chroot = Inr (abs_text (rs @ us))" "rel = str_join us ''/''" "split_byte CHR ''/'' rel = us"
    "length rel \<noteq> 2" "take 3 rel \<noteq> ''../''" "walk fs (oe_links E) [] rs = Inr base" "node_at fs base = Some NDir"
    "\<exists>p. ValidatePathResolved E fs name chroot = Inr p"
proof -
  obtain p where p: "ValidatePath E name chroot = Inr p" using assms(2) by (auto simp: rootRel_def split: sum.splits)
  obtain rs ps where r: "path_Abs E chroot = Inr (abs_text rs)" "list_all comp_ok rs" "p = abs_text ps" "list_all comp_ok ps" "inside rs ps"
    using ValidatePath_ok [OF assms(1) p] path_Abs_empty [OF assms(1), of chroot] by metis
  obtain us where us: "ps = rs @ us" using r(5) by (auto simp: inside_def prefix_def split: if_splits)
  have ok: "list_all comp_ok us" using r(4) us by simp
  note rel = path_Rel_inside [OF r(2) ok]
  have "us \<noteq> []" using assms(2) p r us rel by (auto simp: rootRel_def)
  moreover have "rs \<noteq> []" using r(5) us \<open>us \<noteq> []\<close> by (auto simp: inside_def)
  moreover have "rel = str_join us ''/''" using assms(2) p r us rel \<open>us \<noteq> []\<close> by (auto simp: rootRel_def Let_def split: if_splits sum.splits)
  moreover have "split_byte CHR ''/'' (str_join us ''/'') = us"
    using split_join [OF \<open>us \<noteq> []\<close>, of "CHR ''/''"] ok by (auto simp: list_all_iff comp_ok_def)
  moreover have "take 3 rel \<noteq> ''../''"
  proof
    assume t: "take 3 rel = ''../''"
    then have "length (take 3 rel) = 3" by simp
    then have "2 \<le> length rel" by simp
    with t \<open>rel = str_join us ''/''\<close> assms(2) p r us rel \<open>us \<noteq> []\<close> show False
      by (auto simp: rootRel_def Let_def split: if_splits sum.splits)
  qed
  ultimately show ?thesis
    using that [OF r(1,2) ok] assms(2) p r us rel by (auto simp: rootRel_def Let_def split: if_splits sum.splits)
qed

section \<open>Writing\<close>

lemma write_frame:
  assumes "cwd_ok E" "fs_ok fs" "WriteFileInRoot E fs chroot name data = (fs', r)"
    "\<And>a b. path_Abs E chroot = Inr a \<Longrightarrow> walk fs (oe_links E) [] (comps a) = Inr b \<Longrightarrow> b = base"
  shows "fs_ok fs' \<and> (\<forall>p. \<not> strict_prefix base p \<or> fs p = Some NDir \<or> (\<exists>t. fs p = Some (NLink t)) \<longrightarrow> fs' p = fs p)"
proof (cases "rootRel E fs chroot name")
  case (GOk br)
  obtain b0 rel where br: "br = (b0, rel)" by fastforce
  obtain rs us where rr: "path_Abs E chroot = Inr (abs_text rs)" "list_all comp_ok rs" "list_all comp_ok us" "us \<noteq> []"
    "split_byte CHR ''/'' rel = us" "walk fs (oe_links E) [] rs = Inr b0" "node_at fs b0 = Some NDir"
    using rootRel_ok [OF assms(1) GOk [unfolded br]] by metis
  have base: "b0 = base" using assms(4) [OF rr(1)] rr(6) comps_abs_text [OF rr(2)] by simp
  obtain fs1 e where m: "root_mkdir fs base (oe_links E) [] (butlast us) = (fs1, e)" by fastforce
  have f1: "fs_ok fs1" "\<And>p. fs p \<noteq> None \<or> \<not> strict_prefix base p \<Longrightarrow> fs1 p = fs p"
    using root_mkdir_frame [OF m assms(2)] rr(7) base by auto
  show ?thesis
  proof (cases "e = None \<and> (\<exists>loc. root_walk fs1 base (oe_links E) [] us = Inr loc \<and> node_at fs1 (base @ loc) \<noteq> Some NDir)")
    case False
    then have "fs' = fs1"
      using assms(3) GOk br rr(5) m base by (auto simp: WriteFileInRoot_def Let_def split: option.splits sum.splits if_splits)
    then show ?thesis using f1 by auto
  next
    case True
    then obtain loc where loc: "root_walk fs1 base (oe_links E) [] us = Inr loc" "node_at fs1 (base @ loc) \<noteq> Some NDir" by blast
    have fs': "fs' = fs1(base @ loc \<mapsto> NFile data)"
      using assms(3) GOk br rr(5) m base True loc by (auto simp: WriteFileInRoot_def Let_def)
    have bd: "node_at fs1 base = Some NDir" using f1(2) [of base] rr(7) base by (auto simp: node_at_def split: if_splits)
    have lp: "loc \<noteq> []" "node_at fs1 (base @ butlast loc) = Some NDir"
      using root_walk_parent [OF f1(1) _ loc(1)] bd loc(2) by auto
    then have split: "base @ loc = (base @ butlast loc) @ [last loc]" by simp
    have ok: "fs_ok fs'" unfolding fs_ok_def
    proof (intro allI impI)
      fix p c assume "fs' (p @ [c]) \<noteq> None"
      then consider "p @ [c] = (base @ butlast loc) @ [last loc]" | "fs1 (p @ [c]) \<noteq> None" unfolding fs' split by (auto split: if_splits)
      then have d: "node_at fs1 p = Some NDir"
        using lp(2) f1(1) by cases (auto simp: fs_ok_def)
      then have "p \<noteq> base @ loc" using loc(2) by auto
      then show "node_at fs' p = Some NDir" using d by (cases "p = []") (simp_all add: fs' node_at_def)
    qed
    have "fs' p = fs p" if "\<not> strict_prefix base p \<or> fs p = Some NDir \<or> (\<exists>t. fs p = Some (NLink t))" for p
    proof -
      have k: "fs1 p = fs p" using f1(2) [of p] that by auto
      have "strict_prefix base (base @ loc)" using lp(1) by (simp add: strict_prefix_def)
      moreover have nn: "node_at fs1 (base @ loc) = fs1 (base @ loc)" using lp(1) by (simp add: node_at_def)
      moreover have "\<forall>t. fs1 (base @ loc) \<noteq> Some (NLink t)"
        using root_walk_no_link [OF loc(1) f1(1)] bd nn by (metis append_Nil2)
      ultimately have "p \<noteq> base @ loc" using that k loc(2) by auto
      then show ?thesis using k by (simp add: fs')
    qed
    with ok show ?thesis by blast
  qed
qed (use assms(2,3) in \<open>auto simp: WriteFileInRoot_def\<close>)

lemma write_wf:
  assumes "cwd_ok E" "fs_ok fs" "WriteFileInRoot E fs chroot name data = (fs', r)"
  shows "fs_ok fs'"
proof -
  obtain base where "\<And>a b. path_Abs E chroot = Inr a \<Longrightarrow> walk fs (oe_links E) [] (comps a) = Inr b \<Longrightarrow> b = base"
    by (metis sum.inject(2))
  from write_frame [OF assms this] show ?thesis by simp
qed

text \<open>Reading after a write.\<close>

lemma write_read_back:
  assumes "cwd_ok E" "fs_ok fs" "no_links fs" "WriteFileInRoot E fs chroot name data = (fs', GOk ())" "length data \<le> maxRootFileBytes"
  shows "ReadFileInRoot E fs' chroot name = GOk data"
proof -
  obtain br where "rootRel E fs chroot name = GOk br" using assms(4) by (auto simp: WriteFileInRoot_def split: guarded.splits)
  then obtain base rel where rr0: "rootRel E fs chroot name = GOk (base, rel)" by (cases br) auto
  obtain rs us where rr: "path_Abs E chroot = Inr (abs_text rs)" "list_all comp_ok rs" "list_all comp_ok us" "us \<noteq> []" "rs \<noteq> []"
    "ValidatePath E name chroot = Inr (abs_text (rs @ us))" "rel = str_join us ''/''" "split_byte CHR ''/'' rel = us"
    "length rel \<noteq> 2" "take 3 rel \<noteq> ''../''" "walk fs (oe_links E) [] rs = Inr base" "node_at fs base = Some NDir"
    using rootRel_ok [OF assms(1) rr0] by metis
  have base: "base = rs" using walk_plain [OF assms(3) rr(2,11)] by simp
  obtain fs1 where m: "root_mkdir fs rs (oe_links E) [] (butlast us) = (fs1, None)"
    using assms(4) rr0 rr(8) base by (auto simp: WriteFileInRoot_def split: prod.splits option.splits)
  have nl1: "no_links fs1" by (rule root_mkdir_plain [OF assms(3) m])
  obtain loc where loc: "root_walk fs1 rs (oe_links E) [] us = Inr loc" "fs' = fs1(rs @ loc \<mapsto> NFile data)"
    using assms(4) rr0 rr(8) base m by (auto simp: WriteFileInRoot_def Let_def split: sum.splits if_splits)
  then have fs': "fs' = fs1(rs @ us \<mapsto> NFile data)" using root_walk_plain [OF nl1 rr(3) loc(1)] by simp
  have ok': "fs_ok fs'"
    using write_wf [OF assms(1,2,4)] .
  have nl': "no_links fs'" using nl1 by (auto simp: fs' no_links_def)
  have here: "node_at fs' (rs @ us) = Some (NFile data)" using rr(4) by (simp add: fs' node_at_def)
  have dir: "node_at fs' rs = Some NDir"
    using fs_ok_prefix [OF ok', of rs "hd us" "tl us"] here rr(4) by simp
  have ok: "list_all comp_ok (rs @ us)" using rr(2,3) by simp
  have w: "walk fs' (oe_links E) [] (rs @ us) = Inr (rs @ us)" "walk fs' (oe_links E) [] rs = Inr rs"
    using walk_exists [OF ok' nl' ok, of "[]"] walk_exists [OF ok' nl' rr(2), of "[]"] here dir by simp_all
  have "existing_prefix E fs' (abs_text rs) (abs_text (rs @ us)) False = (abs_text (rs @ us), False)"
    by (rule existing_prefix_self [OF lstat_of_walk [OF ok' ok w(1)]])
  moreover have "EvalSymlinks E fs' (abs_text (rs @ us)) = Inr (abs_text (rs @ us))" using w(1) ok by (simp add: EvalSymlinks_def)
  moreover have "path_Rel (abs_text (rs @ us)) (abs_text (rs @ us)) = ''.''" using path_Rel_inside [OF ok, of "[]"] by simp
  moreover have "inside rs (rs @ us)" using rr(5) by (simp add: inside_def)
  ultimately have v: "ValidatePathResolved E fs' name chroot = Inr (abs_text (rs @ us))"
    using rr(1,2,6) ok inside_text [OF rr(2) ok] by (auto simp: ValidatePathResolved_def Let_def)
  have "path_Rel (abs_text rs) (abs_text (rs @ us)) = rel" using path_Rel_inside [OF rr(2,3)] rr(4,7) by simp
  then have "rootRel E fs' chroot name = (if rel = ''.'' \<or> rel = ''..'' then
      GErr (EMsg (''security violation: path '' @ name @ '' escapes allowed directory '' @ chroot)) else GOk (rs, rel))"
    using rr(1,2,6,9,10) v w(2) dir by (simp add: rootRel_def Let_def)
  moreover have "rel \<noteq> ''.'' \<and> rel \<noteq> ''..''" using rr(3,4,8) by (auto simp: comp_ok_def)
  moreover have "root_walk fs' rs (oe_links E) [] us = Inr us"
    using root_walk_exists [OF ok' nl' rr(3), of rs "[]"] here by simp
  ultimately show ?thesis using rr(8) here assms(5) by (simp add: ReadFileInRoot_def)
qed

section \<open>Properties\<close>

text \<open>
  The lexical check decides containment. For any path of bounded depth, \<^verbatim>\<open>ValidatePath\<close> accepts it exactly
  when its absolute clean form is the root directory of the check or lies below it, component by component,
  and then returns that form: neither dot-dot components nor a sibling whose name extends the root's name
  get through, and nothing inside is refused. Under the root \<^verbatim>\<open>/\<close> itself it accepts only \<^verbatim>\<open>/\<close>.
\<close>

theorem validate_path_exact:
  assumes "cwd_ok E" "path \<noteq> []" "length (comps (path_clean path)) \<le> MaxCleanComponents"
    "path_Abs E (if chroot = [] then ''.'' else chroot) = Inr a" "path_Abs E (path_clean path) = Inr b"
  shows "\<exists>rs ps. list_all comp_ok rs \<and> list_all comp_ok ps \<and> a = abs_text rs \<and> b = abs_text ps \<and>
    (\<forall>p. ValidatePath E path chroot = Inr p \<longleftrightarrow> p = abs_text ps \<and> (if rs = [] then ps = [] else prefix rs ps))"
proof -
  obtain rs where rs: "list_all comp_ok rs" "a = abs_text rs" using path_Abs_comps [OF assms(1,4)] .
  obtain ps where ps: "list_all comp_ok ps" "b = abs_text ps" using path_Abs_comps [OF assms(1,5)] .
  have "ValidatePath E path chroot = Inr p \<longleftrightarrow> p = abs_text ps \<and> (if rs = [] then ps = [] else prefix rs ps)" for p
    using ValidatePath_cases [OF assms(1-3), of chroot rs ps] assms(4,5) rs ps by (auto simp: inside_def)
  with rs ps show ?thesis by blast
qed

text \<open>
  C16: Links do not lead out. If \<^verbatim>\<open>ValidatePathResolved\<close> approves a path and the path exists, then the place it
  denotes after following every symbolic link is inside the root directory of the check.
\<close>

theorem resolved_path_confined:
  assumes "cwd_ok E" "fs_ok fs" "ValidatePathResolved E fs path chroot = Inr p" "EvalSymlinks E fs p = Inr q"
  shows "\<exists>rs qs. path_Abs E chroot = Inr (abs_text rs) \<and> q = abs_text qs \<and> list_all comp_ok rs \<and> list_all comp_ok qs \<and> prefix rs qs"
proof -
  obtain p' where v: "ValidatePath E path chroot = Inr p'"
    using assms(3) by (auto simp: ValidatePathResolved_def split: sum.splits)
  obtain rs ps where r: "path_Abs E chroot = Inr (abs_text rs)" "list_all comp_ok rs" "p' = abs_text ps" "list_all comp_ok ps"
    using ValidatePath_ok [OF assms(1) v] path_Abs_empty [OF assms(1), of chroot] by metis
  have p: "p = abs_text ps"
    using assms(3) v r by (auto simp: ValidatePathResolved_def Let_def split: sum.splits prod.splits if_splits)
  obtain qs where qs: "walk fs (oe_links E) [] ps = Inr qs" "q = abs_text qs"
    using assms(4) r(4) by (auto simp: p EvalSymlinks_def) (metis obj_sumE map_sum.simps sum.distinct(1) sum.inject(2))
  have ok: "list_all comp_ok qs" using walk_comps [OF qs(1)] r(4) by (auto simp: list_all_iff comp_ok_def)
  have "existing_prefix E fs (abs_text rs) p False = (p, False)"
    unfolding p by (rule existing_prefix_self [OF lstat_of_walk [OF assms(2) r(4) qs(1)]])
  moreover have "path_Rel p p = ''.''" using path_Rel_inside [of ps "[]"] r(4) by (simp add: p)
  ultimately have "inside rs qs"
    using assms(3,4) v r qs(2) p ok inside_text [OF r(2) ok]
    by (auto simp: ValidatePathResolved_def split: if_splits)
  then have "prefix rs qs" by (auto simp: inside_def split: if_splits)
  with r qs(2) ok show ?thesis by blast
qed

text \<open>
  C15: Writing stays in the root. \<^verbatim>\<open>WriteFileInRoot\<close> keeps the file system well formed, whatever happens; it
  changes nothing outside the opened root directory, and inside it replaces no directory and no link.
\<close>

theorem write_in_root_confined:
  assumes "cwd_ok E" "fs_ok fs" "WriteFileInRoot E fs chroot name data = (fs', r)"
    "path_Abs E chroot = Inr a" "walk fs (oe_links E) [] (comps a) = Inr base"
  shows "fs_ok fs' \<and> (\<forall>p. \<not> strict_prefix base p \<or> fs p = Some NDir \<or> (\<exists>t. fs p = Some (NLink t)) \<longrightarrow> fs' p = fs p)"
  using assms(4,5) by (intro write_frame [OF assms(1-3)]) auto

text \<open>
  What is written is read back. In a file system without symbolic links, after a successful
  \<^verbatim>\<open>WriteFileInRoot\<close> of at most ten mebibytes \<^verbatim>\<open>ReadFileInRoot\<close> of the same name returns the same bytes, whether
  the file or its parent directories existed before or not.
\<close>

theorem write_then_read:
  assumes "cwd_ok E" "fs_ok fs" "no_links fs" "WriteFileInRoot E fs chroot name data = (fs', GOk ())" "length data \<le> maxRootFileBytes"
  shows "ReadFileInRoot E fs' chroot name = GOk data"
  by (rule write_read_back [OF assms])

text \<open>
  A file name of two bytes crashes the file tools. For every existing or new file in the root whose relative
  path has two bytes, reading and writing it panic in a slice expression, before any access.
\<close>

theorem two_byte_names_panic:
  assumes "cwd_ok E" "path_Abs E chroot = Inr (abs_text rs)" "list_all comp_ok rs" "rs \<noteq> []"
    "comp_ok [x, y]" "ValidatePath E name chroot = Inr (abs_text (rs @ [[x, y]]))"
  shows "ReadFileInRoot E fs chroot name = GPanic \<and> WriteFileInRoot E fs chroot name data = (fs, GPanic)"
proof -
  have "path_Rel (abs_text rs) (abs_text (rs @ [[x, y]])) = [x, y]"
    using path_Rel_inside [OF assms(3), of "[[x, y]]"] assms(5) by simp
  then have "rootRel E fs chroot name = GPanic"
    using assms(2,3,5,6) by (simp add: rootRel_def comp_ok_def Let_def)
  then show ?thesis by (simp add: ReadFileInRoot_def WriteFileInRoot_def)
qed

section \<open>Witnesses\<close>

definition wit_os :: osenv where
  "wit_os = \<lparr>oe_cwd = Inr ''/w'', oe_links = 40\<rparr>"

text \<open>\<^verbatim>\<open>/w\<close> with a directory \<^verbatim>\<open>d\<close>, and a link \<^verbatim>\<open>l\<close> to \<^verbatim>\<open>d\<close>.\<close>

definition wit_fs :: fs where
  "wit_fs = [[''w''] \<mapsto> NDir, [''w'', ''d''] \<mapsto> NDir, [''w'', ''d'', ''old''] \<mapsto> NFile ''x'', [''w'', ''l''] \<mapsto> NLink ''d'']"

definition wit_plain :: fs where
  "wit_plain = [[''w''] \<mapsto> NDir, [''w'', ''d''] \<mapsto> NDir]"

lemmas wit_path_simps = wit_os_def path_Abs_def path_join_def path_clean_def clean_stack_def clean_step_def is_rooted_def render_path_def
  comps_def comp_ok_def abs_text_def

lemma wit_os_ok: "cwd_ok wit_os"
  by (simp add: cwd_ok_def wit_os_def is_rooted_def)

lemma wit_fs_ok: "fs_ok wit_fs" "fs_ok wit_plain" "no_links wit_plain"
  by (auto simp: fs_ok_def wit_fs_def wit_plain_def node_at_def no_links_def append_eq_Cons_conv split: if_splits)

theorem validate_path_exact_witness:
  "ValidatePath wit_os ''d/../d//old'' [] = Inr ''/w/d/old'' \<and> \<not> is_ok (ValidatePath wit_os ''d/../../wx'' [])"
proof -
  have a: "path_Abs wit_os (if [] = [] then ''.'' else []) = Inr ''/w''" "path_Abs wit_os (path_clean ''d/../d//old'') = Inr ''/w/d/old''"
    "path_Abs wit_os (path_clean ''d/../../wx'') = Inr ''/wx''"
    and n: "length (comps (path_clean ''d/../d//old'')) \<le> MaxCleanComponents" "length (comps (path_clean ''d/../../wx'')) \<le> MaxCleanComponents"
    by (simp_all add: wit_path_simps MaxCleanComponents_def)
  have c: "comps ''/w'' = [''w'']" "comps ''/w/d/old'' = [''w'', ''d'', ''old'']" "comps ''/wx'' = [''wx'']"
    by (simp_all add: comps_def)
  have ne: "''d/../d//old'' \<noteq> []" "''d/../../wx'' \<noteq> []" by simp_all
  obtain rs ps where r: "list_all comp_ok rs" "list_all comp_ok ps" "''/w'' = abs_text rs" "''/w/d/old'' = abs_text ps"
    "\<And>p. ValidatePath wit_os ''d/../d//old'' [] = Inr p \<longleftrightarrow> p = abs_text ps \<and> (if rs = [] then ps = [] else prefix rs ps)"
    using validate_path_exact [OF wit_os_ok ne(1) n(1) a(1,2)] by blast
  have "rs = [''w'']" "ps = [''w'', ''d'', ''old'']"
    using comps_abs_text [OF r(1)] comps_abs_text [OF r(2)] unfolding r(3,4) [symmetric] c by simp_all
  then have in_root: "ValidatePath wit_os ''d/../d//old'' [] = Inr ''/w/d/old''" using r(4,5) by simp
  obtain rs ps where r: "list_all comp_ok rs" "list_all comp_ok ps" "''/w'' = abs_text rs" "''/wx'' = abs_text ps"
    "\<And>p. ValidatePath wit_os ''d/../../wx'' [] = Inr p \<longleftrightarrow> p = abs_text ps \<and> (if rs = [] then ps = [] else prefix rs ps)"
    using validate_path_exact [OF wit_os_ok ne(2) n(2) a(1,3)] by blast
  have "rs = [''w'']" "ps = [''wx'']"
    using comps_abs_text [OF r(1)] comps_abs_text [OF r(2)] unfolding r(3,4) [symmetric] c by simp_all
  then have "\<not> is_ok (ValidatePath wit_os ''d/../../wx'' [])" using r(5) by simp
  with in_root show ?thesis by simp
qed

theorem resolved_path_confined_witness:
  "ValidatePathResolved wit_os wit_fs ''l/old'' ''/w'' = Inr ''/w/l/old'' \<and>
    (\<exists>rs qs. path_Abs wit_os ''/w'' = Inr (abs_text rs) \<and> ''/w/d/old'' = abs_text qs \<and> prefix rs qs)"
proof -
  have v: "ValidatePathResolved wit_os wit_fs ''l/old'' ''/w'' = Inr ''/w/l/old''"
    by (simp add: ValidatePathResolved_def ValidatePath_def existing_prefix.simps lstat_ok_def EvalSymlinks_def path_Rel_def wit_path_simps
        wit_fs_def node_at_def MaxCleanComponents_def Let_def)
  have "EvalSymlinks wit_os wit_fs ''/w/l/old'' = Inr ''/w/d/old''"
    by (simp add: EvalSymlinks_def wit_path_simps wit_fs_def)
  from resolved_path_confined [OF wit_os_ok wit_fs_ok(1) v this]
  show ?thesis using v by blast
qed

text \<open>The write goes through the link, into the directory \<^verbatim>\<open>d\<close> of the root.\<close>

lemma wit_write:
  "WriteFileInRoot wit_os wit_fs [] ''l/new'' ''abc'' = (wit_fs([''w'', ''d'', ''new''] \<mapsto> NFile ''abc''), GOk ())"
  "WriteFileInRoot wit_os wit_plain [] ''e/new'' ''abc'' =
    (wit_plain([''w'', ''e''] \<mapsto> NDir, [''w'', ''e'', ''new''] \<mapsto> NFile ''abc''), GOk ())"
  by (simp_all add: WriteFileInRoot_def rootRel_def ValidatePathResolved_def ValidatePath_def existing_prefix.simps lstat_ok_def EvalSymlinks_def
      path_Rel_def path_Dir_def wit_path_simps wit_fs_def wit_plain_def node_at_def MaxCleanComponents_def Let_def)

theorem write_in_root_confined_witness:
  "fs_ok (wit_fs([''w'', ''d'', ''new''] \<mapsto> NFile ''abc''))"
  using write_in_root_confined [OF wit_os_ok wit_fs_ok(1) wit_write(1), of "''/w''" "[''w'']"]
  by (simp add: wit_path_simps wit_fs_def)

theorem write_then_read_witness:
  "ReadFileInRoot wit_os (fst (WriteFileInRoot wit_os wit_plain [] ''e/new'' ''abc'')) [] ''e/new'' = GOk ''abc''"
  using write_then_read [OF wit_os_ok wit_fs_ok(2,3) wit_write(2)] by (simp add: wit_write(2) maxRootFileBytes_def)

theorem two_byte_names_panic_witness: "ReadFileInRoot wit_os wit_fs ''/w'' ''ab'' = GPanic"
  using two_byte_names_panic [OF wit_os_ok, of "''/w''" "[''w'']" "CHR ''a''" "CHR ''b''" "''ab''" wit_fs]
  by (simp add: wit_path_simps ValidatePath_def MaxCleanComponents_def Let_def)

end
