(* ===== verification/File_Tools.thy ===== *)
theory File_Tools
  imports File_Guard
begin

text \<open>
  The file tools of an agent, \<^verbatim>\<open>pkg/tools/file_read.go\<close>, \<^verbatim>\<open>file_write.go\<close> and \<^verbatim>\<open>file_edit.go\<close>, over the root-confined
  access of \<open>File_Guard\<close>, and the search for the block to edit, \<^verbatim>\<open>pkg/utils/matching.go\<close>.

  Offsets are byte offsets. White space is that of ASCII, the typographic quotes and the dash are their
  UTF-8 bytes.
\<close>

section \<open>Finding a block\<close>

definition rstrip :: "string \<Rightarrow> string" where
  "rstrip s = rev (dropWhile is_space (rev s))"

definition utf3 :: "nat \<Rightarrow> string" where
  "utf3 x = [char_of (0xE2 :: nat), char_of (0x80 :: nat), char_of x]"

definition normalize :: "string \<Rightarrow> string" where
  "normalize s =
     replace_all (utf3 0x94) ''-'' (replace_all (utf3 0x99) [CHR 0x27] (replace_all (utf3 0x98) [CHR 0x27]
       (replace_all (utf3 0x9D) [CHR 0x22] (replace_all (utf3 0x9C) [CHR 0x22] (trim_space s)))))"

datatype match_mode = Rstrip | Trim | Normalize

fun normLine :: "match_mode \<Rightarrow> string \<Rightarrow> string" where
  "normLine Rstrip s = rstrip s"
| "normLine Trim s = trim_space s"
| "normLine Normalize s = normalize s"

definition maxMatchFileBytes :: nat where "maxMatchFileBytes = 2 * 1024 * 1024"
definition maxMatchTargetBytes :: nat where "maxMatchTargetBytes = 256 * 1024"
definition maxMatchLines :: nat where "maxMatchLines = 20000"

text \<open>The first index from \<open>i\<close> on at which the wanted lines stand.\<close>

fun match_from :: "string list \<Rightarrow> nat \<Rightarrow> string list \<Rightarrow> nat option" where
  "match_from want i lines =
     (if length want \<le> length lines
      then if take (length want) lines = want then Some i
           else (case lines of [] \<Rightarrow> None | l # ls \<Rightarrow> match_from want (Suc i) ls)
      else None)"

declare match_from.simps [simp del]

definition lines_size :: "string list \<Rightarrow> nat" where
  "lines_size ls = sum_list (map (\<lambda>l. length l + 1) ls)"

definition matchLines :: "string \<Rightarrow> string \<Rightarrow> match_mode \<Rightarrow> (nat \<times> nat) option" where
  "matchLines fullText search mode =
     (let fullLines = split_byte (CHR 0x0A) fullText; searchLines = split_byte (CHR 0x0A) search in
      if length searchLines = 0 then None
      else if length fullLines > maxMatchLines \<or> length searchLines > maxMatchLines then None
      else (case match_from (map (normLine mode) searchLines) 0 (map (normLine mode) fullLines) of
              None \<Rightarrow> None
            | Some i \<Rightarrow>
                (let startIdx = lines_size (take i fullLines);
                     endIdx = startIdx + lines_size (take (length searchLines) (drop i fullLines)) in
                 Some (startIdx,
                   if endIdx > length fullText then length fullText
                   else if endIdx > 0 \<and> fullText ! (endIdx - 1) = CHR 0x0A \<and> \<not> has_suffix search [CHR 0x0A] then endIdx - 1
                   else endIdx))))"

definition FindMatchingBlock :: "string \<Rightarrow> string \<Rightarrow> (nat \<times> nat) option" where
  "FindMatchingBlock fullText search =
     (if search = [] then None
      else if length fullText > maxMatchFileBytes \<or> length search > maxMatchTargetBytes then None
      else (case str_cut search fullText of
              Some (before, after) \<Rightarrow> Some (length before, length before + length search)
            | None \<Rightarrow>
                (case matchLines fullText search Rstrip of
                   Some r \<Rightarrow> Some r
                 | None \<Rightarrow>
                     (case matchLines fullText search Trim of
                        Some r \<Rightarrow> Some r
                      | None \<Rightarrow> matchLines fullText search Normalize))))"

section \<open>Tools\<close>

definition fr_Execute :: "osenv \<Rightarrow> string \<Rightarrow> gmap \<Rightarrow> fs \<Rightarrow> string guarded" where
  "fr_Execute E chroot input fs =
     (case input ''file_path'' of
        None \<Rightarrow> GErr (EMsg ''missing 'file_path' in input'')
      | Some (VString path) \<Rightarrow> ReadFileInRoot E fs chroot path
      | Some _ \<Rightarrow> GErr (EMsg (CHR 0x27 # ''file_path' must be a string'')))"

definition fw_Execute :: "osenv \<Rightarrow> string \<Rightarrow> gmap \<Rightarrow> fs \<Rightarrow> fs \<times> string guarded" where
  "fw_Execute E chroot input fs =
     (case (input ''file_path'', input ''content'') of
        (Some p, Some x) \<Rightarrow>
          (case (p, x) of
             (VString path, VString content) \<Rightarrow>
               (case WriteFileInRoot E fs chroot path content of
                  (fs1, GOk _) \<Rightarrow> (fs1, GOk (''Successfully wrote to '' @ path))
                | (fs1, GErr e) \<Rightarrow> (fs1, GErr e)
                | (fs1, GPanic) \<Rightarrow> (fs1, GPanic))
           | (VString path, _) \<Rightarrow> (fs, GErr (EMsg (CHR 0x27 # ''content' must be a string'')))
           | _ \<Rightarrow> (fs, GErr (EMsg (CHR 0x27 # ''file_path' must be a string''))))
      | _ \<Rightarrow> (fs, GErr (EMsg ''missing 'file_path' or 'content' in input'')))"

text \<open>\<^verbatim>\<open>filepath.Base\<close>.\<close>

definition path_Base :: "string \<Rightarrow> string" where
  "path_Base p =
     (if p = [] then ''.''
      else if comps p = [] then ''/'' else last (comps p))"

definition fe_Execute :: "osenv \<Rightarrow> string \<Rightarrow> gmap \<Rightarrow> fs \<Rightarrow> fs \<times> string guarded" where
  "fe_Execute E chroot input fs =
     (let str = (\<lambda>k. case get_string input k of Some v \<Rightarrow> v | None \<Rightarrow> []);
          filePath = str ''file_path''; targetText = str ''target_text''; replacementText = str ''replacement_text'' in
      if filePath = [] \<or> targetText = [] then (fs, GErr (EMsg ''file_path and target_text are required''))
      else (case ReadFileInRoot E fs chroot filePath of
              GErr e \<Rightarrow> (fs, GErr e)
            | GPanic \<Rightarrow> (fs, GPanic)
            | GOk content \<Rightarrow>
                (case FindMatchingBlock content targetText of
                   None \<Rightarrow> (fs, GErr (EMsg (''target_text not found in '' @ filePath @ '' (no match found even with heuristic passes)'')))
                 | Some (start, finish) \<Rightarrow>
                     (case WriteFileInRoot E fs chroot filePath (take start content @ replacementText @ drop finish content) of
                        (fs1, GErr e) \<Rightarrow> (fs1, GErr e)
                      | (fs1, GPanic) \<Rightarrow> (fs1, GPanic)
                      | (fs1, GOk _) \<Rightarrow>
                          (fs1, GOk (''Successfully updated '' @ path_Base filePath @ ''. Applied patch to block starting at byte '' @
                             show_nat start @ ''.''))))))"

section \<open>Lemmas\<close>

lemma match_from_split:
  "match_from want i lines = Some j \<Longrightarrow> \<exists>pre post. lines = pre @ want @ post \<and> j = i + length pre"
proof (induction want i lines rule: match_from.induct)
  case (1 want i lines)
  have len: "length want \<le> length lines" using "1.prems" by (simp add: match_from.simps [of want i lines] split: if_splits)
  show ?case
  proof (cases "take (length want) lines = want")
    case True
    then have "lines = [] @ want @ drop (length want) lines" by (metis append_Nil append_take_drop_id)
    moreover have "j = i" using "1.prems" True len by (simp add: match_from.simps [of want i lines])
    ultimately show ?thesis by (intro exI [of _ "[]"] exI [of _ "drop (length want) lines"]) simp
  next
    case False
    then obtain l ls where l: "lines = l # ls" using len by (cases lines) auto
    have "match_from want i (l # ls) = match_from want (Suc i) ls"
      using False len l by (subst match_from.simps) simp
    with l "1.prems" have ls: "lines = l # ls" "match_from want (Suc i) ls = Some j" by simp_all
    from "1.IH" [OF len False ls] obtain pre post where "ls = pre @ want @ post" "j = Suc i + length pre" by blast
    then show ?thesis using ls(1) by (intro exI [of _ "l # pre"] exI [of _ post]) simp
  qed
qed

abbreviation ended :: "string list \<Rightarrow> string" where
  "ended ls \<equiv> concat (map (\<lambda>l. l @ [CHR 0x0A]) ls)"

lemma length_ended: "length (ended ls) = lines_size ls"
  by (induction ls) (auto simp: lines_size_def)

lemma join_ended: "rest \<noteq> [] \<Longrightarrow> str_join (pre @ rest) [b] = concat (map (\<lambda>l. l @ [b]) pre) @ str_join rest [b]"
  by (induction pre) (auto simp: str_join_Cons)

lemma ended_join: "blk \<noteq> [] \<Longrightarrow> ended blk = str_join blk [CHR 0x0A] @ [CHR 0x0A]"
  by (induction blk "[CHR 0x0A]" rule: str_join.induct) auto

text \<open>The lines a search in one mode finds.\<close>

definition line_block :: "match_mode \<Rightarrow> string \<Rightarrow> string \<Rightarrow> nat \<Rightarrow> nat \<Rightarrow> bool" where
  "line_block mode full search s e \<longleftrightarrow>
     (\<exists>pre blk post. split_byte (CHR 0x0A) full = pre @ blk @ post \<and>
        map (normLine mode) blk = map (normLine mode) (split_byte (CHR 0x0A) search) \<and>
        take s full = ended pre \<and>
        take (e - s) (drop s full) =
          str_join blk [CHR 0x0A] @ (if post \<noteq> [] \<and> has_suffix search [CHR 0x0A] then [CHR 0x0A] else []))"

lemma matchLines_block:
  assumes "matchLines full search mode = Some (s, e)"
  shows "s \<le> e \<and> e \<le> length full \<and> line_block mode full search s e"
proof -
  let ?nl = "CHR 0x0A" and ?n = "normLine mode"
  define F where "F = split_byte ?nl full"
  define S where "S = split_byte ?nl search"
  have S: "S \<noteq> []" by (simp add: S_def)
  obtain i where i: "match_from (map ?n S) 0 (map ?n F) = Some i"
    using assms by (auto simp: matchLines_def F_def S_def Let_def split: if_splits option.splits)
  then obtain pre' post' where pp: "map ?n F = pre' @ map ?n S @ post'" "i = length pre'"
    using match_from_split by fastforce
  define pre where "pre = take i F"
  define blk where "blk = take (length S) (drop i F)"
  define post where "post = drop (length S) (drop i F)"
  have F: "F = pre @ blk @ post" unfolding pre_def blk_def post_def append_take_drop_id by simp
  have "map ?n blk = take (length S) (drop i (map ?n F))" by (simp add: blk_def take_map drop_map)
  then have n: "map ?n blk = map ?n S" using pp by simp
  then have blk: "length blk = length S" "blk \<noteq> []" using map_eq_imp_length_eq [OF n] S by auto
  have full: "full = ended pre @ str_join (blk @ post) [?nl]"
    using join_split_byte [of ?nl full] join_ended [of "blk @ post" pre ?nl] blk(2) by (simp add: F [symmetric] F_def [symmetric])
  define x where "x = lines_size pre"
  define y where "y = x + lines_size blk"
  have len: "length (ended pre) = x" "length (ended blk) = y - x" "x \<le> y" by (simp_all add: x_def y_def length_ended)
  have se: "s = x" "e = (if y > length full then length full
      else if y > 0 \<and> full ! (y - 1) = ?nl \<and> \<not> has_suffix search [?nl] then y - 1 else y)"
    using assms i by (auto simp: matchLines_def F_def [symmetric] S_def [symmetric] pre_def [symmetric] blk_def [symmetric] x_def y_def Let_def split: if_splits)
  have jl: "length (str_join blk [?nl]) + 1 = y - x" using len(2) ended_join [OF blk(2)] by simp
  have w: "split_byte ?nl full = pre @ blk @ post" "map ?n blk = map ?n (split_byte ?nl search)" "take s full = ended pre"
    using F n full len(1) se(1) by (simp_all add: F_def S_def)
  have "s \<le> e \<and> e \<le> length full \<and> take (e - s) (drop s full) =
      str_join blk [?nl] @ (if post \<noteq> [] \<and> has_suffix search [?nl] then [?nl] else [])"
  proof (cases "post = []")
    case True
    then have f: "full = ended pre @ str_join blk [?nl]" using full by simp
    then have "length full = x + length (str_join blk [?nl])" using len(1) by simp
    then have "length full + 1 = y" using jl len(3) by simp
    then show ?thesis using True se f len(1) by simp
  next
    case False
    have f: "full = ended pre @ str_join blk [?nl] @ [?nl] @ str_join post [?nl]"
      using full join_ended [OF False, of blk ?nl] ended_join [OF blk(2)] by simp
    have y: "y = length (ended pre) + length (str_join blk [?nl]) + 1" using jl len by simp
    have "y \<le> length full" using arg_cong [OF f, of length] y by simp
    moreover have "full ! (y - 1) = ?nl"
      using y by (subst f) (simp add: nth_append)
    ultimately have e: "e = (if has_suffix search [?nl] then y else y - 1)" using se(2) y by simp
    show ?thesis
    proof (cases "has_suffix search [?nl]")
      case True
      then have "e = y" using e by simp
      moreover have "y - (x + length (str_join blk [?nl])) = 1" using jl by simp
      ultimately show ?thesis using True False se(1) len \<open>y \<le> length full\<close> jl by (subst (2) f) simp
    next
      case ns: False
      then have "e = y - 1" using e by simp
      then show ?thesis using ns False se(1) len \<open>y \<le> length full\<close> jl by (subst (2) f) auto
    qed
  qed
  with w show ?thesis unfolding line_block_def by blast
qed

section \<open>Properties\<close>

text \<open>
  The block that is found is what was searched. \<^verbatim>\<open>FindMatchingBlock\<close> returns offsets inside the text that
  enclose either an occurrence of the search text, and then the first one, or a run of whole lines that
  agree with the lines of the search text up to trailing white space, surrounding white space or
  typographic quotes; the line break after the run is included when the search text ends with one.
\<close>

theorem match_block_sound:
  assumes "FindMatchingBlock full search = Some (s, e)"
  shows "s \<le> e \<and> e \<le> length full \<and>
    (take (e - s) (drop s full) = search \<and> \<not> sublist search (take s full) \<or> (\<exists>mode. line_block mode full search s e))"
proof (cases "str_cut search full")
  case (Some ab)
  obtain a b where ab: "ab = (a, b)" by fastforce
  have ne: "search \<noteq> []" using assms by (auto simp: FindMatchingBlock_def)
  have "s = length a" "e = length a + length search" using assms Some ab by (auto simp: FindMatchingBlock_def split: if_splits)
  moreover have "full = a @ search @ b" using str_cut_Some Some ab by blast
  moreover have "\<not> sublist search a" using str_cut_first [of search full a b] Some ab ne by simp
  ultimately show ?thesis by simp
next
  case None
  then obtain mode where "matchLines full search mode = Some (s, e)"
    using assms by (auto simp: FindMatchingBlock_def split: if_splits option.splits)
  from matchLines_block [OF this] show ?thesis by blast
qed

text \<open>
  What an edit does. In a file system without links, a successful run of the edit tool means that the file
  held some content with a block found in it, that the file now reads as this content with the block
  replaced, and that nothing outside the root directory changed.
\<close>

theorem edit_replaces_block:
  assumes "cwd_ok E" "fs_ok fs" "no_links fs" "fe_Execute E chroot input fs = (fs', GOk msg)"
    "get_string input ''file_path'' = Some name" "get_string input ''target_text'' = Some target"
    "get_string input ''replacement_text'' = Some repl" "path_Abs E chroot = Inr a"
  shows "\<exists>content s e. ReadFileInRoot E fs chroot name = GOk content \<and> FindMatchingBlock content target = Some (s, e) \<and>
    (length (take s content @ repl @ drop e content) \<le> maxRootFileBytes \<longrightarrow>
       ReadFileInRoot E fs' chroot name = GOk (take s content @ repl @ drop e content)) \<and>
    (\<forall>p. \<not> strict_prefix (comps a) p \<longrightarrow> fs' p = fs p)"
proof -
  obtain content where c: "ReadFileInRoot E fs chroot name = GOk content"
    using assms(4-7) by (auto simp: fe_Execute_def Let_def split: if_splits guarded.splits)
  obtain s e where f: "FindMatchingBlock content target = Some (s, e)"
    using assms(4-7) c by (auto simp: fe_Execute_def Let_def split: if_splits option.splits)
  have w: "WriteFileInRoot E fs chroot name (take s content @ repl @ drop e content) = (fs', GOk ())"
    using assms(4-7) c f by (auto simp: fe_Execute_def Let_def split: if_splits prod.splits guarded.splits)
  obtain rs where rs: "list_all comp_ok rs" "a = abs_text rs" using path_Abs_comps [OF assms(1,8)] .
  have ca: "comps a = rs" using rs by simp
  have "b = comps a" if "path_Abs E chroot = Inr a'" "walk fs (oe_links E) [] (comps a') = Inr b" for a' b
    using that assms(8) ca walk_plain [OF assms(3) rs(1), of "oe_links E" "[]" b] by simp
  with write_frame [OF assms(1,2) w, of "comps a"] have "\<forall>p. \<not> strict_prefix (comps a) p \<longrightarrow> fs' p = fs p" by blast
  with c f write_read_back [OF assms(1-3) w] show ?thesis by blast
qed

text \<open>
  A search text that ends with a line break and is found by its lines takes a following blank line with it,
  although an exact occurrence would end right after the line break.
\<close>

lemma trailing_break_takes_blank_line:
  "FindMatchingBlock ''a\<newline>\<newline>b'' ''a\<newline>'' = Some (0, 2)"
  "FindMatchingBlock ''a \<newline>\<newline>b'' ''a\<newline>'' = Some (0, 4)"
  by (simp_all add: FindMatchingBlock_def matchLines_def match_from.simps lines_size_def rstrip_def is_space_def maxMatchFileBytes_def
      maxMatchTargetBytes_def maxMatchLines_def Let_def suffix_def)

theorem match_block_sound_witness:
  "take 4 (drop 0 ''a \<newline>\<newline>b'') = ''a \<newline>\<newline>'' \<and> (\<exists>mode. line_block mode ''a \<newline>\<newline>b'' ''a\<newline>'' 0 4)"
  using match_block_sound [OF trailing_break_takes_blank_line(2)] by simp

theorem edit_replaces_block_witness:
  "\<exists>fs' msg. fe_Execute wit_os ''/w'' [''file_path'' \<mapsto> VString ''d/old'', ''target_text'' \<mapsto> VString ''x'', ''replacement_text'' \<mapsto> VString ''yz'']
      (wit_plain([''w'', ''d'', ''old''] \<mapsto> NFile ''1x2'')) = (fs', GOk msg) \<and>
    ReadFileInRoot wit_os fs' ''/w'' ''d/old'' = GOk ''1yz2''"
proof -
  let ?fs = "wit_plain([''w'', ''d'', ''old''] \<mapsto> NFile ''1x2'')"
  let ?in = "[''file_path'' \<mapsto> VString ''d/old'', ''target_text'' \<mapsto> VString ''x'', ''replacement_text'' \<mapsto> VString ''yz'']"
  have ok: "fs_ok ?fs" "no_links ?fs"
    by (auto simp: fs_ok_def wit_plain_def node_at_def no_links_def append_eq_Cons_conv split: if_splits)
  have r: "ReadFileInRoot wit_os ?fs ''/w'' ''d/old'' = GOk ''1x2''"
    by (simp add: ReadFileInRoot_def rootRel_def ValidatePathResolved_def ValidatePath_def existing_prefix.simps lstat_ok_def EvalSymlinks_def
      path_Rel_def path_Dir_def wit_path_simps wit_plain_def node_at_def MaxCleanComponents_def maxRootFileBytes_def Let_def)
  have f: "FindMatchingBlock ''1x2'' ''x'' = Some (1, 2)"
    by (simp add: FindMatchingBlock_def maxMatchFileBytes_def maxMatchTargetBytes_def)
  have w: "WriteFileInRoot wit_os ?fs ''/w'' ''d/old'' ''1yz2'' = (?fs([''w'', ''d'', ''old''] \<mapsto> NFile ''1yz2''), GOk ())"
    by (simp add: WriteFileInRoot_def rootRel_def ValidatePathResolved_def ValidatePath_def existing_prefix.simps lstat_ok_def EvalSymlinks_def
      path_Rel_def path_Dir_def wit_path_simps wit_plain_def node_at_def MaxCleanComponents_def Let_def)
  obtain msg where e: "fe_Execute wit_os ''/w'' ?in ?fs = (?fs([''w'', ''d'', ''old''] \<mapsto> NFile ''1yz2''), GOk msg)"
    using r f w by (simp add: fe_Execute_def get_string_def)
  from edit_replaces_block [OF wit_os_ok ok e, of "''d/old''" "''x''" "''yz''" "''/w''"] r f e show ?thesis
    by (auto simp: get_string_def maxRootFileBytes_def wit_path_simps)
qed

end
