(* ===== verification/Net_Guard.thy ===== *)
theory Net_Guard
  imports Go_Prelude "HOL-Library.Word"
begin

unbundle bit_operations_syntax

text \<open>
  Protection against server-side request forgery: \<^verbatim>\<open>ValidateURL\<close> of \<^verbatim>\<open>pkg/utils/security.go\<close> and the dialer and
  redirect check of \<^verbatim>\<open>pkg/tools/ssrf.go\<close>.

  An address is a \<^verbatim>\<open>net.IP\<close>: 32 bits, or 128 bits where the values \<^verbatim>\<open>::ffff:a.b.c.d\<close> stand for IPv4. Parsing of URLs,
  host and port, and addresses, name resolution, the environment variable and the outcome of a connection
  attempt are parameters. A resolver answers each query anew, so the answers are indexed by the query.
\<close>

section \<open>Addresses\<close>

datatype ip = IP4 "32 word" | IP16 "128 word"

definition To4 :: "ip \<Rightarrow> 32 word option" where
  "To4 a =
     (case a of
        IP4 w \<Rightarrow> Some w
      | IP16 w \<Rightarrow> if drop_bit 32 w = 0xFFFF then Some (ucast w) else None)"

definition byte4 :: "nat \<Rightarrow> 32 word \<Rightarrow> nat" where
  "byte4 i w = unat (drop_bit (8 * (3 - i)) w AND 0xFF)"

definition byte16 :: "nat \<Rightarrow> ip \<Rightarrow> nat" where
  "byte16 i a = (case a of IP16 w \<Rightarrow> unat (drop_bit (8 * (15 - i)) w AND 0xFF) | IP4 w \<Rightarrow> 0)"

definition IsUnspecified :: "ip \<Rightarrow> bool" where
  "IsUnspecified a \<longleftrightarrow> To4 a = Some 0 \<or> a = IP16 0"

definition IsLoopback :: "ip \<Rightarrow> bool" where
  "IsLoopback a \<longleftrightarrow> (case To4 a of Some w \<Rightarrow> byte4 0 w = 127 | None \<Rightarrow> a = IP16 1)"

definition IsPrivate :: "ip \<Rightarrow> bool" where
  "IsPrivate a \<longleftrightarrow>
     (case To4 a of
        Some w \<Rightarrow> byte4 0 w = 10 \<or> (byte4 0 w = 172 \<and> byte4 1 w div 16 = 1) \<or> (byte4 0 w = 192 \<and> byte4 1 w = 168)
      | None \<Rightarrow> byte16 0 a div 2 = 0x7E)"

definition IsMulticast :: "ip \<Rightarrow> bool" where
  "IsMulticast a \<longleftrightarrow> (case To4 a of Some w \<Rightarrow> byte4 0 w div 16 = 14 | None \<Rightarrow> byte16 0 a = 0xFF)"

definition IsLinkLocalMulticast :: "ip \<Rightarrow> bool" where
  "IsLinkLocalMulticast a \<longleftrightarrow>
     (case To4 a of
        Some w \<Rightarrow> byte4 0 w = 224 \<and> byte4 1 w = 0 \<and> byte4 2 w = 0
      | None \<Rightarrow> byte16 0 a = 0xFF \<and> byte16 1 a mod 16 = 2)"

definition IsLinkLocalUnicast :: "ip \<Rightarrow> bool" where
  "IsLinkLocalUnicast a \<longleftrightarrow>
     (case To4 a of
        Some w \<Rightarrow> byte4 0 w = 169 \<and> byte4 1 w = 254
      | None \<Rightarrow> byte16 0 a = 0xFE \<and> byte16 1 a div 64 = 2)"

section \<open>The URL check\<close>

record url =
  u_Scheme :: string
  u_User :: "string option"
  u_Host :: string
  u_Hostname :: string

record netenv =
  ne_parse :: "string \<Rightarrow> url result"
  ne_ParseIP :: "string \<Rightarrow> ip option"
  ne_lookup :: "nat \<Rightarrow> string \<Rightarrow> ip list result"
  ne_show :: "ip \<Rightarrow> string"
  ne_allow_private :: bool

definition url_blocked :: "ip \<Rightarrow> bool" where
  "url_blocked a \<longleftrightarrow> IsLoopback a \<or> IsLinkLocalUnicast a \<or> IsLinkLocalMulticast a \<or> IsPrivate a \<or> IsUnspecified a"

text \<open>The query number \<open>q\<close> is the one a resolution in this call gets.\<close>

definition ValidateURL :: "netenv \<Rightarrow> nat \<Rightarrow> string \<Rightarrow> url result" where
  "ValidateURL N q raw =
     (case ne_parse N (trim_space raw) of
        Inl e \<Rightarrow> Inl (EMsg (''invalid URL: '' @ raw))
      | Inr u \<Rightarrow>
          if u_Host u = [] then Inl (EMsg (''invalid URL: '' @ raw))
          else if u_Scheme u \<noteq> ''http'' \<and> u_Scheme u \<noteq> ''https'' then Inl (EMsg (''unsupported URL scheme '' @ u_Scheme u))
          else if u_User u \<noteq> None then Inl (EMsg ''URL must not contain credentials'')
          else let host = u_Hostname u; lower = to_lower host in
            if host = [] then Inl (EMsg (''invalid URL host: '' @ raw))
            else if lower = ''localhost'' \<or> lower = ''metadata.google.internal'' then
              (if \<not> ne_allow_private N then Inl (EMsg (''blocked URL host '' @ host)) else Inr u)
            else (case ne_ParseIP N host of
                    Some a \<Rightarrow>
                      if url_blocked a \<and> \<not> ne_allow_private N then Inl (EMsg (''blocked private/link-local IP '' @ host)) else Inr u
                  | None \<Rightarrow>
                      (case ne_lookup N q host of
                         Inl e \<Rightarrow> Inl (EMsg (''unable to resolve URL host '' @ host))
                       | Inr ips \<Rightarrow>
                           if ips = [] then Inl (EMsg (''unable to resolve URL host '' @ host))
                           else if list_ex (\<lambda>a. url_blocked a \<and> \<not> ne_allow_private N) ips
                           then Inl (EMsg (''blocked URL host '' @ host @ '' resolves to private address''))
                           else Inr u)))"

section \<open>The dialer\<close>

definition ssrfBlockedIP :: "ip \<Rightarrow> bool" where
  "ssrfBlockedIP a \<longleftrightarrow>
     IsLoopback a \<or> IsPrivate a \<or> IsLinkLocalUnicast a \<or> IsLinkLocalMulticast a \<or> IsMulticast a \<or> IsUnspecified a"

text \<open>
  The outcome of a dial: the address a connection was made to, or an error; and every address that was
  tried, in order. \<open>dial\<close> tells what the connection attempt to an address and port gives.
\<close>

definition refused :: "netenv \<Rightarrow> ip \<Rightarrow> goerr" where
  "refused N a = EMsg (''dial to blocked IP '' @ ne_show N a @ '' refused'')"

fun dial_loop ::
  "netenv \<Rightarrow> (ip \<Rightarrow> string \<Rightarrow> goerr option) \<Rightarrow> string \<Rightarrow> goerr option \<Rightarrow> ip list \<Rightarrow> ip result \<times> ip list" where
  "dial_loop N dial port lastErr [] =
     (Inl (case lastErr of None \<Rightarrow> EMsg ''no allowed addresses resolved'' | Some e \<Rightarrow> e), [])"
| "dial_loop N dial port lastErr (a # ips) =
     (if ssrfBlockedIP a then dial_loop N dial port (Some (refused N a)) ips
      else (case dial a port of
              None \<Rightarrow> (Inr a, [a])
            | Some e \<Rightarrow> (case dial_loop N dial port (Some e) ips of (r, tried) \<Rightarrow> (r, a # tried))))"

definition ssrfDialContext ::
  "netenv \<Rightarrow> (string \<Rightarrow> (string \<times> string) result) \<Rightarrow> (ip \<Rightarrow> string \<Rightarrow> goerr option) \<Rightarrow> nat \<Rightarrow> string \<Rightarrow> ip result \<times> ip list" where
  "ssrfDialContext N split dial q addr =
     (case split addr of
        Inl e \<Rightarrow> (Inl (EWrap ''invalid dial address: '' e []), [])
      | Inr (host, port) \<Rightarrow>
          (case ne_ParseIP N host of
             Some a \<Rightarrow>
               if ssrfBlockedIP a then (Inl (refused N a), [])
               else (case dial a port of None \<Rightarrow> (Inr a, [a]) | Some e \<Rightarrow> (Inl e, [a]))
           | None \<Rightarrow>
               (case ne_lookup N q host of
                  Inl e \<Rightarrow> (Inl (EWrap (''failed to resolve '' @ host @ '': '') e []), [])
                | Inr ips \<Rightarrow> dial_loop N dial port None ips)))"

text \<open>\<open>via\<close> is the number of requests made already.\<close>

definition ssrfCheckRedirect :: "(string \<Rightarrow> goerr option) \<Rightarrow> string \<Rightarrow> nat \<Rightarrow> goerr option" where
  "ssrfCheckRedirect validate url via =
     (if via \<ge> 5 then Some (EMsg ''too many redirects'')
      else (case validate url of Some e \<Rightarrow> Some e | None \<Rightarrow> None))"

text \<open>
  A protected fetch: the client connects, and while the server answers with a redirect it checks the new
  address and connects again. \<open>reply\<close> gives the redirect target a request is answered with, if any; \<open>dials\<close>
  tells what connecting for the \<open>n\<close>-th request gives. The list holds the addresses of all connections.
\<close>

fun follow ::
  "(string \<Rightarrow> goerr option) \<Rightarrow> (nat \<Rightarrow> string \<Rightarrow> ip result) \<Rightarrow> (string \<Rightarrow> string option) \<Rightarrow> nat \<Rightarrow> nat \<Rightarrow> string \<Rightarrow> goerr option \<times> ip list" where
  "follow validate dials reply 0 via url = (Some (EMsg ''out of fuel''), [])"
| "follow validate dials reply (Suc k) via url =
     (case dials via url of
        Inl e \<Rightarrow> (Some e, [])
      | Inr a \<Rightarrow>
          (case reply url of
             None \<Rightarrow> (None, [a])
           | Some url' \<Rightarrow>
               (case ssrfCheckRedirect validate url' (Suc via) of
                  Some e \<Rightarrow> (Some e, [a])
                | None \<Rightarrow> (case follow validate dials reply k (Suc via) url' of (r, as) \<Rightarrow> (r, a # as)))))"

section \<open>Lemmas\<close>

lemma low_byte: "unat (x AND 0xFF) = unat x mod 256" for x :: "'a :: len word"
proof -
  have "x AND 0xFF = take_bit 8 x" by (simp add: take_bit_eq_mask mask_eq_exp_minus_1)
  then have "unat (x AND 0xFF) = unat (take_bit 8 x)" by (rule arg_cong)
  also have "\<dots> = take_bit 8 (unat x)" by (rule unsigned_take_bit_eq)
  also have "\<dots> = unat x mod 256" by (simp add: take_bit_eq_mod)
  finally show ?thesis .
qed

lemma byte4_eq: "byte4 i w = unat w div 2 ^ (8 * (3 - i)) mod 256"
  by (simp only: byte4_def low_byte unat_drop_bit_eq) (simp only: drop_bit_eq_div)

lemma unat32: "unat (w :: 32 word) < 2 ^ 32"
  using unsigned_less [of w] by simp

text \<open>The address ranges of IPv4 as intervals of numbers.\<close>

lemma first_byte: "byte4 0 w = b \<longleftrightarrow> b * 2 ^ 24 \<le> unat w \<and> unat w < (b + 1) * 2 ^ 24" if "b < 256"
proof -
  have "unat w div 2 ^ 24 < 256" using unat32 [of w] by (simp add: less_mult_imp_div_less)
  then have "byte4 0 w = unat w div 2 ^ 24" by (simp add: byte4_eq)
  then show ?thesis by auto
qed

lemma dial_loop_allowed:
  "dial_loop N dial port e ips = (r, tried) \<Longrightarrow>
     (\<forall>a\<in>set tried. \<not> ssrfBlockedIP a) \<and> (\<forall>a. r = Inr a \<longrightarrow> a \<in> set tried \<and> dial a port = None)"
proof (induction ips arbitrary: e r tried)
  case (Cons a ips)
  show ?case
  proof (cases "ssrfBlockedIP a")
    case False
    show ?thesis
    proof (cases "dial a port")
      case (Some x)
      obtain r' t' where d: "dial_loop N dial port (Some x) ips = (r', t')" by fastforce
      from Cons.IH [OF this] Cons.prems False Some d show ?thesis by auto
    qed (use Cons.prems False in auto)
  qed (use Cons in auto)
qed auto

lemma dial_loop_connects:
  "List.find (\<lambda>a. \<not> ssrfBlockedIP a \<and> dial a port = None) ips = Some a \<Longrightarrow> fst (dial_loop N dial port e ips) = Inr a"
  by (induction N dial port e ips rule: dial_loop.induct) (auto split: option.splits prod.splits if_splits)

lemma dial_allowed:
  assumes "ssrfDialContext N split dial q addr = (r, tried)"
  shows "(\<forall>a\<in>set tried. \<not> ssrfBlockedIP a) \<and> (\<forall>a. r = Inr a \<longrightarrow> a \<in> set tried)"
  using assms dial_loop_allowed [of N dial _ None]
  by (auto simp: ssrfDialContext_def split: sum.splits option.splits if_splits prod.splits)

text \<open>More fuel than five requests makes no difference, and there are at most five connections.\<close>

lemma follow_fuel: "5 \<le> via + k \<Longrightarrow> 0 < k \<Longrightarrow> follow validate dials reply (k + j) via url = follow validate dials reply k via url"
proof (induction k arbitrary: via url)
  case (Suc k)
  show ?case
  proof (cases k)
    case 0
    with Suc.prems show ?thesis
      by (auto simp: ssrfCheckRedirect_def split: sum.splits option.splits)
  next
    case (Suc k')
    with Suc.IH [of "Suc via"] Suc.prems show ?thesis
      by (auto split: sum.splits option.splits)
  qed
qed simp

lemma follow_connections:
  assumes "\<And>n u a. dials n u = Inr a \<Longrightarrow> ok a"
  shows "follow validate dials reply k via url = (r, as) \<Longrightarrow> via < 5 \<Longrightarrow> (\<forall>a\<in>set as. ok a) \<and> via + length as \<le> 5"
proof (induction k arbitrary: via url r as)
  case (Suc k)
  show ?case
  proof (cases "dials via url")
    case (Inr a)
    note ok = assms [OF Inr]
    show ?thesis
    proof (cases "\<exists>url'. reply url = Some url' \<and> ssrfCheckRedirect validate url' (Suc via) = None")
      case True
      then obtain url' where u: "reply url = Some url'" "ssrfCheckRedirect validate url' (Suc via) = None" by blast
      obtain r' as' where f: "follow validate dials reply k (Suc via) url' = (r', as')" by fastforce
      have "Suc via < 5" using u(2) by (auto simp: ssrfCheckRedirect_def split: if_splits)
      from Suc.IH [OF f this] Suc.prems ok Inr u f show ?thesis by auto
    next
      case False
      with Suc.prems Inr ok show ?thesis by (auto split: option.splits)
    qed
  qed (use Suc.prems in auto)
qed simp

text \<open>An IPv4 address as four bytes.\<close>

lemma bytes4:
  obtains b0 b1 b2 b3 where "unat (w :: 32 word) = b0 * 2 ^ 24 + b1 * 2 ^ 16 + b2 * 2 ^ 8 + b3" "b0 < 256" "b1 < 256" "b2 < 256" "b3 < 256"
    "byte4 0 w = b0" "byte4 1 w = b1" "byte4 2 w = b2"
proof -
  define n where "n = unat w"
  have "n div 2 ^ 24 < 256" using unat32 [of w] unfolding n_def by (simp add: less_mult_imp_div_less)
  moreover have "n = n div 16777216 * 16777216 + n div 65536 mod 256 * 65536 + n div 256 mod 256 * 256 + n mod 256"
  proof -
    define q1 where "q1 = n div 256"
    define q2 where "q2 = q1 div 256"
    have e: "n div 256 = q1" "n div 65536 = q2" "n div 16777216 = q2 div 256"
      using div_mult2_eq [of n 256 256] div_mult2_eq [of n 65536 256] by (simp_all add: q1_def q2_def)
    have "n = q1 * 256 + n mod 256" "q1 = q2 * 256 + q1 mod 256" "q2 = q2 div 256 * 256 + q2 mod 256"
      by (simp_all add: q1_def q2_def)
    then show ?thesis unfolding e by linarith
  qed
  ultimately show ?thesis
    by (intro that [of "n div 2 ^ 24" "n div 2 ^ 16 mod 256" "n div 2 ^ 8 mod 256" "n mod 256"]) (simp_all add: byte4_eq n_def)
qed

definition range4 :: "nat \<Rightarrow> nat \<Rightarrow> nat \<Rightarrow> 32 word \<Rightarrow> bool" where
  "range4 a b bits w \<longleftrightarrow> a * 2 ^ 24 + b * 2 ^ 16 \<le> unat w \<and> unat w < a * 2 ^ 24 + b * 2 ^ 16 + 2 ^ bits"

text \<open>The IPv4 address inside an IPv6 one.\<close>

definition mapped :: "32 word \<Rightarrow> ip" where
  "mapped w = IP16 (push_bit 32 0xFFFF OR ucast w)"

lemma To4_mapped: "To4 (mapped w) = Some w"
proof -
  have "drop_bit 32 (push_bit 32 m OR ucast w) = take_bit 96 m" for m :: "128 word"
    by (rule bit_word_eqI) (auto simp: bit_simps dest: bit_imp_le_length)
  from this [of "0xFFFF"] have "drop_bit 32 (push_bit 32 0xFFFF OR ucast w :: 128 word) = 0xFFFF" by simp
  moreover have "(ucast (push_bit 32 m OR ucast w :: 128 word) :: 32 word) = w" for m :: "128 word"
    by (rule bit_word_eqI) (auto simp: bit_simps)
  then have "(ucast (push_bit 32 0xFFFF OR ucast w :: 128 word) :: 32 word) = w" .
  ultimately show ?thesis unfolding To4_def mapped_def by (simp only: ip.case refl if_True)
qed

section \<open>Properties\<close>

text \<open>
  C17: The protected client never connects to a blocked address. Whatever a server redirects to, whatever names
  resolve to at each step and whatever the URL check says, every connection of a fetch through
  \<^verbatim>\<open>newSSRFProtectedClient\<close> is to an address that is not blocked, there are at most five of them, and five
  rounds are all a fetch can take.
\<close>

theorem protected_fetch_confined:
  assumes "follow validate (\<lambda>n u. fst (ssrfDialContext N split (dial n) n (addr u))) reply k 0 url = (r, as)"
  shows "(\<forall>a\<in>set as. \<not> ssrfBlockedIP a) \<and> length as \<le> 5 \<and>
    follow validate (\<lambda>n u. fst (ssrfDialContext N split (dial n) n (addr u))) reply (5 + j) 0 url =
    follow validate (\<lambda>n u. fst (ssrfDialContext N split (dial n) n (addr u))) reply 5 0 url"
proof -
  have "\<not> ssrfBlockedIP a" if "fst (ssrfDialContext N split (dial n) n (addr u)) = Inr a" for n u a
    using dial_allowed [of N split "dial n" n "addr u" "Inr a" "snd (ssrfDialContext N split (dial n) n (addr u))"] that
    by (metis prod.collapse)
  from follow_connections [of _ "\<lambda>a. \<not> ssrfBlockedIP a", OF this assms] follow_fuel [of 0 5] show ?thesis by simp
qed

text \<open>
  The blocked IPv4 addresses, as intervals of 32-bit numbers: the unspecified address, the private ranges
  10/8, 172.16/12 and 192.168/16, loopback 127/8, link-local 169.254/16 and multicast 224/4, and no others.
  The same addresses are blocked in their IPv6 form.
\<close>

theorem blocked_ranges:
  "ssrfBlockedIP (IP4 w) \<longleftrightarrow> w = 0 \<or> range4 10 0 24 w \<or> range4 127 0 24 w \<or> range4 169 254 16 w \<or>
     range4 172 16 20 w \<or> range4 192 168 16 w \<or> range4 224 0 28 w"
  "ssrfBlockedIP (mapped w) = ssrfBlockedIP (IP4 w)"
proof -
  obtain b0 b1 b2 b3 where b: "unat w = b0 * 2 ^ 24 + b1 * 2 ^ 16 + b2 * 2 ^ 8 + b3" "b0 < 256" "b1 < 256" "b2 < 256" "b3 < 256"
    "byte4 0 w = b0" "byte4 1 w = b1" "byte4 2 w = b2"
    by (rule bytes4)
  have r8: "range4 x 0 24 w \<longleftrightarrow> b0 = x" for x using b(1-5) by (auto simp: range4_def)
  have r16: "range4 x y 16 w \<longleftrightarrow> b0 = x \<and> b1 = y" if "y < 256" for x y
  proof
    assume "range4 x y 16 w"
    then have l: "x * 16777216 + y * 65536 \<le> b0 * 16777216 + b1 * 65536 + b2 * 256 + b3"
      "b0 * 16777216 + b1 * 65536 + b2 * 256 + b3 < x * 16777216 + y * 65536 + 65536"
      by (simp_all add: range4_def b(1))
    then have "b0 = x" using b(2-5) that by linarith
    moreover from this l have "b1 = y" using b(2-5) that by linarith
    ultimately show "b0 = x \<and> b1 = y" by blast
  qed (use b in \<open>simp add: range4_def\<close>)
  have r12: "range4 172 16 20 w \<longleftrightarrow> b0 = 172 \<and> b1 div 16 = 1"
  proof
    assume "range4 172 16 20 w"
    then have l: "172 * 16777216 + 16 * 65536 \<le> b0 * 16777216 + b1 * 65536 + b2 * 256 + b3"
      "b0 * 16777216 + b1 * 65536 + b2 * 256 + b3 < 172 * 16777216 + 32 * 65536"
      by (simp_all add: range4_def b(1))
    then have "b0 = 172" using b(2-5) by linarith
    moreover from this l have "16 \<le> b1" "b1 < 32" using b(2-5) by linarith+
    then have "b1 div 16 = 1" by (simp add: div_nat_eqI)
    ultimately show "b0 = 172 \<and> b1 div 16 = 1" by blast
  next
    assume "b0 = 172 \<and> b1 div 16 = 1"
    then have "b0 = 172" "16 \<le> b1" "b1 < 32" by auto
    then show "range4 172 16 20 w" using b(1-5) by (simp add: range4_def)
  qed
  have r4: "range4 224 0 28 w \<longleftrightarrow> b0 div 16 = 14" using b(1-5) by (auto simp: range4_def)
  show "ssrfBlockedIP (IP4 w) \<longleftrightarrow> w = 0 \<or> range4 10 0 24 w \<or> range4 127 0 24 w \<or> range4 169 254 16 w \<or>
     range4 172 16 20 w \<or> range4 192 168 16 w \<or> range4 224 0 28 w"
    unfolding r8 r12 r4 r16 [of 254, simplified] r16 [of 168, simplified]
    unfolding ssrfBlockedIP_def IsLoopback_def IsPrivate_def IsLinkLocalUnicast_def IsLinkLocalMulticast_def IsMulticast_def
        IsUnspecified_def To4_def ip.case option.case b(6-8) by auto
  show "ssrfBlockedIP (mapped w) = ssrfBlockedIP (IP4 w)"
  proof -
    have "mapped w \<noteq> IP16 0" using To4_mapped [of w] by (auto simp: To4_def)
    then show ?thesis
      by (simp add: ssrfBlockedIP_def IsLoopback_def IsPrivate_def IsLinkLocalUnicast_def IsLinkLocalMulticast_def IsMulticast_def
        IsUnspecified_def To4_mapped) (simp add: To4_def)
  qed
qed

text \<open>
  What the URL check establishes. An accepted URL has scheme http or https, carries no credentials, does not
  name the local host or the metadata server, and its host is an address that is not blocked or a name
  all of whose addresses, at the time of the check, are not blocked.
\<close>

theorem validate_url_sound:
  assumes "ValidateURL N q raw = Inr u" "\<not> ne_allow_private N"
  shows "u_Scheme u \<in> {''http'', ''https''} \<and> u_User u = None \<and> u_Hostname u \<noteq> [] \<and>
    to_lower (u_Hostname u) \<notin> {''localhost'', ''metadata.google.internal''} \<and>
    (case ne_ParseIP N (u_Hostname u) of
       Some a \<Rightarrow> \<not> url_blocked a
     | None \<Rightarrow> (\<exists>ips. ne_lookup N q (u_Hostname u) = Inr ips \<and> ips \<noteq> [] \<and> list_all (\<lambda>a. \<not> url_blocked a) ips))"
  using assms by (auto simp: ValidateURL_def Let_def list_all_iff list_ex_iff split: sum.splits if_splits option.splits)

text \<open>
  Addresses that neither check blocks: shared address space (100.64/10) and \<^verbatim>\<open>0.0.0.1\<close>; multicast addresses
  other than link-local ones pass the URL check and are stopped by the dialer only.
\<close>

lemma unblocked_gaps:
  "\<not> ssrfBlockedIP (IP4 0x64400001)" "\<not> ssrfBlockedIP (IP4 1)" "\<not> url_blocked (IP4 0xE0010101)" "ssrfBlockedIP (IP4 0xE0010101)"
  by (simp_all add: ssrfBlockedIP_def url_blocked_def IsLoopback_def IsPrivate_def IsLinkLocalUnicast_def IsLinkLocalMulticast_def
      IsMulticast_def IsUnspecified_def To4_def byte4_eq)

section \<open>Witnesses\<close>

definition wit_net :: netenv where
  "wit_net =
     \<lparr>ne_parse = (\<lambda>s. Inr \<lparr>u_Scheme = ''http'', u_User = None, u_Host = s, u_Hostname = s\<rparr>), ne_ParseIP = (\<lambda>_. None),
      ne_lookup = (\<lambda>q h. if h = ''h'' then Inr [IP4 0x0A000001, IP4 0x08080808] else if q = 0 then Inr [IP4 0x08080404] else Inr [IP4 0x7F000001]),
      ne_show = (\<lambda>_. []), ne_allow_private = False\<rparr>"

lemma wit_blocked: "ssrfBlockedIP (IP4 0x0A000001)" "\<not> ssrfBlockedIP (IP4 0x08080808)" "ssrfBlockedIP (IP4 0x7F000001)"
  by (simp_all add: ssrfBlockedIP_def IsLoopback_def IsPrivate_def IsLinkLocalUnicast_def IsLinkLocalMulticast_def
      IsMulticast_def IsUnspecified_def To4_def byte4_eq)

text \<open>The first server redirects to a name that by now resolves to the loopback address.\<close>

theorem protected_fetch_confined_witness:
  "\<exists>e. follow (\<lambda>u. None) (\<lambda>n u. fst (ssrfDialContext wit_net (\<lambda>a. Inr (a, ''80'')) (\<lambda>_ _. None) n u))
      (\<lambda>u. if u = ''h'' then Some ''v'' else None) (Suc (Suc 0)) 0 ''h'' = (Some e, [IP4 0x08080808]) \<and> \<not> ssrfBlockedIP (IP4 0x08080808)"
proof -
  let ?f = "follow (\<lambda>u. None) (\<lambda>n u. fst (ssrfDialContext wit_net (\<lambda>a. Inr (a, ''80'')) ((\<lambda>n _ _. None) n) n (id u)))
      (\<lambda>u. if u = ''h'' then Some ''v'' else None)"
  have "\<exists>e. ?f (Suc (Suc 0)) 0 ''h'' = (Some e, [IP4 0x08080808])"
    by (simp add: ssrfDialContext_def wit_net_def ssrfCheckRedirect_def wit_blocked)
  then obtain e where e: "?f (Suc (Suc 0)) 0 ''h'' = (Some e, [IP4 0x08080808])" by blast
  from protected_fetch_confined [OF this] have "\<not> ssrfBlockedIP (IP4 0x08080808)" by simp
  with e show ?thesis by simp
qed

theorem validate_url_sound_witness:
  "ValidateURL wit_net 0 ''v'' = Inr \<lparr>u_Scheme = ''http'', u_User = None, u_Host = ''v'', u_Hostname = ''v''\<rparr> \<and> \<not> url_blocked (IP4 0x08080404)"
proof -
  have v: "ValidateURL wit_net 0 ''v'' = Inr \<lparr>u_Scheme = ''http'', u_User = None, u_Host = ''v'', u_Hostname = ''v''\<rparr>"
    by (simp add: ValidateURL_def wit_net_def trim_space_def is_space_def to_lower_def lower_char_def less_eq_char_def url_blocked_def
        IsLoopback_def IsPrivate_def IsLinkLocalUnicast_def IsLinkLocalMulticast_def IsUnspecified_def To4_def byte4_eq Let_def)
  with validate_url_sound [OF v] show ?thesis by (simp add: wit_net_def)
qed

end
