(* ===== verification/Auth_Sign.thy ===== *)
theory Auth_Sign
  imports Go_Files "HOL-Library.Word"
begin

text \<open>
  Signed messages: the bearer tokens of \<^verbatim>\<open>pkg/auth/jwt.go\<close> and the webhook signatures of \<^verbatim>\<open>pkg/webhook/webhook.go\<close>.

  HMAC-SHA256 is an arbitrary function \<open>mac\<close> of key and message (its security is not modelled), JSON decoding
  an argument. Base64 and hexadecimal text are the encodings of the Go library: the decoder skips line
  breaks and ignores the unused bits of the last character. Seconds are 64-bit words, so that what
  \<^verbatim>\<open>time.Unix\<close> does with extreme values is visible; a \<^verbatim>\<open>time.Time\<close> is the number of seconds since the year 1, as
  Go keeps it, and nanoseconds.
\<close>

section \<open>Base64 and hexadecimal\<close>

definition b64_char :: "nat \<Rightarrow> char" where
  "b64_char n =
     (if n < 26 then char_of (65 + n) else if n < 52 then char_of (97 + (n - 26))
      else if n < 62 then char_of (48 + (n - 52)) else if n = 62 then CHR ''-'' else CHR ''_'')"

definition b64_val :: "char \<Rightarrow> nat option" where
  "b64_val c =
     (let n = of_char c :: nat in
      if 65 \<le> n \<and> n \<le> 90 then Some (n - 65) else if 97 \<le> n \<and> n \<le> 122 then Some (n - 97 + 26)
      else if 48 \<le> n \<and> n \<le> 57 then Some (n - 48 + 52) else if n = 45 then Some 62 else if n = 95 then Some 63 else None)"

fun b64_encode :: "string \<Rightarrow> string" where
  "b64_encode [] = []"
| "b64_encode [x] = (let a = of_char x :: nat in [b64_char (a div 4), b64_char (a mod 4 * 16)])"
| "b64_encode [x, y] =
     (let a = of_char x; b = of_char y :: nat in
      [b64_char (a div 4), b64_char (a mod 4 * 16 + b div 16), b64_char (b mod 16 * 4)])"
| "b64_encode (x # y # z # s) =
     (let a = of_char x; b = of_char y; c = of_char z :: nat in
      [b64_char (a div 4), b64_char (a mod 4 * 16 + b div 16), b64_char (b mod 16 * 4 + c div 64), b64_char (c mod 64)] @ b64_encode s)"

fun b64_groups :: "nat list \<Rightarrow> string option" where
  "b64_groups [] = Some []"
| "b64_groups [p] = None"
| "b64_groups [p, q] = Some [char_of (p * 4 + q div 16)]"
| "b64_groups [p, q, r] = Some [char_of (p * 4 + q div 16), char_of (q mod 16 * 16 + r div 4)]"
| "b64_groups (p # q # r # t # vs) =
     map_option (\<lambda>s. char_of (p * 4 + q div 16) # char_of (q mod 16 * 16 + r div 4) # char_of (r mod 4 * 64 + t) # s) (b64_groups vs)"

definition b64_decode :: "string \<Rightarrow> string option" where
  "b64_decode s =
     Option.bind (those (map b64_val (filter (\<lambda>c. c \<noteq> CHR 0x0A \<and> c \<noteq> CHR 0x0D) s))) b64_groups"

definition hex_char :: "nat \<Rightarrow> char" where
  "hex_char n = (if n < 10 then char_of (48 + n) else char_of (87 + n))"

definition hex_encode :: "string \<Rightarrow> string" where
  "hex_encode s = concat (map (\<lambda>c. [hex_char (of_char c div 16), hex_char (of_char c mod 16)]) s)"

section \<open>Times\<close>

type_synonym gotime = "int \<times> nat"

definition unix_to_internal :: "64 word" where
  "unix_to_internal = 62135596800"

definition time_Unix :: "64 word \<Rightarrow> gotime" where
  "time_Unix s = (sint (s + unix_to_internal), 0)"

text \<open>Adding whole seconds saturates at the ends of the 64-bit range.\<close>

definition add_seconds :: "gotime \<Rightarrow> int \<Rightarrow> gotime" where
  "add_seconds t d = (max (- (2 ^ 63 - 1)) (min (2 ^ 63 - 1) (fst t + d)), snd t)"

definition time_After :: "gotime \<Rightarrow> gotime \<Rightarrow> bool" where
  "time_After t u \<longleftrightarrow> fst t > fst u \<or> (fst t = fst u \<and> snd t > snd u)"

definition time_Before :: "gotime \<Rightarrow> gotime \<Rightarrow> bool" where
  "time_Before t u \<longleftrightarrow> time_After u t"

text \<open>\<^verbatim>\<open>t.Sub(u)\<close>: nanoseconds, saturating.\<close>

definition time_Sub :: "gotime \<Rightarrow> gotime \<Rightarrow> int" where
  "time_Sub t u = max (- (2 ^ 63)) (min (2 ^ 63 - 1) ((fst t - fst u) * 1000000000 + int (snd t) - int (snd u)))"

section \<open>Tokens\<close>

definition MaxTokenBytes :: nat where
  "MaxTokenBytes = 8192"

definition clockSkew :: int where
  "clockSkew = 30"

record Claims =
  cl_Subject :: string
  cl_ExpiresAt :: gotime
  cl_IssuedAt :: "gotime option"

record jwtenv =
  je_mac :: "string \<Rightarrow> string \<Rightarrow> string"
  je_alg :: "string \<Rightarrow> string option"
  je_claims :: "string \<Rightarrow> (string \<times> 64 word \<times> 64 word \<times> 64 word) option"

text \<open>A validator is its secret, or nil.\<close>

definition NewValidator :: "string \<Rightarrow> string option" where
  "NewValidator secret = Some secret"

definition ValidatorFromEnv :: "string \<Rightarrow> string option" where
  "ValidatorFromEnv env = (if env \<noteq> [] then NewValidator env else None)"

definition Validate :: "jwtenv \<Rightarrow> string option \<Rightarrow> gotime \<Rightarrow> string \<Rightarrow> Claims result" where
  "Validate J v now token =
     (case v of
        None \<Rightarrow> Inl (EMsg ''auth: JWT validation not configured'')
      | Some secret \<Rightarrow>
          if length secret = 0 then Inl (EMsg ''auth: JWT validation not configured'')
          else if length token = 0 \<or> length token > MaxTokenBytes then Inl (EMsg ''auth: malformed token'')
          else let parts = split_byte CHR ''.'' token in
            if length parts \<noteq> 3 then Inl (EMsg ''auth: malformed token'')
            else (case b64_decode (parts ! 0) of
                    None \<Rightarrow> Inl (EMsg ''auth: unsupported algorithm (HS256 only)'')
                  | Some header \<Rightarrow>
                      if je_alg J header \<noteq> Some ''HS256'' then Inl (EMsg ''auth: unsupported algorithm (HS256 only)'')
                      else (case b64_decode (parts ! 2) of
                              None \<Rightarrow> Inl (EMsg ''auth: malformed signature'')
                            | Some sig \<Rightarrow>
                                if sig \<noteq> je_mac J secret (parts ! 0 @ ''.'' @ parts ! 1) then Inl (EMsg ''auth: invalid signature'')
                                else (case b64_decode (parts ! 1) of
                                        None \<Rightarrow> Inl (EMsg ''auth: malformed payload'')
                                      | Some payload \<Rightarrow>
                                          (case je_claims J payload of
                                             None \<Rightarrow> Inl (EMsg ''auth: malformed payload'')
                                           | Some (sub, ex, nbf, iat) \<Rightarrow>
                                               if trim_space sub = [] then Inl (EMsg ''auth: malformed payload'')
                                               else if ex = 0 then Inl (EMsg ''auth: missing expiry'')
                                               else if time_After now (add_seconds (time_Unix ex) clockSkew) then Inl (EMsg ''auth: token expired'')
                                               else if nbf \<noteq> 0 \<and> time_Before (add_seconds now clockSkew) (time_Unix nbf)
                                               then Inl (EMsg ''auth: token not yet valid'')
                                               else Inr \<lparr>cl_Subject = sub, cl_ExpiresAt = time_Unix ex,
                                                         cl_IssuedAt = (if iat \<noteq> 0 then Some (time_Unix iat) else None)\<rparr>)))))"

text \<open>\<open>sha\<close> is SHA-256.\<close>

definition SubjectFingerprint :: "(string \<Rightarrow> string) \<Rightarrow> string \<Rightarrow> string" where
  "SubjectFingerprint sha subject = take 16 (hex_encode (sha (''jwt-sub:'' @ subject)))"

section \<open>Webhooks\<close>

definition Sign :: "(string \<Rightarrow> string \<Rightarrow> string) \<Rightarrow> string \<Rightarrow> string \<Rightarrow> string" where
  "Sign mac secret body = hex_encode (mac secret body)"

text \<open>\<^verbatim>\<open>strconv.ParseInt(s, 10, 64)\<close>.\<close>

fun parse_digits :: "nat \<Rightarrow> string \<Rightarrow> nat option" where
  "parse_digits acc [] = Some acc"
| "parse_digits acc (c # cs) =
     (if CHR ''0'' \<le> c \<and> c \<le> CHR ''9'' then parse_digits (acc * 10 + (of_char c - 48)) cs else None)"

definition ParseInt :: "string \<Rightarrow> int option" where
  "ParseInt s =
     (let neg = (s \<noteq> [] \<and> hd s = CHR ''-''); body = (if s \<noteq> [] \<and> (hd s = CHR ''-'' \<or> hd s = CHR ''+'') then tl s else s) in
      if body = [] then None
      else (case parse_digits 0 body of
              None \<Rightarrow> None
            | Some n \<Rightarrow>
                if neg then (if n \<le> 2 ^ 63 then Some (- int n) else None)
                else (if n < 2 ^ 63 then Some (int n) else None)))"

definition VerifySignature ::
  "(string \<Rightarrow> string \<Rightarrow> string) \<Rightarrow> string \<Rightarrow> string \<Rightarrow> string \<Rightarrow> string \<Rightarrow> int \<Rightarrow> gotime \<Rightarrow> goerr option" where
  "VerifySignature mac secret body signature timestamp skew now =
     (let want = ''sha256='' @ Sign mac secret body in
      if signature \<noteq> want then Some (EMsg ''webhook: bad signature'')
      else if skew > 0 \<and> timestamp \<noteq> [] then
        (case ParseInt timestamp of
           None \<Rightarrow> Some (EMsg ''webhook: bad timestamp'')
         | Some ts \<Rightarrow>
             (let age = time_Sub now (time_Unix (word_of_int ts)) in
              if age < 0 \<or> age > skew then Some (EMsg ''webhook: stale timestamp'') else None))
      else None)"

record Payload =
  pl_Event :: string
  pl_SessionID :: string
  pl_Status :: string
  pl_Result :: gvalue
  pl_Error :: string
  pl_Timestamp :: "64 word"

record Notifier =
  nt_URL :: string
  nt_Secret :: string

text \<open>What goes over the wire: the body and the headers.\<close>

record request =
  rq_URL :: string
  rq_Body :: string
  rq_Headers :: "(string \<times> string) list"

definition NewNotifier :: "(string \<Rightarrow> goerr option) \<Rightarrow> string \<Rightarrow> string \<Rightarrow> Notifier result" where
  "NewNotifier check url secret =
     (case check url of
        Some e \<Rightarrow> Inl (EWrap ''webhook: blocked URL: '' e [])
      | None \<Rightarrow> Inr \<lparr>nt_URL = url, nt_Secret = secret\<rparr>)"

definition notify_request :: "(string \<Rightarrow> string \<Rightarrow> string) \<Rightarrow> Notifier \<Rightarrow> Payload \<Rightarrow> string \<Rightarrow> request" where
  "notify_request mac n p body =
     \<lparr>rq_URL = nt_URL n, rq_Body = body,
      rq_Headers = [(''Content-Type'', ''application/json''), (''X-Gocrew-Timestamp'', show_int (sint (pl_Timestamp p))),
        (''X-Gocrew-Event'', pl_Event p)] @
        (if nt_Secret n \<noteq> [] then [(''X-Gocrew-Signature'', ''sha256='' @ Sign mac (nt_Secret n) body)] else [])\<rparr>"

text \<open>
  \<open>marshal\<close> is JSON encoding, \<open>newreq\<close> the check of the URL by the HTTP library, \<open>deliver\<close> the HTTP client: the
  status and what can be read of the body, or an error. \<open>now\<close> is the Unix time.
\<close>

definition Notify ::
  "(string \<Rightarrow> string \<Rightarrow> string) \<Rightarrow> (Payload \<Rightarrow> string result) \<Rightarrow> (string \<Rightarrow> goerr option) \<Rightarrow> (request \<Rightarrow> (int \<times> string) result) \<Rightarrow>
    64 word \<Rightarrow> Notifier \<Rightarrow> Payload \<Rightarrow> goerr option" where
  "Notify mac marshal newreq deliver now n p0 =
     (let p = (if pl_Timestamp p0 = 0 then p0\<lparr>pl_Timestamp := now\<rparr> else p0) in
      case marshal p of
        Inl e \<Rightarrow> Some (EWrap ''webhook: encode: '' e [])
      | Inr body \<Rightarrow>
          (case newreq (nt_URL n) of
             Some e \<Rightarrow> Some (EWrap ''webhook: request: '' e [])
           | None \<Rightarrow>
               (case deliver (notify_request mac n p body) of
                  Inl e \<Rightarrow> Some (EWrap ''webhook: delivery: '' e [])
                | Inr (status, diag) \<Rightarrow>
                    if status < 200 \<or> status \<ge> 300
                    then Some (EMsg (''webhook: endpoint returned '' @ show_int status @ '': '' @ take 1024 diag)) else None)))"

definition MaxRedirects :: nat where
  "MaxRedirects = 3"

definition CheckRedirect :: "(string \<Rightarrow> goerr option) \<Rightarrow> string \<Rightarrow> nat \<Rightarrow> goerr option" where
  "CheckRedirect check url via =
     (if via \<ge> MaxRedirects then Some (EMsg (''webhook: too many redirects (max '' @ show_nat MaxRedirects @ '')''))
      else (case check url of Some e \<Rightarrow> Some (EWrap ''webhook: blocked redirect target: '' e []) | None \<Rightarrow> None))"

section \<open>Encoding lemmas\<close>

lemma b64_val_char: "n < 64 \<Longrightarrow> b64_val (b64_char n) = Some n"
  by (auto simp: b64_char_def b64_val_def Let_def of_char_of)

lemma b64_char_plain: "n < 64 \<Longrightarrow> b64_char n \<noteq> CHR ''.'' \<and> b64_char n \<noteq> CHR 0x0A \<and> b64_char n \<noteq> CHR 0x0D"
  using b64_val_char [of n] by (auto simp: b64_val_def)

text \<open>The six-bit values of the encoding.\<close>

fun b64_values :: "string \<Rightarrow> nat list" where
  "b64_values [] = []"
| "b64_values [x] = (let a = of_char x :: nat in [a div 4, a mod 4 * 16])"
| "b64_values [x, y] = (let a = of_char x; b = of_char y :: nat in [a div 4, a mod 4 * 16 + b div 16, b mod 16 * 4])"
| "b64_values (x # y # z # s) =
     (let a = of_char x; b = of_char y; c = of_char z :: nat in
      [a div 4, a mod 4 * 16 + b div 16, b mod 16 * 4 + c div 64, c mod 64] @ b64_values s)"

lemma byte_less: "(of_char c :: nat) < 256"
proof -
  have "(of_char c :: nat) = of_char (char_of (of_char c :: nat) :: char)" by simp
  also have "\<dots> = of_char c mod 256" by (rule of_char_of)
  also have "\<dots> < 256" by simp
  finally show ?thesis .
qed

lemma byte_parts:
  "(of_char c :: nat) div 4 < 64" "(of_char c :: nat) div 16 < 16" "(of_char c :: nat) div 64 < 4"
  using byte_less [of c] by (simp_all add: less_mult_imp_div_less)

lemma b64_encode_values: "b64_encode s = map b64_char (b64_values s)"
  by (induction s rule: b64_encode.induct) (simp_all add: Let_def)

lemma six_bits: "x < 4 \<Longrightarrow> y < 16 \<Longrightarrow> x * 16 + y < 64" "x < 16 \<Longrightarrow> y < 4 \<Longrightarrow> x * 4 + y < 64" for x y :: nat
  by simp_all

lemma b64_values_less: "v \<in> set (b64_values s) \<Longrightarrow> v < 64"
proof (induction s rule: b64_values.induct)
  case (2 x)
  then show ?case using byte_parts [of x] by (auto simp: Let_def)
next
  case (3 x y)
  then show ?case using byte_parts [of x] byte_parts [of y] by (auto simp: Let_def intro: six_bits)
next
  case (4 x y z s)
  let ?a = "of_char x :: nat" and ?b = "of_char y :: nat" and ?c = "of_char z :: nat"
  have b: "?a div 4 < 64" "?a mod 4 * 16 + ?b div 16 < 64" "?b mod 16 * 4 + ?c div 64 < 64" "?c mod 64 < 64"
    using byte_parts [of x] byte_parts [of y] byte_parts [of z] by (simp_all add: six_bits)
  from 4(2) have "v = ?a div 4 \<or> v = ?a mod 4 * 16 + ?b div 16 \<or> v = ?b mod 16 * 4 + ?c div 64 \<or> v = ?c mod 64 \<or> v \<in> set (b64_values s)"
    by (simp add: Let_def)
  then show ?case by (elim disjE) (simp_all only: b 4(1))
qed simp

lemma join_bits:
  "y < 16 \<Longrightarrow> (x * 16 + y) div 16 = x" "y < 16 \<Longrightarrow> (x * 16 + y) mod 16 = y"
  "y < 4 \<Longrightarrow> (x * 4 + y) div 4 = x" "y < 4 \<Longrightarrow> (x * 4 + y) mod 4 = y" for x y :: nat
  by simp_all

lemma whole_byte:
  "a div 4 * 4 + a mod 4 = a" "a div 16 * 16 + a mod 16 = a" "a div 64 * 64 + a mod 64 = a" for a :: nat
  by simp_all

lemma b64_groups_values: "b64_groups (b64_values s) = Some s"
proof (induction s rule: b64_values.induct)
  case (2 x)
  then show ?case by (simp add: Let_def)
next
  case (3 x y)
  note ay = byte_parts(2) [of y]
  have "of_char y mod 16 * 4 div 4 = (of_char y mod 16 :: nat)" by simp
  then show ?case
    unfolding b64_values.simps Let_def b64_groups.simps join_bits(1,2) [OF ay] whole_byte by (simp only: whole_byte char_of_char)
next
  case (4 x y z s)
  note ay = byte_parts(2) [of y] and az = byte_parts(3) [of z]
  show ?case
    unfolding b64_values.simps Let_def b64_groups.simps append_Cons append_Nil join_bits(1,2) [OF ay] join_bits(3,4) [OF az] whole_byte
    using 4 by simp
qed simp

lemma b64_roundtrip: "b64_decode (b64_encode s) = Some s"
proof -
  have "filter (\<lambda>c. c \<noteq> CHR 0x0A \<and> c \<noteq> CHR 0x0D) (b64_encode s) = b64_encode s"
    using b64_char_plain b64_values_less [of _ s] by (auto simp: b64_encode_values filter_id_conv)
  moreover have "those (map b64_val (map b64_char vs)) = Some vs" if "\<forall>v\<in>set vs. v < 64" for vs
    using that by (induction vs) (simp_all add: b64_val_char)
  then have "those (map b64_val (b64_encode s)) = Some (b64_values s)"
    using b64_values_less [of _ s] by (simp add: b64_encode_values)
  ultimately show ?thesis by (simp add: b64_decode_def b64_groups_values)
qed

lemma b64_encode_no_dot: "CHR ''.'' \<notin> set (b64_encode s)"
  using b64_char_plain b64_values_less [of _ s] by (auto simp: b64_encode_values) (metis b64_char_plain)

section \<open>Numbers and times\<close>

lemma parse_digits_append: "parse_digits acc (s @ t) = Option.bind (parse_digits acc s) (\<lambda>a. parse_digits a t)"
  by (induction acc s rule: parse_digits.induct) auto

lemma parse_show_nat: "parse_digits 0 (show_nat n) = Some n"
proof (induction n rule: show_nat.induct)
  case (1 n)
  have d: "parse_digits a [char_of (48 + m)] = Some (a * 10 + m)" if "m < 10" for a m
    using digit_bounds [OF that] that by (simp add: of_char_of)
  show ?case
  proof (cases "n < 10")
    case True
    then show ?thesis using d [of n 0] by (simp add: show_nat.simps [of n])
  next
    case False
    then show ?thesis
      using "1.IH" d [of "n mod 10" "n div 10"] by (simp add: show_nat.simps [of n] parse_digits_append)
  qed
qed

lemma parse_show_int: "- (2 ^ 63) \<le> i \<Longrightarrow> i < 2 ^ 63 \<Longrightarrow> ParseInt (show_int i) = Some i"
proof -
  assume i: "- (2 ^ 63) \<le> i" "i < 2 ^ 63"
  have h: "hd (show_nat n) \<noteq> CHR ''-'' \<and> hd (show_nat n) \<noteq> CHR ''+''" for n
    using show_nat_digits [of "hd (show_nat n)" n] by (auto simp: less_eq_char_def)
  show ?thesis
  proof (cases "i < 0")
    case True
    then show ?thesis using i by (auto simp: ParseInt_def show_int_def parse_show_nat nat_le_iff)
  next
    case False
    then have "nat i < 2 ^ 63" using i by (simp add: nat_less_iff)
    with False show ?thesis using h [of "nat i"] by (simp add: ParseInt_def show_int_def parse_show_nat Let_def)
  qed
qed

text \<open>For seconds of any ordinary size the addition of the two epochs does not wrap.\<close>

lemma time_Unix_sane:
  assumes "\<bar>sint s\<bar> < 2 ^ 62"
  shows "time_Unix s = (sint s + 62135596800, 0)"
proof -
  have "sint (s + unix_to_internal) = signed_take_bit 63 (sint s + sint unix_to_internal)"
    by (simp add: signed_word_eqI sint_word_ariths)
  also have "sint unix_to_internal = 62135596800" by (simp add: unix_to_internal_def)
  also have "signed_take_bit 63 (sint s + 62135596800) = sint s + 62135596800"
    using assms by (intro signed_take_bit_int_eq_self) auto
  finally show ?thesis by (simp add: time_Unix_def)
qed

section \<open>Properties\<close>

text \<open>A token as an issuer with the secret makes it, and a receiver that answers 401 to a bad signature.\<close>

definition issued :: "jwtenv \<Rightarrow> string \<Rightarrow> string \<Rightarrow> string \<Rightarrow> string" where
  "issued J secret header payload =
     (let input = b64_encode header @ ''.'' @ b64_encode payload in input @ ''.'' @ b64_encode (je_mac J secret input))"

definition receiver :: "(string \<Rightarrow> string \<Rightarrow> string) \<Rightarrow> string \<Rightarrow> int \<Rightarrow> gotime \<Rightarrow> request \<Rightarrow> (int \<times> string) result" where
  "receiver mac secret skew now rq =
     (let h = (\<lambda>k. case map_of (rq_Headers rq) k of Some v \<Rightarrow> v | None \<Rightarrow> []) in
      case VerifySignature mac secret (rq_Body rq) (h ''X-Gocrew-Signature'') (h ''X-Gocrew-Timestamp'') skew now of
        None \<Rightarrow> Inr (200, []) | Some e \<Rightarrow> Inr (401, err_text e))"

lemma split_issued:
  "split_byte CHR ''.'' (issued J secret header payload) =
     [b64_encode header, b64_encode payload, b64_encode (je_mac J secret (b64_encode header @ ''.'' @ b64_encode payload))]"
  using split_join [of "[b64_encode header, b64_encode payload, b64_encode (je_mac J secret (b64_encode header @ ''.'' @ b64_encode payload))]" "CHR ''.''"]
  by (simp add: issued_def Let_def b64_encode_no_dot)

lemma issued_accepted_iff:
  assumes "secret \<noteq> []" "length (issued J secret header payload) \<le> MaxTokenBytes" "je_alg J header = Some ''HS256''"
    "je_claims J payload = Some (sub, ex, nbf, iat)" "trim_space sub \<noteq> []" "ex \<noteq> 0"
    "\<bar>sint ex\<bar> < 2 ^ 62" "\<bar>sint nbf\<bar> < 2 ^ 62" "\<bar>n\<bar> < 2 ^ 62"
  shows "(\<exists>c. Validate J (Some secret) (n + 62135596800, ns) (issued J secret header payload) = Inr c \<and> cl_Subject c = sub) \<longleftrightarrow>
    (n < sint ex + 30 \<or> n = sint ex + 30 \<and> ns = 0) \<and> (nbf = 0 \<or> sint nbf - 30 \<le> n)"
proof -
  have "issued J secret header payload \<noteq> []" by (simp add: issued_def Let_def)
  moreover have "add_seconds (time_Unix ex) clockSkew = (sint ex + 62135596800 + 30, 0)"
    using assms(7) by (simp add: time_Unix_sane add_seconds_def clockSkew_def)
  moreover have "add_seconds (n + 62135596800, ns) clockSkew = (n + 62135596800 + 30, ns)"
    using assms(9) by (simp add: add_seconds_def clockSkew_def)
  ultimately show ?thesis
    using assms(1-6) time_Unix_sane [OF assms(8)]
    by (auto simp: Validate_def split_issued b64_roundtrip time_After_def time_Before_def Let_def)
qed

text \<open>
  No token without the secret's signature. Whatever the token, an accepted one has three parts, a header that
  names HS256, a signature part that decodes to the HMAC of the first two parts under the secret, and a
  payload with a subject and an expiry that is not over; the claims returned are those of the payload.
\<close>

theorem jwt_sound:
  assumes "Validate J v now token = Inr c"
  shows "\<exists>secret h p s header payload ex nbf iat. v = Some secret \<and> secret \<noteq> [] \<and> token = h @ ''.'' @ p @ ''.'' @ s \<and>
    b64_decode h = Some header \<and> je_alg J header = Some ''HS256'' \<and>
    b64_decode s = Some (je_mac J secret (h @ ''.'' @ p)) \<and>
    b64_decode p = Some payload \<and> je_claims J payload = Some (cl_Subject c, ex, nbf, iat) \<and> trim_space (cl_Subject c) \<noteq> [] \<and>
    ex \<noteq> 0 \<and> cl_ExpiresAt c = time_Unix ex \<and> \<not> time_After now (add_seconds (time_Unix ex) clockSkew)"
proof -
  obtain secret where v: "v = Some secret" "secret \<noteq> []" using assms by (auto simp: Validate_def split: option.splits if_splits)
  have "length (split_byte CHR ''.'' token) = 3" using assms v by (auto simp: Validate_def Let_def split: if_splits)
  then obtain h p s where sp: "split_byte CHR ''.'' token = [h, p, s]" by (auto simp: numeral_3_eq_3 length_Suc_conv)
  then have t: "token = h @ ''.'' @ p @ ''.'' @ s" using join_split_byte [of "CHR ''.''" token] by simp
  obtain header payload ex nbf iat where "b64_decode h = Some header" "je_alg J header = Some ''HS256''"
    "b64_decode s = Some (je_mac J secret (h @ ''.'' @ p))" "b64_decode p = Some payload"
    "je_claims J payload = Some (cl_Subject c, ex, nbf, iat)" "trim_space (cl_Subject c) \<noteq> []" "ex \<noteq> 0"
    "cl_ExpiresAt c = time_Unix ex" "\<not> time_After now (add_seconds (time_Unix ex) clockSkew)"
    using assms v sp by (auto simp: Validate_def Let_def split: if_splits option.splits)
  with v t show ?thesis by blast
qed

text \<open>
  C18: Tokens that the secret signed are accepted in their time. For a token made with the secret, of at most 8192
  bytes, with an HS256 header, a subject and an expiry, and with times of ordinary size, validation
  succeeds exactly from 30 seconds before the not-before time to 30 seconds after the expiry.
\<close>

theorem jwt_issued_accepted:
  assumes "secret \<noteq> []" "length (issued J secret header payload) \<le> MaxTokenBytes" "je_alg J header = Some ''HS256''"
    "je_claims J payload = Some (sub, ex, nbf, iat)" "trim_space sub \<noteq> []" "ex \<noteq> 0"
    "\<bar>sint ex\<bar> < 2 ^ 62" "\<bar>sint nbf\<bar> < 2 ^ 62" "\<bar>n\<bar> < 2 ^ 62"
  shows "(\<exists>c. Validate J (Some secret) (n + 62135596800, ns) (issued J secret header payload) = Inr c \<and> cl_Subject c = sub) \<longleftrightarrow>
    (n < sint ex + 30 \<or> n = sint ex + 30 \<and> ns = 0) \<and> (nbf = 0 \<or> sint nbf - 30 \<le> n)"
  by (rule issued_accepted_iff [OF assms])

text \<open>
  A not-before time so far in the future that the sum of the epochs wraps around is taken to be long past.
\<close>

lemma far_not_before_wraps:
  "sint (0x7FFFFFFFFFFFFFFF :: 64 word) = 2 ^ 63 - 1"
  "0 \<le> n \<Longrightarrow> n < 2 ^ 62 \<Longrightarrow> \<not> time_Before (add_seconds (n + 62135596800, ns) clockSkew) (time_Unix 0x7FFFFFFFFFFFFFFF)"
  by (simp_all add: time_Before_def time_After_def time_Unix_def unix_to_internal_def add_seconds_def clockSkew_def)

text \<open>
  A webhook reaches its receiver. When the notifier has a secret and the receiver the same one, a payload
  that can be encoded is delivered, if the receiver's clock is not behind the payload's time stamp and not
  ahead of it by more than the permitted skew.
\<close>

theorem webhook_delivered:
  assumes "nt_Secret n \<noteq> []" "marshal p = Inr body" "newreq (nt_URL n) = None" "pl_Timestamp p \<noteq> 0" "\<bar>sint (pl_Timestamp p)\<bar> < 2 ^ 62"
    "sint (pl_Timestamp p) \<le> m" "(m - sint (pl_Timestamp p)) * 1000000000 + int ns \<le> skew" "skew < 2 ^ 63"
  shows "Notify mac marshal newreq (receiver mac (nt_Secret n) skew (m + 62135596800, ns)) now n p = None"
proof -
  have "sint (pl_Timestamp p) \<ge> - (2 ^ 63)" "sint (pl_Timestamp p) < 2 ^ 63" using assms(5) by auto
  then have "ParseInt (show_int (sint (pl_Timestamp p))) = Some (sint (pl_Timestamp p))" by (rule parse_show_int)
  moreover have "time_Sub (m + 62135596800, ns) (time_Unix (pl_Timestamp p)) = (m - sint (pl_Timestamp p)) * 1000000000 + int ns"
    using assms(6-8) by (simp add: time_Unix_sane [OF assms(5)] time_Sub_def)
  ultimately show ?thesis
    using assms by (simp add: Notify_def notify_request_def receiver_def VerifySignature_def Let_def)
qed

text \<open>
  The time stamp is not authenticated. Once a signature was accepted for a body, the same body and signature
  are accepted at any later time, with a fresh time stamp header or with none: the check bounds nothing an
  attacker who recorded a delivery cannot choose.
\<close>

theorem webhook_replay:
  assumes "VerifySignature mac secret body signature ts skew now = None" "0 \<le> skew" "0 \<le> t" "t < 2 ^ 62"
  shows "VerifySignature mac secret body signature (show_int t) skew (t + 62135596800, 0) = None \<and>
    VerifySignature mac secret body signature [] skew now' = None"
proof -
  have s: "signature = ''sha256='' @ Sign mac secret body"
    using assms(1) by (auto simp: VerifySignature_def Let_def split: if_splits)
  have w: "sint (word_of_int t :: 64 word) = t"
    using assms(3,4) by (simp add: sint_uint uint_word_of_int_eq take_bit_int_eq_self signed_take_bit_int_eq_self)
  have "ParseInt (show_int t) = Some t" using assms(3,4) by (intro parse_show_int) auto
  moreover have "time_Unix (word_of_int t) = (t + 62135596800, 0)" using time_Unix_sane [of "word_of_int t"] w assms(3,4) by simp
  ultimately show ?thesis using s assms(2) by (simp add: VerifySignature_def time_Sub_def Let_def)
qed

section \<open>Witnesses\<close>

definition wit_jwt :: jwtenv where
  "wit_jwt =
     \<lparr>je_mac = (\<lambda>k m. k @ rev (take 3 m)), je_alg = (\<lambda>h. if h = ''H'' then Some ''HS256'' else None),
      je_claims = (\<lambda>p. Some (p, 1700000000, 0, 0))\<rparr>"

lemma wit_token: "length (issued wit_jwt ''k'' ''H'' ''me'') \<le> MaxTokenBytes"
  by (simp add: issued_def Let_def wit_jwt_def MaxTokenBytes_def b64_encode_values)

lemma wit_accepted:
  assumes "n < 1700000030" "- (2 ^ 62) < n"
  shows "\<exists>c. Validate wit_jwt (Some ''k'') (n + 62135596800, ns) (issued wit_jwt ''k'' ''H'' ''me'') = Inr c"
proof -
  have c: "je_alg wit_jwt ''H'' = Some ''HS256''" "je_claims wit_jwt ''me'' = Some (''me'', 1700000000, 0, 0)"
    and t: "trim_space ''me'' \<noteq> []" by (simp_all add: wit_jwt_def trim_space_def is_space_def)
  have "\<bar>n\<bar> < 2 ^ 62" using assms by auto
  then show ?thesis using issued_accepted_iff [OF _ wit_token c t, of n ns] assms by auto
qed

theorem jwt_sound_witness:
  "\<exists>c. Validate wit_jwt (Some ''k'') (1600000000 + 62135596800, 0) (issued wit_jwt ''k'' ''H'' ''me'') = Inr c \<and>
    \<not> time_After (1600000000 + 62135596800, 0) (add_seconds (cl_ExpiresAt c) clockSkew)"
proof -
  obtain c where c: "Validate wit_jwt (Some ''k'') (1600000000 + 62135596800, 0) (issued wit_jwt ''k'' ''H'' ''me'') = Inr c"
    using wit_accepted [of 1600000000 0] by auto
  with jwt_sound [OF c] show ?thesis by metis
qed

theorem jwt_issued_accepted_witness:
  "(\<exists>c. Validate wit_jwt (Some ''k'') (1700000029 + 62135596800, 5) (issued wit_jwt ''k'' ''H'' ''me'') = Inr c \<and> cl_Subject c = ''me'') \<and>
   \<not> (\<exists>c. Validate wit_jwt (Some ''k'') (1700000030 + 62135596800, 5) (issued wit_jwt ''k'' ''H'' ''me'') = Inr c \<and> cl_Subject c = ''me'')"
proof -
  have c: "je_alg wit_jwt ''H'' = Some ''HS256''" "je_claims wit_jwt ''me'' = Some (''me'', 1700000000, 0, 0)"
    and t: "trim_space ''me'' \<noteq> []" by (simp_all add: wit_jwt_def trim_space_def is_space_def)
  note w = jwt_issued_accepted [OF _ wit_token c t]
  show ?thesis using w [of 1700000029 5] w [of 1700000030 5] by simp
qed

definition wit_payload :: Payload where
  "wit_payload = \<lparr>pl_Event = ''kickoff.completed'', pl_SessionID = [], pl_Status = ''ok'', pl_Result = VNil, pl_Error = [], pl_Timestamp = 1700000000\<rparr>"

theorem webhook_delivered_witness:
  "Notify (\<lambda>k m. k @ m) (\<lambda>p. Inr ''body'') (\<lambda>_. None) (receiver (\<lambda>k m. k @ m) ''key'' 300000000000 (1700000060 + 62135596800, 7)) 0
     \<lparr>nt_URL = ''u'', nt_Secret = ''key''\<rparr> wit_payload = None"
  using webhook_delivered [of "\<lparr>nt_URL = ''u'', nt_Secret = ''key''\<rparr>" "\<lambda>p. Inr ''body''" wit_payload "''body''" "\<lambda>_. None" 1700000060 7 300000000000]
  by (simp add: wit_payload_def)

theorem webhook_replay_witness:
  "VerifySignature (\<lambda>k m. k @ m) ''key'' ''body'' (''sha256='' @ Sign (\<lambda>k m. k @ m) ''key'' ''body'') (show_int 1900000000) 300000000000
     (1900000000 + 62135596800, 0) = None"
proof -
  have "VerifySignature (\<lambda>k m. k @ m) ''key'' ''body'' (''sha256='' @ Sign (\<lambda>k m. k @ m) ''key'' ''body'') [] 300000000000 (0, 0) = None"
    by (simp add: VerifySignature_def)
  from webhook_replay [OF this, of 1900000000] show ?thesis by simp
qed

end
