(* ===== verification/A2A_Protocol.thy ===== *)
theory A2A_Protocol
  imports Go_Prelude
begin

text \<open>
  The agent to agent protocol, \<^verbatim>\<open>pkg/protocols/a2a.go\<close> and \<^verbatim>\<open>a2a_adapter.go\<close>: messages and their payloads, the client with
  its retries and per-endpoint circuit breaker, the registry, the router and the server, and the adapter
  that makes a remote agent look like a local one.

  A wire format gives the JSON text of messages and of time stamps. The network acts on a world \<open>'w\<close> that
  also has the clock. Struct fields are decoded by their exact names. The trace propagation, logging
  and the goroutine of a stream are left out.
\<close>

section \<open>Messages\<close>

datatype A2AMessageType = A2ARequest | A2AResponse | A2AEvent | A2AError | A2AStream | A2AOther string

record A2AMessage =
  ms_ID :: string
  ms_From :: string
  ms_To :: string
  ms_Type :: A2AMessageType
  ms_Action :: string
  ms_Payload :: gmap
  ms_CorrelationID :: string
  ms_TraceID :: string
  ms_Timestamp :: int

record A2ATaskRequest =
  tr_Description :: string
  tr_ExpectedOutput :: string
  tr_Context :: string
  tr_Priority :: int
  tr_Deadline :: int
  tr_Metadata :: "(string \<times> gvalue) list"

record A2ATaskResponse =
  ts_Result :: string
  ts_Success :: bool
  ts_Error :: string

record wire =
  wi_enc :: "A2AMessage \<Rightarrow> string result"
  wi_dec :: "string \<Rightarrow> A2AMessage option"
  wi_rfc :: "int \<Rightarrow> string"
  wi_unrfc :: "string \<Rightarrow> int option"

definition MarshalTaskRequest :: "wire \<Rightarrow> A2ATaskRequest \<Rightarrow> gmap" where
  "MarshalTaskRequest W r =
     (let put = (\<lambda>present k v m. if present then m(k \<mapsto> v) else m) in
      put (tr_Metadata r \<noteq> []) ''metadata'' (json_norm (VMap (tr_Metadata r)))
       (put True ''deadline'' (VString (wi_rfc W (tr_Deadline r)))
         (put (tr_Priority r \<noteq> 0) ''priority'' (VFloat (of_int (tr_Priority r)))
           (put (tr_Context r \<noteq> []) ''context'' (VString (tr_Context r))
             (put (tr_ExpectedOutput r \<noteq> []) ''expected_output'' (VString (tr_ExpectedOutput r))
               [''description'' \<mapsto> VString (tr_Description r)])))))"

text \<open>A field that is absent or null keeps its zero value; one of another type is an error.\<close>

definition field :: "gmap \<Rightarrow> string \<Rightarrow> 'a \<Rightarrow> (gvalue \<Rightarrow> 'a option) \<Rightarrow> 'a result" where
  "field m k zero get =
     (case m k of
        None \<Rightarrow> Inr zero
      | Some VNil \<Rightarrow> Inr zero
      | Some v \<Rightarrow> (case get (json_norm v) of Some x \<Rightarrow> Inr x | None \<Rightarrow> Inl (EMsg (''json: cannot unmarshal field '' @ k))))"

definition as_string :: "gvalue \<Rightarrow> string option" where
  "as_string v = (case v of VString s \<Rightarrow> Some s | _ \<Rightarrow> None)"

definition as_bool :: "gvalue \<Rightarrow> bool option" where
  "as_bool v = (case v of VBool b \<Rightarrow> Some b | _ \<Rightarrow> None)"

text \<open>A JSON number is decoded into an \<^verbatim>\<open>int\<close> when it is written without fraction and exponent and fits.\<close>

definition as_int :: "gvalue \<Rightarrow> int option" where
  "as_int v =
     (case v of
        VFloat x \<Rightarrow> if of_int \<lfloor>x\<rfloor> = x \<and> - (2 ^ 63) \<le> \<lfloor>x\<rfloor> \<and> \<lfloor>x\<rfloor> < 2 ^ 63 then Some \<lfloor>x\<rfloor> else None
      | _ \<Rightarrow> None)"

definition as_object :: "gvalue \<Rightarrow> (string \<times> gvalue) list option" where
  "as_object v = (case v of VMap kvs \<Rightarrow> Some kvs | _ \<Rightarrow> None)"

definition UnmarshalTaskRequest :: "wire \<Rightarrow> gmap \<Rightarrow> A2ATaskRequest result" where
  "UnmarshalTaskRequest W m =
     (case field m ''description'' [] as_string of Inl e \<Rightarrow> Inl e | Inr d \<Rightarrow>
      case field m ''expected_output'' [] as_string of Inl e \<Rightarrow> Inl e | Inr x \<Rightarrow>
      case field m ''context'' [] as_string of Inl e \<Rightarrow> Inl e | Inr c \<Rightarrow>
      case field m ''priority'' 0 as_int of Inl e \<Rightarrow> Inl e | Inr p \<Rightarrow>
      case field m ''deadline'' 0 (\<lambda>v. Option.bind (as_string v) (wi_unrfc W)) of Inl e \<Rightarrow> Inl e | Inr t \<Rightarrow>
      case field m ''metadata'' [] as_object of Inl e \<Rightarrow> Inl e | Inr md \<Rightarrow>
      Inr \<lparr>tr_Description = d, tr_ExpectedOutput = x, tr_Context = c, tr_Priority = p, tr_Deadline = t, tr_Metadata = md\<rparr>)"

definition MarshalTaskResponse :: "A2ATaskResponse \<Rightarrow> gmap" where
  "MarshalTaskResponse r =
     (let m = [''result'' \<mapsto> VString (ts_Result r), ''success'' \<mapsto> VBool (ts_Success r)] in
      if ts_Error r \<noteq> [] then m(''error'' \<mapsto> VString (ts_Error r)) else m)"

definition UnmarshalTaskResponse :: "gmap \<Rightarrow> A2ATaskResponse result" where
  "UnmarshalTaskResponse m =
     (case field m ''result'' [] as_string of Inl e \<Rightarrow> Inl e | Inr r \<Rightarrow>
      case field m ''success'' False as_bool of Inl e \<Rightarrow> Inl e | Inr s \<Rightarrow>
      case field m ''error'' [] as_string of Inl e \<Rightarrow> Inl e | Inr x \<Rightarrow>
      Inr \<lparr>ts_Result = r, ts_Success = s, ts_Error = x\<rparr>)"

section \<open>Registry\<close>

record AgentCard =
  ac_ID :: string
  ac_Name :: string
  ac_Role :: string
  ac_Description :: string
  ac_Capabilities :: "string list"
  ac_Endpoint :: string
  ac_Version :: string
  ac_Metadata :: "string \<rightharpoonup> string"
  ac_CreatedAt :: int

text \<open>A registry with the order in which its map is iterated next (Go leaves it open).\<close>

record AgentRegistry =
  ar_agents :: "string \<rightharpoonup> AgentCard"
  ar_order :: "string list"

definition NewAgentRegistry :: AgentRegistry where
  "NewAgentRegistry = \<lparr>ar_agents = Map.empty, ar_order = []\<rparr>"

definition Register :: "int \<Rightarrow> AgentCard \<Rightarrow> AgentRegistry \<Rightarrow> AgentRegistry" where
  "Register now ac r =
     (let c = (if ac_CreatedAt ac = 0 then ac\<lparr>ac_CreatedAt := now\<rparr> else ac) in
      r\<lparr>ar_agents := (ar_agents r)(ac_ID ac \<mapsto> c),
        ar_order := (if ac_ID ac \<in> set (ar_order r) then ar_order r else ar_order r @ [ac_ID ac])\<rparr>)"

definition Unregister :: "string \<Rightarrow> AgentRegistry \<Rightarrow> AgentRegistry" where
  "Unregister i r = r\<lparr>ar_agents := (ar_agents r)(i := None), ar_order := filter (\<lambda>j. j \<noteq> i) (ar_order r)\<rparr>"

definition Lookup :: "string \<Rightarrow> AgentRegistry \<Rightarrow> AgentCard result" where
  "Lookup i r = (case ar_agents r i of None \<Rightarrow> Inl (EMsg (''agent not found: '' @ i)) | Some c \<Rightarrow> Inr c)"

definition ListAll :: "AgentRegistry \<Rightarrow> AgentCard list" where
  "ListAll r = List.map_filter (ar_agents r) (ar_order r)"

definition FindByCapability :: "string \<Rightarrow> AgentRegistry \<Rightarrow> AgentCard list" where
  "FindByCapability cap r = filter (\<lambda>c. cap \<in> set (ac_Capabilities c)) (ListAll r)"

section \<open>Router\<close>

text \<open>
  A handler is told whether its context carries a web socket connection; it returns the messages it wrote to
  that connection, and its response.
\<close>

type_synonym 'w A2AHandler = "bool \<Rightarrow> A2AMessage \<Rightarrow> 'w \<Rightarrow> A2AMessage list \<times> A2AMessage option result \<times> 'w"

record 'w A2ARouter =
  ro_handlers :: "string \<rightharpoonup> 'w A2AHandler"
  ro_fallback :: "'w A2AHandler option"

definition NewA2ARouter :: "'w A2ARouter" where
  "NewA2ARouter = \<lparr>ro_handlers = Map.empty, ro_fallback = None\<rparr>"

definition Handle :: "string \<Rightarrow> 'w A2AHandler \<Rightarrow> 'w A2ARouter \<Rightarrow> 'w A2ARouter" where
  "Handle action h r = r\<lparr>ro_handlers := (ro_handlers r)(action \<mapsto> h)\<rparr>"

definition SetFallback :: "'w A2AHandler \<Rightarrow> 'w A2ARouter \<Rightarrow> 'w A2ARouter" where
  "SetFallback h r = r\<lparr>ro_fallback := Some h\<rparr>"

definition Route :: "'w A2ARouter \<Rightarrow> 'w A2AHandler" where
  "Route r ws m w =
     (case ro_handlers r (ms_Action m) of
        Some h \<Rightarrow> h ws m w
      | None \<Rightarrow>
          (case ro_fallback r of
             Some f \<Rightarrow> f ws m w
           | None \<Rightarrow> ([], Inl (EMsg (''no handler for action: '' @ ms_Action m)), w)))"

section \<open>Server\<close>

record 'w A2AServer =
  sv_Port :: int
  sv_Router :: "'w A2ARouter"
  sv_AuthToken :: string

definition NewA2AServer :: "int \<Rightarrow> 'w A2ARouter \<Rightarrow> string \<Rightarrow> 'w A2AServer" where
  "NewA2AServer port router token = \<lparr>sv_Port = port, sv_Router = router, sv_AuthToken = token\<rparr>"

text \<open>Requests and responses as far as the code looks at them; an absent header reads as the empty text.\<close>

record http_request =
  hq_Method :: string
  hq_URL :: string
  hq_Authorization :: string
  hq_Origin :: string
  hq_Body :: string

record http_response =
  hr_Status :: int
  hr_Body :: string

definition http_Error :: "string \<Rightarrow> int \<Rightarrow> http_response" where
  "http_Error t code = \<lparr>hr_Status = code, hr_Body = t @ [CHR 0x0A]\<rparr>"

text \<open>\<^verbatim>\<open>Encode\<close> ends the text with a line break; when it fails nothing is written and the status stays 200.\<close>

definition handleMessage :: "wire \<Rightarrow> 'w A2AServer \<Rightarrow> http_request \<Rightarrow> 'w \<Rightarrow> http_response \<times> 'w" where
  "handleMessage W s r w =
     (if hq_Method r \<noteq> ''POST'' then (http_Error ''Method not allowed'' 405, w)
      else if sv_AuthToken s \<noteq> [] \<and> hq_Authorization r \<noteq> ''Bearer '' @ sv_AuthToken s then (http_Error ''Unauthorized'' 401, w)
      else (case wi_dec W (hq_Body r) of
              None \<Rightarrow> (http_Error ''Invalid message format'' 400, w)
            | Some m \<Rightarrow>
                (case Route (sv_Router s) False m w of
                   (_, Inl e, w1) \<Rightarrow> (http_Error (err_text e) 500, w1)
                 | (_, Inr None, w1) \<Rightarrow> (\<lparr>hr_Status = 202, hr_Body = []\<rparr>, w1)
                 | (_, Inr (Some m'), w1) \<Rightarrow>
                     (case wi_enc W m' of
                        Inl _ \<Rightarrow> (\<lparr>hr_Status = 200, hr_Body = []\<rparr>, w1)
                      | Inr t \<Rightarrow> (\<lparr>hr_Status = 200, hr_Body = t @ [CHR 0x0A]\<rparr>, w1)))))"

text \<open>The allowed origins are read from the environment once.\<close>

definition allowedOrigins :: "string \<Rightarrow> string list" where
  "allowedOrigins v =
     (if v = [] then [] else filter (\<lambda>o1. o1 \<noteq> []) (map trim_space (split_byte CHR '','' v)))"

definition CheckOrigin :: "string list \<Rightarrow> string \<Rightarrow> bool" where
  "CheckOrigin allowed origin = (origin \<noteq> [] \<and> (\<exists>a \<in> set allowed. to_lower origin = to_lower a))"

definition error_message :: "goerr \<Rightarrow> A2AMessage" where
  "error_message e =
     \<lparr>ms_ID = [], ms_From = [], ms_To = [], ms_Type = A2AError, ms_Action = [], ms_Payload = [''error'' \<mapsto> VString (err_text e)],
      ms_CorrelationID = [], ms_TraceID = [], ms_Timestamp = 0\<rparr>"

text \<open>
  \<open>upgrade\<close> is the rest of the handshake; the body of the request stands for the first frame the peer sends. The
  result holds the frames written back. A message that cannot be encoded is dropped.
\<close>

definition write_frames :: "wire \<Rightarrow> A2AMessage list \<Rightarrow> string list" where
  "write_frames W ms = concat (map (\<lambda>m. case wi_enc W m of Inl _ \<Rightarrow> [] | Inr t \<Rightarrow> [t @ [CHR 0x0A]]) ms)"

definition handleWebSocket ::
  "wire \<Rightarrow> string list \<Rightarrow> (http_request \<Rightarrow> bool) \<Rightarrow> 'w A2AServer \<Rightarrow> http_request \<Rightarrow> 'w \<Rightarrow> string list \<times> 'w" where
  "handleWebSocket W allowed upgrade s r w =
     (if \<not> (CheckOrigin allowed (hq_Origin r) \<and> upgrade r) then ([], w)
      else (case wi_dec W (hq_Body r) of
              None \<Rightarrow> ([], w)
            | Some m \<Rightarrow>
                if sv_AuthToken s \<noteq> [] \<and> hq_Authorization r \<noteq> ''Bearer '' @ sv_AuthToken s \<and> hq_Authorization r \<noteq> sv_AuthToken s
                then ([], w)
                else (case Route (sv_Router s) True m w of
                        (ts, Inl e, w1) \<Rightarrow> (write_frames W (ts @ [error_message e]), w1)
                      | (ts, Inr res, w1) \<Rightarrow> (write_frames W (ts @ (case res of None \<Rightarrow> [] | Some m' \<Rightarrow> [m'])), w1))))"

section \<open>The handlers of an agent\<close>

text \<open>
  From \<^verbatim>\<open>pkg/agents/agent.go\<close>. \<open>run\<close> is the agent's \<^verbatim>\<open>Execute\<close>: told whether there is a stream callback, it
  returns the tokens passed to it and the result; \<open>fmt_v\<close> formats a value. The readings of the clock by one
  call are taken to be the same.
\<close>

record 'w a2a_agent =
  aa_ID :: string
  aa_Role :: string
  aa_run :: "bool \<Rightarrow> string \<Rightarrow> 'w \<Rightarrow> string list \<times> gvalue result \<times> 'w"
  aa_metrics :: "'w \<Rightarrow> (string \<times> gvalue) list"
  aa_uptime :: "'w \<Rightarrow> string"
  aa_now :: "'w \<Rightarrow> int"

definition fmt_value :: "(gvalue \<Rightarrow> string) \<Rightarrow> gvalue result \<Rightarrow> string" where
  "fmt_value fmt_v r = (case r of Inl _ \<Rightarrow> ''<nil>'' | Inr v \<Rightarrow> fmt_v v)"

definition reply_message :: "'w a2a_agent \<Rightarrow> A2AMessage \<Rightarrow> A2AMessageType \<Rightarrow> string \<Rightarrow> string \<Rightarrow> gmap \<Rightarrow> int \<Rightarrow> A2AMessage" where
  "reply_message a m ty idp action payload t =
     \<lparr>ms_ID = idp @ ''-'' @ show_int t, ms_From = aa_ID a, ms_To = ms_From m, ms_Type = ty, ms_Action = action, ms_Payload = payload,
      ms_CorrelationID = ms_ID m, ms_TraceID = [], ms_Timestamp = t\<rparr>"

definition HandleA2AStatus :: "'w a2a_agent \<Rightarrow> 'w A2AHandler" where
  "HandleA2AStatus a ws m w =
     ([], Inr (Some (reply_message a m A2AResponse ''res'' ''status_response''
        [''status'' \<mapsto> VString ''healthy'', ''uptime'' \<mapsto> VString (aa_uptime a w), ''role'' \<mapsto> VString (aa_Role a),
         ''metrics'' \<mapsto> VMap (aa_metrics a w), ''iteration'' \<mapsto> VString ''idle''] (aa_now a w))), w)"

definition HandleA2AMessage :: "wire \<Rightarrow> (gvalue \<Rightarrow> string) \<Rightarrow> 'w a2a_agent \<Rightarrow> 'w A2AHandler" where
  "HandleA2AMessage W fmt_v a ws m w =
     (if ms_Action m = ''delegate_task'' then
        (case UnmarshalTaskRequest W (ms_Payload m) of
           Inl e \<Rightarrow> ([], Inl e, w)
         | Inr req \<Rightarrow>
             (case aa_run a ws (tr_Description req) w of
                (tokens, r, w1) \<Rightarrow>
                  (let t = aa_now a w1;
                       res = \<lparr>ts_Result = fmt_value fmt_v r, ts_Success = is_ok r, ts_Error = (case r of Inl e \<Rightarrow> err_text e | Inr _ \<Rightarrow> [])\<rparr> in
                   (if ws then map (\<lambda>k. reply_message a m A2AStream ''stream'' ''token_stream'' [''token'' \<mapsto> VString k] t) tokens else [],
                    Inr (Some (reply_message a m A2AResponse ''res'' ''delegate_task_response'' (MarshalTaskResponse res) t)), w1))))
      else ([], Inl (EMsg (''unsupported a2a action: '' @ ms_Action m)), w))"

definition setupA2A_router :: "wire \<Rightarrow> (gvalue \<Rightarrow> string) \<Rightarrow> 'w a2a_agent \<Rightarrow> 'w A2ARouter" where
  "setupA2A_router W fmt_v a =
     Handle ''status'' (HandleA2AStatus a) (Handle ''delegate_task'' (HandleA2AMessage W fmt_v a) NewA2ARouter)"

section \<open>Payloads through the wire\<close>

definition norm_payload :: "gmap \<Rightarrow> gmap" where
  "norm_payload m = map_option json_norm \<circ> m"

definition norm_message :: "A2AMessage \<Rightarrow> A2AMessage" where
  "norm_message m = m\<lparr>ms_Payload := norm_payload (ms_Payload m)\<rparr>"

lemma json_norm_Nil [simp]: "json_norm v = VNil \<longleftrightarrow> v = VNil"
  by (cases v) auto

lemma norm_pairs [simp]: "map ((\<lambda>(k, v). (k, json_norm v)) \<circ> (\<lambda>(k, v). (k, json_norm v))) kvs = map (\<lambda>(k, v). (k, json_norm v)) kvs"
  by (rule map_cong) auto

lemma norm_payload_upd [simp]: "norm_payload (m(k \<mapsto> v)) = (norm_payload m)(k \<mapsto> json_norm v)"
  by (simp add: norm_payload_def fun_eq_iff)

lemma norm_payload_empty [simp]: "norm_payload Map.empty = Map.empty"
  by (simp add: norm_payload_def fun_eq_iff)

lemma field_Some:
  "m k = Some v \<Longrightarrow> v \<noteq> VNil \<Longrightarrow>
    field m k z g = (case g (json_norm v) of Some x \<Rightarrow> Inr x | None \<Rightarrow> Inl (EMsg (''json: cannot unmarshal field '' @ k)))"
  by (cases v) (simp_all add: field_def)

lemma field_norm [simp]: "field (norm_payload m) k z g = field m k z g"
proof (cases "m k")
  case (Some v)
  have n: "norm_payload m k = Some (json_norm v)" by (simp add: norm_payload_def Some)
  show ?thesis
  proof (cases "v = VNil")
    case False
    then show ?thesis using field_Some [of m k v z g] field_Some [of "norm_payload m" k "json_norm v" z g] Some n by simp
  next
    case True
    with n Some show ?thesis by (simp add: field_def)
  qed
qed (simp add: field_def norm_payload_def)

text \<open>What a marshaller and an unmarshaller of payloads promise.\<close>

locale payload_codec =
  fixes marshal :: "'a \<Rightarrow> gmap" and unmarshal :: "gmap \<Rightarrow> 'a result" and valid :: "'a \<Rightarrow> bool" and canon :: "'a \<Rightarrow> 'a"
  assumes unmarshal_marshal: "valid x \<Longrightarrow> unmarshal (marshal x) = Inr (canon x)"
    and unmarshal_norm: "unmarshal (norm_payload m) = unmarshal m"
    and marshal_canon: "marshal (canon x) = marshal x"
    and valid_canon: "valid x \<Longrightarrow> valid (canon x)"
begin

lemma through_wire: "valid x \<Longrightarrow> unmarshal (norm_payload (marshal x)) = Inr (canon x)"
  by (simp add: unmarshal_norm unmarshal_marshal)

lemma canon_idem: "valid x \<Longrightarrow> canon (canon x) = canon x"
  using unmarshal_marshal [of x] unmarshal_marshal [OF valid_canon, of x] by (simp add: marshal_canon)

lemma relayed:
  assumes "valid x" "unmarshal (norm_payload (marshal x)) = Inr y"
  shows "unmarshal (norm_payload (marshal y)) = Inr y"
  using assms through_wire canon_idem valid_canon by fastforce

end

definition canon_request :: "A2ATaskRequest \<Rightarrow> A2ATaskRequest" where
  "canon_request r = r\<lparr>tr_Metadata := map (\<lambda>(k, v). (k, json_norm v)) (tr_Metadata r)\<rparr>"

definition valid_request :: "wire \<Rightarrow> A2ATaskRequest \<Rightarrow> bool" where
  "valid_request W r =
     (wi_unrfc W (wi_rfc W (tr_Deadline r)) = Some (tr_Deadline r) \<and> - (2 ^ 63) \<le> tr_Priority r \<and> tr_Priority r < 2 ^ 63)"

interpretation task_request: payload_codec "MarshalTaskRequest W" "UnmarshalTaskRequest W" "valid_request W" canon_request
proof
  fix x
  show "valid_request W x \<Longrightarrow> UnmarshalTaskRequest W (MarshalTaskRequest W x) = Inr (canon_request x)"
    by (cases x) (auto simp: UnmarshalTaskRequest_def MarshalTaskRequest_def field_def as_string_def as_int_def as_object_def valid_request_def
        canon_request_def Let_def case_prod_beta)
  show "MarshalTaskRequest W (canon_request x) = MarshalTaskRequest W x"
    by (cases x) (simp add: MarshalTaskRequest_def canon_request_def Let_def)
  show "valid_request W x \<Longrightarrow> valid_request W (canon_request x)"
    by (simp add: valid_request_def canon_request_def)
  show "UnmarshalTaskRequest W (norm_payload m) = UnmarshalTaskRequest W m" for m
    unfolding UnmarshalTaskRequest_def field_norm ..
qed

interpretation task_response: payload_codec MarshalTaskResponse UnmarshalTaskResponse "\<lambda>_. True" "\<lambda>x. x"
proof
  fix x
  show "UnmarshalTaskResponse (MarshalTaskResponse x) = Inr x"
    by (cases x) (simp add: UnmarshalTaskResponse_def MarshalTaskResponse_def field_def as_string_def as_bool_def Let_def)
  show "UnmarshalTaskResponse (norm_payload m) = UnmarshalTaskResponse m" for m
    unfolding UnmarshalTaskResponse_def field_norm ..
qed simp_all

text \<open>The payload of a task request does not change on the wire.\<close>

lemma norm_request [simp]: "norm_payload (MarshalTaskRequest W r) = MarshalTaskRequest W r"
  by (simp add: MarshalTaskRequest_def Let_def)

lemma norm_response [simp]: "norm_payload (MarshalTaskResponse r) = MarshalTaskResponse r"
  by (simp add: MarshalTaskResponse_def Let_def)

section \<open>Properties\<close>

text \<open>
  Effects need authority. If a message endpoint (HTTP or web socket) changes the world, then the request
  carried the token of the server (or the server has none), its body is a message, and the change is that of
  running the one handler registered for the action, or the fallback when there is none.
\<close>

theorem effects_need_authority:
  assumes "snd (handleMessage W s rq w) \<noteq> w \<or> snd (handleWebSocket W allowed upgrade s rq w) \<noteq> w"
  shows "\<exists>m h ws. wi_dec W (hq_Body rq) = Some m \<and>
    (sv_AuthToken s = [] \<or> hq_Authorization rq = ''Bearer '' @ sv_AuthToken s \<or> ws \<and> hq_Authorization rq = sv_AuthToken s) \<and>
    (if ws then CheckOrigin allowed (hq_Origin rq) else hq_Method rq = ''POST'') \<and>
    (case ro_handlers (sv_Router s) (ms_Action m) of Some h' \<Rightarrow> h = h' | None \<Rightarrow> ro_fallback (sv_Router s) = Some h) \<and>
    (if ws then snd (handleWebSocket W allowed upgrade s rq w) else snd (handleMessage W s rq w)) = snd (snd (h ws m w))"
proof -
  have route: "snd (snd (Route (sv_Router s) ws m w)) \<noteq> w \<Longrightarrow>
    \<exists>h. (case ro_handlers (sv_Router s) (ms_Action m) of Some h' \<Rightarrow> h = h' | None \<Rightarrow> ro_fallback (sv_Router s) = Some h) \<and>
      snd (snd (Route (sv_Router s) ws m w)) = snd (snd (h ws m w))" for ws m
    by (auto simp: Route_def split: option.splits)
  from assms show ?thesis
  proof
    assume ch: "snd (handleMessage W s rq w) \<noteq> w"
    then obtain m where m: "wi_dec W (hq_Body rq) = Some m" "hq_Method rq = ''POST''"
        "sv_AuthToken s = [] \<or> hq_Authorization rq = ''Bearer '' @ sv_AuthToken s"
      by (fastforce simp: handleMessage_def split: option.splits if_splits)
    have e: "snd (handleMessage W s rq w) = snd (snd (Route (sv_Router s) False m w))"
      using m by (auto simp: handleMessage_def split: prod.splits sum.splits option.splits)
    with ch route [of False m] obtain h where
      "case ro_handlers (sv_Router s) (ms_Action m) of Some h' \<Rightarrow> h = h' | None \<Rightarrow> ro_fallback (sv_Router s) = Some h"
      "snd (handleMessage W s rq w) = snd (snd (h False m w))" by auto
    with m show ?thesis by (intro exI [of _ m] exI [of _ h] exI [of _ False]) auto
  next
    assume ch: "snd (handleWebSocket W allowed upgrade s rq w) \<noteq> w"
    then obtain m where m: "wi_dec W (hq_Body rq) = Some m" "CheckOrigin allowed (hq_Origin rq)" "upgrade rq"
        "sv_AuthToken s = [] \<or> hq_Authorization rq = ''Bearer '' @ sv_AuthToken s \<or> hq_Authorization rq = sv_AuthToken s"
      by (fastforce simp: handleWebSocket_def split: option.splits if_splits)
    have e: "snd (handleWebSocket W allowed upgrade s rq w) = snd (snd (Route (sv_Router s) True m w))"
      using m by (auto simp: handleWebSocket_def split: prod.splits sum.splits option.splits)
    with ch route [of True m] obtain h where
      "case ro_handlers (sv_Router s) (ms_Action m) of Some h' \<Rightarrow> h = h' | None \<Rightarrow> ro_fallback (sv_Router s) = Some h"
      "snd (handleWebSocket W allowed upgrade s rq w) = snd (snd (h True m w))" by auto
    with m show ?thesis by (intro exI [of _ m] exI [of _ h] exI [of _ True]) auto
  qed
qed

subsection \<open>The registry\<close>

datatype reg_op = OpRegister int AgentCard | OpUnregister string

fun reg_step :: "reg_op \<Rightarrow> AgentRegistry \<Rightarrow> AgentRegistry" where
  "reg_step (OpRegister now ac) r = Register now ac r"
| "reg_step (OpUnregister i) r = Unregister i r"

text \<open>The specification: what the latest operation on an identifier says; the latest operation comes first.\<close>

fun latest :: "string \<Rightarrow> reg_op list \<Rightarrow> AgentCard option" where
  "latest i [] = None"
| "latest i (OpRegister now ac # ops) =
     (if ac_ID ac = i then Some (if ac_CreatedAt ac = 0 then ac\<lparr>ac_CreatedAt := now\<rparr> else ac) else latest i ops)"
| "latest i (OpUnregister j # ops) = (if j = i then None else latest i ops)"

lemma reg_refines:
  "ar_agents (foldr reg_step ops NewAgentRegistry) = (\<lambda>i. latest i ops) \<and>
   distinct (ar_order (foldr reg_step ops NewAgentRegistry)) \<and>
   set (ar_order (foldr reg_step ops NewAgentRegistry)) = {i. latest i ops \<noteq> None}"
proof (induction ops)
  case Nil
  then show ?case by (simp add: NewAgentRegistry_def fun_eq_iff)
next
  case (Cons op ops)
  then show ?case
    by (cases op) (auto simp: Register_def Unregister_def Let_def fun_eq_iff split: if_splits)
qed

lemma latest_ID: "latest i ops = Some c \<Longrightarrow> ac_ID c = i"
  by (induction i ops rule: latest.induct) (auto split: if_splits)

text \<open>
  Discovery is exact. After any registrations and removals, looking up an identifier gives the card registered
  last under it unless it was removed since, and a search by capability gives exactly the cards that can be
  looked up and declare the capability, each once.
\<close>

theorem registry_discovery:
  "(\<forall>i. Lookup i (foldr reg_step ops NewAgentRegistry) =
      (case latest i ops of None \<Rightarrow> Inl (EMsg (''agent not found: '' @ i)) | Some c \<Rightarrow> Inr c)) \<and>
   set (FindByCapability cap (foldr reg_step ops NewAgentRegistry)) =
      {c. Lookup (ac_ID c) (foldr reg_step ops NewAgentRegistry) = Inr c \<and> cap \<in> set (ac_Capabilities c)} \<and>
   distinct (map ac_ID (FindByCapability cap (foldr reg_step ops NewAgentRegistry)))"
proof -
  let ?r = "foldr reg_step ops NewAgentRegistry"
  have a: "ar_agents ?r = (\<lambda>i. latest i ops)" and d: "distinct (ar_order ?r)" and o: "set (ar_order ?r) = {i. latest i ops \<noteq> None}"
    using reg_refines by auto
  have all: "ListAll ?r = map (\<lambda>i. the (latest i ops)) (ar_order ?r)"
    using o by (simp add: ListAll_def a map_filter_def)
  have ids: "map ac_ID (ListAll ?r) = ar_order ?r"
    using o by (auto simp: all intro!: map_idI latest_ID)
  have "set (ListAll ?r) = {c. latest (ac_ID c) ops = Some c}"
    using o by (auto simp: all dest: latest_ID intro!: image_eqI) (metis latest_ID)
  then have "set (FindByCapability cap ?r) = {c. Lookup (ac_ID c) ?r = Inr c \<and> cap \<in> set (ac_Capabilities c)}"
    by (auto simp: FindByCapability_def Lookup_def a split: option.splits)
  moreover have "distinct (map ac_ID (FindByCapability cap ?r))"
    using d unfolding ids [symmetric] FindByCapability_def by (rule distinct_map_filter)
  ultimately show ?thesis by (simp add: Lookup_def a)
qed

section \<open>Witnesses\<close>

definition wit_wire0 :: wire where
  "wit_wire0 = \<lparr>wi_enc = (\<lambda>_. Inr []), wi_dec = (\<lambda>t. Some (error_message (EMsg t))), wi_rfc = (\<lambda>_. []), wi_unrfc = (\<lambda>_. None)\<rparr>"

definition wit_counter :: "nat A2AServer" where
  "wit_counter = NewA2AServer 80 (SetFallback (\<lambda>ws m w. ([], Inr None, Suc w)) NewA2ARouter) ''k''"

theorem effects_need_authority_witness:
  "snd (handleMessage wit_wire0 wit_counter \<lparr>hq_Method = ''POST'', hq_URL = [], hq_Authorization = ''Bearer k'', hq_Origin = [], hq_Body = []\<rparr> 0) = 1 \<and>
   ro_fallback (sv_Router wit_counter) \<noteq> None"
proof -
  have c: "snd (handleMessage wit_wire0 wit_counter
      \<lparr>hq_Method = ''POST'', hq_URL = [], hq_Authorization = ''Bearer k'', hq_Origin = [], hq_Body = []\<rparr> 0) = 1"
    by (simp add: handleMessage_def wit_wire0_def wit_counter_def NewA2AServer_def SetFallback_def NewA2ARouter_def Route_def)
  then have "snd (handleMessage wit_wire0 wit_counter
      \<lparr>hq_Method = ''POST'', hq_URL = [], hq_Authorization = ''Bearer k'', hq_Origin = [], hq_Body = []\<rparr> 0) \<noteq> 0" by simp
  from effects_need_authority [OF disjI1 [OF this], of "[]" "\<lambda>_. True"]
  have "ro_fallback (sv_Router wit_counter) \<noteq> None"
    by (auto simp: wit_counter_def NewA2AServer_def SetFallback_def NewA2ARouter_def)
  with c show ?thesis by simp
qed

end
