(* ===== verification/A2A_Client.thy ===== *)
theory A2A_Client
  imports A2A_Protocol "HOL-Library.Word"
begin

text \<open>
  The sending side of \<^verbatim>\<open>pkg/protocols/a2a.go\<close> and the adapter of \<^verbatim>\<open>a2a_adapter.go\<close>: one attempt, the circuit
  breaker per endpoint, retries with backoff, streams, and the execution of a task on a remote agent. The
  locale \<open>guarded_endpoint\<close> is the contract between a client and the endpoint it talks to.

  The network is a record of functions on a world that also has the clock. A ghost component records the requests
  that were handed to the HTTP client, with the time before and after.
\<close>

section \<open>State\<close>

record A2AClient =
  ac_AuthToken :: string
  ac_failures :: "string \<rightharpoonup> int"
  ac_lastFail :: "string \<rightharpoonup> int"

definition NewA2AClient :: "string \<Rightarrow> A2AClient" where
  "NewA2AClient token = \<lparr>ac_AuthToken = token, ac_failures = Map.empty, ac_lastFail = Map.empty\<rparr>"

text \<open>
  \<open>nn_newreq\<close> is the check of the address by the HTTP library, \<open>nn_do\<close> the HTTP client, \<open>nn_backoff\<close> a wait that
  the context may cut short with its error, \<open>nn_span\<close> the trace of the context.
\<close>

record 'w net =
  nn_now :: "'w \<Rightarrow> int"
  nn_span :: "string option"
  nn_newreq :: "string \<Rightarrow> goerr option"
  nn_do :: "http_request \<Rightarrow> 'w \<Rightarrow> http_response result \<times> 'w"
  nn_backoff :: "int \<Rightarrow> 'w \<Rightarrow> goerr option \<times> 'w"

record 'w cst =
  cs_client :: A2AClient
  cs_world :: 'w
  cs_sent :: "(http_request \<times> int \<times> int) list"

section \<open>Circuit breaker\<close>

definition fail_count :: "A2AClient \<Rightarrow> string \<Rightarrow> int" where
  "fail_count c ep = (case ac_failures c ep of None \<Rightarrow> 0 | Some n \<Rightarrow> n)"

definition last_failure :: "A2AClient \<Rightarrow> string \<Rightarrow> int" where
  "last_failure c ep = (case ac_lastFail c ep of None \<Rightarrow> 0 | Some t \<Rightarrow> t)"

definition checkCircuit :: "int \<Rightarrow> string \<Rightarrow> A2AClient \<Rightarrow> A2AClient result" where
  "checkCircuit now ep c =
     (if fail_count c ep \<ge> 5 then
        (if now - last_failure c ep < 30 * 1000000000 then Inl (EMsg (''a2a: circuit breaker open for '' @ ep))
         else Inr (c\<lparr>ac_failures := (ac_failures c)(ep \<mapsto> 4)\<rparr>))
      else Inr c)"

definition markFailure :: "int \<Rightarrow> string \<Rightarrow> A2AClient \<Rightarrow> A2AClient" where
  "markFailure now ep c =
     c\<lparr>ac_failures := (ac_failures c)(ep \<mapsto> fail_count c ep + 1), ac_lastFail := (ac_lastFail c)(ep \<mapsto> now)\<rparr>"

definition markSuccess :: "string \<Rightarrow> A2AClient \<Rightarrow> A2AClient" where
  "markSuccess ep c = c\<lparr>ac_failures := (ac_failures c)(ep := None)\<rparr>"

section \<open>Sending\<close>

definition request_of :: "A2AClient \<Rightarrow> string \<Rightarrow> string \<Rightarrow> http_request" where
  "request_of c ep data =
     \<lparr>hq_Method = ''POST'', hq_URL = ep,
      hq_Authorization = (if ac_AuthToken c \<noteq> [] then ''Bearer '' @ ac_AuthToken c else []), hq_Origin = [], hq_Body = data\<rparr>"

definition with_trace :: "'w net \<Rightarrow> A2AMessage \<Rightarrow> A2AMessage" where
  "with_trace N m = (case nn_span N of None \<Rightarrow> m | Some t \<Rightarrow> m\<lparr>ms_TraceID := t\<rparr>)"

definition remote_error :: "http_response \<Rightarrow> goerr" where
  "remote_error resp = EMsg (''a2a: remote error (status '' @ show_int (hr_Status resp) @ ''): '' @ hr_Body resp)"

definition doSend :: "wire \<Rightarrow> 'w net \<Rightarrow> string \<Rightarrow> A2AMessage \<Rightarrow> 'w cst \<Rightarrow> A2AMessage result \<times> 'w cst" where
  "doSend W N ep m st =
     (let t0 = nn_now N (cs_world st) in
      case checkCircuit t0 ep (cs_client st) of
        Inl e \<Rightarrow> (Inl e, st)
      | Inr c \<Rightarrow>
          (let st1 = st\<lparr>cs_client := c\<rparr> in
           case wi_enc W (with_trace N m) of
             Inl e \<Rightarrow> (Inl (EWrap ''a2a: failed to marshal message: '' e []), st1)
           | Inr data \<Rightarrow>
               (case nn_newreq N ep of
                  Some e \<Rightarrow> (Inl e, st1)
                | None \<Rightarrow>
                    (case nn_do N (request_of c ep data) (cs_world st1) of
                       (r, w1) \<Rightarrow>
                         (let t1 = nn_now N w1;
                              st2 = st1\<lparr>cs_world := w1, cs_sent := cs_sent st1 @ [(request_of c ep data, t0, t1)]\<rparr> in
                          case r of
                            Inl e \<Rightarrow> (Inl (EWrap ''a2a: network error: '' e []), st2\<lparr>cs_client := markFailure t1 ep c\<rparr>)
                          | Inr resp \<Rightarrow>
                              if hr_Status resp \<noteq> 200 then
                                (Inl (remote_error resp), if hr_Status resp \<ge> 500 then st2\<lparr>cs_client := markFailure t1 ep c\<rparr> else st2)
                              else
                                ((case wi_dec W (hr_Body resp) of
                                    None \<Rightarrow> Inl (EWrap ''a2a: failed to decode response: '' (EMsg ''invalid JSON'') [])
                                  | Some m' \<Rightarrow> Inr m'),
                                 st2\<lparr>cs_client := markSuccess ep c\<rparr>))))))"

text \<open>The length of the wait, a 64-bit number of nanoseconds.\<close>

definition backoff :: "nat \<Rightarrow> int" where
  "backoff i = sint (word_of_int (2 ^ i * 1000000000) :: 64 word)"

definition no_retry :: "goerr \<Rightarrow> bool" where
  "no_retry e = (str_contains (err_text e) ''status 401'' \<or> str_contains (err_text e) ''status 403'')"

definition retries_failed :: "goerr option \<Rightarrow> goerr" where
  "retries_failed e =
     (case e of None \<Rightarrow> EMsg ''a2a: all retries failed: %!w(<nil>)'' | Some e' \<Rightarrow> EWrap ''a2a: all retries failed: '' e' [])"

text \<open>The loop from attempt \<open>i\<close> on, with \<open>k\<close> attempts left.\<close>

fun retry_loop ::
  "wire \<Rightarrow> 'w net \<Rightarrow> string \<Rightarrow> A2AMessage \<Rightarrow> nat \<Rightarrow> nat \<Rightarrow> goerr option \<Rightarrow> 'w cst \<Rightarrow> A2AMessage result \<times> 'w cst" where
  "retry_loop W N ep m 0 i lastErr st = (Inl (retries_failed lastErr), st)"
| "retry_loop W N ep m (Suc k) i lastErr st =
     (case (if i > 0 then nn_backoff N (backoff i) (cs_world st) else (None, cs_world st)) of
        (Some e, w) \<Rightarrow> (Inl e, st\<lparr>cs_world := w\<rparr>)
      | (None, w) \<Rightarrow>
          (case doSend W N ep m (st\<lparr>cs_world := w\<rparr>) of
             (Inr resp, st1) \<Rightarrow> (Inr resp, st1)
           | (Inl e, st1) \<Rightarrow> if no_retry e then (Inl e, st1) else retry_loop W N ep m k (Suc i) (Some e) st1))"

definition SendWithRetry :: "wire \<Rightarrow> 'w net \<Rightarrow> string \<Rightarrow> A2AMessage \<Rightarrow> int \<Rightarrow> 'w cst \<Rightarrow> A2AMessage result \<times> 'w cst" where
  "SendWithRetry W N ep m maxRetries st = retry_loop W N ep m (nat maxRetries) 0 None st"

definition Send :: "wire \<Rightarrow> 'w net \<Rightarrow> string \<Rightarrow> A2AMessage \<Rightarrow> 'w cst \<Rightarrow> A2AMessage result \<times> 'w cst" where
  "Send W N ep m st = SendWithRetry W N ep m 3 st"

definition status_message :: "string \<Rightarrow> string \<Rightarrow> int \<Rightarrow> A2AMessage" where
  "status_message fromId toId now =
     \<lparr>ms_ID = ''stat-'' @ show_int now, ms_From = fromId, ms_To = toId, ms_Type = A2ARequest, ms_Action = ''status'', ms_Payload = Map.empty,
      ms_CorrelationID = [], ms_TraceID = [], ms_Timestamp = now\<rparr>"

definition GetStatus :: "wire \<Rightarrow> 'w net \<Rightarrow> string \<Rightarrow> string \<Rightarrow> string \<Rightarrow> 'w cst \<Rightarrow> gmap result \<times> 'w cst" where
  "GetStatus W N ep fromId toId st =
     (case Send W N ep (status_message fromId toId (nn_now N (cs_world st))) st of
        (Inl e, st1) \<Rightarrow> (Inl e, st1)
      | (Inr resp, st1) \<Rightarrow> (Inr (ms_Payload resp), st1))"

section \<open>Streams\<close>

text \<open>
  \<open>ws_url\<close> parses the endpoint and gives the address with the scheme and path of a web socket; \<open>dial\<close> makes the handshake and
  sends the first frame (none when the message cannot be encoded): the frames the server sends back, or an error. The tokens delivered are those before
  the final response, an unreadable frame or the end.
\<close>

fun stream_tokens :: "wire \<Rightarrow> string list \<Rightarrow> string list" where
  "stream_tokens W [] = []"
| "stream_tokens W (f # fs) =
     (case wi_dec W f of
        None \<Rightarrow> []
      | Some m \<Rightarrow>
          if ms_Type m = A2AStream then (case get_string (ms_Payload m) ''token'' of None \<Rightarrow> [] | Some t \<Rightarrow> t) # stream_tokens W fs
          else if ms_Type m = A2AResponse then []
          else stream_tokens W fs)"

definition Stream ::
  "wire \<Rightarrow> (string \<Rightarrow> string \<Rightarrow> string \<Rightarrow> string result) \<Rightarrow> (http_request \<Rightarrow> 'w \<Rightarrow> string list result \<times> 'w) \<Rightarrow>
    A2AClient \<Rightarrow> string \<Rightarrow> A2AMessage \<Rightarrow> 'w \<Rightarrow> string list result \<times> 'w" where
  "Stream W ws_url dial c ep m w =
     (case ws_url (if has_prefix ep ''https'' then ''wss'' else ''ws'') ''/ws'' ep of
        Inl e \<Rightarrow> (Inl e, w)
      | Inr u \<Rightarrow>
          (let enc = wi_enc W m in
           case dial ((request_of c u (case enc of Inl _ \<Rightarrow> [] | Inr t \<Rightarrow> t @ [CHR 0x0A]))\<lparr>hq_Method := ''GET''\<rparr>) w of
             (Inl e, w1) \<Rightarrow> (Inl (EWrap ''a2a: ws dial error: '' e []), w1)
           | (Inr fs, w1) \<Rightarrow> ((case enc of Inl e \<Rightarrow> Inl e | Inr _ \<Rightarrow> Inr (stream_tokens W fs)), w1)))"

section \<open>Remote agents\<close>

record RemoteAgentAdapter =
  ra_Card :: AgentCard
  ra_FromID :: string

definition delegate_message :: "wire \<Rightarrow> RemoteAgentAdapter \<Rightarrow> string \<Rightarrow> int \<Rightarrow> A2AMessage" where
  "delegate_message W a input now =
     \<lparr>ms_ID = ''del-'' @ show_int now, ms_From = ra_FromID a, ms_To = ac_ID (ra_Card a), ms_Type = A2ARequest, ms_Action = ''delegate_task'',
      ms_Payload = MarshalTaskRequest W \<lparr>tr_Description = input, tr_ExpectedOutput = [], tr_Context = [], tr_Priority = 0, tr_Deadline = 0,
        tr_Metadata = []\<rparr>,
      ms_CorrelationID = [], ms_TraceID = [], ms_Timestamp = now\<rparr>"

text \<open>The options of the caller are not looked at.\<close>

definition ra_Execute :: "wire \<Rightarrow> 'w net \<Rightarrow> RemoteAgentAdapter \<Rightarrow> string \<Rightarrow> gmap \<Rightarrow> 'w cst \<Rightarrow> gvalue result \<times> 'w cst" where
  "ra_Execute W N a input options st =
     (case Send W N (ac_Endpoint (ra_Card a)) (delegate_message W a input (nn_now N (cs_world st))) st of
        (Inl e, st1) \<Rightarrow> (Inl (EWrap ''a2a delegation failed: '' e []), st1)
      | (Inr resp, st1) \<Rightarrow>
          ((case UnmarshalTaskResponse (ms_Payload resp) of
              Inl e \<Rightarrow> Inl (EWrap ''a2a invalid response payload: '' e [])
            | Inr res \<Rightarrow>
                if \<not> ts_Success res then Inl (EMsg (''remote task failed: '' @ ts_Error res)) else Inr (VString (ts_Result res))), st1))"

section \<open>The circuit breaker bounds the rate\<close>

fun attempts :: "wire \<Rightarrow> 'w net \<Rightarrow> (string \<times> ('w \<Rightarrow> 'w) \<times> A2AMessage) list \<Rightarrow> 'w cst \<Rightarrow> 'w cst" where
  "attempts W N [] st = st"
| "attempts W N ((ep, g, m) # xs) st = attempts W N xs (snd (doSend W N ep m (st\<lparr>cs_world := g (cs_world st)\<rparr>)))"

definition sent_to :: "string \<Rightarrow> 'w cst \<Rightarrow> (http_request \<times> int \<times> int) list" where
  "sent_to ep st = filter (\<lambda>x. hq_URL (fst x) = ep) (cs_sent st)"

definition failing :: "'w net \<Rightarrow> string \<Rightarrow> bool" where
  "failing N ep \<longleftrightarrow>
     (\<forall>rq w. hq_URL rq = ep \<longrightarrow> (case fst (nn_do N rq w) of Inl _ \<Rightarrow> True | Inr resp \<Rightarrow> hr_Status resp \<ge> 500))"

definition clock_ok :: "'w net \<Rightarrow> bool" where
  "clock_ok N \<longleftrightarrow> (\<forall>rq w. nn_now N w \<le> nn_now N (snd (nn_do N rq w)))"

definition spaced :: "(http_request \<times> int \<times> int) list \<Rightarrow> bool" where
  "spaced l \<longleftrightarrow> (\<forall>i. 5 \<le> i \<and> i < length l \<longrightarrow> snd (snd (l ! (i - 1))) + 30000000000 \<le> fst (snd (l ! i)))"

definition circuit_inv :: "'w net \<Rightarrow> string \<Rightarrow> 'w cst \<Rightarrow> bool" where
  "circuit_inv N ep st \<longleftrightarrow>
     spaced (sent_to ep st) \<and>
     (let n = length (sent_to ep st); c = cs_client st in
      fail_count c ep = int (min 5 n) \<and> (0 < n \<longrightarrow> last_failure c ep = snd (snd (last (sent_to ep st)))) \<or>
      5 \<le> n \<and> fail_count c ep = 4 \<and> snd (snd (last (sent_to ep st))) + 30000000000 \<le> nn_now N (cs_world st))"

lemma spaced_snoc:
  assumes "spaced l" "5 \<le> length l \<Longrightarrow> snd (snd (last l)) + 30000000000 \<le> fst (snd x)"
  shows "spaced (l @ [x])"
  unfolding spaced_def
proof (intro allI impI)
  fix i assume i: "5 \<le> i \<and> i < length (l @ [x])"
  show "snd (snd ((l @ [x]) ! (i - 1))) + 30000000000 \<le> fst (snd ((l @ [x]) ! i))"
  proof (cases "i = length l")
    case True
    moreover have "l \<noteq> []" using i True by auto
    ultimately show ?thesis using assms(2) i by (simp add: nth_append last_conv_nth)
  next
    case False
    then show ?thesis using assms(1) i by (auto simp: nth_append spaced_def)
  qed
qed

lemma check_other: "checkCircuit t ep' c = Inr c' \<Longrightarrow> ep \<noteq> ep' \<Longrightarrow> fail_count c' ep = fail_count c ep \<and> last_failure c' ep = last_failure c ep"
  by (auto simp: checkCircuit_def fail_count_def last_failure_def split: if_splits)

lemma mark_other:
  "ep \<noteq> ep' \<Longrightarrow> fail_count (markFailure t ep' c) ep = fail_count c ep \<and> last_failure (markFailure t ep' c) ep = last_failure c ep"
  "ep \<noteq> ep' \<Longrightarrow> fail_count (markSuccess ep' c) ep = fail_count c ep \<and> last_failure (markSuccess ep' c) ep = last_failure c ep"
  by (simp_all add: markFailure_def markSuccess_def fail_count_def last_failure_def)

lemma mark_same [simp]:
  "fail_count (markFailure t ep c) ep = fail_count c ep + 1" "last_failure (markFailure t ep c) ep = t"
  by (simp_all add: markFailure_def fail_count_def last_failure_def)

text \<open>What an attempt does to the state: nothing, a half-open circuit without a request, or one request.\<close>

lemma doSend_cases:
  obtains (refused) e where "checkCircuit (nn_now N (cs_world st)) ep (cs_client st) = Inl e" "doSend W N ep m st = (Inl e, st)"
  | (unsent) c e where "checkCircuit (nn_now N (cs_world st)) ep (cs_client st) = Inr c" "doSend W N ep m st = (Inl e, st\<lparr>cs_client := c\<rparr>)"
  | (sent) c data r w1 c' res where "checkCircuit (nn_now N (cs_world st)) ep (cs_client st) = Inr c"
      "wi_enc W (with_trace N m) = Inr data" "nn_newreq N ep = None" "nn_do N (request_of c ep data) (cs_world st) = (r, w1)"
      "doSend W N ep m st = (res, st\<lparr>cs_client := c', cs_world := w1,
         cs_sent := cs_sent st @ [(request_of c ep data, nn_now N (cs_world st), nn_now N w1)]\<rparr>)"
      "c' = (case r of Inl _ \<Rightarrow> markFailure (nn_now N w1) ep c
             | Inr resp \<Rightarrow> if hr_Status resp = 200 then markSuccess ep c else if hr_Status resp \<ge> 500 then markFailure (nn_now N w1) ep c else c)"
proof (cases "checkCircuit (nn_now N (cs_world st)) ep (cs_client st)")
  case (Inl e)
  then show ?thesis using refused by (simp add: doSend_def)
next
  case (Inr c)
  show ?thesis
  proof (cases "wi_enc W (with_trace N m)")
    case (Inl e)
    with Inr show ?thesis using unsent by (simp add: doSend_def)
  next
    case enc: (Inr data)
    show ?thesis
    proof (cases "nn_newreq N ep")
      case (Some e)
      with Inr enc show ?thesis using unsent by (simp add: doSend_def)
    next
      case None
      obtain r w1 where d: "nn_do N (request_of c ep data) (cs_world st) = (r, w1)" by fastforce
      let ?c = "case r of Inl _ \<Rightarrow> markFailure (nn_now N w1) ep c
          | Inr resp \<Rightarrow> if hr_Status resp = 200 then markSuccess ep c else if hr_Status resp \<ge> 500 then markFailure (nn_now N w1) ep c else c"
      have "snd (doSend W N ep m st) = st\<lparr>cs_client := ?c, cs_world := w1,
          cs_sent := cs_sent st @ [(request_of c ep data, nn_now N (cs_world st), nn_now N w1)]\<rparr>"
        by (cases r) (simp_all add: doSend_def Inr enc None d Let_def)
      then show ?thesis using sent [OF Inr enc None d, of "fst (doSend W N ep m st)" ?c] by (metis prod.collapse)
    qed
  qed
qed

lemma doSend_inv:
  assumes "failing N ep" "clock_ok N" "circuit_inv N ep st"
  shows "circuit_inv N ep (snd (doSend W N ep' m st))"
proof (cases rule: doSend_cases [of N st ep' W m])
  case (refused e)
  then show ?thesis using assms(3) by simp
next
  case (unsent c e)
  show ?thesis
  proof (cases "ep' = ep")
    case True
    then have "fail_count (cs_client st) ep \<ge> 5 \<and> c = (cs_client st)\<lparr>ac_failures := (ac_failures (cs_client st))(ep \<mapsto> 4)\<rparr> \<and>
        nn_now N (cs_world st) - last_failure (cs_client st) ep \<ge> 30000000000 \<or> c = cs_client st"
      using unsent(1) by (auto simp: checkCircuit_def split: if_splits)
    then show ?thesis using assms(3) unsent(2)
      by (auto simp: circuit_inv_def sent_to_def Let_def fail_count_def last_failure_def)
  next
    case False
    then show ?thesis using check_other [OF unsent(1), of ep] assms(3) unsent(2)
      by (simp add: circuit_inv_def sent_to_def Let_def)
  qed
next
  case (sent c data r w1 c' res)
  have mono: "nn_now N (cs_world st) \<le> nn_now N w1" using assms(2) sent(4) unfolding clock_ok_def by (metis snd_conv)
  have u: "hq_URL (request_of c ep' data) = ep'" by (simp add: request_of_def)
  show ?thesis
  proof (cases "ep' = ep")
    case False
    have "fail_count c' ep = fail_count (cs_client st) ep \<and> last_failure c' ep = last_failure (cs_client st) ep"
      unfolding sent(6) using check_other [OF sent(1), of ep] mark_other [of ep ep'] False by (auto split: sum.splits)
    then show ?thesis using assms(3) False mono u sent(5)
      by (auto simp: circuit_inv_def sent_to_def Let_def)
  next
    case True
    have f: "case r of Inl _ \<Rightarrow> True | Inr resp \<Rightarrow> hr_Status resp \<ge> 500"
      using assms(1) sent(4) u True unfolding failing_def by (metis fst_conv)
    then have c': "c' = markFailure (nn_now N w1) ep c" unfolding sent(6) using True by (auto split: sum.splits)
    let ?l = "sent_to ep st" and ?x = "(request_of c ep' data, nn_now N (cs_world st), nn_now N w1)"
    have l: "sent_to ep (snd (doSend W N ep' m st)) = ?l @ [?x]" using sent(5) u True by (simp add: sent_to_def)
    have key: "fail_count c ep = int (min 4 (length ?l)) \<and>
        (5 \<le> length ?l \<longrightarrow> snd (snd (last ?l)) + 30000000000 \<le> nn_now N (cs_world st))"
    proof (cases "fail_count (cs_client st) ep \<ge> 5")
      case ge: True
      then have "c = (cs_client st)\<lparr>ac_failures := (ac_failures (cs_client st))(ep \<mapsto> 4)\<rparr>"
        "nn_now N (cs_world st) - last_failure (cs_client st) ep \<ge> 30000000000"
        using sent(1) True by (auto simp: checkCircuit_def split: if_splits)
      moreover have "length ?l \<ge> 5 \<and> last_failure (cs_client st) ep = snd (snd (last ?l))"
        using assms(3) ge by (auto simp: circuit_inv_def Let_def)
      ultimately show ?thesis by (simp add: fail_count_def)
    next
      case False
      then have "c = cs_client st" using sent(1) True by (simp add: checkCircuit_def)
      then show ?thesis using assms(3) False by (auto simp: circuit_inv_def Let_def)
    qed
    have "spaced (?l @ [?x])" by (rule spaced_snoc) (use assms(3) key in \<open>auto simp: circuit_inv_def\<close>)
    then show ?thesis using key sent(5) l by (auto simp: circuit_inv_def Let_def c')
  qed
qed

lemma attempts_inv:
  assumes "failing N ep" "clock_ok N" "circuit_inv N ep st" "\<forall>(ep', g, m) \<in> set xs. \<forall>w. nn_now N w \<le> nn_now N (g w)"
  shows "circuit_inv N ep (attempts W N xs st)"
  using assms(3,4)
proof (induction xs arbitrary: st)
  case (Cons x xs)
  obtain ep' g m where x: "x = (ep', g, m)" by (cases x)
  have "circuit_inv N ep (st\<lparr>cs_world := g (cs_world st)\<rparr>)"
    using Cons.prems by (fastforce simp: circuit_inv_def sent_to_def Let_def x intro: order_trans)
  from Cons.IH [OF doSend_inv [OF assms(1,2) this]] show ?case using Cons.prems(2) by (simp add: x)
qed simp

section \<open>The contract between client and endpoint\<close>

text \<open>The network brings requests to the endpoint and responses back.\<close>

definition forwards :: "'w net \<Rightarrow> (http_request \<Rightarrow> 'w \<Rightarrow> http_response \<times> 'w) \<Rightarrow> bool" where
  "forwards N serve \<longleftrightarrow> (\<forall>rq w. nn_do N rq w = (Inr (fst (serve rq w)), snd (serve rq w)))"

locale guarded_endpoint =
  fixes serve :: "http_request \<Rightarrow> 'w \<Rightarrow> http_response \<times> 'w" and token :: string
  assumes stranger: "token \<noteq> [] \<Longrightarrow> hq_Method rq = ''POST'' \<Longrightarrow> hq_Authorization rq \<noteq> ''Bearer '' @ token \<Longrightarrow>
      \<exists>b. serve rq w = (\<lparr>hr_Status = 401, hr_Body = b\<rparr>, w)"
begin

lemma wrong_token_once:
  assumes "forwards N serve" "token \<noteq> []" "ac_AuthToken (cs_client st) \<noteq> token" "fail_count (cs_client st) ep < 5"
    "wi_enc W (with_trace N m) = Inr data" "nn_newreq N ep = None" "0 < n"
  shows "\<exists>b. SendWithRetry W N ep m n st =
    (Inl (remote_error \<lparr>hr_Status = 401, hr_Body = b\<rparr>),
     st\<lparr>cs_sent := cs_sent st @ [(request_of (cs_client st) ep data, nn_now N (cs_world st), nn_now N (cs_world st))]\<rparr>)"
proof -
  have h: "hq_Method (request_of (cs_client st) ep data) = ''POST''" "hq_Authorization (request_of (cs_client st) ep data) \<noteq> ''Bearer '' @ token"
    using assms(3) by (auto simp: request_of_def)
  obtain b where b: "serve (request_of (cs_client st) ep data) (cs_world st) = (\<lparr>hr_Status = 401, hr_Body = b\<rparr>, cs_world st)"
    using stranger [OF assms(2) h] by blast
  let ?st = "st\<lparr>cs_sent := cs_sent st @ [(request_of (cs_client st) ep data, nn_now N (cs_world st), nn_now N (cs_world st))]\<rparr>"
  have d: "doSend W N ep m st = (Inl (remote_error \<lparr>hr_Status = 401, hr_Body = b\<rparr>), ?st)"
    using assms(1,4,5,6) b by (simp add: doSend_def checkCircuit_def forwards_def Let_def)
  have "show_int 401 = ''401''" by (simp add: show_int_def show_nat.simps char_of_eq_iff take_bit_eq_mod)
  then have "err_text (remote_error \<lparr>hr_Status = 401, hr_Body = b\<rparr>) = ''a2a: remote error ('' @ ''status 401'' @ ''): '' @ b"
    by (simp add: remote_error_def)
  then have "no_retry (remote_error \<lparr>hr_Status = 401, hr_Body = b\<rparr>)" by (metis no_retry_def sublist_appendI)
  moreover obtain k where "nat n = Suc k" using assms(7) by (cases "nat n") auto
  ultimately show ?thesis using d by (auto simp: SendWithRetry_def intro!: exI [of _ b])
qed

end

interpretation a2a_server: guarded_endpoint "handleMessage W s" "sv_AuthToken s"
  by standard (simp add: handleMessage_def http_Error_def)

section \<open>Delegation over the network\<close>

text \<open>A message survives the wire, alone and followed by a line break.\<close>

definition carries :: "wire \<Rightarrow> A2AMessage \<Rightarrow> bool" where
  "carries W m \<longleftrightarrow>
     (\<exists>t. wi_enc W m = Inr t \<and> wi_dec W t = Some (norm_message m) \<and> wi_dec W (t @ [CHR 0x0A]) = Some (norm_message m))"

definition task_reply :: "(gvalue \<Rightarrow> string) \<Rightarrow> 'w a2a_agent \<Rightarrow> A2AMessage \<Rightarrow> gvalue result \<Rightarrow> 'w \<Rightarrow> A2AMessage" where
  "task_reply fmt_v a q r w =
     reply_message a q A2AResponse ''res'' ''delegate_task_response''
       (MarshalTaskResponse \<lparr>ts_Result = fmt_value fmt_v r, ts_Success = is_ok r, ts_Error = (case r of Inl e \<Rightarrow> err_text e | Inr _ \<Rightarrow> [])\<rparr>)
       (aa_now a w)"

lemma serve_task:
  assumes "hq_Method rq = ''POST''" "token \<noteq> [] \<longrightarrow> hq_Authorization rq = ''Bearer '' @ token" "wi_dec W (hq_Body rq) = Some q"
    "ms_Action q = ''delegate_task''" "UnmarshalTaskRequest W (ms_Payload q) = Inr req" "aa_run a False (tr_Description req) w = (toks, r, w1)"
    "carries W (task_reply fmt_v a q r w1)"
  shows "\<exists>t. handleMessage W (NewA2AServer port (setupA2A_router W fmt_v a) token) rq w = (\<lparr>hr_Status = 200, hr_Body = t\<rparr>, w1) \<and>
    wi_dec W t = Some (norm_message (task_reply fmt_v a q r w1))"
proof -
  have "Route (setupA2A_router W fmt_v a) False q w = ([], Inr (Some (task_reply fmt_v a q r w1)), w1)"
    using assms(4-6) by (simp add: Route_def setupA2A_router_def Handle_def NewA2ARouter_def HandleA2AMessage_def task_reply_def Let_def)
  then show ?thesis using assms(1,2,3,7) by (auto simp: handleMessage_def NewA2AServer_def carries_def)
qed

lemma remote_execute:
  assumes s: "s = NewA2AServer port (setupA2A_router W fmt_v a) (ac_AuthToken (cs_client st))" "forwards N (handleMessage W s)"
    and ep: "nn_newreq N (ac_Endpoint (ra_Card ra)) = None" "fail_count (cs_client st) (ac_Endpoint (ra_Card ra)) < 5"
    and q: "q = with_trace N (delegate_message W ra input (nn_now N (cs_world st)))" "carries W q" "wi_unrfc W (wi_rfc W 0) = Some 0"
    and run: "aa_run a False input (cs_world st) = (toks, r, w1)" "carries W (task_reply fmt_v a q r w1)"
  shows "\<exists>x. ra_Execute W N ra input options st =
    (case r of Inl e \<Rightarrow> Inl (EMsg (''remote task failed: '' @ err_text e)) | Inr v \<Rightarrow> Inr (VString (fmt_v v)),
     st\<lparr>cs_client := markSuccess (ac_Endpoint (ra_Card ra)) (cs_client st), cs_world := w1, cs_sent := cs_sent st @ [x]\<rparr>)"
proof -
  let ?ep = "ac_Endpoint (ra_Card ra)"
  obtain data where data: "wi_enc W q = Inr data" "wi_dec W data = Some (norm_message q)" using q(2) by (auto simp: carries_def)
  have nq: "norm_message q = q"
    by (simp add: q(1) norm_message_def with_trace_def delegate_message_def split: option.split)
  have act: "ms_Action q = ''delegate_task''" by (simp add: q(1) with_trace_def delegate_message_def split: option.split)
  have pl: "UnmarshalTaskRequest W (ms_Payload q) =
      Inr \<lparr>tr_Description = input, tr_ExpectedOutput = [], tr_Context = [], tr_Priority = 0, tr_Deadline = 0, tr_Metadata = []\<rparr>"
    using task_request.unmarshal_marshal [of W "\<lparr>tr_Description = input, tr_ExpectedOutput = [], tr_Context = [], tr_Priority = 0,
        tr_Deadline = 0, tr_Metadata = []\<rparr>"] q(3)
    by (simp add: q(1) with_trace_def delegate_message_def valid_request_def canon_request_def split: option.split)
  let ?rq = "request_of (cs_client st) ?ep data"
  obtain t where t: "handleMessage W s ?rq (cs_world st) = (\<lparr>hr_Status = 200, hr_Body = t\<rparr>, w1)"
    "wi_dec W t = Some (norm_message (task_reply fmt_v a q r w1))"
    using serve_task [of ?rq "ac_AuthToken (cs_client st)" W q _ a "cs_world st" toks r w1 fmt_v port, OF _ _ _ act pl _ run(2)]
      data(2) run(1) by (auto simp: request_of_def nq s(1))
  let ?x = "(?rq, nn_now N (cs_world st), nn_now N w1)"
  have d: "doSend W N ?ep (delegate_message W ra input (nn_now N (cs_world st))) st =
      (Inr (norm_message (task_reply fmt_v a q r w1)),
       st\<lparr>cs_client := markSuccess ?ep (cs_client st), cs_world := w1, cs_sent := cs_sent st @ [?x]\<rparr>)"
    using s(2) ep data(1) t by (simp add: doSend_def checkCircuit_def forwards_def q(1) Let_def)
  have "UnmarshalTaskResponse (ms_Payload (norm_message (task_reply fmt_v a q r w1))) =
      Inr \<lparr>ts_Result = fmt_value fmt_v r, ts_Success = is_ok r, ts_Error = (case r of Inl e \<Rightarrow> err_text e | Inr _ \<Rightarrow> [])\<rparr>"
    unfolding norm_message_def task_reply_def reply_message_def by (simp add: task_response.unmarshal_marshal [OF TrueI])
  then show ?thesis using d
    by (cases r) (auto simp: ra_Execute_def Send_def SendWithRetry_def numeral_3_eq_3 fmt_value_def)
qed

section \<open>Properties\<close>

text \<open>
  A failing endpoint is spared. Whatever messages a client sends, to whatever endpoints and with whatever
  pauses, if an endpoint only fails (by network errors or server errors), then from the sixth request on each
  request to it starts at least 30 seconds after the previous one failed.
\<close>

theorem failing_endpoint_rate:
  assumes "failing N ep" "clock_ok N" "\<forall>(ep', g, m) \<in> set xs. \<forall>w. nn_now N w \<le> nn_now N (g w)"
    "5 \<le> i" "i < length (sent_to ep (attempts W N xs \<lparr>cs_client = NewA2AClient token, cs_world = w0, cs_sent = []\<rparr>))"
  shows "snd (snd (sent_to ep (attempts W N xs \<lparr>cs_client = NewA2AClient token, cs_world = w0, cs_sent = []\<rparr>) ! (i - 1))) + 30000000000
    \<le> fst (snd (sent_to ep (attempts W N xs \<lparr>cs_client = NewA2AClient token, cs_world = w0, cs_sent = []\<rparr>) ! i))"
proof -
  have "circuit_inv N ep \<lparr>cs_client = NewA2AClient token, cs_world = w0, cs_sent = []\<rparr>"
    by (simp add: circuit_inv_def sent_to_def spaced_def NewA2AClient_def fail_count_def)
  from attempts_inv [OF assms(1,2) this assms(3)] show ?thesis
    using assms(4,5) by (simp add: circuit_inv_def spaced_def)
qed


text \<open>
  Strangers do not get in. A client whose token is not the one of the server sends one request, gets an
  error without a retry, and the server runs no handler: the world is as before.
\<close>

theorem stranger_kept_out:
  assumes "forwards N (handleMessage W s)" "sv_AuthToken s \<noteq> []" "ac_AuthToken (cs_client st) \<noteq> sv_AuthToken s"
    "fail_count (cs_client st) ep < 5" "wi_enc W (with_trace N m) = Inr data" "nn_newreq N ep = None"
  shows "\<exists>b x. Send W N ep m st = (Inl (remote_error \<lparr>hr_Status = 401, hr_Body = b\<rparr>), st\<lparr>cs_sent := cs_sent st @ [x]\<rparr>)"
  using a2a_server.wrong_token_once [OF assms, of 3] unfolding Send_def by auto

text \<open>The half-open state of the comment ("allow one request") lets every request through until one fails.\<close>

lemma half_open_admits_all:
  assumes "checkCircuit t ep c = Inr c'"
  shows "\<exists>c''. checkCircuit t' ep c' = Inr c'' \<and> fail_count c'' ep = fail_count c' ep"
  using assms by (auto simp: checkCircuit_def fail_count_def split: if_splits)

text \<open>The client sends no origin with a stream, and the server refuses such a handshake.\<close>

lemma stream_refused_by_own_server:
  "handleWebSocket W allowed upgrade s ((request_of c u t)\<lparr>hq_Method := ''GET''\<rparr>) w = ([], w)"
  by (simp add: handleWebSocket_def CheckOrigin_def request_of_def)

section \<open>Witnesses\<close>

text \<open>A server that always fails; each request takes a second, and each attempt comes a second after the last.\<close>

definition wit_net :: "int net" where
  "wit_net =
     \<lparr>nn_now = (\<lambda>w. w), nn_span = None, nn_newreq = (\<lambda>_. None),
      nn_do = (\<lambda>rq w. (Inr \<lparr>hr_Status = 503, hr_Body = []\<rparr>, w + 1000000000)), nn_backoff = (\<lambda>d w. (None, w + d))\<rparr>"

definition wit_wire :: wire where
  "wit_wire = \<lparr>wi_enc = (\<lambda>m. Inr ''m''), wi_dec = (\<lambda>_. None), wi_rfc = (\<lambda>_. []), wi_unrfc = (\<lambda>_. Some 0)\<rparr>"

definition wit_msg :: A2AMessage where
  "wit_msg = status_message [] [] 0"

definition wit_attempts :: "int cst" where
  "wit_attempts = attempts wit_wire wit_net (replicate 7 (''u'', \<lambda>w. w + 1000000000, wit_msg) @ [(''u'', \<lambda>w. w + 40000000000, wit_msg)])
     \<lparr>cs_client = NewA2AClient [], cs_world = 0, cs_sent = []\<rparr>"

lemma wit_attempts_sent:
  "map snd (sent_to ''u'' wit_attempts) =
    [(1000000000, 2000000000), (3000000000, 4000000000), (5000000000, 6000000000), (7000000000, 8000000000), (9000000000, 10000000000),
     (52000000000, 53000000000)]"
  by (simp add: wit_attempts_def sent_to_def wit_net_def wit_wire_def doSend_def checkCircuit_def markFailure_def NewA2AClient_def
      fail_count_def last_failure_def request_of_def Let_def numeral_eq_Suc)

theorem failing_endpoint_rate_witness:
  "length (sent_to ''u'' wit_attempts) = 6 \<and> snd (snd (sent_to ''u'' wit_attempts ! 4)) + 30000000000 \<le> fst (snd (sent_to ''u'' wit_attempts ! 5))"
proof -
  have l: "length (sent_to ''u'' wit_attempts) = 6" using arg_cong [OF wit_attempts_sent, of length] by simp
  have f: "failing wit_net ''u''" "clock_ok wit_net" by (simp_all add: failing_def clock_ok_def wit_net_def)
  show ?thesis
    using failing_endpoint_rate [OF f, of _ 5 wit_wire "[]" 0] l unfolding wit_attempts_def by (simp add: wit_net_def)
qed

definition wit_agent :: "int a2a_agent" where
  "wit_agent =
     \<lparr>aa_ID = ''a'', aa_Role = ''r'', aa_run = (\<lambda>_ i w. ([], Inr (VString (i @ i)), w + 1)), aa_metrics = (\<lambda>_. []), aa_uptime = (\<lambda>_. []),
      aa_now = (\<lambda>w. w)\<rparr>"

definition wit_adapter :: RemoteAgentAdapter where
  "wit_adapter =
     \<lparr>ra_Card = \<lparr>ac_ID = ''a'', ac_Name = [], ac_Role = [], ac_Description = [], ac_Capabilities = [], ac_Endpoint = ''u'', ac_Version = [],
        ac_Metadata = Map.empty, ac_CreatedAt = 0\<rparr>, ra_FromID = ''b''\<rparr>"

definition wit_fmt :: "gvalue \<Rightarrow> string" where
  "wit_fmt v = (case v of VString s \<Rightarrow> s | _ \<Rightarrow> [])"

definition wit_q :: A2AMessage where
  "wit_q = delegate_message wit_wire wit_adapter ''x'' 5"

definition wit_r :: A2AMessage where
  "wit_r = task_reply wit_fmt wit_agent wit_q (Inr (VString ''xx'')) 6"

definition wit_codec :: wire where
  "wit_codec = wit_wire\<lparr>wi_enc := \<lambda>m. Inr (if ms_Type m = A2ARequest then ''q'' else ''r''),
     wi_dec := \<lambda>t. if prefix ''q'' t then Some wit_q else Some wit_r\<rparr>"

definition wit_server :: "int A2AServer" where
  "wit_server = NewA2AServer 80 (setupA2A_router wit_codec wit_fmt wit_agent) ''k''"

definition wit_link :: "int net" where
  "wit_link = wit_net\<lparr>nn_do := \<lambda>rq w. (Inr (fst (handleMessage wit_codec wit_server rq w)), snd (handleMessage wit_codec wit_server rq w))\<rparr>"

definition wit_start :: "string \<Rightarrow> int cst" where
  "wit_start token = \<lparr>cs_client = NewA2AClient token, cs_world = 5, cs_sent = []\<rparr>"

lemma wit_link_simps: "nn_newreq wit_link ep = None" "nn_now wit_link w = w" "nn_span wit_link = None"
    "fail_count (cs_client (wit_start k)) ep = 0" "forwards wit_link (handleMessage wit_codec wit_server)"
    "ac_AuthToken (cs_client (wit_start k)) = k" "cs_world (wit_start k) = 5"
  by (simp_all add: wit_link_def wit_net_def wit_start_def NewA2AClient_def fail_count_def forwards_def)

lemma wit_q_again: "delegate_message wit_codec wit_adapter ''x'' 5 = wit_q"
  by (simp add: wit_q_def delegate_message_def MarshalTaskRequest_def wit_codec_def wit_wire_def)

lemma wit_carries: "carries wit_codec wit_q" "carries wit_codec wit_r"
  by (simp_all add: carries_def wit_codec_def norm_message_def wit_q_def wit_r_def delegate_message_def task_reply_def reply_message_def)


theorem stranger_kept_out_witness:
  "\<exists>e st. Send wit_codec wit_link ''u'' wit_msg (wit_start ''wrong'') = (Inl e, st) \<and> cs_world st = 5 \<and> length (cs_sent st) = 1"
proof -
  obtain data where d: "wi_enc wit_codec (with_trace wit_link wit_msg) = Inr data" by (simp add: wit_codec_def)
  have t: "sv_AuthToken wit_server \<noteq> []" "ac_AuthToken (cs_client (wit_start ''wrong'')) \<noteq> sv_AuthToken wit_server"
    "fail_count (cs_client (wit_start ''wrong'')) ''u'' < 5"
    by (simp_all add: wit_link_simps wit_server_def NewA2AServer_def)
  obtain b x where "Send wit_codec wit_link ''u'' wit_msg (wit_start ''wrong'') =
      (Inl (remote_error \<lparr>hr_Status = 401, hr_Body = b\<rparr>), (wit_start ''wrong'')\<lparr>cs_sent := cs_sent (wit_start ''wrong'') @ [x]\<rparr>)"
    using stranger_kept_out [OF wit_link_simps(5) t d wit_link_simps(1)] by blast
  then show ?thesis by (simp add: wit_start_def)
qed

end
