(* ===== verification/MCP_Server.thy ===== *)
theory MCP_Server
  imports A2A_Protocol
begin

text \<open>
  The Model Context Protocol, \<^verbatim>\<open>pkg/protocols/mcp.go\<close> and the bridges \<^verbatim>\<open>mcp_bridge.go\<close> and
  \<^verbatim>\<open>mcp_bridge_server.go\<close>: the server's dispatch, the client with its HTTP transport, tools of the framework served to others, tools of
  other servers used as local tools, and agents offered as tools. The locale \<open>mcp_transport\<close> is the interface between client and transport.

  JSON values are \<open>gvalue\<close>; their text, of type \<open>'j\<close>, is a parameter. Event streams of the server and logging are left out, the text
  transports are in \<open>MCP_Transport\<close>.
\<close>

section \<open>Types and their JSON\<close>

record MCPToolDefinition =
  md_Name :: string
  md_Description :: string
  md_InputSchema :: "(string \<times> gvalue) list option"

record MCPResourceDefinition =
  rd_URI :: string
  rd_Name :: string
  rd_Description :: string
  rd_MimeType :: string

record MCPResourceContent =
  rc_URI :: string
  rc_MimeType :: string
  rc_Text :: string
  rc_Blob :: string

record MCPContent =
  mc_Type :: string
  mc_Text :: string

record MCPToolResult =
  mr_Content :: "MCPContent list"
  mr_IsError :: bool

definition text_result :: "string \<Rightarrow> bool \<Rightarrow> MCPToolResult" where
  "text_result t err = \<lparr>mr_Content = [\<lparr>mc_Type = ''text'', mc_Text = t\<rparr>], mr_IsError = err\<rparr>"

definition omit_empty :: "string \<Rightarrow> string \<Rightarrow> (string \<times> gvalue) list" where
  "omit_empty k s = (if s = [] then [] else [(k, VString s)])"

definition json_content :: "MCPContent \<Rightarrow> gvalue" where
  "json_content c = VMap ((''type'', VString (mc_Type c)) # omit_empty ''text'' (mc_Text c))"

definition json_result :: "MCPToolResult option \<Rightarrow> gvalue" where
  "json_result r =
     (case r of
        None \<Rightarrow> VNil
      | Some x \<Rightarrow> VMap ((''content'', VList (map json_content (mr_Content x))) # (if mr_IsError x then [(''isError'', VBool True)] else [])))"

definition json_tool :: "MCPToolDefinition \<Rightarrow> gvalue" where
  "json_tool d =
     VMap [(''name'', VString (md_Name d)), (''description'', VString (md_Description d)),
       (''inputSchema'', case md_InputSchema d of None \<Rightarrow> VNil | Some m \<Rightarrow> VMap m)]"

definition json_resource :: "MCPResourceDefinition \<Rightarrow> gvalue" where
  "json_resource d =
     VMap ([(''uri'', VString (rd_URI d)), (''name'', VString (rd_Name d))] @ omit_empty ''description'' (rd_Description d) @
       omit_empty ''mimeType'' (rd_MimeType d))"

text \<open>Decoding into a struct: an object, or null for the zero value; anything else is an error.\<close>

definition bad_json :: goerr where
  "bad_json = EMsg ''json: cannot unmarshal''"

definition as_struct :: "gvalue \<Rightarrow> gmap option" where
  "as_struct v = (case v of VNil \<Rightarrow> Some Map.empty | VMap kvs \<Rightarrow> Some (map_of kvs) | _ \<Rightarrow> None)"

definition as_list :: "(gvalue \<Rightarrow> 'a option) \<Rightarrow> gvalue \<Rightarrow> 'a list option" where
  "as_list f v = (case v of VList vs \<Rightarrow> those (map f vs) | _ \<Rightarrow> None)"

definition okay :: "'a result \<Rightarrow> 'a option" where
  "okay r = (case r of Inl _ \<Rightarrow> None | Inr x \<Rightarrow> Some x)"

definition content_of :: "gvalue \<Rightarrow> MCPContent option" where
  "content_of v =
     (case as_struct v of
        None \<Rightarrow> None
      | Some m \<Rightarrow>
          (case (field m ''type'' [] as_string, field m ''text'' [] as_string) of
             (Inr a, Inr b) \<Rightarrow> Some \<lparr>mc_Type = a, mc_Text = b\<rparr>
           | _ \<Rightarrow> None))"

definition result_of :: "gvalue \<Rightarrow> MCPToolResult option" where
  "result_of v =
     (case as_struct v of
        None \<Rightarrow> None
      | Some m \<Rightarrow>
          (case (field m ''content'' [] (as_list content_of), field m ''isError'' False as_bool) of
             (Inr cs, Inr b) \<Rightarrow> Some \<lparr>mr_Content = cs, mr_IsError = b\<rparr>
           | _ \<Rightarrow> None))"

definition as_schema :: "gvalue \<Rightarrow> (string \<times> gvalue) list option option" where
  "as_schema v = (case v of VMap kvs \<Rightarrow> Some (Some kvs) | _ \<Rightarrow> None)"

definition tool_of :: "gvalue \<Rightarrow> MCPToolDefinition option" where
  "tool_of v =
     (case as_struct v of
        None \<Rightarrow> None
      | Some m \<Rightarrow>
          (case (field m ''name'' [] as_string, field m ''description'' [] as_string, field m ''inputSchema'' None as_schema) of
             (Inr a, Inr b, Inr c) \<Rightarrow> Some \<lparr>md_Name = a, md_Description = b, md_InputSchema = c\<rparr>
           | _ \<Rightarrow> None))"

definition resource_of :: "gvalue \<Rightarrow> MCPResourceDefinition option" where
  "resource_of v =
     (case as_struct v of
        None \<Rightarrow> None
      | Some m \<Rightarrow>
          (case (field m ''uri'' [] as_string, field m ''name'' [] as_string, field m ''description'' [] as_string, field m ''mimeType'' [] as_string) of
             (Inr a, Inr b, Inr c, Inr d) \<Rightarrow> Some \<lparr>rd_URI = a, rd_Name = b, rd_Description = c, rd_MimeType = d\<rparr>
           | _ \<Rightarrow> None))"

definition content_item_of :: "gvalue \<Rightarrow> MCPResourceContent option" where
  "content_item_of v =
     (case as_struct v of
        None \<Rightarrow> None
      | Some m \<Rightarrow>
          (case (field m ''uri'' [] as_string, field m ''mimeType'' [] as_string, field m ''text'' [] as_string, field m ''blob'' [] as_string) of
             (Inr a, Inr b, Inr c, Inr d) \<Rightarrow> Some \<lparr>rc_URI = a, rc_MimeType = b, rc_Text = c, rc_Blob = d\<rparr>
           | _ \<Rightarrow> None))"

text \<open>A struct with one list field.\<close>

definition list_field :: "string \<Rightarrow> (gvalue \<Rightarrow> 'a option) \<Rightarrow> gvalue \<Rightarrow> 'a list result" where
  "list_field k f v =
     (case as_struct v of None \<Rightarrow> Inl bad_json | Some m \<Rightarrow> field m k [] (as_list f))"

section \<open>Server\<close>

type_synonym 'w MCPToolHandler = "gmap \<Rightarrow> 'w \<Rightarrow> MCPToolResult option result \<times> 'w"

text \<open>The maps are lists with distinct keys, in the order of the next iteration.\<close>

record 'w MCPServer =
  ms_tools :: "(string \<times> MCPToolDefinition \<times> 'w MCPToolHandler) list"
  ms_resources :: "(string \<times> MCPResourceDefinition) list"

definition put_key :: "string \<Rightarrow> 'a \<Rightarrow> (string \<times> 'a) list \<Rightarrow> (string \<times> 'a) list" where
  "put_key k x l = filter (\<lambda>p. fst p \<noteq> k) l @ [(k, x)]"

definition NewMCPServer :: "'w MCPServer" where
  "NewMCPServer = \<lparr>ms_tools = [], ms_resources = []\<rparr>"

definition RegisterTool :: "MCPToolDefinition \<Rightarrow> 'w MCPToolHandler \<Rightarrow> 'w MCPServer \<Rightarrow> 'w MCPServer" where
  "RegisterTool d h s = s\<lparr>ms_tools := put_key (md_Name d) (d, h) (ms_tools s)\<rparr>"

definition RegisterResource :: "MCPResourceDefinition \<Rightarrow> 'w MCPServer \<Rightarrow> 'w MCPServer" where
  "RegisterResource d s = s\<lparr>ms_resources := put_key (rd_URI d) d (ms_resources s)\<rparr>"

definition writeResult :: "gvalue \<Rightarrow> gvalue \<Rightarrow> gvalue" where
  "writeResult i r = VMap [(''jsonrpc'', VString ''2.0''), (''id'', i), (''result'', r)]"

definition writeError :: "int \<Rightarrow> string \<Rightarrow> gvalue \<Rightarrow> gvalue" where
  "writeError code t i =
     VMap [(''jsonrpc'', VString ''2.0''), (''id'', i), (''error'', VMap [(''code'', VInt code), (''message'', VString t)])]"

definition initialize_result :: gvalue where
  "initialize_result =
     VMap [(''protocolVersion'', VString ''2024-11-05''),
       (''capabilities'', VMap [(''tools'', VMap [(''listChanged'', VBool True)]), (''resources'', VMap [(''listChanged'', VBool True)])]),
       (''serverInfo'', VMap [(''name'', VString ''gocrew-mcp''), (''version'', VString ''1.0.0'')])]"

definition handleToolsList :: "'w MCPServer \<Rightarrow> gvalue \<Rightarrow> gvalue" where
  "handleToolsList s i = writeResult i (VMap [(''tools'', VList (map (\<lambda>(k, d, h). json_tool d) (ms_tools s)))])"

definition handleResourcesList :: "'w MCPServer \<Rightarrow> gvalue \<Rightarrow> gvalue" where
  "handleResourcesList s i = writeResult i (VMap [(''resources'', VList (map (\<lambda>(k, d). json_resource d) (ms_resources s)))])"

definition handleToolCall :: "'w MCPServer \<Rightarrow> gvalue \<Rightarrow> gmap \<Rightarrow> 'w \<Rightarrow> gvalue \<times> 'w" where
  "handleToolCall s i params w =
     (let name = (case get_string params ''name'' of None \<Rightarrow> [] | Some n \<Rightarrow> n);
          args = (case params ''arguments'' of Some (VMap kvs) \<Rightarrow> map_of kvs | _ \<Rightarrow> Map.empty) in
      case map_of (ms_tools s) name of
        None \<Rightarrow> (writeError (- 32602) (''Tool not found: '' @ name) i, w)
      | Some (d, h) \<Rightarrow>
          (case h args w of
             (Inl e, w1) \<Rightarrow> (writeResult i (json_result (Some (text_result (err_text e) True))), w1)
           | (Inr r, w1) \<Rightarrow> (writeResult i (json_result r), w1)))"

text \<open>What is decoded of a request: its id, method and parameters.\<close>

definition rpc_request :: "gvalue \<Rightarrow> (gvalue \<times> string \<times> gmap) option" where
  "rpc_request v =
     (case as_struct v of
        None \<Rightarrow> None
      | Some m \<Rightarrow>
          (case (field m ''jsonrpc'' [] as_string, field m ''method'' [] as_string, field m ''params'' [] as_object) of
             (Inr _, Inr me, Inr ps) \<Rightarrow> Some (case m ''id'' of None \<Rightarrow> VNil | Some i \<Rightarrow> json_norm i, me, map_of ps)
           | _ \<Rightarrow> None))"

definition mcp_dispatch :: "'w MCPServer \<Rightarrow> gvalue \<Rightarrow> 'w \<Rightarrow> gvalue \<times> 'w" where
  "mcp_dispatch s v w =
     (case rpc_request v of
        None \<Rightarrow> (writeError (- 32700) ''Parse error'' (VInt 0), w)
      | Some (i, me, params) \<Rightarrow>
          if me = ''tools/list'' then (handleToolsList s i, w)
          else if me = ''tools/call'' then handleToolCall s i params w
          else if me = ''resources/list'' then (handleResourcesList s i, w)
          else if me = ''initialize'' then (writeResult i initialize_result, w)
          else (writeError (- 32601) (''Method not found: '' @ me) i, w))"

text \<open>
  JSON text: encoding, decoding, and the text of a plain message. The HTTP handler gets what could be read of the
  body and answers with a status and a body.
\<close>

record 'j jtext =
  jt_enc :: "gvalue \<Rightarrow> 'j"
  jt_dec :: "'j \<Rightarrow> gvalue option"
  jt_plain :: "string \<Rightarrow> 'j"

definition mcp_handleMessage :: "'j jtext \<Rightarrow> 'w MCPServer \<Rightarrow> string \<Rightarrow> 'j result \<Rightarrow> 'w \<Rightarrow> (int \<times> 'j) \<times> 'w" where
  "mcp_handleMessage J s meth body w =
     (if meth \<noteq> ''POST'' then ((405, jt_plain J ''Method not allowed''), w)
      else (case body of
              Inl _ \<Rightarrow> ((200, jt_enc J (writeError (- 32700) ''Parse error'' (VInt 0))), w)
            | Inr b \<Rightarrow>
                (case jt_dec J b of
                   None \<Rightarrow> ((200, jt_enc J (writeError (- 32700) ''Parse error'' (VInt 0))), w)
                 | Some v \<Rightarrow> (case mcp_dispatch s v w of (r, w1) \<Rightarrow> ((200, jt_enc J r), w1)))))"

text \<open>The routes other than the event stream.\<close>

definition mcp_Handler :: "'j jtext \<Rightarrow> 'w MCPServer \<Rightarrow> string \<Rightarrow> string \<Rightarrow> 'j result \<Rightarrow> 'w \<Rightarrow> (int \<times> 'j) \<times> 'w" where
  "mcp_Handler J s path meth body w =
     (if path = ''/message'' then mcp_handleMessage J s meth body w
      else if meth = ''POST'' then mcp_handleMessage J s meth body w
      else ((405, jt_plain J ''Use /sse for connection''), w))"

section \<open>Client\<close>

text \<open>A transport sends a method and parameters; the result is the raw value, if the response has one.\<close>

type_synonym 'w transport = "string \<Rightarrow> gvalue \<Rightarrow> 'w \<Rightarrow> gvalue option result \<times> 'w"

definition rpc_error :: "gvalue \<Rightarrow> (int \<times> string) option" where
  "rpc_error v =
     (case as_struct v of
        None \<Rightarrow> None
      | Some m \<Rightarrow>
          (case (field m ''code'' 0 as_int, field m ''message'' [] as_string) of (Inr c, Inr t) \<Rightarrow> Some (c, t) | _ \<Rightarrow> None))"

definition mcp_error :: "int \<Rightarrow> string \<Rightarrow> goerr" where
  "mcp_error c t = EMsg (''mcp error '' @ show_int c @ '': '' @ t)"

definition rpc_response :: "gvalue \<Rightarrow> gvalue option result" where
  "rpc_response v =
     (case as_struct v of
        None \<Rightarrow> Inl (EWrap ''mcp: failed to parse response: '' bad_json [])
      | Some m \<Rightarrow>
          (case field m ''error'' None (\<lambda>e. map_option Some (rpc_error e)) of
             Inl e \<Rightarrow> Inl (EWrap ''mcp: failed to parse response: '' e [])
           | Inr (Some (c, t)) \<Rightarrow> Inl (mcp_error c t)
           | Inr None \<Rightarrow> Inr (m ''result'')))"

definition rpc_call :: "int \<Rightarrow> string \<Rightarrow> gvalue \<Rightarrow> gvalue" where
  "rpc_call i me params = VMap [(''jsonrpc'', VString ''2.0''), (''id'', VInt i), (''method'', VString me), (''params'', params)]"

text \<open>The HTTP transport: \<open>newreq\<close> is the check of the URL, \<open>post\<close> the HTTP client with the read of the body.\<close>

definition http_SendRequest ::
  "'j jtext \<Rightarrow> ('w \<Rightarrow> int) \<Rightarrow> goerr option \<Rightarrow> ('j \<Rightarrow> 'w \<Rightarrow> 'j result \<times> 'w) \<Rightarrow> 'w transport" where
  "http_SendRequest J now newreq post me params w =
     (case newreq of
        Some e \<Rightarrow> (Inl e, w)
      | None \<Rightarrow>
          (case post (jt_enc J (rpc_call (now w) me params)) w of
             (Inl e, w1) \<Rightarrow> (Inl e, w1)
           | (Inr b, w1) \<Rightarrow>
               ((case jt_dec J b of
                   None \<Rightarrow> Inl (EWrap ''mcp: failed to parse response: '' bad_json [])
                 | Some v \<Rightarrow> rpc_response v), w1)))"

definition raw_value :: "gvalue option \<Rightarrow> gvalue result" where
  "raw_value r = (case r of None \<Rightarrow> Inl (EMsg ''unexpected end of JSON input'') | Some v \<Rightarrow> Inr v)"

definition json_call :: "string \<Rightarrow> (string \<times> gvalue) list \<Rightarrow> gvalue" where
  "json_call name args = VMap [(''name'', VString name), (''arguments'', VMap args)]"

definition CallTool :: "'w transport \<Rightarrow> string \<Rightarrow> (string \<times> gvalue) list \<Rightarrow> 'w \<Rightarrow> MCPToolResult result \<times> 'w" where
  "CallTool send name args w =
     (case send ''tools/call'' (json_call name args) w of
        (Inl e, w1) \<Rightarrow> (Inl e, w1)
      | (Inr raw, w1) \<Rightarrow>
          ((case raw_value raw of
              Inl e \<Rightarrow> Inl (EWrap ''mcp: failed to parse tool result: '' e [])
            | Inr v \<Rightarrow> (case result_of v of None \<Rightarrow> Inl (EWrap ''mcp: failed to parse tool result: '' bad_json []) | Some r \<Rightarrow> Inr r)), w1))"

definition send_list :: "'w transport \<Rightarrow> string \<Rightarrow> gvalue \<Rightarrow> string \<Rightarrow> (gvalue \<Rightarrow> 'a option) \<Rightarrow> 'w \<Rightarrow> 'a list result \<times> 'w" where
  "send_list send me params k f w =
     (case send me params w of
        (Inl e, w1) \<Rightarrow> (Inl e, w1)
      | (Inr raw, w1) \<Rightarrow> ((case raw_value raw of Inl e \<Rightarrow> Inl e | Inr v \<Rightarrow> list_field k f v), w1))"

definition ReadResource :: "'w transport \<Rightarrow> string \<Rightarrow> 'w \<Rightarrow> MCPResourceContent list result \<times> 'w" where
  "ReadResource send uri w = send_list send ''resources/read'' (VMap [(''uri'', VString uri)]) ''contents'' content_item_of w"

text \<open>The text of a prompt message.\<close>

definition message_text :: "gvalue \<Rightarrow> string option" where
  "message_text v =
     (case as_struct v of
        None \<Rightarrow> None
      | Some m \<Rightarrow>
          (case field m ''content'' Map.empty as_struct of
             Inl _ \<Rightarrow> None
           | Inr c \<Rightarrow> okay (field c ''text'' [] as_string)))"

definition GetPrompt :: "'w transport \<Rightarrow> string \<Rightarrow> (string \<times> string) list \<Rightarrow> 'w \<Rightarrow> string result \<times> 'w" where
  "GetPrompt send name args w =
     (case send_list send ''prompts/get'' (VMap [(''name'', VString name), (''arguments'', VMap (map (\<lambda>(k, v). (k, VString v)) args))])
             ''messages'' message_text w of
        (Inl e, w1) \<Rightarrow> (Inl e, w1)
      | (Inr [], w1) \<Rightarrow> (Inr [], w1)
      | (Inr (t # _), w1) \<Rightarrow> (Inr t, w1))"

definition listTools :: "'w transport \<Rightarrow> 'w \<Rightarrow> MCPToolDefinition list result \<times> 'w" where
  "listTools send w = send_list send ''tools/list'' (VMap []) ''tools'' tool_of w"

definition listResources :: "'w transport \<Rightarrow> 'w \<Rightarrow> MCPResourceDefinition list result \<times> 'w" where
  "listResources send w = send_list send ''resources/list'' (VMap []) ''resources'' resource_of w"

record MCPPromptDefinition =
  pd_Name :: string
  pd_Description :: string
  pd_Arguments :: "(string \<times> string \<times> bool) list"

definition argument_of :: "gvalue \<Rightarrow> (string \<times> string \<times> bool) option" where
  "argument_of v =
     (case as_struct v of
        None \<Rightarrow> None
      | Some m \<Rightarrow>
          (case (field m ''name'' [] as_string, field m ''description'' [] as_string, field m ''required'' False as_bool) of
             (Inr a, Inr b, Inr c) \<Rightarrow> Some (a, b, c)
           | _ \<Rightarrow> None))"

definition prompt_of :: "gvalue \<Rightarrow> MCPPromptDefinition option" where
  "prompt_of v =
     (case as_struct v of
        None \<Rightarrow> None
      | Some m \<Rightarrow>
          (case (field m ''name'' [] as_string, field m ''description'' [] as_string, field m ''arguments'' [] (as_list argument_of)) of
             (Inr a, Inr b, Inr c) \<Rightarrow> Some \<lparr>pd_Name = a, pd_Description = b, pd_Arguments = c\<rparr>
           | _ \<Rightarrow> None))"

definition listPrompts :: "'w transport \<Rightarrow> 'w \<Rightarrow> MCPPromptDefinition list result \<times> 'w" where
  "listPrompts send w =
     (case send ''prompts/list'' (VMap []) w of
        (Inl e, w1) \<Rightarrow> (Inr [], w1)
      | (Inr raw, w1) \<Rightarrow> ((case raw_value raw of Inl e \<Rightarrow> Inl e | Inr v \<Rightarrow> list_field ''prompts'' prompt_of v), w1))"

record MCPClient =
  mcl_Tools :: "MCPToolDefinition list"
  mcl_Resources :: "MCPResourceDefinition list"
  mcl_Prompts :: "MCPPromptDefinition list"

definition or_nil :: "'a list result \<Rightarrow> 'a list" where
  "or_nil r = (case r of Inl _ \<Rightarrow> [] | Inr xs \<Rightarrow> xs)"

definition mcp_Initialize :: "('w \<Rightarrow> goerr option \<times> 'w) \<Rightarrow> 'w transport \<Rightarrow> MCPClient \<Rightarrow> 'w \<Rightarrow> goerr option \<times> MCPClient \<times> 'w" where
  "mcp_Initialize start send c w =
     (case start w of
        (Some e, w1) \<Rightarrow> (Some e, c, w1)
      | (None, w1) \<Rightarrow>
          (case listTools send w1 of
             (Inl e, w2) \<Rightarrow> (Some (EWrap ''mcp: failed to list tools: '' e []), c, w2)
           | (Inr ts, w2) \<Rightarrow>
               (case listResources send w2 of (rs, w3) \<Rightarrow>
                case listPrompts send w3 of (ps, w4) \<Rightarrow>
                (None, \<lparr>mcl_Tools = ts, mcl_Resources = or_nil rs, mcl_Prompts = or_nil ps\<rparr>, w4))))"

section \<open>Bridges\<close>

record 'w gtool =
  gt_Name :: string
  gt_Description :: string
  gt_RequiresReview :: bool
  gt_Execute :: "gmap \<Rightarrow> 'w \<Rightarrow> string result \<times> 'w"

definition review_text :: "'w gtool \<Rightarrow> string" where
  "review_text t = ''tool '' @ [CHR 0x22] @ gt_Name t @ [CHR 0x22] @ '' requires human review and cannot be executed via MCP''"

definition tool_definition :: "'w gtool \<Rightarrow> MCPToolDefinition" where
  "tool_definition t =
     \<lparr>md_Name = gt_Name t,
      md_Description = gt_Description t @ (if gt_RequiresReview t
        then '' [Requires human review: this bridge rejects execution; obtain approval through the agent path.]'' else []),
      md_InputSchema = Some [(''type'', VString ''object''),
        (''properties'', VMap [(''input'', VMap [(''type'', VString ''object''), (''description'', VString ''Tool input parameters'')])])]\<rparr>"

definition tool_handler :: "'w gtool \<Rightarrow> 'w MCPToolHandler" where
  "tool_handler t params w =
     (if gt_RequiresReview t then (Inr (Some (text_result (review_text t) True)), w)
      else (case gt_Execute t params w of
              (Inl e, w1) \<Rightarrow> (Inr (Some (text_result (err_text e) True)), w1)
            | (Inr r, w1) \<Rightarrow> (Inr (Some (text_result r False)), w1)))"

definition WrapToolForMCP :: "'w gtool \<Rightarrow> MCPToolDefinition \<times> 'w MCPToolHandler" where
  "WrapToolForMCP t = (tool_definition t, tool_handler t)"

definition RegisterAllToolsOnMCPServer :: "'w gtool list \<Rightarrow> 'w MCPServer \<Rightarrow> 'w MCPServer" where
  "RegisterAllToolsOnMCPServer ts s = fold (\<lambda>t s. case WrapToolForMCP t of (d, h) \<Rightarrow> RegisterTool d h s) ts s"

definition adapter_Name :: "MCPToolDefinition \<Rightarrow> string" where
  "adapter_Name d = ''mcp:'' @ md_Name d"

definition adapter_Execute :: "'w transport \<Rightarrow> MCPToolDefinition \<Rightarrow> (string \<times> gvalue) list \<Rightarrow> 'w \<Rightarrow> string result \<times> 'w" where
  "adapter_Execute send d input w =
     (case CallTool send (md_Name d) input w of
        (Inl e, w1) \<Rightarrow> (Inl e, w1)
      | (Inr r, w1) \<Rightarrow> (Inr (concat (map mc_Text (filter (\<lambda>c. mc_Type c = ''text'') (mr_Content r)))), w1))"

definition resource_text :: "MCPResourceContent \<Rightarrow> string" where
  "resource_text c =
     (if rc_Text c \<noteq> [] then rc_Text c @ [CHR 0x0A]
      else if rc_Blob c \<noteq> [] then ''[Binary Data: '' @ rc_Blob c @ '']'' @ [CHR 0x0A] else [])"

definition resource_Execute :: "'w transport \<Rightarrow> MCPResourceDefinition \<Rightarrow> 'w \<Rightarrow> string result \<times> 'w" where
  "resource_Execute send d w =
     (case ReadResource send (rd_URI d) w of
        (Inl e, w1) \<Rightarrow> (Inl e, w1)
      | (Inr cs, w1) \<Rightarrow> (Inr (concat (map resource_text cs)), w1))"

text \<open>An agent as a tool: \<open>run\<close> is its \<^verbatim>\<open>Execute\<close>.\<close>

definition agent_handler :: "(gvalue \<Rightarrow> string) \<Rightarrow> (string \<Rightarrow> 'w \<Rightarrow> gvalue result \<times> 'w) \<Rightarrow> 'w MCPToolHandler" where
  "agent_handler fmt_v run params w =
     (let task = (case get_string params ''task'' of None \<Rightarrow> [] | Some t \<Rightarrow> t) in
      if task = [] then (Inl (EMsg ''task parameter is required''), w)
      else (case run task w of
              (Inl e, w1) \<Rightarrow> (Inl e, w1)
            | (Inr v, w1) \<Rightarrow> (Inr (Some (text_result (fmt_v v) False)), w1)))"

definition ExposeAgent ::
  "(gvalue \<Rightarrow> string) \<Rightarrow> (string \<Rightarrow> 'w \<Rightarrow> gvalue result \<times> 'w) \<Rightarrow> string \<Rightarrow> string \<Rightarrow> 'w MCPServer \<Rightarrow> 'w MCPServer" where
  "ExposeAgent fmt_v run role goal s =
     RegisterTool
       \<lparr>md_Name = ''ask_'' @ role, md_Description = ''Consult the '' @ role @ '' agent. Goal: '' @ goal,
        md_InputSchema = Some [(''type'', VString ''object''),
          (''properties'', VMap [(''task'', VMap [(''type'', VString ''string''), (''description'', VString ''The specific task or question for the agent.'')])]),
          (''required'', VStrings [''task''])]\<rparr>
       (agent_handler fmt_v run) s"

section \<open>What the wire preserves\<close>

definition text_ok :: "'j jtext \<Rightarrow> bool" where
  "text_ok J \<longleftrightarrow> (\<forall>v. jt_dec J (jt_enc J v) = Some (json_norm v))"

abbreviation norm_pairs_of :: "(string \<times> gvalue) list \<Rightarrow> (string \<times> gvalue) list" where
  "norm_pairs_of \<equiv> map (\<lambda>(k, v). (k, json_norm v))"

lemma those_map_Some: "(\<And>x. x \<in> set xs \<Longrightarrow> f x = Some (g x)) \<Longrightarrow> those (map f xs) = Some (map g xs)"
  by (induction xs) auto

lemma content_back: "content_of (json_norm (json_content c)) = Some c"
  by (cases c) (simp add: content_of_def json_content_def omit_empty_def as_struct_def field_def as_string_def)

lemma contents_back: "those (map (content_of \<circ> json_norm \<circ> json_norm \<circ> json_content) cs) = Some cs"
  using those_map_Some [of cs "content_of \<circ> json_norm \<circ> json_norm \<circ> json_content" id] content_back by simp

lemma result_back: "result_of (json_norm (json_result (Some r))) = Some r"
  by (cases r) (simp add: result_of_def json_result_def as_struct_def field_def as_list_def as_bool_def o_assoc contents_back)

definition norm_tool :: "MCPToolDefinition \<Rightarrow> MCPToolDefinition" where
  "norm_tool d = d\<lparr>md_InputSchema := map_option norm_pairs_of (md_InputSchema d)\<rparr>"

lemma tool_back: "tool_of (json_norm (json_tool d)) = Some (norm_tool d)"
  by (cases d) (simp add: tool_of_def json_tool_def as_struct_def field_def as_string_def as_schema_def norm_tool_def split: option.split)

lemma resource_back: "resource_of (json_norm (json_resource d)) = Some d"
  by (cases d) (simp add: resource_of_def json_resource_def omit_empty_def as_struct_def field_def as_string_def)

lemma list_back:
  assumes "\<And>x. x \<in> set xs \<Longrightarrow> f (json_norm (g x)) = Some (h x)"
  shows "list_field k f (json_norm (VMap [(k, VList (map g xs))])) = Inr (map h xs)"
  using assms by (simp add: list_field_def as_struct_def field_def as_list_def those_map_Some o_def)

lemma request_back: "rpc_request (json_norm (rpc_call i me (VMap ps))) = Some (VFloat (of_int i), me, map_of (norm_pairs_of ps))"
  by (simp add: rpc_request_def rpc_call_def as_struct_def field_def as_string_def as_object_def)

lemma response_back: "rpc_response (json_norm (writeResult i r)) = Inr (Some (json_norm r))"
  by (simp add: rpc_response_def writeResult_def as_struct_def field_def)

lemma error_back: "- (2 ^ 63) \<le> c \<Longrightarrow> c < 2 ^ 63 \<Longrightarrow> rpc_response (json_norm (writeError c t i)) = Inl (mcp_error c t)"
  by (simp add: rpc_response_def writeError_def rpc_error_def as_struct_def field_def as_int_def as_string_def)

section \<open>The contract of a transport\<close>

text \<open>
  A transport brings the call to a server and gives what its answer means. \<open>ok\<close> is the condition under which it does.
\<close>

locale mcp_transport =
  fixes send :: "'w transport" and serve :: "gvalue \<Rightarrow> 'w \<Rightarrow> gvalue \<times> 'w" and ok :: bool
  assumes delivers: "ok \<Longrightarrow> \<exists>i. send me params w =
      (rpc_response (json_norm (fst (serve (json_norm (rpc_call i me params)) w))), snd (serve (json_norm (rpc_call i me params)) w))"

locale mcp_link = mcp_transport send "mcp_dispatch s" ok for send :: "'w transport" and s :: "'w MCPServer" and ok :: bool
begin

lemma list_tools: "ok \<Longrightarrow> listTools send w = (Inr (map (\<lambda>(k, d, h). norm_tool d) (ms_tools s)), w)"
  using delivers [of "''tools/list''" "VMap []" w]
  by (auto simp: listTools_def send_list_def mcp_dispatch_def request_back handleToolsList_def response_back raw_value_def
      json_norm.simps(5) [symmetric] simp del: json_norm.simps intro!: list_back simp: tool_back split: prod.splits)

lemma list_resources: "ok \<Longrightarrow> listResources send w = (Inr (map snd (ms_resources s)), w)"
  using delivers [of "''resources/list''" "VMap []" w]
  by (auto simp: listResources_def send_list_def mcp_dispatch_def request_back handleResourcesList_def response_back raw_value_def
      simp del: json_norm.simps intro!: list_back simp: resource_back snd_def split: prod.splits)

lemma list_prompts: "ok \<Longrightarrow> listPrompts send w = (Inr [], w)"
  using delivers [of "''prompts/list''" "VMap []" w]
  by (auto simp: listPrompts_def mcp_dispatch_def request_back error_back simp del: json_norm.simps)

lemma read_resource: "ok \<Longrightarrow> ReadResource send uri w = (Inl (mcp_error (- 32601) ''Method not found: resources/read''), w)"
  using delivers [of "''resources/read''" "VMap [(''uri'', VString uri)]" w]
  by (auto simp: ReadResource_def send_list_def mcp_dispatch_def request_back error_back simp del: json_norm.simps)

lemma call_tool:
  assumes ok "map_of (ms_tools s) name = Some (d, h)" "h (map_of (norm_pairs_of args)) w = (r, w1)"
  shows "CallTool send name args w =
    (case r of Inl e \<Rightarrow> Inr (text_result (err_text e) True) | Inr None \<Rightarrow> Inr \<lparr>mr_Content = [], mr_IsError = False\<rparr> | Inr (Some x) \<Rightarrow> Inr x, w1)"
proof -
  have a: "get_string (map_of (norm_pairs_of [(''name'', VString name), (''arguments'', VMap args)])) ''name'' = Some name"
    "map_of (norm_pairs_of [(''name'', VString name), (''arguments'', VMap args)]) ''arguments'' = Some (VMap (norm_pairs_of args))"
    by (simp_all add: get_string_def)
  have z: "result_of (json_norm (json_result None)) = Some \<lparr>mr_Content = [], mr_IsError = False\<rparr>"
    by (simp add: json_result_def result_of_def as_struct_def field_def)
  obtain i where "send ''tools/call'' (json_call name args) w = (Inr (Some (json_norm (json_result
      (case r of Inl e \<Rightarrow> Some (text_result (err_text e) True) | Inr x \<Rightarrow> x)))), w1)"
    using delivers [OF assms(1), of "''tools/call''" "json_call name args" w] assms(2,3)
    by (auto simp: json_call_def mcp_dispatch_def request_back handleToolCall_def a Let_def response_back
        simp del: json_norm.simps list.map split: sum.splits)
  then show ?thesis by (auto simp: CallTool_def raw_value_def result_back z split: sum.splits option.splits)
qed

lemma initialize:
  "ok \<Longrightarrow> start w = (None, w1) \<Longrightarrow> mcp_Initialize start send c w =
    (None, \<lparr>mcl_Tools = map (\<lambda>(k, d, h). norm_tool d) (ms_tools s), mcl_Resources = map snd (ms_resources s), mcl_Prompts = []\<rparr>, w1)"
  by (simp add: mcp_Initialize_def list_tools list_resources list_prompts or_nil_def)

end

text \<open>The HTTP transport on the HTTP handler of the server.\<close>

definition to_server :: "'j jtext \<Rightarrow> 'w MCPServer \<Rightarrow> 'j \<Rightarrow> 'w \<Rightarrow> 'j result \<times> 'w" where
  "to_server J s b w = (case mcp_Handler J s ''/message'' ''POST'' (Inr b) w of ((status, body), w1) \<Rightarrow> (Inr body, w1))"

interpretation http: mcp_link "http_SendRequest J now None (to_server J s)" s "text_ok J"
proof
  fix me params w
  assume "text_ok J"
  then have d: "jt_dec J (jt_enc J v) = Some (json_norm v)" for v by (simp add: text_ok_def)
  show "\<exists>i. http_SendRequest J now None (to_server J s) me params w =
      (rpc_response (json_norm (fst (mcp_dispatch s (json_norm (rpc_call i me params)) w))), snd (mcp_dispatch s (json_norm (rpc_call i me params)) w))"
    by (rule exI [of _ "now w"])
      (simp add: http_SendRequest_def to_server_def mcp_Handler_def mcp_handleMessage_def d split: prod.splits)
qed

section \<open>Registered tools\<close>

lemma map_of_put_key [simp]: "map_of (put_key k x l) j = (if j = k then Some x else map_of l j)"
  by (simp add: put_key_def map_add_def map_of_filter_in split: option.split) (induction l; auto)

lemma put_key_keys: "map fst (put_key k x l) = filter (\<lambda>j. j \<noteq> k) (map fst l) @ [k]"
  by (induction l) (auto simp: put_key_def)

lemma put_key_new: "k \<notin> fst ` set l \<Longrightarrow> put_key k x l = l @ [(k, x)]"
  by (auto simp: put_key_def intro!: filter_True)

lemma register_all_tools:
  assumes "distinct (map gt_Name ts)"
  shows "map_of (ms_tools (RegisterAllToolsOnMCPServer ts s)) n =
    (case find (\<lambda>t. gt_Name t = n) ts of Some t \<Rightarrow> Some (WrapToolForMCP t) | None \<Rightarrow> map_of (ms_tools s) n)"
  using assms
proof (induction ts arbitrary: s)
  case (Cons t ts)
  have "find (\<lambda>u. gt_Name u = gt_Name t) ts = None" using Cons.prems by (auto simp: find_None_iff) (metis image_eqI)
  with Cons show ?case
    by (auto simp: RegisterAllToolsOnMCPServer_def WrapToolForMCP_def RegisterTool_def tool_definition_def split: option.split)
qed (simp add: RegisterAllToolsOnMCPServer_def)

lemma register_all_new:
  assumes "distinct (map gt_Name ts)" "\<forall>t \<in> set ts. gt_Name t \<notin> fst ` set (ms_tools s)"
  shows "ms_tools (RegisterAllToolsOnMCPServer ts s) = ms_tools s @ map (\<lambda>t. (gt_Name t, WrapToolForMCP t)) ts"
  using assms
proof (induction ts arbitrary: s)
  case (Cons t ts)
  let ?s = "RegisterTool (tool_definition t) (tool_handler t) s"
  have n: "ms_tools ?s = ms_tools s @ [(gt_Name t, WrapToolForMCP t)]"
    using Cons.prems(2) by (simp add: RegisterTool_def WrapToolForMCP_def tool_definition_def put_key_new)
  have "\<forall>u \<in> set ts. gt_Name u \<notin> fst ` set (ms_tools ?s)" using Cons.prems by (auto simp: n) (metis image_eqI)
  from Cons.IH [OF _ this] show ?case using Cons.prems(1) n
    by (simp add: RegisterAllToolsOnMCPServer_def WrapToolForMCP_def)
qed (simp add: RegisterAllToolsOnMCPServer_def)

lemma norm_tool_definition [simp]: "norm_tool (tool_definition t) = tool_definition t"
  by (simp add: norm_tool_def tool_definition_def)

section \<open>Properties\<close>


text \<open>
  A client discovers what a server registered. Initialising a client against a server that serves the tools of
  a registry and some resources succeeds without touching the world, and gives exactly the definitions of the
  tools, each once, the resources, and no prompts.
\<close>

theorem mcp_discovery:
  fixes s :: "'w MCPServer"
  assumes "text_ok J" "distinct (map gt_Name ts)" "start w = (None, w1)"
    and "s = RegisterAllToolsOnMCPServer ts (fold RegisterResource rs NewMCPServer)"
  shows "\<exists>c'. mcp_Initialize start (http_SendRequest J now None (to_server J s)) c w = (None, c', w1) \<and>
    set (mcl_Tools c') = tool_definition ` set ts \<and> distinct (map md_Name (mcl_Tools c')) \<and>
    (\<forall>r. r \<in> set (mcl_Resources c') \<longleftrightarrow> map_of (map (\<lambda>r. (rd_URI r, r)) (rev rs)) (rd_URI r) = Some r) \<and> mcl_Prompts c' = []"
proof -
  have r0: "ms_tools (fold RegisterResource rs s0) = ms_tools s0" for rs and s0 :: "'w MCPServer"
    by (induction rs arbitrary: s0) (simp_all add: RegisterResource_def)
  have r1: "ms_resources (RegisterAllToolsOnMCPServer ts s0) = ms_resources s0" for ts and s0 :: "'w MCPServer"
    by (induction ts arbitrary: s0) (simp_all add: RegisterAllToolsOnMCPServer_def RegisterTool_def WrapToolForMCP_def)
  have t: "ms_tools s = map (\<lambda>t. (gt_Name t, WrapToolForMCP t)) ts"
    using assms(2) by (simp add: assms(4) register_all_new r0 NewMCPServer_def)
  define R where "R = ms_resources s"
  have R: "R = ms_resources (fold RegisterResource rs (NewMCPServer :: 'w MCPServer))" by (simp add: R_def assms(4) r1)
  have inv: "distinct (map fst (ms_resources (fold RegisterResource rs (NewMCPServer :: 'w MCPServer)))) \<and>
      (\<forall>(k, r) \<in> set (ms_resources (fold RegisterResource rs (NewMCPServer :: 'w MCPServer))). k = rd_URI r) \<and>
      map_of (ms_resources (fold RegisterResource rs (NewMCPServer :: 'w MCPServer))) = map_of (map (\<lambda>r. (rd_URI r, r)) (rev rs))"
  proof (induction rs rule: rev_induct)
    case (snoc r rs)
    then show ?case
      by (auto simp: RegisterResource_def put_key_keys fun_eq_iff) (auto simp: put_key_def)
  qed (simp add: NewMCPServer_def)
  have res: "r \<in> set (map snd R) \<longleftrightarrow> map_of (map (\<lambda>r. (rd_URI r, r)) (rev rs)) (rd_URI r) = Some r" for r
  proof -
    have "r \<in> set (map snd R) \<longleftrightarrow> (rd_URI r, r) \<in> set R" using inv R by force
    also have "\<dots> \<longleftrightarrow> map_of R (rd_URI r) = Some r"
      by (rule map_of_eq_Some_iff [symmetric]) (use inv in \<open>simp add: R\<close>)
    also have "map_of R = map_of (map (\<lambda>r. (rd_URI r, r)) (rev rs))" unfolding R by (rule inv [THEN conjunct2, THEN conjunct2])
    finally show ?thesis .
  qed
  let ?c = "\<lparr>mcl_Tools = map (\<lambda>(k, d, h). norm_tool d) (ms_tools s), mcl_Resources = map snd (ms_resources s), mcl_Prompts = []\<rparr>"
  have tools: "mcl_Tools ?c = map tool_definition ts" by (simp add: t WrapToolForMCP_def o_def)
  have names: "map md_Name (map tool_definition ts) = map gt_Name ts" by (simp add: tool_definition_def)
  have "mcp_Initialize start (http_SendRequest J now None (to_server J s)) c w = (None, ?c, w1)"
    using http.initialize [of J start w w1 now s c] assms(1,3) by simp
  moreover have "distinct (map md_Name (mcl_Tools ?c))" unfolding tools names by (rule assms(2))
  moreover have "set (mcl_Tools ?c) = tool_definition ` set ts" unfolding tools by simp
  moreover have "mcl_Resources ?c = map snd R" by (simp add: R_def)
  ultimately show ?thesis using res by (intro exI [of _ ?c]) simp
qed

text \<open>A resource that the server lists cannot be read from it: the server has no such method.\<close>

lemma own_resources_unreadable:
  "text_ok J \<Longrightarrow> resource_Execute (http_SendRequest J now None (to_server J s)) d w = (Inl (mcp_error (- 32601) ''Method not found: resources/read''), w)"
  by (simp add: resource_Execute_def http.read_resource)

text \<open>An agent offered as a tool runs on the task; a call without a task is an error result.\<close>

lemma exposed_agent_called:
  assumes "text_ok J" "task \<noteq> []" "run task w = (Inr v, w1)"
  shows "CallTool (http_SendRequest J now None (to_server J (ExposeAgent fmt_v run role goal s))) (''ask_'' @ role) [(''task'', VString task)] w =
    (Inr (text_result (fmt_v v) False), w1)"
proof -
  have "agent_handler fmt_v run (map_of (norm_pairs_of [(''task'', VString task)])) w = (Inr (Some (text_result (fmt_v v) False)), w1)"
    using assms(2,3) by (simp add: agent_handler_def get_string_def)
  moreover obtain d where "map_of (ms_tools (ExposeAgent fmt_v run role goal s)) (''ask_'' @ role) = Some (d, agent_handler fmt_v run)"
    by (simp add: ExposeAgent_def RegisterTool_def)
  ultimately show ?thesis using http.call_tool [OF assms(1)] by fastforce
qed

section \<open>Witnesses\<close>

definition wit_text :: "gvalue jtext" where
  "wit_text = \<lparr>jt_enc = (\<lambda>v. v), jt_dec = (\<lambda>v. Some (json_norm v)), jt_plain = VString\<rparr>"

definition wit_tools :: "nat gtool list" where
  "wit_tools =
     [\<lparr>gt_Name = ''fails'', gt_Description = [], gt_RequiresReview = False, gt_Execute = (\<lambda>m w. (Inl (EMsg ''no''), Suc w))\<rparr>,
      \<lparr>gt_Name = ''review'', gt_Description = [], gt_RequiresReview = True, gt_Execute = (\<lambda>m w. (Inr [], Suc w))\<rparr>]"

lemma wit_text_ok: "text_ok wit_text" "distinct (map gt_Name wit_tools)"
  by (simp_all add: text_ok_def wit_text_def wit_tools_def)


theorem mcp_discovery_witness:
  "\<exists>c'. mcp_Initialize (\<lambda>w. (None, w))
      (http_SendRequest wit_text int None (to_server wit_text (RegisterAllToolsOnMCPServer wit_tools (fold RegisterResource [] NewMCPServer))))
      \<lparr>mcl_Tools = [], mcl_Resources = [], mcl_Prompts = []\<rparr> (0 :: nat) = (None, c', 0) \<and> set (mcl_Tools c') = tool_definition ` set wit_tools"
  using mcp_discovery [OF wit_text_ok, of "\<lambda>w. (None, w)" 0 0 _ "[]" int, OF refl refl] by blast

end
