(* ===== verification/Agent_Card.thy ===== *)
theory Agent_Card
  imports A2A_Client MCP_Server "HOL-Library.List_Lexorder" "HOL-Library.Multiset"
begin

text \<open>
  Agent cards, \<^verbatim>\<open>pkg/protocols/agentcard.go\<close>: validation, the builder, generation from an agent with options, and the
  advertisement of tools, from a registry (\<^verbatim>\<open>pkg/tools/registry.go\<close>) or from an MCP server.

  A builder is its card. The metadata map of a card made here is never nil. Parsing of URLs and the order in which Go
  iterates a map are parameters.
\<close>

section \<open>Validation\<close>

definition ValidateAgentCard :: "(string \<Rightarrow> goerr option) \<Rightarrow> AgentCard option \<Rightarrow> goerr option" where
  "ValidateAgentCard parse oc =
     (case oc of
        None \<Rightarrow> Some (EMsg ''agentcard: card is nil'')
      | Some c \<Rightarrow>
          if ac_ID c = [] then Some (EMsg ''agentcard: id is required'')
          else if ac_Name c = [] then Some (EMsg ''agentcard: name is required'')
          else if ac_Endpoint c = [] then Some (EMsg ''agentcard: endpoint is required'')
          else (case parse (ac_Endpoint c) of
                  Some e \<Rightarrow> Some (EWrap ''agentcard: invalid endpoint URL: '' e [])
                | None \<Rightarrow> None))"

definition ToJSON :: "(string \<Rightarrow> goerr option) \<Rightarrow> (AgentCard \<Rightarrow> string result) \<Rightarrow> AgentCard option \<Rightarrow> string result" where
  "ToJSON parse indent oc =
     (case ValidateAgentCard parse oc of Some e \<Rightarrow> Inl e | None \<Rightarrow> indent (the oc))"

section \<open>Builder\<close>

definition NewAgentCardBuilder :: "int \<Rightarrow> AgentCard" where
  "NewAgentCardBuilder now =
     \<lparr>ac_ID = [], ac_Name = [], ac_Role = [], ac_Description = [], ac_Capabilities = [], ac_Endpoint = [], ac_Version = [],
      ac_Metadata = Map.empty, ac_CreatedAt = now\<rparr>"

definition Build :: "(string \<Rightarrow> goerr option) \<Rightarrow> AgentCard \<Rightarrow> AgentCard result" where
  "Build parse c = (case ValidateAgentCard parse (Some c) of Some e \<Rightarrow> Inl e | None \<Rightarrow> Inr c)"

definition WithID :: "string \<Rightarrow> AgentCard \<Rightarrow> AgentCard" where "WithID x c = c\<lparr>ac_ID := x\<rparr>"
definition WithName :: "string \<Rightarrow> AgentCard \<Rightarrow> AgentCard" where "WithName x c = c\<lparr>ac_Name := x\<rparr>"
definition WithEndpoint :: "string \<Rightarrow> AgentCard \<Rightarrow> AgentCard" where "WithEndpoint x c = c\<lparr>ac_Endpoint := x\<rparr>"
definition WithVersion :: "string \<Rightarrow> AgentCard \<Rightarrow> AgentCard" where "WithVersion x c = c\<lparr>ac_Version := x\<rparr>"
definition WithDescription :: "string \<Rightarrow> AgentCard \<Rightarrow> AgentCard" where "WithDescription x c = c\<lparr>ac_Description := x\<rparr>"
definition WithCapability :: "string \<Rightarrow> AgentCard \<Rightarrow> AgentCard" where "WithCapability x c = c\<lparr>ac_Capabilities := ac_Capabilities c @ [x]\<rparr>"
definition WithCapabilities :: "string list \<Rightarrow> AgentCard \<Rightarrow> AgentCard" where "WithCapabilities xs c = c\<lparr>ac_Capabilities := xs\<rparr>"
definition WithMetadata :: "string \<Rightarrow> string \<Rightarrow> AgentCard \<Rightarrow> AgentCard" where "WithMetadata k v c = c\<lparr>ac_Metadata := (ac_Metadata c)(k \<mapsto> v)\<rparr>"

definition WithAgentCardMetadata :: "(string \<rightharpoonup> string) \<Rightarrow> AgentCard \<Rightarrow> AgentCard" where
  "WithAgentCardMetadata m c = c\<lparr>ac_Metadata := ac_Metadata c ++ m\<rparr>"

definition GenerateAgentCardFromCore ::
  "(string \<Rightarrow> goerr option) \<Rightarrow> int \<Rightarrow> string \<Rightarrow> string \<Rightarrow> string \<Rightarrow> (AgentCard \<Rightarrow> AgentCard) list \<Rightarrow> AgentCard result" where
  "GenerateAgentCardFromCore parse now role goal endpoint opts =
     Build parse (fold (\<lambda>opt c. opt c) opts
       (WithEndpoint endpoint (WithDescription goal (WithName role (WithID role (NewAgentCardBuilder now))))))"

section \<open>Tools\<close>

record ArgSchema =
  as_Name :: string
  as_Type :: string
  as_Description :: string
  as_Required :: bool

record ToolCard =
  tc_Name :: string
  tc_Description :: string
  tc_InputSchema :: "(string \<times> gvalue) list option"

definition toolSchemaToMap :: "ArgSchema list \<Rightarrow> (string \<times> gvalue) list option" where
  "toolSchemaToMap schema =
     (if schema = [] then None
      else let props = fold (\<lambda>a ps. put_key (as_Name a) (VMap [(''type'', VString (as_Type a)), (''description'', VString (as_Description a))]) ps) schema [];
               req = map as_Name (filter as_Required schema) in
        Some ([(''type'', VString ''object''), (''properties'', VMap props)] @ (if req \<noteq> [] then [(''required'', VStrings req)] else [])))"

text \<open>
  The registry lists its tools in the order of the next iteration; each tool has its argument schema. Names are the
  keys, so they differ, and sorting by name leaves no choice.
\<close>

definition GenerateToolCardsFromRegistry :: "('w gtool \<times> ArgSchema list) list \<Rightarrow> ToolCard list" where
  "GenerateToolCardsFromRegistry reg =
     sort_key tc_Name (map (\<lambda>(t, sch). \<lparr>tc_Name = gt_Name t, tc_Description = gt_Description t, tc_InputSchema = toolSchemaToMap sch\<rparr>) reg)"

fun toolIDs_from :: "nat \<Rightarrow> string \<Rightarrow> string list \<Rightarrow> string" where
  "toolIDs_from i res [] = res"
| "toolIDs_from i res (x # xs) = toolIDs_from (Suc i) ((if i > 0 then res @ '','' else res) @ x) xs"

definition toolIDsString :: "string list \<Rightarrow> string" where
  "toolIDsString ids = toolIDs_from 0 [] ids"

definition advertise_tools :: "string list \<Rightarrow> AgentCard \<Rightarrow> AgentCard" where
  "advertise_tools names c =
     (if names \<noteq> [] then WithMetadata ''tools'' (toolIDsString names) (WithCapability ''tool_use'' c) else c)"

definition AgentCardFromToolRegistry ::
  "(string \<Rightarrow> goerr option) \<Rightarrow> int \<Rightarrow> string \<Rightarrow> string \<Rightarrow> string \<Rightarrow> ('w gtool \<times> ArgSchema list) list \<Rightarrow> (AgentCard \<Rightarrow> AgentCard) list \<Rightarrow> AgentCard result" where
  "AgentCardFromToolRegistry parse now role goal endpoint reg opts =
     (case GenerateAgentCardFromCore parse now role goal endpoint opts of
        Inl e \<Rightarrow> Inl e
      | Inr c \<Rightarrow> Inr (advertise_tools (map tc_Name (GenerateToolCardsFromRegistry reg)) c))"

definition AgentCardFromMCPServer ::
  "(string \<Rightarrow> goerr option) \<Rightarrow> int \<Rightarrow> string \<Rightarrow> string \<Rightarrow> string \<Rightarrow> 'w MCPServer \<Rightarrow> (AgentCard \<Rightarrow> AgentCard) list \<Rightarrow> AgentCard result" where
  "AgentCardFromMCPServer parse now role goal endpoint s opts =
     (case GenerateAgentCardFromCore parse now role goal endpoint opts of
        Inl e \<Rightarrow> Inl e
      | Inr c \<Rightarrow> Inr (advertise_tools (map fst (ms_tools s)) c))"

definition AgentCardFromAgentAdapter :: "RemoteAgentAdapter \<Rightarrow> AgentCard" where
  "AgentCardFromAgentAdapter a =
     \<lparr>ac_ID = ac_ID (ra_Card a), ac_Name = ac_Name (ra_Card a), ac_Role = ac_Role (ra_Card a), ac_Description = ac_Description (ra_Card a),
      ac_Capabilities = ac_Capabilities (ra_Card a), ac_Endpoint = ac_Endpoint (ra_Card a), ac_Version = ac_Version (ra_Card a),
      ac_Metadata = ac_Metadata (ra_Card a), ac_CreatedAt = ac_CreatedAt (ra_Card a)\<rparr>"

section \<open>Lemmas\<close>

lemma toolIDs_join: "toolIDs_from i res xs = (if i = 0 then (if xs = [] then res else res @ str_join xs '','') else concat (res # map ((#) CHR '','') xs))"
proof (induction i res xs rule: toolIDs_from.induct)
  case (2 i res x xs)
  have "str_join (x # xs) '','' = x @ concat (map ((#) CHR '','') xs)" for x
    by (induction xs arbitrary: x) auto
  with 2 show ?case by auto
qed simp

text \<open>The order in which the registry is iterated does not show.\<close>

lemma tool_cards_order:
  assumes "distinct (map (gt_Name \<circ> fst) reg)" "mset reg = mset reg'"
  shows "GenerateToolCardsFromRegistry reg = GenerateToolCardsFromRegistry reg'"
proof -
  let ?card = "\<lambda>(t, sch). \<lparr>tc_Name = gt_Name t, tc_Description = gt_Description t, tc_InputSchema = toolSchemaToMap sch\<rparr>"
  have i: "inj_on (gt_Name \<circ> fst) (set reg)" using assms(1) by (simp add: distinct_map)
  have "inj_on tc_Name (set (map ?card reg))"
  proof (rule inj_onI)
    fix a b assume ab: "a \<in> set (map ?card reg)" "b \<in> set (map ?card reg)" "tc_Name a = tc_Name b"
    then obtain x y where "x \<in> set reg" "y \<in> set reg" "a = ?card x" "b = ?card y" by auto
    moreover then have "(gt_Name \<circ> fst) x = (gt_Name \<circ> fst) y" using ab(3) by (simp add: case_prod_beta)
    ultimately show "a = b" using i by (metis inj_onD)
  qed
  moreover have "mset (map ?card reg) = mset (sort_key tc_Name (map ?card reg'))" using assms(2) by (simp add: mset_map)
  ultimately show ?thesis unfolding GenerateToolCardsFromRegistry_def by (intro sort_key_inj_key_eq) simp_all
qed

lemma advertise_valid: "ValidateAgentCard parse (Some (advertise_tools ns c)) = ValidateAgentCard parse (Some c)"
  by (simp add: ValidateAgentCard_def advertise_tools_def WithMetadata_def WithCapability_def)

section \<open>Properties\<close>

text \<open>
  An agent's card advertises its tools. A card generated from a registry is valid, and when the names have no
  commas, splitting its tool list at the commas gives the names of the registry in ascending order, each once,
  whatever order the registry is iterated in.
\<close>

theorem card_advertises_tools:
  assumes "AgentCardFromToolRegistry parse now role goal endpoint reg opts = Inr c" "reg \<noteq> []"
    and "distinct (map (gt_Name \<circ> fst) reg)" "\<forall>(t, sch) \<in> set reg. CHR '','' \<notin> set (gt_Name t)"
  shows "ValidateAgentCard parse (Some c) = None \<and>
    (\<exists>names ids. ac_Metadata c ''tools'' = Some names \<and> ids = split_byte CHR '','' names \<and> sorted ids \<and> distinct ids \<and>
      set ids = (gt_Name \<circ> fst) ` set reg) \<and> ''tool_use'' \<in> set (ac_Capabilities c)"
proof -
  let ?names = "map tc_Name (GenerateToolCardsFromRegistry reg)"
  have s: "set ?names = (gt_Name \<circ> fst) ` set reg" "sorted ?names" "distinct ?names"
  proof -
    have e: "map tc_Name (map (\<lambda>(t, sch). \<lparr>tc_Name = gt_Name t, tc_Description = gt_Description t, tc_InputSchema = toolSchemaToMap sch\<rparr>) reg) =
        map (gt_Name \<circ> fst) reg" by auto
    have "mset ?names = mset (map tc_Name (map (\<lambda>(t, sch). \<lparr>tc_Name = gt_Name t, tc_Description = gt_Description t,
        tc_InputSchema = toolSchemaToMap sch\<rparr>) reg))"
      unfolding mset_map GenerateToolCardsFromRegistry_def mset_sort ..
    then have m: "mset ?names = mset (map (gt_Name \<circ> fst) reg)" unfolding e .
    then show "set ?names = (gt_Name \<circ> fst) ` set reg" by (metis list.set_map set_mset_mset)
    show "distinct ?names" using m assms(3) by (metis mset_eq_imp_distinct_iff)
  qed (simp add: GenerateToolCardsFromRegistry_def)
  have ne: "?names \<noteq> []" using s(1) assms(2) by auto
  have "\<forall>x \<in> set ?names. CHR '','' \<notin> set x" using s(1) assms(4) by fastforce
  then have sp: "split_byte CHR '','' (toolIDsString ?names) = ?names"
    using split_join [OF ne] ne by (simp add: toolIDsString_def toolIDs_join)
  obtain c0 where c0: "ValidateAgentCard parse (Some c0) = None" "c = advertise_tools ?names c0"
    using assms(1) by (auto simp: AgentCardFromToolRegistry_def GenerateAgentCardFromCore_def Build_def split: sum.splits option.splits)
  have "ValidateAgentCard parse (Some c) = None"
    using c0 by (simp add: advertise_valid)
  then show ?thesis using c0(2) ne s sp by (auto simp: advertise_tools_def WithMetadata_def WithCapability_def)
qed

section \<open>Witnesses\<close>

definition wit_reg2 :: "(nat gtool \<times> ArgSchema list) list" where
  "wit_reg2 =
     [(\<lparr>gt_Name = ''b'', gt_Description = [], gt_RequiresReview = False, gt_Execute = (\<lambda>_ w. (Inr [], w))\<rparr>, []),
      (\<lparr>gt_Name = ''a'', gt_Description = [], gt_RequiresReview = False, gt_Execute = (\<lambda>_ w. (Inr [], w))\<rparr>, [])]"

theorem card_advertises_tools_witness:
  "\<exists>c ids. AgentCardFromToolRegistry (\<lambda>_. None) 7 ''r'' ''g'' ''http://h'' wit_reg2 [WithVersion ''1''] = Inr c \<and>
    ids = split_byte CHR '','' (the (ac_Metadata c ''tools'')) \<and> sorted ids \<and> set ids = {''a'', ''b''}"
proof -
  have "\<exists>c. GenerateAgentCardFromCore (\<lambda>_. None) 7 ''r'' ''g'' ''http://h'' [WithVersion ''1''] = Inr c"
    by (simp add: GenerateAgentCardFromCore_def Build_def ValidateAgentCard_def NewAgentCardBuilder_def WithID_def
        WithName_def WithDescription_def WithEndpoint_def WithVersion_def)
  then obtain c where c: "AgentCardFromToolRegistry (\<lambda>_. None) 7 ''r'' ''g'' ''http://h'' wit_reg2 [WithVersion ''1''] = Inr c"
    unfolding AgentCardFromToolRegistry_def by (metis sum.case(2))
  have w: "wit_reg2 \<noteq> []" "distinct (map (gt_Name \<circ> fst) wit_reg2)" "\<forall>(t, sch) \<in> set wit_reg2. CHR '','' \<notin> set (gt_Name t)"
    "(gt_Name \<circ> fst) ` set wit_reg2 = {''a'', ''b''}"
    by (auto simp: wit_reg2_def)
  obtain names ids where n: "ac_Metadata c ''tools'' = Some names" "ids = split_byte CHR '','' names" "sorted ids" "set ids = {''a'', ''b''}"
    using card_advertises_tools [OF c w(1-3)] unfolding w(4) by blast
  show ?thesis by (intro exI [of _ c] exI [of _ ids] conjI) (use c n in simp_all)
qed

end
