(* ===== verification/MCP_Transport.thy ===== *)
theory MCP_Transport
  imports MCP_Server File_Guard "HOL-Library.Log_Nat"
begin

text \<open>
  The transports of \<^verbatim>\<open>pkg/protocols/mcp.go\<close> besides HTTP, and the server on standard input and output of
  \<^verbatim>\<open>mcp_server_stdio.go\<close>: the check of the command a client starts, the table of pending requests as a step
  relation over the goroutines that send and the one that reads, the parser of the event stream, and the loop of the
  stdio server. The file system is that of \<open>File_Guard\<close>.
\<close>

section \<open>Which command may be started\<close>

definition allowedDirs :: "string list" where
  "allowedDirs = [''/usr/bin'', ''/usr/local/bin'', ''/opt'']"

definition stdio_err :: "string \<Rightarrow> string \<Rightarrow> goerr" where
  "stdio_err t cmd = EMsg (''mcp stdio transport: '' @ t @ cmd)"

text \<open>\<open>xbit\<close> tells which files have an execute bit. The result is the resolved command, the one that is started.\<close>

definition validateCommand :: "osenv \<Rightarrow> fs \<Rightarrow> (string list \<Rightarrow> bool) \<Rightarrow> string \<Rightarrow> string result" where
  "validateCommand E fs xbit cmd =
     (if cmd = [] then Inl (stdio_err ''command is empty'' [])
      else if \<not> has_prefix cmd ''/'' then Inl (stdio_err ''command must be an absolute path, got '' cmd)
      else (case walk fs (oe_links E) [] (comps cmd) of
              Inl e \<Rightarrow> Inl (EWrap (err_text (stdio_err ''command not found or not accessible: '' cmd) @ '': '') e [])
            | Inr q \<Rightarrow>
                if \<not> (\<exists>x \<in> {x. node_at fs q = Some x}. case x of NFile _ \<Rightarrow> True | _ \<Rightarrow> False)
                then Inl (stdio_err ''command is not a regular file: '' cmd)
                else if \<not> xbit q then Inl (stdio_err ''command is not executable: '' cmd)
                else (case EvalSymlinks E fs (path_clean cmd) of
                        Inl e \<Rightarrow> Inl (EWrap (err_text (stdio_err ''cannot resolve command '' cmd) @ '': '') e [])
                      | Inr resolved \<Rightarrow>
                          if list_ex (\<lambda>dir. resolved = dir \<or> has_prefix resolved (dir @ ''/'')) allowedDirs then Inr resolved
                          else Inl (EMsg (''mcp stdio transport: command '' @ cmd @ '' is not in an allowed directory'')))))"

section \<open>Pending requests\<close>

text \<open>
  A response is a value or an error. Each sender has a channel for one response; the reader looks up the
  sender by the id of a message, and removes the entry.
\<close>

type_synonym rpcResponse = "(int \<times> string) + gvalue option"

datatype sender = Idle | Waiting int | Got rpcResponse | Failed

record stdio =
  sd_pending :: "int \<rightharpoonup> nat"
  sd_chan :: "nat \<rightharpoonup> rpcResponse"
  sd_sender :: "nat \<Rightarrow> sender"
  sd_reading :: bool

definition NewStdioTransport :: stdio where
  "NewStdioTransport = \<lparr>sd_pending = Map.empty, sd_chan = Map.empty, sd_sender = (\<lambda>_. Idle), sd_reading = True\<rparr>"

datatype stdio_label =
    Begin nat int
  | EncodeFails nat
  | Recv int rpcResponse
  | Notify
  | Take nat
  | Cancel nat
  | ReadEnds

fun stdio_step :: "stdio_label \<Rightarrow> stdio \<Rightarrow> stdio option" where
  "stdio_step (Begin u i) s =
     (if sd_sender s u = Idle then
        Some (s\<lparr>sd_pending := (sd_pending s)(i \<mapsto> u), sd_sender := (sd_sender s)(u := Waiting i)\<rparr>)
      else None)"
| "stdio_step (EncodeFails u) s =
     (case sd_sender s u of
        Waiting i \<Rightarrow> Some (s\<lparr>sd_pending := (sd_pending s)(i := None), sd_sender := (sd_sender s)(u := Failed)\<rparr>)
      | _ \<Rightarrow> None)"
| "stdio_step (Recv i r) s =
     (if \<not> sd_reading s then None
      else (case sd_pending s i of
              None \<Rightarrow> Some s
            | Some u \<Rightarrow> Some (s\<lparr>sd_pending := (sd_pending s)(i := None), sd_chan := (sd_chan s)(u \<mapsto> r)\<rparr>)))"
| "stdio_step Notify s = (if sd_reading s then Some s else None)"
| "stdio_step (Take u) s =
     (case (sd_sender s u, sd_chan s u) of
        (Waiting i, Some r) \<Rightarrow> Some (s\<lparr>sd_sender := (sd_sender s)(u := Got r)\<rparr>)
      | _ \<Rightarrow> None)"
| "stdio_step (Cancel u) s =
     (case sd_sender s u of
        Waiting i \<Rightarrow> Some (s\<lparr>sd_pending := (sd_pending s)(i := None), sd_sender := (sd_sender s)(u := Failed)\<rparr>)
      | _ \<Rightarrow> None)"
| "stdio_step ReadEnds s = Some (s\<lparr>sd_reading := False\<rparr>)"

text \<open>Runs, with the latest step first.\<close>

inductive stdio_run :: "stdio_label list \<Rightarrow> stdio \<Rightarrow> bool" where
  start: "stdio_run [] NewStdioTransport"
| step: "stdio_run ls s \<Longrightarrow> stdio_step l s = Some s' \<Longrightarrow> stdio_run (l # ls) s'"

inductive_cases stdio_runE: "stdio_run (l # ls) s'"

definition send_result :: "rpcResponse \<Rightarrow> gvalue option result" where
  "send_result r = (case r of Inl (c, t) \<Rightarrow> Inl (mcp_error c t) | Inr v \<Rightarrow> Inr v)"

section \<open>Event streams\<close>

record sse =
  se_event :: string
  se_postURL :: string
  se_ready :: bool
  se_notes :: "string list"

text \<open>\<open>resolve\<close> makes an address absolute. The notes are the data handed to the notification handler.\<close>

definition sse_line :: "(string \<Rightarrow> string) \<Rightarrow> string \<Rightarrow> sse \<Rightarrow> sse" where
  "sse_line resolve line0 st =
     (let line = trim_space line0 in
      if line = [] then st\<lparr>se_event := []\<rparr>
      else if has_prefix line ''event:'' then st\<lparr>se_event := trim_space (trim_prefix line ''event:'')\<rparr>
      else if has_prefix line ''data:'' then
        (let data = trim_space (trim_prefix line ''data:'') in
         if se_event st = ''endpoint'' then
           st\<lparr>se_postURL := (if has_prefix data ''http'' then data else resolve data), se_ready := True\<rparr>
         else if se_event st = ''message'' then st\<lparr>se_notes := se_notes st @ [data]\<rparr>
         else st)
      else st)"

definition sse_chunk :: "(string \<Rightarrow> string) \<Rightarrow> string \<Rightarrow> sse \<Rightarrow> sse" where
  "sse_chunk resolve chunk st = fold (sse_line resolve) (split_byte CHR 0x0A chunk) st"

definition consumeStream :: "(string \<Rightarrow> string) \<Rightarrow> string list \<Rightarrow> sse \<Rightarrow> sse" where
  "consumeStream resolve chunks st = fold (sse_chunk resolve) chunks st"

definition NewSSETransport :: sse where
  "NewSSETransport = \<lparr>se_event = [], se_postURL = [], se_ready = False, se_notes = []\<rparr>"

definition sse_SendRequest ::
  "'j jtext \<Rightarrow> ('w \<Rightarrow> int) \<Rightarrow> sse \<Rightarrow> goerr option \<Rightarrow> (string \<Rightarrow> 'j \<Rightarrow> 'w \<Rightarrow> 'j result \<times> 'w) \<Rightarrow> 'w transport" where
  "sse_SendRequest J now st newreq post me params w =
     (if se_postURL st = [] then (Inl (EMsg ''mcp: sse transport not ready (no endpoint discovered)''), w)
      else http_SendRequest J now newreq (post (se_postURL st)) me params w)"

section \<open>The stdio server\<close>

definition stdio_initialize :: gvalue where
  "stdio_initialize =
     VMap [(''protocolVersion'', VString ''2024-11-05''), (''capabilities'', VMap [(''tools'', VMap [(''listChanged'', VBool True)])]),
       (''serverInfo'', VMap [(''name'', VString ''gocrew-mcp-stdio''), (''version'', VString ''1.0.0'')])]"

definition stdio_reply :: "'w MCPServer \<Rightarrow> gvalue \<times> string \<times> gmap \<Rightarrow> 'w \<Rightarrow> gvalue \<times> 'w" where
  "stdio_reply s rq w =
     (case rq of (i, me, params) \<Rightarrow>
        if me = ''initialize'' then (writeResult i stdio_initialize, w)
        else if me = ''tools/list'' then (writeResult i (VMap [(''tools'', VList (map (\<lambda>(k, d, h). json_tool d) (ms_tools s)))]), w)
        else if me = ''tools/call'' then
          (let name = (case get_string params ''name'' of None \<Rightarrow> [] | Some n \<Rightarrow> n);
               args = (case params ''arguments'' of Some (VMap kvs) \<Rightarrow> map_of kvs | _ \<Rightarrow> Map.empty) in
           case map_of (ms_tools s) name of
             None \<Rightarrow> (writeError (- 32602) (''Tool not found: '' @ name) i, w)
           | Some (d, h) \<Rightarrow>
               (case h args w of
                  (Inl e, w1) \<Rightarrow> (writeResult i (json_result (Some (text_result (err_text e) True))), w1)
                | (Inr r, w1) \<Rightarrow> (writeResult i (json_result r), w1)))
        else (writeError (- 32601) (''Method not found: '' @ me) i, w))"

text \<open>
  What the decoder meets: a JSON value, or text that is not JSON. A decoder that has met the latter gives the same
  error for ever. \<open>ended n\<close> is the error of the context, if it has ended, in the \<open>n\<close>-th turn of the loop; the result has the
  replies and the error that ends the loop, \<open>None\<close> at the end of the input.
\<close>

datatype stdin_item = JSON gvalue | Garbage

partial_function (option) Serve ::
  "'w MCPServer \<Rightarrow> (nat \<Rightarrow> goerr option) \<Rightarrow> nat \<Rightarrow> stdin_item list \<Rightarrow> 'w \<Rightarrow> (gvalue list \<times> goerr option \<times> 'w) option" where
  "Serve s ended n items w =
     (case ended n of
        Some e \<Rightarrow> Some ([], Some e, w)
      | None \<Rightarrow>
          (case items of
             [] \<Rightarrow> Some ([], None, w)
           | Garbage # _ \<Rightarrow> Serve s ended (Suc n) items w
           | JSON v # rest \<Rightarrow>
               (case rpc_request v of
                  None \<Rightarrow> Serve s ended (Suc n) rest w
                | Some rq \<Rightarrow>
                    (case stdio_reply s rq w of
                       (r, w1) \<Rightarrow>
                         Option.bind (Serve s ended (Suc n) rest w1) (\<lambda>(rs, e, w2). Some (r # rs, e, w2))))))"

section \<open>Resolution leads to a place without links\<close>

definition dir_place :: "fs \<Rightarrow> string list \<Rightarrow> bool" where
  "dir_place fs q \<longleftrightarrow> (\<forall>i \<le> length q. node_at fs (take i q) = Some NDir)"

definition link_free :: "fs \<Rightarrow> string list \<Rightarrow> bool" where
  "link_free fs q \<longleftrightarrow> (\<forall>i < length q. node_at fs (take i q) = Some NDir) \<and> (node_at fs q = Some NDir \<or> (\<exists>x. node_at fs q = Some (NFile x)))"

lemma dir_place_Nil: "dir_place fs []"
  by (simp add: dir_place_def node_at_def)

lemma dir_place_butlast: "dir_place fs q \<Longrightarrow> dir_place fs (butlast q)"
  by (simp add: dir_place_def butlast_conv_take)

lemma dir_place_snoc: "dir_place fs q \<Longrightarrow> fs (q @ [c]) = Some NDir \<Longrightarrow> dir_place fs (q @ [c])"
  by (auto simp: dir_place_def le_Suc_eq)

lemma link_free_snoc: "dir_place fs q \<Longrightarrow> fs (q @ [c]) = Some (NFile x) \<Longrightarrow> link_free fs (q @ [c])"
  by (auto simp: dir_place_def link_free_def)

lemma walk_link_free: "walk fs n cur cs = Inr q \<Longrightarrow> dir_place fs cur \<Longrightarrow> link_free fs q"
proof (induction fs n cur cs arbitrary: q rule: walk.induct)
  case (1 fs n cur)
  then show ?case by (auto simp: link_free_def dir_place_def)
next
  case (2 fs n cur c cs)
  consider "c = [] \<or> c = ''.''" | "c = ''..''" | "\<not> (c = [] \<or> c = ''.'')" "c \<noteq> ''..''" by auto
  then show ?case
  proof cases
    case 1
    then show ?thesis using "2.IH"(1) "2.prems" by simp
  next
    case 2
    then show ?thesis using "2.IH"(2) "2.prems" dir_place_butlast by simp
  next
    case 3
    show ?thesis
    proof (cases "fs (cur @ [c])")
      case None
      then show ?thesis using 3 "2.prems"(1) by simp
    next
      case (Some x)
      then show ?thesis
      proof (cases x)
        case NDir
        then show ?thesis using "2.IH"(3) [OF 3 Some NDir] 3 Some "2.prems" dir_place_snoc by simp
      next
        case (NFile y)
        then show ?thesis using 3 Some "2.prems" link_free_snoc by (auto split: if_splits)
      next
        case (NLink t)
        then show ?thesis using "2.IH"(4) [OF 3 Some NLink] 3 Some "2.prems" dir_place_Nil by (auto split: if_splits)
      qed
    qed
  qed
qed

lemma walk_straight:
  assumes "link_free fs (cur @ cs)" "list_all comp_ok cs"
  shows "walk fs n cur cs = Inr (cur @ cs)"
  using assms
proof (induction cs arbitrary: cur)
  case (Cons c cs)
  have c: "\<not> (c = [] \<or> c = ''.'')" "c \<noteq> ''..''" using Cons.prems(2) by (auto simp: comp_ok_def)
  show ?case
  proof (cases "cs = []")
    case True
    then show ?thesis using Cons.prems(1) c by (auto simp: link_free_def)
  next
    case False
    then have "Suc (length cur) < length (cur @ c # cs)" by simp
    then have "node_at fs (take (Suc (length cur)) (cur @ c # cs)) = Some NDir" using Cons.prems(1) unfolding link_free_def by blast
    then have "fs (cur @ [c]) = Some NDir" by simp
    then show ?thesis using Cons.IH [of "cur @ [c]"] Cons.prems c by simp
  qed
qed simp

lemma allowed_dirs_text:
  assumes "list_all comp_ok q"
  shows "list_ex (\<lambda>dir. abs_text q = dir \<or> has_prefix (abs_text q) (dir @ ''/'')) allowedDirs \<longleftrightarrow>
    (\<exists>dir \<in> {[''usr'', ''bin''], [''usr'', ''local'', ''bin''], [''opt'']}. prefix dir q)"
proof -
  have t: "''/usr/bin'' = abs_text [''usr'', ''bin'']" "''/usr/local/bin'' = abs_text [''usr'', ''local'', ''bin'']" "''/opt'' = abs_text [''opt'']"
    by (simp_all add: abs_text_def)
  have ok: "list_all comp_ok [''usr'', ''bin'']" "list_all comp_ok [''usr'', ''local'', ''bin'']" "list_all comp_ok [''opt'']"
    by (simp_all add: comp_ok_def)
  have d: "abs_text q = abs_text rs \<or> has_prefix (abs_text q) (abs_text rs @ ''/'') \<longleftrightarrow> prefix rs q" if "list_all comp_ok rs" "rs \<noteq> []" for rs
    using inside_text [OF that(1) assms] that(2) by (auto simp: inside_def)
  show ?thesis unfolding allowedDirs_def t using d [OF ok(1)] d [OF ok(2)] d [OF ok(3)] by auto
qed

section \<open>The invariants of the table of requests\<close>

lemma stdio_origin:
  assumes "stdio_run ls s"
  shows "(\<forall>i u. sd_pending s i = Some u \<longrightarrow> (\<exists>b c. ls = b @ Begin u i # c)) \<and>
    (\<forall>u r. sd_chan s u = Some r \<or> sd_sender s u = Got r \<longrightarrow> (\<exists>i a b c. ls = a @ Recv i r # b @ Begin u i # c))"
  using assms
proof (induction rule: stdio_run.induct)
  case start
  then show ?case by (simp add: NewStdioTransport_def)
next
  case (step ls s l s')
  have old: "(\<exists>b c. ls = b @ Begin u i # c) \<Longrightarrow> (\<exists>b c. l # ls = b @ Begin u i # c)" for u i
    by (metis append_Cons)
  have old2: "(\<exists>i a b c. ls = a @ Recv i r # b @ Begin u i # c) \<Longrightarrow> (\<exists>i a b c. l # ls = a @ Recv i r # b @ Begin u i # c)" for u r
    by (metis append_Cons)
  have new: "\<exists>i a b c. l # ls = a @ Recv i r # b @ Begin u i # c" if "l = Recv i r" "\<exists>b c. ls = b @ Begin u i # c" for u i r
    using that by (metis append_Nil)
  show ?case
  proof (cases l)
    case (Recv i r)
    then show ?thesis using step old old2 new [OF Recv] by (auto split: if_splits option.splits)
  next
    case (Begin u i)
    then have "s' = s\<lparr>sd_pending := (sd_pending s)(i \<mapsto> u), sd_sender := (sd_sender s)(u := Waiting i)\<rparr>"
      using step.hyps(2) by (auto split: if_splits)
    then show ?thesis using step.IH old old2 Begin by (auto split: if_splits)
  qed (use step old old2 in \<open>auto split: sender.splits option.splits if_splits\<close>)
qed

definition distinct_ids :: "stdio_label list \<Rightarrow> bool" where
  "distinct_ids ls \<longleftrightarrow> (\<forall>u v i. Begin u i \<in> set ls \<and> Begin v i \<in> set ls \<longrightarrow> u = v)"

lemma stdio_waiting:
  assumes "stdio_run ls s" "distinct_ids ls"
  shows "(\<forall>u i. sd_sender s u = Waiting i \<longrightarrow> Begin u i \<in> set ls) \<and>
    (\<forall>u i. sd_sender s u = Waiting i \<and> sd_chan s u = None \<longrightarrow> sd_pending s i = Some u)"
  using assms
proof (induction rule: stdio_run.induct)
  case start
  then show ?case by (simp add: NewStdioTransport_def)
next
  case (step ls s l s')
  have d: "distinct_ids ls" using step.prems unfolding distinct_ids_def by (meson list.set_intros(2))
  note IH = step.IH [OF d]
  have uniq: "Begin u i \<in> set ls \<Longrightarrow> Begin v i \<in> set (l # ls) \<Longrightarrow> u = v" for u v i
    using step.prems unfolding distinct_ids_def by (metis list.set_intros(2))
  have same: "sd_sender s a = Waiting j \<Longrightarrow> sd_sender s b = Waiting j \<Longrightarrow> a = b" for a b j
    using IH uniq by (metis list.set_intros(2))
  show ?case
  proof (cases l)
    case (Begin u i)
    have "x = u" if "Begin x i \<in> set ls" for x using uniq [OF that, of u] Begin by simp
    then show ?thesis using step.hyps(2) IH Begin by (auto split: if_splits)
  next
    case (Recv i r)
    then show ?thesis using step.hyps(2) IH uniq by (auto split: if_splits option.splits)
  next
    case (EncodeFails u)
    then show ?thesis using step.hyps(2) IH by (auto split: sender.splits if_splits dest: same)
  next
    case (Cancel u)
    then show ?thesis using step.hyps(2) IH by (auto split: sender.splits if_splits dest: same)
  qed (use step.hyps(2) IH in \<open>auto split: sender.splits option.splits if_splits\<close>)
qed

lemma colliding_inv:
  assumes "stdio_run ls s" "ls = ks @ [Begin v i, Begin u i]" "u \<noteq> v"
  shows "sd_chan s u = None \<and> (\<forall>j. sd_pending s j \<noteq> Some u) \<and> (sd_sender s u = Waiting i \<or> sd_sender s u = Failed)"
  using assms
proof (induction arbitrary: ks rule: stdio_run.induct)
  case (step ls s l s')
  show ?case
  proof (cases ks)
    case Nil
    then have r: "stdio_run [Begin u i] s" "stdio_step (Begin v i) s = Some s'" using step by auto
    from r(1) obtain s0 where "stdio_run [] s0" "stdio_step (Begin u i) s0 = Some s" by (rule stdio_runE)
    then have "s0 = NewStdioTransport" by (auto elim: stdio_run.cases)
    then show ?thesis using r(2) \<open>stdio_step (Begin u i) s0 = Some s\<close> step.prems(2)
      by (auto simp: NewStdioTransport_def split: if_splits)
  next
    case (Cons k ks')
    then have k: "k = l" "ls = ks' @ [Begin v i, Begin u i]" using step.prems(1) by auto
    have IH: "sd_chan s u = None" "\<forall>j. sd_pending s j \<noteq> Some u" "sd_sender s u = Waiting i \<or> sd_sender s u = Failed"
      using step.IH [OF k(2) step.prems(2)] by auto
    show ?thesis
    proof (cases l)
      case (Begin x j)
      then show ?thesis using step.hyps(2) IH by (auto split: if_splits)
    next
      case (Recv j r)
      then show ?thesis using step.hyps(2) IH by (auto split: if_splits option.splits)
    next
      case (EncodeFails x)
      then show ?thesis using step.hyps(2) IH by (auto split: sender.splits if_splits)
    next
      case (Cancel x)
      then show ?thesis using step.hyps(2) IH by (auto split: sender.splits if_splits)
    qed (use step.hyps(2) IH in \<open>auto split: sender.splits option.splits if_splits\<close>)
  qed
qed simp

section \<open>Splitting streams\<close>

lemma sse_blank [simp]: "sse_line resolve [] st = st\<lparr>se_event := []\<rparr>"
  by (simp add: sse_line_def trim_space_def)

lemma sse_chunk_blank: "sse_chunk resolve (c @ [CHR 0x0A, CHR 0x0A] @ d) st = sse_chunk resolve d (sse_chunk resolve (c @ [CHR 0x0A, CHR 0x0A]) st)"
proof -
  have "split_byte CHR 0x0A (c @ [CHR 0x0A, CHR 0x0A] @ d) = split_byte CHR 0x0A c @ [[]] @ split_byte CHR 0x0A d"
    using split_byte_append [of "CHR 0x0A" c "CHR 0x0A # d"] by simp
  moreover have "split_byte CHR 0x0A (c @ [CHR 0x0A, CHR 0x0A]) = split_byte CHR 0x0A c @ [[], []]"
    using split_byte_append [of "CHR 0x0A" c "[CHR 0x0A]"] by simp
  ultimately show ?thesis by (simp add: sse_chunk_def)
qed

lemma stream_at_events:
  "\<forall>c \<in> set cs. suffix [CHR 0x0A, CHR 0x0A] c \<Longrightarrow> consumeStream resolve (cs @ [d]) st = sse_chunk resolve (concat cs @ d) st"
proof (induction cs arbitrary: st)
  case (Cons c cs)
  then obtain y where y: "c = y @ [CHR 0x0A, CHR 0x0A]" by (auto simp: suffix_def)
  have "sse_chunk resolve (concat (c # cs) @ d) st = sse_chunk resolve (concat cs @ d) (sse_chunk resolve c st)"
    using sse_chunk_blank [of resolve y "concat cs @ d" st] by (simp add: y)
  then show ?case using Cons by (simp add: consumeStream_def)
qed (simp add: consumeStream_def)

text \<open>A read that ends after a line and not after an event loses the address: the transport never gets ready.\<close>

lemma sse_split_loses_endpoint:
  "se_ready (consumeStream (\<lambda>d. d) [''event: endpoint'' @ [CHR 0x0A], ''data: /message'' @ [CHR 0x0A, CHR 0x0A]] NewSSETransport) = False"
  "se_postURL (consumeStream (\<lambda>d. d) [''event: endpoint'' @ [CHR 0x0A] @ ''data: /message'' @ [CHR 0x0A, CHR 0x0A]] NewSSETransport) = ''/message''"
  by (simp_all add: consumeStream_def sse_chunk_def sse_line_def NewSSETransport_def trim_space_def is_space_def trim_prefix_def)

section \<open>Ids as floating point numbers\<close>

text \<open>
  The server decodes an id into a \<^verbatim>\<open>float64\<close>: the nearest number of 53 bits, here for positive whole numbers. An id of a
  client is a clock reading in nanoseconds, of 61 bits. Of two ids in the same half of a block of 256 at most
  one comes back, however the number is written.
\<close>

definition f64 :: "int \<Rightarrow> int" where
  "f64 n =
     (let b = nat (bitlen n) in
      if b \<le> 53 then n
      else let u = 2 ^ (b - 53); q = n div u; r = n mod u in
        if 2 * r > u \<or> 2 * r = u \<and> odd q then (q + 1) * u else q * u)"

lemma f64_block:
  assumes "2 ^ 60 \<le> 256 * k" "256 * k < 2 ^ 61" "0 \<le> a" "a < 128"
  shows "f64 (256 * k + a) = 256 * k"
proof -
  have k: "2 ^ 52 \<le> k" "k < 2 ^ 53" using assms(1,2) by simp_all
  have "bitlen (256 * k + a) = 61"
    using bitlen_le_iff_power [of "256 * k + a" 61] bitlen_ge_iff_power [of 61 "256 * k + a"] k assms(3,4) by simp
  then show ?thesis using assms(3,4) by (simp add: f64_def Let_def)
qed

lemma stdio_ids_lost:
  assumes "2 ^ 60 \<le> 256 * k" "256 * k < 2 ^ 61" "0 \<le> a" "a < b" "b < 128"
  shows "\<not> (sh (f64 (256 * k + a)) = 256 * k + a \<and> sh (f64 (256 * k + b)) = 256 * k + b)"
  using f64_block [of k a] f64_block [of k b] assms by auto

section \<open>The loop of the server\<close>

text \<open>Text that is not JSON keeps the loop turning until the context ends.\<close>

lemma Serve_spins:
  assumes "\<forall>k. ended k = None" "Garbage \<in> set items"
  shows "Serve s ended n items w = None"
proof (rule ccontr)
  assume "Serve s ended n items w \<noteq> None"
  then obtain y where y: "Serve s ended n items w = Some y" by auto
  let ?P = "\<lambda>(s :: 'w MCPServer) (ended :: nat \<Rightarrow> goerr option) (n :: nat) items (w :: 'w) (y :: gvalue list \<times> goerr option \<times> 'w).
    (\<forall>k. ended k = None) \<longrightarrow> Garbage \<in> set items \<longrightarrow> False"
  have "?P s ended n items w y"
  proof (rule Serve.raw_induct [of ?P, OF _ y], intro impI)
    fix F s e n items w y
    assume IH: "\<And>s e n items w y. F s e n items w = Some y \<Longrightarrow> ?P s e n items w y"
      and eq: "(case e n of Some err \<Rightarrow> Some ([], Some err, w)
        | None \<Rightarrow> (case items of [] \<Rightarrow> Some ([], None, w) | Garbage # _ \<Rightarrow> F s e (Suc n) items w
          | JSON v # rest \<Rightarrow> (case rpc_request v of None \<Rightarrow> F s e (Suc n) rest w
            | Some rq \<Rightarrow> (case stdio_reply s rq w of (r, w1) \<Rightarrow>
                Option.bind (F s e (Suc n) rest w1) (\<lambda>(rs, err, w2). Some (r # rs, err, w2)))))) = Some y"
      and live: "\<forall>k. e k = None" and g: "Garbage \<in> set items"
    have stuck: "F s e m items' w' = None" if "Garbage \<in> set items'" for m items' w'
      using IH [of s e m items' w'] live that by (cases "F s e m items' w'") auto
    obtain x rest where items: "items = x # rest" using g by (cases items) auto
    show False
    proof (cases x)
      case Garbage
      then show False using eq live stuck [OF g] by (simp add: items)
    next
      case (JSON v)
      then have "Garbage \<in> set rest" using g by (simp add: items)
      then show False using eq live stuck by (auto simp: items JSON split: option.splits prod.splits)
    qed
  qed
  with assms show False by simp
qed

lemma Serve_returns:
  assumes "Garbage \<notin> set items"
  shows "\<exists>rs e w'. Serve s ended n items w = Some (rs, e, w') \<and> length rs \<le> length items"
  using assms
proof (induction items arbitrary: n w)
  case Nil
  then show ?case by (subst Serve.simps) (simp split: option.split)
next
  case (Cons x items)
  then obtain v where x: "x = JSON v" by (cases x) auto
  show ?case
  proof (cases "ended n = None \<and> rpc_request v \<noteq> None")
    case False
    then show ?thesis using Cons.IH [of "Suc n" w] Cons.prems by (subst Serve.simps) (auto simp: x split: option.split)
  next
    case True
    then obtain rq where rq: "rpc_request v = Some rq" by auto
    obtain r w1 where r: "stdio_reply s rq w = (r, w1)" by fastforce
    obtain rs e w' where "Serve s ended (Suc n) items w1 = Some (rs, e, w')" "length rs \<le> length items"
      using Cons.IH [of "Suc n" w1] Cons.prems by auto
    then show ?thesis using True rq r by (subst Serve.simps) (simp add: x)
  qed
qed

section \<open>Properties\<close>

text \<open>
  C14: Only commands in the allowed directories are started. What \<^verbatim>\<open>validateCommand\<close> approves for execution is a path
  that goes through no symbolic link and lies in \<^verbatim>\<open>/usr/bin\<close>, \<^verbatim>\<open>/usr/local/bin\<close> or \<^verbatim>\<open>/opt\<close>.
\<close>

theorem command_confined:
  assumes "validateCommand E fs xbit cmd = Inr r"
  shows "\<exists>q. list_all comp_ok q \<and> r = abs_text q \<and> (\<exists>dir \<in> {[''usr'', ''bin''], [''usr'', ''local'', ''bin''], [''opt'']}. prefix dir q) \<and>
    link_free fs q \<and> EvalSymlinks E fs r = Inr r"
proof -
  have e: "EvalSymlinks E fs (path_clean cmd) = Inr r" "list_ex (\<lambda>dir. r = dir \<or> has_prefix r (dir @ ''/'')) allowedDirs"
    using assms by (auto simp: validateCommand_def split: sum.splits if_splits)
  obtain q where q: "walk fs (oe_links E) [] (comps (path_clean cmd)) = Inr q" "r = abs_text q"
    using e(1) by (auto simp: EvalSymlinks_def map_sum_def split: sum.splits)
  have "\<forall>c \<in> set (comps (path_clean cmd)). CHR ''/'' \<notin> set c" by (auto simp: comps_def dest: split_byte_comp)
  then have ok: "list_all comp_ok q" using walk_comps [OF q(1)] by simp
  have f: "link_free fs q" using walk_link_free [OF q(1) dir_place_Nil] .
  have "EvalSymlinks E fs r = Inr r"
    using walk_straight [of fs "[]" q "oe_links E"] f ok by (simp add: EvalSymlinks_def q(2))
  moreover have "\<exists>dir \<in> {[''usr'', ''bin''], [''usr'', ''local'', ''bin''], [''opt'']}. prefix dir q"
    using e(2) allowed_dirs_text [OF ok] unfolding q(2) by simp
  ultimately show ?thesis using ok f q(2) by blast
qed

text \<open>
  C13: Responses find their requests. A sender that returns with a response began a request earlier whose id the
  response carried. If no id was used twice, a waiting sender gets the response to its request as soon as it is
  read, and nobody else is affected.
\<close>

theorem responses_correlated:
  assumes "stdio_run ls s"
  shows "(\<forall>u r. sd_sender s u = Got r \<longrightarrow> (\<exists>i a b c. ls = a @ Recv i r # b @ Begin u i # c)) \<and>
    (distinct_ids ls \<longrightarrow> (\<forall>u i r. sd_sender s u = Waiting i \<and> sd_chan s u = None \<and> sd_reading s \<longrightarrow>
      (\<exists>s1 s2. stdio_step (Recv i r) s = Some s1 \<and> stdio_step (Take u) s1 = Some s2 \<and> sd_sender s2 = (sd_sender s)(u := Got r))))"
proof (intro conjI impI allI)
  fix u r assume "sd_sender s u = Got r"
  then show "\<exists>i a b c. ls = a @ Recv i r # b @ Begin u i # c" using stdio_origin [OF assms] by blast
next
  fix u i r
  assume d: "distinct_ids ls" and w: "sd_sender s u = Waiting i \<and> sd_chan s u = None \<and> sd_reading s"
  then have "sd_pending s i = Some u" using stdio_waiting [OF assms d] by blast
  then show "\<exists>s1 s2. stdio_step (Recv i r) s = Some s1 \<and> stdio_step (Take u) s1 = Some s2 \<and> sd_sender s2 = (sd_sender s)(u := Got r)"
    using w by simp
qed

text \<open>
  A repeated id starves a request. Ids are clock readings; when a second sender begins with the same one before
  the first is answered, the first never gets a response, whatever arrives afterwards.
\<close>

theorem colliding_id_starves:
  assumes "stdio_run (ks @ [Begin v i, Begin u i]) s" "u \<noteq> v"
  shows "sd_sender s u \<noteq> Got r"
  using colliding_inv [OF assms(1) refl assms(2)] by auto

text \<open>
  An event stream read in pieces that end with whole events (a blank line) is read like the whole text.
\<close>

theorem stream_pieces:
  assumes "\<forall>c \<in> set cs. suffix [CHR 0x0A, CHR 0x0A] c"
  shows "consumeStream resolve (cs @ [d]) st = consumeStream resolve [concat cs @ d] st"
  using stream_at_events [OF assms] by (simp add: consumeStream_def)

text \<open>
  The server on standard input and output and the one over HTTP answer alike, apart from the handshake and the list of
  resources, which the former does not have.
\<close>

theorem stdio_agrees_with_http:
  assumes "rpc_request v = Some (i, me, params)" "me \<noteq> ''initialize''" "me \<noteq> ''resources/list''"
  shows "stdio_reply s (i, me, params) w = mcp_dispatch s v w"
  using assms by (simp add: stdio_reply_def mcp_dispatch_def handleToolsList_def handleToolCall_def Let_def)

section \<open>Witnesses\<close>

definition wit_bin :: fs where
  "wit_bin = [[''usr''] \<mapsto> NDir, [''usr'', ''bin''] \<mapsto> NDir, [''usr'', ''bin'', ''x''] \<mapsto> NFile [], [''l''] \<mapsto> NLink ''/usr/bin'']"

theorem command_confined_witness:
  "validateCommand wit_os wit_bin (\<lambda>_. True) ''/l/x'' = Inr ''/usr/bin/x'' \<and> EvalSymlinks wit_os wit_bin ''/usr/bin/x'' = Inr ''/usr/bin/x''"
proof -
  have v: "validateCommand wit_os wit_bin (\<lambda>_. True) ''/l/x'' = Inr ''/usr/bin/x''"
    by (simp add: validateCommand_def EvalSymlinks_def wit_path_simps wit_bin_def node_at_def allowedDirs_def comps_def)
  from command_confined [OF v] v show ?thesis by blast
qed

lemma wit_stdio_run:
  "\<exists>s. stdio_run [Recv 6 (Inr None), Begin 1 6, Begin 0 5] s \<and> sd_sender s 0 = Waiting 5 \<and> sd_chan s 0 = None \<and> sd_reading s"
proof -
  let ?s1 = "NewStdioTransport\<lparr>sd_pending := [5 \<mapsto> 0], sd_sender := (\<lambda>_. Idle)(0 := Waiting 5)\<rparr>"
  let ?s2 = "?s1\<lparr>sd_pending := [5 \<mapsto> 0, 6 \<mapsto> 1], sd_sender := (\<lambda>_. Idle)(0 := Waiting 5, 1 := Waiting 6)\<rparr>"
  let ?s3 = "?s2\<lparr>sd_pending := [5 \<mapsto> 0], sd_chan := [1 \<mapsto> Inr None]\<rparr>"
  have "stdio_run [Begin 0 5] ?s1" by (rule stdio_run.step [OF stdio_run.start]) (simp add: NewStdioTransport_def)
  then have "stdio_run [Begin 1 6, Begin 0 5] ?s2" by (rule stdio_run.step) (simp add: NewStdioTransport_def)
  then have "stdio_run [Recv 6 (Inr None), Begin 1 6, Begin 0 5] ?s3" by (rule stdio_run.step) (simp add: NewStdioTransport_def fun_upd_twist)
  then show ?thesis by (intro exI [of _ ?s3]) (simp add: NewStdioTransport_def)
qed

theorem responses_correlated_witness:
  "\<exists>s s1 s2. stdio_run [Recv 6 (Inr None), Begin 1 6, Begin 0 5] s \<and> stdio_step (Recv 5 (Inr None)) s = Some s1 \<and>
    stdio_step (Take 0) s1 = Some s2 \<and> sd_sender s2 0 = Got (Inr None)"
proof -
  obtain s where s: "stdio_run [Recv 6 (Inr None), Begin 1 6, Begin 0 5] s" "sd_sender s 0 = Waiting 5 \<and> sd_chan s 0 = None \<and> sd_reading s"
    using wit_stdio_run by blast
  have "distinct_ids [Recv 6 (Inr None), Begin 1 6, Begin 0 5]" by (auto simp: distinct_ids_def)
  then have "\<exists>s1 s2. stdio_step (Recv 5 (Inr None)) s = Some s1 \<and> stdio_step (Take 0) s1 = Some s2 \<and> sd_sender s2 = (sd_sender s)(0 := Got (Inr None))"
    using responses_correlated [OF s(1)] s(2) by blast
  then obtain s1 s2 where "stdio_step (Recv 5 (Inr None)) s = Some s1" "stdio_step (Take 0) s1 = Some s2"
      "sd_sender s2 = (sd_sender s)(0 := Got (Inr None))" by blast
  with s(1) show ?thesis by (metis fun_upd_same)
qed

theorem colliding_id_starves_witness:
  "\<exists>s. stdio_run [Recv 5 (Inr None), Begin 1 5, Begin 0 5] s \<and> sd_sender s 0 \<noteq> Got (Inr None)"
proof -
  let ?s1 = "NewStdioTransport\<lparr>sd_pending := [5 \<mapsto> 0], sd_sender := (\<lambda>_. Idle)(0 := Waiting 5)\<rparr>"
  let ?s2 = "?s1\<lparr>sd_pending := [5 \<mapsto> 1], sd_sender := (\<lambda>_. Idle)(0 := Waiting 5, 1 := Waiting 5)\<rparr>"
  let ?s3 = "?s2\<lparr>sd_pending := Map.empty, sd_chan := [1 \<mapsto> Inr None]\<rparr>"
  have "stdio_run [Begin 0 5] ?s1" by (rule stdio_run.step [OF stdio_run.start]) (simp add: NewStdioTransport_def)
  then have "stdio_run [Begin 1 5, Begin 0 5] ?s2" by (rule stdio_run.step) (simp add: NewStdioTransport_def)
  then have "stdio_run (Recv 5 (Inr None) # [Begin 1 5, Begin 0 5]) ?s3"
    by (rule stdio_run.step) (simp add: NewStdioTransport_def)
  then have r: "stdio_run ([Recv 5 (Inr None)] @ [Begin 1 5, Begin 0 5]) ?s3" by simp
  from colliding_id_starves [OF r] r show ?thesis by (intro exI [of _ ?s3]) simp
qed

end
