(* ===== verification/Delegation.thy ===== *)
theory Delegation
  imports Go_Prelude
begin

text \<open>
  Delegation between agents, \<^verbatim>\<open>pkg/delegation\<close>: the tools that hand a task or a question to a coworker, their
  injection into the agents of a crew (\<^verbatim>\<open>InjectDelegationTools\<close> of \<^verbatim>\<open>pkg/crew/crew.go\<close>), and the bridge to remote
  agents with its bound on nested delegations.

  An agent is its role and its \<^verbatim>\<open>Execute\<close>, an arbitrary function on the world; \<open>fmt_v\<close> formats a value. The two
  tools share the contract of the locale \<open>coworker_tool\<close>.
\<close>

section \<open>Tools\<close>

record 'w coworker =
  cw_Role :: string
  cw_Execute :: "string \<Rightarrow> gmap \<Rightarrow> 'w \<Rightarrow> gvalue result \<times> 'w"

definition quoted :: "string \<Rightarrow> string" where
  "quoted s = [CHR 0x27] @ s @ [CHR 0x27]"

definition tool_arg :: "gmap \<Rightarrow> string \<Rightarrow> string result" where
  "tool_arg input k =
     (case input k of
        None \<Rightarrow> Inl (EMsg (''missing '' @ quoted k @ '' in input''))
      | Some (VString s) \<Rightarrow> Inr s
      | Some _ \<Rightarrow> Inl (EMsg (quoted k @ '' must be a string'')))"

definition task_context :: "gmap \<Rightarrow> string" where
  "task_context input = (case get_string input ''context'' of None \<Rightarrow> [] | Some c \<Rightarrow> c)"

definition find_coworker :: "string \<Rightarrow> 'w coworker list \<Rightarrow> 'w coworker option" where
  "find_coworker role cws = find (\<lambda>c. to_lower (cw_Role c) = to_lower role) cws"

definition with_context :: "string \<Rightarrow> string \<Rightarrow> string" where
  "with_context t c = (if c \<noteq> [] then t @ [CHR 0x0A, CHR 0x0A] @ ''Additional Context:'' @ [CHR 0x0A] @ c else t)"

definition not_found :: "string \<Rightarrow> 'w coworker list \<Rightarrow> goerr" where
  "not_found role cws =
     EMsg (''coworker '' @ quoted role @ '' not found. Available coworkers: ['' @ str_join (map cw_Role cws) '', '' @ '']'')"

definition dw_Execute :: "(gvalue \<Rightarrow> string) \<Rightarrow> 'w coworker list \<Rightarrow> gmap \<Rightarrow> 'w \<Rightarrow> string result \<times> 'w" where
  "dw_Execute fmt_v cws input w =
     (case tool_arg input ''coworker'' of Inl e \<Rightarrow> (Inl e, w) | Inr role \<Rightarrow>
      case tool_arg input ''task'' of Inl e \<Rightarrow> (Inl e, w) | Inr task \<Rightarrow>
      case find_coworker role cws of None \<Rightarrow> (Inl (not_found role cws), w) | Some target \<Rightarrow>
      case cw_Execute target (with_context task (task_context input)) Map.empty w of
        (Inl e, w1) \<Rightarrow> (Inl (EWrap (''delegation to '' @ quoted role @ '' failed: '') e []), w1)
      | (Inr v, w1) \<Rightarrow> (Inr (fmt_v v), w1))"

definition aq_Execute :: "(gvalue \<Rightarrow> string) \<Rightarrow> 'w coworker list \<Rightarrow> gmap \<Rightarrow> 'w \<Rightarrow> string result \<times> 'w" where
  "aq_Execute fmt_v cws input w =
     (case tool_arg input ''coworker'' of Inl e \<Rightarrow> (Inl e, w) | Inr role \<Rightarrow>
      case tool_arg input ''question'' of Inl e \<Rightarrow> (Inl e, w) | Inr question \<Rightarrow>
      case find_coworker role cws of None \<Rightarrow> (Inl (not_found role cws), w) | Some target \<Rightarrow>
      case cw_Execute target (with_context (''I need your help answering the following question: '' @ question) (task_context input)) Map.empty w of
        (Inl e, w1) \<Rightarrow> (Inl (EWrap (''question to '' @ quoted role @ '' failed: '') e []), w1)
      | (Inr v, w1) \<Rightarrow> (Inr (fmt_v v), w1))"

definition dw_Description :: "'w coworker list \<Rightarrow> string" where
  "dw_Description cws =
     ''Delegate a specific task to one of the following coworkers: ['' @ str_join (map cw_Role cws) '', '' @
     '']. Input requires '' @ quoted ''coworker'' @ '' (the role name) and '' @ quoted ''task'' @ '' (the task description) and '' @ quoted ''context'' @ '' (any helpful context).''"

definition aq_Description :: "'w coworker list \<Rightarrow> string" where
  "aq_Description cws =
     ''Ask a specific question to one of the following coworkers: ['' @ str_join (map cw_Role cws) '', '' @
     '']. Input requires '' @ quoted ''coworker'' @ '' (the role name) and '' @ quoted ''question'' @ '' (the question to ask) and '' @ quoted ''context'' @ '' (any helpful context).''"

section \<open>Injection\<close>

text \<open>
  Agents are cells of a heap, coworkers are kept by address. Only local agents (\<^verbatim>\<open>*agents.Agent\<close>) have a list of
  tools that is written here.
\<close>

datatype atool = OtherTool string | DelegateWork "nat list" | AskQuestion "nat list"

fun tool_name :: "atool \<Rightarrow> string" where
  "tool_name (OtherTool n) = n"
| "tool_name (DelegateWork _) = ''DelegateWork''"
| "tool_name (AskQuestion _) = ''AskQuestion''"

record crew_agent =
  cg_Local :: bool
  cg_AllowDelegation :: bool
  cg_Tools :: "atool list"

definition inject_one :: "nat list \<Rightarrow> nat \<Rightarrow> (nat \<Rightarrow> crew_agent) \<Rightarrow> nat \<Rightarrow> crew_agent" where
  "inject_one agents a h =
     (let ag = h a; coworkers = filter (\<lambda>b. b \<noteq> a) agents in
      if \<not> cg_Local ag \<or> \<not> cg_AllowDelegation ag then h
      else if coworkers = [] then h
      else h(a := ag\<lparr>cg_Tools := filter (\<lambda>t. tool_name t \<noteq> ''DelegateWork'' \<and> tool_name t \<noteq> ''AskQuestion'') (cg_Tools ag) @
                       [DelegateWork coworkers, AskQuestion coworkers]\<rparr>))"

definition InjectDelegationTools :: "nat list \<Rightarrow> (nat \<Rightarrow> crew_agent) \<Rightarrow> nat \<Rightarrow> crew_agent" where
  "InjectDelegationTools agents h = fold (inject_one agents) agents h"

section \<open>The bridge to remote agents\<close>

definition MaxDelegationDepth :: nat where
  "MaxDelegationDepth = 5"

text \<open>
  A context carries its depth, \<open>0\<close> when it has none. A registered agent may delegate again with the context it was
  given; this is its first argument. \<open>ended\<close> tells whether the context has ended, with its error. The role in the
  last error message is quoted without escapes.
\<close>

type_synonym 'w delegate = "string \<Rightarrow> string \<Rightarrow> string \<Rightarrow> 'w \<Rightarrow> string result \<times> 'w"

type_synonym 'w adapter = "'w delegate \<Rightarrow> string \<Rightarrow> gmap \<Rightarrow> 'w \<Rightarrow> gvalue result \<times> 'w"

definition role_key :: "string \<Rightarrow> string" where
  "role_key role = to_lower (trim_space role)"

definition RegisterA2AAdapter :: "string \<Rightarrow> 'w adapter \<Rightarrow> (string \<rightharpoonup> 'w adapter) \<Rightarrow> string \<rightharpoonup> 'w adapter" where
  "RegisterA2AAdapter role agent reg = reg(role_key role \<mapsto> agent)"

function DelegateViaA2A ::
  "(gvalue \<Rightarrow> string) \<Rightarrow> ('w \<Rightarrow> goerr option) \<Rightarrow> (string \<rightharpoonup> 'w adapter) \<Rightarrow> nat \<Rightarrow> 'w delegate" where
  "DelegateViaA2A fmt_v ended reg depth role task ctxt w =
     (if trim_space role = [] then (Inl (EMsg ''delegation: coworker role is required''), w)
      else if trim_space task = [] then (Inl (EMsg ''delegation: task is required''), w)
      else if length task > 20000 then (Inl (EMsg ''delegation: task exceeds 20000 character limit''), w)
      else if depth \<ge> MaxDelegationDepth
      then (Inl (EMsg (''delegation: max depth '' @ show_nat MaxDelegationDepth @ '' exceeded (cycle guard)'')), w)
      else (case reg (role_key role) of
              None \<Rightarrow> (Inl (EMsg (''delegation: no A2A adapter registered for role '' @ [CHR 0x22] @ role @ [CHR 0x22])), w)
            | Some target \<Rightarrow>
                (case ended w of
                   Some e \<Rightarrow> (Inl e, w)
                 | None \<Rightarrow>
                     (case target (DelegateViaA2A fmt_v ended reg (Suc depth)) (task @ ''. Context: '' @ ctxt)
                             [''delegation_depth'' \<mapsto> VInt (int depth + 1)] w of
                        (Inl e, w1) \<Rightarrow> (Inl (EWrap ''delegation: remote execute failed: '' e []), w1)
                      | (Inr v, w1) \<Rightarrow> (Inr (fmt_v v), w1)))))"
  by pat_completeness auto
termination
  by (relation "measure (\<lambda>(f, e, r, d, _). MaxDelegationDepth - d)") auto

declare DelegateViaA2A.simps [simp del]

section \<open>The contract of the coworker tools\<close>

text \<open>
  \<open>prompt\<close> is what the tool makes of its input, when the input is acceptable. The tool runs the coworker it finds,
  once, or nothing.
\<close>

locale coworker_tool =
  fixes tool :: "(gvalue \<Rightarrow> string) \<Rightarrow> 'w coworker list \<Rightarrow> gmap \<Rightarrow> 'w \<Rightarrow> string result \<times> 'w" and prompt :: "gmap \<Rightarrow> string option"
  assumes runs: "get_string input ''coworker'' = Some role \<Longrightarrow> prompt input = Some p \<Longrightarrow> find_coworker role cws = Some c \<Longrightarrow>
      snd (tool fmt_v cws input w) = snd (cw_Execute c p Map.empty w) \<and>
      (\<forall>x. fst (tool fmt_v cws input w) = Inr x \<longleftrightarrow> (\<exists>v. fst (cw_Execute c p Map.empty w) = Inr v \<and> x = fmt_v v))"
    and idle: "get_string input ''coworker'' = None \<or> prompt input = None \<or> (\<exists>role. get_string input ''coworker'' = Some role \<and> find_coworker role cws = None) \<Longrightarrow>
      \<exists>e. tool fmt_v cws input w = (Inl e, w)"
begin

lemma first_match:
  assumes "tool fmt_v cws input w = (r, w1)" "w1 \<noteq> w \<or> is_ok r"
  shows "\<exists>role p pre c post. get_string input ''coworker'' = Some role \<and> prompt input = Some p \<and> cws = pre @ c # post \<and>
    to_lower (cw_Role c) = to_lower role \<and> (\<forall>d \<in> set pre. to_lower (cw_Role d) \<noteq> to_lower role) \<and>
    w1 = snd (cw_Execute c p Map.empty w) \<and> (\<forall>x. r = Inr x \<longleftrightarrow> (\<exists>v. fst (cw_Execute c p Map.empty w) = Inr v \<and> x = fmt_v v))"
proof -
  have "\<not> (\<exists>e. tool fmt_v cws input w = (Inl e, w))" using assms by auto
  then obtain role p c where f: "get_string input ''coworker'' = Some role" "prompt input = Some p" "find_coworker role cws = Some c"
    using idle [of input cws fmt_v w] by (cases "get_string input ''coworker''"; cases "prompt input") fastforce+
  obtain i where i: "i < length cws" "to_lower (cw_Role (cws ! i)) = to_lower role" "c = cws ! i"
      "\<forall>j < i. to_lower (cw_Role (cws ! j)) \<noteq> to_lower role"
    using f(3) by (auto simp: find_coworker_def find_Some_iff)
  then have "\<forall>d \<in> set (take i cws). to_lower (cw_Role d) \<noteq> to_lower role" by (auto simp: in_set_conv_nth)
  then show ?thesis
    using f(1,2) i(1,2,3) runs [OF f, of fmt_v w] assms(1) id_take_nth_drop [OF i(1)]
    by (intro exI [of _ role] exI [of _ p] exI [of _ "take i cws"] exI [of _ c] exI [of _ "drop (Suc i) cws"]) auto
qed

end

definition dw_prompt :: "gmap \<Rightarrow> string option" where
  "dw_prompt input = map_option (\<lambda>t. with_context t (task_context input)) (get_string input ''task'')"

definition aq_prompt :: "gmap \<Rightarrow> string option" where
  "aq_prompt input =
     map_option (\<lambda>t. with_context (''I need your help answering the following question: '' @ t) (task_context input)) (get_string input ''question'')"

lemma tool_arg_get:
  "get_string input k = Some s \<Longrightarrow> tool_arg input k = Inr s" "get_string input k = None \<Longrightarrow> \<exists>e. tool_arg input k = Inl e"
  by (auto simp: tool_arg_def get_string_def split: option.splits gvalue.splits)

interpretation delegate_work: coworker_tool dw_Execute dw_prompt
proof (standard, goal_cases)
  case (1 input role p cws c fmt_v w)
  then show ?case
    by (auto simp: dw_Execute_def dw_prompt_def tool_arg_get(1) split: prod.splits sum.splits)
next
  case (2 input cws fmt_v w)
  then show ?case
    using tool_arg_get(2) [of input "''coworker''"] tool_arg_get(2) [of input "''task''"]
    by (cases "get_string input ''coworker''"; cases "get_string input ''task''") (auto simp: dw_Execute_def dw_prompt_def tool_arg_get(1))
qed

interpretation ask_question: coworker_tool aq_Execute aq_prompt
proof (standard, goal_cases)
  case (1 input role p cws c fmt_v w)
  then show ?case
    by (auto simp: aq_Execute_def aq_prompt_def tool_arg_get(1) split: prod.splits sum.splits)
next
  case (2 input cws fmt_v w)
  then show ?case
    using tool_arg_get(2) [of input "''coworker''"] tool_arg_get(2) [of input "''question''"]
    by (cases "get_string input ''coworker''"; cases "get_string input ''question''") (auto simp: aq_Execute_def aq_prompt_def tool_arg_get(1))
qed

section \<open>Lemmas\<close>

definition injected :: "nat list \<Rightarrow> nat \<Rightarrow> crew_agent \<Rightarrow> crew_agent" where
  "injected agents a ag =
     (let coworkers = filter (\<lambda>b. b \<noteq> a) agents in
      if cg_Local ag \<and> cg_AllowDelegation ag \<and> coworkers \<noteq> [] then
        ag\<lparr>cg_Tools := filter (\<lambda>t. tool_name t \<notin> {''DelegateWork'', ''AskQuestion''}) (cg_Tools ag) @ [DelegateWork coworkers, AskQuestion coworkers]\<rparr>
      else ag)"

lemma injected_idem: "injected agents a (injected agents a ag) = injected agents a ag"
  by (simp add: injected_def Let_def)

lemma inject_one_at: "inject_one agents a h = h(a := injected agents a (h a))"
  by (auto simp: inject_one_def injected_def Let_def)

lemma fold_inject: "fold (inject_one agents) as h = (\<lambda>b. if b \<in> set as then injected agents b (h b) else h b)"
  by (induction as arbitrary: h) (auto simp: inject_one_at injected_idem fun_eq_iff)

text \<open>
  An agent that delegates at most \<open>b\<close> times per execution: when each delegation adds at most \<open>k\<close> to a counter of the
  world, an execution adds at most \<open>1 + b k\<close>.
\<close>

definition delegates_at_most :: "('w \<Rightarrow> nat) \<Rightarrow> nat \<Rightarrow> 'w adapter \<Rightarrow> bool" where
  "delegates_at_most cnt b a \<longleftrightarrow>
     (\<forall>dg k. (\<forall>role task c w. cnt (snd (dg role task c w)) \<le> cnt w + k) \<longrightarrow>
        (\<forall>i opts w. cnt (snd (a dg i opts w)) \<le> cnt w + 1 + b * k))"

lemma bridge_bound:
  assumes "\<forall>a \<in> ran reg. delegates_at_most cnt b a"
  shows "cnt (snd (DelegateViaA2A fmt_v ended reg depth role task c w)) \<le> cnt w + (\<Sum>i < MaxDelegationDepth - depth. b ^ i)"
proof (induction "MaxDelegationDepth - depth" arbitrary: depth role task c w)
  case 0
  then show ?case by (simp add: DelegateViaA2A.simps [of fmt_v ended reg depth])
next
  case (Suc k)
  have k: "k = MaxDelegationDepth - Suc depth" using Suc.hyps(2) by simp
  have sum: "(\<Sum>i < MaxDelegationDepth - depth. b ^ i) = 1 + b * (\<Sum>i < k. b ^ i)"
    unfolding Suc.hyps(2) [symmetric] by (simp add: sum.lessThan_Suc_shift sum_distrib_left del: sum.lessThan_Suc)
  show ?case
  proof (cases "reg (role_key role)")
    case None
    then show ?thesis by (simp add: DelegateViaA2A.simps [of fmt_v ended reg depth])
  next
    case (Some a)
    then have "delegates_at_most cnt b a" using assms by (auto simp: ran_def)
    moreover have "\<forall>role task c w. cnt (snd (DelegateViaA2A fmt_v ended reg (Suc depth) role task c w)) \<le> cnt w + (\<Sum>i < k. b ^ i)"
      using Suc.hyps(1) [OF k] unfolding k by blast
    ultimately have "cnt (snd (a (DelegateViaA2A fmt_v ended reg (Suc depth)) i opts w)) \<le> cnt w + 1 + b * (\<Sum>i < k. b ^ i)" for i opts
      unfolding delegates_at_most_def by blast
    from this [of "task @ ''. Context: '' @ c" "[''delegation_depth'' \<mapsto> VInt (int depth + 1)]"] obtain r w1 where
      call: "a (DelegateViaA2A fmt_v ended reg (Suc depth)) (task @ ''. Context: '' @ c) [''delegation_depth'' \<mapsto> VInt (int depth + 1)] w = (r, w1)"
      "cnt w1 \<le> cnt w + 1 + b * (\<Sum>i < k. b ^ i)" by (metis prod.collapse)
    show ?thesis
      unfolding sum DelegateViaA2A.simps [of fmt_v ended reg depth] Some option.case call(1) prod.case
      using call(2) by (cases r; cases "ended w") simp_all
  qed
qed

section \<open>Properties\<close>

text \<open>
  Nested delegations are bounded. Through the bridge a delegation always comes back; if every registered agent
  delegates at most \<open>b\<close> times per execution and otherwise counts itself once, then a delegation from the top
  counts at most \<open>1 + b + b\<^sup>2 + b\<^sup>3 + b\<^sup>4\<close> executions, whatever the agents delegate to whom.
\<close>

theorem delegation_tree_bounded:
  assumes "\<forall>a \<in> ran reg. delegates_at_most cnt b a"
  shows "cnt (snd (DelegateViaA2A fmt_v ended reg 0 role task c w)) \<le> cnt w + (1 + b + b ^ 2 + b ^ 3 + b ^ 4)"
  using bridge_bound [OF assms, of fmt_v ended 0 role task c w]
  by (simp add: MaxDelegationDepth_def numeral_eq_Suc)

text \<open>
  A coworker tool reaches the right coworker. When \<^verbatim>\<open>DelegateWork\<close> or \<^verbatim>\<open>AskQuestion\<close> does anything or succeeds,
  the input named a coworker, and exactly one was executed, once: the first of the list whose role is
  that name up to case; the tool succeeds exactly when that execution does, with its formatted value.
\<close>

theorem delegated_to_first_match:
  assumes "tool = dw_Execute \<and> prompt = dw_prompt \<or> tool = aq_Execute \<and> prompt = aq_prompt"
    and "tool fmt_v cws input w = (r, w1)" "w1 \<noteq> w \<or> is_ok r"
  shows "\<exists>role p pre c post. get_string input ''coworker'' = Some role \<and> prompt input = Some p \<and> cws = pre @ c # post \<and>
    to_lower (cw_Role c) = to_lower role \<and> (\<forall>d \<in> set pre. to_lower (cw_Role d) \<noteq> to_lower role) \<and>
    w1 = snd (cw_Execute c p Map.empty w) \<and> (\<forall>x. r = Inr x \<longleftrightarrow> (\<exists>v. fst (cw_Execute c p Map.empty w) = Inr v \<and> x = fmt_v v))"
  using assms(1)
proof
  assume t: "tool = dw_Execute \<and> prompt = dw_prompt"
  then show ?thesis using delegate_work.first_match [of fmt_v cws input w r w1] assms(2,3) by simp
next
  assume t: "tool = aq_Execute \<and> prompt = aq_prompt"
  then show ?thesis using ask_question.first_match [of fmt_v cws input w r w1] assms(2,3) by simp
qed

text \<open>
  Injection sets the delegation tools right. Afterwards a local agent of the crew that may delegate and has
  coworkers has its other tools followed by one \<^verbatim>\<open>DelegateWork\<close> and one \<^verbatim>\<open>AskQuestion\<close> tool over the crew without itself;
  nothing else is touched, and injecting again changes nothing.
\<close>

theorem injection_exact:
  "InjectDelegationTools agents h a =
     (if a \<in> set agents \<and> cg_Local (h a) \<and> cg_AllowDelegation (h a) \<and> (\<exists>b \<in> set agents. b \<noteq> a) then
        (h a)\<lparr>cg_Tools := filter (\<lambda>t. tool_name t \<notin> {''DelegateWork'', ''AskQuestion''}) (cg_Tools (h a)) @
                [DelegateWork (filter (\<lambda>b. b \<noteq> a) agents), AskQuestion (filter (\<lambda>b. b \<noteq> a) agents)]\<rparr>
      else h a) \<and>
   InjectDelegationTools agents (InjectDelegationTools agents h) = InjectDelegationTools agents h"
proof -
  have ne: "(filter (\<lambda>b. b \<noteq> a) agents \<noteq> []) = (\<exists>b \<in> set agents. b \<noteq> a)" by (auto simp: filter_empty_conv)
  have i: "InjectDelegationTools agents g = (\<lambda>b. if b \<in> set agents then injected agents b (g b) else g b)" for g
    by (simp add: InjectDelegationTools_def fold_inject)
  have "InjectDelegationTools agents (InjectDelegationTools agents h) = InjectDelegationTools agents h"
    unfolding i by (rule ext) (simp add: injected_idem)
  moreover have "InjectDelegationTools agents h a = (if a \<in> set agents then injected agents a (h a) else h a)" unfolding i ..
  ultimately show ?thesis unfolding injected_def Let_def ne by (auto simp only: if_True if_False simp_thms split: if_split)
qed

section \<open>Witnesses\<close>

text \<open>Two agents that pass every task on to each other: five executions, then the guard.\<close>

definition wit_forward :: "string \<Rightarrow> nat adapter" where
  "wit_forward to dg i opts w =
     (case dg to ''t'' [] (Suc w) of (Inl e, w1) \<Rightarrow> (Inl e, w1) | (Inr s, w1) \<Rightarrow> (Inr (VString s), w1))"

definition wit_reg :: "string \<rightharpoonup> nat adapter" where
  "wit_reg = RegisterA2AAdapter ''a'' (wit_forward ''b'') (RegisterA2AAdapter ''b'' (wit_forward ''a'') Map.empty)"

lemma wit_role_key: "role_key ''a'' = ''a''" "role_key ''b'' = ''b''" "trim_space ''a'' = ''a''" "trim_space ''b'' = ''b''" "trim_space ''t'' = ''t''"
  by (simp_all add: role_key_def trim_space_def to_lower_def lower_char_def is_space_def less_eq_char_def)

lemma wit_copies: "\<forall>a \<in> ran wit_reg. delegates_at_most (\<lambda>w. w) 1 a"
proof -
  have "delegates_at_most (\<lambda>w. w) 1 (wit_forward to)" for to
    unfolding delegates_at_most_def wit_forward_def
    by (auto split: prod.splits sum.splits) (metis add_Suc snd_conv)+
  then show ?thesis by (auto simp: wit_reg_def RegisterA2AAdapter_def ran_def split: if_splits)
qed

theorem delegation_tree_bounded_witness:
  "snd (DelegateViaA2A (\<lambda>_. []) (\<lambda>_. None) wit_reg 0 ''a'' ''t'' [] 0) = 5 \<and>
   snd (DelegateViaA2A (\<lambda>_. []) (\<lambda>_. None) wit_reg 0 ''a'' ''t'' [] 0) \<le> 5"
proof -
  have "snd (DelegateViaA2A (\<lambda>_. []) (\<lambda>_. None) wit_reg 0 ''a'' ''t'' [] 0) = 5"
    by (simp add: DelegateViaA2A.simps wit_reg_def RegisterA2AAdapter_def wit_role_key wit_forward_def MaxDelegationDepth_def)
  moreover have "snd (DelegateViaA2A (\<lambda>_. []) (\<lambda>_. None) wit_reg 0 ''a'' ''t'' [] 0) \<le> 5"
    using delegation_tree_bounded [OF wit_copies, of "\<lambda>_. []" "\<lambda>_. None" "''a''" "''t''" "[]" 0] by simp
  ultimately show ?thesis by simp
qed

definition wit_coworkers :: "nat coworker list" where
  "wit_coworkers = [\<lparr>cw_Role = ''x'', cw_Execute = \<lambda>i opts w. (Inr VNil, w + 10)\<rparr>, \<lparr>cw_Role = ''A'', cw_Execute = \<lambda>i opts w. (Inr (VString i), Suc w)\<rparr>]"

theorem delegated_to_first_match_witness:
  "dw_Execute (\<lambda>_. ''ok'') wit_coworkers [''coworker'' \<mapsto> VString ''a'', ''task'' \<mapsto> VString ''t''] 0 = (Inr ''ok'', 1) \<and>
   (\<exists>c. c \<in> set wit_coworkers \<and> to_lower (cw_Role c) = to_lower ''a'')"
proof -
  have l: "to_lower ''A'' = ''a''" "to_lower ''a'' = ''a''" "to_lower ''x'' = ''x''"
    by (simp_all add: to_lower_def lower_char_def less_eq_char_def char_of_eq_iff take_bit_eq_mod)
  have e: "dw_Execute (\<lambda>_. ''ok'') wit_coworkers [''coworker'' \<mapsto> VString ''a'', ''task'' \<mapsto> VString ''t''] 0 = (Inr ''ok'', 1)"
    by (simp add: dw_Execute_def tool_arg_def find_coworker_def wit_coworkers_def l)
  obtain role c pre post where c: "get_string [''coworker'' \<mapsto> VString ''a'', ''task'' \<mapsto> VString ''t''] ''coworker'' = Some role"
      "wit_coworkers = pre @ c # post" "to_lower (cw_Role c) = to_lower role"
    using delegated_to_first_match [OF disjI1 [OF conjI [OF refl refl]] e disjI2] by fastforce
  have "role = ''a''" using c(1) by (simp add: get_string_def)
  moreover have "c \<in> set wit_coworkers" unfolding c(2) by simp
  ultimately have "\<exists>c. c \<in> set wit_coworkers \<and> to_lower (cw_Role c) = to_lower ''a''" using c(3) by blast
  with e show ?thesis by simp
qed

end
