(* ===== verification/API_Gate.thy ===== *)
theory API_Gate
  imports Auth_Sign "HOL-Library.AList"
begin

text \<open>
  What a request to the HTTP API meets before a handler (\<^verbatim>\<open>pkg/api/server.go\<close>): the limiter that counts the
  requests of an address in a sliding window, and the authentication middleware with its static tokens, bearer
  tokens and the query fallback of browsers. A method of the limiter is one atomic step; the order in which Go ranges over its table
  is an argument. SHA-256 and the token checks of \<open>Auth_Sign\<close> come with the environment.
\<close>

section \<open>The rate limiter\<close>

record rateLimiter =
  rl_hits :: "(string \<times> int list) list"
  rl_limit :: int
  rl_window :: int
  rl_disabled :: bool

definition newRateLimiter :: "int \<Rightarrow> int \<Rightarrow> rateLimiter" where
  "newRateLimiter l w = \<lparr>rl_hits = [], rl_limit = l, rl_window = w, rl_disabled = False\<rparr>"

definition maxRateLimiterIPs :: nat where
  "maxRateLimiterIPs = 10000"

abbreviation hits_of :: "(string \<times> int list) list \<Rightarrow> string \<Rightarrow> int list" where
  "hits_of h ip \<equiv> (case map_of h ip of Some v \<Rightarrow> v | None \<Rightarrow> [])"

definition keep_fresh :: "int \<Rightarrow> int \<Rightarrow> int list \<Rightarrow> int list" where
  "keep_fresh w now v = filter (\<lambda>t. now - t < w) v"

text \<open>The sweep over a full table, in the order \<open>ks\<close>.\<close>

fun rl_sweep :: "int \<Rightarrow> int \<Rightarrow> string list \<Rightarrow> (string \<times> int list) list \<Rightarrow> (string \<times> int list) list" where
  "rl_sweep w now [] h = h"
| "rl_sweep w now (k # ks) h =
     (case map_of h k of
        None \<Rightarrow> rl_sweep w now ks h
      | Some v \<Rightarrow>
          let keep = keep_fresh w now v;
              h' = (if keep = [] then AList.delete k h else AList.update k keep h)
          in if length h' < maxRateLimiterIPs then h' else rl_sweep w now ks h')"

definition allow :: "string list \<Rightarrow> int \<Rightarrow> string \<Rightarrow> rateLimiter \<Rightarrow> bool \<times> rateLimiter" where
  "allow order now ip rl =
     (if rl_disabled rl \<or> rl_limit rl \<le> 0 then (True, rl)
      else let fresh = keep_fresh (rl_window rl) now (hits_of (rl_hits rl) ip) in
        if int (length fresh) \<ge> rl_limit rl then (False, rl\<lparr>rl_hits := AList.update ip fresh (rl_hits rl)\<rparr>)
        else let h = (if fresh = [] \<and> length (rl_hits rl) \<ge> maxRateLimiterIPs
                      then rl_sweep (rl_window rl) now order (rl_hits rl) else rl_hits rl) in
          if fresh = [] \<and> length (rl_hits rl) \<ge> maxRateLimiterIPs \<and> length h \<ge> maxRateLimiterIPs
          then (False, rl\<lparr>rl_hits := h\<rparr>)
          else (True, rl\<lparr>rl_hits := AList.update ip (fresh @ [now]) h\<rparr>))"

section \<open>Authentication\<close>

record api_request =
  aq_FullPath :: string
  aq_Path :: string
  aq_GET :: bool
  aq_Authorization :: string
  aq_token :: string
  aq_IP :: string
  aq_IdemKey :: string
  aq_Body :: string

type_synonym reply = "nat \<times> (string \<times> gvalue) list"

record gate_env =
  gv_sha :: "string \<Rightarrow> string"
  gv_jwt :: jwtenv
  gv_jwt_secret :: string

definition insecure_default :: string where
  "insecure_default = ''gocrewwai-insecure-default-change-me''"

definition resolveAuthTokens :: "string \<Rightarrow> string \<Rightarrow> string list" where
  "resolveAuthTokens env_tokens env_token =
     (let out = filter (\<lambda>t. t \<noteq> []) (map trim_space (split_byte CHR '','' env_tokens)) in
      if env_tokens \<noteq> [] \<and> out \<noteq> [] then out
      else if env_token \<noteq> [] then [env_token] else [insecure_default])"

definition startup_error :: "string list \<Rightarrow> string \<Rightarrow> goerr option" where
  "startup_error tokens allow_dev =
     (if length tokens = 1 \<and> tokens ! 0 = insecure_default \<and> allow_dev \<noteq> ''1''
      then Some (EMsg (''api: refusing to serve with the insecure default token '' @
             [CHR 0xE2, CHR 0x80, CHR 0x94] @ '' set API_AUTH_TOKEN(S) or ALLOW_INSECURE_DEV=1 for local dev''))
      else None)"

definition tokenFingerprint :: "(string \<Rightarrow> string) \<Rightarrow> string \<Rightarrow> string" where
  "tokenFingerprint sha token = hex_encode (sha token)"

text \<open>A request passes with the owner that \<^verbatim>\<open>token_fp\<close> is set to (empty when unset), or is aborted.\<close>

datatype passage = Pass string | Abort reply

definition unauthorized :: passage where
  "unauthorized = Abort (401, [(''error'', VString ''unauthorized: invalid or missing API_AUTH_TOKEN'')])"

definition authenticationMiddleware :: "gate_env \<Rightarrow> string list \<Rightarrow> gotime \<Rightarrow> api_request \<Rightarrow> passage" where
  "authenticationMiddleware E tokens now q =
     (if \<not> has_prefix (aq_Path q) ''/api/'' then Pass []
      else if tokens = [] then Pass []
      else
        (case find (\<lambda>tok. aq_Authorization q \<noteq> [] \<and> aq_Authorization q = ''Bearer '' @ tok) tokens of
           Some tok \<Rightarrow> Pass (tokenFingerprint (gv_sha E) tok)
         | None \<Rightarrow>
             (let jwt = (if has_prefix (aq_Authorization q) ''Bearer '' then
                           (case ValidatorFromEnv (gv_jwt_secret E) of
                              None \<Rightarrow> None
                            | Some s \<Rightarrow>
                                (case Validate (gv_jwt E) (Some s) now (trim_prefix (aq_Authorization q) ''Bearer '') of
                                   Inl e \<Rightarrow> None
                                 | Inr c \<Rightarrow> Some (SubjectFingerprint (gv_sha E) (cl_Subject c))))
                         else None)
              in case jwt of
                   Some fp \<Rightarrow> Pass fp
                 | None \<Rightarrow>
                     if aq_GET q \<and> aq_token q \<noteq> [] then
                       (case find (\<lambda>tok. aq_token q = tok) tokens of
                          Some tok \<Rightarrow> Pass (tokenFingerprint (gv_sha E) tok)
                        | None \<Rightarrow> unauthorized)
                     else unauthorized)))"

text \<open>The middleware of the limiter, and the chain in front of the routes.\<close>

definition health_path :: string where
  "health_path = ''/api/v1/health''"

definition rate_middleware :: "string list \<Rightarrow> int \<Rightarrow> api_request \<Rightarrow> rateLimiter \<Rightarrow> reply option \<times> rateLimiter" where
  "rate_middleware order now q rl =
     (if aq_FullPath q = health_path \<or> aq_Path q = health_path then (None, rl)
      else (case allow order now (aq_IP q) rl of
              (True, rl') \<Rightarrow> (None, rl')
            | (False, rl') \<Rightarrow> (Some (429, [(''error'', VString ''rate limit exceeded'')]), rl')))"

definition gate ::
  "gate_env \<Rightarrow> string list \<Rightarrow> string list \<Rightarrow> int \<Rightarrow> gotime \<Rightarrow> api_request \<Rightarrow> rateLimiter \<Rightarrow> passage \<times> rateLimiter" where
  "gate E tokens order now wall q rl =
     (case rate_middleware order now q rl of
        (Some r, rl') \<Rightarrow> (Abort r, rl')
      | (None, rl') \<Rightarrow> (authenticationMiddleware E tokens wall q, rl'))"

section \<open>The limiter keeps its window\<close>

text \<open>A run of the limiter: the requests it admitted, with their times, the latest last.\<close>

fun admitted :: "(string list \<times> int \<times> string) list \<Rightarrow> rateLimiter \<Rightarrow> (int \<times> string) list \<times> rateLimiter" where
  "admitted [] rl = ([], rl)"
| "admitted ((order, now, ip) # cs) rl =
     (let (ok, rl1) = allow order now ip rl; (gs, rl2) = admitted cs rl1
      in ((if ok then [(now, ip)] else []) @ gs, rl2))"


definition grants_of :: "string \<Rightarrow> (int \<times> string) list \<Rightarrow> int list" where
  "grants_of ip G = map fst (filter (\<lambda>(n, i). i = ip) G)"

definition in_window :: "int \<Rightarrow> int \<Rightarrow> int list \<Rightarrow> int list" where
  "in_window w t ns = filter (\<lambda>n. t - w < n \<and> n \<le> t) ns"

definition rl_inv :: "int \<Rightarrow> (int \<times> string) list \<Rightarrow> rateLimiter \<Rightarrow> bool" where
  "rl_inv u0 G rl \<longleftrightarrow>
     distinct (map fst (rl_hits rl)) \<and> length (rl_hits rl) \<le> maxRateLimiterIPs \<and> (\<forall>(n, i) \<in> set G. n \<le> u0) \<and>
     (\<forall>ip now. u0 \<le> now \<longrightarrow>
        keep_fresh (rl_window rl) now (hits_of (rl_hits rl) ip) = keep_fresh (rl_window rl) now (grants_of ip G)) \<and>
     (\<forall>ip t. int (length (in_window (rl_window rl) t (grants_of ip G))) \<le> rl_limit rl)"

lemma keep_fresh_later: "now \<le> now' \<Longrightarrow> keep_fresh w now' (keep_fresh w now v) = keep_fresh w now' v"
  by (auto simp: keep_fresh_def intro!: filter_cong)

lemma keep_fresh_none: "now \<le> now' \<Longrightarrow> keep_fresh w now v = [] \<Longrightarrow> keep_fresh w now' v = []"
  by (force simp: keep_fresh_def filter_empty_conv)

lemma length_update_le: "length (AList.update k v h) \<le> Suc (length h)"
  by (induction h) auto

lemma length_update_known: "map_of h k \<noteq> None \<Longrightarrow> length (AList.update k v h) = length h"
  by (induction h) auto

lemma length_delete_le: "length (AList.delete k h) \<le> length h"
  by (simp add: AList.delete_eq)

lemma sweep_step:
  assumes "map_of h k = Some v" "distinct (map fst h)"
    and h': "h' = (if keep_fresh w now v = [] then AList.delete k h else AList.update k (keep_fresh w now v) h)"
  shows "distinct (map fst h')" "length h' \<le> length h"
    "now \<le> now' \<Longrightarrow> keep_fresh w now' (hits_of h' ip) = keep_fresh w now' (hits_of h ip)"
proof -
  show "distinct (map fst h')" using assms by (simp add: AList.distinct_update AList.distinct_delete)
  show "length h' \<le> length h" using assms by (auto simp: length_update_known length_delete_le)
  show "keep_fresh w now' (hits_of h' ip) = keep_fresh w now' (hits_of h ip)" if "now \<le> now'"
    using assms that keep_fresh_none [OF that] keep_fresh_later [OF that]
    by (auto simp: AList.delete_conv' AList.update_conv' keep_fresh_def)
qed

lemma sweep_keeps:
  "distinct (map fst h) \<Longrightarrow> distinct (map fst (rl_sweep w now ks h)) \<and> length (rl_sweep w now ks h) \<le> length h \<and>
    (\<forall>ip now'. now \<le> now' \<longrightarrow> keep_fresh w now' (hits_of (rl_sweep w now ks h) ip) = keep_fresh w now' (hits_of h ip))"
proof (induction w now ks h rule: rl_sweep.induct)
  case (2 w now k ks h)
  show ?case
  proof (cases "map_of h k")
    case None
    with 2 show ?thesis by simp
  next
    case (Some v)
    define h' where "h' = (if keep_fresh w now v = [] then AList.delete k h else AList.update k (keep_fresh w now v) h)"
    note s = sweep_step [OF Some 2(3) h'_def]
    have e: "rl_sweep w now (k # ks) h = (if length h' < maxRateLimiterIPs then h' else rl_sweep w now ks h')"
      using Some by (simp add: h'_def Let_def)
    show ?thesis
    proof (cases "length h' < maxRateLimiterIPs")
      case True
      with e s show ?thesis by simp
    next
      case False
      note IH = 2(2) [OF Some refl h'_def False s(1)]
      have l: "length (rl_sweep w now ks h') \<le> length h" using IH s(2) by linarith
      have "keep_fresh w now' (hits_of (rl_sweep w now ks h') ip) = keep_fresh w now' (hits_of h ip)" if "now \<le> now'" for ip now'
        using IH s(3) [OF that] that by simp
      with IH l e False show ?thesis by simp
    qed
  qed
qed simp


lemma allow_inv:
  assumes I: "rl_inv u0 G rl" and t: "u0 \<le> now" and on: "\<not> rl_disabled rl" "0 < rl_limit rl"
    and a: "allow order now ip rl = (ok, rl')"
  shows "rl_inv now (G @ (if ok then [(now, ip)] else [])) rl' \<and>
    rl_disabled rl' = rl_disabled rl \<and> rl_limit rl' = rl_limit rl \<and> rl_window rl' = rl_window rl"
proof -
  let ?w = "rl_window rl" and ?h = "rl_hits rl"
  define fresh where "fresh = keep_fresh ?w now (hits_of ?h ip)"
  define h where "h = (if fresh = [] \<and> length ?h \<ge> maxRateLimiterIPs then rl_sweep ?w now order ?h else ?h)"
  have d: "distinct (map fst ?h)" and l: "length ?h \<le> maxRateLimiterIPs" and G: "\<forall>(n, i) \<in> set G. n \<le> u0"
    and F: "\<And>ip now. u0 \<le> now \<Longrightarrow> keep_fresh ?w now (hits_of ?h ip) = keep_fresh ?w now (grants_of ip G)"
    and B: "\<And>ip t. int (length (in_window ?w t (grants_of ip G))) \<le> rl_limit rl"
    using I by (simp_all add: rl_inv_def)
  have G': "\<forall>(n, i) \<in> set G. n \<le> now" using G t by auto
  have fr: "fresh = keep_fresh ?w now (grants_of ip G)" using F t by (simp add: fresh_def)
  have h: "distinct (map fst h)" "length h \<le> maxRateLimiterIPs"
    "\<And>ip now'. now \<le> now' \<Longrightarrow> keep_fresh ?w now' (hits_of h ip) = keep_fresh ?w now' (grants_of ip G)"
    using sweep_keeps [OF d, of ?w now order] l F t d by (auto simp: h_def)
  have upd: "keep_fresh ?w now' (hits_of (AList.update ip (fresh @ x) g) i) = keep_fresh ?w now' (grants_of i G @ (if i = ip then x else []))"
    if "now \<le> now'" "\<And>i. keep_fresh ?w now' (hits_of g i) = keep_fresh ?w now' (grants_of i G)" for now' x i g
    using that keep_fresh_later [OF that(1)] by (auto simp: AList.update_conv' fr keep_fresh_def)
  consider "int (length fresh) \<ge> rl_limit rl" "ok = False" "rl' = rl\<lparr>rl_hits := AList.update ip fresh ?h\<rparr>"
    | "ok = False" "rl' = rl\<lparr>rl_hits := h\<rparr>"
    | "int (length fresh) < rl_limit rl" "ok" "rl' = rl\<lparr>rl_hits := AList.update ip (fresh @ [now]) h\<rparr>"
      "\<not> (fresh = [] \<and> length ?h \<ge> maxRateLimiterIPs \<and> length h \<ge> maxRateLimiterIPs)"
    using a on by (auto simp: allow_def Let_def fresh_def [symmetric] h_def [symmetric] split: if_splits)
  then show ?thesis
  proof cases
    case 1
    have "fresh \<noteq> []" using 1(1) on by auto
    then have "map_of ?h ip \<noteq> None" by (auto simp: fresh_def keep_fresh_def split: option.splits)
    then show ?thesis
      using 1 d l G' B F t upd [of _ ?h "[]"] by (simp add: rl_inv_def AList.distinct_update length_update_known)
  next
    case 2
    then show ?thesis using h G' B by (simp add: rl_inv_def)
  next
    case 3
    have len: "length (AList.update ip (fresh @ [now]) h) \<le> maxRateLimiterIPs"
    proof (cases "fresh = []")
      case True
      then have "length h < maxRateLimiterIPs" using 3(4) l by (auto simp: h_def)
      then show ?thesis using length_update_le [of ip "fresh @ [now]" h] by simp
    next
      case False
      then have "map_of h ip \<noteq> None" by (auto simp: h_def fresh_def keep_fresh_def split: option.splits)
      then show ?thesis using h(2) by (simp add: length_update_known)
    qed
    have g: "grants_of i (G @ [(now, ip)]) = grants_of i G @ (if i = ip then [now] else [])" for i
      by (simp add: grants_of_def)
    have "int (length (in_window ?w t (grants_of i (G @ [(now, ip)])))) \<le> rl_limit rl" for i t
    proof (cases "i = ip \<and> t - ?w < now \<and> now \<le> t")
      case True
      have "filter (\<lambda>n. t - ?w < n \<and> n \<le> t) v = filter (\<lambda>n. t - ?w < n \<and> n \<le> t) (filter (\<lambda>n. now - n < ?w) v)" for v
        using True by (auto intro!: filter_cong)
      then have "length (in_window ?w t (grants_of ip G)) \<le> length fresh"
        unfolding in_window_def fr keep_fresh_def by (metis length_filter_le)
      then show ?thesis using True 3(1) g by (simp add: in_window_def)
    next
      case False
      then show ?thesis using B [of t i] g by (auto simp: in_window_def)
    qed
    then show ?thesis
      using 3 len h G' g upd [OF _ h(3)] by (simp add: rl_inv_def AList.distinct_update)
  qed
qed

lemma admitted_inv:
  assumes "rl_inv u0 G rl" "\<not> rl_disabled rl" "0 < rl_limit rl" "sorted (u0 # map (\<lambda>(order, now, ip). now) cs)"
    "admitted cs rl = (gs, rl')"
  shows "(\<exists>u. rl_inv u (G @ gs) rl') \<and> rl_limit rl' = rl_limit rl \<and> rl_window rl' = rl_window rl"
  using assms
proof (induction cs arbitrary: u0 G rl gs)
  case (Cons c cs)
  obtain order now ip where c: "c = (order, now, ip)" by (cases c)
  obtain ok rl1 where a: "allow order now ip rl = (ok, rl1)" by fastforce
  obtain gs1 where r: "admitted cs rl1 = (gs1, rl')" and gs: "gs = (if ok then [(now, ip)] else []) @ gs1"
    using Cons.prems(5) a c by (auto simp: Let_def split: prod.splits)
  have t: "u0 \<le> now" and s: "sorted (now # map (\<lambda>(order, now, ip). now) cs)" using Cons.prems(4) c by auto
  note I = allow_inv [OF Cons.prems(1) t Cons.prems(2,3) a]
  show ?case using Cons.IH [OF _ _ _ s r, of "G @ (if ok then [(now, ip)] else [])"] I Cons.prems(2,3) gs by simp
qed auto



lemma find_SomeD: "find P xs = Some x \<Longrightarrow> x \<in> set xs \<and> P x"
  by (induction xs) (auto split: if_splits)

text \<open>
  C34: A request that reaches a handler has proved who it is. When tokens are configured, a request under \<^verbatim>\<open>/api/\<close> that passes
  presents one of them, in the header or, for reading, in the query, and is given that token's fingerprint as its owner, or it presents a bearer
  token that the configured secret validates and is given its subject's fingerprint; and the tokens a server resolves are never none nor empty.
\<close>

theorem owner_is_proved:
  assumes "has_prefix (aq_Path q) ''/api/''" "authenticationMiddleware E (resolveAuthTokens e1 e2) now q = Pass fp"
  shows "(\<exists>tok. tok \<noteq> [] \<and> tok \<in> set (resolveAuthTokens e1 e2) \<and> fp = tokenFingerprint (gv_sha E) tok \<and>
       (aq_Authorization q = ''Bearer '' @ tok \<or> aq_GET q \<and> aq_token q = tok)) \<or>
    (\<exists>jwt c. aq_Authorization q = ''Bearer '' @ jwt \<and> gv_jwt_secret E \<noteq> [] \<and>
       Validate (gv_jwt E) (Some (gv_jwt_secret E)) now jwt = Inr c \<and> fp = SubjectFingerprint (gv_sha E) (cl_Subject c))"
proof -
  let ?T = "resolveAuthTokens e1 e2"
  have ne: "?T \<noteq> []" "\<forall>t \<in> set ?T. t \<noteq> []" by (auto simp: resolveAuthTokens_def insecure_default_def Let_def)
  consider (header) tok where "tok \<in> set ?T" "aq_Authorization q = ''Bearer '' @ tok" "fp = tokenFingerprint (gv_sha E) tok"
    | (jwt) c where "has_prefix (aq_Authorization q) ''Bearer ''" "gv_jwt_secret E \<noteq> []"
        "Validate (gv_jwt E) (Some (gv_jwt_secret E)) now (trim_prefix (aq_Authorization q) ''Bearer '') = Inr c"
        "fp = SubjectFingerprint (gv_sha E) (cl_Subject c)"
    | (query) "aq_GET q" "aq_token q \<in> set ?T" "fp = tokenFingerprint (gv_sha E) (aq_token q)"
    using assms ne(1)
    by (auto simp: authenticationMiddleware_def unauthorized_def ValidatorFromEnv_def NewValidator_def Let_def dest!: find_SomeD
        split: option.splits if_splits sum.splits)
  then show ?thesis
  proof cases
    case header
    then show ?thesis using ne by blast
  next
    case jwt
    then obtain j where "aq_Authorization q = ''Bearer '' @ j" by (auto elim: prefixE)
    with jwt show ?thesis by (auto simp: trim_prefix_def)
  next
    case query
    then show ?thesis using ne by blast
  qed
qed

section \<open>Witnesses\<close>


definition wit_request :: api_request where
  "wit_request =
     \<lparr>aq_FullPath = ''/api/v1/sessions/:id'', aq_Path = ''/api/v1/sessions/s'', aq_GET = True, aq_Authorization = [], aq_token = ''t2'',
      aq_IP = ''a'', aq_IdemKey = [], aq_Body = []\<rparr>"

definition wit_gate :: gate_env where
  "wit_gate = \<lparr>gv_sha = (\<lambda>s. s), gv_jwt = wit_jwt, gv_jwt_secret = []\<rparr>"

theorem owner_is_proved_witness:
  "\<exists>tok. authenticationMiddleware wit_gate (resolveAuthTokens ''t1,t2'' []) (0, 0) wit_request = Pass (tokenFingerprint (\<lambda>s. s) tok) \<and>
     tok \<in> set (resolveAuthTokens ''t1,t2'' [])"
proof -
  have "authenticationMiddleware wit_gate (resolveAuthTokens ''t1,t2'' []) (0, 0) wit_request = Pass (tokenFingerprint (\<lambda>s. s) ''t2'')"
    by (simp add: authenticationMiddleware_def resolveAuthTokens_def wit_request_def wit_gate_def trim_space_def is_space_def Let_def)
  with owner_is_proved [OF _ this] show ?thesis by (auto simp: wit_request_def wit_gate_def)
qed

end
