(* ===== verification/Tool_Catalog.thy ===== *)
theory Tool_Catalog
  imports Guardrails File_Tools Net_Guard Auth_Sign "HOL-Library.Word"
begin

text \<open>
  Tools an agent can be given by name, \<^verbatim>\<open>pkg/tools/registry.go\<close>, and those that work on the host: the JSON and regular
  expression tools of \<^verbatim>\<open>developer.go\<close>, \<^verbatim>\<open>shell.go\<close>, \<^verbatim>\<open>directory_tool.go\<close>, \<^verbatim>\<open>http_client.go\<close> and \<^verbatim>\<open>calculator.go\<close>.

  A configuration is a map of dynamic values as YAML gives them, in which lists are \<^verbatim>\<open>[]interface{}\<close> and maps
  \<^verbatim>\<open>map[string]interface{}\<close>. Encoding and decoding of JSON, regular expressions, running a program, sending a
  request, parsing of numbers, and the environment are parameters.
\<close>

section \<open>Making a tool from its name\<close>

datatype tool_inst =
    GitHubTool "string option"
  | SlackTool "string option"
  | SerperTool string
  | ExaTool string
  | WolframAlphaTool string
  | CodeInterpreterTool string string int int
  | ArxivTool
  | WikipediaTool
  | BrowserTool
  | MySQLTool string
  | MongoDBTool string string string string
  | ElasticsearchTool string "(string \<times> string) option" "string option"
  | S3Tool string string string string
  | HTTPTool string
  | EmailTool string int string string string
  | ShellTool "string list"
  | DirectoryTool string int bool
  | FileEditTool string
  | FileReadTool string
  | FileWriteTool string
  | JSONTool
  | RegexTool
  | AskHumanTool bool

record tool_env =
  te_getenv :: "string \<Rightarrow> string"
  te_sql_open :: "string \<Rightarrow> goerr option"
  te_sql_ping :: "string \<Rightarrow> goerr option"

text \<open>A tool whose constructor returned a nil pointer is \<open>None\<close>: the interface value around it is not nil.\<close>

definition token_or_env :: "tool_env \<Rightarrow> string \<Rightarrow> string \<Rightarrow> string option" where
  "token_or_env E token var =
     (let t = (if token = [] then te_getenv E var else token) in if t = [] then None else Some t)"

definition key_or_env :: "tool_env \<Rightarrow> string \<Rightarrow> string \<Rightarrow> string" where
  "key_or_env E key var = (if key = [] then te_getenv E var else key)"

definition trim_right_slash :: "string \<Rightarrow> string" where
  "trim_right_slash s = rev (dropWhile (\<lambda>c. c = CHR ''/'') (rev s))"

definition NewDirectoryTool :: "string \<Rightarrow> int \<Rightarrow> bool \<Rightarrow> tool_inst" where
  "NewDirectoryTool rootPath maxDepth allowAbsolute =
     DirectoryTool (if rootPath = [] then ''.'' else rootPath) (if maxDepth \<le> 0 then 5 else maxDepth) allowAbsolute"

definition NewS3Tool :: "string \<Rightarrow> string \<Rightarrow> string \<Rightarrow> string \<Rightarrow> tool_inst" where
  "NewS3Tool endpoint accessKey secretKey region =
     S3Tool (trim_right_slash endpoint) accessKey secretKey (if region = [] then ''us-east-1'' else region)"

definition NewMySQLTool :: "tool_env \<Rightarrow> string \<Rightarrow> tool_inst result" where
  "NewMySQLTool E dsn =
     (case te_sql_open E dsn of
        Some e \<Rightarrow> Inl (EWrap ''failed to open mysql: '' e [])
      | None \<Rightarrow>
          (case te_sql_ping E dsn of
             Some e \<Rightarrow> Inl (EWrap ''failed to ping mysql: '' e [])
           | None \<Rightarrow> Inr (MySQLTool dsn)))"

abbreviation cfg_string :: "gmap \<Rightarrow> string \<Rightarrow> string" where
  "cfg_string c k \<equiv> (case get_string c k of Some s \<Rightarrow> s | None \<Rightarrow> [])"

definition cfg_int :: "gmap \<Rightarrow> string \<Rightarrow> int option" where
  "cfg_int c k = (case c k of Some (VInt i) \<Rightarrow> Some i | _ \<Rightarrow> None)"

abbreviation cfg_bool :: "gmap \<Rightarrow> string \<Rightarrow> bool" where
  "cfg_bool c k \<equiv> get_bool c k = Some True"

definition cfg_strings :: "gmap \<Rightarrow> string \<Rightarrow> string list option" where
  "cfg_strings c k = (case c k of Some (VStrings ss) \<Rightarrow> Some ss | _ \<Rightarrow> None)"

definition NewCodeInterpreter :: "gmap \<Rightarrow> tool_inst" where
  "NewCodeInterpreter config =
     CodeInterpreterTool
       (cfg_string config ''e2b_key'')
       (if cfg_bool config ''use_docker'' then cfg_string config ''docker_image'' else [])
       (case cfg_int config ''memory_mb'' of Some mem \<Rightarrow> mem | None \<Rightarrow> 0)
       (case cfg_int config ''memory_mb'' of Some mem \<Rightarrow> 1024 | None \<Rightarrow> 0)"

definition CreateTool :: "tool_env \<Rightarrow> string \<Rightarrow> gmap \<Rightarrow> tool_inst result" where
  "CreateTool E name config =
     (let s = cfg_string config in
      if name = ''GitHubTool'' then Inr (GitHubTool (token_or_env E (s ''token'') ''GITHUB_TOKEN''))
      else if name = ''SlackTool'' then Inr (SlackTool (token_or_env E (s ''token'') ''SLACK_TOKEN''))
      else if name = ''SerperTool'' then Inr (SerperTool (key_or_env E (s ''api_key'') ''SERPER_API_KEY''))
      else if name = ''ExaTool'' then Inr (ExaTool (key_or_env E (s ''api_key'') ''EXA_API_KEY''))
      else if name = ''WolframAlphaTool'' then Inr (WolframAlphaTool (key_or_env E (s ''app_id'') ''WOLFRAM_APP_ID''))
      else if name = ''CodeInterpreterTool'' then Inr (NewCodeInterpreter config)
      else if name = ''ArxivTool'' then Inr ArxivTool
      else if name = ''WikipediaTool'' then Inr WikipediaTool
      else if name = ''BrowserTool'' then Inr BrowserTool
      else if name = ''MySQLTool'' then NewMySQLTool E (s ''dsn'')
      else if name = ''MongoDBTool'' then
        Inr (MongoDBTool (s ''endpoint'') (s ''api_key'') (s ''data_source'') (s ''database''))
      else if name = ''ElasticsearchTool'' then
        Inr (ElasticsearchTool (trim_right_slash (s ''base_url''))
               (map_option (\<lambda>user. (user, s ''password'')) (get_string config ''username''))
               (get_string config ''api_key''))
      else if name = ''S3Tool'' then Inr (NewS3Tool (s ''endpoint'') (s ''access_key'') (s ''secret_key'') (s ''region''))
      else if name = ''HTTPTool'' then Inr (HTTPTool (trim_right_slash (s ''base_url'')))
      else if name = ''EmailTool'' then
        Inr (EmailTool (s ''smtp_host'') (case cfg_int config ''smtp_port'' of Some p \<Rightarrow> p | None \<Rightarrow> 587)
               (s ''username'') (s ''password'') (s ''from''))
      else if name = ''ShellTool'' then
        Inr (ShellTool (case cfg_strings config ''allowed_commands'' of Some a \<Rightarrow> a | None \<Rightarrow> []))
      else if name = ''DirectoryTool'' then
        Inr (NewDirectoryTool (s ''root_path'') (case cfg_int config ''max_depth'' of Some d \<Rightarrow> d | None \<Rightarrow> 0)
               (cfg_bool config ''allow_absolute''))
      else if name = ''FileEditTool'' then Inr (FileEditTool (s ''chroot''))
      else if name = ''FileReadTool'' then Inr (FileReadTool (s ''chroot''))
      else if name = ''FileWriteTool'' then Inr (FileWriteTool (s ''chroot''))
      else if name = ''JSONTool'' then Inr JSONTool
      else if name = ''RegexTool'' then Inr RegexTool
      else if name = ''AskHumanTool'' then Inr (AskHumanTool (cfg_bool config ''enabled''))
      else Inl (EMsg (''unsupported tool for dynamic creation: '' @ name)))"

text \<open>Which of them wait for a human.\<close>

fun RequiresReview :: "tool_inst \<Rightarrow> bool" where
  "RequiresReview (CodeInterpreterTool e2b docker mem cpu) \<longleftrightarrow> docker = [] \<and> e2b = []"
| "RequiresReview (DirectoryTool r d a) \<longleftrightarrow> False"
| "RequiresReview (FileReadTool c) \<longleftrightarrow> False"
| "RequiresReview JSONTool \<longleftrightarrow> False"
| "RequiresReview RegexTool \<longleftrightarrow> False"
| "RequiresReview (AskHumanTool e) \<longleftrightarrow> False"
| "RequiresReview t \<longleftrightarrow> True"

text \<open>The name a tool reports; a nil receiver is dereferenced (\<open>None\<close>).\<close>

fun tool_Name :: "tool_inst \<Rightarrow> string option" where
  "tool_Name (GitHubTool t) = (if t = None then None else Some ''GitHubTool'')"
| "tool_Name (SlackTool t) = (if t = None then None else Some ''SlackTool'')"
| "tool_Name (SerperTool k) = Some ''SerperSearch''"
| "tool_Name (ExaTool k) = Some ''ExaSearch''"
| "tool_Name (WolframAlphaTool k) = Some ''WolframAlphaTool''"
| "tool_Name (CodeInterpreterTool e d m c) = Some ''CodeInterpreterTool''"
| "tool_Name ArxivTool = Some ''ArxivTool''"
| "tool_Name WikipediaTool = Some ''WikipediaTool''"
| "tool_Name BrowserTool = Some ''BrowserControl''"
| "tool_Name (MySQLTool d) = Some ''MySQLTool''"
| "tool_Name (MongoDBTool e k d b) = Some ''MongoDBTool''"
| "tool_Name (ElasticsearchTool b u k) = Some ''ElasticsearchTool''"
| "tool_Name (S3Tool e a s r) = Some ''S3Tool''"
| "tool_Name (HTTPTool b) = Some ''HTTPTool''"
| "tool_Name (EmailTool h p u w f) = Some ''EmailTool''"
| "tool_Name (ShellTool a) = Some ''ShellTool''"
| "tool_Name (DirectoryTool r d a) = Some ''DirectoryTool''"
| "tool_Name (FileEditTool c) = Some ''FileEditTool''"
| "tool_Name (FileReadTool c) = Some ''FileReadTool''"
| "tool_Name (FileWriteTool c) = Some ''FileWriteTool''"
| "tool_Name JSONTool = Some ''JSONTool''"
| "tool_Name RegexTool = Some ''RegexTool''"
| "tool_Name (AskHumanTool e) = Some ''AskHuman''"

section \<open>The registry\<close>

type_synonym 't registry = "(string \<times> 't) list"

definition reg_Register :: "string \<Rightarrow> 't \<Rightarrow> 't registry \<Rightarrow> 't registry" where
  "reg_Register name t r = AList.update name t r"

definition reg_Get :: "string \<Rightarrow> 't registry \<Rightarrow> 't result" where
  "reg_Get name r = (case map_of r name of None \<Rightarrow> Inl (EMsg (''tool not found: '' @ name)) | Some t \<Rightarrow> Inr t)"

definition reg_List :: "'t registry \<Rightarrow> 't list" where
  "reg_List r = map snd r"

definition reg_ListNames :: "'t registry \<Rightarrow> string list" where
  "reg_ListNames r = map fst r"

end
