(* ===== verification/API_Kickoff.thy ===== *)
theory API_Kickoff
  imports API_Gate Tool_Catalog Crew_Checkpoint
begin

text \<open>
  The handlers of the HTTP API, \<^verbatim>\<open>pkg/api/handlers.go\<close>: starting a crew, with the ledger of idempotency keys, the table of
  sessions, the semaphore of running crews and the checkpoint store behind them, and reading a session.

  A request is handled by a goroutine whose steps are what it does between two acquisitions of a lock; after it has answered 202
  the goroutine it starts goes on with the crew. \<open>kick_step\<close> is one such step of one request; the relation \<open>api_step\<close>
  interleaves the steps of all of them. What running the crew gives, the clock, and the outcome of the checkpoint store are
  arguments; binding of the request body (\<^verbatim>\<open>gin\<close>) and the model client are parameters. A checkpoint store is a pair of operations on
  its state.
\<close>

section \<open>Requests\<close>

record kickoffAgent =
  ka_Role :: string
  ka_Goal :: string
  ka_Backstory :: string
  ka_Model :: string
  ka_APIKey :: string
  ka_SystemPrompt :: string
  ka_MaxIterations :: int

record kickoffTask =
  kt_Description :: string
  kt_ExpectedOutput :: string
  kt_AgentRole :: string
  kt_Tools :: "string list"

record kickoffRequest =
  kr_SessionID :: string
  kr_AgentRole :: string
  kr_AgentGoal :: string
  kr_AgentBackstory :: string
  kr_AgentModel :: string
  kr_AgentSystemPrompt :: string
  kr_TaskDescription :: string
  kr_TaskExpectedOutput :: string
  kr_TaskTools :: "string list"
  kr_CrewProcess :: string
  kr_MaxIterations :: int
  kr_Agents :: "kickoffAgent list"
  kr_Tasks :: "kickoffTask list"

record 'l kick_env =
  ke_bind :: "string \<Rightarrow> kickoffRequest result"
  ke_openai :: string
  ke_newLLM :: "(string \<Rightarrow> 'l) option"
  ke_tools :: tool_env

definition err_reply :: "nat \<Rightarrow> string \<Rightarrow> reply" where
  "err_reply status msg = (status, [(''error'', VString msg)])"

definition maxKickoffAgents :: nat where "maxKickoffAgents = 10"
definition maxKickoffTasks :: nat where "maxKickoffTasks = 32"

definition normalizeCrewProcess :: "string \<Rightarrow> reply + string" where
  "normalizeCrewProcess process =
     (if process \<in> {[], ''sequential'', ''hierarchical'', ''consensual'', ''graph'', ''reflective'', ''state_machine''} then Inr process
      else if process = ''state-machine'' then Inr ''state_machine''
      else Inl (err_reply 400 ''unsupported crew_process''))"

section \<open>Building the crew\<close>

record 'l built_agent =
  ba_Role :: string
  ba_Goal :: string
  ba_Backstory :: string
  ba_LLM :: "'l option"
  ba_MaxIterations :: int
  ba_Tools :: "tool_inst list"
  ba_SystemTemplate :: string
  ba_UseSystemPrompt :: bool

text \<open>A task refers to its agent by the agent's place in the crew.\<close>

record built_task =
  bt_Description :: string
  bt_ExpectedOutput :: string
  bt_Agent :: nat

record 'l built_crew =
  bc_Agents :: "'l built_agent list"
  bc_Tasks :: "built_task list"
  bc_Process :: string
  bc_Headless :: bool

definition headlessToolAllowlist :: "string list" where
  "headlessToolAllowlist = [''JSONTool'', ''RegexTool'']"

definition quoted :: "string \<Rightarrow> string" where
  "quoted s = [CHR 0x22] @ s @ [CHR 0x22]"

fun resolveTaskTools :: "tool_env \<Rightarrow> string list \<Rightarrow> reply + tool_inst list" where
  "resolveTaskTools T [] = Inr []"
| "resolveTaskTools T (name # names) =
     (if name \<notin> set headlessToolAllowlist then
        Inl (err_reply 400 (''tool '' @ quoted name @ '' cannot be attached over the API: only headless-safe tools '' @
          ''['' @ str_join headlessToolAllowlist '' '' @ ''] are allowed (review-gated and unknown tools are rejected, never ignored)''))
      else (case CreateTool T name Map.empty of
              Inl e \<Rightarrow> Inl (err_reply 400 (''tool '' @ quoted name @ '' unavailable: '' @ err_text e))
            | Inr tool \<Rightarrow>
                if RequiresReview tool then
                  Inl (err_reply 400 (''tool '' @ quoted name @ '' requires human review, which the headless API cannot provide''))
                else (case resolveTaskTools T names of Inl r \<Rightarrow> Inl r | Inr ts \<Rightarrow> Inr (tool # ts))))"

text \<open>\<^verbatim>\<open>agents.NewAgentLegacy\<close> with the options the handlers use; it never returns nil.\<close>

definition NewAgentLegacy :: "string \<Rightarrow> string \<Rightarrow> string \<Rightarrow> 'l option \<Rightarrow> ('l built_agent \<Rightarrow> 'l built_agent) list \<Rightarrow> 'l built_agent" where
  "NewAgentLegacy role goal backstory llm opts =
     fold (\<lambda>f. f) opts
       \<lparr>ba_Role = role, ba_Goal = goal, ba_Backstory = backstory, ba_LLM = llm, ba_MaxIterations = 10, ba_Tools = [],
        ba_SystemTemplate = [], ba_UseSystemPrompt = False\<rparr>"

definition WithMaxIterations :: "int \<Rightarrow> 'l built_agent \<Rightarrow> 'l built_agent" where
  "WithMaxIterations n a = a\<lparr>ba_MaxIterations := n\<rparr>"

definition WithTools :: "tool_inst list \<Rightarrow> 'l built_agent \<Rightarrow> 'l built_agent" where
  "WithTools ts a = a\<lparr>ba_Tools := ba_Tools a @ ts\<rparr>"

definition with_system_prompt :: "string \<Rightarrow> 'l built_agent \<Rightarrow> 'l built_agent" where
  "with_system_prompt p a = (if p \<noteq> [] then a\<lparr>ba_SystemTemplate := p, ba_UseSystemPrompt := True\<rparr> else a)"

text \<open>The client of an agent of the multi-agent form: its own key, or the one of the environment.\<close>

definition agent_client :: "'l kick_env \<Rightarrow> kickoffAgent \<Rightarrow> reply + 'l option" where
  "agent_client E a =
     (case ke_newLLM E of
        None \<Rightarrow> Inr None
      | Some mk \<Rightarrow>
          if ka_Model a = [] then Inr None
          else let key = (if ka_APIKey a = [] then ke_openai E else ka_APIKey a) in
            if key = [] then
              Inl (err_reply 503 (''api_provider_unconfigured: agent '' @ [CHR 0x27] @ ka_Role a @ [CHR 0x27] @
                '' requests a model but no api_key was provided and OPENAI_API_KEY is unset''))
            else Inr (Some (mk key)))"

fun build_agents :: "'l kick_env \<Rightarrow> kickoffRequest \<Rightarrow> kickoffAgent list \<Rightarrow> 'l built_agent list \<Rightarrow> reply + 'l built_agent list" where
  "build_agents E p [] acc = Inr acc"
| "build_agents E p (a # as) acc =
     (if ka_Role a \<in> ba_Role ` set acc then
        Inl (err_reply 400 (''duplicate agent role '' @ quoted (ka_Role a) @ '': roles must be unique so tasks wire unambiguously''))
      else (case agent_client E a of
              Inl r \<Rightarrow> Inl r
            | Inr client \<Rightarrow>
                (let iters = (if ka_MaxIterations a = 0 then kr_MaxIterations p else ka_MaxIterations a) in
                 build_agents E p as
                   (acc @ [with_system_prompt (ka_SystemPrompt a)
                      (NewAgentLegacy (ka_Role a) (ka_Goal a) (ka_Backstory a) client [WithMaxIterations iters])]))))"

definition agent_index :: "'l built_agent list \<Rightarrow> string \<Rightarrow> nat option" where
  "agent_index agents role = find (\<lambda>j. ba_Role (agents ! j) = role) [0..<length agents]"

fun build_tasks ::
  "tool_env \<Rightarrow> nat \<Rightarrow> kickoffTask list \<Rightarrow> 'l built_agent list \<Rightarrow> built_task list \<Rightarrow> reply + 'l built_agent list \<times> built_task list" where
  "build_tasks T i [] agents acc = Inr (agents, acc)"
| "build_tasks T i (t # ts) agents acc =
     (if kt_AgentRole t = [] \<and> length agents \<noteq> 1 then
        Inl (err_reply 400 (''task '' @ show_nat i @ '' has no 'agent_role' and '' @ show_nat (length agents) @
          '' agents are defined; role is required''))
      else let role = (if kt_AgentRole t = [] then ba_Role (hd agents) else kt_AgentRole t) in
        (case agent_index agents role of
           None \<Rightarrow> Inl (err_reply 400 (''task '' @ show_nat i @ '' references unknown agent role '' @ quoted role))
         | Some j \<Rightarrow>
             (case resolveTaskTools T (kt_Tools t) of
                Inl r \<Rightarrow> Inl r
              | Inr tools \<Rightarrow>
                  build_tasks T (Suc i) ts (agents[j := WithTools tools (agents ! j)])
                    (acc @ [\<lparr>bt_Description = kt_Description t, bt_ExpectedOutput = kt_ExpectedOutput t, bt_Agent = j\<rparr>]))))"

definition NewCrew_headless :: "string \<Rightarrow> 'l built_agent list \<Rightarrow> built_task list \<Rightarrow> 'l built_crew" where
  "NewCrew_headless process agents ts =
     \<lparr>bc_Agents = agents, bc_Tasks = ts, bc_Process = (if process \<noteq> [] then process else ''sequential''), bc_Headless = True\<rparr>"

definition buildMultiCrew :: "'l kick_env \<Rightarrow> kickoffRequest \<Rightarrow> reply + 'l built_crew" where
  "buildMultiCrew E p =
     (if kr_AgentRole p \<noteq> [] \<or> kr_TaskDescription p \<noteq> [] then
        Inl (err_reply 400 (''cannot combine flat 'agent_role'/'task_description' with 'agents[]'/'tasks[]'' @ [CHR 0x27]))
      else if length (kr_Agents p) > maxKickoffAgents then
        Inl (err_reply 400 (''too many agents: got '' @ show_nat (length (kr_Agents p)) @ '', max 10''))
      else if length (kr_Tasks p) > maxKickoffTasks then
        Inl (err_reply 400 (''too many tasks: got '' @ show_nat (length (kr_Tasks p)) @ '', max 32''))
      else if kr_Tasks p = [] then Inl (err_reply 400 (CHR 0x27 # ''tasks[]' is required with 'agents[]'' @ [CHR 0x27]))
      else (case build_agents E p (kr_Agents p) [] of
              Inl r \<Rightarrow> Inl r
            | Inr agents \<Rightarrow>
                (case build_tasks (ke_tools E) 0 (kr_Tasks p) agents [] of
                   Inl r \<Rightarrow> Inl r
                 | Inr (agents', ts) \<Rightarrow> Inr (NewCrew_headless (kr_CrewProcess p) agents' ts))))"

definition buildFlatCrew :: "'l kick_env \<Rightarrow> kickoffRequest \<Rightarrow> reply + 'l built_crew" where
  "buildFlatCrew E p =
     (if kr_Tasks p \<noteq> [] then Inl (err_reply 400 (CHR 0x27 # ''tasks[]' requires 'agents[]'; tasks cannot run without agents''))
      else if kr_AgentRole p = [] then Inl (err_reply 400 (CHR 0x27 # ''agent_role' is required''))
      else if kr_TaskDescription p = [] then Inl (err_reply 400 (CHR 0x27 # ''task_description' is required''))
      else if kr_AgentModel p \<noteq> [] \<and> ke_newLLM E \<noteq> None \<and> ke_openai E = [] then
        Inl (503, [(''error'', VString ''api_provider_unconfigured''),
                   (''message'', VString ''agent_model requires a configured OPENAI_API_KEY'')])
      else let llm = (if kr_AgentModel p \<noteq> [] then map_option (\<lambda>mk. mk (ke_openai E)) (ke_newLLM E) else None) in
        (case resolveTaskTools (ke_tools E) (kr_TaskTools p) of
           Inl r \<Rightarrow> Inl r
         | Inr tools \<Rightarrow>
             Inr (NewCrew_headless []
               [with_system_prompt (kr_AgentSystemPrompt p)
                  (NewAgentLegacy (kr_AgentRole p) (kr_AgentGoal p) (kr_AgentBackstory p) llm
                     (WithMaxIterations (kr_MaxIterations p) # (if tools \<noteq> [] then [WithTools tools] else [])))]
               [\<lparr>bt_Description = kr_TaskDescription p, bt_ExpectedOutput = kr_TaskExpectedOutput p, bt_Agent = 0\<rparr>])))"

definition build_crew :: "'l kick_env \<Rightarrow> kickoffRequest \<Rightarrow> reply + 'l built_crew" where
  "build_crew E p = (if kr_Agents p \<noteq> [] then buildMultiCrew E p else buildFlatCrew E p)"


section \<open>The server\<close>

record SessionState =
  ss_SessionID :: string
  ss_Status :: string
  ss_Owner :: string
  ss_StartedAt :: int
  ss_FinishedAt :: int
  ss_Error :: string

record idemEntry =
  ie_sessionID :: string
  ie_owner :: string
  ie_done :: bool
  ie_status :: string
  ie_createdAt :: int

text \<open>A checkpoint store as the handlers use it: \<^verbatim>\<open>Save\<close> (with its reading of the clock) and \<^verbatim>\<open>LoadLatest\<close>.\<close>

record 'c store_ops =
  so_Save :: "int \<Rightarrow> CrewCheckpoint \<Rightarrow> 'c \<Rightarrow> 'c \<times> goerr option"
  so_LoadLatest :: "string \<Rightarrow> 'c \<Rightarrow> CrewCheckpoint option result \<times> 'c"

text \<open>The part of the server the handlers change; its router and limiter are in \<open>API_Gate\<close>.\<close>

record 'c Server =
  sv_sessions :: "string \<rightharpoonup> SessionState"
  sv_idemKeys :: "(string \<times> idemEntry) list"
  sv_idemBySession :: "string \<rightharpoonup> string"
  sv_store :: "('c store_ops \<times> 'c) option"
  sv_sem :: nat

definition NewServer :: "('c store_ops \<times> 'c) option \<Rightarrow> 'c Server" where
  "NewServer store =
     \<lparr>sv_sessions = Map.empty, sv_idemKeys = [], sv_idemBySession = Map.empty, sv_store = store, sv_sem = 0\<rparr>"

subsection \<open>The semaphore\<close>

definition kickoffSem :: nat where "kickoffSem = 10"

definition acquireSem :: "'c Server \<Rightarrow> bool \<times> 'c Server" where
  "acquireSem s = (if sv_sem s < kickoffSem then (True, s\<lparr>sv_sem := sv_sem s + 1\<rparr>) else (False, s))"

definition releaseSem :: "'c Server \<Rightarrow> 'c Server" where
  "releaseSem s = s\<lparr>sv_sem := sv_sem s - 1\<rparr>"

subsection \<open>The ledger of idempotency keys\<close>

definition maxIdemKeys :: nat where "maxIdemKeys = 10000"
definition idemEntryTTL :: int where "idemEntryTTL = 24 * 3600 * 10 ^ 9"

definition checkIdem :: "string \<Rightarrow> string \<Rightarrow> 'c Server \<Rightarrow> idemEntry option" where
  "checkIdem key owner s =
     (case map_of (sv_idemKeys s) key of
        None \<Rightarrow> None
      | Some e \<Rightarrow> if owner \<noteq> [] \<and> ie_owner e \<noteq> [] \<and> ie_owner e \<noteq> owner then None else Some e)"

datatype idemOp = OpReserve | OpRelease | OpFinalize | OpFinish

definition new_entry :: "string \<Rightarrow> string \<Rightarrow> int \<Rightarrow> idemEntry" where
  "new_entry sid owner now = \<lparr>ie_sessionID = sid, ie_owner = owner, ie_done = False, ie_status = [], ie_createdAt = now\<rparr>"

definition doIdem :: "idemOp \<Rightarrow> string \<Rightarrow> string \<Rightarrow> string \<Rightarrow> string \<Rightarrow> int \<Rightarrow> 'c Server \<Rightarrow> (bool \<times> string) \<times> 'c Server" where
  "doIdem op key owner sid status now s =
     (if key = [] \<and> op \<noteq> OpFinish then ((False, []), s)
      else (case op of
         OpReserve \<Rightarrow>
           (case map_of (sv_idemKeys s) key of
              Some e \<Rightarrow> ((False, ie_sessionID e), s)
            | None \<Rightarrow>
                ((True, []), s\<lparr>sv_idemKeys := AList.update key (new_entry sid owner now) (sv_idemKeys s),
                               sv_idemBySession := (sv_idemBySession s)(sid \<mapsto> key)\<rparr>))
       | OpRelease \<Rightarrow>
           ((True, []),
            (case map_of (sv_idemKeys s) key of
               Some e \<Rightarrow>
                 if ie_done e then s
                 else s\<lparr>sv_idemKeys := AList.delete key (sv_idemKeys s),
                        sv_idemBySession := (sv_idemBySession s)(ie_sessionID e := None)\<rparr>
             | None \<Rightarrow> s))
       | OpFinalize \<Rightarrow>
           (let (own, created) = (case map_of (sv_idemKeys s) key of
                                    Some e \<Rightarrow> (ie_owner e, ie_createdAt e) | None \<Rightarrow> ([], now)) in
            ((True, []), s\<lparr>sv_idemKeys := AList.update key (new_entry sid own created) (sv_idemKeys s),
                           sv_idemBySession := (sv_idemBySession s)(sid \<mapsto> key)\<rparr>))
       | OpFinish \<Rightarrow>
           ((True, []),
            (case sv_idemBySession s sid of
               Some k \<Rightarrow>
                 s\<lparr>sv_idemKeys :=
                     (case map_of (sv_idemKeys s) k of
                        Some e \<Rightarrow> AList.update k (e\<lparr>ie_done := True, ie_status := status\<rparr>) (sv_idemKeys s)
                      | None \<Rightarrow> sv_idemKeys s),
                   sv_idemBySession := (sv_idemBySession s)(sid := None)\<rparr>
             | None \<Rightarrow> s))))"

definition reserveIdem :: "string \<Rightarrow> string \<Rightarrow> string \<Rightarrow> int \<Rightarrow> 'c Server \<Rightarrow> (bool \<times> string) \<times> 'c Server" where
  "reserveIdem key owner sid now s = doIdem OpReserve key owner sid [] now s"

definition releaseIdem :: "string \<Rightarrow> 'c Server \<Rightarrow> 'c Server" where
  "releaseIdem key s = snd (doIdem OpRelease key [] [] [] 0 s)"

definition finalizeIdem :: "string \<Rightarrow> string \<Rightarrow> int \<Rightarrow> 'c Server \<Rightarrow> 'c Server" where
  "finalizeIdem key sid now s = snd (doIdem OpFinalize key [] sid [] now s)"

definition finishIdem :: "string \<Rightarrow> string \<Rightarrow> 'c Server \<Rightarrow> 'c Server" where
  "finishIdem sid status s = snd (doIdem OpFinish [] [] sid status 0 s)"

text \<open>The older way to store a key, with eviction in the order \<open>order\<close>; no handler calls it.\<close>

fun evict :: "int \<Rightarrow> string list \<Rightarrow> (string \<times> idemEntry) list \<Rightarrow> (string \<times> idemEntry) list" where
  "evict now [] ks = ks"
| "evict now (k # order) ks =
     (let ks' = (case map_of ks k of
                   Some e \<Rightarrow> if now - ie_createdAt e > idemEntryTTL then AList.delete k ks else ks
                 | None \<Rightarrow> ks)
      in if length ks' < maxIdemKeys then ks' else evict now order ks')"

definition storeIdem :: "string list \<Rightarrow> int \<Rightarrow> string \<Rightarrow> string \<Rightarrow> string \<Rightarrow> 'c Server \<Rightarrow> 'c Server" where
  "storeIdem order now key owner sid s =
     (let ks = (if map_of (sv_idemKeys s) key = None \<and> length (sv_idemKeys s) \<ge> maxIdemKeys
                then evict now order (sv_idemKeys s) else sv_idemKeys s) in
      if map_of (sv_idemKeys s) key = None \<and> length (sv_idemKeys s) \<ge> maxIdemKeys \<and> length ks \<ge> maxIdemKeys
      then s\<lparr>sv_idemKeys := ks\<rparr>
      else s\<lparr>sv_idemKeys := AList.update key (new_entry sid owner now) ks,
             sv_idemBySession := (sv_idemBySession s)(sid \<mapsto> key)\<rparr>)"

subsection \<open>Sessions\<close>

definition ErrSessionNotFound :: goerr where "ErrSessionNotFound = ESentinel ''session not found''"
definition ErrSessionConflict :: goerr where "ErrSessionConflict = ESentinel ''session id conflict''"

definition session_checkpoint :: "string \<Rightarrow> string \<Rightarrow> string \<Rightarrow> string \<Rightarrow> CrewCheckpoint" where
  "session_checkpoint sid status err owner =
     \<lparr>cc_ID = [], cc_CrewID = sid, cc_Timestamp = 0, cc_Version = 1, cc_TaskIndex = 0, cc_TaskResults = None,
      cc_State = Some [''session_id'' \<mapsto> VString sid, ''owner'' \<mapsto> VString owner], cc_Status = status, cc_Error = err, cc_CreatedAt = 0\<rparr>"

definition persistSessionStart :: "string \<Rightarrow> string \<Rightarrow> int \<Rightarrow> 'c Server \<Rightarrow> goerr option \<times> 'c Server" where
  "persistSessionStart sid owner now s =
     (if \<not> validCheckpointID sid then (Some (EMsg ''invalid session id''), s)
      else if (case sv_sessions s sid of
                 Some ex \<Rightarrow> (ss_Owner ex \<noteq> [] \<and> owner \<noteq> [] \<and> ss_Owner ex \<noteq> owner) \<or> ss_Status ex = ''running''
               | None \<Rightarrow> False)
      then (Some ErrSessionConflict, s)
      else let s1 = s\<lparr>sv_sessions := (sv_sessions s)(sid \<mapsto>
                 \<lparr>ss_SessionID = sid, ss_Status = ''running'', ss_Owner = owner, ss_StartedAt = now, ss_FinishedAt = 0, ss_Error = []\<rparr>)\<rparr> in
        (case sv_store s1 of
           None \<Rightarrow> (None, s1)
         | Some (ops, c) \<Rightarrow>
             (case so_Save ops now (session_checkpoint sid ''running'' [] owner) c of
                (c', Some e) \<Rightarrow>
                  (Some (EWrap ''checkpoint save failed: '' e []),
                   s1\<lparr>sv_store := Some (ops, c'), sv_sessions := (sv_sessions s1)(sid := None)\<rparr>)
              | (c', None) \<Rightarrow> (None, s1\<lparr>sv_store := Some (ops, c')\<rparr>))))"

definition owner_of :: "'c Server \<Rightarrow> string \<Rightarrow> string" where
  "owner_of s sid = (case sv_sessions s sid of Some st \<Rightarrow> ss_Owner st | None \<Rightarrow> [])"

text \<open>A failure of the store is only logged.\<close>

definition save_quietly :: "int \<Rightarrow> CrewCheckpoint \<Rightarrow> 'c Server \<Rightarrow> 'c Server" where
  "save_quietly now cp s =
     (case sv_store s of
        None \<Rightarrow> s | Some (ops, c) \<Rightarrow> s\<lparr>sv_store := Some (ops, fst (so_Save ops now cp c))\<rparr>)"

definition persistSessionFailure :: "string \<Rightarrow> string \<Rightarrow> int \<Rightarrow> 'c Server \<Rightarrow> 'c Server" where
  "persistSessionFailure sid reason now s =
     (let s1 = (case sv_sessions s sid of
                  Some st \<Rightarrow> s\<lparr>sv_sessions := (sv_sessions s)(sid \<mapsto> st\<lparr>ss_Status := ''failed'', ss_Error := reason, ss_FinishedAt := now\<rparr>)\<rparr>
                | None \<Rightarrow> s)
      in save_quietly now (session_checkpoint sid ''failed'' reason (owner_of s1 sid)) s1)"

definition persistSessionComplete :: "string \<Rightarrow> int \<Rightarrow> 'c Server \<Rightarrow> 'c Server" where
  "persistSessionComplete sid now s =
     (let s1 = (case sv_sessions s sid of
                  Some st \<Rightarrow> s\<lparr>sv_sessions := (sv_sessions s)(sid \<mapsto> st\<lparr>ss_Status := ''completed'', ss_FinishedAt := now\<rparr>)\<rparr>
                | None \<Rightarrow> s)
      in save_quietly now (session_checkpoint sid ''completed'' [] (owner_of s1 sid)) s1)"

text \<open>\<open>rfc\<close> is the RFC 3339 text of a time.\<close>

definition loadSessionState ::
  "(int \<Rightarrow> string) \<Rightarrow> string \<Rightarrow> string \<Rightarrow> 'c Server \<Rightarrow> (string \<times> gvalue) list result \<times> 'c Server" where
  "loadSessionState rfc sid owner s =
     (case sv_sessions s sid of
        Some st \<Rightarrow>
          (if owner \<noteq> [] \<and> ss_Owner st \<noteq> [] \<and> ss_Owner st \<noteq> owner then Inl ErrSessionNotFound
           else Inr [(''session_id'', VString (ss_SessionID st)), (''status'', VString (ss_Status st)),
                     (''started_at'', VString (rfc (ss_StartedAt st)))], s)
      | None \<Rightarrow>
          (case sv_store s of
             None \<Rightarrow> (Inl ErrSessionNotFound, s)
           | Some (ops, c) \<Rightarrow>
               (case so_LoadLatest ops sid c of
                  (r, c') \<Rightarrow>
                    (case r of
                       Inl e \<Rightarrow> Inl (EWrap ''failed to load session checkpoint: '' e [])
                     | Inr None \<Rightarrow> Inl ErrSessionNotFound
                     | Inr (Some cp) \<Rightarrow>
                         (let stored = (case get_string (case cc_State cp of Some m \<Rightarrow> m | None \<Rightarrow> Map.empty) ''owner'' of
                                          Some w \<Rightarrow> w | None \<Rightarrow> []) in
                          if owner \<noteq> [] \<and> (stored = [] \<or> stored \<noteq> owner) then Inl ErrSessionNotFound
                          else if owner = [] \<and> stored \<noteq> [] then Inl ErrSessionNotFound
                          else Inr ([(''session_id'', VString (cc_CrewID cp)), (''status'', VString (cc_Status cp))] @
                            (if cc_Status cp = ''failed'' \<and> cc_Error cp \<noteq> [] then [(''error'', VString (cc_Error cp))] else []))),
                     s\<lparr>sv_store := Some (ops, c')\<rparr>))))"

definition handleGetSession :: "(int \<Rightarrow> string) \<Rightarrow> string \<Rightarrow> string \<Rightarrow> 'c Server \<Rightarrow> reply \<times> 'c Server" where
  "handleGetSession rfc sid owner s =
     (if sid = [] then (err_reply 400 ''session id is required'', s)
      else (case loadSessionState rfc sid owner s of
              (Inr state, s') \<Rightarrow> ((200, state), s')
            | (Inl e, s') \<Rightarrow>
                (if e = ErrSessionNotFound then
                   (404, [(''session_id'', VString sid), (''status'', VString ''not_found''), (''error'', VString ''session not found'')])
                 else (500, [(''session_id'', VString sid), (''status'', VString ''error''), (''error'', VString (err_text e))]), s')))"

text \<open>The event stream: refused, or open; then the events of the telemetry bus and of the crew bus, in the order they arrive.\<close>

definition passSSEEvent :: "string \<Rightarrow> string \<Rightarrow> bool" where
  "passSSEEvent sid event_session \<longleftrightarrow> event_session \<noteq> [] \<and> event_session = sid"

definition sse_data :: "string option \<Rightarrow> string" where
  "sse_data json = (case json of Some data \<Rightarrow> ''data: '' @ data @ [CHR 0x0A, CHR 0x0A] | None \<Rightarrow> [])"

definition handleSSEStream ::
  "(int \<Rightarrow> string) \<Rightarrow> ('g \<Rightarrow> string option) \<Rightarrow> ('e \<Rightarrow> string) \<Rightarrow> ('e \<Rightarrow> string option) \<Rightarrow> string \<Rightarrow> string \<Rightarrow> ('g + 'e) list \<Rightarrow> 'c Server \<Rightarrow>
    reply option \<times> string \<times> 'c Server" where
  "handleSSEStream rfc json_metric session_of json sid owner evs s =
     (if sid = [] then (Some (err_reply 400 ''session id is required''), [], s)
      else (case loadSessionState rfc sid owner s of
              (Inl e, s') \<Rightarrow>
                (Some (404, [(''session_id'', VString sid), (''status'', VString ''not_found''), (''error'', VString ''session not found'')]), [], s')
            | (Inr state, s') \<Rightarrow>
                (None,
                 concat (map (case_sum (\<lambda>g. sse_data (json_metric g)) (\<lambda>e. if passSSEEvent sid (session_of e) then sse_data (json e) else [])) evs),
                 s')))"

section \<open>Handling a kickoff\<close>

text \<open>
  Where a request stands: the named action is the next one. \<open>PRun\<close>, \<open>PFinish\<close>, \<open>PFree\<close> and \<open>PEnd\<close> are the goroutine of a request that
  has been answered 202.
\<close>

datatype 'l pc =
    PBind
  | PReserve kickoffRequest
  | PSession kickoffRequest
  | PRelease reply
  | PPersist string "'l built_crew"
  | PFinalize string "'l built_crew"
  | PAcquire string "'l built_crew"
  | PDone reply
  | PRun string "'l built_crew"
  | PFinish string string
  | PFree
  | PEnd

text \<open>The reply of a reservation that is already taken, and of a session that runs.\<close>

definition duplicate_reply :: "string \<Rightarrow> reply" where
  "duplicate_reply sid = (409, [(''error'', VString ''duplicate request still running''), (''session_id'', VString sid)])"

definition replay_reply :: "idemEntry \<Rightarrow> reply" where
  "replay_reply e =
     (200, [(''message'', VString ''duplicate request (idempotent replay)''), (''session_id'', VString (ie_sessionID e)),
            (''status'', VString (ie_status e)), (''idempotent_replay'', VBool True)])"

definition kick_step ::
  "'l kick_env \<Rightarrow> int \<Rightarrow> ('l built_crew \<Rightarrow> goerr option) \<Rightarrow> api_request \<Rightarrow> string \<Rightarrow> 'l pc \<Rightarrow> 'c Server \<Rightarrow> 'l pc \<times> 'c Server" where
  "kick_step E now kickoff q owner pc s =
     (case pc of
        PBind \<Rightarrow>
          (case ke_bind E (aq_Body q) of
             Inl e \<Rightarrow> (PDone (err_reply 400 (err_text e)), s)
           | Inr p0 \<Rightarrow>
               (case normalizeCrewProcess (kr_CrewProcess p0) of
                  Inl r \<Rightarrow> (PDone r, s)
                | Inr process \<Rightarrow>
                    (let p1 = p0\<lparr>kr_CrewProcess := process\<rparr>;
                         p = (if kr_SessionID p1 = [] then p1\<lparr>kr_SessionID := ''sess_'' @ show_int (UnixMilli now)\<rparr> else p1) in
                     if aq_IdemKey q = [] then (PSession p, s)
                     else (case checkIdem (aq_IdemKey q) owner s of
                             Some e \<Rightarrow> (PDone (if ie_done e then replay_reply e else duplicate_reply (ie_sessionID e)), s)
                           | None \<Rightarrow> (PReserve p, s)))))
      | PReserve p \<Rightarrow>
          (case reserveIdem (aq_IdemKey q) owner (kr_SessionID p) now s of
             ((True, _), s') \<Rightarrow> (PSession p, s')
           | ((False, running), s') \<Rightarrow> (PDone (duplicate_reply running), s'))
      | PSession p \<Rightarrow>
          (if (case sv_sessions s (kr_SessionID p) of Some st \<Rightarrow> ss_Status st = ''running'' | None \<Rightarrow> False)
           then (PRelease (409, [(''error'', VString ''session already running''), (''session_id'', VString (kr_SessionID p))]), s)
           else (case build_crew E p of
                   Inl r \<Rightarrow> (PRelease r, s)
                 | Inr crew \<Rightarrow> (PPersist (kr_SessionID p) crew, s)))
      | PRelease r \<Rightarrow> (PDone r, releaseIdem (aq_IdemKey q) s)
      | PPersist sid crew \<Rightarrow>
          (case persistSessionStart sid owner now s of
             (Some e, s') \<Rightarrow>
               (PRelease (if e = ErrSessionConflict then err_reply 409 ''session id already in use''
                          else err_reply 500 (''failed to persist session: '' @ err_text e)), s')
           | (None, s') \<Rightarrow> (if aq_IdemKey q \<noteq> [] then PFinalize sid crew else PAcquire sid crew, s'))
      | PFinalize sid crew \<Rightarrow> (PAcquire sid crew, finalizeIdem (aq_IdemKey q) sid now s)
      | PAcquire sid crew \<Rightarrow>
          (case acquireSem s of
             (True, s') \<Rightarrow> (PRun sid crew, s')
           | (False, s') \<Rightarrow> (PRelease (err_reply 429 ''server busy: too many concurrent crew executions''), s'))
      | PRun sid crew \<Rightarrow>
          (case kickoff crew of
             Some e \<Rightarrow> (PFinish sid ''failed'', persistSessionFailure sid (err_text e) now s)
           | None \<Rightarrow> (PFinish sid ''completed'', persistSessionComplete sid now s))
      | PFinish sid status \<Rightarrow> (PFree, finishIdem sid status s)
      | PFree \<Rightarrow> (PEnd, releaseSem s)
      | PDone r \<Rightarrow> (PDone r, s)
      | PEnd \<Rightarrow> (PEnd, s))"

text \<open>The answer to a request, and a handler that runs without interruption to it.\<close>

fun answer :: "'l pc \<Rightarrow> reply option" where
  "answer (PDone r) = Some r"
| "answer (PRun sid crew) = Some (202, [(''message'', VString ''Crew execution started''), (''session_id'', VString sid)])"
| "answer _ = None"

fun kick_steps ::
  "nat \<Rightarrow> 'l kick_env \<Rightarrow> int \<Rightarrow> ('l built_crew \<Rightarrow> goerr option) \<Rightarrow> api_request \<Rightarrow> string \<Rightarrow> 'l pc \<Rightarrow> 'c Server \<Rightarrow> 'l pc \<times> 'c Server" where
  "kick_steps 0 E now kickoff q owner pc s = (pc, s)"
| "kick_steps (Suc n) E now kickoff q owner pc s =
     (if answer pc \<noteq> None then (pc, s)
      else (case kick_step E now kickoff q owner pc s of (pc', s') \<Rightarrow> kick_steps n E now kickoff q owner pc' s'))"

definition handleKickoff ::
  "'l kick_env \<Rightarrow> int \<Rightarrow> api_request \<Rightarrow> string \<Rightarrow> 'c Server \<Rightarrow> 'l pc \<times> 'c Server" where
  "handleKickoff E now q owner s = kick_steps 7 E now (\<lambda>_. None) q owner PBind s"


section \<open>Interleaved requests\<close>

type_synonym ('c, 'l) api_sys = "'c Server \<times> (api_request \<times> string \<times> 'l pc) list"

text \<open>A request arrives, a request makes a step, somebody reads a session.\<close>

inductive api_step :: "'l kick_env \<Rightarrow> ('c, 'l) api_sys \<Rightarrow> ('c, 'l) api_sys \<Rightarrow> bool" for E where
  arrive: "api_step E (s, ts) (s, ts @ [(q, owner, PBind)])"
| move: "i < length ts \<Longrightarrow> ts ! i = (q, owner, pc) \<Longrightarrow> kick_step E now kickoff q owner pc s = (pc', s') \<Longrightarrow>
    api_step E (s, ts) (s', ts[i := (q, owner, pc')])"
| read: "loadSessionState rfc sid owner s = (r, s') \<Longrightarrow> api_step E (s, ts) (s', ts)"

inductive_cases api_step_cases: "api_step E (s, ts) y"

abbreviation api_steps :: "'l kick_env \<Rightarrow> ('c, 'l) api_sys \<Rightarrow> ('c, 'l) api_sys \<Rightarrow> bool" where
  "api_steps E \<equiv> (api_step E)\<^sup>*\<^sup>*"

text \<open>The session a request has claimed, whether it holds a slot, whether it holds its key, and whether its crew has been started.\<close>

fun claims :: "'l pc \<Rightarrow> string option" where
  "claims (PFinalize sid crew) = Some sid"
| "claims (PAcquire sid crew) = Some sid"
| "claims (PRun sid crew) = Some sid"
| "claims pc = None"

fun busy :: "'l pc \<Rightarrow> bool" where
  "busy (PRun sid crew) \<longleftrightarrow> True"
| "busy (PFinish sid st) \<longleftrightarrow> True"
| "busy PFree \<longleftrightarrow> True"
| "busy pc \<longleftrightarrow> False"

fun accepted :: "'l pc \<Rightarrow> bool" where
  "accepted PEnd \<longleftrightarrow> True"
| "accepted pc \<longleftrightarrow> busy pc"

fun holding :: "'l pc \<Rightarrow> bool" where
  "holding PBind \<longleftrightarrow> False"
| "holding (PReserve p) \<longleftrightarrow> False"
| "holding (PDone r) \<longleftrightarrow> False"
| "holding pc \<longleftrightarrow> True"

abbreviation status_of :: "'c Server \<Rightarrow> string \<Rightarrow> string option" where
  "status_of s sid \<equiv> map_option ss_Status (sv_sessions s sid)"

subsection \<open>What the operations keep\<close>

lemma doIdem_sessions [simp]:
  "sv_sessions (snd (doIdem op key owner sid st now s)) = sv_sessions s"
  "sv_sem (snd (doIdem op key owner sid st now s)) = sv_sem s"
  by (simp_all add: doIdem_def Let_def split: idemOp.splits option.splits prod.splits)

lemma idem_sessions [simp]:
  "sv_sessions (releaseIdem k s) = sv_sessions s" "sv_sessions (finalizeIdem k sid now s) = sv_sessions s"
  "sv_sessions (finishIdem sid st s) = sv_sessions s"
  "sv_sem (releaseIdem k s) = sv_sem s" "sv_sem (finalizeIdem k sid now s) = sv_sem s" "sv_sem (finishIdem sid st s) = sv_sem s"
  by (simp_all add: releaseIdem_def finalizeIdem_def finishIdem_def)

lemma reserve_facts:
  assumes "reserveIdem k owner sid now s = (r, s')"
  shows "sv_sessions s' = sv_sessions s" "sv_sem s' = sv_sem s"
  using doIdem_sessions [of OpReserve k owner sid "[]" now s] assms [unfolded reserveIdem_def] by (metis snd_conv)+

lemma save_quietly_simps [simp]:
  "sv_sessions (save_quietly now cp s) = sv_sessions s" "sv_idemKeys (save_quietly now cp s) = sv_idemKeys s"
  "sv_idemBySession (save_quietly now cp s) = sv_idemBySession s" "sv_sem (save_quietly now cp s) = sv_sem s"
  by (auto simp: save_quietly_def split: option.splits)

lemma persist_end [simp]:
  "sv_idemKeys (persistSessionFailure sid r now s) = sv_idemKeys s" "sv_sem (persistSessionFailure sid r now s) = sv_sem s"
  "sv_idemKeys (persistSessionComplete sid now s) = sv_idemKeys s" "sv_sem (persistSessionComplete sid now s) = sv_sem s"
  "sv_idemBySession (persistSessionFailure sid r now s) = sv_idemBySession s"
  "sv_idemBySession (persistSessionComplete sid now s) = sv_idemBySession s"
  by (auto simp: persistSessionFailure_def persistSessionComplete_def Let_def split: option.splits)

lemma persist_end_other:
  "sid' \<noteq> sid \<Longrightarrow> sv_sessions (persistSessionFailure sid r now s) sid' = sv_sessions s sid'"
  "sid' \<noteq> sid \<Longrightarrow> sv_sessions (persistSessionComplete sid now s) sid' = sv_sessions s sid'"
  by (auto simp: persistSessionFailure_def persistSessionComplete_def Let_def split: option.splits)

lemma persist_start:
  assumes "persistSessionStart sid owner now s = (r, s')"
  shows "sv_idemKeys s' = sv_idemKeys s" "sv_idemBySession s' = sv_idemBySession s" "sv_sem s' = sv_sem s"
    "\<And>sid'. sid' \<noteq> sid \<Longrightarrow> sv_sessions s' sid' = sv_sessions s sid'"
    "status_of s sid = Some ''running'' \<Longrightarrow> r \<noteq> None \<and> sv_sessions s' = sv_sessions s"
    "r = None \<Longrightarrow> status_of s' sid = Some ''running'' \<and> owner_of s' sid = owner"
  using assms by (auto simp: persistSessionStart_def owner_of_def Let_def split: if_splits option.splits prod.splits)

lemma load_keeps:
  assumes "loadSessionState rfc sid owner s = (r, s')"
  shows "sv_sessions s' = sv_sessions s" "sv_idemKeys s' = sv_idemKeys s" "sv_sem s' = sv_sem s" "sv_idemBySession s' = sv_idemBySession s"
  using assms by (auto simp: loadSessionState_def split: option.splits prod.splits)


lemma kick_sessions:
  assumes "kick_step E now kickoff q owner pc s = (pc', s')"
  shows "claims pc' = Some sid \<Longrightarrow> claims pc \<noteq> Some sid \<Longrightarrow> status_of s sid \<noteq> Some ''running''"
    and "claims pc' = Some sid \<Longrightarrow> claims pc = Some sid \<longrightarrow> status_of s sid = Some ''running'' \<Longrightarrow> status_of s' sid = Some ''running''"
    and "status_of s sid = Some ''running'' \<Longrightarrow> claims pc \<noteq> Some sid \<Longrightarrow> status_of s' sid = Some ''running''"
proof -
  have "(claims pc' = Some sid \<longrightarrow> claims pc \<noteq> Some sid \<longrightarrow> status_of s sid \<noteq> Some ''running'') \<and>
    (claims pc' = Some sid \<longrightarrow> (claims pc = Some sid \<longrightarrow> status_of s sid = Some ''running'') \<longrightarrow> status_of s' sid = Some ''running'') \<and>
    (status_of s sid = Some ''running'' \<longrightarrow> claims pc \<noteq> Some sid \<longrightarrow> status_of s' sid = Some ''running'')"
  proof (cases pc)
    case PBind
    then show ?thesis using assms by (auto simp: kick_step_def Let_def split: sum.splits option.splits if_splits)
  next
    case (PReserve p)
    then show ?thesis using assms reserve_facts by (fastforce simp: kick_step_def split: prod.splits if_splits bool.splits)
  next
    case (PSession p)
    then show ?thesis using assms by (auto simp: kick_step_def split: sum.splits option.splits if_splits)
  next
    case (PPersist sid' crew)
    obtain r s1 where p: "persistSessionStart sid' owner now s = (r, s1)" by fastforce
    have e: "s' = s1" "r \<noteq> None \<longrightarrow> claims pc' = None" "r = None \<longrightarrow> claims pc' = Some sid'"
      using assms PPersist p by (auto simp: kick_step_def split: option.splits if_splits)
    show ?thesis
    proof (cases "sid' = sid")
      case True
      with e persist_start(5,6) [OF p] PPersist show ?thesis by (cases r) auto
    next
      case False
      with e persist_start(4) [OF p, of sid] PPersist show ?thesis by (cases r) auto
    qed
  next
    case (PAcquire sid' crew)
    then show ?thesis using assms by (auto simp: kick_step_def acquireSem_def split: if_splits)
  next
    case (PRun sid' crew)
    show ?thesis
    proof (cases "sid' = sid")
      case True
      then show ?thesis using PRun assms by (auto simp: kick_step_def split: option.splits)
    next
      case False
      then have "sv_sessions s' sid = sv_sessions s sid" "claims pc' = None"
        using PRun assms persist_end_other [of sid sid'] by (auto simp: kick_step_def split: option.splits)
      then show ?thesis by simp
    qed
  qed (use assms in \<open>auto simp: kick_step_def releaseSem_def\<close>)
  then show "claims pc' = Some sid \<Longrightarrow> claims pc \<noteq> Some sid \<Longrightarrow> status_of s sid \<noteq> Some ''running''"
    and "claims pc' = Some sid \<Longrightarrow> claims pc = Some sid \<longrightarrow> status_of s sid = Some ''running'' \<Longrightarrow> status_of s' sid = Some ''running''"
    and "status_of s sid = Some ''running'' \<Longrightarrow> claims pc \<noteq> Some sid \<Longrightarrow> status_of s' sid = Some ''running''"
    by blast+
qed

lemma kick_sem:
  assumes "kick_step E now kickoff q owner pc s = (pc', s')" "sv_sem s \<le> kickoffSem" "busy pc \<longrightarrow> 0 < sv_sem s"
  shows "sv_sem s' + of_bool (busy pc) = sv_sem s + of_bool (busy pc')" "sv_sem s' \<le> kickoffSem"
proof -
  have "sv_sem s' + of_bool (busy pc) = sv_sem s + of_bool (busy pc') \<and> sv_sem s' \<le> kickoffSem"
  proof (cases pc)
    case PBind
    then show ?thesis using assms by (auto simp: kick_step_def Let_def split: sum.splits option.splits if_splits)
  next
    case (PReserve p)
    then show ?thesis using assms reserve_facts by (fastforce simp: kick_step_def split: prod.splits if_splits bool.splits)
  next
    case (PSession p)
    then show ?thesis using assms by (auto simp: kick_step_def split: sum.splits option.splits if_splits)
  next
    case (PPersist sid' crew)
    then show ?thesis using assms persist_start(3) by (fastforce simp: kick_step_def split: option.splits prod.splits if_splits)
  next
    case (PAcquire sid' crew)
    then show ?thesis using assms by (auto simp: kick_step_def acquireSem_def split: if_splits)
  next
    case (PRun sid' crew)
    then show ?thesis using assms by (auto simp: kick_step_def split: option.splits)
  qed (use assms in \<open>auto simp: kick_step_def releaseSem_def\<close>)
  then show "sv_sem s' + of_bool (busy pc) = sv_sem s + of_bool (busy pc')" "sv_sem s' \<le> kickoffSem" by simp_all
qed

lemma length_filter_update:
  "i < length xs \<Longrightarrow> length (filter P (xs[i := y])) + of_bool (P (xs ! i)) = length (filter P xs) + of_bool (P y)"
proof (induction xs arbitrary: i)
  case (Cons x xs)
  show ?case
  proof (cases i)
    case (Suc k)
    with Cons.IH [of k] Cons.prems show ?thesis by (cases "P x") simp_all
  qed simp
qed simp

text \<open>The invariant of sessions and slots.\<close>

abbreviation pc_at :: "(api_request \<times> string \<times> 'l pc) list \<Rightarrow> nat \<Rightarrow> 'l pc" where
  "pc_at ts i \<equiv> snd (snd (ts ! i))"

fun run_inv :: "('c, 'l) api_sys \<Rightarrow> bool" where
  "run_inv (s, ts) \<longleftrightarrow>
     (\<forall>i < length ts. \<forall>sid. claims (pc_at ts i) = Some sid \<longrightarrow> status_of s sid = Some ''running'') \<and>
     (\<forall>i < length ts. \<forall>j < length ts. claims (pc_at ts i) \<noteq> None \<longrightarrow> claims (pc_at ts i) = claims (pc_at ts j) \<longrightarrow> i = j) \<and>
     sv_sem s = length (filter (\<lambda>t. busy (snd (snd t))) ts) \<and> sv_sem s \<le> kickoffSem"

lemma run_inv_move:
  assumes I: "run_inv (s, ts)" and i: "i < length ts" "ts ! i = (q, owner, pc)"
    and k: "kick_step E now kickoff q owner pc s = (pc', s')"
  shows "run_inv (s', ts[i := (q, owner, pc')])"
proof -
  note K = kick_sessions [OF k]
  have one: "claims (pc_at ts j) = Some sid \<Longrightarrow> status_of s sid = Some ''running''" if "j < length ts" for j sid
    using I that by auto
  have uniq: "claims (pc_at ts j) = Some sid \<Longrightarrow> claims (pc_at ts j') = Some sid \<Longrightarrow> j = j'"
    if "j < length ts" "j' < length ts" for j j' sid
    using I that by auto
  have pc: "pc_at ts i = pc" by (simp add: i)
  have "status_of s' sid = Some ''running''"
    if "j < length ts" "claims (pc_at (ts[i := (q, owner, pc')]) j) = Some sid" for j sid
  proof (cases "j = i")
    case True
    with that i have "claims pc' = Some sid" by simp
    then show ?thesis using K(2) one [OF i(1)] pc by blast
  next
    case False
    with that have c: "claims (pc_at ts j) = Some sid" by simp
    then have "claims pc \<noteq> Some sid" using uniq [OF that(1) i(1)] pc False by blast
    then show ?thesis using K(3) one [OF that(1) c] by blast
  qed
  moreover have "j = j'"
    if j: "j < length ts" "j' < length ts" and c: "claims (pc_at (ts[i := (q, owner, pc')]) j) = Some sid"
      "claims (pc_at (ts[i := (q, owner, pc')]) j') = Some sid" for j j' sid
  proof (rule ccontr)
    assume ne: "j \<noteq> j'"
    have old: "claims (pc_at ts l) = Some sid" if "l \<noteq> i" "l \<in> {j, j'}" for l using c that by auto
    have new: "claims pc' = Some sid" if "i \<in> {j, j'}" using c that i by auto
    show False
    proof (cases "i \<in> {j, j'}")
      case True
      then have "(if i = j then j' else j) \<noteq> i" "(if i = j then j' else j) \<in> {j, j'}" using ne by auto
      then obtain l where l: "l \<noteq> i" "l \<in> {j, j'}" by blast
      then have "l < length ts" using j by auto
      then have "status_of s sid = Some ''running''" using one old [OF l] by blast
      then have "claims pc = Some sid" using K(1) new [OF True] by blast
      then show False using uniq [OF \<open>l < length ts\<close> i(1)] old [OF l] l(1) pc by blast
    next
      case False
      then have "claims (pc_at ts j) = Some sid" "claims (pc_at ts j') = Some sid" using old [of j] old [of j'] by auto
      then show False using uniq [OF j] ne by blast
    qed
  qed
  moreover have "sv_sem s' = length (filter (\<lambda>t. busy (snd (snd t))) (ts[i := (q, owner, pc')]))" "sv_sem s' \<le> kickoffSem"
  proof -
    have sem: "sv_sem s = length (filter (\<lambda>t. busy (snd (snd t))) ts)" "sv_sem s \<le> kickoffSem" using I by auto
    have "busy pc \<longrightarrow> 0 < sv_sem s"
    proof
      assume "busy pc"
      then have "ts ! i \<in> set (filter (\<lambda>t. busy (snd (snd t))) ts)" using i nth_mem [OF i(1)] by simp
      then show "0 < sv_sem s" unfolding sem(1) by (metis length_pos_if_in_set)
    qed
    note S = kick_sem [OF k sem(2) this]
    show "sv_sem s' \<le> kickoffSem" by (rule S(2))
    show "sv_sem s' = length (filter (\<lambda>t. busy (snd (snd t))) (ts[i := (q, owner, pc')]))"
      using S(1) sem(1) length_filter_update [OF i(1), of "\<lambda>t. busy (snd (snd t))" "(q, owner, pc')"] i(2) by simp
  qed
  ultimately show ?thesis by fastforce
qed

lemma run_inv_step: "api_step E x y \<Longrightarrow> run_inv x \<Longrightarrow> run_inv y"
proof (induction rule: api_step.induct)
  case (arrive s ts q owner)
  then show ?case by (auto simp: nth_append less_Suc_eq)
next
  case (move i ts q owner pc kickoff s pc' s')
  then show ?case using run_inv_move by blast
next
  case (read rfc sid owner s r s' ts)
  then show ?case unfolding run_inv.simps load_keeps(1) [OF read(1)] load_keeps(3) [OF read(1)] by blast
qed

lemma run_inv_reach: "api_steps E (NewServer store, []) x \<Longrightarrow> run_inv x"
  by (induction rule: rtranclp_induct) (auto simp: NewServer_def intro: run_inv_step)


text \<open>The invariant of the keys: a key is held by one request at most, and while it is, it is in the ledger.\<close>

abbreviation key_at :: "(api_request \<times> string \<times> 'l pc) list \<Rightarrow> nat \<Rightarrow> string" where
  "key_at ts i \<equiv> aq_IdemKey (fst (ts ! i))"

abbreviation key_in :: "string \<Rightarrow> 'c Server \<Rightarrow> bool" where
  "key_in k s \<equiv> map_of (sv_idemKeys s) k \<noteq> None"

fun key_inv :: "('c, 'l) api_sys \<Rightarrow> bool" where
  "key_inv (s, ts) \<longleftrightarrow>
     (\<forall>i < length ts. holding (pc_at ts i) \<longrightarrow> key_at ts i \<noteq> [] \<longrightarrow> key_in (key_at ts i) s) \<and>
     (\<forall>i < length ts. \<forall>j < length ts. holding (pc_at ts i) \<longrightarrow> holding (pc_at ts j) \<longrightarrow> key_at ts i \<noteq> [] \<longrightarrow>
        key_at ts i = key_at ts j \<longrightarrow> i = j)"

lemma reserve_key:
  assumes "reserveIdem k owner sid now s = ((won, x), s')"
  shows "won \<longrightarrow> \<not> key_in k s \<and> (k \<noteq> [] \<longrightarrow> key_in k s')" "key_in k' s \<Longrightarrow> key_in k' s'"
  using assms by (auto simp: reserveIdem_def doIdem_def AList.update_conv' split: if_splits option.splits)

lemma release_key: "k' \<noteq> k \<Longrightarrow> key_in k' s \<Longrightarrow> key_in k' (releaseIdem k s)"
  by (auto simp: releaseIdem_def doIdem_def AList.delete_conv' split: option.splits)

lemma finalize_key: "key_in k' s \<Longrightarrow> key_in k' (finalizeIdem k sid now s)"
  by (auto simp: finalizeIdem_def doIdem_def AList.update_conv' Let_def split: prod.splits)

lemma finish_key: "key_in k' s \<Longrightarrow> key_in k' (finishIdem sid st s)"
  by (auto simp: finishIdem_def doIdem_def AList.update_conv' split: option.splits)

lemma kick_keys:
  assumes "kick_step E now kickoff q owner pc s = (pc', s')"
  shows "holding pc' \<Longrightarrow> \<not> holding pc \<Longrightarrow> aq_IdemKey q \<noteq> [] \<Longrightarrow> \<not> key_in (aq_IdemKey q) s \<and> key_in (aq_IdemKey q) s'"
    and "key_in k s \<Longrightarrow> k \<noteq> aq_IdemKey q \<or> holding pc' \<or> \<not> holding pc \<Longrightarrow> key_in k s'"
proof -
  have "(holding pc' \<longrightarrow> \<not> holding pc \<longrightarrow> aq_IdemKey q \<noteq> [] \<longrightarrow> \<not> key_in (aq_IdemKey q) s \<and> key_in (aq_IdemKey q) s') \<and>
    (key_in k s \<longrightarrow> k \<noteq> aq_IdemKey q \<or> holding pc' \<or> \<not> holding pc \<longrightarrow> key_in k s')"
  proof (cases pc)
    case PBind
    then show ?thesis using assms by (auto simp: kick_step_def Let_def split: sum.splits option.splits if_splits)
  next
    case (PReserve p)
    obtain won x s1 where r: "reserveIdem (aq_IdemKey q) owner (kr_SessionID p) now s = ((won, x), s1)" by (metis surj_pair)
    have e: "s' = s1" "holding pc' = won" using assms PReserve r by (auto simp: kick_step_def split: bool.splits)
    show ?thesis using reserve_key [OF r] e PReserve by auto
  next
    case (PSession p)
    then show ?thesis using assms by (auto simp: kick_step_def split: sum.splits option.splits if_splits)
  next
    case (PRelease r)
    then have e: "pc' = PDone r" "s' = releaseIdem (aq_IdemKey q) s" using assms by (simp_all add: kick_step_def)
    show ?thesis unfolding e PRelease using release_key [of k "aq_IdemKey q" s] by auto
  next
    case (PPersist sid crew)
    obtain r s1 where p: "persistSessionStart sid owner now s = (r, s1)" by fastforce
    show ?thesis using assms PPersist p persist_start(1) [OF p] by (auto simp: kick_step_def split: option.splits if_splits)
  next
    case (PAcquire sid crew)
    then show ?thesis using assms by (auto simp: kick_step_def acquireSem_def split: if_splits)
  next
    case (PRun sid crew)
    then show ?thesis using assms by (auto simp: kick_step_def split: option.splits)
  next
    case (PFinalize sid crew)
    then show ?thesis using assms finalize_key [of s k "aq_IdemKey q" sid now] by (auto simp: kick_step_def)
  next
    case (PFinish sid st)
    then show ?thesis using assms finish_key [of s k] by (auto simp: kick_step_def)
  qed (use assms in \<open>auto simp: kick_step_def releaseSem_def\<close>)
  then show "holding pc' \<Longrightarrow> \<not> holding pc \<Longrightarrow> aq_IdemKey q \<noteq> [] \<Longrightarrow> \<not> key_in (aq_IdemKey q) s \<and> key_in (aq_IdemKey q) s'"
    and "key_in k s \<Longrightarrow> k \<noteq> aq_IdemKey q \<or> holding pc' \<or> \<not> holding pc \<Longrightarrow> key_in k s'"
    by blast+
qed

lemma key_inv_move:
  assumes I: "key_inv (s, ts)" and i: "i < length ts" "ts ! i = (q, owner, pc)"
    and k: "kick_step E now kickoff q owner pc s = (pc', s')"
  shows "key_inv (s', ts[i := (q, owner, pc')])"
proof -
  let ?ts = "ts[i := (q, owner, pc')]"
  have there: "key_in (key_at ts j) s" if "j < length ts" "holding (pc_at ts j)" "key_at ts j \<noteq> []" for j using I that by simp
  have uniq: "j = j'" if "j < length ts" "j' < length ts" "holding (pc_at ts j)" "holding (pc_at ts j')" "key_at ts j \<noteq> []"
    "key_at ts j = key_at ts j'" for j j' using I that by simp
  have pc: "pc_at ts i = pc" "key_at ts i = aq_IdemKey q" by (simp_all add: i)
  have at: "key_at ?ts j = key_at ts j" "pc_at ?ts j = (if j = i then pc' else pc_at ts j)" if "j < length ts" for j
    using i that by (auto simp: nth_list_update)
  have other: "\<not> (j \<noteq> i \<and> holding (pc_at ts j) \<and> key_at ts j \<noteq> [] \<and> key_at ts j = aq_IdemKey q \<and> holding pc')" if "j < length ts" for j
  proof
    assume a: "j \<noteq> i \<and> holding (pc_at ts j) \<and> key_at ts j \<noteq> [] \<and> key_at ts j = aq_IdemKey q \<and> holding pc'"
    show False
    proof (cases "holding pc")
      case True
      then show False using uniq [OF that i(1)] a pc by auto
    next
      case False
      then show False using kick_keys(1) [OF k] there [OF that] a by auto
    qed
  qed
  have A: "key_in (key_at ?ts j) s'" if j: "j < length ts" "holding (pc_at ?ts j)" "key_at ?ts j \<noteq> []" for j
  proof (cases "j = i")
    case True
    then have h: "holding pc'" "aq_IdemKey q \<noteq> []" using j at pc by simp_all
    show ?thesis
    proof (cases "holding pc")
      case True
      then show ?thesis using there [OF i(1)] h pc kick_keys(2) [OF k, of "aq_IdemKey q"] at(1) [OF i(1)] \<open>j = i\<close> by simp
    next
      case False
      then show ?thesis using kick_keys(1) [OF k h(1) False h(2)] at(1) [OF i(1)] \<open>j = i\<close> pc by simp
    qed
  next
    case False
    then have h: "holding (pc_at ts j)" "key_at ts j \<noteq> []" using j at by simp_all
    have "key_at ts j \<noteq> aq_IdemKey q \<or> holding pc' \<or> \<not> holding pc"
      using uniq [OF j(1) i(1) h(1) _ h(2)] pc False by auto
    then show ?thesis using kick_keys(2) [OF k there [OF j(1) h]] at(1) [OF j(1)] by simp
  qed
  have B: "j = j'" if j: "j < length ts" "j' < length ts" "holding (pc_at ?ts j)" "holding (pc_at ?ts j')" "key_at ?ts j \<noteq> []"
    "key_at ?ts j = key_at ?ts j'" for j j'
  proof (rule ccontr)
    assume ne: "j \<noteq> j'"
    consider "j = i" | "j' = i" | "j \<noteq> i" "j' \<noteq> i" by blast
    then show False
    proof cases
      case 1
      then show False using other [OF j(2)] ne j at pc by simp
    next
      case 2
      then show False using other [OF j(1)] ne j at pc by simp
    next
      case 3
      then show False using uniq [OF j(1,2)] ne j at by simp
    qed
  qed
  have len: "length ?ts = length ts" by simp
  show ?thesis unfolding key_inv.simps len using A B by blast
qed

lemma key_inv_step: "api_step E x y \<Longrightarrow> key_inv x \<Longrightarrow> key_inv y"
proof (induction rule: api_step.induct)
  case (arrive s ts q owner)
  then show ?case by (auto simp: nth_append less_Suc_eq)
next
  case (move i ts q owner pc kickoff s pc' s')
  then show ?case using key_inv_move by blast
next
  case (read rfc sid owner s r s' ts)
  then show ?case unfolding key_inv.simps load_keeps(2) [OF read(1)] by blast
qed

lemma key_inv_reach: "api_steps E (NewServer store, []) x \<Longrightarrow> key_inv x"
  by (induction rule: rtranclp_induct) (auto simp: NewServer_def intro: key_inv_step)

lemma accepted_holding: "accepted pc \<Longrightarrow> holding pc"
  by (cases pc) auto

section \<open>Properties\<close>

text \<open>A scenario: \<open>n\<close> steps of the request at place \<open>i\<close>.\<close>

fun drive ::
  "nat \<Rightarrow> 'l kick_env \<Rightarrow> int \<Rightarrow> ('l built_crew \<Rightarrow> goerr option) \<Rightarrow> nat \<Rightarrow> ('c, 'l) api_sys \<Rightarrow> ('c, 'l) api_sys" where
  "drive 0 E now kickoff i x = x"
| "drive (Suc n) E now kickoff i (s, ts) =
     (if i < length ts then
        (case kick_step E now kickoff (fst (ts ! i)) (fst (snd (ts ! i))) (snd (snd (ts ! i))) s of
           (pc', s') \<Rightarrow> drive n E now kickoff i (s', ts[i := (fst (ts ! i), fst (snd (ts ! i)), pc')]))
      else (s, ts))"

lemma drive_reach: "api_steps E x (s, ts) \<Longrightarrow> api_steps E x (drive n E now kickoff i (s, ts))"
proof (induction n arbitrary: s ts)
  case (Suc n)
  obtain pc' s' where k: "kick_step E now kickoff (fst (ts ! i)) (fst (snd (ts ! i))) (snd (snd (ts ! i))) s = (pc', s')"
    by fastforce
  show ?case
  proof (cases "i < length ts")
    case True
    from k have "api_step E (s, ts) (s', ts[i := (fst (ts ! i), fst (snd (ts ! i)), pc')])"
      by (intro api_step.move [OF True]) auto
    with Suc.prems have "api_steps E x (s', ts[i := (fst (ts ! i), fst (snd (ts ! i)), pc')])" by (rule rtranclp.rtrancl_into_rtrancl)
    then show ?thesis using Suc.IH k True by simp
  qed (use Suc.prems in simp)
qed simp

lemma arrive_reach: "api_steps E x (s, ts) \<Longrightarrow> api_steps E x (s, ts @ map (\<lambda>(q, owner). (q, owner, PBind)) qs)"
proof (induction qs arbitrary: ts)
  case (Cons y qs)
  obtain q owner where y: "y = (q, owner)" by fastforce
  have "api_steps E x (s, ts @ [(q, owner, PBind)])"
    using Cons.prems by (rule rtranclp.rtrancl_into_rtrancl) (rule api_step.arrive)
  from Cons.IH [OF this] show ?case using y by simp
qed simp

definition wit_payload :: kickoffRequest where
  "wit_payload =
     \<lparr>kr_SessionID = ''s'', kr_AgentRole = ''r'', kr_AgentGoal = [], kr_AgentBackstory = [], kr_AgentModel = [],
      kr_AgentSystemPrompt = [], kr_TaskDescription = ''t'', kr_TaskExpectedOutput = [], kr_TaskTools = [], kr_CrewProcess = [],
      kr_MaxIterations = 3, kr_Agents = [], kr_Tasks = []\<rparr>"

definition wit_kick :: "unit kick_env" where
  "wit_kick =
     \<lparr>ke_bind = (\<lambda>body. Inr (wit_payload\<lparr>kr_SessionID := body\<rparr>)), ke_openai = [], ke_newLLM = None,
      ke_tools = \<lparr>te_getenv = (\<lambda>_. []), te_sql_open = (\<lambda>_. None), te_sql_ping = (\<lambda>_. None)\<rparr>\<rparr>"

definition wit_q :: "string \<Rightarrow> string \<Rightarrow> api_request" where
  "wit_q key sid =
     \<lparr>aq_FullPath = ''/api/v1/kickoff'', aq_Path = ''/api/v1/kickoff'', aq_GET = False, aq_Authorization = [], aq_token = [],
      aq_IP = ''a'', aq_IdemKey = key, aq_Body = sid\<rparr>"

definition wit_pair :: "string \<Rightarrow> string \<Rightarrow> string \<Rightarrow> string \<Rightarrow> (unit, unit) api_sys" where
  "wit_pair k1 s1 k2 s2 = (NewServer None, [(wit_q k1 s1, ''a'', PBind), (wit_q k2 s2, ''a'', PBind)])"

lemmas wit_kick_defs = wit_pair_def wit_q_def wit_kick_def wit_payload_def kick_step_def normalizeCrewProcess_def checkIdem_def
  NewServer_def reserveIdem_def doIdem_def new_entry_def build_crew_def buildFlatCrew_def persistSessionStart_def
  finalizeIdem_def acquireSem_def kickoffSem_def validCheckpointID_def id_char_def less_eq_char_def releaseIdem_def finishIdem_def

lemma wit_pair_reach: "api_steps wit_kick (NewServer None, []) (wit_pair k1 s1 k2 s2)"
  using arrive_reach [OF rtranclp.rtrancl_refl, of wit_kick "NewServer None" "[]" "[(wit_q k1 s1, ''a''), (wit_q k2 s2, ''a'')]"]
  by (simp add: wit_pair_def)



text \<open>
  C31: Crews run within bounds. However the requests interleave, at most ten crews are running, no two of them for one session, the session of a
  running crew is marked as running, and the semaphore counts the crews that have not given their slot back.
\<close>

theorem crews_bounded_exclusive:
  assumes "api_steps E (NewServer store, []) (s, ts)"
  shows "length (filter (\<lambda>t. busy (snd (snd t))) ts) \<le> 10 \<and> sv_sem s = length (filter (\<lambda>t. busy (snd (snd t))) ts) \<and>
    (\<forall>i < length ts. \<forall>sid crew. pc_at ts i = PRun sid crew \<longrightarrow> status_of s sid = Some ''running'' \<and>
       (\<forall>j < length ts. \<forall>crew'. pc_at ts j = PRun sid crew' \<longrightarrow> i = j))"
proof -
  have I: "run_inv (s, ts)" by (rule run_inv_reach [OF assms])
  have "status_of s sid = Some ''running''" "\<forall>j < length ts. \<forall>crew'. pc_at ts j = PRun sid crew' \<longrightarrow> i = j"
    if "i < length ts" "pc_at ts i = PRun sid crew" for i sid crew
  proof -
    have c: "claims (pc_at ts i) = Some sid" using that by simp
    show "status_of s sid = Some ''running''" using I c that(1) by simp
    show "\<forall>j < length ts. \<forall>crew'. pc_at ts j = PRun sid crew' \<longrightarrow> i = j"
    proof (intro allI impI)
      fix j crew' assume j: "j < length ts" "pc_at ts j = PRun sid crew'"
      then have "claims (pc_at ts j) = Some sid" by simp
      with I c that(1) j(1) show "i = j" by simp
    qed
  qed
  moreover have "length (filter (\<lambda>t. busy (snd (snd t))) ts) \<le> 10 \<and> sv_sem s = length (filter (\<lambda>t. busy (snd (snd t))) ts)"
    using I by (simp add: kickoffSem_def)
  ultimately show ?thesis by blast
qed

theorem crews_bounded_exclusive_witness:
  "\<exists>s ts. drive 6 wit_kick 5 (\<lambda>_. None) 0 (wit_pair ''k'' ''s'' [] ''t'') = (s, ts) \<and>
     sv_sem s = length (filter (\<lambda>t. busy (snd (snd t))) ts) \<and> status_of s ''s'' = Some ''running''"
proof -
  obtain s ts where d: "drive 6 wit_kick 5 (\<lambda>_. None) 0 (wit_pair ''k'' ''s'' [] ''t'') = (s, ts)" by fastforce
  have r: "api_steps wit_kick (NewServer None, []) (s, ts)"
    using drive_reach [OF wit_pair_reach [unfolded wit_pair_def], of 6 5 "\<lambda>_. None" 0 "''k''" "''s''" "[]" "''t''",
      unfolded wit_pair_def [symmetric] d] .
  have len: "length ts = 2" using d by (auto simp: eval_nat_numeral wit_kick_defs)
  obtain crew where c: "pc_at ts 0 = PRun ''s'' crew" using d by (auto simp: eval_nat_numeral wit_kick_defs)
  have "status_of s ''s'' = Some ''running''"
    using crews_bounded_exclusive [OF r, THEN conjunct2, THEN conjunct2, rule_format, of 0, OF _ c] len by simp
  then show ?thesis using crews_bounded_exclusive [OF r] d by blast
qed

end
