(* ===== verification/API_Sessions.thy ===== *)
theory API_Sessions
  imports API_Kickoff
begin

text \<open>
  What the handlers of the HTTP API promise about sessions and keys beyond one request: the crews that are built, sessions and
  keys that get stuck, and what a session looks like after the server has been restarted on its checkpoint store
  (\<^verbatim>\<open>pkg/api/handlers.go\<close> over \<^verbatim>\<open>pkg/crew/checkpoint.go\<close>).
\<close>

section \<open>The crew that is built\<close>

text \<open>The agents have the requested roles in order, without repetition, and no tools yet.\<close>

lemma ba_Role_simps [simp]:
  "ba_Role (with_system_prompt p a) = ba_Role a" "ba_Tools (with_system_prompt p a) = ba_Tools a"
  "ba_Role (WithTools ts a) = ba_Role a" "ba_Tools (WithTools ts a) = ba_Tools a @ ts"
  by (simp_all add: with_system_prompt_def WithTools_def)

lemma new_agent_simps [simp]:
  "ba_Role (NewAgentLegacy r g b l [WithMaxIterations n]) = r" "ba_Tools (NewAgentLegacy r g b l [WithMaxIterations n]) = []"
  by (simp_all add: NewAgentLegacy_def WithMaxIterations_def)

lemma build_agents_roles:
  assumes "build_agents E p as acc = Inr agents" "distinct (map ba_Role acc)"
  shows "map ba_Role agents = map ba_Role acc @ map ka_Role as \<and> distinct (map ba_Role agents) \<and>
    (\<forall>a \<in> set agents. a \<in> set acc \<or> ba_Tools a = [])"
  using assms
proof (induction as arbitrary: acc)
  case (Cons a as)
  from Cons.prems(1) obtain client where c: "agent_client E a = Inr client" "ka_Role a \<notin> ba_Role ` set acc"
    by (auto split: if_splits sum.splits)
  define x where "x = with_system_prompt (ka_SystemPrompt a) (NewAgentLegacy (ka_Role a) (ka_Goal a) (ka_Backstory a) client
    [WithMaxIterations (if ka_MaxIterations a = 0 then kr_MaxIterations p else ka_MaxIterations a)])"
  have x: "ba_Role x = ka_Role a" "ba_Tools x = []" by (simp_all add: x_def)
  have "build_agents E p as (acc @ [x]) = Inr agents" using Cons.prems(1) c by (simp add: x_def)
  moreover have "distinct (map ba_Role (acc @ [x]))" using Cons.prems(2) c(2) x by simp
  ultimately have h: "map ba_Role agents = map ba_Role (acc @ [x]) @ map ka_Role as \<and> distinct (map ba_Role agents) \<and>
    (\<forall>a \<in> set agents. a \<in> set (acc @ [x]) \<or> ba_Tools a = [])" by (rule Cons.IH)
  then have "map ba_Role agents = map ba_Role acc @ map ka_Role (a # as)" using x by simp
  moreover have "\<forall>a \<in> set agents. a \<in> set acc \<or> ba_Tools a = []" using h x by auto
  ultimately show ?case using h by blast
qed simp

lemma agent_index_role:
  assumes "agent_index agents role = Some j"
  shows "j < length agents" "ba_Role (agents ! j) = role"
  using assms by (auto simp: agent_index_def find_Some_iff)

lemma resolve_no_review: "resolveTaskTools T names = Inr tools \<Longrightarrow> t \<in> set tools \<Longrightarrow> \<not> RequiresReview t"
  by (induction names arbitrary: tools) (auto split: if_splits sum.splits)

definition wired :: "'l built_agent list \<Rightarrow> kickoffTask \<Rightarrow> built_task \<Rightarrow> bool" where
  "wired agents t b \<longleftrightarrow>
     bt_Description b = kt_Description t \<and> bt_ExpectedOutput b = kt_ExpectedOutput t \<and> bt_Agent b < length agents \<and>
     (if kt_AgentRole t = [] then length agents = 1 else ba_Role (agents ! bt_Agent b) = kt_AgentRole t)"

lemma wired_cong: "map ba_Role as = map ba_Role bs \<Longrightarrow> wired as t b = wired bs t b"
  by (metis (no_types, lifting) length_map nth_map wired_def)

lemma roles_update: "j < length as \<Longrightarrow> ba_Role x = ba_Role (as ! j) \<Longrightarrow> map ba_Role (as[j := x]) = map ba_Role as"
  by (simp add: map_update list_update_same_conv)

lemma build_tasks_wired:
  assumes "build_tasks T i ts agents acc = Inr (agents', bs)" "\<forall>a \<in> set agents. \<forall>t \<in> set (ba_Tools a). \<not> RequiresReview t"
  shows "map ba_Role agents' = map ba_Role agents \<and> (\<exists>bs'. bs = acc @ bs' \<and> list_all2 (wired agents) ts bs') \<and>
    (\<forall>a \<in> set agents'. \<forall>t \<in> set (ba_Tools a). \<not> RequiresReview t)"
  using assms
proof (induction ts arbitrary: i agents acc)
  case (Cons t ts)
  let ?role = "if kt_AgentRole t = [] then ba_Role (hd agents) else kt_AgentRole t"
  from Cons.prems(1) obtain j tools where
      j: "agent_index agents ?role = Some j" and tools: "resolveTaskTools T (kt_Tools t) = Inr tools"
      and one: "kt_AgentRole t = [] \<longrightarrow> length agents = 1"
      and rec: "build_tasks T (Suc i) ts (agents[j := WithTools tools (agents ! j)])
        (acc @ [\<lparr>bt_Description = kt_Description t, bt_ExpectedOutput = kt_ExpectedOutput t, bt_Agent = j\<rparr>]) = Inr (agents', bs)"
    by (auto simp: Let_def split: if_splits option.splits sum.splits)
  let ?b = "\<lparr>bt_Description = kt_Description t, bt_ExpectedOutput = kt_ExpectedOutput t, bt_Agent = j\<rparr>"
  let ?as = "agents[j := WithTools tools (agents ! j)]"
  note ji = agent_index_role [OF j]
  have roles: "map ba_Role ?as = map ba_Role agents" by (rule roles_update [OF ji(1)]) simp
  have "\<forall>a \<in> set ?as. \<forall>t \<in> set (ba_Tools a). \<not> RequiresReview t"
    using Cons.prems(2) Cons.prems(2) [rule_format, OF nth_mem [OF ji(1)]] resolve_no_review [OF tools]
    by (auto dest!: set_update_subset_insert [THEN subsetD])
  from Cons.IH [OF rec this] obtain bs' where
      *: "map ba_Role agents' = map ba_Role ?as" "bs = (acc @ [?b]) @ bs'" "list_all2 (wired ?as) ts bs'"
      "\<forall>a \<in> set agents'. \<forall>t \<in> set (ba_Tools a). \<not> RequiresReview t" by blast
  have "wired agents t ?b" using ji one by (auto simp: wired_def)
  moreover have "list_all2 (wired agents) ts bs'" using *(3) wired_cong [OF roles] by (auto simp: list_all2_iff)
  ultimately have "bs = acc @ (?b # bs')" "list_all2 (wired agents) (t # ts) (?b # bs')" using *(2) by simp_all
  then show ?case unfolding *(1) roles using *(4) by blast
qed auto

text \<open>
  The crew of a multi-agent request is the one that was asked for: at most ten agents with the requested roles, which are distinct,
  between one and 32 tasks in the order of the request, each with the agent of the role it names (or the only agent there is), no
  tool that needs a human review, and no human in the loop.
\<close>

theorem built_crew_wired:
  assumes "buildMultiCrew E p = Inr crew"
  shows "bc_Headless crew \<and> map ba_Role (bc_Agents crew) = map ka_Role (kr_Agents p) \<and> distinct (map ka_Role (kr_Agents p)) \<and>
    length (kr_Agents p) \<le> 10 \<and> 1 \<le> length (kr_Tasks p) \<and> length (kr_Tasks p) \<le> 32 \<and>
    list_all2 (wired (bc_Agents crew)) (kr_Tasks p) (bc_Tasks crew) \<and>
    list_all (\<lambda>a. list_all (\<lambda>t. \<not> RequiresReview t) (ba_Tools a)) (bc_Agents crew)"
proof -
  from assms obtain agents agents' bs where b: "build_agents E p (kr_Agents p) [] = Inr agents"
      "build_tasks (ke_tools E) 0 (kr_Tasks p) agents [] = Inr (agents', bs)" "crew = NewCrew_headless (kr_CrewProcess p) agents' bs"
      and n: "length (kr_Agents p) \<le> 10" "length (kr_Tasks p) \<le> 32" "kr_Tasks p \<noteq> []"
    by (auto simp: buildMultiCrew_def maxKickoffAgents_def maxKickoffTasks_def split: if_splits sum.splits)
  have a: "map ba_Role agents = map ka_Role (kr_Agents p)" "distinct (map ka_Role (kr_Agents p))" "\<forall>a \<in> set agents. ba_Tools a = []"
    using build_agents_roles [OF b(1)] by (simp_all, metis)
  from build_tasks_wired [OF b(2)] a(3)
  have t: "map ba_Role agents' = map ba_Role agents" "list_all2 (wired agents) (kr_Tasks p) bs"
    "\<forall>a \<in> set agents'. \<forall>t \<in> set (ba_Tools a). \<not> RequiresReview t" by auto
  have "list_all2 (wired agents') (kr_Tasks p) bs" using t(2) wired_cong [OF t(1)] by (auto simp: list_all2_iff)
  then show ?thesis using a t n b(3) by (simp add: NewCrew_headless_def list_all_iff Suc_le_eq)
qed

definition wit_multi :: kickoffRequest where
  "wit_multi = wit_payload\<lparr>kr_AgentRole := [], kr_TaskDescription := [],
     kr_Agents := map (\<lambda>r. \<lparr>ka_Role = r, ka_Goal = [], ka_Backstory = [], ka_Model = [], ka_APIKey = [], ka_SystemPrompt = [], ka_MaxIterations = 0\<rparr>)
       [''a'', ''b''],
     kr_Tasks := [\<lparr>kt_Description = ''x'', kt_ExpectedOutput = [], kt_AgentRole = ''b'', kt_Tools = [''JSONTool'']\<rparr>]\<rparr>"

theorem built_crew_wired_witness:
  "\<exists>crew. buildMultiCrew wit_kick wit_multi = Inr crew \<and> list_all2 (wired (bc_Agents crew)) (kr_Tasks wit_multi) (bc_Tasks crew) \<and>
    map bt_Agent (bc_Tasks crew) = [1]"
proof -
  have t: "resolveTaskTools (ke_tools wit_kick) [''JSONTool''] = Inr [JSONTool]"
    by (simp add: headlessToolAllowlist_def CreateTool_def Let_def)
  have "\<exists>agents. build_agents wit_kick wit_multi (kr_Agents wit_multi) [] = Inr agents \<and> map ba_Role agents = [''a'', ''b'']"
    by (simp add: wit_multi_def wit_kick_def agent_client_def)
  then obtain agents where
    a: "build_agents wit_kick wit_multi (kr_Agents wit_multi) [] = Inr agents \<and> map ba_Role agents = [''a'', ''b'']" ..
  have i: "agent_index agents ''b'' = Some 1" using a by (auto simp: agent_index_def upt_conv_Cons)
  have "\<exists>crew. buildMultiCrew wit_kick wit_multi = Inr crew \<and> map bt_Agent (bc_Tasks crew) = [1]"
    using a i t by (simp add: buildMultiCrew_def wit_multi_def wit_payload_def maxKickoffAgents_def maxKickoffTasks_def NewCrew_headless_def)
  then obtain crew where c: "buildMultiCrew wit_kick wit_multi = Inr crew \<and> map bt_Agent (bc_Tasks crew) = [1]" ..
  then show ?thesis using built_crew_wired [OF c [THEN conjunct1]] by (intro exI [of _ crew]) simp
qed

section \<open>A session that stays running\<close>

text \<open>A running session nobody has claimed keeps its status, and nobody claims it.\<close>

fun abandoned :: "string \<Rightarrow> ('c, 'l) api_sys \<Rightarrow> bool" where
  "abandoned sid (s, ts) \<longleftrightarrow> status_of s sid = Some ''running'' \<and> (\<forall>i < length ts. claims (pc_at ts i) \<noteq> Some sid)"

lemma abandoned_step: "api_step E x y \<Longrightarrow> abandoned sid x \<Longrightarrow> abandoned sid y"
proof (induction rule: api_step.induct)
  case (arrive s ts q owner)
  then show ?case by (auto simp: nth_append less_Suc_eq)
next
  case (move i ts q owner pc now kickoff s pc' s')
  have "claims pc \<noteq> Some sid" using move(1,2,4) by (auto dest: spec [of _ i])
  then have "status_of s' sid = Some ''running''" "claims pc' \<noteq> Some sid"
    using kick_sessions(1,3) [OF move(3), of sid] move(4) by auto
  then show ?case using move(1,4) by (auto simp: nth_list_update)
next
  case (read rfc sid' owner s r s' ts)
  then show ?case using load_keeps(1) [OF read(1)] by simp
qed

lemma abandoned_steps: "api_steps E x y \<Longrightarrow> abandoned sid x \<Longrightarrow> abandoned sid y"
  by (induction rule: rtranclp_induct) (auto intro: abandoned_step)

text \<open>
  C33: A busy server leaves a session running for ever. A request that is refused with 429 for want of a slot has already stored its
  session as running; nothing resets it: in every later state it is still reported as running, no request has
  claimed it and none is running its crew.
\<close>

theorem saturated_session_stuck:
  assumes "api_steps E (NewServer store, []) (s, ts)" "i < length ts" "ts ! i = (q, owner, PAcquire sid crew)" "sv_sem s = 10"
    and "kick_step E now kickoff q owner (PAcquire sid crew) s = (pc', s1)" "api_steps E (s1, ts[i := (q, owner, pc')]) (s2, ts2)"
  shows "pc' = PRelease (err_reply 429 ''server busy: too many concurrent crew executions'') \<and>
    status_of s2 sid = Some ''running'' \<and> list_all (\<lambda>t. claims (snd (snd t)) \<noteq> Some sid) ts2"
proof -
  have e: "pc' = PRelease (err_reply 429 ''server busy: too many concurrent crew executions'')" "s1 = s"
    using assms(4,5) by (simp_all add: kick_step_def acquireSem_def kickoffSem_def)
  have I: "run_inv (s, ts)" by (rule run_inv_reach [OF assms(1)])
  have c: "claims (pc_at ts i) = Some sid" using assms(3) by simp
  have "status_of s sid = Some ''running''" using I c assms(2) by simp
  moreover have "claims (pc_at (ts[i := (q, owner, pc')]) j) \<noteq> Some sid" if "j < length ts" for j
  proof (cases "j = i")
    case True
    then show ?thesis using assms(2) e(1) by simp
  next
    case False
    then show ?thesis using I c assms(2) that by auto
  qed
  ultimately have "abandoned sid (s1, ts[i := (q, owner, pc')])" by (simp add: e(2))
  from abandoned_steps [OF assms(6) this] show ?thesis using e(1) by (simp add: list_all_length)
qed

text \<open>\<open>n\<close> requests for as many sessions have been accepted, and their crews are running.\<close>

lemma reach_acquire:
  assumes "sv_sessions s sid = None" "sv_store s = None" "validCheckpointID sid"
  shows "\<exists>crew t'. drive 3 wit_kick 5 (\<lambda>_. None) (length ts) (s, ts @ [(wit_q [] sid, ''a'', PBind)]) =
      (s\<lparr>sv_sessions := (sv_sessions s)(sid \<mapsto> t')\<rparr>, ts @ [(wit_q [] sid, ''a'', PAcquire sid crew)])"
proof -
  have "sid \<noteq> []" using assms(3) by (auto simp: validCheckpointID_def)
  then show ?thesis using assms
    by (simp add: eval_nat_numeral wit_q_def wit_kick_def wit_payload_def kick_step_def normalizeCrewProcess_def build_crew_def
        buildFlatCrew_def persistSessionStart_def) (rule exI, rule refl)
qed

lemma run_unkeyed:
  assumes "sv_sessions s sid = None" "sv_store s = None" "sv_sem s < 10" "validCheckpointID sid"
  shows "\<exists>crew t'. drive 4 wit_kick 5 (\<lambda>_. None) (length ts) (s, ts @ [(wit_q [] sid, ''a'', PBind)]) =
      (s\<lparr>sv_sessions := (sv_sessions s)(sid \<mapsto> t'), sv_sem := sv_sem s + 1\<rparr>, ts @ [(wit_q [] sid, ''a'', PRun sid crew)])"
proof -
  have "sid \<noteq> []" using assms(4) by (auto simp: validCheckpointID_def)
  then show ?thesis using assms
    by (simp add: eval_nat_numeral wit_q_def wit_kick_def wit_payload_def kick_step_def normalizeCrewProcess_def build_crew_def
        buildFlatCrew_def persistSessionStart_def acquireSem_def kickoffSem_def) (rule exI, rule refl)
qed

lemma xs_valid: "n < 128 \<Longrightarrow> validCheckpointID (replicate (Suc n) (CHR ''x''))"
  by (auto simp: validCheckpointID_def id_char_def less_eq_char_def list_all_iff split: if_splits)

lemma many_running:
  "n \<le> 10 \<Longrightarrow> \<exists>s ts. api_steps wit_kick (NewServer None :: unit Server, []) (s, ts) \<and> length ts = n \<and> sv_sem s = n \<and> sv_store s = None \<and>
     (\<forall>m \<ge> n. sv_sessions s (replicate (Suc m) (CHR ''x'')) = None)"
proof (induction n)
  case 0
  show ?case by (intro exI [of _ "NewServer None"] exI [of _ "[]"]) (simp add: NewServer_def)
next
  case (Suc n)
  then obtain s :: "unit Server" and ts where r: "api_steps wit_kick (NewServer None, []) (s, ts)" "length ts = n" "sv_sem s = n" "sv_store s = None"
    "\<forall>m \<ge> n. sv_sessions s (replicate (Suc m) (CHR ''x'')) = None" by auto
  let ?sid = "replicate (Suc n) (CHR ''x'')"
  obtain crew t' where d: "drive 4 wit_kick 5 (\<lambda>_. None) (length ts) (s, ts @ [(wit_q [] ?sid, ''a'', PBind)]) =
      (s\<lparr>sv_sessions := (sv_sessions s)(?sid \<mapsto> t'), sv_sem := sv_sem s + 1\<rparr>, ts @ [(wit_q [] ?sid, ''a'', PRun ?sid crew)])"
    using run_unkeyed [of s ?sid ts, OF _ r(4) _ xs_valid] r Suc.prems by fastforce
  have "api_steps wit_kick (NewServer None, [])
    (s\<lparr>sv_sessions := (sv_sessions s)(?sid \<mapsto> t'), sv_sem := sv_sem s + 1\<rparr>, ts @ [(wit_q [] ?sid, ''a'', PRun ?sid crew)])"
    unfolding d [symmetric] by (rule drive_reach) (use arrive_reach [OF r(1), of "[(wit_q [] ?sid, ''a'')]"] in simp)
  then show ?case using r by (intro exI conjI) (assumption | auto)+
qed

theorem saturated_session_stuck_witness:
  "\<exists>(s :: unit Server) s1 sid crew. sv_sem s = 10 \<and>
     kick_step wit_kick 7 (\<lambda>_. None) (wit_q [] sid) ''a'' (PAcquire sid crew) s =
       (PRelease (err_reply 429 ''server busy: too many concurrent crew executions''), s1) \<and>
     status_of s1 sid = Some ''running''"
proof -
  obtain s :: "unit Server" and ts where r: "api_steps wit_kick (NewServer None, []) (s, ts)" "length ts = 10" "sv_sem s = 10" "sv_store s = None"
    "\<forall>m \<ge> 10. sv_sessions s (replicate (Suc m) (CHR ''x'')) = None" using many_running [of 10] by auto
  let ?sid = "replicate 11 (CHR ''x'')"
  have n: "sv_sessions s ?sid = None" using r(5) [rule_format, of 10] by simp
  have v: "validCheckpointID ?sid" using xs_valid [of 10] by simp
  obtain crew t' where d: "drive 3 wit_kick 5 (\<lambda>_. None) (length ts) (s, ts @ [(wit_q [] ?sid, ''a'', PBind)]) =
      (s\<lparr>sv_sessions := (sv_sessions s)(?sid \<mapsto> t')\<rparr>, ts @ [(wit_q [] ?sid, ''a'', PAcquire ?sid crew)])"
    using reach_acquire [OF n r(4) v] by blast
  let ?s = "s\<lparr>sv_sessions := (sv_sessions s)(?sid \<mapsto> t')\<rparr>" and ?ts = "ts @ [(wit_q [] ?sid, ''a'', PAcquire ?sid crew)]"
  have a: "api_steps wit_kick (NewServer None, []) (?s, ?ts)"
    unfolding d [symmetric] by (rule drive_reach) (use arrive_reach [OF r(1), of "[(wit_q [] ?sid, ''a'')]"] in simp)
  obtain pc' s1 where k: "kick_step wit_kick 7 (\<lambda>_. None) (wit_q [] ?sid) ''a'' (PAcquire ?sid crew) ?s = (pc', s1)" by fastforce
  have "?ts ! 10 = (wit_q [] ?sid, ''a'', PAcquire ?sid crew)" using r(2) by (simp add: nth_append)
  from saturated_session_stuck [OF a _ this _ k rtranclp.rtrancl_refl] r(2,3)
  have "pc' = PRelease (err_reply 429 ''server busy: too many concurrent crew executions'') \<and> status_of s1 ?sid = Some ''running''" by simp
  then show ?thesis using k r(3) by (intro exI [of _ ?s] exI [of _ s1] exI [of _ ?sid] exI [of _ crew]) simp
qed

section \<open>A key that never completes\<close>

text \<open>An entry that is not done, that no session refers to, and whose requests have all been refused or are past the point of giving it back.\<close>

fun settled :: "'l pc \<Rightarrow> bool" where
  "settled PBind \<longleftrightarrow> True"
| "settled (PReserve p) \<longleftrightarrow> True"
| "settled (PDone r) \<longleftrightarrow> True"
| "settled pc \<longleftrightarrow> accepted pc"

fun orphaned :: "string \<Rightarrow> ('c, 'l) api_sys \<Rightarrow> bool" where
  "orphaned k (s, ts) \<longleftrightarrow>
     (\<exists>e. map_of (sv_idemKeys s) k = Some e \<and> \<not> ie_done e) \<and> (\<forall>sid. sv_idemBySession s sid \<noteq> Some k) \<and>
     (\<forall>i < length ts. key_at ts i = k \<longrightarrow> settled (pc_at ts i))"

abbreviation entry_open :: "string \<Rightarrow> 'c Server \<Rightarrow> bool" where
  "entry_open k s \<equiv> (\<exists>e. map_of (sv_idemKeys s) k = Some e \<and> \<not> ie_done e) \<and> (\<forall>sid. sv_idemBySession s sid \<noteq> Some k)"

lemma open_release: "k' \<noteq> k \<Longrightarrow> entry_open k s \<Longrightarrow> entry_open k (releaseIdem k' s)"
  by (auto simp: releaseIdem_def doIdem_def AList.delete_conv' split: option.splits)

lemma open_finalize: "k' \<noteq> k \<Longrightarrow> entry_open k s \<Longrightarrow> entry_open k (finalizeIdem k' sid now s)"
  by (auto simp: finalizeIdem_def doIdem_def AList.update_conv' Let_def split: prod.splits)

lemma open_finish: "entry_open k s \<Longrightarrow> entry_open k (finishIdem sid st s)"
  by (auto simp: finishIdem_def doIdem_def AList.update_conv' split: option.splits)

lemma open_reserve:
  assumes "reserveIdem k' owner sid now s = ((won, x), s')" "entry_open k s"
  shows "entry_open k s'" "k' = k \<Longrightarrow> \<not> won"
  using assms by (auto simp: reserveIdem_def doIdem_def AList.update_conv' split: if_splits option.splits)

lemma open_cong: "sv_idemKeys s' = sv_idemKeys s \<Longrightarrow> sv_idemBySession s' = sv_idemBySession s \<Longrightarrow> entry_open k s \<Longrightarrow> entry_open k s'"
  by simp

lemma orphan_kick:
  assumes "kick_step E now kickoff q owner pc s = (pc', s')" "entry_open k s" "k \<noteq> []" "aq_IdemKey q = k \<longrightarrow> settled pc"
  shows "entry_open k s' \<and> (aq_IdemKey q = k \<longrightarrow> settled pc')"
proof (cases pc)
  case PBind
  then show ?thesis using assms by (auto simp: kick_step_def Let_def split: sum.splits option.splits if_splits)
next
  case (PReserve p)
  obtain won x s1 where r: "reserveIdem (aq_IdemKey q) owner (kr_SessionID p) now s = ((won, x), s1)" by (metis surj_pair)
  have e: "s' = s1" "pc' = (if won then PSession p else PDone (duplicate_reply x))"
    using assms(1) PReserve r by (auto simp: kick_step_def split: bool.splits)
  show ?thesis using open_reserve [OF r assms(2)] e by auto
next
  case (PSession p)
  then show ?thesis using assms by (auto simp: kick_step_def split: sum.splits option.splits if_splits)
next
  case (PRelease r)
  then have e: "pc' = PDone r" "s' = releaseIdem (aq_IdemKey q) s" using assms by (simp_all add: kick_step_def)
  show ?thesis unfolding e using open_release [of "aq_IdemKey q" k s] assms(2,4) PRelease by auto
next
  case (PPersist sid crew)
  obtain r s1 where p: "persistSessionStart sid owner now s = (r, s1)" by fastforce
  have "s' = s1" using assms(1) PPersist p by (auto simp: kick_step_def split: option.splits)
  then show ?thesis using open_cong [OF persist_start(1,2) [OF p]] assms(2,4) PPersist by simp
next
  case (PFinalize sid crew)
  then have e: "pc' = PAcquire sid crew" "s' = finalizeIdem (aq_IdemKey q) sid now s" using assms by (simp_all add: kick_step_def)
  show ?thesis unfolding e using open_finalize [of "aq_IdemKey q" k s sid now] assms(2,4) PFinalize by auto
next
  case (PAcquire sid crew)
  then show ?thesis using assms by (auto simp: kick_step_def acquireSem_def split: if_splits)
next
  case (PRun sid crew)
  then show ?thesis using assms(1,2) by (auto simp: kick_step_def split: option.splits)
next
  case (PFinish sid st)
  then have e: "pc' = PFree" "s' = finishIdem sid st s" using assms by (simp_all add: kick_step_def)
  show ?thesis unfolding e using open_finish [OF assms(2)] by simp
qed (use assms in \<open>auto simp: kick_step_def releaseSem_def\<close>)

lemma orphaned_step: "api_step E x y \<Longrightarrow> k \<noteq> [] \<Longrightarrow> orphaned k x \<Longrightarrow> orphaned k y"
proof (induction rule: api_step.induct)
  case (arrive s ts q owner)
  then show ?case by (auto simp: nth_append less_Suc_eq)
next
  case (move i ts q owner pc now kickoff s pc' s')
  have o: "entry_open k s" and st: "\<And>j. j < length ts \<Longrightarrow> key_at ts j = k \<Longrightarrow> settled (pc_at ts j)"
    using move(5) by simp_all
  have "aq_IdemKey q = k \<longrightarrow> settled pc" using st [OF move(1)] move(2) by simp
  from orphan_kick [OF move(3) o move(4) this] have n: "entry_open k s'" "aq_IdemKey q = k \<longrightarrow> settled pc'" by blast+
  have "settled (pc_at (ts[i := (q, owner, pc')]) j)" if "j < length ts" "key_at (ts[i := (q, owner, pc')]) j = k" for j
    using that n(2) st move(1) by (cases "j = i") simp_all
  then show ?case using n(1) by simp
next
  case (read rfc sid' owner s r s' ts)
  then show ?case using load_keeps(2,4) [OF read(1)] by simp
qed

lemma orphaned_steps: "api_steps E x y \<Longrightarrow> k \<noteq> [] \<Longrightarrow> orphaned k x \<Longrightarrow> orphaned k y"
  by (induction rule: rtranclp_induct) (auto intro: orphaned_step)

text \<open>
  A refused request takes another one's completion with it. Once the session of a key has been taken over and given up by a request with another
  key (which is refused with 409), the entry of the first key stays open whatever happens, so that a replay of the first
  request is never answered with its outcome: it is told 400 or 409, \<open>duplicate request still running\<close>, even after the crew has finished.
\<close>

theorem orphaned_key_stuck:
  assumes "orphaned k (s, ts)" "k \<noteq> []" "api_steps E (s, ts) (s', ts')" "aq_IdemKey q = k"
  shows "orphaned k (s', ts') \<and> (\<exists>r. answer (fst (handleKickoff E now q owner s')) = Some r \<and> fst r \<in> {400, 409})"
proof -
  have o: "orphaned k (s', ts')" by (rule orphaned_steps [OF assms(3,2,1)])
  then obtain e where e: "map_of (sv_idemKeys s') k = Some e" "\<not> ie_done e" by auto
  have "\<exists>r. answer (fst (handleKickoff E now q owner s')) = Some r \<and> fst r \<in> {400, 409}"
    using e assms(2,4)
    by (auto simp: handleKickoff_def eval_nat_numeral kick_step_def normalizeCrewProcess_def checkIdem_def reserveIdem_def doIdem_def
        err_reply_def duplicate_reply_def Let_def split: sum.splits)
  with o show ?thesis by blast
qed

theorem orphaned_key_stuck_witness:
  "\<exists>s ts. drive 3 wit_kick 9 (\<lambda>_. None) 0 (drive 4 wit_kick 7 (\<lambda>_. None) 1 (drive 6 wit_kick 5 (\<lambda>_. None) 0
      (wit_pair ''k'' ''s'' ''j'' ''s''))) = (s, ts) \<and> status_of s ''s'' = Some ''completed'' \<and>
    (\<exists>r. answer (fst (handleKickoff wit_kick 10 (wit_q ''k'' ''s'') ''a'' s)) = Some r \<and> fst r \<in> {400, 409})"
proof -
  obtain s0 ts0 where d0: "drive 4 wit_kick 7 (\<lambda>_. None) 1 (drive 6 wit_kick 5 (\<lambda>_. None) 0 (wit_pair ''k'' ''s'' ''j'' ''s'')) = (s0, ts0)"
    by fastforce
  obtain s ts where d: "drive 3 wit_kick 9 (\<lambda>_. None) 0 (s0, ts0) = (s, ts)" by fastforce
  have o: "orphaned ''k'' (s0, ts0)"
    using d0 by (auto simp: eval_nat_numeral wit_kick_defs less_Suc_eq)
  have c: "status_of s ''s'' = Some ''completed''"
    using d0 d by (auto simp: eval_nat_numeral wit_kick_defs persistSessionComplete_def save_quietly_def releaseSem_def)
  have "api_steps wit_kick (s0, ts0) (s, ts)" unfolding d [symmetric] by (rule drive_reach) simp
  from orphaned_key_stuck [OF o _ this, of "wit_q ''k'' ''s''" 10 "''a''"] show ?thesis using d0 d c by (simp add: wit_q_def)
qed

section \<open>Sessions on a checkpoint store\<close>

text \<open>
  What the handlers rely on. \<open>good\<close> are the states of a store that works. What is loaded after a \<^verbatim>\<open>Save\<close> has the saved
  identifier, status and state; the checkpoints of other crews are untouched; loading changes nothing.
\<close>

definition same_session :: "CrewCheckpoint \<Rightarrow> CrewCheckpoint \<Rightarrow> bool" where
  "same_session x cp \<longleftrightarrow> cc_CrewID x = cc_CrewID cp \<and> cc_Status x = cc_Status cp \<and> cc_State x = cc_State cp"

definition ascii :: "string \<Rightarrow> bool" where
  "ascii s \<longleftrightarrow> list_all (\<lambda>r. r < CHR 0x7F) s"

lemma ascii_status [simp]: "ascii ''running''" "ascii ''failed''" "ascii ''completed''"
  by (simp_all add: ascii_def less_char_def)

locale session_store =
  fixes ops :: "'c store_ops" and good :: "'c \<Rightarrow> bool"
  assumes save: "good c \<Longrightarrow> validCheckpointID sid \<Longrightarrow> ascii st \<Longrightarrow> ascii owner \<Longrightarrow>
      \<exists>c'. so_Save ops now (session_checkpoint sid st err owner) c = (c', None) \<and> good c' \<and>
        (\<exists>x. fst (so_LoadLatest ops sid c') = Inr (Some x) \<and> same_session x (session_checkpoint sid st err owner)) \<and>
        (\<forall>j. j \<noteq> sid \<longrightarrow> fst (so_LoadLatest ops j c') = fst (so_LoadLatest ops j c))"
    and load: "good c \<Longrightarrow> snd (so_LoadLatest ops j c) = c"
begin

text \<open>Every session in memory is on the store, with its status and its owner.\<close>

definition on_store :: "'c \<Rightarrow> string \<Rightarrow> SessionState \<Rightarrow> bool" where
  "on_store c sid st \<longleftrightarrow> ss_SessionID st = sid \<and> validCheckpointID sid \<and> ascii (ss_Owner st) \<and>
     (\<exists>x err. fst (so_LoadLatest ops sid c) = Inr (Some x) \<and> same_session x (session_checkpoint sid (ss_Status st) err (ss_Owner st)))"

definition mirrored :: "'c Server \<Rightarrow> bool" where
  "mirrored s \<longleftrightarrow> (\<exists>c. sv_store s = Some (ops, c) \<and> good c \<and> (\<forall>sid st. sv_sessions s sid = Some st \<longrightarrow> on_store c sid st))"

lemma on_store_cong: "fst (so_LoadLatest ops sid c') = fst (so_LoadLatest ops sid c) \<Longrightarrow> on_store c' sid st = on_store c sid st"
  by (simp add: on_store_def)

lemma mirrored_start: "good c \<Longrightarrow> mirrored (NewServer (Some (ops, c)))"
  by (simp add: mirrored_def NewServer_def)

lemma mirrored_cong: "sv_sessions s' = sv_sessions s \<Longrightarrow> sv_store s' = sv_store s \<Longrightarrow> mirrored s' = mirrored s"
  by (simp add: mirrored_def)

text \<open>Writing a session in memory and to the store.\<close>

lemma mirrored_write:
  assumes m: "mirrored s" and w: "ss_SessionID st = sid" "validCheckpointID sid" "ascii (ss_Status st)" "ascii (ss_Owner st)"
    and c: "sv_store s = Some (ops, c)" "so_Save ops now (session_checkpoint sid (ss_Status st) err (ss_Owner st)) c = (c', e)"
  shows "e = None" "mirrored (s\<lparr>sv_sessions := (sv_sessions s)(sid \<mapsto> st), sv_store := Some (ops, c')\<rparr>)"
proof -
  have g: "good c" using m c(1) by (auto simp: mirrored_def)
  from save [OF g w(2-4), of now err] c(2) obtain x where
    r: "e = None" "good c'" "fst (so_LoadLatest ops sid c') = Inr (Some x)" "same_session x (session_checkpoint sid (ss_Status st) err (ss_Owner st))"
      "\<And>j. j \<noteq> sid \<Longrightarrow> fst (so_LoadLatest ops j c') = fst (so_LoadLatest ops j c)" by auto
  show "e = None" by (rule r(1))
  have "on_store c' sid st" using r(3,4) w by (auto simp: on_store_def)
  moreover have "on_store c' j st'" if "sv_sessions s j = Some st'" "j \<noteq> sid" for j st'
    using m c(1) that on_store_cong [OF r(5) [OF that(2)]] by (auto simp: mirrored_def)
  ultimately show "mirrored (s\<lparr>sv_sessions := (sv_sessions s)(sid \<mapsto> st), sv_store := Some (ops, c')\<rparr>)"
    using r(2) by (auto simp: mirrored_def)
qed

text \<open>The operations of the handlers keep it, when the owner of a request is ASCII text (it is a hexadecimal fingerprint).\<close>

lemma save_quietly_mirrored:
  assumes "mirrored s" "sv_sessions s sid = Some st" "ss_SessionID st' = sid" "ss_Owner st' = ss_Owner st" "ss_Status st' = v" "ascii v"
  shows "mirrored (save_quietly now (session_checkpoint sid v err (ss_Owner st)) (s\<lparr>sv_sessions := (sv_sessions s)(sid \<mapsto> st')\<rparr>))"
proof -
  from assms(1) obtain c where c: "sv_store s = Some (ops, c)" by (auto simp: mirrored_def)
  obtain c' e where sv: "so_Save ops now (session_checkpoint sid v err (ss_Owner st)) c = (c', e)" by fastforce
  have "on_store c sid st" using assms(1,2) c by (auto simp: mirrored_def)
  then have "validCheckpointID sid" "ascii (ss_Status st')" "ascii (ss_Owner st')" using assms(4-6) by (simp_all add: on_store_def)
  from mirrored_write(2) [OF assms(1,3) this c, of now err c' e] sv assms(4,5) c show ?thesis by (simp add: save_quietly_def)
qed

lemma mirrored_id: "mirrored s \<Longrightarrow> sv_sessions s sid = Some st \<Longrightarrow> ss_SessionID st = sid"
  unfolding mirrored_def on_store_def by blast

lemma complete_mirrored:
  assumes "mirrored s" "sv_sessions s sid = Some st"
  shows "mirrored (persistSessionComplete sid now s)"
  using save_quietly_mirrored [OF assms, of "st\<lparr>ss_Status := ''completed'', ss_FinishedAt := now\<rparr>" "''completed''" now "[]"]
    mirrored_id [OF assms] assms(2) by (simp add: persistSessionComplete_def owner_of_def)

lemma failure_mirrored:
  assumes "mirrored s" "sv_sessions s sid = Some st"
  shows "mirrored (persistSessionFailure sid r now s)"
  using save_quietly_mirrored [OF assms, of "st\<lparr>ss_Status := ''failed'', ss_Error := r, ss_FinishedAt := now\<rparr>" "''failed''" now r]
    mirrored_id [OF assms] assms(2) by (simp add: persistSessionFailure_def owner_of_def)

lemma start_mirrored:
  assumes "mirrored s" "persistSessionStart sid owner now s = (r, s')" "ascii owner"
  shows "mirrored s' \<and> (\<forall>e. r = Some e \<longrightarrow> s' = s)"
proof (cases "s' = s")
  case True
  then show ?thesis using assms(1) by simp
next
  case False
  from assms(1) obtain c where c: "sv_store s = Some (ops, c)" by (auto simp: mirrored_def)
  obtain c' e where sv: "so_Save ops now (session_checkpoint sid ''running'' [] owner) c = (c', e)" by fastforce
  let ?st = "\<lparr>ss_SessionID = sid, ss_Status = ''running'', ss_Owner = owner, ss_StartedAt = now, ss_FinishedAt = 0, ss_Error = []\<rparr>"
  have v: "validCheckpointID sid" using assms(2) False by (auto simp: persistSessionStart_def split: if_splits)
  from mirrored_write [OF assms(1), of ?st sid c now "[]" c' e] v assms(3) c sv
  have w: "e = None" "mirrored (s\<lparr>sv_sessions := (sv_sessions s)(sid \<mapsto> ?st), sv_store := Some (ops, c')\<rparr>)" by simp_all
  show ?thesis using assms(2) False v c sv w by (auto simp: persistSessionStart_def Let_def split: if_splits)
qed

lemma load_mirrored:
  assumes "mirrored s" "loadSessionState rfc sid owner s = (r, s')"
  shows "s' = s"
proof -
  from assms(1) obtain c where c: "sv_store s = Some (ops, c)" "good c" by (auto simp: mirrored_def)
  show ?thesis using assms(2) c load [OF c(2), of sid] by (auto simp: loadSessionState_def split: option.splits if_splits prod.splits)
qed

text \<open>A session is the same to its owner before and after a restart, and to nobody else.\<close>

lemma restart_same:
  assumes "mirrored s" "sv_sessions s sid = Some st" "ss_Owner st \<noteq> []"
  shows "fst (loadSessionState rfc sid (ss_Owner st) (NewServer (sv_store s))) =
      Inr ([(''session_id'', VString sid), (''status'', VString (ss_Status st))] @
        (case fst (so_LoadLatest ops sid (snd (the (sv_store s)))) of
           Inr (Some x) \<Rightarrow> if cc_Status x = ''failed'' \<and> cc_Error x \<noteq> [] then [(''error'', VString (cc_Error x))] else []))"
    and "fst (loadSessionState rfc sid (ss_Owner st) s) =
      Inr [(''session_id'', VString sid), (''status'', VString (ss_Status st)), (''started_at'', VString (rfc (ss_StartedAt st)))]"
    and "w \<noteq> ss_Owner st \<Longrightarrow> fst (loadSessionState rfc sid w (NewServer (sv_store s))) = Inl ErrSessionNotFound"
proof -
  from assms(1,2) obtain c where c: "sv_store s = Some (ops, c)" "on_store c sid st" by (auto simp: mirrored_def)
  then obtain x err where x: "fst (so_LoadLatest ops sid c) = Inr (Some x)"
    "same_session x (session_checkpoint sid (ss_Status st) err (ss_Owner st))" by (auto simp: on_store_def)
  obtain y c' where y: "so_LoadLatest ops sid c = (y, c')" by fastforce
  have f: "cc_CrewID x = sid" "cc_Status x = ss_Status st" "get_string (case cc_State x of Some m \<Rightarrow> m | None \<Rightarrow> Map.empty) ''owner'' = Some (ss_Owner st)"
    using x(2) by (simp_all add: same_session_def session_checkpoint_def get_string_def)
  show "fst (loadSessionState rfc sid (ss_Owner st) (NewServer (sv_store s))) =
      Inr ([(''session_id'', VString sid), (''status'', VString (ss_Status st))] @
        (case fst (so_LoadLatest ops sid (snd (the (sv_store s)))) of
           Inr (Some x) \<Rightarrow> if cc_Status x = ''failed'' \<and> cc_Error x \<noteq> [] then [(''error'', VString (cc_Error x))] else []))"
    using c y x(1) f assms(3) by (simp add: loadSessionState_def NewServer_def)
  show "fst (loadSessionState rfc sid (ss_Owner st) s) =
      Inr [(''session_id'', VString sid), (''status'', VString (ss_Status st)), (''started_at'', VString (rfc (ss_StartedAt st)))]"
    using assms(2) c(2) by (simp add: loadSessionState_def on_store_def)
  show "fst (loadSessionState rfc sid w (NewServer (sv_store s))) = Inl ErrSessionNotFound" if "w \<noteq> ss_Owner st"
    using c y x(1) f assms(3) that by (auto simp: loadSessionState_def NewServer_def)
qed

text \<open>Whatever the requests do, as long as their owners are ASCII.\<close>

fun mirror_inv :: "('c, 'l) api_sys \<Rightarrow> bool" where
  "mirror_inv (s, ts) \<longleftrightarrow> run_inv (s, ts) \<and> (list_all (\<lambda>t. ascii (fst (snd t))) ts \<longrightarrow> mirrored s)"

lemma mirror_kick:
  assumes "kick_step E now kickoff q owner pc s = (pc', s')" "mirrored s" "ascii owner"
    and run: "\<And>sid crew. pc = PRun sid crew \<Longrightarrow> status_of s sid = Some ''running''"
  shows "mirrored s'"
proof (cases pc)
  case PBind
  then show ?thesis using assms(1,2) by (auto simp: kick_step_def Let_def split: sum.splits option.splits if_splits)
next
  case (PReserve p)
  then have "sv_sessions s' = sv_sessions s" "sv_store s' = sv_store s"
    using assms(1) by (auto simp: kick_step_def reserveIdem_def doIdem_def split: if_splits option.splits prod.splits bool.splits)
  from mirrored_cong [OF this] assms(2) show ?thesis by simp
next
  case (PSession p)
  then show ?thesis using assms(1,2) by (auto simp: kick_step_def split: sum.splits option.splits if_splits)
next
  case (PRelease r)
  then have "sv_sessions s' = sv_sessions s" "sv_store s' = sv_store s"
    using assms(1) by (auto simp: kick_step_def releaseIdem_def doIdem_def split: option.splits)
  from mirrored_cong [OF this] assms(2) show ?thesis by simp
next
  case (PPersist sid crew)
  obtain r s1 where p: "persistSessionStart sid owner now s = (r, s1)" by fastforce
  have "s' = s1" using assms(1) PPersist p by (auto simp: kick_step_def split: option.splits)
  then show ?thesis using start_mirrored [OF assms(2) p assms(3)] by simp
next
  case (PFinalize sid crew)
  then have "sv_sessions s' = sv_sessions s" "sv_store s' = sv_store s"
    using assms(1) by (auto simp: kick_step_def finalizeIdem_def doIdem_def Let_def split: prod.splits)
  from mirrored_cong [OF this] assms(2) show ?thesis by simp
next
  case (PAcquire sid crew)
  then have "sv_sessions s' = sv_sessions s" "sv_store s' = sv_store s"
    using assms(1) by (auto simp: kick_step_def acquireSem_def split: if_splits)
  from mirrored_cong [OF this] assms(2) show ?thesis by simp
next
  case (PRun sid crew)
  obtain st where "sv_sessions s sid = Some st" using run [OF PRun] by auto
  with complete_mirrored [OF assms(2)] failure_mirrored [OF assms(2)] show ?thesis
    using assms(1) PRun by (auto simp: kick_step_def split: option.splits)
next
  case (PFinish sid st)
  then have "sv_sessions s' = sv_sessions s" "sv_store s' = sv_store s"
    using assms(1) by (auto simp: kick_step_def finishIdem_def doIdem_def split: option.splits)
  from mirrored_cong [OF this] assms(2) show ?thesis by simp
next
  case PFree
  then have "sv_sessions s' = sv_sessions s" "sv_store s' = sv_store s"
    using assms(1) by (auto simp: kick_step_def releaseSem_def)
  from mirrored_cong [OF this] assms(2) show ?thesis by simp
qed (use assms(1,2) in \<open>auto simp: kick_step_def\<close>)

lemma mirror_step: "api_step E x y \<Longrightarrow> mirror_inv x \<Longrightarrow> mirror_inv y"
proof (induction rule: api_step.induct)
  case (arrive s ts q owner)
  then have "run_inv (s, ts @ [(q, owner, PBind)])"
    unfolding mirror_inv.simps by (blast intro: run_inv_step [OF api_step.arrive])
  then show ?case using arrive by (simp del: run_inv.simps)
next
  case (move i ts q owner pc now kickoff s pc' s')
  have r: "run_inv (s', ts[i := (q, owner, pc')])" using run_inv_step [OF api_step.move [OF move(1-3)]] move(4)
    by (simp del: run_inv.simps)
  have "mirrored s'" if "list_all (\<lambda>t. ascii (fst (snd t))) (ts[i := (q, owner, pc')])"
  proof (rule mirror_kick [OF move(3)])
    have o: "ascii (fst (snd (ts ! j)))" if j: "j < length ts" for j
      using that \<open>list_all _ (ts[i := _])\<close> move(1,2) unfolding list_all_length by (cases "j = i") (auto dest: spec [of _ j])
    then show "ascii owner" using move(1,2) by fastforce
    show "mirrored s" using move(4) o by (simp add: list_all_length del: run_inv.simps)
    show "status_of s sid = Some ''running''" if "pc = PRun sid crew" for sid crew using move(1,2,4) that by force
  qed
  then show ?case using r by (simp del: run_inv.simps)
next
  case (read rfc sid owner s r s' ts)
  have "run_inv (s', ts)" using run_inv_step [OF api_step.read [OF read(1), of E ts]] read(2) by (simp del: run_inv.simps)
  then show ?case using read load_mirrored [OF _ read(1)] by (auto simp del: run_inv.simps)
qed

lemma mirror_reach:
  assumes "api_steps E (NewServer (Some (ops, c)), []) (s, ts)" "good c" "list_all (\<lambda>t. ascii (fst (snd t))) ts"
  shows "mirrored s"
proof -
  have "mirror_inv (s, ts)" using assms(1)
  proof (induction rule: rtranclp_induct)
    case base
    show ?case using mirrored_start [OF assms(2)] run_inv_reach [of E "Some (ops, c)" "(NewServer (Some (ops, c)), [])"]
      by (simp del: run_inv.simps)
  qed (rule mirror_step)
  then show ?thesis using assms(3) by simp
qed

end

section \<open>On the file store\<close>

text \<open>The state is the directory, the environment and the disk. \<^verbatim>\<open>Save\<close> does not panic, the manager keeps ten checkpoints.\<close>

definition file_ops :: "(string \<times> ckenv \<times> ckdisk) store_ops" where
  "file_ops =
     \<lparr>so_Save = (\<lambda>now cp (dir, E, d).
        case cc_Save E (NewCheckpointManager dir) now cp d of
          Some (cp', d', e) \<Rightarrow> ((dir, E, d'), e)
        | None \<Rightarrow> ((dir, E, d), Some (EMsg ''panic''))),
      so_LoadLatest = (\<lambda>sid (dir, E, d).
        case LoadLatest E (NewCheckpointManager dir) sid d of (r, d') \<Rightarrow> (map_sum id Some r, (dir, E, d')))\<rparr>"

text \<open>The disk works, and \<^verbatim>\<open>encoding/json\<close> keeps ASCII strings and maps of them.\<close>

definition json_sessions :: "ckenv \<Rightarrow> bool" where
  "json_sessions E \<longleftrightarrow> (\<forall>sid st err owner now. validCheckpointID sid \<longrightarrow> ascii st \<longrightarrow> ascii owner \<longrightarrow>
     (\<exists>x. ce_json E (session_checkpoint sid st err owner\<lparr>cc_Timestamp := now, cc_Version := 2\<rparr>) = Inr x \<and>
       same_session x (session_checkpoint sid st err owner)))"

fun file_good :: "string \<times> ckenv \<times> ckdisk \<Rightarrow> bool" where
  "file_good (dir, E, d) \<longleftrightarrow> clean_base dir \<and> os_errs d = [] \<and> json_sessions E"

lemma manager_base: "clean_base dir \<Longrightarrow> cm_BaseDir (NewCheckpointManager dir) = dir \<and> cm_MaxCheckpoints (NewCheckpointManager dir) = 10"
  by (auto simp: NewCheckpointManager_def clean_base_def is_rooted_def)

lemma cleanup_total: "0 \<le> cm_MaxCheckpoints cm \<Longrightarrow> \<exists>d'. cleanup E cm i d = Some d'"
  by (auto simp: cleanup_def split: prod.split sum.split)

lemma cc_Save_total: "0 \<le> cm_MaxCheckpoints cm \<Longrightarrow> cc_Save E cm now cp d \<noteq> None"
  using cleanup_total [of cm E] by (simp add: cc_Save_def Let_def split: prod.split sum.split option.split)

interpretation file_store: session_store file_ops file_good
proof
  fix c :: "string \<times> ckenv \<times> ckdisk" and sid st owner err now
  assume g: "file_good c" and v: "validCheckpointID sid" and a: "ascii st" "ascii owner"
  obtain dir E d where c: "c = (dir, E, d)" by (cases c)
  let ?cm = "NewCheckpointManager dir" and ?cp = "session_checkpoint sid st err owner"
  from g c have b: "clean_base dir" "os_errs d = []" "json_sessions E" by simp_all
  from b(3) v a obtain x where x: "ce_json E (?cp\<lparr>cc_Timestamp := now, cc_Version := 2\<rparr>) = Inr x" "same_session x ?cp"
    unfolding json_sessions_def by blast
  have p: "clean_base (cm_BaseDir ?cm)" "0 \<le> cm_MaxCheckpoints ?cm" "validCheckpointID (cc_CrewID ?cp)"
    "ce_json E (?cp\<lparr>cc_Timestamp := now, cc_Version := cc_Version ?cp + 1\<rparr>) = Inr x"
    using manager_base [OF b(1)] b(1) v x(1) by (simp_all add: session_checkpoint_def)
  from Save_roundtrip [OF p(1-3) b(2) p(4)] obtain d' where d':
    "cc_Save E ?cm now ?cp d = Some (?cp\<lparr>cc_Timestamp := now, cc_Version := cc_Version ?cp + 1\<rparr>, d', None)"
    "os_errs d' = []" "fst (LoadLatest E ?cm (cc_CrewID ?cp) d') = Inr x"
    "\<And>j. j \<noteq> cc_CrewID ?cp \<Longrightarrow> fst (LoadLatest E ?cm j d') = fst (LoadLatest E ?cm j d)" by blast
  have i: "cc_CrewID ?cp = sid" by (simp add: session_checkpoint_def)
  have l: "fst (so_LoadLatest file_ops j (dir, E, d0)) = map_sum id Some (fst (LoadLatest E ?cm j d0))" for j d0
    by (simp add: file_ops_def split: prod.split)
  have "so_Save file_ops now ?cp c = ((dir, E, d'), None)" using d'(1) c by (simp add: file_ops_def)
  moreover have "file_good (dir, E, d')" using b d'(2) by simp
  moreover have "fst (so_LoadLatest file_ops sid (dir, E, d')) = Inr (Some x)" using l d'(3) i by simp
  moreover have "fst (so_LoadLatest file_ops j (dir, E, d')) = fst (so_LoadLatest file_ops j c)" if "j \<noteq> sid" for j
    using l c d'(4) that i by simp
  ultimately show "\<exists>c'. so_Save file_ops now ?cp c = (c', None) \<and> file_good c' \<and>
      (\<exists>x. fst (so_LoadLatest file_ops sid c') = Inr (Some x) \<and> same_session x ?cp) \<and>
      (\<forall>j. j \<noteq> sid \<longrightarrow> fst (so_LoadLatest file_ops j c') = fst (so_LoadLatest file_ops j c))" using x(2) by blast
next
  fix c :: "string \<times> ckenv \<times> ckdisk" and sid
  assume g: "file_good c"
  obtain dir E d where c: "c = (dir, E, d)" by (cases c)
  let ?cm = "NewCheckpointManager dir"
  have "snd (LoadLatest E ?cm sid d) = d"
  proof (cases "validCheckpointID sid")
    case True
    then show ?thesis using LoadLatest_base [of ?cm sid E d] manager_base g c loadFromFile_disk by auto
  qed (simp add: LoadLatest_def)
  then show "snd (so_LoadLatest file_ops sid c) = c" using c by (cases "LoadLatest E ?cm sid d") (simp add: file_ops_def)
qed

text \<open>
  C32: Sessions survive a restart, for their owner. Whatever the requests have done, when the checkpoint directory works, a server
  restarted on it reports every session of an authenticated caller to its owner with the identifier and the status it had, and to
  nobody else.
\<close>

theorem session_survives_restart:
  assumes "api_steps E (NewServer (Some (file_ops, c)), []) (s, ts)" "file_good c" "list_all (\<lambda>t. ascii (fst (snd t))) ts"
    "sv_sessions s sid = Some st" "ss_Owner st \<noteq> []"
  shows "(\<exists>more. fst (loadSessionState rfc sid (ss_Owner st) (NewServer (sv_store s))) =
       Inr ([(''session_id'', VString sid), (''status'', VString (ss_Status st))] @ more)) \<and>
     fst (loadSessionState rfc sid (ss_Owner st) s) =
       Inr [(''session_id'', VString sid), (''status'', VString (ss_Status st)), (''started_at'', VString (rfc (ss_StartedAt st)))] \<and>
     (w = ss_Owner st \<or> fst (loadSessionState rfc sid w (NewServer (sv_store s))) = Inl ErrSessionNotFound)"
proof -
  have m: "file_store.mirrored s" by (rule file_store.mirror_reach [OF assms(1-3)])
  show ?thesis using file_store.restart_same [OF m assms(4,5)] by blast
qed

text \<open>Who asks first gets the session: after a restart the table of owners is empty, and the store is not asked who owns a session.\<close>

lemma restart_forgets_owner:
  assumes "file_good c" "validCheckpointID sid" "ascii w" "w \<noteq> []"
  shows "\<exists>s'. persistSessionStart sid w now (NewServer (Some (file_ops, c))) = (None, s') \<and> owner_of s' sid = w \<and>
    (\<forall>v. v \<noteq> w \<longrightarrow> fst (loadSessionState rfc sid v (NewServer (sv_store s'))) = Inl ErrSessionNotFound)"
proof -
  obtain r s' where p: "persistSessionStart sid w now (NewServer (Some (file_ops, c))) = (r, s')" by fastforce
  have m: "file_store.mirrored s'" "\<forall>e. r = Some e \<longrightarrow> s' = NewServer (Some (file_ops, c))"
    using file_store.start_mirrored [OF file_store.mirrored_start [OF assms(1)] p assms(3)] by blast+
  have "r = None"
    using p m(2) file_store.save [OF assms(1,2) _ assms(3), of "''running''" now "[]"] assms(2)
    by (auto simp: persistSessionStart_def NewServer_def Let_def split: if_splits prod.splits option.splits)
  moreover from persist_start(6) [OF p this] obtain st where st: "sv_sessions s' sid = Some st" "ss_Owner st = w"
    by (auto simp: owner_of_def)
  ultimately show ?thesis using p file_store.restart_same(3) [OF m(1) st(1)] st assms(4) by (auto simp: owner_of_def)
qed

definition wit_store :: "string \<times> ckenv \<times> ckdisk" where
  "wit_store = (''/ck'', \<lparr>ce_cwd = ''/'', ce_json = Inr\<rparr>, \<lparr>files = [], os_errs = []\<rparr>)"

lemma wit_store_good: "file_good wit_store"
  by (simp add: wit_store_def clean_base_def path_clean_def is_rooted_def clean_stack_def clean_step_def render_path_def
      json_sessions_def same_session_def)

theorem session_survives_restart_witness:
  "\<exists>s ts. drive 3 wit_kick 5 (\<lambda>_. None) 0 (NewServer (Some (file_ops, wit_store)), [(wit_q [] ''s'', ''a'', PBind)]) = (s, ts) \<and>
     fst (loadSessionState (\<lambda>_. []) ''s'' ''b'' (NewServer (sv_store s))) = Inl ErrSessionNotFound \<and>
     (\<exists>more. fst (loadSessionState (\<lambda>_. []) ''s'' ''a'' (NewServer (sv_store s))) =
       Inr ([(''session_id'', VString ''s''), (''status'', VString ''running'')] @ more))"
proof -
  let ?s0 = "NewServer (Some (file_ops, wit_store))"
  obtain s ts where d: "drive 3 wit_kick 5 (\<lambda>_. None) 0 (?s0, [(wit_q [] ''s'', ''a'', PBind)]) = (s, ts)" by fastforce
  have r: "api_steps wit_kick (?s0, []) (s, ts)"
    unfolding d [symmetric] by (rule drive_reach) (use arrive_reach [OF rtranclp.rtrancl_refl, of wit_kick ?s0 "[]" "[(wit_q [] ''s'', ''a'')]"] in simp)
  obtain e s1 where p: "persistSessionStart ''s'' ''a'' 5 ?s0 = (e, s1)" by fastforce
  have v: "validCheckpointID ''s''" by (simp add: validCheckpointID_def id_char_def less_eq_char_def)
  have a: "ascii ''a''" by (simp add: ascii_def less_char_def)
  from restart_forgets_owner [OF wit_store_good v a, of 5] p have e: "e = None" by auto
  have f: "s = s1" "list_all (\<lambda>t. ascii (fst (snd t))) ts"
    using d p e a by (auto simp: eval_nat_numeral wit_q_def wit_kick_def wit_payload_def kick_step_def normalizeCrewProcess_def
        build_crew_def buildFlatCrew_def NewServer_def)
  from persist_start(6) [OF p e] obtain st where st: "sv_sessions s ''s'' = Some st" "ss_Owner st = ''a''" "ss_Status st = ''running''"
    using f(1) by (auto simp: owner_of_def)
  from session_survives_restart [OF r wit_store_good f(2) st(1), of "\<lambda>_. []" "''b''"] st d show ?thesis by auto
qed

end
