(* ===== verification/Tool_Exec.thy ===== *)
theory Tool_Exec
  imports Tool_Catalog "HOL-Library.List_Lexorder"
begin

text \<open>
  What the tools on the host do: JSON and regular expressions (\<^verbatim>\<open>pkg/tools/developer.go\<close>), the calculator, the shell
  (\<^verbatim>\<open>shell.go\<close>), the directory listing (\<^verbatim>\<open>directory_tool.go\<close>) over the file system of \<open>File_Guard\<close>, and the HTTP
  client (\<^verbatim>\<open>http_client.go\<close>) over the addresses of \<open>Net_Guard\<close>.

  A run of a program and a request that is sent are recorded, so that it can be stated what was not run. JSON text,
  the regular expression engine and \<^verbatim>\<open>fmt.Sscanf\<close> are parameters.
\<close>

section \<open>JSON\<close>

definition maxJSONInputBytes :: nat where "maxJSONInputBytes = 2 ^ 20"
definition maxJSONDepth :: nat where "maxJSONDepth = 100"
definition maxJSONOutputBytes :: nat where "maxJSONOutputBytes = 2 ^ 20"
definition maxRegexTextBytes :: nat where "maxRegexTextBytes = 512 * 1024"
definition maxRegexReplBytes :: nat where "maxRegexReplBytes = 256 * 1024"

definition first_err :: "goerr option list \<Rightarrow> goerr option" where
  "first_err es = (case filter (\<lambda>e. e \<noteq> None) es of [] \<Rightarrow> None | e # _ \<Rightarrow> e)"

fun checkJSONDepth :: "gvalue \<Rightarrow> nat \<Rightarrow> goerr option" where
  "checkJSONDepth (VMap kvs) d =
     (if d > maxJSONDepth then Some (EMsg ''JSON nesting exceeds limit of 100'')
      else first_err (map (\<lambda>(k, c). checkJSONDepth c (d + 1)) kvs))"
| "checkJSONDepth (VList vs) d =
     (if d > maxJSONDepth then Some (EMsg ''JSON nesting exceeds limit of 100'')
      else first_err (map (\<lambda>c. checkJSONDepth c (d + 1)) vs))"
| "checkJSONDepth v d = (if d > maxJSONDepth then Some (EMsg ''JSON nesting exceeds limit of 100'') else None)"

record json_env =
  jn_dec :: "string \<Rightarrow> gvalue result"
  jn_enc :: "gvalue \<Rightarrow> string result"

definition marshalBounded :: "json_env \<Rightarrow> gvalue \<Rightarrow> string result" where
  "marshalBounded J v =
     (case jn_enc J v of
        Inl e \<Rightarrow> Inl e
      | Inr out \<Rightarrow>
          if length out > maxJSONOutputBytes then Inl (EMsg ''generated JSON output exceeds 1048576 byte budget'') else Inr out)"

definition after_depth :: "json_env \<Rightarrow> gvalue \<Rightarrow> string result" where
  "after_depth J v = (case checkJSONDepth v 0 of Some e \<Rightarrow> Inl e | None \<Rightarrow> marshalBounded J v)"

abbreviation arg :: "gmap \<Rightarrow> string \<Rightarrow> string" where
  "arg input k \<equiv> (case get_string input k of Some s \<Rightarrow> s | None \<Rightarrow> [])"

definition parse_data :: "json_env \<Rightarrow> string \<Rightarrow> gvalue result" where
  "parse_data J data =
     (if length data > maxJSONInputBytes then Inl (EMsg ''JSON input exceeds 1048576 byte budget'')
      else (case jn_dec J data of Inl e \<Rightarrow> Inl (EWrap ''invalid JSON: '' e []) | Inr v \<Rightarrow> Inr v))"

text \<open>\<^verbatim>\<open>parse\<close> and \<^verbatim>\<open>format\<close> have the same body.\<close>

definition js_parse :: "json_env \<Rightarrow> gmap \<Rightarrow> string result" where
  "js_parse J input =
     (if arg input ''data'' = [] then Inl (EMsg (CHR 0x27 # ''data' is required''))
      else (case parse_data J (arg input ''data'') of Inl e \<Rightarrow> Inl e | Inr v \<Rightarrow> after_depth J v))"

definition js_format :: "json_env \<Rightarrow> gmap \<Rightarrow> string result" where
  "js_format J input =
     (if arg input ''data'' = [] then Inl (EMsg (CHR 0x27 # ''data' is required''))
      else (case parse_data J (arg input ''data'') of Inl e \<Rightarrow> Inl e | Inr v \<Rightarrow> after_depth J v))"

text \<open>The text of \<^verbatim>\<open>%T\<close>.\<close>

fun go_type :: "gvalue \<Rightarrow> string" where
  "go_type VNil = ''<nil>''"
| "go_type (VBool b) = ''bool''"
| "go_type (VInt i) = ''int''"
| "go_type (VFloat x) = ''float64''"
| "go_type (VFloat32 x) = ''float32''"
| "go_type (VString s) = ''string''"
| "go_type (VStrings ss) = ''[]string''"
| "go_type (VList vs) = ''[]interface {}''"
| "go_type (VMap kvs) = ''map[string]interface {}''"

fun json_nav :: "string list \<Rightarrow> gvalue \<Rightarrow> gvalue result" where
  "json_nav [] v = Inr v"
| "json_nav (part # parts) v =
     (case v of
        VMap kvs \<Rightarrow> json_nav parts (case map_of kvs part of Some x \<Rightarrow> x | None \<Rightarrow> VNil)
      | VList vs \<Rightarrow>
          (case ParseInt part of
             Some i \<Rightarrow>
               if i < 0 \<or> i \<ge> int (length vs) then Inl (EMsg (''invalid array index: '' @ part))
               else json_nav parts (vs ! nat i)
           | None \<Rightarrow> Inl (EMsg (''invalid array index: '' @ part)))
      | _ \<Rightarrow> Inl (EMsg (''cannot navigate into '' @ go_type v @ '' at '' @ [CHR 0x27] @ part @ [CHR 0x27])))"

definition js_query :: "json_env \<Rightarrow> gmap \<Rightarrow> string result" where
  "js_query J input =
     (if arg input ''data'' = [] \<or> arg input ''path'' = [] then Inl (EMsg (CHR 0x27 # ''data' and 'path' are required''))
      else (case parse_data J (arg input ''data'') of
              Inl e \<Rightarrow> Inl e
            | Inr v \<Rightarrow>
                (case checkJSONDepth v 0 of
                   Some e \<Rightarrow> Inl e
                 | None \<Rightarrow>
                     (case json_nav (split_byte CHR ''.'' (arg input ''path'')) v of
                        Inl e \<Rightarrow> Inl e
                      | Inr u \<Rightarrow> after_depth J u))))"

definition js_validate :: "json_env \<Rightarrow> gmap \<Rightarrow> string result" where
  "js_validate J input =
     (if arg input ''data'' = [] then Inl (EMsg (CHR 0x27 # ''data' is required''))
      else (case jn_dec J (arg input ''data'') of
              Inl e \<Rightarrow> Inr (''Invalid JSON: '' @ err_text e) | Inr v \<Rightarrow> Inr ''Valid JSON''))"

definition as_object :: "gmap \<Rightarrow> string \<Rightarrow> (string \<times> gvalue) list option" where
  "as_object m k = (case m k of Some (VMap kvs) \<Rightarrow> Some kvs | _ \<Rightarrow> None)"

definition js_merge :: "json_env \<Rightarrow> gmap \<Rightarrow> string result" where
  "js_merge J input =
     (case (as_object input ''base'', as_object input ''overlay'') of
        (Some base, Some overlay) \<Rightarrow>
          after_depth J (VMap (fold (\<lambda>(k, v). AList.update k v) overlay (fold (\<lambda>(k, v). AList.update k v) base [])))
      | _ \<Rightarrow> Inl (EMsg (CHR 0x27 # ''base' and 'overlay' maps are required'')))"

fun json_kind :: "gvalue \<Rightarrow> string" where
  "json_kind (VBool b) = ''bool''"
| "json_kind (VString s) = ''string''"
| "json_kind (VList vs) = ''array''"
| "json_kind v = ''number''"

definition js_keys :: "json_env \<Rightarrow> gmap \<Rightarrow> string result" where
  "js_keys J input =
     (if arg input ''data'' = [] then Inl (EMsg (CHR 0x27 # ''data' is required''))
      else (case jn_dec J (arg input ''data'') of
              Inl e \<Rightarrow> Inl (EWrap ''data is not a JSON object: '' e [])
            | Inr (VMap kvs) \<Rightarrow> Inr (str_join (sort (map fst kvs)) '', '')
            | Inr VNil \<Rightarrow> Inr []
            | Inr v \<Rightarrow>
                Inl (EWrap ''data is not a JSON object: ''
                  (EMsg (''json: cannot unmarshal '' @ json_kind v @ '' into Go value of type map[string]interface {}'')) [])))"

definition js_Execute :: "json_env \<Rightarrow> gmap \<Rightarrow> string result" where
  "js_Execute J input =
     (let action = arg input ''action'' in
      if action = [] then Inl (EMsg (CHR 0x27 # ''action' is required''))
      else if action = ''parse'' then js_parse J input
      else if action = ''query'' then js_query J input
      else if action = ''format'' then js_format J input
      else if action = ''validate'' then js_validate J input
      else if action = ''merge'' then js_merge J input
      else if action = ''keys'' then js_keys J input
      else Inl (EMsg (''unsupported action: '' @ action)))"

section \<open>Regular expressions and arithmetic\<close>

record rx =
  rx_find :: "string \<Rightarrow> string"
  rx_all :: "string \<Rightarrow> string list"
  rx_replace :: "string \<Rightarrow> string \<Rightarrow> string"
  rx_split :: "string \<Rightarrow> string list"
  rx_match :: "string \<Rightarrow> bool"

definition numbered :: "string list \<Rightarrow> string" where
  "numbered ms = concat (map (\<lambda>(i, m). show_nat (i + 1) @ '': '' @ m @ [CHR 0x0A]) (enumerate 0 ms))"

definition rx_Execute :: "(string \<Rightarrow> rx result) \<Rightarrow> gmap \<Rightarrow> string result" where
  "rx_Execute compile input =
     (let action = arg input ''action''; pattern = arg input ''pattern''; txt = arg input ''text'' in
      if action = [] \<or> pattern = [] then Inl (EMsg (CHR 0x27 # ''action' and 'pattern' are required''))
      else (case compile pattern of
              Inl e \<Rightarrow> Inl (EWrap ''invalid regex pattern: '' e [])
            | Inr re \<Rightarrow>
                if action = ''match'' then Inr (if rx_find re txt = [] then ''No match found'' else ''Match: '' @ rx_find re txt)
                else if action = ''findAll'' then Inr (if rx_all re txt = [] then ''No matches found'' else numbered (rx_all re txt))
                else if action = ''replace'' then
                  (let replacement = arg input ''replacement''; n = length (rx_all re txt); result = rx_replace re txt replacement in
                   if length txt > maxRegexTextBytes then Inl (EMsg ''regex text exceeds 524288 byte budget'')
                   else if length replacement > maxRegexReplBytes then Inl (EMsg ''regex replacement exceeds 262144 byte budget'')
                   else if n > 0 \<and> length txt + n * length replacement > maxJSONOutputBytes
                   then Inl (EMsg (''regex replacement would exceed 1048576 byte budget ('' @ show_nat n @ '' matches)''))
                   else if length result > maxJSONOutputBytes then Inl (EMsg ''regex replacement output exceeds 1048576 byte budget'')
                   else Inr result)
                else if action = ''split'' then Inr (str_join (rx_split re txt) [CHR 0x0A])
                else if action = ''test'' then Inr (if rx_match re txt then ''true'' else ''false'')
                else Inl (EMsg (''unsupported action: '' @ action))))"

text \<open>\<open>scan\<close> is \<^verbatim>\<open>fmt.Sscanf\<close> with the format \<^verbatim>\<open>%f %s %f\<close>, \<open>None\<close> unless it fills all three.\<close>

definition evaluateExpression :: "(string \<Rightarrow> (real \<times> string \<times> real) option) \<Rightarrow> string \<Rightarrow> real result" where
  "evaluateExpression scan expr =
     (case scan expr of
        None \<Rightarrow> Inl (EMsg (''unsupported expression format. Use 'x op y' (e.g. '10 + 5'). '' @
                  ''Important: Ensure spaces between numbers and the operator.''))
      | Some (a, op, b) \<Rightarrow>
          if op = ''+'' then Inr (a + b)
          else if op = ''-'' then Inr (a - b)
          else if op = ''*'' then Inr (a * b)
          else if op = ''/'' then (if b = 0 then Inl (EMsg ''division by zero'') else Inr (a / b))
          else Inl (EMsg (''unsupported operator: '' @ op)))"

definition calc_Execute :: "(string \<Rightarrow> (real \<times> string \<times> real) option) \<Rightarrow> (real \<Rightarrow> string) \<Rightarrow> gmap \<Rightarrow> string result" where
  "calc_Execute scan show_real input =
     (case input ''expression'' of
        None \<Rightarrow> Inl (EMsg ''missing 'expression' in input'')
      | Some (VString expr) \<Rightarrow>
          (case evaluateExpression scan expr of
             Inl e \<Rightarrow> Inl (EWrap (''failed to evaluate expression '' @ [CHR 0x27] @ expr @ [CHR 0x27] @ '': '') e [])
           | Inr r \<Rightarrow> Inr (show_real r))
      | Some _ \<Rightarrow> Inl (EMsg (CHR 0x27 # ''expression' must be a string'')))"


section \<open>The shell\<close>

record shell =
  sh_Allowed :: "string list"
  sh_Blocked :: "string list"
  sh_Timeout :: int
  sh_WorkingDir :: string

record shell_run =
  sr_stdout :: string
  sr_stderr :: string
  sr_err :: "goerr option"
  sr_deadline :: bool

definition NewShellTool :: "(shell \<Rightarrow> shell) list \<Rightarrow> shell" where
  "NewShellTool opts =
     fold (\<lambda>f. f) opts
       \<lparr>sh_Allowed = [],
        sh_Blocked = [''rm -rf /'', ''mkfs'', ''dd if=/dev/zero'', '':(){ :|:& };:'', ''shutdown'', ''reboot'', ''halt'', ''poweroff''],
        sh_Timeout = 30 * 10 ^ 9, sh_WorkingDir = []\<rparr>"

definition WithAllowedCommands :: "string list \<Rightarrow> shell \<Rightarrow> shell" where
  "WithAllowedCommands cmds t = t\<lparr>sh_Allowed := cmds\<rparr>"

definition WithShellTimeout :: "int \<Rightarrow> shell \<Rightarrow> shell" where
  "WithShellTimeout d t = t\<lparr>sh_Timeout := d\<rparr>"

definition WithWorkingDir :: "string \<Rightarrow> shell \<Rightarrow> shell" where
  "WithWorkingDir dir t = t\<lparr>sh_WorkingDir := dir\<rparr>"

definition maxShellOutputSize :: nat where "maxShellOutputSize = 50 * 1024"

definition shellMetachars :: string where
  "shellMetachars = '';|&$`()<>'' @ [CHR 0x5C, CHR 0x0A]"

text \<open>The command word: the first word, or its last path component.\<close>

definition command_word :: "string \<Rightarrow> string option" where
  "command_word command =
     (case str_fields (to_lower (trim_space command)) of
        [] \<Rightarrow> None
      | w # _ \<Rightarrow> Some (if CHR ''/'' \<in> set w then path_Base w else w))"

definition fmt_list :: "string list \<Rightarrow> string" where
  "fmt_list ss = ''['' @ str_join ss '' '' @ '']''"

text \<open>
  The checks before anything runs. \<^verbatim>\<open>strings.EqualFold\<close> is equality of the lower-case texts.
\<close>

definition shell_checks :: "shell \<Rightarrow> string \<Rightarrow> goerr option" where
  "shell_checks t command =
     (let cmdLower = to_lower (trim_space command) in
      if sh_Allowed t = [] then
        Some (EMsg ''no allowed commands configured; set AllowedCommands to permit specific commands'')
      else (case command_word command of
              None \<Rightarrow> Some (EMsg ''empty command'')
            | Some w \<Rightarrow>
                if \<not> list_ex (\<lambda>a. to_lower w = to_lower (to_lower a)) (sh_Allowed t)
                then Some (EMsg (''command not in allowed list: '' @ command @ '' (allowed: '' @ fmt_list (sh_Allowed t) @ '')''))
                else (case find (\<lambda>b. str_contains cmdLower (to_lower b)) (sh_Blocked t) of
                        Some b \<Rightarrow> Some (EMsg (''command blocked for safety: contains '' @ [CHR 0x27] @ b @ [CHR 0x27]))
                      | None \<Rightarrow>
                          if list_ex (\<lambda>c. c \<in> set shellMetachars) command
                          then Some (EMsg ''command contains shell metacharacters; only a single simple command is permitted'')
                          else None)))"

text \<open>A \<^verbatim>\<open>float64\<close> of seconds is cut to an integer before it is multiplied, in 64 bits.\<close>

definition shell_timeout :: "shell \<Rightarrow> gmap \<Rightarrow> int" where
  "shell_timeout t input =
     (case get_float input ''timeout'' of
        Some ts \<Rightarrow> if ts > 0 then sint (word_of_int (\<lfloor>ts\<rfloor> * 10 ^ 9) :: 64 word) else sh_Timeout t
      | None \<Rightarrow> sh_Timeout t)"

text \<open>
  The output, the error, and the programs run, each as the command given to \<^verbatim>\<open>sh -c\<close>, the directory and the timeout.
\<close>

definition sh_Execute ::
  "(string \<times> string \<times> int \<Rightarrow> shell_run) \<Rightarrow> (int \<Rightarrow> string) \<Rightarrow> shell \<Rightarrow> gmap \<Rightarrow>
   (string \<times> goerr option) \<times> (string \<times> string \<times> int) list" where
  "sh_Execute run show_dur t input =
     (let command = arg input ''command'' in
      if command = [] then (([], Some (EMsg (CHR 0x27 # ''command' is required''))), [])
      else (case shell_checks t command of
              Some e \<Rightarrow> (([], Some e), [])
            | None \<Rightarrow>
                (let tmo = shell_timeout t input; r = run (command, sh_WorkingDir t, tmo);
                     result = sr_stdout r @
                       (if sr_stderr r \<noteq> [] then
                          (if sr_stdout r \<noteq> [] then [CHR 0x0A] @ ''--- STDERR ---'' @ [CHR 0x0A] else []) @ sr_stderr r
                        else [])
                 in ((case sr_err r of
                        Some e \<Rightarrow>
                          if sr_deadline r then (result, Some (EMsg (''command timed out after '' @ show_dur tmo)))
                          else (result, Some (EWrap ''command failed: '' e (CHR 0x0A # result)))
                      | None \<Rightarrow>
                          (if length result > maxShellOutputSize
                           then take maxShellOutputSize result @ [CHR 0x0A] @ ''... [output truncated at 50KB]'' else result, None)),
                     [(command, sh_WorkingDir t, tmo)]))))"

section \<open>Listing a directory\<close>

text \<open>
  \<^verbatim>\<open>filepath.WalkDir\<close> from \<open>p\<close>, in the order \<open>names\<close> gives the entries of a directory; \<open>k\<close> levels are listed. A link is an entry,
  it is not followed.
\<close>

fun dir_lines ::
  "fs \<Rightarrow> (string list \<Rightarrow> string list) \<Rightarrow> (string list \<Rightarrow> nat) \<Rightarrow> nat \<Rightarrow> string list \<Rightarrow> string list \<Rightarrow> string list" where
  "dir_lines fs names sz 0 rel p = []"
| "dir_lines fs names sz (Suc k) rel p =
     (let isdir = (node_at fs p = Some NDir) in
      (''['' @ (if isdir then ''dir'' else ''file'') @ ''] '' @ (if rel = [] then ''.'' else str_join rel ''/'') @
       '' ('' @ show_nat (sz p) @ '' bytes)'') #
      (if isdir then concat (map (\<lambda>n. dir_lines fs names sz k (rel @ [n]) (p @ [n])) (names p)) else []))"

definition dir_target :: "string \<Rightarrow> bool \<Rightarrow> string \<Rightarrow> string" where
  "dir_target rootPath allowAbsolute path =
     (let relPath = (if path = [] then ''.'' else path) in
      if \<not> is_rooted relPath \<or> \<not> allowAbsolute then path_join rootPath relPath else relPath)"

text \<open>An error of \<^verbatim>\<open>filepath.Abs\<close> is ignored; the walk is then taken to fail.\<close>

definition dir_Execute ::
  "osenv \<Rightarrow> fs \<Rightarrow> (string list \<Rightarrow> string list) \<Rightarrow> (string list \<Rightarrow> nat) \<Rightarrow> string \<Rightarrow> int \<Rightarrow> bool \<Rightarrow> gmap \<Rightarrow> string result" where
  "dir_Execute E fs names sz rootPath maxDepth allowAbsolute input =
     (let fullPath = dir_target rootPath allowAbsolute (arg input ''path'');
          absol = (\<lambda>p. case path_Abs E p of Inl e \<Rightarrow> [] | Inr a \<Rightarrow> a);
          absRoot = absol rootPath; absTarget = absol fullPath
      in if \<not> allowAbsolute \<and> \<not> has_prefix absTarget absRoot then Inl (EMsg ''access denied: path escapes root directory'')
         else if \<not> lstat_ok E fs absTarget \<or> absTarget = [] then
           Inl (EWrap ''directory list failed: '' (EMsg (''lstat '' @ fullPath @ '': no such file or directory'')) [])
         else
           (let p = (if comps absTarget = [] then []
                     else (case walk fs (oe_links E) [] (butlast (comps absTarget)) of
                             Inl e \<Rightarrow> [] | Inr q \<Rightarrow> q @ [last (comps absTarget)]));
                results = dir_lines fs names sz (nat maxDepth + 2) [] p
            in if results = [] then Inr ''Directory is empty.'' else Inr (str_join results [CHR 0x0A])))"

section \<open>The HTTP client\<close>

record http_url = url +
  hu_Path :: string

record http_request =
  hq_Method :: string
  hq_URL :: string
  hq_Headers :: "(string \<times> string) list"
  hq_Body :: "string option"

record http_response =
  hp_Code :: int
  hp_Status :: string
  hp_Body :: string
  hp_Location :: "string option"

record http_env =
  he_parse :: "string \<Rightarrow> http_url result"
  he_lookup :: "nat \<Rightarrow> string \<Rightarrow> ip list result"
  he_show :: "ip \<Rightarrow> string"
  he_escape :: "string \<Rightarrow> string"
  he_fmt :: "gvalue \<Rightarrow> string"
  he_canon :: "string \<Rightarrow> string"
  he_json :: json_env
  he_newreq :: "string \<Rightarrow> string \<Rightarrow> goerr option"
  he_send :: "http_request \<Rightarrow> http_response result"

record http_tool =
  ht_BaseURL :: string
  ht_Headers :: "(string \<times> string) list"
  ht_Timeout :: int
  ht_MaxBytes :: int

definition WithHTTPBaseURL :: "string \<Rightarrow> http_tool \<Rightarrow> http_tool" where
  "WithHTTPBaseURL u t = t\<lparr>ht_BaseURL := trim_right_slash u\<rparr>"

definition WithHTTPHeaders :: "(string \<times> string) list \<Rightarrow> http_tool \<Rightarrow> http_tool" where
  "WithHTTPHeaders hs t = t\<lparr>ht_Headers := fold (\<lambda>(k, v). AList.update k v) hs (ht_Headers t)\<rparr>"

definition WithHTTPTimeout :: "int \<Rightarrow> http_tool \<Rightarrow> http_tool" where
  "WithHTTPTimeout d t = t\<lparr>ht_Timeout := d\<rparr>"

definition WithHTTPMaxBytes :: "int \<Rightarrow> http_tool \<Rightarrow> http_tool" where
  "WithHTTPMaxBytes n t = t\<lparr>ht_MaxBytes := n\<rparr>"

definition NewHTTPTool :: "(http_tool \<Rightarrow> http_tool) list \<Rightarrow> http_tool" where
  "NewHTTPTool opts =
     fold (\<lambda>f. f) opts \<lparr>ht_BaseURL = [], ht_Headers = [], ht_Timeout = 30 * 10 ^ 9, ht_MaxBytes = 5 * 1024 * 1024\<rparr>"

definition ht_isBlockedIP :: "ip \<Rightarrow> bool" where
  "ht_isBlockedIP a \<longleftrightarrow>
     IsLoopback a \<or> IsPrivate a \<or> IsLinkLocalUnicast a \<or> IsLinkLocalMulticast a \<or> IsMulticast a \<or> IsUnspecified a"

definition metadataHosts :: "string list" where
  "metadataHosts = [''169.254.169.254'', ''metadata.google.internal'', ''metadata.google'', ''metadata'', ''100.100.100.200'']"

definition ht_validateURL :: "http_env \<Rightarrow> http_tool \<Rightarrow> nat \<Rightarrow> string \<Rightarrow> goerr option" where
  "ht_validateURL H t q raw =
     (case he_parse H raw of
        Inl e \<Rightarrow> Some (EWrap ''invalid url: '' e [])
      | Inr u \<Rightarrow>
          if u_Scheme u \<noteq> ''http'' \<and> u_Scheme u \<noteq> ''https''
          then Some (EMsg (''only http and https schemes are allowed, got '' @ u_Scheme u))
          else let host = u_Hostname u in
            if host = [] then Some (EMsg ''url has no host'')
            else if list_ex (\<lambda>m. to_lower host = to_lower m) metadataHosts
            then Some (EMsg (''access to cloud metadata endpoint '' @ host @ '' is blocked''))
            else if has_prefix (hu_Path u) ''/metadata'' \<or> has_prefix (hu_Path u) ''/latest/meta-data''
            then Some (EMsg ''access to metadata paths is blocked'')
            else (case he_lookup H q host of
                    Inl e \<Rightarrow> Some (EWrap (''failed to resolve host '' @ host @ '': '') e [])
                  | Inr addrs \<Rightarrow>
                      if addrs = [] then Some (EMsg (''no IP addresses resolved for '' @ host))
                      else (case find ht_isBlockedIP addrs of
                              Some a \<Rightarrow> Some (EMsg (''target IP '' @ he_show H a @ '' is in a blocked range''))
                            | None \<Rightarrow>
                                if ht_MaxBytes t > 0 \<and> ht_MaxBytes t < 1024
                                then Some (EMsg (''response_max_bytes must be at least 1024, got '' @ show_int (ht_MaxBytes t)))
                                else None)))"

definition trim_left_slash :: "string \<Rightarrow> string" where
  "trim_left_slash s = dropWhile (\<lambda>c. c = CHR ''/'') s"

text \<open>The URL with the base in front and the query after it; the order of the parameters is that of the list.\<close>

definition ht_url :: "http_tool \<Rightarrow> string \<Rightarrow> string" where
  "ht_url t urlStr =
     (if ht_BaseURL t \<noteq> [] \<and> \<not> has_prefix urlStr ''http'' then ht_BaseURL t @ ''/'' @ trim_left_slash urlStr else urlStr)"

definition with_query :: "http_env \<Rightarrow> gmap \<Rightarrow> string \<Rightarrow> string" where
  "with_query H input url =
     (case as_object input ''query'' of
        None \<Rightarrow> url
      | Some kvs \<Rightarrow>
          (let params = map (\<lambda>(k, v). he_escape H k @ ''='' @ he_escape H (he_fmt H v)) kvs in
           if params = [] then url
           else url @ (if str_contains url ''?'' then ''&'' else ''?'') @ str_join params ''&''))"

definition ht_headers :: "http_env \<Rightarrow> http_tool \<Rightarrow> gmap \<Rightarrow> bool \<Rightarrow> (string \<times> string) list" where
  "ht_headers H t input has_body =
     (let h1 = fold (\<lambda>(k, v). AList.update (he_canon H k) v) (ht_Headers t) [];
          h2 = (case as_object input ''headers'' of
                  None \<Rightarrow> h1 | Some kvs \<Rightarrow> fold (\<lambda>(k, v). AList.update (he_canon H k) (he_fmt H v)) kvs h1)
      in if (case map_of h2 ''Content-Type'' of None \<Rightarrow> True | Some v \<Rightarrow> v = []) \<and> has_body
         then AList.update ''Content-Type'' ''application/json'' h2 else h2)"

text \<open>
  A redirect is checked and then handed back as it is. The result, and the requests sent; \<open>q\<close> and \<open>q + 1\<close> number the
  resolutions made by the checks.
\<close>

definition ht_Execute :: "http_env \<Rightarrow> http_tool \<Rightarrow> nat \<Rightarrow> gmap \<Rightarrow> string result \<times> http_request list" where
  "ht_Execute H t q input =
     (let meth = (if arg input ''method'' = [] then ''GET'' else arg input ''method''); url = ht_url t (arg input ''url'') in
      if arg input ''url'' = [] then (Inl (EMsg (CHR 0x27 # ''url' is required'')), [])
      else (case ht_validateURL H t q url of
              Some e \<Rightarrow> (Inl (EWrap ''http request blocked: '' e []), [])
            | None \<Rightarrow>
                (case (case input ''body'' of None \<Rightarrow> Inr None | Some b \<Rightarrow> map_sum id Some (jn_enc (he_json H) b)) of
                   Inl e \<Rightarrow> (Inl (EWrap ''failed to marshal body: '' e []), [])
                 | Inr body \<Rightarrow>
                     (case he_newreq H (upper meth) (with_query H input url) of
                        Some e \<Rightarrow> (Inl (EWrap ''failed to create request: '' e []), [])
                      | None \<Rightarrow>
                          (let rq = \<lparr>hq_Method = upper meth, hq_URL = with_query H input url,
                                     hq_Headers = ht_headers H t input (body \<noteq> None), hq_Body = body\<rparr>
                           in (case he_send H rq of
                                 Inl e \<Rightarrow> Inl (EWrap ''http request failed: '' e [])
                               | Inr r \<Rightarrow>
                                   (case (case hp_Location r of None \<Rightarrow> None | Some l \<Rightarrow> ht_validateURL H t (q + 1) l) of
                                      Some e \<Rightarrow> Inl (EWrap ''http request failed: '' (EWrap ''redirect blocked: '' e []) [])
                                    | None \<Rightarrow>
                                        (let maxBytes = (if ht_MaxBytes t \<le> 0 then 5 * 1024 * 1024 else ht_MaxBytes t);
                                             body = take (nat maxBytes) (hp_Body r);
                                             result = [(''status'', VInt (hp_Code r)), (''status_text'', VString (hp_Status r)),
                                               (''body'', case jn_dec (he_json H) body of Inr v \<Rightarrow> v | Inl e \<Rightarrow> VString body)]
                                         in Inr (case jn_enc (he_json H) (VMap result) of Inr out \<Rightarrow> out | Inl e \<Rightarrow> []))),
                               [rq]))))))"


section \<open>Lemmas\<close>

lemma first_err_None: "first_err es = None \<longleftrightarrow> (\<forall>e\<in>set es. e = None)"
  by (induction es) (auto simp: first_err_def)

lemma depth_mono: "checkJSONDepth v d = None \<Longrightarrow> d' \<le> d \<Longrightarrow> checkJSONDepth v d' = None"
proof (induction v d arbitrary: d' rule: checkJSONDepth.induct)
  case (1 kvs d)
  have "checkJSONDepth c (d' + 1) = None" if "(k, c) \<in> set kvs" for k c
  proof -
    have "\<not> d > maxJSONDepth" "checkJSONDepth c (d + 1) = None"
      using "1.prems"(1) that by (force simp: first_err_None split: if_splits)+
    with "1.IH" [OF this(1) that refl, of "d' + 1"] "1.prems"(2) show ?thesis by simp
  qed
  moreover have "\<not> d' > maxJSONDepth" using "1.prems" by (auto split: if_splits)
  ultimately show ?case by (auto simp: first_err_None)
next
  case (2 vs d)
  have "\<not> d > maxJSONDepth" using "2.prems"(1) by (auto split: if_splits)
  moreover have "checkJSONDepth c (d + 1) = None" if "c \<in> set vs" for c
    using "2.prems"(1) that by (auto simp: first_err_None split: if_splits)
  ultimately show ?case using "2.IH" "2.prems"(2) by (auto simp: first_err_None)
qed (auto split: if_splits)

text \<open>Paths into a value: keys of objects and indices of arrays.\<close>

datatype seg = Key string | Idx nat

fun seg_text :: "seg \<Rightarrow> string" where
  "seg_text (Key k) = k"
| "seg_text (Idx i) = show_nat i"

fun at_path :: "seg list \<Rightarrow> gvalue \<Rightarrow> gvalue option" where
  "at_path [] v = Some v"
| "at_path (Key k # ss) (VMap kvs) = (case map_of kvs k of Some u \<Rightarrow> at_path ss u | None \<Rightarrow> None)"
| "at_path (Idx i # ss) (VList vs) = (if i < length vs \<and> i < 2 ^ 63 then at_path ss (vs ! i) else None)"
| "at_path (s # ss) v = None"

lemma ParseInt_show_nat: "i < 2 ^ 63 \<Longrightarrow> ParseInt (show_nat i) = Some (int i)"
  using parse_show_int [of "int i"] by (simp add: show_int_def)

lemma json_nav_at_path: "at_path ss v = Some u \<Longrightarrow> json_nav (map seg_text ss) v = Inr u"
  by (induction ss v rule: at_path.induct) (auto simp: ParseInt_show_nat split: option.splits if_splits)

lemma depth_at_path: "at_path ss v = Some u \<Longrightarrow> checkJSONDepth v 0 = None \<Longrightarrow> checkJSONDepth u 0 = None"
proof (induction ss v rule: at_path.induct)
  case (2 k ss kvs)
  then obtain c where c: "map_of kvs k = Some c" "at_path ss c = Some u" by (auto split: option.splits)
  then have "checkJSONDepth c (0 + 1) = None"
    using "2.prems"(2) map_of_SomeD [OF c(1)] by (force simp: first_err_None maxJSONDepth_def)
  then show ?case using "2.IH" [OF c] depth_mono [of c "0 + 1" 0] by simp
next
  case (3 i ss vs)
  then have i: "i < length vs \<and> i < 2 ^ 63" "at_path ss (vs ! i) = Some u" by (auto split: if_splits)
  then have "checkJSONDepth (vs ! i) (0 + 1) = None" using "3.prems"(2) by (auto simp: first_err_None maxJSONDepth_def)
  then show ?case using "3.IH" i depth_mono [of "vs ! i" "0 + 1" 0] by simp
qed simp_all

lemma seg_no_dot: "(\<forall>k. s = Key k \<longrightarrow> CHR ''.'' \<notin> set k) \<Longrightarrow> CHR ''.'' \<notin> set (seg_text s)"
  by (cases s) (auto dest!: show_nat_digits simp: less_eq_char_def)

lemma case_find_None: "(case find P xs of Some b \<Rightarrow> Some (f b) | None \<Rightarrow> y) = None \<longleftrightarrow> (\<forall>b\<in>set xs. \<not> P b) \<and> y = None"
  by (induction xs) auto

lemma sibling_target:
  assumes "list_all comp_ok us" "comp_ok r" "comp_ok (r @ x)"
  shows "dir_target (abs_text (us @ [r])) False (''../'' @ r @ x) = abs_text (us @ [r @ x])"
proof -
  let ?p = "abs_text (us @ [r]) @ CHR ''/'' # ''..'' @ CHR ''/'' # (r @ x)"
  have c: "comps ?p = us @ [r, ''..'', r @ x]"
    using assms comps_abs_text [of "us @ [r]"] by (simp add: comps_def split_byte_append split_byte_notin comp_ok_def)
  have r: "is_rooted ?p" by (cases us) (simp_all add: is_rooted_def abs_text_def)
  have "foldl (clean_step True) [] us = rev us" using foldl_clean_ok [OF assms(1), of True "[]"] by simp
  then have "clean_stack ?p = (r @ x) # rev us"
    using assms(2,3) r unfolding clean_stack_def foldl_clean_filter [of _ _ "split_byte _ _"] comps_def [symmetric] c
    by (simp add: clean_step_def comp_ok_def)
  then have "path_clean ?p = abs_text (us @ [r @ x])" using path_clean_abs [OF r] by simp
  moreover have "abs_text (us @ [r]) \<noteq> []" by (simp add: abs_text_def)
  ultimately show ?thesis by (simp add: dir_target_def is_rooted_def path_join_def)
qed

definition may_run :: "shell \<Rightarrow> string \<Rightarrow> bool" where
  "may_run t command \<longleftrightarrow>
     (\<exists>w a. command_word command = Some w \<and> a \<in> set (sh_Allowed t) \<and> to_lower w = to_lower a) \<and>
     (\<forall>b \<in> set (sh_Blocked t). \<not> sublist (to_lower b) (to_lower (trim_space command))) \<and>
     set command \<inter> set shellMetachars = {}"

lemma shell_checks_iff: "shell_checks t c = None \<longleftrightarrow> may_run t c"
  by (cases "command_word c") (auto simp: shell_checks_def may_run_def Let_def list_ex_iff case_find_None)

lemma shell_runs_iff_aux:
  "snd (sh_Execute run show_dur t input) =
    (if arg input ''command'' \<noteq> [] \<and> may_run t (arg input ''command'')
     then [(arg input ''command'', sh_WorkingDir t, shell_timeout t input)] else [])"
  unfolding sh_Execute_def Let_def
  by (cases "shell_checks t (arg input ''command'')") (simp_all flip: shell_checks_iff)

section \<open>Properties\<close>

text \<open>
  A query of the JSON tool returns the value at its path. For data within the limits, any path of object keys without dots and array
  indices that leads somewhere, written with dots, gives exactly the text of the value found there (when it fits the output limit).
\<close>

theorem json_query_exact:
  assumes "get_string input ''action'' = Some ''query''" "get_string input ''data'' = Some data" "data \<noteq> []" "length data \<le> maxJSONInputBytes"
    "jn_dec J data = Inr v" "checkJSONDepth v 0 = None" "at_path ss v = Some u" "jn_enc J u = Inr out" "length out \<le> maxJSONOutputBytes"
    "get_string input ''path'' = Some path" "path = str_join (map seg_text ss) ''.''" "path \<noteq> []" "\<forall>k. Key k \<in> set ss \<longrightarrow> CHR ''.'' \<notin> set k"
  shows "js_Execute J input = Inr out"
proof -
  have ne: "ss \<noteq> []" using assms(11,12) by auto
  have "\<forall>c\<in>set (map seg_text ss). CHR ''.'' \<notin> set c"
  proof
    fix c assume "c \<in> set (map seg_text ss)"
    then obtain s where "s \<in> set ss" "c = seg_text s" by auto
    then show "CHR ''.'' \<notin> set c" using seg_no_dot [of s] assms(13) by blast
  qed
  then have "split_byte CHR ''.'' path = map seg_text ss" using split_join [of "map seg_text ss" "CHR ''.''"] ne assms(11) by simp
  then show ?thesis
    using assms(1-10,12) json_nav_at_path [OF assms(7)] depth_at_path [OF assms(7,6)]
    by (simp add: js_Execute_def js_query_def parse_data_def after_depth_def marshalBounded_def)
qed


text \<open>
  A directory next to the root is listed. Without absolute paths, for a root directory whose name is a prefix of the name of
  another directory beside it, the path \<^verbatim>\<open>../name\<close> of that directory passes the check: it is listed.
\<close>

theorem sibling_listed:
  assumes "list_all comp_ok us" "comp_ok r" "comp_ok (r @ x)" "get_string input ''path'' = Some (''../'' @ r @ x)"
    "fs_ok fs" "walk fs (oe_links E) [] us = Inr us" "fs (us @ [r @ x]) = Some NDir"
  shows "\<exists>rest. dir_Execute E fs names sz (abs_text (us @ [r])) d False input =
      Inr (str_join ((''[dir] . ('' @ show_nat (sz (us @ [r @ x])) @ '' bytes)'') # rest) [CHR 0x0A]) \<and>
    (\<forall>n k. names (us @ [r @ x]) = n # k \<longrightarrow> rest \<noteq> [])"
proof -
  let ?R = "abs_text (us @ [r])" and ?T = "abs_text (us @ [r @ x])"
  have t: "dir_target ?R False (''../'' @ r @ x) = ?T" by (rule sibling_target [OF assms(1-3)])
  have ok: "list_all comp_ok (us @ [r])" "list_all comp_ok (us @ [r @ x])" using assms(1-3) by simp_all
  have a: "path_Abs E ?R = Inr ?R" "path_Abs E ?T = Inr ?T" using ok by (simp_all add: path_Abs_def)
  have p: "has_prefix ?T ?R" by (auto simp: abs_text_def)
  have "node_at fs us = Some NDir" using assms(5) [unfolded fs_ok_def, rule_format, of us "r @ x"] assms(7) by simp
  then have l: "lstat_ok E fs ?T" using ok(2) assms(6,7) by (simp add: lstat_ok_def)
  have ne: "?T \<noteq> []" by (simp add: abs_text_def)
  have n: "node_at fs (us @ [r @ x]) = Some NDir" using assms(7) by (simp add: node_at_def)
  have e: "dir_lines fs names sz (nat d + 2) [] (us @ [r @ x]) =
      (''[dir] . ('' @ show_nat (sz (us @ [r @ x])) @ '' bytes)'') #
      concat (map (\<lambda>n. dir_lines fs names sz (Suc (nat d)) [n] (us @ [r @ x, n])) (names (us @ [r @ x])))"
    using n by (simp add: numeral_2_eq_2)
  then show ?thesis
    using assms(4,6) t a p l ne ok(2) by (auto simp: dir_Execute_def Let_def intro!: exI)
qed

text \<open>
  The HTTP tool sends at most one request, to a host that resolved to unblocked addresses only when it was checked: it follows
  no redirect. (The connection resolves the name again; the tool does not use the protected dialer.)
\<close>

theorem http_request_checked:
  assumes "rq \<in> set (snd (ht_Execute H t q input))"
  shows "snd (ht_Execute H t q input) = [rq] \<and>
    (\<exists>u addrs. he_parse H (ht_url t (arg input ''url'')) = Inr u \<and> u_Scheme u \<in> {''http'', ''https''} \<and>
       to_lower (u_Hostname u) \<notin> to_lower ` set metadataHosts \<and>
       he_lookup H q (u_Hostname u) = Inr addrs \<and> addrs \<noteq> [] \<and> (\<forall>a \<in> set addrs. \<not> ssrfBlockedIP a))"
proof -
  have v: "ht_validateURL H t q (ht_url t (arg input ''url'')) = None" and one: "snd (ht_Execute H t q input) = [rq]"
    using assms by (auto simp: ht_Execute_def Let_def split: if_splits option.splits sum.splits)
  obtain u where u: "he_parse H (ht_url t (arg input ''url'')) = Inr u" using v by (auto simp: ht_validateURL_def split: sum.splits)
  with v have s: "u_Scheme u \<in> {''http'', ''https''}" "to_lower (u_Hostname u) \<notin> to_lower ` set metadataHosts"
    by (auto simp: ht_validateURL_def Let_def list_ex_iff split: if_splits)
  obtain addrs where a: "he_lookup H q (u_Hostname u) = Inr addrs"
    using v u by (auto simp: ht_validateURL_def Let_def split: if_splits sum.splits)
  with v u have "addrs \<noteq> []" "find ht_isBlockedIP addrs = None"
    by (auto simp: ht_validateURL_def Let_def split: if_splits option.splits)
  with u s a one show ?thesis by (auto simp: find_None_iff ht_isBlockedIP_def ssrfBlockedIP_def)
qed

text \<open>
  The allowed commands of a shell tool from a YAML file are a generic list, which the factory does not read: the tool it makes runs
  nothing.
\<close>

lemma yaml_shell_runs_nothing:
  assumes "config ''allowed_commands'' = Some (VList cs)"
  shows "CreateTool E ''ShellTool'' config = Inr (ShellTool [])"
    and "snd (sh_Execute run show_dur (NewShellTool [WithAllowedCommands []]) input) = []"
  using assms
  by (simp_all add: CreateTool_def cfg_strings_def shell_runs_iff_aux may_run_def NewShellTool_def WithAllowedCommands_def)

text \<open>Without a token the factory reports success and a tool whose first method call dereferences nil.\<close>

lemma nil_tool_created:
  assumes "te_getenv E ''GITHUB_TOKEN'' = []"
  shows "\<exists>t. CreateTool E ''GitHubTool'' Map.empty = Inr t \<and> tool_Name t = None"
  using assms by (simp add: CreateTool_def token_or_env_def)

text \<open>Any program whose path ends in an allowed name passes, and half a second is no time at all.\<close>

lemma any_directory_allowed: "command_word ''/tmp/evil/ls -l'' = Some ''ls''"
  by (simp add: command_word_def to_lower_def lower_char_def trim_space_def is_space_def str_fields_def path_Base_def comps_def less_eq_char_def)

lemma fraction_of_a_second: "get_float input ''timeout'' = Some (1 / 2) \<Longrightarrow> shell_timeout t input = 0"
  by (simp add: shell_timeout_def)

section \<open>Witnesses\<close>

definition wit_json :: json_env where
  "wit_json =
     \<lparr>jn_dec = (\<lambda>s. Inr (VMap [(''users'', VList [VNil, VMap [(''name'', VString s)]])])),
      jn_enc = (\<lambda>v. case v of VString s \<Rightarrow> Inr s | _ \<Rightarrow> Inr [])\<rparr>"

definition wit_input :: gmap where
  "wit_input = [''action'' \<mapsto> VString ''query'', ''data'' \<mapsto> VString ''d'', ''path'' \<mapsto> VString ''users.1.name'']"

lemma show_one: "show_nat 1 = ''1''"
  by (simp add: show_nat.simps char_of_eq_iff take_bit_eq_mod)

theorem json_query_exact_witness: "js_Execute wit_json wit_input = Inr ''d''"
  by (rule json_query_exact [where data = "''d''" and ss = "[Key ''users'', Idx 1, Key ''name'']" and u = "VString ''d''"
        and v = "VMap [(''users'', VList [VNil, VMap [(''name'', VString ''d'')]])]" and path = "''users.1.name''"])
    (simp_all add: wit_json_def wit_input_def maxJSONInputBytes_def maxJSONOutputBytes_def maxJSONDepth_def first_err_def show_one [simplified])

definition wit_tree :: fs where
  "wit_tree p = (if p = [''srv''] \<or> p = [''srv'', ''app''] \<or> p = [''srv'', ''app-secret''] then Some NDir
     else if p = [''srv'', ''app-secret'', ''key''] then Some (NFile ''k'') else None)"

theorem sibling_listed_witness:
  "\<exists>out. dir_Execute \<lparr>oe_cwd = Inr ''/'', oe_links = 40\<rparr> wit_tree (\<lambda>p. if p = [''srv'', ''app-secret''] then [''key''] else []) (\<lambda>p. 1)
     ''/srv/app'' 5 False [''path'' \<mapsto> VString ''../app-secret''] = Inr out \<and> out \<noteq> ''[dir] . (1 bytes)''"
proof -
  let ?n = "\<lambda>p. if p = [''srv'', ''app-secret''] then [''key''] else []" and ?E = "\<lparr>oe_cwd = Inr ''/'', oe_links = 40\<rparr> :: osenv"
  have ok: "fs_ok wit_tree"
    unfolding fs_ok_def wit_tree_def node_at_def by (auto split: if_splits)
  have w: "walk wit_tree (oe_links ?E) [] [''srv''] = Inr [''srv'']" by (simp add: wit_tree_def)
  have f: "wit_tree ([''srv''] @ [''app'' @ ''-secret'']) = Some NDir" by (simp add: wit_tree_def)
  have r: "abs_text ([''srv''] @ [''app'']) = ''/srv/app''" by (simp add: abs_text_def)
  note r1 = r [simplified] and s1 = show_one [simplified]
  obtain rest where e: "dir_Execute ?E wit_tree ?n (\<lambda>p. 1) (abs_text ([''srv''] @ [''app''])) 5 False [''path'' \<mapsto> VString ''../app-secret''] =
      Inr (str_join ((''[dir] . ('' @ show_nat 1 @ '' bytes)'') # rest) [CHR 0x0A])" and ne: "rest \<noteq> []"
    using sibling_listed [where us = "[''srv'']" and r = "''app''" and x = "''-secret''" and input = "[''path'' \<mapsto> VString ''../app-secret'']"
        and sz = "\<lambda>p. 1" and names = ?n and d = 5, OF _ _ _ _ ok w f] by (auto simp: comp_ok_def)
  obtain y ys where "rest = y # ys" using ne by (cases rest) auto
  then show ?thesis using e by (simp add: r1 s1 str_join_Cons)
qed

definition wit_url :: http_url where
  "wit_url = \<lparr>u_Scheme = ''https'', u_User = None, u_Host = ''h'', u_Hostname = ''h'', hu_Path = ''/x''\<rparr>"

definition wit_http :: http_env where
  "wit_http =
     \<lparr>he_parse = (\<lambda>s. Inr wit_url), he_lookup = (\<lambda>q h. Inr [IP4 0x08080808]), he_show = (\<lambda>a. []), he_escape = (\<lambda>s. s), he_fmt = (\<lambda>v. []),
      he_canon = (\<lambda>s. s), he_json = wit_json, he_newreq = (\<lambda>m u. None), he_send = (\<lambda>r. Inl (EMsg ''timeout''))\<rparr>"

definition wit_shell :: shell where
  "wit_shell = \<lparr>sh_Allowed = [''ls''], sh_Blocked = [''rm''], sh_Timeout = 5, sh_WorkingDir = ''/w''\<rparr>"


theorem http_request_checked_witness:
  "\<exists>rq addrs. snd (ht_Execute wit_http (NewHTTPTool []) 0 [''url'' \<mapsto> VString ''https://h/x'']) = [rq] \<and>
     he_lookup wit_http 0 ''h'' = Inr addrs \<and> (\<forall>a \<in> set addrs. \<not> ssrfBlockedIP a)"
proof -
  let ?i = "[''url'' \<mapsto> VString ''https://h/x''] :: gmap"
  have "snd (ht_Execute wit_http (NewHTTPTool []) 0 ?i) \<noteq> []"
    by (simp add: ht_Execute_def ht_validateURL_def wit_http_def wit_url_def metadataHosts_def to_lower_def lower_char_def less_eq_char_def
        NewHTTPTool_def ht_url_def with_query_def ht_isBlockedIP_def To4_def IsLoopback_def IsPrivate_def IsLinkLocalUnicast_def
        IsLinkLocalMulticast_def IsMulticast_def IsUnspecified_def byte4_def as_object_def)
  then obtain rq where "rq \<in> set (snd (ht_Execute wit_http (NewHTTPTool []) 0 ?i))" by (metis list.set_intros(1) list.exhaust)
  from http_request_checked [OF this] show ?thesis by (auto simp: wit_http_def wit_url_def)
qed

end
