(* ===== verification/Http_Server.thy ===== *)
theory Http_Server
  imports Auth_Sign "HOL-Library.AList" "HOL-Library.Word"
begin

text \<open>
  The second HTTP server of the framework, \<^verbatim>\<open>pkg/server/server.go\<close>: health and readiness, the information and profiling
  endpoints, API keys, and a limiter with a bucket for each address whose idle buckets are swept away.

  Requests arrive with the path that \<^verbatim>\<open>http.ServeMux\<close> has cleaned. A request takes one reading of the clock where the source takes
  two in a row. Profiling handlers, the metrics handler and the health checks are parameters; a reply names the handler that served it.
\<close>

section \<open>A bucket\<close>

record ipBucket =
  ib_tokens :: int
  ib_lastRefill :: int
  ib_lastSeen :: int
  ib_rate :: int
  ib_window :: int

definition newIpBucket :: "int \<Rightarrow> int \<Rightarrow> int \<Rightarrow> ipBucket" where
  "newIpBucket rate window now =
     \<lparr>ib_tokens = rate, ib_lastRefill = now, ib_lastSeen = now, ib_rate = rate, ib_window = window\<rparr>"

definition maxRateLimiters :: nat where "maxRateLimiters = 10000"
definition limiterIdleTTL :: int where "limiterIdleTTL = 10 * 60 * 10 ^ 9"

definition lastSeenLocked :: "int \<Rightarrow> ipBucket \<Rightarrow> ipBucket" where
  "lastSeenLocked now b = b\<lparr>ib_lastSeen := now\<rparr>"

text \<open>Division of Go cuts towards zero; a sum of \<^verbatim>\<open>int\<close> wraps.\<close>

definition go_div :: "int \<Rightarrow> int \<Rightarrow> int" where
  "go_div a b = sgn a * sgn b * (\<bar>a\<bar> div \<bar>b\<bar>)"

definition wrap64 :: "int \<Rightarrow> int" where
  "wrap64 x = sint (word_of_int x :: 64 word)"

text \<open>\<open>None\<close>: the division by an empty window panics.\<close>

definition ipb_Allow :: "int \<Rightarrow> ipBucket \<Rightarrow> (bool \<times> ipBucket) option" where
  "ipb_Allow now b =
     (if ib_window b = 0 then None
      else let elapsed = now - ib_lastRefill b;
               windows = go_div elapsed (ib_window b);
               b1 = b\<lparr>ib_lastRefill := now\<rparr>;
               b2 = (if windows > 0 then b1\<lparr>ib_tokens := min (ib_rate b) (wrap64 (ib_tokens b + windows * ib_rate b))\<rparr> else b1)
        in Some (if ib_tokens b2 > 0 then (True, b2\<lparr>ib_tokens := ib_tokens b2 - 1\<rparr>) else (False, b2)))"

section \<open>The server\<close>

record ('h, 'f) httpServer =
  hs_addr :: string
  hs_metrics :: bool
  hs_apiKeys :: "string list"
  hs_rateLimit :: int
  hs_rateLimitWin :: int
  hs_rateLimiters :: "(string \<times> ipBucket) list"
  hs_tlsCertFile :: string
  hs_tlsKeyFile :: string
  hs_ready :: bool
  hs_checks :: "(string \<times> 'h) list"
  hs_onShutdown :: "'f list"
  hs_shutdownTimeout :: int

definition hs_WithAddr :: "string \<Rightarrow> ('h, 'f) httpServer \<Rightarrow> ('h, 'f) httpServer" where
  "hs_WithAddr a s = s\<lparr>hs_addr := a\<rparr>"

definition hs_WithMetrics :: "bool \<Rightarrow> ('h, 'f) httpServer \<Rightarrow> ('h, 'f) httpServer" where
  "hs_WithMetrics m s = s\<lparr>hs_metrics := m\<rparr>"

definition hs_WithAPIKeys :: "string list \<Rightarrow> ('h, 'f) httpServer \<Rightarrow> ('h, 'f) httpServer" where
  "hs_WithAPIKeys ks s = s\<lparr>hs_apiKeys := ks\<rparr>"

definition hs_WithTLSFiles :: "string \<Rightarrow> string \<Rightarrow> ('h, 'f) httpServer \<Rightarrow> ('h, 'f) httpServer" where
  "hs_WithTLSFiles c k s = s\<lparr>hs_tlsCertFile := c, hs_tlsKeyFile := k\<rparr>"

definition hs_WithRateLimit :: "int \<Rightarrow> int \<Rightarrow> ('h, 'f) httpServer \<Rightarrow> ('h, 'f) httpServer" where
  "hs_WithRateLimit r w s = s\<lparr>hs_rateLimit := r, hs_rateLimitWin := w\<rparr>"

definition hs_WithShutdownTimeout :: "int \<Rightarrow> ('h, 'f) httpServer \<Rightarrow> ('h, 'f) httpServer" where
  "hs_WithShutdownTimeout d s = s\<lparr>hs_shutdownTimeout := d\<rparr>"

definition hs_New :: "(string \<Rightarrow> string) \<Rightarrow> (('h, 'f) httpServer \<Rightarrow> ('h, 'f) httpServer) list \<Rightarrow> ('h, 'f) httpServer" where
  "hs_New getenv opts =
     (let s = fold (\<lambda>f. f) opts
        \<lparr>hs_addr = '':9090'', hs_metrics = False, hs_apiKeys = [], hs_rateLimit = 0, hs_rateLimitWin = 0, hs_rateLimiters = [],
         hs_tlsCertFile = [], hs_tlsKeyFile = [], hs_ready = False, hs_checks = [], hs_onShutdown = [], hs_shutdownTimeout = 15 * 10 ^ 9\<rparr>
      in s\<lparr>hs_tlsCertFile := (if hs_tlsCertFile s = [] then getenv ''TLS_CERT_FILE'' else hs_tlsCertFile s),
           hs_tlsKeyFile := (if hs_tlsKeyFile s = [] then getenv ''TLS_KEY_FILE'' else hs_tlsKeyFile s)\<rparr>)"

text \<open>One round of the sweeper.\<close>

definition limiter_sweep :: "int \<Rightarrow> ('h, 'f) httpServer \<Rightarrow> ('h, 'f) httpServer" where
  "limiter_sweep now s =
     s\<lparr>hs_rateLimiters := filter (\<lambda>(ip, b). \<not> ib_lastSeen b < now - limiterIdleTTL) (hs_rateLimiters s)\<rparr>"

definition RegisterHealthCheck :: "string \<Rightarrow> 'h \<Rightarrow> ('h, 'f) httpServer \<Rightarrow> ('h, 'f) httpServer" where
  "RegisterHealthCheck name check s = s\<lparr>hs_checks := AList.update name check (hs_checks s)\<rparr>"

definition SetReady :: "bool \<Rightarrow> ('h, 'f) httpServer \<Rightarrow> ('h, 'f) httpServer" where
  "SetReady r s = s\<lparr>hs_ready := r\<rparr>"

definition OnShutdown :: "'f \<Rightarrow> ('h, 'f) httpServer \<Rightarrow> ('h, 'f) httpServer" where
  "OnShutdown fn s = s\<lparr>hs_onShutdown := hs_onShutdown s @ [fn]\<rparr>"

text \<open>Whether a start serves TLS: \<^verbatim>\<open>Start\<close> asks for it, \<^verbatim>\<open>ListenAndServe\<close> never does.\<close>

datatype listening = ListenPlain string | ListenTLS string string string

definition hs_Start :: "('h, 'f) httpServer \<Rightarrow> listening" where
  "hs_Start s =
     (if hs_tlsCertFile s \<noteq> [] \<and> hs_tlsKeyFile s \<noteq> [] then ListenTLS (hs_addr s) (hs_tlsCertFile s) (hs_tlsKeyFile s)
      else ListenPlain (hs_addr s))"

definition hs_ListenAndServe :: "('h, 'f) httpServer \<Rightarrow> listening" where
  "hs_ListenAndServe s = ListenPlain (hs_addr s)"

text \<open>The callbacks fire in order, before the server is told to stop in \<^verbatim>\<open>Shutdown\<close>, after it on a signal.\<close>

datatype 'f shutting = Callback 'f | StopServer int

definition hs_Shutdown :: "bool \<Rightarrow> ('h, 'f) httpServer \<Rightarrow> 'f shutting list" where
  "hs_Shutdown started s = map Callback (hs_onShutdown s) @ (if started then [StopServer (hs_shutdownTimeout s)] else [])"

definition signal_shutdown :: "('h, 'f) httpServer \<Rightarrow> 'f shutting list" where
  "signal_shutdown s = StopServer (hs_shutdownTimeout s) # map Callback (hs_onShutdown s)"

section \<open>Handlers\<close>

record http_req =
  hr_Path :: string
  hr_APIKey :: string
  hr_Auth :: string
  hr_RemoteAddr :: string
  hr_XFF :: string
  hr_XRealIP :: string

datatype http_body = BJson "(string \<times> gvalue) list" | BText string | BServed string

type_synonym http_reply = "nat \<times> http_body"

record 'h http_env =
  hv_check :: "'h \<Rightarrow> goerr option"
  hv_snapshot :: "(string \<times> gvalue) list"
  hv_jwt :: jwtenv
  hv_jwt_secret :: string
  hv_wall :: gotime
  hv_trust_proxy :: string
  hv_show_dur :: "int \<Rightarrow> string"

definition handleHealth :: "'h http_env \<Rightarrow> ('h, 'f) httpServer \<Rightarrow> http_reply" where
  "handleHealth E s =
     (let results = map (\<lambda>(name, check).
            (name, VString (case hv_check E check of Some e \<Rightarrow> ''unhealthy: '' @ err_text e | None \<Rightarrow> ''healthy''))) (hs_checks s);
          all_healthy = list_all (\<lambda>(name, check). hv_check E check = None) (hs_checks s)
      in (if all_healthy then 200 else 503, BJson (if results = [] then [(''server'', VString ''healthy'')] else results)))"

definition handleReadiness :: "('h, 'f) httpServer \<Rightarrow> http_reply" where
  "handleReadiness s = (if hs_ready s then (200, BText ''ready'') else (503, BText ''not ready''))"

definition handleInfo :: "'h http_env \<Rightarrow> ('h, 'f) httpServer \<Rightarrow> http_reply" where
  "handleInfo E s =
     (200, BJson ([(''service'', VString ''gocrew''), (''version'', VString ''1.0.0-beta.1''), (''go'', VString ''1.23+'')] @
        (if hs_metrics s then hv_snapshot E else [])))"

definition validateAPIKey :: "'h http_env \<Rightarrow> ('h, 'f) httpServer \<Rightarrow> http_req \<Rightarrow> bool" where
  "validateAPIKey E s q \<longleftrightarrow>
     (hr_APIKey q \<noteq> [] \<and> list_ex (\<lambda>k. length k = length (hr_APIKey q) \<and> k = hr_APIKey q) (hs_apiKeys s)) \<or>
     (has_prefix (hr_Auth q) ''Bearer '' \<and>
      (case ValidatorFromEnv (hv_jwt_secret E) of
         None \<Rightarrow> False
       | Some v \<Rightarrow> is_ok (Validate (hv_jwt E) (Some v) (hv_wall E) (trim_prefix (hr_Auth q) ''Bearer ''))))"

definition pprof_handler :: "'h http_env \<Rightarrow> ('h, 'f) httpServer \<Rightarrow> http_req \<Rightarrow> string \<Rightarrow> http_reply" where
  "pprof_handler E s q name =
     (if hs_apiKeys s \<noteq> [] \<and> \<not> validateAPIKey E s q then (401, BText ''unauthorized'') else (200, BServed name))"

text \<open>The routes; the longest pattern wins, and the one of the profiler ends in a slash.\<close>

definition copyRoutes :: "'h http_env \<Rightarrow> ('h, 'f) httpServer \<Rightarrow> http_req \<Rightarrow> http_reply" where
  "copyRoutes E s q =
     (let path = hr_Path q in
      if path = ''/healthz'' \<or> path = ''/health'' then handleHealth E s
      else if path = ''/readyz'' \<or> path = ''/ready'' then handleReadiness s
      else if path = ''/metrics'' \<and> hs_metrics s then (200, BServed ''metrics'')
      else if path = ''/info'' then handleInfo E s
      else if path = ''/debug/pprof/cmdline'' then pprof_handler E s q ''pprof.Cmdline''
      else if path = ''/debug/pprof/profile'' then pprof_handler E s q ''pprof.Profile''
      else if path = ''/debug/pprof/symbol'' then pprof_handler E s q ''pprof.Symbol''
      else if path = ''/debug/pprof/trace'' then pprof_handler E s q ''pprof.Trace''
      else if has_prefix path ''/debug/pprof/'' then pprof_handler E s q ''pprof.Index''
      else (404, BText ''404 page not found''))"

text \<open>\<^verbatim>\<open>net.SplitHostPort\<close>, the host only.\<close>

definition last_colon :: "string \<Rightarrow> nat option" where
  "last_colon s = (if CHR '':'' \<in> set s then Some (length s - 1 - length (takeWhile (\<lambda>c. c \<noteq> CHR '':'') (rev s))) else None)"

definition SplitHostPort :: "string \<Rightarrow> string option" where
  "SplitHostPort hp =
     (case last_colon hp of
        None \<Rightarrow> None
      | Some i \<Rightarrow>
          if hp ! 0 = CHR ''['' then
            (if CHR '']'' \<notin> set hp then None
             else let e = length (takeWhile (\<lambda>c. c \<noteq> CHR '']'') hp) in
               if e + 1 \<noteq> i \<or> CHR ''['' \<in> set (drop 1 hp) \<or> CHR '']'' \<in> set (drop (e + 1) hp) then None
               else Some (take (e - 1) (drop 1 hp)))
          else if CHR '':'' \<in> set (take i hp) \<or> CHR ''['' \<in> set hp \<or> CHR '']'' \<in> set hp then None
          else Some (take i hp))"

definition getClientIP :: "'h http_env \<Rightarrow> http_req \<Rightarrow> string" where
  "getClientIP E q =
     (if hv_trust_proxy E = ''1'' \<and> hr_XFF q \<noteq> [] then trim_space (hd (split_byte CHR '','' (hr_XFF q)))
      else if hv_trust_proxy E = ''1'' \<and> hr_XRealIP q \<noteq> [] then trim_space (hr_XRealIP q)
      else (case SplitHostPort (hr_RemoteAddr q) of Some host \<Rightarrow> host | None \<Rightarrow> hr_RemoteAddr q))"

section \<open>The chain\<close>

definition authMiddleware :: "'h http_env \<Rightarrow> ('h, 'f) httpServer \<Rightarrow> (http_req \<Rightarrow> http_reply) \<Rightarrow> http_req \<Rightarrow> http_reply" where
  "authMiddleware E s nxt q =
     (if hr_Path q \<in> {''/healthz'', ''/health'', ''/readyz'', ''/ready''} then nxt q
      else if \<not> validateAPIKey E s q then (401, BJson [(''error'', VString ''unauthorized: invalid or missing API key'')])
      else nxt q)"

text \<open>The decision of the limiter: pass on, refuse, or panic; with the table.\<close>

datatype limiting = LPass | LFull | LExceeded | LPanic

definition limit_check :: "int \<Rightarrow> string \<Rightarrow> ('h, 'f) httpServer \<Rightarrow> limiting \<times> ('h, 'f) httpServer" where
  "limit_check now ip s =
     (let found = map_of (hs_rateLimiters s) ip in
      if found = None \<and> length (hs_rateLimiters s) \<ge> maxRateLimiters then (LFull, s)
      else let b = lastSeenLocked now (case found of Some b \<Rightarrow> b | None \<Rightarrow> newIpBucket (hs_rateLimit s) (hs_rateLimitWin s) now) in
        (case ipb_Allow now b of
           None \<Rightarrow> (LPanic, s\<lparr>hs_rateLimiters := AList.update ip (b\<lparr>ib_lastRefill := now\<rparr>) (hs_rateLimiters s)\<rparr>)
         | Some (ok, b') \<Rightarrow> (if ok then LPass else LExceeded, s\<lparr>hs_rateLimiters := AList.update ip b' (hs_rateLimiters s)\<rparr>)))"

definition rateLimitMiddleware ::
  "'h http_env \<Rightarrow> int \<Rightarrow> (http_req \<Rightarrow> http_reply) \<Rightarrow> http_req \<Rightarrow> ('h, 'f) httpServer \<Rightarrow> http_reply option \<times> ('h, 'f) httpServer" where
  "rateLimitMiddleware E now nxt q s =
     (case limit_check now (getClientIP E q) s of
        (LPass, s') \<Rightarrow> (Some (nxt q), s')
      | (LFull, s') \<Rightarrow> (Some (429, BJson [(''error'', VString ''server busy'')]), s')
      | (LExceeded, s') \<Rightarrow>
          (Some (429, BJson [(''error'', VString ''rate limit exceeded''), (''retry_after'', VString (hv_show_dur E (hs_rateLimitWin s)))]), s')
      | (LPanic, s') \<Rightarrow> (None, s'))"

text \<open>The whole chain; logging changes nothing. \<open>None\<close>: the handler panics and the connection is dropped.\<close>

definition buildHandler :: "'h http_env \<Rightarrow> int \<Rightarrow> http_req \<Rightarrow> ('h, 'f) httpServer \<Rightarrow> http_reply option \<times> ('h, 'f) httpServer" where
  "buildHandler E now q s =
     (let routes = copyRoutes E s;
          inner = (if hs_apiKeys s \<noteq> [] then authMiddleware E s routes else routes)
      in if hs_rateLimit s > 0 then rateLimitMiddleware E now inner q s else (Some (inner q), s))"

definition getRateLimitState :: "string \<Rightarrow> ('h, 'f) httpServer \<Rightarrow> int option" where
  "getRateLimitState ip s = map_option ib_tokens (map_of (hs_rateLimiters s) ip)"

definition resetRateLimiters :: "('h, 'f) httpServer \<Rightarrow> ('h, 'f) httpServer" where
  "resetRateLimiters s = s\<lparr>hs_rateLimiters := []\<rparr>"

section \<open>Runs of the limiter\<close>

text \<open>Requests and rounds of the sweeper, in the order of the clock, and the times at which an address was let through.\<close>

datatype lim_event = LReq int string | LSweep int

fun ev_time :: "lim_event \<Rightarrow> int" where
  "ev_time (LReq now ip) = now"
| "ev_time (LSweep now) = now"

fun lim_step :: "lim_event \<Rightarrow> ('h, 'f) httpServer \<Rightarrow> bool \<times> ('h, 'f) httpServer" where
  "lim_step (LReq now ip) s = (case limit_check now ip s of (r, s') \<Rightarrow> (r = LPass, s'))"
| "lim_step (LSweep now) s = (False, limiter_sweep now s)"

fun let_through :: "string \<Rightarrow> lim_event list \<Rightarrow> ('h, 'f) httpServer \<Rightarrow> int list \<times> ('h, 'f) httpServer" where
  "let_through ip [] s = ([], s)"
| "let_through ip (e # es) s =
     (case lim_step e s of (ok, s1) \<Rightarrow> (case let_through ip es s1 of (ts, s2) \<Rightarrow>
        ((case e of LReq now j \<Rightarrow> if ok \<and> j = ip then [now] else [] | LSweep now \<Rightarrow> []) @ ts, s2)))"

text \<open>How many of the times \<open>A\<close> lie in the window that starts at \<open>t\<close>.\<close>

definition in_win :: "int \<Rightarrow> int \<Rightarrow> int list \<Rightarrow> nat" where
  "in_win w t A = length (filter (\<lambda>a. t \<le> a \<and> a < t + w) A)"

text \<open>
  The bucket of an address after it was let through at the times \<open>A\<close>: since some time \<open>r0\<close> the requests and the tokens that are left
  are at most the rate, and what came before is a window older than \<open>r0\<close>.
\<close>

definition fits :: "int \<Rightarrow> int \<Rightarrow> int list \<Rightarrow> int \<Rightarrow> ipBucket \<Rightarrow> bool" where
  "fits rate w A r0 b \<longleftrightarrow> ib_rate b = rate \<and> ib_window b = w \<and> r0 \<le> ib_lastRefill b \<and> ib_lastRefill b = ib_lastSeen b \<and> ib_tokens b \<le> rate \<and>
     (\<forall>a \<in> set A. a \<le> ib_lastRefill b \<and> (a < r0 \<longrightarrow> a \<le> r0 - w)) \<and>
     int (length (filter (\<lambda>a. r0 \<le> a) A)) + ib_tokens b \<le> rate"

definition lim_inv :: "string \<Rightarrow> int \<Rightarrow> int list \<Rightarrow> ('h, 'f) httpServer \<Rightarrow> bool" where
  "lim_inv ip now A s \<longleftrightarrow>
     (\<forall>t. int (in_win (hs_rateLimitWin s) t A) \<le> hs_rateLimit s) \<and>
     (case map_of (hs_rateLimiters s) ip of
        None \<Rightarrow> \<forall>a \<in> set A. a \<le> now - hs_rateLimitWin s
      | Some b \<Rightarrow> ib_lastSeen b \<le> now \<and> (\<exists>r0. fits (hs_rateLimit s) (hs_rateLimitWin s) A r0 b))"

lemma filter_none: "(\<And>a. a \<in> set A \<Longrightarrow> \<not> P a) \<Longrightarrow> filter P A = []"
  by (simp add: filter_empty_conv)

text \<open>One use of a bucket.\<close>

lemma fits_allow:
  assumes "fits rate w A r0 b" "ib_lastRefill b \<le> now" "0 < w" "ipb_Allow now (lastSeenLocked now b) = Some (ok, b')"
    and win: "\<forall>t. int (in_win w t A) \<le> rate"
  shows "\<exists>r1. fits rate w (A @ (if ok then [now] else [])) r1 b'" "\<forall>t. int (in_win w t (A @ (if ok then [now] else []))) \<le> rate" "ib_lastSeen b' = now"
proof -
  let ?b = "lastSeenLocked now b" and ?A = "A @ (if ok then [now] else [])"
  have F: "ib_rate b = rate" "ib_window b = w" "r0 \<le> ib_lastRefill b" "ib_tokens b \<le> rate"
    "\<And>a. a \<in> set A \<Longrightarrow> a \<le> ib_lastRefill b" "\<And>a. a \<in> set A \<Longrightarrow> a < r0 \<Longrightarrow> a \<le> r0 - w"
    "int (length (filter (\<lambda>a. r0 \<le> a) A)) + ib_tokens b \<le> rate" using assms(1) by (auto simp: fits_def)
  let ?n = "go_div (now - ib_lastRefill b) w"
  define tk where "tk = (if ?n > 0 then min rate (wrap64 (ib_tokens b + ?n * rate)) else ib_tokens b)"
  define r1 where "r1 = (if ?n > 0 then now else r0)"
  have e: "ok = (tk > 0)" "ib_tokens b' = (if ok then tk - 1 else tk)" "ib_lastRefill b' = now" "ib_lastSeen b' = now"
    "ib_rate b' = rate" "ib_window b' = w"
    using assms(3,4) F(1,2) by (auto simp: ipb_Allow_def lastSeenLocked_def Let_def tk_def split: if_splits)
  show "ib_lastSeen b' = now" by (rule e(4))
  have g: "w \<le> now - ib_lastRefill b" if "?n > 0"
    using that assms(2,3) by (cases "now - ib_lastRefill b < w") (auto simp: go_div_def sgn_if split: if_splits)
  have r1: "r1 \<le> now" "\<And>a. a \<in> set A \<Longrightarrow> a < r1 \<Longrightarrow> a \<le> r1 - w" "tk \<le> rate"
      "int (length (filter (\<lambda>a. r1 \<le> a) A)) + tk \<le> rate"
  proof -
    show "r1 \<le> now" using F(3) assms(2) by (simp add: r1_def)
    show "a \<le> r1 - w" if "a \<in> set A" "a < r1" for a
      using that F(5) [OF that(1)] F(6) [OF that(1)] g by (auto simp: r1_def split: if_splits)
    show "tk \<le> rate" using F(4) by (simp add: tk_def)
    show "int (length (filter (\<lambda>a. r1 \<le> a) A)) + tk \<le> rate"
    proof (cases "?n > 0")
      case True
      have "filter (\<lambda>a. r1 \<le> a) A = []"
        by (rule filter_none) (use F(5) g [OF True] assms(3) True in \<open>force simp: r1_def\<close>)
      then show ?thesis using \<open>tk \<le> rate\<close> by simp
    next
      case False
      then show ?thesis using F(7) by (simp add: r1_def tk_def)
    qed
  qed
  have "fits rate w ?A r1 b'"
    unfolding fits_def using e r1 F(5) assms(2) by (auto simp: algebra_simps dest: order_trans)
  then show "\<exists>r1. fits rate w ?A r1 b'" ..
  show "\<forall>t. int (in_win w t ?A) \<le> rate"
  proof
    fix t
    show "int (in_win w t ?A) \<le> rate"
    proof (cases "ok \<and> t \<le> now \<and> now < t + w")
      case False
      then have "in_win w t ?A = in_win w t A" by (auto simp: in_win_def)
      then show ?thesis using win by simp
    next
      case True
      have "set (filter (\<lambda>a. t \<le> a \<and> a < t + w) A) \<subseteq> {a. r1 \<le> a}" using True r1(1,2) by force
      then have "filter (\<lambda>a. t \<le> a \<and> a < t + w) A = filter (\<lambda>a. t \<le> a \<and> a < t + w) (filter (\<lambda>a. r1 \<le> a) A)"
        by (simp add: filter_filter) (intro filter_cong, auto)
      then have "length (filter (\<lambda>a. t \<le> a \<and> a < t + w) A) \<le> length (filter (\<lambda>a. r1 \<le> a) A)"
        by (metis length_filter_le)
      then show ?thesis using True r1(4) e(1) by (simp add: in_win_def)
    qed
  qed
qed

lemma map_of_filter_distinct:
  "distinct (map fst xs) \<Longrightarrow> map_of (filter (\<lambda>(k, v). P v) xs) k = (case map_of xs k of Some v \<Rightarrow> if P v then Some v else None | None \<Rightarrow> None)"
proof (induction xs)
  case (Cons x xs)
  obtain j v where x: "x = (j, v)" by fastforce
  have "map_of xs k = None" if "k = j" using Cons.prems x that by (auto simp: map_of_eq_None_iff)
  with Cons x show ?case by auto
qed simp

lemma update_length: "length (AList.update k v xs) = (if map_of xs k = None then Suc (length xs) else length xs)"
  by (induction xs) auto

lemma limit_check_keeps:
  assumes "limit_check now ip s = (r, s')"
  shows "hs_rateLimit s' = hs_rateLimit s" "hs_rateLimitWin s' = hs_rateLimitWin s"
    "distinct (map fst (hs_rateLimiters s)) \<Longrightarrow> distinct (map fst (hs_rateLimiters s'))"
    "j \<noteq> ip \<Longrightarrow> map_of (hs_rateLimiters s') j = map_of (hs_rateLimiters s) j"
    "length (hs_rateLimiters s) \<le> maxRateLimiters \<Longrightarrow> length (hs_rateLimiters s') \<le> maxRateLimiters"
proof -
  define b where "b = lastSeenLocked now (case map_of (hs_rateLimiters s) ip of Some b \<Rightarrow> b | None \<Rightarrow> newIpBucket (hs_rateLimit s) (hs_rateLimitWin s) now)"
  have c: "s' = s \<or> (\<exists>b'. s' = s\<lparr>hs_rateLimiters := AList.update ip b' (hs_rateLimiters s)\<rparr> \<and>
      (map_of (hs_rateLimiters s) ip = None \<longrightarrow> length (hs_rateLimiters s) < maxRateLimiters))"
    using assms by (auto simp: limit_check_def Let_def b_def [symmetric] split: if_splits option.splits prod.splits)
  show "hs_rateLimit s' = hs_rateLimit s" "hs_rateLimitWin s' = hs_rateLimitWin s" using c by auto
  show "distinct (map fst (hs_rateLimiters s)) \<Longrightarrow> distinct (map fst (hs_rateLimiters s'))"
    using c by (auto simp: distinct_update)
  show "j \<noteq> ip \<Longrightarrow> map_of (hs_rateLimiters s') j = map_of (hs_rateLimiters s) j"
    using c by (auto simp: AList.update_conv')
  show "length (hs_rateLimiters s) \<le> maxRateLimiters \<Longrightarrow> length (hs_rateLimiters s') \<le> maxRateLimiters"
    using c by (auto simp: update_length)
qed

lemma limit_check_bucket:
  assumes "limit_check now ip s = (r, s')" "map_of (hs_rateLimiters s) ip \<noteq> None \<or> length (hs_rateLimiters s) < maxRateLimiters"
    "b = (case map_of (hs_rateLimiters s) ip of Some b \<Rightarrow> b | None \<Rightarrow> newIpBucket (hs_rateLimit s) (hs_rateLimitWin s) now)"
    "ib_window b \<noteq> 0"
  obtains b' where "ipb_Allow now (lastSeenLocked now b) = Some (r = LPass, b')" "map_of (hs_rateLimiters s') ip = Some b'"
proof -
  have "ipb_Allow now (lastSeenLocked now b) \<noteq> None" using assms(4) by (simp add: ipb_Allow_def lastSeenLocked_def Let_def)
  then obtain ok b' where a: "ipb_Allow now (lastSeenLocked now b) = Some (ok, b')" by force
  have "r = (if ok then LPass else LExceeded)" "map_of (hs_rateLimiters s') ip = Some b'"
    using assms(1,2) a unfolding limit_check_def Let_def assms(3) [symmetric] by (auto simp: AList.update_conv' split: if_splits)
  then show ?thesis using that a by (cases ok) auto
qed

lemma lim_inv_step:
  assumes I: "lim_inv ip now A s" and d: "distinct (map fst (hs_rateLimiters s))" and t: "now \<le> ev_time e"
    and w: "0 < hs_rateLimitWin s" "hs_rateLimitWin s \<le> limiterIdleTTL" and st: "lim_step e s = (ok, s')"
  shows "lim_inv ip (ev_time e) (A @ (case e of LReq u j \<Rightarrow> if ok \<and> j = ip then [u] else [] | LSweep u \<Rightarrow> [])) s' \<and>
    hs_rateLimit s' = hs_rateLimit s \<and> hs_rateLimitWin s' = hs_rateLimitWin s \<and> distinct (map fst (hs_rateLimiters s'))"
proof (cases e)
  case (LReq u j)
  obtain r where c: "limit_check u j s = (r, s')" "ok = (r = LPass)" using st LReq by (auto split: prod.splits)
  note k = limit_check_keeps [OF c(1)]
  have n: "now \<le> u" using t LReq by simp
  have other: "lim_inv ip u A s'" if "map_of (hs_rateLimiters s') ip = map_of (hs_rateLimiters s) ip"
    using I n that unfolding lim_inv_def k(1,2) by (fastforce split: option.splits)
  show ?thesis
  proof (cases "j = ip")
    case False
    then show ?thesis using other k(1-3) k(4) [of ip] d LReq by simp
  next
    case True
    let ?b = "case map_of (hs_rateLimiters s) ip of Some b \<Rightarrow> b | None \<Rightarrow> newIpBucket (hs_rateLimit s) (hs_rateLimitWin s) u"
    have f: "\<exists>r0. fits (hs_rateLimit s) (hs_rateLimitWin s) A r0 ?b" "ib_lastRefill ?b \<le> u"
    proof -
      show "\<exists>r0. fits (hs_rateLimit s) (hs_rateLimitWin s) A r0 ?b"
      proof (cases "map_of (hs_rateLimiters s) ip")
        case None
        with I have a: "\<forall>a \<in> set A. a \<le> now - hs_rateLimitWin s" by (simp add: lim_inv_def)
        then have "filter (\<lambda>a. u \<le> a) A = []" by (intro filter_none) (use n w(1) in force)
        then have "fits (hs_rateLimit s) (hs_rateLimitWin s) A u ?b"
          using a n w(1) None by (force simp: fits_def newIpBucket_def)
        then show ?thesis ..
      qed (use I in \<open>simp add: lim_inv_def\<close>)
      show "ib_lastRefill ?b \<le> u" using I n by (auto simp: lim_inv_def newIpBucket_def fits_def split: option.splits)
    qed
    then obtain r0 where f0: "fits (hs_rateLimit s) (hs_rateLimitWin s) A r0 ?b" by blast
    have win: "\<forall>t. int (in_win (hs_rateLimitWin s) t A) \<le> hs_rateLimit s" using I by (simp add: lim_inv_def)
    show ?thesis
    proof (cases "map_of (hs_rateLimiters s) ip \<noteq> None \<or> length (hs_rateLimiters s) < maxRateLimiters")
      case False
      then have "s' = s" "\<not> ok" using c True by (auto simp: limit_check_def)
      then show ?thesis using other d LReq True by simp
    next
      case found: True
      have wb: "ib_window ?b \<noteq> 0" using f0 w(1) by (simp add: fits_def)
      obtain b' where b': "ipb_Allow u (lastSeenLocked u ?b) = Some (r = LPass, b')" "map_of (hs_rateLimiters s') ip = Some b'"
        using limit_check_bucket [OF c(1) [unfolded True] found refl wb] by blast
      from fits_allow [OF f0 f(2) w(1) b'(1) win] b'(2) c(2)
      have "lim_inv ip u (A @ (if ok then [u] else [])) s'" unfolding lim_inv_def k(1,2) by simp
      then show ?thesis using k(1-3) d LReq True by simp
    qed
  qed
next
  case (LSweep u)
  then have s': "s' = limiter_sweep u s" "\<not> ok" using st by simp_all
  have n: "now \<le> u" using t LSweep by simp
  have m: "map_of (hs_rateLimiters s') ip = (case map_of (hs_rateLimiters s) ip of
      Some b \<Rightarrow> if \<not> ib_lastSeen b < u - limiterIdleTTL then Some b else None | None \<Rightarrow> None)"
    using map_of_filter_distinct [OF d, of "\<lambda>b. \<not> ib_lastSeen b < u - limiterIdleTTL" ip] by (simp add: s'(1) limiter_sweep_def)
  have p: "hs_rateLimit s' = hs_rateLimit s" "hs_rateLimitWin s' = hs_rateLimitWin s" by (simp_all add: s'(1) limiter_sweep_def)
  have "lim_inv ip u A s'"
  proof (cases "map_of (hs_rateLimiters s) ip")
    case None
    then show ?thesis using I n m unfolding lim_inv_def p by fastforce
  next
    case (Some b)
    then obtain r0 where f: "fits (hs_rateLimit s) (hs_rateLimitWin s) A r0 b" "ib_lastSeen b \<le> now" using I by (auto simp: lim_inv_def)
    then have "\<forall>a \<in> set A. a \<le> ib_lastSeen b" by (auto simp: fits_def)
    then show ?thesis using I n m Some f w(2) unfolding lim_inv_def p by force
  qed
  moreover have "distinct (map fst (hs_rateLimiters s'))" using d by (simp add: s'(1) limiter_sweep_def distinct_map_filter)
  ultimately show ?thesis using p LSweep by simp
qed

lemma let_through_inv:
  "lim_inv ip now A s \<Longrightarrow> distinct (map fst (hs_rateLimiters s)) \<Longrightarrow> sorted (now # map ev_time es) \<Longrightarrow>
   0 < hs_rateLimitWin s \<Longrightarrow> hs_rateLimitWin s \<le> limiterIdleTTL \<Longrightarrow>
   \<exists>now'. lim_inv ip now' (A @ fst (let_through ip es s)) (snd (let_through ip es s)) \<and>
     hs_rateLimit (snd (let_through ip es s)) = hs_rateLimit s \<and> hs_rateLimitWin (snd (let_through ip es s)) = hs_rateLimitWin s"
proof (induction es arbitrary: now A s)
  case (Cons e es)
  obtain ok s1 where st: "lim_step e s = (ok, s1)" by fastforce
  have t: "now \<le> ev_time e" "sorted (ev_time e # map ev_time es)" using Cons.prems(3) by auto
  note k = lim_inv_step [OF Cons.prems(1,2) t(1) Cons.prems(4,5) st]
  obtain now' where "lim_inv ip now' ((A @ (case e of LReq u j \<Rightarrow> if ok \<and> j = ip then [u] else [] | LSweep u \<Rightarrow> [])) @ fst (let_through ip es s1))
      (snd (let_through ip es s1)) \<and> hs_rateLimit (snd (let_through ip es s1)) = hs_rateLimit s \<and>
      hs_rateLimitWin (snd (let_through ip es s1)) = hs_rateLimitWin s"
    using Cons.IH [of "ev_time e" "A @ (case e of LReq u j \<Rightarrow> if ok \<and> j = ip then [u] else [] | LSweep u \<Rightarrow> [])" s1] k t(2) Cons.prems(4,5) by auto
  then show ?case using st by (auto split: prod.splits)
qed auto

lemma table_bounded:
  "length (hs_rateLimiters s) \<le> maxRateLimiters \<Longrightarrow> length (hs_rateLimiters (snd (let_through ip es s))) \<le> maxRateLimiters"
proof (induction es arbitrary: s)
  case (Cons e es)
  obtain ok s1 where st: "lim_step e s = (ok, s1)" by fastforce
  have "length (hs_rateLimiters s1) \<le> maxRateLimiters"
  proof (cases e)
    case (LReq u j)
    then show ?thesis using st limit_check_keeps(5) [OF _ Cons.prems, of u j] by (auto split: prod.splits)
  next
    case (LSweep u)
    then show ?thesis using st Cons.prems le_trans [OF length_filter_le Cons.prems] by (auto simp: limiter_sweep_def)
  qed
  from Cons.IH [OF this] show ?case using st by (auto split: prod.splits)
qed simp

section \<open>Properties\<close>

text \<open>
  C39: The limiter of the second server keeps its rate. For a window of at most ten minutes, whatever requests arrive and whenever idle
  buckets are swept, no window of that length has more requests of one address let through than the rate, and
  the table never holds more than 10000 buckets.
\<close>

theorem ip_rate_bound:
  assumes "hs_rateLimiters s = []" "0 \<le> hs_rateLimit s" "0 < hs_rateLimitWin s" "hs_rateLimitWin s \<le> 10 * 60 * 10 ^ 9"
    "sorted (map ev_time es)" "let_through ip es s = (A, s')"
  shows "int (length (filter (\<lambda>a. t \<le> a \<and> a < t + hs_rateLimitWin s) A)) \<le> hs_rateLimit s \<and> length (hs_rateLimiters s') \<le> 10000"
proof -
  define t0 where "t0 = (case es of [] \<Rightarrow> 0 | e # _ \<Rightarrow> ev_time e)"
  have t0: "sorted (t0 # map ev_time es)" using assms(5) by (cases es) (auto simp: t0_def)
  have I: "lim_inv ip t0 [] s" using assms(1,2) by (simp add: lim_inv_def in_win_def)
  from let_through_inv [OF I _ t0 assms(3)] assms(1,4,6)
  have "int (in_win (hs_rateLimitWin s) t A) \<le> hs_rateLimit s" by (auto simp: lim_inv_def limiterIdleTTL_def)
  moreover have "length (hs_rateLimiters s') \<le> 10000"
    using table_bounded [of s ip es] assms(1,6) by (simp add: maxRateLimiters_def)
  ultimately show ?thesis by (simp add: in_win_def)
qed

fun ipb_run :: "int list \<Rightarrow> ipBucket \<Rightarrow> bool list" where
  "ipb_run [] b = []"
| "ipb_run (now # ts) b = (case ipb_Allow now b of None \<Rightarrow> [] | Some (ok, b') \<Rightarrow> ok # ipb_run ts b')"

text \<open>
  A client that keeps asking is never let through again. Once a bucket is empty, and as long as the requests of its address come less than a window
  apart, every one of them is refused, however much time passes in all: the refill is
  counted from the last request, not from the last refill.
\<close>

theorem chatty_client_starves:
  assumes "ib_tokens b \<le> 0" "0 < ib_window b" "sorted (ib_lastRefill b # ts)"
    "list_all2 (\<lambda>x y. y - x < ib_window b) (butlast (ib_lastRefill b # ts)) ts"
  shows "ipb_run ts b = replicate (length ts) False"
  using assms
proof (induction ts arbitrary: b)
  case (Cons now ts)
  have g: "0 \<le> now - ib_lastRefill b" "now - ib_lastRefill b < ib_window b" using Cons.prems(3,4) by auto
  then have "go_div (now - ib_lastRefill b) (ib_window b) = 0" by (auto simp: go_div_def)
  then have a: "ipb_Allow now b = Some (False, b\<lparr>ib_lastRefill := now\<rparr>)" using Cons.prems(1,2) by (simp add: ipb_Allow_def Let_def)
  have "ipb_run ts (b\<lparr>ib_lastRefill := now\<rparr>) = replicate (length ts) False"
    using Cons.prems by (intro Cons.IH) (auto split: if_splits)
  then show ?case using a by simp
qed simp

text \<open>
  What the second server serves. With API keys configured, a request outside the four health and readiness paths gets an answer other than 401 and
  429 only if it carries one of the keys, or a bearer token the validator accepts.
\<close>

theorem served_is_authorized:
  assumes "hs_apiKeys s \<noteq> []" "buildHandler E now q s = (Some r, s')" "fst r \<notin> {401, 429}"
    "hr_Path q \<notin> {''/healthz'', ''/health'', ''/readyz'', ''/ready''}"
  shows "hr_APIKey q \<noteq> [] \<and> hr_APIKey q \<in> set (hs_apiKeys s) \<or>
    (\<exists>tok c. hr_Auth q = ''Bearer '' @ tok \<and> hv_jwt_secret E \<noteq> [] \<and>
       Validate (hv_jwt E) (Some (hv_jwt_secret E)) (hv_wall E) tok = Inr c)"
proof -
  have "validateAPIKey E s q"
    using assms by (auto simp: buildHandler_def Let_def rateLimitMiddleware_def authMiddleware_def split: if_splits prod.splits limiting.splits)
  then show ?thesis
    by (auto simp: validateAPIKey_def list_ex_iff ValidatorFromEnv_def NewValidator_def trim_prefix_def prefix_def
        split: option.splits if_splits sum.splits)
qed

text \<open>The address that is limited depends on no header unless proxies are trusted.\<close>

lemma limited_address_unforgeable:
  "hv_trust_proxy E \<noteq> ''1'' \<Longrightarrow> getClientIP E (q\<lparr>hr_XFF := x, hr_XRealIP := y\<rparr>) = getClientIP E q"
  by (simp add: getClientIP_def split: option.split)

text \<open>
  Beyond ten minutes the sweeper forgets: with a window of an hour, an address that has used up its rate and then keeps quiet for more than
  ten minutes has its bucket removed, and the next request is let through.
\<close>

lemma sweeper_resets_long_windows:
  "fst (let_through ''a'' [LReq 1 ''a'', LReq 2 ''a'', LSweep (11 * 60 * 10 ^ 9), LReq (11 * 60 * 10 ^ 9 + 1) ''a'']
     (hs_New (\<lambda>_. []) [hs_WithRateLimit 1 (3600 * 10 ^ 9)])) = [1, 11 * 60 * 10 ^ 9 + 1]"
  by (simp add: hs_New_def hs_WithRateLimit_def limit_check_def ipb_Allow_def newIpBucket_def lastSeenLocked_def go_div_def
      limiter_sweep_def limiterIdleTTL_def maxRateLimiters_def Let_def)

text \<open>The health endpoint answers 200 exactly when every check passes, and names each of them.\<close>

lemma health_exact:
  "fst (handleHealth E s) = 200 \<longleftrightarrow> (\<forall>c \<in> set (hs_checks s). hv_check E (snd c) = None)"
  "hs_checks s \<noteq> [] \<Longrightarrow> \<exists>rs. snd (handleHealth E s) = BJson rs \<and> map fst rs = map fst (hs_checks s)"
  by (simp_all add: handleHealth_def Let_def list_all_iff case_prod_beta comp_def)

text \<open>Certificates given to the server are used by \<^verbatim>\<open>Start\<close> only.\<close>

lemma listen_ignores_tls:
  "c \<noteq> [] \<Longrightarrow> k \<noteq> [] \<Longrightarrow> hs_ListenAndServe (hs_New getenv [hs_WithTLSFiles c k]) = ListenPlain '':9090'' \<and>
    hs_Start (hs_New getenv [hs_WithTLSFiles c k]) = ListenTLS '':9090'' c k"
  by (simp add: hs_ListenAndServe_def hs_Start_def hs_New_def hs_WithTLSFiles_def Let_def)

section \<open>Witnesses\<close>

definition wit_http_server :: "(unit, unit) httpServer" where
  "wit_http_server = hs_New (\<lambda>_. []) [hs_WithRateLimit 1 5, hs_WithAPIKeys [''k'']]"

theorem ip_rate_bound_witness:
  "\<exists>s'. let_through ''a'' [LReq 1 ''a'', LReq 2 ''a'', LReq 3 ''b'', LReq 9 ''a''] wit_http_server = ([1, 9], s') \<and>
     int (length (filter (\<lambda>a. 1 \<le> a \<and> a < 1 + 5) [1, 9 :: int])) \<le> 1"
proof -
  let ?es = "[LReq 1 ''a'', LReq 2 ''a'', LReq 3 ''b'', LReq 9 ''a'']"
  have f: "hs_rateLimiters wit_http_server = []" "hs_rateLimit wit_http_server = 1" "hs_rateLimitWin wit_http_server = 5"
    by (simp_all add: wit_http_server_def hs_New_def hs_WithRateLimit_def hs_WithAPIKeys_def Let_def)
  have "fst (let_through ''a'' ?es wit_http_server) = [1, 9]"
    by (simp add: f limit_check_def ipb_Allow_def newIpBucket_def lastSeenLocked_def go_div_def maxRateLimiters_def wrap64_def Let_def)
  then obtain s' where l: "let_through ''a'' ?es wit_http_server = ([1, 9], s')" by (metis prod.collapse)
  from ip_rate_bound [OF f(1) _ _ _ _ this, of 1] f l show ?thesis by simp
qed

theorem chatty_client_starves_witness:
  "ipb_run [3, 6, 9, 12] \<lparr>ib_tokens = 0, ib_lastRefill = 0, ib_lastSeen = 0, ib_rate = 1, ib_window = 5\<rparr> = [False, False, False, False]"
  using chatty_client_starves [of "\<lparr>ib_tokens = 0, ib_lastRefill = 0, ib_lastSeen = 0, ib_rate = 1, ib_window = 5\<rparr>" "[3, 6, 9, 12]"]
  by (simp add: eval_nat_numeral)

definition wit_http_env :: "unit http_env" where
  "wit_http_env = \<lparr>hv_check = (\<lambda>_. None), hv_snapshot = [], hv_jwt = wit_jwt, hv_jwt_secret = [], hv_wall = (0, 0), hv_trust_proxy = [],
     hv_show_dur = (\<lambda>_. [])\<rparr>"

definition wit_http_req :: http_req where
  "wit_http_req = \<lparr>hr_Path = ''/info'', hr_APIKey = ''k'', hr_Auth = [], hr_RemoteAddr = ''1.2.3.4:5'', hr_XFF = [], hr_XRealIP = []\<rparr>"

theorem served_is_authorized_witness:
  "hr_APIKey wit_http_req \<in> set (hs_apiKeys wit_http_server)"
proof -
  obtain r s' where b: "buildHandler wit_http_env 1 wit_http_req wit_http_server = (Some r, s')" "fst r = 200"
    by (simp add: buildHandler_def wit_http_server_def hs_New_def hs_WithRateLimit_def hs_WithAPIKeys_def Let_def rateLimitMiddleware_def
        limit_check_def ipb_Allow_def newIpBucket_def lastSeenLocked_def go_div_def maxRateLimiters_def authMiddleware_def validateAPIKey_def
        wit_http_req_def copyRoutes_def handleInfo_def)
  have "hs_apiKeys wit_http_server \<noteq> []" by (simp add: wit_http_server_def hs_New_def hs_WithRateLimit_def hs_WithAPIKeys_def Let_def)
  from served_is_authorized [OF this b(1)] b(2) show ?thesis by (simp add: wit_http_req_def wit_http_env_def)
qed

end
