(* ===== verification/Dashboard.thy ===== *)
theory Dashboard
  imports Tool_Catalog Review_Hub Pause_Control Crew_Checkpoint
begin

text \<open>
  The web dashboard, \<^verbatim>\<open>pkg/dashboard/dashboard.go\<close>: its bearer tokens and the protection against cross-site requests, the
  handlers that stage agents, tasks and connections in the dynamic registry (\<open>Review_Hub\<close>), pause and resume execution (\<open>Pause_Control\<close>),
  and the feeds of its web sockets.

  Environment variables, URL parsing, decoding of request bodies and the construction of memory stores are parameters. A value the
  registry points to is in a heap of objects. A reply that never comes (the handler panics or waits for a lock) is \<open>None\<close>.
\<close>

section \<open>Requests\<close>

record dash_req =
  dq_Path :: string
  dq_Method :: string
  dq_Auth :: string
  dq_token :: string
  dq_Origin :: string
  dq_Referer :: string
  dq_Host :: string
  dq_ContentType :: string
  dq_ContentLength :: int
  dq_Body :: string

record agent_form =
  af_Role :: string
  af_Goal :: string
  af_Backstory :: string
  af_Provider :: string
  af_LLMModel :: string
  af_APIKey :: string
  af_MaxRPM :: int
  af_Memory :: string
  af_ConnectionString :: string
  af_Tools :: "string list"
  af_AllowDelegation :: bool
  af_SelfHealing :: bool
  af_Index :: "int option"

record task_form =
  tf_Description :: string
  tf_AgentRole :: string
  tf_ExpectedOutput :: string
  tf_AsyncExecution :: bool
  tf_Timeout :: int
  tf_Index :: "int option"

record mcp_form =
  mf_Name :: string
  mf_Command :: string
  mf_Args :: "string list"
  mf_Index :: "int option"

record a2a_form =
  bf_Sender :: string
  bf_Receiver :: string
  bf_Model :: string
  bf_Index :: "int option"

text \<open>The client of an agent, with its key and, where it is passed on, the model; and the store of its memory.\<close>

datatype llm_spec =
    OpenAISpec string
  | AnthropicSpec string string
  | GeminiSpec string string
  | OpenRouterSpec string string
  | GroqSpec string string

datatype mem_spec = SQLiteSpec string | ChromaSpec string | PineconeSpec string string | QdrantSpec string | RedisSpec string

record 'm dash_env =
  de_getenv :: "string \<Rightarrow> string"
  de_jwt :: jwtenv
  de_wall :: gotime
  de_net :: netenv
  de_agent :: "string \<Rightarrow> agent_form result"
  de_task :: "string \<Rightarrow> task_form result"
  de_mcp :: "string \<Rightarrow> mcp_form result"
  de_a2a :: "string \<Rightarrow> a2a_form result"
  de_review :: "string \<Rightarrow> (string \<times> bool) result"
  de_delete :: "string \<Rightarrow> (string \<times> int) result"
  de_config :: "string \<Rightarrow> string result"
  de_marshals :: "(string \<times> entry list) list \<times> string \<Rightarrow> bool"
  de_newstore :: "mem_spec \<Rightarrow> 'm option"
  de_tools :: tool_env
  de_registry :: "tool_inst registry"

section \<open>Who may ask\<close>

definition dash_token :: "'m dash_env \<Rightarrow> string" where
  "dash_token E = (if de_getenv E ''DASHBOARD_AUTH_TOKEN'' = [] then de_getenv E ''API_AUTH_TOKEN'' else de_getenv E ''DASHBOARD_AUTH_TOKEN'')"

abbreviation dash_read_token :: "'m dash_env \<Rightarrow> string" where
  "dash_read_token E \<equiv> de_getenv E ''DASHBOARD_READ_TOKEN''"

definition dashboardAuthConfigured :: "'m dash_env \<Rightarrow> bool" where
  "dashboardAuthConfigured E \<longleftrightarrow>
     de_getenv E ''DASHBOARD_AUTH_TOKEN'' \<noteq> [] \<or> de_getenv E ''API_AUTH_TOKEN'' \<noteq> [] \<or>
     dash_read_token E \<noteq> [] \<or> ValidatorFromEnv (de_getenv E ''JWT_SECRET'') \<noteq> None"

definition admin_bearer :: "'m dash_env \<Rightarrow> string \<Rightarrow> bool" where
  "admin_bearer E a \<longleftrightarrow> dash_token E \<noteq> [] \<and> a \<noteq> [] \<and> a = ''Bearer '' @ dash_token E"

definition jwt_bearer :: "'m dash_env \<Rightarrow> string \<Rightarrow> bool" where
  "jwt_bearer E a \<longleftrightarrow> has_prefix a ''Bearer '' \<and>
     (case ValidatorFromEnv (de_getenv E ''JWT_SECRET'') of
        None \<Rightarrow> False
      | Some v \<Rightarrow> is_ok (Validate (de_jwt E) (Some v) (de_wall E) (trim_prefix a ''Bearer '')))"

definition read_bearer :: "'m dash_env \<Rightarrow> string \<Rightarrow> bool" where
  "read_bearer E a \<longleftrightarrow> dash_read_token E \<noteq> [] \<and> a \<noteq> [] \<and> a = ''Bearer '' @ dash_read_token E"

definition same_host :: "'m dash_env \<Rightarrow> string \<Rightarrow> dash_req \<Rightarrow> bool" where
  "same_host E raw q \<longleftrightarrow> (case ne_parse (de_net E) raw of Inl e \<Rightarrow> False | Inr u \<Rightarrow> to_lower (u_Host u) = to_lower (dq_Host q))"

definition sameOrigin :: "'m dash_env \<Rightarrow> dash_req \<Rightarrow> bool" where
  "sameOrigin E q \<longleftrightarrow>
     (if dq_Origin q = [] then (if dq_Referer q \<noteq> [] then same_host E (dq_Referer q) q else True)
      else same_host E (dq_Origin q) q)"

type_synonym dash_status = "nat \<times> string"

definition media_type :: "string \<Rightarrow> string" where
  "media_type ct = trim_space (takeWhile (\<lambda>c. c \<noteq> CHR '';'') ct)"

definition csrf_check :: "'m dash_env \<Rightarrow> dash_req \<Rightarrow> dash_status option" where
  "csrf_check E q =
     (if \<not> has_prefix (dq_Path q) ''/api/'' then None
      else if dq_Method q \<in> {''POST'', ''PUT'', ''PATCH'', ''DELETE''} then
        (if \<not> sameOrigin E q then Some (403, ''forbidden: cross-origin request'')
         else if dq_ContentLength q \<noteq> 0 \<and> media_type (dq_ContentType q) \<noteq> ''application/json''
         then Some (415, ''unsupported media type: application/json required'')
         else None)
      else None)"

definition auth_check :: "'m dash_env \<Rightarrow> dash_req \<Rightarrow> dash_status option" where
  "auth_check E q =
     (if \<not> dashboardAuthConfigured E then csrf_check E q
      else if \<not> has_prefix (dq_Path q) ''/api/'' then None
      else if admin_bearer E (dq_Auth q) then csrf_check E q
      else if jwt_bearer E (dq_Auth q) then csrf_check E q
      else if read_bearer E (dq_Auth q) then
        (if dq_Method q \<in> {''GET'', ''HEAD'', ''OPTIONS''} then None else Some (403, ''forbidden: read-only token''))
      else Some (401, ''unauthorized''))"

definition wsAuthorized :: "'m dash_env \<Rightarrow> dash_req \<Rightarrow> bool" where
  "wsAuthorized E q \<longleftrightarrow>
     (let a = (if dq_Auth q = [] \<and> dq_token q \<noteq> [] then ''Bearer '' @ dq_token q else dq_Auth q)
      in admin_bearer E a \<or> jwt_bearer E a \<or> read_bearer E a)"

text \<open>The check of the origin of a web socket.\<close>

definition CheckOrigin :: "'m dash_env \<Rightarrow> dash_req \<Rightarrow> bool" where
  "CheckOrigin E q \<longleftrightarrow>
     (let v = de_getenv E ''DASHBOARD_ALLOWED_ORIGINS'' in
      if v \<noteq> [] then list_ex (\<lambda>allowed. to_lower (trim_space allowed) = to_lower (dq_Origin q)) (split_byte CHR '','' v)
      else if dq_Origin q = [] then True
      else same_host E (dq_Origin q) q)"

section \<open>The state behind the handlers\<close>

record 'm dash_agent =
  dg_Role :: string
  dg_Goal :: string
  dg_Backstory :: string
  dg_Provider :: string
  dg_LLMModel :: string
  dg_LLM :: llm_spec
  dg_MaxRPM :: int
  dg_AllowDelegation :: bool
  dg_SelfHealing :: bool
  dg_Verbose :: bool
  dg_Memory :: "'m option"
  dg_Tools :: "tool_inst list"

record dash_task =
  dt_Description :: string
  dt_AgentRole :: string
  dt_ExpectedOutput :: string
  dt_AsyncExecution :: bool
  dt_Timeout :: int

datatype 'm dash_obj = OAgent "'m dash_agent" | OTask dash_task | OMCP string

record 'm dash_state =
  ds_heap :: "'m dash_obj list"
  ds_registry :: DynamicRegistry
  ds_exec :: ExecutionController
  ds_submits :: "(string \<times> bool) list"

datatype dash_body =
    DText string
  | DAgent agent_form
  | DTask task_form
  | DMCP mcp_form
  | DA2A a2a_form
  | DNames "string list"
  | DEntities "(string \<times> entry list) list \<times> string"

type_synonym dash_reply = "nat \<times> dash_body"

definition method_not_allowed :: dash_reply where
  "method_not_allowed = (405, DText ''Method not allowed'')"

section \<open>The handlers\<close>

definition handleReview :: "'m dash_env \<Rightarrow> dash_req \<Rightarrow> 'm dash_state \<Rightarrow> dash_reply \<times> 'm dash_state" where
  "handleReview E q s =
     (if dq_Method q \<noteq> ''POST'' then (method_not_allowed, s)
      else (case de_review E (dq_Body q) of
              Inl e \<Rightarrow> ((400, DText (err_text e)), s)
            | Inr (rid, approved) \<Rightarrow> ((200, DText ''ok''), s\<lparr>ds_submits := ds_submits s @ [(rid, approved)]\<rparr>)))"

definition handleStart :: "dash_req \<Rightarrow> 'm dash_state \<Rightarrow> (dash_reply \<times> 'm dash_state) option" where
  "handleStart q s =
     (if dq_Method q \<noteq> ''POST'' then Some (method_not_allowed, s)
      else map_option (\<lambda>x. ((200, DText ''started''), s\<lparr>ds_exec := x\<rparr>)) (Resume_exec (ds_exec s)))"

definition handleStop :: "dash_req \<Rightarrow> 'm dash_state \<Rightarrow> (dash_reply \<times> 'm dash_state) option" where
  "handleStop q s =
     (if dq_Method q \<noteq> ''POST'' then Some (method_not_allowed, s)
      else map_option (\<lambda>x. ((200, DText ''stopped''), s\<lparr>ds_exec := x\<rparr>)) (Pause (ds_exec s)))"

definition or_env :: "'m dash_env \<Rightarrow> string \<Rightarrow> string \<Rightarrow> string" where
  "or_env E key var = (if key = [] then de_getenv E var else key)"

definition form_client :: "'m dash_env \<Rightarrow> agent_form \<Rightarrow> llm_spec" where
  "form_client E r =
     (let p = to_lower (af_Provider r); key = or_env E (af_APIKey r) in
      if p = ''openai'' then OpenAISpec (key ''OPENAI_API_KEY'')
      else if p = ''anthropic'' then AnthropicSpec (key ''ANTHROPIC_API_KEY'') (af_LLMModel r)
      else if p \<in> {''google_gemini'', ''google gemini'', ''gemini''} then GeminiSpec (key ''GEMINI_API_KEY'') (af_LLMModel r)
      else if p = ''openrouter'' then OpenRouterSpec (key ''OPENROUTER_API_KEY'') (af_LLMModel r)
      else if p = ''groq'' then GroqSpec (key ''GROQ_API_KEY'') (af_LLMModel r)
      else OpenAISpec (key ''OPENAI_API_KEY''))"

text \<open>The file of a SQLite store; \<open>None\<close> is the refusal.\<close>

definition sqlite_path :: "'m dash_env \<Rightarrow> string \<Rightarrow> string option" where
  "sqlite_path E conn =
     (if conn = [] then Some ''memory.db''
      else if length conn > 128 \<or> is_rooted conn \<or> str_contains conn ''..'' \<or>
        set conn \<inter> {CHR ''/'', CHR 0x5C, CHR ''?'', CHR ''#'', CHR ''%'', CHR '':''} \<noteq> {} \<or> path_clean conn \<noteq> conn \<or> path_Base conn \<noteq> conn
      then None
      else Some (path_join (if de_getenv E ''DASHBOARD_DATA_DIR'' = [] then ''.'' else de_getenv E ''DASHBOARD_DATA_DIR'') conn))"

text \<open>\<open>None\<close>: the request is refused; otherwise the store, when there is one and it could be made.\<close>

definition form_memory :: "'m dash_env \<Rightarrow> agent_form \<Rightarrow> 'm option option" where
  "form_memory E r =
     (let conn = af_ConnectionString r in
      if af_Memory r = ''SQLite (Local)'' then map_option (\<lambda>p. de_newstore E (SQLiteSpec p)) (sqlite_path E conn)
      else if af_Memory r = ''ChromaDB'' then Some (de_newstore E (ChromaSpec conn))
      else if af_Memory r = ''Pinecone (Vector)'' then Some (de_newstore E (PineconeSpec conn (af_APIKey r)))
      else if af_Memory r = ''Qdrant (Vector)'' then Some (de_newstore E (QdrantSpec conn))
      else if af_Memory r = ''Remote (REST/gRPC)'' then Some (de_newstore E (RedisSpec conn))
      else Some None)"

definition form_tools :: "'m dash_env \<Rightarrow> string list \<Rightarrow> tool_inst list" where
  "form_tools E names =
     concat (map (\<lambda>n. case reg_Get n (de_registry E) of
                        Inr t \<Rightarrow> [t]
                      | Inl e \<Rightarrow> (case CreateTool (de_tools E) n Map.empty of Inr t \<Rightarrow> [t] | Inl e \<Rightarrow> [])) names)"

text \<open>A new object is put on the heap and into the registry: added, or in the place of the given index.\<close>

definition stage :: "'m dash_obj \<Rightarrow> (entry \<Rightarrow> DynamicRegistry \<Rightarrow> DynamicRegistry) \<Rightarrow> 'm dash_state \<Rightarrow> 'm dash_state" where
  "stage x put s = s\<lparr>ds_heap := ds_heap s @ [x], ds_registry := put (EObj (length (ds_heap s))) (ds_registry s)\<rparr>"

definition handleCreateAgent :: "'m dash_env \<Rightarrow> dash_req \<Rightarrow> 'm dash_state \<Rightarrow> dash_reply \<times> 'm dash_state" where
  "handleCreateAgent E q s =
     (if dq_Method q \<noteq> ''POST'' then (method_not_allowed, s)
      else (case de_agent E (dq_Body q) of
              Inl e \<Rightarrow> ((400, DText (err_text e)), s)
            | Inr r \<Rightarrow>
                (case form_memory E r of
                   None \<Rightarrow> ((400, DText ''invalid sqlite path: basename only''), s)
                 | Some mem \<Rightarrow>
                     let agent = \<lparr>dg_Role = af_Role r, dg_Goal = af_Goal r, dg_Backstory = af_Backstory r, dg_Provider = af_Provider r,
                                  dg_LLMModel = af_LLMModel r, dg_LLM = form_client E r, dg_MaxRPM = af_MaxRPM r,
                                  dg_AllowDelegation = af_AllowDelegation r, dg_SelfHealing = af_SelfHealing r, dg_Verbose = True,
                                  dg_Memory = mem, dg_Tools = form_tools E (af_Tools r)\<rparr>;
                         put = (case af_Index r of Some i \<Rightarrow> UpdateAgent i | None \<Rightarrow> (\<lambda>x. AddAgent x True))
                     in ((200, DAgent r), stage (OAgent agent) put s))))"

definition handleCreateTask :: "'m dash_env \<Rightarrow> dash_req \<Rightarrow> 'm dash_state \<Rightarrow> dash_reply \<times> 'm dash_state" where
  "handleCreateTask E q s =
     (if dq_Method q \<noteq> ''POST'' then (method_not_allowed, s)
      else (case de_task E (dq_Body q) of
              Inl e \<Rightarrow> ((400, DText (err_text e)), s)
            | Inr r \<Rightarrow>
                let t = \<lparr>dt_Description = tf_Description r, dt_AgentRole = tf_AgentRole r, dt_ExpectedOutput = tf_ExpectedOutput r,
                         dt_AsyncExecution = tf_AsyncExecution r, dt_Timeout = sint (word_of_int (tf_Timeout r * 10 ^ 9) :: 64 word)\<rparr>;
                    put = (case tf_Index r of Some i \<Rightarrow> UpdateTask i | None \<Rightarrow> (\<lambda>x. AddTask x True))
                in ((200, DTask r), stage (OTask t) put s)))"

definition handleCreateMCP :: "'m dash_env \<Rightarrow> dash_req \<Rightarrow> 'm dash_state \<Rightarrow> dash_reply \<times> 'm dash_state" where
  "handleCreateMCP E q s =
     (if dq_Method q \<noteq> ''POST'' then (method_not_allowed, s)
      else (case de_mcp E (dq_Body q) of
              Inl e \<Rightarrow> ((400, DText (err_text e)), s)
            | Inr r \<Rightarrow>
                (case ValidateURL (de_net E) 0 (mf_Command r) of
                   Inl e \<Rightarrow> ((400, DText ''blocked MCP server URL''), s)
                 | Inr u \<Rightarrow>
                     ((200, DMCP r),
                      stage (OMCP (mf_Command r)) (case mf_Index r of Some i \<Rightarrow> UpdateMCP i | None \<Rightarrow> (\<lambda>x. AddMCPClient x True)) s))))"

definition handleCreateA2A :: "'m dash_env \<Rightarrow> dash_req \<Rightarrow> 'm dash_state \<Rightarrow> dash_reply \<times> 'm dash_state" where
  "handleCreateA2A E q s =
     (if dq_Method q \<noteq> ''POST'' then (method_not_allowed, s)
      else (case de_a2a E (dq_Body q) of
              Inl e \<Rightarrow> ((400, DText (err_text e)), s)
            | Inr r \<Rightarrow>
                let bridge = EMap [(''sender'', VString (bf_Sender r)), (''receiver'', VString (bf_Receiver r)), (''model'', VString (bf_Model r))]
                in ((200, DA2A r),
                    s\<lparr>ds_registry := (case bf_Index r of Some i \<Rightarrow> UpdateA2A i bridge | None \<Rightarrow> AddA2ABridge bridge True) (ds_registry s)\<rparr>)))"

text \<open>Deleting may panic (see \<open>Review_Hub\<close>).\<close>

definition handleDeleteEntity :: "'m dash_env \<Rightarrow> dash_req \<Rightarrow> 'm dash_state \<Rightarrow> (dash_reply \<times> 'm dash_state) option" where
  "handleDeleteEntity E q s =
     (if dq_Method q \<noteq> ''POST'' then Some (method_not_allowed, s)
      else (case de_delete E (dq_Body q) of
              Inl e \<Rightarrow> Some ((400, DText (err_text e)), s)
            | Inr (kind, i) \<Rightarrow>
                (let del = (if kind = ''agent'' then Some (DeleteAgent i) else if kind = ''task'' then Some (DeleteTask i)
                            else if kind = ''mcp'' then Some (DeleteMCP i) else if kind = ''a2a'' then Some (DeleteA2A i) else None)
                 in (case del of
                       None \<Rightarrow> Some ((400, DText ''Invalid entity type''), s)
                     | Some f \<Rightarrow>
                         (case f (ds_registry s) of
                            (reg, panic) \<Rightarrow> if panic then None else Some ((200, DText ''deleted''), s\<lparr>ds_registry := reg\<rparr>))))))"

definition handleUpdateConfig :: "'m dash_env \<Rightarrow> dash_req \<Rightarrow> 'm dash_state \<Rightarrow> dash_reply \<times> 'm dash_state" where
  "handleUpdateConfig E q s =
     (if dq_Method q \<noteq> ''POST'' then (method_not_allowed, s)
      else (case de_config E (dq_Body q) of
              Inl e \<Rightarrow> ((400, DText (err_text e)), s)
            | Inr p \<Rightarrow> ((200, DText ''updated''), s\<lparr>ds_registry := SetProcessType p (ds_registry s)\<rparr>)))"

definition handleListMemoryProviders :: dash_reply where
  "handleListMemoryProviders =
     (200, DNames [''SQLite (Local)'', ''Pinecone (Vector)'', ''Qdrant (Vector)'', ''ChromaDB'', ''Remote (REST/gRPC)''])"

definition handleListProviders :: dash_reply where
  "handleListProviders = (200, DNames [''OpenAI'', ''Anthropic'', ''Google Gemini'', ''OpenRouter'', ''Groq'', ''Ollama'', ''Custom''])"

definition handleListTools :: "'m dash_env \<Rightarrow> dash_reply" where
  "handleListTools E = (200, DNames (reg_ListNames (de_registry E)))"

definition handleListAll :: "'m dash_env \<Rightarrow> 'm dash_state \<Rightarrow> dash_reply" where
  "handleListAll E s =
     (let d = ListAll (ds_registry s) in
      if de_marshals E d then (200, DEntities d) else (500, DText ''Internal Server Error: Failed to generate entity list''))"

text \<open>The routes behind the guard. Static files and the web socket (below) change nothing here.\<close>

definition dash_routes :: "'m dash_env \<Rightarrow> dash_req \<Rightarrow> 'm dash_state \<Rightarrow> (dash_reply \<times> 'm dash_state) option" where
  "dash_routes E q s =
     (let path = dq_Path q in
      if path = ''/api/review'' then Some (handleReview E q s)
      else if path = ''/api/start'' then handleStart q s
      else if path = ''/api/stop'' then handleStop q s
      else if path = ''/api/create/agent'' then Some (handleCreateAgent E q s)
      else if path = ''/api/create/task'' then Some (handleCreateTask E q s)
      else if path = ''/api/create/mcp'' then Some (handleCreateMCP E q s)
      else if path = ''/api/create/a2a'' then Some (handleCreateA2A E q s)
      else if path = ''/api/config'' then Some (handleUpdateConfig E q s)
      else if path = ''/api/tools'' then Some (handleListTools E, s)
      else if path = ''/api/memory'' then Some (handleListMemoryProviders, s)
      else if path = ''/api/providers'' then Some (handleListProviders, s)
      else if path = ''/api/list'' then Some (handleListAll E s, s)
      else if path = ''/api/delete'' then handleDeleteEntity E q s
      else if has_prefix path ''/web-ui/'' then Some ((200, DText path), s)
      else Some ((404, DText ''404 page not found''), s))"

definition dash_serve :: "'m dash_env \<Rightarrow> dash_req \<Rightarrow> 'm dash_state \<Rightarrow> (dash_reply \<times> 'm dash_state) option" where
  "dash_serve E q s =
     (case auth_check E q of Some (code, msg) \<Rightarrow> Some ((code, DText msg), s) | None \<Rightarrow> dash_routes E q s)"

section \<open>The web socket\<close>

text \<open>
  Connections are numbers. \<open>ws_conns\<close> remembers the request a connection was opened with, \<open>ws_sent\<close> what was written to
  whom; both only record what happened. Which writes fail is an argument.
\<close>

record 'v dash_event =
  ev_Type :: string
  ev_Payload :: 'v

record 'v WSServer =
  ws_metrics :: "nat list"
  ws_review :: "nat list"
  ws_conns :: "nat \<rightharpoonup> dash_req"
  ws_sent :: "(nat \<times> 'v dash_event) list"

definition NewWSServer :: "'v WSServer" where
  "NewWSServer = \<lparr>ws_metrics = [], ws_review = [], ws_conns = Map.empty, ws_sent = []\<rparr>"

text \<open>A request for a socket: refused, or connection \<open>k\<close> is in one of the feeds.\<close>

definition handleConnections :: "'m dash_env \<Rightarrow> dash_req \<Rightarrow> nat \<Rightarrow> 'v WSServer \<Rightarrow> 'v WSServer" where
  "handleConnections E q k w =
     (if dashboardAuthConfigured E \<and> \<not> wsAuthorized E q then w
      else if \<not> CheckOrigin E q then w
      else let w1 = w\<lparr>ws_conns := (ws_conns w)(k \<mapsto> q)\<rparr> in
        if wsAuthorized E q \<or> \<not> dashboardAuthConfigured E
        then w1\<lparr>ws_review := ws_review w @ [k]\<rparr> else w1\<lparr>ws_metrics := ws_metrics w @ [k]\<rparr>)"

definition ws_gone :: "nat \<Rightarrow> 'v WSServer \<Rightarrow> 'v WSServer" where
  "ws_gone k w = w\<lparr>ws_review := filter (\<lambda>c. c \<noteq> k) (ws_review w), ws_metrics := filter (\<lambda>c. c \<noteq> k) (ws_metrics w)\<rparr>"

text \<open>One event of the telemetry bus: to the review feed, and to the other one unless it is a review.\<close>

definition handleMessages :: "(nat \<Rightarrow> bool) \<Rightarrow> 'v dash_event \<Rightarrow> 'v WSServer \<Rightarrow> 'v WSServer" where
  "handleMessages fails e w =
     (let w1 = w\<lparr>ws_sent := ws_sent w @ map (\<lambda>k. (k, e)) (filter (\<lambda>k. \<not> fails k) (ws_review w)),
                 ws_metrics := filter (\<lambda>k. \<not> (k \<in> set (ws_review w) \<and> fails k)) (ws_metrics w),
                 ws_review := filter (\<lambda>k. \<not> fails k) (ws_review w)\<rparr>
      in if ev_Type e \<noteq> ''review_requested''
         then w1\<lparr>ws_sent := ws_sent w1 @ map (\<lambda>k. (k, e)) (filter (\<lambda>k. \<not> fails k) (ws_metrics w1)),
                 ws_metrics := filter (\<lambda>k. \<not> fails k) (ws_metrics w1)\<rparr>
         else w1)"

text \<open>The metrics of the process go to both feeds; failing writes are ignored.\<close>

definition publishMetrics :: "'v dash_event \<Rightarrow> 'v dash_event \<Rightarrow> 'v WSServer \<Rightarrow> 'v WSServer" where
  "publishMetrics e sandbox w =
     w\<lparr>ws_sent := ws_sent w @ concat (map (\<lambda>k. [(k, e), (k, sandbox)]) (ws_review w @ ws_metrics w))\<rparr>"

inductive ws_step :: "'m dash_env \<Rightarrow> 'v WSServer \<Rightarrow> 'v WSServer \<Rightarrow> bool" for E where
  ws_connect: "ws_conns w k = None \<Longrightarrow> ws_step E w (handleConnections E q k w)"
| ws_close: "ws_step E w (ws_gone k w)"
| ws_event: "ws_step E w (handleMessages fails e w)"
| ws_tick: "ws_step E w (publishMetrics e sandbox w)"

abbreviation ws_reach :: "'m dash_env \<Rightarrow> 'v WSServer \<Rightarrow> bool" where
  "ws_reach E w \<equiv> (ws_step E)\<^sup>*\<^sup>* NewWSServer w"

definition ws_admitted :: "'m dash_env \<Rightarrow> 'v WSServer \<Rightarrow> nat \<Rightarrow> bool" where
  "ws_admitted E w k \<longleftrightarrow> (\<exists>q. ws_conns w k = Some q \<and> CheckOrigin E q \<and> (dashboardAuthConfigured E \<longrightarrow> wsAuthorized E q))"

definition ws_inv :: "'m dash_env \<Rightarrow> 'v WSServer \<Rightarrow> bool" where
  "ws_inv E w \<longleftrightarrow> ws_metrics w = [] \<and> (\<forall>k \<in> set (ws_review w) \<union> fst ` set (ws_sent w). ws_admitted E w k)"

lemma ws_inv_step: "ws_step E w w' \<Longrightarrow> ws_inv E w \<Longrightarrow> ws_inv E w'"
proof (induction rule: ws_step.induct)
  case (ws_connect w k q)
  then show ?case by (fastforce simp: ws_inv_def ws_admitted_def handleConnections_def Let_def)
next
  case (ws_close w k)
  then show ?case by (auto simp: ws_inv_def ws_admitted_def ws_gone_def)
next
  case (ws_event w fails e)
  then show ?case by (auto simp: ws_inv_def ws_admitted_def handleMessages_def Let_def)
next
  case (ws_tick w e sandbox)
  then show ?case by (auto simp: ws_inv_def ws_admitted_def publishMetrics_def)
qed

lemma ws_inv_reach: "ws_reach E w \<Longrightarrow> ws_inv E w"
proof (induction rule: rtranclp_induct)
  case base
  show ?case by (simp add: ws_inv_def NewWSServer_def)
next
  case (step y z)
  then show ?case using ws_inv_step by blast
qed

section \<open>Properties\<close>


text \<open>Handlers that change anything want POST, and a POST meets the guard.\<close>

lemma routes_change:
  assumes "dash_routes E q s = Some (r, s')" "s' \<noteq> s"
  shows "dq_Method q = ''POST'' \<and> has_prefix (dq_Path q) ''/api/''"
proof (rule ccontr)
  assume n: "\<not> ?thesis"
  have "s' = s"
  proof (cases "dq_Method q = ''POST''")
    case False
    then show ?thesis using assms(1)
      by (simp add: dash_routes_def Let_def handleReview_def handleStart_def handleStop_def handleCreateAgent_def handleCreateTask_def
          handleCreateMCP_def handleCreateA2A_def handleUpdateConfig_def handleDeleteEntity_def split: if_splits)
  next
    case True
    with n have "\<not> has_prefix (dq_Path q) ''/api/''" by simp
    then have "dq_Path q \<noteq> ''/api/'' @ x" for x by (metis prefixI)
    from this [of "''review''"] this [of "''start''"] this [of "''stop''"] this [of "''create/agent''"] this [of "''create/task''"]
      this [of "''create/mcp''"] this [of "''create/a2a''"] this [of "''config''"] this [of "''delete''"]
    show ?thesis using assms(1) by (simp add: dash_routes_def Let_def split: if_splits)
  qed
  with assms(2) show False by simp
qed

text \<open>
  C37: Changes are authorised and not forged. A request that changes anything behind the dashboard (the staged entities, a review decision, whether execution
  is paused) is a POST whose origin, if a browser gave one, is the dashboard itself, with a JSON body or none; and with authentication
  configured it carries the admin token or a valid JWT: the read-only token changes nothing.
\<close>

theorem changes_are_authorised:
  assumes "dash_serve E q s = Some (r, s')" "s' \<noteq> s"
  shows "dq_Method q = ''POST'' \<and> sameOrigin E q \<and> (dq_ContentLength q = 0 \<or> media_type (dq_ContentType q) = ''application/json'') \<and>
    (\<not> dashboardAuthConfigured E \<or> admin_bearer E (dq_Auth q) \<or> jwt_bearer E (dq_Auth q))"
proof -
  have a: "auth_check E q = None" "dash_routes E q s = Some (r, s')"
    using assms by (auto simp: dash_serve_def split: option.splits prod.splits)
  have m: "dq_Method q = ''POST''" "has_prefix (dq_Path q) ''/api/''" using routes_change [OF a(2) assms(2)] by simp_all
  then have c: "csrf_check E q = None \<and> (\<not> dashboardAuthConfigured E \<or> admin_bearer E (dq_Auth q) \<or> jwt_bearer E (dq_Auth q))"
    using a(1) by (auto simp: auth_check_def split: if_splits)
  then have "sameOrigin E q" "dq_ContentLength q = 0 \<or> media_type (dq_ContentType q) = ''application/json''"
    using m by (auto simp: csrf_check_def split: if_splits)
  with m c show ?thesis by simp
qed

text \<open>
  A memory file stays in the data directory. A SQLite file named in a request is accepted only if its path is the data directory followed by that name,
  which has neither separators nor the syntax of a URI.
\<close>

theorem sqlite_path_confined:
  assumes "sqlite_path E conn = Some p" "conn \<notin> {[], ''.''}" "clean_base (de_getenv E ''DASHBOARD_DATA_DIR'')"
  shows "p = de_getenv E ''DASHBOARD_DATA_DIR'' @ ''/'' @ conn \<and> set conn \<inter> {CHR ''/'', CHR 0x5C, CHR ''?'', CHR ''#'', CHR ''%'', CHR '':''} = {} \<and>
    conn \<noteq> ''..'' \<and> length conn \<le> 128"
proof -
  let ?d = "de_getenv E ''DASHBOARD_DATA_DIR''"
  have c: "set conn \<inter> {CHR ''/'', CHR 0x5C, CHR ''?'', CHR ''#'', CHR ''%'', CHR '':''} = {}" "\<not> str_contains conn ''..''"
      "length conn \<le> 128" "path_clean conn = conn"
      "p = path_join (if ?d = [] then ''.'' else ?d) conn"
    using assms(1,2) by (auto simp: sqlite_path_def split: if_splits)
  have "conn \<noteq> ''..''" using c(2) by auto
  moreover have "?d \<noteq> []" using assms(3) by (auto simp: clean_base_def is_rooted_def)
  moreover have "file_name conn" using c(1) assms(2) \<open>conn \<noteq> ''..''\<close> by (auto simp: file_name_def)
  ultimately show ?thesis using path_join_base [OF assms(3)] c by simp
qed

text \<open>A read-only token opens the feed with the reviews; and a request for an index that does not exist is answered as a success.\<close>

lemma read_token_sees_reviews:
  "dash_read_token E \<noteq> [] \<Longrightarrow> dq_Auth q = ''Bearer '' @ dash_read_token E \<Longrightarrow> CheckOrigin E q \<Longrightarrow>
   k \<in> set (ws_review (handleConnections E q k w))"
  by (simp add: handleConnections_def wsAuthorized_def read_bearer_def Let_def)

lemma update_out_of_range_reported_created:
  assumes "dq_Method q = ''POST''" "de_task E (dq_Body q) = Inr r" "tf_Index r = Some i" "i < 0 \<or> int (length (sh_items (dr_Tasks (ds_registry s)))) \<le> i"
  shows "fst (handleCreateTask E q s) = (200, DTask r)" "ds_registry (snd (handleCreateTask E q s)) = ds_registry s"
  using assms by (auto simp: handleCreateTask_def stage_def UpdateTask_def Update_at_def Let_def)

text \<open>A URL that fails the check is not registered.\<close>

lemma mcp_registered_checked:
  assumes "handleCreateMCP E q s = ((200, b), s')"
  shows "\<exists>r u. de_mcp E (dq_Body q) = Inr r \<and> ValidateURL (de_net E) 0 (mf_Command r) = Inr u \<and> ds_heap s' = ds_heap s @ [OMCP (mf_Command r)]"
  using assms by (auto simp: handleCreateMCP_def method_not_allowed_def stage_def split: if_splits sum.splits)

section \<open>Witnesses\<close>

definition wit_dash_env :: "unit dash_env" where
  "wit_dash_env =
     \<lparr>de_getenv = (\<lambda>v. if v = ''DASHBOARD_AUTH_TOKEN'' then ''t'' else if v = ''DASHBOARD_DATA_DIR'' then ''/d'' else []),
      de_jwt = wit_jwt, de_wall = (0, 0), de_net = wit_net, de_agent = (\<lambda>_. Inl (EMsg [])), de_task = (\<lambda>_. Inl (EMsg [])),
      de_mcp = (\<lambda>_. Inl (EMsg [])), de_a2a = (\<lambda>_. Inl (EMsg [])), de_review = (\<lambda>b. Inr (b, True)), de_delete = (\<lambda>_. Inl (EMsg [])),
      de_config = Inr, de_marshals = (\<lambda>_. True), de_newstore = (\<lambda>_. None),
      de_tools = \<lparr>te_getenv = (\<lambda>_. []), te_sql_open = (\<lambda>_. None), te_sql_ping = (\<lambda>_. None)\<rparr>, de_registry = []\<rparr>"

definition wit_dash_req :: "string \<Rightarrow> dash_req" where
  "wit_dash_req path =
     \<lparr>dq_Path = path, dq_Method = ''POST'', dq_Auth = ''Bearer t'', dq_token = [], dq_Origin = [], dq_Referer = [], dq_Host = ''h'',
      dq_ContentType = ''application/json'', dq_ContentLength = 2, dq_Body = ''r1''\<rparr>"


theorem changes_are_authorised_witness:
  "\<exists>(s :: unit dash_state) r s'. dash_serve wit_dash_env (wit_dash_req ''/api/review'') s = Some (r, s') \<and> ds_submits s' = [(''r1'', True)] \<and>
     admin_bearer wit_dash_env (dq_Auth (wit_dash_req ''/api/review''))"
proof -
  let ?s = "\<lparr>ds_heap = [], ds_registry = GlobalDynamicRegistry, ds_exec = xc_init, ds_submits = []\<rparr> :: unit dash_state"
  let ?q = "wit_dash_req ''/api/review''"
  have "media_type ''application/json'' = ''application/json''" by (simp add: media_type_def trim_space_def is_space_def)
  then have e: "dash_serve wit_dash_env ?q ?s = Some ((200, DText ''ok''), ?s\<lparr>ds_submits := [(''r1'', True)]\<rparr>)"
    by (simp add: dash_serve_def auth_check_def csrf_check_def dashboardAuthConfigured_def admin_bearer_def dash_token_def sameOrigin_def
        dash_routes_def handleReview_def wit_dash_env_def wit_dash_req_def)
  have j: "\<not> jwt_bearer wit_dash_env (dq_Auth ?q)" by (simp add: jwt_bearer_def ValidatorFromEnv_def wit_dash_env_def)
  have c: "dashboardAuthConfigured wit_dash_env" by (simp add: dashboardAuthConfigured_def wit_dash_env_def)
  have "admin_bearer wit_dash_env (dq_Auth ?q)" using changes_are_authorised [OF e] j c by simp
  then show ?thesis using e by (intro exI [of _ ?s] exI conjI) (assumption | simp)+
qed

theorem sqlite_path_confined_witness:
  "sqlite_path wit_dash_env ''m.db'' = Some ''/d/m.db''"
proof -
  obtain p where p: "sqlite_path wit_dash_env ''m.db'' = Some p"
    by (simp add: sqlite_path_def is_rooted_def path_clean_def clean_stack_def clean_step_def render_path_def path_Base_def comps_def wit_dash_env_def
        sublist_Cons_right)
  have "clean_base (de_getenv wit_dash_env ''DASHBOARD_DATA_DIR'')"
    by (simp add: wit_dash_env_def clean_base_def path_clean_def is_rooted_def clean_stack_def clean_step_def render_path_def)
  from sqlite_path_confined [OF p _ this] p show ?thesis by (simp add: wit_dash_env_def)
qed

end
