(* ===== verification/App_Config.thy ===== *)
theory App_Config
  imports LLM_Client
begin

text \<open>
  Configuration: the file \<^verbatim>\<open>config.json\<close> with the variables in it expanded (\<^verbatim>\<open>pkg/config/config.go\<close>), the clients made from it
  (\<^verbatim>\<open>pkg/config/registry.go\<close>), and the connection settings of Redis-like stores (\<^verbatim>\<open>pkg/kv/conn.go\<close>).

  Reading the file, decoding JSON, durations, the environment and the providers themselves are parameters. The package variables are a
  record of the state; a nil pointer to a configuration is \<open>None\<close>.
\<close>

section \<open>Expansion of variables\<close>

text \<open>\<^verbatim>\<open>os.ExpandEnv\<close>: \<open>getShellName\<close> gives the name after a dollar sign and how many bytes it takes.\<close>

definition shell_special :: "char \<Rightarrow> bool" where
  "shell_special c \<longleftrightarrow> c \<in> set ''*#$@!?-0123456789''"

definition alpha_num :: "char \<Rightarrow> bool" where
  "alpha_num c \<longleftrightarrow> c = CHR ''_'' \<or> (CHR ''0'' \<le> c \<and> c \<le> CHR ''9'') \<or> (CHR ''a'' \<le> c \<and> c \<le> CHR ''z'') \<or> (CHR ''A'' \<le> c \<and> c \<le> CHR ''Z'')"

definition getShellName :: "string \<Rightarrow> string \<times> nat" where
  "getShellName s =
     (if s \<noteq> [] \<and> hd s = CHR ''{'' then
        (if length s > 2 \<and> shell_special (s ! 1) \<and> s ! 2 = CHR ''}'' then ([s ! 1], 3)
         else (let name = takeWhile (\<lambda>c. c \<noteq> CHR ''}'') (tl s) in
           if CHR ''}'' \<notin> set (tl s) then ([], 1) else if name = [] then ([], 2) else (name, length name + 2)))
      else if s \<noteq> [] \<and> shell_special (hd s) then ([hd s], 1)
      else (takeWhile alpha_num s, length (takeWhile alpha_num s)))"

function expand :: "(string \<Rightarrow> string) \<Rightarrow> string \<Rightarrow> string" where
  "expand f [] = []"
| "expand f (c # s) =
     (if c = CHR ''$'' \<and> s \<noteq> [] then
        (case getShellName s of
           (name, w) \<Rightarrow> (if name = [] then (if w > 0 then [] else [c]) else f name) @ expand f (drop w s))
      else c # expand f s)"
  by pat_completeness auto
termination by (relation "measure (\<lambda>(f, s). length s)") auto

section \<open>The configuration\<close>

record LLMConfig =
  lc_DefaultModel :: string
  lc_FailoverModel :: string
  lc_FailoverEnabled :: bool
  lc_MaxRetries :: int
  lc_Timeout :: int
  lc_TimeoutStr :: string
  lc_PricingTTL :: int
  lc_PricingTTLStr :: string
  lc_MaxBudgetUSD :: real

record Provider =
  pv_Name :: string
  pv_BaseURL :: string
  pv_APIKey :: string

record ModelConfig =
  mc_ProviderID :: string
  mc_ModelID :: string
  mc_Name :: string
  mc_PromptPrice :: real
  mc_CompletionPrice :: real

text \<open>The fields the package works on; the others are carried along unread.\<close>

record Config =
  cf_LLM :: LLMConfig
  cf_Providers :: "string \<rightharpoonup> Provider"
  cf_Tools :: gmap
  cf_Models :: "(string \<times> ModelConfig) list"
  cf_ChromaTimeout :: int
  cf_ChromaTimeoutStr :: string
  cf_CheckpointInterval :: int
  cf_CheckpointIntervalStr :: string
  cf_RedisTTL :: int
  cf_RedisTTLStr :: string

definition empty_config :: Config where
  "empty_config =
     \<lparr>cf_LLM = \<lparr>lc_DefaultModel = [], lc_FailoverModel = [], lc_FailoverEnabled = False, lc_MaxRetries = 0, lc_Timeout = 0, lc_TimeoutStr = [],
                lc_PricingTTL = 0, lc_PricingTTLStr = [], lc_MaxBudgetUSD = 0\<rparr>,
      cf_Providers = Map.empty, cf_Tools = Map.empty, cf_Models = [], cf_ChromaTimeout = 0, cf_ChromaTimeoutStr = [],
      cf_CheckpointInterval = 0, cf_CheckpointIntervalStr = [], cf_RedisTTL = 0, cf_RedisTTLStr = []\<rparr>"

record cfg_env =
  cv_getenv :: "string \<Rightarrow> string"
  cv_readFile :: "string \<Rightarrow> string result"
  cv_json :: "string \<Rightarrow> Config \<Rightarrow> Config result"
  cv_duration :: "string \<Rightarrow> int option"
  cv_provider :: "string \<Rightarrow> string \<Rightarrow> string \<Rightarrow> string \<Rightarrow> Client"

text \<open>A client as the registry makes it: bare, hardened, or hardened with a second one to fall back on.\<close>

datatype client_stack = Bare Client | Hardened MiddlewareClient | WithFailover MiddlewareClient Client

record cfg_state =
  cs_once :: bool
  cs_instance :: "Config option"
  cs_llm :: llm_globals
  cs_clients :: "string \<rightharpoonup> client_stack"

definition parseDurationOrDefault :: "cfg_env \<Rightarrow> string \<Rightarrow> int \<Rightarrow> int" where
  "parseDurationOrDefault E raw def =
     (if raw = [] then def else (case cv_duration E raw of Some d \<Rightarrow> d | None \<Rightarrow> def))"

definition second :: int where "second = 10 ^ 9"

definition fix_key :: "cfg_env \<Rightarrow> string \<Rightarrow> Provider \<Rightarrow> Provider" where
  "fix_key E k p =
     (if pv_APIKey p = [] \<or> pv_APIKey p = ''${'' @ upper k @ ''_API_KEY}'' then
        (let v = cv_getenv E (upper k @ ''_API_KEY'') in if v \<noteq> [] then p\<lparr>pv_APIKey := v\<rparr> else p)
      else p)"

definition parse_durations :: "cfg_env \<Rightarrow> Config \<Rightarrow> Config" where
  "parse_durations E c =
     c\<lparr>cf_LLM := (cf_LLM c)\<lparr>lc_Timeout := parseDurationOrDefault E (lc_TimeoutStr (cf_LLM c)) (30 * second),
                            lc_PricingTTL := parseDurationOrDefault E (lc_PricingTTLStr (cf_LLM c)) (3600 * second)\<rparr>,
       cf_ChromaTimeout := parseDurationOrDefault E (cf_ChromaTimeoutStr c) (10 * second),
       cf_CheckpointInterval := parseDurationOrDefault E (cf_CheckpointIntervalStr c) (30 * second),
       cf_RedisTTL := parseDurationOrDefault E (cf_RedisTTLStr c) (24 * 3600 * second)\<rparr>"

definition ParseConfigFile :: "cfg_env \<Rightarrow> string \<Rightarrow> Config result" where
  "ParseConfigFile E path0 =
     (let path = (if path0 = [] then ''config.json'' else path0) in
      case cv_readFile E path of
        Inl e \<Rightarrow> Inl (EWrap ''cannot read configuration file: '' e [])
      | Inr data \<Rightarrow>
          (case cv_json E (expand (cv_getenv E) data) empty_config of
             Inl e \<Rightarrow> Inl (EWrap ''failed to parse configuration file: '' e [])
           | Inr c \<Rightarrow> Inr (parse_durations E (c\<lparr>cf_Providers := (\<lambda>k. map_option (fix_key E k) (cf_Providers c k))\<rparr>))))"

definition install_price :: "string \<times> ModelConfig \<Rightarrow> llm_globals \<Rightarrow> llm_globals" where
  "install_price x g =
     (case x of (name, m) \<Rightarrow>
        if mc_PromptPrice m > 0 \<or> mc_CompletionPrice m > 0
        then SetModelPricing name \<lparr>PromptPricePerToken = mc_PromptPrice m, CompletionPricePerToken = mc_CompletionPrice m\<rparr> g else g)"

definition LoadConfigFile :: "cfg_env \<Rightarrow> string \<Rightarrow> cfg_state \<Rightarrow> Config result \<times> cfg_state" where
  "LoadConfigFile E path s =
     (case ParseConfigFile E path of
        Inl e \<Rightarrow> (Inl e, s)
      | Inr c \<Rightarrow> (Inr c, s\<lparr>cs_llm := fold install_price (cf_Models c) (SetGlobalBudget (lc_MaxBudgetUSD (cf_LLM c)) (cs_llm s))\<rparr>))"

definition loadConfigE :: "cfg_env \<Rightarrow> cfg_state \<Rightarrow> Config result \<times> cfg_state" where
  "loadConfigE E s =
     (let path = (if cv_getenv E ''CREW_CONFIG_PATH'' = [] then ''config.json'' else cv_getenv E ''CREW_CONFIG_PATH'') in
      case LoadConfigFile E path s of
        (Inl e, s1) \<Rightarrow> (Inl e, s1)
      | (Inr c, s1) \<Rightarrow> (Inr c, s1\<lparr>cs_instance := Some c\<rparr>))"

definition cfg_Get :: "cfg_env \<Rightarrow> cfg_state \<Rightarrow> Config option \<times> cfg_state" where
  "cfg_Get E s =
     (if cs_once s then (cs_instance s, s)
      else (case loadConfigE E s of
              (r, s1) \<Rightarrow> let c = (case r of Inr c \<Rightarrow> c | Inl e \<Rightarrow> empty_config)
                         in (Some c, s1\<lparr>cs_once := True, cs_instance := Some c\<rparr>)))"

definition TryGet :: "cfg_env \<Rightarrow> cfg_state \<Rightarrow> (goerr + Config option) \<times> cfg_state" where
  "TryGet E s =
     (if cs_once s then (Inr (cs_instance s), s)
      else (case loadConfigE E s of
              (Inl e, s1) \<Rightarrow> (Inl e, s1\<lparr>cs_once := True, cs_instance := None\<rparr>)
            | (Inr c, s1) \<Rightarrow> (Inr (Some c), s1\<lparr>cs_once := True, cs_instance := Some c\<rparr>)))"

definition GetToolParam :: "Config \<Rightarrow> string \<Rightarrow> string \<Rightarrow> string" where
  "GetToolParam c tool key =
     (case cf_Tools c tool of
        Some (VMap m) \<Rightarrow> (case map_of m key of Some (VString s) \<Rightarrow> s | _ \<Rightarrow> [])
      | _ \<Rightarrow> [])"

section \<open>Clients\<close>

text \<open>The argument is the configuration \<^verbatim>\<open>Get\<close> returns.\<close>

definition createClientForProvider :: "cfg_env \<Rightarrow> Config \<Rightarrow> string \<Rightarrow> string \<Rightarrow> Client result" where
  "createClientForProvider E cfg provider model =
     (case cf_Providers cfg (to_lower provider) of
        None \<Rightarrow> Inl (EMsg (''provider configuration not found for: '' @ provider))
      | Some p \<Rightarrow>
          (let key = (if pv_APIKey p = [] then cv_getenv E (upper provider @ ''_API_KEY'') else pv_APIKey p);
               kind = to_lower provider
           in if kind = ''openai'' then Inr (cv_provider E ''openai'' key [] (pv_BaseURL p))
              else if kind = ''anthropic'' then Inr (cv_provider E ''anthropic'' key model (pv_BaseURL p))
              else if kind = ''google'' \<or> kind = ''gemini'' then Inr (cv_provider E ''gemini'' key model (pv_BaseURL p))
              else if kind = ''openrouter'' then Inr (cv_provider E ''openrouter'' key model (pv_BaseURL p))
              else Inl (EMsg (''unsupported provider: '' @ provider))))"

definition detectAndCreateClient :: "cfg_env \<Rightarrow> Config \<Rightarrow> string \<Rightarrow> Client result" where
  "detectAndCreateClient E cfg model =
     (let lower = to_lower model in
      if str_contains lower ''gpt-'' then createClientForProvider E cfg ''openai'' model
      else if str_contains lower ''claude-'' then createClientForProvider E cfg ''anthropic'' model
      else if str_contains lower ''gemini-'' then createClientForProvider E cfg ''google'' model
      else Inl (EMsg (''unknown model provider for '' @ model @ '': please define in config.json'')))"

text \<open>\<open>None\<close>: the nil configuration is dereferenced.\<close>

definition GetClient :: "cfg_env \<Rightarrow> string \<Rightarrow> cfg_state \<Rightarrow> (client_stack result \<times> cfg_state) option" where
  "GetClient E modelName s =
     (case cs_clients s modelName of
        Some c \<Rightarrow> Some (Inr c, s)
      | None \<Rightarrow>
          (case cfg_Get E s of
             (None, s1) \<Rightarrow> None
           | (Some cfg, s1) \<Rightarrow>
               (let target = (case map_of (cf_Models cfg) modelName of
                    Some m \<Rightarrow> Some (mc_ProviderID m, mc_ModelID m)
                  | None \<Rightarrow> if CHR ''/'' \<in> set modelName
                            then Some (takeWhile (\<lambda>c. c \<noteq> CHR ''/'') modelName, tl (dropWhile (\<lambda>c. c \<noteq> CHR ''/'') modelName))
                            else None)
                in case target of
                     None \<Rightarrow> Some (map_sum id Bare (detectAndCreateClient E cfg modelName), s1)
                   | Some (provider, model) \<Rightarrow>
                       (case createClientForProvider E cfg provider model of
                          Inl e \<Rightarrow> Some (Inl e, s1)
                        | Inr client \<Rightarrow>
                            (let l = cf_LLM cfg;
                                 wrapped = WrapClient client [WithMaxRetries (lc_MaxRetries l), WithTimeout (lc_Timeout l)];
                                 other = (if lc_FailoverEnabled l \<and> lc_FailoverModel l \<noteq> [] \<and> lc_FailoverModel l \<noteq> modelName then
                                            (case map_of (cf_Models cfg) (lc_FailoverModel l) of
                                               None \<Rightarrow> None
                                             | Some m \<Rightarrow> (case createClientForProvider E cfg (mc_ProviderID m) (mc_ModelID m) of
                                                            Inl e \<Rightarrow> None | Inr c2 \<Rightarrow> Some c2))
                                          else None);
                                 stack = (case other of Some c2 \<Rightarrow> WithFailover wrapped c2 | None \<Rightarrow> Hardened wrapped)
                             in Some (Inr stack, s1\<lparr>cs_clients := (cs_clients s1)(modelName \<mapsto> stack)\<rparr>))))))"

section \<open>Redis-like stores\<close>

record kv_config =
  kv_Backend :: string
  kv_Addrs :: "string list"
  kv_Password :: string
  kv_DB :: int
  kv_PoolSize :: int
  kv_DialTimeout :: int

text \<open>\<^verbatim>\<open>strconv.Atoi\<close>.\<close>

definition digit_value :: "char \<Rightarrow> int" where
  "digit_value c = int (of_char c) - 48"

definition Atoi :: "string \<Rightarrow> int option" where
  "Atoi s =
     (let neg = (s \<noteq> [] \<and> hd s = CHR ''-''); ds = (if s \<noteq> [] \<and> (hd s = CHR ''-'' \<or> hd s = CHR ''+'') then tl s else s);
          n = fold (\<lambda>c acc. 10 * acc + digit_value c) ds 0; v = (if neg then - n else n)
      in if ds = [] \<or> \<not> list_all (\<lambda>c. CHR ''0'' \<le> c \<and> c \<le> CHR ''9'') ds \<or> v < - (2 ^ 63) \<or> v \<ge> 2 ^ 63 then None else Some v)"

text \<open>The verb \<^verbatim>\<open>%q\<close>: bytes from \<open>0x80\<close> on are taken as printable.\<close>

definition hex_digit :: "nat \<Rightarrow> char" where
  "hex_digit n = ''0123456789abcdef'' ! n"

definition quote_char :: "char \<Rightarrow> string" where
  "quote_char c =
     (let n = of_char c :: nat; b = CHR 0x5C in
      if c = CHR 0x22 \<or> c = b then [b, c]
      else if n = 7 then [b, CHR ''a''] else if n = 8 then [b, CHR ''b''] else if n = 12 then [b, CHR ''f'']
      else if n = 10 then [b, CHR ''n''] else if n = 13 then [b, CHR ''r''] else if n = 9 then [b, CHR ''t''] else if n = 11 then [b, CHR ''v'']
      else if n < 32 \<or> n = 127 then [b, CHR ''x'', hex_digit (n div 16), hex_digit (n mod 16)]
      else [c])"

definition go_quote :: "string \<Rightarrow> string" where
  "go_quote s = [CHR 0x22] @ concat (map quote_char s) @ [CHR 0x22]"

definition envInt :: "(string \<Rightarrow> string) \<Rightarrow> string \<Rightarrow> int \<Rightarrow> int \<Rightarrow> int \<Rightarrow> int result" where
  "envInt getenv name fallback lo hi =
     (let v = trim_space (getenv name) in
      if v = [] then Inr fallback
      else (case Atoi v of
              None \<Rightarrow> Inl (EMsg (''kv: invalid '' @ name @ '' '' @ go_quote v))
            | Some n \<Rightarrow> if n < lo \<or> n > hi then Inl (EMsg (''kv: invalid '' @ name @ '' '' @ go_quote v)) else Inr n))"

definition ConfigFromEnv :: "(string \<Rightarrow> string) \<Rightarrow> kv_config result" where
  "ConfigFromEnv getenv =
     (let b0 = to_lower (trim_space (getenv ''REDIS_BACKEND'')); backend = (if b0 = [] then ''redis'' else b0) in
      if backend \<notin> {''redis'', ''dragonfly'', ''valkey''}
      then Inl (EMsg (''kv: unsupported REDIS_BACKEND '' @ go_quote backend @ '' (want redis|dragonfly|valkey)''))
      else let v = trim_space (getenv ''REDIS_ADDR'');
               addrs = (if v \<noteq> [] then filter (\<lambda>a. a \<noteq> []) (map trim_space (split_byte CHR '','' v)) else [''localhost:6379''])
        in (case envInt getenv ''REDIS_DB'' 0 0 15 of
              Inl e \<Rightarrow> Inl e
            | Inr db \<Rightarrow>
                (case envInt getenv ''REDIS_POOL_SIZE'' 10 1 500 of
                   Inl e \<Rightarrow> Inl e
                 | Inr pool \<Rightarrow>
                     Inr \<lparr>kv_Backend = backend, kv_Addrs = addrs, kv_Password = getenv ''REDIS_PASSWORD'', kv_DB = db, kv_PoolSize = pool,
                          kv_DialTimeout = 5 * second\<rparr>)))"

text \<open>Connecting: the options handed to the Redis client and the timeout of the ping; \<open>ping\<close> is its outcome.\<close>

definition kv_Dial ::
  "(string list \<times> string \<times> int \<times> int \<Rightarrow> 'c) \<Rightarrow> ('c \<Rightarrow> int \<Rightarrow> goerr option) \<Rightarrow> kv_config \<Rightarrow> 'c result" where
  "kv_Dial client ping cfg =
     (if kv_Addrs cfg = [] then Inl (EMsg ''kv: no addresses configured'')
      else let pool = (if kv_PoolSize cfg \<le> 0 then 10 else kv_PoolSize cfg);
               timeout = (if kv_DialTimeout cfg \<le> 0 then 5 * second else kv_DialTimeout cfg);
               c = client (kv_Addrs cfg, kv_Password cfg, kv_DB cfg, pool)
        in (case ping c timeout of
              Some e \<Rightarrow> Inl (EWrap (''kv: ping '' @ kv_Backend cfg @ '' at '' @ str_join (kv_Addrs cfg) '','' @ '' failed: '') e [])
            | None \<Rightarrow> Inr c))"

section \<open>Properties\<close>

lemma expand_plain: "CHR ''$'' \<notin> set s \<Longrightarrow> expand f s = s"
  by (induction s) auto

lemma expand_append_plain: "CHR ''$'' \<notin> set s \<Longrightarrow> expand f (s @ t) = s @ expand f t"
  by (induction s) auto

lemma shell_name_braced:
  assumes "name \<noteq> []" "CHR ''}'' \<notin> set name" "length name > 1 \<or> \<not> shell_special (hd name)"
  shows "getShellName (CHR ''{'' # name @ CHR ''}'' # t) = (name, length name + 2)"
proof -
  have t: "takeWhile (\<lambda>c. c \<noteq> CHR ''}'') (name @ CHR ''}'' # t) = name"
    using assms(2) by (subst takeWhile_append2) auto
  have n: "\<not> (shell_special ((name @ CHR ''}'' # t) ! 0) \<and> (name @ CHR ''}'' # t) ! 1 = CHR ''}'')"
  proof (cases "length name > 1")
    case True
    then have "(name @ CHR ''}'' # t) ! 1 \<in> set name" by (simp add: nth_append)
    then show ?thesis using assms(2) by auto
  next
    case False
    then show ?thesis using assms(1,3) by (simp add: nth_append hd_conv_nth)
  qed
  obtain a b where ab: "name = a # b" using assms(1) by (cases name) auto
  show ?thesis using t n unfolding ab by (cases b) (auto simp: getShellName_def Let_def split: if_splits)
qed

text \<open>
  A variable in braces is replaced by its value, text without a dollar sign is kept; a dollar sign that
  is not meant as a variable, in a password for instance, is lost with what follows it.
\<close>

lemma expand_variable:
  assumes "CHR ''$'' \<notin> set pre" "name \<noteq> []" "CHR ''}'' \<notin> set name" "length name > 1 \<or> \<not> shell_special (hd name)"
  shows "expand f (pre @ ''${'' @ name @ ''}'' @ t) = pre @ f name @ expand f t"
  using assms(2) expand_append_plain [OF assms(1)] shell_name_braced [OF assms(2-4), of t] by simp

lemma dollars_lost: "expand (\<lambda>_. []) ''pa$$word'' = ''paword''" "expand (\<lambda>_. []) ''a$b1-c'' = ''a-c''"
  by (simp_all add: getShellName_def shell_special_def alpha_num_def less_eq_char_def)

text \<open>
  A configuration that does not load is reported once. When the first \<^verbatim>\<open>TryGet\<close> of a process fails, every later one returns
  no error and no configuration, \<^verbatim>\<open>Get\<close> returns nil although it promises a default, and asking for a client dereferences it.
\<close>

theorem load_error_reported_once:
  assumes "\<not> cs_once s" "TryGet E s = (Inl e, s')"
  shows "TryGet E s' = (Inr None, s') \<and> cfg_Get E s' = (None, s') \<and> (cs_clients s' m = None \<longrightarrow> GetClient E m s' = None)"
proof -
  have "cs_once s'" "cs_instance s' = None" using assms by (auto simp: TryGet_def split: prod.splits sum.splits)
  then show ?thesis by (simp add: TryGet_def cfg_Get_def GetClient_def)
qed

definition cfg0 :: Config where
  "cfg0 = empty_config\<lparr>
     cf_LLM := (cf_LLM empty_config)\<lparr>lc_FailoverEnabled := True, lc_FailoverModel := ''b''\<rparr>,
     cf_Providers := [''openai'' \<mapsto> \<lparr>pv_Name = [], pv_BaseURL = [], pv_APIKey = ''k''\<rparr>],
     cf_Models := [(''a'', \<lparr>mc_ProviderID = ''openai'', mc_ModelID = ''x'', mc_Name = [], mc_PromptPrice = 0, mc_CompletionPrice = 0\<rparr>),
                   (''b'', \<lparr>mc_ProviderID = ''openai'', mc_ModelID = ''y'', mc_Name = [], mc_PromptPrice = 0, mc_CompletionPrice = 0\<rparr>)]\<rparr>"

definition client0 :: Client where
  "client0 = \<lparr>c_Generate = (\<lambda>_ _ _. ([], None)), c_GenerateWithUsage = (\<lambda>_ _ _. ([], None, None)),
     c_GenerateStructured = (\<lambda>_ _ v _. (v, None)), c_StreamGenerate = (\<lambda>_ _ _. (None, None))\<rparr>"

definition env0 :: "string result \<Rightarrow> cfg_env" where
  "env0 file = \<lparr>cv_getenv = (\<lambda>_. []), cv_readFile = (\<lambda>_. file), cv_json = (\<lambda>_ _. Inr cfg0), cv_duration = (\<lambda>_. None),
     cv_provider = (\<lambda>_ _ _ _. client0)\<rparr>"

definition state0 :: cfg_state where
  "state0 = \<lparr>cs_once = False, cs_instance = None,
     cs_llm = \<lparr>builtinPricing = Map.empty, globalCache = None, GlobalUsage = None, globalMaxBudget = 0\<rparr>, cs_clients = Map.empty\<rparr>"

theorem load_error_reported_once_witness:
  "\<exists>e s'. TryGet (env0 (Inl (EMsg ''gone''))) state0 = (Inl e, s') \<and> cfg_Get (env0 (Inl (EMsg ''gone''))) s' = (None, s') \<and>
     GetClient (env0 (Inl (EMsg ''gone''))) ''m'' s' = None"
proof -
  let ?E = "env0 (Inl (EMsg ''gone''))"
  let ?e = "EWrap ''cannot read configuration file: '' (EMsg ''gone'') []"
  have t: "TryGet ?E state0 = (Inl ?e, state0\<lparr>cs_once := True, cs_instance := None\<rparr>)"
    by (simp add: TryGet_def loadConfigE_def LoadConfigFile_def ParseConfigFile_def env0_def state0_def)
  have o: "\<not> cs_once state0" "cs_clients (state0\<lparr>cs_once := True, cs_instance := None\<rparr>) ''m'' = None" by (simp_all add: state0_def)
  from load_error_reported_once [OF o(1) t, of "''m''"] o(2) t show ?thesis by blast
qed

text \<open>Once \<^verbatim>\<open>Get\<close> has been called first, it never returns nil.\<close>

lemma get_keeps:
  "cs_once s \<Longrightarrow> cfg_Get E s = (cs_instance s, s)"
  "\<not> cs_once s \<Longrightarrow> cfg_Get E s = (c, s') \<Longrightarrow> c \<noteq> None \<and> cs_once s' \<and> cs_instance s' = c \<and> cs_clients s' = cs_clients s"
  by (auto simp: cfg_Get_def loadConfigE_def LoadConfigFile_def Let_def split: prod.splits sum.splits)

text \<open>Parsing changes nothing; loading installs the budget of the file, and prices for the models that have one.\<close>

lemma load_installs_budget:
  assumes "LoadConfigFile E path s = (Inr c, s')"
  shows "globalMaxBudget (cs_llm s') = lc_MaxBudgetUSD (cf_LLM c)" "cs_instance s' = cs_instance s" "cs_clients s' = cs_clients s"
proof -
  have "globalMaxBudget (fold install_price ms g) = globalMaxBudget g" for ms g
    by (induction ms arbitrary: g) (auto simp: install_price_def SetModelPricing_def)
  then show "globalMaxBudget (cs_llm s') = lc_MaxBudgetUSD (cf_LLM c)" "cs_instance s' = cs_instance s" "cs_clients s' = cs_clients s"
    using assms by (auto simp: LoadConfigFile_def SetGlobalBudget_def split: sum.splits)
qed

text \<open>The clients made so far, by a run of requests for clients.\<close>

fun get_clients :: "cfg_env \<Rightarrow> string list \<Rightarrow> cfg_state \<Rightarrow> cfg_state option" where
  "get_clients E [] s = Some s"
| "get_clients E (m # ms) s = (case GetClient E m s of None \<Rightarrow> None | Some (r, s1) \<Rightarrow> get_clients E ms s1)"

definition failover_ok :: "cfg_state \<Rightarrow> bool" where
  "failover_ok s \<longleftrightarrow> (\<forall>m w c. cs_clients s m = Some (WithFailover w c) \<longrightarrow>
     cs_once s \<and> (\<exists>cfg. cs_instance s = Some cfg \<and> lc_FailoverEnabled (cf_LLM cfg) \<and> lc_FailoverModel (cf_LLM cfg) \<noteq> m \<and>
       lc_FailoverModel (cf_LLM cfg) \<in> fst ` set (cf_Models cfg)))"

lemma get_client_config:
  assumes "GetClient E m s = Some (r, s')" "cs_clients s m = None"
  obtains cfg where "cfg_Get E s = (Some cfg, snd (cfg_Get E s))" "cs_once s'" "cs_instance s' = Some cfg"
    "cs_clients s' = cs_clients s \<or> (\<exists>st. cs_clients s' = (cs_clients s)(m \<mapsto> st) \<and>
       (\<forall>w c. st = WithFailover w c \<longrightarrow> lc_FailoverEnabled (cf_LLM cfg) \<and> lc_FailoverModel (cf_LLM cfg) \<noteq> m \<and>
          lc_FailoverModel (cf_LLM cfg) \<in> fst ` set (cf_Models cfg)))"
proof -
  obtain o1 s1 where g: "cfg_Get E s = (o1, s1)" by fastforce
  then obtain cfg where c: "o1 = Some cfg" using assms by (cases o1) (auto simp: GetClient_def)
  have k: "cs_once s1" "cs_instance s1 = Some cfg" "cs_clients s1 = cs_clients s"
    using g c get_keeps(1) [of s E] get_keeps(2) [of s E o1 s1] by (cases "cs_once s"; simp)+
  have has: "k \<in> fst ` set ms" if "map_of ms k = Some x" for k ms and x :: ModelConfig
    using map_of_SomeD [OF that] by force
  have "cs_clients s' = cs_clients s \<or> (\<exists>st. cs_clients s' = (cs_clients s)(m \<mapsto> st) \<and>
       (\<forall>w c. st = WithFailover w c \<longrightarrow> lc_FailoverEnabled (cf_LLM cfg) \<and> lc_FailoverModel (cf_LLM cfg) \<noteq> m \<and>
          lc_FailoverModel (cf_LLM cfg) \<in> fst ` set (cf_Models cfg)))"
    "cs_once s' \<and> cs_instance s' = Some cfg"
    using assms g c k by (auto simp: GetClient_def Let_def has split: option.splits sum.splits if_splits prod.splits)
  then show ?thesis using that g c by auto
qed

lemma failover_ok_step:
  assumes "failover_ok s" "GetClient E m s = Some (r, s')"
  shows "failover_ok s'"
proof (cases "cs_clients s m")
  case (Some st)
  then show ?thesis using assms by (auto simp: GetClient_def)
next
  case None
  obtain cfg where c: "cfg_Get E s = (Some cfg, snd (cfg_Get E s))" "cs_once s'" "cs_instance s' = Some cfg"
    "cs_clients s' = cs_clients s \<or> (\<exists>st. cs_clients s' = (cs_clients s)(m \<mapsto> st) \<and>
       (\<forall>w c. st = WithFailover w c \<longrightarrow> lc_FailoverEnabled (cf_LLM cfg) \<and> lc_FailoverModel (cf_LLM cfg) \<noteq> m \<and>
          lc_FailoverModel (cf_LLM cfg) \<in> fst ` set (cf_Models cfg)))" by (rule get_client_config [OF assms(2) None])
  have old: "cs_instance s = Some cfg" if "cs_once s" using c(1) that get_keeps(1) [OF that, of E] by simp
  show ?thesis
    unfolding failover_ok_def
  proof (intro allI impI)
    fix j w d
    assume j: "cs_clients s' j = Some (WithFailover w d)"
    have "lc_FailoverEnabled (cf_LLM cfg) \<and> lc_FailoverModel (cf_LLM cfg) \<noteq> j \<and> lc_FailoverModel (cf_LLM cfg) \<in> fst ` set (cf_Models cfg)"
    proof (cases "cs_clients s j = Some (WithFailover w d)")
      case True
      then show ?thesis using assms(1) old unfolding failover_ok_def by fastforce
    next
      case False
      then show ?thesis using c(4) j by (auto split: if_splits)
    qed
    then show "cs_once s' \<and> (\<exists>cfg. cs_instance s' = Some cfg \<and> lc_FailoverEnabled (cf_LLM cfg) \<and> lc_FailoverModel (cf_LLM cfg) \<noteq> j \<and>
       lc_FailoverModel (cf_LLM cfg) \<in> fst ` set (cf_Models cfg))" using c(2,3) by blast
  qed
qed

text \<open>
  C40: No second provider behind the user's back. In whatever order clients are asked for, one that can fall back on a second provider exists
  only when the loaded configuration enables failover, and the second model is configured and is another one.
\<close>

theorem failover_only_when_enabled:
  assumes "get_clients E ms s = Some s'" "cs_clients s = Map.empty" "cs_clients s' m = Some (WithFailover w c)"
  shows "\<exists>cfg. cs_instance s' = Some cfg \<and> lc_FailoverEnabled (cf_LLM cfg) \<and> lc_FailoverModel (cf_LLM cfg) \<noteq> m \<and>
    lc_FailoverModel (cf_LLM cfg) \<in> fst ` set (cf_Models cfg)"
proof -
  have "failover_ok s \<Longrightarrow> get_clients E ms s = Some s' \<Longrightarrow> failover_ok s'" for s
    by (induction ms arbitrary: s) (auto split: option.splits intro: failover_ok_step)
  moreover have "failover_ok s" using assms(2) by (simp add: failover_ok_def)
  ultimately show ?thesis using assms(1,3) unfolding failover_ok_def by blast
qed

lemma parsed0: "ParseConfigFile (env0 (Inr [])) p = Inr (parse_durations (env0 (Inr [])) (cfg0\<lparr>cf_Providers := (\<lambda>k. map_option (fix_key (env0 (Inr [])) k) (cf_Providers cfg0 k))\<rparr>))"
  by (simp add: ParseConfigFile_def env0_def)

lemma failover_run0:
  "\<exists>s' w. get_clients (env0 (Inr [])) [''a''] state0 = Some s' \<and> cs_clients s' ''a'' = Some (WithFailover w client0)"
proof -
  define E where "E = env0 (Inr [])"
  define c where "c = parse_durations E (cfg0\<lparr>cf_Providers := (\<lambda>k. map_option (fix_key E k) (cf_Providers cfg0 k))\<rparr>)"
  have f: "fix_key E k p = p" for k p by (simp add: E_def fix_key_def env0_def)
  have p: "cf_Providers c ''openai'' = Some \<lparr>pv_Name = [], pv_BaseURL = [], pv_APIKey = ''k''\<rparr>"
    by (simp add: c_def parse_durations_def cfg0_def f)
  have l: "to_lower ''openai'' = ''openai''" by code_simp
  have k: "createClientForProvider E c ''openai'' m = Inr client0" for m
    by (simp add: createClientForProvider_def l p) (simp add: E_def env0_def)
  have m: "map_of (cf_Models c) ''a'' = Some \<lparr>mc_ProviderID = ''openai'', mc_ModelID = ''x'', mc_Name = [], mc_PromptPrice = 0, mc_CompletionPrice = 0\<rparr>"
      "map_of (cf_Models c) ''b'' = Some \<lparr>mc_ProviderID = ''openai'', mc_ModelID = ''y'', mc_Name = [], mc_PromptPrice = 0, mc_CompletionPrice = 0\<rparr>"
      "lc_FailoverEnabled (cf_LLM c)" "lc_FailoverModel (cf_LLM c) = ''b''"
    by (simp_all add: c_def parse_durations_def cfg0_def)
  obtain s1 where g: "cfg_Get E state0 = (Some c, s1)" 
    by (auto simp: cfg_Get_def loadConfigE_def LoadConfigFile_def Let_def state0_def c_def E_def parsed0)
  have "cs_clients state0 ''a'' = None" by (simp add: state0_def)
  then show ?thesis unfolding E_def [symmetric] by (simp add: GetClient_def g m k Let_def)
qed

theorem failover_only_when_enabled_witness:
  "\<exists>s' cfg. get_clients (env0 (Inr [])) [''a''] state0 = Some s' \<and> cs_instance s' = Some cfg \<and> lc_FailoverEnabled (cf_LLM cfg)"
proof -
  obtain s' w where r: "get_clients (env0 (Inr [])) [''a''] state0 = Some s'" "cs_clients s' ''a'' = Some (WithFailover w client0)"
    using failover_run0 by blast
  have e: "cs_clients state0 = Map.empty" by (simp add: state0_def)
  from failover_only_when_enabled [OF r(1) e r(2)] r(1) show ?thesis by blast
qed

text \<open>A model that is recognised by its name only gets a bare client, and a new one each time.\<close>

lemma legacy_clients_bare:
  assumes "cs_clients s m = None" "cfg_Get E s = (Some cfg, s1)" "map_of (cf_Models cfg) m = None" "CHR ''/'' \<notin> set m"
    "GetClient E m s = Some (Inr st, s')"
  shows "(\<exists>c. st = Bare c) \<and> s' = s1"
proof -
  have g: "GetClient E m s = Some (map_sum id Bare (detectAndCreateClient E cfg m), s1)" using assms(1-4) by (simp add: GetClient_def)
  then show ?thesis using assms(5) by (cases "detectAndCreateClient E cfg m") simp_all
qed

lemma trim_space_idem: "trim_space (trim_space s) = trim_space s"
proof -
  have d: "dropWhile P (rev (dropWhile P (rev (dropWhile P s)))) = rev (dropWhile P (rev (dropWhile P s)))" for P :: "char \<Rightarrow> bool" and s
  proof (cases "rev (dropWhile P (rev (dropWhile P s)))")
    case (Cons x xs)
    have "prefix (rev (dropWhile P (rev (dropWhile P s)))) (dropWhile P s)"
      by (metis rev_rev_ident suffix_dropWhile suffix_to_prefix)
    then obtain zs where "dropWhile P s = x # zs" using Cons by (auto simp: prefix_def)
    then have "x = hd (dropWhile P s)" "dropWhile P s \<noteq> []" by simp_all
    then have "\<not> P x" using hd_dropWhile [of P s] by (metis dropWhile_eq_Nil_conv)
    then show ?thesis using Cons by simp
  next
    case Nil
    show ?thesis unfolding Nil by simp
  qed
  have e: "dropWhile P (dropWhile P s) = dropWhile P s" for P :: "char \<Rightarrow> bool" and s by (simp add: dropWhile_idem)
  show ?thesis unfolding trim_space_def d by (simp add: e)
qed

text \<open>
  Connection settings are in range. Settings read from the environment name one of the three backends, a database from 0 to 15, a pool of 1 to
  500 connections and addresses without surrounding white space; there may be no address at all, which \<^verbatim>\<open>Dial\<close> refuses.
\<close>

theorem kv_config_in_range:
  assumes "ConfigFromEnv getenv = Inr c"
  shows "kv_Backend c \<in> {''redis'', ''dragonfly'', ''valkey''} \<and> 0 \<le> kv_DB c \<and> kv_DB c \<le> 15 \<and> 1 \<le> kv_PoolSize c \<and> kv_PoolSize c \<le> 500 \<and>
    list_all (\<lambda>a. a \<noteq> [] \<and> trim_space a = a) (kv_Addrs c) \<and>
    (kv_Addrs c = [] \<longrightarrow> kv_Dial client ping c = Inl (EMsg ''kv: no addresses configured''))"
proof -
  have r: "lo \<le> n \<and> n \<le> hi" if "envInt getenv name fb lo hi = Inr n" "lo \<le> fb" "fb \<le> hi" for name fb lo hi n
    using that by (auto simp: envInt_def Let_def split: if_splits option.splits)
  from assms obtain db pool where d: "envInt getenv ''REDIS_DB'' 0 0 15 = Inr db" "envInt getenv ''REDIS_POOL_SIZE'' 10 1 500 = Inr pool"
      "kv_DB c = db" "kv_PoolSize c = pool" "kv_Backend c \<in> {''redis'', ''dragonfly'', ''valkey''}"
      "kv_Addrs c = (let v = trim_space (getenv ''REDIS_ADDR'') in
         if v \<noteq> [] then filter (\<lambda>a. a \<noteq> []) (map trim_space (split_byte CHR '','' v)) else [''localhost:6379''])"
    unfolding ConfigFromEnv_def Let_def by (auto split: if_splits sum.splits)
  have "list_all (\<lambda>a. a \<noteq> [] \<and> trim_space a = a) (kv_Addrs c)"
    unfolding d(6) by (auto simp: list_all_iff trim_space_idem Let_def) (simp add: trim_space_def is_space_def)
  then show ?thesis using r [OF d(1)] r [OF d(2)] d(3-5) by (simp add: kv_Dial_def)
qed

theorem kv_config_in_range_witness:
  "\<exists>c. ConfigFromEnv ((\<lambda>_. [])(''REDIS_ADDR'' := ''a, b:1,'')) = Inr c \<and> kv_Addrs c = [''a'', ''b:1''] \<and> 1 \<le> kv_PoolSize c"
proof -
  let ?g = "(\<lambda>_. [])(''REDIS_ADDR'' := ''a, b:1,'')"
  have c: "ConfigFromEnv ?g = Inr \<lparr>kv_Backend = ''redis'', kv_Addrs = [''a'', ''b:1''], kv_Password = [], kv_DB = 0, kv_PoolSize = 10, kv_DialTimeout = 5 * second\<rparr>"
    by code_simp
  from kv_config_in_range [OF c] c show ?thesis by auto
qed

end
