(* ===== verification/ADK_Adapter.thy ===== *)
theory ADK_Adapter
  imports App_Config "HOL-Library.AList"
begin

text \<open>
  The adapter to Google's Agent Development Kit (\<^verbatim>\<open>pkg/adk/adapter.go\<close>): contents, the bridge of sessions, the wrapper of an agent with
  tools lent for one run, the bridge of tools, the bridge of state, and the registries.

  The wrapped agent is a concrete \<^verbatim>\<open>*agents.Agent\<close>, whose tools are part of the state, an agent backed by a session, or something else; what an
  agent or a tool does is a function of the world \<open>'w\<close>. Sessions are numbered, because an adapter and the agent in it may share one. \<open>None\<close> as a
  result is a panic. A nil tool is \<open>None\<close>; the text of a value that is no string is a parameter.
\<close>

section \<open>Contents\<close>

datatype Part = TextPart string | FunctionCallPart string "gmap option" | FunctionResponsePart string string

definition IsText :: "Part \<Rightarrow> bool" where
  "IsText p = (case p of TextPart _ \<Rightarrow> True | _ \<Rightarrow> False)"

definition IsFunctionCall :: "Part \<Rightarrow> bool" where
  "IsFunctionCall p = (case p of FunctionCallPart _ _ \<Rightarrow> True | _ \<Rightarrow> False)"

definition IsFunctionResponse :: "Part \<Rightarrow> bool" where
  "IsFunctionResponse p = (case p of FunctionResponsePart _ _ \<Rightarrow> True | _ \<Rightarrow> False)"

definition sprint_v :: "(gvalue \<Rightarrow> string) \<Rightarrow> gvalue \<Rightarrow> string" where
  "sprint_v fmt_v v = (case v of VString s \<Rightarrow> s | _ \<Rightarrow> fmt_v v)"

definition text_parts :: "Part list \<Rightarrow> string list" where
  "text_parts ps = concat (map (\<lambda>p. case p of TextPart t \<Rightarrow> [t] | _ \<Rightarrow> []) ps)"

definition ContentToGocInput :: "Part list option \<Rightarrow> string" where
  "ContentToGocInput content =
     (case content of
        None \<Rightarrow> []
      | Some ps \<Rightarrow>
          (let parts = text_parts ps in
           if parts = [] then []
           else let joined = str_join parts [CHR 0x0A] in if length joined > 20000 then take 20000 joined else joined))"

definition GocResultToContent :: "(gvalue \<Rightarrow> string) \<Rightarrow> gvalue \<Rightarrow> Part list" where
  "GocResultToContent fmt_v result =
     (let text = sprint_v fmt_v result in [TextPart (if length text > 20000 then take 20000 text else text)])"

definition FunctionCallToArgs :: "(string \<times> gmap option) option \<Rightarrow> gmap option" where
  "FunctionCallToArgs fc = (case fc of None \<Rightarrow> None | Some (name, args) \<Rightarrow> args)"

definition ArgsToFunctionResponse :: "string \<Rightarrow> string \<Rightarrow> Part" where
  "ArgsToFunctionResponse toolName result = FunctionResponsePart toolName result"

section \<open>Tools\<close>

text \<open>A tool of this program and a tool of ADK, with the adapters between them; an ADK tool may lack the method \<^verbatim>\<open>Run\<close>.\<close>

datatype 'w gtool = Native string string bool "gmap \<Rightarrow> 'w \<Rightarrow> string result \<times> 'w" | ADKToolToGoc "'w adktool option"
and 'w adktool = toolAdapter "'w gtool option" | ADKOnly string string bool "(gmap \<Rightarrow> 'w \<Rightarrow> string result \<times> 'w) option"

fun gt_Name :: "'w gtool \<Rightarrow> string option" and at_Name :: "'w adktool \<Rightarrow> string option" where
  "gt_Name (Native n d r f) = Some n"
| "gt_Name (ADKToolToGoc None) = None"
| "gt_Name (ADKToolToGoc (Some t)) = at_Name t"
| "at_Name (toolAdapter None) = None"
| "at_Name (toolAdapter (Some t)) = gt_Name t"
| "at_Name (ADKOnly n d l f) = Some n"

fun gt_Description :: "'w gtool \<Rightarrow> string option" and at_Description :: "'w adktool \<Rightarrow> string option" where
  "gt_Description (Native n d r f) = Some d"
| "gt_Description (ADKToolToGoc None) = None"
| "gt_Description (ADKToolToGoc (Some t)) = at_Description t"
| "at_Description (toolAdapter None) = None"
| "at_Description (toolAdapter (Some t)) = gt_Description t"
| "at_Description (ADKOnly n d l f) = Some d"

definition IsLongRunning :: "'w adktool \<Rightarrow> bool" where
  "IsLongRunning t = (case t of toolAdapter _ \<Rightarrow> False | ADKOnly n d l f \<Rightarrow> l)"

definition RequiresReview :: "'w gtool \<Rightarrow> bool" where
  "RequiresReview t = (case t of Native n d r f \<Rightarrow> r | ADKToolToGoc _ \<Rightarrow> True)"

definition ToolsToADK :: "'w gtool option list \<Rightarrow> 'w adktool list" where
  "ToolsToADK ts = map toolAdapter ts"

text \<open>The method \<^verbatim>\<open>Run\<close> of an ADK tool, where it has one; \<^verbatim>\<open>toolAdapter\<close> has none.\<close>

definition runner :: "'w adktool \<Rightarrow> (gmap \<Rightarrow> 'w \<Rightarrow> string result \<times> 'w) option" where
  "runner t = (case t of toolAdapter _ \<Rightarrow> None | ADKOnly n d l f \<Rightarrow> f)"

definition gt_Execute :: "goerr option \<Rightarrow> 'w gtool \<Rightarrow> gmap \<Rightarrow> 'w \<Rightarrow> (string result \<times> 'w) option" where
  "gt_Execute ctx t input w =
     (case t of
        Native n d r f \<Rightarrow> Some (f input w)
      | ADKToolToGoc None \<Rightarrow> Some (Inl (EMsg ''adk tool adapter: nil inner tool''), w)
      | ADKToolToGoc (Some t1) \<Rightarrow>
          (case runner t1 of
             Some run \<Rightarrow> (case ctx of Some e \<Rightarrow> Some (Inl e, w) | None \<Rightarrow> Some (run input w))
           | None \<Rightarrow>
               (case at_Name t1 of
                  None \<Rightarrow> None
                | Some n \<Rightarrow> Some (Inl (EMsg (''adk tool adapter: tool '' @ go_quote n @ '' has no executable Run method'')), w))))"

section \<open>Sessions\<close>

record ToolCall =
  tc_ID :: string
  tc_ToolName :: string
  tc_Args :: gmap

record ToolResult =
  tr_ToolCallID :: string
  tr_Result :: gvalue
  tr_IsError :: bool

record Event =
  ev_Role :: string
  ev_Content :: string
  ev_ToolCalls :: "ToolCall list"
  ev_ToolResults :: "ToolResult list"

definition ev :: "string \<Rightarrow> string \<Rightarrow> Event" where
  "ev role content = \<lparr>ev_Role = role, ev_Content = content, ev_ToolCalls = [], ev_ToolResults = []\<rparr>"

record SessionBridge =
  sb_ID :: string
  sb_UserID :: string
  sb_state :: "gmap option"
  sb_history :: "Event list"

text \<open>An ADK session is read when the bridge is made; its state may be nil.\<close>

definition NewSessionBridge :: "string \<Rightarrow> string \<Rightarrow> Event list \<Rightarrow> (string \<times> gvalue) list option \<Rightarrow> SessionBridge" where
  "NewSessionBridge ident user events state =
     \<lparr>sb_ID = ident, sb_UserID = user, sb_state = map_option (\<lambda>kvs. fold (\<lambda>(k, v) m. m(k \<mapsto> v)) kvs Map.empty) state, sb_history = events\<rparr>"

definition sb_State :: "SessionBridge \<Rightarrow> gmap" where
  "sb_State sb = (case sb_state sb of None \<Rightarrow> Map.empty | Some m \<Rightarrow> m)"

definition SetState :: "string \<Rightarrow> gvalue \<Rightarrow> SessionBridge \<Rightarrow> SessionBridge option" where
  "SetState key val sb = (case sb_state sb of None \<Rightarrow> None | Some m \<Rightarrow> Some (sb\<lparr>sb_state := Some (m(key \<mapsto> val))\<rparr>))"

definition History :: "SessionBridge \<Rightarrow> Event list" where
  "History sb = sb_history sb"

definition AddEvent :: "Event \<Rightarrow> SessionBridge \<Rightarrow> SessionBridge" where
  "AddEvent e sb = sb\<lparr>sb_history := sb_history sb @ [e]\<rparr>"

definition GetLastUserMessage :: "SessionBridge \<Rightarrow> string option" where
  "GetLastUserMessage sb = map_option ev_Content (find (\<lambda>e. ev_Role e = ''user'') (rev (sb_history sb)))"

definition ClearHistory :: "SessionBridge \<Rightarrow> SessionBridge" where
  "ClearHistory sb = sb\<lparr>sb_history := []\<rparr>"

section \<open>Agents\<close>

record 'w sessionAwareAgent =
  sa_role :: string
  sa_goal :: string
  sa_maxRPM :: int
  sa_tools :: "'w gtool option list"
  sa_execCount :: int

text \<open>The agents: a concrete one is given its tools and may change them; the agent of a session names its bridge.\<close>

datatype 'w core =
    Concrete "'w gtool option list \<Rightarrow> string \<Rightarrow> 'w \<Rightarrow> gvalue result \<times> 'w gtool option list \<times> 'w"
  | SessionCore nat
  | OtherCore "string \<Rightarrow> 'w \<Rightarrow> gvalue result \<times> 'w"

record 'w sys =
  sy_bridges :: "nat \<Rightarrow> SessionBridge"
  sy_tools :: "'w gtool option list"
  sy_agent :: "'w sessionAwareAgent"
  sy_world :: 'w

definition AsAgent :: "SessionBridge \<Rightarrow> 'w sessionAwareAgent" where
  "AsAgent sb = \<lparr>sa_role = sb_UserID sb, sa_goal = ''Process session context'', sa_maxRPM = 0, sa_tools = [], sa_execCount = 0\<rparr>"

definition sa_Equip :: "'w gtool option list \<Rightarrow> 'w sessionAwareAgent \<Rightarrow> 'w sessionAwareAgent" where
  "sa_Equip ts a = a\<lparr>sa_tools := sa_tools a @ ts\<rparr>"

definition GetUsageMetrics :: "'w sessionAwareAgent \<Rightarrow> (string \<times> int) list" where
  "GetUsageMetrics a = [(''executions'', sa_execCount a), (''tools'', int (length (sa_tools a)))]"

definition on_bridge :: "nat \<Rightarrow> Event \<Rightarrow> 'w sys \<Rightarrow> 'w sys" where
  "on_bridge b e s = s\<lparr>sy_bridges := (sy_bridges s)(b := AddEvent e (sy_bridges s b))\<rparr>"

definition sa_Execute :: "goerr option \<Rightarrow> nat \<Rightarrow> string \<Rightarrow> 'w sys \<Rightarrow> gvalue result \<times> 'w sys" where
  "sa_Execute ctx b input0 s =
     (let input = (case GetLastUserMessage (sy_bridges s b) of
                     Some m \<Rightarrow> if trim_space m \<noteq> [] then m else input0 | None \<Rightarrow> input0)
      in if trim_space input = [] then (Inl (EMsg ''adk session agent: input is required''), s)
         else if length input > 20000 then (Inl (EMsg ''adk session agent: input exceeds 20000 character limit''), s)
         else (case ctx of
                 Some e \<Rightarrow> (Inl e, s)
               | None \<Rightarrow> (Inr (VString input),
                   on_bridge b (ev ''assistant'' input) (s\<lparr>sy_agent := (sy_agent s)\<lparr>sa_execCount := sa_execCount (sy_agent s) + 1\<rparr>\<rparr>))))"

definition core_Execute :: "goerr option \<Rightarrow> 'w core \<Rightarrow> string \<Rightarrow> 'w sys \<Rightarrow> gvalue result \<times> 'w sys" where
  "core_Execute ctx c input s =
     (case c of
        Concrete run \<Rightarrow> (case run (sy_tools s) input (sy_world s) of (r, ts, w) \<Rightarrow> (r, s\<lparr>sy_tools := ts, sy_world := w\<rparr>))
      | SessionCore b \<Rightarrow> sa_Execute ctx b input s
      | OtherCore run \<Rightarrow> (case run input (sy_world s) of (r, w) \<Rightarrow> (r, s\<lparr>sy_world := w\<rparr>)))"

record 'w ADKAgent =
  k_agent :: "'w core"
  k_name :: string
  k_desc :: string
  k_session :: "nat option"
  k_toolCache :: "(string \<times> 'w adktool) list"

definition NewADKAgent :: "'w core \<Rightarrow> string \<Rightarrow> string \<Rightarrow> 'w ADKAgent" where
  "NewADKAgent agent role goal = \<lparr>k_agent = agent, k_name = role, k_desc = goal, k_session = None, k_toolCache = []\<rparr>"

definition SetSession :: "nat option \<Rightarrow> 'w ADKAgent \<Rightarrow> 'w ADKAgent" where
  "SetSession b a = a\<lparr>k_session := b\<rparr>"

definition tell :: "'w ADKAgent \<Rightarrow> Event \<Rightarrow> 'w sys \<Rightarrow> 'w sys" where
  "tell a e s = (case k_session a of None \<Rightarrow> s | Some b \<Rightarrow> on_bridge b e s)"

definition adk_Run :: "(gvalue \<Rightarrow> string) \<Rightarrow> goerr option \<Rightarrow> 'w ADKAgent \<Rightarrow> string \<Rightarrow> 'w sys \<Rightarrow> Event result \<times> 'w sys" where
  "adk_Run fmt_v ctx a userInput s =
     (case core_Execute ctx (k_agent a) userInput (tell a (ev ''user'' userInput) s) of
        (Inl e, s1) \<Rightarrow> (Inl (EWrap ''adk adapter: agent execution failed: '' e []), s1)
      | (Inr v, s1) \<Rightarrow> (let event = ev ''assistant'' (sprint_v fmt_v v) in (Inr event, tell a event s1)))"

fun cache_tools :: "'w gtool option list \<Rightarrow> (string \<times> 'w adktool) list \<Rightarrow> (string \<times> 'w adktool) list option" where
  "cache_tools [] c = Some c"
| "cache_tools (None # ts) c = cache_tools ts c"
| "cache_tools (Some t # ts) c =
     (case gt_Name t of None \<Rightarrow> None | Some n \<Rightarrow> cache_tools ts (AList.update n (toolAdapter (Some t)) c))"

definition is_concrete :: "'w core \<Rightarrow> bool" where
  "is_concrete c = (case c of Concrete _ \<Rightarrow> True | _ \<Rightarrow> False)"

definition adk_RunWithTools ::
  "(gvalue \<Rightarrow> string) \<Rightarrow> goerr option \<Rightarrow> 'w ADKAgent \<Rightarrow> string \<Rightarrow> 'w gtool option list \<Rightarrow> 'w sys \<Rightarrow>
     (Event result \<times> 'w ADKAgent) option \<times> 'w sys" where
  "adk_RunWithTools fmt_v ctx a userInput tools s =
     (if length userInput > 20000 then (Some (Inl (EMsg ''adk adapter: input exceeds 20000 character limit''), a), s)
      else if tools \<noteq> [] \<and> \<not> is_concrete (k_agent a)
      then (Some (Inl (EMsg ''adk adapter: temporary tools require an *agents.Agent core''), a), s)
      else (let before = length (sy_tools s);
                s0 = (if tools \<noteq> [] then s\<lparr>sy_tools := sy_tools s @ tools\<rparr> else s)
        in (case adk_Run fmt_v ctx a userInput s0 of
              (r, s1) \<Rightarrow>
                (let s2 = (if tools \<noteq> [] \<and> length (sy_tools s1) \<ge> before then s1\<lparr>sy_tools := take before (sy_tools s1)\<rparr> else s1)
                 in (map_option (\<lambda>c. (r, a\<lparr>k_toolCache := c\<rparr>)) (cache_tools tools (k_toolCache a)), s2)))))"

text \<open>The tools of the cache, in an order of its own choice that the model takes as that of insertion.\<close>

definition GetTools :: "'w ADKAgent \<Rightarrow> 'w gtool option list" where
  "GetTools a = concat (map (\<lambda>(k, t). case t of toolAdapter i \<Rightarrow> [i] | _ \<Rightarrow> []) (k_toolCache a))"

section \<open>State\<close>

text \<open>A store may have a method \<^verbatim>\<open>Recall\<close> and a method \<^verbatim>\<open>Remember\<close> of the right type.\<close>

record 'w mstore =
  st_Recall :: "(string \<Rightarrow> 'w \<Rightarrow> string result \<times> 'w) option"
  st_Remember :: "(string \<Rightarrow> string \<Rightarrow> 'w \<Rightarrow> goerr option \<times> 'w) option"

record 'w memoryStateAdapter =
  ms_store :: "'w mstore option"
  ms_cache :: "(string \<times> gvalue) list"

definition StoreToADKState :: "'w mstore option \<Rightarrow> 'w memoryStateAdapter" where
  "StoreToADKState store = \<lparr>ms_store = store, ms_cache = []\<rparr>"

definition ms_Get :: "string \<Rightarrow> 'w memoryStateAdapter \<Rightarrow> 'w \<Rightarrow> gvalue result \<times> 'w memoryStateAdapter \<times> 'w" where
  "ms_Get key m w =
     (case map_of (ms_cache m) key of
        Some v \<Rightarrow> (Inr v, m, w)
      | None \<Rightarrow>
          (case ms_store m of
             None \<Rightarrow> (Inl (EMsg (''key not found: '' @ key)), m, w)
           | Some st \<Rightarrow>
               (case st_Recall st of
                  None \<Rightarrow> (Inl (EMsg (''key not found: '' @ key)), m, w)
                | Some recall \<Rightarrow>
                    (case recall key w of
                       (Inl e, w1) \<Rightarrow> (Inl (EMsg (''key not found: '' @ key)), m, w1)
                     | (Inr v, w1) \<Rightarrow> (Inr (VString v), m\<lparr>ms_cache := AList.update key (VString v) (ms_cache m)\<rparr>, w1)))))"

definition ms_Set :: "(gvalue \<Rightarrow> string) \<Rightarrow> string \<Rightarrow> gvalue \<Rightarrow> 'w memoryStateAdapter \<Rightarrow> 'w \<Rightarrow> goerr option \<times> 'w memoryStateAdapter \<times> 'w" where
  "ms_Set fmt_v key val m w =
     (if trim_space key = [] then (Some (EMsg ''adk state: key is required''), m, w)
      else let m1 = m\<lparr>ms_cache := AList.update key val (ms_cache m)\<rparr> in
        (case ms_store m of
           None \<Rightarrow> (None, m1, w)
         | Some st \<Rightarrow>
             (case st_Remember st of
                None \<Rightarrow> (None, m1, w)
              | Some remember \<Rightarrow> (None, m1, snd (remember key (sprint_v fmt_v val) w)))))"

definition ms_All :: "'w memoryStateAdapter \<Rightarrow> (string \<times> gvalue) list" where
  "ms_All m = ms_cache m"

section \<open>Registries\<close>

definition ar_Register :: "string \<Rightarrow> 'a \<Rightarrow> (string \<times> 'a) list \<Rightarrow> (string \<times> 'a) list" where
  "ar_Register name agent r = AList.update name agent r"

definition ar_Get :: "string \<Rightarrow> (string \<times> 'a) list \<Rightarrow> 'a option" where
  "ar_Get name r = map_of r name"

definition ar_List :: "(string \<times> 'a) list \<Rightarrow> 'a list" where
  "ar_List r = map snd r"

definition tr_Register :: "string \<Rightarrow> 'w adktool \<Rightarrow> (string \<times> 'w adktool) list \<Rightarrow> (string \<times> 'w adktool) list" where
  "tr_Register name tool r = AList.update name tool r"

definition tr_Get :: "string \<Rightarrow> (string \<times> 'w adktool) list \<Rightarrow> 'w adktool option" where
  "tr_Get name r = map_of r name"

definition tr_List :: "(string \<times> 'w adktool) list \<Rightarrow> 'w adktool list" where
  "tr_List r = map snd r"

section \<open>The store for tests\<close>

record 'i mock_item =
  mi_ID :: string
  mi_body :: 'i

definition mm_Add :: "'i mock_item \<Rightarrow> 'i mock_item list \<Rightarrow> 'i mock_item list" where
  "mm_Add item d = d @ [item]"

definition mm_BulkAdd :: "'i mock_item list \<Rightarrow> 'i mock_item list \<Rightarrow> 'i mock_item list" where
  "mm_BulkAdd items d = d @ items"

fun mm_Delete :: "string \<Rightarrow> 'i mock_item list \<Rightarrow> 'i mock_item list" where
  "mm_Delete x [] = []"
| "mm_Delete x (i # d) = (if mi_ID i = x then d else i # mm_Delete x d)"

definition mm_Search :: "int \<Rightarrow> 'i mock_item list \<Rightarrow> 'i mock_item list option" where
  "mm_Search limit d = (let l = min limit (int (length d)) in if l < 0 then None else Some (take (nat l) d))"

definition mm_Count :: "'i mock_item list \<Rightarrow> int" where
  "mm_Count d = int (length d)"

definition mm_Reset :: "'i mock_item list \<Rightarrow> 'i mock_item list" where
  "mm_Reset d = []"

section \<open>Properties\<close>

lemma on_bridge_simps [simp]:
  "sy_tools (on_bridge b e s) = sy_tools s" "sy_world (on_bridge b e s) = sy_world s" "sy_agent (on_bridge b e s) = sy_agent s"
  "sy_bridges (on_bridge b e s) c = (if c = b then AddEvent e (sy_bridges s b) else sy_bridges s c)"
  by (simp_all add: on_bridge_def)

lemma tell_simps [simp]: "sy_tools (tell a e s) = sy_tools s" "sy_world (tell a e s) = sy_world s"
  by (simp_all add: tell_def split: option.split)

subsection \<open>Contents\<close>

text \<open>What goes in and out is bounded; a result that is passed on as content arrives as the text it is printed as, cut to the bound.\<close>

lemma contents_bounded: "length (ContentToGocInput c) \<le> 20000"
  by (auto simp: ContentToGocInput_def Let_def split: option.split)

lemma result_through_content: "ContentToGocInput (Some (GocResultToContent fmt_v v)) = take 20000 (sprint_v fmt_v v)"
  by (simp add: ContentToGocInput_def GocResultToContent_def text_parts_def Let_def)

lemma only_text_counts: "ContentToGocInput (Some ps) = ContentToGocInput (Some (filter IsText ps))"
proof -
  have "text_parts (filter IsText ps) = text_parts ps"
    by (induction ps) (auto simp: text_parts_def IsText_def split: Part.splits)
  then show ?thesis by (simp add: ContentToGocInput_def)
qed

subsection \<open>Lent tools\<close>

text \<open>A run of an agent that keeps a log of the tools it was given, each seen as \<open>tag\<close> shows it.\<close>

definition recording ::
  "(('w \<times> 't list list) gtool option \<Rightarrow> 't) \<Rightarrow>
     (('w \<times> 't list list) gtool option list \<Rightarrow> string \<Rightarrow> 'w \<Rightarrow> gvalue result \<times> ('w \<times> 't list list) gtool option list \<times> 'w) \<Rightarrow>
     ('w \<times> 't list list) gtool option list \<Rightarrow> string \<Rightarrow> 'w \<times> 't list list \<Rightarrow>
     gvalue result \<times> ('w \<times> 't list list) gtool option list \<times> 'w \<times> 't list list" where
  "recording tag run ts inp wl = (case run ts inp (fst wl) of (r, ts', w) \<Rightarrow> (r, ts', w, snd wl @ [map tag ts]))"

lemma lent_tools_return:
  assumes "k_agent a = Concrete run" "tools \<noteq> []" "length inp \<le> 20000"
    "\<And>ts inp w. prefix ts (fst (snd (run ts inp w)))"
  shows "sy_tools (snd (adk_RunWithTools fmt_v ctx a inp tools s)) = sy_tools s"
proof -
  obtain r ts w where run: "run (sy_tools s @ tools) inp (sy_world s) = (r, ts, w)" by (cases "run (sy_tools s @ tools) inp (sy_world s)") auto
  have p: "prefix (sy_tools s @ tools) ts" using assms(4) [of "sy_tools s @ tools" inp "sy_world s"] run by simp
  then obtain us where "ts = sy_tools s @ us" by (auto simp: prefix_def)
  then show ?thesis
    using assms(1-3) run by (simp add: adk_RunWithTools_def adk_Run_def core_Execute_def is_concrete_def Let_def split: sum.split)
qed

fun invoke_all ::
  "(gvalue \<Rightarrow> string) \<Rightarrow> 'w ADKAgent \<Rightarrow> (goerr option \<times> string \<times> 'w gtool option list) list \<Rightarrow> 'w sys \<Rightarrow> 'w sys" where
  "invoke_all fmt_v a [] s = s"
| "invoke_all fmt_v a ((ctx, inp, tools) # cs) s =
     (case adk_RunWithTools fmt_v ctx a inp tools s of
        (None, s1) \<Rightarrow> invoke_all fmt_v a cs s1
      | (Some (r, a1), s1) \<Rightarrow> invoke_all fmt_v a1 cs s1)"

lemma run_with_tools_core:
  "fst (adk_RunWithTools fmt_v ctx a inp tools s) = Some (r, a1) \<Longrightarrow> k_agent a1 = k_agent a \<and> k_session a1 = k_session a"
  by (auto simp: adk_RunWithTools_def Let_def split: if_splits prod.splits option.splits)

text \<open>
  A lent tool is lent for one run. Over any series of runs with tools, whether they succeed, fail or panic in the bookkeeping, every run works with
  the tools the agent had at first and those of its own caller, and in the end the agent has the tools it had at first. The agent itself
  may only add tools while it runs.
\<close>

theorem grants_are_temporary:
  assumes "k_agent a = Concrete (recording tag run)" "\<And>ts inp w. prefix ts (fst (snd (run ts inp w)))"
    "list_all (\<lambda>(ctx, inp, tools). tools \<noteq> [] \<and> length inp \<le> 20000) calls"
  shows "sy_tools (invoke_all fmt_v a calls s) = sy_tools s \<and>
    snd (sy_world (invoke_all fmt_v a calls s)) = snd (sy_world s) @ map (\<lambda>(ctx, inp, tools). map tag (sy_tools s @ tools)) calls"
  using assms(1,3)
proof (induction calls arbitrary: a s)
  case (Cons c cs)
  obtain ctx inp tools where c: "c = (ctx, inp, tools)" by (cases c) auto
  have t: "tools \<noteq> []" "length inp \<le> 20000" using Cons.prems c by simp_all
  have pre: "prefix ts (fst (snd (recording tag run ts inp wl)))" for ts inp wl
    using assms(2) [of ts inp "fst wl"] by (cases "run ts inp (fst wl)") (simp add: recording_def)
  obtain o1 s1 where r: "adk_RunWithTools fmt_v ctx a inp tools s = (o1, s1)" by fastforce
  have tools: "sy_tools s1 = sy_tools s" using lent_tools_return [OF Cons.prems(1) t pre, of fmt_v ctx s] r by simp
  have log: "snd (sy_world s1) = snd (sy_world s) @ [map tag (sy_tools s @ tools)]"
    using r t Cons.prems(1)
    by (auto simp: adk_RunWithTools_def adk_Run_def core_Execute_def is_concrete_def recording_def Let_def split: sum.splits prod.splits if_splits)
  have all: "list_all (\<lambda>(ctx, inp, tools). tools \<noteq> [] \<and> length inp \<le> 20000) cs" using Cons.prems by simp
  show ?case
  proof (cases o1)
    case None
    then show ?thesis using Cons.IH [OF Cons.prems(1) all, of s1] r c tools log by simp
  next
    case (Some ra)
    obtain r1 a1 where ra: "ra = (r1, a1)" by fastforce
    then have "k_agent a1 = Concrete (recording tag run)"
      using run_with_tools_core [of fmt_v ctx a inp tools s r1 a1] r Some Cons.prems(1) by simp
    from Cons.IH [OF this all, of s1] show ?thesis using r c tools log Some ra by simp
  qed
qed simp

text \<open>An agent that fails when it is given a nil tool, and asked twice.\<close>

definition run0 ::
  "(unit \<times> nat list list) gtool option list \<Rightarrow> string \<Rightarrow> unit \<Rightarrow> gvalue result \<times> (unit \<times> nat list list) gtool option list \<times> unit" where
  "run0 ts inp w = (if None \<in> set ts then Inl (EMsg ''no'') else Inr (VString inp), ts @ [None], w)"

definition tag0 :: "(unit \<times> nat list list) gtool option \<Rightarrow> nat" where
  "tag0 t = (case t of None \<Rightarrow> 0 | Some _ \<Rightarrow> 1)"

definition tool0 :: "'w gtool" where
  "tool0 = Native ''t'' [] False (\<lambda>m w. (Inr [], w))"

definition sys0 :: "'w \<Rightarrow> 'w gtool option list \<Rightarrow> 'w sys" where
  "sys0 w ts = \<lparr>sy_bridges = (\<lambda>_. NewSessionBridge ''s'' ''u'' [] None), sy_tools = ts,
     sy_agent = AsAgent (NewSessionBridge ''s'' ''u'' [] None), sy_world = w\<rparr>"

theorem grants_are_temporary_witness:
  "sy_tools (invoke_all (\<lambda>_. []) (NewADKAgent (Concrete (recording tag0 run0)) [] []) [(None, ''a'', [None]), (None, ''b'', [Some tool0])]
     (sys0 ((), []) [Some tool0])) = [Some tool0] \<and>
   snd (sy_world (invoke_all (\<lambda>_. []) (NewADKAgent (Concrete (recording tag0 run0)) [] []) [(None, ''a'', [None]), (None, ''b'', [Some tool0])]
     (sys0 ((), []) [Some tool0]))) = [[1, 0], [1, 1]]"
proof -
  have p: "prefix ts (fst (snd (run0 ts inp w)))" for ts inp w by (simp add: run0_def)
  have a: "k_agent (NewADKAgent (Concrete (recording tag0 run0)) [] []) = Concrete (recording tag0 run0)" by (simp add: NewADKAgent_def)
  from grants_are_temporary [OF a p, of "[(None, ''a'', [None]), (None, ''b'', [Some tool0])]" "\<lambda>_. []" "sys0 ((), []) [Some tool0]"]
  show ?thesis by (simp add: sys0_def tag0_def)
qed

text \<open>What is observable of the tools is not temporary: the cache keeps the tools of every earlier caller.\<close>

lemma cache_tools_keeps: "cache_tools ts c = Some c' \<Longrightarrow> dom (map_of c) \<subseteq> dom (map_of c')"
proof (induction ts c rule: cache_tools.induct)
  case (3 t ts c)
  then obtain n where n: "gt_Name t = Some n" by (cases "gt_Name t") auto
  then have "dom (map_of (AList.update n (toolAdapter (Some t)) c)) \<subseteq> dom (map_of c')" using 3 by simp
  then show ?case by (auto simp: update_conv')
qed simp_all

lemma grants_stay_visible:
  assumes "fst (adk_RunWithTools fmt_v ctx a inp tools s) = Some (r, a1)"
  shows "dom (map_of (k_toolCache a)) \<subseteq> dom (map_of (k_toolCache a1))"
proof -
  have "a1 = a \<or> cache_tools tools (k_toolCache a) = Some (k_toolCache a1)"
    using assms by (auto simp: adk_RunWithTools_def Let_def split: if_splits prod.splits option.splits)
  then show ?thesis using cache_tools_keeps by blast
qed

text \<open>The bound on the input is that of the runs with tools; the plain run hands any input to the agent.\<close>

lemma only_tools_bound_input:
  assumes "length inp > 20000"
  shows "adk_RunWithTools fmt_v ctx a inp tools s = (Some (Inl (EMsg ''adk adapter: input exceeds 20000 character limit''), a), s)"
    "k_agent a = OtherCore run \<Longrightarrow> run inp (sy_world s) = (Inr v, w) \<Longrightarrow>
       fst (adk_Run fmt_v ctx a inp s) = Inr (ev ''assistant'' (sprint_v fmt_v v))"
  using assms by (simp_all add: adk_RunWithTools_def adk_Run_def core_Execute_def Let_def)

subsection \<open>Sessions\<close>

text \<open>A series of runs in a session, with an agent that is not backed by one.\<close>

fun run_all :: "(gvalue \<Rightarrow> string) \<Rightarrow> goerr option \<Rightarrow> 'w ADKAgent \<Rightarrow> string list \<Rightarrow> 'w sys \<Rightarrow> Event result list \<times> 'w sys" where
  "run_all fmt_v ctx a [] s = ([], s)"
| "run_all fmt_v ctx a (i # is) s =
     (case adk_Run fmt_v ctx a i s of (r, s1) \<Rightarrow> (case run_all fmt_v ctx a is s1 of (rs, s2) \<Rightarrow> (r # rs, s2)))"

definition exchange :: "string \<Rightarrow> Event result \<Rightarrow> Event list" where
  "exchange i r = ev ''user'' i # (case r of Inl e \<Rightarrow> [] | Inr a \<Rightarrow> [a])"

lemma run_once_transcript:
  assumes "k_session a = Some b" "\<forall>c. k_agent a \<noteq> SessionCore c" "adk_Run fmt_v ctx a i s = (r, s1)"
  shows "sb_history (sy_bridges s1 b) = sb_history (sy_bridges s b) @ exchange i r"
  using assms
  by (cases "k_agent a")
    (auto simp: adk_Run_def core_Execute_def tell_def exchange_def AddEvent_def Let_def split: sum.splits prod.splits)

text \<open>
  The session is the transcript. A series of runs in a session adds to its history, for every run in order, what the user said and, when the
  run succeeded, what the agent answered; a failed run leaves its question without an answer.
\<close>

theorem session_is_transcript:
  assumes "k_session a = Some b" "\<forall>c. k_agent a \<noteq> SessionCore c" "run_all fmt_v ctx a is s = (rs, s1)"
  shows "length rs = length is \<and>
    sb_history (sy_bridges s1 b) = sb_history (sy_bridges s b) @ concat (map2 exchange is rs)"
  using assms(3)
proof (induction "is" arbitrary: s rs)
  case (Cons i "is")
  obtain r s2 where r: "adk_Run fmt_v ctx a i s = (r, s2)" by fastforce
  obtain rs2 s3 where rs: "run_all fmt_v ctx a is s2 = (rs2, s3)" by fastforce
  have "rs = r # rs2" "s1 = s3" using Cons.prems r rs by simp_all
  then show ?case using Cons.IH [of s2 rs2] rs run_once_transcript [OF assms(1,2) r] by simp
qed simp

theorem session_is_transcript_witness:
  "sb_history (sy_bridges (snd (run_all (\<lambda>_. []) None (SetSession (Some 0) (NewADKAgent (OtherCore (\<lambda>i w. (if i = ''b'' then Inl (EMsg ''no'') else Inr (VString (i @ i)), w))) [] []))
     [''a'', ''b''] (sys0 () []))) 0) = [ev ''user'' ''a'', ev ''assistant'' ''aa'', ev ''user'' ''b'']"
proof -
  let ?a = "SetSession (Some 0) (NewADKAgent (OtherCore (\<lambda>i w :: unit. (if i = ''b'' then Inl (EMsg ''no'') else Inr (VString (i @ i)), w))) [] [])"
  have a: "k_session ?a = Some 0" "\<forall>c. k_agent ?a \<noteq> SessionCore c" by (simp_all add: SetSession_def NewADKAgent_def)
  obtain rs s1 where r: "run_all (\<lambda>_. []) None ?a [''a'', ''b''] (sys0 () []) = (rs, s1)" by fastforce
  have "rs = [Inr (ev ''assistant'' ''aa''), Inl (EWrap ''adk adapter: agent execution failed: '' (EMsg ''no'') [])]"
    using r by (auto simp: adk_Run_def core_Execute_def SetSession_def NewADKAgent_def sprint_v_def Let_def split: prod.splits)
  with session_is_transcript [OF a r] r show ?thesis by (simp add: exchange_def sys0_def NewSessionBridge_def)
qed

text \<open>
  An adapter around the agent of its own session records every answer twice, and the agent of a session whose history holds a
  question answers that question, whatever it is asked.
\<close>

lemma last_user_after: "GetLastUserMessage (AddEvent (ev ''user'' i) sb) = Some i"
  by (simp add: GetLastUserMessage_def AddEvent_def ev_def)

lemma shared_session_echoes:
  assumes "k_agent a = SessionCore b" "k_session a = Some b" "trim_space i \<noteq> []" "length i \<le> 20000"
  shows "fst (adk_Run fmt_v None a i s) = Inr (ev ''assistant'' i) \<and>
    sb_history (sy_bridges (snd (adk_Run fmt_v None a i s)) b) =
      sb_history (sy_bridges s b) @ [ev ''user'' i, ev ''assistant'' i, ev ''assistant'' i]"
  using assms
  by (simp add: adk_Run_def core_Execute_def sa_Execute_def tell_def last_user_after Let_def sprint_v_def)
    (simp add: AddEvent_def)

lemma session_agent_stale:
  assumes "GetLastUserMessage (sy_bridges s b) = Some m" "trim_space m \<noteq> []" "length m \<le> 20000"
  shows "fst (sa_Execute None b i s) = Inr (VString m)"
  using assms by (simp add: sa_Execute_def Let_def)

text \<open>Setting a value in a session that came without a state panics; otherwise the value is read back.\<close>

lemma SetState_iff:
  "SetState k v (NewSessionBridge i u es st) = None \<longleftrightarrow> st = None"
  "SetState k v sb = Some sb' \<Longrightarrow> sb_State sb' = (sb_State sb)(k \<mapsto> v) \<and> History sb' = History sb"
  by (auto simp: SetState_def NewSessionBridge_def sb_State_def History_def split: option.splits)

subsection \<open>Tools and state\<close>

text \<open>
  A tool of this program that goes to ADK cannot be run there, and one that comes back is refused when it is called: the wrapper
  has no method to run. A tool of ADK runs through its wrapper, after a review.
\<close>

lemma bridged_tools_inert:
  assumes "gt_Name t = Some n"
  shows "runner (toolAdapter (Some t)) = None"
    "gt_Execute ctx (ADKToolToGoc (Some (toolAdapter (Some t)))) input w =
       Some (Inl (EMsg (''adk tool adapter: tool '' @ go_quote n @ '' has no executable Run method'')), w)"
  using assms by (simp_all add: runner_def gt_Execute_def)

lemma adk_tools_run:
  "gt_Execute None (ADKToolToGoc (Some (ADKOnly n d l (Some f)))) input w = Some (f input w)"
  "RequiresReview (ADKToolToGoc t)"
  by (simp_all add: runner_def gt_Execute_def RequiresReview_def)

text \<open>A value that was set is read back and no other changes; whether the store kept it is not said.\<close>

lemma ms_Set_Get:
  assumes "ms_Set fmt_v k v m w = (None, m1, w1)"
  shows "ms_Get k m1 w2 = (Inr v, m1, w2)" "j \<noteq> k \<Longrightarrow> map_of (ms_cache m1) j = map_of (ms_cache m) j"
  using assms by (auto simp: ms_Set_def ms_Get_def Let_def update_conv' split: if_splits option.splits)

lemma failed_remember_silent:
  assumes "ms_store m = Some st" "st_Remember st = Some f" "f k (sprint_v fmt_v v) w = (Some e, w1)" "trim_space k \<noteq> []"
  shows "fst (ms_Set fmt_v k v m w) = None"
  using assms by (simp add: ms_Set_def Let_def)

text \<open>What was read once is not asked for again.\<close>

lemma ms_Get_cached:
  assumes "ms_Get k m w = (Inr v, m1, w1)"
  shows "ms_Get k m1 w2 = (Inr v, m1, w2)"
  using assms by (auto simp: ms_Get_def update_conv' split: option.splits prod.splits sum.splits)

subsection \<open>Registries\<close>

locale name_registry =
  fixes reg :: "string \<Rightarrow> 'a \<Rightarrow> 'r \<Rightarrow> 'r" and look :: "string \<Rightarrow> 'r \<Rightarrow> 'a option" and listing :: "'r \<Rightarrow> 'a list"
  assumes look_reg: "look n (reg m x r) = (if n = m then Some x else look n r)"
    and look_listed: "look n r = Some x \<Longrightarrow> x \<in> set (listing r)"
begin

lemma registered_listed: "x \<in> set (listing (reg n x r))"
  using look_listed [of n "reg n x r" x] by (simp add: look_reg)

lemma look_fold: "look n (fold (\<lambda>(k, x). reg k x) xs r) = (case map_of (rev xs) n of Some x \<Rightarrow> Some x | None \<Rightarrow> look n r)"
proof (induction xs arbitrary: r)
  case (Cons kx xs)
  obtain k x where kx: "kx = (k, x)" by fastforce
  show ?case
    unfolding kx by (simp add: Cons.IH look_reg map_add_def split: option.split)
qed simp

end

interpretation agent_reg: name_registry ar_Register ar_Get ar_List
proof unfold_locales
  show "ar_Get n r = Some x \<Longrightarrow> x \<in> set (ar_List r)" for n r and x :: 'a
    by (auto simp: ar_Get_def ar_List_def dest!: map_of_SomeD intro: rev_image_eqI)
qed (simp add: ar_Register_def ar_Get_def update_conv')

interpretation tool_reg: name_registry tr_Register tr_Get tr_List
proof unfold_locales
  show "tr_Get n r = Some x \<Longrightarrow> x \<in> set (tr_List r)" for n r and x :: "'a adktool"
    by (auto simp: tr_Get_def tr_List_def dest!: map_of_SomeD intro: rev_image_eqI)
qed (simp add: tr_Register_def tr_Get_def update_conv')

end
