(* ===== verification/Mesh_Net.thy ===== *)
theory Mesh_Net
  imports App_Config Http_Server Net_Guard Mem_Store
begin

text \<open>
  The mesh of agents over gRPC: the transport policy of the client (\<^verbatim>\<open>pkg/api/mesh/dial.go\<close>, \<^verbatim>\<open>mesh_client.go\<close>) and of the two servers
  (\<^verbatim>\<open>mesh_client.go\<close>, \<^verbatim>\<open>mesh_server.go\<close>, \<^verbatim>\<open>mesh_tls.go\<close>), the service, and its users, remote agents (\<^verbatim>\<open>agents/remote_agent.go\<close>) and remote
  knowledge (\<^verbatim>\<open>memory/remote_source.go\<close>).

  Certificates, files, name resolution, gRPC and the network are parameters, and so are the agents and the memory of a node. Blocking in
  \<^verbatim>\<open>Serve\<close> is the outcome \<open>Serving\<close>.
\<close>

section \<open>Settings\<close>

datatype ClientAuth = NoClientCert | VerifyClientCertIfGiven | RequireAndVerifyClientCert

record 'c tls_config =
  tl_Certificates :: "'c list"
  tl_MinVersion :: nat
  tl_ClientCAs :: "'c list option"
  tl_ClientAuth :: ClientAuth
  tl_RootCAs :: "'c list option"
  tl_ServerName :: string

definition VersionTLS12 :: nat where "VersionTLS12 = 0x0303"

definition tls12 :: "'c list \<Rightarrow> 'c tls_config" where
  "tls12 certs = \<lparr>tl_Certificates = certs, tl_MinVersion = VersionTLS12, tl_ClientCAs = None, tl_ClientAuth = NoClientCert,
     tl_RootCAs = None, tl_ServerName = []\<rparr>"

record MeshServerCredentialConfig =
  msc_EnableTLS :: bool
  msc_CertFile :: string
  msc_KeyFile :: string
  msc_ClientCAFile :: string

record MeshClientCredentialConfig =
  mcc_EnableTLS :: bool
  mcc_CAFile :: string
  mcc_ServerName :: string

definition no_server_creds :: MeshServerCredentialConfig where
  "no_server_creds = \<lparr>msc_EnableTLS = False, msc_CertFile = [], msc_KeyFile = [], msc_ClientCAFile = []\<rparr>"

text \<open>
  The surroundings of a process: variables, files, the parser of certificates, of pairs of certificate and key in files and in memory, name
  resolution, and what the libraries make of an address and of a file of authorities.
\<close>

record 'c mesh_env =
  me_getenv :: "string \<Rightarrow> string"
  me_stat :: "string \<Rightarrow> goerr option"
  me_readFile :: "string \<Rightarrow> string result"
  me_certs :: "string \<Rightarrow> 'c list"
  me_keypair_files :: "string \<Rightarrow> string \<Rightarrow> 'c result"
  me_keypair :: "string \<Rightarrow> string \<Rightarrow> 'c result"
  me_ParseIP :: "string \<Rightarrow> ip option"
  me_lookup :: "string \<Rightarrow> ip list result"
  me_newClient :: "string \<Rightarrow> goerr option"
  me_clientTLS :: "string \<Rightarrow> string \<Rightarrow> goerr option"

definition DefaultMeshServerCredentials :: "'c mesh_env \<Rightarrow> MeshServerCredentialConfig" where
  "DefaultMeshServerCredentials E =
     \<lparr>msc_EnableTLS = (me_getenv E ''MESH_TLS_ENABLED'' = ''true''), msc_CertFile = me_getenv E ''MESH_TLS_CERT'',
      msc_KeyFile = me_getenv E ''MESH_TLS_KEY'', msc_ClientCAFile = me_getenv E ''MESH_TLS_CLIENT_CA''\<rparr>"

definition DefaultMeshClientCredentials :: "'c mesh_env \<Rightarrow> MeshClientCredentialConfig" where
  "DefaultMeshClientCredentials E =
     \<lparr>mcc_EnableTLS = (me_getenv E ''MESH_TLS_ENABLED'' = ''true''), mcc_CAFile = me_getenv E ''MESH_TLS_CA'',
      mcc_ServerName = me_getenv E ''MESH_TLS_SERVER_NAME''\<rparr>"

fun stat_all :: "'c mesh_env \<Rightarrow> string list \<Rightarrow> goerr option" where
  "stat_all E [] = None"
| "stat_all E (p # ps) =
     (case me_stat E p of Some e \<Rightarrow> Some (EWrap (''mesh TLS cert file not found: '' @ p @ '': '') e []) | None \<Rightarrow> stat_all E ps)"

definition LoadTLSConfig :: "'c mesh_env \<Rightarrow> MeshServerCredentialConfig \<Rightarrow> 'c tls_config option result" where
  "LoadTLSConfig E cfg =
     (if \<not> msc_EnableTLS cfg then Inr None
      else if msc_CertFile cfg = [] \<or> msc_KeyFile cfg = []
      then Inl (EMsg ''mesh TLS enabled but MESH_TLS_CERT and MESH_TLS_KEY must be set'')
      else case stat_all E [msc_CertFile cfg, msc_KeyFile cfg] of
             Some e \<Rightarrow> Inl e
           | None \<Rightarrow>
               (case me_keypair_files E (msc_CertFile cfg) (msc_KeyFile cfg) of
                  Inl e \<Rightarrow> Inl (EWrap ''failed to load mesh TLS cert/key pair: '' e [])
                | Inr cert \<Rightarrow>
                    if msc_ClientCAFile cfg = [] then Inr (Some (tls12 [cert]))
                    else (case me_readFile E (msc_ClientCAFile cfg) of
                            Inl e \<Rightarrow> Inl (EWrap ''failed to read mesh client CA file: '' e [])
                          | Inr d \<Rightarrow>
                              if me_certs E d = []
                              then Inl (EMsg (''mesh client CA file did not contain any valid certificates: '' @ msc_ClientCAFile cfg))
                              else Inr (Some ((tls12 [cert])\<lparr>tl_ClientCAs := Some (me_certs E d), tl_ClientAuth := RequireAndVerifyClientCert\<rparr>)))))"

definition LoadClientTLSConfig :: "'c mesh_env \<Rightarrow> MeshClientCredentialConfig \<Rightarrow> 'c tls_config option result" where
  "LoadClientTLSConfig E cfg =
     (if \<not> mcc_EnableTLS cfg then Inr None
      else (case (if mcc_CAFile cfg = [] then Inr None
                  else case me_readFile E (mcc_CAFile cfg) of
                         Inl e \<Rightarrow> Inl (EWrap ''failed to read mesh CA file: '' e [])
                       | Inr d \<Rightarrow>
                           if me_certs E d = []
                           then Inl (EMsg (''mesh CA file did not contain any valid certificates: '' @ mcc_CAFile cfg))
                           else Inr (Some (me_certs E d))) of
              Inl e \<Rightarrow> Inl e
            | Inr cas \<Rightarrow> Inr (Some ((tls12 [])\<lparr>tl_RootCAs := cas, tl_ServerName := mcc_ServerName cfg\<rparr>))))"

section \<open>The certificate of last resort\<close>

record cert_template =
  ct_Serial :: nat
  ct_CommonName :: string
  ct_NotBefore :: int
  ct_NotAfter :: int
  ct_DNSNames :: "string list"
  ct_IPs :: "ip list"

record 'k crypto =
  cr_key :: "'k result"
  cr_serial :: "nat result"
  cr_host :: string
  cr_now :: "int \<times> int"
  cr_certificate :: "cert_template \<Rightarrow> 'k \<Rightarrow> string result"
  cr_marshal :: "'k \<Rightarrow> string result"
  cr_pem :: "string \<Rightarrow> string \<Rightarrow> string"
  cr_sha_hex :: "string \<Rightarrow> string"

definition cert_tmpl :: "nat \<Rightarrow> string \<Rightarrow> int \<times> int \<Rightarrow> cert_template" where
  "cert_tmpl serial host now =
     \<lparr>ct_Serial = serial, ct_CommonName = ''gocrewwai-mesh-ephemeral'', ct_NotBefore = fst now - 300 * second, ct_NotAfter = snd now + 24 * 3600 * second,
      ct_DNSNames = (if host = [] then [''localhost''] else [''localhost'', host]), ct_IPs = [IP16 0xFFFF7F000001, IP16 1]\<rparr>"

definition ephemeralServerCert :: "'k crypto \<Rightarrow> (string \<times> string \<times> string) result" where
  "ephemeralServerCert R =
     (case cr_key R of
        Inl e \<Rightarrow> Inl (EWrap ''mesh: ephemeral key: '' e [])
      | Inr key \<Rightarrow>
          (case cr_serial R of
             Inl e \<Rightarrow> Inl (EWrap ''mesh: serial: '' e [])
           | Inr serial \<Rightarrow>
               (case cr_certificate R (cert_tmpl serial (cr_host R) (cr_now R)) key of
                  Inl e \<Rightarrow> Inl (EWrap ''mesh: ephemeral cert: '' e [])
                | Inr der \<Rightarrow>
                    (case cr_marshal R key of
                       Inl e \<Rightarrow> Inl (EWrap ''mesh: marshal key: '' e [])
                     | Inr kder \<Rightarrow> Inr (cr_pem R ''CERTIFICATE'' der, cr_pem R ''EC PRIVATE KEY'' kder, take 16 (cr_sha_hex R der))))))"

section \<open>The servers\<close>

text \<open>What a server speaks: plain text, or TLS as configured.\<close>

datatype 'c wire = Plain | Tls "'c tls_config"

datatype 'c started = Serving "'c wire" | NotStarted goerr

datatype mode = ModeFile | ModeInsecure | ModeEphemeral string

definition em_dash :: string where "em_dash = [CHR 0xE2, CHR 0x80, CHR 0x94]"

definition or_env :: "'c mesh_env \<Rightarrow> string \<Rightarrow> string \<Rightarrow> string" where
  "or_env E v name = (if v = [] then me_getenv E name else v)"

definition ephemeral_tls :: "'c mesh_env \<Rightarrow> 'k crypto \<Rightarrow> ('c tls_config \<times> string) result" where
  "ephemeral_tls E R =
     (case ephemeralServerCert R of
        Inl e \<Rightarrow> Inl e
      | Inr (certPEM, keyPEM, fp) \<Rightarrow>
          (case me_keypair E certPEM keyPEM of
             Inl e \<Rightarrow> Inl (EWrap ''mesh: ephemeral keypair: '' e [])
           | Inr cert \<Rightarrow> Inr (tls12 [cert], fp)))"

definition serverTLSCreds :: "'c mesh_env \<Rightarrow> 'k crypto \<Rightarrow> string \<Rightarrow> string \<Rightarrow> string \<Rightarrow> ('c tls_config option \<times> mode) result" where
  "serverTLSCreds E R certFile0 keyFile0 clientCAFile0 =
     (let certFile = or_env E certFile0 ''MESH_TLS_CERT''; keyFile = or_env E keyFile0 ''MESH_TLS_KEY'';
          clientCAFile = or_env E clientCAFile0 ''MESH_TLS_CLIENT_CA''
      in if certFile \<noteq> [] \<and> keyFile \<noteq> []
         then map_sum id (\<lambda>c. (c, ModeFile))
                (LoadTLSConfig E \<lparr>msc_EnableTLS = True, msc_CertFile = certFile, msc_KeyFile = keyFile, msc_ClientCAFile = clientCAFile\<rparr>)
         else if clientCAFile \<noteq> []
         then Inl (EMsg (''mesh: client CA configured but server certificate/key pair is incomplete '' @ em_dash @ '' refusing ephemeral fallback''))
         else if me_getenv E ''MESH_INSECURE'' = ''1'' then Inr (None, ModeInsecure)
         else map_sum id (\<lambda>(c, fp). (Some c, ModeEphemeral fp)) (ephemeral_tls E R))"

text \<open>\<open>creds\<close> is what the options of the call left behind; \<open>listen\<close> is the outcome of taking the port.\<close>

definition start_creds :: "'c mesh_env \<Rightarrow> MeshServerCredentialConfig \<Rightarrow> MeshServerCredentialConfig" where
  "start_creds E creds =
     (let c = (if creds = no_server_creds then DefaultMeshServerCredentials E else creds) in
      if me_getenv E ''MESH_INSECURE'' = ''1'' \<and> msc_CertFile c = [] \<and> msc_KeyFile c = [] then no_server_creds else c)"

definition ms_Start :: "'c mesh_env \<Rightarrow> 'k crypto \<Rightarrow> MeshServerCredentialConfig \<Rightarrow> string \<Rightarrow> goerr option \<Rightarrow> 'c started" where
  "ms_Start E R creds port listen =
     (let c = start_creds E creds in
      case serverTLSCreds E R (msc_CertFile c) (msc_KeyFile c) (msc_ClientCAFile c) of
        Inl e \<Rightarrow> NotStarted (EWrap ''mesh TLS configuration invalid: '' e [])
      | Inr (t, m) \<Rightarrow>
          (case listen of
             Some e \<Rightarrow> NotStarted (EWrap (''failed to listen on port '' @ port @ '': '') e [])
           | None \<Rightarrow>
               (case m of
                  ModeInsecure \<Rightarrow> Serving Plain
                | _ \<Rightarrow> (case t of None \<Rightarrow> Serving Plain | Some c \<Rightarrow> Serving (Tls c)))))"

definition WithMeshServerCredentials :: "MeshServerCredentialConfig \<Rightarrow> MeshServerCredentialConfig \<Rightarrow> MeshServerCredentialConfig" where
  "WithMeshServerCredentials creds cfg = creds"

text \<open>
  The standalone servers of a process: the ports it holds, and the servers to stop in the end with the ports they serve.
\<close>

record 'c mesh_process =
  mp_ports :: "int set"
  mp_srvs :: "(int \<times> 'c wire) list"

definition standalone_wire :: "'c mesh_env \<Rightarrow> 'k crypto \<Rightarrow> string \<Rightarrow> string \<Rightarrow> string \<Rightarrow> 'c wire result" where
  "standalone_wire E R certPEM keyPEM clientCAPEM =
     (if certPEM \<noteq> [] \<and> keyPEM \<noteq> [] then
        (case me_keypair E certPEM keyPEM of
           Inl e \<Rightarrow> Inl (EWrap ''mesh: failed to load server TLS key pair: '' e [])
         | Inr cert \<Rightarrow>
             if clientCAPEM \<noteq> [] then
               (if me_certs E clientCAPEM = [] then Inl (EMsg ''mesh: failed to parse client CA certificate'')
                else Inr (Tls ((tls12 [cert])\<lparr>tl_ClientCAs := Some (me_certs E clientCAPEM), tl_ClientAuth := RequireAndVerifyClientCert\<rparr>)))
             else Inr (Tls ((tls12 [cert])\<lparr>tl_ClientAuth := VerifyClientCertIfGiven\<rparr>)))
      else if me_getenv E ''MESH_INSECURE'' = ''1'' then Inr Plain
      else if clientCAPEM \<noteq> []
      then Inl (EMsg (''mesh: client CA supplied without a server certificate/key pair '' @ em_dash @ '' refusing ephemeral fallback''))
      else map_sum id (\<lambda>(c, fp). Tls c) (ephemeral_tls E R))"

definition StartMeshServer ::
  "'c mesh_env \<Rightarrow> 'k crypto \<Rightarrow> int \<Rightarrow> string \<Rightarrow> string \<Rightarrow> string \<Rightarrow> goerr option \<Rightarrow> 'c mesh_process \<Rightarrow> 'c started \<times> 'c mesh_process" where
  "StartMeshServer E R port certPEM keyPEM clientCAPEM listen p =
     (case (if port \<in> mp_ports p then Some (EMsg ''address already in use'') else listen) of
        Some e \<Rightarrow> (NotStarted (EWrap (''failed to listen on port '' @ show_int port @ '': '') e []), p)
      | None \<Rightarrow>
          (let p1 = p\<lparr>mp_ports := insert port (mp_ports p)\<rparr> in
           case standalone_wire E R certPEM keyPEM clientCAPEM of
             Inl e \<Rightarrow> (NotStarted e, p1)
           | Inr w \<Rightarrow> (Serving w, p1\<lparr>mp_srvs := mp_srvs p1 @ [(port, w)]\<rparr>)))"

text \<open>A server that is stopped gives its port back.\<close>

definition StopMeshServers :: "'c mesh_process \<Rightarrow> 'c mesh_process" where
  "StopMeshServers p = p\<lparr>mp_ports := mp_ports p - fst ` set (mp_srvs p), mp_srvs := []\<rparr>"

section \<open>The client\<close>

datatype dialed = DPlain | DSkipVerify | DVerified string string

text \<open>\<^verbatim>\<open>strings.Trim(host, "[]")\<close> and the host of an address.\<close>

definition trim_brackets :: "string \<Rightarrow> string" where
  "trim_brackets s = (let p = (\<lambda>c. c = CHR ''['' \<or> c = CHR '']'') in rev (dropWhile p (rev (dropWhile p s))))"

definition mesh_host :: "string \<Rightarrow> string" where
  "mesh_host address = to_lower (trim_brackets (case SplitHostPort address of Some h \<Rightarrow> h | None \<Rightarrow> address))"

definition remote_transport :: "'c mesh_env \<Rightarrow> string \<Rightarrow> (bool \<times> bool) result" where
  "remote_transport E address =
     (if me_getenv E ''MESH_INSECURE'' = ''1'' then Inr (False, False)
      else Inl (EMsg (''mesh: refusing plaintext dial to remote '' @ go_quote address @ '': set MESH_TLS_CA or MESH_INSECURE=1'')))"

definition ResolveTransport :: "'c mesh_env \<Rightarrow> string \<Rightarrow> (bool \<times> bool) result" where
  "ResolveTransport E address =
     (if me_getenv E ''MESH_TLS_CA'' \<noteq> [] then Inr (True, False)
      else let host = mesh_host address in
        if host = ''localhost'' then
          (case me_lookup E host of
             Inr ips \<Rightarrow> if list_ex IsLoopback ips then Inr (True, True) else remote_transport E address
           | Inl _ \<Rightarrow> Inr (True, True))
        else (case me_ParseIP E host of
                Some a \<Rightarrow> if IsLoopback a then Inr (True, True) else remote_transport E address
              | None \<Rightarrow> remote_transport E address))"

definition dial_with :: "'c mesh_env \<Rightarrow> string \<Rightarrow> dialed \<Rightarrow> dialed result" where
  "dial_with E address d = (case me_newClient E address of Some e \<Rightarrow> Inl e | None \<Rightarrow> Inr d)"

definition DialNode :: "'c mesh_env \<Rightarrow> string \<Rightarrow> dialed result" where
  "DialNode E address =
     (case ResolveTransport E address of
        Inl e \<Rightarrow> Inl e
      | Inr (useTLS, skipVerify) \<Rightarrow>
          if \<not> useTLS then dial_with E address DPlain
          else if skipVerify then dial_with E address DSkipVerify
          else (case me_clientTLS E (me_getenv E ''MESH_TLS_CA'') (me_getenv E ''MESH_TLS_SERVER_NAME'') of
                  Some e \<Rightarrow> Inl (EWrap ''mesh TLS credentials invalid: '' e [])
                | None \<Rightarrow> dial_with E address (DVerified (me_getenv E ''MESH_TLS_CA'') (me_getenv E ''MESH_TLS_SERVER_NAME''))))"

text \<open>With credentials of the call: the configuration of the connection, or how \<^verbatim>\<open>DialNode\<close> connects.\<close>

definition ConnectMeshClient :: "'c mesh_env \<Rightarrow> MeshClientCredentialConfig \<Rightarrow> string \<Rightarrow> ('c tls_config + dialed) result" where
  "ConnectMeshClient E c addr =
     (let dial = map_sum (\<lambda>e. EWrap (''failed to dial mesh service at '' @ addr @ '': '') e []) Inr (DialNode E addr) in
      if mcc_EnableTLS c then
        (case LoadClientTLSConfig E (c\<lparr>mcc_CAFile := or_env E (mcc_CAFile c) ''MESH_TLS_CA'', mcc_ServerName := or_env E (mcc_ServerName c) ''MESH_TLS_SERVER_NAME''\<rparr>) of
           Inl e \<Rightarrow> Inl (EWrap ''mesh client TLS configuration invalid: '' e [])
         | Inr (Some t) \<Rightarrow>
             (case me_newClient E addr of
                Some e \<Rightarrow> Inl (EWrap (''failed to dial mesh service at '' @ addr @ '': '') e [])
              | None \<Rightarrow> Inr (Inl t))
         | Inr None \<Rightarrow> dial)
      else dial)"

definition WithMeshClientCredentials :: "MeshClientCredentialConfig \<Rightarrow> MeshClientCredentialConfig \<Rightarrow> MeshClientCredentialConfig" where
  "WithMeshClientCredentials creds cfg = creds"

section \<open>The service\<close>

record TaskRequest =
  tq_TaskDescription :: string
  tq_AgentRole :: string
  tq_AgentGoal :: string
  tq_SessionId :: string

record TaskResponse =
  ts_Output :: string
  ts_Success :: bool
  ts_ErrorMessage :: string

record SearchRequest =
  sq_Query :: string
  sq_K :: "32 word"
  sq_Collection :: string

record KnowledgeSnippet =
  ks_Source :: string
  ks_Score :: real
  ks_Content :: string

record SearchResponse =
  sr_Success :: bool
  sr_ErrorMessage :: string
  sr_Snippets :: "KnowledgeSnippet list"

text \<open>An agent of a node is what it does with a text and the options of the call, a memory what it finds for a vector and a number.\<close>

type_synonym 'w local_agent = "string \<Rightarrow> gmap \<Rightarrow> 'w \<Rightarrow> gvalue result \<times> 'w"

record 'w MeshServer =
  mv_agents :: "string \<rightharpoonup> 'w local_agent"
  mv_store :: "(real list \<Rightarrow> int \<Rightarrow> 'w \<Rightarrow> MemoryItem list result \<times> 'w) option"
  mv_embedder :: "(string \<Rightarrow> 'w \<Rightarrow> real list result \<times> 'w) option"

definition NewMeshServer :: "'w MeshServer" where
  "NewMeshServer = \<lparr>mv_agents = Map.empty, mv_store = None, mv_embedder = None\<rparr>"

definition ConnectMeshServerWithAgents ::
  "(string \<times> 'w local_agent) list \<Rightarrow> (real list \<Rightarrow> int \<Rightarrow> 'w \<Rightarrow> MemoryItem list result \<times> 'w) option \<Rightarrow>
     (string \<Rightarrow> 'w \<Rightarrow> real list result \<times> 'w) option \<Rightarrow> 'w MeshServer" where
  "ConnectMeshServerWithAgents as store embedder =
     NewMeshServer\<lparr>mv_agents := fold (\<lambda>(role, a) m. m(role \<mapsto> a)) as Map.empty, mv_store := store, mv_embedder := embedder\<rparr>"

definition sprint :: "(gvalue \<Rightarrow> string) \<Rightarrow> gvalue \<Rightarrow> string" where
  "sprint fmt_v v = (case v of VString s \<Rightarrow> s | VNil \<Rightarrow> ''<nil>'' | _ \<Rightarrow> fmt_v v)"

text \<open>The call once it holds the lock of its role.\<close>

definition ms_DelegateTask :: "(gvalue \<Rightarrow> string) \<Rightarrow> 'w MeshServer \<Rightarrow> TaskRequest \<Rightarrow> 'w \<Rightarrow> TaskResponse \<times> 'w" where
  "ms_DelegateTask fmt_v s q w =
     (case mv_agents s (tq_AgentRole q) of
        None \<Rightarrow> (\<lparr>ts_Output = [], ts_Success = False,
                  ts_ErrorMessage = ''Agent with role '' @ [CHR 0x27] @ tq_AgentRole q @ [CHR 0x27] @ '' not found on this mesh node''\<rparr>, w)
      | Some a \<Rightarrow>
          (case a (tq_TaskDescription q) [''session_id'' \<mapsto> VString (tq_SessionId q)] w of
             (Inl e, w1) \<Rightarrow> (\<lparr>ts_Output = [], ts_Success = False, ts_ErrorMessage = err_text e\<rparr>, w1)
           | (Inr v, w1) \<Rightarrow> (\<lparr>ts_Output = sprint fmt_v v, ts_Success = True, ts_ErrorMessage = []\<rparr>, w1)))"

definition failed_search :: "string \<Rightarrow> SearchResponse" where
  "failed_search m = \<lparr>sr_Success = False, sr_ErrorMessage = m, sr_Snippets = []\<rparr>"

definition ms_SearchKnowledge :: "'w MeshServer \<Rightarrow> SearchRequest \<Rightarrow> 'w \<Rightarrow> SearchResponse \<times> 'w" where
  "ms_SearchKnowledge s q w =
     (case (mv_store s, mv_embedder s) of
        (Some search, Some emb) \<Rightarrow>
          (case emb (sq_Query q) w of
             (Inl e, w1) \<Rightarrow> (failed_search (''embedding failed: '' @ err_text e), w1)
           | (Inr vector, w1) \<Rightarrow>
               (case search vector (sint (sq_K q)) w1 of
                  (Inl e, w2) \<Rightarrow> (failed_search (''search failed: '' @ err_text e), w2)
                | (Inr rs, w2) \<Rightarrow>
                    (\<lparr>sr_Success = True, sr_ErrorMessage = [],
                      sr_Snippets = map (\<lambda>r. \<lparr>ks_Source = mi_ID r, ks_Score = 0, ks_Content = mi_Text r\<rparr>) rs\<rparr>, w2)))
      | _ \<Rightarrow> (failed_search ''RAG not configured on this mesh node'', w))"

subsection \<open>Locks\<close>

text \<open>
  The calls of \<^verbatim>\<open>DelegateTask\<close> as goroutines: a call finds its agent, asks for the lock of its role, which is made on the first demand,
  waits until it has the lock, and runs.
\<close>

datatype call_phase = Idle | Found string | Waiting string nat | Running string nat | Replied

record lock_state =
  ls_locks :: "string \<rightharpoonup> nat"
  ls_made :: nat
  ls_holder :: "nat \<Rightarrow> nat option"
  ls_phase :: "nat \<Rightarrow> call_phase"

definition execLockFor :: "string \<Rightarrow> lock_state \<Rightarrow> nat \<times> lock_state" where
  "execLockFor role s =
     (case ls_locks s role of
        Some l \<Rightarrow> (l, s)
      | None \<Rightarrow> (ls_made s, s\<lparr>ls_locks := (ls_locks s)(role \<mapsto> ls_made s), ls_made := Suc (ls_made s)\<rparr>))"

definition locks_init :: lock_state where
  "locks_init = \<lparr>ls_locks = Map.empty, ls_made = 0, ls_holder = (\<lambda>_. None), ls_phase = (\<lambda>_. Idle)\<rparr>"

definition phase_to :: "nat \<Rightarrow> call_phase \<Rightarrow> lock_state \<Rightarrow> lock_state" where
  "phase_to i p s = s\<lparr>ls_phase := (ls_phase s)(i := p)\<rparr>"

inductive call_step :: "string set \<Rightarrow> lock_state \<Rightarrow> lock_state \<Rightarrow> bool" for roles where
  find: "ls_phase s i = Idle \<Longrightarrow> role \<in> roles \<Longrightarrow> call_step roles s (phase_to i (Found role) s)"
| unknown: "ls_phase s i = Idle \<Longrightarrow> role \<notin> roles \<Longrightarrow> call_step roles s (phase_to i Replied s)"
| ask: "ls_phase s i = Found role \<Longrightarrow> execLockFor role s = (l, s1) \<Longrightarrow> call_step roles s (phase_to i (Waiting role l) s1)"
| acquire: "ls_phase s i = Waiting role l \<Longrightarrow> ls_holder s l = None \<Longrightarrow>
    call_step roles s (phase_to i (Running role l) (s\<lparr>ls_holder := (ls_holder s)(l := Some i)\<rparr>))"
| reply: "ls_phase s i = Running role l \<Longrightarrow> call_step roles s (phase_to i Replied (s\<lparr>ls_holder := (ls_holder s)(l := None)\<rparr>))"

section \<open>The users\<close>

record RemoteAgent =
  rm_Role :: string
  rm_Goal :: string
  rm_Backstory :: string
  rm_Address :: string
  rm_AuthToken :: string

definition NewRemoteAgent :: "string \<Rightarrow> string \<Rightarrow> string \<Rightarrow> string \<Rightarrow> string \<Rightarrow> RemoteAgent" where
  "NewRemoteAgent role goal backstory address token =
     \<lparr>rm_Role = role, rm_Goal = goal, rm_Backstory = backstory, rm_Address = address, rm_AuthToken = token\<rparr>"

text \<open>\<open>call\<close> sends a request over a connection to an address; it may fail.\<close>

definition rm_Execute ::
  "(gvalue \<Rightarrow> string) \<Rightarrow> 'c mesh_env \<Rightarrow> (string \<Rightarrow> dialed \<Rightarrow> TaskRequest \<Rightarrow> 'w \<Rightarrow> TaskResponse result \<times> 'w) \<Rightarrow> RemoteAgent \<Rightarrow>
     string \<Rightarrow> gmap \<Rightarrow> 'w \<Rightarrow> gvalue result \<times> 'w" where
  "rm_Execute fmt_v E call r input options w =
     (case DialNode E (rm_Address r) of
        Inl e \<Rightarrow> (Inl (EWrap (''failed to connect to remote agent at '' @ rm_Address r @ '': '') e []), w)
      | Inr conn \<Rightarrow>
          (case call (rm_Address r) conn
                  \<lparr>tq_TaskDescription = input, tq_AgentRole = rm_Role r, tq_AgentGoal = rm_Goal r,
                   tq_SessionId = sprint fmt_v (case options ''session_id'' of Some v \<Rightarrow> v | None \<Rightarrow> VNil)\<rparr> w of
             (Inl e, w1) \<Rightarrow> (Inl (EWrap ''remote task delegation failed: '' e []), w1)
           | (Inr resp, w1) \<Rightarrow>
               (if \<not> ts_Success resp then (Inl (EMsg (''remote agent error: '' @ ts_ErrorMessage resp)), w1)
                else (Inr (VString (ts_Output resp)), w1))))"

record RemoteKnowledgeSource =
  rk_Address :: string
  rk_Collection :: string
  rk_K :: "32 word"

definition NewRemoteKnowledgeSource :: "string \<Rightarrow> string \<Rightarrow> int \<Rightarrow> RemoteKnowledgeSource" where
  "NewRemoteKnowledgeSource address collection k = \<lparr>rk_Address = address, rk_Collection = collection, rk_K = word_of_int k\<rparr>"

fun format_snippets :: "nat \<Rightarrow> KnowledgeSnippet list \<Rightarrow> string" where
  "format_snippets i [] = []"
| "format_snippets i (x # xs) =
     ''['' @ show_nat i @ ''] Source: '' @ ks_Source x @ [CHR 0x0A] @ ''Content: '' @ ks_Content x @ [CHR 0x0A, CHR 0x0A] @ format_snippets (Suc i) xs"

definition rk_Query ::
  "'c mesh_env \<Rightarrow> (string \<Rightarrow> dialed \<Rightarrow> SearchRequest \<Rightarrow> 'w \<Rightarrow> SearchResponse result \<times> 'w) \<Rightarrow> RemoteKnowledgeSource \<Rightarrow>
     string \<Rightarrow> 'w \<Rightarrow> string result \<times> 'w" where
  "rk_Query E call s query w =
     (case DialNode E (rk_Address s) of
        Inl e \<Rightarrow> (Inl (EWrap (''failed to connect to remote RAG node at '' @ rk_Address s @ '': '') e []), w)
      | Inr conn \<Rightarrow>
          (case call (rk_Address s) conn \<lparr>sq_Query = query, sq_K = rk_K s, sq_Collection = rk_Collection s\<rparr> w of
             (Inl e, w1) \<Rightarrow> (Inl (EWrap ''remote RAG query failed: '' e []), w1)
           | (Inr resp, w1) \<Rightarrow>
               (if \<not> sr_Success resp then (Inl (EMsg (''remote RAG error: '' @ sr_ErrorMessage resp)), w1)
                else (Inr (''Results from Remote Knowledge Source:'' @ [CHR 0x0A] @ format_snippets 1 (sr_Snippets resp)), w1))))"

section \<open>Who speaks plain text\<close>

text \<open>A host the client takes for the machine it runs on: \<^verbatim>\<open>localhost\<close> unless it resolves to other machines only, or a literal loopback address.\<close>

definition trusted_local :: "'c mesh_env \<Rightarrow> string \<Rightarrow> bool" where
  "trusted_local E host \<longleftrightarrow>
     (if host = ''localhost'' then (case me_lookup E host of Inr ips \<Rightarrow> list_ex IsLoopback ips | Inl _ \<Rightarrow> True)
      else (case me_ParseIP E host of Some a \<Rightarrow> IsLoopback a | None \<Rightarrow> False))"

lemma ResolveTransport_cases:
  "ResolveTransport E address =
     (if me_getenv E ''MESH_TLS_CA'' \<noteq> [] then Inr (True, False)
      else if trusted_local E (mesh_host address) then Inr (True, True) else remote_transport E address)"
  by (simp add: ResolveTransport_def trusted_local_def Let_def split: sum.split option.split)

text \<open>
  No silent plain text. A connection is in plain text exactly when no authority is configured, the operator asked for plain text, and the host is not
  this machine; it goes unverified exactly when no authority is configured and the host is this machine, by a literal address or as
  \<^verbatim>\<open>localhost\<close>; and it is verified exactly when an authority is configured and can be read.
\<close>

theorem mesh_transport_policy:
  "(DialNode E address = Inr DPlain \<longleftrightarrow>
      me_newClient E address = None \<and> me_getenv E ''MESH_TLS_CA'' = [] \<and> me_getenv E ''MESH_INSECURE'' = ''1'' \<and> \<not> trusted_local E (mesh_host address)) \<and>
   (DialNode E address = Inr DSkipVerify \<longleftrightarrow>
      me_newClient E address = None \<and> me_getenv E ''MESH_TLS_CA'' = [] \<and> trusted_local E (mesh_host address)) \<and>
   (DialNode E address = Inr (DVerified ca name) \<longleftrightarrow>
      me_newClient E address = None \<and> ca = me_getenv E ''MESH_TLS_CA'' \<and> ca \<noteq> [] \<and> name = me_getenv E ''MESH_TLS_SERVER_NAME'' \<and> me_clientTLS E ca name = None)"
  by (auto simp: DialNode_def ResolveTransport_cases remote_transport_def dial_with_def split: option.split)

text \<open>A name that only begins like a loopback address is refused.\<close>

lemma impostor_refused:
  assumes "me_getenv E ''MESH_TLS_CA'' = []" "me_getenv E ''MESH_INSECURE'' \<noteq> ''1''" "me_ParseIP E (mesh_host address) = None" "mesh_host address \<noteq> ''localhost''"
  shows "\<exists>e. DialNode E address = Inl e"
  using assms by (simp add: DialNode_def ResolveTransport_cases trusted_local_def remote_transport_def)

lemma mesh_host_example: "mesh_host ''127.evil.com:50051'' = ''127.evil.com''" "mesh_host ''[::1]:50051'' = ''::1''" "mesh_host ''LocalHost:9'' = ''localhost''"
  by code_simp+

section \<open>Who must show a certificate\<close>

lemma LoadTLSConfig_enabled:
  assumes "LoadTLSConfig E c = Inr t" "msc_EnableTLS c"
  obtains cfg where "t = Some cfg" "msc_ClientCAFile c \<noteq> [] \<Longrightarrow> tl_ClientAuth cfg = RequireAndVerifyClientCert \<and> (\<exists>cas. tl_ClientCAs cfg = Some cas \<and> cas \<noteq> [])"
  using assms unfolding LoadTLSConfig_def
  by (simp split: if_splits option.splits sum.splits) (force simp: tls12_def)+

lemma serverTLSCreds_ca:
  assumes "serverTLSCreds E R c k ca = Inr (t, m)" "or_env E ca ''MESH_TLS_CLIENT_CA'' \<noteq> []"
  shows "m = ModeFile \<and> (\<exists>cfg cas. t = Some cfg \<and> tl_ClientAuth cfg = RequireAndVerifyClientCert \<and> tl_ClientCAs cfg = Some cas \<and> cas \<noteq> [])"
proof -
  let ?c = "\<lparr>msc_EnableTLS = True, msc_CertFile = or_env E c ''MESH_TLS_CERT'', msc_KeyFile = or_env E k ''MESH_TLS_KEY'',
     msc_ClientCAFile = or_env E ca ''MESH_TLS_CLIENT_CA''\<rparr>"
  have "LoadTLSConfig E ?c = Inr t" "m = ModeFile"
    using assms by (auto simp: serverTLSCreds_def Let_def map_sum_def split: if_splits sum.splits)
  moreover obtain cfg where "t = Some cfg" "tl_ClientAuth cfg = RequireAndVerifyClientCert \<and> (\<exists>cas. tl_ClientCAs cfg = Some cas \<and> cas \<noteq> [])"
    using LoadTLSConfig_enabled [OF calculation(1)] assms(2) by auto
  ultimately show ?thesis by auto
qed

text \<open>
  A required client certificate is required. When the environment names an authority for clients, or the call does and does not run into the
  switch for plain text, a server that serves speaks TLS and demands a certificate from one of the authorities read.
\<close>

theorem client_ca_enforced:
  assumes "ms_Start E R creds port listen = Serving w"
    "me_getenv E ''MESH_TLS_CLIENT_CA'' \<noteq> [] \<or>
     msc_ClientCAFile creds \<noteq> [] \<and> \<not> (me_getenv E ''MESH_INSECURE'' = ''1'' \<and> msc_CertFile creds = [] \<and> msc_KeyFile creds = [])"
  shows "\<exists>cfg cas. w = Tls cfg \<and> tl_ClientAuth cfg = RequireAndVerifyClientCert \<and> tl_ClientCAs cfg = Some cas \<and> cas \<noteq> []"
proof -
  let ?c = "start_creds E creds"
  obtain t m where r: "serverTLSCreds E R (msc_CertFile ?c) (msc_KeyFile ?c) (msc_ClientCAFile ?c) = Inr (t, m)"
    using assms(1) by (auto simp: ms_Start_def Let_def split: sum.splits prod.splits)
  have "or_env E (msc_ClientCAFile ?c) ''MESH_TLS_CLIENT_CA'' \<noteq> []"
    using assms(2) by (auto simp: or_env_def start_creds_def Let_def no_server_creds_def)
  from serverTLSCreds_ca [OF r this] show ?thesis
    using assms(1) r by (auto simp: ms_Start_def Let_def split: option.splits)
qed

definition menv :: "(string \<Rightarrow> string) \<Rightarrow> nat mesh_env" where
  "menv g = \<lparr>me_getenv = g, me_stat = (\<lambda>_. None), me_readFile = (\<lambda>f. Inr f), me_certs = (\<lambda>d. if d = [] then [] else [7]),
     me_keypair_files = (\<lambda>_ _. Inr 1), me_keypair = (\<lambda>_ _. Inr 2), me_ParseIP = (\<lambda>_. None), me_lookup = (\<lambda>_. Inr [IP16 1]),
     me_newClient = (\<lambda>_. None), me_clientTLS = (\<lambda>_ _. None)\<rparr>"

definition crypto0 :: "unit crypto" where
  "crypto0 = \<lparr>cr_key = Inr (), cr_serial = Inr 1, cr_host = [], cr_now = (0, 0), cr_certificate = (\<lambda>_ _. Inr []), cr_marshal = (\<lambda>_. Inr []),
     cr_pem = (\<lambda>_ _. ''p''), cr_sha_hex = (\<lambda>_. [])\<rparr>"

theorem client_ca_enforced_witness:
  "\<exists>cfg. ms_Start (menv ((\<lambda>_. [])(''MESH_TLS_CLIENT_CA'' := ''ca''))) crypto0
       (no_server_creds\<lparr>msc_CertFile := ''c'', msc_KeyFile := ''k''\<rparr>) ''1'' None = Serving (Tls cfg) \<and> tl_ClientAuth cfg = RequireAndVerifyClientCert"
proof -
  let ?E = "menv ((\<lambda>_. [])(''MESH_TLS_CLIENT_CA'' := ''ca''))"
  let ?c = "no_server_creds\<lparr>msc_CertFile := ''c'', msc_KeyFile := ''k''\<rparr>"
  obtain w where w: "ms_Start ?E crypto0 ?c ''1'' None = Serving w"
    by (simp add: ms_Start_def start_creds_def serverTLSCreds_def or_env_def LoadTLSConfig_def menv_def no_server_creds_def Let_def)
  have e: "me_getenv ?E ''MESH_TLS_CLIENT_CA'' \<noteq> []" by (simp add: menv_def)
  from client_ca_enforced [OF w disjI1 [OF e]] w show ?thesis by auto
qed

text \<open>
  The exception is real: credentials of the call that name only an authority for clients are dropped when plain text is switched on, and so
  is the authority handed to the standalone server.
\<close>

lemma explicit_ca_dropped:
  assumes "me_getenv E ''MESH_INSECURE'' = ''1''" "me_getenv E ''MESH_TLS_CLIENT_CA'' = []"
    "me_getenv E ''MESH_TLS_CERT'' = [] \<or> me_getenv E ''MESH_TLS_KEY'' = []"
  shows "ms_Start E R (no_server_creds\<lparr>msc_ClientCAFile := ca\<rparr>) port None = Serving Plain"
    "standalone_wire E R [] [] ca = Inr Plain"
  using assms
  by (auto simp: ms_Start_def start_creds_def serverTLSCreds_def or_env_def no_server_creds_def Let_def standalone_wire_def
      DefaultMeshServerCredentials_def)

text \<open>Without the switch the standalone server enforces it, or does not start; with a certificate it demands none of clients unless told to.\<close>

lemma standalone_ca:
  assumes "standalone_wire E R cert key ca = Inr w" "ca \<noteq> []" "me_getenv E ''MESH_INSECURE'' \<noteq> ''1'' \<or> cert \<noteq> [] \<and> key \<noteq> []"
  shows "\<exists>cfg. w = Tls cfg \<and> tl_ClientAuth cfg = RequireAndVerifyClientCert \<and> tl_ClientCAs cfg = Some (me_certs E ca) \<and> me_certs E ca \<noteq> []"
  using assms by (auto simp: standalone_wire_def split: if_splits sum.splits)

text \<open>Plain text is served only on demand; but the switch that makes the server plain leaves a client on the same machine with TLS.\<close>

lemma served_plain:
  assumes "ms_Start E R creds port listen = Serving Plain"
  shows "me_getenv E ''MESH_INSECURE'' = ''1''"
proof -
  let ?c = "start_creds E creds"
  obtain t m where r: "serverTLSCreds E R (msc_CertFile ?c) (msc_KeyFile ?c) (msc_ClientCAFile ?c) = Inr (t, m)" "m = ModeInsecure \<or> t = None"
    using assms by (auto simp: ms_Start_def Let_def split: sum.splits prod.splits option.splits mode.splits)
  let ?d = "\<lparr>msc_EnableTLS = True, msc_CertFile = or_env E (msc_CertFile ?c) ''MESH_TLS_CERT'', msc_KeyFile = or_env E (msc_KeyFile ?c) ''MESH_TLS_KEY'',
     msc_ClientCAFile = or_env E (msc_ClientCAFile ?c) ''MESH_TLS_CLIENT_CA''\<rparr>"
  have "LoadTLSConfig E ?d \<noteq> Inr None" using LoadTLSConfig_enabled [of E ?d None] by auto
  then show ?thesis using r by (auto simp: serverTLSCreds_def Let_def map_sum_def split: if_splits sum.splits)
qed

lemma insecure_loopback_mismatch:
  assumes "me_getenv E = (\<lambda>v. if v = ''MESH_INSECURE'' then ''1'' else [])" "trusted_local E (mesh_host address)" "me_newClient E address = None"
  shows "ms_Start E R no_server_creds port None = Serving Plain \<and> DialNode E address = Inr DSkipVerify"
  using assms
  by (simp add: ms_Start_def start_creds_def serverTLSCreds_def or_env_def no_server_creds_def DefaultMeshServerCredentials_def
      DialNode_def ResolveTransport_cases dial_with_def)

text \<open>A standalone server that fails after it has taken the port keeps it, even when all servers are stopped.\<close>

lemma failed_start_keeps_port:
  assumes "standalone_wire E R cert key ca = Inl e" "port \<notin> mp_ports p" "\<forall>x\<in>set (mp_srvs p). fst x \<noteq> port"
    "StartMeshServer E R port cert key ca None p = (r, p1)"
  shows "r = NotStarted e \<and> port \<in> mp_ports (StopMeshServers p1)"
  using assms by (auto simp: StartMeshServer_def StopMeshServers_def)

lemma stop_frees_served:
  assumes "StartMeshServer E R port cert key ca listen p = (Serving w, p1)"
  shows "port \<notin> mp_ports (StopMeshServers p1)"
proof -
  have "(port, w) \<in> set (mp_srvs p1)"
    using assms by (auto simp: StartMeshServer_def Let_def split: option.splits sum.splits)
  then show ?thesis by (force simp: StopMeshServers_def)
qed

section \<open>One run of an agent at a time\<close>

text \<open>The locks that were made, and what the phase of a call says of them.\<close>

definition locks_ok :: "string set \<Rightarrow> lock_state \<Rightarrow> bool" where
  "locks_ok roles s \<longleftrightarrow>
     (\<forall>r l. ls_locks s r = Some l \<longrightarrow> l < ls_made s \<and> r \<in> roles) \<and>
     (\<forall>r q l. ls_locks s r = Some l \<and> ls_locks s q = Some l \<longrightarrow> r = q)"

definition phase_ok :: "string set \<Rightarrow> lock_state \<Rightarrow> nat \<Rightarrow> bool" where
  "phase_ok roles s i =
     (case ls_phase s i of
        Idle \<Rightarrow> True | Found r \<Rightarrow> r \<in> roles | Waiting r l \<Rightarrow> ls_locks s r = Some l
      | Running r l \<Rightarrow> ls_locks s r = Some l \<and> ls_holder s l = Some i | Replied \<Rightarrow> True)"

definition holders_ok :: "lock_state \<Rightarrow> bool" where
  "holders_ok s \<longleftrightarrow> (\<forall>l i. ls_holder s l = Some i \<longrightarrow> (\<exists>r. ls_phase s i = Running r l))"

definition calls_inv :: "string set \<Rightarrow> lock_state \<Rightarrow> bool" where
  "calls_inv roles s \<longleftrightarrow> locks_ok roles s \<and> (\<forall>i. phase_ok roles s i) \<and> holders_ok s"

lemma calls_inv_init: "calls_inv roles locks_init"
  by (simp add: calls_inv_def locks_init_def locks_ok_def phase_ok_def holders_ok_def)

lemma execLockFor_ok:
  assumes "locks_ok roles s" "r \<in> roles" "execLockFor r s = (l, s1)"
  shows "locks_ok roles s1 \<and> ls_locks s1 r = Some l \<and> ls_phase s1 = ls_phase s \<and> ls_holder s1 = ls_holder s \<and>
    (\<forall>q k. ls_locks s q = Some k \<longrightarrow> ls_locks s1 q = Some k)"
proof (cases "ls_locks s r")
  case None
  then have "s1 = s\<lparr>ls_locks := (ls_locks s)(r \<mapsto> l), ls_made := Suc l\<rparr>" "l = ls_made s"
    using assms(3) by (auto simp: execLockFor_def)
  then show ?thesis using None assms(1,2) by (auto simp: locks_ok_def less_Suc_eq)
next
  case (Some k)
  then show ?thesis using assms by (auto simp: execLockFor_def)
qed

lemma phase_ok_other:
  assumes "phase_ok roles s j" "ls_phase t j = ls_phase s j" "\<forall>q k. ls_locks s q = Some k \<longrightarrow> ls_locks t q = Some k"
    "\<forall>l. ls_holder s l = Some j \<longrightarrow> ls_holder t l = Some j"
  shows "phase_ok roles t j"
  using assms by (auto simp: phase_ok_def split: call_phase.splits)

lemma calls_inv_step: "call_step roles s s' \<Longrightarrow> calls_inv roles s \<Longrightarrow> calls_inv roles s'"
proof (induction rule: call_step.induct)
  case (find s i role)
  have "phase_ok roles (phase_to i (Found role) s) j" for j
    using find phase_ok_other [of roles s j "phase_to i (Found role) s"]
    by (cases "j = i") (auto simp: calls_inv_def phase_to_def phase_ok_def)
  then show ?case using find by (force simp: calls_inv_def locks_ok_def holders_ok_def phase_to_def)
next
  case (unknown s i role)
  have "phase_ok roles (phase_to i Replied s) j" for j
    using unknown phase_ok_other [of roles s j "phase_to i Replied s"]
    by (cases "j = i") (auto simp: calls_inv_def phase_to_def phase_ok_def)
  then show ?case using unknown by (force simp: calls_inv_def locks_ok_def holders_ok_def phase_to_def)
next
  case (ask s i role l s1)
  have inv: "locks_ok roles s" "phase_ok roles s j" "holders_ok s" for j using ask.prems by (simp_all add: calls_inv_def)
  have "role \<in> roles" using inv(2) [of i] ask.hyps(1) by (simp add: phase_ok_def)
  note e = execLockFor_ok [OF inv(1) this ask.hyps(2)]
  have "phase_ok roles (phase_to i (Waiting role l) s1) j" for j
    using e inv(2) [of j] phase_ok_other [of roles s j "phase_to i (Waiting role l) s1"]
    by (cases "j = i") (auto simp: phase_to_def phase_ok_def)
  moreover have "holders_ok (phase_to i (Waiting role l) s1)"
    using e inv(3) ask.hyps(1) by (force simp: holders_ok_def phase_to_def)
  ultimately show ?case using e by (simp add: calls_inv_def locks_ok_def phase_to_def)
next
  case (acquire s i role l)
  let ?t = "phase_to i (Running role l) (s\<lparr>ls_holder := (ls_holder s)(l := Some i)\<rparr>)"
  have inv: "locks_ok roles s" "phase_ok roles s j" "holders_ok s" for j using acquire.prems by (simp_all add: calls_inv_def)
  have "phase_ok roles ?t j" for j
    using inv(2) [of j] acquire.hyps phase_ok_other [of roles s j ?t]
    by (cases "j = i") (auto simp: phase_to_def phase_ok_def)
  moreover have "holders_ok ?t" using inv(3) acquire.hyps by (force simp: holders_ok_def phase_to_def)
  ultimately show ?case using inv(1) by (simp add: calls_inv_def locks_ok_def phase_to_def)
next
  case (reply s i role l)
  let ?t = "phase_to i Replied (s\<lparr>ls_holder := (ls_holder s)(l := None)\<rparr>)"
  have inv: "locks_ok roles s" "phase_ok roles s j" "holders_ok s" for j using reply.prems by (simp_all add: calls_inv_def)
  have "ls_holder s l = Some i" using inv(2) [of i] reply.hyps by (simp add: phase_ok_def)
  then have "phase_ok roles ?t j" for j
    using inv(2) [of j] phase_ok_other [of roles s j ?t]
    by (cases "j = i") (auto simp: phase_to_def phase_ok_def)
  moreover have "holders_ok ?t" using inv(3) reply.hyps by (force simp: holders_ok_def phase_to_def)
  ultimately show ?case using inv(1) by (simp add: calls_inv_def locks_ok_def phase_to_def)
qed

lemma calls_reachable: "(call_step roles)\<^sup>*\<^sup>* locks_init s \<Longrightarrow> calls_inv roles s"
  by (induction rule: rtranclp_induct) (auto intro: calls_inv_init calls_inv_step)

lemma running_holds:
  assumes "calls_inv roles s" "ls_phase s i = Running r l"
  shows "ls_locks s r = Some l \<and> ls_holder s l = Some i"
  using assms by (auto simp: calls_inv_def phase_ok_def split: call_phase.splits)

lemma waiting_knows:
  assumes "calls_inv roles s" "ls_phase s i = Waiting r l"
  shows "ls_locks s r = Some l"
  using assms by (auto simp: calls_inv_def phase_ok_def split: call_phase.splits)

text \<open>
  One run of an agent at a time. However calls interleave, no two of them run the agent of one role together; a call that waits either can go on
  at once or waits for a run of its own role; and locks are made only for roles the node has.
\<close>

theorem one_execution_per_role:
  assumes "(call_step roles)\<^sup>*\<^sup>* locks_init s"
  shows "(ls_phase s i = Running r l \<and> ls_phase s j = Running r k \<longrightarrow> i = j) \<and>
    (ls_phase s i = Waiting r l \<longrightarrow> (\<exists>s'. call_step roles s s' \<and> ls_phase s' i = Running r l) \<or> (\<exists>m. ls_phase s m = Running r l)) \<and>
    dom (ls_locks s) \<subseteq> roles"
proof (intro conjI impI)
  have inv: "calls_inv roles s" using assms by (rule calls_reachable)
  show "i = j" if h: "ls_phase s i = Running r l \<and> ls_phase s j = Running r k"
    using running_holds [OF inv, of i r l] running_holds [OF inv, of j r k] h by auto
  show "(\<exists>s'. call_step roles s s' \<and> ls_phase s' i = Running r l) \<or> (\<exists>m. ls_phase s m = Running r l)" if w: "ls_phase s i = Waiting r l"
  proof (cases "ls_holder s l")
    case None
    have "ls_phase (phase_to i (Running r l) (s\<lparr>ls_holder := (ls_holder s)(l \<mapsto> i)\<rparr>)) i = Running r l" by (simp add: phase_to_def)
    then show ?thesis using call_step.acquire [OF w None, of roles] by blast
  next
    case (Some m)
    then obtain q where q: "ls_phase s m = Running q l" using inv unfolding calls_inv_def holders_ok_def by blast
    have "q = r" using running_holds [OF inv q] waiting_knows [OF inv w] inv by (auto simp: calls_inv_def locks_ok_def)
    then show ?thesis using q by blast
  qed
  show "dom (ls_locks s) \<subseteq> roles" using inv by (auto simp: calls_inv_def locks_ok_def)
qed

theorem one_execution_per_role_witness:
  "\<exists>s. (call_step {''a''})\<^sup>*\<^sup>* locks_init s \<and> ls_phase s 0 = Running ''a'' 0 \<and> dom (ls_locks s) \<subseteq> {''a''}"
proof -
  let ?s1 = "phase_to 0 (Found ''a'') locks_init"
  let ?s2 = "phase_to 0 (Waiting ''a'' 0) (snd (execLockFor ''a'' ?s1))"
  let ?s3 = "phase_to 0 (Running ''a'' 0) (?s2\<lparr>ls_holder := (ls_holder ?s2)(0 \<mapsto> 0)\<rparr>)"
  have "call_step {''a''} locks_init ?s1" by (rule call_step.find) (simp_all add: locks_init_def)
  moreover have "execLockFor ''a'' ?s1 = (0, snd (execLockFor ''a'' ?s1))" by (simp add: execLockFor_def locks_init_def phase_to_def)
  then have "call_step {''a''} ?s1 ?s2" by (intro call_step.ask) (simp_all add: phase_to_def)
  moreover have "call_step {''a''} ?s2 ?s3"
    by (rule call_step.acquire) (simp_all add: phase_to_def execLockFor_def locks_init_def)
  ultimately have r: "(call_step {''a''})\<^sup>*\<^sup>* locks_init ?s3" by (meson converse_rtranclp_into_rtranclp rtranclp.rtrancl_refl)
  have "ls_phase ?s3 0 = Running ''a'' 0" by (simp add: phase_to_def)
  moreover have "dom (ls_locks ?s3) \<subseteq> {''a''}" using one_execution_per_role [OF r] by blast
  ultimately show ?thesis using r by blast
qed

section \<open>A remote agent is the local one\<close>

text \<open>
  A remote agent is the local one. When the connection carries requests to a node and its replies back, running a remote agent is running the
  agent that the node has for the role: with the same input, with the session as text, with the printed result, and with the text of its
  error. A role the node does not have is an error, and nothing runs.
\<close>

theorem remote_agent_exact:
  assumes "DialNode E (rm_Address r) = Inr conn"
    "\<And>q w. call (rm_Address r) conn q w = (case ms_DelegateTask fmt_v srv q w of (resp, w1) \<Rightarrow> (Inr resp, w1))"
  shows "rm_Execute fmt_v E call r input options w =
    (case mv_agents srv (rm_Role r) of
       None \<Rightarrow> (Inl (EMsg (''remote agent error: Agent with role '' @ [CHR 0x27] @ rm_Role r @ [CHR 0x27] @ '' not found on this mesh node'')), w)
     | Some a \<Rightarrow>
         (case a input [''session_id'' \<mapsto> VString (sprint fmt_v (case options ''session_id'' of Some v \<Rightarrow> v | None \<Rightarrow> VNil))] w of
            (Inl e, w1) \<Rightarrow> (Inl (EMsg (''remote agent error: '' @ err_text e)), w1)
          | (Inr v, w1) \<Rightarrow> (Inr (VString (sprint fmt_v v)), w1)))"
  using assms(1)
  by (auto simp: rm_Execute_def assms(2) ms_DelegateTask_def split: option.split sum.split prod.split)

definition node0 :: "nat MeshServer" where
  "node0 = ConnectMeshServerWithAgents [(''a'', \<lambda>i m w. (Inr (VString (i @ i)), w + 1))] None None"

theorem remote_agent_exact_witness:
  "rm_Execute (\<lambda>_. []) (menv (\<lambda>_. [])) (\<lambda>_ _ q w. case ms_DelegateTask (\<lambda>_. []) node0 q w of (resp, w1) \<Rightarrow> (Inr resp, w1))
     (NewRemoteAgent ''a'' [] [] ''localhost:1'' ''t'') ''x'' Map.empty 0 = (Inr (VString ''xx''), 1)"
proof -
  have h: "mesh_host ''localhost:1'' = ''localhost''" by code_simp
  have l: "IsLoopback (IP16 1)" by code_simp
  have d: "DialNode (menv (\<lambda>_. [])) (rm_Address (NewRemoteAgent ''a'' [] [] ''localhost:1'' ''t'')) = Inr DSkipVerify"
    by (simp add: NewRemoteAgent_def DialNode_def ResolveTransport_cases h trusted_local_def menv_def dial_with_def l)
  show ?thesis
    by (subst remote_agent_exact [OF d, where fmt_v = "\<lambda>_. []" and srv = node0])
      (simp_all add: node0_def ConnectMeshServerWithAgents_def NewMeshServer_def NewRemoteAgent_def sprint_def)
qed

text \<open>
  An error arrives as text, so no sentinel is recognised; a session that is not given is sent as \<open>''<nil>''\<close>; the token of the agent is never sent.
\<close>

lemma remote_errors_opaque:
  assumes "DialNode E (rm_Address r) = Inr conn"
    "\<And>q w. call (rm_Address r) conn q w = (case ms_DelegateTask fmt_v srv q w of (resp, w1) \<Rightarrow> (Inr resp, w1))"
    "rm_Execute fmt_v E call r input options w = (Inl e, w1)"
  shows "\<not> errors_is e t"
  using assms(1,3)
  by (auto simp: rm_Execute_def assms(2) ms_DelegateTask_def split: option.splits sum.splits prod.splits if_splits)

lemma token_unused: "rm_Execute fmt_v E call (r\<lparr>rm_AuthToken := t\<rparr>) input options w = rm_Execute fmt_v E call r input options w"
  by (simp add: rm_Execute_def cong: sum.case_cong)

text \<open>Two agents with one role: the node has the last of them.\<close>

lemma last_agent_wins: "mv_agents (ConnectMeshServerWithAgents as st em) = map_of (rev as)"
proof -
  have "fold (\<lambda>(role, a) m. m(role \<mapsto> a)) as m = m ++ map_of (rev as)" for m :: "string \<rightharpoonup> 'a local_agent"
    by (induction as arbitrary: m) auto
  then show ?thesis by (simp add: ConnectMeshServerWithAgents_def)
qed

text \<open>A remote search is the search of the node, whatever collection is named; every score is zero.\<close>

lemma remote_query_exact:
  assumes "DialNode E (rk_Address s) = Inr conn"
    "\<And>q w. call (rk_Address s) conn q w = (case ms_SearchKnowledge srv q w of (resp, w1) \<Rightarrow> (Inr resp, w1))"
    "mv_store srv = Some search" "mv_embedder srv = Some emb" "emb query w = (Inr v, w1)" "search v (sint (rk_K s)) w1 = (Inr rs, w2)"
  shows "rk_Query E call s query w =
    (Inr (''Results from Remote Knowledge Source:'' @ [CHR 0x0A] @
       format_snippets 1 (map (\<lambda>r. \<lparr>ks_Source = mi_ID r, ks_Score = 0, ks_Content = mi_Text r\<rparr>) rs)), w2)"
  using assms(1,3-6) by (simp add: rk_Query_def assms(2) ms_SearchKnowledge_def)

lemma collection_unused: "ms_SearchKnowledge srv (q\<lparr>sq_Collection := c\<rparr>) w = ms_SearchKnowledge srv q w"
  by (simp add: ms_SearchKnowledge_def cong: option.case_cong sum.case_cong prod.case_cong)

text \<open>The number of results is cut to 32 bits: in range it is what was asked for, beyond it may be negative.\<close>

lemma k_in_range: "- (2 ^ 31) \<le> k \<Longrightarrow> k < 2 ^ 31 \<Longrightarrow> sint (rk_K (NewRemoteKnowledgeSource a c k)) = k"
  by (simp add: NewRemoteKnowledgeSource_def signed_take_bit_int_eq_self sint_sbintrunc')

lemma k_wraps: "sint (rk_K (NewRemoteKnowledgeSource a c (2 ^ 31))) = - (2 ^ 31)"
  by (simp add: NewRemoteKnowledgeSource_def)

text \<open>The certificate of last resort names this machine only and is for one day.\<close>

lemma last_resort_certificate:
  assumes "cr_host R \<noteq> []"
  shows "ct_DNSNames (cert_tmpl n (cr_host R) (t, t)) = [''localhost'', cr_host R] \<and> list_all IsLoopback (ct_IPs (cert_tmpl n (cr_host R) (t, t))) \<and>
    ct_NotAfter (cert_tmpl n (cr_host R) (t, t)) - ct_NotBefore (cert_tmpl n (cr_host R) (t, t)) = (24 * 60 + 5) * 60 * second"
proof -
  have "IsLoopback (IP16 0xFFFF7F000001)" "IsLoopback (IP16 1)" by code_simp+
  then show ?thesis using assms by (simp add: cert_tmpl_def second_def)
qed

end
