(* ===== verification/Spec2Isabelle.thy ===== *)
theory Spec2Isabelle
  imports LLM_Client Flow_Graph Mem_Conversation Mem_Unified Flow_Persist Crew_Kickoff Agent_Props
    Pause_Control Event_Bus Review_Hub Knowledge_Ingest Crew_Checkpoint File_Tools Net_Guard Auth_Sign
    Agent_Card MCP_Transport Delegation API_Sessions Tool_Exec Http_Server Dashboard App_Config ADK_Adapter Mesh_Net
begin

text \<open>
  Verification development of gocrewwai, a Go framework that orchestrates language model agents.

  \<^bold>\<open>The program.\<close> A \<^emph>\<open>crew\<close> (\<^verbatim>\<open>pkg/crew\<close>) runs \<^emph>\<open>tasks\<close> (\<^verbatim>\<open>pkg/tasks\<close>) in one of several modes. A task asks its
  agent for a result, validates it against a schema and \<^emph>\<open>guardrails\<close> (\<^verbatim>\<open>pkg/guardrails\<close>) and retries.
  Agents talk to models through the \<^verbatim>\<open>Client\<close> interface (\<^verbatim>\<open>pkg/llm\<close>), wrapped by middleware for rate
  limits, timeouts, a circuit breaker and accounting, and by failover; they keep \<^emph>\<open>memory\<close>
  (\<^verbatim>\<open>pkg/memory\<close>). Independently of crews there are two \<^emph>\<open>flow\<close> engines: nodes in sequence over a shared
  map with events and persistence (\<^verbatim>\<open>pkg/flow\<close>), and a graph of step, router, parallel, map and reduce
  nodes with checkpoints (\<^verbatim>\<open>pkg/flows\<close>).

  \<^bold>\<open>Theories.\<close>
  \<^item> \<open>Go_Prelude\<close>: errors with wrapping, results, strings, decimal numerals, dynamic values.
  \<^item> \<open>LLM_Breaker\<close> (\<^verbatim>\<open>circuitbreaker.go\<close>): \<^verbatim>\<open>beforeCall\<close> and \<^verbatim>\<open>afterCall\<close> on the breaker record, and a step
    relation of interleaved calls; invariant of the reachable states, tripping, trials.
  \<^item> \<open>LLM_Usage\<close> (\<^verbatim>\<open>usage.go\<close>): tracker, price cache, global budget; exact totals, price priority.
  \<^item> \<open>LLM_Client\<close> (\<^verbatim>\<open>client.go\<close>, \<^verbatim>\<open>options.go\<close>, \<^verbatim>\<open>defaults.go\<close>, \<^verbatim>\<open>failover.go\<close>, \<^verbatim>\<open>middleware.go\<close>): the four
    client methods of each wrapper, the token bucket; rate bound, breaker invariant, failover.
  \<^item> \<open>Flow_Seq\<close> (\<^verbatim>\<open>flow.go\<close>, \<^verbatim>\<open>conditional.go\<close>, combinators of \<^verbatim>\<open>persistence.go\<close>): state maps in an explicit
    store; refinement of a sequential specification, isolation of parallel branches.
  \<^item> \<open>Go_Files\<close>, \<open>Flow_Persist\<close> (\<^verbatim>\<open>persistence.go\<close>, \<^verbatim>\<open>typed_flow.go\<close>): paths, glob patterns, a disk whose
    operations may fail, the file store behind the interface \<open>flow_store\<close>, crash recovery.
  \<^item> \<open>Flow_Graph\<close> (\<^verbatim>\<open>engine.go\<close>, \<^verbatim>\<open>state.go\<close>, \<^verbatim>\<open>checkpoint.go\<close>): node execution up to \<^verbatim>\<open>MaxFlowDepth\<close>,
    resume, checkpoints; step chains, the cycle guard, fan-in, the checkpoint round trip.
  \<^item> \<open>Mem_Store\<close>, \<open>Mem_Conversation\<close>, \<open>Mem_Unified\<close>: the in-memory stores behind the interfaces
    \<open>vector_store\<close> and \<open>thread_log\<close>, retries, unified memory with scopes; exact top-k search,
    scope containment, recall filters, erasure.
  \<^item> \<open>Guardrails\<close> (\<^verbatim>\<open>guardrails.go\<close>, \<^verbatim>\<open>parsers.go\<close>, \<^verbatim>\<open>sanitizer.go\<close>): the guardrail chain, filters and the
    sanitizer, over an arbitrary regular expression engine.
  \<^item> \<open>Crew_Task\<close> (\<^verbatim>\<open>task.go\<close>, \<^verbatim>\<open>validator.go\<close>): the task life cycle; no unguarded output, bounded retries.
  \<^item> \<open>Crew_Inputs\<close> (\<^verbatim>\<open>inputs.go\<close>): placeholder substitution; one pass suffices for plain values.
  \<^item> \<open>Crew_Exec\<close> (\<^verbatim>\<open>crew.go\<close>, \<^verbatim>\<open>async.go\<close>): sequential, graph, reflective and state machine modes over a heap
    of tasks; dependency order, completion, stopping at the first failure, cycle limits.
  \<^item> \<open>Crew_Kickoff\<close> (\<^verbatim>\<open>crew.go\<close>, \<^verbatim>\<open>state.go\<close>, \<^verbatim>\<open>agents/manager.go\<close>): the manager's delegation and plan, hierarchical
    mode with replanning, consensual mode, planning, the state file, \<^verbatim>\<open>Kickoff\<close> and \<^verbatim>\<open>Replay\<close>; nothing is
    left unprocessed, resuming from a state file, what a replay runs.
  \<^item> \<open>Agent_Loop\<close>, \<open>Agent_Props\<close> (\<^verbatim>\<open>agents/agent.go\<close>, \<^verbatim>\<open>reasoning.go\<close>): an agent's execution as a trace of model
    calls, reviews, tool runs and memory writes; the locale \<open>trace_contract\<close> lifts properties of the
    pieces to executions, interpreted for human review and for the equipped tools; budgets of
    model calls, alone and inside a task.
  \<^item> \<open>Crew_Checkpoint\<close> (\<^verbatim>\<open>crew/checkpoint.go\<close>): the checkpoint manager on the disk model; resuming from the
    latest checkpoint, what the clean-up keeps.
  \<^item> \<open>Pause_Control\<close>, \<open>Review_Hub\<close> (\<^verbatim>\<open>telemetry/events.go\<close>): the pause switch and human review as step relations
    over the goroutines involved, the registry of staged entities; nobody passes a paused switch,
    resuming lets everybody return, a review returns a decision somebody submitted.
  \<^item> \<open>Event_Bus\<close> (\<^verbatim>\<open>events/events.go\<close>, \<^verbatim>\<open>telemetry/events.go\<close>): two broadcast buses with buffered channels behind the
    locale \<open>broadcast\<close>; what a subscriber receives, exact removal of scoped handlers.
  \<^item> \<open>Knowledge_Split\<close>, \<open>Knowledge_Ingest\<close> (\<^verbatim>\<open>splitter.go\<close>, \<^verbatim>\<open>ingestion.go\<close>): overlapping windows of words, chunk
    identifiers, storing a document; equivalence with a window specification, all or nothing, and the
    stored chunks give the words of the document back.
  \<^item> \<open>File_Guard\<close>, \<open>File_Tools\<close> (\<^verbatim>\<open>utils/security.go\<close>, \<^verbatim>\<open>rootfs.go\<close>, \<^verbatim>\<open>matching.go\<close>, \<^verbatim>\<open>tools/file_*.go\<close>): path checks over a file
    system with symbolic links, root confined reading and writing, the edit tool; containment, and what
    an edit leaves in the file.
  \<^item> \<open>Net_Guard\<close> (\<^verbatim>\<open>utils/security.go\<close>, \<^verbatim>\<open>tools/ssrf.go\<close>): addresses as words, the URL check, the dialer and the
    redirects of the protected client; it connects to no blocked address.
  \<^item> \<open>Auth_Sign\<close> (\<^verbatim>\<open>auth/jwt.go\<close>, \<^verbatim>\<open>webhook/webhook.go\<close>): bearer tokens and webhook signatures over an arbitrary
    MAC, with base64 and 64-bit times; accepted means signed and in time, signed means accepted.
  \<^item> \<open>Delegation\<close> (\<^verbatim>\<open>pkg/delegation\<close>): the tools that hand work to a coworker, behind the locale
    \<open>coworker_tool\<close>, their injection, and the bridge to remote agents with bounded nesting.
  \<^item> \<open>A2A_Protocol\<close>, \<open>A2A_Client\<close>, \<open>Agent_Card\<close> (\<^verbatim>\<open>protocols/a2a.go\<close>, \<^verbatim>\<open>a2a_adapter.go\<close>, \<^verbatim>\<open>agentcard.go\<close>): payloads behind the
    locale \<open>payload_codec\<close>, registry, router, server and the handlers of an agent; the client with retries
    and a circuit breaker per endpoint; cards. A remote execution is the local one, a failing endpoint is
    spared, strangers run nothing, discovery is exact.
  \<^item> \<open>MCP_Server\<close>, \<open>MCP_Transport\<close> (\<^verbatim>\<open>protocols/mcp*.go\<close>): dispatch, client and bridges over the locale \<open>mcp_transport\<close>; the
    command check, the table of pending requests as a step relation, event streams, the stdio server.
  \<^item> \<open>Tool_Catalog\<close>, \<open>Tool_Exec\<close> (\<^verbatim>\<open>tools/registry.go\<close>, \<^verbatim>\<open>developer.go\<close>, \<^verbatim>\<open>calculator.go\<close>, \<^verbatim>\<open>shell.go\<close>, \<^verbatim>\<open>directory_tool.go\<close>,
    \<^verbatim>\<open>http_client.go\<close>): the tool factory, and the JSON, regular expression, calculator, shell, directory and HTTP tools;
    what a query returns, exactly which commands run, which addresses are contacted, the directories listed in error.
  \<^item> \<open>API_Gate\<close> (\<^verbatim>\<open>api/server.go\<close>): the rate limiter and the authentication of the HTTP API; the bound over every window, and an
    owner is the fingerprint of a token that was shown.
  \<^item> \<open>API_Kickoff\<close>, \<open>API_Sessions\<close> (\<^verbatim>\<open>api/handlers.go\<close>): the handlers. A request is a goroutine whose steps are what it does between
    two acquisitions of a lock, and a step relation interleaves all of them. One run per key, at most ten crews and
    one per session; sessions and keys that get stuck; the crew that is built; over the locale \<open>session_store\<close>, interpreted on
    the file store of \<open>Crew_Checkpoint\<close>, what a restarted server knows of its sessions.
  \<^item> \<open>Http_Server\<close> (\<^verbatim>\<open>server/server.go\<close>): the server for health, metrics and profiling, with API keys and a bucket for each address; what a
    bucket lets through, and whom it starves.
  \<^item> \<open>Dashboard\<close> (\<^verbatim>\<open>dashboard/dashboard.go\<close>): tokens, origins, the handlers over the registry of \<open>Review_Hub\<close> and the pause switch, the feeds of
    the web socket as a step relation; who may change something, and who sees reviews.
  \<^item> \<open>App_Config\<close> (\<^verbatim>\<open>config/config.go\<close>, \<^verbatim>\<open>registry.go\<close>, \<^verbatim>\<open>kv/conn.go\<close>): the configuration file with its variables, the registry of clients
    and connection settings; a second provider only where it is enabled, settings in range, an error that is reported once.
  \<^item> \<open>ADK_Adapter\<close> (\<^verbatim>\<open>adk/adapter.go\<close>): agents, tools, sessions and state for another framework, with the locale \<open>name_registry\<close>; tools are lent
    for one run, and a session is the transcript of its runs.
  \<^item> \<open>Mesh_Net\<close> (\<^verbatim>\<open>api/mesh_client.go\<close>, \<^verbatim>\<open>mesh_server.go\<close>, \<^verbatim>\<open>mesh_tls.go\<close>, \<^verbatim>\<open>mesh/dial.go\<close>, \<^verbatim>\<open>agents/remote_agent.go\<close>, \<^verbatim>\<open>memory/remote_source.go\<close>): the
    mesh of agents over gRPC. Who speaks plain text and who must show a certificate; the calls of a node and their locks as a step
    relation; a remote agent is the local one.

  \<^bold>\<open>Conventions.\<close> Strings are lists of bytes; case mapping and white space are those of ASCII.
  \<^verbatim>\<open>float64\<close> is \<open>real\<close>: rounding is not modelled. Times are integers of nanoseconds, \<open>0\<close> the zero time.
  Clock readings, wake-ups, HTTP replies, operating system failures, context states and what a
  human types are arguments or functions of the world. A method under a mutex is one atomic
  step; the completion order of goroutines is an argument, so theorems hold for each order.
  Panics, blocking and runs that never end are constructors of the outcome or \<open>None\<close>. The regular
  expression engine, RFC 3339 text, JSON of caller types and the tie order of \<^verbatim>\<open>sort.Slice\<close> are
  parameters.

  \<^bold>\<open>Bounds and fuel.\<close> Loops that the source bounds (retries, review rounds, cycle limits, flow
  depth) recurse on that bound. The substitution loop of \<open>Crew_Inputs\<close> is a partial function; that
  it returns for plain values, and that it does not for some others, is proved. So is \<open>ag_Execute\<close>, because a
  self-critique restarts it; that it returns without self-critique, and that it may not with it, is proved. Nested flow nodes
  of \<open>Flow_Seq\<close> take a nesting bound, \<open>None\<close> beyond it; its theorems fix the bound that is enough.

  \<^bold>\<open>Not modelled.\<close> Model providers and remote stores (network clients behind the interfaces),
  the builders of agents and crews, tools that only call external services, routing and start of the HTTP servers,
  logs and metrics, sandboxes, the command line.

  \<^bold>\<open>Plan.\<close> What is left with logic of its own: the task and agent builders, the
  remaining guardrails, the SQL checkpoint store.
\<close>

end
